(* ===== verification/Prelude.thy ===== *)
theory Prelude
  imports Main "HOL-Library.Word" "HOL-Library.Monad_Syntax"
begin

text \<open>
  What every component of the development shares: the C machine types, typed heaps with the
  failing load and store every pointer access goes through, and the generic lemmas about them.

  A heap is a partial map from 64-bit addresses to cells of one struct type. \<open>None\<close> as the
  result of an operation stands for a behaviour the C standard does not define (a null or
  dangling dereference, a double free) or for a loop that does not end; a theorem that an
  operation returns \<open>Some\<close> therefore states memory safety and termination together.
\<close>

unbundle bit_operations_syntax

subsection \<open>Machine types\<close>

type_synonym u8 = "8 word"
type_synonym u16 = "16 word"
type_synonym u32 = "32 word"
type_synonym u64 = "64 word"

type_synonym addr = "64 word"
type_synonym 'c heap = "addr \<rightharpoonup> 'c"

abbreviation NULL :: addr where
  "NULL \<equiv> 0"

subsection \<open>Fact collections\<close>

named_theorems heap_simps \<open>evaluation of loads and stores\<close>
named_theorems frame_simps \<open>assertions unaffected by a store elsewhere\<close>

subsection \<open>Typed heaps\<close>

definition load :: "'c heap \<Rightarrow> addr \<Rightarrow> 'c option" where
  "load h p = (if p = NULL then None else h p)"

definition rd :: "'c heap \<Rightarrow> addr \<Rightarrow> ('c \<Rightarrow> 'f) \<Rightarrow> 'f option" where
  "rd h p f = map_option f (load h p)"

definition upd :: "'c heap \<Rightarrow> addr \<Rightarrow> ('c \<Rightarrow> 'c) \<Rightarrow> 'c heap option" where
  "upd h p f = map_option (\<lambda>c. h(p \<mapsto> f c)) (load h p)"

definition release :: "'c heap \<Rightarrow> addr \<Rightarrow> 'c heap option" where
  "release h p = map_option (\<lambda>_. h(p := None)) (load h p)"

lemma load_NULL [simp, heap_simps]: "load h NULL = None"
  by (simp add: load_def)

lemma load_Some [simp, heap_simps]: "p \<noteq> NULL \<Longrightarrow> load h p = h p"
  by (simp add: load_def)

lemma rd_Some [simp, heap_simps]: "p \<noteq> NULL \<Longrightarrow> h p = Some c \<Longrightarrow> rd h p f = Some (f c)"
  by (simp add: rd_def)

lemma rd_NULL [simp, heap_simps]: "rd h NULL f = None"
  by (simp add: rd_def)

lemma upd_Some [simp, heap_simps]:
  "p \<noteq> NULL \<Longrightarrow> h p = Some c \<Longrightarrow> upd h p f = Some (h(p \<mapsto> f c))"
  by (simp add: upd_def)

lemma upd_NULL [simp, heap_simps]: "upd h NULL f = None"
  by (simp add: upd_def)

lemma release_Some [simp, heap_simps]:
  "p \<noteq> NULL \<Longrightarrow> h p = Some c \<Longrightarrow> release h p = Some (h(p := None))"
  by (simp add: release_def)

text \<open>
  Weak congruence for the monad: when a closed program is evaluated by the simplifier, the
  continuation is left alone until its argument is a value, so loops unfold one step at a time.
\<close>

lemma bind_weak_cong: "m = m' \<Longrightarrow> Option.bind m f = Option.bind m' f"
  by simp

lemma map_option_weak_cong: "m = m' \<Longrightarrow> map_option f m = map_option f m'"
  by simp

lemma bind_Some_iff: "Option.bind m f = Some y \<longleftrightarrow> (\<exists>x. m = Some x \<and> f x = Some y)"
  by (cases m) auto

subsection \<open>Programs that may exit\<close>

text \<open>
  \<open>Undefined\<close> plays the part of \<open>None\<close>; \<open>Exit\<close> is a call of \<^verbatim>\<open>exit\<close>, which ends the program in a
  defined way; \<open>Return x\<close> is a normal return.
\<close>

datatype 'a run = Undefined | Exit | Return 'a

definition seq :: "'a run \<Rightarrow> ('a \<Rightarrow> 'b run) \<Rightarrow> 'b run" where
  "seq m f = (case m of Undefined \<Rightarrow> Undefined | Exit \<Rightarrow> Exit | Return x \<Rightarrow> f x)"

definition lift :: "'a option \<Rightarrow> 'a run" where
  "lift m = (case m of None \<Rightarrow> Undefined | Some x \<Rightarrow> Return x)"

lemma seq_simps [simp]:
  "seq Undefined f = Undefined" "seq Exit f = Exit" "seq (Return x) f = f x"
  by (simp_all add: seq_def)

lemma lift_simps [simp]: "lift None = Undefined" "lift (Some x) = Return x"
  by (simp_all add: lift_def)

lemma seq_weak_cong: "m = m' \<Longrightarrow> seq m f = seq m' f"
  by simp

subsection \<open>Arrays\<close>

text \<open>A C array is a list of its length; an access outside it is undefined.\<close>

definition arr_get :: "'a list \<Rightarrow> nat \<Rightarrow> 'a option" where
  "arr_get xs i = (if i < length xs then Some (xs ! i) else None)"

definition arr_set :: "'a list \<Rightarrow> nat \<Rightarrow> 'a \<Rightarrow> 'a list option" where
  "arr_set xs i x = (if i < length xs then Some (xs[i := x]) else None)"

lemma arr_get_Some [simp]: "i < length xs \<Longrightarrow> arr_get xs i = Some (xs ! i)"
  by (simp add: arr_get_def)

lemma arr_set_Some [simp]: "i < length xs \<Longrightarrow> arr_set xs i x = Some (xs[i := x])"
  by (simp add: arr_set_def)

subsection \<open>Strings\<close>

text \<open>
  The bytes of a string before its terminator; without one, reading the string leaves the array and is undefined. What a log line prints
  with \<^verbatim>\<open>%s\<close> is read in the same way.
\<close>

primrec c_string :: "u8 list \<Rightarrow> u8 list option" where
  "c_string [] = None"
| "c_string (c # cs) = (if c = 0 then Some [] else map_option (Cons c) (c_string cs))"

lemma c_string_append: "0 \<notin> set s \<Longrightarrow> c_string (s @ 0 # t) = Some s"
  by (induction s) auto

lemma c_string_terminated: "0 \<in> set s \<Longrightarrow> \<exists>r. c_string s = Some r"
  by (induction s) auto

lemma c_string_unterminated: "0 \<notin> set s \<Longrightarrow> c_string s = None"
  by (induction s) auto

end
