(* ===== verification/RBTree.thy ===== *)
theory RBTree
  imports Prelude
begin

text \<open>
  The intrusive red-black tree of \<^verbatim>\<open>Common/Compement/src/MemManager/rbtree.c\<close> (the same
  file is kept a second time as \<^verbatim>\<open>algorithms_datastructures/rbtree/rbtree.c\<close>), as the C
  code has it: a heap of nodes with a parent pointer whose low bits hold the colour, and
  operations that rewrite the links of that heap in the order of the source. The struct is a
  record and the heap is polymorphic in its extension, so a struct that embeds a node at offset
  0 (\<^verbatim>\<open>struct my_node\<close> of the memory pool) is an extension of the record, and
  \<^verbatim>\<open>container_of\<close> is the identity.
\<close>

subsection \<open>The node\<close>

record rb_node =
  rb_parent_color :: u64
  rb_right :: addr
  rb_left :: addr

type_synonym 'a rb_heap = "'a rb_node_scheme heap"
type_synonym 'a rb_state = "'a rb_heap \<times> addr"

definition rb_parent :: "'a rb_node_scheme \<Rightarrow> addr" where
  "rb_parent r = rb_parent_color r AND NOT 3"

definition rb_color :: "'a rb_node_scheme \<Rightarrow> u64" where
  "rb_color r = rb_parent_color r AND 1"

definition rb_is_red :: "'a rb_node_scheme \<Rightarrow> bool" where
  "rb_is_red r \<longleftrightarrow> rb_color r = 0"

definition rb_is_black :: "'a rb_node_scheme \<Rightarrow> bool" where
  "rb_is_black r \<longleftrightarrow> rb_color r \<noteq> 0"

definition rb_set_red :: "'a rb_node_scheme \<Rightarrow> 'a rb_node_scheme" where
  "rb_set_red r = r\<lparr>rb_parent_color := rb_parent_color r AND NOT 1\<rparr>"

definition rb_set_black :: "'a rb_node_scheme \<Rightarrow> 'a rb_node_scheme" where
  "rb_set_black r = r\<lparr>rb_parent_color := rb_parent_color r OR 1\<rparr>"

definition rb_set_parent :: "addr \<Rightarrow> 'a rb_node_scheme \<Rightarrow> 'a rb_node_scheme" where
  "rb_set_parent p rb = rb\<lparr>rb_parent_color := (rb_parent_color rb AND 3) OR p\<rparr>"

definition rb_set_color :: "u64 \<Rightarrow> 'a rb_node_scheme \<Rightarrow> 'a rb_node_scheme" where
  "rb_set_color color rb = rb\<lparr>rb_parent_color := (rb_parent_color rb AND NOT 1) OR color\<rparr>"

abbreviation set_left :: "addr \<Rightarrow> 'a rb_node_scheme \<Rightarrow> 'a rb_node_scheme" where
  "set_left p \<equiv> rb_left_update (\<lambda>_. p)"

abbreviation set_right :: "addr \<Rightarrow> 'a rb_node_scheme \<Rightarrow> 'a rb_node_scheme" where
  "set_right p \<equiv> rb_right_update (\<lambda>_. p)"

definition rb_init_node :: "addr \<Rightarrow> 'a rb_heap \<Rightarrow> 'a rb_heap option" where
  "rb_init_node rb h = do {
     h \<leftarrow> upd h rb (\<lambda>n. n\<lparr>rb_parent_color := 0\<rparr>);
     h \<leftarrow> upd h rb (set_right NULL);
     h \<leftarrow> upd h rb (set_left NULL);
     upd h rb (rb_set_parent rb)
   }"

text \<open>
  A \<^verbatim>\<open>struct rb_node **\<close> points at the root pointer or at a child field of a node.
\<close>

datatype rb_link = Link_root | Link_left addr | Link_right addr

definition read_link :: "rb_link \<Rightarrow> 'a rb_state \<Rightarrow> addr option" where
  "read_link lnk s = (case lnk of
       Link_root \<Rightarrow> Some (snd s)
     | Link_left a \<Rightarrow> rd (fst s) a rb_left
     | Link_right a \<Rightarrow> rd (fst s) a rb_right)"

definition write_link :: "rb_link \<Rightarrow> addr \<Rightarrow> 'a rb_state \<Rightarrow> 'a rb_state option" where
  "write_link lnk p s = (case lnk of
       Link_root \<Rightarrow> Some (fst s, p)
     | Link_left a \<Rightarrow> do { h \<leftarrow> upd (fst s) a (set_left p); Some (h, snd s) }
     | Link_right a \<Rightarrow> do { h \<leftarrow> upd (fst s) a (set_right p); Some (h, snd s) })"

definition rb_link_node :: "addr \<Rightarrow> addr \<Rightarrow> rb_link \<Rightarrow> 'a rb_state \<Rightarrow> 'a rb_state option" where
  "rb_link_node node parent lnk s = do {
     h \<leftarrow> upd (fst s) node (\<lambda>n. n\<lparr>rb_parent_color := parent\<rparr>);
     h \<leftarrow> upd h node (set_right NULL);
     h \<leftarrow> upd h node (set_left NULL);
     write_link lnk node (h, snd s)
   }"

subsection \<open>Rotations\<close>

text \<open>
  Two statements the file repeats in every function. \<open>adopt\<close> is
  \<^verbatim>\<open>if (child) rb_set_parent(child, p);\<close>. \<open>relink\<close> makes the parent of \<open>old\<close> (or the root
  pointer, when there is none) point at \<open>new\<close>: the code compares \<open>old\<close> with the left child in
  most places and with the right child in \<^verbatim>\<open>__rb_rotate_right\<close>.
\<close>

definition adopt :: "addr \<Rightarrow> addr \<Rightarrow> 'a rb_heap \<Rightarrow> 'a rb_heap option" where
  "adopt child p h = (if child \<noteq> NULL then upd h child (rb_set_parent p) else Some h)"

definition relink_left :: "addr \<Rightarrow> addr \<Rightarrow> addr \<Rightarrow> 'a rb_state \<Rightarrow> 'a rb_state option" where
  "relink_left parent old new s =
     (if parent \<noteq> NULL then do {
        pl \<leftarrow> rd (fst s) parent rb_left;
        h \<leftarrow> (if old = pl then upd (fst s) parent (set_left new)
              else upd (fst s) parent (set_right new));
        Some (h, snd s)
      } else Some (fst s, new))"

definition relink_right :: "addr \<Rightarrow> addr \<Rightarrow> addr \<Rightarrow> 'a rb_state \<Rightarrow> 'a rb_state option" where
  "relink_right parent old new s =
     (if parent \<noteq> NULL then do {
        pr \<leftarrow> rd (fst s) parent rb_right;
        h \<leftarrow> (if old = pr then upd (fst s) parent (set_right new)
              else upd (fst s) parent (set_left new));
        Some (h, snd s)
      } else Some (fst s, new))"

definition rb_rotate_left :: "addr \<Rightarrow> 'a rb_state \<Rightarrow> 'a rb_state option" where
  "rb_rotate_left node s = do {
     right \<leftarrow> rd (fst s) node rb_right;
     parent \<leftarrow> rd (fst s) node rb_parent;
     rl \<leftarrow> rd (fst s) right rb_left;
     h \<leftarrow> upd (fst s) node (set_right rl);
     h \<leftarrow> adopt rl node h;
     h \<leftarrow> upd h right (set_left node);
     h \<leftarrow> upd h right (rb_set_parent parent);
     s \<leftarrow> relink_left parent node right (h, snd s);
     h \<leftarrow> upd (fst s) node (rb_set_parent right);
     Some (h, snd s)
   }"

definition rb_rotate_right :: "addr \<Rightarrow> 'a rb_state \<Rightarrow> 'a rb_state option" where
  "rb_rotate_right node s = do {
     left \<leftarrow> rd (fst s) node rb_left;
     parent \<leftarrow> rd (fst s) node rb_parent;
     lr \<leftarrow> rd (fst s) left rb_right;
     h \<leftarrow> upd (fst s) node (set_left lr);
     h \<leftarrow> adopt lr node h;
     h \<leftarrow> upd h left (set_right node);
     h \<leftarrow> upd h left (rb_set_parent parent);
     s \<leftarrow> relink_right parent node left (h, snd s);
     h \<leftarrow> upd (fst s) node (rb_set_parent left);
     Some (h, snd s)
   }"

subsection \<open>Rebalancing after an insertion\<close>

text \<open>
  \<open>is_red_node\<close> is the test \<^verbatim>\<open>p && rb_is_red(p)\<close> the loop makes on the parent and on the uncle.
  The two halves of the loop body are mirror images; each returns the node the next iteration
  starts from, as the C code's \<^verbatim>\<open>continue\<close> and the fall-through at its end do.
\<close>

definition is_red_node :: "'a rb_heap \<Rightarrow> addr \<Rightarrow> bool option" where
  "is_red_node h p = (if p \<noteq> NULL then rd h p rb_is_red else Some False)"

definition insert_color_left ::
    "addr \<Rightarrow> addr \<Rightarrow> addr \<Rightarrow> 'a rb_state \<Rightarrow> (addr \<times> 'a rb_state) option" where
  "insert_color_left node parent gparent s = do {
     let h = fst s;
     uncle \<leftarrow> rd h gparent rb_right;
     ured \<leftarrow> is_red_node h uncle;
     if ured then do {
       h \<leftarrow> upd h uncle rb_set_black;
       h \<leftarrow> upd h parent rb_set_black;
       h \<leftarrow> upd h gparent rb_set_red;
       Some (gparent, (h, snd s))
     } else do {
       pr \<leftarrow> rd h parent rb_right;
       (node, parent, s) \<leftarrow> (if pr = node then do {
             s \<leftarrow> rb_rotate_left parent s;
             Some (parent, node, s)
           } else Some (node, parent, s));
       h \<leftarrow> upd (fst s) parent rb_set_black;
       h \<leftarrow> upd h gparent rb_set_red;
       s \<leftarrow> rb_rotate_right gparent (h, snd s);
       Some (node, s)
     }
   }"

definition insert_color_right ::
    "addr \<Rightarrow> addr \<Rightarrow> addr \<Rightarrow> 'a rb_state \<Rightarrow> (addr \<times> 'a rb_state) option" where
  "insert_color_right node parent gparent s = do {
     let h = fst s;
     uncle \<leftarrow> rd h gparent rb_left;
     ured \<leftarrow> is_red_node h uncle;
     if ured then do {
       h \<leftarrow> upd h uncle rb_set_black;
       h \<leftarrow> upd h parent rb_set_black;
       h \<leftarrow> upd h gparent rb_set_red;
       Some (gparent, (h, snd s))
     } else do {
       pl \<leftarrow> rd h parent rb_left;
       (node, parent, s) \<leftarrow> (if pl = node then do {
             s \<leftarrow> rb_rotate_right parent s;
             Some (parent, node, s)
           } else Some (node, parent, s));
       h \<leftarrow> upd (fst s) parent rb_set_black;
       h \<leftarrow> upd h gparent rb_set_red;
       s \<leftarrow> rb_rotate_left gparent (h, snd s);
       Some (node, s)
     }
   }"

partial_function (option) insert_color_loop :: "addr \<Rightarrow> 'a rb_state \<Rightarrow> 'a rb_state option" where
  "insert_color_loop node s = do {
     parent \<leftarrow> rd (fst s) node rb_parent;
     pred \<leftarrow> is_red_node (fst s) parent;
     if pred then do {
       gparent \<leftarrow> rd (fst s) parent rb_parent;
       gl \<leftarrow> rd (fst s) gparent rb_left;
       (node, s) \<leftarrow> (if parent = gl then insert_color_left node parent gparent s
                     else insert_color_right node parent gparent s);
       insert_color_loop node s
     } else Some s
   }"

definition rb_insert_color :: "addr \<Rightarrow> 'a rb_state \<Rightarrow> 'a rb_state option" where
  "rb_insert_color node s = do {
     (h, root) \<leftarrow> insert_color_loop node s;
     h \<leftarrow> upd h root rb_set_black;
     Some (h, root)
   }"

subsection \<open>Removal\<close>

text \<open>
  \<^verbatim>\<open>is_black_or_null\<close> is the test \<^verbatim>\<open>!p || rb_is_black(p)\<close> the rebalancing loop makes three
  times. Each half of the loop body ends with the pair (node, parent) of the next iteration and
  whether the loop is left by \<^verbatim>\<open>break\<close>.
\<close>

definition is_black_or_null :: "'a rb_heap \<Rightarrow> addr \<Rightarrow> bool option" where
  "is_black_or_null h p = (if p = NULL then Some True else rd h p rb_is_black)"

definition erase_color_left ::
    "addr \<Rightarrow> addr \<Rightarrow> 'a rb_state \<Rightarrow> (addr \<times> addr \<times> bool \<times> 'a rb_state) option" where
  "erase_color_left node parent s = do {
     oth \<leftarrow> rd (fst s) parent rb_right;
     ored \<leftarrow> rd (fst s) oth rb_is_red;
     (oth, s) \<leftarrow> (if ored then do {
           h \<leftarrow> upd (fst s) oth rb_set_black;
           h \<leftarrow> upd h parent rb_set_red;
           s \<leftarrow> rb_rotate_left parent (h, snd s);
           oth \<leftarrow> rd (fst s) parent rb_right;
           Some (oth, s)
         } else Some (oth, s));
     ol \<leftarrow> rd (fst s) oth rb_left;
     lb \<leftarrow> is_black_or_null (fst s) ol;
     or \<leftarrow> rd (fst s) oth rb_right;
     rb \<leftarrow> is_black_or_null (fst s) or;
     if lb \<and> rb then do {
       h \<leftarrow> upd (fst s) oth rb_set_red;
       pp \<leftarrow> rd h parent rb_parent;
       Some (parent, pp, False, (h, snd s))
     } else do {
       (oth, s) \<leftarrow> (if rb then do {
             h \<leftarrow> upd (fst s) ol rb_set_black;
             h \<leftarrow> upd h oth rb_set_red;
             s \<leftarrow> rb_rotate_right oth (h, snd s);
             oth \<leftarrow> rd (fst s) parent rb_right;
             Some (oth, s)
           } else Some (oth, s));
       pc \<leftarrow> rd (fst s) parent rb_color;
       h \<leftarrow> upd (fst s) oth (rb_set_color pc);
       h \<leftarrow> upd h parent rb_set_black;
       or \<leftarrow> rd h oth rb_right;
       h \<leftarrow> upd h or rb_set_black;
       s \<leftarrow> rb_rotate_left parent (h, snd s);
       Some (snd s, parent, True, s)
     }
   }"

definition erase_color_right ::
    "addr \<Rightarrow> addr \<Rightarrow> 'a rb_state \<Rightarrow> (addr \<times> addr \<times> bool \<times> 'a rb_state) option" where
  "erase_color_right node parent s = do {
     oth \<leftarrow> rd (fst s) parent rb_left;
     ored \<leftarrow> rd (fst s) oth rb_is_red;
     (oth, s) \<leftarrow> (if ored then do {
           h \<leftarrow> upd (fst s) oth rb_set_black;
           h \<leftarrow> upd h parent rb_set_red;
           s \<leftarrow> rb_rotate_right parent (h, snd s);
           oth \<leftarrow> rd (fst s) parent rb_left;
           Some (oth, s)
         } else Some (oth, s));
     ol \<leftarrow> rd (fst s) oth rb_left;
     lb \<leftarrow> is_black_or_null (fst s) ol;
     or \<leftarrow> rd (fst s) oth rb_right;
     rb \<leftarrow> is_black_or_null (fst s) or;
     if lb \<and> rb then do {
       h \<leftarrow> upd (fst s) oth rb_set_red;
       pp \<leftarrow> rd h parent rb_parent;
       Some (parent, pp, False, (h, snd s))
     } else do {
       (oth, s) \<leftarrow> (if lb then do {
             h \<leftarrow> upd (fst s) or rb_set_black;
             h \<leftarrow> upd h oth rb_set_red;
             s \<leftarrow> rb_rotate_left oth (h, snd s);
             oth \<leftarrow> rd (fst s) parent rb_left;
             Some (oth, s)
           } else Some (oth, s));
       pc \<leftarrow> rd (fst s) parent rb_color;
       h \<leftarrow> upd (fst s) oth (rb_set_color pc);
       h \<leftarrow> upd h parent rb_set_black;
       ol \<leftarrow> rd h oth rb_left;
       h \<leftarrow> upd h ol rb_set_black;
       s \<leftarrow> rb_rotate_right parent (h, snd s);
       Some (snd s, parent, True, s)
     }
   }"

partial_function (option) erase_color_loop ::
    "addr \<Rightarrow> addr \<Rightarrow> 'a rb_state \<Rightarrow> (addr \<times> 'a rb_state) option" where
  "erase_color_loop node parent s = do {
     nb \<leftarrow> is_black_or_null (fst s) node;
     if nb \<and> node \<noteq> snd s then do {
       pl \<leftarrow> rd (fst s) parent rb_left;
       (node, parent, brk, s) \<leftarrow> (if pl = node then erase_color_left node parent s
                                 else erase_color_right node parent s);
       if brk then Some (node, s) else erase_color_loop node parent s
     } else Some (node, s)
   }"

definition rb_erase_color :: "addr \<Rightarrow> addr \<Rightarrow> 'a rb_state \<Rightarrow> 'a rb_state option" where
  "rb_erase_color node parent s = do {
     (node, (h, root)) \<leftarrow> erase_color_loop node parent s;
     h \<leftarrow> (if node \<noteq> NULL then upd h node rb_set_black else Some h);
     Some (h, root)
   }"

partial_function (option) leftmost :: "'a rb_heap \<Rightarrow> addr \<Rightarrow> addr option" where
  "leftmost h n = do {
     l \<leftarrow> rd h n rb_left;
     if l \<noteq> NULL then leftmost h l else Some n
   }"

partial_function (option) rightmost :: "'a rb_heap \<Rightarrow> addr \<Rightarrow> addr option" where
  "rightmost h n = do {
     r \<leftarrow> rd h n rb_right;
     if r \<noteq> NULL then rightmost h r else Some n
   }"

text \<open>
  The unlinking step of \<^verbatim>\<open>rb_erase\<close> on its two paths. Both return what the tail of the C
  function needs: the child that took the place, its parent and the colour that went away.
\<close>

definition erase_one_child ::
    "addr \<Rightarrow> addr \<Rightarrow> 'a rb_state \<Rightarrow> (addr \<times> addr \<times> u64 \<times> 'a rb_state) option" where
  "erase_one_child node child s = do {
     parent \<leftarrow> rd (fst s) node rb_parent;
     color \<leftarrow> rd (fst s) node rb_color;
     h \<leftarrow> adopt child parent (fst s);
     s \<leftarrow> relink_left parent node child (h, snd s);
     Some (child, parent, color, s)
   }"

definition erase_two_children ::
    "addr \<Rightarrow> 'a rb_state \<Rightarrow> (addr \<times> addr \<times> u64 \<times> 'a rb_state) option" where
  "erase_two_children old s = do {
     right \<leftarrow> rd (fst s) old rb_right;
     node \<leftarrow> leftmost (fst s) right;
     op \<leftarrow> rd (fst s) old rb_parent;
     s \<leftarrow> relink_left op old node s;
     child \<leftarrow> rd (fst s) node rb_right;
     parent \<leftarrow> rd (fst s) node rb_parent;
     color \<leftarrow> rd (fst s) node rb_color;
     (parent, h) \<leftarrow> (if parent = old then Some (node, fst s) else do {
             h \<leftarrow> adopt child parent (fst s);
             h \<leftarrow> upd h parent (set_left child);
             oright \<leftarrow> rd h old rb_right;
             h \<leftarrow> upd h node (set_right oright);
             h \<leftarrow> upd h oright (rb_set_parent node);
             Some (parent, h)
           });
     opc \<leftarrow> rd h old rb_parent_color;
     h \<leftarrow> upd h node (\<lambda>n. n\<lparr>rb_parent_color := opc\<rparr>);
     oleft \<leftarrow> rd h old rb_left;
     h \<leftarrow> upd h node (set_left oleft);
     h \<leftarrow> upd h oleft (rb_set_parent node);
     Some (child, parent, color, (h, snd s))
   }"

definition rb_erase :: "addr \<Rightarrow> 'a rb_state \<Rightarrow> 'a rb_state option" where
  "rb_erase node s = do {
     l \<leftarrow> rd (fst s) node rb_left;
     r \<leftarrow> rd (fst s) node rb_right;
     (child, parent, color, s) \<leftarrow>
       (if l = NULL then erase_one_child node r s
        else if r = NULL then erase_one_child node l s
        else erase_two_children node s);
     if color = 1 then rb_erase_color child parent s else Some s
   }"

subsection \<open>Augmented trees\<close>

text \<open>
  The augmentation callback is a function pointer of the caller: a parameter that maps a node
  and the heap to the new heap.
\<close>

partial_function (option) rb_augment_path ::
    "(addr \<Rightarrow> 'a rb_heap \<Rightarrow> 'a rb_heap option) \<Rightarrow> addr \<Rightarrow> 'a rb_heap \<Rightarrow> 'a rb_heap option" where
  "rb_augment_path func node h = do {
     h \<leftarrow> func node h;
     parent \<leftarrow> rd h node rb_parent;
     if parent = NULL then Some h
     else do {
       pl \<leftarrow> rd h parent rb_left;
       pr \<leftarrow> rd h parent rb_right;
       h \<leftarrow> (if node = pl \<and> pr \<noteq> NULL then func pr h
             else if pl \<noteq> NULL then func pl h
             else Some h);
       rb_augment_path func parent h
     }
   }"

definition rb_augment_insert ::
    "addr \<Rightarrow> (addr \<Rightarrow> 'a rb_heap \<Rightarrow> 'a rb_heap option) \<Rightarrow> 'a rb_heap \<Rightarrow> 'a rb_heap option" where
  "rb_augment_insert node func h = do {
     l \<leftarrow> rd h node rb_left;
     r \<leftarrow> rd h node rb_right;
     rb_augment_path func (if l \<noteq> NULL then l else if r \<noteq> NULL then r else node) h
   }"

definition rb_augment_erase_end ::
    "addr \<Rightarrow> (addr \<Rightarrow> 'a rb_heap \<Rightarrow> 'a rb_heap option) \<Rightarrow> 'a rb_heap \<Rightarrow> 'a rb_heap option" where
  "rb_augment_erase_end node func h =
     (if node \<noteq> NULL then rb_augment_path func node h else Some h)"

subsection \<open>Traversal\<close>

definition rb_first :: "'a rb_state \<Rightarrow> addr option" where
  "rb_first s = (if snd s = NULL then Some NULL else leftmost (fst s) (snd s))"

definition rb_last :: "'a rb_state \<Rightarrow> addr option" where
  "rb_last s = (if snd s = NULL then Some NULL else rightmost (fst s) (snd s))"

partial_function (option) climb_from_right :: "'a rb_heap \<Rightarrow> addr \<Rightarrow> addr option" where
  "climb_from_right h node = do {
     parent \<leftarrow> rd h node rb_parent;
     if parent = NULL then Some parent
     else do {
       pr \<leftarrow> rd h parent rb_right;
       if node = pr then climb_from_right h parent else Some parent
     }
   }"

partial_function (option) climb_from_left :: "'a rb_heap \<Rightarrow> addr \<Rightarrow> addr option" where
  "climb_from_left h node = do {
     parent \<leftarrow> rd h node rb_parent;
     if parent = NULL then Some parent
     else do {
       pl \<leftarrow> rd h parent rb_left;
       if node = pl then climb_from_left h parent else Some parent
     }
   }"

definition rb_next :: "'a rb_heap \<Rightarrow> addr \<Rightarrow> addr option" where
  "rb_next h node = do {
     p \<leftarrow> rd h node rb_parent;
     if p = node then Some NULL
     else do {
       r \<leftarrow> rd h node rb_right;
       if r \<noteq> NULL then leftmost h r else climb_from_right h node
     }
   }"

definition rb_prev :: "'a rb_heap \<Rightarrow> addr \<Rightarrow> addr option" where
  "rb_prev h node = do {
     p \<leftarrow> rd h node rb_parent;
     if p = node then Some NULL
     else do {
       l \<leftarrow> rd h node rb_left;
       if l \<noteq> NULL then rightmost h l else climb_from_left h node
     }
   }"

definition rb_augment_erase_begin :: "addr \<Rightarrow> 'a rb_heap \<Rightarrow> addr option" where
  "rb_augment_erase_begin node h = do {
     l \<leftarrow> rd h node rb_left;
     r \<leftarrow> rd h node rb_right;
     if r = NULL \<and> l = NULL then rd h node rb_parent
     else if r = NULL then Some l
     else if l = NULL then Some r
     else do {
       deepest \<leftarrow> rb_next h node;
       dr \<leftarrow> rd h deepest rb_right;
       dp \<leftarrow> rd h deepest rb_parent;
       Some (if dr \<noteq> NULL then dr else if dp \<noteq> node then dp else deepest)
     }
   }"

definition rb_replace_node :: "addr \<Rightarrow> addr \<Rightarrow> 'a rb_state \<Rightarrow> 'a rb_state option" where
  "rb_replace_node victim node_new s = do {
     parent \<leftarrow> rd (fst s) victim rb_parent;
     s \<leftarrow> relink_left parent victim node_new s;
     vl \<leftarrow> rd (fst s) victim rb_left;
     h \<leftarrow> adopt vl node_new (fst s);
     vr \<leftarrow> rd h victim rb_right;
     h \<leftarrow> adopt vr node_new h;
     v \<leftarrow> load h victim;
     h \<leftarrow> upd h node_new (\<lambda>n. rb_node.extend (rb_node.truncate v) (rb_node.more n));
     Some (h, snd s)
   }"

end
