(* ===== verification/RBRep.thy ===== *)
theory RBRep
  imports RBTree
begin

text \<open>
  The abstraction of the node heap: a labelled tree whose labels are the node addresses, and a
  zipper (a subtree and the frames on the way up to the root) for the algorithms that move
  along parent pointers. \<open>zrep h root t fs\<close> says that the heap holds the subtree \<open>t\<close> below the
  frames \<open>fs\<close>. The five lemmas at the end (recolouring and rotating the focused node) are the only
  places where the loops of the C code meet the heap: everything above them works on zippers.
\<close>

subsection \<open>Parent pointer and colour share a word\<close>

datatype color = Red | Black

definition ptr_ok :: "addr \<Rightarrow> bool" where
  "ptr_ok p \<longleftrightarrow> p AND 3 = 0"

fun node_is :: "'a rb_node_scheme option \<Rightarrow> color \<Rightarrow> addr \<Rightarrow> addr \<Rightarrow> addr \<Rightarrow> bool" where
  "node_is None c q l r = False"
| "node_is (Some n) c q l r \<longleftrightarrow>
     rb_parent n = q \<and> (rb_is_red n \<longleftrightarrow> c = Red) \<and> rb_left n = l \<and> rb_right n = r"

text \<open>Bit patterns of the masks the macros use.\<close>

lemma bit_3: "bit (3 :: int) n \<longleftrightarrow> n < 2"
proof -
  have "(3 :: int) = mask 2"
    by (simp add: mask_eq_exp_minus_1)
  then have "bit (3 :: int) n \<longleftrightarrow> bit (mask 2 :: int) n" by (simp only:)
  also have "\<dots> \<longleftrightarrow> n < 2"
    by (simp only: bit_mask_iff) auto
  finally show ?thesis .
qed

lemma bit_not_3: "bit (- 4 :: int) n \<longleftrightarrow> 2 \<le> n"
proof -
  have "(- 4 :: int) = NOT 3" by simp
  then show ?thesis by (simp only: bit_not_iff bit_3) auto
qed

lemma bit_not_1: "bit (- 2 :: int) n \<longleftrightarrow> 1 \<le> n"
proof -
  have "(- 2 :: int) = NOT 1" by simp
  then show ?thesis by (simp only: bit_not_iff bit_1_iff) auto
qed

lemmas mask_bits = bit_3 bit_1_iff bit_not_3 bit_not_1 bit_and_iff bit_or_iff bit_not_iff

lemma bit_addr_bound: "bit (p :: addr) n \<Longrightarrow> n < 64"
  using bit_imp_le_length [of p n] by simp

lemma ptr_ok_bits: "ptr_ok p \<longleftrightarrow> (\<forall>n. bit p n \<longrightarrow> 2 \<le> n)"
  by (auto simp: ptr_ok_def bit_eq_iff mask_bits not_less dest: bit_addr_bound)

lemma bit_rb_parent: "bit (rb_parent n) i \<longleftrightarrow> bit (rb_parent_color n) i \<and> 2 \<le> i"
  by (auto simp: rb_parent_def mask_bits dest: bit_addr_bound)

lemma addr_eqI: "(\<And>i. bit p i \<longleftrightarrow> bit q i) \<Longrightarrow> p = (q :: addr)"
  by (simp add: bit_eq_iff)

lemma rb_is_red_bit: "rb_is_red n \<longleftrightarrow> \<not> bit (rb_parent_color n) 0"
  by (simp add: rb_is_red_def rb_color_def and_one_eq bit_0 even_iff_mod_2_eq_zero)

lemma rb_is_black_iff [simp]: "rb_is_black n \<longleftrightarrow> \<not> rb_is_red n"
  by (simp add: rb_is_black_def rb_is_red_def)

lemma rb_parent_ptr_ok [simp]: "ptr_ok (rb_parent n)"
  by (auto simp: ptr_ok_bits bit_rb_parent)

lemma rb_color_red: "rb_color n = (if rb_is_red n then 0 else 1)"
  by (auto simp: rb_is_red_def rb_color_def and_one_eq)

lemma rb_parent_sets:
  "rb_parent (rb_set_red n) = rb_parent n"
  "rb_parent (rb_set_black n) = rb_parent n"
  "rb_parent (rb_set_color (rb_color m) n) = rb_parent n"
  "rb_parent (set_left p n) = rb_parent n"
  "rb_parent (set_right p n) = rb_parent n"
  "ptr_ok q \<Longrightarrow> rb_parent (rb_set_parent q n) = q"
  "ptr_ok q \<Longrightarrow> rb_parent (n\<lparr>rb_parent_color := q\<rparr>) = q"
  by (auto intro!: addr_eqI simp: bit_rb_parent rb_set_red_def rb_set_black_def rb_set_color_def
      rb_set_parent_def rb_color_red mask_bits ptr_ok_bits dest: bit_addr_bound)

lemma rb_is_red_sets:
  "rb_is_red (rb_set_red n)"
  "\<not> rb_is_red (rb_set_black n)"
  "rb_is_red (rb_set_color (rb_color m) n) \<longleftrightarrow> rb_is_red m"
  "rb_is_red (set_left p n) \<longleftrightarrow> rb_is_red n"
  "rb_is_red (set_right p n) \<longleftrightarrow> rb_is_red n"
  "ptr_ok q \<Longrightarrow> rb_is_red (rb_set_parent q n) \<longleftrightarrow> rb_is_red n"
  "ptr_ok q \<Longrightarrow> rb_is_red (n\<lparr>rb_parent_color := q\<rparr>)"
  by (auto simp: rb_is_red_bit rb_set_red_def rb_set_black_def rb_set_color_def
      rb_set_parent_def rb_color_red mask_bits ptr_ok_bits)

lemma ptr_ok_NULL [simp]: "ptr_ok NULL"
  by (simp add: ptr_ok_def)

lemma node_isE:
  assumes "node_is x c q l r"
  obtains n where "x = Some n" "rb_parent n = q" "rb_is_red n = (c = Red)" "rb_left n = l" "rb_right n = r"
  using assms by (cases x) auto

subsection \<open>Trees and zippers\<close>

datatype rbt = Leaf | Node color rbt addr rbt

datatype frame = LeftF color addr rbt | RightF color rbt addr

primrec root_of :: "rbt \<Rightarrow> addr" where
  "root_of Leaf = NULL"
| "root_of (Node c l a r) = a"

primrec color_of :: "rbt \<Rightarrow> color" where
  "color_of Leaf = Black"
| "color_of (Node c l a r) = c"

primrec paint :: "color \<Rightarrow> rbt \<Rightarrow> rbt" where
  "paint k Leaf = Leaf"
| "paint k (Node c l a r) = Node k l a r"

primrec inorder :: "rbt \<Rightarrow> addr list" where
  "inorder Leaf = []"
| "inorder (Node c l a r) = inorder l @ a # inorder r"

fun up :: "rbt \<Rightarrow> frame \<Rightarrow> rbt" where
  "up t (LeftF c a r) = Node c t a r"
| "up t (RightF c l a) = Node c l a t"

primrec plug :: "rbt \<Rightarrow> frame list \<Rightarrow> rbt" where
  "plug t [] = t"
| "plug t (f # fs) = plug (up t f) fs"

fun parent_of :: "frame list \<Rightarrow> addr" where
  "parent_of [] = NULL"
| "parent_of (LeftF c a r # fs) = a"
| "parent_of (RightF c l a # fs) = a"

fun before :: "frame list \<Rightarrow> addr list" where
  "before [] = []"
| "before (LeftF c a r # fs) = before fs"
| "before (RightF c l a # fs) = before fs @ inorder l @ [a]"

fun behind :: "frame list \<Rightarrow> addr list" where
  "behind [] = []"
| "behind (LeftF c a r # fs) = a # inorder r @ behind fs"
| "behind (RightF c l a # fs) = behind fs"

lemma inorder_paint [simp]: "inorder (paint k t) = inorder t"
  by (cases t) auto

lemma root_of_paint [simp]: "root_of (paint k t) = root_of t"
  by (cases t) auto

lemma inorder_plug: "inorder (plug t fs) = before fs @ inorder t @ behind fs"
proof (induction fs arbitrary: t)
  case (Cons f fs)
  then show ?case by (cases f) auto
qed simp

lemma plug_append [simp]: "plug t (fs @ gs) = plug (plug t fs) gs"
  by (induction fs arbitrary: t) auto

lemma parent_of_in: "fs \<noteq> [] \<Longrightarrow> parent_of fs \<in> set (before fs @ behind fs)"
  by (cases fs rule: parent_of.cases) auto

lemma root_of_in: "t \<noteq> Leaf \<Longrightarrow> root_of t \<in> set (inorder t)"
  by (cases t) auto

text \<open>Every address of a tree is the root of a subtree in some context.\<close>

lemma focus_on:
  assumes "a \<in> set (inorder t)"
  obtains c l r fs where "t = plug (Node c l a r) fs"
proof -
  have "\<exists>c l r fs. t = plug (Node c l a r) fs"
    using assms
  proof (induction t)
    case (Node c l b r)
    consider "a = b" | "a \<in> set (inorder l)" | "a \<in> set (inorder r)"
      using Node.prems by auto
    then show ?case
    proof cases
      case 1
      then show ?thesis by (metis plug.simps(1))
    next
      case 2
      then obtain c' l' r' fs where "l = plug (Node c' l' a r') fs" using Node.IH(1) by blast
      then have "Node c l b r = plug (Node c' l' a r') (fs @ [LeftF c b r])" by simp
      then show ?thesis by blast
    next
      case 3
      then obtain c' l' r' fs where "r = plug (Node c' l' a r') fs" using Node.IH(2) by blast
      then have "Node c l b r = plug (Node c' l' a r') (fs @ [RightF c l b])" by simp
      then show ?thesis by blast
    qed
  qed simp
  then show ?thesis using that by blast
qed

subsection \<open>The heap assertions\<close>

fun tree_at :: "'a rb_heap \<Rightarrow> addr \<Rightarrow> rbt \<Rightarrow> bool" where
  "tree_at h q Leaf \<longleftrightarrow> True"
| "tree_at h q (Node c l a r) \<longleftrightarrow>
     a \<noteq> NULL \<and> ptr_ok a \<and> node_is (h a) c q (root_of l) (root_of r) \<and> tree_at h a l \<and> tree_at h a r"

fun ctx_at :: "'a rb_heap \<Rightarrow> addr \<Rightarrow> addr \<Rightarrow> frame list \<Rightarrow> bool" where
  "ctx_at h root p [] \<longleftrightarrow> root = p"
| "ctx_at h root p (LeftF c a r # fs) \<longleftrightarrow>
     a \<noteq> NULL \<and> ptr_ok a \<and> node_is (h a) c (parent_of fs) p (root_of r) \<and> tree_at h a r \<and> ctx_at h root a fs"
| "ctx_at h root p (RightF c l a # fs) \<longleftrightarrow>
     a \<noteq> NULL \<and> ptr_ok a \<and> node_is (h a) c (parent_of fs) (root_of l) p \<and> tree_at h a l \<and> ctx_at h root a fs"

definition zrep :: "'a rb_state \<Rightarrow> rbt \<Rightarrow> frame list \<Rightarrow> bool" where
  "zrep s t fs \<longleftrightarrow> tree_at (fst s) (parent_of fs) t \<and> ctx_at (fst s) (snd s) (root_of t) fs \<and>
     distinct (before fs @ inorder t @ behind fs)"

abbreviation rep :: "'a rb_state \<Rightarrow> rbt \<Rightarrow> bool" where
  "rep s t \<equiv> zrep s t []"

lemma tree_at_upd [simp, frame_simps]: "p \<notin> set (inorder t) \<Longrightarrow> tree_at (h(p := x)) q t = tree_at h q t"
  by (induction t arbitrary: q) auto

lemma ctx_at_upd [simp, frame_simps]:
  "p \<notin> set (before fs @ behind fs) \<Longrightarrow> ctx_at (h(p := x)) root k fs = ctx_at h root k fs"
  by (induction fs arbitrary: k rule: before.induct) auto

lemma tree_at_NULL: "tree_at h q t \<Longrightarrow> NULL \<notin> set (inorder t)"
  by (induction t arbitrary: q) auto

lemma zrep_up: "zrep s t (f # fs) \<longleftrightarrow> zrep s (up t f) fs"
  by (cases f) (auto simp: zrep_def)

lemma zrep_plug: "zrep s (plug t fs) gs \<longleftrightarrow> zrep s t (fs @ gs)"
  by (induction fs arbitrary: t) (auto simp: zrep_up)

lemma rep_plug: "rep s (plug t fs) \<longleftrightarrow> zrep s t fs"
  by (simp add: zrep_plug)

lemma zrep_down_left: "zrep s (Node c l a r) fs \<longleftrightarrow> zrep s l (LeftF c a r # fs)"
  by (simp add: zrep_up)

lemma zrep_down_right: "zrep s (Node c l a r) fs \<longleftrightarrow> zrep s r (RightF c l a # fs)"
  by (simp add: zrep_up)

text \<open>
  What an operation may change: the node structs of the addresses in \<open>A\<close>, never the fields of the
  structs that embed them, never another cell.
\<close>

definition only_links :: "'a rb_heap \<Rightarrow> 'a rb_heap \<Rightarrow> addr set \<Rightarrow> bool" where
  "only_links h h' A \<longleftrightarrow> (\<forall>p. p \<notin> A \<longrightarrow> h' p = h p) \<and>
     (\<forall>p. map_option rb_node.more (h' p) = map_option rb_node.more (h p))"

lemma only_links_refl [simp, intro]: "only_links h h A"
  by (simp add: only_links_def)

lemma only_links_trans [trans]:
  "only_links h h' A \<Longrightarrow> only_links h' h'' A \<Longrightarrow> only_links h h'' A"
  by (simp add: only_links_def)

lemma only_links_mono: "only_links h h' A \<Longrightarrow> A \<subseteq> B \<Longrightarrow> only_links h h' B"
  by (auto simp: only_links_def)

lemma only_linksD: "only_links h h' A \<Longrightarrow> p \<notin> A \<Longrightarrow> h' p = h p"
  by (simp add: only_links_def)

lemma only_links_upd:
  "only_links h0 h A \<Longrightarrow> p \<in> A \<Longrightarrow> map_option rb_node.more (h p) = Some (rb_node.more n) \<Longrightarrow>
   only_links h0 (h(p \<mapsto> n)) A"
  by (auto simp: only_links_def)

lemma more_sets [simp]:
  "rb_node.more (rb_set_red n) = rb_node.more n"
  "rb_node.more (rb_set_black n) = rb_node.more n"
  "rb_node.more (rb_set_parent q n) = rb_node.more n"
  "rb_node.more (rb_set_color k n) = rb_node.more n"
  by (auto simp: rb_set_red_def rb_set_black_def rb_set_parent_def rb_set_color_def)

lemma rb_links_sets [simp]:
  "rb_left (rb_set_red n) = rb_left n" "rb_right (rb_set_red n) = rb_right n"
  "rb_left (rb_set_black n) = rb_left n" "rb_right (rb_set_black n) = rb_right n"
  "rb_left (rb_set_parent q n) = rb_left n" "rb_right (rb_set_parent q n) = rb_right n"
  "rb_left (rb_set_color k n) = rb_left n" "rb_right (rb_set_color k n) = rb_right n"
  by (auto simp: rb_set_red_def rb_set_black_def rb_set_parent_def rb_set_color_def)

lemma tree_at_frame:
  "only_links h h' A \<Longrightarrow> A \<inter> set (inorder t) = {} \<Longrightarrow> tree_at h' q t = tree_at h q t"
  by (induction t arbitrary: q) (auto simp: only_links_def Int_Un_distrib)

lemma ctx_at_frame:
  assumes h: "only_links h h' A"
  shows "A \<inter> set (before fs @ behind fs) = {} \<Longrightarrow> ctx_at h' root p fs = ctx_at h root p fs"
  by (induction fs arbitrary: p rule: before.induct)
    (auto simp: tree_at_frame [OF h] only_linksD [OF h] Int_Un_distrib)

lemma adopt_ok:
  assumes "tree_at h q t" and "distinct (inorder t)" and "ptr_ok q'"
  obtains h' where "adopt (root_of t) q' h = Some h'" "tree_at h' q' t" "only_links h h' (set (inorder t))"
proof (cases t)
  case Leaf
  then show ?thesis using that [of h] by (simp add: adopt_def)
next
  case (Node c l a r)
  then obtain n where n: "h a = Some n" using assms(1) by (auto elim: node_isE)
  have "tree_at (h(a \<mapsto> rb_set_parent q' n)) q' t"
    using assms Node n by (auto simp: rb_parent_sets rb_is_red_sets)
  moreover have "only_links h (h(a \<mapsto> rb_set_parent q' n)) (set (inorder t))"
    using Node n by (intro only_links_upd) auto
  ultimately show ?thesis
    using that [of "h(a \<mapsto> rb_set_parent q' n)"] assms(1) Node n
    by (auto simp: adopt_def)
qed

lemmas node_sets = rb_parent_sets rb_is_red_sets

lemma fresh_root: "p \<notin> set (inorder t) \<Longrightarrow> p \<noteq> NULL \<Longrightarrow> p \<noteq> root_of t"
  by (cases t) auto

lemma relink_ok:
  assumes "ctx_at h root p fs" and d: "distinct (before fs @ behind fs)"
    and p: "p \<notin> set (before fs @ behind fs)" "p \<noteq> NULL"
  shows relink_left_ok: "\<exists>h' root'. relink_left (parent_of fs) p q (h, root) = Some (h', root') \<and>
      ctx_at h' root' q fs \<and> only_links h h' (set (before fs @ behind fs))" (is ?L)
    and relink_right_ok: "\<exists>h' root'. relink_right (parent_of fs) p q (h, root) = Some (h', root') \<and>
      ctx_at h' root' q fs \<and> only_links h h' (set (before fs @ behind fs))" (is ?R)
proof -
  have "?L \<and> ?R"
  proof (cases fs rule: parent_of.cases)
    case 1
    then show ?thesis using assms by (auto simp: relink_left_def relink_right_def)
  next
    case (2 c a r fs')
    then obtain n where n: "h a = Some n" "a \<noteq> NULL" using assms by (auto elim: node_isE)
    have "p \<noteq> root_of r" using fresh_root [of p r] p 2 by auto
    moreover have "only_links h (h(a \<mapsto> set_left q n)) (set (before fs @ behind fs))"
      using n 2 by (intro only_links_upd) auto
    ultimately show ?thesis using assms n 2
      by (auto simp: relink_left_def relink_right_def node_sets)
  next
    case (3 c l a fs')
    then obtain n where n: "h a = Some n" "a \<noteq> NULL" using assms by (auto elim: node_isE)
    have "p \<noteq> root_of l" using fresh_root [of p l] p 3 by auto
    moreover have "only_links h (h(a \<mapsto> set_right q n)) (set (before fs @ behind fs))"
      using n 3 by (intro only_links_upd) auto
    ultimately show ?thesis using assms n 3
      by (auto simp: relink_left_def relink_right_def node_sets)
  qed
  then show ?L ?R by blast+
qed

lemmas disj_simps = Int_Un_distrib Int_Un_distrib2

definition footprint :: "rbt \<Rightarrow> frame list \<Rightarrow> addr set" where
  "footprint t fs = set (before fs @ inorder t @ behind fs)"

lemma parent_of_ok: "ctx_at h root p fs \<Longrightarrow> ptr_ok (parent_of fs)"
  by (cases fs rule: parent_of.cases) auto

lemma rotate_left:
  assumes "zrep s (Node c l a (Node c' rl b rr)) fs"
  obtains s' where "rb_rotate_left a s = Some s'"
    "zrep s' (Node c' (Node c l a rl) b rr) fs"
    "only_links (fst s) (fst s') (footprint (Node c l a (Node c' rl b rr)) fs)"
proof -
  obtain h root where s: "s = (h, root)" by (cases s)
  let ?F = "footprint (Node c l a (Node c' rl b rr)) fs"
  have d: "distinct (before fs @ inorder (Node c l a (Node c' rl b rr)) @ behind fs)"
    and ta: "tree_at h (parent_of fs) (Node c l a (Node c' rl b rr))"
    and ca: "ctx_at h root a fs" using assms by (auto simp: zrep_def s)
  obtain na where na: "h a = Some na" "rb_parent na = parent_of fs" "rb_left na = root_of l" "rb_right na = b"
    "rb_is_red na = (c = Red)" and a: "a \<noteq> NULL" "ptr_ok a"
    using ta by (auto elim: node_isE)
  obtain nb where nb: "h b = Some nb" "rb_parent nb = a" "rb_left nb = root_of rl" "rb_right nb = root_of rr"
    "rb_is_red nb = (c' = Red)" and b: "b \<noteq> NULL" "ptr_ok b"
    using ta by (auto elim: node_isE)
  let ?h1 = "h(a \<mapsto> set_right (root_of rl) na)"
  obtain h2 where h2: "adopt (root_of rl) a ?h1 = Some h2" "tree_at h2 a rl" "only_links ?h1 h2 (set (inorder rl))"
    using adopt_ok [of ?h1 b rl a] ta a d by auto
  let ?h4 = "h2(b \<mapsto> rb_set_parent (parent_of fs) (set_left a nb))"
  have c2: "ctx_at h2 root a fs"
    using ca d by (subst ctx_at_frame [OF h2(3)]) auto
  then obtain h5 root' where h5: "relink_left (parent_of fs) a b (?h4, root) = Some (h5, root')"
     "ctx_at h5 root' b fs" "only_links ?h4 h5 (set (before fs @ behind fs))"
    using relink_left_ok [of ?h4 root a fs b] d a by (auto simp: disj_simps)
  let ?h6 = "h5(a \<mapsto> rb_set_parent b (set_right (root_of rl) na))"
  have e: "h2 a = Some (set_right (root_of rl) na)" "h2 b = Some nb" "h5 a = h2 a" "h5 b = ?h4 b" 
    using d nb by (auto simp: only_linksD [OF h2(3)] only_linksD [OF h5(3)])
  have run: "rb_rotate_left a s = Some (?h6, root')"
    using a b na nb h2(1) h5(1) e by (simp add: rb_rotate_left_def s)
  have t: "tree_at h5 q t = tree_at h2 q t" if "set (inorder t) \<inter> set (before fs @ behind fs) = {}" "b \<notin> set (inorder t)" for q t
    using that by (subst tree_at_frame [OF h5(3)]) auto
  have t2: "tree_at h2 q t = tree_at h q t" if "set (inorder t) \<inter> set (inorder rl) = {}" "a \<notin> set (inorder t)" for q t
    using that by (subst tree_at_frame [OF h2(3)]) auto
  have "zrep (?h6, root') (Node c' (Node c l a rl) b rr) fs"
    unfolding zrep_def using d ta a b na nb e h5(2) h2(2) parent_of_ok [OF ca]
    by (auto simp: node_sets t t2 disj_simps Int_commute)
  show ?thesis
  proof (rule that [OF run])
    have "only_links h ?h1 ?F" using na by (intro only_links_upd) (auto simp: footprint_def)
    also have "only_links ?h1 h2 ?F" by (rule only_links_mono [OF h2(3)]) (auto simp: footprint_def)
    also have "only_links h2 ?h4 ?F" using e by (intro only_links_upd) (auto simp: footprint_def)
    also have "only_links ?h4 h5 ?F" by (rule only_links_mono [OF h5(3)]) (auto simp: footprint_def)
    also have "only_links h5 ?h6 ?F" using e by (intro only_links_upd) (auto simp: footprint_def)
    finally show "only_links (fst s) (fst (?h6, root')) ?F" by (simp add: s)
  qed fact
qed
lemma rotate_right:
  assumes "zrep s (Node c (Node c' ll b lr) a r) fs"
  obtains s' where "rb_rotate_right a s = Some s'"
    "zrep s' (Node c' ll b (Node c lr a r)) fs"
    "only_links (fst s) (fst s') (footprint (Node c (Node c' ll b lr) a r) fs)"
proof -
  obtain h root where s: "s = (h, root)" by (cases s)
  let ?F = "footprint (Node c (Node c' ll b lr) a r) fs"
  have d: "distinct (before fs @ inorder (Node c (Node c' ll b lr) a r) @ behind fs)"
    and ta: "tree_at h (parent_of fs) (Node c (Node c' ll b lr) a r)"
    and ca: "ctx_at h root a fs" using assms by (auto simp: zrep_def s)
  obtain na where na: "h a = Some na" "rb_parent na = parent_of fs" "rb_left na = b" "rb_right na = root_of r"
    "rb_is_red na = (c = Red)" and a: "a \<noteq> NULL" "ptr_ok a"
    using ta by (auto elim: node_isE)
  obtain nb where nb: "h b = Some nb" "rb_parent nb = a" "rb_left nb = root_of ll" "rb_right nb = root_of lr"
    "rb_is_red nb = (c' = Red)" and b: "b \<noteq> NULL" "ptr_ok b"
    using ta by (auto elim: node_isE)
  let ?h1 = "h(a \<mapsto> set_left (root_of lr) na)"
  obtain h2 where h2: "adopt (root_of lr) a ?h1 = Some h2" "tree_at h2 a lr" "only_links ?h1 h2 (set (inorder lr))"
    using adopt_ok [of ?h1 b lr a] ta a d by auto
  let ?h4 = "h2(b \<mapsto> rb_set_parent (parent_of fs) (set_right a nb))"
  have c2: "ctx_at h2 root a fs"
    using ca d by (subst ctx_at_frame [OF h2(3)]) auto
  then obtain h5 root' where h5: "relink_right (parent_of fs) a b (?h4, root) = Some (h5, root')"
     "ctx_at h5 root' b fs" "only_links ?h4 h5 (set (before fs @ behind fs))"
    using relink_right_ok [of ?h4 root a fs b] d a by (auto simp: disj_simps)
  let ?h6 = "h5(a \<mapsto> rb_set_parent b (set_left (root_of lr) na))"
  have e: "h2 a = Some (set_left (root_of lr) na)" "h2 b = Some nb" "h5 a = h2 a" "h5 b = ?h4 b" 
    using d nb by (auto simp: only_linksD [OF h2(3)] only_linksD [OF h5(3)])
  have run: "rb_rotate_right a s = Some (?h6, root')"
    using a b na nb h2(1) h5(1) e by (simp add: rb_rotate_right_def s)
  have t: "tree_at h5 q t = tree_at h2 q t" if "set (inorder t) \<inter> set (before fs @ behind fs) = {}" "b \<notin> set (inorder t)" for q t
    using that by (subst tree_at_frame [OF h5(3)]) auto
  have t2: "tree_at h2 q t = tree_at h q t" if "set (inorder t) \<inter> set (inorder lr) = {}" "a \<notin> set (inorder t)" for q t
    using that by (subst tree_at_frame [OF h2(3)]) auto
  have "zrep (?h6, root') (Node c' ll b (Node c lr a r)) fs"
    unfolding zrep_def using d ta a b na nb e h5(2) h2(2) parent_of_ok [OF ca]
    by (auto simp: node_sets t t2 disj_simps Int_commute)
  show ?thesis
  proof (rule that [OF run])
    have "only_links h ?h1 ?F" using na by (intro only_links_upd) (auto simp: footprint_def)
    also have "only_links ?h1 h2 ?F" by (rule only_links_mono [OF h2(3)]) (auto simp: footprint_def)
    also have "only_links h2 ?h4 ?F" using e by (intro only_links_upd) (auto simp: footprint_def)
    also have "only_links ?h4 h5 ?F" by (rule only_links_mono [OF h5(3)]) (auto simp: footprint_def)
    also have "only_links h5 ?h6 ?F" using e by (intro only_links_upd) (auto simp: footprint_def)
    finally show "only_links (fst s) (fst (?h6, root')) ?F" by (simp add: s)
  qed fact
qed

subsection \<open>Reading and recolouring the focused node\<close>

lemma footprint_up: "footprint t (f # fs) = footprint (up t f) fs"
  by (cases f) (auto simp: footprint_def)

lemma zrep_reads:
  assumes "zrep s (Node c l a r) fs"
  shows "rd (fst s) a rb_left = Some (root_of l)" "rd (fst s) a rb_right = Some (root_of r)"
    "rd (fst s) a rb_parent = Some (parent_of fs)" "rd (fst s) a rb_is_red = Some (c = Red)"
    "rd (fst s) a rb_is_black = Some (c \<noteq> Red)"
    "rd (fst s) a rb_color = Some (if c = Red then 0 else 1)"
    "is_red_node (fst s) a = Some (c = Red)" "is_black_or_null (fst s) a = Some (c \<noteq> Red)"
    "a \<noteq> NULL" "ptr_ok a"
proof -
  obtain n where n: "fst s a = Some n" "rb_parent n = parent_of fs" "rb_is_red n = (c = Red)"
      "rb_left n = root_of l" "rb_right n = root_of r" and a: "a \<noteq> NULL" "ptr_ok a"
    using assms by (auto simp: zrep_def elim: node_isE)
  show "rd (fst s) a rb_left = Some (root_of l)" "rd (fst s) a rb_right = Some (root_of r)"
    "rd (fst s) a rb_parent = Some (parent_of fs)" "rd (fst s) a rb_is_red = Some (c = Red)"
    "rd (fst s) a rb_is_black = Some (c \<noteq> Red)" "a \<noteq> NULL" "ptr_ok a"
    "is_red_node (fst s) a = Some (c = Red)" "is_black_or_null (fst s) a = Some (c \<noteq> Red)"
    using n a by (auto simp: is_red_node_def is_black_or_null_def)
  show "rd (fst s) a rb_color = Some (if c = Red then 0 else 1)"
    using n a by (auto simp: rb_color_red)
qed

lemma root_of_NULL: "zrep s t fs \<Longrightarrow> root_of t = NULL \<longleftrightarrow> t = Leaf"
  by (cases t) (auto dest: zrep_reads)

lemma zrep_black_or_null: "zrep s t fs \<Longrightarrow> is_black_or_null (fst s) (root_of t) = Some (color_of t = Black)"
  by (cases t; cases "color_of t") (auto simp: is_black_or_null_def dest: zrep_reads)

text \<open>\<open>after s s' t fs\<close>: \<open>s'\<close> holds the zipper, and from \<open>s\<close> only links of its nodes have changed.\<close>

definition after :: "'a rb_state \<Rightarrow> 'a rb_state \<Rightarrow> rbt \<Rightarrow> frame list \<Rightarrow> bool" where
  "after s s' t fs \<longleftrightarrow> zrep s' t fs \<and> only_links (fst s) (fst s') (footprint t fs)"

lemma after_refl: "zrep s t fs \<Longrightarrow> after s s t fs"
  by (simp add: after_def)

lemma after_trans:
  "after s s' t fs \<Longrightarrow> after s' s'' t' fs' \<Longrightarrow> footprint t' fs' = footprint t fs \<Longrightarrow> after s s'' t' fs'"
  by (auto simp: after_def elim: only_links_trans)

lemma after_up: "after s s' t (f # fs) \<longleftrightarrow> after s s' (up t f) fs"
  by (simp add: after_def zrep_up footprint_up)

lemma after_zrep: "after s s' t fs \<Longrightarrow> zrep s' t fs"
  by (simp add: after_def)

lemma recolor:
  assumes z: "zrep s (Node c l a r) fs"
    and f: "\<And>n. rb_parent (f n) = rb_parent n" "\<And>n. rb_left (f n) = rb_left n"
      "\<And>n. rb_right (f n) = rb_right n" "\<And>n. rb_node.more (f n) = rb_node.more n"
      "\<And>n. rb_is_red (f n) \<longleftrightarrow> k = Red"
  obtains h where "upd (fst s) a f = Some h" "after s (h, snd s) (Node k l a r) fs"
proof -
  obtain n where n: "fst s a = Some n" "rb_parent n = parent_of fs" "rb_is_red n = (c = Red)"
      "rb_left n = root_of l" "rb_right n = root_of r" and a: "a \<noteq> NULL" "ptr_ok a"
    using z by (auto simp: zrep_def elim: node_isE)
  have "zrep ((fst s)(a \<mapsto> f n), snd s) (Node k l a r) fs"
    using z n a f by (auto simp: zrep_def)
  moreover have "only_links (fst s) ((fst s)(a \<mapsto> f n)) (footprint (Node k l a r) fs)"
    using n f by (intro only_links_upd) (auto simp: footprint_def)
  ultimately show ?thesis
    using that n a by (auto simp: after_def)
qed

lemma paint_red:
  assumes "zrep (h, root) (Node c l a r) fs"
  obtains h' where "upd h a rb_set_red = Some h'" "after (h, root) (h', root) (Node Red l a r) fs"
  using recolor [OF assms, of rb_set_red Red] by (auto simp: node_sets)

lemma paint_black:
  assumes "zrep (h, root) (Node c l a r) fs"
  obtains h' where "upd h a rb_set_black = Some h'" "after (h, root) (h', root) (Node Black l a r) fs"
  using recolor [OF assms, of rb_set_black Black] by (auto simp: node_sets)

lemma bit0_small [simp]: "bit (if k = Red then 0 else 1 :: addr) i \<longleftrightarrow> k = Black \<and> i = 0"
  by (cases k) (auto simp: bit_1_iff)

lemma paint_like:
  assumes "zrep (h, root) (Node c l a r) fs"
  obtains h' where "upd h a (rb_set_color (if k = Red then 0 else 1)) = Some h'"
    "after (h, root) (h', root) (Node k l a r) fs"
proof (rule recolor [OF assms, of "rb_set_color (if k = Red then 0 else 1)" k])
  fix n
  show "rb_parent (rb_set_color (if k = Red then 0 else 1) n) = rb_parent n"
    by (rule addr_eqI) (auto simp: bit_rb_parent rb_set_color_def mask_bits dest: bit_addr_bound)
  show "rb_is_red (rb_set_color (if k = Red then 0 else 1) n) \<longleftrightarrow> k = Red"
    by (cases k) (auto simp: rb_is_red_bit rb_set_color_def mask_bits)
qed (use that in auto)

lemma rotate_left_after:
  assumes "zrep s (Node c l a (Node c' rl b rr)) fs"
  obtains s' where "rb_rotate_left a s = Some s'" "after s s' (Node c' (Node c l a rl) b rr) fs"
proof -
  have "footprint (Node c' (Node c l a rl) b rr) fs = footprint (Node c l a (Node c' rl b rr)) fs"
    by (simp add: footprint_def)
  with rotate_left [OF assms] show ?thesis using that by (metis after_def)
qed

lemma rotate_right_after:
  assumes "zrep s (Node c (Node c' ll b lr) a r) fs"
  obtains s' where "rb_rotate_right a s = Some s'" "after s s' (Node c' ll b (Node c lr a r)) fs"
proof -
  have "footprint (Node c' ll b (Node c lr a r)) fs = footprint (Node c (Node c' ll b lr) a r) fs"
    by (simp add: footprint_def)
  with rotate_right [OF assms] show ?thesis using that by (metis after_def)
qed

lemma zrep_is_red: "zrep s u fs \<Longrightarrow> is_red_node (fst s) (root_of u) = Some (color_of u = Red)"
  by (cases u) (auto simp: is_red_node_def dest: zrep_reads)

lemma after_plug: "after s s' t (fs @ gs) \<longleftrightarrow> after s s' (plug t fs) gs"
  by (induction fs arbitrary: t) (auto simp: after_up)

lemma after_whole: "after s s' t fs \<longleftrightarrow> after s s' (plug t fs) []"
  using after_plug [of s s' t fs "[]"] by simp

lemma after_then:
  assumes "after s s' t fs" "after s' s'' t' []" "inorder t' = inorder (plug t fs)"
  shows "after s s'' t' []"
  using assms after_whole after_trans by (metis footprint_def append_Nil append_Nil2 before.simps(1) behind.simps(1))


subsection \<open>The red-black invariant\<close>

fun frame_color :: "frame \<Rightarrow> color" where
  "frame_color (LeftF k a r) = k"
| "frame_color (RightF k l a) = k"

primrec bheight :: "rbt \<Rightarrow> nat" where
  "bheight Leaf = 0"
| "bheight (Node c l a r) = bheight l + (if c = Black then 1 else 0)"

primrec balanced :: "rbt \<Rightarrow> bool" where
  "balanced Leaf \<longleftrightarrow> True"
| "balanced (Node c l a r) \<longleftrightarrow> balanced l \<and> balanced r \<and> bheight l = bheight r"

primrec no_red_red :: "rbt \<Rightarrow> bool" where
  "no_red_red Leaf \<longleftrightarrow> True"
| "no_red_red (Node c l a r) \<longleftrightarrow> no_red_red l \<and> no_red_red r \<and>
     (c = Red \<longrightarrow> color_of l = Black \<and> color_of r = Black)"

definition red_black :: "rbt \<Rightarrow> bool" where
  "red_black t \<longleftrightarrow> balanced t \<and> no_red_red t \<and> color_of t = Black"

text \<open>
  The frames around a subtree of black height \<open>n\<close>, when the whole is a red-black tree. A red
  frame is never the outermost one, since the root is black.
\<close>

fun black_above :: "frame list \<Rightarrow> bool" where
  "black_above [] = False"
| "black_above (f # fs) \<longleftrightarrow> frame_color f = Black"

fun ctx_inv :: "nat \<Rightarrow> frame list \<Rightarrow> bool" where
  "ctx_inv n [] \<longleftrightarrow> True"
| "ctx_inv n (LeftF k a r # fs) \<longleftrightarrow> balanced r \<and> no_red_red r \<and> bheight r = n \<and>
     (k = Red \<longrightarrow> color_of r = Black \<and> black_above fs) \<and> ctx_inv (n + (if k = Black then 1 else 0)) fs"
| "ctx_inv n (RightF k l a # fs) \<longleftrightarrow> balanced l \<and> no_red_red l \<and> bheight l = n \<and>
     (k = Red \<longrightarrow> color_of l = Black \<and> black_above fs) \<and> ctx_inv (n + (if k = Black then 1 else 0)) fs"

lemma color_cases [simp]: "k \<noteq> Red \<longleftrightarrow> k = Black" "k \<noteq> Black \<longleftrightarrow> k = Red"
  by (cases k; simp)+

lemma paint_invs [simp]:
  "balanced (paint k t) = balanced t"
  "no_red_red t \<Longrightarrow> no_red_red (paint Black t)"
  "color_of (paint Black t) = Black"
  "bheight (paint Black t) = bheight t + (if color_of t = Red then 1 else 0)"
  by (cases t; auto)+

lemma red_black_plug:
  "balanced t \<Longrightarrow> no_red_red t \<Longrightarrow> ctx_inv (bheight t) fs \<Longrightarrow>
   color_of t = Black \<or> fs = [] \<or> black_above fs \<Longrightarrow> red_black (paint Black (plug t fs))"
proof (induction fs arbitrary: t)
  case Nil
  then show ?case by (simp add: red_black_def)
next
  case (Cons f fs)
  then show ?case by (cases f) (auto intro!: Cons.IH split: if_splits)
qed

lemma red_black_Node [simp]:
  "red_black (Node k l a r) \<longleftrightarrow>
     k = Black \<and> balanced l \<and> balanced r \<and> bheight l = bheight r \<and> no_red_red l \<and> no_red_red r"
  by (auto simp: red_black_def)

lemma red_black_short:
  "balanced t \<Longrightarrow> no_red_red t \<Longrightarrow> red_black (paint Black t)"
  "balanced t \<Longrightarrow> no_red_red t \<Longrightarrow> ctx_inv (bheight t) [f] \<Longrightarrow> red_black (paint Black (up t f))"
  using red_black_plug [of t "[]"] red_black_plug [of t "[f]"] by (cases f; auto)+

lemma red_black_unplug:
  "balanced (plug t fs) \<Longrightarrow> no_red_red (plug t fs) \<Longrightarrow> color_of (plug t fs) = Black \<Longrightarrow>
   balanced t \<and> no_red_red t \<and> ctx_inv (bheight t) fs \<and> (fs = [] \<or> color_of t = Black \<or> black_above fs)"
proof (induction fs arbitrary: t)
  case (Cons f fs)
  from Cons.IH [of "up t f"] Cons.prems show ?case
    by (cases f; cases "frame_color f"; cases fs) auto
qed simp

lemma ctx_inv_last: "ctx_inv n fs \<Longrightarrow> fs \<noteq> [] \<Longrightarrow> frame_color (last fs) = Black"
proof (induction n fs rule: ctx_inv.induct)
  case (2 n k a r fs)
  then show ?case by (cases k; cases fs) auto
next
  case (3 n k l a fs)
  then show ?case by (cases k; cases fs) auto
qed simp

end
