(* ===== verification/RBInsert.thy ===== *)
theory RBInsert
  imports RBRep
begin

text \<open>
  Insertion: the rebalancing loop of \<^verbatim>\<open>rb_insert_color\<close> refines \<open>ins_fix\<close>, a function on zippers that
  has the shape of the textbook algorithm, and \<open>ins_fix\<close> restores the red-black invariant.
\<close>

subsection \<open>One iteration of the loop\<close>

lemma insert_color_left_uncle:
  assumes z: "zrep s (Node c pl p pr) (LeftF k g u # fs)" and u: "color_of u = Red"
  obtains s' where "insert_color_left node p g s = Some (g, s')"
    "after s s' (Node Red (Node Black pl p pr) g (paint Black u)) fs"
proof -
  obtain h root where s: "s = (h, root)" by (cases s)
  from u obtain ul ua ur where ua: "u = Node Red ul ua ur" by (cases u) auto
  have g: "zrep s (Node k (Node c pl p pr) g u) fs"
    and zu: "zrep s (Node Red ul ua ur) (RightF k (Node c pl p pr) g # fs)"
    using z by (simp_all add: zrep_up ua)
  obtain h1 where 1: "upd h ua rb_set_black = Some h1"
      "after (h, root) (h1, root) (Node Black ul ua ur) (RightF k (Node c pl p pr) g # fs)"
    by (rule paint_black [OF zu [unfolded s]])
  have "zrep (h1, root) (Node c pl p pr) (LeftF k g (Node Black ul ua ur) # fs)"
    using after_zrep [OF 1(2)] by (simp add: zrep_up)
  then obtain h2 where 2: "upd h1 p rb_set_black = Some h2"
      "after (h1, root) (h2, root) (Node Black pl p pr) (LeftF k g (Node Black ul ua ur) # fs)"
    by (rule paint_black)
  have "zrep (h2, root) (Node k (Node Black pl p pr) g (Node Black ul ua ur)) fs"
    using after_zrep [OF 2(2)] by (simp add: zrep_up)
  then obtain h3 where 3: "upd h2 g rb_set_red = Some h3"
      "after (h2, root) (h3, root) (Node Red (Node Black pl p pr) g (Node Black ul ua ur)) fs"
    by (rule paint_red)
  have "after s (h3, root) (Node Red (Node Black pl p pr) g (Node Black ul ua ur)) fs"
    by (rule after_trans [OF after_trans [OF 1(2) 2(2)] 3(2), folded s]) (simp_all add: footprint_def)
  then show ?thesis
    using that [of "(h3, root)"] zrep_reads [OF g] zrep_reads [OF zu] 1(1) 2(1) 3(1)
    by (simp add: insert_color_left_def ua s)
qed

lemma insert_color_left_outer:
  assumes z: "zrep s (Node c pl p pr) (LeftF k g u # fs)" and u: "color_of u = Black"
    and n: "node \<noteq> root_of pr"
  obtains s' where "insert_color_left node p g s = Some (node, s')"
    "after s s' (Node Black pl p (Node Red pr g u)) fs"
proof -
  obtain h root where s: "s = (h, root)" by (cases s)
  have g: "zrep s (Node k (Node c pl p pr) g u) fs" and zu: "zrep s u (RightF k (Node c pl p pr) g # fs)"
    using z by (simp_all add: zrep_up)
  obtain h1 where 1: "upd h p rb_set_black = Some h1"
      "after (h, root) (h1, root) (Node Black pl p pr) (LeftF k g u # fs)"
    by (rule paint_black [OF z [unfolded s]])
  have "zrep (h1, root) (Node k (Node Black pl p pr) g u) fs"
    using after_zrep [OF 1(2)] by (simp add: zrep_up)
  then obtain h2 where 2: "upd h1 g rb_set_red = Some h2"
      "after (h1, root) (h2, root) (Node Red (Node Black pl p pr) g u) fs"
    by (rule paint_red)
  obtain s3 where 3: "rb_rotate_right g (h2, root) = Some s3"
      "after (h2, root) s3 (Node Black pl p (Node Red pr g u)) fs"
    by (rule rotate_right_after [OF after_zrep [OF 2(2)]])
  have "after s s3 (Node Black pl p (Node Red pr g u)) fs"
    by (rule after_trans [OF after_trans [OF 1(2) 2(2)] 3(2), folded s]) (simp_all add: footprint_def)
  then show ?thesis
    using that [of s3] zrep_reads [OF g] zrep_reads [OF z] zrep_is_red [OF zu, unfolded s] u n 1(1) 2(1) 3(1)
    by (simp add: insert_color_left_def s)
qed

lemma insert_color_left_inner:
  assumes z: "zrep s (Node c pl p (Node c' nl n nr)) (LeftF k g u # fs)" and u: "color_of u = Black"
  obtains s' where "insert_color_left n p g s = Some (p, s')"
    "after s s' (Node Black (Node c pl p nl) n (Node Red nr g u)) fs"
proof -
  have g: "zrep s (Node k (Node c pl p (Node c' nl n nr)) g u) fs"
    and zu: "zrep s u (RightF k (Node c pl p (Node c' nl n nr)) g # fs)"
    using z by (simp_all add: zrep_up)
  obtain h0 root where 0: "rb_rotate_left p s = Some (h0, root)"
      "after s (h0, root) (Node c' (Node c pl p nl) n nr) (LeftF k g u # fs)"
    using rotate_left_after [OF z] by (metis surj_pair)
  obtain h1 where 1: "upd h0 n rb_set_black = Some h1"
      "after (h0, root) (h1, root) (Node Black (Node c pl p nl) n nr) (LeftF k g u # fs)"
    by (rule paint_black [OF after_zrep [OF 0(2)]])
  have "zrep (h1, root) (Node k (Node Black (Node c pl p nl) n nr) g u) fs"
    using after_zrep [OF 1(2)] by (simp add: zrep_up)
  then obtain h2 where 2: "upd h1 g rb_set_red = Some h2"
      "after (h1, root) (h2, root) (Node Red (Node Black (Node c pl p nl) n nr) g u) fs"
    by (rule paint_red)
  obtain s3 where 3: "rb_rotate_right g (h2, root) = Some s3"
      "after (h2, root) s3 (Node Black (Node c pl p nl) n (Node Red nr g u)) fs"
    by (rule rotate_right_after [OF after_zrep [OF 2(2)]])
  have "after s s3 (Node Black (Node c pl p nl) n (Node Red nr g u)) fs"
    by (rule after_trans [OF after_trans [OF after_trans [OF 0(2) 1(2)] 2(2)] 3(2)])
      (simp_all add: footprint_def)
  then show ?thesis
    using that [of s3] zrep_reads [OF g] zrep_reads [OF z] zrep_is_red [OF zu] u 0(1) 1(1) 2(1) 3(1)
    by (simp add: insert_color_left_def)
qed

lemma insert_color_right_uncle:
  assumes z: "zrep s (Node c pr p pl) (RightF k u g # fs)" and u: "color_of u = Red"
  obtains s' where "insert_color_right node p g s = Some (g, s')"
    "after s s' (Node Red (paint Black u) g (Node Black pr p pl)) fs"
proof -
  obtain h root where s: "s = (h, root)" by (cases s)
  from u obtain ul ua ur where ua: "u = Node Red ur ua ul" by (cases u) auto
  have g: "zrep s (Node k u g (Node c pr p pl)) fs"
    and zu: "zrep s (Node Red ur ua ul) (LeftF k g (Node c pr p pl) # fs)"
    using z by (simp_all add: zrep_up ua)
  obtain h1 where 1: "upd h ua rb_set_black = Some h1"
      "after (h, root) (h1, root) (Node Black ur ua ul) (LeftF k g (Node c pr p pl) # fs)"
    by (rule paint_black [OF zu [unfolded s]])
  have "zrep (h1, root) (Node c pr p pl) (RightF k (Node Black ur ua ul) g # fs)"
    using after_zrep [OF 1(2)] by (simp add: zrep_up)
  then obtain h2 where 2: "upd h1 p rb_set_black = Some h2"
      "after (h1, root) (h2, root) (Node Black pr p pl) (RightF k (Node Black ur ua ul) g # fs)"
    by (rule paint_black)
  have "zrep (h2, root) (Node k (Node Black ur ua ul) g (Node Black pr p pl)) fs"
    using after_zrep [OF 2(2)] by (simp add: zrep_up)
  then obtain h3 where 3: "upd h2 g rb_set_red = Some h3"
      "after (h2, root) (h3, root) (Node Red (Node Black ur ua ul) g (Node Black pr p pl)) fs"
    by (rule paint_red)
  have "after s (h3, root) (Node Red (Node Black ur ua ul) g (Node Black pr p pl)) fs"
    by (rule after_trans [OF after_trans [OF 1(2) 2(2)] 3(2), folded s]) (simp_all add: footprint_def)
  then show ?thesis
    using that [of "(h3, root)"] zrep_reads [OF g] zrep_reads [OF zu] 1(1) 2(1) 3(1)
    by (simp add: insert_color_right_def ua s)
qed

lemma insert_color_right_outer:
  assumes z: "zrep s (Node c pr p pl) (RightF k u g # fs)" and u: "color_of u = Black"
    and n: "node \<noteq> root_of pr"
  obtains s' where "insert_color_right node p g s = Some (node, s')"
    "after s s' (Node Black (Node Red u g pr) p pl) fs"
proof -
  obtain h root where s: "s = (h, root)" by (cases s)
  have g: "zrep s (Node k u g (Node c pr p pl)) fs" and zu: "zrep s u (LeftF k g (Node c pr p pl) # fs)"
    using z by (simp_all add: zrep_up)
  obtain h1 where 1: "upd h p rb_set_black = Some h1"
      "after (h, root) (h1, root) (Node Black pr p pl) (RightF k u g # fs)"
    by (rule paint_black [OF z [unfolded s]])
  have "zrep (h1, root) (Node k u g (Node Black pr p pl)) fs"
    using after_zrep [OF 1(2)] by (simp add: zrep_up)
  then obtain h2 where 2: "upd h1 g rb_set_red = Some h2"
      "after (h1, root) (h2, root) (Node Red u g (Node Black pr p pl)) fs"
    by (rule paint_red)
  obtain s3 where 3: "rb_rotate_left g (h2, root) = Some s3"
      "after (h2, root) s3 (Node Black (Node Red u g pr) p pl) fs"
    by (rule rotate_left_after [OF after_zrep [OF 2(2)]])
  have "after s s3 (Node Black (Node Red u g pr) p pl) fs"
    by (rule after_trans [OF after_trans [OF 1(2) 2(2)] 3(2), folded s]) (simp_all add: footprint_def)
  then show ?thesis
    using that [of s3] zrep_reads [OF g] zrep_reads [OF z] zrep_is_red [OF zu, unfolded s] u n 1(1) 2(1) 3(1)
    by (simp add: insert_color_right_def s)
qed

lemma insert_color_right_inner:
  assumes z: "zrep s (Node c (Node c' nr n nl) p pl) (RightF k u g # fs)" and u: "color_of u = Black"
  obtains s' where "insert_color_right n p g s = Some (p, s')"
    "after s s' (Node Black (Node Red u g nr) n (Node c nl p pl)) fs"
proof -
  have g: "zrep s (Node k u g (Node c (Node c' nr n nl) p pl)) fs"
    and zu: "zrep s u (LeftF k g (Node c (Node c' nr n nl) p pl) # fs)"
    using z by (simp_all add: zrep_up)
  obtain h0 root where 0: "rb_rotate_right p s = Some (h0, root)"
      "after s (h0, root) (Node c' nr n (Node c nl p pl)) (RightF k u g # fs)"
    using rotate_right_after [OF z] by (metis surj_pair)
  obtain h1 where 1: "upd h0 n rb_set_black = Some h1"
      "after (h0, root) (h1, root) (Node Black nr n (Node c nl p pl)) (RightF k u g # fs)"
    by (rule paint_black [OF after_zrep [OF 0(2)]])
  have "zrep (h1, root) (Node k u g (Node Black nr n (Node c nl p pl))) fs"
    using after_zrep [OF 1(2)] by (simp add: zrep_up)
  then obtain h2 where 2: "upd h1 g rb_set_red = Some h2"
      "after (h1, root) (h2, root) (Node Red u g (Node Black nr n (Node c nl p pl))) fs"
    by (rule paint_red)
  obtain s3 where 3: "rb_rotate_left g (h2, root) = Some s3"
      "after (h2, root) s3 (Node Black (Node Red u g nr) n (Node c nl p pl)) fs"
    by (rule rotate_left_after [OF after_zrep [OF 2(2)]])
  have "after s s3 (Node Black (Node Red u g nr) n (Node c nl p pl)) fs"
    by (rule after_trans [OF after_trans [OF after_trans [OF 0(2) 1(2)] 2(2)] 3(2)])
      (simp_all add: footprint_def)
  then show ?thesis
    using that [of s3] zrep_reads [OF g] zrep_reads [OF z] zrep_is_red [OF zu] u 0(1) 1(1) 2(1) 3(1)
    by (simp add: insert_color_right_def)
qed

lemma sibling_roots:
  "zrep s t (LeftF k a r # fs) \<Longrightarrow> t \<noteq> Leaf \<Longrightarrow> root_of t \<noteq> root_of r"
  "zrep s t (RightF k l a # fs) \<Longrightarrow> t \<noteq> Leaf \<Longrightarrow> root_of t \<noteq> root_of l"
  by (cases t; auto simp: zrep_def dest: root_of_in dest!: fresh_root [THEN not_sym])+

subsection \<open>The whole loop\<close>

text \<open>
  The new red subtree \<open>t\<close> in its context, as the loop rebuilds it: under a red parent with a red
  uncle the colours are pushed up and the loop goes on from the grandparent; with a black uncle
  one or two rotations end it.
\<close>

fun ins_fix :: "rbt \<Rightarrow> frame list \<Rightarrow> rbt" where
  "ins_fix t (LeftF Red p r # LeftF k g u # fs) =
     (if color_of u = Red then ins_fix (Node Red (Node Black t p r) g (paint Black u)) fs
      else plug (Node Black t p (Node Red r g u)) fs)"
| "ins_fix (Node c nl n nr) (RightF Red l p # LeftF k g u # fs) =
     (if color_of u = Red
      then ins_fix (Node Red (Node Black l p (Node c nl n nr)) g (paint Black u)) fs
      else plug (Node Black (Node Red l p nl) n (Node Red nr g u)) fs)"
| "ins_fix t (RightF Red l p # RightF k u g # fs) =
     (if color_of u = Red then ins_fix (Node Red (paint Black u) g (Node Black l p t)) fs
      else plug (Node Black (Node Red u g l) p t) fs)"
| "ins_fix (Node c nl n nr) (LeftF Red p r # RightF k u g # fs) =
     (if color_of u = Red
      then ins_fix (Node Red (paint Black u) g (Node Black (Node c nl n nr) p r)) fs
      else plug (Node Black (Node Red u g nl) n (Node Red nr p r)) fs)"
| "ins_fix t fs = plug t fs"

lemma insert_color_stops:
  assumes "zrep s t fs" and "t \<noteq> Leaf" and "fs = [] \<or> frame_color (hd fs) = Black"
  shows "insert_color_loop (root_of t) s = Some s"
proof -
  obtain c l a r where t: "t = Node c l a r" using assms(2) by (cases t) auto
  have "rd (fst s) a rb_parent = Some (parent_of fs)" using assms(1) zrep_reads unfolding t by blast
  moreover have "is_red_node (fst s) (parent_of fs) = Some False"
  proof (cases fs)
    case Nil
    then show ?thesis by (simp add: is_red_node_def)
  next
    case (Cons f fs')
    then have "zrep s (up t f) fs'" using assms(1) by (simp add: zrep_up)
    then show ?thesis using Cons assms(3) by (cases f) (auto dest!: zrep_reads(7))
  qed
  ultimately show ?thesis by (subst insert_color_loop.simps) (simp add: t)
qed

lemma insert_color_loop_step:
  assumes z: "zrep s t (f # f' # fs)" and t: "t \<noteq> Leaf" and red: "frame_color f = Red"
  shows "insert_color_loop (root_of t) s = do {
      (node, s) \<leftarrow> (case f' of LeftF k g u \<Rightarrow> insert_color_left (root_of t) (parent_of [f]) g s
                           | RightF k u g \<Rightarrow> insert_color_right (root_of t) (parent_of [f]) g s);
      insert_color_loop node s }"
proof -
  have 1: "rd (fst s) (root_of t) rb_parent = Some (parent_of [f])"
    using z t by (cases t; cases f) (auto dest: zrep_reads)
  have zp: "zrep s (up t f) (f' # fs)" using z by (simp add: zrep_up)
  then have 2: "is_red_node (fst s) (parent_of [f]) = Some True"
      "rd (fst s) (parent_of [f]) rb_parent = Some (parent_of [f'])"
    using red by (cases f; cases f'; auto dest: zrep_reads)+
  have zg: "zrep s (up (up t f) f') fs" using zp by (simp add: zrep_up)
  have p: "up t f \<noteq> Leaf" "root_of (up t f) = parent_of [f]" by (cases f; simp)+
  show ?thesis
  proof (cases f')
    case (LeftF k g u)
    then have "rd (fst s) g rb_left = Some (parent_of [f])" using zg p by (auto dest: zrep_reads)
    then show ?thesis using 1 2 LeftF by (subst insert_color_loop.simps) (simp add: split_beta)
  next
    case (RightF k u g)
    then have "rd (fst s) g rb_left = Some (root_of u)" using zg by (auto dest: zrep_reads)
    moreover have "parent_of [f] \<noteq> root_of u"
      using sibling_roots(2) [of s "up t f" k u g fs] zp p RightF by simp
    ultimately show ?thesis using 1 2 RightF by (subst insert_color_loop.simps) (simp add: split_beta)
  qed
qed

lemma inorder_ins_fix: "inorder (ins_fix t fs) = inorder (plug t fs)"
  by (induction t fs rule: ins_fix.induct) (auto simp: inorder_plug)

text \<open>A rotation ends the loop: its node now hangs below a black one.\<close>

lemma insert_color_last:
  assumes a: "after s s' t (f # fs)" and "frame_color f = Black" "t \<noteq> Leaf"
  shows "\<exists>s''. insert_color_loop (root_of t) s' = Some s'' \<and> after s s'' (plug t (f # fs)) []"
  using insert_color_stops [OF after_zrep [OF a]] a assms(2,3) after_whole by (metis list.sel(1))

lemma insert_color_done:
  assumes z: "zrep s t fs" and t: "t \<noteq> Leaf" and b: "fs = [] \<or> frame_color (hd fs) = Black"
  shows "\<exists>s'. insert_color_loop (root_of t) s = Some s' \<and> after s s' (plug t fs) []"
  using insert_color_stops [OF assms] after_refl [OF z] after_whole by blast

lemma insert_color_loop_ok:
  "zrep s t fs \<Longrightarrow> t \<noteq> Leaf \<Longrightarrow> (fs \<noteq> [] \<longrightarrow> frame_color (last fs) = Black) \<Longrightarrow>
   \<exists>s'. insert_color_loop (root_of t) s = Some s' \<and> after s s' (ins_fix t fs) []"
proof (induction t fs arbitrary: s rule: ins_fix.induct)
  case (1 t p r k g u fs)
  note step = insert_color_loop_step [OF "1.prems"(1,2)]
  have z: "zrep s (Node Red t p r) (LeftF k g u # fs)" using "1.prems"(1) by (simp add: zrep_up)
  show ?case
  proof (cases "color_of u")
    case Red
    obtain s1 where 1: "insert_color_left (root_of t) p g s = Some (g, s1)"
        "after s s1 (Node Red (Node Black t p r) g (paint Black u)) fs"
      by (rule insert_color_left_uncle [OF z Red])
    then obtain s' where 2: "insert_color_loop g s1 = Some s'"
        "after s1 s' (ins_fix (Node Red (Node Black t p r) g (paint Black u)) fs) []"
      using "1.IH" [OF Red after_zrep [OF 1(2)]] "1.prems" by (auto split: if_splits)
    have "after s s' (ins_fix (Node Red (Node Black t p r) g (paint Black u)) fs) []"
      by (rule after_then [OF 1(2) 2(2) inorder_ins_fix])
    then show ?thesis using step 1(1) 2(1) Red by simp
  next
    case Black
    have "root_of t \<noteq> root_of r" using sibling_roots "1.prems" by blast
    with z Black obtain s1 where 1: "insert_color_left (root_of t) p g s = Some (root_of t, s1)"
        "after s s1 (Node Black t p (Node Red r g u)) fs"
      by (rule insert_color_left_outer)
    have "after s s1 t (LeftF Black p (Node Red r g u) # fs)" using 1(2) by (simp add: after_up)
    from insert_color_last [OF this] show ?thesis using step 1(1) Black "1.prems"(2) by simp
  qed
next
  case (2 c nl n nr l p k g u fs)
  note step = insert_color_loop_step [OF "2.prems"(1,2)]
  have z: "zrep s (Node Red l p (Node c nl n nr)) (LeftF k g u # fs)"
    using "2.prems"(1) by (simp add: zrep_up)
  show ?case
  proof (cases "color_of u")
    case Red
    obtain s1 where 1: "insert_color_left n p g s = Some (g, s1)"
        "after s s1 (Node Red (Node Black l p (Node c nl n nr)) g (paint Black u)) fs"
      by (rule insert_color_left_uncle [OF z Red])
    then obtain s' where 2: "insert_color_loop g s1 = Some s'"
        "after s1 s' (ins_fix (Node Red (Node Black l p (Node c nl n nr)) g (paint Black u)) fs) []"
      using "2.IH" [OF Red after_zrep [OF 1(2)]] "2.prems" by (auto split: if_splits)
    have "after s s' (ins_fix (Node Red (Node Black l p (Node c nl n nr)) g (paint Black u)) fs) []"
      by (rule after_then [OF 1(2) 2(2) inorder_ins_fix])
    then show ?thesis using step 1(1) 2(1) Red by simp
  next
    case Black
    obtain s1 where 1: "insert_color_left n p g s = Some (p, s1)"
        "after s s1 (Node Black (Node Red l p nl) n (Node Red nr g u)) fs"
      by (rule insert_color_left_inner [OF z Black])
    have "after s s1 (Node Red l p nl) (LeftF Black n (Node Red nr g u) # fs)"
      using 1(2) by (simp add: after_up)
    from insert_color_last [OF this] show ?thesis using step 1(1) Black by simp
  qed
next
  case (3 t r p k u g fs)
  note step = insert_color_loop_step [OF "3.prems"(1,2)]
  have z: "zrep s (Node Red r p t) (RightF k u g # fs)" using "3.prems"(1) by (simp add: zrep_up)
  show ?case
  proof (cases "color_of u")
    case Red
    obtain s1 where 1: "insert_color_right (root_of t) p g s = Some (g, s1)"
        "after s s1 (Node Red (paint Black u) g (Node Black r p t)) fs"
      by (rule insert_color_right_uncle [OF z Red])
    then obtain s' where 2: "insert_color_loop g s1 = Some s'"
        "after s1 s' (ins_fix (Node Red (paint Black u) g (Node Black r p t)) fs) []"
      using "3.IH" [OF Red after_zrep [OF 1(2)]] "3.prems" by (auto split: if_splits)
    have "after s s' (ins_fix (Node Red (paint Black u) g (Node Black r p t)) fs) []"
      by (rule after_then [OF 1(2) 2(2) inorder_ins_fix])
    then show ?thesis using step 1(1) 2(1) Red by simp
  next
    case Black
    have "root_of t \<noteq> root_of r" using sibling_roots "3.prems" by blast
    with z Black obtain s1 where 1: "insert_color_right (root_of t) p g s = Some (root_of t, s1)"
        "after s s1 (Node Black (Node Red u g r) p t) fs"
      by (rule insert_color_right_outer)
    have "after s s1 t (RightF Black (Node Red u g r) p # fs)" using 1(2) by (simp add: after_up)
    from insert_color_last [OF this] show ?thesis using step 1(1) Black "3.prems"(2) by simp
  qed
next
  case (4 c nr n nl p l k u g fs)
  note step = insert_color_loop_step [OF "4.prems"(1,2)]
  have z: "zrep s (Node Red (Node c nr n nl) p l) (RightF k u g # fs)"
    using "4.prems"(1) by (simp add: zrep_up)
  show ?case
  proof (cases "color_of u")
    case Red
    obtain s1 where 1: "insert_color_right n p g s = Some (g, s1)"
        "after s s1 (Node Red (paint Black u) g (Node Black (Node c nr n nl) p l)) fs"
      by (rule insert_color_right_uncle [OF z Red])
    then obtain s' where 2: "insert_color_loop g s1 = Some s'"
        "after s1 s' (ins_fix (Node Red (paint Black u) g (Node Black (Node c nr n nl) p l)) fs) []"
      using "4.IH" [OF Red after_zrep [OF 1(2)]] "4.prems" by (auto split: if_splits)
    have "after s s' (ins_fix (Node Red (paint Black u) g (Node Black (Node c nr n nl) p l)) fs) []"
      by (rule after_then [OF 1(2) 2(2) inorder_ins_fix])
    then show ?thesis using step 1(1) 2(1) Red by simp
  next
    case Black
    obtain s1 where 1: "insert_color_right n p g s = Some (p, s1)"
        "after s s1 (Node Black (Node Red u g nr) n (Node Red nl p l)) fs"
      by (rule insert_color_right_inner [OF z Black])
    have "after s s1 (Node Red nl p l) (RightF Black (Node Red u g nr) n # fs)"
      using 1(2) by (simp add: after_up)
    from insert_color_last [OF this] show ?thesis using step 1(1) Black by simp
  qed
qed (auto split: if_splits dest!: insert_color_done)

lemma ins_fix_inv:
  "balanced t \<Longrightarrow> no_red_red t \<Longrightarrow> t \<noteq> Leaf \<Longrightarrow> color_of t = Red \<Longrightarrow> ctx_inv (bheight t) fs \<Longrightarrow>
   red_black (paint Black (ins_fix t fs))"
proof (induction t fs rule: ins_fix.induct)
  case (1 t p r k g u fs)
  then show ?case by (cases k; cases "color_of u") (auto intro!: red_black_plug)
next
  case (2 c nl n nr l p k g u fs)
  then show ?case by (cases k; cases "color_of u") (auto intro!: red_black_plug)
next
  case (3 t l p k u g fs)
  then show ?case by (cases k; cases "color_of u") (auto intro!: red_black_plug)
next
  case (4 c nl n nr p r k u g fs)
  then show ?case by (cases k; cases "color_of u") (auto intro!: red_black_plug)
qed (auto intro!: red_black_plug red_black_short(2) intro: red_black_short(1) split: if_splits)

subsection \<open>Linking a new node and rebalancing\<close>

lemma insert_color_ok:
  assumes z: "zrep s t fs" and t: "t \<noteq> Leaf" and b: "fs \<noteq> [] \<longrightarrow> frame_color (last fs) = Black"
  obtains s' where "rb_insert_color (root_of t) s = Some s'"
    "after s s' (paint Black (ins_fix t fs)) []"
proof -
  obtain h root where 1: "insert_color_loop (root_of t) s = Some (h, root)"
      "after s (h, root) (ins_fix t fs) []"
    using insert_color_loop_ok [OF assms] by (metis surj_pair)
  have "ins_fix t fs \<noteq> Leaf"
    using inorder_ins_fix [of t fs] t by (cases t) (auto simp: inorder_plug)
  then obtain c l a r where n: "ins_fix t fs = Node c l a r" by (cases "ins_fix t fs") auto
  have z: "zrep (h, root) (Node c l a r) []" using after_zrep [OF 1(2)] by (simp add: n)
  then obtain h' where 2: "upd h a rb_set_black = Some h'" "after (h, root) (h', root) (Node Black l a r) []"
    by (rule paint_black)
  have "after s (h', root) (Node Black l a r) []"
    by (rule after_trans [OF 1(2) 2(2)]) (simp add: n footprint_def)
  then show ?thesis using that [of "(h', root)"] 1(1) 2(1) z n
    by (simp add: rb_insert_color_def zrep_def)
qed

fun hole :: "frame list \<Rightarrow> rb_link" where
  "hole [] = Link_root"
| "hole (LeftF c a r # fs) = Link_left a"
| "hole (RightF c l a # fs) = Link_right a"

lemma link_node_ok:
  assumes z: "zrep s Leaf fs" and node: "fst s node = Some n" "node \<noteq> NULL" "ptr_ok node"
    and fresh: "node \<notin> set (before fs @ behind fs)"
  obtains s' where "rb_link_node node (parent_of fs) (hole fs) s = Some s'"
    "after s s' (Node Red Leaf node Leaf) fs"
proof -
  obtain h root where s: "s = (h, root)" by (cases s)
  let ?n = "set_left NULL (set_right NULL (n\<lparr>rb_parent_color := parent_of fs\<rparr>))"
  let ?h = "h(node \<mapsto> ?n)"
  have c: "ctx_at h root NULL fs" and d: "distinct (before fs @ behind fs)"
    using z by (auto simp: zrep_def s)
  have t: "tree_at ?h (parent_of fs) (Node Red Leaf node Leaf)"
    using node parent_of_ok [OF c] by (auto simp: node_sets)
  have o: "only_links h ?h (footprint (Node Red Leaf node Leaf) fs)"
    using node s by (intro only_links_upd) (auto simp: footprint_def)
  show ?thesis
  proof (cases fs rule: hole.cases)
    case 1
    then show ?thesis using that [of "(?h, node)"] node t o
      by (auto simp: rb_link_node_def write_link_def after_def zrep_def s)
  next
    case (2 k a r fs')
    then obtain m where m: "h a = Some m" "a \<noteq> NULL" using c by (auto elim: node_isE)
    have "a \<noteq> node" using fresh 2 by auto
    moreover have "only_links h (?h(a \<mapsto> set_left node m)) (footprint (Node Red Leaf node Leaf) fs)"
      using node s o m 2 \<open>a \<noteq> node\<close> by (intro only_links_upd) (auto simp: footprint_def)
    ultimately show ?thesis using that [of "(?h(a \<mapsto> set_left node m), root)"] node t o c m 2 d fresh
      by (auto simp: rb_link_node_def write_link_def after_def zrep_def s node_sets)
  next
    case (3 k l a fs')
    then obtain m where m: "h a = Some m" "a \<noteq> NULL" using c by (auto elim: node_isE)
    have "a \<noteq> node" using fresh 3 by auto
    moreover have "only_links h (?h(a \<mapsto> set_right node m)) (footprint (Node Red Leaf node Leaf) fs)"
      using node s o m 3 \<open>a \<noteq> node\<close> by (intro only_links_upd) (auto simp: footprint_def)
    ultimately show ?thesis using that [of "(?h(a \<mapsto> set_right node m), root)"] node t o c m 3 d fresh
      by (auto simp: rb_link_node_def write_link_def after_def zrep_def s node_sets)
  qed
qed

text \<open>The way every client of the tree inserts: link at a leaf position, then rebalance.\<close>

theorem rb_insert_ok:
  assumes z: "zrep s Leaf fs" and rb: "red_black (plug Leaf fs)"
    and node: "fst s node = Some n" "node \<noteq> NULL" "ptr_ok node" "node \<notin> set (before fs @ behind fs)"
  shows "\<exists>s1 s2 t. rb_link_node node (parent_of fs) (hole fs) s = Some s1 \<and>
     rb_insert_color node s1 = Some s2 \<and> rep s2 t \<and> red_black t \<and>
     inorder t = before fs @ [node] @ behind fs \<and>
     only_links (fst s) (fst s2) (set (inorder t))"
proof -
  let ?t = "Node Red Leaf node Leaf"
  obtain s1 where 1: "rb_link_node node (parent_of fs) (hole fs) s = Some s1" "after s s1 ?t fs"
    using link_node_ok [OF z] node by blast
  have c: "ctx_inv (bheight ?t) fs"
    using red_black_unplug [of Leaf fs] rb by (simp add: red_black_def)
  obtain s2 where 2: "rb_insert_color (root_of ?t) s1 = Some s2"
      "after s1 s2 (paint Black (ins_fix ?t fs)) []"
    using insert_color_ok [OF after_zrep [OF 1(2)]] ctx_inv_last [OF c] by (metis rbt.distinct(1))
  have "after s s2 (paint Black (ins_fix ?t fs)) []"
    by (rule after_then [OF 1(2) 2(2)]) (simp add: inorder_ins_fix)
  moreover have "red_black (paint Black (ins_fix ?t fs))" using c by (intro ins_fix_inv) auto
  moreover have "inorder (paint Black (ins_fix ?t fs)) = before fs @ [node] @ behind fs"
    by (simp add: inorder_ins_fix inorder_plug)
  ultimately show ?thesis using 1(1) 2(1)
    by (intro exI [of _ s1] exI [of _ s2] exI [of _ "paint Black (ins_fix ?t fs)"])
      (simp add: after_def footprint_def)
qed

end
