(* ===== verification/RBErase.thy ===== *)
theory RBErase
  imports RBInsert
begin

text \<open>
  Removal: the rebalancing loop of \<^verbatim>\<open>rb_erase_color\<close> and the unlinking paths of \<^verbatim>\<open>rb_erase\<close> refine
  functions on zippers that keep the red-black invariant and remove exactly one address.
\<close>

subsection \<open>One iteration of the loop\<close>

text \<open>
  The loop body once the sibling is known to be the one to work on (\<open>_tail\<close>), and its last
  case, where the far nephew is red (\<open>_finish\<close>).
\<close>

definition erase_left_finish :: "addr \<Rightarrow> addr \<Rightarrow> 'a rb_state \<Rightarrow> (addr \<times> addr \<times> bool \<times> 'a rb_state) option" where
  "erase_left_finish parent oth s = do {
     pc \<leftarrow> rd (fst s) parent rb_color;
     h \<leftarrow> upd (fst s) oth (rb_set_color pc);
     h \<leftarrow> upd h parent rb_set_black;
     or \<leftarrow> rd h oth rb_right;
     h \<leftarrow> upd h or rb_set_black;
     s \<leftarrow> rb_rotate_left parent (h, snd s);
     Some (snd s, parent, True, s)
   }"

definition erase_left_tail :: "addr \<Rightarrow> addr \<Rightarrow> 'a rb_state \<Rightarrow> (addr \<times> addr \<times> bool \<times> 'a rb_state) option" where
  "erase_left_tail parent oth s = do {
     ol \<leftarrow> rd (fst s) oth rb_left;
     lb \<leftarrow> is_black_or_null (fst s) ol;
     or \<leftarrow> rd (fst s) oth rb_right;
     rb \<leftarrow> is_black_or_null (fst s) or;
     if lb \<and> rb then do {
       h \<leftarrow> upd (fst s) oth rb_set_red;
       pp \<leftarrow> rd h parent rb_parent;
       Some (parent, pp, False, (h, snd s))
     } else do {
       (oth, s) \<leftarrow> (if rb then do {
             h \<leftarrow> upd (fst s) ol rb_set_black;
             h \<leftarrow> upd h oth rb_set_red;
             s \<leftarrow> rb_rotate_right oth (h, snd s);
             oth \<leftarrow> rd (fst s) parent rb_right;
             Some (oth, s)
           } else Some (oth, s));
       erase_left_finish parent oth s
     }
   }"

lemma erase_color_left_tail:
  "erase_color_left node parent s = do {
     oth \<leftarrow> rd (fst s) parent rb_right;
     ored \<leftarrow> rd (fst s) oth rb_is_red;
     (oth, s) \<leftarrow> (if ored then do {
           h \<leftarrow> upd (fst s) oth rb_set_black;
           h \<leftarrow> upd h parent rb_set_red;
           s \<leftarrow> rb_rotate_left parent (h, snd s);
           oth \<leftarrow> rd (fst s) parent rb_right;
           Some (oth, s)
         } else Some (oth, s));
     erase_left_tail parent oth s
   }"
  unfolding erase_color_left_def erase_left_tail_def erase_left_finish_def ..

definition erase_right_finish :: "addr \<Rightarrow> addr \<Rightarrow> 'a rb_state \<Rightarrow> (addr \<times> addr \<times> bool \<times> 'a rb_state) option" where
  "erase_right_finish parent oth s = do {
     pc \<leftarrow> rd (fst s) parent rb_color;
     h \<leftarrow> upd (fst s) oth (rb_set_color pc);
     h \<leftarrow> upd h parent rb_set_black;
     ol \<leftarrow> rd h oth rb_left;
     h \<leftarrow> upd h ol rb_set_black;
     s \<leftarrow> rb_rotate_right parent (h, snd s);
     Some (snd s, parent, True, s)
   }"

definition erase_right_tail :: "addr \<Rightarrow> addr \<Rightarrow> 'a rb_state \<Rightarrow> (addr \<times> addr \<times> bool \<times> 'a rb_state) option" where
  "erase_right_tail parent oth s = do {
     ol \<leftarrow> rd (fst s) oth rb_left;
     lb \<leftarrow> is_black_or_null (fst s) ol;
     or \<leftarrow> rd (fst s) oth rb_right;
     rb \<leftarrow> is_black_or_null (fst s) or;
     if lb \<and> rb then do {
       h \<leftarrow> upd (fst s) oth rb_set_red;
       pp \<leftarrow> rd h parent rb_parent;
       Some (parent, pp, False, (h, snd s))
     } else do {
       (oth, s) \<leftarrow> (if lb then do {
             h \<leftarrow> upd (fst s) or rb_set_black;
             h \<leftarrow> upd h oth rb_set_red;
             s \<leftarrow> rb_rotate_left oth (h, snd s);
             oth \<leftarrow> rd (fst s) parent rb_left;
             Some (oth, s)
           } else Some (oth, s));
       erase_right_finish parent oth s
     }
   }"

lemma erase_color_right_tail:
  "erase_color_right node parent s = do {
     oth \<leftarrow> rd (fst s) parent rb_left;
     ored \<leftarrow> rd (fst s) oth rb_is_red;
     (oth, s) \<leftarrow> (if ored then do {
           h \<leftarrow> upd (fst s) oth rb_set_black;
           h \<leftarrow> upd h parent rb_set_red;
           s \<leftarrow> rb_rotate_right parent (h, snd s);
           oth \<leftarrow> rd (fst s) parent rb_left;
           Some (oth, s)
         } else Some (oth, s));
     erase_right_tail parent oth s
   }"
  unfolding erase_color_right_def erase_right_tail_def erase_right_finish_def ..

text \<open>
  The same step on trees: the deficient subtree \<open>t\<close> below \<open>p\<close>, its sibling \<open>w\<close>. The flag says
  that the deficiency has moved up to the result and the loop goes on.
\<close>

fun del_left :: "color \<Rightarrow> rbt \<Rightarrow> addr \<Rightarrow> rbt \<Rightarrow> rbt \<times> bool" where
  "del_left k t p Leaf = (Node k t p Leaf, True)"
| "del_left k t p (Node c wl wa wr) =
     (if color_of wl = Black \<and> color_of wr = Black then (Node k t p (Node Red wl wa wr), True)
      else if color_of wr = Black then
        (case wl of Node c' a x b \<Rightarrow> (Node k (Node Black t p a) x (Node Black b wa wr), False)
                  | Leaf \<Rightarrow> (Node k t p (Node c wl wa wr), False))
      else (Node k (Node Black t p wl) wa (paint Black wr), False))"

fun del_right :: "color \<Rightarrow> rbt \<Rightarrow> addr \<Rightarrow> rbt \<Rightarrow> rbt \<times> bool" where
  "del_right k t p Leaf = (Node k Leaf p t, True)"
| "del_right k t p (Node c wl wa wr) =
     (if color_of wl = Black \<and> color_of wr = Black then (Node k (Node Red wl wa wr) p t, True)
      else if color_of wl = Black then
        (case wr of Node c' a x b \<Rightarrow> (Node k (Node Black wl wa a) x (Node Black b p t), False)
                  | Leaf \<Rightarrow> (Node k (Node c wl wa wr) p t, False))
      else (Node k (paint Black wl) wa (Node Black wr p t), False))"

lemma inorder_del_left: "inorder (fst (del_left k t p w)) = inorder t @ p # inorder w"
  by (cases w) (auto split: rbt.split)

lemma inorder_del_right: "inorder (fst (del_right k t p w)) = inorder w @ p # inorder t"
  by (cases w) (auto split: rbt.split)

lemma left_tail_both:
  assumes z: "zrep s (Node k t p (Node c wl wa wr)) fs" and "color_of wl = Black" "color_of wr = Black"
  obtains s' where "erase_left_tail p wa s = Some (p, parent_of fs, False, s')"
    "after s s' (Node k t p (Node Red wl wa wr)) fs"
proof -
  obtain h root where s: "s = (h, root)" by (cases s)
  have w: "zrep (h, root) (Node c wl wa wr) (RightF k t p # fs)" using z by (simp add: zrep_up s)
  have wl: "zrep (h, root) wl (LeftF c wa wr # RightF k t p # fs)"
    and wr: "zrep (h, root) wr (RightF c wl wa # RightF k t p # fs)" using w by (simp_all add: zrep_up)
  obtain h1 where 1: "upd h wa rb_set_red = Some h1"
      "after (h, root) (h1, root) (Node Red wl wa wr) (RightF k t p # fs)"
    by (rule paint_red [OF w])
  have 2: "after s (h1, root) (Node k t p (Node Red wl wa wr)) fs" using 1(2) by (simp add: after_up s)
  show ?thesis
    using that [OF _ 2] zrep_reads [OF after_zrep [OF 2]] zrep_reads [OF w] 1(1) assms(2,3)
      zrep_black_or_null [OF wl] zrep_black_or_null [OF wr]
    by (simp add: erase_left_tail_def s)
qed

lemma left_finish:
  assumes z: "zrep s (Node k t p (Node c wl wa (Node c' a x b))) fs"
  obtains s' where "erase_left_finish p wa s = Some (snd s', p, True, s')"
    "after s s' (Node k (Node Black t p wl) wa (Node Black a x b)) fs"
proof -
  obtain h root where s: "s = (h, root)" by (cases s)
  have w: "zrep (h, root) (Node c wl wa (Node c' a x b)) (RightF k t p # fs)" using z by (simp add: zrep_up s)
  obtain h1 where 1: "upd h wa (rb_set_color (if k = Red then 0 else 1)) = Some h1"
      "after (h, root) (h1, root) (Node k wl wa (Node c' a x b)) (RightF k t p # fs)"
    by (rule paint_like [OF w])
  have "zrep (h1, root) (Node k t p (Node k wl wa (Node c' a x b))) fs"
    using after_zrep [OF 1(2)] by (simp add: zrep_up)
  then obtain h2 where 2: "upd h1 p rb_set_black = Some h2"
      "after (h1, root) (h2, root) (Node Black t p (Node k wl wa (Node c' a x b))) fs"
    by (rule paint_black)
  have w2: "zrep (h2, root) (Node k wl wa (Node c' a x b)) (RightF Black t p # fs)"
    and "zrep (h2, root) (Node c' a x b) (RightF k wl wa # RightF Black t p # fs)"
    using after_zrep [OF 2(2)] by (simp_all add: zrep_up)
  from this(2) obtain h3 where 3: "upd h2 x rb_set_black = Some h3"
      "after (h2, root) (h3, root) (Node Black a x b) (RightF k wl wa # RightF Black t p # fs)"
    by (rule paint_black)
  have "zrep (h3, root) (Node Black t p (Node k wl wa (Node Black a x b))) fs"
    using after_zrep [OF 3(2)] by (simp add: zrep_up)
  then obtain s4 where 4: "rb_rotate_left p (h3, root) = Some s4"
      "after (h3, root) s4 (Node k (Node Black t p wl) wa (Node Black a x b)) fs"
    by (rule rotate_left_after)
  have 5: "after s s4 (Node k (Node Black t p wl) wa (Node Black a x b)) fs"
    by (rule after_trans [OF after_trans [OF after_trans [OF 1(2) 2(2)] 3(2)] 4(2), folded s])
      (simp_all add: footprint_def)
  show ?thesis
    using that [OF _ 5] zrep_reads [OF z] zrep_reads [OF w2] 1(1) 2(1) 3(1) 4(1)
    by (simp add: erase_left_finish_def s)
qed

lemma left_tail_far:
  assumes z: "zrep s (Node k t p (Node c wl wa wr)) fs" and "color_of wr = Red"
  obtains s' where "erase_left_tail p wa s = Some (snd s', p, True, s')"
    "after s s' (Node k (Node Black t p wl) wa (paint Black wr)) fs"
proof -
  have w: "zrep s (Node c wl wa wr) (RightF k t p # fs)" using z by (simp add: zrep_up)
  have wl: "zrep s wl (LeftF c wa wr # RightF k t p # fs)"
    and wr: "zrep s wr (RightF c wl wa # RightF k t p # fs)" using w by (simp_all add: zrep_up)
  obtain c' a x b where x: "wr = Node c' a x b" using assms(2) by (cases wr) auto
  obtain s' where 1: "erase_left_finish p wa s = Some (snd s', p, True, s')"
      "after s s' (Node k (Node Black t p wl) wa (Node Black a x b)) fs"
    by (rule left_finish [OF z [unfolded x]])
  show ?thesis
    using that [of s'] 1 zrep_reads [OF w] assms(2) zrep_black_or_null [OF wl] zrep_black_or_null [OF wr] x
    by (simp add: erase_left_tail_def)
qed

lemma left_tail_near:
  assumes z: "zrep s (Node k t p (Node c (Node c' a x b) wa wr)) fs" and "c' = Red" "color_of wr = Black"
  obtains s' where "erase_left_tail p wa s = Some (snd s', p, True, s')"
    "after s s' (Node k (Node Black t p a) x (Node Black b wa wr)) fs"
proof -
  obtain h root where s: "s = (h, root)" by (cases s)
  have w: "zrep (h, root) (Node c (Node c' a x b) wa wr) (RightF k t p # fs)"
    using z by (simp add: zrep_up s)
  have wl: "zrep (h, root) (Node c' a x b) (LeftF c wa wr # RightF k t p # fs)"
    and wr: "zrep (h, root) wr (RightF c (Node c' a x b) wa # RightF k t p # fs)"
    using w by (simp_all add: zrep_up)
  obtain h1 where 1: "upd h x rb_set_black = Some h1"
      "after (h, root) (h1, root) (Node Black a x b) (LeftF c wa wr # RightF k t p # fs)"
    by (rule paint_black [OF wl])
  have "zrep (h1, root) (Node c (Node Black a x b) wa wr) (RightF k t p # fs)"
    using after_zrep [OF 1(2)] by (simp add: zrep_up)
  then obtain h2 where 2: "upd h1 wa rb_set_red = Some h2"
      "after (h1, root) (h2, root) (Node Red (Node Black a x b) wa wr) (RightF k t p # fs)"
    by (rule paint_red)
  obtain s3 where 3: "rb_rotate_right wa (h2, root) = Some s3"
      "after (h2, root) s3 (Node Black a x (Node Red b wa wr)) (RightF k t p # fs)"
    by (rule rotate_right_after [OF after_zrep [OF 2(2)]])
  have z3: "zrep s3 (Node k t p (Node Black a x (Node Red b wa wr))) fs"
    using after_zrep [OF 3(2)] by (simp add: zrep_up)
  obtain s4 where 4: "erase_left_finish p x s3 = Some (snd s4, p, True, s4)"
      "after s3 s4 (Node k (Node Black t p a) x (Node Black b wa wr)) fs"
    by (rule left_finish [OF z3])
  have 5: "after s s4 (Node k (Node Black t p a) x (Node Black b wa wr)) fs"
    by (rule after_trans [OF after_trans [OF after_trans [OF 1(2) 2(2)] 3(2)] 4(2), folded s])
      (simp_all add: footprint_def)
  show ?thesis
    using that [OF _ 5] zrep_reads [OF w] zrep_reads [OF wl] zrep_black_or_null [OF wr]
      zrep_reads [OF z3] assms(2,3) 1(1) 2(1) 3(1) 4(1)
    by (simp add: erase_left_tail_def s)
qed

lemma left_tail_ok:
  assumes z: "zrep s (Node k t p w) fs" and w: "w \<noteq> Leaf"
  obtains s' where "erase_left_tail p (root_of w) s =
      Some (if snd (del_left k t p w) then (p, parent_of fs, False, s') else (snd s', p, True, s'))"
    "after s s' (fst (del_left k t p w)) fs"
proof -
  obtain c wl wa wr where n: "w = Node c wl wa wr" using w by (cases w) auto
  consider (both) "color_of wl = Black" "color_of wr = Black" | (far) "color_of wr = Red"
    | (near) "color_of wl = Red" "color_of wr = Black"
    by (metis color.exhaust)
  then show ?thesis
  proof cases
    case both
    obtain s' where "erase_left_tail p wa s = Some (p, parent_of fs, False, s')"
        "after s s' (Node k t p (Node Red wl wa wr)) fs"
      by (rule left_tail_both [OF z [unfolded n] both])
    then show ?thesis using that [of s'] both n by simp
  next
    case far
    obtain s' where "erase_left_tail p wa s = Some (snd s', p, True, s')"
        "after s s' (Node k (Node Black t p wl) wa (paint Black wr)) fs"
      by (rule left_tail_far [OF z [unfolded n] far])
    then show ?thesis using that [of s'] far n by simp
  next
    case near
    obtain a x b where x: "wl = Node Red a x b" using near by (cases wl) auto
    obtain s' where "erase_left_tail p wa s = Some (snd s', p, True, s')"
        "after s s' (Node k (Node Black t p a) x (Node Black b wa wr)) fs"
      by (rule left_tail_near [OF z [unfolded n x] refl near(2)])
    then show ?thesis using that [of s'] near n x by simp
  qed
qed

lemma erase_left_straight:
  assumes z: "zrep s (Node k t p w) fs" and w: "w \<noteq> Leaf" "color_of w = Black"
  obtains s' where "erase_color_left n p s =
      Some (if snd (del_left k t p w) then (p, parent_of fs, False, s') else (snd s', p, True, s'))"
    "after s s' (fst (del_left k t p w)) fs"
proof -
  obtain wl wa wr where n: "w = Node Black wl wa wr" using w by (cases w) auto
  have z': "zrep s (Node Black wl wa wr) (RightF k t p # fs)" using z n by (simp add: zrep_up)
  have "erase_color_left n p s = erase_left_tail p (root_of w) s"
    using zrep_reads [OF z] zrep_reads [OF z'] n by (simp add: erase_color_left_tail)
  with left_tail_ok [OF z w(1)] that show ?thesis by metis
qed

lemma erase_left_red_sibling:
  assumes z: "zrep s (Node k t p (Node Red wl wa wr)) fs" and w: "wl \<noteq> Leaf"
  obtains s' where "erase_color_left n p s =
      Some (if snd (del_left Red t p wl) then (p, wa, False, s') else (snd s', p, True, s'))"
    "after s s' (fst (del_left Red t p wl)) (LeftF Black wa wr # fs)"
proof -
  obtain h root where s: "s = (h, root)" by (cases s)
  have z1: "zrep (h, root) (Node Red wl wa wr) (RightF k t p # fs)" using z by (simp add: zrep_up s)
  obtain h1 where 1: "upd h wa rb_set_black = Some h1"
      "after (h, root) (h1, root) (Node Black wl wa wr) (RightF k t p # fs)"
    by (rule paint_black [OF z1])
  have "zrep (h1, root) (Node k t p (Node Black wl wa wr)) fs"
    using after_zrep [OF 1(2)] by (simp add: zrep_up)
  then obtain h2 where 2: "upd h1 p rb_set_red = Some h2"
      "after (h1, root) (h2, root) (Node Red t p (Node Black wl wa wr)) fs"
    by (rule paint_red)
  obtain s3 where 3: "rb_rotate_left p (h2, root) = Some s3"
      "after (h2, root) s3 (Node Black (Node Red t p wl) wa wr) fs"
    by (rule rotate_left_after [OF after_zrep [OF 2(2)]])
  have z3: "zrep s3 (Node Red t p wl) (LeftF Black wa wr # fs)"
    using after_zrep [OF 3(2)] by (simp add: zrep_up)
  obtain s4 where 4: "erase_left_tail p (root_of wl) s3 =
      Some (if snd (del_left Red t p wl) then (p, parent_of (LeftF Black wa wr # fs), False, s4)
        else (snd s4, p, True, s4))"
    "after s3 s4 (fst (del_left Red t p wl)) (LeftF Black wa wr # fs)"
    by (rule left_tail_ok [OF z3 w])
  have 5: "after s s4 (fst (del_left Red t p wl)) (LeftF Black wa wr # fs)"
    by (rule after_trans [OF after_trans [OF after_trans [OF 1(2) 2(2)] 3(2)] 4(2), folded s])
      (simp_all add: footprint_def inorder_del_left)
  show ?thesis
    using that [OF _ 5] zrep_reads [OF z] zrep_reads [OF z1] zrep_reads [OF z3] 1(1) 2(1) 3(1) 4(1)
    by (simp add: erase_color_left_tail s)
qed

lemma right_tail_both:
  assumes z: "zrep s (Node k (Node c wr wa wl) p t) fs" and "color_of wl = Black" "color_of wr = Black"
  obtains s' where "erase_right_tail p wa s = Some (p, parent_of fs, False, s')"
    "after s s' (Node k (Node Red wr wa wl) p t) fs"
proof -
  obtain h root where s: "s = (h, root)" by (cases s)
  have w: "zrep (h, root) (Node c wr wa wl) (LeftF k p t # fs)" using z by (simp add: zrep_up s)
  have wl: "zrep (h, root) wl (RightF c wr wa # LeftF k p t # fs)"
    and wr: "zrep (h, root) wr (LeftF c wa wl # LeftF k p t # fs)" using w by (simp_all add: zrep_up)
  obtain h1 where 1: "upd h wa rb_set_red = Some h1"
      "after (h, root) (h1, root) (Node Red wr wa wl) (LeftF k p t # fs)"
    by (rule paint_red [OF w])
  have 2: "after s (h1, root) (Node k (Node Red wr wa wl) p t) fs" using 1(2) by (simp add: after_up s)
  show ?thesis
    using that [OF _ 2] zrep_reads [OF after_zrep [OF 2]] zrep_reads [OF w] 1(1) assms(2,3)
      zrep_black_or_null [OF wl] zrep_black_or_null [OF wr]
    by (simp add: erase_right_tail_def s)
qed

lemma right_finish:
  assumes z: "zrep s (Node k (Node c (Node c' b x a) wa wl) p t) fs"
  obtains s' where "erase_right_finish p wa s = Some (snd s', p, True, s')"
    "after s s' (Node k (Node Black b x a) wa (Node Black wl p t)) fs"
proof -
  obtain h root where s: "s = (h, root)" by (cases s)
  have w: "zrep (h, root) (Node c (Node c' b x a) wa wl) (LeftF k p t # fs)" using z by (simp add: zrep_up s)
  obtain h1 where 1: "upd h wa (rb_set_color (if k = Red then 0 else 1)) = Some h1"
      "after (h, root) (h1, root) (Node k (Node c' b x a) wa wl) (LeftF k p t # fs)"
    by (rule paint_like [OF w])
  have "zrep (h1, root) (Node k (Node k (Node c' b x a) wa wl) p t) fs"
    using after_zrep [OF 1(2)] by (simp add: zrep_up)
  then obtain h2 where 2: "upd h1 p rb_set_black = Some h2"
      "after (h1, root) (h2, root) (Node Black (Node k (Node c' b x a) wa wl) p t) fs"
    by (rule paint_black)
  have w2: "zrep (h2, root) (Node k (Node c' b x a) wa wl) (LeftF Black p t # fs)"
    and "zrep (h2, root) (Node c' b x a) (LeftF k wa wl # LeftF Black p t # fs)"
    using after_zrep [OF 2(2)] by (simp_all add: zrep_up)
  from this(2) obtain h3 where 3: "upd h2 x rb_set_black = Some h3"
      "after (h2, root) (h3, root) (Node Black b x a) (LeftF k wa wl # LeftF Black p t # fs)"
    by (rule paint_black)
  have "zrep (h3, root) (Node Black (Node k (Node Black b x a) wa wl) p t) fs"
    using after_zrep [OF 3(2)] by (simp add: zrep_up)
  then obtain s4 where 4: "rb_rotate_right p (h3, root) = Some s4"
      "after (h3, root) s4 (Node k (Node Black b x a) wa (Node Black wl p t)) fs"
    by (rule rotate_right_after)
  have 5: "after s s4 (Node k (Node Black b x a) wa (Node Black wl p t)) fs"
    by (rule after_trans [OF after_trans [OF after_trans [OF 1(2) 2(2)] 3(2)] 4(2), folded s])
      (simp_all add: footprint_def)
  show ?thesis
    using that [OF _ 5] zrep_reads [OF z] zrep_reads [OF w2] 1(1) 2(1) 3(1) 4(1)
    by (simp add: erase_right_finish_def s)
qed

lemma right_tail_far:
  assumes z: "zrep s (Node k (Node c wr wa wl) p t) fs" and "color_of wr = Red"
  obtains s' where "erase_right_tail p wa s = Some (snd s', p, True, s')"
    "after s s' (Node k (paint Black wr) wa (Node Black wl p t)) fs"
proof -
  have w: "zrep s (Node c wr wa wl) (LeftF k p t # fs)" using z by (simp add: zrep_up)
  have wl: "zrep s wl (RightF c wr wa # LeftF k p t # fs)"
    and wr: "zrep s wr (LeftF c wa wl # LeftF k p t # fs)" using w by (simp_all add: zrep_up)
  obtain c' a x b where x: "wr = Node c' b x a" using assms(2) by (cases wr) auto
  obtain s' where 1: "erase_right_finish p wa s = Some (snd s', p, True, s')"
      "after s s' (Node k (Node Black b x a) wa (Node Black wl p t)) fs"
    by (rule right_finish [OF z [unfolded x]])
  show ?thesis
    using that [of s'] 1 zrep_reads [OF w] assms(2) zrep_black_or_null [OF wl] zrep_black_or_null [OF wr] x
    by (simp add: erase_right_tail_def)
qed

lemma right_tail_near:
  assumes z: "zrep s (Node k (Node c wr wa (Node c' b x a)) p t) fs" and "c' = Red" "color_of wr = Black"
  obtains s' where "erase_right_tail p wa s = Some (snd s', p, True, s')"
    "after s s' (Node k (Node Black wr wa b) x (Node Black a p t)) fs"
proof -
  obtain h root where s: "s = (h, root)" by (cases s)
  have w: "zrep (h, root) (Node c wr wa (Node c' b x a)) (LeftF k p t # fs)"
    using z by (simp add: zrep_up s)
  have wl: "zrep (h, root) (Node c' b x a) (RightF c wr wa # LeftF k p t # fs)"
    and wr: "zrep (h, root) wr (LeftF c wa (Node c' b x a) # LeftF k p t # fs)"
    using w by (simp_all add: zrep_up)
  obtain h1 where 1: "upd h x rb_set_black = Some h1"
      "after (h, root) (h1, root) (Node Black b x a) (RightF c wr wa # LeftF k p t # fs)"
    by (rule paint_black [OF wl])
  have "zrep (h1, root) (Node c wr wa (Node Black b x a)) (LeftF k p t # fs)"
    using after_zrep [OF 1(2)] by (simp add: zrep_up)
  then obtain h2 where 2: "upd h1 wa rb_set_red = Some h2"
      "after (h1, root) (h2, root) (Node Red wr wa (Node Black b x a)) (LeftF k p t # fs)"
    by (rule paint_red)
  obtain s3 where 3: "rb_rotate_left wa (h2, root) = Some s3"
      "after (h2, root) s3 (Node Black (Node Red wr wa b) x a) (LeftF k p t # fs)"
    by (rule rotate_left_after [OF after_zrep [OF 2(2)]])
  have z3: "zrep s3 (Node k (Node Black (Node Red wr wa b) x a) p t) fs"
    using after_zrep [OF 3(2)] by (simp add: zrep_up)
  obtain s4 where 4: "erase_right_finish p x s3 = Some (snd s4, p, True, s4)"
      "after s3 s4 (Node k (Node Black wr wa b) x (Node Black a p t)) fs"
    by (rule right_finish [OF z3])
  have 5: "after s s4 (Node k (Node Black wr wa b) x (Node Black a p t)) fs"
    by (rule after_trans [OF after_trans [OF after_trans [OF 1(2) 2(2)] 3(2)] 4(2), folded s])
      (simp_all add: footprint_def)
  show ?thesis
    using that [OF _ 5] zrep_reads [OF w] zrep_reads [OF wl] zrep_black_or_null [OF wr]
      zrep_reads [OF z3] assms(2,3) 1(1) 2(1) 3(1) 4(1)
    by (simp add: erase_right_tail_def s)
qed

lemma right_tail_ok:
  assumes z: "zrep s (Node k w p t) fs" and w: "w \<noteq> Leaf"
  obtains s' where "erase_right_tail p (root_of w) s =
      Some (if snd (del_right k t p w) then (p, parent_of fs, False, s') else (snd s', p, True, s'))"
    "after s s' (fst (del_right k t p w)) fs"
proof -
  obtain c wl wa wr where n: "w = Node c wr wa wl" using w by (cases w) auto
  consider (both) "color_of wl = Black" "color_of wr = Black" | (far) "color_of wr = Red"
    | (near) "color_of wl = Red" "color_of wr = Black"
    by (metis color.exhaust)
  then show ?thesis
  proof cases
    case both
    obtain s' where "erase_right_tail p wa s = Some (p, parent_of fs, False, s')"
        "after s s' (Node k (Node Red wr wa wl) p t) fs"
      by (rule right_tail_both [OF z [unfolded n] both])
    then show ?thesis using that [of s'] both n by simp
  next
    case far
    obtain s' where "erase_right_tail p wa s = Some (snd s', p, True, s')"
        "after s s' (Node k (paint Black wr) wa (Node Black wl p t)) fs"
      by (rule right_tail_far [OF z [unfolded n] far])
    then show ?thesis using that [of s'] far n by simp
  next
    case near
    obtain a x b where x: "wl = Node Red b x a" using near by (cases wl) auto
    obtain s' where "erase_right_tail p wa s = Some (snd s', p, True, s')"
        "after s s' (Node k (Node Black wr wa b) x (Node Black a p t)) fs"
      by (rule right_tail_near [OF z [unfolded n x] refl near(2)])
    then show ?thesis using that [of s'] near n x by simp
  qed
qed

lemma erase_right_straight:
  assumes z: "zrep s (Node k w p t) fs" and w: "w \<noteq> Leaf" "color_of w = Black"
  obtains s' where "erase_color_right n p s =
      Some (if snd (del_right k t p w) then (p, parent_of fs, False, s') else (snd s', p, True, s'))"
    "after s s' (fst (del_right k t p w)) fs"
proof -
  obtain wl wa wr where n: "w = Node Black wr wa wl" using w by (cases w) auto
  have z': "zrep s (Node Black wr wa wl) (LeftF k p t # fs)" using z n by (simp add: zrep_up)
  have "erase_color_right n p s = erase_right_tail p (root_of w) s"
    using zrep_reads [OF z] zrep_reads [OF z'] n by (simp add: erase_color_right_tail)
  with right_tail_ok [OF z w(1)] that show ?thesis by metis
qed

lemma erase_right_red_sibling:
  assumes z: "zrep s (Node k (Node Red wr wa wl) p t) fs" and w: "wl \<noteq> Leaf"
  obtains s' where "erase_color_right n p s =
      Some (if snd (del_right Red t p wl) then (p, wa, False, s') else (snd s', p, True, s'))"
    "after s s' (fst (del_right Red t p wl)) (RightF Black wr wa # fs)"
proof -
  obtain h root where s: "s = (h, root)" by (cases s)
  have z1: "zrep (h, root) (Node Red wr wa wl) (LeftF k p t # fs)" using z by (simp add: zrep_up s)
  obtain h1 where 1: "upd h wa rb_set_black = Some h1"
      "after (h, root) (h1, root) (Node Black wr wa wl) (LeftF k p t # fs)"
    by (rule paint_black [OF z1])
  have "zrep (h1, root) (Node k (Node Black wr wa wl) p t) fs"
    using after_zrep [OF 1(2)] by (simp add: zrep_up)
  then obtain h2 where 2: "upd h1 p rb_set_red = Some h2"
      "after (h1, root) (h2, root) (Node Red (Node Black wr wa wl) p t) fs"
    by (rule paint_red)
  obtain s3 where 3: "rb_rotate_right p (h2, root) = Some s3"
      "after (h2, root) s3 (Node Black wr wa (Node Red wl p t)) fs"
    by (rule rotate_right_after [OF after_zrep [OF 2(2)]])
  have z3: "zrep s3 (Node Red wl p t) (RightF Black wr wa # fs)"
    using after_zrep [OF 3(2)] by (simp add: zrep_up)
  obtain s4 where 4: "erase_right_tail p (root_of wl) s3 =
      Some (if snd (del_right Red t p wl) then (p, parent_of (RightF Black wr wa # fs), False, s4)
        else (snd s4, p, True, s4))"
    "after s3 s4 (fst (del_right Red t p wl)) (RightF Black wr wa # fs)"
    by (rule right_tail_ok [OF z3 w])
  have 5: "after s s4 (fst (del_right Red t p wl)) (RightF Black wr wa # fs)"
    by (rule after_trans [OF after_trans [OF after_trans [OF 1(2) 2(2)] 3(2)] 4(2), folded s])
      (simp_all add: footprint_def inorder_del_right)
  show ?thesis
    using that [OF _ 5] zrep_reads [OF z] zrep_reads [OF z1] zrep_reads [OF z3] 1(1) 2(1) 3(1) 4(1)
    by (simp add: erase_color_right_tail s)
qed
subsection \<open>The whole loop\<close>

fun del_fix :: "rbt \<Rightarrow> frame list \<Rightarrow> rbt" where
  "del_fix t [] = paint Black t"
| "del_fix t (LeftF k p w # fs) =
     (if color_of t = Red then plug (paint Black t) (LeftF k p w # fs)
      else if color_of w = Red then
        (case w of Node _ wl wa wr \<Rightarrow> (case del_left Red t p wl of
             (u, True) \<Rightarrow> plug (paint Black u) (LeftF Black wa wr # fs)
           | (u, False) \<Rightarrow> paint Black (plug u (LeftF Black wa wr # fs))))
      else (case del_left k t p w of (u, True) \<Rightarrow> del_fix u fs | (u, False) \<Rightarrow> paint Black (plug u fs)))"
| "del_fix t (RightF k w p # fs) =
     (if color_of t = Red then plug (paint Black t) (RightF k w p # fs)
      else if color_of w = Red then
        (case w of Node _ wl wa wr \<Rightarrow> (case del_right Red t p wr of
             (u, True) \<Rightarrow> plug (paint Black u) (RightF Black wl wa # fs)
           | (u, False) \<Rightarrow> paint Black (plug u (RightF Black wl wa # fs))))
      else (case del_right k t p w of (u, True) \<Rightarrow> del_fix u fs | (u, False) \<Rightarrow> paint Black (plug u fs)))"

lemma inorder_del_fix: "inorder (del_fix t fs) = inorder (plug t fs)"
proof (induction t fs rule: del_fix.induct)
  case (2 t k p w fs)
  then show ?case
    by (auto simp: inorder_plug inorder_del_left split: rbt.split prod.split bool.split
        dest!: arg_cong [where f = fst] arg_cong [where f = inorder])
next
  case (3 t k w p fs)
  then show ?case
    by (auto simp: inorder_plug inorder_del_right split: rbt.split prod.split bool.split
        dest!: arg_cong [where f = fst] arg_cong [where f = inorder])
qed simp

definition erase_finish :: "addr \<Rightarrow> 'a rb_state \<Rightarrow> 'a rb_state option" where
  "erase_finish node s = do {
     h \<leftarrow> (if node \<noteq> NULL then upd (fst s) node rb_set_black else Some (fst s));
     Some (h, snd s)
   }"

lemma rb_erase_color_finish:
  "rb_erase_color node parent s = do { (node, s) \<leftarrow> erase_color_loop node parent s; erase_finish node s }"
  by (cases "erase_color_loop node parent s") (auto simp: rb_erase_color_def erase_finish_def)

lemma finish_ok:
  assumes "zrep s t fs"
  obtains s' where "erase_finish (root_of t) s = Some s'" "after s s' (plug (paint Black t) fs) []"
proof (cases t)
  case Leaf
  then show ?thesis using that [of s] after_refl [OF assms] after_whole [of s s t fs]
    by (simp add: erase_finish_def)
next
  case (Node c l a r)
  obtain h root where s: "s = (h, root)" by (cases s)
  obtain h' where "upd h a rb_set_black = Some h'" "after (h, root) (h', root) (Node Black l a r) fs"
    by (rule paint_black [OF assms [unfolded Node s]])
  then show ?thesis
    using that [of "(h', root)"] zrep_reads(9) [OF assms [unfolded Node]] Node s
      after_whole [of s "(h', root)" "Node Black l a r" fs]
    by (auto simp: erase_finish_def)
qed

lemma ctx_root: "ctx_at h root p fs \<Longrightarrow> fs \<noteq> [] \<Longrightarrow> root \<in> set (before fs @ behind fs) \<and> root \<noteq> NULL"
proof (induction fs arbitrary: p rule: before.induct)
  case (2 c a r fs)
  then show ?case by (cases fs) auto
next
  case (3 c l a fs)
  then show ?case by (cases fs) auto
qed simp

lemma not_root: "zrep s t (f # fs) \<Longrightarrow> root_of t \<noteq> snd s"
  using ctx_root [of "fst s" "snd s" "root_of t" "f # fs"] root_of_in [of t]
  by (cases "t = Leaf") (auto simp: zrep_def)

lemma root_is_root: "rep s t \<Longrightarrow> snd s = root_of t"
  by (simp add: zrep_def)

lemma erase_color_stops:
  assumes z: "zrep s t fs" and "color_of t = Red \<or> fs = []"
  shows "erase_color_loop (root_of t) (parent_of fs) s = Some (root_of t, s)"
  using zrep_black_or_null [OF z] assms root_is_root [of s t]
  by (subst erase_color_loop.simps) auto

lemma erase_color_done:
  assumes z: "zrep s t fs" and "color_of t = Red \<or> fs = []"
  shows "\<exists>s'. rb_erase_color (root_of t) (parent_of fs) s = Some s' \<and> after s s' (plug (paint Black t) fs) []"
proof -
  obtain s' where "erase_finish (root_of t) s = Some s'" "after s s' (plug (paint Black t) fs) []"
    by (rule finish_ok [OF z])
  then show ?thesis using erase_color_stops [OF assms] by (simp add: rb_erase_color_finish)
qed

lemma finish_at_root:
  assumes a: "after s s' t fs"
  shows "\<exists>s''. erase_finish (snd s') s' = Some s'' \<and> after s s'' (paint Black (plug t fs)) []"
proof -
  have z: "rep s' (plug t fs)" using a after_whole [of s s' t fs] after_zrep by blast
  obtain s'' where "erase_finish (root_of (plug t fs)) s' = Some s''"
      "after s' s'' (paint Black (plug t fs)) []"
    using finish_ok [OF z] by auto
  moreover have "after s s'' (paint Black (plug t fs)) []"
    by (rule after_then [OF a calculation(2)]) simp
  ultimately show ?thesis using root_is_root [OF z] by simp
qed

text \<open>What the loop does with the outcome of one half of its body.\<close>

lemma erase_color_continue:
  assumes a: "after s s' u gs"
    and step: "erase_color_loop (root_of t) (parent_of fs) s =
      (if b then erase_color_loop p (parent_of gs) s' else Some (snd s', s'))"
    and go: "b \<Longrightarrow> \<exists>s''. rb_erase_color p (parent_of gs) s' = Some s'' \<and> after s' s'' t' []"
    and t': "b \<Longrightarrow> inorder t' = inorder (plug u gs)" "\<not> b \<Longrightarrow> t' = paint Black (plug u gs)"
  shows "\<exists>s''. rb_erase_color (root_of t) (parent_of fs) s = Some s'' \<and> after s s'' t' []"
proof (cases b)
  case True
  then obtain s'' where "rb_erase_color p (parent_of gs) s' = Some s''" "after s' s'' t' []"
    using go by blast
  then show ?thesis using after_then [OF a] t' step True
    by (auto simp: rb_erase_color_finish)
next
  case False
  then show ?thesis using finish_at_root [OF a] t' step
    by (simp add: rb_erase_color_finish)
qed

lemma erase_color_step:
  assumes z: "zrep s t (f # fs)" and b: "color_of t = Black"
  shows "erase_color_loop (root_of t) p s = do {
     pl \<leftarrow> rd (fst s) p rb_left;
     (node, parent, brk, s) \<leftarrow> (if pl = root_of t then erase_color_left (root_of t) p s
                               else erase_color_right (root_of t) p s);
     if brk then Some (node, s) else erase_color_loop node parent s
   }"
  using zrep_black_or_null [OF z] not_root [OF z] b by (subst erase_color_loop.simps) simp

lemma sibling_differs:
  assumes z: "zrep s t (RightF k w p # fs)" and w: "w \<noteq> Leaf"
  shows "root_of w \<noteq> root_of t"
proof -
  have "zrep s w (LeftF k p t # fs)" using z by (simp add: zrep_up)
  then show ?thesis using w by (rule sibling_roots(1))
qed

lemma del_left_root: "snd (del_left k t p w) \<Longrightarrow> root_of (fst (del_left k t p w)) = p"
  by (cases w) (auto split: rbt.splits if_splits)

lemma del_right_root: "snd (del_right k t p w) \<Longrightarrow> root_of (fst (del_right k t p w)) = p"
  by (cases w) (auto split: rbt.splits if_splits)
lemma del_left_inv:
  assumes "balanced t" "no_red_red t" "color_of t = Black"
    and "balanced w" "no_red_red w" "bheight w = Suc (bheight t)" "color_of w = Black"
    and u: "del_left k t p w = (u, b)"
  shows "balanced u" "color_of u = k" "no_red_red (paint Black u)" "\<not> b \<Longrightarrow> no_red_red u"
    "bheight u = (if b then bheight t else Suc (bheight t)) + (if k = Black then 1 else 0)"
  using assms by (cases w; auto split: if_splits rbt.splits)+

lemma del_right_inv:
  assumes "balanced t" "no_red_red t" "color_of t = Black"
    and "balanced w" "no_red_red w" "bheight w = Suc (bheight t)" "color_of w = Black"
    and u: "del_right k t p w = (u, b)"
  shows "balanced u" "color_of u = k" "no_red_red (paint Black u)" "\<not> b \<Longrightarrow> no_red_red u"
    "bheight u = (if b then bheight t else Suc (bheight t)) + (if k = Black then 1 else 0)"
  using assms by (cases w; auto split: if_splits rbt.splits)+

lemma erase_color_ok:
  "zrep s t fs \<Longrightarrow> balanced t \<Longrightarrow> no_red_red (paint Black t) \<Longrightarrow> ctx_inv (Suc (bheight t)) fs \<Longrightarrow>
   \<exists>s'. rb_erase_color (root_of t) (parent_of fs) s = Some s' \<and> after s s' (del_fix t fs) []"
proof (induction t fs arbitrary: s rule: del_fix.induct)
  case (1 t)
  then show ?case using erase_color_done [OF "1.prems"(1)] by simp
next
  case (2 t k p w fs)
  have z: "zrep s (Node k t p w) fs" using "2.prems"(1) by (simp add: zrep_up)
  have w: "balanced w" "no_red_red w" "bheight w = Suc (bheight t)" "w \<noteq> Leaf"
    using "2.prems" by auto
  show ?case
  proof (cases "color_of t")
    case Red
    then show ?thesis using erase_color_done [OF "2.prems"(1)] by simp
  next
    case Black
    have t: "no_red_red t" using "2.prems"(3) Black by (cases t) auto
    have side: "erase_color_loop (root_of t) p s = do {
        (node, parent, brk, s) \<leftarrow> erase_color_left (root_of t) p s;
        if brk then Some (node, s) else erase_color_loop node parent s }"
      using erase_color_step [OF "2.prems"(1) Black] zrep_reads [OF z]
      by simp
    show ?thesis
    proof (cases "color_of w")
      case Red
      then obtain wl wa wr where n: "w = Node Red wl wa wr" using w by (cases w) auto
      then have "wl \<noteq> Leaf" using w by auto
      then obtain s' where 1: "erase_color_left (root_of t) p s =
            Some (if snd (del_left Red t p wl) then (p, wa, False, s') else (snd s', p, True, s'))"
          "after s s' (fst (del_left Red t p wl)) (LeftF Black wa wr # fs)"
        using erase_left_red_sibling [OF z [unfolded n]] by metis
      have u: "snd (del_left Red t p wl) \<Longrightarrow> color_of (fst (del_left Red t p wl)) = Red"
          "snd (del_left Red t p wl) \<Longrightarrow> root_of (fst (del_left Red t p wl)) = p"
        by (cases wl; auto split: if_splits rbt.splits)+
      show ?thesis
        unfolding parent_of.simps
        by (rule erase_color_continue [where b = "snd (del_left Red t p wl)" and
              fs = "LeftF k p w # fs", unfolded parent_of.simps, OF 1(2)])
          (use side 1 u erase_color_done [OF after_zrep [OF 1(2)]] Black n in
            \<open>auto simp: split_beta inorder_plug split: bool.split\<close>)
    next
      case wb: Black
      obtain s' where 1: "erase_color_left (root_of t) p s =
            Some (if snd (del_left k t p w) then (p, parent_of fs, False, s') else (snd s', p, True, s'))"
          "after s s' (fst (del_left k t p w)) fs"
        by (rule erase_left_straight [OF z w(4) wb])
      obtain u b where u: "del_left k t p w = (u, b)" by (cases "del_left k t p w")
      note i = del_left_inv [OF "2.prems"(2) t Black w(1-3) wb u]
      have c: "ctx_inv (if b then Suc (bheight u) else bheight u) fs"
        using "2.prems"(4) i(5) by (simp split: if_splits)
      have "zrep s' u fs" using after_zrep [OF 1(2)] u by simp
      then have go: "b \<Longrightarrow> \<exists>s''. rb_erase_color (root_of u) (parent_of fs) s' = Some s'' \<and>
          after s' s'' (del_fix u fs) []"
        using "2.IH" [OF _ _ u [symmetric]] i c Black wb by auto
      have r: "b \<Longrightarrow> root_of u = p" using del_left_root [of k t p w] u by simp
      show ?thesis
        unfolding parent_of.simps
        by (rule erase_color_continue [where b = b and u = u and p = p and gs = fs and s' = s' and
              fs = "LeftF k p w # fs", unfolded parent_of.simps])
          (use side 1 u r go Black wb in
            \<open>auto simp: inorder_del_fix split: bool.split\<close>)
    qed
  qed
next
  case (3 t k w p fs)
  have z: "zrep s (Node k w p t) fs" using "3.prems"(1) by (simp add: zrep_up)
  have w: "balanced w" "no_red_red w" "bheight w = Suc (bheight t)" "w \<noteq> Leaf"
    using "3.prems" by auto
  show ?case
  proof (cases "color_of t")
    case Red
    then show ?thesis using erase_color_done [OF "3.prems"(1)] by simp
  next
    case Black
    have t: "no_red_red t" using "3.prems"(3) Black by (cases t) auto
    have side: "erase_color_loop (root_of t) p s = do {
        (node, parent, brk, s) \<leftarrow> erase_color_right (root_of t) p s;
        if brk then Some (node, s) else erase_color_loop node parent s }"
      using erase_color_step [OF "3.prems"(1) Black] zrep_reads [OF z] sibling_differs [OF "3.prems"(1) w(4)]
      by simp
    show ?thesis
    proof (cases "color_of w")
      case Red
      then obtain wl wa wr where n: "w = Node Red wr wa wl" using w by (cases w) auto
      then have "wl \<noteq> Leaf" using w by auto
      then obtain s' where 1: "erase_color_right (root_of t) p s =
            Some (if snd (del_right Red t p wl) then (p, wa, False, s') else (snd s', p, True, s'))"
          "after s s' (fst (del_right Red t p wl)) (RightF Black wr wa # fs)"
        using erase_right_red_sibling [OF z [unfolded n]] by metis
      have u: "snd (del_right Red t p wl) \<Longrightarrow> color_of (fst (del_right Red t p wl)) = Red"
          "snd (del_right Red t p wl) \<Longrightarrow> root_of (fst (del_right Red t p wl)) = p"
        by (cases wl; auto split: if_splits rbt.splits)+
      show ?thesis
        unfolding parent_of.simps
        by (rule erase_color_continue [where b = "snd (del_right Red t p wl)" and
              fs = "RightF k w p # fs", unfolded parent_of.simps, OF 1(2)])
          (use side 1 u erase_color_done [OF after_zrep [OF 1(2)]] Black n in
            \<open>auto simp: split_beta inorder_plug split: bool.split\<close>)
    next
      case wb: Black
      obtain s' where 1: "erase_color_right (root_of t) p s =
            Some (if snd (del_right k t p w) then (p, parent_of fs, False, s') else (snd s', p, True, s'))"
          "after s s' (fst (del_right k t p w)) fs"
        by (rule erase_right_straight [OF z w(4) wb])
      obtain u b where u: "del_right k t p w = (u, b)" by (cases "del_right k t p w")
      note i = del_right_inv [OF "3.prems"(2) t Black w(1-3) wb u]
      have c: "ctx_inv (if b then Suc (bheight u) else bheight u) fs"
        using "3.prems"(4) i(5) by (simp split: if_splits)
      have "zrep s' u fs" using after_zrep [OF 1(2)] u by simp
      then have go: "b \<Longrightarrow> \<exists>s''. rb_erase_color (root_of u) (parent_of fs) s' = Some s'' \<and>
          after s' s'' (del_fix u fs) []"
        using "3.IH" [OF _ _ u [symmetric]] i c Black wb by auto
      have r: "b \<Longrightarrow> root_of u = p" using del_right_root [of k t p w] u by simp
      show ?thesis
        unfolding parent_of.simps
        by (rule erase_color_continue [where b = b and u = u and p = p and gs = fs and s' = s' and
              fs = "RightF k w p # fs", unfolded parent_of.simps])
          (use side 1 u r go Black wb in
            \<open>auto simp: inorder_del_fix split: bool.split\<close>)
    qed
  qed
qed

lemma root_black: "ctx_inv n fs \<Longrightarrow> fs \<noteq> [] \<or> color_of t = Black \<Longrightarrow> paint Black (plug t fs) = plug t fs"
proof (induction fs arbitrary: n t)
  case Nil
  then show ?case by (cases t) auto
next
  case (Cons f fs)
  then show ?case by (cases f; cases fs; cases "frame_color f") auto
qed

lemma red_black_plugged:
  "balanced t \<Longrightarrow> no_red_red t \<Longrightarrow> ctx_inv (bheight t) fs \<Longrightarrow> color_of t = Black \<Longrightarrow> red_black (plug t fs)"
  using red_black_plug [of t fs] root_black by metis

lemma del_fix_inv:
  "balanced t \<Longrightarrow> no_red_red (paint Black t) \<Longrightarrow> ctx_inv (Suc (bheight t)) fs \<Longrightarrow> red_black (del_fix t fs)"
proof (induction t fs rule: del_fix.induct)
  case (1 t)
  then show ?case by (cases t) (auto simp: red_black_def)
next
  case (2 t k p w fs)
  show ?case
  proof (cases "color_of t")
    case Red
    have "red_black (plug (paint Black t) (LeftF k p w # fs))"
      using 2 Red by (intro red_black_plugged) auto
    then show ?thesis using Red by simp
  next
    case Black
    have t: "no_red_red t" using "2.prems"(2) Black by (cases t) auto
    have w: "balanced w" "no_red_red w" "bheight w = Suc (bheight t)" using 2 by auto
    show ?thesis
    proof (cases "color_of w")
      case Red
      then obtain wl wa wr where n: "w = Node Red wl wa wr" using w by (cases w) auto
      obtain u b where u: "del_left Red t p wl = (u, b)" by (cases "del_left Red t p wl")
      note i = del_left_inv [OF "2.prems"(1) t Black _ _ _ _ u]
      have r: "color_of wr = Black" "color_of wl = Black" "bheight wr = bheight wl" using w n by auto
      have "b \<Longrightarrow> red_black (plug (paint Black u) (LeftF Black wa wr # fs))"
        using i 2 n w by (intro red_black_plugged) auto
      moreover have "\<not> b \<Longrightarrow> red_black (paint Black (plug u (LeftF Black wa wr # fs)))"
        using i 2 n w by (intro red_black_plug) auto
      ultimately show ?thesis using Black n u by (cases b) auto
    next
      case wb: Black
      obtain u b where u: "del_left k t p w = (u, b)" by (cases "del_left k t p w")
      note i = del_left_inv [OF "2.prems"(1) t Black w wb u]
      have c: "ctx_inv (if b then Suc (bheight u) else bheight u) fs"
        using "2.prems"(3) i(5) by (simp split: if_splits)
      have "\<not> b \<Longrightarrow> red_black (paint Black (plug u fs))"
        using i c 2 by (intro red_black_plug) auto
      then show ?thesis using "2.IH" [OF _ _ u [symmetric]] i c Black wb u by (cases b) auto
    qed
  qed
next
  case (3 t k w p fs)
  show ?case
  proof (cases "color_of t")
    case Red
    have "red_black (plug (paint Black t) (RightF k w p # fs))"
      using 3 Red by (intro red_black_plugged) auto
    then show ?thesis using Red by simp
  next
    case Black
    have t: "no_red_red t" using "3.prems"(2) Black by (cases t) auto
    have w: "balanced w" "no_red_red w" "bheight w = Suc (bheight t)" using 3 by auto
    show ?thesis
    proof (cases "color_of w")
      case Red
      then obtain wl wa wr where n: "w = Node Red wr wa wl" using w by (cases w) auto
      obtain u b where u: "del_right Red t p wl = (u, b)" by (cases "del_right Red t p wl")
      note i = del_right_inv [OF "3.prems"(1) t Black _ _ _ _ u]
      have r: "color_of wr = Black" "color_of wl = Black" "bheight wr = bheight wl" using w n by auto
      have "b \<Longrightarrow> red_black (plug (paint Black u) (RightF Black wr wa # fs))"
        using i 3 n w by (intro red_black_plugged) auto
      moreover have "\<not> b \<Longrightarrow> red_black (paint Black (plug u (RightF Black wr wa # fs)))"
        using i 3 n w by (intro red_black_plug) auto
      ultimately show ?thesis using Black n u by (cases b) auto
    next
      case wb: Black
      obtain u b where u: "del_right k t p w = (u, b)" by (cases "del_right k t p w")
      note i = del_right_inv [OF "3.prems"(1) t Black w wb u]
      have c: "ctx_inv (if b then Suc (bheight u) else bheight u) fs"
        using "3.prems"(3) i(5) by (simp split: if_splits)
      have "\<not> b \<Longrightarrow> red_black (paint Black (plug u fs))"
        using i c 3 by (intro red_black_plug) auto
      then show ?thesis using "3.IH" [OF _ _ u [symmetric]] i c Black wb u by (cases b) auto
    qed
  qed
qed

subsection \<open>Unlinking a node with at most one child\<close>

lemma only_links_both:
  "only_links h h' A \<Longrightarrow> only_links h' h'' B \<Longrightarrow> A \<subseteq> C \<Longrightarrow> B \<subseteq> C \<Longrightarrow> only_links h h'' C"
  by (meson only_links_mono only_links_trans)

lemma erase_one_child_ok:
  assumes z: "zrep s (Node c l a r) fs" and t: "(l, r) = (Leaf, t) \<or> (l, r) = (t, Leaf)"
  obtains s' where "erase_one_child a (root_of t) s =
      Some (root_of t, parent_of fs, (if c = Red then 0 else 1), s')" "after s s' t fs"
proof -
  obtain h root where s: "s = (h, root)" by (cases s)
  have d: "distinct (before fs @ inorder t @ behind fs)" "a \<notin> set (before fs @ inorder t @ behind fs)"
    and ta: "tree_at h a t" and ca: "ctx_at h root a fs" and a: "a \<noteq> NULL"
    using z t by (auto simp: zrep_def s)
  obtain h1 where 1: "adopt (root_of t) (parent_of fs) h = Some h1" "tree_at h1 (parent_of fs) t"
      "only_links h h1 (set (inorder t))"
    using adopt_ok [OF ta _ parent_of_ok [OF ca]] d by auto
  have "ctx_at h1 root a fs" using ca d by (subst ctx_at_frame [OF 1(3)]) auto
  then obtain h2 root' where 2: "relink_left (parent_of fs) a (root_of t) (h1, root) = Some (h2, root')"
      "ctx_at h2 root' (root_of t) fs" "only_links h1 h2 (set (before fs @ behind fs))"
    using relink_left_ok [of h1 root a fs "root_of t"] d a by auto
  have "tree_at h2 (parent_of fs) t" using 1(2) d by (subst tree_at_frame [OF 2(3)]) auto
  moreover have "only_links h h2 (footprint t fs)"
    by (rule only_links_both [OF 1(3) 2(3)]) (auto simp: footprint_def)
  ultimately have "after s (h2, root') t fs" using 2(2) d by (auto simp: after_def zrep_def s)
  then show ?thesis
    using that [of "(h2, root')"] zrep_reads [OF z] 1(1) 2(1) by (simp add: erase_one_child_def s)
qed

subsection \<open>Unlinking a node with two children\<close>

fun left_spine :: "frame list \<Rightarrow> bool" where
  "left_spine [] \<longleftrightarrow> True"
| "left_spine (LeftF c a r # fs) \<longleftrightarrow> left_spine fs"
| "left_spine (RightF c l a # fs) \<longleftrightarrow> False"

lemma left_spine_append [simp]: "left_spine (fs @ gs) \<longleftrightarrow> left_spine fs \<and> left_spine gs"
  by (induction fs rule: left_spine.induct) auto

lemma left_spine_before [simp]: "left_spine ls \<Longrightarrow> before ls = []"
  by (induction ls rule: left_spine.induct) auto

lemma minimum_spine:
  assumes "t \<noteq> Leaf"
  obtains c n r ls where "t = plug (Node c Leaf n r) ls" "left_spine ls"
proof -
  have "\<exists>c n r ls. t = plug (Node c Leaf n r) ls \<and> left_spine ls" using assms
  proof (induction t)
    case (Node k l a rr)
    show ?case
    proof (cases l)
      case Leaf
      then show ?thesis by (intro exI [of _ "[]"] exI) auto
    next
      case n: (Node k' l' a' r')
      then obtain c n r ls where "l = plug (Node c Leaf n r) ls" "left_spine ls" using Node by auto
      then show ?thesis by (intro exI [of _ "ls @ [LeftF k a rr]"] exI) auto
    qed
  qed simp
  then show ?thesis using that by blast
qed

lemma tree_at_inner: "tree_at h q (plug t fs) \<Longrightarrow> \<exists>q'. tree_at h q' t"
proof (induction fs arbitrary: t)
  case (Cons f fs)
  then show ?case using Cons.IH [of "up t f"] by (cases f) auto
qed auto

lemma leftmost_ok:
  "tree_at h q (plug (Node c Leaf n r) ls) \<Longrightarrow> left_spine ls \<Longrightarrow>
   leftmost h (root_of (plug (Node c Leaf n r) ls)) = Some n"
proof (induction ls arbitrary: q rule: rev_induct)
  case Nil
  then show ?case by (subst leftmost.simps) (auto elim: node_isE)
next
  case (snoc f ls)
  then obtain k b rr where f: "f = LeftF k b rr" by (cases f) auto
  let ?t = "plug (Node c Leaf n r) ls"
  have "n \<in> set (inorder ?t)" by (simp add: inorder_plug)
  then have "?t \<noteq> Leaf" by (cases ?t) auto
  then have "root_of ?t \<noteq> NULL" using snoc.prems f by (cases ?t) auto
  then show ?case using snoc.IH [of b] snoc.prems f
    by (subst leftmost.simps) (auto elim: node_isE)
qed

lemma tree_at_replace:
  "tree_at h q (plug t fs) \<Longrightarrow> root_of t' = root_of t \<Longrightarrow> (\<And>q. tree_at h q t \<Longrightarrow> tree_at h' q t') \<Longrightarrow>
   only_links h h' A \<Longrightarrow> A \<inter> set (before fs @ behind fs) = {} \<Longrightarrow> tree_at h' q (plug t' fs)"
proof (induction fs arbitrary: t t')
  case (Cons f fs)
  have "tree_at h' q (plug (up t' f) fs)"
  proof (rule Cons.IH [of "up t f"])
    show "tree_at h' q (up t' f)" if "tree_at h q (up t f)" for q
      using that Cons.prems(2-) by (cases f) (auto simp: only_linksD tree_at_frame disj_simps)
  qed (use Cons.prems in \<open>cases f; auto simp: disj_simps\<close>)+
  then show ?case by simp
qed simp

lemma unlink_minimum:
  assumes t: "tree_at h q (plug (Node c Leaf n r) (LeftF k b rr # ls))"
    and d: "distinct (inorder (plug (Node c Leaf n r) (LeftF k b rr # ls)))"
  obtains h1 h2 where "adopt (root_of r) b h = Some h1" "upd h1 b (set_left (root_of r)) = Some h2"
    "tree_at h2 q (plug r (LeftF k b rr # ls))"
    "only_links h h2 (insert b (set (inorder r)))"
proof -
  obtain q' where b: "tree_at h q' (Node k (Node c Leaf n r) b rr)" using tree_at_inner t by fastforce
  then obtain nb where nb: "h b = Some nb" "b \<noteq> NULL" "ptr_ok b" by (auto elim: node_isE)
  obtain h1 where 1: "adopt (root_of r) b h = Some h1" "tree_at h1 b r" "only_links h h1 (set (inorder r))"
    using adopt_ok [of h n r b] b nb d by (auto simp: inorder_plug)
  have hb: "h1 b = Some nb" using nb d by (simp add: only_linksD [OF 1(3)] inorder_plug)
  let ?h2 = "h1(b \<mapsto> set_left (root_of r) nb)"
  have o: "only_links h ?h2 (insert b (set (inorder r)))"
    using hb by (intro only_links_upd only_links_mono [OF 1(3)]) auto
  have "tree_at ?h2 q (plug (Node k r b rr) ls)"
  proof (rule tree_at_replace [OF t [unfolded plug.simps] _ _ o])
    fix q assume "tree_at h q (up (Node c Leaf n r) (LeftF k b rr))"
    then show "tree_at ?h2 q (Node k r b rr)"
      using 1(2) nb d tree_at_frame [OF 1(3), of rr b]
      by (auto simp: node_sets inorder_plug disj_simps Int_commute)
  qed (use d in \<open>auto simp: inorder_plug disj_simps\<close>)
  then show ?thesis using that [OF 1(1), of ?h2] hb nb o by simp
qed

text \<open>
  The part of the two-children case that takes the successor out of the right subtree; it does
  nothing when the successor is the right child itself.
\<close>

definition splice_right :: "addr \<Rightarrow> addr \<Rightarrow> addr \<Rightarrow> addr \<Rightarrow> 'a rb_heap \<Rightarrow> (addr \<times> 'a rb_heap) option" where
  "splice_right old node child parent h = (if parent = old then Some (node, h) else do {
             h \<leftarrow> adopt child parent h;
             h \<leftarrow> upd h parent (set_left child);
             oright \<leftarrow> rd h old rb_right;
             h \<leftarrow> upd h node (set_right oright);
             h \<leftarrow> upd h oright (rb_set_parent node);
             Some (parent, h)
           })"

lemma erase_two_children_splice:
  "erase_two_children old s = do {
     right \<leftarrow> rd (fst s) old rb_right;
     node \<leftarrow> leftmost (fst s) right;
     op \<leftarrow> rd (fst s) old rb_parent;
     s \<leftarrow> relink_left op old node s;
     child \<leftarrow> rd (fst s) node rb_right;
     parent \<leftarrow> rd (fst s) node rb_parent;
     color \<leftarrow> rd (fst s) node rb_color;
     (parent, h) \<leftarrow> splice_right old node child parent (fst s);
     opc \<leftarrow> rd h old rb_parent_color;
     h \<leftarrow> upd h node (\<lambda>n. n\<lparr>rb_parent_color := opc\<rparr>);
     oleft \<leftarrow> rd h old rb_left;
     h \<leftarrow> upd h node (set_left oleft);
     h \<leftarrow> upd h oleft (rb_set_parent node);
     Some (child, parent, color, (h, snd s))
   }"
  unfolding erase_two_children_def splice_right_def ..

lemma tree_at_spine:
  "tree_at h q (plug (Node c Leaf n r) ls) \<Longrightarrow>
   n \<noteq> NULL \<and> ptr_ok n \<and> node_is (h n) c (if ls = [] then q else parent_of ls) NULL (root_of r) \<and>
   tree_at h n r"
proof (cases ls)
  case (Cons f ls')
  assume "tree_at h q (plug (Node c Leaf n r) ls)"
  then show ?thesis using Cons tree_at_inner [of h q "up (Node c Leaf n r) f" ls']
    by (cases f) auto
qed auto

lemma splice_right_ok:
  assumes t: "tree_at h a (plug (Node c Leaf n r) ls)" and ls: "left_spine ls"
    and d: "distinct (a # inorder (plug (Node c Leaf n r) ls))"
    and a: "rd h a rb_right = Some (root_of (plug (Node c Leaf n r) ls))"
  obtains h' m where "splice_right a n (root_of r) (if ls = [] then a else parent_of ls) h =
      Some (if ls = [] then n else parent_of ls, h')"
    "h' n = Some m" "rb_right m = root_of (plug r ls)" "tree_at h' n (plug r ls)"
    "only_links h h' (set (inorder (plug (Node c Leaf n r) ls)))"
proof (cases ls)
  case Nil
  then show ?thesis using that [of h] t by (auto simp: splice_right_def elim: node_isE)
next
  case (Cons f ls')
  then obtain k b rr where f: "ls = LeftF k b rr # ls'" using ls by (cases f) auto
  let ?A = "set (inorder (plug (Node c Leaf n r) ls))"
  obtain na where na: "h a = Some na" "a \<noteq> NULL" "rb_right na = root_of (plug (Node c Leaf n r) ls)"
    using a by (auto simp: rd_def load_def split: if_splits)
  obtain h1 h2 where 1: "adopt (root_of r) b h = Some h1" "upd h1 b (set_left (root_of r)) = Some h2"
      "tree_at h2 a (plug r ls)" "only_links h h2 (insert b (set (inorder r)))"
    using unlink_minimum [OF t [unfolded f]] d f by auto
  have n: "n \<noteq> NULL" "ptr_ok n" "n \<noteq> a" using tree_at_spine [OF t] d by (auto simp: inorder_plug)
  obtain m where m: "h n = Some m" using tree_at_spine [OF t] by (auto elim: node_isE)
  have "n \<noteq> b" "n \<notin> set (inorder r)" "a \<noteq> b" "a \<notin> set (inorder r)"
    using d f by (auto simp: inorder_plug)
  then have e: "h2 n = Some m" "h2 a = Some na" using m na by (simp_all add: only_linksD [OF 1(4)])
  have rt: "root_of (plug (Node c Leaf n r) ls) = root_of (plug r ls)"
  proof (cases ls' rule: rev_cases)
    case (snoc gs g)
    then show ?thesis using f by (cases g) auto
  qed (simp add: f)
  let ?h3 = "h2(n \<mapsto> set_right (root_of (plug r ls)) m)"
  have nr: "n \<notin> set (inorder (plug r ls))" using d f by (auto simp: inorder_plug)
  then have t3: "tree_at ?h3 a (plug r ls)" using 1(3) by simp
  have "plug r ls \<noteq> Leaf" using root_of_in [of "plug (Node c Leaf n r) ls"]
    using f inorder_plug [of r ls] by (cases "plug r ls") auto
  then have nn: "root_of (plug r ls) \<noteq> NULL" using t3 by (cases "plug r ls") auto
  obtain h4 where 4: "adopt (root_of (plug r ls)) n ?h3 = Some h4" "tree_at h4 n (plug r ls)"
      "only_links ?h3 h4 (set (inorder (plug r ls)))"
    using adopt_ok [OF t3 _ n(2)] d by (auto simp: inorder_plug)
  have "h4 n = ?h3 n" using nr by (simp add: only_linksD [OF 4(3)])
  moreover have "only_links h h4 ?A"
  proof -
    have "only_links h h2 ?A" by (rule only_links_mono [OF 1(4)]) (auto simp: f inorder_plug)
    then have "only_links h ?h3 ?A" using e by (intro only_links_upd) (auto simp: inorder_plug)
    then show ?thesis by (rule only_links_trans)
        (rule only_links_mono [OF 4(3)], auto simp: inorder_plug)
  qed
  moreover have "splice_right a n (root_of r) (parent_of ls) h = Some (parent_of ls, h4)"
    using 1(1,2) 4(1) e n na nn rt \<open>a \<noteq> b\<close> f by (simp add: splice_right_def adopt_def)
  ultimately show ?thesis using that [of h4] 4(2) f by simp
qed

lemma erase_two_children_ok:
  assumes z: "zrep s (Node c l a (plug (Node cn Leaf n nr) ls)) fs"
    and ls: "left_spine ls" and l: "l \<noteq> Leaf"
  obtains s' where "erase_two_children a s =
      Some (root_of nr, parent_of (ls @ RightF c l n # fs), (if cn = Red then 0 else 1), s')"
    "after s s' nr (ls @ RightF c l n # fs)"
proof -
  obtain h root where s: "s = (h, root)" by (cases s)
  let ?r = "plug (Node cn Leaf n nr) ls"
  let ?F = "footprint (Node c l n (plug nr ls)) fs"
  have d: "distinct (before fs @ inorder (Node c l a ?r) @ behind fs)"
    and t: "tree_at h (parent_of fs) (Node c l a ?r)" and ca: "ctx_at h root a fs"
    using z by (auto simp: zrep_def s)
  obtain na where na: "h a = Some na" "rb_parent na = parent_of fs" "rb_left na = root_of l"
      "rb_right na = root_of ?r" "rb_is_red na = (c = Red)" and a: "a \<noteq> NULL" "ptr_ok a"
    using t by (auto elim: node_isE)
  have dF: "a \<notin> set (before fs @ behind fs)" "set (inorder ?r) \<inter> set (before fs @ behind fs) = {}"
      "set (inorder l) \<inter> set (before fs @ behind fs) = {}" "a \<notin> set (inorder ?r)" "a \<notin> set (inorder l)"
      "set (inorder l) \<inter> set (inorder ?r) = {}"
    using d by auto
  obtain h1 root1 where 1: "relink_left (parent_of fs) a n (h, root) = Some (h1, root1)"
      "ctx_at h1 root1 n fs" "only_links h h1 (set (before fs @ behind fs))"
    using relink_left_ok [of h root a fs n] ca d a by (auto simp: disj_simps)
  have t1: "tree_at h1 a ?r" "tree_at h1 a l"
    using t dF tree_at_frame [OF 1(3)] by (auto simp: Int_commute)
  have h1a: "h1 a = Some na" using na dF only_linksD [OF 1(3)] by simp
  have n: "n \<noteq> NULL" "ptr_ok n" "node_is (h1 n) cn (if ls = [] then a else parent_of ls) NULL (root_of nr)"
    using tree_at_spine [OF t1(1)] by auto
  obtain h2 m where 2: "splice_right a n (root_of nr) (if ls = [] then a else parent_of ls) h1 =
      Some (if ls = [] then n else parent_of ls, h2)"
      "h2 n = Some m" "rb_right m = root_of (plug nr ls)" "tree_at h2 n (plug nr ls)"
      "only_links h1 h2 (set (inorder ?r))"
    using splice_right_ok [OF t1(1) ls] d na h1a a by auto
  have t2: "tree_at h2 a l" using t1(2) dF by (subst tree_at_frame [OF 2(5)]) auto
  have h2a: "h2 a = Some na" using h1a dF only_linksD [OF 2(5)] by simp
  let ?m = "set_left (root_of l) (m\<lparr>rb_parent_color := rb_parent_color na\<rparr>)"
  let ?h3 = "h2(n \<mapsto> ?m)"
  have nl: "n \<notin> set (inorder l)" "n \<noteq> a" "n \<notin> set (inorder (plug nr ls))" "n \<notin> set (before fs @ behind fs)"
    using d by (auto simp: inorder_plug)
  have t3: "tree_at ?h3 a l" using t2 nl by simp
  obtain h4 where 4: "adopt (root_of l) n ?h3 = Some h4" "tree_at h4 n l"
      "only_links ?h3 h4 (set (inorder l))"
    using adopt_ok [OF t3 _ n(2)] d by auto
  have h4n: "h4 n = Some ?m" using nl only_linksD [OF 4(3)] by simp
  have t4: "tree_at h4 n (plug nr ls)"
    using 2(4) nl dF(6) by (subst tree_at_frame [OF 4(3)]) (auto simp: inorder_plug)
  have "only_links h2 ?h3 {n}" using 2(2) by (intro only_links_upd) auto
  then have o3: "only_links h2 h4 (insert n (set (inorder l)))"
    by (rule only_links_both [OF _ 4(3)]) auto
  then have o: "only_links h1 h4 (set (inorder ?r) \<union> set (inorder l))"
    by (rule only_links_both [OF 2(5)]) (auto simp: inorder_plug)
  have c4: "ctx_at h4 root1 n fs"
    using 1(2) dF by (subst ctx_at_frame [OF o]) auto
  have "zrep (h4, root1) (Node c l n (plug nr ls)) fs"
    using t4 4(2) c4 h4n n na 2(3) d by (auto simp: zrep_def node_is.simps rb_parent_def
        rb_is_red_def rb_color_def inorder_plug)
  moreover have "only_links h h4 ?F"
    by (rule only_links_both [OF 1(3) o]) (auto simp: footprint_def inorder_plug)
  ultimately have "after s (h4, root1) (Node c l n (plug nr ls)) fs" by (simp add: after_def s)
  then have 5: "after s (h4, root1) nr (ls @ RightF c l n # fs)" by (simp add: after_plug after_up)
  have "root_of l \<noteq> NULL" using l t by (cases l) auto
  moreover have "parent_of (ls @ RightF c l n # fs) = (if ls = [] then n else parent_of ls)"
    by (cases ls rule: parent_of.cases) auto
  moreover have "rd h1 n rb_color = Some (if cn = Red then 0 else 1)"
      "rd h1 n rb_parent = Some (if ls = [] then a else parent_of ls)" "rd h1 n rb_right = Some (root_of nr)"
    using n(1,3) by (auto simp: rb_color_red elim!: node_isE)
  moreover have "leftmost h (root_of ?r) = Some n" using t by (intro leftmost_ok [OF _ ls]) auto
  ultimately show ?thesis
    using that [OF _ 5] 1(1) 2(1,2) 4(1) na h2a a n(1) nl
    by (simp add: erase_two_children_splice s adopt_def)
qed

subsection \<open>Removal as a whole\<close>

lemma erase_rebalance:
  assumes a: "after s s' t fs" and t: "balanced t" "no_red_red t" "c = Red \<longrightarrow> color_of t = Black"
    and c: "ctx_inv (bheight t + (if c = Black then 1 else 0)) fs"
  shows "\<exists>s'' t''. (if c = Black then rb_erase_color (root_of t) (parent_of fs) s' else Some s') = Some s'' \<and>
    rep s'' t'' \<and> red_black t'' \<and> inorder t'' = inorder (plug t fs) \<and>
    only_links (fst s) (fst s'') (set (inorder t''))"
proof (cases c)
  case Red
  have "red_black (plug t fs)" using t c Red by (intro red_black_plugged) auto
  then show ?thesis using a after_whole [of s s' t fs] Red
    by (auto simp: after_def footprint_def)
next
  case Black
  have t': "no_red_red (paint Black t)" using t by simp
  obtain s'' where 1: "rb_erase_color (root_of t) (parent_of fs) s' = Some s''" "after s' s'' (del_fix t fs) []"
    using erase_color_ok [OF after_zrep [OF a] t(1) t'] c Black by auto
  have "after s s'' (del_fix t fs) []" by (rule after_then [OF a 1(2) inorder_del_fix])
  moreover have "red_black (del_fix t fs)" using del_fix_inv [OF t(1) t'] c Black by simp
  ultimately show ?thesis using 1(1) Black inorder_del_fix [of t fs]
    by (intro exI [of _ s''] exI [of _ "del_fix t fs"]) (auto simp: after_def footprint_def)
qed

lemma ctx_inv_rename: "ctx_inv k (ls @ RightF c l a # fs) \<longleftrightarrow> ctx_inv k (ls @ RightF c l b # fs)"
proof (induction ls arbitrary: k)
  case (Cons f ls)
  have "black_above (ls @ RightF c l a # fs) \<longleftrightarrow> black_above (ls @ RightF c l b # fs)" by (cases ls) auto
  then show ?case using Cons.IH by (cases f) auto
qed simp

lemma erase_at_ok:
  assumes z: "zrep s (Node c l a r) fs" and rb: "red_black (plug (Node c l a r) fs)"
  shows "\<exists>s' t. rb_erase a s = Some s' \<and> rep s' t \<and> red_black t \<and>
    inorder t = before fs @ inorder l @ inorder r @ behind fs \<and>
    only_links (fst s) (fst s') (set (inorder t))"
proof -
  have i: "balanced (Node c l a r)" "no_red_red (Node c l a r)" "ctx_inv (bheight (Node c l a r)) fs"
    using red_black_unplug [of "Node c l a r" fs] rb by (auto simp: red_black_def)
  note zr = zrep_reads [OF z]
  have L: "root_of l = NULL \<longleftrightarrow> l = Leaf" and R: "root_of r = NULL \<longleftrightarrow> r = Leaf"
    using z root_of_NULL [of s l "LeftF c a r # fs"] root_of_NULL [of s r "RightF c l a # fs"]
    by (simp_all add: zrep_up)
  have one: ?thesis if t: "(l, r) = (Leaf, t) \<or> (l, r) = (t, Leaf)"
    and run: "rb_erase a s = do {
      (child, parent, color, s) \<leftarrow> erase_one_child a (root_of t) s;
      if color = 1 then rb_erase_color child parent s else Some s }" for t
  proof -
    obtain s' where 1: "erase_one_child a (root_of t) s =
        Some (root_of t, parent_of fs, (if c = Red then 0 else 1), s')" "after s s' t fs"
      by (rule erase_one_child_ok [OF z t])
    have "inorder l @ inorder r = inorder t" using t by auto
    moreover have "ctx_inv (bheight t + (if c = Black then 1 else 0)) fs" using i t by auto
    ultimately show ?thesis
      using erase_rebalance [OF 1(2), of c] 1(1) run i t by (cases c) (auto simp: inorder_plug)
  qed
  consider "l = Leaf" | "l \<noteq> Leaf" "r = Leaf" | "l \<noteq> Leaf" "r \<noteq> Leaf" by blast
  then show ?thesis
  proof cases
    case 1
    then show ?thesis using zr L by (intro one [of r]) (auto simp: rb_erase_def split_beta)
  next
    case 2
    then show ?thesis using zr L R by (intro one [of l]) (auto simp: rb_erase_def split_beta)
  next
    case 3
    obtain cn n nr ls where m: "r = plug (Node cn Leaf n nr) ls" "left_spine ls"
      by (rule minimum_spine [OF 3(2)])
    let ?fs = "ls @ RightF c l n # fs"
    obtain s' where 1: "erase_two_children a s =
        Some (root_of nr, parent_of ?fs, (if cn = Red then 0 else 1), s')" "after s s' nr ?fs"
      by (rule erase_two_children_ok [OF z [unfolded m(1)] m(2) 3(1)])
    have "red_black (plug (Node cn Leaf n nr) (ls @ RightF c l a # fs))" using rb m by simp
    then have j: "balanced (Node cn Leaf n nr)" "no_red_red (Node cn Leaf n nr)"
        "ctx_inv (bheight (Node cn Leaf n nr)) ?fs"
      using red_black_unplug [of "Node cn Leaf n nr" "ls @ RightF c l a # fs"] ctx_inv_rename
      unfolding red_black_def by blast+
    then have "ctx_inv (bheight nr + (if cn = Black then 1 else 0)) ?fs" by simp
    moreover have "inorder (plug nr ?fs) = before fs @ inorder l @ inorder r @ behind fs"
      using m by (simp add: inorder_plug)
    ultimately show ?thesis
      using erase_rebalance [OF 1(2), of cn] 1(1) j 3 zr L R
      by (cases cn) (auto simp: rb_erase_def)
  qed
qed

theorem rb_erase_ok:
  assumes "rep s T" and "red_black T" and "a \<in> set (inorder T)"
  shows "\<exists>s' t. rb_erase a s = Some s' \<and> rep s' t \<and> red_black t \<and>
    inorder t = remove1 a (inorder T) \<and> only_links (fst s) (fst s') (set (inorder t))"
proof -
  obtain c l r fs where T: "T = plug (Node c l a r) fs" by (rule focus_on [OF assms(3)])
  have z: "zrep s (Node c l a r) fs" using assms(1) T rep_plug by blast
  have "a \<notin> set (before fs)" "a \<notin> set (inorder l)" using z by (auto simp: zrep_def)
  then have "remove1 a (inorder T) = before fs @ inorder l @ inorder r @ behind fs"
    by (simp add: T inorder_plug remove1_append)
  then show ?thesis using erase_at_ok [OF z] assms(2) T by simp
qed

end
