(* ===== verification/RBOrder.thy ===== *)
theory RBOrder
  imports RBErase
begin

text \<open>
  The rest of the tree's interface: first, last, next and previous follow the in-order sequence,
  replacing a node keeps its place, augmentation callbacks run along the path to the root, and a
  red-black tree is at most logarithmically high.
\<close>

subsection \<open>First and last\<close>

lemma leftmost_hd:
  "tree_at h q t \<Longrightarrow> t \<noteq> Leaf \<Longrightarrow> leftmost h (root_of t) = Some (hd (inorder t))"
proof -
  assume t: "tree_at h q t" "t \<noteq> Leaf"
  obtain c n r ls where "t = plug (Node c Leaf n r) ls" "left_spine ls"
    by (rule minimum_spine [OF t(2)])
  then show ?thesis using leftmost_ok [of h q c n r ls] t(1) by (simp add: inorder_plug)
qed

lemma rightmost_last:
  "tree_at h q t \<Longrightarrow> t \<noteq> Leaf \<Longrightarrow> rightmost h (root_of t) = Some (last (inorder t))"
proof (induction t arbitrary: q)
  case (Node c l a r)
  then show ?case
    by (cases r; subst rightmost.simps) (auto elim!: node_isE)
qed simp

definition first_or_null :: "addr list \<Rightarrow> addr" where
  "first_or_null xs = (case xs of [] \<Rightarrow> NULL | x # _ \<Rightarrow> x)"

definition last_or_null :: "addr list \<Rightarrow> addr" where
  "last_or_null xs = (if xs = [] then NULL else last xs)"

lemma first_or_null_simps [simp]:
  "first_or_null [] = NULL" "first_or_null (x # xs) = x"
  by (simp_all add: first_or_null_def)

lemma last_or_null_simps [simp]:
  "last_or_null [] = NULL" "last_or_null (xs @ [x]) = x"
  by (simp_all add: last_or_null_def)

lemma first_or_null_append: "xs \<noteq> [] \<Longrightarrow> first_or_null (xs @ ys) = hd xs"
  by (cases xs) auto

lemma last_or_null_append: "ys \<noteq> [] \<Longrightarrow> last_or_null (xs @ ys) = last ys"
  by (simp add: last_or_null_def)

lemma inorder_Nil [simp]: "inorder t = [] \<longleftrightarrow> t = Leaf"
  by (cases t) auto

lemma tree_root_NULL: "tree_at h q t \<Longrightarrow> root_of t = NULL \<longleftrightarrow> t = Leaf"
  by (cases t) auto

lemma first_ok:
  assumes z: "rep s t"
  shows "rb_first s = Some (first_or_null (inorder t))"
  using z root_of_NULL [OF z] leftmost_hd [of "fst s" NULL t] first_or_null_append [of "inorder t" "[]"]
  by (cases "t = Leaf") (auto simp: rb_first_def zrep_def)

lemma last_ok:
  assumes z: "rep s t"
  shows "rb_last s = Some (last_or_null (inorder t))"
  using z root_of_NULL [OF z] rightmost_last [of "fst s" NULL t]
  by (cases "t = Leaf") (auto simp: rb_last_def zrep_def last_or_null_def)

subsection \<open>Next and previous\<close>

lemma climb_from_right_ok:
  "zrep s t fs \<Longrightarrow> t \<noteq> Leaf \<Longrightarrow>
   climb_from_right (fst s) (root_of t) = Some (first_or_null (behind fs))"
proof (induction fs arbitrary: t)
  case Nil
  then show ?case
    by (cases t; subst climb_from_right.simps) (auto dest: zrep_reads(3))
next
  case (Cons f fs)
  have u: "zrep s (up t f) fs" using Cons.prems by (simp add: zrep_up)
  have p: "rd (fst s) (root_of t) rb_parent = Some (parent_of (f # fs))"
    using Cons.prems by (cases t) (auto dest: zrep_reads(3))
  show ?case
  proof (cases f)
    case (LeftF c a r)
    have "root_of t \<noteq> root_of r" using Cons.prems LeftF sibling_roots(1) by blast
    then show ?thesis using p LeftF zrep_reads [of s c t a r fs] u
      by (subst climb_from_right.simps) simp
  next
    case (RightF c l a)
    then show ?thesis using p zrep_reads [of s c l a t fs] u Cons.IH [OF u]
      by (subst climb_from_right.simps) simp
  qed
qed

lemma climb_from_left_ok:
  "zrep s t fs \<Longrightarrow> t \<noteq> Leaf \<Longrightarrow>
   climb_from_left (fst s) (root_of t) = Some (last_or_null (before fs))"
proof (induction fs arbitrary: t)
  case Nil
  then show ?case
    by (cases t; subst climb_from_left.simps) (auto dest: zrep_reads(3))
next
  case (Cons f fs)
  have u: "zrep s (up t f) fs" using Cons.prems by (simp add: zrep_up)
  have p: "rd (fst s) (root_of t) rb_parent = Some (parent_of (f # fs))"
    using Cons.prems by (cases t) (auto dest: zrep_reads(3))
  show ?case
  proof (cases f)
    case (RightF c l a)
    have "root_of t \<noteq> root_of l" using Cons.prems RightF sibling_roots(2) by blast
    then show ?thesis using p RightF zrep_reads [of s c l a t fs] u
      by (subst climb_from_left.simps) (simp add: last_or_null_append)
  next
    case (LeftF c a r)
    then show ?thesis using p zrep_reads [of s c t a r fs] u Cons.IH [OF u]
      by (subst climb_from_left.simps) simp
  qed
qed

lemma parent_differs: "zrep s (Node c l a r) fs \<Longrightarrow> parent_of fs \<noteq> a"
  using zrep_reads(9) [of s c l a r fs]
  by (cases fs rule: parent_of.cases) (auto simp: zrep_def)

lemma next_at_ok:
  assumes z: "zrep s (Node c l a r) fs"
  shows "rb_next (fst s) a = Some (first_or_null (inorder r @ behind fs))"
proof (cases "r = Leaf")
  case True
  then show ?thesis using zrep_reads [OF z] parent_differs [OF z] climb_from_right_ok [OF z]
    by (simp add: rb_next_def)
next
  case False
  then have "root_of r \<noteq> NULL" "leftmost (fst s) (root_of r) = Some (hd (inorder r))"
    using z leftmost_hd [of "fst s" a r] by (auto simp: zrep_def tree_root_NULL)
  then show ?thesis using False zrep_reads [OF z] parent_differs [OF z]
    by (simp add: rb_next_def first_or_null_append)
qed

lemma prev_at_ok:
  assumes z: "zrep s (Node c l a r) fs"
  shows "rb_prev (fst s) a = Some (last_or_null (before fs @ inorder l))"
proof (cases "l = Leaf")
  case True
  then show ?thesis using zrep_reads [OF z] parent_differs [OF z] climb_from_left_ok [OF z]
    by (simp add: rb_prev_def)
next
  case False
  then have "root_of l \<noteq> NULL" "rightmost (fst s) (root_of l) = Some (last (inorder l))"
    using z rightmost_last [of "fst s" a l] by (auto simp: zrep_def tree_root_NULL)
  then show ?thesis using False zrep_reads [OF z] parent_differs [OF z]
    by (simp add: rb_prev_def last_or_null_append)
qed

lemma split_at_focus:
  assumes z: "zrep s (Node c l a r) fs" and xs: "inorder (plug (Node c l a r) fs) = xs @ a # ys"
  shows "xs = before fs @ inorder l" "ys = inorder r @ behind fs"
proof -
  have "(before fs @ inorder l) @ a # (inorder r @ behind fs) = xs @ a # ys"
    using xs by (simp add: inorder_plug)
  moreover have "a \<notin> set (before fs @ inorder l)" "a \<notin> set (inorder r @ behind fs)"
    using z by (auto simp: zrep_def)
  ultimately show "xs = before fs @ inorder l" "ys = inorder r @ behind fs"
    by (metis append_Cons_eq_iff)+
qed

lemma next_prev_ok:
  assumes "rep s t" and xs: "inorder t = xs @ a # ys"
  shows "rb_next (fst s) a = Some (first_or_null ys)" "rb_prev (fst s) a = Some (last_or_null xs)"
proof -
  have "a \<in> set (inorder t)" using xs by simp
  then obtain c l r fs where t: "t = plug (Node c l a r) fs" by (rule focus_on)
  have z: "zrep s (Node c l a r) fs" using assms(1) t rep_plug by blast
  show "rb_next (fst s) a = Some (first_or_null ys)" "rb_prev (fst s) a = Some (last_or_null xs)"
    using next_at_ok [OF z] prev_at_ok [OF z] split_at_focus [OF z] xs t by simp_all
qed

subsection \<open>Replacing a node\<close>

lemma replace_at_ok:
  assumes z: "zrep s (Node c l a r) fs" and b: "fst s b = Some nb" "b \<noteq> NULL" "ptr_ok b"
    and fresh: "b \<notin> footprint (Node c l a r) fs"
  obtains s' where "rb_replace_node a b s = Some s'" "after s s' (Node c l b r) fs"
proof -
  obtain h root where s: "s = (h, root)" by (cases s)
  have d: "distinct (before fs @ inorder (Node c l a r) @ behind fs)"
    and t: "tree_at h (parent_of fs) (Node c l a r)" and ca: "ctx_at h root a fs"
    using z by (auto simp: zrep_def s)
  obtain na where na: "h a = Some na" "rb_parent na = parent_of fs" "rb_left na = root_of l"
      "rb_right na = root_of r" "rb_is_red na = (c = Red)" and a: "a \<noteq> NULL"
    using t by (auto elim: node_isE)
  have f: "b \<notin> set (before fs @ behind fs)" "b \<noteq> a" "b \<notin> set (inorder l)" "b \<notin> set (inorder r)"
    using fresh by (auto simp: footprint_def)
  have dF: "a \<notin> set (before fs @ behind fs)" "a \<notin> set (inorder l)" "a \<notin> set (inorder r)"
      "set (inorder l) \<inter> set (before fs @ behind fs) = {}"
      "set (inorder r) \<inter> set (before fs @ behind fs) = {}" "set (inorder l) \<inter> set (inorder r) = {}"
    using d by auto
  obtain h1 root1 where 1: "relink_left (parent_of fs) a b (h, root) = Some (h1, root1)"
      "ctx_at h1 root1 b fs" "only_links h h1 (set (before fs @ behind fs))"
    using relink_left_ok [of h root a fs b] ca d a by (auto simp: disj_simps)
  have t1: "tree_at h1 a l" "tree_at h1 a r"
    using t dF tree_at_frame [OF 1(3)] by (auto simp: Int_commute)
  obtain h2 where 2: "adopt (root_of l) b h1 = Some h2" "tree_at h2 b l" "only_links h1 h2 (set (inorder l))"
    using adopt_ok [OF t1(1) _ b(3)] d by auto
  have "tree_at h2 a r" using t1(2) dF by (subst tree_at_frame [OF 2(3)]) auto
  then obtain h3 where 3: "adopt (root_of r) b h2 = Some h3" "tree_at h3 b r" "only_links h2 h3 (set (inorder r))"
    using adopt_ok [of h2 a r b] b(3) d by auto
  have t3: "tree_at h3 b l" using 2(2) dF by (subst tree_at_frame [OF 3(3)]) (auto simp: Int_commute)
  have o: "only_links h1 h3 (set (inorder l) \<union> set (inorder r))"
    by (rule only_links_both [OF 2(3) 3(3)]) auto
  have c3: "ctx_at h3 root1 b fs" using 1(2) dF by (subst ctx_at_frame [OF o]) auto
  have e: "h1 a = Some na" "h2 a = Some na" "h3 a = Some na" "h3 b = Some nb"
    using na b f dF s by (simp_all add: only_linksD [OF 1(3)] only_linksD [OF 2(3)] only_linksD [OF 3(3)])
  let ?n = "rb_node.extend (rb_node.truncate na) (rb_node.more nb)"
  let ?h = "h3(b \<mapsto> ?n)"
  have n: "rb_left ?n = root_of l" "rb_right ?n = root_of r" "rb_parent ?n = parent_of fs"
      "rb_is_red ?n = (c = Red)" "rb_node.more ?n = rb_node.more nb"
    using na by (simp_all add: rb_parent_def rb_is_red_def rb_color_def rb_node.defs)
  have "zrep (?h, root1) (Node c l b r) fs"
    using t3 3(2) c3 n b f d by (auto simp: zrep_def)
  moreover have "only_links h ?h (footprint (Node c l b r) fs)"
    using e n by (intro only_links_upd only_links_both [OF 1(3) o]) (auto simp: footprint_def)
  ultimately have "after s (?h, root1) (Node c l b r) fs" by (simp add: after_def s)
  then show ?thesis
    using that [of "(?h, root1)"] zrep_reads [OF z] 1(1) 2(1) 3(1) e na a b
    by (simp add: rb_replace_node_def s)
qed

theorem rb_replace_node_ok:
  assumes "rep s t" and xs: "inorder t = xs @ a # ys"
    and b: "fst s b = Some nb" "b \<noteq> NULL" "ptr_ok b" "b \<notin> set (inorder t)"
  shows "\<exists>s' t'. rb_replace_node a b s = Some s' \<and> rep s' t' \<and> inorder t' = xs @ b # ys \<and>
    (red_black t \<longrightarrow> red_black t') \<and> only_links (fst s) (fst s') (set (inorder t'))"
proof -
  have "a \<in> set (inorder t)" using xs by simp
  then obtain c l r fs where t: "t = plug (Node c l a r) fs" by (rule focus_on)
  have z: "zrep s (Node c l a r) fs" using assms(1) t rep_plug by blast
  have "b \<notin> footprint (Node c l a r) fs" using b(4) t by (simp add: footprint_def inorder_plug)
  then obtain s' where 1: "rb_replace_node a b s = Some s'" "after s s' (Node c l b r) fs"
    using replace_at_ok [OF z b(1-3)] by blast
  have 2: "after s s' (plug (Node c l b r) fs) []" using 1(2) after_whole by blast
  have "inorder (plug (Node c l b r) fs) = xs @ b # ys"
    unfolding split_at_focus [OF z xs [unfolded t]] by (simp add: inorder_plug)
  moreover have "red_black (plug (Node c l b r) fs)" if rb: "red_black t"
  proof -
    have i: "balanced (Node c l a r)" "no_red_red (Node c l a r)" "ctx_inv (bheight (Node c l a r)) fs"
        "fs = [] \<or> c = Black \<or> black_above fs"
      using red_black_unplug [of "Node c l a r" fs] rb t by (auto simp: red_black_def)
    then have "red_black (paint Black (plug (Node c l b r) fs))" by (intro red_black_plug) auto
    moreover have "fs \<noteq> [] \<or> c = Black" using rb t by (cases fs) (auto simp: red_black_def)
    ultimately show ?thesis using root_black [OF i(3), of "Node c l b r"] by simp
  qed
  ultimately show ?thesis using 1(1) 2
    by (intro exI [of _ s'] exI [of _ "plug (Node c l b r) fs"]) (auto simp: after_def footprint_def)
qed

subsection \<open>Nodes outside any tree\<close>

lemma rb_init_node_ok:
  assumes "h a = Some n" and "a \<noteq> NULL" and "ptr_ok a"
  shows "\<exists>h'. rb_init_node a h = Some h' \<and> only_links h h' {a} \<and>
    rb_next h' a = Some NULL \<and> rb_prev h' a = Some NULL"
proof -
  let ?n = "rb_set_parent a (set_left NULL (set_right NULL (n\<lparr>rb_parent_color := 0\<rparr>)))"
  have "rb_init_node a h = Some (h(a \<mapsto> ?n))" using assms by (simp add: rb_init_node_def)
  moreover have "rb_parent ?n = a" using assms(3) by (simp add: rb_parent_sets)
  moreover have "only_links h (h(a \<mapsto> ?n)) {a}" using assms(1) by (intro only_links_upd) auto
  ultimately show ?thesis using assms by (simp add: rb_next_def rb_prev_def)
qed

subsection \<open>Height\<close>

primrec height :: "rbt \<Rightarrow> nat" where
  "height Leaf = 0"
| "height (Node c l a r) = Suc (max (height l) (height r))"

lemma height_bheight:
  "balanced t \<Longrightarrow> no_red_red t \<Longrightarrow> height t \<le> 2 * bheight t + (if color_of t = Red then 1 else 0)"
proof (induction t)
  case (Node c l a r)
  then show ?case by (cases c; cases "color_of l"; cases "color_of r") auto
qed simp

lemma bheight_size: "balanced t \<Longrightarrow> 2 ^ bheight t \<le> Suc (length (inorder t))"
proof (induction t)
  case (Node c l a r)
  then have "2 ^ bheight l \<le> Suc (length (inorder l))" "2 ^ bheight l \<le> Suc (length (inorder r))" by auto
  then show ?case by (cases c) auto
qed simp

lemma red_black_height:
  assumes "red_black t"
  shows "2 ^ height t \<le> (Suc (length (inorder t)))\<^sup>2"
proof -
  have "height t \<le> 2 * bheight t" using assms height_bheight [of t] by (simp add: red_black_def)
  then have "(2::nat) ^ height t \<le> 2 ^ (2 * bheight t)" by simp
  also have "\<dots> = (2 ^ bheight t)\<^sup>2" by (simp add: power_mult mult.commute)
  also have "\<dots> \<le> (Suc (length (inorder t)))\<^sup>2"
    using bheight_size [of t] assms by (intro power_mono) (auto simp: red_black_def)
  finally show ?thesis .
qed

subsection \<open>Augmentation\<close>

text \<open>
  The callback may rewrite the fields of the struct a node is embedded in, not the links.
\<close>

definition same_links :: "'a rb_heap \<Rightarrow> 'a rb_heap \<Rightarrow> bool" where
  "same_links h h' \<longleftrightarrow> (\<forall>p. map_option rb_node.truncate (h' p) = map_option rb_node.truncate (h p))"

fun run_calls :: "(addr \<Rightarrow> 'h \<Rightarrow> 'h option) \<Rightarrow> addr list \<Rightarrow> 'h \<Rightarrow> 'h option" where
  "run_calls func [] h = Some h"
| "run_calls func (p # ps) h = do { h \<leftarrow> func p h; run_calls func ps h }"

text \<open>
  The addresses \<^verbatim>\<open>rb_augment_path\<close> calls back on: a node, then its sibling (a left child without a
  sibling is visited a second time), then its parent.
\<close>

fun visits :: "rbt \<Rightarrow> frame list \<Rightarrow> addr list" where
  "visits t [] = [root_of t]"
| "visits t (LeftF k a r # fs) =
     root_of t # (if r = Leaf then root_of t else root_of r) # visits (Node k t a r) fs"
| "visits t (RightF k l a # fs) =
     root_of t # (if l = Leaf then [] else [root_of l]) @ visits (Node k l a t) fs"

text \<open>The callback \<open>func\<close> returns on every node of \<open>A\<close> and keeps the links of \<open>h0\<close>.\<close>

definition keeps_links :: "addr set \<Rightarrow> 'a rb_heap \<Rightarrow> (addr \<Rightarrow> 'a rb_heap \<Rightarrow> 'a rb_heap option) \<Rightarrow> bool" where
  "keeps_links A h0 func \<longleftrightarrow> (\<forall>p\<in>A. \<forall>h1. same_links h0 h1 \<longrightarrow>
     (\<exists>h2. func p h1 = Some h2 \<and> same_links h0 h2))"

lemma same_links_refl [simp]: "same_links h h"
  by (simp add: same_links_def)

lemma same_links_trans: "same_links h h' \<Longrightarrow> same_links h' h'' \<Longrightarrow> same_links h h''"
  by (simp add: same_links_def)

lemma same_links_node_is: "same_links h h' \<Longrightarrow> node_is (h' p) c q l r = node_is (h p) c q l r"
  unfolding same_links_def
  by (drule spec [of _ p], cases "h p"; cases "h' p")
    (auto simp: rb_node.truncate_def rb_parent_def rb_is_red_def rb_color_def)

lemma same_links_tree: "same_links h h' \<Longrightarrow> tree_at h' q t = tree_at h q t"
  by (induction t arbitrary: q) (auto simp: same_links_node_is)

lemma same_links_ctx: "same_links h h' \<Longrightarrow> ctx_at h' root p fs = ctx_at h root p fs"
  by (induction fs arbitrary: p rule: before.induct) (auto simp: same_links_node_is same_links_tree)

lemma same_links_zrep: "same_links h h' \<Longrightarrow> zrep (h', root) t fs = zrep (h, root) t fs"
  by (simp add: zrep_def same_links_tree same_links_ctx)

lemma augment_path_ok:
  assumes keeps: "keeps_links A h0 func"
  shows "zrep (h0, root) t fs \<Longrightarrow> t \<noteq> Leaf \<Longrightarrow> footprint t fs \<subseteq> A \<Longrightarrow> same_links h0 h \<Longrightarrow>
    rb_augment_path func (root_of t) h = run_calls func (visits t fs) h \<and>
    (\<exists>h'. run_calls func (visits t fs) h = Some h' \<and> same_links h0 h')"
proof (induction fs arbitrary: t h)
  note f = keeps [unfolded keeps_links_def, rule_format]
  case Nil
  have "root_of t \<in> A" using Nil root_of_in [of t] by (auto simp: footprint_def)
  then obtain h2 where h2: "func (root_of t) h = Some h2" "same_links h0 h2" using f Nil by blast
  then have "rd h2 (root_of t) rb_parent = Some NULL"
    using Nil zrep_reads(3) [of "(h2, root)"] same_links_zrep [of h0 h2] by (cases t) auto
  then show ?case using h2 by (subst rb_augment_path.simps) simp
next
  note f = keeps [unfolded keeps_links_def, rule_format]
  case (Cons f fs)
  have u: "zrep (h0, root) (up t f) fs" "up t f \<noteq> Leaf" "footprint (up t f) fs \<subseteq> A"
    using Cons.prems by (auto simp: zrep_up footprint_up) (cases f; simp)
  have "root_of t \<in> A" using Cons.prems root_of_in [of t] by (auto simp: footprint_def)
  then obtain h2 where h2: "func (root_of t) h = Some h2" "same_links h0 h2" using f Cons.prems by blast
  have z2: "zrep (h2, root) (up t f) fs" "zrep (h2, root) t (f # fs)"
    using u Cons.prems same_links_zrep [OF h2(2)] by blast+
  have p: "rd h2 (root_of t) rb_parent = Some (parent_of (f # fs))"
    using z2(2) Cons.prems(2) by (cases t) (auto dest: zrep_reads(3))
  have nn: "root_of t \<noteq> NULL" using root_of_NULL [OF z2(2)] Cons.prems(2) by simp
  show ?case
  proof (cases f)
    case (LeftF k a r)
    let ?b = "if r = Leaf then root_of t else root_of r"
    have r: "root_of r = NULL \<longleftrightarrow> r = Leaf"
      using z2(1) LeftF root_of_NULL [of "(h2, root)" r "RightF k t a # fs"] by (simp add: zrep_up)
    have "?b \<in> A" using Cons.prems root_of_in [of t] root_of_in [of r] LeftF by (auto simp: footprint_def)
    then obtain h3 where h3: "func ?b h2 = Some h3" "same_links h0 h3" using f h2 by blast
    from Cons.IH [OF u h3(2)] show ?thesis
      using p nn r h2 h3 zrep_reads [of "(h2, root)" k t a r fs] z2(1) LeftF
      by (subst rb_augment_path.simps) (auto split: if_splits)
  next
    case (RightF k l a)
    have l: "root_of l = NULL \<longleftrightarrow> l = Leaf"
      using z2(1) RightF root_of_NULL [of "(h2, root)" l "LeftF k a t # fs"] by (simp add: zrep_up)
    have d: "l \<noteq> Leaf \<Longrightarrow> root_of l \<noteq> root_of t" using sibling_differs z2(2) RightF by blast
    obtain h3 where h3: "(if l = Leaf then Some h2 else func (root_of l) h2) = Some h3" "same_links h0 h3"
    proof (cases "l = Leaf")
      case False
      then have "root_of l \<in> A" using Cons.prems root_of_in [of l] RightF by (auto simp: footprint_def)
      then show ?thesis using f h2 that False by (metis (full_types))
    qed (use that h2 in auto)
    from Cons.IH [OF u h3(2)] show ?thesis
      using p nn l d h2 h3 zrep_reads [of "(h2, root)" k l a t fs] z2(1) RightF
      by (subst rb_augment_path.simps) (auto split: if_splits)
  qed
qed

theorem rb_augment_insert_ok:
  assumes z: "zrep (h, root) (Node c l a r) fs"
    and f: "keeps_links (footprint (Node c l a r) fs) h func"
  shows "\<exists>h'. rb_augment_insert a func h = Some h' \<and> same_links h h' \<and>
    run_calls func (if l \<noteq> Leaf then visits l (LeftF c a r # fs)
                    else if r \<noteq> Leaf then visits r (RightF c l a # fs)
                    else visits (Node c l a r) fs) h = Some h'"
proof -
  have zl: "zrep (h, root) l (LeftF c a r # fs)" and zr: "zrep (h, root) r (RightF c l a # fs)"
    using z by (simp_all add: zrep_up)
  have F: "footprint l (LeftF c a r # fs) = footprint (Node c l a r) fs"
    "footprint r (RightF c l a # fs) = footprint (Node c l a r) fs"
    by (simp_all add: footprint_up)
  show ?thesis
    using augment_path_ok [OF f zl, of h] augment_path_ok [OF f zr, of h] augment_path_ok [OF f z, of h]
      root_of_NULL [OF zl] root_of_NULL [OF zr] zrep_reads [OF z] F
    by (cases "l = Leaf"; cases "r = Leaf") (auto simp: rb_augment_insert_def)
qed

end
