(* ===== verification/RBProps.thy ===== *)
theory RBProps
  imports RBOrder
begin

text \<open>
  What the tree promises its clients, each with a witness on a concrete heap: insertion and
  removal return (so they are memory safe and end), keep the red-black invariant, change the
  in-order sequence in exactly one place and touch only the links of the tree's own nodes; the
  iteration functions follow the in-order sequence; the height is logarithmic.
\<close>

subsection \<open>A concrete tree\<close>

text \<open>
  Three nodes (8 black above 4 and 12 red) and a fourth cell that is in no tree. The witnesses
  of the properties apply them to this heap.
\<close>

definition demo_heap :: "unit rb_heap" where
  "demo_heap = [8 \<mapsto> \<lparr>rb_parent_color = 1, rb_right = 12, rb_left = 4\<rparr>,
                4 \<mapsto> \<lparr>rb_parent_color = 8, rb_right = 0, rb_left = 0\<rparr>,
                12 \<mapsto> \<lparr>rb_parent_color = 8, rb_right = 0, rb_left = 0\<rparr>,
                16 \<mapsto> \<lparr>rb_parent_color = 7, rb_right = 5, rb_left = 3\<rparr>]"

definition demo_tree :: rbt where
  "demo_tree = Node Black (Node Red Leaf 4 Leaf) 8 (Node Red Leaf 12 Leaf)"

lemma demo_rep: "rep (demo_heap, 8) demo_tree"
  by (simp add: demo_heap_def demo_tree_def zrep_def ptr_ok_def rb_parent_def rb_is_red_def rb_color_def)

lemma demo_red_black: "red_black demo_tree"
  by (simp add: demo_tree_def)

lemma demo_inorder: "inorder demo_tree = [4, 8, 12]"
  by (simp add: demo_tree_def)

lemma demo_fresh: "fst (demo_heap, 8) 16 = Some \<lparr>rb_parent_color = 7, rb_right = 5, rb_left = 3\<rparr>"
    "(16 :: addr) \<noteq> NULL" "ptr_ok 16" "16 \<notin> set (inorder demo_tree)"
  by (simp_all add: demo_heap_def ptr_ok_def demo_tree_def)

subsection \<open>Properties\<close>

text \<open>
  C1. Insertion. Linking a new node at any leaf position of a red-black tree and calling
  \<^verbatim>\<open>rb_insert_color\<close> returns; the result is a red-black tree whose in-order sequence is the old
  one with the new node at that position, and nothing but the links of its nodes has changed.
\<close>

theorem insert_keeps_red_black:
  assumes "zrep s Leaf fs" and "red_black (plug Leaf fs)"
    and "fst s node = Some n" and "node \<noteq> NULL" and "ptr_ok node" and "node \<notin> set (before fs @ behind fs)"
  shows "\<exists>s1 s2 t. rb_link_node node (parent_of fs) (hole fs) s = Some s1 \<and>
     rb_insert_color node s1 = Some s2 \<and> rep s2 t \<and> red_black t \<and>
     inorder t = before fs @ [node] @ behind fs \<and>
     only_links (fst s) (fst s2) (set (inorder t))"
  using assms by (rule rb_insert_ok)

lemma demo_hole:
  "zrep (demo_heap, 8) Leaf [RightF Red Leaf 12, RightF Black (Node Red Leaf 4 Leaf) 8]"
  using demo_rep by (simp add: demo_tree_def zrep_up)

theorem insert_keeps_red_black_witness:
  "\<exists>s1 s2 t. rb_link_node 16 12 (Link_right 12) (demo_heap, 8) = Some s1 \<and>
     rb_insert_color 16 s1 = Some s2 \<and> rep s2 t \<and> red_black t \<and> inorder t = [4, 8, 12, 16] \<and>
     only_links demo_heap (fst s2) (set (inorder t))"
  using insert_keeps_red_black [OF demo_hole _ demo_fresh(1-3)] demo_red_black
  by (simp add: demo_tree_def)

text \<open>
  C2. Removal. \<^verbatim>\<open>rb_erase\<close> of any node of a red-black tree returns a red-black tree whose in-order
  sequence has lost exactly that node; the struct of the removed node and every cell outside
  the tree are unchanged.
\<close>

theorem erase_keeps_red_black:
  assumes "rep s T" and "red_black T" and "a \<in> set (inorder T)"
  shows "\<exists>s' t. rb_erase a s = Some s' \<and> rep s' t \<and> red_black t \<and>
    inorder t = remove1 a (inorder T) \<and> only_links (fst s) (fst s') (set (inorder t))"
  using assms by (rule rb_erase_ok)

theorem erase_keeps_red_black_witness:
  "\<exists>s' t. rb_erase 8 (demo_heap, 8) = Some s' \<and> rep s' t \<and> red_black t \<and>
    inorder t = [4, 12] \<and> only_links demo_heap (fst s') (set (inorder t))"
  using erase_keeps_red_black [OF demo_rep demo_red_black, of 8] by (simp add: demo_inorder)

text \<open>
  C6. Iteration. For a node with the sequence \<open>xs\<close> before it and \<open>ys\<close> behind it in order,
  \<^verbatim>\<open>rb_next\<close> is the first of \<open>ys\<close> and \<^verbatim>\<open>rb_prev\<close> the last of \<open>xs\<close>, null at the ends; \<^verbatim>\<open>rb_first\<close> and
  \<^verbatim>\<open>rb_last\<close> are the ends of the whole sequence. All four return.
\<close>

theorem iteration_in_order:
  assumes "rep s t" and "inorder t = xs @ a # ys"
  shows "rb_next (fst s) a = Some (first_or_null ys) \<and> rb_prev (fst s) a = Some (last_or_null xs) \<and>
    rb_first s = Some (first_or_null (xs @ [a])) \<and> rb_last s = Some (last_or_null (a # ys))"
  using next_prev_ok [OF assms] first_ok [OF assms(1)] last_ok [OF assms(1)] assms(2)
  by (cases xs) (auto simp: last_or_null_def)

theorem iteration_in_order_witness:
  "rb_next demo_heap 8 = Some 12 \<and> rb_prev demo_heap 8 = Some 4 \<and>
   rb_first (demo_heap, 8) = Some 4 \<and> rb_last (demo_heap, 8) = Some 12"
  using iteration_in_order [OF demo_rep, of "[4]" 8 "[12]"] by (simp add: demo_inorder last_or_null_def)

text \<open>
  Replacement. \<^verbatim>\<open>rb_replace_node\<close> puts a node that is in no tree into the place of the victim
  without rebalancing: the sequence changes in that one place and the invariant is kept.
\<close>

theorem replace_keeps_place:
  assumes "rep s t" and "inorder t = xs @ a # ys"
    and "fst s b = Some nb" and "b \<noteq> NULL" and "ptr_ok b" and "b \<notin> set (inorder t)"
  shows "\<exists>s' t'. rb_replace_node a b s = Some s' \<and> rep s' t' \<and> inorder t' = xs @ b # ys \<and>
    (red_black t \<longrightarrow> red_black t') \<and> only_links (fst s) (fst s') (set (inorder t'))"
  using assms by (rule rb_replace_node_ok)

theorem replace_keeps_place_witness:
  "\<exists>s' t'. rb_replace_node 4 16 (demo_heap, 8) = Some s' \<and> rep s' t' \<and> inorder t' = [16, 8, 12] \<and>
    red_black t' \<and> only_links demo_heap (fst s') (set (inorder t'))"
  using replace_keeps_place [OF demo_rep, of "[]" 4 "[8, 12]", OF _ demo_fresh] demo_red_black
  by (simp add: demo_inorder)

text \<open>
  Augmentation. With a callback that keeps the links, \<^verbatim>\<open>rb_augment_insert\<close> returns and makes
  exactly the calls of \<open>visits\<close>, in that order: the node it starts from, its sibling, and so on
  up to the root.
\<close>

theorem augment_visits_path:
  assumes "zrep (h, root) (Node c l a r) fs"
    and "keeps_links (footprint (Node c l a r) fs) h func"
  shows "\<exists>h'. rb_augment_insert a func h = Some h' \<and> same_links h h' \<and>
    run_calls func (if l \<noteq> Leaf then visits l (LeftF c a r # fs)
                    else if r \<noteq> Leaf then visits r (RightF c l a # fs)
                    else visits (Node c l a r) fs) h = Some h'"
  using assms by (rule rb_augment_insert_ok)

theorem augment_visits_path_witness:
  "\<exists>h'. rb_augment_insert 12 (\<lambda>p h. Some h) demo_heap = Some h' \<and> same_links demo_heap h' \<and>
    run_calls (\<lambda>p h. Some h) [12, 4, 8] demo_heap = Some h'"
  using augment_visits_path [of demo_heap 8 Red Leaf 12 Leaf "[RightF Black (Node Red Leaf 4 Leaf) 8]"
      "\<lambda>p h. Some h"] demo_rep
  by (simp add: demo_tree_def zrep_up keeps_links_def)

text \<open>
  The packed parent word. A parent written by \<^verbatim>\<open>rb_set_parent\<close> is read back exactly when its
  two low bits are clear; then the colour is untouched, and recolouring leaves the parent alone.
\<close>

theorem parent_and_colour_packed:
  "(rb_parent (rb_set_parent p n) = p \<longleftrightarrow> ptr_ok p) \<and>
   (ptr_ok p \<longrightarrow> rb_is_red (rb_set_parent p n) = rb_is_red n) \<and>
   rb_parent (rb_set_red n) = rb_parent n \<and> rb_is_red (rb_set_red n) \<and>
   rb_parent (rb_set_black n) = rb_parent n \<and> rb_is_black (rb_set_black n)"
proof -
  have "ptr_ok p" if "rb_parent (rb_set_parent p n) = p" using rb_parent_ptr_ok that by metis
  then show ?thesis by (auto simp: rb_parent_sets rb_is_red_sets)
qed

theorem parent_and_colour_packed_witness:
  "rb_is_red (rb_set_parent 8 \<lparr>rb_parent_color = 0, rb_right = 0, rb_left = 0\<rparr>)"
  using parent_and_colour_packed [of 8 "\<lparr>rb_parent_color = 0, rb_right = 0, rb_left = 0\<rparr>"]
  by (simp add: ptr_ok_def rb_is_red_def rb_color_def)

end
