(* ===== verification/MemPool.thy ===== *)
theory MemPool
  imports RBOrder "HOL-Library.Signed_Division"
begin

text \<open>
  The memory pool of \<^verbatim>\<open>Common/Compement/src/MemManager/memory_pool.c\<close>: blocks of up to ten sizes,
  kept in two red-black trees (free and used) keyed by the block size, and handed out as linked
  lists of nodes. The model has one typed heap per struct of the program, the set of allocated
  data blocks, the static \<^verbatim>\<open>g_memory_pool\<close>, and the addresses the C library's \<^verbatim>\<open>malloc\<close> is going
  to return, null for a failure.
\<close>

subsection \<open>Data\<close>

text \<open>
  \<^verbatim>\<open>struct my_node\<close> embeds its \<^verbatim>\<open>rb_node\<close> first, so the record extends it. \<^verbatim>\<open>Type\<close> is \<^verbatim>\<open>int\<close>: a key
  is a 32-bit word that is compared signed.
\<close>

record my_node = rb_node +
  key :: u32
  memoryblock :: addr

record list_node =
  my_node_ptr :: addr
  Next :: addr

record memory_pool =
  free_tree :: addr
  used_tree :: addr
  block_len :: "u32 list"
  block_total_count :: "u32 list"
  block_used_count :: "u32 list"

record mem =
  nodes :: "my_node heap"
  cells :: "list_node heap"
  blocks :: "u32 heap"
  arena :: "addr list"
  g_memory_pool :: memory_pool

type_synonym pool_tree = "my_node heap \<times> addr"

definition MAXSIZE :: nat where
  "MAXSIZE = 100"

definition MAX_COLUME_NUM :: nat where
  "MAX_COLUME_NUM = 10"

text \<open>
  The contents of memory fresh from \<^verbatim>\<open>malloc\<close> are indeterminate; the code writes every field it
  reads, and the model fills in zeros.
\<close>

definition malloc :: "mem \<Rightarrow> addr \<times> mem" where
  "malloc m = (case arena m of [] \<Rightarrow> (NULL, m) | a # as \<Rightarrow> (a, m\<lparr>arena := as\<rparr>))"

definition malloc_node :: "mem \<Rightarrow> addr \<times> mem" where
  "malloc_node m = (let (a, m) = malloc m in
     (a, if a = NULL then m else m\<lparr>nodes := (nodes m)(a \<mapsto>
        \<lparr>rb_parent_color = 0, rb_right = 0, rb_left = 0, key = 0, memoryblock = 0\<rparr>)\<rparr>))"

definition malloc_cell :: "mem \<Rightarrow> addr \<times> mem" where
  "malloc_cell m = (let (a, m) = malloc m in
     (a, if a = NULL then m else m\<lparr>cells := (cells m)(a \<mapsto> \<lparr>my_node_ptr = 0, Next = 0\<rparr>)\<rparr>))"

definition malloc_block :: "u32 \<Rightarrow> mem \<Rightarrow> addr \<times> mem" where
  "malloc_block len m = (let (a, m) = malloc m in
     (a, if a = NULL then m else m\<lparr>blocks := (blocks m)(a \<mapsto> len)\<rparr>))"

definition tree_update :: "(addr \<Rightarrow> memory_pool \<Rightarrow> memory_pool) \<Rightarrow> pool_tree \<Rightarrow> mem \<Rightarrow> mem" where
  "tree_update set_root s m = m\<lparr>nodes := fst s, g_memory_pool := set_root (snd s) (g_memory_pool m)\<rparr>"

abbreviation set_free_tree :: "addr \<Rightarrow> memory_pool \<Rightarrow> memory_pool" where
  "set_free_tree r \<equiv> free_tree_update (\<lambda>_. r)"

abbreviation set_used_tree :: "addr \<Rightarrow> memory_pool \<Rightarrow> memory_pool" where
  "set_used_tree r \<equiv> used_tree_update (\<lambda>_. r)"

definition free_state :: "mem \<Rightarrow> pool_tree" where
  "free_state m = (nodes m, free_tree (g_memory_pool m))"

definition used_state :: "mem \<Rightarrow> pool_tree" where
  "used_state m = (nodes m, used_tree (g_memory_pool m))"

subsection \<open>The list of handed-out nodes\<close>

partial_function (option) list_tail :: "list_node heap \<Rightarrow> addr \<Rightarrow> addr \<Rightarrow> addr option" where
  "list_tail h PTail P = (if P \<noteq> NULL then do { n \<leftarrow> rd h P Next; list_tail h P n } else Some PTail)"

text \<open>\<^verbatim>\<open>exit(-1)\<close> when there is no memory is the outcome \<open>Exit\<close>.\<close>

definition InsertList :: "addr \<Rightarrow> addr \<Rightarrow> mem \<Rightarrow> mem run" where
  "InsertList List my_node m = seq (lift (list_tail (cells m) NULL List)) (\<lambda>PTail.
     let (Tmp, m) = malloc_cell m in
     if Tmp = NULL then Exit
     else lift (do {
       h \<leftarrow> upd (cells m) Tmp (my_node_ptr_update (\<lambda>_. my_node));
       h \<leftarrow> upd h PTail (Next_update (\<lambda>_. Tmp));
       h \<leftarrow> upd h Tmp (Next_update (\<lambda>_. NULL));
       Some (m\<lparr>cells := h\<rparr>)
     }))"

subsection \<open>Searching a tree\<close>

text \<open>
  The two search functions share their loop: an explicit stack of \<^verbatim>\<open>MAXSIZE\<close> entries, pushed past
  its end being undefined, and a test on the visited node.
\<close>

partial_function (option) push_left :: "my_node heap \<Rightarrow> addr list \<Rightarrow> addr \<Rightarrow> addr list option" where
  "push_left h stk p =
     (if p \<noteq> NULL then
        if length stk < MAXSIZE then do { l \<leftarrow> rd h p rb_left; push_left h (p # stk) l } else None
      else Some stk)"

partial_function (option) search_loop ::
    "my_node heap \<Rightarrow> (my_node \<Rightarrow> bool) \<Rightarrow> addr list \<Rightarrow> addr \<Rightarrow> addr option" where
  "search_loop h test stk p =
     (if stk \<noteq> [] \<or> p \<noteq> NULL then do {
        stk \<leftarrow> push_left h stk p;
        (case stk of [] \<Rightarrow> Some NULL
         | q # rest \<Rightarrow> do {
             found \<leftarrow> rd h q test;
             if found then Some q
             else do { r \<leftarrow> rd h q rb_right; search_loop h test rest r }
           })
      } else Some NULL)"

definition InorderSearchMemblockSize :: "my_node heap \<Rightarrow> addr \<Rightarrow> u32 \<Rightarrow> addr option" where
  "InorderSearchMemblockSize h t k =
     (if t \<noteq> NULL then search_loop h (\<lambda>mynode. sint k \<le> sint (key mynode)) [] t else Some NULL)"

definition PreorderSearchMemblock :: "my_node heap \<Rightarrow> addr \<Rightarrow> addr \<Rightarrow> addr option" where
  "PreorderSearchMemblock h t memblock =
     (if t \<noteq> NULL then search_loop h (\<lambda>mynode. memblock + 48 = memoryblock mynode) [] t else Some NULL)"

subsection \<open>Inserting into and taking out of a tree\<close>

partial_function (option) insert_descend ::
    "u32 \<Rightarrow> rb_link \<Rightarrow> addr \<Rightarrow> pool_tree \<Rightarrow> (rb_link \<times> addr) option" where
  "insert_descend k tmp parent s = do {
     my \<leftarrow> read_link tmp s;
     if my \<noteq> NULL then do {
       mk \<leftarrow> rd (fst s) my key;
       if sint k \<le> sint mk then insert_descend k (Link_left my) my s
       else insert_descend k (Link_right my) my s
     } else Some (tmp, parent)
   }"

definition insertMemBlockNode :: "addr \<Rightarrow> pool_tree \<Rightarrow> pool_tree option" where
  "insertMemBlockNode mynode s = do {
     k \<leftarrow> rd (fst s) mynode key;
     (tmp, parent) \<leftarrow> insert_descend k Link_root NULL s;
     s \<leftarrow> rb_link_node mynode parent tmp s;
     rb_insert_color mynode s
   }"

text \<open>
  A new node with its block, as \<^verbatim>\<open>buffer_pool_init\<close>, \<^verbatim>\<open>getMemBlockSizeNode\<close> and \<^verbatim>\<open>buffer_malloc\<close>
  make one: null when either allocation fails, and then the node is lost.
\<close>

definition new_block_node :: "u32 \<Rightarrow> mem \<Rightarrow> (addr \<times> mem) option" where
  "new_block_node len m =
     (let (mynode, m) = malloc_node m in
      if mynode = NULL then Some (NULL, m)
      else do {
        h \<leftarrow> upd (nodes m) mynode (key_update (\<lambda>_. len));
        let (b, m) = malloc_block len (m\<lparr>nodes := h\<rparr>) in do {
          h \<leftarrow> upd (nodes m) mynode (memoryblock_update (\<lambda>_. b));
          if b = NULL then Some (NULL, m\<lparr>nodes := h\<rparr>)
          else Some (mynode, m\<lparr>nodes := h\<rparr>)
        }
      })"

definition getMemBlockSizeNode :: "u32 \<Rightarrow> mem \<Rightarrow> (addr \<times> mem) option" where
  "getMemBlockSizeNode k m = do {
     mynode \<leftarrow> InorderSearchMemblockSize (nodes m) (free_tree (g_memory_pool m)) k;
     if mynode = NULL then new_block_node k m
     else do {
       s \<leftarrow> rb_erase mynode (free_state m);
       Some (mynode, tree_update set_free_tree s m)
     }
   }"

definition insert_free :: "addr \<Rightarrow> mem \<Rightarrow> mem option" where
  "insert_free mynode m = do {
     s \<leftarrow> insertMemBlockNode mynode (free_state m);
     Some (tree_update set_free_tree s m)
   }"

definition insert_used :: "addr \<Rightarrow> mem \<Rightarrow> mem option" where
  "insert_used mynode m = do {
     s \<leftarrow> insertMemBlockNode mynode (used_state m);
     Some (tree_update set_used_tree s m)
   }"

subsection \<open>Filling the pool\<close>

fun init_blocks :: "nat \<Rightarrow> u32 \<Rightarrow> mem \<Rightarrow> (bool \<times> mem) option" where
  "init_blocks 0 len m = Some (True, m)"
| "init_blocks (Suc n) len m = do {
     (mynode, m) \<leftarrow> new_block_node len m;
     if mynode = NULL then Some (False, m)
     else do { m \<leftarrow> insert_free mynode m; init_blocks n len m }
   }"

definition set_column :: "nat \<Rightarrow> u32 \<Rightarrow> u32 \<Rightarrow> memory_pool \<Rightarrow> memory_pool option" where
  "set_column i len count g = do {
     ls \<leftarrow> arr_set (block_len g) i len;
     ts \<leftarrow> arr_set (block_total_count g) i count;
     us \<leftarrow> arr_set (block_used_count g) i 0;
     Some (g\<lparr>block_len := ls, block_total_count := ts, block_used_count := us\<rparr>)
   }"

text \<open>The loop over the columns: \<open>n\<close> columns are left, the next is \<open>i\<close>.\<close>

fun init_columns ::
    "nat \<Rightarrow> nat \<Rightarrow> u32 \<Rightarrow> u32 list \<Rightarrow> u32 list \<Rightarrow> mem \<Rightarrow> (bool \<times> mem) option" where
  "init_columns 0 i colume_no lens counts m = Some (True, m)"
| "init_columns (Suc n) i colume_no lens counts m = do {
     len \<leftarrow> arr_get lens i;
     count \<leftarrow> arr_get counts i;
     g \<leftarrow> (if unat colume_no \<le> MAX_COLUME_NUM then set_column i len count (g_memory_pool m)
           else Some (g_memory_pool m));
     (ok, m) \<leftarrow> init_blocks (unat count) len (m\<lparr>g_memory_pool := g\<rparr>);
     if ok then init_columns n (Suc i) colume_no lens counts m else Some (False, m)
   }"

definition buffer_pool_init :: "u32 \<Rightarrow> u32 list \<Rightarrow> u32 list \<Rightarrow> mem \<Rightarrow> (int \<times> mem) option" where
  "buffer_pool_init colume_no lens counts m = do {
     (ok, m) \<leftarrow> init_columns (unat colume_no) 0 colume_no lens counts m;
     Some (if ok then 0 else -1, m)
   }"

subsection \<open>Handing out blocks\<close>

definition add_used_count :: "nat \<Rightarrow> mem \<Rightarrow> mem option" where
  "add_used_count i m = do {
     u \<leftarrow> arr_get (block_used_count (g_memory_pool m)) i;
     us \<leftarrow> arr_set (block_used_count (g_memory_pool m)) i (u + 1);
     Some (m\<lparr>g_memory_pool := (g_memory_pool m)\<lparr>block_used_count := us\<rparr>\<rparr>)
   }"

definition add_total_count :: "nat \<Rightarrow> mem \<Rightarrow> mem option" where
  "add_total_count i m = do {
     t \<leftarrow> arr_get (block_total_count (g_memory_pool m)) i;
     ts \<leftarrow> arr_set (block_total_count (g_memory_pool m)) i (t + 1);
     Some (m\<lparr>g_memory_pool := (g_memory_pool m)\<lparr>block_total_count := ts\<rparr>\<rparr>)
   }"

fun take_free :: "nat \<Rightarrow> u32 \<Rightarrow> nat \<Rightarrow> addr \<Rightarrow> mem \<Rightarrow> mem run" where
  "take_free 0 len i List m = Return m"
| "take_free (Suc n) len i List m = seq (lift (getMemBlockSizeNode len m)) (\<lambda>(mynode, m).
     seq (if mynode \<noteq> NULL then
            seq (InsertList List mynode m) (\<lambda>m.
              lift (do { m \<leftarrow> insert_used mynode m; add_used_count i m }))
          else Return m)
       (take_free n len i List))"

text \<open>The flag is \<open>False\<close> when the function has returned null for want of memory.\<close>

fun add_new :: "nat \<Rightarrow> u32 \<Rightarrow> nat \<Rightarrow> addr \<Rightarrow> mem \<Rightarrow> (bool \<times> mem) run" where
  "add_new 0 len i List m = Return (True, m)"
| "add_new (Suc n) len i List m = seq (lift (new_block_node len m)) (\<lambda>(mynode, m).
     if mynode = NULL then Return (False, m)
     else seq (InsertList List mynode m) (\<lambda>m.
       seq (lift (do { m \<leftarrow> insert_used mynode m; m \<leftarrow> add_used_count i m; add_total_count i m }))
         (add_new n len i List)))"

text \<open>How many blocks of one length to take, and what is left; half a block is rounded up.\<close>

definition column_count :: "int \<Rightarrow> int \<Rightarrow> int \<times> int" where
  "column_count len remain =
     (let count = remain sdiv len; remain' = remain smod len
      in if remain' > len sdiv 2 then (count + 1, 0) else (count, remain'))"

definition malloc_column :: "nat \<Rightarrow> int \<Rightarrow> addr \<Rightarrow> mem \<Rightarrow> (int \<times> bool \<times> mem) run" where
  "malloc_column i remain List m =
     seq (lift (do {
       len \<leftarrow> arr_get (block_len (g_memory_pool m)) i;
       total \<leftarrow> arr_get (block_total_count (g_memory_pool m)) i;
       used \<leftarrow> arr_get (block_used_count (g_memory_pool m)) i;
       Some (len, sint (total - used)) }))
     (\<lambda>(len, free_count).
       if sint len = 0 then Undefined
       else
         let (count, remain') = column_count (sint len) remain
         in if count = 0 then Return (remain', True, m)
         else if count \<le> free_count then
           seq (take_free (nat count) len i List m) (\<lambda>m. Return (remain', True, m))
         else if count - free_count \<ge> 2 ^ 31 then Undefined
         else seq (take_free (nat free_count) len i List m) (\<lambda>m.
           seq (add_new (nat (count - free_count)) len i List m) (\<lambda>(ok, m).
             Return (remain', ok, m))))"

text \<open>The loop from the last column down to the first: the next column is one below the argument.\<close>

fun malloc_columns :: "nat \<Rightarrow> int \<Rightarrow> addr \<Rightarrow> mem \<Rightarrow> (bool \<times> mem) run" where
  "malloc_columns 0 remain List m = Return (True, m)"
| "malloc_columns (Suc i) remain List m =
     (if remain > 0 then
        seq (malloc_column i remain List m) (\<lambda>(remain, ok, m).
          if ok then malloc_columns i remain List m else Return (False, m))
      else Return (True, m))"

definition buffer_malloc :: "u32 \<Rightarrow> mem \<Rightarrow> (addr \<times> mem) run" where
  "buffer_malloc memblock_size m =
     (let (List, m) = malloc_cell m in
      if List = NULL then Exit
      else seq (lift (upd (cells m) List (Next_update (\<lambda>_. NULL)))) (\<lambda>h.
        seq (malloc_columns MAX_COLUME_NUM (sint memblock_size) List (m\<lparr>cells := h\<rparr>)) (\<lambda>(ok, m).
          Return (if ok then List else NULL, m))))"

subsection \<open>Giving blocks back\<close>

definition sub_used_counts :: "u32 \<Rightarrow> mem \<Rightarrow> mem" where
  "sub_used_counts k m = m\<lparr>g_memory_pool := (g_memory_pool m)\<lparr>block_used_count :=
     map2 (\<lambda>len u. if len = k then u - 1 else u)
       (block_len (g_memory_pool m)) (block_used_count (g_memory_pool m))\<rparr>\<rparr>"

definition give_back :: "addr \<Rightarrow> mem \<Rightarrow> mem option" where
  "give_back mynode m = do {
     k \<leftarrow> rd (nodes m) mynode key;
     let m = sub_used_counts k m in do {
       s \<leftarrow> rb_erase mynode (used_state m);
       insert_free mynode (tree_update set_used_tree s m)
     }
   }"

partial_function (option) free_loop :: "addr \<Rightarrow> mem \<Rightarrow> mem option" where
  "free_loop P m = (if P \<noteq> NULL then do {
       Tmp \<leftarrow> rd (cells m) P Next;
       mynode \<leftarrow> rd (cells m) P my_node_ptr;
       m \<leftarrow> (if mynode \<noteq> NULL then give_back mynode m else Some m);
       h \<leftarrow> release (cells m) P;
       free_loop Tmp (m\<lparr>cells := h\<rparr>)
     } else Some m)"

definition buffer_free :: "addr \<Rightarrow> mem \<Rightarrow> (int \<times> mem) option" where
  "buffer_free List m = (if List = NULL then Some (1, m) else do {
       P \<leftarrow> rd (cells m) List Next;
       h \<leftarrow> upd (cells m) List (Next_update (\<lambda>_. NULL));
       m \<leftarrow> free_loop P (m\<lparr>cells := h\<rparr>);
       Some (0, m)
     })"

subsection \<open>Tearing the pool down\<close>

text \<open>\<^verbatim>\<open>free(mynode->memoryblock)\<close> when there is one, and the field set to null.\<close>

definition free_memoryblock :: "addr \<Rightarrow> mem \<Rightarrow> mem option" where
  "free_memoryblock mynode m = do {
     b \<leftarrow> rd (nodes m) mynode memoryblock;
     if b \<noteq> NULL then do {
       bs \<leftarrow> release (blocks m) b;
       h \<leftarrow> upd (nodes m) mynode (memoryblock_update (\<lambda>_. NULL));
       Some (m\<lparr>blocks := bs, nodes := h\<rparr>)
     } else Some m
   }"

partial_function (option) postOrderRecursionDestory ::
    "(memory_pool \<Rightarrow> addr) \<Rightarrow> (addr \<Rightarrow> memory_pool \<Rightarrow> memory_pool) \<Rightarrow> addr \<Rightarrow> mem \<Rightarrow> mem option" where
  "postOrderRecursionDestory root set_root rbnode m =
     (if rbnode = NULL then Some m
      else do {
        l \<leftarrow> rd (nodes m) rbnode rb_left;
        r \<leftarrow> rd (nodes m) rbnode rb_right;
        if l \<noteq> NULL then postOrderRecursionDestory root set_root l m
        else if r \<noteq> NULL then postOrderRecursionDestory root set_root r m
        else do {
          m \<leftarrow> free_memoryblock rbnode m;
          s \<leftarrow> rb_erase rbnode (nodes m, root (g_memory_pool m));
          h \<leftarrow> release (fst s) rbnode;
          Some (tree_update set_root (h, snd s) m)
        }
      })"

definition sub_positive_counts :: "u32 \<Rightarrow> mem \<Rightarrow> mem" where
  "sub_positive_counts k m = m\<lparr>g_memory_pool := (g_memory_pool m)\<lparr>block_used_count :=
     map2 (\<lambda>len u. if len = k \<and> u > 0 then u - 1 else u)
       (block_len (g_memory_pool m)) (block_used_count (g_memory_pool m))\<rparr>\<rparr>"

text \<open>
  The body of the inner loop of \<^verbatim>\<open>destoryTree\<close> on the stack top \<open>p\<close>. As in the source, the right
  child is read from \<open>p\<close> after \<open>p\<close> has been freed.
\<close>

definition destory_node ::
    "(memory_pool \<Rightarrow> addr) \<Rightarrow> (addr \<Rightarrow> memory_pool \<Rightarrow> memory_pool) \<Rightarrow> addr \<Rightarrow> mem \<Rightarrow> (addr \<times> mem) option" where
  "destory_node root set_root p m = do {
     s \<leftarrow> rb_erase p (nodes m, root (g_memory_pool m));
     let m = tree_update set_root s m in do {
       b \<leftarrow> rd (nodes m) p memoryblock;
       m \<leftarrow> free_memoryblock p m;
       k \<leftarrow> rd (nodes m) p key;
       let m = (if b \<noteq> NULL then sub_positive_counts k m else m) in do {
         h \<leftarrow> release (nodes m) p;
         r \<leftarrow> rd h p rb_right;
         Some (r, m\<lparr>nodes := h\<rparr>)
       }
     }
   }"

partial_function (option) destory_walk ::
    "(memory_pool \<Rightarrow> addr) \<Rightarrow> (addr \<Rightarrow> memory_pool \<Rightarrow> memory_pool) \<Rightarrow> addr list \<Rightarrow> addr \<Rightarrow> mem \<Rightarrow> mem option" where
  "destory_walk root set_root stk p m =
     (if stk \<noteq> [] \<or> p \<noteq> NULL then do {
        stk \<leftarrow> push_left (nodes m) stk p;
        (case stk of [] \<Rightarrow> Some m
         | q # rest \<Rightarrow> do {
             (r, m) \<leftarrow> destory_node root set_root q m;
             destory_walk root set_root rest r m
           })
      } else Some m)"

partial_function (option) destoryTree ::
    "(memory_pool \<Rightarrow> addr) \<Rightarrow> (addr \<Rightarrow> memory_pool \<Rightarrow> memory_pool) \<Rightarrow> mem \<Rightarrow> mem option" where
  "destoryTree root set_root m =
     (let t = root (g_memory_pool m) in
      if t \<noteq> NULL then do {
        m \<leftarrow> destory_walk root set_root [] t m;
        destoryTree root set_root m
      } else Some m)"

definition buffer_pool_destory :: "mem \<Rightarrow> mem option" where
  "buffer_pool_destory m = do {
     m \<leftarrow> destoryTree free_tree set_free_tree m;
     destoryTree used_tree set_used_tree m
   }"

subsection \<open>Reports\<close>

text \<open>A printed line as data: \<open>Child k c k' d\<close> is \<^verbatim>\<open>k(c) is k'\<close>'s \<^verbatim>\<open>d child\<close>.\<close>

datatype print_line = Is_root u32 | Is_child u32 string u32 string

partial_function (option) print_rbtree ::
    "my_node heap \<Rightarrow> addr \<Rightarrow> u32 \<Rightarrow> int \<Rightarrow> print_line list option" where
  "print_rbtree h tree k direction = (if tree \<noteq> NULL then do {
       b \<leftarrow> rd h tree rb_is_black;
       l \<leftarrow> rd h tree rb_left;
       r \<leftarrow> rd h tree rb_right;
       left \<leftarrow> (if l \<noteq> NULL then do { lk \<leftarrow> rd h l key; print_rbtree h l lk (- 1) } else Some []);
       right \<leftarrow> (if r \<noteq> NULL then do { rk \<leftarrow> rd h r key; print_rbtree h r rk 1 } else Some []);
       Some ((if direction = 0 then Is_root k
              else Is_child k (if b then ''B'' else ''R'') k (if direction = 1 then ''right'' else ''left''))
             # left @ right)
     } else Some [])"

definition my_print :: "pool_tree \<Rightarrow> print_line list option" where
  "my_print s = (if snd s \<noteq> NULL then do {
       k \<leftarrow> rd (fst s) (snd s) key;
       print_rbtree (fst s) (snd s) k 0
     } else Some [])"

fun report_rows :: "nat \<Rightarrow> u32 list \<Rightarrow> u32 list \<Rightarrow> u32 list \<Rightarrow> (nat \<times> u32 \<times> u32 \<times> u32 \<times> u32) list option" where
  "report_rows i (len # lens) (tot # tots) (used # useds) =
     (if tot = 0 then None
      else do {
        rows \<leftarrow> report_rows (Suc i) lens tots useds;
        Some ((i, len, tot, used, used * 100 div tot) # rows)
      })"
| "report_rows i lens tots useds = Some []"

definition buffer_runtime_print :: "mem \<Rightarrow> (nat \<times> u32 \<times> u32 \<times> u32 \<times> u32) list option" where
  "buffer_runtime_print m = report_rows 0 (block_len (g_memory_pool m))
     (block_total_count (g_memory_pool m)) (block_used_count (g_memory_pool m))"

end
