(* ===== verification/MemIndex.thy ===== *)
theory MemIndex
  imports MemPool
begin

text \<open>
  The two trees of the memory pool as an index of nodes by block size. \<open>index h root xs\<close> says that
  the red-black tree at \<open>root\<close> holds the nodes \<open>xs\<close> in ascending order of their signed keys. The
  locale \<open>block_index\<close> states what the pool relies on: insertion is \<open>insort_key\<close>, the search finds
  the first node that is large enough, removal takes out one node, and each of them leaves every
  cell outside the tree alone. The functions of the source provide it.
\<close>

definition skey :: "my_node heap \<Rightarrow> addr \<Rightarrow> int" where
  "skey h a = (case h a of None \<Rightarrow> 0 | Some n \<Rightarrow> sint (key n))"

definition node_test :: "my_node heap \<Rightarrow> (my_node \<Rightarrow> bool) \<Rightarrow> addr \<Rightarrow> bool" where
  "node_test h test a = (case h a of None \<Rightarrow> False | Some n \<Rightarrow> test n)"

definition found :: "addr option \<Rightarrow> addr" where
  "found x = (case x of None \<Rightarrow> NULL | Some a \<Rightarrow> a)"

definition index :: "my_node heap \<Rightarrow> addr \<Rightarrow> addr list \<Rightarrow> bool" where
  "index h root xs \<longleftrightarrow> (\<exists>t. rep (h, root) t \<and> red_black t \<and> inorder t = xs \<and> sorted (map (skey h) xs))"

subsection \<open>Fields outside the tree links\<close>

lemma key_more: "rb_node.more n = rb_node.more n' \<Longrightarrow> key n = key (n' :: my_node)"
  by (cases n; cases n') auto

lemma memoryblock_more: "rb_node.more n = rb_node.more n' \<Longrightarrow> memoryblock n = memoryblock (n' :: my_node)"
  by (cases n; cases n') auto

lemma only_links_fields:
  fixes h h' :: "my_node heap"
  assumes "only_links h h' A"
  shows "map_option key (h' a) = map_option key (h a)"
    "map_option memoryblock (h' a) = map_option memoryblock (h a)"
proof -
  have "map_option rb_node.more (h' a) = map_option rb_node.more (h a)"
    using assms by (simp add: only_links_def)
  then show "map_option key (h' a) = map_option key (h a)"
    "map_option memoryblock (h' a) = map_option memoryblock (h a)"
    by (cases "h a"; cases "h' a"; auto dest: key_more memoryblock_more)+
qed

lemma only_links_dom: "only_links h h' A \<Longrightarrow> h' a = None \<longleftrightarrow> h a = None"
  unfolding only_links_def by (metis option.map_disc_iff)

lemma skey_map: "skey h a = (case map_option key (h a) of None \<Rightarrow> 0 | Some k \<Rightarrow> sint k)"
  by (cases "h a") (auto simp: skey_def)

lemma only_links_skey: "only_links h h' A \<Longrightarrow> skey h' = skey h"
  by (rule ext) (simp add: skey_map only_links_fields)

lemma skey_Some [simp]: "h a = Some n \<Longrightarrow> skey h a = sint (key n)"
  by (simp add: skey_def)

subsection \<open>Insertion\<close>

lemma insort_key_while:
  "insort_key f x xs = takeWhile (\<lambda>y. f y < f x) xs @ x # dropWhile (\<lambda>y. f y < f x) xs"
  by (induction xs) (auto simp: not_less)

lemma read_hole:
  assumes z: "zrep s t fs"
  shows "read_link (hole fs) s = Some (root_of t)"
proof (cases fs rule: hole.cases)
  case 1
  then show ?thesis using z by (simp add: read_link_def zrep_def)
next
  case (2 c a r fs')
  then show ?thesis using z zrep_reads(1) [of s c t a r fs'] by (simp add: read_link_def zrep_up)
next
  case (3 c l a fs')
  then show ?thesis using z zrep_reads(2) [of s c l a t fs'] by (simp add: read_link_def zrep_up)
qed

lemma take_drop_left:
  "sorted (xs @ a # ys) \<Longrightarrow> k \<le> a \<Longrightarrow>
   takeWhile (\<lambda>y. y < k) (xs @ a # ys) = takeWhile (\<lambda>y. y < k) xs \<and>
   dropWhile (\<lambda>y. y < k) (xs @ a # ys) = dropWhile (\<lambda>y. y < k) xs @ a # (ys :: int list)"
  by (induction xs) auto

lemma while_left:
  assumes "(k :: int) \<le> f a"
  shows "takeWhile (\<lambda>y. f y < k) (xs @ a # ys) = takeWhile (\<lambda>y. f y < k) xs"
    "dropWhile (\<lambda>y. f y < k) (xs @ a # ys) = dropWhile (\<lambda>y. f y < k) xs @ a # ys"
  using assms by (induction xs) auto

lemma while_right:
  assumes "(f a :: int) < k" "sorted (map f (xs @ a # ys))"
  shows "takeWhile (\<lambda>y. f y < k) (xs @ a # ys) = xs @ a # takeWhile (\<lambda>y. f y < k) ys"
    "dropWhile (\<lambda>y. f y < k) (xs @ a # ys) = dropWhile (\<lambda>y. f y < k) ys"
  using assms by (induction xs) (auto simp: sorted_append)

lemma insert_descend_ok:
  "zrep s t fs \<Longrightarrow> sorted (map (skey (fst s)) (inorder t)) \<Longrightarrow>
   \<exists>gs. insert_descend k (hole fs) (parent_of fs) s = Some (hole gs, parent_of gs) \<and>
     plug Leaf gs = plug t fs \<and>
     before gs = before fs @ takeWhile (\<lambda>a. skey (fst s) a < sint k) (inorder t) \<and>
     behind gs = dropWhile (\<lambda>a. skey (fst s) a < sint k) (inorder t) @ behind fs"
proof (induction t arbitrary: fs)
  case Leaf
  then show ?case using read_hole [OF Leaf.prems(1)]
    by (intro exI [of _ fs]) (subst insert_descend.simps, simp)
next
  case (Node c l a r)
  obtain n where n: "fst s a = Some n" "a \<noteq> NULL"
    using Node.prems(1) by (auto simp: zrep_def elim: node_isE)
  have rk: "rd (fst s) a key = Some (key n)" using n by simp
  have step: "insert_descend k (hole fs) (parent_of fs) s =
      (if sint k \<le> sint (key n) then insert_descend k (Link_left a) a s
       else insert_descend k (Link_right a) a s)"
    using read_hole [OF Node.prems(1)] n rk by (subst insert_descend.simps) simp
  show ?case
  proof (cases "sint k \<le> sint (key n)")
    case True
    have z: "zrep s l (LeftF c a r # fs)" using Node.prems(1) by (simp add: zrep_up)
    have "sorted (map (skey (fst s)) (inorder l))" using Node.prems(2) by (simp add: sorted_append)
    from Node.IH(1) [OF z this] obtain gs where
      "insert_descend k (Link_left a) a s = Some (hole gs, parent_of gs)"
      "plug Leaf gs = plug (Node c l a r) fs"
      "before gs = before fs @ takeWhile (\<lambda>a. skey (fst s) a < sint k) (inorder l)"
      "behind gs = dropWhile (\<lambda>a. skey (fst s) a < sint k) (inorder l) @ a # inorder r @ behind fs"
      by auto
    then show ?thesis using step True while_left [of "sint k" "skey (fst s)" a] n
      by (intro exI [of _ gs]) simp
  next
    case False
    have z: "zrep s r (RightF c l a # fs)" using Node.prems(1) by (simp add: zrep_up)
    have "sorted (map (skey (fst s)) (inorder r))" using Node.prems(2) by (simp add: sorted_append)
    from Node.IH(2) [OF z this] obtain gs where
      "insert_descend k (Link_right a) a s = Some (hole gs, parent_of gs)"
      "plug Leaf gs = plug (Node c l a r) fs"
      "before gs = before fs @ inorder l @ a # takeWhile (\<lambda>a. skey (fst s) a < sint k) (inorder r)"
      "behind gs = dropWhile (\<lambda>a. skey (fst s) a < sint k) (inorder r) @ behind fs"
      by auto
    then show ?thesis
      using step False while_right [of "skey (fst s)" a "sint k" "inorder l" "inorder r"] n Node.prems(2)
      by (intro exI [of _ gs]) simp
  qed
qed

lemma index_insert:
  assumes x: "index h root xs" and n: "h a = Some n" "a \<noteq> NULL" "ptr_ok a" "a \<notin> set xs"
  shows "\<exists>h' root'. insertMemBlockNode a (h, root) = Some (h', root') \<and>
    index h' root' (insort_key (skey h) a xs) \<and> only_links h h' (insert a (set xs))"
proof -
  obtain t where t: "rep (h, root) t" "red_black t" "inorder t = xs" "sorted (map (skey h) xs)"
    using x by (auto simp: index_def)
  obtain gs where gs: "insert_descend (key n) Link_root NULL (h, root) = Some (hole gs, parent_of gs)"
      "plug Leaf gs = t" "before gs = takeWhile (\<lambda>b. skey h b < skey h a) xs"
      "behind gs = dropWhile (\<lambda>b. skey h b < skey h a) xs"
    using insert_descend_ok [OF t(1), of "key n"] t(3,4) n(1) by auto
  have z: "zrep (h, root) Leaf gs" using t(1) gs(2) rep_plug by metis
  have na: "a \<notin> set (before gs @ behind gs)" using gs n(4) by (auto dest: set_takeWhileD set_dropWhileD)
  have rb: "red_black (plug Leaf gs)" using t(2) gs(2) by simp
  have ha: "fst (h, root) a = Some n" using n(1) by simp
  obtain s1 s2 t' where 1: "rb_link_node a (parent_of gs) (hole gs) (h, root) = Some s1"
      "rb_insert_color a s1 = Some s2" "rep s2 t'" "red_black t'"
      "inorder t' = before gs @ [a] @ behind gs" "only_links h (fst s2) (set (inorder t'))"
    using rb_insert_ok [OF z rb ha n(2,3) na] by (elim exE conjE) simp
  obtain h' root' where s2: "s2 = (h', root')" by (cases s2)
  have i: "inorder t' = insort_key (skey h) a xs" using 1(5) gs by (simp add: insort_key_while)
  moreover have "sorted (map (skey h') (insort_key (skey h) a xs))"
    using t(4) only_links_skey [OF 1(6)] s2 by (simp add: sorted_insort_key)
  ultimately have "index h' root' (insort_key (skey h) a xs)"
    using 1(3,4) s2 by (auto simp: index_def)
  moreover have "only_links h h' (insert a (set xs))" using 1(6) i s2 by (simp add: set_insort_key)
  moreover have "insertMemBlockNode a (h, root) = Some (h', root')"
    using n gs(1) 1(1,2) s2 by (simp add: insertMemBlockNode_def)
  ultimately show ?thesis by blast
qed

lemma index_erase:
  assumes x: "index h root xs" and a: "a \<in> set xs"
  shows "\<exists>h' root'. rb_erase a (h, root) = Some (h', root') \<and>
    index h' root' (remove1 a xs) \<and> only_links h h' (set (remove1 a xs))"
proof -
  obtain t where t: "rep (h, root) t" "red_black t" "inorder t = xs" "sorted (map (skey h) xs)"
    using x by (auto simp: index_def)
  have a': "a \<in> set (inorder t)" using a t(3) by simp
  obtain h' root' t' where 1: "rb_erase a (h, root) = Some (h', root')" "rep (h', root') t'" "red_black t'"
      "inorder t' = remove1 a xs" "only_links h h' (set (inorder t'))"
    using rb_erase_ok [OF t(1,2) a'] t(3) by auto
  have "sorted (map (skey h') (remove1 a xs))"
    unfolding only_links_skey [OF 1(5)] by (rule sorted_map_remove1 [OF t(4)])
  then show ?thesis using 1 by (auto simp: index_def)
qed

lemma index_frame:
  assumes x: "index h root xs" and same: "\<forall>a\<in>set xs. h' a = h a"
  shows "index h' root xs"
proof -
  obtain t where t: "rep (h, root) t" "red_black t" "inorder t = xs" "sorted (map (skey h) xs)"
    using x by (auto simp: index_def)
  have "tree_at h' q u = tree_at h q u" if "set (inorder u) \<subseteq> set xs" for q u
    using that same by (induction u arbitrary: q) auto
  then have "rep (h', root) t" using t by (simp add: zrep_def)
  moreover have "map (skey h') xs = map (skey h) xs" using same by (simp add: skey_def)
  then have "sorted (map (skey h') xs)" using t(4) by (simp only:)
  ultimately show ?thesis using t(2,3) unfolding index_def by blast
qed

lemma index_distinct: "index h root xs \<Longrightarrow> distinct xs"
  by (auto simp: index_def zrep_def)

lemma index_sorted: "index h root xs \<Longrightarrow> sorted (map (skey h) xs)"
  by (auto simp: index_def)

lemma index_empty [simp]: "index h NULL []"
  by (simp add: index_def zrep_def red_black_def exI [of _ Leaf])

lemma index_nodes:
  assumes "index h root xs" "a \<in> set xs"
  shows "a \<noteq> NULL" "ptr_ok a" "\<exists>n. h a = Some n"
proof -
  obtain t where t: "rep (h, root) t" "inorder t = xs" using assms(1) by (auto simp: index_def)
  then obtain c l r fs where "t = plug (Node c l a r) fs" using focus_on assms(2) by metis
  then have z: "zrep (h, root) (Node c l a r) fs" using t(1) rep_plug by metis
  show "a \<noteq> NULL" "ptr_ok a" using zrep_reads(9,10) [OF z] by auto
  show "\<exists>n. h a = Some n" using z by (auto simp: zrep_def elim: node_isE)
qed

subsection \<open>Searching\<close>

text \<open>The stack holds the ancestors the walk has left to the left.\<close>

fun lefts :: "frame list \<Rightarrow> addr list" where
  "lefts [] = []"
| "lefts (LeftF c a r # fs) = a # lefts fs"
| "lefts (RightF c l a # fs) = lefts fs"

lemma lefts_length: "length (lefts fs) \<le> length fs"
  by (induction fs rule: lefts.induct) auto

lemma height_plug: "length fs + height t \<le> height (plug t fs)"
proof (induction fs arbitrary: t)
  case (Cons f fs)
  have "length fs + height (up t f) \<le> height (plug (up t f) fs)" by (rule Cons.IH)
  moreover have "Suc (height t) \<le> height (up t f)" by (cases f) auto
  ultimately show ?case by simp
qed simp

lemma push_left_ok:
  "zrep s t fs \<Longrightarrow> height (plug t fs) \<le> MAXSIZE \<Longrightarrow>
   \<exists>gs. push_left (fst s) (lefts fs) (root_of t) = Some (lefts gs) \<and> plug Leaf gs = plug t fs \<and>
     before gs = before fs \<and> behind gs = inorder t @ behind fs"
proof (induction t arbitrary: fs)
  case Leaf
  then show ?case by (intro exI [of _ fs]) (subst push_left.simps, simp)
next
  case (Node c l a r)
  have z: "zrep s l (LeftF c a r # fs)" using Node.prems(1) by (simp add: zrep_up)
  obtain gs where gs: "push_left (fst s) (a # lefts fs) (root_of l) = Some (lefts gs)"
      "plug Leaf gs = plug (Node c l a r) fs" "before gs = before fs"
      "behind gs = inorder l @ a # inorder r @ behind fs"
    using Node.IH(1) [OF z] Node.prems(2) by auto
  have "length (lefts fs) < MAXSIZE"
    using lefts_length [of fs] height_plug [of fs "Node c l a r"] Node.prems(2) by simp
  then show ?case using gs zrep_reads [OF Node.prems(1)]
    by (intro exI [of _ gs]) (subst push_left.simps, simp)
qed

lemma lefts_pop:
  assumes "lefts gs = q # rest"
  obtains c l r fs where "plug Leaf gs = plug (Node c l q r) fs" "rest = lefts fs"
    "behind gs = q # inorder r @ behind fs"
proof -
  have "\<exists>c l r fs. plug t gs = plug (Node c l q r) fs \<and> rest = lefts fs \<and>
      behind gs = q # inorder r @ behind fs" for t
    using assms
  proof (induction gs arbitrary: t rule: lefts.induct)
    case (2 c a r fs)
    then show ?case by auto
  next
    case (3 c l a fs)
    then show ?case by auto
  qed simp
  then show ?thesis using that by blast
qed

lemma lefts_Nil: "lefts fs = [] \<Longrightarrow> behind fs = []"
  by (induction fs rule: lefts.induct) auto

lemma search_loop_ok:
  "zrep s t fs \<Longrightarrow> height (plug t fs) \<le> MAXSIZE \<Longrightarrow>
   search_loop (fst s) test (lefts fs) (root_of t) =
     Some (found (find (node_test (fst s) test) (inorder t @ behind fs)))"
proof (induction "length (inorder t @ behind fs)" arbitrary: t fs rule: less_induct)
  case less
  obtain gs where gs: "push_left (fst s) (lefts fs) (root_of t) = Some (lefts gs)"
      "plug Leaf gs = plug t fs" "behind gs = inorder t @ behind fs"
    using push_left_ok [OF less.prems] by blast
  show ?case
  proof (cases "lefts gs")
    case Nil
    then show ?thesis using gs lefts_Nil [OF Nil]
      by (subst search_loop.simps) (auto simp: found_def)
  next
    case (Cons q rest)
    obtain c l r fs' where q: "plug t fs = plug (Node c l q r) fs'" "rest = lefts fs'"
        "inorder t @ behind fs = q # inorder r @ behind fs'"
      using lefts_pop [OF Cons] gs by metis
    have z: "zrep s (Node c l q r) fs'" using less.prems(1) q(1) by (metis rep_plug)
    have zr: "zrep s r (RightF c l q # fs')" using z by (simp add: zrep_up)
    obtain n where n: "fst s q = Some n" "q \<noteq> NULL" using z by (auto simp: zrep_def elim: node_isE)
    have 1: "rd (fst s) q test = Some (test n)" "node_test (fst s) test q = test n"
      using n by (simp_all add: node_test_def)
    have ne: "lefts fs \<noteq> [] \<or> root_of t \<noteq> NULL"
    proof (rule ccontr)
      assume c: "\<not> ?thesis"
      then have "t = Leaf" using root_of_NULL [OF less.prems(1)] by simp
      then show False using c lefts_Nil [of fs] q(3) by simp
    qed
    have IH: "search_loop (fst s) test rest (root_of r) =
        Some (found (find (node_test (fst s) test) (inorder r @ behind fs')))"
      using less.hyps [OF _ zr] less.prems(2) q by simp
    have "search_loop (fst s) test (lefts fs) (root_of t) =
        (if test n then Some q else search_loop (fst s) test rest (root_of r))"
      using ne gs(1) Cons 1(1) zrep_reads [OF z] by (subst search_loop.simps) simp
    then show ?thesis unfolding q(3) using 1(2) IH by (simp add: found_def)
  qed
qed

lemma MAXSIZE_enough:
  assumes "red_black t" and "length (inorder t) < 2 ^ 50"
  shows "height t \<le> MAXSIZE"
proof -
  have "2 ^ height t \<le> (Suc (length (inorder t)))\<^sup>2" by (rule red_black_height [OF assms(1)])
  also have "\<dots> \<le> (2 ^ 50)\<^sup>2" using assms(2) by (intro power_mono) auto
  also have "\<dots> = (2::nat) ^ 100" by simp
  finally have "height t \<le> 100" by (rule power_le_imp_le_exp [rotated]) simp
  then show ?thesis by (simp add: MAXSIZE_def)
qed

lemma index_search:
  assumes "index h root xs" and "length xs < 2 ^ 50"
  shows "(if root \<noteq> NULL then search_loop h test [] root else Some NULL) =
    Some (found (find (node_test h test) xs))"
proof -
  obtain t where t: "rep (h, root) t" "red_black t" "inorder t = xs"
    using assms(1) by (auto simp: index_def)
  have "height t \<le> MAXSIZE" using MAXSIZE_enough t assms(2) by simp
  then show ?thesis
    using search_loop_ok [OF t(1), of test] t root_is_root [OF t(1)] root_of_NULL [OF t(1)]
    by (auto simp: found_def)
qed

lemma index_search_size:
  assumes "index h root xs" and "length xs < 2 ^ 50"
  shows "InorderSearchMemblockSize h root k = Some (found (find (\<lambda>a. sint k \<le> skey h a) xs))"
proof -
  have "find (node_test h (\<lambda>n. sint k \<le> sint (key n))) xs = find (\<lambda>a. sint k \<le> skey h a) xs"
    using index_nodes(3) [OF assms(1)] by (intro find_cong) (force simp: node_test_def skey_def split: option.split)+
  then show ?thesis using index_search [OF assms] by (simp add: InorderSearchMemblockSize_def)
qed

subsection \<open>The interface of the pool\<close>

locale block_index =
  fixes holds :: "my_node heap \<Rightarrow> addr \<Rightarrow> addr list \<Rightarrow> bool"
    and ins :: "addr \<Rightarrow> pool_tree \<Rightarrow> pool_tree option"
    and del :: "addr \<Rightarrow> pool_tree \<Rightarrow> pool_tree option"
    and search :: "my_node heap \<Rightarrow> addr \<Rightarrow> u32 \<Rightarrow> addr option"
  assumes ins: "holds h root xs \<Longrightarrow> h a = Some n \<Longrightarrow> a \<noteq> NULL \<Longrightarrow> ptr_ok a \<Longrightarrow> a \<notin> set xs \<Longrightarrow>
      \<exists>h' root'. ins a (h, root) = Some (h', root') \<and>
        holds h' root' (insort_key (skey h) a xs) \<and> only_links h h' (insert a (set xs))"
    and del: "holds h root xs \<Longrightarrow> a \<in> set xs \<Longrightarrow>
      \<exists>h' root'. del a (h, root) = Some (h', root') \<and>
        holds h' root' (remove1 a xs) \<and> only_links h h' (set (remove1 a xs))"
    and search: "holds h root xs \<Longrightarrow> length xs < 2 ^ 50 \<Longrightarrow>
      search h root k = Some (found (find (\<lambda>a. sint k \<le> skey h a) xs))"
    and frame: "holds h root xs \<Longrightarrow> \<forall>a\<in>set xs. h' a = h a \<Longrightarrow> holds h' root xs"
    and nodes: "holds h root xs \<Longrightarrow> a \<in> set xs \<Longrightarrow> a \<noteq> NULL \<and> ptr_ok a \<and> h a \<noteq> None"
    and keys_sorted: "holds h root xs \<Longrightarrow> sorted (map (skey h) xs)"
    and nodes_distinct: "holds h root xs \<Longrightarrow> distinct xs"
begin

text \<open>Two trees that share the heap and no node.\<close>

definition both :: "my_node heap \<Rightarrow> addr \<Rightarrow> addr list \<Rightarrow> addr \<Rightarrow> addr list \<Rightarrow> bool" where
  "both h f F u U \<longleftrightarrow> holds h f F \<and> holds h u U \<and> set F \<inter> set U = {}"

lemma both_sym: "both h f F u U \<Longrightarrow> both h u U f F"
  by (auto simp: both_def)

lemma both_ins:
  assumes b: "both h f F u U" and n: "h a = Some n" "a \<noteq> NULL" "ptr_ok a" "a \<notin> set F" "a \<notin> set U"
  obtains h' f' where "ins a (h, f) = Some (h', f')" "both h' f' (insort_key (skey h) a F) u U"
    "only_links h h' (insert a (set F))"
proof -
  obtain h' f' where 1: "ins a (h, f) = Some (h', f')" "holds h' f' (insort_key (skey h) a F)"
      "only_links h h' (insert a (set F))"
    using ins [of h f F a n] b n by (auto simp: both_def)
  have "\<forall>b\<in>set U. h' b = h b" using 1(3) b n by (auto simp: both_def intro: only_linksD)
  then have "holds h' u U" using frame b by (auto simp: both_def)
  then show ?thesis using that 1 b n by (auto simp: both_def set_insort_key)
qed

lemma both_del:
  assumes b: "both h f F u U" and a: "a \<in> set F"
  obtains h' f' where "del a (h, f) = Some (h', f')" "both h' f' (remove1 a F) u U"
    "only_links h h' (set (remove1 a F))"
proof -
  obtain h' f' where 1: "del a (h, f) = Some (h', f')" "holds h' f' (remove1 a F)"
      "only_links h h' (set (remove1 a F))"
    using del [of h f F a] b a by (auto simp: both_def)
  have "\<forall>b\<in>set U. h' b = h b"
    using 1(3) b set_remove1_subset [of a F] by (auto simp: both_def intro!: only_linksD [OF 1(3)])
  then have "holds h' u U" using frame b by (auto simp: both_def)
  moreover have "set (remove1 a F) \<inter> set U = {}" using b set_remove1_subset [of a F] by (auto simp: both_def)
  ultimately show ?thesis using that 1 by (auto simp: both_def)
qed

lemma both_frame:
  "both h f F u U \<Longrightarrow> (\<And>a. a \<in> set F \<union> set U \<Longrightarrow> h' a = h a) \<Longrightarrow> both h' f F u U"
  unfolding both_def by (meson UnCI frame)

text \<open>Moving a node from one tree to the other.\<close>

lemma both_move:
  assumes b: "both h f F u U" and a: "a \<in> set U"
  obtains h1 u1 h2 f2 where "del a (h, u) = Some (h1, u1)" "ins a (h1, f) = Some (h2, f2)"
    "both h2 f2 (insort_key (skey h) a F) u1 (remove1 a U)"
    "only_links h h2 (set F \<union> set U)"
proof -
  obtain h1 u1 where 1: "del a (h, u) = Some (h1, u1)" "both h1 u1 (remove1 a U) f F"
      "only_links h h1 (set (remove1 a U))"
    by (rule both_del [OF both_sym [OF b] a])
  have d: "a \<notin> set (remove1 a U)" "a \<notin> set F"
    using nodes_distinct b a by (auto simp: both_def)
  have "holds h u U" using b by (simp add: both_def)
  then obtain n where n: "h a = Some n" "a \<noteq> NULL" "ptr_ok a" using nodes [of h u U a] a by auto
  then have "h1 a = Some n" using only_linksD [OF 1(3) d(1)] by simp
  from both_ins [OF both_sym [OF 1(2)] this n(2,3) d(2,1)] obtain h2 f2
    where 2: "ins a (h1, f) = Some (h2, f2)" "both h2 f2 (insort_key (skey h1) a F) u1 (remove1 a U)"
      "only_links h1 h2 (insert a (set F))" by metis
  have "only_links h h2 (set F \<union> set U)"
    using a set_remove1_subset [of a U] by (intro only_links_both [OF 1(3) 2(3)]) auto
  then show ?thesis using that 1(1) 2 only_links_skey [OF 1(3)] by simp
qed

text \<open>When a tree holds a node of exactly the size asked for, the search finds one of that size.\<close>

lemma search_exact:
  assumes x: "holds h root xs" "length xs < 2 ^ 50" and e: "\<exists>a\<in>set xs. skey h a = sint k"
  obtains a where "search h root k = Some a" "a \<in> set xs" "skey h a = sint k"
proof -
  obtain b where b: "b \<in> set xs" "skey h b = sint k" using e by blast
  then obtain a where a: "find (\<lambda>a. sint k \<le> skey h a) xs = Some a"
    by (cases "find (\<lambda>a. sint k \<le> skey h a) xs") (auto simp: find_None_iff)
  obtain i where i: "i < length xs" "sint k \<le> skey h (xs ! i)" "a = xs ! i"
      "\<forall>j<i. \<not> sint k \<le> skey h (xs ! j)"
    using a by (auto simp: find_Some_iff)
  obtain j where j: "j < length xs" "b = xs ! j" using b(1) by (auto simp: in_set_conv_nth)
  have "i \<le> j" using i(4) j b(2) by (metis not_le order_refl)
  then have "skey h (xs ! i) \<le> skey h (xs ! j)"
    using sorted_nth_mono [OF keys_sorted [OF x(1)], of i j] i j by simp
  then show ?thesis using that [of a] search [OF x] a i j b by (simp add: found_def)
qed

end

interpretation bi: block_index index insertMemBlockNode rb_erase InorderSearchMemblockSize
proof
  fix h root xs a and n :: my_node and k h'
  assume x: "index h root xs"
  show "\<exists>h' root'. insertMemBlockNode a (h, root) = Some (h', root') \<and>
      index h' root' (insort_key (skey h) a xs) \<and> only_links h h' (insert a (set xs))"
    if "h a = Some n" "a \<noteq> NULL" "ptr_ok a" "a \<notin> set xs"
    using index_insert [OF x that] .
  show "\<exists>h' root'. rb_erase a (h, root) = Some (h', root') \<and>
      index h' root' (remove1 a xs) \<and> only_links h h' (set (remove1 a xs))" if "a \<in> set xs"
    using index_erase [OF x that] .
  show "InorderSearchMemblockSize h root k = Some (found (find (\<lambda>a. sint k \<le> skey h a) xs))"
    if "length xs < 2 ^ 50"
    using index_search_size [OF x that] .
  show "index h' root xs" if "\<forall>a\<in>set xs. h' a = h a" using index_frame [OF x that] .
  show "a \<noteq> NULL \<and> ptr_ok a \<and> h a \<noteq> None" if "a \<in> set xs" using index_nodes [OF x that] by auto
  show "sorted (map (skey h) xs)" by (rule index_sorted [OF x])
  show "distinct xs" by (rule index_distinct [OF x])
qed

end
