(* ===== verification/MemSpec.thy ===== *)
theory MemSpec
  imports MemIndex "HOL-Library.Multiset"
begin

text \<open>
  The pool functions over the index: the invariant of \<^verbatim>\<open>g_memory_pool\<close>, the list of handed-out
  nodes, and what \<^verbatim>\<open>buffer_pool_init\<close>, \<^verbatim>\<open>buffer_malloc\<close> and \<^verbatim>\<open>buffer_free\<close> do to them. The proofs use
  the trees only through the interface \<open>block_index\<close>.
\<close>

subsection \<open>Outcomes\<close>

text \<open>
  \<open>sat g r P\<close>: the run is defined, a normal return satisfies \<open>P\<close>, and under the condition \<open>g\<close>
  (enough memory) it does not exit.
\<close>

definition sat :: "bool \<Rightarrow> 'a run \<Rightarrow> ('a \<Rightarrow> bool) \<Rightarrow> bool" where
  "sat g r P \<longleftrightarrow> (case r of Undefined \<Rightarrow> False | Exit \<Rightarrow> \<not> g | Return x \<Rightarrow> P x)"

lemma sat_simps [simp]: "\<not> sat g Undefined P" "sat g Exit P \<longleftrightarrow> \<not> g" "sat g (Return x) P \<longleftrightarrow> P x"
  by (simp_all add: sat_def)

lemma sat_seq: "sat g m P \<Longrightarrow> (\<And>x. P x \<Longrightarrow> sat g (f x) Q) \<Longrightarrow> sat g (seq m f) Q"
  by (cases m) auto

lemma sat_mono: "sat g m P \<Longrightarrow> (g' \<Longrightarrow> g) \<Longrightarrow> (\<And>x. P x \<Longrightarrow> Q x) \<Longrightarrow> sat g' m Q"
  by (cases m) auto

definition plenty :: "nat \<Rightarrow> mem \<Rightarrow> bool" where
  "plenty k m \<longleftrightarrow> k \<le> length (arena m) \<and> NULL \<notin> set (arena m)"

subsection \<open>The handed-out list\<close>

text \<open>\<open>clist h p cs\<close>: from \<open>p\<close> the heap holds a null-ended list of the cells \<open>fst\<close> with the nodes \<open>snd\<close> of \<open>cs\<close>.\<close>

fun clist :: "list_node heap \<Rightarrow> addr \<Rightarrow> (addr \<times> addr) list \<Rightarrow> bool" where
  "clist h p [] \<longleftrightarrow> p = NULL"
| "clist h p ((c, n) # cs) \<longleftrightarrow> p = c \<and> c \<noteq> NULL \<and>
     (\<exists>cell. h c = Some cell \<and> my_node_ptr cell = n \<and> clist h (Next cell) cs)"

lemma clist_frame: "clist h p cs \<Longrightarrow> (\<And>c. c \<in> fst ` set cs \<Longrightarrow> h' c = h c) \<Longrightarrow> clist h' p cs"
proof (induction h p cs rule: clist.induct)
  case (2 h p c n cs)
  obtain cell where "h c = Some cell" "my_node_ptr cell = n" "clist h (Next cell) cs" "p = c" "c \<noteq> NULL"
    using "2.prems"(1) by auto
  then show ?case using "2.IH" [of cell] "2.prems"(2) by auto
qed simp

lemma clist_cells: "clist h p cs \<Longrightarrow> c \<in> fst ` set cs \<Longrightarrow> c \<noteq> NULL \<and> h c \<noteq> None"
  by (induction h p cs rule: clist.induct) force+

text \<open>The list with its head cell, as \<^verbatim>\<open>buffer_malloc\<close> returns it; the head carries no node.\<close>

definition headed :: "list_node heap \<Rightarrow> addr \<Rightarrow> (addr \<times> addr) list \<Rightarrow> bool" where
  "headed h l cs \<longleftrightarrow> (\<exists>n0. clist h l ((l, n0) # cs)) \<and> distinct (l # map fst cs)"

lemma list_tail_ok:
  "clist h p cs \<Longrightarrow> list_tail h q p = Some (if cs = [] then q else fst (last cs))"
proof (induction h p cs arbitrary: q rule: clist.induct)
  case (1 h p)
  then show ?case by (subst list_tail.simps) simp
next
  case (2 h p c n cs)
  obtain cell where "h c = Some cell" "clist h (Next cell) cs" "p = c" "c \<noteq> NULL" "my_node_ptr cell = n"
    using "2.prems"(1) by auto
  then show ?case using "2.IH" [of cell c] by (subst list_tail.simps) auto
qed

lemma clist_extend:
  "clist h p cs \<Longrightarrow> cs \<noteq> [] \<Longrightarrow> distinct (map fst cs) \<Longrightarrow> c \<notin> fst ` set cs \<Longrightarrow> c \<noteq> NULL \<Longrightarrow>
   h' (fst (last cs)) = map_option (Next_update (\<lambda>_. c)) (h (fst (last cs))) \<Longrightarrow>
   (\<And>d. d \<in> fst ` set cs \<Longrightarrow> d \<noteq> fst (last cs) \<Longrightarrow> h' d = h d) \<Longrightarrow>
   h' c = Some \<lparr>my_node_ptr = n, Next = NULL\<rparr> \<Longrightarrow> clist h' p (cs @ [(c, n)])"
proof (induction h p cs rule: clist.induct)
  case (2 h p d m cs)
  obtain dc where d: "h d = Some dc" "my_node_ptr dc = m" "clist h (Next dc) cs" "p = d" "d \<noteq> NULL"
    using "2.prems"(1) by auto
  show ?case
  proof (cases "cs = []")
    case True
    then show ?thesis using "2.prems" d by auto
  next
    case False
    have "d \<noteq> fst (last cs)" using "2.prems"(3) last_in_set [OF False] by force
    then have "h' d = Some dc" using "2.prems"(7) [of d] False d(1) by simp
    moreover have "clist h' (Next dc) (cs @ [(c, n)])"
      using d(1,2,3) False "2.prems" by (intro "2.IH") auto
    ultimately show ?thesis using d by auto
  qed
qed simp

text \<open>What \<^verbatim>\<open>malloc\<close> promises: addresses that are aligned and not in use.\<close>

definition arena_ok :: "mem \<Rightarrow> bool" where
  "arena_ok m \<longleftrightarrow> distinct (filter (\<lambda>a. a \<noteq> NULL) (arena m)) \<and>
     (\<forall>a\<in>set (arena m). a \<noteq> NULL \<longrightarrow> ptr_ok a \<and> nodes m a = None \<and> cells m a = None \<and> blocks m a = None)"

lemma InsertList_ok:
  assumes l: "headed (cells m) l cs" and ar: "arena_ok m"
  shows "InsertList l n m = Exit \<and> \<not> plenty 1 m \<or>
    (\<exists>h c as. InsertList l n m = Return (m\<lparr>cells := h, arena := as\<rparr>) \<and> headed h l (cs @ [(c, n)]) \<and>
       arena m = c # as \<and> c \<noteq> NULL \<and> dom h = insert c (dom (cells m)))"
proof (cases "fst (malloc m) = NULL")
  case True
  obtain n0 where "clist (cells m) l ((l, n0) # cs)" using l by (auto simp: headed_def)
  moreover have "\<not> plenty 1 m"
    using True by (cases "arena m") (auto simp: plenty_def malloc_def)
  ultimately show ?thesis using True list_tail_ok [of "cells m" l "(l, n0) # cs" NULL]
    by (auto simp: InsertList_def malloc_cell_def split_beta)
next
  case False
  then obtain c as where a: "arena m = c # as" "c \<noteq> NULL" by (cases "arena m") (auto simp: malloc_def)
  have c: "cells m c = None" using ar a by (auto simp: arena_ok_def)
  obtain n0 where L: "clist (cells m) l ((l, n0) # cs)" "distinct (l # map fst cs)"
    using l by (auto simp: headed_def)
  let ?L = "(l, n0) # cs"
  let ?t = "fst (last ?L)"
  have "?t \<in> fst ` set ?L" using last_in_set [of ?L] by force
  then obtain tc where t: "cells m ?t = Some tc" "?t \<noteq> NULL" using clist_cells [OF L(1)] by blast
  then have ne: "?t \<noteq> c" using c by auto
  have nc: "c \<notin> fst ` set ?L" using clist_cells [OF L(1)] c by blast
  let ?h = "(cells m)(?t \<mapsto> tc\<lparr>Next := c\<rparr>, c \<mapsto> \<lparr>my_node_ptr = n, Next = NULL\<rparr>)"
  have "clist ?h l (?L @ [(c, n)])"
    using L nc ne t(1) a(2) by (intro clist_extend [OF L(1)]) auto
  then have hd: "headed ?h l (cs @ [(c, n)])" using L(2) nc by (auto simp: headed_def)
  have "list_tail (cells m) NULL l = Some ?t" using list_tail_ok [OF L(1)] by simp
  then have "InsertList l n m = Return (m\<lparr>cells := ?h, arena := as\<rparr>)"
    using a t ne
    by (simp add: InsertList_def malloc_cell_def malloc_def)
  moreover have "dom ?h = insert c (dom (cells m))" using t(1) by auto
  ultimately show ?thesis using hd a by blast
qed

subsection \<open>The invariant of the pool\<close>

text \<open>
  \<open>core m F U X\<close>: the free tree holds the nodes \<open>F\<close>, the used tree the nodes \<open>U\<close>, and the nodes \<open>X\<close>
  are on their way from one to the other; no node is in two places, every node owns an allocated
  data block of its size and no two nodes share one. The bound keeps the \<^verbatim>\<open>int\<close> counters exact.
\<close>

definition block_of :: "my_node heap \<Rightarrow> addr \<Rightarrow> addr" where
  "block_of h a = (case h a of None \<Rightarrow> NULL | Some n \<Rightarrow> memoryblock n)"

definition owns_block :: "mem \<Rightarrow> addr \<Rightarrow> bool" where
  "owns_block m a \<longleftrightarrow> block_of (nodes m) a \<noteq> NULL \<and>
     map_option sint (blocks m (block_of (nodes m) a)) = Some (skey (nodes m) a)"

definition core :: "mem \<Rightarrow> addr list \<Rightarrow> addr list \<Rightarrow> addr list \<Rightarrow> bool" where
  "core m F U X \<longleftrightarrow>
     index (nodes m) (free_tree (g_memory_pool m)) F \<and>
     index (nodes m) (used_tree (g_memory_pool m)) U \<and>
     distinct (F @ U @ X) \<and>
     (\<forall>a\<in>set X. a \<noteq> NULL \<and> ptr_ok a \<and> nodes m a \<noteq> None) \<and>
     (\<forall>a\<in>set (F @ U @ X). owns_block m a) \<and>
     inj_on (block_of (nodes m)) (set (F @ U @ X)) \<and>
     arena_ok m \<and>
     length (F @ U @ X) + length (arena m) < 2 ^ 31"

text \<open>The counters: each column counts the nodes of its size, in both trees and in the used one.\<close>

definition count_size :: "my_node heap \<Rightarrow> u32 \<Rightarrow> addr list \<Rightarrow> nat" where
  "count_size h len xs = length (filter (\<lambda>a. skey h a = sint len) xs)"

definition columns :: "mem \<Rightarrow> addr list \<Rightarrow> addr list \<Rightarrow> bool" where
  "columns m F U \<longleftrightarrow> (let g = g_memory_pool m in
     length (block_len g) = MAX_COLUME_NUM \<and> length (block_total_count g) = MAX_COLUME_NUM \<and>
     length (block_used_count g) = MAX_COLUME_NUM \<and> distinct (block_len g) \<and>
     (\<forall>len\<in>set (block_len g). 0 < sint len) \<and>
     (\<forall>i<MAX_COLUME_NUM.
        unat (block_total_count g ! i) = count_size (nodes m) (block_len g ! i) (F @ U) \<and>
        unat (block_used_count g ! i) = count_size (nodes m) (block_len g ! i) U))"

definition pool_inv :: "mem \<Rightarrow> addr list \<Rightarrow> addr list \<Rightarrow> bool" where
  "pool_inv m F U \<longleftrightarrow> core m F U [] \<and> columns m F U"

lemma only_links_block:
  fixes h h' :: "my_node heap"
  assumes "only_links h h' A"
  shows "block_of h' = block_of h"
proof (rule ext)
  fix a
  show "block_of h' a = block_of h a"
    using only_links_fields(2) [OF assms, of a] by (cases "h a"; cases "h' a") (auto simp: block_of_def)
qed

lemma coreD:
  assumes "core m F U X"
  shows "index (nodes m) (free_tree (g_memory_pool m)) F" "index (nodes m) (used_tree (g_memory_pool m)) U"
    "distinct (F @ U @ X)" "\<forall>a\<in>set X. a \<noteq> NULL \<and> ptr_ok a \<and> nodes m a \<noteq> None"
    "\<forall>a\<in>set (F @ U @ X). owns_block m a" "inj_on (block_of (nodes m)) (set (F @ U @ X))"
    "arena_ok m" "length (F @ U @ X) + length (arena m) < 2 ^ 31"
  using assms unfolding core_def by blast+

lemma core_node:
  assumes c: "core m F U X" and a: "a \<in> set (F @ U @ X)"
  shows "a \<noteq> NULL \<and> ptr_ok a \<and> nodes m a \<noteq> None"
proof -
  consider "a \<in> set F" | "a \<in> set U" | "a \<in> set X" using a by auto
  then show ?thesis
  proof cases
    case 1
    then show ?thesis by (rule bi.nodes [OF coreD(1) [OF c]])
  next
    case 2
    then show ?thesis by (rule bi.nodes [OF coreD(2) [OF c]])
  next
    case 3
    then show ?thesis using coreD(4) [OF c] by blast
  qed
qed

text \<open>Relinking moves nodes between the three places and keeps everything else.\<close>

lemma core_relink:
  assumes c: "core m F U X" and o: "only_links (nodes m) h' A"
    and F: "index h' f' F'" and U: "index h' u' U'" and p: "mset (F' @ U' @ X') = mset (F @ U @ X)"
    and m': "nodes m' = h'" "blocks m' = blocks m" "cells m' = cells m" "arena m' = arena m"
      "free_tree (g_memory_pool m') = f'" "used_tree (g_memory_pool m') = u'"
  shows "core m' F' U' X'"
proof -
  have s: "set (F' @ U' @ X') = set (F @ U @ X)" by (rule mset_eq_setD [OF p])
  have l: "length (F' @ U' @ X') = length (F @ U @ X)" by (rule mset_eq_length [OF p])
  have d: "distinct (F' @ U' @ X')"
    using mset_eq_imp_distinct_iff [OF p] coreD(3) [OF c] by blast
  have N: "nodes m' a = None \<longleftrightarrow> nodes m a = None" for a
    using only_links_dom [OF o] m'(1) by simp
  have X: "\<forall>a\<in>set X'. a \<noteq> NULL \<and> ptr_ok a \<and> nodes m' a \<noteq> None"
  proof
    fix a assume "a \<in> set X'"
    then have "a \<in> set (F' @ U' @ X')" by simp
    then have "a \<in> set (F @ U @ X)" unfolding s .
    then show "a \<noteq> NULL \<and> ptr_ok a \<and> nodes m' a \<noteq> None" using core_node [OF c] N by blast
  qed
  have B: "block_of (nodes m') = block_of (nodes m)" "skey (nodes m') = skey (nodes m)"
    using only_links_block [OF o] only_links_skey [OF o] m'(1) by simp_all
  have O: "\<forall>a\<in>set (F' @ U' @ X'). owns_block m' a"
    using coreD(5) [OF c] unfolding s owns_block_def B m'(2) .
  have I: "inj_on (block_of (nodes m')) (set (F' @ U' @ X'))"
    using coreD(6) [OF c] unfolding s B .
  have A: "arena_ok m'" using coreD(7) [OF c] N m' by (simp add: arena_ok_def)
  have L: "length (F' @ U' @ X') + length (arena m') < 2 ^ 31"
    using coreD(8) [OF c] unfolding l m'(4) .
  show ?thesis unfolding core_def
    by (intro conjI) (rule X O I A L d | simp add: m' F U)+
qed

lemma core_cells:
  assumes "core m F U X" and "\<And>a. a \<in> set as \<Longrightarrow> a \<noteq> NULL \<Longrightarrow> h a = None"
    and "arena m = c # as"
  shows "core (m\<lparr>cells := h, arena := as\<rparr>) F U X"
  using assms by (auto simp: core_def owns_block_def arena_ok_def split: if_splits)

subsection \<open>The operations on the two trees\<close>

definition cols :: "mem \<Rightarrow> u32 list \<times> u32 list \<times> u32 list" where
  "cols m = (block_len (g_memory_pool m), block_total_count (g_memory_pool m), block_used_count (g_memory_pool m))"

definition same :: "mem \<Rightarrow> mem \<Rightarrow> bool" where
  "same m m' \<longleftrightarrow> skey (nodes m') = skey (nodes m) \<and> cells m' = cells m \<and> arena m' = arena m \<and> cols m' = cols m"

lemma core_bound: "core m F U X \<Longrightarrow> length F < 2 ^ 50"
  using coreD(8) [of m F U X] by simp

lemma get_exact:
  assumes c: "core m F U X" and e: "\<exists>a\<in>set F. skey (nodes m) a = sint len"
  shows "\<exists>a m'. getMemBlockSizeNode len m = Some (a, m') \<and> a \<in> set F \<and> a \<noteq> NULL \<and>
    skey (nodes m) a = sint len \<and> core m' (remove1 a F) U (a # X) \<and> same m m'"
proof -
  let ?h = "nodes m" and ?f = "free_tree (g_memory_pool m)" and ?u = "used_tree (g_memory_pool m)"
  have d: "set F \<inter> set U = {}" using coreD(3) [OF c] by auto
  then have b: "bi.both ?h ?f F ?u U" using coreD(1,2) [OF c] by (simp add: bi.both_def)
  obtain a where a: "InorderSearchMemblockSize ?h ?f len = Some a" "a \<in> set F" "skey ?h a = sint len"
    by (rule bi.search_exact [OF coreD(1) [OF c] core_bound [OF c] e])
  obtain h' f' where 1: "rb_erase a (?h, ?f) = Some (h', f')" "bi.both h' f' (remove1 a F) ?u U"
      "only_links ?h h' (set (remove1 a F))"
    by (rule bi.both_del [OF b a(2)])
  let ?m = "tree_update set_free_tree (h', f') m"
  have n: "a \<noteq> NULL" using core_node [OF c] a(2) by simp
  have "mset (remove1 a F @ U @ a # X) = mset (F @ U @ X)" using a(2) by simp
  then have "core ?m (remove1 a F) U (a # X)"
    using 1(2) by (intro core_relink [OF c 1(3)]) (auto simp: tree_update_def bi.both_def)
  moreover have "same m ?m" using only_links_skey [OF 1(3)] by (simp add: same_def tree_update_def cols_def)
  moreover have "getMemBlockSizeNode len m = Some (a, ?m)"
    using a(1) n 1(1) by (simp add: getMemBlockSizeNode_def free_state_def)
  ultimately show ?thesis using a n by blast
qed

lemma insert_used_ok:
  assumes c: "core m F U (a # X)"
  shows "\<exists>m'. insert_used a m = Some m' \<and> core m' F (insort_key (skey (nodes m)) a U) X \<and> same m m'"
proof -
  let ?h = "nodes m" and ?f = "free_tree (g_memory_pool m)" and ?u = "used_tree (g_memory_pool m)"
  have d: "set F \<inter> set U = {}" "a \<notin> set F" "a \<notin> set U" using coreD(3) [OF c] by auto
  then have b: "bi.both ?h ?u U ?f F" using coreD(1,2) [OF c] by (auto simp: bi.both_def)
  obtain n where n: "?h a = Some n" "a \<noteq> NULL" "ptr_ok a" using core_node [OF c, of a] by auto
  obtain h' u' where 1: "insertMemBlockNode a (?h, ?u) = Some (h', u')"
      "bi.both h' u' (insort_key (skey ?h) a U) ?f F" "only_links ?h h' (insert a (set U))"
    by (rule bi.both_ins [OF b n d(3,2)])
  let ?m = "tree_update set_used_tree (h', u') m"
  have "core ?m F (insort_key (skey ?h) a U) X"
    using 1(2) by (intro core_relink [OF c 1(3)]) (auto simp: tree_update_def bi.both_def)
  moreover have "same m ?m" using only_links_skey [OF 1(3)] by (simp add: same_def tree_update_def cols_def)
  ultimately show ?thesis using 1(1) by (simp add: insert_used_def used_state_def)
qed

lemma insert_free_ok:
  assumes c: "core m F U (a # X)"
  shows "\<exists>m'. insert_free a m = Some m' \<and> core m' (insort_key (skey (nodes m)) a F) U X \<and> same m m'"
proof -
  let ?h = "nodes m" and ?f = "free_tree (g_memory_pool m)" and ?u = "used_tree (g_memory_pool m)"
  have d: "set F \<inter> set U = {}" "a \<notin> set F" "a \<notin> set U" using coreD(3) [OF c] by auto
  then have b: "bi.both ?h ?f F ?u U" using coreD(1,2) [OF c] by (auto simp: bi.both_def)
  obtain n where n: "?h a = Some n" "a \<noteq> NULL" "ptr_ok a" using core_node [OF c, of a] by auto
  obtain h' f' where 1: "insertMemBlockNode a (?h, ?f) = Some (h', f')"
      "bi.both h' f' (insort_key (skey ?h) a F) ?u U" "only_links ?h h' (insert a (set F))"
    by (rule bi.both_ins [OF b n d(2,3)])
  let ?m = "tree_update set_free_tree (h', f') m"
  have "core ?m (insort_key (skey ?h) a F) U X"
    using 1(2) by (intro core_relink [OF c 1(3)]) (auto simp: tree_update_def bi.both_def)
  moreover have "same m ?m" using only_links_skey [OF 1(3)] by (simp add: same_def tree_update_def cols_def)
  ultimately show ?thesis using 1(1) by (simp add: insert_free_def free_state_def)
qed

lemma erase_used_ok:
  assumes c: "core m F U X" and a: "a \<in> set U"
  shows "\<exists>s. rb_erase a (used_state m) = Some s \<and>
    core (tree_update set_used_tree s m) F (remove1 a U) (a # X) \<and> same m (tree_update set_used_tree s m)"
proof -
  let ?h = "nodes m" and ?f = "free_tree (g_memory_pool m)" and ?u = "used_tree (g_memory_pool m)"
  have "set F \<inter> set U = {}" using coreD(3) [OF c] by auto
  then have b: "bi.both ?h ?u U ?f F" using coreD(1,2) [OF c] by (auto simp: bi.both_def)
  obtain h' u' where 1: "rb_erase a (?h, ?u) = Some (h', u')" "bi.both h' u' (remove1 a U) ?f F"
      "only_links ?h h' (set (remove1 a U))"
    by (rule bi.both_del [OF b a])
  let ?m = "tree_update set_used_tree (h', u') m"
  have "mset (F @ remove1 a U @ a # X) = mset (F @ U @ X)" using a by simp
  then have "core ?m F (remove1 a U) (a # X)"
    using 1(2) by (intro core_relink [OF c 1(3)]) (auto simp: tree_update_def bi.both_def)
  moreover have "same m ?m" using only_links_skey [OF 1(3)] by (simp add: same_def tree_update_def cols_def)
  ultimately show ?thesis using 1(1) by (auto simp: used_state_def)
qed

lemma core_arena:
  assumes c: "core m F U X" and a: "arena m = b # as"
  shows "core (m\<lparr>arena := as\<rparr>) F U X"
proof -
  have "arena_ok (m\<lparr>arena := as\<rparr>)"
    using coreD(7) [OF c] a by (auto simp: arena_ok_def split: if_splits)
  then show ?thesis using coreD [OF c] a by (simp add: core_def owns_block_def)
qed

text \<open>A cell outside the three places may be changed at will.\<close>

lemma core_outside:
  assumes c: "core m F U X" and a: "a \<notin> set (F @ U @ X)" "a \<notin> set (arena m)"
  shows "core (m\<lparr>nodes := (nodes m)(a := n)\<rparr>) F U X"
proof -
  let ?h = "(nodes m)(a := n)"
  have s: "skey ?h b = skey (nodes m) b" "block_of ?h b = block_of (nodes m) b" if "b \<in> set (F @ U @ X)" for b
    using that a(1) by (auto simp: skey_def block_of_def)
  have "index ?h (free_tree (g_memory_pool m)) F" "index ?h (used_tree (g_memory_pool m)) U"
    using index_frame coreD(1,2) [OF c] a(1) by auto
  moreover have "\<forall>b\<in>set X. b \<noteq> NULL \<and> ptr_ok b \<and> ?h b \<noteq> None" using coreD(4) [OF c] a(1) by auto
  moreover have "\<forall>b\<in>set (F @ U @ X). owns_block (m\<lparr>nodes := ?h\<rparr>) b"
    using coreD(5) [OF c] s by (simp add: owns_block_def)
  moreover have "inj_on (block_of ?h) (set (F @ U @ X))"
    using coreD(6) [OF c] s by (metis (no_types, lifting) inj_on_cong)
  moreover have "arena_ok (m\<lparr>nodes := ?h\<rparr>)" using coreD(7) [OF c] a(2) by (auto simp: arena_ok_def)
  ultimately show ?thesis using coreD(3,8) [OF c] by (simp add: core_def del: set_append)
qed

subsection \<open>New nodes\<close>

lemma new_block_ok:
  assumes c: "core m F U X"
  shows "\<exists>a m'. new_block_node len m = Some (a, m') \<and> cells m' = cells m \<and> cols m' = cols m \<and>
    (\<forall>k. plenty (k + 2) m \<longrightarrow> a \<noteq> NULL \<and> plenty k m') \<and>
    (\<forall>b\<in>set (F @ U @ X). skey (nodes m') b = skey (nodes m) b) \<and>
    (if a = NULL then core m' F U X
     else core m' F U (a # X) \<and> skey (nodes m') a = sint len)"
proof (cases "arena m")
  case Nil
  then show ?thesis using c by (simp add: new_block_node_def malloc_node_def malloc_def plenty_def)
next
  case (Cons a as)
  note ca = core_arena [OF c Cons]
  show ?thesis
  proof (cases "a = NULL")
    case True
    then show ?thesis using ca Cons by (auto simp: new_block_node_def malloc_node_def malloc_def cols_def plenty_def)
  next
    case False
    have fresh: "nodes m a = None" "ptr_ok a" "a \<notin> set as"
      using coreD(7) [OF c] Cons False by (auto simp: arena_ok_def)
    have out: "a \<notin> set (F @ U @ X)" using core_node [OF c] fresh(1) by blast
    let ?n0 = "\<lparr>rb_parent_color = 0, rb_right = 0, rb_left = 0, key = len, memoryblock = 0\<rparr> :: my_node"
    let ?m1 = "m\<lparr>arena := as, nodes := (nodes m)(a \<mapsto> ?n0)\<rparr>"
    have c1: "core ?m1 F U X" using core_outside [OF ca, of a "Some ?n0"] out fresh(3) by simp
    show ?thesis
    proof (cases as)
      case Nil
      let ?m = "?m1"
      have "new_block_node len m = Some (NULL, ?m)"
        using Cons Nil False by (simp add: new_block_node_def malloc_node_def malloc_block_def malloc_def)
      then show ?thesis using c1 out Cons Nil by (auto simp: cols_def skey_def plenty_def)
    next
      case B: (Cons b bs)
      note c2 = core_arena [OF c1, of b bs]
      show ?thesis
      proof (cases "b = NULL")
        case True
        let ?m = "?m1\<lparr>arena := bs\<rparr>"
        have "new_block_node len m = Some (NULL, ?m)"
          using Cons B False True
          by (simp add: new_block_node_def malloc_node_def malloc_block_def malloc_def)
        then show ?thesis using c2 out Cons B True by (auto simp: cols_def skey_def plenty_def)
      next
        case False': False
        let ?n = "?n0\<lparr>memoryblock := b\<rparr>"
        let ?m = "m\<lparr>arena := bs, nodes := (nodes m)(a \<mapsto> ?n), blocks := (blocks m)(b \<mapsto> len)\<rparr>"
        have run: "new_block_node len m = Some (a, ?m)"
          using Cons B False False'
          by (simp add: new_block_node_def malloc_node_def malloc_block_def malloc_def)
        have fb: "blocks m b = None" "b \<notin> set bs" "a \<notin> set bs" "b \<noteq> a"
          using coreD(7) [OF c] Cons B False False' by (auto simp: arena_ok_def)
        have "core (m\<lparr>arena := bs, nodes := (nodes m)(a \<mapsto> ?n)\<rparr>) F U X"
          using core_outside [OF c2, of a "Some ?n"] out fb(3) B by simp
        then have c3: "core (m\<lparr>arena := bs, nodes := (nodes m)(a \<mapsto> ?n)\<rparr>) F U X" (is "core ?m3 F U X") .
        have ob: "block_of (nodes ?m3) x \<noteq> b" if "x \<in> set (F @ U @ X)" for x
          using bspec [OF coreD(5) [OF c3] that] fb(1) by (auto simp: owns_block_def)
        have "core ?m F U (a # X)"
          unfolding core_def
        proof (intro conjI)
          show "\<forall>x\<in>set (F @ U @ a # X). owns_block ?m x"
            using coreD(5) [OF c3] ob False' by (auto simp: owns_block_def block_of_def skey_def)
          show "inj_on (block_of (nodes ?m)) (set (F @ U @ a # X))"
          proof -
            have "inj_on f (insert a S)"
              if "inj_on f S" "f a = b" "\<And>x. x \<in> S \<Longrightarrow> f x \<noteq> b" for f :: "addr \<Rightarrow> addr" and S
              using that unfolding inj_on_def by (metis insert_iff)
            moreover have "block_of (nodes ?m3) a = b" by (simp add: block_of_def)
            ultimately have "inj_on (block_of (nodes ?m3)) (insert a (set (F @ U @ X)))"
              using coreD(6) [OF c3] ob by blast
            then show ?thesis by simp
          qed
          show "arena_ok ?m" using coreD(7) [OF c3] fb(2) by (auto simp: arena_ok_def)
          show "length (F @ U @ a # X) + length (arena ?m) < 2 ^ 31"
            using coreD(8) [OF c] Cons B by simp
        qed (use coreD [OF c3] out False fresh(2) in auto)
        then show ?thesis using run False out Cons B by (auto simp: cols_def skey_def plenty_def)
      qed
    qed
  qed
qed


subsection \<open>The counters\<close>

lemma count_size_insort [simp]:
  "count_size h len (insort_key f a xs) = count_size h len (a # xs)"
proof -
  have "mset (insort_key f a xs) = mset (a # xs)" by simp
  then have "mset (filter P (insort_key f a xs)) = mset (filter P (a # xs))" for P
    by (simp only: mset_filter)
  then show ?thesis unfolding count_size_def by (rule mset_eq_length)
qed

lemma count_size_mset:
  "mset xs = mset ys \<Longrightarrow> count_size h len xs = count_size h len ys"
  unfolding count_size_def by (metis mset_eq_length mset_filter)

lemma count_size_append [simp]: "count_size h len (xs @ ys) = count_size h len xs + count_size h len ys"
  by (simp add: count_size_def)

lemma count_size_Cons [simp]:
  "count_size h len (a # xs) = (if skey h a = sint len then 1 else 0) + count_size h len xs"
  by (simp add: count_size_def)

lemma count_size_le: "count_size h len xs \<le> length xs"
  by (simp add: count_size_def)

lemma count_size_cong:
  "(\<And>a. a \<in> set xs \<Longrightarrow> skey h' a = skey h a) \<Longrightarrow> count_size h' len xs = count_size h len xs"
  unfolding count_size_def by (metis (mono_tags, lifting) filter_cong)

lemma count_size_pos: "0 < count_size h len xs \<longleftrightarrow> (\<exists>a\<in>set xs. skey h a = sint len)"
  by (auto simp: count_size_def filter_empty_conv)

lemma columnsD:
  assumes "columns m F U"
  shows "length (block_len (g_memory_pool m)) = MAX_COLUME_NUM"
    "length (block_total_count (g_memory_pool m)) = MAX_COLUME_NUM"
    "length (block_used_count (g_memory_pool m)) = MAX_COLUME_NUM"
    "distinct (block_len (g_memory_pool m))"
    "\<And>i. i < MAX_COLUME_NUM \<Longrightarrow> 0 < sint (block_len (g_memory_pool m) ! i)"
    "\<And>i. i < MAX_COLUME_NUM \<Longrightarrow> unat (block_total_count (g_memory_pool m) ! i) =
       count_size (nodes m) (block_len (g_memory_pool m) ! i) (F @ U)"
    "\<And>i. i < MAX_COLUME_NUM \<Longrightarrow> unat (block_used_count (g_memory_pool m) ! i) =
       count_size (nodes m) (block_len (g_memory_pool m) ! i) U"
  using assms by (simp_all add: columns_def Let_def)

text \<open>Only the counters and the sizes of the nodes in the trees matter.\<close>

lemma columns_cong:
  assumes c: "columns m F U" and e: "cols m' = cols m" "\<forall>b\<in>set (F @ U). skey (nodes m') b = skey (nodes m) b"
    and p: "mset F' = mset F" "mset U' = mset U"
  shows "columns m' F' U'"
proof -
  have 1: "count_size (nodes m') l F' = count_size (nodes m) l F" for l
    using count_size_mset [OF p(1)] count_size_cong [of F "nodes m'" "nodes m"] e(2) by simp
  have 2: "count_size (nodes m') l U' = count_size (nodes m) l U" for l
    using count_size_mset [OF p(2)] count_size_cong [of U "nodes m'" "nodes m"] e(2) by simp
  show ?thesis using c e(1) 1 2 by (simp add: columns_def Let_def cols_def)
qed

lemma unat_incr: "unat (w :: u32) < 2 ^ 31 \<Longrightarrow> unat (w + 1) = Suc (unat w)"
proof -
  assume "unat w < 2 ^ 31"
  then have "unat w + unat (1 :: u32) < 2 ^ 32" by simp
  then show ?thesis by (simp add: unat_word_ariths)
qed

lemma sint_inj: "sint (x :: u32) = sint y \<longleftrightarrow> x = y"
proof
  assume "sint x = sint y"
  then have "(of_int (sint x) :: u32) = of_int (sint y)" by (simp only:)
  then show "x = y" by (simp only: of_int_sint scast_id)
qed simp

text \<open>A node of a column's size has moved to the used tree (\<open>d = 0\<close>) or been added to it (\<open>d = 1\<close>).\<close>

lemma columns_step:
  assumes c: "columns m F U" and i: "i < MAX_COLUME_NUM"
    and m': "block_len (g_memory_pool m') = block_len (g_memory_pool m)"
      "block_used_count (g_memory_pool m') =
         (block_used_count (g_memory_pool m))[i := block_used_count (g_memory_pool m) ! i + 1]"
      "block_total_count (g_memory_pool m') =
         (if d then (block_total_count (g_memory_pool m))[i := block_total_count (g_memory_pool m) ! i + 1]
          else block_total_count (g_memory_pool m))"
    and k: "skey (nodes m') a = sint (block_len (g_memory_pool m) ! i)"
      "\<forall>b\<in>set (F @ U). skey (nodes m') b = skey (nodes m) b"
    and p: "mset U' = mset (a # U)" "mset (F' @ U') = (if d then mset (a # F @ U) else mset (F @ U))"
    and b: "length (F' @ U') < 2 ^ 31"
  shows "columns m' F' U'"
proof -
  let ?l = "block_len (g_memory_pool m)"
  have U: "count_size (nodes m') l U = count_size (nodes m) l U"
    "count_size (nodes m') l (F @ U) = count_size (nodes m) l (F @ U)" for l
    using k(2) count_size_cong [of U "nodes m'" "nodes m"] count_size_cong [of F "nodes m'" "nodes m"]
    by simp_all
  have e: "skey (nodes m') a = sint (?l ! j) \<longleftrightarrow> j = i" if "j < MAX_COLUME_NUM" for j
    using k(1) that i columnsD(1,4) [OF c] by (auto simp: nth_eq_iff_index_eq sint_inj)
  have used: "count_size (nodes m') (?l ! j) U' = (if j = i then 1 else 0) + count_size (nodes m) (?l ! j) U"
    if "j < MAX_COLUME_NUM" for j
    using count_size_mset [OF p(1), of "nodes m'" "?l ! j"] e [OF that] U(1) by simp
  have all: "count_size (nodes m') (?l ! j) (F' @ U') =
      (if d \<and> j = i then 1 else 0) + count_size (nodes m) (?l ! j) (F @ U)" if "j < MAX_COLUME_NUM" for j
  proof (cases d)
    case True
    then have "mset (F' @ U') = mset (a # F @ U)" using p(2) by simp
    then show ?thesis
      using count_size_mset [of "F' @ U'" "a # F @ U" "nodes m'" "?l ! j"] e [OF that] U(2) True by simp
  next
    case False
    then have "mset (F' @ U') = mset (F @ U)" using p(2) by simp
    then have "count_size (nodes m') (?l ! j) (F' @ U') = count_size (nodes m') (?l ! j) (F @ U)"
      by (rule count_size_mset)
    then show ?thesis using U(2) [of "?l ! j"] False by simp
  qed
  have bu: "unat (block_used_count (g_memory_pool m) ! i) < 2 ^ 31"
    using used [OF i] columnsD(7) [OF c i] count_size_le [of "nodes m'" "?l ! i" U'] b by simp
  have bt: "d \<Longrightarrow> unat (block_total_count (g_memory_pool m) ! i) < 2 ^ 31"
    using all [OF i] columnsD(6) [OF c i] count_size_le [of "nodes m'" "?l ! i" "F' @ U'"] b by simp
  show ?thesis
    unfolding columns_def Let_def
  proof (intro conjI allI impI)
    fix j assume j: "j < MAX_COLUME_NUM"
    show "unat (block_total_count (g_memory_pool m') ! j) =
        count_size (nodes m') (block_len (g_memory_pool m') ! j) (F' @ U')"
      using all [OF j] m' columnsD [OF c] j i unat_incr [OF bt]
      by (simp add: nth_list_update)
    show "unat (block_used_count (g_memory_pool m') ! j) =
        count_size (nodes m') (block_len (g_memory_pool m') ! j) U'"
      using used [OF j] m' columnsD [OF c] j i unat_incr [OF bu]
      by (simp add: nth_list_update)
  qed (use c m' in \<open>auto simp: columns_def Let_def\<close>)
qed


subsection \<open>Handing out nodes\<close>

text \<open>
  From \<open>m\<close> to \<open>m'\<close> the nodes of \<open>ds\<close>, of the sizes \<open>ns\<close>, have been appended to the list at \<open>l\<close> and put
  into the used tree; each was free or is new. At most three allocations were made for each.
\<close>

definition handed ::
    "addr \<Rightarrow> mem \<Rightarrow> addr list \<Rightarrow> addr list \<Rightarrow> (addr \<times> addr) list \<Rightarrow>
     mem \<Rightarrow> addr list \<Rightarrow> addr list \<Rightarrow> (addr \<times> addr) list \<Rightarrow> int list \<Rightarrow> bool" where
  "handed l m F U cs m' F' U' ds ns \<longleftrightarrow>
     pool_inv m' F' U' \<and> headed (cells m') l (cs @ ds) \<and>
     map (skey (nodes m')) (map snd ds) = ns \<and>
     mset U' = mset U + mset (map snd ds) \<and>
     mset F' \<subseteq># mset F \<and> mset F \<subseteq># mset F' + mset (map snd ds) \<and>
     (\<forall>b\<in>set (F @ U). skey (nodes m') b = skey (nodes m) b) \<and>
     block_len (g_memory_pool m') = block_len (g_memory_pool m) \<and>
     (\<forall>k. plenty (k + 3 * length ds) m \<longrightarrow> plenty k m')"

lemma handed_refl: "pool_inv m F U \<Longrightarrow> headed (cells m) l cs \<Longrightarrow> handed l m F U cs m F U [] []"
  by (simp add: handed_def)

lemma handedD:
  assumes "handed l m F U cs m' F' U' ds ns"
  shows "pool_inv m' F' U'" "headed (cells m') l (cs @ ds)"
    "map (skey (nodes m')) (map snd ds) = ns"
    "mset U' = mset U + mset (map snd ds)"
    "mset F' \<subseteq># mset F" "mset F \<subseteq># mset F' + mset (map snd ds)"
    "\<And>b. b \<in> set (F @ U) \<Longrightarrow> skey (nodes m') b = skey (nodes m) b"
    "block_len (g_memory_pool m') = block_len (g_memory_pool m)"
    "\<And>k. plenty (k + 3 * length ds) m \<Longrightarrow> plenty k m'"
  using assms by (auto simp: handed_def)

lemma handed_trans:
  assumes 1: "handed l m F U cs m1 F1 U1 ds1 ns1" and 2: "handed l m1 F1 U1 (cs @ ds1) m2 F2 U2 ds2 ns2"
  shows "handed l m F U cs m2 F2 U2 (ds1 @ ds2) (ns1 @ ns2)"
proof -
  note d1 = handedD [OF 1] and d2 = handedD [OF 2]
  have U1: "set U1 = set U \<union> set (map snd ds1)"
    using mset_eq_setD [of U1 "U @ map snd ds1"] d1(4) by simp
  have "set F \<subseteq> set F1 \<union> set (map snd ds1)"
    using set_mset_mono [OF d1(6)] by simp
  then have s: "set (F @ U) \<subseteq> set (F1 @ U1)" using U1 by auto
  have e: "map (skey (nodes m2)) (map snd ds1) = map (skey (nodes m1)) (map snd ds1)"
    using d2(7) U1 by (intro map_cong refl) simp
  have n: "map (skey (nodes m2)) (map snd (ds1 @ ds2)) = ns1 @ ns2"
    unfolding map_append using e d1(3) d2(3) by (simp only:)
  have k: "skey (nodes m2) b = skey (nodes m) b" if "b \<in> set (F @ U)" for b
    using d2(7) [of b] d1(7) [OF that] s that by auto
  have p: "mset F2 \<subseteq># mset F" by (rule subset_mset.order_trans [OF d2(5) d1(5)])
  have "mset F1 + mset (map snd ds1) \<subseteq># (mset F2 + mset (map snd ds2)) + mset (map snd ds1)"
    using d2(6) by (rule subset_mset.add_right_mono)
  then have "mset F \<subseteq># (mset F2 + mset (map snd ds2)) + mset (map snd ds1)"
    by (rule subset_mset.order_trans [OF d1(6)])
  then have q: "mset F \<subseteq># mset F2 + mset (map snd (ds1 @ ds2))" by (simp add: ac_simps)
  have r: "plenty k m2" if "plenty (k + 3 * length (ds1 @ ds2)) m" for k
    using that by (intro d2(9) d1(9)) (simp add: algebra_simps)
  have u: "mset U2 = mset U + mset (map snd (ds1 @ ds2))" using d1(4) d2(4) by simp
  have h: "headed (cells m2) l (cs @ ds1 @ ds2)" using d2(2) by simp
  have b: "block_len (g_memory_pool m2) = block_len (g_memory_pool m)" using d1(8) d2(8) by simp
  show ?thesis
    unfolding handed_def by (intro conjI ballI allI impI) (fact d2(1) h n u p q b | erule k | erule r)+
qed

text \<open>Appending one node that has just entered the used tree.\<close>

lemma pool_invD: "pool_inv m F U \<Longrightarrow> core m F U [] \<and> columns m F U"
  by (simp add: pool_inv_def)

lemma core_insert_list:
  assumes c: "core m F U X" and l: "headed (cells m) l cs"
  shows "sat (plenty 1 m) (InsertList l a m) (\<lambda>m'. core m' F U X \<and> (\<exists>c. headed (cells m') l (cs @ [(c, a)])) \<and>
    nodes m' = nodes m \<and> cols m' = cols m \<and> (\<forall>k. plenty (k + 1) m \<longrightarrow> plenty k m'))"
proof -
  consider "InsertList l a m = Exit" "\<not> plenty 1 m"
    | h c as where "InsertList l a m = Return (m\<lparr>cells := h, arena := as\<rparr>)"
        "headed h l (cs @ [(c, a)])" "arena m = c # as" "c \<noteq> NULL" "dom h = insert c (dom (cells m))"
    using InsertList_ok [OF l coreD(7) [OF c]] by blast
  then show ?thesis
  proof cases
    case 2
    have "core (m\<lparr>cells := h, arena := as\<rparr>) F U X"
    proof -
      have "c \<notin> set as" using coreD(7) [OF c] 2 by (auto simp: arena_ok_def)
      then have "arena_ok (m\<lparr>cells := h, arena := as\<rparr>)"
        using coreD(7) [OF c] 2 by (auto simp: arena_ok_def set_eq_iff dom_def split: if_splits)
      then show ?thesis using coreD [OF c] 2(3) by (simp add: core_def owns_block_def)
    qed
    then show ?thesis using 2 by (auto simp: cols_def plenty_def)
  qed simp
qed

lemma core_same:
  assumes "core m F U X" and "nodes m' = nodes m" "blocks m' = blocks m" "cells m' = cells m"
    "arena m' = arena m" "free_tree (g_memory_pool m') = free_tree (g_memory_pool m)"
    "used_tree (g_memory_pool m') = used_tree (g_memory_pool m)"
  shows "core m' F U X"
  using assms by (simp add: core_def owns_block_def arena_ok_def)

lemma add_used_count_ok:
  "i < length (block_used_count (g_memory_pool m)) \<Longrightarrow>
   add_used_count i m = Some (m\<lparr>g_memory_pool := (g_memory_pool m)\<lparr>block_used_count :=
     (block_used_count (g_memory_pool m))[i := block_used_count (g_memory_pool m) ! i + 1]\<rparr>\<rparr>)"
  by (simp add: add_used_count_def)

lemma add_total_count_ok:
  "i < length (block_total_count (g_memory_pool m)) \<Longrightarrow>
   add_total_count i m = Some (m\<lparr>g_memory_pool := (g_memory_pool m)\<lparr>block_total_count :=
     (block_total_count (g_memory_pool m))[i := block_total_count (g_memory_pool m) ! i + 1]\<rparr>\<rparr>)"
  by (simp add: add_total_count_def)

lemma take_one:
  assumes inv: "pool_inv m F U" and i: "i < MAX_COLUME_NUM"
    and len: "len = block_len (g_memory_pool m) ! i" and l: "headed (cells m) l cs"
    and free: "0 < count_size (nodes m) len F"
  shows "\<exists>a m1. getMemBlockSizeNode len m = Some (a, m1) \<and> a \<noteq> NULL \<and>
    sat (plenty 1 m) (seq (InsertList l a m1) (\<lambda>m. lift (do { m \<leftarrow> insert_used a m; add_used_count i m })))
      (\<lambda>m'. \<exists>F' U' c. handed l m F U cs m' F' U' [(c, a)] [sint len] \<and> mset F = add_mset a (mset F'))"
proof -
  have c: "core m F U []" and cl: "columns m F U" using pool_invD [OF inv] by auto
  obtain a m1 where 1: "getMemBlockSizeNode len m = Some (a, m1)" "a \<in> set F" "a \<noteq> NULL"
      "skey (nodes m) a = sint len" "core m1 (remove1 a F) U [a]" "same m m1"
    using get_exact [OF c, of len] free count_size_pos by blast
  have l1: "headed (cells m1) l cs" and p1: "plenty k m1 = plenty k m" for k
    using l 1(6) by (simp_all add: same_def plenty_def)
  let ?F = "remove1 a F" and ?U = "insort_key (skey (nodes m)) a U"
  have fin: "sat (plenty 1 m) (lift (do { m \<leftarrow> insert_used a m2; add_used_count i m }))
      (\<lambda>m'. \<exists>F' U' c. handed l m F U cs m' F' U' [(c, a)] [sint len] \<and> mset F = add_mset a (mset F'))"
    if m2: "core m2 ?F U [a]" "headed (cells m2) l (cs @ [(cc, a)])" "nodes m2 = nodes m1"
      "cols m2 = cols m1" "\<And>k. plenty (k + 1) m1 \<Longrightarrow> plenty k m2" for m2 cc
  proof -
    obtain m3 where 3: "insert_used a m2 = Some m3" "core m3 ?F (insort_key (skey (nodes m2)) a U) []"
        "same m2 m3"
      using insert_used_ok [OF m2(1)] by blast
    have k: "skey (nodes m2) = skey (nodes m)" "skey (nodes m3) = skey (nodes m)" "cols m3 = cols m"
        "cells m3 = cells m2" "arena m3 = arena m2"
      using 1(6) 3(3) m2(3,4) by (simp_all add: same_def)
    let ?us = "(block_used_count (g_memory_pool m))[i := block_used_count (g_memory_pool m) ! i + 1]"
    let ?m = "m3\<lparr>g_memory_pool := (g_memory_pool m3)\<lparr>block_used_count := ?us\<rparr>\<rparr>"
    have run: "add_used_count i m3 = Some ?m"
      using add_used_count_ok [of i m3] columnsD(3) [OF cl] i k(3) by (simp add: cols_def)
    have core: "core ?m ?F ?U []" by (rule core_same [OF 3(2) [unfolded k(1)]]) simp_all
    have mF: "mset F = add_mset a (mset ?F)" using 1(2) by simp
    have col: "columns ?m ?F ?U"
    proof (rule columns_step [OF cl i, where d = False and a = a])
      show "length (?F @ ?U) < 2 ^ 31" using coreD(8) [OF core] by simp
    qed (use k(2,3) 1(4) len mF in \<open>simp_all add: cols_def\<close>)
    have "handed l m F U cs ?m ?F ?U [(cc, a)] [sint len]" (is ?H)
      unfolding handed_def pool_inv_def
    proof (intro conjI ballI allI impI)
      show "headed (cells ?m) l (cs @ [(cc, a)])" using m2(2) k(4) by simp
      show "plenty n ?m" if "plenty (n + 3 * length [(cc, a)]) m" for n
      proof -
        have "plenty (n + 1) m1" using that p1 by (simp add: plenty_def)
        then have "plenty n m2" by (rule m2(5))
        then show ?thesis using k(5) by (simp add: plenty_def)
      qed
    qed (use core col k 1(4) mF in \<open>simp_all add: cols_def\<close>)
    then have "?H \<and> mset F = add_mset a (mset ?F)" using mF by (rule conjI)
    then have "\<exists>F' U' c. handed l m F U cs ?m F' U' [(c, a)] [sint len] \<and> mset F = add_mset a (mset F')"
      by blast
    then show ?thesis using 3(1) run by simp
  qed
  have "sat (plenty 1 m) (InsertList l a m1) (\<lambda>m2. core m2 ?F U [a] \<and> (\<exists>c. headed (cells m2) l (cs @ [(c, a)])) \<and>
      nodes m2 = nodes m1 \<and> cols m2 = cols m1 \<and> (\<forall>k. plenty (k + 1) m1 \<longrightarrow> plenty k m2))"
    using core_insert_list [OF 1(5) l1] p1 by simp
  then have "sat (plenty 1 m) (seq (InsertList l a m1) (\<lambda>m. lift (do { m \<leftarrow> insert_used a m; add_used_count i m })))
      (\<lambda>m'. \<exists>F' U' c. handed l m F U cs m' F' U' [(c, a)] [sint len] \<and> mset F = add_mset a (mset F'))"
    by (rule sat_seq) (use fin in blast)
  then show ?thesis using 1 by blast
qed


lemma new_one:
  assumes c: "core m1 F U [a]" and cl: "columns m F U" and i: "i < MAX_COLUME_NUM"
    and len: "len = block_len (g_memory_pool m) ! i" "skey (nodes m1) a = sint len"
    and l: "headed (cells m1) l cs" and cm: "cols m1 = cols m"
    and keep: "\<forall>b\<in>set (F @ U). skey (nodes m1) b = skey (nodes m) b"
    and room: "\<And>k. plenty (k + 2) m \<Longrightarrow> plenty k m1"
  shows "sat (plenty 3 m) (seq (InsertList l a m1) (\<lambda>m.
      lift (do { m \<leftarrow> insert_used a m; m \<leftarrow> add_used_count i m; add_total_count i m })))
    (\<lambda>m'. \<exists>U' c. handed l m F U cs m' F U' [(c, a)] [sint len])"
proof -
  let ?U = "insort_key (skey (nodes m1)) a U"
  have fin: "sat (plenty 3 m) (lift (do { m \<leftarrow> insert_used a m2; m \<leftarrow> add_used_count i m; add_total_count i m }))
      (\<lambda>m'. \<exists>U' c. handed l m F U cs m' F U' [(c, a)] [sint len])"
    if m2: "core m2 F U [a]" "headed (cells m2) l (cs @ [(cc, a)])" "nodes m2 = nodes m1"
      "cols m2 = cols m1" "\<And>k. plenty (k + 1) m1 \<Longrightarrow> plenty k m2" for m2 cc
  proof -
    obtain m3 where 3: "insert_used a m2 = Some m3" "core m3 F (insort_key (skey (nodes m2)) a U) []"
        "same m2 m3"
      using insert_used_ok [OF m2(1)] by blast
    have k: "skey (nodes m2) = skey (nodes m1)" "skey (nodes m3) = skey (nodes m1)" "cols m3 = cols m"
        "cells m3 = cells m2" "arena m3 = arena m2"
      using 3(3) m2(3,4) cm by (simp_all add: same_def)
    let ?us = "(block_used_count (g_memory_pool m))[i := block_used_count (g_memory_pool m) ! i + 1]"
    let ?ts = "(block_total_count (g_memory_pool m))[i := block_total_count (g_memory_pool m) ! i + 1]"
    let ?m4 = "m3\<lparr>g_memory_pool := (g_memory_pool m3)\<lparr>block_used_count := ?us\<rparr>\<rparr>"
    let ?m = "?m4\<lparr>g_memory_pool := (g_memory_pool ?m4)\<lparr>block_total_count := ?ts\<rparr>\<rparr>"
    have run: "add_used_count i m3 = Some ?m4" "add_total_count i ?m4 = Some ?m"
      using add_used_count_ok [of i m3] add_total_count_ok [of i ?m4] columnsD(2,3) [OF cl] i k(3)
      by (simp_all add: cols_def)
    have core: "core ?m F ?U []" by (rule core_same [OF 3(2) [unfolded k(1)]]) simp_all
    have col: "columns ?m F ?U"
    proof (rule columns_step [OF cl i, where d = True and a = a])
      show "length (F @ ?U) < 2 ^ 31" using coreD(8) [OF core] by simp
    qed (use k(2,3) len keep in \<open>simp_all add: cols_def\<close>)
    have "handed l m F U cs ?m F ?U [(cc, a)] [sint len]"
      unfolding handed_def pool_inv_def
    proof (intro conjI ballI allI impI)
      show "headed (cells ?m) l (cs @ [(cc, a)])" using m2(2) k(4) by simp
      show "plenty n ?m" if "plenty (n + 3 * length [(cc, a)]) m" for n
      proof -
        have "plenty (n + 1 + 2) m" using that by (simp add: plenty_def)
        then have "plenty n m2" by (intro m2(5) room)
        then show ?thesis using k(5) by (simp add: plenty_def)
      qed
    qed (use core col k keep len in \<open>simp_all add: cols_def\<close>)
    then have "\<exists>U' c. handed l m F U cs ?m F U' [(c, a)] [sint len]" by blast
    then show ?thesis using 3(1) run by simp
  qed
  have r: "plenty 1 m1" if "plenty 3 m" by (rule room) (use that in \<open>simp add: numeral_3_eq_3\<close>)
  have "sat (plenty 3 m) (InsertList l a m1) (\<lambda>m2. core m2 F U [a] \<and> (\<exists>c. headed (cells m2) l (cs @ [(c, a)])) \<and>
      nodes m2 = nodes m1 \<and> cols m2 = cols m1 \<and> (\<forall>k. plenty (k + 1) m1 \<longrightarrow> plenty k m2))"
    by (rule sat_mono [OF core_insert_list [OF c l]]) (erule r, assumption)
  then show ?thesis by (rule sat_seq) (use fin in blast)
qed

lemma plenty_le: "plenty k m \<Longrightarrow> j \<le> k \<Longrightarrow> plenty j m"
  by (simp add: plenty_def)

lemma take_free_ok:
  "pool_inv m F U \<Longrightarrow> i < MAX_COLUME_NUM \<Longrightarrow> len = block_len (g_memory_pool m) ! i \<Longrightarrow>
   headed (cells m) l cs \<Longrightarrow> n \<le> count_size (nodes m) len F \<Longrightarrow>
   sat (plenty (3 * n) m) (take_free n len i l m)
     (\<lambda>m'. \<exists>F' U' ds. handed l m F U cs m' F' U' ds (replicate n (sint len)))"
proof (induction n arbitrary: m F U cs)
  case 0
  then show ?case using handed_refl by (auto intro!: exI)
next
  case (Suc n)
  obtain a m1 where 1: "getMemBlockSizeNode len m = Some (a, m1)" "a \<noteq> NULL"
    "sat (plenty 1 m) (seq (InsertList l a m1) (\<lambda>m. lift (do { m \<leftarrow> insert_used a m; add_used_count i m })))
      (\<lambda>m'. \<exists>F' U' c. handed l m F U cs m' F' U' [(c, a)] [sint len] \<and> mset F = add_mset a (mset F'))"
    using take_one [OF Suc.prems(1-4)] Suc.prems(5) by auto
  have step: "take_free (Suc n) len i l m =
      seq (seq (InsertList l a m1) (\<lambda>m. lift (do { m \<leftarrow> insert_used a m; add_used_count i m })))
        (take_free n len i l)"
    using 1(1,2) by simp
  show ?case
    unfolding step
  proof (rule sat_seq)
    show "sat (plenty (3 * Suc n) m)
      (seq (InsertList l a m1) (\<lambda>m. lift (do { m \<leftarrow> insert_used a m; add_used_count i m })))
      (\<lambda>m'. \<exists>F' U' c. handed l m F U cs m' F' U' [(c, a)] [sint len] \<and> mset F = add_mset a (mset F'))"
      using 1(3) by (rule sat_mono) (auto elim: plenty_le)
  next
    fix m2 assume "\<exists>F' U' c. handed l m F U cs m2 F' U' [(c, a)] [sint len] \<and> mset F = add_mset a (mset F')"
    then obtain F' U' c where h: "handed l m F U cs m2 F' U' [(c, a)] [sint len]" "mset F = add_mset a (mset F')"
      by blast
    note d = handedD [OF h(1)]
    have F: "set F' \<subseteq> set F" "a \<in> set F"
      using set_mset_mono [OF d(5)] mset_eq_setD [of F "a # F'"] h(2) by simp_all
    have "count_size (nodes m2) len F' = count_size (nodes m) len F'"
      using F(1) d(7) by (intro count_size_cong) auto
    moreover have "count_size (nodes m) len F = count_size (nodes m) len (a # F')"
      using h(2) by (intro count_size_mset) simp
    ultimately have n: "n \<le> count_size (nodes m2) len F'"
      using Suc.prems(5) by (simp split: if_splits)
    have "sat (plenty (3 * n) m2) (take_free n len i l m2)
       (\<lambda>m'. \<exists>F'' U'' ds. handed l m2 F' U' (cs @ [(c, a)]) m' F'' U'' ds (replicate n (sint len)))"
      by (rule Suc.IH [OF d(1) Suc.prems(2) _ d(2) n]) (use Suc.prems(3) d(8) in simp)
    then show "sat (plenty (3 * Suc n) m) (take_free n len i l m2)
       (\<lambda>m'. \<exists>F' U' ds. handed l m F U cs m' F' U' ds (replicate (Suc n) (sint len)))"
    proof (rule sat_mono)
      assume "plenty (3 * Suc n) m"
      then show "plenty (3 * n) m2" using d(9) [of "3 * n"] by (simp add: algebra_simps)
    next
      fix m' assume "\<exists>F'' U'' ds. handed l m2 F' U' (cs @ [(c, a)]) m' F'' U'' ds (replicate n (sint len))"
      then show "\<exists>F' U' ds. handed l m F U cs m' F' U' ds (replicate (Suc n) (sint len))"
        using handed_trans [OF h(1)] by fastforce
    qed
  qed
qed


lemma add_new_ok:
  "pool_inv m F U \<Longrightarrow> i < MAX_COLUME_NUM \<Longrightarrow> len = block_len (g_memory_pool m) ! i \<Longrightarrow>
   headed (cells m) l cs \<Longrightarrow>
   sat (plenty (3 * n) m) (add_new n len i l m)
     (\<lambda>(ok, m'). if ok then \<exists>F' U' ds. handed l m F U cs m' F' U' ds (replicate n (sint len))
                 else \<not> plenty (3 * n) m \<and> (\<exists>F' U'. pool_inv m' F' U'))"
proof (induction n arbitrary: m F U cs)
  case 0
  then show ?case using handed_refl by (auto intro!: exI)
next
  case (Suc n)
  have c: "core m F U []" and cl: "columns m F U" using pool_invD [OF Suc.prems(1)] by auto
  obtain a m1 where 1: "new_block_node len m = Some (a, m1)" "cells m1 = cells m" "cols m1 = cols m"
      "\<And>k. plenty (k + 2) m \<Longrightarrow> a \<noteq> NULL \<and> plenty k m1"
      "\<forall>b\<in>set (F @ U). skey (nodes m1) b = skey (nodes m) b"
      "if a = NULL then core m1 F U [] else core m1 F U [a] \<and> skey (nodes m1) a = sint len"
    using new_block_ok [OF c, of len] by auto
  show ?case
  proof (cases "a = NULL")
    case True
    have "columns m1 F U" by (rule columns_cong [OF cl 1(3,5)]) simp_all
    then have "pool_inv m1 F U" using 1(6) True by (simp add: pool_inv_def)
    moreover have "\<not> plenty (3 * Suc n) m" 
    proof
      assume "plenty (3 * Suc n) m"
      then have "plenty (3 * n + 1 + 2) m" by (simp add: plenty_def)
      from 1(4) [OF this] show False using True by simp
    qed
    moreover have "add_new (Suc n) len i l m = Return (False, m1)" using 1(1) True by simp
    ultimately show ?thesis by auto
  next
    case False
    let ?one = "seq (InsertList l a m1) (\<lambda>m.
      lift (do { m \<leftarrow> insert_used a m; m \<leftarrow> add_used_count i m; add_total_count i m }))"
    have c1: "core m1 F U [a]" and k1: "skey (nodes m1) a = sint len" using 1(6) False by auto
    have l1: "headed (cells m1) l cs" using Suc.prems(4) 1(2) by simp
    have room: "plenty k m1" if "plenty (k + 2) m" for k using 1(4) [OF that] by simp
    have one: "sat (plenty 3 m) ?one (\<lambda>m'. \<exists>U' c. handed l m F U cs m' F U' [(c, a)] [sint len])"
      by (rule new_one [OF c1 cl Suc.prems(2,3) k1 l1 1(3,5) room])
    have step: "add_new (Suc n) len i l m = seq ?one (add_new n len i l)"
    proof -
      have "seq (seq r f) g = seq r (\<lambda>x. seq (f x) g)" for r :: "mem run" and f and g :: "mem \<Rightarrow> (bool \<times> mem) run"
        by (cases r) simp_all
      then show ?thesis using 1(1) False by simp
    qed
    show ?thesis
      unfolding step
    proof (rule sat_seq)
      show "sat (plenty (3 * Suc n) m) ?one (\<lambda>m'. \<exists>U' c. handed l m F U cs m' F U' [(c, a)] [sint len])"
        using one by (rule sat_mono) (auto elim: plenty_le)
    next
      fix m2 assume "\<exists>U' c. handed l m F U cs m2 F U' [(c, a)] [sint len]"
      then obtain U' c where h: "handed l m F U cs m2 F U' [(c, a)] [sint len]" by blast
      note d = handedD [OF h]
      have room: "plenty (3 * n) m2" if "plenty (3 * Suc n) m"
        using d(9) [of "3 * n"] that by (simp add: algebra_simps)
      have "sat (plenty (3 * n) m2) (add_new n len i l m2)
        (\<lambda>(ok, m'). if ok then \<exists>F'' U'' ds. handed l m2 F U' (cs @ [(c, a)]) m' F'' U'' ds (replicate n (sint len))
                    else \<not> plenty (3 * n) m2 \<and> (\<exists>F' U'. pool_inv m' F' U'))"
        by (rule Suc.IH [OF d(1) Suc.prems(2) _ d(2)]) (use Suc.prems(3) d(8) in simp)
      then show "sat (plenty (3 * Suc n) m) (add_new n len i l m2)
        (\<lambda>(ok, m'). if ok then \<exists>F' U' ds. handed l m F U cs m' F' U' ds (replicate (Suc n) (sint len))
                    else \<not> plenty (3 * Suc n) m \<and> (\<exists>F' U'. pool_inv m' F' U'))"
      proof (rule sat_mono)
        fix x assume x: "case x of (ok, m') \<Rightarrow> if ok
          then \<exists>F'' U'' ds. handed l m2 F U' (cs @ [(c, a)]) m' F'' U'' ds (replicate n (sint len))
          else \<not> plenty (3 * n) m2 \<and> (\<exists>F' U'. pool_inv m' F' U')"
        obtain ok m' where e: "x = (ok, m')" by (cases x)
        show "case x of (ok, m') \<Rightarrow> if ok
          then \<exists>F' U' ds. handed l m F U cs m' F' U' ds (replicate (Suc n) (sint len))
          else \<not> plenty (3 * Suc n) m \<and> (\<exists>F' U'. pool_inv m' F' U')"
        proof (cases ok)
          case True
          then obtain F'' U'' ds where "handed l m2 F U' (cs @ [(c, a)]) m' F'' U'' ds (replicate n (sint len))"
            using x e by auto
          from handed_trans [OF h this] show ?thesis using True e by auto
        next
          case False
          then show ?thesis using x e room by auto
        qed
      qed (rule room)
    qed
  qed
qed

subsection \<open>One column and all columns\<close>

lemma column_count_ok:
  assumes "column_count len r = (c, r')" and "0 < len" "0 < r" "r < 2 ^ 31"
  shows "0 \<le> c" "c < 2 ^ 31" "0 \<le> r'" "r' < 2 ^ 31" "r' \<le> len div 2" "r \<le> c * len + r'"
    "c * len \<le> r + len div 2"
proof -
  have s: "r sdiv len = r div len" "r smod len = r mod len" "len sdiv 2 = len div 2"
    using assms by (simp_all add: signed_divide_int_def signed_modulo_int_def sgn_1_pos)
  have m: "0 \<le> r mod len" "r mod len < len" "r div len * len + r mod len = r" "0 \<le> r div len"
    using assms by (simp_all add: pos_imp_zdiv_nonneg_iff)
  have q: "r div len \<le> r" using zdiv_mono2 [of r 1 len] assms by simp
  have q': "r div len + 1 < 2 ^ 31" if "r mod len > len div 2"
  proof -
    have "2 \<le> len" using that m assms(2) by linarith
    then have "r div len \<le> r div 2" using assms(3) by (intro zdiv_mono2) auto
    then show ?thesis using assms(3,4) by simp
  qed
  have e: "(r div len + 1) * len = r - r mod len + len" using m(3) by (simp add: algebra_simps)
  consider "r mod len > len div 2" "c = r div len + 1" "r' = 0"
    | "r mod len \<le> len div 2" "c = r div len" "r' = r mod len"
    using assms(1) unfolding column_count_def s Let_def by (auto split: if_splits)
  then have "0 \<le> c \<and> c < 2 ^ 31 \<and> 0 \<le> r' \<and> r' < 2 ^ 31 \<and> r' \<le> len div 2 \<and> r \<le> c * len + r' \<and>
      c * len \<le> r + len div 2"
  proof cases
    case 1
    have "len - len div 2 \<le> r mod len + 1" using 1(1) m(2) by linarith
    moreover have "c * len = r - r mod len + len" unfolding 1(2) by (rule e)
    moreover have "len \<le> r mod len + len div 2" using 1(1) by linarith
    moreover have "0 \<le> len div 2" using assms(2) by simp
    ultimately show ?thesis using 1 m q' assms(3) by simp
  next
    case 2
    have "c * len = r - r mod len" unfolding 2(2) using m(3) by linarith
    moreover have "0 \<le> len div 2" using assms(2) by simp
    moreover have "r mod len \<le> r" by (rule zmod_le_nonneg_dividend) (use assms(3) in simp)
    ultimately show ?thesis using 2 m q assms(4) by linarith
  qed
  then show "0 \<le> c" "c < 2 ^ 31" "0 \<le> r'" "r' < 2 ^ 31" "r' \<le> len div 2" "r \<le> c * len + r'"
    "c * len \<le> r + len div 2"
    by blast+
qed


text \<open>The block sizes a request is met with, from the last column down to the first.\<close>

fun plan :: "u32 list \<Rightarrow> nat \<Rightarrow> int \<Rightarrow> int list" where
  "plan lens 0 r = []"
| "plan lens (Suc i) r = (if r > 0 then
     let (c, r') = column_count (sint (lens ! i)) r in replicate (nat c) (sint (lens ! i)) @ plan lens i r'
   else [])"

lemma sint_small: "unat (w :: u32) < 2 ^ 31 \<Longrightarrow> sint w = int (unat w)"
proof -
  assume "unat w < 2 ^ 31"
  then have "int (unat w) < int (2 ^ 31)" by (simp only: of_nat_less_iff)
  then have "uint w < 2 ^ 31" by simp
  moreover have "- (2 ^ 31) \<le> uint w" by (rule order_trans [of _ 0]) simp_all
  ultimately have "signed_take_bit 31 (uint w) = uint w" by (intro signed_take_bit_int_eq_self)
  then have "sint w = uint w" by (simp add: sint_uint)
  then show ?thesis by simp
qed

lemma word_diff_small:
  fixes x y :: u32
  assumes "unat x = unat y + k" and "k < 2 ^ 31"
  shows "sint (x - y) = int k"
proof -
  have "unat (x - y) = k" using assms(1) by (simp add: unat_sub_if')
  then show ?thesis using assms(2) by (simp add: sint_small)
qed

lemma malloc_column_ok:
  assumes inv: "pool_inv m F U" and i: "i < MAX_COLUME_NUM" and l: "headed (cells m) l cs"
    and len: "len = block_len (g_memory_pool m) ! i"
    and r: "0 < r" "r < 2 ^ 31" and cc: "column_count (sint len) r = (c, r')"
  shows "sat (plenty (3 * nat c) m) (malloc_column i r l m)
    (\<lambda>(r'', ok, m'). r'' = r' \<and> (if ok then \<exists>F' U' ds. handed l m F U cs m' F' U' ds (replicate (nat c) (sint len))
       else \<not> plenty (3 * nat c) m \<and> (\<exists>F' U'. pool_inv m' F' U')))"
proof -
  have c: "core m F U []" and cl: "columns m F U" using pool_invD [OF inv] by auto
  let ?g = "g_memory_pool m" and ?n = "count_size (nodes m) len F"
  have pos: "0 < sint len" using columnsD(5) [OF cl i] len by simp
  note cb = column_count_ok [OF cc pos r]
  have "?n < 2 ^ 31" using count_size_le [of "nodes m" len F] coreD(8) [OF c] by simp
  then have fc: "sint (block_total_count ?g ! i - block_used_count ?g ! i) = int ?n"
    using columnsD(6,7) [OF cl i] len by (intro word_diff_small) simp_all
  have get: "arr_get (block_len ?g) i = Some len" "arr_get (block_total_count ?g) i = Some (block_total_count ?g ! i)"
      "arr_get (block_used_count ?g) i = Some (block_used_count ?g ! i)"
    using columnsD(1-3) [OF cl] i len by simp_all
  have run: "malloc_column i r l m =
     (if c = 0 then Return (r', True, m)
      else if c \<le> int ?n then seq (take_free (nat c) len i l m) (\<lambda>m. Return (r', True, m))
      else seq (take_free ?n len i l m) (\<lambda>m.
           seq (add_new (nat (c - int ?n)) len i l m) (\<lambda>(ok, m). Return (r', ok, m))))"
    using pos cb(2) by (simp add: malloc_column_def get fc cc)
  consider "c = 0" | "c \<noteq> 0" "c \<le> int ?n" | "c > int ?n" by linarith
  then show ?thesis
  proof cases
    case 1
    then show ?thesis using handed_refl [OF inv l] by (auto simp: run intro!: exI)
  next
    case 2
    have "nat c \<le> ?n" using 2 by simp
    from take_free_ok [OF inv i len l this] have
      "sat (plenty (3 * nat c) m) (seq (take_free (nat c) len i l m) (\<lambda>m. Return (r', True, m)))
        (\<lambda>(r'', ok, m'). r'' = r' \<and> (if ok then \<exists>F' U' ds. handed l m F U cs m' F' U' ds (replicate (nat c) (sint len))
          else \<not> plenty (3 * nat c) m \<and> (\<exists>F' U'. pool_inv m' F' U')))"
      by (rule sat_seq) simp
    then show ?thesis using 2 by (simp add: run)
  next
    case 3
    have n: "nat c = ?n + nat (c - int ?n)" using 3 by simp
    have "sat (plenty (3 * nat c) m) (seq (take_free ?n len i l m) (\<lambda>m.
           seq (add_new (nat (c - int ?n)) len i l m) (\<lambda>(ok, m). Return (r', ok, m))))
        (\<lambda>(r'', ok, m'). r'' = r' \<and> (if ok then \<exists>F' U' ds. handed l m F U cs m' F' U' ds (replicate (nat c) (sint len))
          else \<not> plenty (3 * nat c) m \<and> (\<exists>F' U'. pool_inv m' F' U')))"
    proof (rule sat_seq)
      show "sat (plenty (3 * nat c) m) (take_free ?n len i l m)
          (\<lambda>m'. \<exists>F' U' ds. handed l m F U cs m' F' U' ds (replicate ?n (sint len)))"
        by (rule sat_mono [OF take_free_ok [OF inv i len l order_refl]]) (use n in \<open>auto elim: plenty_le\<close>)
    next
      fix m1 assume "\<exists>F' U' ds. handed l m F U cs m1 F' U' ds (replicate ?n (sint len))"
      then obtain F1 U1 ds where h: "handed l m F U cs m1 F1 U1 ds (replicate ?n (sint len))" by blast
      note d = handedD [OF h]
      let ?k = "nat (c - int ?n)"
      have "length ds = ?n" using arg_cong [OF d(3), of length] by simp
      then have room: "plenty (3 * ?k) m1" if "plenty (3 * nat c) m"
        using that n by (intro d(9)) (simp add: algebra_simps)
      have "len = block_len (g_memory_pool m1) ! i" using len d(8) by simp
      from add_new_ok [OF d(1) i this d(2), of ?k]
      show "sat (plenty (3 * nat c) m) (seq (add_new ?k len i l m1) (\<lambda>(ok, m). Return (r', ok, m)))
        (\<lambda>(r'', ok, m'). r'' = r' \<and> (if ok then \<exists>F' U' ds. handed l m F U cs m' F' U' ds (replicate (nat c) (sint len))
          else \<not> plenty (3 * nat c) m \<and> (\<exists>F' U'. pool_inv m' F' U')))"
      proof (rule sat_seq [OF sat_mono])
        fix x assume x: "case x of (ok, m') \<Rightarrow> if ok
          then \<exists>F' U' ds'. handed l m1 F1 U1 (cs @ ds) m' F' U' ds' (replicate ?k (sint len))
          else \<not> plenty (3 * ?k) m1 \<and> (\<exists>F' U'. pool_inv m' F' U')"
        obtain ok m' where e: "x = (ok, m')" by (cases x)
        show "sat (plenty (3 * nat c) m) (case x of (ok, m) \<Rightarrow> Return (r', ok, m))
          (\<lambda>(r'', ok, m'). r'' = r' \<and> (if ok then \<exists>F' U' ds. handed l m F U cs m' F' U' ds (replicate (nat c) (sint len))
            else \<not> plenty (3 * nat c) m \<and> (\<exists>F' U'. pool_inv m' F' U')))"
        proof (cases ok)
          case True
          then obtain F' U' ds' where "handed l m1 F1 U1 (cs @ ds) m' F' U' ds' (replicate ?k (sint len))"
            using x e by auto
          from handed_trans [OF h this] have
            "handed l m F U cs m' F' U' (ds @ ds') (replicate (nat c) (sint len))"
            unfolding n replicate_add .
          then show ?thesis using True e by auto
        next
          case False
          then show ?thesis using x e room by auto
        qed
      qed (rule room)
    qed
    then show ?thesis using 3 cb(1) by (simp add: run)
  qed
qed


lemma malloc_columns_ok:
  "pool_inv m F U \<Longrightarrow> i \<le> MAX_COLUME_NUM \<Longrightarrow> headed (cells m) l cs \<Longrightarrow> r < 2 ^ 31 \<Longrightarrow>
   ns = plan (block_len (g_memory_pool m)) i r \<Longrightarrow>
   sat (plenty (3 * length ns) m) (malloc_columns i r l m)
     (\<lambda>(ok, m'). if ok then \<exists>F' U' ds. handed l m F U cs m' F' U' ds ns
                 else \<not> plenty (3 * length ns) m \<and> (\<exists>F' U'. pool_inv m' F' U'))"
proof (induction i arbitrary: m F U cs r ns)
  case 0
  then show ?case using handed_refl by (auto intro!: exI)
next
  case (Suc i)
  show ?case
  proof (cases "r > 0")
    case False
    then show ?thesis using handed_refl Suc.prems by (auto intro!: exI)
  next
    case True
    let ?len = "block_len (g_memory_pool m) ! i"
    obtain c r' where cc: "column_count (sint ?len) r = (c, r')" by (cases "column_count (sint ?len) r")
    have i: "i < MAX_COLUME_NUM" using Suc.prems(2) by simp
    have pos: "0 < sint ?len" using columnsD(5) [OF conjunct2 [OF pool_invD [OF Suc.prems(1)]] i] .
    note cb = column_count_ok [OF cc pos True Suc.prems(4)]
    let ?n1 = "replicate (nat c) (sint ?len)" and ?n2 = "plan (block_len (g_memory_pool m)) i r'"
    have ns: "ns = ?n1 @ ?n2" using Suc.prems(5) True cc by simp
    have room0: "plenty (3 * nat c) m" if "plenty (3 * length ns) m"
      using that by (rule plenty_le) (simp add: ns)
    have "sat (plenty (3 * length ns) m) (seq (malloc_column i r l m) (\<lambda>(remain, ok, m).
          if ok then malloc_columns i remain l m else Return (False, m)))
        (\<lambda>(ok, m'). if ok then \<exists>F' U' ds. handed l m F U cs m' F' U' ds ns
                 else \<not> plenty (3 * length ns) m \<and> (\<exists>F' U'. pool_inv m' F' U'))"
    proof (rule sat_seq)
      show "sat (plenty (3 * length ns) m) (malloc_column i r l m)
        (\<lambda>(r'', ok, m'). r'' = r' \<and> (if ok then \<exists>F' U' ds. handed l m F U cs m' F' U' ds ?n1
           else \<not> plenty (3 * length ns) m \<and> (\<exists>F' U'. pool_inv m' F' U')))"
        by (rule sat_mono [OF malloc_column_ok [OF Suc.prems(1) i Suc.prems(3) refl True Suc.prems(4) cc]])
          (use room0 in \<open>auto split: if_splits\<close>)
    next
      fix x assume x: "case x of (r'', ok, m') \<Rightarrow> r'' = r' \<and> (if ok then \<exists>F' U' ds. handed l m F U cs m' F' U' ds ?n1
           else \<not> plenty (3 * length ns) m \<and> (\<exists>F' U'. pool_inv m' F' U'))"
      obtain r'' ok m1 where e: "x = (r'', ok, m1)" by (cases x)
      show "sat (plenty (3 * length ns) m) (case x of (remain, ok, m) \<Rightarrow>
          if ok then malloc_columns i remain l m else Return (False, m))
        (\<lambda>(ok, m'). if ok then \<exists>F' U' ds. handed l m F U cs m' F' U' ds ns
                 else \<not> plenty (3 * length ns) m \<and> (\<exists>F' U'. pool_inv m' F' U'))"
      proof (cases ok)
        case False
        then show ?thesis using x e by auto
      next
        case True
        then obtain F1 U1 ds where h: "handed l m F U cs m1 F1 U1 ds ?n1" and r'': "r'' = r'"
          using x e by auto
        note d = handedD [OF h]
        have "length ds = nat c" using arg_cong [OF d(3), of length] by simp
        then have room: "plenty (3 * length ?n2) m1" if "plenty (3 * length ns) m"
          using that ns by (intro d(9)) (simp add: algebra_simps)
        have "sat (plenty (3 * length ?n2) m1) (malloc_columns i r' l m1)
           (\<lambda>(ok, m'). if ok then \<exists>F' U' ds'. handed l m1 F1 U1 (cs @ ds) m' F' U' ds' ?n2
                 else \<not> plenty (3 * length ?n2) m1 \<and> (\<exists>F' U'. pool_inv m' F' U'))"
          by (rule Suc.IH [OF d(1) _ d(2) cb(4)]) (use Suc.prems(2) d(8) in simp_all)
        then have "sat (plenty (3 * length ns) m) (malloc_columns i r' l m1)
           (\<lambda>(ok, m'). if ok then \<exists>F' U' ds. handed l m F U cs m' F' U' ds ns
                 else \<not> plenty (3 * length ns) m \<and> (\<exists>F' U'. pool_inv m' F' U'))"
        proof (rule sat_mono)
          fix y assume y: "case y of (ok, m') \<Rightarrow> if ok
             then \<exists>F' U' ds'. handed l m1 F1 U1 (cs @ ds) m' F' U' ds' ?n2
             else \<not> plenty (3 * length ?n2) m1 \<and> (\<exists>F' U'. pool_inv m' F' U')"
          obtain ok' m' where e': "y = (ok', m')" by (cases y)
          show "case y of (ok, m') \<Rightarrow> if ok then \<exists>F' U' ds. handed l m F U cs m' F' U' ds ns
             else \<not> plenty (3 * length ns) m \<and> (\<exists>F' U'. pool_inv m' F' U')"
          proof (cases ok')
            case True
            then obtain F' U' ds' where "handed l m1 F1 U1 (cs @ ds) m' F' U' ds' ?n2" using y e' by auto
            from handed_trans [OF h this] show ?thesis using True e' ns by auto
          next
            case False
            then show ?thesis using y e' room by auto
          qed
        qed (rule room)
        then show ?thesis using True e r'' by simp
      qed
    qed
    then show ?thesis using True by simp
  qed
qed

text \<open>A request is a 32-bit size read as \<^verbatim>\<open>int\<close>: a negative one is met with no block at all.\<close>

definition served ::
    "mem \<Rightarrow> addr list \<Rightarrow> addr list \<Rightarrow> addr \<Rightarrow> mem \<Rightarrow> addr list \<Rightarrow> addr list \<Rightarrow> (addr \<times> addr) list \<Rightarrow> int list \<Rightarrow> bool" where
  "served m F U l m' F' U' ds ns \<longleftrightarrow>
     pool_inv m' F' U' \<and> headed (cells m') l ds \<and> map (skey (nodes m')) (map snd ds) = ns \<and>
     mset U' = mset U + mset (map snd ds) \<and>
     mset F' \<subseteq># mset F \<and> mset F \<subseteq># mset F' + mset (map snd ds) \<and>
     (\<forall>b\<in>set (F @ U). skey (nodes m') b = skey (nodes m) b) \<and>
     block_len (g_memory_pool m') = block_len (g_memory_pool m)"

lemma handed_served:
  assumes "handed l m1 F U [] m' F' U' ds ns" and "nodes m1 = nodes m"
    "block_len (g_memory_pool m1) = block_len (g_memory_pool m)"
  shows "served m F U l m' F' U' ds ns"
  using handedD [OF assms(1)] assms(2,3) by (simp add: served_def)

lemma buffer_malloc_ok:
  assumes inv: "pool_inv m F U"
    and ns: "ns = plan (block_len (g_memory_pool m)) MAX_COLUME_NUM (sint req)"
  shows "sat (plenty (1 + 3 * length ns) m) (buffer_malloc req m)
     (\<lambda>(l, m'). if l \<noteq> NULL then \<exists>F' U' ds. served m F U l m' F' U' ds ns
                else \<not> plenty (1 + 3 * length ns) m \<and> (\<exists>F' U'. pool_inv m' F' U'))"
proof (cases "arena m = [] \<or> hd (arena m) = NULL")
  case True
  then have "buffer_malloc req m = Exit"
    by (cases "arena m") (auto simp: buffer_malloc_def malloc_cell_def malloc_def)
  moreover have "\<not> plenty (1 + 3 * length ns) m"
    using True by (cases "arena m") (auto simp: plenty_def)
  ultimately show ?thesis by simp
next
  case False
  then obtain l as where a: "arena m = l # as" "l \<noteq> NULL" by (cases "arena m") auto
  have c: "core m F U []" and cl: "columns m F U" using pool_invD [OF inv] by auto
  let ?m = "m\<lparr>arena := as, cells := (cells m)(l \<mapsto> \<lparr>my_node_ptr = 0, Next = 0\<rparr>)\<rparr>"
  have "arena_ok ?m" using coreD(7) [OF c] a by (auto simp: arena_ok_def)
  then have "core ?m F U []" using coreD [OF c] a by (simp add: core_def owns_block_def)
  moreover have "columns ?m F U" by (rule columns_cong [OF cl]) (simp_all add: cols_def)
  ultimately have inv': "pool_inv ?m F U" by (simp add: pool_inv_def)
  have hd: "headed (cells ?m) l []" using a by (simp add: headed_def)
  have "(sint req :: int) < 2 ^ 31" using sint_lt [of req] by simp
  from malloc_columns_ok [OF inv' order_refl hd this, of ns]
  have cols_ok: "sat (plenty (3 * length ns) ?m) (malloc_columns MAX_COLUME_NUM (sint req) l ?m)
     (\<lambda>(ok, m'). if ok then \<exists>F' U' ds. handed l ?m F U [] m' F' U' ds ns
                 else \<not> plenty (3 * length ns) ?m \<and> (\<exists>F' U'. pool_inv m' F' U'))"
    using ns by simp
  have run: "buffer_malloc req m = seq (malloc_columns MAX_COLUME_NUM (sint req) l ?m)
      (\<lambda>(ok, m). Return (if ok then l else NULL, m))"
    using a by (simp add: buffer_malloc_def malloc_cell_def malloc_def)
  have room: "plenty (1 + 3 * length ns) m = plenty (3 * length ns) ?m"
    using a by (simp add: plenty_def)
  show ?thesis
    unfolding run room
  proof (rule sat_seq [OF cols_ok])
    fix x assume x: "case x of (ok, m') \<Rightarrow> if ok then \<exists>F' U' ds. handed l ?m F U [] m' F' U' ds ns
                 else \<not> plenty (3 * length ns) ?m \<and> (\<exists>F' U'. pool_inv m' F' U')"
    obtain ok m' where e: "x = (ok, m')" by (cases x)
    show "sat (plenty (3 * length ns) ?m) (case x of (ok, m) \<Rightarrow> Return (if ok then l else NULL, m))
     (\<lambda>(l, m'). if l \<noteq> NULL then \<exists>F' U' ds. served m F U l m' F' U' ds ns
                else \<not> plenty (3 * length ns) ?m \<and> (\<exists>F' U'. pool_inv m' F' U'))"
    proof (cases ok)
      case True
      then obtain F' U' ds where "handed l ?m F U [] m' F' U' ds ns" using x e by auto
      then have "served m F U l m' F' U' ds ns" by (rule handed_served) simp_all
      then show ?thesis using True e a(2) by auto
    next
      case False
      then show ?thesis using x e by auto
    qed
  qed
qed


text \<open>What the request is short of: at most half a block of the smallest column.\<close>

lemma plan_shortfall:
  "\<forall>j<i. 0 < sint (lens ! j) \<Longrightarrow> 0 < i \<Longrightarrow> r < 2 ^ 31 \<Longrightarrow>
   r \<le> sum_list (plan lens i r) + sint (lens ! 0) div 2"
proof (induction i arbitrary: r)
  case (Suc i)
  have half: "0 \<le> sint (lens ! 0) div 2"
    using spec [OF Suc.prems(1), of 0] by (simp add: pos_imp_zdiv_nonneg_iff)
  show ?case
  proof (cases "r > 0")
    case True
    obtain c r' where cc: "column_count (sint (lens ! i)) r = (c, r')" by (cases "column_count (sint (lens ! i)) r")
    have pos: "0 < sint (lens ! i)" using Suc.prems(1) by simp
    note cb = column_count_ok [OF cc pos True Suc.prems(3)]
    have s: "sum_list (plan lens (Suc i) r) = c * sint (lens ! i) + sum_list (plan lens i r')"
      using True cc cb(1) by (simp add: sum_list_replicate)
    show ?thesis
    proof (cases "i = 0")
      case True
      then show ?thesis using s cb(5,6) by simp
    next
      case False
      then have "r' \<le> sum_list (plan lens i r') + sint (lens ! 0) div 2"
        using Suc.IH [of r'] Suc.prems(1) cb(4) by simp
      then show ?thesis using s cb(6) by simp
    qed
  next
    case False
    then show ?thesis using half by simp
  qed
qed simp

subsection \<open>Giving nodes back\<close>

lemma unat_decr: "0 < unat (w :: u32) \<Longrightarrow> unat (w - 1) = unat w - 1"
  by (simp add: unat_sub_if' Suc_le_eq)

lemma columns_back:
  assumes c: "columns m F U" and a: "a \<in> set U" "skey (nodes m) a = sint k"
    and m': "block_len (g_memory_pool m') = block_len (g_memory_pool m)"
      "block_total_count (g_memory_pool m') = block_total_count (g_memory_pool m)"
      "block_used_count (g_memory_pool m') = map2 (\<lambda>len u. if len = k then u - 1 else u)
         (block_len (g_memory_pool m)) (block_used_count (g_memory_pool m))"
    and s: "skey (nodes m') = skey (nodes m)"
    and p: "mset U = mset (a # U')" "mset F' = mset (a # F)"
  shows "columns m' F' U'"
proof -
  let ?l = "block_len (g_memory_pool m)" and ?u = "block_used_count (g_memory_pool m)"
  have U: "count_size (nodes m) l U = (if skey (nodes m) a = sint l then 1 else 0) + count_size (nodes m) l U'" for l
    using count_size_mset [OF p(1), of "nodes m" l] by simp
  have "mset (F' @ U') = mset (F @ U)" using p by simp
  then have FU: "count_size (nodes m) l (F' @ U') = count_size (nodes m) l (F @ U)" for l
    by (rule count_size_mset)
  have ss: "count_size (nodes m') l xs = count_size (nodes m) l xs" for l xs
    using s by (simp add: count_size_def)
  have used: "unat (block_used_count (g_memory_pool m') ! j) = count_size (nodes m) (?l ! j) U'"
    if j: "j < MAX_COLUME_NUM" for j
  proof -
    have n: "block_used_count (g_memory_pool m') ! j = (if ?l ! j = k then ?u ! j - 1 else ?u ! j)"
      using m'(3) columnsD(1,3) [OF c] j by simp
    have u: "unat (?u ! j) = count_size (nodes m) (?l ! j) U" using columnsD(7) [OF c j] .
    show ?thesis
    proof (cases "?l ! j = k")
      case True
      then have "count_size (nodes m) (?l ! j) U = Suc (count_size (nodes m) (?l ! j) U')"
        using U [of "?l ! j"] a(2) by simp
      then show ?thesis using n u True unat_decr [of "?u ! j"] by simp
    next
      case False
      then have "count_size (nodes m) (?l ! j) U = count_size (nodes m) (?l ! j) U'"
        using U [of "?l ! j"] a(2) by (simp add: sint_inj eq_commute [of "sint k"])
      then show ?thesis using n u False by simp
    qed
  qed
  show ?thesis
    unfolding columns_def Let_def
  proof (intro conjI allI impI)
    fix j assume j: "j < MAX_COLUME_NUM"
    show "unat (block_total_count (g_memory_pool m') ! j) =
        count_size (nodes m') (block_len (g_memory_pool m') ! j) (F' @ U')"
      unfolding m' ss FU by (rule columnsD(6) [OF c j])
    show "unat (block_used_count (g_memory_pool m') ! j) =
        count_size (nodes m') (block_len (g_memory_pool m') ! j) U'"
      unfolding used [OF j] ss m'(1) ..
  qed (use c m' in \<open>auto simp: columns_def Let_def\<close>)
qed

lemma give_back_ok:
  assumes inv: "pool_inv m F U" and a: "a \<in> set U"
  shows "\<exists>m' F'. give_back a m = Some m' \<and> pool_inv m' F' (remove1 a U) \<and> mset F' = mset (a # F) \<and>
    cells m' = cells m \<and> skey (nodes m') = skey (nodes m) \<and> arena m' = arena m \<and>
    block_len (g_memory_pool m') = block_len (g_memory_pool m)"
proof -
  have c: "core m F U []" and cl: "columns m F U" using pool_invD [OF inv] by auto
  obtain n where n: "nodes m a = Some n" "a \<noteq> NULL" using core_node [OF c, of a] a by auto
  let ?k = "key n" and ?m = "sub_used_counts (key n) m"
  have cm: "core ?m F U []" by (rule core_same [OF c]) (simp_all add: sub_used_counts_def)
  obtain s where 1: "rb_erase a (used_state ?m) = Some s"
      "core (tree_update set_used_tree s ?m) F (remove1 a U) [a]" "same ?m (tree_update set_used_tree s ?m)"
    using erase_used_ok [OF cm a] by blast
  let ?m1 = "tree_update set_used_tree s ?m"
  obtain m' where 2: "insert_free a ?m1 = Some m'"
      "core m' (insort_key (skey (nodes ?m1)) a F) (remove1 a U) []" "same ?m1 m'"
    using insert_free_ok [OF 1(2)] by blast
  let ?F = "insort_key (skey (nodes ?m1)) a F"
  have "columns m' ?F (remove1 a U)"
    by (rule columns_back [OF cl a, of ?k])
      (use 1(3) 2(3) n a in \<open>simp_all add: same_def cols_def sub_used_counts_def\<close>)
  then have "pool_inv m' ?F (remove1 a U)" using 2(2) by (simp add: pool_inv_def)
  moreover have "give_back a m = Some m'" using n 1(1) 2(1) by (simp add: give_back_def)
  ultimately show ?thesis
    using 1(3) 2(3) by (intro exI [of _ m'] exI [of _ ?F]) (simp add: same_def cols_def sub_used_counts_def)
qed

lemma pool_inv_cells:
  assumes "pool_inv m F U" and "\<And>a. cells m a = None \<Longrightarrow> h a = None"
  shows "pool_inv (m\<lparr>cells := h\<rparr>) F U"
  using assms
  by (auto simp: pool_inv_def core_def owns_block_def arena_ok_def columns_def Let_def)

lemma free_loop_ok:
  "pool_inv m F U \<Longrightarrow> clist (cells m) P ds \<Longrightarrow> distinct (map fst ds) \<Longrightarrow>
   mset (map snd ds) \<subseteq># mset U \<Longrightarrow>
   \<exists>m' F' U'. free_loop P m = Some m' \<and> pool_inv m' F' U' \<and>
     mset F' = mset F + mset (map snd ds) \<and> mset U = mset U' + mset (map snd ds) \<and>
     cells m' = (cells m) |` (- fst ` set ds) \<and> skey (nodes m') = skey (nodes m) \<and> arena m' = arena m \<and>
     block_len (g_memory_pool m') = block_len (g_memory_pool m)"
proof (induction ds arbitrary: m F U P)
  case Nil
  then show ?case by (subst free_loop.simps) (auto simp: restrict_map_def)
next
  case (Cons d ds)
  obtain c a where d: "d = (c, a)" by (cases d)
  obtain cell where cell: "cells m c = Some cell" "my_node_ptr cell = a" "clist (cells m) (Next cell) ds"
      "P = c" "c \<noteq> NULL"
    using Cons.prems(2) d by auto
  have aU: "a \<in> set U" using Cons.prems(4) d by (simp add: insert_subset_eq_iff)
  have an: "a \<noteq> NULL" using core_node [OF conjunct1 [OF pool_invD [OF Cons.prems(1)]], of a] aU by simp
  obtain m1 F1 where 1: "give_back a m = Some m1" "pool_inv m1 F1 (remove1 a U)" "mset F1 = mset (a # F)"
      "cells m1 = cells m" "skey (nodes m1) = skey (nodes m)" "arena m1 = arena m"
      "block_len (g_memory_pool m1) = block_len (g_memory_pool m)"
    using give_back_ok [OF Cons.prems(1) aU] by blast
  let ?m = "m1\<lparr>cells := (cells m)(c := None)\<rparr>"
  have inv: "pool_inv ?m F1 (remove1 a U)" using 1(4) by (intro pool_inv_cells [OF 1(2)]) simp
  have cl: "clist (cells ?m) (Next cell) ds"
    by (rule clist_frame [OF cell(3)]) (use Cons.prems(3) d in auto)
  have sub: "mset (map snd ds) \<subseteq># mset (remove1 a U)"
    using Cons.prems(4) d by (simp add: insert_subset_eq_iff)
  have dd: "distinct (map fst ds)" using Cons.prems(3) by simp
  obtain m' F' U' where 2: "free_loop (Next cell) ?m = Some m'" "pool_inv m' F' U'"
      "mset F' = mset F1 + mset (map snd ds)" "mset (remove1 a U) = mset U' + mset (map snd ds)"
      "cells m' = (cells ?m) |` (- fst ` set ds)" "skey (nodes m') = skey (nodes ?m)" "arena m' = arena ?m"
      "block_len (g_memory_pool m') = block_len (g_memory_pool ?m)"
    using Cons.IH [OF inv cl dd sub] by blast
  have run: "free_loop P m = Some m'"
    using cell an 1(1,4) 2(1) by (subst free_loop.simps) simp
  have "mset U = add_mset a (mset (remove1 a U))" using aU by simp
  then have mU: "mset U = mset U' + mset (map snd (d # ds))" using 2(4) d by simp
  have mF: "mset F' = mset F + mset (map snd (d # ds))" using 2(3) 1(3) d by simp
  have ce: "cells m' = (cells m) |` (- fst ` set (d # ds))"
    using 2(5) d by (auto simp: restrict_map_def)
  show ?case using run 2(2,6-8) mU mF ce 1(5-7) by auto
qed

lemma buffer_free_ok:
  assumes inv: "pool_inv m F U" and l: "headed (cells m) l ds" and sub: "mset (map snd ds) \<subseteq># mset U"
  shows "\<exists>m' F' U'. buffer_free l m = Some (0, m') \<and> pool_inv m' F' U' \<and>
     mset F' = mset F + mset (map snd ds) \<and> mset U = mset U' + mset (map snd ds) \<and>
     dom (cells m') = dom (cells m) - fst ` set ds \<and> skey (nodes m') = skey (nodes m) \<and>
     block_len (g_memory_pool m') = block_len (g_memory_pool m)"
proof -
  obtain n0 where L: "clist (cells m) l ((l, n0) # ds)" "distinct (l # map fst ds)"
    using l by (auto simp: headed_def)
  then obtain cell where cell: "cells m l = Some cell" "clist (cells m) (Next cell) ds" "l \<noteq> NULL" by auto
  let ?m = "m\<lparr>cells := (cells m)(l \<mapsto> cell\<lparr>Next := NULL\<rparr>)\<rparr>"
  have inv': "pool_inv ?m F U" using cell(1) by (intro pool_inv_cells [OF inv]) auto
  have cl: "clist (cells ?m) (Next cell) ds" by (rule clist_frame [OF cell(2)]) (use L(2) in auto)
  obtain m' F' U' where 1: "free_loop (Next cell) ?m = Some m'" "pool_inv m' F' U'"
     "mset F' = mset F + mset (map snd ds)" "mset U = mset U' + mset (map snd ds)"
     "cells m' = (cells ?m) |` (- fst ` set ds)" "skey (nodes m') = skey (nodes ?m)"
     "block_len (g_memory_pool m') = block_len (g_memory_pool ?m)"
    using free_loop_ok [OF inv' cl _ sub] L(2) by auto
  have "dom (cells m') = dom (cells m) - fst ` set ds"
    unfolding 1(5) dom_restrict using cell(1) by (simp add: insert_absorb domI Diff_eq)
  moreover have "buffer_free l m = Some (0, m')" using cell 1(1) by (simp add: buffer_free_def)
  ultimately show ?thesis using 1 by auto
qed


end
