(* ===== verification/MemInit.thy ===== *)
theory MemInit
  imports MemSpec
begin

text \<open>
  The initialisation of the memory pool: after \<^verbatim>\<open>buffer_pool_init\<close> the free tree holds exactly the
  blocks the caller asked for, the counters agree with it, and the invariant of the pool holds.
\<close>

subsection \<open>Filling the pool\<close>

definition filled ::
    "mem \<Rightarrow> addr list \<Rightarrow> mem \<Rightarrow> addr list \<Rightarrow> addr list \<Rightarrow> bool" where
  "filled m F m' F' ns \<longleftrightarrow> core m' F' [] [] \<and> mset F' = mset F + mset ns \<and>
     (\<forall>b\<in>set F. skey (nodes m') b = skey (nodes m) b)"

lemma init_blocks_ok:
  "core m F [] [] \<Longrightarrow> \<exists>ok m' F' ns. init_blocks n len m = Some (ok, m') \<and> filled m F m' F' ns \<and>
     (ok \<longrightarrow> length ns = n) \<and> (\<forall>a\<in>set ns. skey (nodes m') a = sint len) \<and> cols m' = cols m \<and>
     (\<forall>k. plenty (k + 2 * n) m \<longrightarrow> ok \<and> plenty k m')"
proof (induction n arbitrary: m F)
  case 0
  then show ?case
    by (intro exI [of _ True] exI [of _ m] exI [of _ F] exI [of _ "[]"]) (simp add: filled_def)
next
  case (Suc n)
  obtain a m1 where 1: "new_block_node len m = Some (a, m1)" "cols m1 = cols m"
      "\<And>k. plenty (k + 2) m \<Longrightarrow> a \<noteq> NULL \<and> plenty k m1"
      "\<forall>b\<in>set F. skey (nodes m1) b = skey (nodes m) b"
      "if a = NULL then core m1 F [] [] else core m1 F [] [a] \<and> skey (nodes m1) a = sint len"
    using new_block_ok [OF Suc.prems, of len] by auto
  show ?case
  proof (cases "a = NULL")
    case True
    have "\<not> plenty (k + 2 * Suc n) m" for k
    proof
      assume "plenty (k + 2 * Suc n) m"
      then have "plenty (k + 2 * n + 2) m" by (simp add: algebra_simps)
      from 1(3) [OF this] show False using True by simp
    qed
    moreover have "init_blocks (Suc n) len m = Some (False, m1)" using 1(1) True by simp
    moreover have "filled m F m1 F []" using 1(4,5) True by (simp add: filled_def)
    ultimately show ?thesis using 1(2) by (intro exI [of _ False] exI [of _ m1] exI [of _ F] exI [of _ "[]"]) simp
  next
    case False
    then have c1: "core m1 F [] [a]" and ka: "skey (nodes m1) a = sint len" using 1(5) by auto
    obtain m2 where 2: "insert_free a m1 = Some m2" "core m2 (insort_key (skey (nodes m1)) a F) [] []" "same m1 m2"
      using insert_free_ok [OF c1] by blast
    let ?F = "insort_key (skey (nodes m1)) a F"
    obtain ok m' F' ns where 3: "init_blocks n len m2 = Some (ok, m')" "filled m2 ?F m' F' ns"
        "ok \<longrightarrow> length ns = n" "\<forall>a\<in>set ns. skey (nodes m') a = sint len" "cols m' = cols m2"
        "\<And>k. plenty (k + 2 * n) m2 \<Longrightarrow> ok \<and> plenty k m'"
      using Suc.IH [OF 2(2)] by blast
    have s2: "skey (nodes m2) = skey (nodes m1)" "cols m2 = cols m1" "arena m2 = arena m1"
      using 2(3) by (simp_all add: same_def)
    have k': "skey (nodes m') b = skey (nodes m1) b" if "b = a \<or> b \<in> set F" for b
      using 3(2) that s2(1) by (auto simp: filled_def set_insort_key)
    have fl: "filled m F m' F' (a # ns)" using 3(2) k' 1(4) by (simp add: filled_def)
    have sz: "\<forall>b\<in>set (a # ns). skey (nodes m') b = sint len" using 3(4) k' ka by simp
    have room: "ok \<and> plenty k m'" if "plenty (k + 2 * Suc n) m" for k
    proof -
      have "plenty (k + 2 * n + 2) m" using that by (simp add: algebra_simps)
      then have "plenty (k + 2 * n) m1" using 1(3) by blast
      then show ?thesis using s2(3) by (intro 3(6)) (simp add: plenty_def)
    qed
    have run: "init_blocks (Suc n) len m = Some (ok, m')" using 1(1) False 2(1) 3(1) by simp
    show ?thesis using run fl sz room 3(3,5) 1(2) s2(2)
      by (intro exI [of _ ok] exI [of _ m'] exI [of _ F'] exI [of _ "a # ns"]) auto
  qed
qed

text \<open>
  After \<open>i\<close> columns the free tree holds exactly the nodes of these columns, and the counters say so.
\<close>

definition init_inv :: "u32 list \<Rightarrow> u32 list \<Rightarrow> nat \<Rightarrow> mem \<Rightarrow> addr list \<Rightarrow> bool" where
  "init_inv lens counts i m F \<longleftrightarrow> core m F [] [] \<and>
     (\<forall>a\<in>set F. \<exists>j<i. skey (nodes m) a = sint (lens ! j)) \<and>
     (\<forall>j<i. count_size (nodes m) (lens ! j) F = unat (counts ! j)) \<and>
     length (block_len (g_memory_pool m)) = MAX_COLUME_NUM \<and>
     length (block_total_count (g_memory_pool m)) = MAX_COLUME_NUM \<and>
     length (block_used_count (g_memory_pool m)) = MAX_COLUME_NUM \<and>
     (\<forall>j<i. block_len (g_memory_pool m) ! j = lens ! j \<and>
        block_total_count (g_memory_pool m) ! j = counts ! j \<and> block_used_count (g_memory_pool m) ! j = 0)"

lemma init_invD:
  assumes "init_inv lens counts i m F"
  shows "core m F [] []"
    and "\<And>a. a \<in> set F \<Longrightarrow> \<exists>j<i. skey (nodes m) a = sint (lens ! j)"
    and "\<And>j. j < i \<Longrightarrow> count_size (nodes m) (lens ! j) F = unat (counts ! j)"
    and "length (block_len (g_memory_pool m)) = MAX_COLUME_NUM"
    and "length (block_total_count (g_memory_pool m)) = MAX_COLUME_NUM"
    and "length (block_used_count (g_memory_pool m)) = MAX_COLUME_NUM"
    and "\<And>j. j < i \<Longrightarrow> block_len (g_memory_pool m) ! j = lens ! j"
    and "\<And>j. j < i \<Longrightarrow> block_total_count (g_memory_pool m) ! j = counts ! j"
    and "\<And>j. j < i \<Longrightarrow> block_used_count (g_memory_pool m) ! j = 0"
  using assms unfolding init_inv_def by simp_all

lemma init_columns_ok:
  assumes lens: "length lens = MAX_COLUME_NUM" "length counts = MAX_COLUME_NUM" "distinct lens"
    and no: "unat no \<le> MAX_COLUME_NUM"
  shows "init_inv lens counts i m F \<Longrightarrow> i + n \<le> MAX_COLUME_NUM \<Longrightarrow>
    \<exists>ok m' F'. init_columns n i no lens counts m = Some (ok, m') \<and>
      (if ok then init_inv lens counts (i + n) m' F' else core m' F' [] []) \<and>
      (plenty (2 * sum_list (map unat (take n (drop i counts)))) m \<longrightarrow> ok)"
proof (induction n arbitrary: i m F)
  case 0
  then show ?case by auto
next
  case (Suc n)
  have i: "i < MAX_COLUME_NUM" using Suc.prems(2) by simp
  let ?g = "g_memory_pool m"
  let ?g' = "?g\<lparr>block_len := (block_len ?g)[i := lens ! i], block_total_count := (block_total_count ?g)[i := counts ! i],
    block_used_count := (block_used_count ?g)[i := 0]\<rparr>"
  let ?m = "m\<lparr>g_memory_pool := ?g'\<rparr>"
  have I: "core m F [] []" "length (block_len ?g) = MAX_COLUME_NUM"
      "length (block_total_count ?g) = MAX_COLUME_NUM" "length (block_used_count ?g) = MAX_COLUME_NUM"
    using init_invD [OF Suc.prems(1)] by simp_all
  have c: "core ?m F [] []" by (rule core_same [OF I(1)]) simp_all
  obtain ok m1 F1 ns where 1: "init_blocks (unat (counts ! i)) (lens ! i) ?m = Some (ok, m1)"
      "filled ?m F m1 F1 ns" "ok \<longrightarrow> length ns = unat (counts ! i)"
      "\<forall>a\<in>set ns. skey (nodes m1) a = sint (lens ! i)" "cols m1 = cols ?m"
      "\<And>k. plenty (k + 2 * unat (counts ! i)) ?m \<Longrightarrow> ok \<and> plenty k m1"
    using init_blocks_ok [OF c] by blast
  have step: "init_columns (Suc n) i no lens counts m =
      (if ok then init_columns n (Suc i) no lens counts m1 else Some (False, m1))"
    using lens i no I(2-4) 1(1) by (simp add: set_column_def)
  have dr: "take (Suc n) (drop i counts) = counts ! i # take n (drop (Suc i) counts)"
    using lens(2) i by (simp add: Cons_nth_drop_Suc [symmetric])
  have room: "ok \<and> plenty (2 * sum_list (map unat (take n (drop (Suc i) counts)))) m1"
    if "plenty (2 * sum_list (map unat (take (Suc n) (drop i counts)))) m"
    using that unfolding dr by (intro 1(6)) (simp add: plenty_def)
  show ?case
  proof (cases ok)
    case False
    then show ?thesis using step room 1(2) by (auto simp: filled_def)
  next
    case True
    have F1: "set F1 = set F \<union> set ns"
      using 1(2) mset_eq_setD [of F1 "F @ ns"] by (simp add: filled_def)
    have kF: "\<forall>a\<in>set F. skey (nodes m1) a = skey (nodes m) a" using 1(2) by (simp add: filled_def)
    have ci: "count_size (nodes m1) l F1 = count_size (nodes m) l F + (if l = lens ! i then length ns else 0)" for l
    proof -
      have "count_size (nodes m1) l F1 = count_size (nodes m1) l (F @ ns)"
        using 1(2) by (intro count_size_mset) (simp add: filled_def)
      moreover have "count_size (nodes m1) l F = count_size (nodes m) l F"
        using kF by (intro count_size_cong) simp
      moreover have "filter (\<lambda>a. skey (nodes m1) a = sint l) ns = (if l = lens ! i then ns else [])"
        using 1(4) by (auto simp: sint_inj filter_id_conv filter_empty_conv)
      ultimately show ?thesis by (simp add: count_size_def)
    qed
    have z: "count_size (nodes m) (lens ! i) F = 0"
    proof -
      have "skey (nodes m) a \<noteq> sint (lens ! i)" if a: "a \<in> set F" for a
      proof -
        obtain j where "j < i" "skey (nodes m) a = sint (lens ! j)"
          using init_invD(2) [OF Suc.prems(1) a] by (elim exE conjE)
        then show ?thesis using lens i by (simp add: sint_inj nth_eq_iff_index_eq)
      qed
      then show ?thesis by (simp add: count_size_def filter_empty_conv)
    qed
    have d: "lens ! j \<noteq> lens ! i" if "j < i" for j using lens i that by (simp add: nth_eq_iff_index_eq)
    have cols1: "block_len (g_memory_pool m1) = (block_len ?g)[i := lens ! i]"
        "block_total_count (g_memory_pool m1) = (block_total_count ?g)[i := counts ! i]"
        "block_used_count (g_memory_pool m1) = (block_used_count ?g)[i := 0]"
      using 1(5) by (simp_all add: cols_def)
    have "init_inv lens counts (Suc i) m1 F1"
      unfolding init_inv_def
    proof (intro conjI allI impI)
      show "core m1 F1 [] []" using 1(2) by (simp add: filled_def)
      show "\<forall>a\<in>set F1. \<exists>j<Suc i. skey (nodes m1) a = sint (lens ! j)"
      proof
        fix a assume "a \<in> set F1"
        then consider "a \<in> set F" | "a \<in> set ns" using F1 by auto
        then show "\<exists>j<Suc i. skey (nodes m1) a = sint (lens ! j)"
        proof cases
          case old: 1
          obtain j where "j < i" "skey (nodes m) a = sint (lens ! j)"
            using init_invD(2) [OF Suc.prems(1) old] by (elim exE conjE)
          then show ?thesis using kF old by (intro exI [of _ j]) simp
        next
          case new: 2
          then show ?thesis using 1(4) by (intro exI [of _ i]) simp
        qed
      qed
      fix j assume j: "j < Suc i"
      show "count_size (nodes m1) (lens ! j) F1 = unat (counts ! j)"
        using j ci [of "lens ! j"] z d [of j] 1(3) True init_invD(3) [OF Suc.prems(1), of j]
        by (cases "j = i") simp_all
      show "block_len (g_memory_pool m1) ! j = lens ! j" "block_total_count (g_memory_pool m1) ! j = counts ! j"
        "block_used_count (g_memory_pool m1) ! j = 0"
        using j i cols1 I(2-4) init_invD(7-9) [OF Suc.prems(1), of j]
        by (cases "j = i"; simp)+
    qed (use cols1 I in simp_all)
    from Suc.IH [OF this] obtain ok' m' F' where
      "init_columns n (Suc i) no lens counts m1 = Some (ok', m')"
      "if ok' then init_inv lens counts (Suc i + n) m' F' else core m' F' [] []"
      "plenty (2 * sum_list (map unat (take n (drop (Suc i) counts)))) m1 \<longrightarrow> ok'"
      using Suc.prems(2) by auto
    then show ?thesis using step True room by auto
  qed
qed

lemma buffer_pool_init_ok:
  assumes lens: "length lens = MAX_COLUME_NUM" "length counts = MAX_COLUME_NUM" "distinct lens"
      "\<forall>l\<in>set lens. 0 < sint l"
    and m: "free_tree (g_memory_pool m) = NULL" "used_tree (g_memory_pool m) = NULL"
      "length (block_len (g_memory_pool m)) = MAX_COLUME_NUM"
      "length (block_total_count (g_memory_pool m)) = MAX_COLUME_NUM"
      "length (block_used_count (g_memory_pool m)) = MAX_COLUME_NUM"
      "arena_ok m" "length (arena m) < 2 ^ 31"
  shows "\<exists>r m'. buffer_pool_init 10 lens counts m = Some (r, m') \<and> (r = 0 \<or> r = - 1) \<and>
     (r = 0 \<longrightarrow> (\<exists>F. pool_inv m' F [] \<and> block_len (g_memory_pool m') = lens \<and>
        (\<forall>i<MAX_COLUME_NUM. count_size (nodes m') (lens ! i) F = unat (counts ! i)) \<and>
        (\<forall>a\<in>set F. \<exists>i<MAX_COLUME_NUM. skey (nodes m') a = sint (lens ! i)))) \<and>
     (plenty (2 * sum_list (map unat counts)) m \<longrightarrow> r = 0)"
proof -
  have "core m [] [] []" using m by (simp add: core_def)
  then have i0: "init_inv lens counts 0 m []" using m by (simp add: init_inv_def)
  have u: "unat (10 :: u32) = 10" by simp
  obtain ok m' F where 1: "init_columns 10 0 10 lens counts m = Some (ok, m')"
      "if ok then init_inv lens counts (0 + 10) m' F else core m' F [] []"
      "plenty (2 * sum_list (map unat (take 10 (drop 0 counts)))) m \<longrightarrow> ok"
    using init_columns_ok [OF lens(1-3) _ i0, of "10 :: u32" 10] u unfolding MAX_COLUME_NUM_def by auto
  have T: "take 10 (drop 0 counts) = counts" using lens(2) by (simp add: MAX_COLUME_NUM_def)
  have "pool_inv m' F [] \<and> block_len (g_memory_pool m') = lens \<and>
        (\<forall>i<MAX_COLUME_NUM. count_size (nodes m') (lens ! i) F = unat (counts ! i)) \<and>
        (\<forall>a\<in>set F. \<exists>i<MAX_COLUME_NUM. skey (nodes m') a = sint (lens ! i))" if ok
  proof -
    have I: "init_inv lens counts MAX_COLUME_NUM m' F" using 1(2) that by (simp add: MAX_COLUME_NUM_def)
    then have bl: "block_len (g_memory_pool m') = lens"
      using lens(1) init_invD(4,7) [OF I] by (intro nth_equalityI) simp_all
    note J = init_invD [OF I]
    have "columns m' F []"
      unfolding columns_def Let_def bl using J lens by (simp add: count_size_def)
    then show ?thesis using J bl by (simp add: pool_inv_def)
  qed
  then show ?thesis using 1 unfolding T by (auto simp: buffer_pool_init_def u)
qed

end
