(* ===== verification/MemTear.thy ===== *)
theory MemTear
  imports MemInit
begin

text \<open>
  The rest of the memory pool: what tearing it down does, what the reports print, and the cases
  in which a request meets columns that were never set or are too large for it.
\<close>

subsection \<open>Tearing the pool down\<close>

lemma push_left_top:
  assumes "push_left h stk p = Some stk'" and "p \<noteq> NULL \<or> stk \<noteq> []"
  shows "stk' \<noteq> []"
proof -
  have "p \<noteq> NULL \<or> stk \<noteq> [] \<longrightarrow> stk' \<noteq> []"
    by (rule push_left.raw_induct [OF _ assms(1), of "\<lambda>h stk p stk'. p \<noteq> NULL \<or> stk \<noteq> [] \<longrightarrow> stk' \<noteq> []"])
      (auto split: if_splits simp: bind_Some_iff)
  then show ?thesis using assms(2) by simp
qed

lemma freed_read: "release h p = Some h' \<Longrightarrow> rd h' p f = None"
  by (auto simp: release_def rd_def load_def split: if_splits)

text \<open>The right child of the node is read after the node has been freed.\<close>

lemma destory_node_undefined: "destory_node root set_root p m = None"
proof (rule ccontr)
  assume "\<not> ?thesis"
  then obtain y where "destory_node root set_root p m = Some y" by auto
  then show False by (auto simp: destory_node_def Let_def bind_Some_iff dest: freed_read [where f = rb_right])
qed

lemma destoryTree_undefined:
  "destoryTree root set_root m = (if root (g_memory_pool m) = NULL then Some m else None)"
proof (cases "root (g_memory_pool m) = NULL")
  case True
  then show ?thesis by (subst destoryTree.simps) simp
next
  case False
  let ?t = "root (g_memory_pool m)"
  have "destory_walk root set_root [] ?t m = None"
    using False push_left_top [of "nodes m" "[]" ?t]
    by (subst destory_walk.simps, cases "push_left (nodes m) [] ?t")
      (auto simp: destory_node_undefined split: list.splits)
  then show ?thesis using False by (subst destoryTree.simps) (simp add: Let_def)
qed

text \<open>The recursive function destroys one leaf of the tree and stops.\<close>

lemma postOrder_leaf:
  "zrep (nodes m, root) t fs \<Longrightarrow> t \<noteq> Leaf \<Longrightarrow> 
   \<exists>a\<in>set (inorder t). postOrderRecursionDestory rt set_rt (root_of t) m = 
      postOrderRecursionDestory rt set_rt a m \<and> 
      rd (nodes m) a rb_left = Some NULL \<and> rd (nodes m) a rb_right = Some NULL"
proof (induction t arbitrary: fs)
  case (Node c l a r)
  note z = zrep_reads [OF Node.prems(1)]
  have zl: "zrep (nodes m, root) l (LeftF c a r # fs)" and zr: "zrep (nodes m, root) r (RightF c l a # fs)"
    using Node.prems(1) by (simp_all add: zrep_up)
  have nl: "root_of l = NULL \<longleftrightarrow> l = Leaf" and nr: "root_of r = NULL \<longleftrightarrow> r = Leaf"
    using root_of_NULL [OF zl] root_of_NULL [OF zr] by auto
  have rds: "rd (nodes m) a rb_left = Some (root_of l)" "rd (nodes m) a rb_right = Some (root_of r)" "a \<noteq> NULL"
    using z by auto
  consider "l \<noteq> Leaf" | "l = Leaf" "r \<noteq> Leaf" | "l = Leaf" "r = Leaf" by blast
  then show ?case
  proof cases
    case 1
    obtain b where "b \<in> set (inorder l)" "postOrderRecursionDestory rt set_rt (root_of l) m = 
      postOrderRecursionDestory rt set_rt b m" "rd (nodes m) b rb_left = Some NULL" "rd (nodes m) b rb_right = Some NULL"
      using Node.IH(1) [OF zl 1] by blast
    moreover have "postOrderRecursionDestory rt set_rt a m = postOrderRecursionDestory rt set_rt (root_of l) m"
      using rds nl 1 by (subst postOrderRecursionDestory.simps) simp
    ultimately show ?thesis by (intro bexI [of _ b]) simp_all
  next
    case 2
    obtain b where "b \<in> set (inorder r)" "postOrderRecursionDestory rt set_rt (root_of r) m = 
      postOrderRecursionDestory rt set_rt b m" "rd (nodes m) b rb_left = Some NULL" "rd (nodes m) b rb_right = Some NULL"
      using Node.IH(2) [OF zr 2(2)] by blast
    moreover have "postOrderRecursionDestory rt set_rt a m = postOrderRecursionDestory rt set_rt (root_of r) m"
      using rds nl nr 2 by (subst postOrderRecursionDestory.simps) simp
    ultimately show ?thesis by (intro bexI [of _ b]) simp_all
  next
    case 3
    then show ?thesis using rds by (intro bexI [of _ a]) simp_all
  qed
qed simp

lemma postOrder_ok:
  assumes inv: "core m F U []" and ne: "F \<noteq> []"
  shows "\<exists>a m'. a \<in> set F \<and>
     postOrderRecursionDestory free_tree set_free_tree (free_tree (g_memory_pool m)) m = Some m' \<and>
     index (nodes m') (free_tree (g_memory_pool m')) (remove1 a F) \<and>
     nodes m' a = None \<and> blocks m' = (blocks m)(block_of (nodes m) a := None)"
proof -
  let ?g = "g_memory_pool m"
  have x: "index (nodes m) (free_tree ?g) F" using coreD [OF inv] by simp
  obtain t where t: "rep (nodes m, free_tree ?g) t" "red_black t" "inorder t = F" using x by (auto simp: index_def)
  have "t \<noteq> Leaf" using t(3) ne by auto
  then obtain a where a: "a \<in> set F" "postOrderRecursionDestory free_tree set_free_tree (root_of t) m =
      postOrderRecursionDestory free_tree set_free_tree a m"
      "rd (nodes m) a rb_left = Some NULL" "rd (nodes m) a rb_right = Some NULL"
    using postOrder_leaf [OF t(1)] t(3) by blast
  have r: "root_of t = free_tree ?g" using root_is_root [OF t(1)] by simp
  obtain n where n: "nodes m a = Some n" "a \<noteq> NULL" using index_nodes [OF x a(1)] by auto
  have ob: "owns_block m a" using coreD [OF inv] a(1) by simp
  then have b: "memoryblock n \<noteq> NULL" "blocks m (memoryblock n) \<noteq> None"
    using n by (auto simp: owns_block_def block_of_def)
  let ?h = "(nodes m)(a \<mapsto> n\<lparr>memoryblock := NULL\<rparr>)"
  let ?m = "m\<lparr>nodes := ?h, blocks := (blocks m)(memoryblock n := None)\<rparr>"
  have fm: "free_memoryblock a m = Some ?m"
    using n b by (auto simp: free_memoryblock_def)
  have sl: "same_links (nodes m) ?h" using n by (simp add: same_links_def my_node.defs rb_node.defs)
  have sk: "skey ?h = skey (nodes m)" using n by (intro ext) (simp add: skey_def)
  have x': "index ?h (free_tree ?g) F"
    using t x same_links_zrep [OF sl] by (auto simp: index_def sk)
  obtain h1 r1 where e: "rb_erase a (?h, free_tree ?g) = Some (h1, r1)" "index h1 r1 (remove1 a F)"
      "only_links ?h h1 (set (remove1 a F))"
    using index_erase [OF x' a(1)] by blast
  have "a \<notin> set (remove1 a F)" using index_distinct [OF x] by simp
  then have h1a: "h1 a = Some (n\<lparr>memoryblock := NULL\<rparr>)" using only_linksD [OF e(3)] by simp
  have "index (h1(a := None)) r1 (remove1 a F)"
    by (rule index_frame [OF e(2)]) (use \<open>a \<notin> set (remove1 a F)\<close> in auto)
  moreover have "postOrderRecursionDestory free_tree set_free_tree a m =
      Some (tree_update set_free_tree (h1(a := None), r1) ?m)"
    using a(3,4) n fm e(1) h1a by (subst postOrderRecursionDestory.simps) simp
  ultimately show ?thesis using a(1,2) r n
    by (intro exI [of _ a] exI [of _ "tree_update set_free_tree (h1(a := None), r1) ?m"])
      (simp add: tree_update_def block_of_def)
qed

subsection \<open>Reports\<close>

text \<open>The lines the source prints for a tree: its nodes in preorder, each with its own key twice.\<close>

definition key_of :: "my_node heap \<Rightarrow> addr \<Rightarrow> u32" where
  "key_of h a = (case h a of None \<Rightarrow> 0 | Some n \<Rightarrow> key n)"

fun tree_lines :: "my_node heap \<Rightarrow> int \<Rightarrow> rbt \<Rightarrow> print_line list" where
  "tree_lines h d Leaf = []"
| "tree_lines h d (Node c l a r) =
     (if d = 0 then Is_root (key_of h a)
      else Is_child (key_of h a) (if c = Red then ''R'' else ''B'') (key_of h a)
        (if d = 1 then ''right'' else ''left''))
     # tree_lines h (- 1) l @ tree_lines h 1 r"

lemma print_rbtree_ok:
  "zrep s t fs \<Longrightarrow> print_rbtree (fst s) (root_of t) (key_of (fst s) (root_of t)) d = Some (tree_lines (fst s) d t)"
proof (induction t arbitrary: fs d)
  case Leaf
  then show ?case by (subst print_rbtree.simps) simp
next
  case (Node c l a r)
  note z = zrep_reads [OF Node.prems(1)]
  have zl: "zrep s l (LeftF c a r # fs)" and zr: "zrep s r (RightF c l a # fs)"
    using Node.prems(1) by (simp_all add: zrep_up)
  have rd_key: "rd (fst s) (root_of u) key = Some (key_of (fst s) (root_of u))"
    if "zrep s u gs" "u \<noteq> Leaf" for u gs
  proof -
    obtain c' l' b r' where u: "u = Node c' l' b r'" using \<open>u \<noteq> Leaf\<close> by (cases u) auto
    then obtain n where "fst s b = Some n" "b \<noteq> NULL" using \<open>zrep s u gs\<close> by (auto simp: zrep_def elim: node_isE)
    then show ?thesis using u by (simp add: key_of_def)
  qed
  have "(if root_of u \<noteq> NULL then do { lk \<leftarrow> rd (fst s) (root_of u) key; print_rbtree (fst s) (root_of u) lk e } else Some [])
      = Some (tree_lines (fst s) e u)" if "zrep s u gs" "\<And>d. print_rbtree (fst s) (root_of u) (key_of (fst s) (root_of u)) d = Some (tree_lines (fst s) d u)" for u gs e
    using that rd_key [OF that(1)] root_of_NULL [OF that(1)] by (cases "u = Leaf") auto
  note sub = this [OF zl Node.IH(1) [OF zl]] this [OF zr Node.IH(2) [OF zr]]
  show ?case using z sub by (subst print_rbtree.simps) simp
qed

lemma my_print_ok:
  assumes "rep s t"
  shows "my_print s = Some (tree_lines (fst s) 0 t)"
proof (cases t)
  case Leaf
  then show ?thesis using root_is_root [OF assms] by (simp add: my_print_def)
next
  case (Node c l a r)
  then obtain n where "fst s a = Some n" "a \<noteq> NULL" using assms by (auto simp: zrep_def elim: node_isE)
  then show ?thesis using print_rbtree_ok [OF assms, of 0] root_is_root [OF assms] Node
    by (simp add: my_print_def key_of_def)
qed

lemma report_rows_eq:
  "length ls = length ts \<Longrightarrow> length us = length ts \<Longrightarrow>
   report_rows k ls ts us = (if 0 \<in> set ts then None
     else Some (map (\<lambda>i. (k + i, ls ! i, ts ! i, us ! i, us ! i * 100 div ts ! i)) [0..<length ts]))"
proof (induction k ls ts us rule: report_rows.induct)
  case (1 i len lens t ts u us)
  have "[0..<length (t # ts)] = 0 # map Suc [0..<length ts]" by (simp add: upt_conv_Cons map_Suc_upt del: upt_Suc)
  then show ?case using 1 by auto
qed auto

lemma used_share:
  assumes "unat u \<le> unat (t :: u32)" "100 * unat u < 2 ^ 32" "t \<noteq> 0"
  shows "unat (u * 100 div t) = 100 * unat u div unat t" "100 * unat u div unat t \<le> 100"
proof -
  have "unat (u * 100) = 100 * unat u" using assms(2) by (simp add: unat_word_ariths)
  then show "unat (u * 100 div t) = 100 * unat u div unat t" by (simp add: unat_div)
  have "0 < unat t" using assms(3) by (simp add: unat_gt_0)
  then show "100 * unat u div unat t \<le> 100"
    using assms(1) div_le_mono [of "100 * unat u" "100 * unat t" "unat t"] by simp
qed

lemma runtime_print_ok:
  assumes inv: "pool_inv m F U" and small: "100 * length U < 2 ^ 32"
  shows "buffer_runtime_print m = None \<longleftrightarrow> 0 \<in> set (block_total_count (g_memory_pool m))"
    and "buffer_runtime_print m = Some rows \<Longrightarrow> length rows = MAX_COLUME_NUM \<and>
      (\<forall>i<MAX_COLUME_NUM. \<exists>pct. let len = block_len (g_memory_pool m) ! i;
           total_blocks = count_size (nodes m) len (F @ U); used = count_size (nodes m) len U in
         rows ! i = (i, len, of_nat total_blocks, of_nat used, pct) \<and>
         unat pct = 100 * used div total_blocks \<and> unat pct \<le> 100)"
proof -
  let ?g = "g_memory_pool m"
  have L: "length (block_len ?g) = MAX_COLUME_NUM" "length (block_total_count ?g) = MAX_COLUME_NUM"
      "length (block_used_count ?g) = MAX_COLUME_NUM"
      "\<And>i. i < MAX_COLUME_NUM \<Longrightarrow> unat (block_total_count ?g ! i) = count_size (nodes m) (block_len ?g ! i) (F @ U)"
      "\<And>i. i < MAX_COLUME_NUM \<Longrightarrow> unat (block_used_count ?g ! i) = count_size (nodes m) (block_len ?g ! i) U"
    using inv by (simp_all add: pool_inv_def columns_def Let_def)
  note eq = report_rows_eq [of "block_len ?g" "block_total_count ?g" "block_used_count ?g" 0, unfolded L, OF refl refl]
  show "buffer_runtime_print m = None \<longleftrightarrow> 0 \<in> set (block_total_count ?g)"
    by (simp add: buffer_runtime_print_def eq)
  assume "buffer_runtime_print m = Some rows"
  then have nz: "0 \<notin> set (block_total_count ?g)" and
    rows: "rows = map (\<lambda>i. (i, block_len ?g ! i, block_total_count ?g ! i, block_used_count ?g ! i,
       block_used_count ?g ! i * 100 div block_total_count ?g ! i)) [0..<MAX_COLUME_NUM]"
    by (auto simp: buffer_runtime_print_def eq split: if_splits)
  have "\<exists>pct. let len = block_len (g_memory_pool m) ! i;
           total_blocks = count_size (nodes m) len (F @ U); used = count_size (nodes m) len U in
         rows ! i = (i, len, of_nat total_blocks, of_nat used, pct) \<and>
         unat pct = 100 * used div total_blocks \<and> unat pct \<le> 100" if i: "i < MAX_COLUME_NUM" for i
  proof -
    have "count_size (nodes m) (block_len ?g ! i) U \<le> length U"
      unfolding count_size_def by (rule length_filter_le)
    moreover have "count_size (nodes m) (block_len ?g ! i) U \<le> count_size (nodes m) (block_len ?g ! i) (F @ U)"
      by (simp add: count_size_def)
    moreover have "block_total_count ?g ! i \<noteq> 0" using nz i L(2) by (metis nth_mem)
    ultimately have "unat (block_used_count ?g ! i * 100 div block_total_count ?g ! i) =
        100 * unat (block_used_count ?g ! i) div unat (block_total_count ?g ! i) \<and>
        100 * unat (block_used_count ?g ! i) div unat (block_total_count ?g ! i) \<le> 100"
      using small i L by (intro conjI used_share) auto
    moreover have "block_total_count ?g ! i = of_nat (count_size (nodes m) (block_len ?g ! i) (F @ U))"
      "block_used_count ?g ! i = of_nat (count_size (nodes m) (block_len ?g ! i) U)"
      using L(4,5) [OF i, symmetric] by simp_all
    ultimately show ?thesis using i rows L(4,5) [OF i]
      by (intro exI [of _ "block_used_count ?g ! i * 100 div block_total_count ?g ! i"]) (simp add: Let_def)
  qed
  then show "length rows = MAX_COLUME_NUM \<and> (\<forall>i<MAX_COLUME_NUM. \<exists>pct. let len = block_len (g_memory_pool m) ! i;
           total_blocks = count_size (nodes m) len (F @ U); used = count_size (nodes m) len U in
         rows ! i = (i, len, of_nat total_blocks, of_nat used, pct) \<and>
         unat pct = 100 * used div total_blocks \<and> unat pct \<le> 100)" using rows by simp
qed

subsection \<open>Columns that were never set\<close>

lemma new_block_node_columns:
  "new_block_node len m = Some (a, m') \<Longrightarrow> g_memory_pool m' = g_memory_pool m"
  by (auto simp: new_block_node_def malloc_node_def malloc_block_def malloc_def Let_def bind_Some_iff
    split: list.splits if_splits)

lemma insert_free_columns:
  "insert_free a m = Some m' \<Longrightarrow> block_len (g_memory_pool m') = block_len (g_memory_pool m) \<and>
   block_total_count (g_memory_pool m') = block_total_count (g_memory_pool m) \<and>
   block_used_count (g_memory_pool m') = block_used_count (g_memory_pool m)"
  by (auto simp: insert_free_def tree_update_def bind_Some_iff)

lemma init_blocks_columns:
  "init_blocks n len m = Some (ok, m') \<Longrightarrow> block_len (g_memory_pool m') = block_len (g_memory_pool m) \<and>
   block_total_count (g_memory_pool m') = block_total_count (g_memory_pool m) \<and>
   block_used_count (g_memory_pool m') = block_used_count (g_memory_pool m)"
  by (induction n arbitrary: m)
    (auto simp: bind_Some_iff split: if_splits dest!: new_block_node_columns insert_free_columns)

lemma init_columns_rest:
  "init_columns n i no lens counts m = Some (ok, m') \<Longrightarrow> i + n \<le> j \<Longrightarrow>
   block_len (g_memory_pool m') ! j = block_len (g_memory_pool m) ! j \<and>
   length (block_len (g_memory_pool m')) = length (block_len (g_memory_pool m)) \<and>
   length (block_total_count (g_memory_pool m')) = length (block_total_count (g_memory_pool m)) \<and>
   length (block_used_count (g_memory_pool m')) = length (block_used_count (g_memory_pool m))"
proof (induction n arbitrary: i m)
  case (Suc n)
  then obtain len count g ok1 m1 where
    1: "(if unat no \<le> MAX_COLUME_NUM then set_column i len count (g_memory_pool m)
           else Some (g_memory_pool m)) = Some g"
    "init_blocks (unat count) len (m\<lparr>g_memory_pool := g\<rparr>) = Some (ok1, m1)"
    "(if ok1 then init_columns n (Suc i) no lens counts m1 else Some (False, m1)) = Some (ok, m')"
    by (auto simp: bind_Some_iff)
  have g: "block_len g ! j = block_len (g_memory_pool m) ! j \<and> length (block_len g) = length (block_len (g_memory_pool m)) \<and>
      length (block_total_count g) = length (block_total_count (g_memory_pool m)) \<and>
      length (block_used_count g) = length (block_used_count (g_memory_pool m))"
    using 1(1) Suc.prems(2) by (auto simp: set_column_def bind_Some_iff arr_set_def split: if_splits)
  show ?case
  proof (cases ok1)
    case True
    then have "init_columns n (Suc i) no lens counts m1 = Some (ok, m')" using 1(3) by simp
    from Suc.IH [OF this] show ?thesis using init_blocks_columns [OF 1(2)] g Suc.prems(2) by simp
  next
    case False
    then show ?thesis using 1(3) init_blocks_columns [OF 1(2)] g by auto
  qed
qed simp

lemma unset_column_undefined:
  assumes "length (block_len (g_memory_pool m)) = MAX_COLUME_NUM"
    "length (block_total_count (g_memory_pool m)) = MAX_COLUME_NUM"
    "length (block_used_count (g_memory_pool m)) = MAX_COLUME_NUM"
    and z: "block_len (g_memory_pool m) ! (MAX_COLUME_NUM - 1) = 0"
    and req: "0 < sint req" and mem: "fst (malloc m) \<noteq> NULL"
  shows "buffer_malloc req m = Undefined"
proof -
  obtain l as where a: "arena m = l # as" "l \<noteq> NULL"
    using mem by (cases "arena m") (auto simp: malloc_def)
  have c: "malloc_columns MAX_COLUME_NUM r l k = Undefined" if "g_memory_pool k = g_memory_pool m" "0 < r" for r k
  proof -
    have "malloc_column (MAX_COLUME_NUM - 1) r l k = Undefined"
      using assms(1-3) z that by (simp add: malloc_column_def MAX_COLUME_NUM_def)
    moreover have "MAX_COLUME_NUM = Suc (MAX_COLUME_NUM - 1)" by (simp add: MAX_COLUME_NUM_def)
    ultimately show ?thesis using that(2) malloc_columns.simps(2) [of "MAX_COLUME_NUM - 1" r l k] by simp
  qed
  show ?thesis
    using a req by (simp add: buffer_malloc_def malloc_cell_def malloc_def c)
qed

lemma plan_small:
  "\<forall>j<i. 0 < sint (lens ! j) \<and> r \<le> sint (lens ! j) div 2 \<Longrightarrow> plan lens i r = []"
proof (induction i)
  case (Suc i)
  have j: "0 < sint (lens ! i)" "r \<le> sint (lens ! i) div 2" using Suc.prems by auto
  show ?case
  proof (cases "r > 0")
    case True
    have "r sdiv sint (lens ! i) = 0" "r smod sint (lens ! i) = r" "sint (lens ! i) sdiv 2 = sint (lens ! i) div 2"
      using j True by (simp_all add: signed_divide_int_def signed_modulo_int_def)
    then have "column_count (sint (lens ! i)) r = (0, r)" using j(2) by (simp add: column_count_def)
    then show ?thesis using Suc by simp
  qed simp
qed simp


lemma column_count_rounds:
  "column_count len r = (c, r') \<Longrightarrow> 0 < len \<Longrightarrow> 0 < r \<Longrightarrow> r' = 0 \<or> c * len + r' = r"
  by (auto simp: column_count_def Let_def signed_divide_int_def signed_modulo_int_def sgn_1_pos
    mult.commute split: if_splits)

lemma plan_Nil: "r \<le> 0 \<Longrightarrow> plan lens i r = []"
  by (cases i) auto

lemma plan_excess:
  "\<forall>j<i. 0 < sint (lens ! j) \<and> sint (lens ! j) \<le> L \<Longrightarrow> 0 \<le> r \<Longrightarrow> 0 \<le> L \<Longrightarrow> r < 2 ^ 31 \<Longrightarrow>
   sum_list (plan lens i r) \<le> r + L div 2"
proof (induction i arbitrary: r)
  case (Suc i)
  have L: "0 \<le> L div 2" using Suc.prems(3) by simp
  show ?case
  proof (cases "r > 0")
    case True
    obtain c r' where cc: "column_count (sint (lens ! i)) r = (c, r')" by (cases "column_count (sint (lens ! i)) r")
    have pos: "0 < sint (lens ! i)" "sint (lens ! i) \<le> L" using Suc.prems(1) by auto
    note cb = column_count_ok [OF cc pos(1) True Suc.prems(4)]
    have s: "sum_list (plan lens (Suc i) r) = c * sint (lens ! i) + sum_list (plan lens i r')"
      using True cc cb(1) by (simp add: sum_list_replicate)
    show ?thesis
    proof (cases "r' = 0")
      case True
      have "sint (lens ! i) div 2 \<le> L div 2" using pos by (intro zdiv_mono1) auto
      then show ?thesis using s cb(7) True by (simp add: plan_Nil)
    next
      case False
      then have "c * sint (lens ! i) + r' = r" using column_count_rounds [OF cc pos(1) True] by simp
      moreover have "sum_list (plan lens i r') \<le> r' + L div 2"
        using Suc.prems cb(3,4) by (intro Suc.IH) auto
      ultimately show ?thesis using s by simp
    qed
  next
    case False
    then show ?thesis using L Suc.prems(2) by simp
  qed
qed simp

lemma tree_lines_self: "Is_child k c k' d \<in> set (tree_lines h e t) \<Longrightarrow> k' = k"
  by (induction t arbitrary: e) (auto split: if_splits)

lemma ten_columns: "MAX_COLUME_NUM = Suc (Suc (Suc (Suc (Suc (Suc (Suc (Suc (Suc (Suc 0)))))))))"
  by (simp add: MAX_COLUME_NUM_def)

subsection \<open>The pool functions as a client sees them\<close>

lemma search_fits:
  assumes x: "index h root xs" "length xs < 2 ^ 50"
  shows "\<exists>a. InorderSearchMemblockSize h root k = Some a \<and>
    (a \<noteq> NULL \<longrightarrow> a \<in> set xs \<and> sint k \<le> skey h a \<and>
       (\<forall>b\<in>set xs. sint k \<le> skey h b \<longrightarrow> skey h a \<le> skey h b)) \<and>
    (a = NULL \<longleftrightarrow> (\<forall>b\<in>set xs. skey h b < sint k))"
proof (cases "find (\<lambda>a. sint k \<le> skey h a) xs")
  case None
  then have "InorderSearchMemblockSize h root k = Some NULL"
    using bi.search [OF x, of k] by (simp add: found_def)
  moreover have "\<forall>b\<in>set xs. skey h b < sint k" using None by (auto simp: find_None_iff not_le)
  ultimately show ?thesis by (intro exI [of _ NULL]) simp
next
  case (Some a)
  then obtain i where i: "i < length xs" "sint k \<le> skey h (xs ! i)" "a = xs ! i"
      "\<forall>j<i. \<not> sint k \<le> skey h (xs ! j)"
    by (auto simp: find_Some_iff)
  have "skey h a \<le> skey h b" if b: "b \<in> set xs" "sint k \<le> skey h b" for b
  proof -
    obtain j where j: "j < length xs" "b = xs ! j" using b(1) by (auto simp: in_set_conv_nth)
    then have "i \<le> j" using i(4) b(2) by (metis not_le_imp_less)
    then show ?thesis using sorted_nth_mono [OF index_sorted [OF x(1)], of i j] i j by simp
  qed
  moreover have "a \<in> set xs" "a \<noteq> NULL" using i index_nodes(1) [OF x(1), of a] by auto
  ultimately show ?thesis using bi.search [OF x, of k] Some i(2,3)
    by (intro exI [of _ a]) (auto simp: found_def not_less)
qed

lemma malloc_served:
  assumes inv: "pool_inv m F U" and req: "0 < sint req"
    and ns: "ns = plan (block_len (g_memory_pool m)) MAX_COLUME_NUM (sint req)"
    and mem: "plenty (1 + 3 * length ns) m"
    and L: "\<forall>len\<in>set (block_len (g_memory_pool m)). sint len \<le> L"
  shows "\<exists>l m' F' U' ds. buffer_malloc req m = Return (l, m') \<and> l \<noteq> NULL \<and> served m F U l m' F' U' ds ns \<and>
    sint req \<le> sum_list ns + sint (block_len (g_memory_pool m) ! 0) div 2 \<and>
    sum_list ns \<le> sint req + L div 2"
proof -
  have cl: "columns m F U" using pool_invD [OF inv] by simp
  have pos: "0 < sint (block_len (g_memory_pool m) ! j) \<and> sint (block_len (g_memory_pool m) ! j) \<le> L"
    if "j < MAX_COLUME_NUM" for j
    using columnsD [OF cl] L that by simp
  have z: "0 < MAX_COLUME_NUM" by (simp add: MAX_COLUME_NUM_def)
  have L0: "0 \<le> L" using pos [OF z] by linarith
  have small: "sint req < 2 ^ 31" using sint_lt [of req] by simp
  have "sint req \<le> sum_list ns + sint (block_len (g_memory_pool m) ! 0) div 2"
    unfolding ns using pos z small by (intro plan_shortfall) auto
  moreover have "sum_list ns \<le> sint req + L div 2"
    unfolding ns using pos req small L0 by (intro plan_excess) auto
  moreover have "\<exists>l m' F' U' ds. buffer_malloc req m = Return (l, m') \<and> l \<noteq> NULL \<and> served m F U l m' F' U' ds ns"
    using buffer_malloc_ok [OF inv ns] mem by (cases "buffer_malloc req m") (auto split: if_splits, blast)
  ultimately show ?thesis by blast
qed

lemma malloc_safe:
  assumes "pool_inv m F U"
  shows "buffer_malloc req m \<noteq> Undefined \<and>
    (\<forall>l m'. buffer_malloc req m = Return (l, m') \<longrightarrow> (\<exists>F' U'. pool_inv m' F' U'))"
proof (cases "buffer_malloc req m")
  case (Return x)
  then show ?thesis using buffer_malloc_ok [OF assms refl, of req]
    by (cases x) (auto simp: served_def split: if_splits)
qed (use buffer_malloc_ok [OF assms refl, of req] in auto)

lemma free_returns:
  assumes "pool_inv m F U" and "headed (cells m) l ds" and "mset (map snd ds) \<subseteq># mset U"
  shows "\<exists>m' F' U'. buffer_free l m = Some (0, m') \<and> pool_inv m' F' U' \<and>
     mset F' = mset F + mset (map snd ds) \<and> mset U = mset U' + mset (map snd ds) \<and>
     dom (cells m') = dom (cells m) - fst ` set ds \<and> l \<in> dom (cells m')"
proof -
  have "l \<notin> fst ` set ds" "l \<in> dom (cells m)" using assms(2) by (auto simp: headed_def)
  then show ?thesis using buffer_free_ok [OF assms] by fastforce
qed

lemma malloc_free:
  assumes inv: "pool_inv m F U" and r: "buffer_malloc req m = Return (l, m1)" and l: "l \<noteq> NULL"
  shows "\<exists>m2 F2 U2. buffer_free l m1 = Some (0, m2) \<and> pool_inv m2 F2 U2 \<and>
    mset U2 = mset U \<and> mset F \<subseteq># mset F2"
proof -
  obtain F1 U1 ds ns where s: "served m F U l m1 F1 U1 ds ns"
    using buffer_malloc_ok [OF inv refl, of req] r l by auto
  then have s': "pool_inv m1 F1 U1" "headed (cells m1) l ds" "mset U1 = mset U + mset (map snd ds)"
      "mset F \<subseteq># mset F1 + mset (map snd ds)"
    by (simp_all add: served_def)
  have "mset (map snd ds) \<subseteq># mset U1" unfolding s'(3) by simp
  from free_returns [OF s'(1,2) this] obtain m2 F2 U2 where
    "buffer_free l m1 = Some (0, m2)" "pool_inv m2 F2 U2"
    "mset F2 = mset F1 + mset (map snd ds)" "mset U1 = mset U2 + mset (map snd ds)"
    by blast
  then show ?thesis using s'(3,4) by (intro exI [of _ m2] exI [of _ F2] exI [of _ U2]) simp
qed

lemma small_request:
  assumes inv: "pool_inv m F U" and mem: "plenty 1 m"
    and small: "\<forall>len\<in>set (block_len (g_memory_pool m)). sint req \<le> sint len div 2"
  shows "\<exists>l m'. buffer_malloc req m = Return (l, m') \<and> l \<noteq> NULL \<and> headed (cells m') l []"
proof -
  have cl: "columns m F U" using pool_invD [OF inv] by simp
  have "[] = plan (block_len (g_memory_pool m)) MAX_COLUME_NUM (sint req)"
    using columnsD [OF cl] small by (intro plan_small [symmetric]) simp
  from buffer_malloc_ok [OF inv this] mem show ?thesis
    by (cases "buffer_malloc req m") (auto simp: served_def split: if_splits)
qed

lemma fewer_columns:
  assumes r: "buffer_pool_init no lens counts m = Some (0, m')" and no: "unat no < MAX_COLUME_NUM"
    and m: "block_len (g_memory_pool m) = replicate MAX_COLUME_NUM 0"
      "length (block_total_count (g_memory_pool m)) = MAX_COLUME_NUM"
      "length (block_used_count (g_memory_pool m)) = MAX_COLUME_NUM"
    and req: "0 < sint req" and mem: "fst (malloc m') \<noteq> NULL"
  shows "buffer_malloc req m' = Undefined"
proof -
  obtain ok where "init_columns (unat no) 0 no lens counts m = Some (ok, m')"
    using r by (auto simp: buffer_pool_init_def bind_Some_iff)
  from init_columns_rest [OF this, of "MAX_COLUME_NUM - 1"] show ?thesis
    using no m by (intro unset_column_undefined [OF _ _ _ _ req mem]) (simp_all add: MAX_COLUME_NUM_def)
qed

lemma index_root: "index h root xs \<Longrightarrow> root = NULL \<longleftrightarrow> xs = []"
  using root_is_root root_of_NULL by (fastforce simp: index_def)

lemma destory_undefined:
  assumes "pool_inv m F U"
  shows "buffer_pool_destory m = (if F = [] \<and> U = [] then Some m else None)"
proof -
  have c: "core m F U []" using pool_invD [OF assms] by simp
  show ?thesis using index_root [OF coreD(1) [OF c]] index_root [OF coreD(2) [OF c]]
    by (simp add: buffer_pool_destory_def destoryTree_undefined)
qed

end
