(* ===== verification/MemProps.thy ===== *)
theory MemProps
  imports MemTear
begin

text \<open>
  What the memory pool promises, each with a witness on a concrete pool: the index by size, the
  initialisation, serving a request, giving blocks back, and the behaviours that are not what the
  code means to do.
\<close>

subsection \<open>A concrete pool\<close>

text \<open>A free block of 32 bytes, a used one of 16 in a list headed by cell 768, and four free addresses.\<close>

definition demo_nodes :: "my_node heap" where
  "demo_nodes =
     [256 \<mapsto> \<lparr>rb_parent_color = 1, rb_right = 0, rb_left = 0, key = 32, memoryblock = 4096\<rparr>,
      512 \<mapsto> \<lparr>rb_parent_color = 1, rb_right = 0, rb_left = 0, key = 16, memoryblock = 8192\<rparr>]"

definition demo_lens :: "u32 list" where
  "demo_lens = [16, 32, 64, 128, 256, 512, 1024, 2048, 4096, 8192]"

definition demo_pool :: mem where
  "demo_pool = \<lparr>nodes = demo_nodes,
     cells = [768 \<mapsto> \<lparr>my_node_ptr = 0, Next = 784\<rparr>, 784 \<mapsto> \<lparr>my_node_ptr = 512, Next = 0\<rparr>],
     blocks = [4096 \<mapsto> 32, 8192 \<mapsto> 16],
     arena = [1024, 1040, 1056, 1072],
     g_memory_pool = \<lparr>free_tree = 256, used_tree = 512, block_len = demo_lens,
       block_total_count = [1, 1, 0, 0, 0, 0, 0, 0, 0, 0],
       block_used_count = [1, 0, 0, 0, 0, 0, 0, 0, 0, 0]\<rparr>\<rparr>"

lemma demo_leaf:
  "h a = Some n \<Longrightarrow> rb_parent_color n = 1 \<Longrightarrow> rb_left n = 0 \<Longrightarrow> rb_right n = 0 \<Longrightarrow> a \<noteq> NULL \<Longrightarrow> ptr_ok a \<Longrightarrow>
   index h a [a]"
  unfolding index_def
  by (intro exI [of _ "Node Black Leaf a Leaf"])
    (simp add: zrep_def rb_parent_def rb_is_red_def rb_color_def)

lemma demo_index: "index demo_nodes 256 [256]" "index demo_nodes 512 [512]"
proof -
  show "index demo_nodes 256 [256]"
    by (rule demo_leaf [of _ _ "\<lparr>rb_parent_color = 1, rb_right = 0, rb_left = 0, key = 32, memoryblock = 4096\<rparr>"])
      (simp_all add: demo_nodes_def ptr_ok_def)
  show "index demo_nodes 512 [512]"
    by (rule demo_leaf [of _ _ "\<lparr>rb_parent_color = 1, rb_right = 0, rb_left = 0, key = 16, memoryblock = 8192\<rparr>"])
      (simp_all add: demo_nodes_def ptr_ok_def)
qed

lemma demo_skey [simp]: "skey demo_nodes 256 = 32" "skey demo_nodes 512 = 16"
  by (simp_all add: demo_nodes_def skey_def)

lemma demo_core: "core demo_pool [256] [512] []"
  using demo_index
  by (simp add: core_def demo_pool_def owns_block_def block_of_def arena_ok_def ptr_ok_def)
    (simp add: demo_nodes_def)

lemma each_column:
  "(\<forall>i<MAX_COLUME_NUM. P i) \<longleftrightarrow> P 0 \<and> P 1 \<and> P 2 \<and> P 3 \<and> P 4 \<and> P 5 \<and> P 6 \<and> P 7 \<and> P 8 \<and> P 9"
proof -
  have "{..<10} = {0, 1, 2, 3, 4, 5, 6, 7, 8, 9 :: nat}" by (auto simp: lessThan_nat_numeral)
  then show ?thesis unfolding MAX_COLUME_NUM_def lessThan_iff [symmetric] Ball_def [symmetric] by simp
qed

lemma demo_lens_ok:
  "length demo_lens = MAX_COLUME_NUM" "distinct demo_lens" "\<forall>len\<in>set demo_lens. 0 < sint len"
  "\<forall>len\<in>set demo_lens. 16 \<le> sint len"
  by (simp_all add: demo_lens_def MAX_COLUME_NUM_def)

lemma demo_columns: "columns demo_pool [256] [512]"
  unfolding columns_def Let_def each_column
  using demo_lens_ok
  by (simp add: demo_pool_def MAX_COLUME_NUM_def count_size_def) (simp add: demo_lens_def)

lemma demo_inv: "pool_inv demo_pool [256] [512]"
  by (simp add: pool_inv_def demo_core demo_columns)

definition demo_fresh_pool :: mem where
  "demo_fresh_pool = \<lparr>nodes = Map.empty, cells = Map.empty, blocks = Map.empty,
     arena = [1024, 1040, 1056, 1072],
     g_memory_pool = \<lparr>free_tree = 0, used_tree = 0, block_len = replicate 10 0,
       block_total_count = replicate 10 0, block_used_count = replicate 10 0\<rparr>\<rparr>"

definition demo_counts :: "u32 list" where
  "demo_counts = [1, 1, 0, 0, 0, 0, 0, 0, 0, 0]"

lemma demo_fresh_pool_ok:
  "free_tree (g_memory_pool demo_fresh_pool) = NULL" "used_tree (g_memory_pool demo_fresh_pool) = NULL"
  "length (block_len (g_memory_pool demo_fresh_pool)) = MAX_COLUME_NUM"
  "length (block_total_count (g_memory_pool demo_fresh_pool)) = MAX_COLUME_NUM"
  "length (block_used_count (g_memory_pool demo_fresh_pool)) = MAX_COLUME_NUM"
  "arena_ok demo_fresh_pool" "length (arena demo_fresh_pool) < 2 ^ 31" "plenty 4 demo_fresh_pool"
  by (simp_all add: demo_fresh_pool_def MAX_COLUME_NUM_def arena_ok_def ptr_ok_def plenty_def)

subsection \<open>Properties\<close>

text \<open>
  The index by size. Inserting a node into a tree of the pool is \<open>insort_key\<close> by the signed
  size: the new node goes before the nodes of its own size. It returns and touches only links.
\<close>

theorem insert_block_sorted:
  assumes "index h root xs" and "h a = Some n" and "a \<noteq> NULL" and "ptr_ok a" and "a \<notin> set xs"
  shows "\<exists>h' root'. insertMemBlockNode a (h, root) = Some (h', root') \<and>
    index h' root' (insort_key (skey h) a xs) \<and> only_links h h' (insert a (set xs))"
  by (rule index_insert [OF assms])

theorem insert_block_sorted_witness:
  "\<exists>h' root'. insertMemBlockNode 512 (demo_nodes, 256) = Some (h', root') \<and>
    index h' root' [512, 256] \<and> only_links demo_nodes h' {512, 256}"
  using insert_block_sorted [OF demo_index(1), of 512 "the (demo_nodes 512)"]
  by (simp add: demo_nodes_def ptr_ok_def)

text \<open>
  Best fit. The search of the free tree returns, without running over its stack of \<^verbatim>\<open>MAXSIZE\<close>
  entries, a smallest node that is large enough, and null exactly when every node is too small.
\<close>

theorem search_best_fit:
  assumes "index h root xs" and "length xs < 2 ^ 50"
  shows "\<exists>a. InorderSearchMemblockSize h root k = Some a \<and>
    (a \<noteq> NULL \<longrightarrow> a \<in> set xs \<and> sint k \<le> skey h a \<and>
       (\<forall>b\<in>set xs. sint k \<le> skey h b \<longrightarrow> skey h a \<le> skey h b)) \<and>
    (a = NULL \<longleftrightarrow> (\<forall>b\<in>set xs. skey h b < sint k))"
  by (rule search_fits [OF assms])

theorem search_best_fit_witness:
  "\<exists>a. InorderSearchMemblockSize demo_nodes 256 20 = Some a \<and> a = 256"
proof -
  obtain a where "InorderSearchMemblockSize demo_nodes 256 20 = Some a" "a \<noteq> NULL \<longrightarrow> a \<in> set [256]"
      "a = NULL \<longleftrightarrow> (\<forall>b\<in>set [256]. skey demo_nodes b < sint (20 :: u32))"
    using search_best_fit [OF demo_index(1), of 20] by auto
  then show ?thesis by auto
qed

text \<open>
  C7. Initialisation. \<^verbatim>\<open>buffer_pool_init\<close> with ten distinct positive sizes returns 0 or -1, 0 when
  there is memory for two allocations per block; after 0 the invariant holds, the used tree is
  empty, and the free tree holds exactly the requested number of blocks of every size.
\<close>

theorem init_fills_pool:
  assumes "length lens = MAX_COLUME_NUM" and "length counts = MAX_COLUME_NUM" and "distinct lens"
    and "\<forall>l\<in>set lens. 0 < sint l"
    and "free_tree (g_memory_pool m) = NULL" and "used_tree (g_memory_pool m) = NULL"
    and "length (block_len (g_memory_pool m)) = MAX_COLUME_NUM"
    and "length (block_total_count (g_memory_pool m)) = MAX_COLUME_NUM"
    and "length (block_used_count (g_memory_pool m)) = MAX_COLUME_NUM"
    and "arena_ok m" and "length (arena m) < 2 ^ 31"
  shows "\<exists>r m'. buffer_pool_init 10 lens counts m = Some (r, m') \<and> (r = 0 \<or> r = - 1) \<and>
     (r = 0 \<longrightarrow> (\<exists>F. pool_inv m' F [] \<and> block_len (g_memory_pool m') = lens \<and>
        (\<forall>i<MAX_COLUME_NUM. count_size (nodes m') (lens ! i) F = unat (counts ! i)) \<and>
        (\<forall>a\<in>set F. \<exists>i<MAX_COLUME_NUM. skey (nodes m') a = sint (lens ! i)))) \<and>
     (plenty (2 * sum_list (map unat counts)) m \<longrightarrow> r = 0)"
  by (rule buffer_pool_init_ok [OF assms])

theorem init_fills_pool_witness:
  "\<exists>m' F. buffer_pool_init 10 demo_lens demo_counts demo_fresh_pool = Some (0, m') \<and> pool_inv m' F [] \<and>
    count_size (nodes m') 16 F = 1"
proof -
  have c: "length demo_counts = MAX_COLUME_NUM" "2 * sum_list (map unat demo_counts) = 4"
    "demo_counts ! 0 = 1" "demo_lens ! 0 = 16" "0 < MAX_COLUME_NUM"
    by (simp_all add: demo_counts_def demo_lens_def MAX_COLUME_NUM_def)
  obtain r m' where 1: "buffer_pool_init 10 demo_lens demo_counts demo_fresh_pool = Some (r, m')"
    "r = 0 \<longrightarrow> (\<exists>F. pool_inv m' F [] \<and> (\<forall>i<MAX_COLUME_NUM. count_size (nodes m') (demo_lens ! i) F = unat (demo_counts ! i)))"
    "plenty (2 * sum_list (map unat demo_counts)) demo_fresh_pool \<longrightarrow> r = 0"
    using init_fills_pool [OF demo_lens_ok(1) c(1) demo_lens_ok(2,3) demo_fresh_pool_ok(1-7)] by blast
  then have "r = 0" using demo_fresh_pool_ok(8) c by simp
  then obtain F where "pool_inv m' F []" "\<forall>i<MAX_COLUME_NUM. count_size (nodes m') (demo_lens ! i) F = unat (demo_counts ! i)"
    using 1(2) by blast
  moreover from this(2) have "count_size (nodes m') 16 F = 1" using c(3-5) by (metis unat_1)
  ultimately show ?thesis using 1(1) \<open>r = 0\<close> by blast
qed



text \<open>
  C9. Running short of memory. From the invariant \<^verbatim>\<open>buffer_malloc\<close> is never undefined, for any
  request; it may exit the program, and when it returns, null included, the invariant holds.
\<close>

theorem malloc_is_safe:
  assumes "pool_inv m F U"
  shows "buffer_malloc req m \<noteq> Undefined \<and>
    (\<forall>l m'. buffer_malloc req m = Return (l, m') \<longrightarrow> (\<exists>F' U'. pool_inv m' F' U'))"
  by (rule malloc_safe [OF assms])

theorem malloc_is_safe_witness:
  "buffer_malloc 100000 demo_pool \<noteq> Undefined"
  using malloc_is_safe [OF demo_inv] by blast

text \<open>
  Giving blocks back. \<^verbatim>\<open>buffer_free\<close> of a list of used nodes returns 0, moves exactly these nodes
  to the free tree, keeps the invariant and frees the cells of the list, but not its head.
\<close>

theorem free_gives_back:
  assumes "pool_inv m F U" and "headed (cells m) l ds" and "mset (map snd ds) \<subseteq># mset U"
  shows "\<exists>m' F' U'. buffer_free l m = Some (0, m') \<and> pool_inv m' F' U' \<and>
     mset F' = mset F + mset (map snd ds) \<and> mset U = mset U' + mset (map snd ds) \<and>
     dom (cells m') = dom (cells m) - fst ` set ds \<and> l \<in> dom (cells m')"
  by (rule free_returns [OF assms])

theorem free_gives_back_witness:
  "\<exists>m' F'. buffer_free 768 demo_pool = Some (0, m') \<and> pool_inv m' F' [] \<and> mset F' = {#256, 512#} \<and>
    dom (cells m') = {768}"
proof -
  have h: "headed (cells demo_pool) 768 [(784, 512)]" by (simp add: headed_def demo_pool_def)
  obtain m' F' U' where 1: "buffer_free 768 demo_pool = Some (0, m')" "pool_inv m' F' U'"
    "mset F' = mset [256] + mset (map snd [(784 :: addr, 512)])" "mset [512] = mset U' + mset (map snd [(784 :: addr, 512)])"
    "dom (cells m') = dom (cells demo_pool) - fst ` set [(784 :: addr, 512 :: addr)]"
    using free_gives_back [OF demo_inv h] by auto
  have "U' = []" using 1(4) by simp
  moreover have "dom (cells m') = {768}" unfolding 1(5) by (auto simp: demo_pool_def)
  moreover have "mset F' = {#256, 512#}" using 1(3) by simp
  ultimately show ?thesis using 1(1,2) by blast
qed

text \<open>
  C10. Round trip. Whatever \<^verbatim>\<open>buffer_malloc\<close> returns, \<^verbatim>\<open>buffer_free\<close> of it restores the used blocks and
  loses no free one.
\<close>

theorem malloc_free_roundtrip:
  assumes "pool_inv m F U" and "buffer_malloc req m = Return (l, m1)" and "l \<noteq> NULL"
  shows "\<exists>m2 F2 U2. buffer_free l m1 = Some (0, m2) \<and> pool_inv m2 F2 U2 \<and>
    mset U2 = mset U \<and> mset F \<subseteq># mset F2"
  by (rule malloc_free [OF assms])

theorem malloc_free_roundtrip_witness:
  "\<exists>l m1 m2 F2 U2. buffer_malloc 0 demo_pool = Return (l, m1) \<and> buffer_free l m1 = Some (0, m2) \<and>
    pool_inv m2 F2 U2 \<and> mset U2 = {#512#}"
proof -
  obtain l m1 where 1: "buffer_malloc 0 demo_pool = Return (l, m1)" "l \<noteq> NULL"
    by (simp add: buffer_malloc_def demo_pool_def malloc_cell_def malloc_def ten_columns)
  from malloc_free_roundtrip [OF demo_inv this] show ?thesis using 1(1) by auto
qed

text \<open>
  A request of at most half of the smallest block is met with an empty list: the pool hands out
  a head without a single block, and the caller has no memory.
\<close>

theorem small_request_gets_nothing:
  assumes "pool_inv m F U" and "plenty 1 m"
    and "\<forall>len\<in>set (block_len (g_memory_pool m)). sint req \<le> sint len div 2"
  shows "\<exists>l m'. buffer_malloc req m = Return (l, m') \<and> l \<noteq> NULL \<and> headed (cells m') l []"
  by (rule small_request [OF assms])

theorem small_request_gets_nothing_witness:
  "\<exists>l m'. buffer_malloc 8 demo_pool = Return (l, m') \<and> l \<noteq> NULL \<and> headed (cells m') l []"
  by (rule small_request_gets_nothing [OF demo_inv]) (simp_all add: demo_pool_def demo_lens_def plenty_def)

text \<open>
  A pool initialised with fewer than ten columns: the last column of the zeroed static pool
  stays 0, and the first positive request divides by it.
\<close>

theorem fewer_columns_divide_by_zero:
  assumes "buffer_pool_init no lens counts m = Some (0, m')" and "unat no < MAX_COLUME_NUM"
    and "block_len (g_memory_pool m) = replicate MAX_COLUME_NUM 0"
    and "length (block_total_count (g_memory_pool m)) = MAX_COLUME_NUM"
    and "length (block_used_count (g_memory_pool m)) = MAX_COLUME_NUM"
    and "0 < sint req" and "fst (malloc m') \<noteq> NULL"
  shows "buffer_malloc req m' = Undefined"
  by (rule fewer_columns [OF assms])

theorem fewer_columns_divide_by_zero_witness:
  "buffer_malloc 5 demo_fresh_pool = Undefined"
  by (rule fewer_columns_divide_by_zero [of 0 "[]" "[]" demo_fresh_pool])
    (simp_all add: buffer_pool_init_def demo_fresh_pool_def MAX_COLUME_NUM_def malloc_def)

text \<open>
  Tearing down. \<^verbatim>\<open>buffer_pool_destory\<close> is defined only on a pool without blocks: on any other it
  reads the right child of a node it has freed.
\<close>

theorem destory_uses_freed_node:
  assumes "pool_inv m F U"
  shows "buffer_pool_destory m = (if F = [] \<and> U = [] then Some m else None)"
  by (rule destory_undefined [OF assms])

theorem destory_uses_freed_node_witness: "buffer_pool_destory demo_pool = None"
  using destory_uses_freed_node [OF demo_inv] by simp

text \<open>
  \<^verbatim>\<open>postOrderRecursionDestory\<close> on the free tree returns after it has removed one node, its block
  and its struct; the other nodes stay in the tree.
\<close>

theorem postorder_destroys_one:
  assumes "pool_inv m F U" and "F \<noteq> []"
  shows "\<exists>a m'. a \<in> set F \<and>
     postOrderRecursionDestory free_tree set_free_tree (free_tree (g_memory_pool m)) m = Some m' \<and>
     index (nodes m') (free_tree (g_memory_pool m')) (remove1 a F) \<and>
     nodes m' a = None \<and> blocks m' = (blocks m)(block_of (nodes m) a := None)"
  by (rule postOrder_ok [OF pool_invD [OF assms(1), THEN conjunct1] assms(2)])

theorem postorder_destroys_one_witness:
  "\<exists>m'. postOrderRecursionDestory free_tree set_free_tree 256 demo_pool = Some m' \<and> nodes m' 256 = None \<and>
    blocks m' 4096 = None"
  using postorder_destroys_one [OF demo_inv] by (auto simp: demo_pool_def demo_nodes_def block_of_def)

text \<open>
  The printed tree: one line per node in preorder; the line of a child names the child's own
  key where the format speaks of its parent.
\<close>

theorem print_names_itself:
  assumes "rep s t"
  shows "my_print s = Some (tree_lines (fst s) 0 t) \<and>
    (\<forall>k c k' d. Is_child k c k' d \<in> set (tree_lines (fst s) 0 t) \<longrightarrow> k' = k)"
  using my_print_ok [OF assms] tree_lines_self by blast

theorem print_names_itself_witness: "my_print (demo_nodes, 256) = Some [Is_root 32]"
  using print_names_itself [of "(demo_nodes, 256)" "Node Black Leaf 256 Leaf"]
  by (simp add: zrep_def demo_nodes_def rb_parent_def rb_is_red_def rb_color_def ptr_ok_def key_of_def)

text \<open>
  The runtime report is undefined (a division by zero) exactly when some column has no block;
  otherwise it shows for every column the blocks in both trees, the used ones and their share.
\<close>

theorem report_matches_trees:
  assumes "pool_inv m F U" and "100 * length U < 2 ^ 32"
  shows "case buffer_runtime_print m of
      None \<Rightarrow> 0 \<in> set (block_total_count (g_memory_pool m))
    | Some rows \<Rightarrow> 0 \<notin> set (block_total_count (g_memory_pool m)) \<and> length rows = MAX_COLUME_NUM \<and>
      (\<forall>i<MAX_COLUME_NUM. \<exists>pct. let len = block_len (g_memory_pool m) ! i;
           total_blocks = count_size (nodes m) len (F @ U); used = count_size (nodes m) len U in
         rows ! i = (i, len, of_nat total_blocks, of_nat used, pct) \<and>
         unat pct = 100 * used div total_blocks \<and> unat pct \<le> 100)"
  using runtime_print_ok [OF assms] by (auto split: option.split)

theorem report_matches_trees_witness: "buffer_runtime_print demo_pool = None"
  using report_matches_trees [OF demo_inv] by (auto simp: demo_pool_def split: option.splits)

end
