(* ===== verification/Paths.thy ===== *)
theory Paths
  imports Prelude
begin

text \<open>
  Linked lists in a heap, for the components that use them: \<open>path nxt h p xs q\<close> says that following
  \<open>nxt\<close> from \<open>p\<close> visits the cells \<open>xs\<close> and then arrives at \<open>q\<close>; a path to null is a list. The
  signed \<^verbatim>\<open>int\<close> counters of the list functions are here too.
\<close>

fun path :: "('c \<Rightarrow> addr) \<Rightarrow> 'c heap \<Rightarrow> addr \<Rightarrow> addr list \<Rightarrow> addr \<Rightarrow> bool" where
  "path nxt h p [] q \<longleftrightarrow> p = q"
| "path nxt h p (x # xs) q \<longleftrightarrow> p = x \<and> x \<noteq> NULL \<and> h x \<noteq> None \<and> path nxt h (nxt (the (h x))) xs q"

lemma path_append [simp]:
  "path nxt h p (xs @ ys) q \<longleftrightarrow> (\<exists>r. path nxt h p xs r \<and> path nxt h r ys q)"
  by (induction xs arbitrary: p) auto

lemma path_cells: "path nxt h p xs q \<Longrightarrow> x \<in> set xs \<Longrightarrow> x \<noteq> NULL \<and> h x \<noteq> None"
  by (induction xs arbitrary: p) auto

lemma path_frame:
  "path nxt h p xs q \<Longrightarrow> (\<And>x. x \<in> set xs \<Longrightarrow> map_option nxt (h' x) = map_option nxt (h x)) \<Longrightarrow>
   path nxt h' p xs q"
proof (induction xs arbitrary: p)
  case (Cons x xs)
  then obtain n where n: "h x = Some n" by auto
  then obtain n' where "h' x = Some n'" "nxt n' = nxt n" using Cons.prems(2) [of x] by auto
  then show ?case using Cons n by auto
qed simp

lemma path_upd_other [simp]: "x \<notin> set xs \<Longrightarrow> path nxt (h(x := n)) p xs q \<longleftrightarrow> path nxt h p xs q"
  by (induction xs arbitrary: p) auto

lemma path_head: "path nxt h p xs q \<Longrightarrow> p = (case xs of [] \<Rightarrow> q | x # _ \<Rightarrow> x)"
  by (cases xs) auto

lemma path_fun: "path nxt h p xs q \<Longrightarrow> path nxt h p xs q' \<Longrightarrow> q = q'"
  by (induction xs arbitrary: p) auto

text \<open>A path to null is determined by its start, so it visits no cell twice.\<close>

lemma chain_unique: "path nxt h p xs NULL \<Longrightarrow> path nxt h p ys NULL \<Longrightarrow> xs = ys"
proof (induction xs arbitrary: p ys)
  case Nil
  then show ?case by (cases ys) auto
next
  case (Cons x xs)
  then show ?case by (cases ys) auto
qed

lemma chain_NULL [simp]: "path nxt h NULL xs NULL \<longleftrightarrow> xs = []"
  by (cases xs) auto

lemma chain_distinct: "path nxt h p xs NULL \<Longrightarrow> distinct xs"
proof (rule ccontr)
  assume p: "path nxt h p xs NULL" and "\<not> distinct xs"
  then obtain as x bs cs where "xs = as @ [x] @ bs @ [x] @ cs" using not_distinct_decomp by blast
  then have "path nxt h x (x # bs @ x # cs) NULL" "path nxt h x (x # cs) NULL" using p by auto
  from chain_unique [OF this] show False by (metis append_Cons length_append length_Cons
        add_Suc_right le_add2 not_less_eq_eq)
qed

lemma chain_suffix: "path nxt h p xs NULL \<Longrightarrow> x \<in> set xs \<Longrightarrow> \<exists>ys zs. xs = ys @ x # zs \<and> path nxt h x (x # zs) NULL"
  by (metis (no_types, lifting) path.simps(2) path_append split_list)

text \<open>Two lists that share a cell share everything from there on.\<close>

lemma chains_join:
  assumes "path nxt h p xs NULL" "path nxt h q ys NULL" "xs = as @ x # bs" "ys = cs @ x # ds"
  shows "bs = ds"
proof -
  have "path nxt h x (x # bs) NULL" "path nxt h x (x # ds) NULL" using assms by auto
  from chain_unique [OF this] show ?thesis by simp
qed

lemma path_nth:
  "path nxt h p xs q \<Longrightarrow> i < length xs \<Longrightarrow> xs ! i \<noteq> NULL \<and> h (xs ! i) \<noteq> None \<and>
    nxt (the (h (xs ! i))) = (if Suc i < length xs then xs ! Suc i else q)"
proof (induction xs arbitrary: p i)
  case (Cons x xs)
  show ?case
  proof (cases i)
    case 0
    then show ?thesis using Cons.prems by (cases xs) auto
  next
    case (Suc j)
    then show ?thesis using Cons.prems Cons.IH [of "nxt (the (h x))" j] by auto
  qed
qed simp

text \<open>Signed 32-bit counting: going past the largest \<^verbatim>\<open>int\<close> is undefined.\<close>

definition int_inc :: "int \<Rightarrow> int option" where
  "int_inc x = (if x + 1 < 2 ^ 31 then Some (x + 1) else None)"

lemma int_inc_Some [simp]: "x + 1 < 2 ^ 31 \<Longrightarrow> int_inc x = Some (x + 1)"
  by (simp add: int_inc_def)

end
