(* ===== verification/SList.thy ===== *)
theory SList
  imports Paths
begin

text \<open>
  The singly linked lists of \<^verbatim>\<open>algorithms_datastructures/algorithms_datastructures.c\<close> (lines 26 to
  430), one definition per function and per loop, on a heap of \<open>ListNode\<close> cells. The two functions
  \<^verbatim>\<open>RPrintList\<close> and the two functions \<^verbatim>\<open>MergeSortedList\<close> of the file have one name each in the
  source; the recursive ones are \<open>RPrintList_rec\<close> and \<open>MergeSortedList_rec\<close> here. What is printed is
  the list of the printed keys.
\<close>

record ListNode =
  m_nKey :: u32
  m_pNext :: addr

type_synonym list_heap = "ListNode heap"

abbreviation set_next :: "addr \<Rightarrow> ListNode \<Rightarrow> ListNode" where
  "set_next q \<equiv> m_pNext_update (\<lambda>_. q)"

subsection \<open>Length, reversal, positions\<close>

partial_function (option) length_loop :: "list_heap \<Rightarrow> u32 \<Rightarrow> addr \<Rightarrow> u32 option" where
  "length_loop h nLength pCurrent =
     (if pCurrent \<noteq> NULL then do { n \<leftarrow> rd h pCurrent m_pNext; length_loop h (nLength + 1) n }
      else Some nLength)"

definition GetListLength :: "list_heap \<Rightarrow> addr \<Rightarrow> u32 option" where
  "GetListLength h pHead = (if pHead = NULL then Some 0 else length_loop h 0 pHead)"

partial_function (option) reverse_loop :: "list_heap \<Rightarrow> addr \<Rightarrow> addr \<Rightarrow> (addr \<times> list_heap) option" where
  "reverse_loop h pReversedHead pCurrent =
     (if pCurrent \<noteq> NULL then do {
        n \<leftarrow> rd h pCurrent m_pNext;
        h \<leftarrow> upd h pCurrent (set_next pReversedHead);
        reverse_loop h pCurrent n
      } else Some (pReversedHead, h))"

definition ReverseList :: "list_heap \<Rightarrow> addr \<Rightarrow> (addr \<times> list_heap) option" where
  "ReverseList h pHead =
     (if pHead = NULL then Some (pHead, h)
      else do {
        n \<leftarrow> rd h pHead m_pNext;
        if n = NULL then Some (pHead, h) else reverse_loop h NULL pHead
      })"

partial_function (option) skip_ahead :: "list_heap \<Rightarrow> u32 \<Rightarrow> addr \<Rightarrow> (u32 \<times> addr) option" where
  "skip_ahead h k pAhead =
     (if 1 < k \<and> pAhead \<noteq> NULL then do { n \<leftarrow> rd h pAhead m_pNext; skip_ahead h (k - 1) n }
      else Some (k, pAhead))"

partial_function (option) walk_both :: "list_heap \<Rightarrow> addr \<Rightarrow> addr \<Rightarrow> addr option" where
  "walk_both h pBehind pAhead = do {
     n \<leftarrow> rd h pAhead m_pNext;
     if n \<noteq> NULL then do { b \<leftarrow> rd h pBehind m_pNext; walk_both h b n } else Some pBehind
   }"

definition RGetKthNode :: "list_heap \<Rightarrow> addr \<Rightarrow> u32 \<Rightarrow> addr option" where
  "RGetKthNode h pHead k =
     (if k = 0 \<or> pHead = NULL then Some NULL
      else do {
        (k, pAhead) \<leftarrow> skip_ahead h k pHead;
        if 1 < k \<or> pAhead = NULL then Some NULL else walk_both h pHead pAhead
      })"

partial_function (option) middle_loop :: "list_heap \<Rightarrow> addr \<Rightarrow> addr \<Rightarrow> addr option" where
  "middle_loop h pBehind pAhead = do {
     n \<leftarrow> rd h pAhead m_pNext;
     if n \<noteq> NULL then do {
       b \<leftarrow> rd h pBehind m_pNext;
       n2 \<leftarrow> rd h n m_pNext;
       middle_loop h b (if n2 \<noteq> NULL then n2 else n)
     } else Some pBehind
   }"

definition GetMiddleNode :: "list_heap \<Rightarrow> addr \<Rightarrow> addr option" where
  "GetMiddleNode h pHead =
     (if pHead = NULL then Some pHead
      else do {
        n \<leftarrow> rd h pHead m_pNext;
        if n = NULL then Some pHead else middle_loop h pHead pHead
      })"

subsection \<open>Printing backwards\<close>

partial_function (option) push_nodes :: "list_heap \<Rightarrow> addr list \<Rightarrow> addr \<Rightarrow> addr list option" where
  "push_nodes h s pNode =
     (if pNode \<noteq> NULL then do { n \<leftarrow> rd h pNode m_pNext; push_nodes h (pNode # s) n } else Some s)"

fun print_stack :: "list_heap \<Rightarrow> addr list \<Rightarrow> u32 list option" where
  "print_stack h [] = Some []"
| "print_stack h (pNode # s) = do { k \<leftarrow> rd h pNode m_nKey; ks \<leftarrow> print_stack h s; Some (k # ks) }"

definition RPrintList :: "list_heap \<Rightarrow> addr \<Rightarrow> u32 list option" where
  "RPrintList h pHead = do { s \<leftarrow> push_nodes h [] pHead; print_stack h s }"

partial_function (option) RPrintList_rec :: "list_heap \<Rightarrow> addr \<Rightarrow> u32 list option" where
  "RPrintList_rec h pHead =
     (if pHead = NULL then Some []
      else do {
        n \<leftarrow> rd h pHead m_pNext;
        ks \<leftarrow> RPrintList_rec h n;
        k \<leftarrow> rd h pHead m_nKey;
        Some (ks @ [k])
      })"

subsection \<open>Merging\<close>

partial_function (option) merge_loop ::
    "addr \<Rightarrow> addr \<Rightarrow> addr \<Rightarrow> list_heap \<Rightarrow> (addr \<times> addr \<times> addr \<times> list_heap) option" where
  "merge_loop pTemp pHead1 pHead2 h =
     (if pHead1 \<noteq> NULL \<and> pHead2 \<noteq> NULL then do {
        k1 \<leftarrow> rd h pHead1 m_nKey;
        k2 \<leftarrow> rd h pHead2 m_nKey;
        if sint k1 < sint k2 then do {
          h \<leftarrow> upd h pTemp (set_next pHead1);
          n \<leftarrow> rd h pHead1 m_pNext;
          pTemp \<leftarrow> rd h pTemp m_pNext;
          h \<leftarrow> upd h pTemp (set_next NULL);
          merge_loop pTemp n pHead2 h
        } else do {
          h \<leftarrow> upd h pTemp (set_next pHead2);
          n \<leftarrow> rd h pHead2 m_pNext;
          pTemp \<leftarrow> rd h pTemp m_pNext;
          h \<leftarrow> upd h pTemp (set_next NULL);
          merge_loop pTemp pHead1 n h
        }
      } else Some (pTemp, pHead1, pHead2, h))"

text \<open>As in the source, the head of a list is cut off before its successor is read.\<close>

definition MergeSortedList :: "addr \<Rightarrow> addr \<Rightarrow> list_heap \<Rightarrow> (addr \<times> list_heap) option" where
  "MergeSortedList pHead1 pHead2 h =
     (if pHead1 = NULL then Some (pHead2, h)
      else if pHead2 = NULL then Some (pHead1, h)
      else do {
        k1 \<leftarrow> rd h pHead1 m_nKey;
        k2 \<leftarrow> rd h pHead2 m_nKey;
        (pHeadMerged, pHead1, pHead2, h) \<leftarrow>
          (if sint k1 < sint k2 then do {
             h \<leftarrow> upd h pHead1 (set_next NULL);
             n \<leftarrow> rd h pHead1 m_pNext;
             Some (pHead1, n, pHead2, h)
           } else do {
             h \<leftarrow> upd h pHead2 (set_next NULL);
             n \<leftarrow> rd h pHead2 m_pNext;
             Some (pHead2, pHead1, n, h)
           });
        (pTemp, pHead1, pHead2, h) \<leftarrow> merge_loop pHeadMerged pHead1 pHead2 h;
        h \<leftarrow> (if pHead1 \<noteq> NULL then upd h pTemp (set_next pHead1)
              else if pHead2 \<noteq> NULL then upd h pTemp (set_next pHead2)
              else Some h);
        Some (pHeadMerged, h)
      })"

partial_function (option) MergeSortedList_rec ::
    "addr \<Rightarrow> addr \<Rightarrow> list_heap \<Rightarrow> (addr \<times> list_heap) option" where
  "MergeSortedList_rec pHead1 pHead2 h =
     (if pHead1 = NULL then Some (pHead2, h)
      else if pHead2 = NULL then Some (pHead1, h)
      else do {
        k1 \<leftarrow> rd h pHead1 m_nKey;
        k2 \<leftarrow> rd h pHead2 m_nKey;
        if sint k1 < sint k2 then do {
          n \<leftarrow> rd h pHead1 m_pNext;
          (q, h) \<leftarrow> MergeSortedList_rec n pHead2 h;
          h \<leftarrow> upd h pHead1 (set_next q);
          Some (pHead1, h)
        } else do {
          n \<leftarrow> rd h pHead2 m_pNext;
          (q, h) \<leftarrow> MergeSortedList_rec pHead1 n h;
          h \<leftarrow> upd h pHead2 (set_next q);
          Some (pHead2, h)
        }
      })"

subsection \<open>Circles and common nodes\<close>

partial_function (option) circle_loop :: "list_heap \<Rightarrow> addr \<Rightarrow> addr \<Rightarrow> bool option" where
  "circle_loop h pFast pSlow =
     (if pFast \<noteq> NULL then do {
        n \<leftarrow> rd h pFast m_pNext;
        if n \<noteq> NULL then do {
          pFast \<leftarrow> rd h n m_pNext;
          pSlow \<leftarrow> rd h pSlow m_pNext;
          if pSlow = pFast then Some True else circle_loop h pFast pSlow
        } else Some False
      } else Some False)"

definition HasCircle :: "list_heap \<Rightarrow> addr \<Rightarrow> bool option" where
  "HasCircle h pHead = circle_loop h pHead pHead"

partial_function (option) tail_loop :: "list_heap \<Rightarrow> addr \<Rightarrow> addr option" where
  "tail_loop h pTail = do {
     n \<leftarrow> rd h pTail m_pNext;
     if n \<noteq> NULL then tail_loop h n else Some pTail
   }"

definition IsIntersected :: "list_heap \<Rightarrow> addr \<Rightarrow> addr \<Rightarrow> bool option" where
  "IsIntersected h pHead1 pHead2 =
     (if pHead1 = NULL \<or> pHead2 = NULL then Some False
      else do {
        pTail1 \<leftarrow> tail_loop h pHead1;
        pTail2 \<leftarrow> tail_loop h pHead2;
        Some (pTail1 = pTail2)
      })"

partial_function (option) tail_count :: "list_heap \<Rightarrow> int \<Rightarrow> addr \<Rightarrow> (int \<times> addr) option" where
  "tail_count h len pTail = do {
     n \<leftarrow> rd h pTail m_pNext;
     if n \<noteq> NULL then do { len \<leftarrow> int_inc len; tail_count h len n } else Some (len, pTail)
   }"

text \<open>\<^verbatim>\<open>while(k--)\<close> for a non-negative \<open>k\<close>.\<close>

fun advance :: "list_heap \<Rightarrow> nat \<Rightarrow> addr \<Rightarrow> addr option" where
  "advance h 0 p = Some p"
| "advance h (Suc k) p = do { n \<leftarrow> rd h p m_pNext; advance h k n }"

partial_function (option) meet_loop :: "list_heap \<Rightarrow> addr \<Rightarrow> addr \<Rightarrow> addr option" where
  "meet_loop h pNode1 pNode2 =
     (if pNode1 \<noteq> pNode2 then do {
        n1 \<leftarrow> rd h pNode1 m_pNext;
        n2 \<leftarrow> rd h pNode2 m_pNext;
        meet_loop h n1 n2
      } else Some pNode1)"

text \<open>The nodes of the longer list are skipped first.\<close>

definition align_and_meet :: "list_heap \<Rightarrow> int \<Rightarrow> int \<Rightarrow> addr \<Rightarrow> addr \<Rightarrow> addr option" where
  "align_and_meet h len1 len2 pHead1 pHead2 =
     (if len1 > len2 then do { p \<leftarrow> advance h (nat (len1 - len2)) pHead1; meet_loop h p pHead2 }
      else do { p \<leftarrow> advance h (nat (len2 - len1)) pHead2; meet_loop h pHead1 p })"

definition GetFirstCommonNode :: "list_heap \<Rightarrow> addr \<Rightarrow> addr \<Rightarrow> addr option" where
  "GetFirstCommonNode h pHead1 pHead2 =
     (if pHead1 = NULL \<or> pHead2 = NULL then Some NULL
      else do {
        (len1, pTail1) \<leftarrow> tail_count h 1 pHead1;
        (len2, pTail2) \<leftarrow> tail_count h 1 pHead2;
        if pTail1 \<noteq> pTail2 then Some NULL
        else align_and_meet h len1 len2 pHead1 pHead2
      })"

partial_function (option) floyd_loop :: "list_heap \<Rightarrow> addr \<Rightarrow> addr \<Rightarrow> (addr \<times> addr) option" where
  "floyd_loop h pFast pSlow =
     (if pFast \<noteq> NULL then do {
        n \<leftarrow> rd h pFast m_pNext;
        if n \<noteq> NULL then do {
          pSlow \<leftarrow> rd h pSlow m_pNext;
          pFast \<leftarrow> rd h n m_pNext;
          if pSlow = pFast then Some (pFast, pSlow) else floyd_loop h pFast pSlow
        } else Some (pFast, pSlow)
      } else Some (pFast, pSlow))"

partial_function (option) count_to :: "list_heap \<Rightarrow> addr \<Rightarrow> int \<Rightarrow> addr \<Rightarrow> int option" where
  "count_to h pAssumedTail len pNode =
     (if pNode \<noteq> pAssumedTail then do {
        n \<leftarrow> rd h pNode m_pNext;
        len \<leftarrow> int_inc len;
        count_to h pAssumedTail len n
      } else Some len)"

text \<open>
  The source declares \<^verbatim>\<open>pNode1\<close> and \<^verbatim>\<open>pNode2\<close> twice in one block, which no compiler accepts; they
  are read as one variable each.
\<close>

definition GetFirstNodeInCircle :: "list_heap \<Rightarrow> addr \<Rightarrow> addr option" where
  "GetFirstNodeInCircle h pHead =
     (if pHead = NULL then Some NULL
      else do {
        n \<leftarrow> rd h pHead m_pNext;
        if n = NULL then Some NULL
        else do {
          (pFast, pSlow) \<leftarrow> floyd_loop h pHead pHead;
          stop \<leftarrow> (if pFast = NULL then Some True else do { n \<leftarrow> rd h pFast m_pNext; Some (n = NULL) });
          if stop then Some NULL
          else do {
            pHead2 \<leftarrow> rd h pSlow m_pNext;
            len1 \<leftarrow> count_to h pSlow 1 pHead;
            len2 \<leftarrow> count_to h pSlow 1 pHead2;
            align_and_meet h len1 len2 pHead pHead2
          }
        }
      })"

subsection \<open>Deleting a node\<close>

partial_function (option) find_before :: "list_heap \<Rightarrow> addr \<Rightarrow> addr \<Rightarrow> addr option" where
  "find_before h pToBeDeleted pNode = do {
     n \<leftarrow> rd h pNode m_pNext;
     if n \<noteq> pToBeDeleted then find_before h pToBeDeleted n else Some pNode
   }"

text \<open>The parameter \<^verbatim>\<open>pHead\<close> is a copy: setting it to null reaches no caller.\<close>

definition Delete :: "addr \<Rightarrow> addr \<Rightarrow> list_heap \<Rightarrow> list_heap option" where
  "Delete pHead pToBeDeleted h =
     (if pToBeDeleted = NULL then Some h
      else do {
        n \<leftarrow> rd h pToBeDeleted m_pNext;
        if n \<noteq> NULL then do {
          k \<leftarrow> rd h n m_nKey;
          h \<leftarrow> upd h pToBeDeleted (m_nKey_update (\<lambda>_. k));
          temp \<leftarrow> rd h pToBeDeleted m_pNext;
          n2 \<leftarrow> rd h n m_pNext;
          h \<leftarrow> upd h pToBeDeleted (set_next n2);
          release h temp
        }
        else if pHead = pToBeDeleted then release h pToBeDeleted
        else do {
          pNode \<leftarrow> find_before h pToBeDeleted pHead;
          h \<leftarrow> upd h pNode (set_next NULL);
          release h pToBeDeleted
        }
      })"

end
