(* ===== verification/SListSpec.thy ===== *)
theory SListSpec
  imports SList
begin

text \<open>
  What the list functions do to a chain of cells: length, reversal, the two-pointer searches and
  the printing functions by the position of a node in the chain.
\<close>

text \<open>The lists of the source: a chain of cells to null, and what it holds.\<close>

abbreviation chain :: "list_heap \<Rightarrow> addr \<Rightarrow> addr list \<Rightarrow> bool" where
  "chain h p xs \<equiv> path m_pNext h p xs NULL"

definition key_at :: "list_heap \<Rightarrow> addr \<Rightarrow> int" where
  "key_at h a = (case h a of None \<Rightarrow> 0 | Some n \<Rightarrow> sint (m_nKey n))"

lemma chain_ConsE:
  assumes "chain h p (x # xs)"
  obtains n where "h x = Some n" "p = x" "x \<noteq> NULL" "chain h (m_pNext n) xs"
  using assms by auto

lemma chain_NULL_iff: "chain h p xs \<Longrightarrow> p = NULL \<longleftrightarrow> xs = []"
  by (cases xs) auto

subsection \<open>Length, reversal, positions\<close>

lemma length_loop_ok: "chain h p xs \<Longrightarrow> length_loop h n p = Some (n + of_nat (length xs))"
proof (induction xs arbitrary: p n)
  case Nil
  then show ?case by (subst length_loop.simps) simp
next
  case (Cons x xs)
  from Cons.prems obtain c where "h x = Some c" "p = x" "x \<noteq> NULL" "chain h (m_pNext c) xs" by (rule chain_ConsE)
  then show ?case using Cons.IH [of "m_pNext c" "n + 1"]
    by (subst length_loop.simps) (simp add: algebra_simps)
qed

lemma GetListLength_ok: "chain h p xs \<Longrightarrow> GetListLength h p = Some (of_nat (length xs))"
  using length_loop_ok [of h p xs 0] chain_NULL_iff [of h p xs] by (auto simp: GetListLength_def)

lemma reverse_loop_ok:
  "chain h p xs \<Longrightarrow> chain h r ys \<Longrightarrow> set xs \<inter> set ys = {} \<Longrightarrow>
   \<exists>q h'. reverse_loop h r p = Some (q, h') \<and> chain h' q (rev xs @ ys) \<and>
     (\<forall>a. a \<notin> set xs \<longrightarrow> h' a = h a) \<and> key_at h' = key_at h"
proof (induction xs arbitrary: p r ys h)
  case Nil
  then show ?case by (subst reverse_loop.simps) simp
next
  case (Cons x xs)
  from Cons.prems(1) obtain c where c: "h x = Some c" "p = x" "x \<noteq> NULL" "chain h (m_pNext c) xs" by (rule chain_ConsE)
  have d: "x \<notin> set xs" using chain_distinct [OF Cons.prems(1)] by simp
  let ?h = "h(x \<mapsto> c\<lparr>m_pNext := r\<rparr>)"
  have "chain ?h (m_pNext c) xs" "chain ?h x (x # ys)" using c d Cons.prems by auto
  moreover have "set xs \<inter> set (x # ys) = {}" using d Cons.prems(3) by auto
  ultimately obtain q h' where 1: "reverse_loop ?h x (m_pNext c) = Some (q, h')"
      "chain h' q (rev xs @ x # ys)" "\<forall>a. a \<notin> set xs \<longrightarrow> h' a = ?h a" "key_at h' = key_at ?h"
    using Cons.IH by blast
  have "key_at ?h = key_at h" using c(1) by (intro ext) (simp add: key_at_def)
  then show ?case using 1 c by (subst reverse_loop.simps) auto
qed

lemma ReverseList_ok:
  assumes l: "chain h p xs"
  shows "\<exists>q h'. ReverseList h p = Some (q, h') \<and> chain h' q (rev xs) \<and>
     (\<forall>a. a \<notin> set xs \<longrightarrow> h' a = h a) \<and> key_at h' = key_at h"
proof -
  obtain q h' where 1: "reverse_loop h NULL p = Some (q, h')" "chain h' q (rev xs)"
      "\<forall>a. a \<notin> set xs \<longrightarrow> h' a = h a" "key_at h' = key_at h"
    using reverse_loop_ok [OF l, of NULL "[]"] by auto
  show ?thesis
  proof (cases xs)
    case Nil
    then show ?thesis using l by (auto simp: ReverseList_def)
  next
    case (Cons x ys)
    from l [unfolded Cons] obtain c where c: "h x = Some c" "p = x" "x \<noteq> NULL" "chain h (m_pNext c) ys"
      by (rule chain_ConsE)
    show ?thesis
    proof (cases "m_pNext c = NULL")
      case True
      then have "ys = []" using c(4) by simp
      then show ?thesis using c l Cons True by (intro exI [of _ p] exI [of _ h]) (simp add: ReverseList_def)
    next
      case False
      then show ?thesis using 1 c by (auto simp: ReverseList_def)
    qed
  qed
qed

text \<open>A walk along a chain by position: the node at an index, null behind the last.\<close>

definition at :: "addr list \<Rightarrow> nat \<Rightarrow> addr" where
  "at xs i = (if i < length xs then xs ! i else NULL)"

lemma at_NULL: "chain h p xs \<Longrightarrow> at xs i = NULL \<longleftrightarrow> length xs \<le> i"
  using path_nth [of m_pNext h p xs NULL i] by (auto simp: at_def)

lemma at_next: "chain h p xs \<Longrightarrow> i < length xs \<Longrightarrow> rd h (at xs i) m_pNext = Some (at xs (Suc i))"
  using path_nth [of m_pNext h p xs NULL i] by (auto simp: at_def)

lemma at_0: "chain h p xs \<Longrightarrow> p = at xs 0"
  by (cases xs) (auto simp: at_def)

lemma at_inj: "chain h p xs \<Longrightarrow> i < length xs \<Longrightarrow> at xs i = at xs j \<longleftrightarrow> i = j"
  using chain_distinct [of m_pNext h p xs] at_NULL [of h p xs i] at_NULL [of h p xs j]
  by (auto simp: at_def nth_eq_iff_index_eq)

lemma skip_ahead_reaches:
  "chain h p xs \<Longrightarrow> i \<le> length xs \<Longrightarrow> 0 < unat k \<Longrightarrow>
   skip_ahead h k (at xs i) =
     (if i + (unat k - 1) \<le> length xs then Some (1, at xs (i + (unat k - 1)))
      else Some (k - of_nat (length xs - i), NULL))"
proof (induction "length xs - i" arbitrary: i k)
  case 0
  then have i: "i = length xs" by simp
  show ?case
  proof (cases "unat k = 1")
    case True
    then have "k = 1" by (metis unat_1 word_unat_eq_iff)
    then show ?thesis using 0 i by (subst skip_ahead.simps) simp
  next
    case False
    then have "1 < unat k" using "0.prems"(3) by linarith
    then have "\<not> length xs + unat k - Suc 0 \<le> length xs" by linarith
    then show ?thesis using 0 i at_NULL [OF 0(2), of i] by (subst skip_ahead.simps) simp
  qed
next
  case (Suc d)
  then have i: "i < length xs" by simp
  show ?case
  proof (cases "1 < k")
    case False
    then have "unat k = 1" using Suc.prems(3) by (simp add: word_less_nat_alt)
    then have "k = 1" by (metis unat_1 word_unat_eq_iff)
    then show ?thesis using Suc.prems by (subst skip_ahead.simps) simp
  next
    case True
    then have "k \<noteq> 0" "1 < unat k" by (auto simp: word_less_nat_alt)
    then have k: "unat (k - 1) = unat k - 1" "1 < unat k" by (simp_all add: unat_sub word_le_nat_alt)
    have "skip_ahead h k (at xs i) = skip_ahead h (k - 1) (at xs (Suc i))"
      using True i at_next [OF Suc.prems(1) i] at_NULL [OF Suc.prems(1), of i]
      by (subst skip_ahead.simps) simp
    also have "\<dots> = (if Suc i + (unat (k - 1) - 1) \<le> length xs then Some (1, at xs (Suc i + (unat (k - 1) - 1)))
      else Some (k - 1 - of_nat (length xs - Suc i), NULL))"
      using Suc.hyps(2) k i by (intro Suc.hyps(1)) (use Suc.prems in auto)
    also have "Suc i + (unat (k - 1) - 1) = i + (unat k - 1)" using k by linarith
    also have "k - 1 - of_nat (length xs - Suc i) = k - of_nat (length xs - i)"
      using i by (simp add: Suc_diff_Suc [symmetric] algebra_simps)
    finally show ?thesis .
  qed
qed

lemma walk_both_ok:
  "chain h p xs \<Longrightarrow> j \<le> i \<Longrightarrow> i < length xs \<Longrightarrow>
   walk_both h (at xs j) (at xs i) = Some (at xs (j + (length xs - 1 - i)))"
proof (induction "length xs - i" arbitrary: i j)
  case (Suc d)
  have n: "rd h (at xs i) m_pNext = Some (at xs (Suc i))" "rd h (at xs j) m_pNext = Some (at xs (Suc j))"
    using at_next [OF Suc.prems(1)] Suc.prems by simp_all
  show ?case
  proof (cases "Suc i < length xs")
    case True
    have "d = length xs - Suc i" "Suc j \<le> Suc i" using Suc.hyps(2) Suc.prems(2) by auto
    then have "walk_both h (at xs (Suc j)) (at xs (Suc i)) = Some (at xs (Suc j + (length xs - 1 - Suc i)))"
      using Suc.hyps(1) Suc.prems(1) True by blast
    then show ?thesis using n True at_NULL [OF Suc.prems(1), of "Suc i"]
      by (subst walk_both.simps) (simp add: Suc_diff_Suc)
  next
    case False
    then have "length xs = Suc i" using Suc.prems(3) by simp
    then show ?thesis using n at_NULL [OF Suc.prems(1), of "Suc i"] by (subst walk_both.simps) simp
  qed
qed simp

lemma RGetKthNode_ok:
  assumes l: "chain h p xs" and len: "length xs < 2 ^ 32"
  shows "RGetKthNode h p k =
    Some (if 0 < unat k \<and> unat k \<le> length xs then xs ! (length xs - unat k) else NULL)"
proof (cases "k = 0 \<or> xs = []")
  case True
  then show ?thesis using l by (auto simp: RGetKthNode_def)
next
  case False
  then have k: "0 < unat k" and ne: "0 < length xs" "p \<noteq> NULL" using chain_NULL_iff [OF l] by (auto simp: unat_gt_0)
  note s = skip_ahead_reaches [OF l _ k, of 0, folded at_0 [OF l]]
  show ?thesis
  proof (cases "unat k \<le> length xs")
    case True
    have i: "unat k - 1 < length xs" using True k by simp
    have "RGetKthNode h p k = walk_both h (at xs 0) (at xs (unat k - 1))"
      using s True k ne False i at_NULL [OF l, of "unat k - 1"] at_0 [OF l]
      by (simp add: RGetKthNode_def)
    moreover have "length xs - unat k < length xs" using k ne(1) by simp
    ultimately show ?thesis using walk_both_ok [OF l _ i, of 0] True k by (simp add: at_def)
  next
    case gt: False
    show ?thesis
    proof (cases "unat k - 1 \<le> length xs")
      case True
      then have "unat k - 1 = length xs" using gt by simp
      then show ?thesis using s False gt ne at_NULL [OF l, of "unat k - 1"] by (simp add: RGetKthNode_def)
    next
      case b: False
      then show ?thesis using s False gt ne by (simp add: RGetKthNode_def)
    qed
  qed
qed

lemma middle_loop_ok:
  "chain h p xs \<Longrightarrow> i < length xs \<Longrightarrow> even i \<or> Suc i = length xs \<Longrightarrow>
   middle_loop h (at xs (Suc i div 2)) (at xs i) = Some (at xs (length xs div 2))"
proof (induction "length xs - i" arbitrary: i rule: less_induct)
  case less
  have n: "rd h (at xs i) m_pNext = Some (at xs (Suc i))" "rd h (at xs (Suc i div 2)) m_pNext = Some (at xs (Suc (Suc i div 2)))"
    using at_next [OF less.prems(1)] less.prems(2) by simp_all
  show ?case
  proof (cases "Suc i < length xs")
    case False
    then have "length xs = Suc i" using less.prems(2) by simp
    then show ?thesis using n at_NULL [OF less.prems(1), of "Suc i"] by (subst middle_loop.simps) simp
  next
    case i1: True
    then have ev: "even i" using less.prems(3) by auto
    have n2: "rd h (at xs (Suc i)) m_pNext = Some (at xs (Suc (Suc i)))" using at_next [OF less.prems(1) i1] .
    show ?thesis
    proof (cases "Suc (Suc i) < length xs")
      case True
      have "middle_loop h (at xs (Suc (Suc (Suc i)) div 2)) (at xs (Suc (Suc i))) = Some (at xs (length xs div 2))"
        using less.prems(1) True ev i1 by (intro less.hyps) auto
      then show ?thesis using n n2 i1 True at_NULL [OF less.prems(1), of "Suc i"] at_NULL [OF less.prems(1), of "Suc (Suc i)"] ev
        by (subst middle_loop.simps) simp
    next
      case False
      then have len: "length xs = Suc (Suc i)" using i1 by simp
      have "middle_loop h (at xs (Suc (Suc i) div 2)) (at xs (Suc i)) = Some (at xs (length xs div 2))"
        using less.prems(1) len by (intro less.hyps) auto
      then show ?thesis using n n2 i1 len at_NULL [OF less.prems(1), of "Suc i"] at_NULL [OF less.prems(1), of "Suc (Suc i)"] ev
        by (subst middle_loop.simps) simp
    qed
  qed
qed

lemma GetMiddleNode_ok:
  assumes l: "chain h p xs"
  shows "GetMiddleNode h p = Some (at xs (length xs div 2))"
proof (cases "xs = []")
  case True
  then show ?thesis using l by (simp add: GetMiddleNode_def at_def)
next
  case False
  then have ne: "p \<noteq> NULL" "0 < length xs" using chain_NULL_iff [OF l] by auto
  have r: "rd h p m_pNext = Some (at xs 1)" using at_next [OF l ne(2)] at_0 [OF l] by simp
  have m: "middle_loop h p p = Some (at xs (length xs div 2))"
    using middle_loop_ok [OF l ne(2)] at_0 [OF l] by simp
  show ?thesis
  proof (cases "at xs 1 = NULL")
    case True
    then have "length xs = 1" using at_NULL [OF l, of 1] ne(2) by linarith
    then show ?thesis using ne r True at_0 [OF l] by (simp add: GetMiddleNode_def)
  next
    case False
    then show ?thesis using ne r m by (simp add: GetMiddleNode_def)
  qed
qed

subsection \<open>Printing backwards\<close>

definition keys :: "list_heap \<Rightarrow> addr list \<Rightarrow> u32 list" where
  "keys h xs = map (\<lambda>a. m_nKey (the (h a))) xs"

lemma push_nodes_ok: "chain h p xs \<Longrightarrow> push_nodes h s p = Some (rev xs @ s)"
proof (induction xs arbitrary: p s)
  case Nil
  then show ?case by (subst push_nodes.simps) simp
next
  case (Cons x xs)
  from Cons.prems obtain c where "h x = Some c" "p = x" "x \<noteq> NULL" "chain h (m_pNext c) xs" by (rule chain_ConsE)
  then show ?case using Cons.IH [of "m_pNext c" "x # s"] by (subst push_nodes.simps) simp
qed

lemma print_stack_ok:
  "(\<And>a. a \<in> set s \<Longrightarrow> a \<noteq> NULL \<and> h a \<noteq> None) \<Longrightarrow> print_stack h s = Some (keys h s)"
proof (induction s)
  case (Cons a s)
  then obtain c where "h a = Some c" "a \<noteq> NULL" using Cons.prems [of a] by auto
  then show ?case using Cons by (simp add: keys_def)
qed (simp add: keys_def)

lemma RPrintList_ok: "chain h p xs \<Longrightarrow> RPrintList h p = Some (rev (keys h xs))"
  using push_nodes_ok [of h p xs "[]"] print_stack_ok [of "rev xs" h] path_cells [of m_pNext h p xs NULL]
  by (simp add: RPrintList_def keys_def rev_map)

lemma RPrintList_rec_ok: "chain h p xs \<Longrightarrow> RPrintList_rec h p = Some (rev (keys h xs))"
proof (induction xs arbitrary: p)
  case Nil
  then show ?case by (subst RPrintList_rec.simps) (simp add: keys_def)
next
  case (Cons x xs)
  from Cons.prems obtain c where "h x = Some c" "p = x" "x \<noteq> NULL" "chain h (m_pNext c) xs" by (rule chain_ConsE)
  then show ?case using Cons.IH [of "m_pNext c"] by (subst RPrintList_rec.simps) (simp add: keys_def)
qed

end
