(* ===== verification/SListMerge.thy ===== *)
theory SListMerge
  imports SListSpec "HOL-Library.Multiset"
begin

text \<open>
  Merging two chains, the nodes two chains share, and deleting a node from a chain.
\<close>

subsection \<open>Merging\<close>

fun merge :: "(addr \<Rightarrow> int) \<Rightarrow> addr list \<Rightarrow> addr list \<Rightarrow> addr list" where
  "merge f [] ys = ys"
| "merge f xs [] = xs"
| "merge f (x # xs) (y # ys) =
     (if f x < f y then x # merge f xs (y # ys) else y # merge f (x # xs) ys)"

lemma merge_Nil [simp]: "merge f xs [] = xs"
  by (cases xs) auto

lemma mset_merge: "mset (merge f xs ys) = mset xs + mset ys"
  by (induction f xs ys rule: merge.induct) auto

lemma set_merge: "set (merge f xs ys) = set xs \<union> set ys"
  by (induction f xs ys rule: merge.induct) auto

lemma sorted_merge:
  "sorted (map f xs) \<Longrightarrow> sorted (map f ys) \<Longrightarrow> sorted (map f (merge f xs ys))"
  by (induction f xs ys rule: merge.induct) (auto simp: set_merge)

lemma key_at_upd: "h a = Some c \<Longrightarrow> key_at (h(a \<mapsto> set_next q c)) = key_at h"
  by (intro ext) (simp add: key_at_def)

lemma merge_rec_ok:
  "chain h p xs \<Longrightarrow> chain h q ys \<Longrightarrow> set xs \<inter> set ys = {} \<Longrightarrow>
   \<exists>r h'. MergeSortedList_rec p q h = Some (r, h') \<and> chain h' r (merge (key_at h) xs ys) \<and>
     (\<forall>a. a \<notin> set xs \<union> set ys \<longrightarrow> h' a = h a) \<and> key_at h' = key_at h"
proof (induction "key_at h" xs ys arbitrary: p q rule: merge.induct)
  case (1 ys)
  then show ?case by (intro exI [of _ q] exI [of _ h]) (subst MergeSortedList_rec.simps, simp)
next
  case (2 x xs)
  then show ?case by (intro exI [of _ p] exI [of _ h]) (subst MergeSortedList_rec.simps, simp)
next
  case (3 x xs y ys)
  from "3.prems"(1) obtain c where c: "h x = Some c" "p = x" "x \<noteq> NULL" "chain h (m_pNext c) xs" by (rule chain_ConsE)
  from "3.prems"(2) obtain d where d: "h y = Some d" "q = y" "y \<noteq> NULL" "chain h (m_pNext d) ys" by (rule chain_ConsE)
  have k: "key_at h x = sint (m_nKey c)" "key_at h y = sint (m_nKey d)" using c d by (simp_all add: key_at_def)
  have nx: "x \<notin> set xs" "y \<notin> set ys" "x \<noteq> y" "x \<notin> set ys" "y \<notin> set xs"
    using chain_distinct [OF "3.prems"(1)] chain_distinct [OF "3.prems"(2)] "3.prems"(3) by auto
  show ?case
  proof (cases "key_at h x < key_at h y")
    case True
    have "set xs \<inter> set (y # ys) = {}" using "3.prems"(3) by auto
    from "3.hyps"(1) [OF True c(4) "3.prems"(2) this] obtain r h1 where
      1: "MergeSortedList_rec (m_pNext c) q h = Some (r, h1)" "chain h1 r (merge (key_at h) xs (y # ys))"
      "\<forall>a. a \<notin> set xs \<union> set (y # ys) \<longrightarrow> h1 a = h a" "key_at h1 = key_at h" by blast
    have hx: "h1 x = Some c" using 1(3) nx c(1) by simp
    have "x \<notin> set (merge (key_at h) xs (y # ys))" using nx by (simp add: set_merge)
    then have "chain (h1(x \<mapsto> set_next r c)) x (x # merge (key_at h) xs (y # ys))" using 1(2) c(3) by simp
    moreover have "MergeSortedList_rec p q h = Some (x, h1(x \<mapsto> set_next r c))"
      using c d True k 1(1) hx by (subst MergeSortedList_rec.simps) simp
    ultimately show ?thesis using True 1(3,4) key_at_upd [of h1 x c r, OF hx]
      by (intro exI [of _ x] exI [of _ "h1(x \<mapsto> set_next r c)"]) simp
  next
    case False
    have "set (x # xs) \<inter> set ys = {}" using "3.prems"(3) by auto
    from "3.hyps"(2) [OF False "3.prems"(1) d(4) this] obtain r h1 where
      1: "MergeSortedList_rec p (m_pNext d) h = Some (r, h1)" "chain h1 r (merge (key_at h) (x # xs) ys)"
      "\<forall>a. a \<notin> set (x # xs) \<union> set ys \<longrightarrow> h1 a = h a" "key_at h1 = key_at h" by blast
    have hy: "h1 y = Some d" using 1(3) nx d(1) by auto
    have "y \<notin> set (merge (key_at h) (x # xs) ys)" using nx by (simp add: set_merge)
    then have "chain (h1(y \<mapsto> set_next r d)) y (y # merge (key_at h) (x # xs) ys)" using 1(2) d(3) by simp
    moreover have "MergeSortedList_rec p q h = Some (y, h1(y \<mapsto> set_next r d))"
      using c d False k 1(1) hy by (subst MergeSortedList_rec.simps) simp
    ultimately show ?thesis using False 1(3,4) key_at_upd [of h1 y d r, OF hy]
      by (intro exI [of _ y] exI [of _ "h1(y \<mapsto> set_next r d)"]) simp
  qed
qed

text \<open>The iterative version cuts off the head of one list before it reads the rest of it.\<close>

lemma MergeSortedList_ok:
  assumes p: "chain h p (x # xs)" and q: "chain h q (y # ys)" and d: "set (x # xs) \<inter> set (y # ys) = {}"
  shows "\<exists>h'. MergeSortedList p q h = Some (if key_at h x < key_at h y then x else y, h') \<and>
    chain h' (if key_at h x < key_at h y then x else y) (if key_at h x < key_at h y then x # y # ys else y # x # xs)"
proof -
  from p obtain c where c: "h x = Some c" "p = x" "x \<noteq> NULL" "chain h (m_pNext c) xs" by (rule chain_ConsE)
  from q obtain e where e: "h y = Some e" "q = y" "y \<noteq> NULL" "chain h (m_pNext e) ys" by (rule chain_ConsE)
  have k: "key_at h x = sint (m_nKey c)" "key_at h y = sint (m_nKey e)" using c e by (simp_all add: key_at_def)
  have nx: "x \<notin> set xs" "y \<notin> set ys" "x \<noteq> y" "x \<notin> set ys" "y \<notin> set xs"
    using chain_distinct [OF p] chain_distinct [OF q] d by auto
  show ?thesis
  proof (cases "key_at h x < key_at h y")
    case True
    let ?h = "h(x \<mapsto> set_next NULL c, x \<mapsto> set_next y c)"
    have "MergeSortedList p q h = Some (x, ?h)"
      using c e k True by (simp add: MergeSortedList_def merge_loop.simps [of x NULL])
    moreover have "chain ?h x (x # y # ys)" using c e nx by simp
    ultimately show ?thesis using True by auto
  next
    case False
    let ?h = "h(y \<mapsto> set_next NULL e, y \<mapsto> set_next x e)"
    have "MergeSortedList p q h = Some (y, ?h)"
      using c e k False by (simp add: MergeSortedList_def merge_loop.simps [of y x NULL])
    moreover have "chain ?h y (y # x # xs)" using c e nx by simp
    ultimately show ?thesis using False by auto
  qed
qed

subsection \<open>Common nodes\<close>

lemma tail_loop_ok: "chain h p xs \<Longrightarrow> xs \<noteq> [] \<Longrightarrow> tail_loop h p = Some (last xs)"
proof (induction xs arbitrary: p)
  case (Cons x xs)
  from Cons.prems(1) obtain c where c: "h x = Some c" "p = x" "x \<noteq> NULL" "chain h (m_pNext c) xs" by (rule chain_ConsE)
  then show ?case using Cons.IH [OF c(4)] chain_NULL_iff [OF c(4)] by (subst tail_loop.simps) auto
qed simp

lemma tail_count_ok:
  "chain h p xs \<Longrightarrow> xs \<noteq> [] \<Longrightarrow> n + int (length xs) - 1 < 2 ^ 31 \<Longrightarrow>
   tail_count h n p = Some (n + int (length xs) - 1, last xs)"
proof (induction xs arbitrary: p n)
  case (Cons x xs)
  from Cons.prems(1) obtain c where c: "h x = Some c" "p = x" "x \<noteq> NULL" "chain h (m_pNext c) xs" by (rule chain_ConsE)
  show ?case
  proof (cases "xs = []")
    case True
    then show ?thesis using c by (subst tail_count.simps) simp
  next
    case False
    then have "1 \<le> int (length xs)" by (cases xs) auto
    then have "n + 1 < 2 ^ 31" using Cons.prems(3) by simp
    then show ?thesis using Cons.IH [OF c(4) False, of "n + 1"] Cons.prems(3) c False chain_NULL_iff [OF c(4)]
      by (subst tail_count.simps) (simp add: algebra_simps)
  qed
qed simp

lemma advance_ok:
  "path m_pNext h p (xs @ ys) q \<Longrightarrow> \<exists>r. advance h (length xs) p = Some r \<and> path m_pNext h r ys q"
proof (induction xs arbitrary: p)
  case (Cons x xs)
  then obtain c where c: "h x = Some c" "p = x" "x \<noteq> NULL" "path m_pNext h (m_pNext c) (xs @ ys) q"
    by (auto simp del: path_append)
  then show ?case using Cons.IH [OF c(4)] by simp
qed simp

lemma meet_loop_ok:
  "length xs = length ys \<Longrightarrow> path m_pNext h p xs r \<Longrightarrow> path m_pNext h q ys r \<Longrightarrow> set xs \<inter> set ys = {} \<Longrightarrow>
   meet_loop h p q = Some r"
proof (induction xs ys arbitrary: p q rule: list_induct2)
  case Nil
  then show ?case by (subst meet_loop.simps) simp
next
  case (Cons x xs y ys)
  then obtain c d where c: "h x = Some c" "p = x" "x \<noteq> NULL" "path m_pNext h (m_pNext c) xs r"
    and d: "h y = Some d" "q = y" "y \<noteq> NULL" "path m_pNext h (m_pNext d) ys r" by auto
  have "meet_loop h (m_pNext c) (m_pNext d) = Some r"
    using Cons.IH [OF c(4) d(4)] Cons.prems(3) by auto
  moreover have "x \<noteq> y" using Cons.prems(3) by auto
  ultimately show ?case using c d by (subst meet_loop.simps) simp
qed

lemma align_and_meet_ok:
  assumes p: "path m_pNext h p xs r" and q: "path m_pNext h q ys r" and d: "set xs \<inter> set ys = {}"
    and n: "n1 - n2 = int (length xs) - int (length ys)"
  shows "align_and_meet h n1 n2 p q = Some r"
proof (cases "n1 > n2")
  case True
  let ?k = "nat (n1 - n2)"
  have k: "?k \<le> length xs" "length (take ?k xs) = ?k" "length (drop ?k xs) = length ys" using n True by auto
  obtain p' where a: "advance h ?k p = Some p'" "path m_pNext h p' (drop ?k xs) r"
    using advance_ok [of h p "take ?k xs" "drop ?k xs" r] p k(2) by auto
  have "set (drop ?k xs) \<inter> set ys = {}" using d set_drop_subset [of ?k xs] by auto
  from meet_loop_ok [OF k(3) a(2) q this] show ?thesis using a(1) True by (simp add: align_and_meet_def)
next
  case False
  let ?k = "nat (n2 - n1)"
  have k: "?k \<le> length ys" "length (take ?k ys) = ?k" "length xs = length (drop ?k ys)" using n False by auto
  obtain q' where a: "advance h ?k q = Some q'" "path m_pNext h q' (drop ?k ys) r"
    using advance_ok [of h q "take ?k ys" "drop ?k ys" r] q k(2) by auto
  have "set xs \<inter> set (drop ?k ys) = {}" using d set_drop_subset [of ?k ys] by auto
  from meet_loop_ok [OF k(3) p a(2) this] show ?thesis using a(1) False by (simp add: align_and_meet_def)
qed

text \<open>Two chains are disjoint, or they fork off one tail.\<close>

lemma chains_meet:
  assumes p: "chain h p xs" and q: "chain h q ys" and i: "set xs \<inter> set ys \<noteq> {}"
  obtains as bs z zs where "xs = as @ z # zs" "ys = bs @ z # zs" "set as \<inter> set bs = {}" "set as \<inter> set ys = {}"
proof -
  have "\<exists>x\<in>set xs. x \<in> set ys" using i by auto
  then obtain as z zs where x: "xs = as @ z # zs" "z \<in> set ys" "\<forall>a\<in>set as. a \<notin> set ys"
    using split_list_first_prop [of xs "\<lambda>x. x \<in> set ys"] by metis
  obtain bs cs where y: "ys = bs @ z # cs" using x(2) by (meson split_list)
  have "zs = cs" using chains_join [OF p q x(1) y] .
  then show ?thesis using that [OF x(1), of bs] x y by auto
qed

lemma last_common:
  assumes p: "chain h p xs" and q: "chain h q ys" and ne: "xs \<noteq> []" "ys \<noteq> []"
  shows "last xs = last ys \<longleftrightarrow> set xs \<inter> set ys \<noteq> {}"
proof
  assume "last xs = last ys"
  then show "set xs \<inter> set ys \<noteq> {}" using last_in_set [OF ne(1)] last_in_set [OF ne(2)] by auto
next
  assume "set xs \<inter> set ys \<noteq> {}"
  then show "last xs = last ys" by (rule chains_meet [OF p q]) auto
qed

lemma IsIntersected_ok:
  assumes p: "chain h p xs" and q: "chain h q ys"
  shows "IsIntersected h p q = Some (set xs \<inter> set ys \<noteq> {})"
proof (cases "xs = [] \<or> ys = []")
  case True
  then show ?thesis using p q by (auto simp: IsIntersected_def)
next
  case False
  then show ?thesis
    using tail_loop_ok [OF p] tail_loop_ok [OF q] last_common [OF p q] chain_NULL_iff [OF p] chain_NULL_iff [OF q]
    by (simp add: IsIntersected_def)
qed

lemma find_first: "P z \<Longrightarrow> \<forall>a\<in>set as. \<not> P a \<Longrightarrow> find P (as @ z # zs) = Some z"
  by (induction as) auto

lemma GetFirstCommonNode_ok:
  assumes p: "chain h p xs" and q: "chain h q ys" and small: "length xs < 2 ^ 31" "length ys < 2 ^ 31"
  shows "GetFirstCommonNode h p q = Some (case find (\<lambda>a. a \<in> set ys) xs of None \<Rightarrow> NULL | Some a \<Rightarrow> a)"
proof (cases "xs = [] \<or> ys = []")
  case True
  then have "find (\<lambda>a. a \<in> set ys) xs = None" by (auto simp: find_None_iff)
  then show ?thesis using True p q by (auto simp: GetFirstCommonNode_def)
next
  case False
  then have np: "p \<noteq> NULL" "q \<noteq> NULL" using chain_NULL_iff [OF p] chain_NULL_iff [OF q] by auto
  have t: "tail_count h 1 p = Some (int (length xs), last xs)" "tail_count h 1 q = Some (int (length ys), last ys)"
    using tail_count_ok [OF p, of 1] tail_count_ok [OF q, of 1] False small by auto
  show ?thesis
  proof (cases "set xs \<inter> set ys = {}")
    case True
    then have "find (\<lambda>a. a \<in> set ys) xs = None" by (auto simp: find_None_iff)
    then show ?thesis using True np t last_common [OF p q] False by (simp add: GetFirstCommonNode_def)
  next
    case nd: False
    from chains_meet [OF p q nd] obtain as bs z zs where
      s: "xs = as @ z # zs" "ys = bs @ z # zs" "set as \<inter> set bs = {}" "set as \<inter> set ys = {}" .
    have f: "find (\<lambda>a. a \<in> set ys) xs = Some z"
    proof -
      have "z \<in> set ys" "\<forall>a\<in>set as. a \<notin> set ys" using s(2,4) by auto
      then show ?thesis unfolding s(1) by (rule find_first)
    qed
    have "path m_pNext h p as z" "path m_pNext h q bs z" using p q s(1,2) by auto
    then have "align_and_meet h (int (length xs)) (int (length ys)) p q = Some z"
      using s by (intro align_and_meet_ok [of h p as z q bs]) auto
    then show ?thesis using np t last_common [OF p q] False nd f by (simp add: GetFirstCommonNode_def)
  qed
qed

subsection \<open>Deleting a node\<close>

lemma find_before_ok:
  "chain h p (xs @ [x, d]) \<Longrightarrow> find_before h d p = Some x"
proof (induction xs arbitrary: p)
  case Nil
  then show ?case by (subst find_before.simps) auto
next
  case (Cons y ys)
  then obtain c where c: "h y = Some c" "p = y" "y \<noteq> NULL" "chain h (m_pNext c) (ys @ [x, d])" by (auto simp del: path_append)
  have "m_pNext c \<noteq> d" using chain_distinct [OF c(4)] c(4) by (cases ys) auto
  then show ?case using Cons.IH [OF c(4)] c by (subst find_before.simps) simp
qed

lemma Delete_inner:
  assumes l: "chain h p (xs @ d # e # ys)"
  shows "\<exists>h'. Delete p d h = Some h' \<and> chain h' p (xs @ d # ys) \<and> h' e = None \<and>
    map (key_at h') (xs @ d # ys) = map (key_at h) (xs @ e # ys)"
proof -
  from l obtain c n where c: "h d = Some c" "d \<noteq> NULL" "m_pNext c = e" "h e = Some n" "e \<noteq> NULL"
      "chain h (m_pNext n) ys" "path m_pNext h p xs d" by auto
  have dd: "distinct (xs @ d # e # ys)" by (rule chain_distinct [OF l])
  then have ne: "d \<noteq> e" "e \<noteq> d" by auto
  let ?c = "c\<lparr>m_nKey := m_nKey n, m_pNext := m_pNext n\<rparr>"
  let ?h = "h(d \<mapsto> ?c, e := None)"
  have "Delete p d h = Some ((h(d \<mapsto> ?c))(e := None))" using c ne by (simp add: Delete_def)
  moreover have "chain ?h p (xs @ d # ys)" using c dd by auto
  moreover have "map (key_at ?h) (xs @ d # ys) = map (key_at h) (xs @ e # ys)"
    using c dd by (auto simp: key_at_def)
  ultimately show ?thesis by auto
qed

lemma Delete_last:
  assumes l: "chain h p (xs @ [d])"
  shows "\<exists>h'. Delete p d h = Some h' \<and> h' d = None \<and> (xs \<noteq> [] \<longrightarrow> chain h' p xs) \<and>
    map (key_at h') xs = map (key_at h) xs"
proof (cases xs rule: rev_cases)
  case Nil
  then show ?thesis using l by (auto simp: Delete_def)
next
  case (snoc ws x)
  have l': "chain h p (ws @ [x, d])" using l snoc by simp
  from l' obtain c n where c: "h x = Some c" "x \<noteq> NULL" "m_pNext c = d" "h d = Some n" "d \<noteq> NULL"
      "m_pNext n = NULL" "path m_pNext h p ws x" by auto
  have dd: "distinct (ws @ [x, d])" by (rule chain_distinct [OF l'])
  then have ne: "x \<noteq> d" "d \<noteq> x" by auto
  have "p \<noteq> d" using l' dd by (cases ws) auto
  then have "Delete p d h = Some ((h(x \<mapsto> set_next NULL c))(d := None))"
    using c ne find_before_ok [OF l'] by (simp add: Delete_def)
  moreover have "chain (h(x \<mapsto> set_next NULL c, d := None)) p xs" using c dd snoc by auto
  moreover have "map (key_at (h(x \<mapsto> set_next NULL c, d := None))) xs = map (key_at h) xs"
    using c dd snoc by (auto simp: key_at_def)
  ultimately show ?thesis by auto
qed

end
