(* ===== verification/SListCircle.thy ===== *)
theory SListCircle
  imports SListMerge
begin

text \<open>
  Lists with a circle: the fast and the slow pointer meet exactly when there is one, and the two
  walks from the head and from behind the meeting point join where the circle starts. The walk is
  followed by position, as in the analysis of the tortoise and the hare.
\<close>

text \<open>
  \<open>lasso h pos mu lam\<close>: the walk \<open>pos\<close> follows the links for ever, and two of its positions agree
  exactly when both are in the circle, which starts after \<open>mu\<close> steps and has \<open>lam\<close> nodes.
\<close>

definition lasso :: "list_heap \<Rightarrow> (nat \<Rightarrow> addr) \<Rightarrow> nat \<Rightarrow> nat \<Rightarrow> bool" where
  "lasso h pos mu lam \<longleftrightarrow> 0 < lam \<and>
     (\<forall>i. pos i \<noteq> NULL \<and> rd h (pos i) m_pNext = Some (pos (Suc i))) \<and>
     (\<forall>i j. i < j \<longrightarrow> (pos i = pos j \<longleftrightarrow> mu \<le> i \<and> lam dvd j - i))"

lemma lassoD:
  assumes "lasso h pos mu lam"
  shows "0 < lam" "pos i \<noteq> NULL" "rd h (pos i) m_pNext = Some (pos (Suc i))"
    "i < j \<Longrightarrow> pos i = pos j \<longleftrightarrow> mu \<le> i \<and> lam dvd j - i"
  using assms unfolding lasso_def by blast+

lemma lasso_plus: "lasso h pos mu lam \<Longrightarrow> 0 < d \<Longrightarrow> pos i = pos (i + d) \<longleftrightarrow> mu \<le> i \<and> lam dvd d"
  using lassoD(4) [of h pos mu lam i "i + d"] by simp

text \<open>The walk along a path that ends in one of its own nodes.\<close>

definition wrap :: "nat \<Rightarrow> nat \<Rightarrow> nat \<Rightarrow> nat" where
  "wrap mu lam i = (if i < mu then i else mu + (i - mu) mod lam)"

lemma wrap_less: "0 < lam \<Longrightarrow> wrap mu lam i < mu + lam"
  by (auto simp: wrap_def)

lemma wrap_Suc: "0 < lam \<Longrightarrow> wrap mu lam (Suc i) = (if Suc (wrap mu lam i) < mu + lam then Suc (wrap mu lam i) else mu)"
proof -
  assume "0 < lam"
  then have "(i - mu) mod lam < lam" by simp
  then show ?thesis by (cases "i < mu") (auto simp: wrap_def Suc_diff_le mod_Suc)
qed

lemma wrap_eq: "i < j \<Longrightarrow> 0 < lam \<Longrightarrow> wrap mu lam i = wrap mu lam j \<longleftrightarrow> mu \<le> i \<and> lam dvd j - i"
  using mod_eq_dvd_iff_nat [of "i - mu" "j - mu" lam]
  by (auto simp: wrap_def dest: sym)

lemma lasso_path:
  assumes p: "path m_pNext h p (xs @ c # ys) c" and d: "distinct (xs @ c # ys)"
  shows "lasso h (\<lambda>i. (xs @ c # ys) ! wrap (length xs) (Suc (length ys)) i) (length xs) (Suc (length ys))"
proof -
  let ?zs = "xs @ c # ys" and ?w = "wrap (length xs) (Suc (length ys))"
  have w: "?w i < length ?zs" for i using wrap_less [of "Suc (length ys)" "length xs" i] by simp
  have "?zs ! ?w i \<noteq> NULL \<and> rd h (?zs ! ?w i) m_pNext = Some (?zs ! ?w (Suc i))" for i
    using path_nth [OF p w, of i] wrap_Suc [of "Suc (length ys)" "length xs" i] by (auto simp: rd_def)
  moreover have "?zs ! ?w i = ?zs ! ?w j \<longleftrightarrow> length xs \<le> i \<and> Suc (length ys) dvd j - i" if "i < j" for i j
    using nth_eq_iff_index_eq [OF d w w] wrap_eq [OF that] by simp
  ultimately show ?thesis by (simp add: lasso_def)
qed

subsection \<open>The fast and the slow pointer\<close>

lemma circle_loop_lasso:
  assumes l: "lasso h pos mu lam" and K: "mu \<le> K" "lam dvd K"
  shows "k < K \<Longrightarrow> circle_loop h (pos (2 * k)) (pos k) = Some True"
proof (induction "K - k" arbitrary: k)
  case (Suc d)
  show ?case
  proof (cases "pos (Suc k) = pos (2 * Suc k)")
    case True
    then show ?thesis using lassoD(2,3) [OF l] by (subst circle_loop.simps) simp
  next
    case False
    then have "Suc k \<noteq> K" using lasso_plus [OF l, of "Suc k" "Suc k"] K by (auto simp: mult_2)
    then have "d = K - Suc k" "Suc k < K" using Suc.hyps(2) Suc.prems by auto
    then have "circle_loop h (pos (2 * Suc k)) (pos (Suc k)) = Some True" by (rule Suc.hyps(1))
    then show ?thesis using lassoD(2,3) [OF l] by (subst circle_loop.simps) simp
  qed
qed simp

lemma circle_loop_chain:
  "chain h p xs \<Longrightarrow> 2 * k \<le> length xs \<Longrightarrow> circle_loop h (at xs (2 * k)) (at xs k) = Some False"
proof (induction "length xs - 2 * k" arbitrary: k rule: less_induct)
  case less
  note n = at_next [OF less.prems(1)] and z = at_NULL [OF less.prems(1)]
  consider "length xs = 2 * k" | "length xs = Suc (2 * k)" | "Suc (2 * k) < length xs" using less.prems(2) by linarith
  then show ?case
  proof cases
    case 1
    then show ?thesis using z [of "2 * k"] by (subst circle_loop.simps) simp
  next
    case 2
    then show ?thesis using z [of "2 * k"] z [of "Suc (2 * k)"] n [of "2 * k"] by (subst circle_loop.simps) simp
  next
    case 3
    have "circle_loop h (at xs (2 * Suc k)) (at xs (Suc k)) = Some False"
      using less.prems(1) 3 by (intro less.hyps) auto
    moreover have "at xs (Suc k) \<noteq> at xs (2 * Suc k)" using at_inj [OF less.prems(1), of "Suc k" "2 * Suc k"] 3 by simp
    ultimately show ?thesis using 3 n [of "2 * k"] n [of "Suc (2 * k)"] n [of k] z [of "2 * k"] z [of "Suc (2 * k)"]
      by (subst circle_loop.simps) simp
  qed
qed

lemma HasCircle_ok:
  "chain h p xs \<Longrightarrow> HasCircle h p = Some False"
  "path m_pNext h p (xs @ c # ys) c \<Longrightarrow> distinct (xs @ c # ys) \<Longrightarrow> HasCircle h p = Some True"
proof -
  show "chain h p xs \<Longrightarrow> HasCircle h p = Some False"
    using circle_loop_chain [of h p xs 0] at_0 [of h p xs] by (simp add: HasCircle_def)
next
  assume p: "path m_pNext h p (xs @ c # ys) c" and d: "distinct (xs @ c # ys)"
  let ?pos = "\<lambda>i. (xs @ c # ys) ! wrap (length xs) (Suc (length ys)) i"
  let ?K = "Suc (length ys) * Suc (length xs)"
  have "?pos 0 = p" using path_head [OF p] by (cases xs) (auto simp: wrap_def)
  moreover have "length xs \<le> ?K" "0 < ?K" by auto
  moreover have "Suc (length ys) dvd ?K" by (rule dvd_triv_left)
  ultimately show "HasCircle h p = Some True"
    using circle_loop_lasso [OF lasso_path [OF p d], of ?K 0] by (simp add: HasCircle_def)
qed

text \<open>The meeting point is the first positive multiple of the length of the circle that is in it.\<close>

definition first_meet :: "nat \<Rightarrow> nat \<Rightarrow> nat \<Rightarrow> bool" where
  "first_meet mu lam n \<longleftrightarrow> 0 < n \<and> mu \<le> n \<and> lam dvd n \<and> (\<forall>j. 0 < j \<and> j < n \<longrightarrow> \<not> (mu \<le> j \<and> lam dvd j))"

lemma first_meet_exists: "0 < lam \<Longrightarrow> \<exists>n. first_meet mu lam n"
proof -
  assume "0 < lam"
  moreover from this have "1 * Suc mu \<le> lam * Suc mu" by (intro mult_le_mono1) simp
  then have "mu \<le> lam * Suc mu" by (rule order_trans [rotated]) simp
  ultimately have "0 < lam * Suc mu \<and> mu \<le> lam * Suc mu \<and> lam dvd lam * Suc mu" by simp
  then have "\<exists>n. 0 < n \<and> mu \<le> n \<and> lam dvd n" by blast
  from exists_least_iff [THEN iffD1, OF this] show ?thesis unfolding first_meet_def by blast
qed

lemma first_meet_bound: "first_meet mu lam n \<Longrightarrow> 0 < mu \<Longrightarrow> n < mu + lam"
proof (rule ccontr)
  assume n: "first_meet mu lam n" and mu: "0 < mu" and "\<not> n < mu + lam"
  moreover have "0 < lam" using n by (cases lam) (auto simp: first_meet_def)
  ultimately have "0 < n - lam" "n - lam < n" "mu \<le> n - lam" "lam dvd n - lam"
    by (auto simp: first_meet_def intro: dvd_diff_nat gr0I)
  then show False using n unfolding first_meet_def by blast
qed

lemma floyd_loop_lasso:
  assumes l: "lasso h pos mu lam" and n: "first_meet mu lam n"
  shows "k < n \<Longrightarrow> floyd_loop h (pos (2 * k)) (pos k) = Some (pos n, pos n)"
proof (induction "n - k" arbitrary: k)
  case (Suc d)
  have meet: "pos (Suc k) = pos (2 * Suc k) \<longleftrightarrow> mu \<le> Suc k \<and> lam dvd Suc k"
    using lasso_plus [OF l, of "Suc k" "Suc k"] by (simp add: mult_2)
  show ?case
  proof (cases "Suc k = n")
    case True
    then have "pos (Suc k) = pos (2 * Suc k)" using meet n by (simp add: first_meet_def)
    then show ?thesis unfolding True [symmetric] using lassoD(2,3) [OF l] by (subst floyd_loop.simps) simp
  next
    case False
    then have "pos (Suc k) \<noteq> pos (2 * Suc k)" using meet n Suc.prems by (auto simp: first_meet_def)
    moreover have "floyd_loop h (pos (2 * Suc k)) (pos (Suc k)) = Some (pos n, pos n)"
    proof (rule Suc.hyps(1))
      show "d = n - Suc k" "Suc k < n" using Suc.hyps(2) Suc.prems False by auto
    qed
    ultimately show ?thesis using lassoD(2,3) [OF l] by (subst floyd_loop.simps) simp
  qed
qed simp

lemma count_to_lasso:
  assumes l: "lasso h pos mu lam"
  shows "pos (i + d) = t \<Longrightarrow> \<forall>e<d. pos (i + e) \<noteq> t \<Longrightarrow> c + int d < 2 ^ 31 \<Longrightarrow> count_to h t c (pos i) = Some (c + int d)"
proof (induction d arbitrary: i c)
  case 0
  then show ?case by (subst count_to.simps) simp
next
  case (Suc d)
  have "count_to h t (c + 1) (pos (Suc i)) = Some (c + 1 + int d)"
    using Suc.prems by (intro Suc.IH) (auto dest: spec [of _ "Suc _"])
  then show ?case using Suc.prems(2,3) lassoD(2,3) [OF l] spec [OF Suc.prems(2), of 0]
    by (subst count_to.simps) simp
qed

lemma meet_loop_lasso:
  assumes l: "lasso h pos mu lam"
  shows "pos (i + d) = pos (j + d) \<Longrightarrow> \<forall>e<d. pos (i + e) \<noteq> pos (j + e) \<Longrightarrow> meet_loop h (pos i) (pos j) = Some (pos (i + d))"
proof (induction d arbitrary: i j)
  case 0
  then show ?case by (subst meet_loop.simps) simp
next
  case (Suc d)
  have "meet_loop h (pos (Suc i)) (pos (Suc j)) = Some (pos (Suc i + d))"
    using Suc.prems by (intro Suc.IH) (auto dest: spec [of _ "Suc _"])
  then show ?case using lassoD(3) [OF l] spec [OF Suc.prems(2), of 0] by (subst meet_loop.simps) simp
qed

lemma advance_lasso: "lasso h pos mu lam \<Longrightarrow> advance h k (pos i) = Some (pos (i + k))"
  by (induction k arbitrary: i) (simp_all add: lassoD(3))

lemma circle_start:
  assumes l: "lasso h pos mu lam" and n: "first_meet mu lam n" and small: "mu + lam < 2 ^ 31"
  shows "\<exists>len1 len2. count_to h (pos n) 1 (pos 0) = Some len1 \<and> count_to h (pos n) 1 (pos (Suc n)) = Some len2 \<and>
    align_and_meet h len1 len2 (pos 0) (pos (Suc n)) = Some (pos mu)"
proof -
  have lam: "0 < lam" "0 < n" "mu \<le> n" "lam dvd n" "lam \<le> n" using n lassoD(1) [OF l] by (auto simp: first_meet_def dvd_imp_le)
  have c2: "count_to h (pos n) 1 (pos (Suc n)) = Some (1 + int (lam - 1))"
  proof (rule count_to_lasso [OF l])
    show "pos (Suc n + (lam - 1)) = pos n" using lasso_plus [OF l, of lam n] lam by simp
    show "\<forall>e<lam - 1. pos (Suc n + e) \<noteq> pos n"
    proof (intro allI impI notI)
      fix e assume e: "e < lam - 1" "pos (Suc n + e) = pos n"
      then have "lam dvd Suc e" using lasso_plus [OF l, of "Suc e" n] by simp
      then show False using e(1) by (auto dest: dvd_imp_le)
    qed
  qed (use small lam in simp)
  show ?thesis
  proof (cases "mu = 0")
    case True
    have "pos 0 = pos n" using lasso_plus [OF l, of n 0] lam True by simp
    then have "count_to h (pos n) 1 (pos 0) = Some (1 + int 0)"
      by (intro count_to_lasso [OF l]) simp_all
    moreover have "pos 0 = pos (n + lam)" using lasso_plus [OF l, of "n + lam" 0] lam True by simp
    then have "meet_loop h (pos 0) (pos (n + lam)) = Some (pos (0 + 0))" by (intro meet_loop_lasso [OF l]) simp_all
    then have "align_and_meet h 1 (int lam) (pos 0) (pos (Suc n)) = Some (pos mu)"
      using lam True advance_lasso [OF l, of "lam - 1" "Suc n"] by (simp add: align_and_meet_def nat_diff_distrib)
    ultimately show ?thesis using c2 lam by (simp add: of_nat_diff)
  next
    case False
    then have b: "n < mu + lam" using first_meet_bound [OF n] by simp
    have nm: "pos e \<noteq> pos n" if "e < n" for e
    proof
      assume "pos e = pos n"
      then have ge: "mu \<le> e" and dv: "lam dvd n - e" using lassoD(4) [OF l that] by auto
      have "lam dvd n - (n - e)" by (rule dvd_diff_nat [OF lam(4) dv])
      then have "lam dvd e" using that by simp
      then show False using n that ge False by (auto simp: first_meet_def)
    qed
    have c1: "count_to h (pos n) 1 (pos 0) = Some (1 + int n)"
      using nm small b by (intro count_to_lasso [OF l]) auto
    let ?i = "Suc n - lam"
    have i: "?i \<le> mu" "?i + lam = Suc n" using b lam by auto
    have "meet_loop h (pos ?i) (pos (Suc n)) = Some (pos (?i + (mu - ?i)))"
    proof (rule meet_loop_lasso [OF l])
      show "pos (?i + (mu - ?i)) = pos (Suc n + (mu - ?i))"
      proof -
        have "Suc n + (mu - ?i) = mu + lam" "?i + (mu - ?i) = mu" using i by linarith+
        then show ?thesis using lasso_plus [OF l, of lam mu] lam(1) by (simp only: dvd_refl order_refl simp_thms)
      qed
      show "\<forall>e<mu - ?i. pos (?i + e) \<noteq> pos (Suc n + e)"
      proof (intro allI impI)
        fix e assume e: "e < mu - ?i"
        have "Suc n + e = (?i + e) + lam" using i(2) by linarith
        then show "pos (?i + e) \<noteq> pos (Suc n + e)" using lasso_plus [OF l, of lam "?i + e"] lam e by simp
      qed
    qed
    then have "align_and_meet h (1 + int n) (int lam) (pos 0) (pos (Suc n)) = Some (pos mu)"
      using lam i advance_lasso [OF l, of ?i 0] by (simp add: align_and_meet_def nat_diff_distrib nat_add_distrib)
    then show ?thesis using c1 c2 lam by (simp add: of_nat_diff)
  qed
qed

lemma GetFirstNodeInCircle_circle:
  assumes p: "path m_pNext h p (xs @ c # ys) c" and d: "distinct (xs @ c # ys)"
    and small: "length (xs @ c # ys) < 2 ^ 31"
  shows "GetFirstNodeInCircle h p = Some c"
proof -
  let ?pos = "\<lambda>i. (xs @ c # ys) ! wrap (length xs) (Suc (length ys)) i"
  note l = lasso_path [OF p d]
  obtain n where n: "first_meet (length xs) (Suc (length ys)) n" using first_meet_exists by blast
  have p0: "?pos 0 = p" using path_head [OF p] by (cases xs) (auto simp: wrap_def)
  have pc: "?pos (length xs) = c" by (simp add: wrap_def)
  have "0 < n" using n by (simp add: first_meet_def)
  then have f: "floyd_loop h p p = Some (?pos n, ?pos n)" using floyd_loop_lasso [OF l n, of 0] p0 by simp
  have sm: "length xs + Suc (length ys) < 2 ^ 31" using small by simp
  obtain len1 len2 where "count_to h (?pos n) 1 p = Some len1" "count_to h (?pos n) 1 (?pos (Suc n)) = Some len2"
      "align_and_meet h len1 len2 p (?pos (Suc n)) = Some c"
    using circle_start [OF l n sm] unfolding p0 pc by blast
  moreover have "p \<noteq> NULL" "rd h p m_pNext = Some (?pos 1)" "?pos 1 \<noteq> NULL"
    using lassoD(2,3) [OF l, of 0] lassoD(2) [OF l, of 1] p0 by auto
  ultimately show ?thesis using f lassoD(2,3) [OF l] by (simp add: GetFirstNodeInCircle_def)
qed

lemma floyd_loop_chain:
  "chain h p xs \<Longrightarrow> 2 * k \<le> length xs \<Longrightarrow>
   \<exists>f t. floyd_loop h (at xs (2 * k)) (at xs k) = Some (f, t) \<and> (f = NULL \<or> rd h f m_pNext = Some NULL)"
proof (induction "length xs - 2 * k" arbitrary: k rule: less_induct)
  case less
  note n = at_next [OF less.prems(1)] and z = at_NULL [OF less.prems(1)]
  consider "length xs = 2 * k" | "length xs = Suc (2 * k)" | "Suc (2 * k) < length xs" using less.prems(2) by linarith
  then show ?case
  proof cases
    case 1
    then show ?thesis using z [of "2 * k"] by (subst floyd_loop.simps) simp
  next
    case 2
    then show ?thesis using z [of "2 * k"] z [of "Suc (2 * k)"] n [of "2 * k"] by (subst floyd_loop.simps) simp
  next
    case 3
    have "\<exists>f t. floyd_loop h (at xs (2 * Suc k)) (at xs (Suc k)) = Some (f, t) \<and> (f = NULL \<or> rd h f m_pNext = Some NULL)"
      using less.prems(1) 3 by (intro less.hyps) auto
    moreover have "at xs (Suc k) \<noteq> at xs (2 * Suc k)" using at_inj [OF less.prems(1), of "Suc k" "2 * Suc k"] 3 by simp
    ultimately show ?thesis using 3 n [of "2 * k"] n [of "Suc (2 * k)"] n [of k] z [of "2 * k"] z [of "Suc (2 * k)"]
      by (subst floyd_loop.simps) simp
  qed
qed

lemma GetFirstNodeInCircle_chain:
  assumes l: "chain h p xs"
  shows "GetFirstNodeInCircle h p = Some NULL"
proof (cases "xs = []")
  case True
  then show ?thesis using l by (simp add: GetFirstNodeInCircle_def)
next
  case False
  then have p: "p \<noteq> NULL" "rd h p m_pNext = Some (at xs 1)" using chain_NULL_iff [OF l] at_next [OF l, of 0] at_0 [OF l] by auto
  obtain f t where "floyd_loop h p p = Some (f, t)" "f = NULL \<or> rd h f m_pNext = Some NULL"
    using floyd_loop_chain [OF l, of 0] at_0 [OF l] by auto
  then show ?thesis using p by (auto simp: GetFirstNodeInCircle_def)
qed

end
