(* ===== verification/LinkQueue.thy ===== *)
theory LinkQueue
  imports Paths
begin

text \<open>
  The linked queue of \<^verbatim>\<open>algorithms_datastructures/algorithms_datastructures.c\<close> (lines 474 to 584).
  The element type and the status codes are declared in no file of the repository: the element
  type is a parameter, \<^verbatim>\<open>OK\<close> and \<^verbatim>\<open>ERROR\<close> are a datatype, \<^verbatim>\<open>TRUE\<close> and \<^verbatim>\<open>FALSE\<close> are \<open>bool\<close>. What an
  operation writes through its pointer \<^verbatim>\<open>e\<close> is an option, \<open>None\<close> for nothing. The addresses
  \<^verbatim>\<open>malloc\<close> is going to return come with the indeterminate contents of the new cell.
\<close>

record 'e QNode =
  data :: 'e
  qnext :: addr

record LinkQueue =
  front :: addr
  rear :: addr

record 'e qmem =
  qnodes :: "'e QNode heap"
  qarena :: "(addr \<times> 'e QNode) list"

datatype Status = OK | ERROR

definition malloc_qnode :: "'e qmem \<Rightarrow> addr \<times> 'e qmem" where
  "malloc_qnode m = (case qarena m of [] \<Rightarrow> (NULL, m)
     | (a, n) # as \<Rightarrow> (a, m\<lparr>qnodes := (if a = NULL then qnodes m else (qnodes m)(a \<mapsto> n)), qarena := as\<rparr>))"

definition InitQueue :: "'e qmem \<Rightarrow> (LinkQueue \<times> 'e qmem) run" where
  "InitQueue m = (let (a, m) = malloc_qnode m; Q = \<lparr>front = a, rear = a\<rparr> in
     if front Q = NULL then Exit
     else lift (do { h \<leftarrow> upd (qnodes m) (front Q) (qnext_update (\<lambda>_. NULL)); Some (Q, m\<lparr>qnodes := h\<rparr>) }))"

partial_function (option) DestroyQueue :: "LinkQueue \<Rightarrow> 'e qmem \<Rightarrow> (LinkQueue \<times> 'e qmem) option" where
  "DestroyQueue Q m = (if front Q \<noteq> NULL then do {
       n \<leftarrow> rd (qnodes m) (front Q) qnext;
       h \<leftarrow> release (qnodes m) (front Q);
       DestroyQueue (Q\<lparr>rear := n, front := n\<rparr>) (m\<lparr>qnodes := h\<rparr>)
     } else Some (Q, m))"

partial_function (option) clear_loop :: "addr \<Rightarrow> 'e qmem \<Rightarrow> 'e qmem option" where
  "clear_loop p m = (if p \<noteq> NULL then do {
       n \<leftarrow> rd (qnodes m) p qnext;
       h \<leftarrow> release (qnodes m) p;
       clear_loop n (m\<lparr>qnodes := h\<rparr>)
     } else Some m)"

definition ClearQueue :: "LinkQueue \<Rightarrow> 'e qmem \<Rightarrow> (LinkQueue \<times> 'e qmem) option" where
  "ClearQueue Q m = do {
     let Q = Q\<lparr>rear := front Q\<rparr> in do {
       p \<leftarrow> rd (qnodes m) (front Q) qnext;
       h \<leftarrow> upd (qnodes m) (front Q) (qnext_update (\<lambda>_. NULL));
       m \<leftarrow> clear_loop p (m\<lparr>qnodes := h\<rparr>);
       Some (Q, m)
     }
   }"

definition QueueEmpty :: "LinkQueue \<Rightarrow> 'e qmem \<Rightarrow> bool option" where
  "QueueEmpty Q m = do { n \<leftarrow> rd (qnodes m) (front Q) qnext; Some (n = NULL) }"

partial_function (option) length_from :: "'e QNode heap \<Rightarrow> addr \<Rightarrow> int \<Rightarrow> addr \<Rightarrow> int option" where
  "length_from h r i p = (if r \<noteq> p then do {
       i \<leftarrow> int_inc i;
       n \<leftarrow> rd h p qnext;
       length_from h r i n
     } else Some i)"

definition QueueLength :: "LinkQueue \<Rightarrow> 'e qmem \<Rightarrow> int option" where
  "QueueLength Q m = length_from (qnodes m) (rear Q) 0 (front Q)"

definition GetHead_Q :: "LinkQueue \<Rightarrow> 'e qmem \<Rightarrow> (Status \<times> 'e option) option" where
  "GetHead_Q Q m = (if front Q = rear Q then Some (ERROR, None)
     else do {
       p \<leftarrow> rd (qnodes m) (front Q) qnext;
       e \<leftarrow> rd (qnodes m) p data;
       Some (OK, Some e)
     })"

definition EnQueue :: "'e \<Rightarrow> LinkQueue \<times> 'e qmem \<Rightarrow> (LinkQueue \<times> 'e qmem) run" where
  "EnQueue e s = (let (Q, m) = s; (p, m) = malloc_qnode m in
     if p = NULL then Exit
     else lift (do {
       h \<leftarrow> upd (qnodes m) p (data_update (\<lambda>_. e));
       h \<leftarrow> upd h p (qnext_update (\<lambda>_. NULL));
       h \<leftarrow> upd h (rear Q) (qnext_update (\<lambda>_. p));
       Some (Q\<lparr>rear := p\<rparr>, m\<lparr>qnodes := h\<rparr>)
     }))"

definition DeQueue :: "LinkQueue \<times> 'e qmem \<Rightarrow> (Status \<times> 'e option \<times> LinkQueue \<times> 'e qmem) option" where
  "DeQueue s = (let (Q, m) = s in
     if front Q = rear Q then Some (ERROR, None, Q, m)
     else do {
       p \<leftarrow> rd (qnodes m) (front Q) qnext;
       e \<leftarrow> rd (qnodes m) p data;
       n \<leftarrow> rd (qnodes m) p qnext;
       h \<leftarrow> upd (qnodes m) (front Q) (qnext_update (\<lambda>_. n));
       let Q = (if rear Q = p then Q\<lparr>rear := front Q\<rparr> else Q) in do {
         h \<leftarrow> release h p;
         Some (OK, Some e, Q, m\<lparr>qnodes := h\<rparr>)
       }
     })"

text \<open>The elements in the order in which \<^verbatim>\<open>vi\<close> is called on them.\<close>

partial_function (option) traverse_loop :: "'e QNode heap \<Rightarrow> addr \<Rightarrow> 'e list option" where
  "traverse_loop h p = (if p \<noteq> NULL then do {
       e \<leftarrow> rd h p data;
       n \<leftarrow> rd h p qnext;
       es \<leftarrow> traverse_loop h n;
       Some (e # es)
     } else Some [])"

definition QueueTraverse :: "LinkQueue \<Rightarrow> 'e qmem \<Rightarrow> 'e list option" where
  "QueueTraverse Q m = do { p \<leftarrow> rd (qnodes m) (front Q) qnext; traverse_loop (qnodes m) p }"

subsection \<open>The interface of a queue\<close>

text \<open>What a client may rely on, and what follows for any sequence of operations.\<close>

datatype 'e queue_op = Enq 'e | Deq

fun list_ops :: "'e queue_op list \<Rightarrow> 'e list \<Rightarrow> 'e option list \<times> 'e list" where
  "list_ops [] xs = ([], xs)"
| "list_ops (Enq e # ops) xs = list_ops ops (xs @ [e])"
| "list_ops (Deq # ops) xs = (let (os, ys) = list_ops ops (tl xs) in
     ((case xs of [] \<Rightarrow> None | x # _ \<Rightarrow> Some x) # os, ys))"

fun queue_ops ::
    "('e \<Rightarrow> 's \<Rightarrow> 's run) \<Rightarrow> ('s \<Rightarrow> (Status \<times> 'e option \<times> 's) option) \<Rightarrow> 'e queue_op list \<Rightarrow> 's \<Rightarrow>
     ('e option list \<times> 's) run" where
  "queue_ops enq deq [] s = Return ([], s)"
| "queue_ops enq deq (Enq e # ops) s = seq (enq e s) (queue_ops enq deq ops)"
| "queue_ops enq deq (Deq # ops) s = seq (lift (deq s)) (\<lambda>(st, e, s).
     seq (queue_ops enq deq ops s) (\<lambda>(os, s). Return (e # os, s)))"

locale fifo =
  fixes holds :: "'s \<Rightarrow> 'e list \<Rightarrow> bool"
    and enq :: "'e \<Rightarrow> 's \<Rightarrow> 's run"
    and deq :: "'s \<Rightarrow> (Status \<times> 'e option \<times> 's) option"
  assumes enq: "holds s xs \<Longrightarrow> enq e s = Exit \<or> (\<exists>s'. enq e s = Return s' \<and> holds s' (xs @ [e]))"
    and deq_empty: "holds s [] \<Longrightarrow> deq s = Some (ERROR, None, s)"
    and deq: "holds s (x # xs) \<Longrightarrow> \<exists>s'. deq s = Some (OK, Some x, s') \<and> holds s' xs"
begin

lemma ops_refine:
  "holds s xs \<Longrightarrow> queue_ops enq deq ops s = Exit \<or>
     (\<exists>s'. queue_ops enq deq ops s = Return (fst (list_ops ops xs), s') \<and> holds s' (snd (list_ops ops xs)))"
proof (induction ops arbitrary: s xs)
  case (Cons op ops)
  show ?case
  proof (cases op)
    case (Enq e)
    then show ?thesis using enq [OF Cons.prems, of e] Cons.IH [of _ "xs @ [e]"] by fastforce
  next
    case Deq
    show ?thesis
    proof (cases xs)
      case Nil
      then show ?thesis using deq_empty [of s] Cons.IH [of s "[]"] Cons.prems Deq
        by (auto simp: split_beta)
    next
      case xs: (Cons x ys)
      then obtain s' where "deq s = Some (OK, Some x, s')" "holds s' ys" using deq Cons.prems by blast
      then show ?thesis using xs Deq Cons.IH [of s' ys] by (auto simp: split_beta)
    qed
  qed
qed simp

end

subsection \<open>What a queue holds\<close>

text \<open>From the head cell the chain runs through the cells of the elements to the rear.\<close>

definition fresh_ok :: "'e qmem \<Rightarrow> bool" where
  "fresh_ok m \<longleftrightarrow> distinct (filter (\<lambda>a. a \<noteq> NULL) (map fst (qarena m))) \<and>
     (\<forall>a\<in>fst ` set (qarena m). qnodes m a = None)"

definition queue_cells :: "LinkQueue \<Rightarrow> 'e qmem \<Rightarrow> addr list \<Rightarrow> bool" where
  "queue_cells Q m cs \<longleftrightarrow> path qnext (qnodes m) (front Q) (front Q # cs) NULL \<and>
     rear Q = last (front Q # cs) \<and> fresh_ok m"

definition elems :: "'e qmem \<Rightarrow> addr list \<Rightarrow> 'e list" where
  "elems m cs = map (\<lambda>a. data (the (qnodes m a))) cs"

text \<open>\<open>D\<close>: the cells of the heap that belong to others; the queue owns all the rest.\<close>

definition queue_holds :: "addr set \<Rightarrow> LinkQueue \<times> 'e qmem \<Rightarrow> 'e list \<Rightarrow> bool" where
  "queue_holds D s xs \<longleftrightarrow> (\<exists>cs. queue_cells (fst s) (snd s) cs \<and> elems (snd s) cs = xs \<and>
     dom (qnodes (snd s)) = D \<union> set (front (fst s) # cs) \<and> D \<inter> set (front (fst s) # cs) = {})"

lemma queue_cellsD:
  assumes "queue_cells Q m cs"
  shows "path qnext (qnodes m) (front Q) (front Q # cs) NULL" "front Q \<noteq> NULL" "distinct (front Q # cs)"
    "rear Q = last (front Q # cs)" "fresh_ok m" "\<exists>n. qnodes m (front Q) = Some n \<and> path qnext (qnodes m) (qnext n) cs NULL"
  using assms chain_distinct [of qnext "qnodes m" "front Q" "front Q # cs"] by (auto simp: queue_cells_def)

lemma front_rear: "queue_cells Q m cs \<Longrightarrow> front Q = rear Q \<longleftrightarrow> cs = []"
  using queue_cellsD(3,4) [of Q m cs] last_in_set [of cs] by auto

lemma EnQueue_ok:
  assumes q: "queue_cells Q m cs"
  shows "EnQueue e (Q, m) = Exit \<and> fst (malloc_qnode m) = NULL \<or>
    (\<exists>p m'. EnQueue e (Q, m) = Return (Q\<lparr>rear := p\<rparr>, m') \<and> queue_cells (Q\<lparr>rear := p\<rparr>) m' (cs @ [p]) \<and>
       elems m' (cs @ [p]) = elems m cs @ [e] \<and> dom (qnodes m') = insert p (dom (qnodes m)) \<and> p \<notin> dom (qnodes m))"
proof (cases "fst (malloc_qnode m) = NULL")
  case True
  then show ?thesis by (auto simp: EnQueue_def split_beta)
next
  case False
  then obtain p n0 as where a: "qarena m = (p, n0) # as" "p \<noteq> NULL"
    by (auto simp: malloc_qnode_def split: list.splits prod.splits if_splits)
  note d = queue_cellsD [OF q]
  have fp: "qnodes m p = None" using d(5) a by (simp add: fresh_ok_def)
  obtain as' z where z: "front Q # cs = as' @ [z]" using rev_exhaust [of "front Q # cs"] by blast
  then have rz: "rear Q = z" using d(4) by simp
  have pth: "path qnext (qnodes m) (front Q) (as' @ [z]) NULL" using d(1) z by simp
  then obtain nz where nz: "qnodes m z = Some nz" "z \<noteq> NULL" by auto
  have np: "p \<notin> set (as' @ [z])" using path_cells [OF pth] fp by blast
  have dz: "z \<notin> set as'" using d(3) unfolding z by simp
  let ?h = "(qnodes m)(p \<mapsto> n0\<lparr>data := e, qnext := NULL\<rparr>, z \<mapsto> nz\<lparr>qnext := p\<rparr>)"
  let ?m = "m\<lparr>qnodes := ?h, qarena := as\<rparr>"
  have zp: "z \<noteq> p" "p \<noteq> z" using np by auto
  have pc: "p \<notin> set cs" using np unfolding z [symmetric] by simp
  have "EnQueue e (Q, m) = Return (Q\<lparr>rear := p\<rparr>, ?m)"
    using a nz rz zp by (simp add: EnQueue_def malloc_qnode_def fun_upd_twist)
  moreover have "path qnext ?h (front Q) (front Q # cs @ [p]) NULL"
    using pth np dz a nz zp unfolding append_Cons [symmetric] z by auto
  moreover have "fresh_ok ?m" using d(5) a pth path_cells [OF pth, of z] by (auto simp: fresh_ok_def)
  moreover have "elems ?m (cs @ [p]) = elems m cs @ [e]"
    using nz pc zp by (auto simp: elems_def)
  moreover have "dom (qnodes ?m) = insert p (dom (qnodes m))" using nz by auto
  ultimately show ?thesis using fp by (intro disjI2 exI [of _ p] exI [of _ ?m]) (auto simp: queue_cells_def)
qed

lemma DeQueue_empty: "queue_cells Q m [] \<Longrightarrow> DeQueue (Q, m) = Some (ERROR, None, Q, m)"
  using front_rear [of Q m "[]"] by (simp add: DeQueue_def)

lemma DeQueue_ok:
  assumes q: "queue_cells Q m (c # cs)"
  shows "\<exists>Q' m'. DeQueue (Q, m) = Some (OK, Some (data (the (qnodes m c))), Q', m') \<and> queue_cells Q' m' cs \<and>
    elems m' cs = elems m cs \<and> dom (qnodes m') = dom (qnodes m) - {c} \<and> front Q' = front Q"
proof -
  note d = queue_cellsD [OF q]
  obtain n where n: "qnodes m (front Q) = Some n" "qnext n = c" using d(6) by auto
  obtain k where k: "qnodes m c = Some k" "c \<noteq> NULL" "path qnext (qnodes m) (qnext k) cs NULL" using d(6) n by auto
  have ne: "front Q \<noteq> c" "c \<noteq> front Q" "front Q \<notin> set cs" "c \<notin> set cs" using d(3) by auto
  let ?h = "(qnodes m)(front Q \<mapsto> n\<lparr>qnext := qnext k\<rparr>, c := None)"
  let ?Q = "if rear Q = c then Q\<lparr>rear := front Q\<rparr> else Q"
  have "DeQueue (Q, m) = Some (OK, Some (data k), ?Q, m\<lparr>qnodes := ?h\<rparr>)"
    using n k ne d(2) front_rear [OF q] by (simp add: DeQueue_def Let_def)
  moreover have "path qnext ?h (front ?Q) (front ?Q # cs) NULL" using k ne d(2) by simp
  moreover have "rear ?Q = last (front ?Q # cs)"
    using d(3,4) by (cases "cs = []") (auto dest: last_in_set)
  moreover have "fresh_ok (m\<lparr>qnodes := ?h\<rparr>)" using d(5) n(1) by (auto simp: fresh_ok_def)
  moreover have "elems (m\<lparr>qnodes := ?h\<rparr>) cs = elems m cs" using ne by (auto simp: elems_def)
  moreover have "dom (qnodes (m\<lparr>qnodes := ?h\<rparr>)) = dom (qnodes m) - {c}" using n by auto
  ultimately show ?thesis using k(1) by (auto simp: queue_cells_def)
qed

lemma queue_holdsE:
  assumes "queue_holds D s xs"
  obtains Q m cs where "s = (Q, m)" "queue_cells Q m cs" "xs = elems m cs"
    "dom (qnodes m) = D \<union> set (front Q # cs)" "D \<inter> set (front Q # cs) = {}"
  using assms by (cases s) (auto simp: queue_holds_def)

interpretation lq: fifo "queue_holds D" EnQueue DeQueue
proof
  fix s :: "LinkQueue \<times> 'a qmem" and xs e
  assume "queue_holds D s xs"
  then obtain Q m cs where s: "s = (Q, m)" "queue_cells Q m cs" "xs = elems m cs"
    "dom (qnodes m) = D \<union> set (front Q # cs)" "D \<inter> set (front Q # cs) = {}" by (rule queue_holdsE)
  consider "EnQueue e (Q, m) = Exit" | p m' where "EnQueue e (Q, m) = Return (Q\<lparr>rear := p\<rparr>, m')"
      "queue_cells (Q\<lparr>rear := p\<rparr>) m' (cs @ [p])" "elems m' (cs @ [p]) = elems m cs @ [e]"
      "dom (qnodes m') = insert p (dom (qnodes m))" "p \<notin> dom (qnodes m)"
    using EnQueue_ok [OF s(2), of e] by blast
  then show "EnQueue e s = Exit \<or> (\<exists>s'. EnQueue e s = Return s' \<and> queue_holds D s' (xs @ [e]))"
  proof cases
    case 2
    then have "queue_holds D (Q\<lparr>rear := p\<rparr>, m') (xs @ [e])"
      using s(3-5) unfolding queue_holds_def by (intro exI [of _ "cs @ [p]"]) auto
    then show ?thesis using 2(1) s(1) by blast
  qed (simp add: s)
next
  fix s :: "LinkQueue \<times> 'a qmem"
  assume "queue_holds D s []"
  then show "DeQueue s = Some (ERROR, None, s)"
    by (rule queue_holdsE) (auto simp: elems_def intro: DeQueue_empty)
next
  fix s :: "LinkQueue \<times> 'a qmem" and x xs
  assume "queue_holds D s (x # xs)"
  then obtain Q m cs' where s: "s = (Q, m)" "queue_cells Q m cs'" "x # xs = elems m cs'"
    "dom (qnodes m) = D \<union> set (front Q # cs')" "D \<inter> set (front Q # cs') = {}" by (rule queue_holdsE)
  then obtain c cs where c: "cs' = c # cs" "x = data (the (qnodes m c))" "xs = elems m cs"
    by (cases cs') (auto simp: elems_def)
  obtain Q' m' where 1: "DeQueue (Q, m) = Some (OK, Some x, Q', m')" "queue_cells Q' m' cs"
      "elems m' cs = xs" "dom (qnodes m') = dom (qnodes m) - {c}" "front Q' = front Q"
    using DeQueue_ok [of Q m c cs] s(2) c by blast
  have "c \<notin> set (front Q # cs)" using queue_cellsD(3) [OF s(2)] c(1) by auto
  then have "queue_holds D (Q', m') xs"
    using 1 s(4,5) c(1) unfolding queue_holds_def by (intro exI [of _ cs]) auto
  then show "\<exists>s'. DeQueue s = Some (OK, Some x, s') \<and> queue_holds D s' xs" using 1(1) s(1) by blast
qed

lemma InitQueue_ok:
  "fresh_ok m \<Longrightarrow> InitQueue m = Exit \<and> fst (malloc_qnode m) = NULL \<or>
   (\<exists>Q m'. InitQueue m = Return (Q, m') \<and> queue_cells Q m' [] \<and> dom (qnodes m') = insert (front Q) (dom (qnodes m)) \<and>
     front Q \<notin> dom (qnodes m))"
proof (cases "fst (malloc_qnode m) = NULL")
  case True
  then show ?thesis by (simp add: InitQueue_def split_beta Let_def)
next
  case False
  then obtain p n as where a: "qarena m = (p, n) # as" "p \<noteq> NULL"
    by (auto simp: malloc_qnode_def split: list.splits prod.splits if_splits)
  assume f: "fresh_ok m"
  let ?m = "m\<lparr>qnodes := (qnodes m)(p \<mapsto> n\<lparr>qnext := NULL\<rparr>), qarena := as\<rparr>"
  have "InitQueue m = Return (\<lparr>front = p, rear = p\<rparr>, ?m)"
    using a by (simp add: InitQueue_def malloc_qnode_def Let_def)
  moreover have "queue_cells \<lparr>front = p, rear = p\<rparr> ?m []"
    using f a by (auto simp: queue_cells_def fresh_ok_def)
  moreover have "p \<notin> dom (qnodes m)" using f a by (auto simp: fresh_ok_def)
  ultimately show ?thesis
    by (intro disjI2 exI [of _ "\<lparr>front = p, rear = p\<rparr>"] exI [of _ ?m]) simp
qed

lemma restrict_all [simp]: "f |` UNIV = f"
  by (rule ext) (simp add: restrict_map_def)

lemma clear_loop_ok:
  "path qnext (qnodes m) p cs NULL \<Longrightarrow> \<exists>h. clear_loop p m = Some (m\<lparr>qnodes := h\<rparr>) \<and> h = (qnodes m) |` (- set cs)"
proof (induction cs arbitrary: p m)
  case Nil
  then show ?case by (subst clear_loop.simps) simp
next
  case (Cons c cs)
  from Cons.prems obtain n where n: "qnodes m c = Some n" "p = c" "c \<noteq> NULL" "path qnext (qnodes m) (qnext n) cs NULL"
    by auto
  have "c \<notin> set cs" using chain_distinct [OF Cons.prems] by simp
  then have "path qnext (qnodes (m\<lparr>qnodes := (qnodes m)(c := None)\<rparr>)) (qnext n) cs NULL" using n by simp
  from Cons.IH [OF this] show ?case using n
    by (subst clear_loop.simps) (auto simp: restrict_map_def fun_eq_iff)
qed

lemma ClearQueue_ok:
  assumes q: "queue_cells Q m cs"
  shows "\<exists>Q' m'. ClearQueue Q m = Some (Q', m') \<and> queue_cells Q' m' [] \<and> front Q' = front Q \<and>
    dom (qnodes m') = dom (qnodes m) - set cs"
proof -
  note d = queue_cellsD [OF q]
  obtain n where n: "qnodes m (front Q) = Some n" "path qnext (qnodes m) (qnext n) cs NULL" using d(6) by auto
  let ?m = "m\<lparr>qnodes := (qnodes m)(front Q \<mapsto> n\<lparr>qnext := NULL\<rparr>)\<rparr>"
  have "path qnext (qnodes ?m) (qnext n) cs NULL" using n d(3) by simp
  from clear_loop_ok [OF this] have c: "clear_loop (qnext n) ?m = Some (?m\<lparr>qnodes := (qnodes ?m) |` (- set cs)\<rparr>)" by blast
  then have "ClearQueue Q m = Some (Q\<lparr>rear := front Q\<rparr>, ?m\<lparr>qnodes := (qnodes ?m) |` (- set cs)\<rparr>)"
    using n d(2) by (simp add: ClearQueue_def Let_def)
  moreover have "fresh_ok (?m\<lparr>qnodes := (qnodes ?m) |` (- set cs)\<rparr>)"
    using d(5) n(1) by (auto simp: fresh_ok_def restrict_map_def)
  ultimately show ?thesis using d(2,3) n(1) by (auto simp: queue_cells_def restrict_map_def split: if_splits)
qed

lemma destroy_chain:
  "path qnext (qnodes m) (front Q) cs NULL \<Longrightarrow>
   \<exists>Q'. DestroyQueue Q m = Some (Q', m\<lparr>qnodes := (qnodes m) |` (- set cs)\<rparr>) \<and> front Q' = NULL"
proof (induction cs arbitrary: Q m)
  case Nil
  then show ?case by (subst DestroyQueue.simps) simp
next
  case (Cons c cs)
  from Cons.prems obtain n where n: "qnodes m c = Some n" "front Q = c" "c \<noteq> NULL" "path qnext (qnodes m) (qnext n) cs NULL"
    by auto
  let ?Q = "Q\<lparr>rear := qnext n, front := qnext n\<rparr>" and ?m = "m\<lparr>qnodes := (qnodes m)(c := None)\<rparr>"
  have "c \<notin> set cs" using chain_distinct [OF Cons.prems] by simp
  then have "path qnext (qnodes ?m) (front ?Q) cs NULL" using n by simp
  from Cons.IH [OF this] obtain Q' where
    "DestroyQueue ?Q ?m = Some (Q', ?m\<lparr>qnodes := (qnodes ?m) |` (- set cs)\<rparr>)" "front Q' = NULL" by blast
  moreover have "(qnodes ?m) |` (- set cs) = (qnodes m) |` (- set (c # cs))" by (auto simp: restrict_map_def)
  ultimately show ?case using n by (subst DestroyQueue.simps) simp
qed

lemma length_from_ok:
  "path qnext h p (cs @ [z]) q \<Longrightarrow> z \<notin> set cs \<Longrightarrow> i + int (length cs) < 2 ^ 31 \<Longrightarrow>
   length_from h z i p = Some (i + int (length cs))"
proof (induction cs arbitrary: p i)
  case Nil
  then show ?case by (subst length_from.simps) simp
next
  case (Cons c cs)
  then obtain n where "h c = Some n" "p = c" "c \<noteq> NULL" "path qnext h (qnext n) (cs @ [z]) q"
    by (auto simp del: path_append)
  then show ?case using Cons.IH [of "qnext n" "i + 1"] Cons.prems by (subst length_from.simps) simp
qed

lemma QueueLength_ok:
  assumes q: "queue_cells Q m cs" and small: "length cs < 2 ^ 31"
  shows "QueueLength Q m = Some (int (length cs))"
proof -
  note d = queue_cellsD [OF q]
  obtain as z where z: "front Q # cs = as @ [z]" using rev_exhaust [of "front Q # cs"] by blast
  have "length as = length cs" using arg_cong [OF z, of length] by simp
  moreover have "z \<notin> set as" using d(3) unfolding z by simp
  moreover have "rear Q = z" using d(4) unfolding z by simp
  ultimately show ?thesis using length_from_ok [of "qnodes m" "front Q" as z NULL 0] d(1) small
    unfolding z by (simp add: QueueLength_def)
qed

lemma traverse_loop_ok:
  "path qnext h p cs NULL \<Longrightarrow> traverse_loop h p = Some (map (\<lambda>a. data (the (h a))) cs)"
proof (induction cs arbitrary: p)
  case Nil
  then show ?case by (subst traverse_loop.simps) simp
next
  case (Cons c cs)
  then obtain n where "h c = Some n" "p = c" "c \<noteq> NULL" "path qnext h (qnext n) cs NULL" by auto
  then show ?case using Cons.IH by (subst traverse_loop.simps) simp
qed

lemma queue_reads:
  assumes q: "queue_cells Q m cs" and small: "length cs < 2 ^ 31"
  shows "QueueEmpty Q m = Some (cs = [])" "QueueLength Q m = Some (int (length cs))"
    "GetHead_Q Q m = Some (case elems m cs of [] \<Rightarrow> (ERROR, None) | x # _ \<Rightarrow> (OK, Some x))"
    "QueueTraverse Q m = Some (elems m cs)"
proof -
  note d = queue_cellsD [OF q]
  obtain n where n: "qnodes m (front Q) = Some n" "path qnext (qnodes m) (qnext n) cs NULL" using d(6) by auto
  have e: "qnext n = NULL \<longleftrightarrow> cs = []" using n(2) by (cases cs) auto
  show "QueueEmpty Q m = Some (cs = [])" using n(1) d(2) e by (simp add: QueueEmpty_def)
  show "QueueLength Q m = Some (int (length cs))" by (rule QueueLength_ok [OF assms])
  show "GetHead_Q Q m = Some (case elems m cs of [] \<Rightarrow> (ERROR, None) | x # _ \<Rightarrow> (OK, Some x))"
    using n d(2) front_rear [OF q] by (cases cs) (auto simp: GetHead_Q_def elems_def)
  show "QueueTraverse Q m = Some (elems m cs)"
    using n d(2) traverse_loop_ok [OF n(2)] by (simp add: QueueTraverse_def elems_def)
qed

text \<open>From the creation of a queue over any operations to its destruction, nothing is leaked.\<close>

lemma queue_lifecycle:
  assumes f: "fresh_ok m"
  shows "InitQueue m = Exit \<or> (\<exists>s. InitQueue m = Return s \<and>
    (queue_ops EnQueue DeQueue ops s = Exit \<or>
     (\<exists>Q' m' Q'' m''. queue_ops EnQueue DeQueue ops s = Return (fst (list_ops ops []), (Q', m')) \<and>
       QueueTraverse Q' m' = Some (snd (list_ops ops [])) \<and>
       DestroyQueue Q' m' = Some (Q'', m'') \<and> dom (qnodes m'') = dom (qnodes m))))"
proof (cases "InitQueue m = Exit")
  case False
  then obtain Q m1 where 1: "InitQueue m = Return (Q, m1)" "queue_cells Q m1 []"
      "dom (qnodes m1) = insert (front Q) (dom (qnodes m))" "front Q \<notin> dom (qnodes m)"
    using InitQueue_ok [OF f] by blast
  let ?D = "dom (qnodes m)" and ?o = "list_ops ops []"
  have h: "queue_holds ?D (Q, m1) []" using 1(2-4) by (simp add: queue_holds_def elems_def)
  show ?thesis
  proof (cases "queue_ops EnQueue DeQueue ops (Q, m1) = Exit")
    case True
    then show ?thesis using 1(1) by blast
  next
    case no_exit: False
    then obtain s2 where 2: "queue_ops EnQueue DeQueue ops (Q, m1) = Return (fst ?o, s2)" "queue_holds ?D s2 (snd ?o)"
      using lq.ops_refine [OF h, of ops] by blast
    from 2(2) obtain Q' m' cs where s: "s2 = (Q', m')" "queue_cells Q' m' cs" "snd ?o = elems m' cs"
      "dom (qnodes m') = ?D \<union> set (front Q' # cs)" "?D \<inter> set (front Q' # cs) = {}" by (rule queue_holdsE)
    obtain n where n: "qnodes m' (front Q') = Some n" "path qnext (qnodes m') (qnext n) cs NULL"
      using queue_cellsD(6) [OF s(2)] by blast
    have "QueueTraverse Q' m' = Some (snd ?o)"
      using n queue_cellsD(2) [OF s(2)] traverse_loop_ok [OF n(2)] s(3) by (simp add: QueueTraverse_def elems_def)
    moreover obtain Q'' where "DestroyQueue Q' m' = Some (Q'', m'\<lparr>qnodes := (qnodes m') |` (- set (front Q' # cs))\<rparr>)"
      using destroy_chain [OF queue_cellsD(1) [OF s(2)]] by blast
    moreover have "dom ((qnodes m') |` (- set (front Q' # cs))) = ?D" using s(4,5) by auto
    then have "dom (qnodes (m'\<lparr>qnodes := (qnodes m') |` (- set (front Q' # cs))\<rparr>)) = ?D" by simp
    ultimately have "\<exists>Q' m' Q'' m''. queue_ops EnQueue DeQueue ops (Q, m1) = Return (fst ?o, (Q', m')) \<and>
       QueueTraverse Q' m' = Some (snd ?o) \<and> DestroyQueue Q' m' = Some (Q'', m'') \<and> dom (qnodes m'') = ?D"
      using 2(1) [unfolded s(1)] by (intro exI conjI) assumption+
    then show ?thesis using 1(1) by blast
  qed
qed simp

end
