(* ===== verification/ListProps.thy ===== *)
theory ListProps
  imports SListCircle LinkQueue
begin

text \<open>
  What the list functions and the queue promise, each with a witness on a concrete heap, and the
  one list function that loses nodes.
\<close>

subsection \<open>A concrete heap\<close>

text \<open>
  The lists 16, 32, 48 (keys 1, 3, 5) and 64, 80 (keys 2, 4); the list 96 that runs into 32; and
  112, 128, 144 with a circle back to 128.
\<close>

definition demo_lists :: list_heap where
  "demo_lists = [16 \<mapsto> \<lparr>m_nKey = 1, m_pNext = 32\<rparr>, 32 \<mapsto> \<lparr>m_nKey = 3, m_pNext = 48\<rparr>, 48 \<mapsto> \<lparr>m_nKey = 5, m_pNext = 0\<rparr>,
     64 \<mapsto> \<lparr>m_nKey = 2, m_pNext = 80\<rparr>, 80 \<mapsto> \<lparr>m_nKey = 4, m_pNext = 0\<rparr>, 96 \<mapsto> \<lparr>m_nKey = 0, m_pNext = 32\<rparr>,
     112 \<mapsto> \<lparr>m_nKey = 7, m_pNext = 128\<rparr>, 128 \<mapsto> \<lparr>m_nKey = 8, m_pNext = 144\<rparr>, 144 \<mapsto> \<lparr>m_nKey = 9, m_pNext = 128\<rparr>]"

lemma demo_chains:
  "chain demo_lists 16 [16, 32, 48]" "chain demo_lists 64 [64, 80]" "chain demo_lists 96 [96, 32, 48]"
  "path m_pNext demo_lists 112 ([112] @ 128 # [144]) 128"
  by (simp_all add: demo_lists_def)

subsection \<open>Lists\<close>

text \<open>
  Reversal. \<^verbatim>\<open>ReverseList\<close> returns the head of a chain of the same nodes in reverse order; no
  key and no cell outside the list changes.
\<close>

theorem reverse_reverses:
  assumes "chain h p xs"
  shows "\<exists>q h'. ReverseList h p = Some (q, h') \<and> chain h' q (rev xs) \<and>
     (\<forall>a. a \<notin> set xs \<longrightarrow> h' a = h a) \<and> key_at h' = key_at h"
  by (rule ReverseList_ok [OF assms])

theorem reverse_reverses_witness:
  "\<exists>q h'. ReverseList demo_lists 16 = Some (q, h') \<and> chain h' q [48, 32, 16]"
  using reverse_reverses [OF demo_chains(1)] by auto

text \<open>
  Positions. On a chain, \<^verbatim>\<open>GetListLength\<close> counts modulo \<open>2 ^ 32\<close>, \<^verbatim>\<open>RGetKthNode\<close> returns the
  \<open>k\<close>-th node from the end and null when there is none, and \<^verbatim>\<open>GetMiddleNode\<close> the node at half of the
  length, rounded down, null for the empty list.
\<close>

theorem positions_from_the_end:
  assumes "chain h p xs" and "length xs < 2 ^ 32"
  shows "GetListLength h p = Some (of_nat (length xs)) \<and>
    RGetKthNode h p k = Some (if 0 < unat k \<and> unat k \<le> length xs then xs ! (length xs - unat k) else NULL) \<and>
    GetMiddleNode h p = Some (if xs = [] then NULL else xs ! (length xs div 2))"
  using GetListLength_ok [OF assms(1)] RGetKthNode_ok [OF assms] GetMiddleNode_ok [OF assms(1)]
  by (auto simp: at_def)

theorem positions_from_the_end_witness:
  "GetListLength demo_lists 16 = Some 3 \<and> RGetKthNode demo_lists 16 1 = Some 48 \<and>
   RGetKthNode demo_lists 16 4 = Some 0 \<and> GetMiddleNode demo_lists 16 = Some 32"
  using positions_from_the_end [OF demo_chains(1), of 1] positions_from_the_end [OF demo_chains(1), of 4] by simp

text \<open>
  The two versions of \<^verbatim>\<open>RPrintList\<close>, with a stack and recursive, print the same: the keys of the
  chain from the last to the first.
\<close>

theorem print_versions_agree:
  assumes "chain h p xs"
  shows "RPrintList h p = Some (rev (keys h xs)) \<and> RPrintList_rec h p = RPrintList h p"
  using RPrintList_ok [OF assms] RPrintList_rec_ok [OF assms] by simp

theorem print_versions_agree_witness: "RPrintList demo_lists 16 = Some [5, 3, 1] \<and> RPrintList_rec demo_lists 16 = Some [5, 3, 1]"
  using print_versions_agree [OF demo_chains(1)] by (simp add: keys_def demo_lists_def)

text \<open>
  The recursive \<^verbatim>\<open>MergeSortedList\<close> of two disjoint chains sorted by key is a sorted chain of
  exactly their nodes; no key and no other cell changes.
\<close>

theorem merge_rec_sorts:
  assumes "chain h p xs" and "chain h q ys" and "set xs \<inter> set ys = {}"
    and "sorted (map (key_at h) xs)" and "sorted (map (key_at h) ys)"
  shows "\<exists>r h' zs. MergeSortedList_rec p q h = Some (r, h') \<and> chain h' r zs \<and> mset zs = mset xs + mset ys \<and>
     sorted (map (key_at h') zs) \<and> key_at h' = key_at h \<and> (\<forall>a. a \<notin> set xs \<union> set ys \<longrightarrow> h' a = h a)"
proof -
  obtain r h' where "MergeSortedList_rec p q h = Some (r, h')" "chain h' r (merge (key_at h) xs ys)"
     "\<forall>a. a \<notin> set xs \<union> set ys \<longrightarrow> h' a = h a" "key_at h' = key_at h"
    using merge_rec_ok [OF assms(1-3)] by blast
  then show ?thesis using sorted_merge [OF assms(4,5)] mset_merge [of "key_at h" xs ys]
    by (intro exI [of _ r] exI [of _ h'] exI [of _ "merge (key_at h) xs ys"]) simp
qed

theorem merge_rec_sorts_witness:
  "\<exists>r h' zs. MergeSortedList_rec 16 64 demo_lists = Some (r, h') \<and> chain h' r zs \<and>
     mset zs = {#16, 32, 48, 64, 80#} \<and> sorted (map (key_at h') zs)"
  using merge_rec_sorts [OF demo_chains(1,2)] by (fastforce simp: key_at_def demo_lists_def)

text \<open>
  The iterative \<^verbatim>\<open>MergeSortedList\<close> of two non-empty disjoint chains returns the smaller head
  followed by the other list: the rest of the list it came from is lost.
\<close>

theorem merge_loses_nodes:
  assumes "chain h p (x # xs)" and "chain h q (y # ys)" and "set (x # xs) \<inter> set (y # ys) = {}"
  shows "\<exists>r h'. MergeSortedList p q h = Some (r, h') \<and>
    chain h' r (if key_at h x < key_at h y then x # y # ys else y # x # xs)"
  using MergeSortedList_ok [OF assms] by (auto split: if_splits)

theorem merge_loses_nodes_witness:
  "\<exists>r h'. MergeSortedList 16 64 demo_lists = Some (r, h') \<and> chain h' r [16, 64, 80]"
  using merge_loses_nodes [OF demo_chains(1,2)] by (simp add: key_at_def demo_lists_def)

text \<open>
  C11. Circles. \<^verbatim>\<open>HasCircle\<close> and \<^verbatim>\<open>GetFirstNodeInCircle\<close> return on every list: false and null on a
  chain that ends, true and the node where the circle starts on a list that runs into itself.
\<close>

theorem circle_found:
  assumes "(if c = NULL then chain h p xs else path m_pNext h p (xs @ c # ys) c \<and> distinct (xs @ c # ys))"
    and "length (xs @ c # ys) < 2 ^ 31"
  shows "HasCircle h p = Some (c \<noteq> NULL) \<and> GetFirstNodeInCircle h p = Some c"
proof (cases "c = NULL")
  case True
  then have "chain h p xs" using assms(1) by simp
  then show ?thesis using HasCircle_ok(1) GetFirstNodeInCircle_chain True by simp
next
  case False
  then have "path m_pNext h p (xs @ c # ys) c" "distinct (xs @ c # ys)" using assms(1) by simp_all
  from HasCircle_ok(2) [OF this] GetFirstNodeInCircle_circle [OF this assms(2)] show ?thesis using False by simp
qed

theorem circle_found_witness: "HasCircle demo_lists 112 = Some True \<and> GetFirstNodeInCircle demo_lists 112 = Some 128"
  using circle_found [of 128 demo_lists 112 "[112]" "[144]"] demo_chains(4) by simp

text \<open>
  Common nodes. \<^verbatim>\<open>IsIntersected\<close> tells whether two chains share a node, and
  \<^verbatim>\<open>GetFirstCommonNode\<close> returns the first node of the first that is in the second, or null.
\<close>

theorem common_node_found:
  assumes "chain h p xs" and "chain h q ys" and "length xs < 2 ^ 31" and "length ys < 2 ^ 31"
  shows "IsIntersected h p q = Some (set xs \<inter> set ys \<noteq> {}) \<and>
    GetFirstCommonNode h p q = Some (case find (\<lambda>a. a \<in> set ys) xs of None \<Rightarrow> NULL | Some a \<Rightarrow> a)"
  using IsIntersected_ok [OF assms(1,2)] GetFirstCommonNode_ok [OF assms] by simp

theorem common_node_found_witness:
  "IsIntersected demo_lists 16 96 = Some True \<and> GetFirstCommonNode demo_lists 16 96 = Some 32"
  using common_node_found [OF demo_chains(1,3)] by simp

text \<open>
  Deleting a node takes its key out of the sequence of keys and frees one cell: its successor's,
  into which the successor is copied, or its own when it is the last. The head stays where it is,
  so deleting the only node leaves the caller with a pointer to freed memory.
\<close>

theorem delete_removes_key:
  assumes "chain h p (xs @ d # ys)"
  shows "\<exists>h' e zs. Delete p d h = Some h' \<and> h' e = None \<and> e = (if ys = [] then d else hd ys) \<and>
    zs = (if ys = [] then xs else xs @ d # tl ys) \<and> map (key_at h') zs = map (key_at h) (xs @ ys) \<and>
    (chain h' p zs \<or> xs @ ys = [] \<and> p = e)"
proof (cases ys)
  case Nil
  then show ?thesis using Delete_last [of h p xs d] assms by (cases "xs = []") auto
next
  case (Cons e es)
  then show ?thesis using Delete_inner [of h p xs d e es] assms by auto
qed

theorem delete_removes_key_witness:
  "\<exists>h'. Delete 16 32 demo_lists = Some h' \<and> h' 48 = None \<and> map (key_at h') [16, 32] = [1, 5] \<and> chain h' 16 [16, 32]"
  using delete_removes_key [of demo_lists 16 "[16]" 32 "[48]"] demo_chains(1)
  by (auto simp: key_at_def demo_lists_def)

subsection \<open>The queue\<close>

definition demo_qmem :: "u8 qmem" where
  "demo_qmem = \<lparr>qnodes = Map.empty, qarena = [(16, \<lparr>data = 9, qnext = 5\<rparr>), (32, \<lparr>data = 0, qnext = 0\<rparr>), (48, \<lparr>data = 0, qnext = 3\<rparr>)]\<rparr>"

text \<open>
  C12. The queue refines the list queue. From \<^verbatim>\<open>InitQueue\<close> over any sequence of \<^verbatim>\<open>EnQueue\<close> and
  \<^verbatim>\<open>DeQueue\<close>, the values taken out are those of a list used first in, first out; the program exits
  only for want of memory; and \<^verbatim>\<open>DestroyQueue\<close> frees every cell the queue has allocated.
\<close>

theorem queue_refines_list:
  assumes "fresh_ok m"
  shows "InitQueue m = Exit \<or> (\<exists>s. InitQueue m = Return s \<and>
    (queue_ops EnQueue DeQueue ops s = Exit \<or>
     (\<exists>Q' m' Q'' m''. queue_ops EnQueue DeQueue ops s = Return (fst (list_ops ops []), (Q', m')) \<and>
       QueueTraverse Q' m' = Some (snd (list_ops ops [])) \<and>
       DestroyQueue Q' m' = Some (Q'', m'') \<and> dom (qnodes m'') = dom (qnodes m))))"
  by (rule queue_lifecycle [OF assms])

theorem queue_refines_list_witness:
  "\<exists>s Q' m'. InitQueue demo_qmem = Return s \<and>
     queue_ops EnQueue DeQueue [Enq 7, Enq 8, Deq] s = Return ([Some 7], (Q', m')) \<and> QueueTraverse Q' m' = Some [8]"
proof -
  obtain s where s: "InitQueue demo_qmem = Return s"
    by (simp add: InitQueue_def malloc_qnode_def demo_qmem_def)
  have "queue_ops EnQueue DeQueue [Enq 7, Enq 8, Deq] s \<noteq> Exit"
    using s by (auto simp: InitQueue_def malloc_qnode_def demo_qmem_def EnQueue_def DeQueue_def)
  moreover have "fresh_ok demo_qmem" by (simp add: fresh_ok_def demo_qmem_def)
  ultimately show ?thesis using queue_refines_list [of demo_qmem "[Enq 7, Enq 8, Deq]"] s by auto
qed

text \<open>
  Looking at a queue. \<^verbatim>\<open>QueueEmpty\<close>, \<^verbatim>\<open>QueueLength\<close>, \<^verbatim>\<open>GetHead_Q\<close> and \<^verbatim>\<open>QueueTraverse\<close> report the
  elements without changing the queue; \<^verbatim>\<open>ClearQueue\<close> empties it and frees exactly their cells.
\<close>

theorem queue_observers:
  assumes "queue_cells Q m cs" and "length cs < 2 ^ 31"
  shows "QueueEmpty Q m = Some (cs = []) \<and> QueueLength Q m = Some (int (length cs)) \<and>
    GetHead_Q Q m = Some (case elems m cs of [] \<Rightarrow> (ERROR, None) | x # _ \<Rightarrow> (OK, Some x)) \<and>
    QueueTraverse Q m = Some (elems m cs) \<and>
    (\<exists>Q' m'. ClearQueue Q m = Some (Q', m') \<and> queue_cells Q' m' [] \<and> dom (qnodes m') = dom (qnodes m) - set cs)"
  using queue_reads [OF assms] ClearQueue_ok [OF assms(1)] by blast

theorem queue_observers_witness:
  "GetHead_Q \<lparr>front = 16, rear = 32\<rparr> \<lparr>qnodes = [16 \<mapsto> \<lparr>data = 9, qnext = 32\<rparr>, 32 \<mapsto> \<lparr>data = 7 :: u8, qnext = 0\<rparr>], qarena = []\<rparr>
     = Some (OK, Some 7)"
  using queue_observers [of "\<lparr>front = 16, rear = 32\<rparr>"
      "\<lparr>qnodes = [16 \<mapsto> \<lparr>data = 9, qnext = 32\<rparr>, 32 \<mapsto> \<lparr>data = 7 :: u8, qnext = 0\<rparr>], qarena = []\<rparr>" "[32]"]
  by (simp add: queue_cells_def fresh_ok_def elems_def)

end
