(* ===== verification/Bytes.thy ===== *)
theory Bytes
  imports Prelude
begin

text \<open>
  Bytes in memory: \<^verbatim>\<open>memcpy\<close> with its bounds, and unsigned integers as little-endian bytes.
\<close>

subsection \<open>Copying\<close>

text \<open>\<^verbatim>\<open>memcpy\<close> out of and into an object; outside the object it is undefined.\<close>

definition bytes_get :: "u8 list \<Rightarrow> nat \<Rightarrow> nat \<Rightarrow> u8 list option" where
  "bytes_get xs off n = (if off + n \<le> length xs then Some (take n (drop off xs)) else None)"

definition bytes_put :: "u8 list \<Rightarrow> nat \<Rightarrow> u8 list \<Rightarrow> u8 list option" where
  "bytes_put xs off ys =
     (if off + length ys \<le> length xs then Some (take off xs @ ys @ drop (off + length ys) xs) else None)"

lemma length_bytes_put: "bytes_put xs off ys = Some zs \<Longrightarrow> length zs = length xs"
  by (auto simp: bytes_put_def split: if_splits)

lemma bytes_get_put_same: "bytes_put xs off ys = Some zs \<Longrightarrow> bytes_get zs off (length ys) = Some ys"
  by (auto simp: bytes_put_def bytes_get_def split: if_splits)

lemma bytes_get_put_other:
  assumes p: "bytes_put xs off ys = Some zs" and d: "o2 + n \<le> off \<or> off + length ys \<le> o2"
  shows "bytes_get zs o2 n = bytes_get xs o2 n"
proof -
  have fit: "off + length ys \<le> length xs" and zs: "zs = take off xs @ ys @ drop (off + length ys) xs"
    using p by (auto simp: bytes_put_def split: if_splits)
  have "take n (drop o2 zs) = take n (drop o2 xs)" if "o2 + n \<le> length xs"
    by (rule nth_equalityI) (use d fit that in \<open>auto simp: zs nth_append\<close>)
  then show ?thesis using length_bytes_put [OF p] by (simp add: bytes_get_def)
qed

subsection \<open>Little-endian integers\<close>

primrec le_bytes :: "nat \<Rightarrow> nat \<Rightarrow> u8 list" where
  "le_bytes 0 x = []"
| "le_bytes (Suc n) x = of_nat x # le_bytes n (x div 256)"

primrec le_nat :: "u8 list \<Rightarrow> nat" where
  "le_nat [] = 0"
| "le_nat (b # bs) = unat b + 256 * le_nat bs"

lemma length_le_bytes [simp]: "length (le_bytes n x) = n"
  by (induction n arbitrary: x) auto

lemma le_nat_le_bytes: "x < 256 ^ n \<Longrightarrow> le_nat (le_bytes n x) = x"
proof (induction n arbitrary: x)
  case (Suc n)
  then have "x div 256 < 256 ^ n" by (simp add: less_mult_imp_div_less mult.commute)
  moreover have "unat (of_nat x :: u8) = x mod 256" by (simp add: unat_of_nat take_bit_eq_mod)
  ultimately show ?case using Suc.IH by simp
qed simp

lemma le_word [simp]:
  "of_nat (le_nat (le_bytes 2 (unat h))) = (h :: u16)" "of_nat (le_nat (le_bytes 4 (unat w))) = (w :: u32)"
  "of_nat (le_nat (le_bytes 8 (unat d))) = (d :: u64)"
  using le_nat_le_bytes [of "unat h" 2] le_nat_le_bytes [of "unat w" 4] le_nat_le_bytes [of "unat d" 8]
    unsigned_less [of h, where ?'a = nat] unsigned_less [of w, where ?'a = nat] unsigned_less [of d, where ?'a = nat]
  by simp_all

subsection \<open>Frames of a byte array\<close>

definition frame :: "nat \<Rightarrow> u8 list \<Rightarrow> nat \<Rightarrow> u8 list" where
  "frame e xs k = take e (drop (k * e) xs)"

lemma take_frames: "take (l * e) (drop (i * e) xs) = concat (map (frame e xs) [i..<i + l])"
proof (induction l)
  case (Suc l)
  have "take (Suc l * e) (drop (i * e) xs) = take (l * e) (drop (i * e) xs) @ take e (drop (l * e) (drop (i * e) xs))"
    using take_add [of "l * e" e "drop (i * e) xs"] by (simp add: add.commute)
  then show ?case using Suc by (simp add: frame_def algebra_simps)
qed simp

lemma bytes_get_frames:
  "(i + l) * e \<le> length xs \<Longrightarrow> bytes_get xs (i * e) (l * e) = Some (concat (map (frame e xs) [i..<i + l]))"
  by (simp add: bytes_get_def take_frames add_mult_distrib)

lemma length_frames: "\<forall>f\<in>set fs. length f = e \<Longrightarrow> length (concat fs) = length fs * e"
  by (induction fs) auto

lemma frame_concat: "\<forall>f\<in>set fs. length f = e \<Longrightarrow> j < length fs \<Longrightarrow> frame e (concat fs @ r) j = fs ! j"
proof (induction fs arbitrary: j)
  case (Cons f fs)
  then show ?case by (cases j) (auto simp: frame_def)
qed simp

lemma length_frame: "Suc k * e \<le> length xs \<Longrightarrow> length (frame e xs k) = e"
  by (simp add: frame_def)

end
