(* ===== verification/ShmRing.thy ===== *)
theory ShmRing
  imports Bytes
begin

text \<open>
  The ring of frames in System V shared memory of
  \<^verbatim>\<open>sharemem_sample/local_ipc_data_share_memory/local_ipc_data_share_memory.c\<close>. The operating system
  is a parameter: a record of the system calls the file uses, as functions on a state \<open>'k\<close>, with the
  memory of the attached segments. A segment is the header of the source followed by its data bytes.
  What \<^verbatim>\<open>printf\<close> shows is left out. An \<^verbatim>\<open>int\<close> argument is its 32-bit word.
\<close>

subsection \<open>Data\<close>

record local_ipc_data_shm_head =
  magic :: u32
  shm_in :: u32
  shm_out :: u32
  esize :: u32
  shm_frames :: u32

record segment = local_ipc_data_shm_head +
  sdata :: "u8 list"

record local_ipc_data_shm =
  ipc_key :: int
  ipc_perm :: int
  ipc_gid :: int
  semid :: int
  locked :: int
  shmid :: int
  shm_size :: u32
  shmptr :: addr

definition SHARE_MEMORY_DEVICE_MAGIC :: u32 where
  "SHARE_MEMORY_DEVICE_MAGIC = 0xe15ad300"

definition SMD_DIRECT_IPC_SEMS :: nat where
  "SMD_DIRECT_IPC_SEMS = 1"

text \<open>\<^verbatim>\<open>struct sembuf\<close>: the semaphore number, the operation, and the flags.\<close>

record sembuf =
  sem_num :: nat
  sem_op :: int
  sem_flg :: int

text \<open>The numbers of the Linux headers that the file uses by name.\<close>

abbreviation (input) IPC_CREAT :: int where "IPC_CREAT \<equiv> 512"
abbreviation (input) IPC_EXCL :: int where "IPC_EXCL \<equiv> 1024"
abbreviation (input) IPC_NOWAIT :: int where "IPC_NOWAIT \<equiv> 2048"
abbreviation (input) SEM_UNDO :: int where "SEM_UNDO \<equiv> 4096"
abbreviation (input) ENOENT :: int where "ENOENT \<equiv> 2"
abbreviation (input) EAGAIN :: int where "EAGAIN \<equiv> 11"
abbreviation (input) EBUSY :: int where "EBUSY \<equiv> 16"
abbreviation (input) EEXIST :: int where "EEXIST \<equiv> 17"
abbreviation (input) EINVAL :: int where "EINVAL \<equiv> 22"
abbreviation (input) MAP_ERR :: addr where "MAP_ERR \<equiv> - 1"

text \<open>
  The system calls, each with its result and the new state; \<^verbatim>\<open>semctl\<close> and \<^verbatim>\<open>shmctl\<close> are split by
  command, and \<^verbatim>\<open>IPC_STAT\<close> on a segment also returns the number of attached processes.
\<close>

record 'k ipc_sys =
  sys_ftok :: "string \<Rightarrow> int \<Rightarrow> 'k \<Rightarrow> int \<times> 'k"
  sys_semget :: "int \<Rightarrow> nat \<Rightarrow> int \<Rightarrow> 'k \<Rightarrow> int \<times> 'k"
  sys_semstat :: "int \<Rightarrow> nat \<Rightarrow> 'k \<Rightarrow> int \<times> 'k"
  sys_semset :: "int \<Rightarrow> nat \<Rightarrow> int \<Rightarrow> 'k \<Rightarrow> int \<times> 'k"
  sys_semrmid :: "int \<Rightarrow> 'k \<Rightarrow> int \<times> 'k"
  sys_semop :: "int \<Rightarrow> sembuf list \<Rightarrow> 'k \<Rightarrow> int \<times> 'k"
  sys_shmget :: "int \<Rightarrow> u32 \<Rightarrow> int \<Rightarrow> 'k \<Rightarrow> int \<times> 'k"
  sys_shmat :: "int \<Rightarrow> 'k \<Rightarrow> addr \<times> 'k"
  sys_shmdt :: "addr \<Rightarrow> 'k \<Rightarrow> int \<times> 'k"
  sys_mlock :: "addr \<Rightarrow> u32 \<Rightarrow> 'k \<Rightarrow> int \<times> 'k"
  sys_shmstat :: "int \<Rightarrow> 'k \<Rightarrow> (int \<times> nat) \<times> 'k"
  sys_shmset :: "int \<Rightarrow> int \<Rightarrow> 'k \<Rightarrow> int \<times> 'k"
  sys_shmrmid :: "int \<Rightarrow> 'k \<Rightarrow> int \<times> 'k"
  sys_errno :: "'k \<Rightarrow> int"
  sys_mem :: "'k \<Rightarrow> addr \<Rightarrow> segment option"
  sys_store :: "addr \<Rightarrow> segment \<Rightarrow> 'k \<Rightarrow> 'k"

definition seg_rd :: "'k ipc_sys \<Rightarrow> local_ipc_data_shm \<Rightarrow> 'k \<Rightarrow> segment option" where
  "seg_rd S d k = (if shmptr d = NULL then None else sys_mem S k (shmptr d))"

subsection \<open>Semaphores\<close>

definition smd_semaphore_discard :: "'k ipc_sys \<Rightarrow> local_ipc_data_shm \<Rightarrow> 'k \<Rightarrow> int \<times> local_ipc_data_shm \<times> 'k" where
  "smd_semaphore_discard S d k =
     (if semid d \<ge> 0 then
        let (r, k) = sys_semrmid S (semid d) k
        in if r < 0 then (- sys_errno S k, d, k) else (0, d\<lparr>semid := -1\<rparr>, k)
      else (0, d, k))"

fun set_sem_gids :: "'k ipc_sys \<Rightarrow> nat list \<Rightarrow> local_ipc_data_shm \<Rightarrow> 'k \<Rightarrow> int \<times> local_ipc_data_shm \<times> 'k" where
  "set_sem_gids S [] d k = (0, d, k)"
| "set_sem_gids S (i # is) d k =
     (let (r, k) = sys_semstat S (semid d) i k in
      if r < 0 then
        let err = - sys_errno S k; (_, d, k) = smd_semaphore_discard S d k in (err, d, k)
      else
        let (_, k) = sys_semset S (semid d) i (ipc_gid d) k in set_sem_gids S is d k)"

definition smd_semaphore_create_or_connect ::
    "'k ipc_sys \<Rightarrow> local_ipc_data_shm \<Rightarrow> 'k \<Rightarrow> int \<times> local_ipc_data_shm \<times> 'k" where
  "smd_semaphore_create_or_connect S d k =
     (let (id, k) = sys_semget S (ipc_key d) SMD_DIRECT_IPC_SEMS (IPC_CREAT OR ipc_perm d) k;
          d = d\<lparr>semid := id\<rparr>
      in if semid d < 0 then (- sys_errno S k, d, k)
         else if ipc_gid d < 0 then (0, d, k)
         else set_sem_gids S [0..<SMD_DIRECT_IPC_SEMS] d k)"

definition smd_semaphore_down :: "'k ipc_sys \<Rightarrow> nat \<Rightarrow> local_ipc_data_shm \<Rightarrow> 'k \<Rightarrow> int \<times> local_ipc_data_shm \<times> 'k" where
  "smd_semaphore_down S n d k =
     (let (err, k) = sys_semop S (semid d)
            [\<lparr>sem_num = n, sem_op = 0, sem_flg = 0\<rparr>, \<lparr>sem_num = n, sem_op = 1, sem_flg = SEM_UNDO\<rparr>] k
      in if err = 0 then (err, d\<lparr>locked := locked d + 1\<rparr>, k)
         else if err = -1 then (- sys_errno S k, d, k)
         else (err, d, k))"

definition smd_semaphore_up :: "'k ipc_sys \<Rightarrow> nat \<Rightarrow> local_ipc_data_shm \<Rightarrow> 'k \<Rightarrow> int \<times> local_ipc_data_shm \<times> 'k" where
  "smd_semaphore_up S n d k =
     (let (err, k) = sys_semop S (semid d)
            [\<lparr>sem_num = n, sem_op = -1, sem_flg = SEM_UNDO OR IPC_NOWAIT\<rparr>] k
      in if err = 0 then (err, d\<lparr>locked := locked d - 1\<rparr>, k)
         else if err = -1 then (- sys_errno S k, d, k)
         else (err, d, k))"

definition smd_semaphore_final :: "'k ipc_sys \<Rightarrow> nat \<Rightarrow> local_ipc_data_shm \<Rightarrow> 'k \<Rightarrow> int \<times> local_ipc_data_shm \<times> 'k" where
  "smd_semaphore_final S n d k = (if locked d \<noteq> 1 then (- EBUSY, d, k) else smd_semaphore_up S n d k)"

subsection \<open>The segment\<close>

definition smd_shm_discard :: "'k ipc_sys \<Rightarrow> local_ipc_data_shm \<Rightarrow> 'k \<Rightarrow> int \<times> local_ipc_data_shm \<times> 'k" where
  "smd_shm_discard S d k =
     (if shmid d < 0 then (- EINVAL, d, k)
      else
        let (r, k) = (if shmptr d \<noteq> MAP_ERR then sys_shmdt S (shmptr d) k else (0, k))
        in if r < 0 then (- sys_errno S k, d, k)
           else
             let d = d\<lparr>shmptr := MAP_ERR\<rparr>; ((r, nattch), k) = sys_shmstat S (shmid d) k
             in if r < 0 then (- sys_errno S k, d, k)
                else if nattch = 0 then
                  let (r, k) = sys_shmrmid S (shmid d) k
                  in if r < 0 then (- sys_errno S k, d, k) else (1, d\<lparr>shmid := -1\<rparr>, k)
                else (0, d\<lparr>shmid := -1\<rparr>, k))"

text \<open>
  \<^verbatim>\<open>smd_shm_create_or_connect\<close> up to the label behind its retries: whether the segment is new, or the
  error. The retries may go on for ever.
\<close>

partial_function (option) smd_shm_get ::
    "'k ipc_sys \<Rightarrow> local_ipc_data_shm \<Rightarrow> 'k \<Rightarrow> (int \<times> bool \<times> local_ipc_data_shm \<times> 'k) option" where
  "smd_shm_get S d k =
     (let (id, k) = sys_shmget S (ipc_key d) (shm_size d) (ipc_perm d) k; d = d\<lparr>shmid := id\<rparr> in
      let (d, first, again, k) =
        (if shmid d < 0 \<and> sys_errno S k = ENOENT then
           let (id, k) = sys_shmget S (ipc_key d) (shm_size d) (IPC_CREAT OR IPC_EXCL OR ipc_perm d) k;
               d = d\<lparr>shmid := id\<rparr>
           in if id \<noteq> -1 then (d, True, False, k)
              else (d, False, sys_errno S k = EEXIST, k)
         else (d, False, False, k)) in
      if again then smd_shm_get S d k
      else
        let err = - sys_errno S k in
        if shmid d < 0 then
          if sys_errno S k = EINVAL then
            let (tmpid, k) = sys_shmget S (ipc_key d) 0 (ipc_perm d) k in
            if tmpid \<noteq> -1 then
              let ((r, nattch), k) = sys_shmstat S tmpid k in
              if r = 0 \<and> nattch = 0 then
                let (r, k) = sys_shmrmid S tmpid k in
                if r = 0 then smd_shm_get S d k else Some (err, False, d, k)
              else Some (err, False, d, k)
            else Some (err, False, d, k)
          else Some (err, False, d, k)
        else Some (0, first, d, k))"

text \<open>\<^verbatim>\<open>memset(shmptr, 0, shm_size)\<close>: the header and the data that follow it.\<close>

definition zero_segment :: "u32 \<Rightarrow> segment \<Rightarrow> segment option" where
  "zero_segment n s = (if 20 \<le> unat n then do {
     bs \<leftarrow> bytes_put (sdata s) 0 (replicate (unat n - 20) 0);
     Some \<lparr>magic = 0, shm_in = 0, shm_out = 0, esize = 0, shm_frames = 0, sdata = bs\<rparr>
   } else None)"

definition smd_shm_create_or_connect ::
    "'k ipc_sys \<Rightarrow> local_ipc_data_shm \<Rightarrow> 'k \<Rightarrow> (int \<times> local_ipc_data_shm \<times> 'k) option" where
  "smd_shm_create_or_connect S d k = do {
     (err, first, d, k) \<leftarrow> smd_shm_get S d k;
     if shmid d < 0 then Some (err, d, k)
     else
       let (p, k) = sys_shmat S (shmid d) k; d = d\<lparr>shmptr := p\<rparr> in
       if shmptr d = MAP_ERR then
         let err = - sys_errno S k; (_, d, k) = smd_shm_discard S d k in Some (err, d, k)
       else
         let (_, k) = sys_mlock S (shmptr d) (shm_size d) k;
             ((r, _), k) = sys_shmstat S (shmid d) k in
         if r < 0 then
           let err = - sys_errno S k; (_, d, k) = smd_shm_discard S d k in Some (err, d, k)
         else if first then do {
           s \<leftarrow> seg_rd S d k;
           s \<leftarrow> zero_segment (shm_size d) s;
           let k = sys_store S (shmptr d) s k;
               k = (if ipc_gid d \<ge> 0 then snd (sys_shmset S (shmid d) (ipc_gid d) k) else k) in do {
             s \<leftarrow> seg_rd S d k;
             Some (1, d, sys_store S (shmptr d) (s\<lparr>magic := SHARE_MEMORY_DEVICE_MAGIC\<rparr>) k)
           }
         }
         else do {
           s \<leftarrow> seg_rd S d k;
           if magic s \<noteq> SHARE_MEMORY_DEVICE_MAGIC then
             let (_, d, k) = smd_shm_discard S d k in Some (- EINVAL, d, k)
           else Some (0, d, k)
         }
   }"

subsection \<open>Opening and closing\<close>

text \<open>The loop over the attempts: \<open>n\<close> is \<^verbatim>\<open>fail_sem_loop\<close>.\<close>

fun open_sem :: "'k ipc_sys \<Rightarrow> nat \<Rightarrow> local_ipc_data_shm \<Rightarrow> 'k \<Rightarrow> bool \<times> int \<times> local_ipc_data_shm \<times> 'k" where
  "open_sem S n d k =
     (let (ret, d, k) = smd_semaphore_create_or_connect S d k in
      if ret \<noteq> 0 then (False, ret, d, k)
      else
        let (ret, d, k) = smd_semaphore_down S 0 d k in
        if ret < 0 then
          let (_, d, k) = smd_semaphore_discard S d k in
          (case n of 0 \<Rightarrow> (False, ret, d, k)
           | Suc m \<Rightarrow> if m = 0 then (False, ret, d, k) else open_sem S m d k)
        else (True, ret, d, k))"

definition local_ipc_data_shm_open ::
    "'k ipc_sys \<Rightarrow> string \<Rightarrow> int \<Rightarrow> u32 \<Rightarrow> u32 \<Rightarrow> local_ipc_data_shm \<Rightarrow> 'k \<Rightarrow> (int \<times> local_ipc_data_shm \<times> 'k) option" where
  "local_ipc_data_shm_open S file device_id frame_size frame_num d k =
     (let (key, k) = sys_ftok S file device_id k in
      if key < 0 then Some (- sys_errno S k, d, k)
      else
        let (ok, ret, d, k) = open_sem S 10 (d\<lparr>ipc_key := key, ipc_perm := 420\<rparr>) k in
        if \<not> ok then Some (ret, d, k)
        else do {
          (ret, d, k) \<leftarrow> smd_shm_create_or_connect S (d\<lparr>shm_size := 20 + frame_size * frame_num\<rparr>) k;
          if ret < 0 then
            let (r, d, k) = (if shmid d \<ge> 0 then smd_shm_discard S d k else (0, d, k)) in
            if r \<noteq> 0 then
              let (r, d, k) = smd_semaphore_discard S d k in
              if r \<noteq> 0 then
                let (_, d, k) = smd_semaphore_final S 0 d k in Some (ret, d, k)
              else Some (ret, d, k)
            else
              let (_, d, k) = smd_semaphore_up S 0 d k in Some (ret, d, k)
          else do {
            k \<leftarrow> (if ret = 1 then do {
                   s \<leftarrow> seg_rd S d k;
                   Some (sys_store S (shmptr d)
                     (s\<lparr>shm_in := 0, shm_out := 0, shm_frames := frame_num, esize := frame_size\<rparr>) k)
                 } else Some k);
            let (_, d, k) = smd_semaphore_up S 0 d k in Some (0, d, k)
          }
        })"

definition local_ipc_data_shm_close :: "'k ipc_sys \<Rightarrow> local_ipc_data_shm \<Rightarrow> 'k \<Rightarrow> int \<times> local_ipc_data_shm \<times> 'k" where
  "local_ipc_data_shm_close S d k =
     (let (_, d, k) = smd_semaphore_down S 0 d k; (r, d, k) = smd_shm_discard S d k in
      if r \<noteq> 0 then
        let (r, d, k) = smd_semaphore_discard S d k in
        if r \<noteq> 0 then let (_, d, k) = smd_semaphore_final S 0 d k in (0, d, k) else (0, d, k)
      else let (_, d, k) = smd_semaphore_final S 0 d k in (0, d, k))"

subsection \<open>Reading and writing\<close>

text \<open>
  What \<^verbatim>\<open>local_ipc_data_shm_read\<close> and \<^verbatim>\<open>local_ipc_data_shm_write\<close> do to the segment between taking and
  releasing the lock. The \<^verbatim>\<open>int\<close> argument is converted to unsigned in the comparison, in \<^verbatim>\<open>min\<close> and
  in the sums, and the products with the frame size wrap.
\<close>

definition c_min :: "u32 \<Rightarrow> u32 \<Rightarrow> u32" where
  "c_min x y = (if x > y then y else x)"

definition read_frames :: "u32 \<Rightarrow> u32 \<Rightarrow> u8 list \<Rightarrow> segment \<Rightarrow> (int \<times> u8 list \<times> segment) option" where
  "read_frames es frame_count buf s =
     (if frame_count > shm_in s - shm_out s then Some (- EAGAIN, buf, s)
      else if shm_frames s = 0 then None
      else
        let off = shm_out s mod shm_frames s;
            l = c_min frame_count (shm_frames s - off) in do {
          xs \<leftarrow> bytes_get (sdata s) (unat (off * es)) (unat (l * es));
          buf \<leftarrow> bytes_put buf 0 xs;
          ys \<leftarrow> bytes_get (sdata s) 0 (unat ((frame_count - l) * es));
          buf \<leftarrow> bytes_put buf (unat (l * es)) ys;
          Some (sint frame_count, buf, s\<lparr>shm_out := shm_out s + frame_count\<rparr>)
        })"

definition write_frames :: "u32 \<Rightarrow> u32 \<Rightarrow> u8 list \<Rightarrow> segment \<Rightarrow> (int \<times> segment) option" where
  "write_frames es frame_count buf s =
     (let s = (if shm_frames s - (shm_in s - shm_out s) < frame_count then s\<lparr>shm_in := 0, shm_out := 0\<rparr> else s) in
      if shm_frames s = 0 then None
      else
        let off = shm_in s mod shm_frames s;
            l = c_min frame_count (shm_frames s - off) in do {
          xs \<leftarrow> bytes_get buf 0 (unat (l * es));
          bs \<leftarrow> bytes_put (sdata s) (unat (off * es)) xs;
          ys \<leftarrow> bytes_get buf (unat (l * es)) (unat ((frame_count - l) * es));
          bs \<leftarrow> bytes_put bs 0 ys;
          Some (sint frame_count, s\<lparr>sdata := bs, shm_in := shm_in s + frame_count\<rparr>)
        })"

definition local_ipc_data_shm_read ::
    "'k ipc_sys \<Rightarrow> u32 \<Rightarrow> u8 list \<Rightarrow> local_ipc_data_shm \<Rightarrow> 'k \<Rightarrow> (int \<times> u8 list \<times> local_ipc_data_shm \<times> 'k) option" where
  "local_ipc_data_shm_read S frame_count buf d k = do {
     s0 \<leftarrow> seg_rd S d k;
     let (_, d, k) = smd_semaphore_down S 0 d k in do {
       s \<leftarrow> seg_rd S d k;
       (r, buf, s) \<leftarrow> read_frames (esize s0) frame_count buf s;
       let (_, d, k) = smd_semaphore_up S 0 d (sys_store S (shmptr d) s k) in
       Some (r, buf, d, k)
     }
   }"

definition local_ipc_data_shm_write ::
    "'k ipc_sys \<Rightarrow> u32 \<Rightarrow> u8 list \<Rightarrow> local_ipc_data_shm \<Rightarrow> 'k \<Rightarrow> (int \<times> local_ipc_data_shm \<times> 'k) option" where
  "local_ipc_data_shm_write S frame_count buf d k = do {
     s0 \<leftarrow> seg_rd S d k;
     let (_, d, k) = smd_semaphore_down S 0 d k in do {
       s \<leftarrow> seg_rd S d k;
       (r, s) \<leftarrow> write_frames (esize s0) frame_count buf s;
       let (_, d, k) = smd_semaphore_up S 0 d (sys_store S (shmptr d) s k) in
       Some (r, d, k)
     }
   }"

definition local_ipc_data_shm_ioctl ::
    "'k ipc_sys \<Rightarrow> u32 \<Rightarrow> local_ipc_data_shm \<Rightarrow> 'k \<Rightarrow> (int \<times> local_ipc_data_shm \<times> 'k) option" where
  "local_ipc_data_shm_ioctl S cmd d k =
     (if cmd = 0 then
        let (_, d, k) = smd_semaphore_down S 0 d k in do {
          s \<leftarrow> seg_rd S d k;
          let (_, d, k) = smd_semaphore_up S 0 d (sys_store S (shmptr d) (s\<lparr>shm_in := 0, shm_out := 0\<rparr>) k) in
          Some (0, d, k)
        }
      else Some (- EINVAL, d, k))"

end
