(* ===== verification/ShmSpec.thy ===== *)
theory ShmSpec
  imports ShmRing
begin

text \<open>
  The ring as a queue of frames: what a read takes out and a write puts in, byte for byte, with the
  counters running freely on 32 bits.
\<close>

subsection \<open>Putting frames into a byte array\<close>

definition put_frames :: "nat \<Rightarrow> nat \<Rightarrow> u8 list list \<Rightarrow> u8 list \<Rightarrow> u8 list" where
  "put_frames e i fs xs = take (i * e) xs @ concat fs @ drop ((i + length fs) * e) xs"

lemma bytes_put_frames:
  "\<forall>f\<in>set fs. length f = e \<Longrightarrow> (i + length fs) * e \<le> length xs \<Longrightarrow>
   bytes_put xs (i * e) (concat fs) = Some (put_frames e i fs xs)"
  using length_frames [of fs e] by (simp add: bytes_put_def put_frames_def add_mult_distrib)

lemma length_put_frames:
  "\<forall>f\<in>set fs. length f = e \<Longrightarrow> (i + length fs) * e \<le> length xs \<Longrightarrow> length (put_frames e i fs xs) = length xs"
  using length_frames [of fs e] by (simp add: put_frames_def add_mult_distrib)

lemma frame_put_frames:
  assumes fs: "\<forall>f\<in>set fs. length f = e" and fit: "(i + length fs) * e \<le> length xs" and k: "Suc k * e \<le> length xs"
  shows "frame e (put_frames e i fs xs) k = (if i \<le> k \<and> k < i + length fs then fs ! (k - i) else frame e xs k)"
proof -
  have li: "length (take (i * e) xs) = i * e" using fit by (simp add: add_mult_distrib)
  consider "k < i" | "i \<le> k" "k < i + length fs" | "i + length fs \<le> k" by linarith
  then show ?thesis
  proof cases
    case 1
    then have "Suc k * e \<le> i * e" by (intro mult_le_mono1) simp
    then have "take e (drop (k * e) (take (i * e) xs @ r)) = take e (drop (k * e) xs)" for r
      using li by (simp add: take_drop min_def)
    then have "frame e (put_frames e i fs xs) k = frame e xs k" unfolding frame_def put_frames_def by blast
    then show ?thesis using 1 by simp
  next
    case 2
    have "k * e = i * e + (k - i) * e" using 2 by (metis add_mult_distrib le_add_diff_inverse)
    then have "frame e (put_frames e i fs xs) k = frame e (concat fs @ drop ((i + length fs) * e) xs) (k - i)"
      using li by (simp add: frame_def put_frames_def)
    then show ?thesis using 2 frame_concat [OF fs] by simp
  next
    case 3
    have "i * e + length fs * e \<le> k * e" using 3 by (metis add_mult_distrib mult_le_mono1)
    then show ?thesis using 3 li length_frames [OF fs]
      by (simp add: frame_def put_frames_def add_mult_distrib)
  qed
qed

lemma mod_wrap:
  assumes "j \<le> z" "0 < (z :: nat)"
  shows "(x + j) mod z = (if x mod z + j < z then x mod z + j else x mod z + j - z)"
proof -
  have e: "(x + j) mod z = (x mod z + j) mod z" by (simp add: mod_add_left_eq)
  have "x mod z < z" using assms(2) by simp
  show ?thesis
  proof (cases "x mod z + j < z")
    case True
    then show ?thesis using e by simp
  next
    case False
    then have "(x mod z + j) mod z = (x mod z + j - z) mod z" by (simp add: le_mod_geq)
    moreover have "x mod z + j - z < z" using \<open>x mod z < z\<close> assms(1) False by linarith
    ultimately show ?thesis using False e by simp
  qed
qed


subsection \<open>The queue in the ring\<close>

text \<open>
  The frames between \<^verbatim>\<open>out\<close> and \<^verbatim>\<open>in\<close>, oldest first. \<open>seamless s m\<close>: the next \<open>m\<close> frames from
  \<^verbatim>\<open>out\<close> lie in consecutive slots, because the counters do not pass \<open>2 ^ 32\<close> or the number of slots
  divides it.
\<close>

definition slot :: "segment \<Rightarrow> nat \<Rightarrow> nat" where
  "slot s j = (unat (shm_out s) + j) mod unat (shm_frames s)"

definition fill :: "segment \<Rightarrow> nat" where
  "fill s = unat (shm_in s - shm_out s)"

definition ring_queue :: "segment \<Rightarrow> u8 list list" where
  "ring_queue s = map (\<lambda>j. frame (unat (esize s)) (sdata s) (slot s j)) [0..<fill s]"

definition ring_ok :: "segment \<Rightarrow> bool" where
  "ring_ok s \<longleftrightarrow> 0 < unat (shm_frames s) \<and> unat (shm_frames s) * unat (esize s) < 2 ^ 32 \<and>
     unat (shm_frames s) * unat (esize s) \<le> length (sdata s) \<and> fill s \<le> unat (shm_frames s)"

definition seamless :: "segment \<Rightarrow> nat \<Rightarrow> bool" where
  "seamless s m \<longleftrightarrow> unat (shm_frames s) dvd 2 ^ 32 \<or> unat (shm_out s) + m \<le> 2 ^ 32"

lemma length_ring_queue [simp]: "length (ring_queue s) = fill s"
  by (simp add: ring_queue_def)

lemma unat_times:
  fixes a b e :: u32
  assumes "unat a \<le> unat b" "unat b * unat e < 2 ^ 32"
  shows "unat (a * e) = unat a * unat e"
proof -
  have "unat a * unat e \<le> unat b * unat e" using assms(1) by (rule mult_le_mono1)
  then have "unat a * unat e < 2 ^ 32" using assms(2) by (rule le_less_trans)
  then show ?thesis by (simp add: unat_word_ariths)
qed

lemma counter_mod:
  assumes "seamless s m" "j < m" "unat n = j"
  shows "unat (shm_out s + n) mod unat (shm_frames s) = slot s j"
proof -
  have u: "unat (shm_out s + n) = (unat (shm_out s) + j) mod 2 ^ 32" using assms(3) by (simp add: unat_word_ariths)
  show ?thesis
  proof (cases "unat (shm_frames s) dvd 2 ^ 32")
    case True
    then show ?thesis unfolding u slot_def by (rule mod_mod_cancel)
  next
    case False
    then have "unat (shm_out s) + j < 2 ^ 32" using assms(1,2) by (simp add: seamless_def)
    then show ?thesis unfolding u slot_def by simp
  qed
qed

text \<open>One look at the ring: \<open>n\<close> frames from the slot of an index, in two pieces.\<close>

lemma two_pieces:
  assumes "n \<le> z" "0 < (z :: nat)"
  shows "map f [x mod z..<x mod z + min n (z - x mod z)] @ map f [0..<n - min n (z - x mod z)] =
    map (\<lambda>j. f ((x + j) mod z)) [0..<n]"
proof (rule nth_equalityI)
  have a: "x mod z < z" using assms(2) by simp
  then show "length (map f [x mod z..<x mod z + min n (z - x mod z)] @ map f [0..<n - min n (z - x mod z)]) =
    length (map (\<lambda>j. f ((x + j) mod z)) [0..<n])" by simp
  fix i assume "i < length (map f [x mod z..<x mod z + min n (z - x mod z)] @ map f [0..<n - min n (z - x mod z)])"
  then have i: "i < n" using a by simp
  show "(map f [x mod z..<x mod z + min n (z - x mod z)] @ map f [0..<n - min n (z - x mod z)]) ! i =
    map (\<lambda>j. f ((x + j) mod z)) [0..<n] ! i"
    using i a assms mod_wrap [of i z x]
    by (auto simp: nth_append min_def intro!: arg_cong [of _ _ f])
qed


lemma ring_okD:
  assumes "ring_ok s"
  shows "0 < unat (shm_frames s)" "shm_frames s \<noteq> 0" "unat (shm_frames s) * unat (esize s) < 2 ^ 32"
    "unat (shm_frames s) * unat (esize s) \<le> length (sdata s)" "fill s \<le> unat (shm_frames s)"
  using assms by (auto simp: ring_ok_def)

text \<open>The offset and the length of the first piece, for an index and a count.\<close>

lemma piece_words:
  fixes w z cnt es :: u32
  assumes "z \<noteq> 0" "unat cnt \<le> unat z" "unat z * unat es < 2 ^ 32"
  defines "off \<equiv> w mod z"
  defines "l \<equiv> c_min cnt (z - off)"
  shows "unat off = unat w mod unat z" "unat l = min (unat cnt) (unat z - unat off)"
    "unat (off * es) = unat off * unat es" "unat (l * es) = unat l * unat es"
    "unat ((cnt - l) * es) = (unat cnt - unat l) * unat es" "unat (cnt - l) = unat cnt - unat l"
    "unat off + unat l \<le> unat z" "unat cnt - unat l \<le> unat z"
proof -
  have zp: "0 < unat z" using assms(1) by (simp add: unat_gt_0)
  show o: "unat off = unat w mod unat z" by (simp add: off_def unat_mod)
  then have oz: "unat off < unat z" using zp by simp
  then have "off \<le> z" by (simp add: word_le_nat_alt)
  then have zo: "unat (z - off) = unat z - unat off" by (rule unat_sub)
  show l: "unat l = min (unat cnt) (unat z - unat off)" using zo by (auto simp: l_def c_min_def word_less_nat_alt)
  then have "l \<le> cnt" by (simp add: word_le_nat_alt)
  then show c: "unat (cnt - l) = unat cnt - unat l" by (rule unat_sub)
  show "unat (off * es) = unat off * unat es" by (rule unat_times [OF _ assms(3)]) (use oz in simp)
  show "unat (l * es) = unat l * unat es" by (rule unat_times [OF _ assms(3)]) (use l assms(2) in simp)
  have "unat ((cnt - l) * es) = unat (cnt - l) * unat es" by (rule unat_times [OF _ assms(3)]) (use c assms(2) in simp)
  then show "unat ((cnt - l) * es) = (unat cnt - unat l) * unat es" using c by simp
  show "unat off + unat l \<le> unat z" "unat cnt - unat l \<le> unat z" using l oz assms(2) by auto
qed

lemma drop_ring_queue:
  assumes n: "unat cnt \<le> fill s" and sl: "seamless s (fill s)" and z: "0 < unat (shm_frames s)"
  shows "ring_queue (s\<lparr>shm_out := shm_out s + cnt\<rparr>) = drop (unat cnt) (ring_queue s)"
    "fill (s\<lparr>shm_out := shm_out s + cnt\<rparr>) = fill s - unat cnt"
proof -
  let ?s = "s\<lparr>shm_out := shm_out s + cnt\<rparr>"
  have "cnt \<le> shm_in s - shm_out s" using n by (simp add: fill_def word_le_nat_alt)
  then have "unat (shm_in s - shm_out s - cnt) = fill s - unat cnt" unfolding fill_def by (rule unat_sub)
  then show f: "fill ?s = fill s - unat cnt" by (simp add: fill_def algebra_simps)
  have "slot ?s j = slot s (unat cnt + j)" if "j < fill s - unat cnt" for j
  proof -
    have "unat (shm_out s + cnt) mod unat (shm_frames s) = slot s (unat cnt)"
      using that by (intro counter_mod [OF sl]) auto
    then have "slot ?s j = (slot s (unat cnt) + j) mod unat (shm_frames s)"
      using mod_add_left_eq [of "unat (shm_out s + cnt)" "unat (shm_frames s)" j] by (simp add: slot_def)
    then show ?thesis by (simp add: slot_def mod_add_left_eq add.assoc)
  qed
  then show "ring_queue ?s = drop (unat cnt) (ring_queue s)"
    unfolding ring_queue_def f drop_map drop_upt
    by (intro nth_equalityI) (auto simp: add.commute)
qed

lemma two_puts:
  assumes "length xs = a" "length ys = b" "a + b \<le> length buf"
  shows "bytes_put buf 0 xs = Some (xs @ drop a buf)"
    "bytes_put (xs @ drop a buf) a ys = Some (xs @ ys @ drop (a + b) buf)"
  using assms by (simp_all add: bytes_put_def add.commute)

lemma read_frames_short:
  "unat cnt > fill s \<Longrightarrow> read_frames es cnt buf s = Some (- EAGAIN, buf, s)"
  by (simp add: read_frames_def fill_def word_less_nat_alt)

lemma read_frames_ok:
  assumes ok: "ring_ok s" and n: "unat cnt \<le> fill s" and buf: "unat cnt * unat (esize s) \<le> length buf"
  shows "read_frames (esize s) cnt buf s =
    Some (sint cnt, concat (take (unat cnt) (ring_queue s)) @ drop (unat cnt * unat (esize s)) buf,
      s\<lparr>shm_out := shm_out s + cnt\<rparr>)"
proof -
  note r = ring_okD [OF ok]
  let ?z = "unat (shm_frames s)" and ?e = "unat (esize s)" and ?n = "unat cnt"
  have nz: "?n \<le> ?z" using n r(5) by simp
  let ?off = "shm_out s mod shm_frames s"
  let ?l = "c_min cnt (shm_frames s - ?off)"
  note w = piece_words [OF r(2) nz r(3), of "shm_out s"]
  have le: "a * ?e \<le> length (sdata s)" if "a \<le> ?z" for a
    using mult_le_mono1 [OF that, of ?e] r(4) by linarith
  let ?f = "frame ?e (sdata s)"
  let ?xs = "concat (map ?f [unat ?off..<unat ?off + unat ?l])" and ?ys = "concat (map ?f [0..<?n - unat ?l])"
  have g1: "bytes_get (sdata s) (unat (?off * esize s)) (unat (?l * esize s)) = Some ?xs"
    unfolding w(3,4) by (rule bytes_get_frames [OF le [OF w(7)]])
  have g2: "bytes_get (sdata s) 0 (unat ((cnt - ?l) * esize s)) = Some ?ys"
    unfolding w(5) using bytes_get_frames [of 0 "?n - unat ?l" ?e "sdata s"] le [OF w(8)] by simp
  have fl: "length (?f k) = ?e" if "k < ?z" for k using le [of "Suc k"] that by (intro length_frame) simp
  have lx: "length ?xs = unat ?l * ?e"
    using fl w(7) length_frames [of "map ?f [unat ?off..<unat ?off + unat ?l]" ?e] by simp
  have ly: "length ?ys = (?n - unat ?l) * ?e"
    using fl w(8) length_frames [of "map ?f [0..<?n - unat ?l]" ?e] by simp
  have ln: "unat ?l * ?e + (?n - unat ?l) * ?e = ?n * ?e"
    using w(2) by (simp add: add_mult_distrib [symmetric])
  have fit: "unat ?l * ?e + (?n - unat ?l) * ?e \<le> length buf" using ln buf by simp
  have p1: "bytes_put buf 0 ?xs = Some (?xs @ drop (unat ?l * ?e) buf)"
    by (rule two_puts [OF lx ly fit])
  have p2: "bytes_put (?xs @ drop (unat ?l * ?e) buf) (unat (?l * esize s)) ?ys = Some (?xs @ ?ys @ drop (?n * ?e) buf)"
    unfolding w(4) ln [symmetric] by (rule two_puts [OF lx ly fit])
  have "map ?f [unat ?off..<unat ?off + unat ?l] @ map ?f [0..<?n - unat ?l] = map (\<lambda>j. ?f (slot s j)) [0..<?n]"
    unfolding w(1,2) slot_def by (rule two_pieces [OF nz r(1)])
  then have "?xs @ ?ys = concat (take ?n (ring_queue s))"
    using n by (simp add: ring_queue_def take_map flip: concat_append)
  moreover have "\<not> cnt > shm_in s - shm_out s" using n by (simp add: fill_def word_less_nat_alt)
  ultimately show ?thesis using g1 p1 g2 p2 r(2) by (simp add: read_frames_def Let_def)
qed

end
