(* ===== verification/ShmWrite.thy ===== *)
theory ShmWrite
  imports ShmSpec
begin

text \<open>
  What \<^verbatim>\<open>local_ipc_data_shm_write\<close> does to the queue of frames: append, or throw the waiting frames away
  first when the new ones do not fit.
\<close>

subsection \<open>Writing\<close>

definition frames :: "nat \<Rightarrow> nat \<Rightarrow> u8 list \<Rightarrow> u8 list list" where
  "frames e n buf = map (frame e buf) [0..<n]"

lemma frames_ok:
  "n * e \<le> length buf \<Longrightarrow> length (frames e n buf) = n \<and> (\<forall>f\<in>set (frames e n buf). length f = e)"
proof -
  assume b: "n * e \<le> length buf"
  have "length (frame e buf k) = e" if "k < n" for k
  proof (rule length_frame)
    have "Suc k * e \<le> n * e" using that by (intro mult_le_mono1) simp
    then show "Suc k * e \<le> length buf" using b by (rule le_trans)
  qed
  then show ?thesis by (simp add: frames_def)
qed

lemma frames_concat: "\<forall>f\<in>set fs. length f = e \<Longrightarrow> frames e (length fs) (concat fs @ r) = fs"
  by (auto simp: frames_def frame_concat intro!: nth_equalityI)

definition written :: "nat \<Rightarrow> nat \<Rightarrow> nat \<Rightarrow> u8 list list \<Rightarrow> u8 list \<Rightarrow> u8 list" where
  "written e off l fs xs = put_frames e 0 (drop l fs) (put_frames e off (take l fs) xs)"

lemma write_frames_runs:
  assumes ok: "ring_ok s" and n: "fill s + unat cnt \<le> unat (shm_frames s)"
    and buf: "unat cnt * unat (esize s) \<le> length buf"
  shows "\<exists>off l. off = unat (shm_in s) mod unat (shm_frames s) \<and> l = min (unat cnt) (unat (shm_frames s) - off) \<and>
    write_frames (esize s) cnt buf s = Some (sint cnt, s\<lparr>shm_in := shm_in s + cnt,
      sdata := written (unat (esize s)) off l (frames (unat (esize s)) (unat cnt) buf) (sdata s)\<rparr>)"
proof -
  note r = ring_okD [OF ok]
  let ?z = "unat (shm_frames s)" and ?e = "unat (esize s)" and ?n = "unat cnt"
  have nz: "?n \<le> ?z" using n by simp
  let ?off = "shm_in s mod shm_frames s"
  let ?l = "c_min cnt (shm_frames s - ?off)"
  note w = piece_words [OF r(2) nz r(3), of "shm_in s"]
  let ?fs = "frames ?e ?n buf"
  have fs: "length ?fs = ?n" "\<forall>f\<in>set ?fs. length f = ?e" using frames_ok [OF buf] by auto
  have le: "a * ?e \<le> length (sdata s)" if "a \<le> ?z" for a
    using mult_le_mono1 [OF that, of ?e] r(4) by linarith
  have ln: "unat ?l \<le> ?n" using w(2) by simp
  have leb: "a * ?e \<le> length buf" if "a \<le> ?n" for a
    using mult_le_mono1 [OF that, of ?e] buf by linarith
  have t: "set (take (unat ?l) ?fs) \<subseteq> set ?fs" "set (drop (unat ?l) ?fs) \<subseteq> set ?fs"
    by (simp_all add: set_take_subset set_drop_subset)
  have t1: "\<forall>f\<in>set (take (unat ?l) ?fs). length f = ?e" "\<forall>f\<in>set (drop (unat ?l) ?fs). length f = ?e"
    using fs(2) t by blast+
  have lt: "length (take (unat ?l) ?fs) = unat ?l" "length (drop (unat ?l) ?fs) = ?n - unat ?l"
    using fs(1) ln by simp_all
  have g1: "bytes_get buf 0 (unat (?l * esize s)) = Some (concat (take (unat ?l) ?fs))"
    unfolding w(4) using bytes_get_frames [of 0 "unat ?l" ?e buf] leb [OF ln] ln
    by (simp add: frames_def take_map)
  have g2: "bytes_get buf (unat (?l * esize s)) (unat ((cnt - ?l) * esize s)) = Some (concat (drop (unat ?l) ?fs))"
    unfolding w(4,5) using bytes_get_frames [of "unat ?l" "?n - unat ?l" ?e buf] leb [of ?n] ln
    by (simp add: frames_def drop_map)
  let ?d = "put_frames ?e (unat ?off) (take (unat ?l) ?fs) (sdata s)"
  have f1: "(unat ?off + length (take (unat ?l) ?fs)) * ?e \<le> length (sdata s)"
    unfolding lt by (rule le [OF w(7)])
  have p1: "bytes_put (sdata s) (unat (?off * esize s)) (concat (take (unat ?l) ?fs)) = Some ?d"
    unfolding w(3) by (rule bytes_put_frames [OF t1(1) f1])
  have "length ?d = length (sdata s)" by (rule length_put_frames [OF t1(1) f1])
  then have f2: "(0 + length (drop (unat ?l) ?fs)) * ?e \<le> length ?d"
    unfolding lt using le [OF w(8)] by simp
  have p2: "bytes_put ?d 0 (concat (drop (unat ?l) ?fs)) = Some (written ?e (unat ?off) (unat ?l) ?fs (sdata s))"
    using bytes_put_frames [OF t1(2) f2] by (simp add: written_def)
  have "shm_in s - shm_out s \<le> shm_frames s" using n by (simp add: fill_def word_le_nat_alt)
  then have "unat (shm_frames s - (shm_in s - shm_out s)) = ?z - fill s" unfolding fill_def by (rule unat_sub)
  then have "\<not> shm_frames s - (shm_in s - shm_out s) < cnt" using n by (simp add: word_less_nat_alt)
  then have "write_frames (esize s) cnt buf s = Some (sint cnt, s\<lparr>shm_in := shm_in s + cnt,
      sdata := written ?e (unat ?off) (unat ?l) ?fs (sdata s)\<rparr>)"
    using g1 p1 g2 p2 r(2) by (simp add: write_frames_def Let_def)
  then show ?thesis unfolding w(1,2) by blast
qed

lemma frame_written:
  assumes fs: "\<forall>f\<in>set fs. length f = e" "length fs = n" and z: "z * e \<le> length xs" "off < z" "n \<le> z"
    and l: "l = min n (z - off)" and k: "k < z"
  shows "frame e (written e off l fs xs) k =
    (if k < n - l then fs ! (l + k) else if off \<le> k \<and> k < off + l then fs ! (k - off) else frame e xs k)"
    "length (written e off l fs xs) = length xs"
proof -
  have le: "a * e \<le> length xs" if "a \<le> z" for a
    using mult_le_mono1 [OF that, of e] z(1) by linarith
  have t: "\<forall>f\<in>set (take l fs). length f = e" "\<forall>f\<in>set (drop l fs). length f = e"
    using fs(1) set_take_subset [of l fs] set_drop_subset [of l fs] by blast+
  have lt: "length (take l fs) = l" "length (drop l fs) = n - l" using fs(2) l by simp_all
  have ll: "l \<le> length fs" using fs(2) l by simp
  have f1: "(off + length (take l fs)) * e \<le> length xs" unfolding lt using l z by (intro le) simp
  let ?d = "put_frames e off (take l fs) xs"
  have ld: "length ?d = length xs" by (rule length_put_frames [OF t(1) f1])
  have f2: "(0 + length (drop l fs)) * e \<le> length ?d" unfolding lt ld using z by (intro le) simp
  have k1: "Suc k * e \<le> length xs" using k by (intro le) simp
  have k2: "Suc k * e \<le> length ?d" using k1 ld by simp
  show "frame e (written e off l fs xs) k =
    (if k < n - l then fs ! (l + k) else if off \<le> k \<and> k < off + l then fs ! (k - off) else frame e xs k)"
    unfolding written_def frame_put_frames [OF t(2) f2 k2] frame_put_frames [OF t(1) f1 k1]
    using fs(2) ll by (auto simp: lt)
  show "length (written e off l fs xs) = length xs"
    unfolding written_def length_put_frames [OF t(2) f2] by (rule ld)
qed

lemma old_slots_kept:
  fixes a z j f n off l p :: nat
  assumes "a < z" "j < f" "f + n \<le> z" "0 < n" "p = (if a + j < z then a + j else a + j - z)"
    "off = (if a + f < z then a + f else a + f - z)" "l = min n (z - off)"
  shows "\<not> p < n - l \<and> \<not> (off \<le> p \<and> p < off + l)"
proof (cases "a + f < z")
  case True
  then have "off = a + f" "p = a + j" using assms by auto
  then show ?thesis using assms(1-4,7) True by (auto simp: min_def)
next
  case f: False
  then have o: "off = a + f - z" using assms by simp
  then have l: "l = n" using assms f by (auto simp: min_def)
  show ?thesis
  proof (cases "a + j < z")
    case True
    then have "p = a + j" using assms by simp
    then show ?thesis using assms(1-4) f o l by auto
  next
    case False
    then have "p = a + j - z" using assms by simp
    then show ?thesis using assms(1-4) f o l False by auto
  qed
qed

lemma new_slots_set:
  fixes z n off l p i :: nat
  assumes "off < z" "i < n" "n \<le> z" "p = (if off + i < z then off + i else off + i - z)" "l = min n (z - off)"
  shows "if p < n - l then l + p = i else off \<le> p \<and> p < off + l \<and> p - off = i"
proof (cases "off + i < z")
  case True
  then have "p = off + i" "i < l" using assms by auto
  then show ?thesis using assms(3,5) by (auto simp: min_def)
next
  case False
  then have "p = off + i - z" "l = z - off" using assms by auto
  then show ?thesis using assms(1-3) False by auto
qed

lemma fill_add:
  fixes s :: segment
  assumes "fill s + unat cnt < 2 ^ 32"
  shows "fill (s\<lparr>shm_in := shm_in s + cnt, sdata := d\<rparr>) = fill s + unat cnt"
proof -
  have e: "shm_in s + cnt - shm_out s = (shm_in s - shm_out s) + cnt" by simp
  have "unat ((shm_in s - shm_out s) + cnt) = unat (shm_in s - shm_out s) + unat cnt"
    using assms unat_add_lem [of "shm_in s - shm_out s" cnt] by (simp add: fill_def)
  then have "unat (shm_in s + cnt - shm_out s) = unat (shm_in s - shm_out s) + unat cnt" unfolding e .
  then show ?thesis by (simp add: fill_def)
qed

lemma write_frames_ok:
  assumes ok: "ring_ok s" and n: "fill s + unat cnt \<le> unat (shm_frames s)"
    and buf: "unat cnt * unat (esize s) \<le> length buf"
  shows "\<exists>d. write_frames (esize s) cnt buf s = Some (sint cnt, s\<lparr>shm_in := shm_in s + cnt, sdata := d\<rparr>) \<and>
    ring_ok (s\<lparr>shm_in := shm_in s + cnt, sdata := d\<rparr>) \<and>
    (seamless s (fill s + unat cnt) \<longrightarrow>
       ring_queue (s\<lparr>shm_in := shm_in s + cnt, sdata := d\<rparr>) = ring_queue s @ frames (unat (esize s)) (unat cnt) buf)"
proof -
  note r = ring_okD [OF ok]
  let ?z = "unat (shm_frames s)" and ?e = "unat (esize s)" and ?n = "unat cnt"
  let ?fs = "frames ?e ?n buf"
  have fs: "\<forall>f\<in>set ?fs. length f = ?e" "length ?fs = ?n" using frames_ok [OF buf] by auto
  obtain off l where ol: "off = unat (shm_in s) mod ?z" "l = min ?n (?z - off)"
    "write_frames (esize s) cnt buf s = Some (sint cnt, s\<lparr>shm_in := shm_in s + cnt, sdata := written ?e off l ?fs (sdata s)\<rparr>)"
    using write_frames_runs [OF assms] by blast
  let ?d = "written ?e off l ?fs (sdata s)"
  let ?s = "s\<lparr>shm_in := shm_in s + cnt, sdata := ?d\<rparr>"
  have oz: "off < ?z" "?n \<le> ?z" using ol(1) r(1) n by simp_all
  note fw = frame_written [OF fs r(4) oz ol(2)]
  have "?z < 2 ^ 32" using unsigned_less [of "shm_frames s", where ?'a = nat] by simp
  then have f: "fill ?s = fill s + ?n" using n by (intro fill_add) simp
  have "ring_ok ?s" using r fw(2) [of 0] n f by (simp add: ring_ok_def)
  moreover have "ring_queue ?s = ring_queue s @ ?fs" if sl: "seamless s (fill s + ?n)"
  proof (cases "?n = 0")
    case True
    then have "written ?e off l ?fs (sdata s) = sdata s" using fs(2) by (simp add: written_def put_frames_def)
    then show ?thesis using True f fs(2) by (simp add: ring_queue_def slot_def)
  next
    case False
    have "unat (shm_out s + (shm_in s - shm_out s)) mod ?z = slot s (fill s)"
      using False by (intro counter_mod [OF sl]) (simp_all add: fill_def)
    then have off: "off = slot s (fill s)" unfolding ol(1) by simp
    have fz: "fill s \<le> ?z" using n by simp
    have "frame ?e ?d (slot s j) = (ring_queue s @ ?fs) ! j" if j: "j < fill s + ?n" for j
    proof (cases "j < fill s")
      case True
      have "slot s j < ?z" using r(1) by (simp add: slot_def)
      moreover have "\<not> slot s j < ?n - l \<and> \<not> (off \<le> slot s j \<and> slot s j < off + l)"
      proof (rule old_slots_kept [of "unat (shm_out s) mod ?z" ?z j "fill s"])
        show "unat (shm_out s) mod ?z < ?z" using r(1) by simp
        show "slot s j = (if unat (shm_out s) mod ?z + j < ?z then unat (shm_out s) mod ?z + j else unat (shm_out s) mod ?z + j - ?z)"
          unfolding slot_def by (rule mod_wrap [OF _ r(1)]) (use True fz in simp)
        show "off = (if unat (shm_out s) mod ?z + fill s < ?z then unat (shm_out s) mod ?z + fill s
            else unat (shm_out s) mod ?z + fill s - ?z)"
          unfolding off slot_def by (rule mod_wrap [OF fz r(1)])
      qed (use True n False ol(2) in simp_all)
      ultimately show ?thesis using True fw(1) [of "slot s j"] by (auto simp: nth_append ring_queue_def)
    next
      case new: False
      let ?i = "j - fill s"
      have i: "?i < ?n" "?i \<le> ?z" using new j oz by auto
      have sj: "slot s j = (if off + ?i < ?z then off + ?i else off + ?i - ?z)"
      proof -
        have "slot s (fill s + i) = (slot s (fill s) + i) mod ?z" for i
          by (simp add: slot_def mod_add_left_eq add.assoc)
        from this [of ?i] have "slot s j = (slot s (fill s) + ?i) mod ?z" using new by simp
        also have "\<dots> = (off + ?i) mod ?z" unfolding off ..
        also have "\<dots> = (if off + ?i < ?z then off + ?i else off + ?i - ?z)"
          using mod_wrap [OF i(2) r(1), of off] oz(1) by simp
        finally show ?thesis .
      qed
      have "slot s j < ?z" using r(1) by (simp add: slot_def)
      from fw(1) [OF this] have "frame ?e ?d (slot s j) = ?fs ! ?i"
        using new_slots_set [OF oz(1) i(1) oz(2) sj ol(2)] by (simp split: if_splits)
      then show ?thesis using new by (simp add: nth_append)
    qed
    then show ?thesis using f fs(2)
      by (intro nth_equalityI) (simp_all add: ring_queue_def [of ?s] slot_def)
  qed
  ultimately show ?thesis using ol(3) by blast
qed

text \<open>A write that does not fit throws the waiting frames away first.\<close>

lemma write_frames_reset:
  assumes "unat cnt \<le> unat (shm_frames s)" and "fill s \<le> unat (shm_frames s)" and "unat (shm_frames s) < fill s + unat cnt"
  shows "write_frames es cnt buf s = write_frames es cnt buf (s\<lparr>shm_in := 0, shm_out := 0\<rparr>)"
proof -
  have "shm_in s - shm_out s \<le> shm_frames s" using assms(2) by (simp add: fill_def word_le_nat_alt)
  then have "unat (shm_frames s - (shm_in s - shm_out s)) = unat (shm_frames s) - fill s" unfolding fill_def by (rule unat_sub)
  then have "shm_frames s - (shm_in s - shm_out s) < cnt" using assms by (simp add: word_less_nat_alt)
  moreover have "\<not> shm_frames s < cnt" using assms(1) by (simp add: word_less_nat_alt)
  ultimately show ?thesis by (simp add: write_frames_def)
qed

end
