(* ===== verification/ShmQueue.thy ===== *)
theory ShmQueue
  imports ShmWrite
begin

text \<open>
  Sequences of calls on the ring: an interface of a queue that drops what waits when new frames do not
  fit, the refinement proved inside it once, and its interpretation on the code's \<^verbatim>\<open>write\<close>,
  \<^verbatim>\<open>read\<close> and \<^verbatim>\<open>ioctl\<close>.
\<close>

subsection \<open>The interface\<close>

datatype 'f ring_op = Put "'f list" | Get nat | Clear

fun op_writes :: "'f ring_op \<Rightarrow> nat" where
  "op_writes (Put fs) = length fs"
| "op_writes _ = 0"

fun op_ok :: "nat \<Rightarrow> 'f set \<Rightarrow> 'f ring_op \<Rightarrow> bool" where
  "op_ok z F (Put fs) \<longleftrightarrow> set fs \<subseteq> F \<and> length fs \<le> z"
| "op_ok z F (Get n) \<longleftrightarrow> n < 2 ^ 31"
| "op_ok z F Clear \<longleftrightarrow> True"

text \<open>The abstract queue of capacity \<open>z\<close>: the result, the frames handed out, and the queue left.\<close>

fun list_do :: "nat \<Rightarrow> 'f ring_op \<Rightarrow> 'f list \<Rightarrow> (int \<times> 'f list) \<times> 'f list" where
  "list_do z (Put fs) q = ((int (length fs), []), if length q + length fs \<le> z then q @ fs else fs)"
| "list_do z (Get n) q = (if n \<le> length q then ((int n, take n q), drop n q) else ((- EAGAIN, []), q))"
| "list_do z Clear q = ((0, []), [])"

fun list_run :: "nat \<Rightarrow> 'f ring_op list \<Rightarrow> 'f list \<Rightarrow> (int \<times> 'f list) list \<times> 'f list" where
  "list_run z [] q = ([], q)"
| "list_run z (op # ops) q =
     (let (r, q) = list_do z op q; (rs, q) = list_run z ops q in (r # rs, q))"

fun op_do :: "('f list \<Rightarrow> 's \<Rightarrow> ((int \<times> 'f list) \<times> 's) option) \<Rightarrow> (nat \<Rightarrow> 's \<Rightarrow> ((int \<times> 'f list) \<times> 's) option) \<Rightarrow>
    ('s \<Rightarrow> 's) \<Rightarrow> 'f ring_op \<Rightarrow> 's \<Rightarrow> ((int \<times> 'f list) \<times> 's) option" where
  "op_do put get clear (Put fs) s = put fs s"
| "op_do put get clear (Get n) s = get n s"
| "op_do put get clear Clear s = Some ((0, []), clear s)"

fun op_run :: "('f list \<Rightarrow> 's \<Rightarrow> ((int \<times> 'f list) \<times> 's) option) \<Rightarrow> (nat \<Rightarrow> 's \<Rightarrow> ((int \<times> 'f list) \<times> 's) option) \<Rightarrow>
    ('s \<Rightarrow> 's) \<Rightarrow> 'f ring_op list \<Rightarrow> 's \<Rightarrow> ((int \<times> 'f list) list \<times> 's) option" where
  "op_run put get clear [] s = Some ([], s)"
| "op_run put get clear (op # ops) s = do {
     (r, s) \<leftarrow> op_do put get clear op s;
     (rs, s) \<leftarrow> op_run put get clear ops s;
     Some (r # rs, s)
   }"

text \<open>\<open>holds z F b s q\<close>: the state is a queue of capacity \<open>z\<close> over the frames \<open>F\<close> with content \<open>q\<close>, good
  for \<open>b\<close> more frames written.\<close>

locale lossy_fifo =
  fixes holds :: "nat \<Rightarrow> 'f set \<Rightarrow> nat \<Rightarrow> 's \<Rightarrow> 'f list \<Rightarrow> bool"
    and put :: "'f list \<Rightarrow> 's \<Rightarrow> ((int \<times> 'f list) \<times> 's) option"
    and get :: "nat \<Rightarrow> 's \<Rightarrow> ((int \<times> 'f list) \<times> 's) option"
    and clear :: "'s \<Rightarrow> 's"
  assumes put_law: "holds z F b s q \<Longrightarrow> set fs \<subseteq> F \<Longrightarrow> length fs \<le> z \<Longrightarrow> length fs \<le> b \<Longrightarrow>
      \<exists>s'. put fs s = Some ((int (length fs), []), s') \<and>
        holds z F (b - length fs) s' (if length q + length fs \<le> z then q @ fs else fs)"
    and get_law: "holds z F b s q \<Longrightarrow> n \<le> length q \<Longrightarrow>
      \<exists>s'. get n s = Some ((int n, take n q), s') \<and> holds z F b s' (drop n q)"
    and get_short: "holds z F b s q \<Longrightarrow> length q < n \<Longrightarrow> n < 2 ^ 31 \<Longrightarrow> get n s = Some ((- EAGAIN, []), s)"
    and clear_law: "holds z F b s q \<Longrightarrow> holds z F b (clear s) []"
begin

lemma do_refines:
  assumes h: "holds z F b s q" and ok: "op_ok z F op" and w: "op_writes op \<le> b"
  shows "\<exists>s'. op_do put get clear op s = Some (fst (list_do z op q), s') \<and>
    holds z F (b - op_writes op) s' (snd (list_do z op q))"
proof (cases op)
  case (Put fs)
  then show ?thesis using put_law [OF h, of fs] ok w by simp
next
  case (Get n)
  then show ?thesis using get_law [OF h, of n] get_short [OF h, of n] h ok by (cases "n \<le> length q") auto
next
  case Clear
  then show ?thesis using clear_law [OF h] by simp
qed

lemma run_refines:
  "holds z F b s q \<Longrightarrow> list_all (op_ok z F) ops \<Longrightarrow> sum_list (map op_writes ops) \<le> b \<Longrightarrow>
   \<exists>s'. op_run put get clear ops s = Some (fst (list_run z ops q), s') \<and>
     holds z F (b - sum_list (map op_writes ops)) s' (snd (list_run z ops q))"
proof (induction ops arbitrary: b s q)
  case (Cons op ops)
  from Cons.prems obtain s1 where 1: "op_do put get clear op s = Some (fst (list_do z op q), s1)"
    "holds z F (b - op_writes op) s1 (snd (list_do z op q))"
    using do_refines [of z F b s q op] by auto
  have ops: "list_all (op_ok z F) ops" "sum_list (map op_writes ops) \<le> b - op_writes op" using Cons.prems(2,3) by auto
  from Cons.IH [OF 1(2) ops] obtain s2 where
    "op_run put get clear ops s1 = Some (fst (list_run z ops (snd (list_do z op q))), s2)"
    "holds z F (b - op_writes op - sum_list (map op_writes ops)) s2 (snd (list_run z ops (snd (list_do z op q))))"
    by blast
  then show ?case using 1(1) by (simp add: split_beta)
qed simp

end

subsection \<open>The ring provides it\<close>

definition ring_put :: "u8 list list \<Rightarrow> segment \<Rightarrow> ((int \<times> u8 list list) \<times> segment) option" where
  "ring_put fs s = do {
     (r, s) \<leftarrow> write_frames (esize s) (of_nat (length fs)) (concat fs) s;
     Some ((r, []), s)
   }"

definition ring_get :: "nat \<Rightarrow> segment \<Rightarrow> ((int \<times> u8 list list) \<times> segment) option" where
  "ring_get n s = (let e = unat (esize s) in do {
     (r, buf, s) \<leftarrow> read_frames (esize s) (of_nat n) (replicate (n * e) 0) s;
     Some ((r, if r < 0 then [] else frames e n buf), s)
   })"

definition ring_clear :: "segment \<Rightarrow> segment" where
  "ring_clear s = s\<lparr>shm_in := 0, shm_out := 0\<rparr>"

definition ring_holds :: "nat \<Rightarrow> u8 list set \<Rightarrow> nat \<Rightarrow> segment \<Rightarrow> u8 list list \<Rightarrow> bool" where
  "ring_holds z F b s q \<longleftrightarrow> ring_ok s \<and> unat (shm_frames s) = z \<and> z < 2 ^ 31 \<and> F = {f. length f = unat (esize s)} \<and>
     ring_queue s = q \<and> seamless s (fill s + b)"

lemma ring_holdsD:
  assumes "ring_holds z F b s q"
  shows "ring_ok s" "unat (shm_frames s) = z" "z < 2 ^ 31" "F = {f. length f = unat (esize s)}" "ring_queue s = q"
    "seamless s (fill s + b)" "length q = fill s" "fill s \<le> z"
  using assms ring_okD(5) [of s] by (auto simp: ring_holds_def)

lemma seamless_less: "seamless s m \<Longrightarrow> n \<le> m \<Longrightarrow> seamless s n"
  by (auto simp: seamless_def)

lemma small_count:
  assumes "n < 2 ^ 31"
  shows "unat (of_nat n :: u32) = n" "sint (of_nat n :: u32) = int n"
proof -
  show "unat (of_nat n :: u32) = n" using assms by (simp add: unat_of_nat take_bit_nat_eq_self)
  have "sint (word_of_nat n :: u32) = signed_take_bit 31 (int n)" by (simp add: signed_of_nat)
  then show "sint (of_nat n :: u32) = int n" using assms
    by (simp add: signed_take_bit_int_eq_self)
qed

lemma queue_frames:
  assumes ok: "ring_ok s"
  shows "\<forall>f\<in>set (ring_queue s). length f = unat (esize s)"
proof -
  note r = ring_okD [OF ok]
  have "length (frame (unat (esize s)) (sdata s) (slot s j)) = unat (esize s)" for j
  proof (rule length_frame)
    have "Suc (slot s j) * unat (esize s) \<le> unat (shm_frames s) * unat (esize s)"
      using r(1) by (intro mult_le_mono1) (simp add: slot_def Suc_le_eq)
    then show "Suc (slot s j) * unat (esize s) \<le> length (sdata s)" using r(4) by simp
  qed
  then show ?thesis by (auto simp: ring_queue_def)
qed

lemma ring_get_ok:
  assumes ok: "ring_ok s" and n: "n \<le> fill s" "n < 2 ^ 31"
  shows "ring_get n s = Some ((int n, take n (ring_queue s)), s\<lparr>shm_out := shm_out s + of_nat n\<rparr>)"
proof -
  note c = small_count [OF n(2)]
  have "\<forall>f\<in>set (take n (ring_queue s)). length f = unat (esize s)" using queue_frames [OF ok] by (meson in_set_takeD)
  from frames_concat [OF this, of "[]"]
  have "frames (unat (esize s)) n (concat (take n (ring_queue s))) = take n (ring_queue s)" using n by simp
  then show ?thesis using read_frames_ok [OF ok, of "of_nat n" "replicate (n * unat (esize s)) 0"] c n
    by (simp add: ring_get_def)
qed

lemma ring_put_runs:
  assumes ok: "ring_ok s" and fs: "\<forall>f\<in>set fs. length f = unat (esize s)"
    and room: "fill s + length fs \<le> unat (shm_frames s)" and n: "length fs < 2 ^ 31"
  defines "off \<equiv> unat (shm_in s) mod unat (shm_frames s)"
  shows "ring_put fs s = Some ((int (length fs), []), s\<lparr>shm_in := shm_in s + of_nat (length fs),
    sdata := written (unat (esize s)) off (min (length fs) (unat (shm_frames s) - off)) fs (sdata s)\<rparr>)"
proof -
  note c = small_count [OF n]
  have "unat (of_nat (length fs) :: u32) * unat (esize s) \<le> length (concat fs)" using length_frames [OF fs] c by simp
  from write_frames_runs [OF ok _ this] show ?thesis
    using room c frames_concat [OF fs, of "[]"] by (simp add: ring_put_def off_def)
qed

lemma clear_holds:
  assumes "ring_holds z F b s q"
  shows "ring_holds z F b (ring_clear s) []"
proof -
  note h = ring_holdsD [OF assms]
  have f: "fill (ring_clear s) = 0" by (simp add: ring_clear_def fill_def)
  have "seamless (ring_clear s) b" using h(6) by (auto simp: seamless_def ring_clear_def)
  then show ?thesis using h f ring_okD [OF h(1)] by (auto simp: ring_holds_def ring_ok_def ring_clear_def ring_queue_def)
qed

lemma put_holds_room:
  assumes "ring_holds z F b s q" and fs: "set fs \<subseteq> F" "length fs \<le> b" and room: "length q + length fs \<le> z"
  shows "\<exists>s'. ring_put fs s = Some ((int (length fs), []), s') \<and> ring_holds z F (b - length fs) s' (q @ fs)"
proof -
  note h = ring_holdsD [OF assms(1)]
  let ?c = "of_nat (length fs) :: u32" and ?e = "unat (esize s)"
  have n: "length fs < 2 ^ 31" using room h(3) by linarith
  note c = small_count [OF n]
  have all: "\<forall>f\<in>set fs. length f = ?e" using fs(1) h(4) by auto
  have f: "fill s + unat ?c \<le> unat (shm_frames s)" using room h c by simp
  have len: "unat ?c * ?e \<le> length (concat fs)" using length_frames [OF all] c by simp
  obtain d where d: "write_frames (esize s) ?c (concat fs) s = Some (sint ?c, s\<lparr>shm_in := shm_in s + ?c, sdata := d\<rparr>)"
    "ring_ok (s\<lparr>shm_in := shm_in s + ?c, sdata := d\<rparr>)"
    "seamless s (fill s + unat ?c) \<longrightarrow>
       ring_queue (s\<lparr>shm_in := shm_in s + ?c, sdata := d\<rparr>) = ring_queue s @ frames ?e (unat ?c) (concat fs)"
    using write_frames_ok [OF h(1) f len] by blast
  let ?s = "s\<lparr>shm_in := shm_in s + ?c, sdata := d\<rparr>"
  have "seamless s (fill s + unat ?c)" using seamless_less [OF h(6)] fs(2) c by simp
  then have q: "ring_queue ?s = q @ fs" using d(3) h(5) frames_concat [OF all, of "[]"] c by simp
  then have "fill ?s = fill s + length fs" using h(7) by (metis length_append length_ring_queue)
  then have "seamless ?s (fill ?s + (b - length fs))" using h(6) fs(2) by (simp add: seamless_def)
  then have "ring_holds z F (b - length fs) ?s (q @ fs)" using d(2) h q by (simp add: ring_holds_def)
  then show ?thesis using d(1) c by (simp add: ring_put_def)
qed

lemma put_holds:
  assumes h: "ring_holds z F b s q" and fs: "set fs \<subseteq> F" "length fs \<le> z" "length fs \<le> b"
  shows "\<exists>s'. ring_put fs s = Some ((int (length fs), []), s') \<and>
    ring_holds z F (b - length fs) s' (if length q + length fs \<le> z then q @ fs else fs)"
proof (cases "length q + length fs \<le> z")
  case True
  then show ?thesis using put_holds_room [OF h fs(1,3)] by simp
next
  case False
  note d = ring_holdsD [OF h]
  have c: "unat (of_nat (length fs) :: u32) = length fs" using small_count(1) fs(2) d(3) by simp
  have "ring_put fs s = ring_put fs (ring_clear s)"
    using write_frames_reset [of "of_nat (length fs)" s "esize s" "concat fs"] False d(2,7,8) fs(2) c
    by (simp add: ring_put_def ring_clear_def)
  then show ?thesis using put_holds_room [OF clear_holds [OF h] fs(1,3)] fs(2) False by simp
qed

lemma get_holds:
  assumes "ring_holds z F b s q" and n: "n \<le> length q"
  shows "\<exists>s'. ring_get n s = Some ((int n, take n q), s') \<and> ring_holds z F b s' (drop n q)"
proof -
  note h = ring_holdsD [OF assms(1)]
  let ?c = "of_nat n :: u32" and ?e = "unat (esize s)"
  have n2: "n < 2 ^ 31" using n h by simp
  note c = small_count [OF n2]
  have cf: "unat ?c \<le> fill s" using n h(7) c by simp
  have sl: "seamless s (fill s)" using seamless_less [OF h(6)] by simp
  note r = ring_okD [OF h(1)]
  let ?s = "s\<lparr>shm_out := shm_out s + ?c\<rparr>"
  note dq = drop_ring_queue [OF cf sl r(1)]
  have g: "ring_get n s = Some ((int n, take n q), ?s)"
    using ring_get_ok [OF h(1) _ n2] n h(5,7) by simp
  have "ring_ok ?s" using r dq(2) by (simp add: ring_ok_def)
  moreover have "seamless ?s (fill ?s + b)"
  proof (cases "unat (shm_frames s) dvd 2 ^ 32")
    case False
    then have b: "unat (shm_out s) + (fill s + b) \<le> 2 ^ 32" using h(6) by (simp add: seamless_def)
    have "unat (shm_out s + ?c) \<le> unat (shm_out s) + n"
      using c(1) by (metis unat_word_ariths(1) mod_less_eq_dividend)
    moreover have "fill ?s + n = fill s" using dq(2) c cf by simp
    ultimately have "unat (shm_out s + ?c) + (fill ?s + b) \<le> 2 ^ 32" using b by linarith
    then show ?thesis by (simp add: seamless_def)
  qed (simp add: seamless_def)
  ultimately have "ring_holds z F b ?s (drop n q)" using h dq(1) c by (simp add: ring_holds_def)
  then show ?thesis using g by simp
qed

lemma get_starves:
  assumes "ring_holds z F b s q" "length q < n" "n < 2 ^ 31"
  shows "ring_get n s = Some ((- EAGAIN, []), s)"
  using read_frames_short [of s "of_nat n" "esize s" "replicate (n * unat (esize s)) 0"]
    ring_holdsD [OF assms(1)] small_count [OF assms(3)] assms(2) by (simp add: ring_get_def)

interpretation ring: lossy_fifo ring_holds ring_put ring_get ring_clear
proof
  fix z b n :: nat and F s and q fs :: "u8 list list"
  assume h: "ring_holds z F b s q"
  show "set fs \<subseteq> F \<Longrightarrow> length fs \<le> z \<Longrightarrow> length fs \<le> b \<Longrightarrow>
      \<exists>s'. ring_put fs s = Some ((int (length fs), []), s') \<and>
        ring_holds z F (b - length fs) s' (if length q + length fs \<le> z then q @ fs else fs)"
    by (rule put_holds [OF h])
  show "n \<le> length q \<Longrightarrow> \<exists>s'. ring_get n s = Some ((int n, take n q), s') \<and> ring_holds z F b s' (drop n q)"
    by (rule get_holds [OF h])
  show "length q < n \<Longrightarrow> n < 2 ^ 31 \<Longrightarrow> ring_get n s = Some ((- EAGAIN, []), s)"
    by (rule get_starves [OF h])
  show "ring_holds z F b (ring_clear s) []" by (rule clear_holds [OF h])
qed

end
