(* ===== verification/ShmCalls.thy ===== *)
theory ShmCalls
  imports ShmQueue
begin

text \<open>
  The system calls the ring relies on, as hypotheses on the record of system calls, and what the
  semaphore and segment helpers do under them.
\<close>

text \<open>What the file relies on: memory reads back what was stored, and a semaphore operation leaves it alone.\<close>

definition memory_laws :: "'k ipc_sys \<Rightarrow> bool" where
  "memory_laws S \<longleftrightarrow> (\<forall>k p s. sys_mem S (sys_store S p s k) = (sys_mem S k)(p \<mapsto> s)) \<and>
     (\<forall>k i ops. sys_mem S (snd (sys_semop S i ops k)) = sys_mem S k)"

lemma memory_lawsD:
  assumes "memory_laws S"
  shows "sys_mem S (sys_store S p s k) = (sys_mem S k)(p \<mapsto> s)" "sys_mem S (snd (sys_semop S i ops k)) = sys_mem S k"
  using assms by (simp_all add: memory_laws_def)

lemma down_memory:
  assumes "memory_laws S"
  obtains r g k' where "smd_semaphore_down S n d k = (r, d\<lparr>locked := g\<rparr>, k')" "sys_mem S k' = sys_mem S k"
proof -
  obtain r k' where k: "sys_semop S (semid d) [\<lparr>sem_num = n, sem_op = 0, sem_flg = 0\<rparr>, \<lparr>sem_num = n, sem_op = 1, sem_flg = SEM_UNDO\<rparr>] k = (r, k')"
    by fastforce
  then have "sys_mem S k' = sys_mem S k" using memory_lawsD(2) [OF assms] by (metis snd_conv)
  moreover have "smd_semaphore_down S n d k = (if r = 0 then r else if r = -1 then - sys_errno S k' else r,
      d\<lparr>locked := if r = 0 then locked d + 1 else locked d\<rparr>, k')" by (simp add: smd_semaphore_down_def k)
  ultimately show ?thesis by (rule that [rotated])
qed

lemma up_memory:
  assumes "memory_laws S"
  obtains r g k' where "smd_semaphore_up S n d k = (r, d\<lparr>locked := g\<rparr>, k')" "sys_mem S k' = sys_mem S k"
proof -
  obtain r k' where k: "sys_semop S (semid d) [\<lparr>sem_num = n, sem_op = -1, sem_flg = SEM_UNDO OR IPC_NOWAIT\<rparr>] k = (r, k')"
    by fastforce
  then have "sys_mem S k' = sys_mem S k" using memory_lawsD(2) [OF assms] by (metis snd_conv)
  moreover have "smd_semaphore_up S n d k = (if r = 0 then r else if r = -1 then - sys_errno S k' else r,
      d\<lparr>locked := if r = 0 then locked d - 1 else locked d\<rparr>, k')" unfolding smd_semaphore_up_def k by simp
  ultimately show ?thesis by (rule that [rotated])
qed

text \<open>
  The documented behaviour that a first opening relies on: the key and the semaphore are there and the lock
  is free, no segment has the key yet, the segment made is attached at \<open>p\<close> with the content \<open>s0\<close>, and nothing but a store
  changes memory.
\<close>

definition first_opening :: "'k ipc_sys \<Rightarrow> addr \<Rightarrow> segment \<Rightarrow> bool" where
  "first_opening S p s0 \<longleftrightarrow> memory_laws S \<and> p \<noteq> NULL \<and> p \<noteq> MAP_ERR \<and>
     (\<forall>f i k. 0 \<le> i \<longrightarrow> 0 \<le> fst (sys_ftok S f i k)) \<and>
     (\<forall>key n fl k. 0 \<le> fst (sys_semget S key n fl k)) \<and> (\<forall>i n k. 0 \<le> fst (sys_semstat S i n k)) \<and>
     (\<forall>i ops k. fst (sys_semop S i ops k) = 0) \<and>
     (\<forall>key n k. \<exists>k1 i k2. sys_shmget S key n 420 k = (- 1, k1) \<and> sys_errno S k1 = ENOENT \<and>
        sys_shmget S key n (IPC_CREAT OR IPC_EXCL OR 420) k1 = (i, k2) \<and> 0 \<le> i) \<and>
     (\<forall>i k. fst (sys_shmat S i k) = p \<and> sys_mem S (snd (sys_shmat S i k)) p = Some s0) \<and>
     (\<forall>q n k. sys_mem S (snd (sys_mlock S q n k)) = sys_mem S k) \<and>
     (\<forall>i k. fst (fst (sys_shmstat S i k)) = 0 \<and> sys_mem S (snd (sys_shmstat S i k)) = sys_mem S k) \<and>
     (\<forall>i g k. sys_mem S (snd (sys_shmset S i g k)) = sys_mem S k)"

lemma first_openingD:
  assumes "first_opening S p s0"
  shows "memory_laws S" "p \<noteq> NULL" "p \<noteq> MAP_ERR" "0 \<le> i \<Longrightarrow> 0 \<le> fst (sys_ftok S f i k)"
    "0 \<le> fst (sys_semget S key n fl k)" "0 \<le> fst (sys_semstat S i n k)" "fst (sys_semop S i ops k) = 0"
    "\<exists>k1 i k2. sys_shmget S key w 420 k = (- 1, k1) \<and> sys_errno S k1 = ENOENT \<and>
        sys_shmget S key w (IPC_CREAT OR IPC_EXCL OR 420) k1 = (i, k2) \<and> 0 \<le> i"
    "fst (sys_shmat S i k) = p" "sys_mem S (snd (sys_shmat S i k)) p = Some s0"
    "sys_mem S (snd (sys_mlock S q w k)) = sys_mem S k" "fst (fst (sys_shmstat S i k)) = 0"
    "sys_mem S (snd (sys_shmstat S i k)) = sys_mem S k" "sys_mem S (snd (sys_shmset S i g k)) = sys_mem S k"
  using assms unfolding first_opening_def by simp_all

lemma set_gids_ok:
  assumes f: "first_opening S p s0"
  shows "\<exists>k'. set_sem_gids S is d k = (0, d, k')"
proof (induction "is" arbitrary: k)
  case (Cons i js)
  then show ?case using first_openingD(6) [OF f, of "semid d" i k] by (auto simp: split_beta not_less [symmetric])
qed simp

lemma semaphore_ok:
  assumes f: "first_opening S p s0"
  shows "\<exists>i k'. smd_semaphore_create_or_connect S d k = (0, d\<lparr>semid := i\<rparr>, k') \<and> 0 \<le> i"
proof -
  obtain i k1 where g: "sys_semget S (ipc_key d) SMD_DIRECT_IPC_SEMS (IPC_CREAT OR ipc_perm d) k = (i, k1)" "0 \<le> i"
    using first_openingD(5) [OF f] by (metis prod.collapse)
  obtain k2 where "set_sem_gids S [0..<SMD_DIRECT_IPC_SEMS] (d\<lparr>semid := i\<rparr>) k1 = (0, d\<lparr>semid := i\<rparr>, k2)"
    using set_gids_ok [OF f] by blast
  then show ?thesis using g unfolding smd_semaphore_create_or_connect_def Let_def g(1) by auto
qed

lemma down_ok:
  assumes f: "first_opening S p s0"
  shows "\<exists>k'. smd_semaphore_down S n d k = (0, d\<lparr>locked := locked d + 1\<rparr>, k') \<and> sys_mem S k' = sys_mem S k"
  using first_openingD(7) [OF f] memory_lawsD(2) [OF first_openingD(1) [OF f]]
  unfolding smd_semaphore_down_def by (simp add: split_beta)

lemma up_ok:
  assumes f: "first_opening S p s0"
  shows "\<exists>k'. smd_semaphore_up S n d k = (0, d\<lparr>locked := locked d - 1\<rparr>, k') \<and> sys_mem S k' = sys_mem S k"
  using first_openingD(7) [OF f] memory_lawsD(2) [OF first_openingD(1) [OF f]]
  unfolding smd_semaphore_up_def by (simp add: split_beta)

lemma open_sem_ok:
  assumes f: "first_opening S p s0"
  shows "\<exists>i k'. open_sem S n d k = (True, 0, d\<lparr>semid := i, locked := locked d + 1\<rparr>, k') \<and> 0 \<le> i"
proof -
  obtain i k1 where 1: "smd_semaphore_create_or_connect S d k = (0, d\<lparr>semid := i\<rparr>, k1)" "0 \<le> i"
    using semaphore_ok [OF f] by blast
  obtain k2 where "smd_semaphore_down S 0 (d\<lparr>semid := i\<rparr>) k1 = (0, d\<lparr>semid := i, locked := locked d + 1\<rparr>, k2)"
    using down_ok [OF f, of 0 "d\<lparr>semid := i\<rparr>" k1] by auto
  then show ?thesis using 1 by (intro exI [of _ i] exI [of _ k2]) (simp add: open_sem.simps)
qed

lemma shm_get_ok:
  assumes f: "first_opening S p s0" and perm: "ipc_perm d = 420"
  shows "\<exists>i k'. smd_shm_get S d k = Some (0, True, d\<lparr>shmid := i\<rparr>, k') \<and> 0 \<le> i"
proof -
  obtain k1 i k2 where "sys_shmget S (ipc_key d) (shm_size d) 420 k = (- 1, k1)" "sys_errno S k1 = ENOENT"
    "sys_shmget S (ipc_key d) (shm_size d) (IPC_CREAT OR IPC_EXCL OR 420) k1 = (i, k2)" "0 \<le> i"
    using first_openingD(8) [OF f] by blast
  then show ?thesis using perm
    by (intro exI [of _ i] exI [of _ k2]) (subst smd_shm_get.simps, simp)
qed

lemma shm_create_ok:
  assumes f: "first_opening S p s0" and perm: "ipc_perm d = 420" and z: "zero_segment (shm_size d) s0 = Some z"
  shows "\<exists>i k'. smd_shm_create_or_connect S d k = Some (1, d\<lparr>shmid := i, shmptr := p\<rparr>, k') \<and>
    sys_mem S k' p = Some (z\<lparr>magic := SHARE_MEMORY_DEVICE_MAGIC\<rparr>) \<and> 0 \<le> i"
proof -
  note D = first_openingD [OF f]
  note st = memory_lawsD(1) [OF D(1)]
  obtain i k1 where 1: "smd_shm_get S d k = Some (0, True, d\<lparr>shmid := i\<rparr>, k1)" "0 \<le> i"
    using shm_get_ok [OF f perm] by blast
  let ?k2 = "snd (sys_shmat S i k1)"
  let ?k3 = "snd (sys_mlock S p (shm_size d) ?k2)"
  let ?k4 = "snd (sys_shmstat S i ?k3)"
  let ?k5 = "sys_store S p z ?k4"
  let ?k6 = "if 0 \<le> ipc_gid d then snd (sys_shmset S i (ipc_gid d) ?k5) else ?k5"
  have b: "sys_mem S ?k4 p = Some s0" unfolding D(13) D(11) by (rule D(10))
  have "smd_shm_create_or_connect S d k = Some (1, d\<lparr>shmid := i, shmptr := p\<rparr>,
      sys_store S p (z\<lparr>magic := SHARE_MEMORY_DEVICE_MAGIC\<rparr>) ?k6)"
    using 1 D(2,3,9,12,14) b st z by (simp add: smd_shm_create_or_connect_def Let_def split_beta seg_rd_def)
  then show ?thesis using st 1(2) by (intro exI [of _ i]) auto
qed

end
