(* ===== verification/ShmProps.thy ===== *)
theory ShmProps
  imports ShmCalls
begin

text \<open>
  What the shared ring promises, and where its code fails: each property with a witness on a concrete
  segment.
\<close>

subsection \<open>Steps and reachable segments\<close>

text \<open>
  The critical sections of the processes that share a segment, in any order: a write of at most as many
  frames as there are slots from a buffer that holds them, a read into a buffer with room for them, and
  \<^verbatim>\<open>ioctl\<close>.
\<close>

inductive ring_step :: "segment \<Rightarrow> segment \<Rightarrow> bool" where
  step_write: "cnt \<le> shm_frames s \<Longrightarrow> unat cnt * unat (esize s) \<le> length buf \<Longrightarrow>
    write_frames (esize s) cnt buf s = Some (r, s') \<Longrightarrow> ring_step s s'"
| step_read: "unat cnt * unat (esize s) \<le> length buf \<Longrightarrow>
    read_frames (esize s) cnt buf s = Some (r, buf', s') \<Longrightarrow> ring_step s s'"
| step_clear: "ring_step s (ring_clear s)"

lemma clear_ok: "ring_ok s \<Longrightarrow> ring_ok (ring_clear s)"
  by (auto simp: ring_ok_def ring_clear_def fill_def)

lemma write_frames_room:
  assumes "ring_ok s" and "fill s + unat cnt \<le> unat (shm_frames s)" and "unat cnt * unat (esize s) \<le> length buf"
  shows "\<exists>s'. write_frames (esize s) cnt buf s = Some (sint cnt, s') \<and> ring_ok s'"
  using write_frames_ok [OF assms] by blast

lemma write_frames_total:
  assumes ok: "ring_ok s" and c: "cnt \<le> shm_frames s" and buf: "unat cnt * unat (esize s) \<le> length buf"
  shows "\<exists>s'. write_frames (esize s) cnt buf s = Some (sint cnt, s') \<and> ring_ok s'"
proof (cases "fill s + unat cnt \<le> unat (shm_frames s)")
  case True
  show ?thesis by (rule write_frames_room [OF ok True buf])
next
  case False
  have "fill (ring_clear s) + unat cnt \<le> unat (shm_frames (ring_clear s))" "unat cnt * unat (esize (ring_clear s)) \<le> length buf"
    using c buf by (simp_all add: ring_clear_def fill_def word_le_nat_alt)
  from write_frames_room [OF clear_ok [OF ok] this] obtain s' where
    "write_frames (esize (ring_clear s)) cnt buf (ring_clear s) = Some (sint cnt, s')" "ring_ok s'" by blast
  moreover have "write_frames (esize s) cnt buf s = write_frames (esize s) cnt buf (ring_clear s)"
    unfolding ring_clear_def
    by (rule write_frames_reset) (use c ring_okD(5) [OF ok] False in \<open>auto simp: word_le_nat_alt\<close>)
  ultimately show ?thesis by (simp add: ring_clear_def)
qed

lemma read_frames_total:
  assumes ok: "ring_ok s" and buf: "unat cnt * unat (esize s) \<le> length buf"
  shows "\<exists>r buf' s'. read_frames (esize s) cnt buf s = Some (r, buf', s') \<and> ring_ok s'"
proof (cases "unat cnt \<le> fill s")
  case True
  have "cnt \<le> shm_in s - shm_out s" using True by (simp add: fill_def word_le_nat_alt)
  then have "unat (shm_in s - shm_out s - cnt) = fill s - unat cnt" unfolding fill_def by (rule unat_sub)
  then have "fill (s\<lparr>shm_out := shm_out s + cnt\<rparr>) = fill s - unat cnt" by (simp add: fill_def algebra_simps)
  then have "ring_ok (s\<lparr>shm_out := shm_out s + cnt\<rparr>)" using ok by (auto simp: ring_ok_def)
  then show ?thesis using read_frames_ok [OF ok True buf] by blast
next
  case False
  then show ?thesis using read_frames_short [of s cnt "esize s" buf] ok by auto
qed

lemma step_ok:
  assumes "ring_step s s'" "ring_ok s"
  shows "ring_ok s'"
  using assms
proof (induction rule: ring_step.induct)
  case (step_write cnt s buf r s')
  then show ?case using write_frames_total [of s cnt buf] by auto
next
  case (step_read cnt s buf r buf' s')
  then show ?case using read_frames_total [of s cnt buf] by auto
qed (rule clear_ok)

text \<open>A ring of four slots of two bytes with its counters three before the wrap, and one of three.\<close>

definition demo_ring :: segment where
  "demo_ring = \<lparr>magic = SHARE_MEMORY_DEVICE_MAGIC, shm_in = -3, shm_out = -3, esize = 2, shm_frames = 4, sdata = replicate 8 0\<rparr>"

definition demo_ring3 :: segment where
  "demo_ring3 = \<lparr>magic = SHARE_MEMORY_DEVICE_MAGIC, shm_in = -1, shm_out = -1, esize = 1, shm_frames = 3, sdata = [10, 11, 12]\<rparr>"

lemma demo_rings: "ring_ok demo_ring" "ring_ok demo_ring3" "ring_holds 4 {f. length f = 2} 100 demo_ring []"
  "fill demo_ring3 = 0"
  by (simp_all add: demo_ring_def demo_ring3_def ring_ok_def fill_def ring_holds_def ring_queue_def seamless_def)

text \<open>
  C13. Refinement. On a sound ring of fewer than \<open>2 ^ 31\<close> slots any sequence of clears, reads of fewer than \<open>2 ^ 31\<close> frames and
  writes of at most as many frames as the ring has slots behaves on the segment as on an abstract queue of that capacity: a write
  appends, or replaces everything when it does not fit; a read hands out the oldest frames byte for byte, or \<^verbatim>\<open>-EAGAIN\<close>
  when there are too few. This holds if the number of slots divides \<open>2 ^ 32\<close>, or if all the frames written together do not
  bring the counter past \<open>2 ^ 32\<close>; otherwise \<open>wrap_misplaces_frame\<close> below.
\<close>

theorem ring_refines_queue:
  assumes "ring_holds z F b s q" and "list_all (op_ok z F) ops" and "sum_list (map op_writes ops) \<le> b"
  shows "\<exists>s'. op_run ring_put ring_get ring_clear ops s = Some (fst (list_run z ops q), s') \<and>
    ring_queue s' = snd (list_run z ops q) \<and> ring_ok s'"
  using ring.run_refines [OF assms] by (auto simp: ring_holds_def)

theorem ring_refines_queue_witness:
  "\<exists>s'. op_run ring_put ring_get ring_clear
      [Put [[1, 2], [3, 4], [5, 6]], Get 1, Put [[7, 8], [9, 10]], Get 5, Get 4, Put [[1, 1]]] demo_ring =
    Some ([(3, []), (1, [[1, 2]]), (2, []), (- EAGAIN, []), (4, [[3, 4], [5, 6], [7, 8], [9, 10]]), (1, [])], s') \<and>
    ring_queue s' = [[1, 1]] \<and> ring_ok s'"
  using ring_refines_queue [OF demo_rings(3), of "[Put [[1, 2], [3, 4], [5, 6]], Get 1, Put [[7, 8], [9, 10]], Get 5, Get 4, Put [[1, 1]]]"]
  by (simp add: Let_def)

text \<open>
  C14. Safety. Whatever the processes do with a sound segment, with the counters anywhere and wrapping,
  it stays sound, and every write of at most as many frames as there are slots and every read copies within the segment
  and within the caller's buffer.
\<close>

theorem ring_stays_safe:
  assumes "ring_step\<^sup>*\<^sup>* s0 s" and "ring_ok s0" and "unat cnt * unat (esize s) \<le> length buf"
  shows "ring_ok s \<and> read_frames (esize s) cnt buf s \<noteq> None \<and>
    (cnt \<le> shm_frames s \<longrightarrow> write_frames (esize s) cnt buf s \<noteq> None)"
proof -
  from assms(1,2) have "ring_ok s" by (induction rule: rtranclp_induct) (auto intro: step_ok)
  then show ?thesis using read_frames_total [of s cnt buf] write_frames_total [of s cnt buf] assms(3) by auto
qed

theorem ring_stays_safe_witness:
  "ring_ok (ring_clear demo_ring3) \<and> read_frames 1 1 [0] (ring_clear demo_ring3) \<noteq> None \<and>
   write_frames 1 1 [0] (ring_clear demo_ring3) \<noteq> None"
proof -
  have "ring_step\<^sup>*\<^sup>* demo_ring3 (ring_clear demo_ring3)" by (rule r_into_rtranclp) (rule step_clear)
  from ring_stays_safe [OF this demo_rings(2), of 1 "[0]"] show ?thesis
    by (simp add: ring_clear_def demo_ring3_def)
qed

text \<open>
  The wrap. When the number of slots does not divide \<open>2 ^ 32\<close>, as the ten of the unit tests do not, the
  slot of the counter jumps at the wrap: of two frames written to an empty ring just before it, the second
  is not the one the reader gets second; it gets what slot 0 holds.
\<close>

theorem wrap_misplaces_frame:
  assumes ok: "ring_ok s" and out: "shm_out s = - 1" and i: "shm_in s = - 1" and z: "2 \<le> unat (shm_frames s)"
    and nd: "\<not> unat (shm_frames s) dvd 2 ^ 32" and len: "length f1 = unat (esize s)" "length f2 = unat (esize s)"
  shows "\<exists>s'. op_run ring_put ring_get ring_clear [Put [f1, f2], Get 1, Get 1] s = Some ([(2, []), (1, [f1]),
     (1, [if (2 ^ 32 - 1) mod unat (shm_frames s) = 0 then f1 else frame (unat (esize s)) (sdata s) 0])], s')"
proof -
  note r = ring_okD [OF ok]
  let ?z = "unat (shm_frames s)" and ?e = "unat (esize s)"
  let ?off = "(2 ^ 32 - 1) mod ?z"
  have u: "unat (shm_in s) = 2 ^ 32 - 1" using i by (simp add: unsigned_minus_1_eq_mask mask_eq_exp_minus_1)
  have "Suc ?off \<noteq> ?z"
  proof
    assume "Suc ?off = ?z"
    then have "(2 ^ 32 - 1 + 1) mod ?z = 0" using mod_add_left_eq [of "2 ^ 32 - 1" ?z 1] by simp
    then show False using nd by (simp add: dvd_eq_mod_eq_0)
  qed
  then have off: "Suc ?off < ?z" using r(1) by (simp add: Suc_lessI)
  have f0: "fill s = 0" using out i by (simp add: fill_def)
  let ?d = "written ?e ?off 2 [f1, f2] (sdata s)"
  let ?s1 = "s\<lparr>shm_in := 1, sdata := ?d\<rparr>"
  have m: "min 2 (?z - ?off) = 2" using off by simp
  have "ring_put [f1, f2] s = Some ((int (length [f1, f2]), []), s\<lparr>shm_in := shm_in s + of_nat (length [f1, f2]),
    sdata := written ?e ?off (min (length [f1, f2]) (?z - ?off)) [f1, f2] (sdata s)\<rparr>)"
    using ring_put_runs [OF ok, of "[f1, f2]"] len z f0 unfolding u by simp
  moreover have "length [f1, f2] = 2" by simp
  ultimately have put: "ring_put [f1, f2] s = Some ((2, []), ?s1)" using i m by (simp only: of_nat_numeral) simp
  have l2: "\<forall>f\<in>set [f1, f2]. length f = ?e" "length [f1, f2] = 2" using len by simp_all
  have d: "frame ?e ?d k = (if ?off \<le> k \<and> k < ?off + 2 then [f1, f2] ! (k - ?off) else frame ?e (sdata s) k)" if "k < ?z" for k
    using frame_written(1) [OF l2 r(4) _ z, of ?off 2 k] m off that by simp
  have ld: "length ?d = length (sdata s)" using frame_written(2) [OF l2 r(4) _ z, of ?off 2 0] m off r(1) by simp
  have f1': "fill ?s1 = 2" using out by (simp add: fill_def)
  have ok1: "ring_ok ?s1" using r ld f1' z by (simp add: ring_ok_def)
  have "slot ?s1 0 = ?off" using u i out by (simp add: slot_def)
  then have "ring_queue ?s1 ! 0 = f1" using d [of ?off] off f1' by (simp add: ring_queue_def)
  then have t1: "take 1 (ring_queue ?s1) = [f1]" using f1' length_ring_queue [of ?s1]
      take_Suc_conv_app_nth [of 0 "ring_queue ?s1"] by simp
  let ?s2 = "?s1\<lparr>shm_out := 0\<rparr>"
  have get1: "ring_get 1 ?s1 = Some ((1, [f1]), ?s2)" using ring_get_ok [OF ok1, of 1] f1' t1 out by simp
  have f2': "fill ?s2 = 1" by (simp add: fill_def)
  have ok2: "ring_ok ?s2" using r ld f2' z by (simp add: ring_ok_def)
  have "ring_queue ?s2 = [frame ?e ?d 0]" unfolding ring_queue_def f2' by (simp add: slot_def)
  then have get2: "ring_get 1 ?s2 = Some ((1, [frame ?e ?d 0]), ?s2\<lparr>shm_out := 1\<rparr>)"
    using ring_get_ok [OF ok2, of 1] f2' by simp
  have "frame ?e ?d 0 = (if ?off = 0 then f1 else frame ?e (sdata s) 0)" using d [of 0] r(1) by auto
  then show ?thesis using put get1 get2 by simp
qed

theorem wrap_misplaces_frame_witness:
  "\<exists>s'. op_run ring_put ring_get ring_clear [Put [[1], [2]], Get 1, Get 1] demo_ring3 =
     Some ([(2, []), (1, [[1]]), (1, [[1]])], s')"
  using wrap_misplaces_frame [OF demo_rings(2), of "[1]" "[2]"] by (simp add: demo_ring3_def)

text \<open>
  Too many frames. A write of more frames than the ring has slots is not refused: it reports success, leaves
  more frames than slots, and the next read gets a frame of the second half instead of the first.
\<close>

theorem oversized_write_accepted:
  assumes ok: "ring_ok s" and fs: "\<forall>f\<in>set fs. length f = unat (esize s)"
    and n: "unat (shm_frames s) < length fs" "length fs \<le> 2 * unat (shm_frames s)" "length fs < 2 ^ 31"
    and e: "length fs * unat (esize s) < 2 ^ 32"
  shows "\<exists>s' s''. ring_put fs s = Some ((int (length fs), []), s') \<and> fill s' = length fs \<and> \<not> ring_ok s' \<and>
    ring_get 1 s' = Some ((1, [fs ! unat (shm_frames s)]), s'')"
proof -
  note r = ring_okD [OF ok]
  let ?z = "unat (shm_frames s)" and ?e = "unat (esize s)" and ?c = "of_nat (length fs) :: u32"
  note c = small_count [OF n(3)]
  let ?d = "put_frames ?e 0 (drop ?z fs) (put_frames ?e 0 (take ?z fs) (sdata s))"
  have lt: "length (take ?z fs) = ?z" "length (drop ?z fs) = length fs - ?z" using n by simp_all
  have t: "\<forall>f\<in>set (take ?z fs). length f = ?e" "\<forall>f\<in>set (drop ?z fs). length f = ?e"
    using fs set_take_subset [of ?z fs] set_drop_subset [of ?z fs] by blast+
  have zc: "shm_frames s < ?c" using n(1) c by (simp add: word_less_nat_alt)
  have "shm_in s - shm_out s \<le> shm_frames s" using r(5) by (simp add: fill_def word_le_nat_alt)
  then have "shm_frames s - (shm_in s - shm_out s) \<le> shm_frames s" by (rule word_sub_le)
  then have full: "shm_frames s - (shm_in s - shm_out s) < ?c" using zc by (rule le_less_trans)
  have l: "c_min ?c (shm_frames s) = shm_frames s" using zc by (simp add: c_min_def)
  have m: "unat (shm_frames s * esize s) = ?z * ?e" by (rule unat_times [OF _ r(3)]) simp
  have cz: "unat (?c - shm_frames s) = length fs - ?z" using zc c by (simp add: unat_sub order_less_imp_le)
  have m2: "unat ((?c - shm_frames s) * esize s) = (length fs - ?z) * ?e"
    unfolding cz [symmetric] by (rule unat_times [OF _ r(3)]) (use cz n in simp)
  have cc: "concat fs = concat (take ?z fs) @ concat (drop ?z fs)" by (metis append_take_drop_id concat_append)
  have lc: "length (concat (take ?z fs)) = ?z * ?e" "length (concat (drop ?z fs)) = (length fs - ?z) * ?e"
    using length_frames [OF t(1)] length_frames [OF t(2)] lt by simp_all
  have g: "bytes_get (concat fs) 0 (?z * ?e) = Some (concat (take ?z fs))"
    "bytes_get (concat fs) (?z * ?e) ((length fs - ?z) * ?e) = Some (concat (drop ?z fs))"
    using lc by (simp_all add: bytes_get_def cc)
  have fit: "(0 + length (take ?z fs)) * ?e \<le> length (sdata s)" using r(4) lt by simp
  have ld: "length (put_frames ?e 0 (take ?z fs) (sdata s)) = length (sdata s)" by (rule length_put_frames [OF t(1) fit])
  have "(length fs - ?z) * ?e \<le> ?z * ?e" using n(2) by (intro mult_le_mono1) simp
  then have fit2: "(0 + length (drop ?z fs)) * ?e \<le> length (put_frames ?e 0 (take ?z fs) (sdata s))"
    using r(4) unfolding lt ld add_0 by linarith
  have p: "bytes_put (sdata s) 0 (concat (take ?z fs)) = Some (put_frames ?e 0 (take ?z fs) (sdata s))"
    "bytes_put (put_frames ?e 0 (take ?z fs) (sdata s)) 0 (concat (drop ?z fs)) = Some ?d"
    using bytes_put_frames [OF t(1) fit] bytes_put_frames [OF t(2) fit2] by simp_all
  let ?s = "s\<lparr>shm_in := ?c, shm_out := 0, sdata := ?d\<rparr>"
  have put: "ring_put fs s = Some ((int (length fs), []), ?s)"
    using full l m m2 g p r(2) c by (simp add: ring_put_def write_frames_def Let_def)
  have f: "fill ?s = length fs" using c by (simp add: fill_def)
  have "\<not> ring_ok ?s" using f n by (simp add: ring_ok_def)
  have "Suc 0 * ?e \<le> ?z * ?e" by (rule mult_le_mono1) (use r(1) in simp)
  then have e1: "Suc 0 * ?e \<le> length (sdata s)" using r(4) by (rule le_trans)
  have "length ?d = length (sdata s)" using length_put_frames [OF t(2) fit2] ld by simp
  then have b: "bytes_get ?d 0 ?e = Some (frame ?e ?d 0)" using e1 by (simp add: bytes_get_def frame_def)
  have e1': "Suc 0 * ?e \<le> length (put_frames ?e 0 (take ?z fs) (sdata s))" using e1 ld by simp
  have f0: "frame ?e ?d 0 = fs ! ?z" using frame_put_frames [OF t(2) fit2 e1'] n by simp
  then have lf: "length (frame ?e ?d 0) = ?e" using fs n(1) by simp
  have "bytes_put (replicate ?e 0) 0 (frame ?e ?d 0) = Some (frame ?e ?d 0)"
    "bytes_put (frame ?e ?d 0) ?e [] = Some (frame ?e ?d 0)" "bytes_get ?d 0 0 = Some []"
    using lf by (simp_all add: bytes_put_def bytes_get_def)
  moreover have "\<not> 1 > ?c" using n c by (auto simp: word_less_nat_alt)
  moreover have "c_min 1 (shm_frames s) = 1" using r(2) by (simp add: c_min_def word_less_nat_alt unat_eq_0)
  ultimately have "read_frames (esize s) 1 (replicate ?e 0) ?s = Some (1, frame ?e ?d 0, ?s\<lparr>shm_out := 1\<rparr>)"
    using b r(2) by (simp add: read_frames_def)
  then have "ring_get 1 ?s = Some ((1, [fs ! ?z]), ?s\<lparr>shm_out := 1\<rparr>)"
    using f0 fs n(1) by (simp add: ring_get_def frames_def frame_def Let_def)
  then show ?thesis using put f \<open>\<not> ring_ok ?s\<close> by blast
qed

theorem oversized_write_accepted_witness:
  "\<exists>s' s''. ring_put [[1], [2], [3], [4]] demo_ring3 = Some ((4, []), s') \<and> fill s' = Suc (Suc (Suc (Suc 0))) \<and> \<not> ring_ok s' \<and>
    ring_get 1 s' = Some ((1, [[4]]), s'')"
  using oversized_write_accepted [OF demo_rings(2), of "[[1], [2], [3], [4]]"] by (simp add: demo_ring3_def)

subsection \<open>The calls\<close>

text \<open>
  The calls. \<^verbatim>\<open>local_ipc_data_shm_read\<close>, \<^verbatim>\<open>_write\<close> and \<^verbatim>\<open>_ioctl\<close> do to the mapped segment exactly what
  the ring does, to no other segment anything, and change of the handle only \<^verbatim>\<open>locked\<close>: whatever the
  semaphore operations return, so also when taking the lock has failed.
\<close>

theorem calls_act_on_segment:
  assumes mem: "memory_laws S" and s: "seg_rd S d k = Some s"
  shows "(\<exists>g k'. local_ipc_data_shm_write S cnt buf d k =
        map_option (\<lambda>(r, s'). (r, d\<lparr>locked := g s'\<rparr>, k' s')) (write_frames (esize s) cnt buf s) \<and>
        (\<forall>s'. sys_mem S (k' s') = (sys_mem S k)(shmptr d \<mapsto> s'))) \<and>
    (\<exists>g k'. local_ipc_data_shm_read S cnt buf d k =
        map_option (\<lambda>(r, buf', s'). (r, buf', d\<lparr>locked := g s'\<rparr>, k' s')) (read_frames (esize s) cnt buf s) \<and>
        (\<forall>s'. sys_mem S (k' s') = (sys_mem S k)(shmptr d \<mapsto> s'))) \<and>
    (\<exists>g k'. local_ipc_data_shm_ioctl S 0 d k = Some (0, d\<lparr>locked := g\<rparr>, k') \<and>
        sys_mem S k' = (sys_mem S k)(shmptr d \<mapsto> ring_clear s)) \<and>
    (cmd \<noteq> 0 \<longrightarrow> local_ipc_data_shm_ioctl S cmd d k = Some (- EINVAL, d, k))"
proof -
  obtain r g k1 where 1: "smd_semaphore_down S 0 d k = (r, d\<lparr>locked := g\<rparr>, k1)" "sys_mem S k1 = sys_mem S k"
    by (rule down_memory [OF mem])
  let ?d = "d\<lparr>locked := g\<rparr>"
  have s1: "seg_rd S ?d k1 = Some s" using s 1(2) by (simp add: seg_rd_def split: if_splits)
  have "\<exists>r' g' k'. smd_semaphore_up S 0 ?d (sys_store S (shmptr d) s' k1) = (r', d\<lparr>locked := g'\<rparr>, k') \<and>
      sys_mem S k' = (sys_mem S k)(shmptr d \<mapsto> s')" for s'
    using up_memory [OF mem, of 0 ?d "sys_store S (shmptr d) s' k1"] memory_lawsD(1) [OF mem] 1(2) by (metis (mono_tags) local_ipc_data_shm.surjective local_ipc_data_shm.update_convs(5))
  then obtain r' g' k' where 2: "smd_semaphore_up S 0 ?d (sys_store S (shmptr d) s' k1) = (r' s', d\<lparr>locked := g' s'\<rparr>, k' s')"
    "sys_mem S (k' s') = (sys_mem S k)(shmptr d \<mapsto> s')" for s' by metis
  have w: "local_ipc_data_shm_write S cnt buf d k =
      map_option (\<lambda>(r, s'). (r, d\<lparr>locked := g' s'\<rparr>, k' s')) (write_frames (esize s) cnt buf s)"
    using s s1 1(1) 2(1) by (cases "write_frames (esize s) cnt buf s") (auto simp: local_ipc_data_shm_write_def split_beta)
  have rd: "local_ipc_data_shm_read S cnt buf d k =
      map_option (\<lambda>(r, buf', s'). (r, buf', d\<lparr>locked := g' s'\<rparr>, k' s')) (read_frames (esize s) cnt buf s)"
    using s s1 1(1) 2(1) by (cases "read_frames (esize s) cnt buf s") (auto simp: local_ipc_data_shm_read_def split_beta)
  have c: "local_ipc_data_shm_ioctl S 0 d k = Some (0, d\<lparr>locked := g' (ring_clear s)\<rparr>, k' (ring_clear s))"
    using s1 1(1) 2(1) [of "ring_clear s"] by (simp add: local_ipc_data_shm_ioctl_def ring_clear_def)
  show ?thesis using w rd c 2(2) by (auto simp: local_ipc_data_shm_ioctl_def)
qed

text \<open>A kernel of one free semaphore and one segment of header and eight bytes at 4096, that does not exist yet:
  its state is the memory and the value of the semaphore.\<close>

record toy_kernel =
  tk_mem :: "addr \<Rightarrow> segment option"
  tk_ops :: int

definition toy_segment :: segment where
  "toy_segment = \<lparr>magic = 1, shm_in = 2, shm_out = 3, esize = 4, shm_frames = 5, sdata = replicate 8 6\<rparr>"

definition toy :: "toy_kernel ipc_sys" where
  "toy = \<lparr>sys_ftok = (\<lambda>f i k. (i, k)), sys_semget = (\<lambda>key n fl k. (3, k)), sys_semstat = (\<lambda>i n k. (0, k)),
     sys_semset = (\<lambda>i n g k. (0, k)), sys_semrmid = (\<lambda>i k. (0, k)),
     sys_semop = (\<lambda>i ops k. (0, k\<lparr>tk_ops := tk_ops k + sum_list (map sem_op ops)\<rparr>)),
     sys_shmget = (\<lambda>key n fl k. if fl AND IPC_CREAT = 0 then (-1, k) else (9, k)),
     sys_shmat = (\<lambda>i k. (4096, k\<lparr>tk_mem := (tk_mem k)(4096 \<mapsto> toy_segment)\<rparr>)),
     sys_shmdt = (\<lambda>p k. (0, k)), sys_mlock = (\<lambda>p n k. (0, k)), sys_shmstat = (\<lambda>i k. ((0, 1), k)),
     sys_shmset = (\<lambda>i g k. (0, k)), sys_shmrmid = (\<lambda>i k. (0, k)), sys_errno = (\<lambda>k. ENOENT),
     sys_mem = tk_mem, sys_store = (\<lambda>p s k. k\<lparr>tk_mem := (tk_mem k)(p \<mapsto> s)\<rparr>)\<rparr>"

definition toy_handle :: local_ipc_data_shm where
  "toy_handle = \<lparr>ipc_key = 0, ipc_perm = 0, ipc_gid = -1, semid = 3, locked = 0, shmid = 9, shm_size = 28, shmptr = 4096\<rparr>"

lemma toy_laws: "memory_laws toy"
  by (simp add: memory_laws_def toy_def)

theorem calls_act_on_segment_witness:
  "\<exists>g k'. local_ipc_data_shm_write toy 1 [1, 2] toy_handle \<lparr>tk_mem = [4096 \<mapsto> demo_ring], tk_ops = 0\<rparr> =
    Some (1, toy_handle\<lparr>locked := g\<rparr>, k') \<and>
    tk_mem k' = [4096 \<mapsto> demo_ring\<lparr>shm_in := -2, sdata := [0, 0, 1, 2, 0, 0, 0, 0]\<rparr>]"
proof -
  let ?k = "\<lparr>tk_mem = [4096 \<mapsto> demo_ring], tk_ops = 0\<rparr>"
  have s: "seg_rd toy toy_handle ?k = Some demo_ring" by (simp add: seg_rd_def toy_def toy_handle_def)
  have w: "write_frames (esize demo_ring) 1 [1, 2] demo_ring =
      Some (1, demo_ring\<lparr>shm_in := -2, sdata := [0, 0, 1, 2, 0, 0, 0, 0]\<rparr>)"
    by code_simp
  from calls_act_on_segment [OF toy_laws s, of 1 "[1, 2]"] obtain g k' where
    "local_ipc_data_shm_write toy 1 [1, 2] toy_handle ?k =
        map_option (\<lambda>(r, s'). (r, toy_handle\<lparr>locked := g s'\<rparr>, k' s')) (write_frames (esize demo_ring) 1 [1, 2] demo_ring)"
    "\<forall>s'. sys_mem toy (k' s') = (sys_mem toy ?k)(shmptr toy_handle \<mapsto> s')" by blast
  then show ?thesis unfolding w by (auto simp: toy_def toy_handle_def)
qed

text \<open>
  Opening. When no other process has the segment, \<^verbatim>\<open>local_ipc_data_shm_open\<close> succeeds and makes
  an empty ring of the given shape with zeroed data and the magic number, provided the sizes do not overflow; \<^verbatim>\<open>locked\<close> is left
  as it was found.
\<close>

theorem first_open_makes_ring:
  assumes f: "first_opening S p s0" and dev: "0 \<le> device_id"
    and n: "0 < unat frame_num" "unat frame_num < 2 ^ 31" and e: "20 + unat frame_num * unat frame_size < 2 ^ 32"
    and room: "unat frame_num * unat frame_size \<le> length (sdata s0)" and b: "b \<le> 2 ^ 32"
  shows "\<exists>d' k' s. local_ipc_data_shm_open S file device_id frame_size frame_num d k = Some (0, d', k') \<and>
    shmptr d' = p \<and> locked d' = locked d \<and> 0 \<le> semid d' \<and> 0 \<le> shmid d' \<and> seg_rd S d' k' = Some s \<and>
    ring_holds (unat frame_num) {f. length f = unat frame_size} b s [] \<and> esize s = frame_size \<and>
    magic s = SHARE_MEMORY_DEVICE_MAGIC \<and> (\<forall>j < unat frame_num * unat frame_size. sdata s ! j = 0)"
proof -
  note D = first_openingD [OF f]
  note st = memory_lawsD(1) [OF D(1)]
  obtain key k1 where k1: "sys_ftok S file device_id k = (key, k1)" "0 \<le> key"
    using D(4) [OF dev] by (metis prod.collapse)
  let ?d1 = "d\<lparr>ipc_key := key, ipc_perm := 420\<rparr>"
  obtain i k2 where k2: "open_sem S 10 ?d1 k1 = (True, 0, ?d1\<lparr>semid := i, locked := locked d + 1\<rparr>, k2)" "0 \<le> i"
    using open_sem_ok [OF f, of 10 ?d1 k1] by auto
  let ?d2 = "?d1\<lparr>semid := i, locked := locked d + 1, shm_size := 20 + frame_size * frame_num\<rparr>"
  have m: "unat (frame_size * frame_num) = unat frame_num * unat frame_size"
    using e by (simp add: unat_word_ariths mult.commute)
  then have sz: "unat (shm_size ?d2) = 20 + unat frame_num * unat frame_size" using e by (simp add: unat_word_ariths)
  let ?n = "unat frame_num * unat frame_size"
  let ?z = "\<lparr>magic = 0, shm_in = 0, shm_out = 0, esize = 0, shm_frames = 0, sdata = replicate ?n 0 @ drop ?n (sdata s0)\<rparr>"
  have z: "zero_segment (shm_size ?d2) s0 = Some ?z"
    unfolding zero_segment_def sz using room by (simp add: bytes_put_def)
  obtain j k3 where k3: "smd_shm_create_or_connect S ?d2 k2 = Some (1, ?d2\<lparr>shmid := j, shmptr := p\<rparr>, k3)"
    "sys_mem S k3 p = Some (?z\<lparr>magic := SHARE_MEMORY_DEVICE_MAGIC\<rparr>)" "0 \<le> j"
    using shm_create_ok [OF f _ z, of k2] by auto
  let ?d3 = "?d2\<lparr>shmid := j, shmptr := p\<rparr>"
  let ?s = "?z\<lparr>magic := SHARE_MEMORY_DEVICE_MAGIC, shm_frames := frame_num, esize := frame_size\<rparr>"
  obtain k4 where k4: "smd_semaphore_up S 0 ?d3 (sys_store S p ?s k3) = (0, ?d3\<lparr>locked := locked d\<rparr>, k4)"
    "sys_mem S k4 = (sys_mem S k3)(p \<mapsto> ?s)"
    using up_ok [OF f, of 0 ?d3 "sys_store S p ?s k3"] st by auto
  have "local_ipc_data_shm_open S file device_id frame_size frame_num d k = Some (0, ?d3\<lparr>locked := locked d\<rparr>, k4)"
    using k1 k2 k3 k4(1) D(2) by (simp add: local_ipc_data_shm_open_def seg_rd_def)
  moreover have "seg_rd S (?d3\<lparr>locked := locked d\<rparr>) k4 = Some ?s" using k4(2) D(2) by (simp add: seg_rd_def)
  moreover have "ring_holds (unat frame_num) {f. length f = unat frame_size} b ?s []"
    using n e b by (simp add: ring_holds_def ring_ok_def fill_def ring_queue_def seamless_def)
  ultimately show ?thesis using k2(2) k3(3) by (intro exI [of _ "?d3\<lparr>locked := locked d\<rparr>"] exI [of _ k4] exI [of _ ?s])
    (simp add: nth_append)
qed

theorem first_open_makes_ring_witness:
  "\<exists>d' k' s. local_ipc_data_shm_open toy ''/tmp'' 1 2 4 (toy_handle\<lparr>locked := 5\<rparr>) \<lparr>tk_mem = Map.empty, tk_ops = 0\<rparr> =
     Some (0, d', k') \<and> locked d' = 5 \<and> seg_rd toy d' k' = Some s \<and> ring_holds 4 {f. length f = 2} 100 s []"
proof -
  have "first_opening toy 4096 toy_segment"
    unfolding first_opening_def using toy_laws by (auto simp: toy_def)
  from first_open_makes_ring [OF this, of 1 4 2 100 "''/tmp''" "toy_handle\<lparr>locked := 5\<rparr>" "\<lparr>tk_mem = Map.empty, tk_ops = 0\<rparr>"]
  show ?thesis by (auto simp: toy_segment_def)
qed

text \<open>
  Closing. \<^verbatim>\<open>local_ipc_data_shm_close\<close> takes the lock and, when \<^verbatim>\<open>locked\<close> was not 0 before, ends after
  the segment is detached without a further system call: the semaphore stays taken. \<^verbatim>\<open>local_ipc_data_shm_open\<close>
  never sets \<^verbatim>\<open>locked\<close>, and the unit tests pass a handle from the stack.
\<close>

theorem close_keeps_lock:
  assumes down: "sys_semop S (semid d) [\<lparr>sem_num = 0, sem_op = 0, sem_flg = 0\<rparr>, \<lparr>sem_num = 0, sem_op = 1, sem_flg = SEM_UNDO\<rparr>] k = (0, k1)"
    and detach: "smd_shm_discard S (d\<lparr>locked := locked d + 1\<rparr>) k1 = (0, d2, k2)"
  shows "local_ipc_data_shm_close S d k =
    (if locked d = 0 then (0, snd (smd_semaphore_up S 0 d2 k2)) else (0, d2, k2))"
proof -
  have "locked d2 = locked d + 1"
    using detach by (auto simp: smd_shm_discard_def split_beta Let_def split: if_splits)
  then show ?thesis using down detach
    by (simp add: local_ipc_data_shm_close_def smd_semaphore_down_def smd_semaphore_final_def split_beta)
qed

theorem close_keeps_lock_witness:
  "local_ipc_data_shm_close toy (toy_handle\<lparr>locked := 5\<rparr>) \<lparr>tk_mem = Map.empty, tk_ops = 0\<rparr> =
     (0, toy_handle\<lparr>locked := 6, shmptr := MAP_ERR, shmid := -1\<rparr>, \<lparr>tk_mem = Map.empty, tk_ops = 1\<rparr>)"
  by (subst close_keeps_lock [where ?k1.0 = "\<lparr>tk_mem = Map.empty, tk_ops = 1\<rparr>"])
    (simp_all add: toy_def toy_handle_def smd_shm_discard_def)

end
