(* ===== verification/JitterBuffer.thy ===== *)
theory JitterBuffer
  imports Bytes
begin

text \<open>
  The jitter buffer of \<^verbatim>\<open>sharemem_sample/sharemem_mmap.c\<close>: packets of media data that one process puts
  into a mapped file by sequence number and another takes out in frames. A mapped file is the header of the source and the bytes
  behind it, where the attribute blocks and the payloads lie; an access outside of them is
  undefined. The log lines are left out, but for the one that reads the caller's buffer as a string.
\<close>

subsection \<open>Data\<close>

record attribute_buffer_block =
  a_index :: u32
  a_media_type :: u16
  a_current_sequence :: u16
  a_current_timestamp :: u64
  a_ssrc :: u32
  a_payload_size :: u32

text \<open>The 24 bytes of a block, and the block in 24 bytes.\<close>

definition attr_bytes :: "attribute_buffer_block \<Rightarrow> u8 list" where
  "attr_bytes a = le_bytes 4 (unat (a_index a)) @ le_bytes 2 (unat (a_media_type a)) @
     le_bytes 2 (unat (a_current_sequence a)) @ le_bytes 8 (unat (a_current_timestamp a)) @
     le_bytes 4 (unat (a_ssrc a)) @ le_bytes 4 (unat (a_payload_size a))"

definition attr_of :: "u8 list \<Rightarrow> attribute_buffer_block" where
  "attr_of bs = \<lparr>a_index = of_nat (le_nat (take 4 bs)), a_media_type = of_nat (le_nat (take 2 (drop 4 bs))),
     a_current_sequence = of_nat (le_nat (take 2 (drop 6 bs))), a_current_timestamp = of_nat (le_nat (take 8 (drop 8 bs))),
     a_ssrc = of_nat (le_nat (take 4 (drop 16 bs))), a_payload_size = of_nat (le_nat (take 4 (drop 20 bs)))\<rparr>"

record jiter_buffer_head =
  max_data_size :: u64
  attribute_buffer_size :: u32
  per_payload_buffer_size :: u32
  jiter_status :: u16
  jiter_cached_paload_count :: u16
  jiter_get_offset :: u16
  jiter_capacity :: u16
  net_lost_package_count :: u16
  late_arrival_discard_package_count :: u16
  discard_exists_package_count :: u16
  jiter_enter_prefetching_state_count :: u16
  media_type :: u16
  last_got_senq :: u16
  last_got_timestamp :: u64
  last_put_position :: u16
  last_put_senq :: u16
  last_put_timestamp :: u64

record jiter_map = jiter_buffer_head +
  area :: "u8 list"

abbreviation (input) MAX_BLOCK_COUNT :: u32 where "MAX_BLOCK_COUNT \<equiv> 256"
abbreviation (input) MAX_DATA_BLOCK_SIZE :: u32 where "MAX_DATA_BLOCK_SIZE \<equiv> 76"
abbreviation (input) MIN_PAYLOAD_COUNT :: u16 where "MIN_PAYLOAD_COUNT \<equiv> 6"
abbreviation (input) MEDIA_TYPE_OPUS :: u16 where "MEDIA_TYPE_OPUS \<equiv> 1"
abbreviation (input) JITER_STATUS_PREFETCHING :: u16 where "JITER_STATUS_PREFETCHING \<equiv> 1"
abbreviation (input) JITER_STATUS_PROCESSINIG :: u16 where "JITER_STATUS_PROCESSINIG \<equiv> 2"

subsection \<open>Initialisation\<close>

definition get_packet_time :: "u16 \<Rightarrow> u32" where
  "get_packet_time media = (if media = MEDIA_TYPE_OPUS then 10 else 0)"

text \<open>The capacity, the two buffer sizes and the total size; a packet time of 0 divides by zero.\<close>

definition buffer_sizes :: "u16 \<Rightarrow> (u32 \<times> u32 \<times> u32 \<times> u32) option" where
  "buffer_sizes media =
     (let packet_time = get_packet_time media in
      if packet_time = 0 then None
      else
        let capacity = MAX_BLOCK_COUNT * 10 div packet_time;
            attribute_size = 24 * capacity;
            per_payload = 76 * (packet_time div 10)
        in Some (capacity, attribute_size, per_payload, 64 + attribute_size + per_payload * capacity))"

definition fresh_map :: "u16 \<Rightarrow> jiter_map \<Rightarrow> jiter_map option" where
  "fresh_map media m = do {
     (capacity, attribute_size, per_payload, max_size) \<leftarrow> buffer_sizes media;
     bs \<leftarrow> bytes_put (area m) 0 (replicate (unat max_size - 64) 0);
     Some \<lparr>max_data_size = ucast max_size, attribute_buffer_size = attribute_size,
       per_payload_buffer_size = per_payload, jiter_status = JITER_STATUS_PREFETCHING,
       jiter_cached_paload_count = 0, jiter_get_offset = 0, jiter_capacity = ucast capacity,
       net_lost_package_count = 0, late_arrival_discard_package_count = 0, discard_exists_package_count = 0,
       jiter_enter_prefetching_state_count = 0, media_type = media, last_got_senq = 0, last_got_timestamp = 0,
       last_put_position = 0, last_put_senq = 0, last_put_timestamp = 0, area = bs\<rparr>
   }"

definition resetJiter :: "jiter_map option \<Rightarrow> u16 \<Rightarrow> (int \<times> jiter_map option) option" where
  "resetJiter p media =
     (case p of None \<Rightarrow> Some (-1, None)
      | Some m \<Rightarrow> do { m \<leftarrow> fresh_map media m; Some (0, Some m) })"

text \<open>
  The system calls of \<^verbatim>\<open>init_mmap\<close> on a state \<open>'k\<close>. \<^verbatim>\<open>write\<close> gets the length alone: it is asked for whole pages
  from a literal of two bytes, and what it writes of them is its own.
\<close>

record 'k mmap_sys =
  m_pagesize :: "'k \<Rightarrow> int"
  m_open :: "string \<Rightarrow> bool \<Rightarrow> 'k \<Rightarrow> int \<times> 'k"
  m_fstat :: "int \<Rightarrow> 'k \<Rightarrow> int \<times> 'k"
  m_lseek :: "int \<Rightarrow> int \<Rightarrow> 'k \<Rightarrow> 'k"
  m_write :: "int \<Rightarrow> int \<Rightarrow> 'k \<Rightarrow> 'k"
  m_mmap :: "u32 \<Rightarrow> int \<Rightarrow> 'k \<Rightarrow> addr \<times> 'k"
  m_munmap :: "addr \<Rightarrow> u64 \<Rightarrow> 'k \<Rightarrow> 'k"
  m_close :: "int \<Rightarrow> 'k \<Rightarrow> 'k"
  m_at :: "'k \<Rightarrow> addr \<Rightarrow> jiter_map option"
  m_store :: "addr \<Rightarrow> jiter_map \<Rightarrow> 'k \<Rightarrow> 'k"

abbreviation (input) MAP_FAILED :: addr where "MAP_FAILED \<equiv> - 1"

definition init_mmap :: "'k mmap_sys \<Rightarrow> bool \<Rightarrow> u16 \<Rightarrow> string \<Rightarrow> 'k \<Rightarrow> (int \<times> addr \<times> 'k) option" where
  "init_mmap S is_write media name_file k = do {
     (capacity, attribute_size, per_payload, max_size) \<leftarrow> buffer_sizes media;
     let pagesize = m_pagesize S k in
     if pagesize = 0 then None
     else
       let pages = uint (max_size div word_of_int pagesize);
           pages = (if max_size mod word_of_int pagesize > 0 then pages + 1 else pages);
           (fd, k) = m_open S name_file is_write k;
           (st_size, k) = m_fstat S fd k;
           k = (if st_size = 0 then m_write S fd (pagesize * pages) (m_lseek S fd (pagesize * pages - 1) k) else k);
           (p, k) = m_mmap S max_size fd k
       in if p = MAP_FAILED \<or> p = NULL then Some (-1, p, m_close S fd k)
          else if st_size = 0 then do {
            let (_, k) = m_fstat S fd k in do {
              m \<leftarrow> m_at S k p;
              m \<leftarrow> fresh_map media m;
              Some (0, p, m_close S fd (m_store S p m k))
            }
          }
          else Some (0, p, m_close S fd k)
   }"

definition destory_mmap :: "'k mmap_sys \<Rightarrow> addr \<Rightarrow> 'k \<Rightarrow> (int \<times> 'k) option" where
  "destory_mmap S p k =
     (if p = NULL then Some (-1, k)
      else do { m \<leftarrow> m_at S k p; Some (0, m_munmap S p (max_data_size m) k) })"

subsection \<open>Writing\<close>

text \<open>The distance between two sequence numbers, by the cases of the source; an \<^verbatim>\<open>int\<close> cut to 16 bits.\<close>

definition delta_senq :: "u16 \<Rightarrow> u64 \<Rightarrow> u16 \<Rightarrow> u64 \<Rightarrow> u16" where
  "delta_senq sequence stamp prev_seq last_stamp =
     (if sequence \<ge> prev_seq then
        if stamp \<ge> last_stamp then word_of_int (uint sequence - uint prev_seq)
        else if stamp < last_stamp then word_of_int (uint sequence - 65536 - uint prev_seq)
        else 0
      else if sequence < prev_seq then
        if stamp \<ge> last_stamp then word_of_int (uint sequence + 65536 - uint prev_seq)
        else if stamp < last_stamp then word_of_int (uint sequence - uint prev_seq)
        else 0
      else 0)"

definition cur_position :: "jiter_map \<Rightarrow> u16 \<Rightarrow> u32" where
  "cur_position m delta =
     (let capacity = ucast (jiter_capacity m);
          pos = ucast (last_put_position m) + ucast delta + capacity
      in if pos \<ge> capacity then pos - capacity else pos)"

definition put_packet :: "jiter_map \<Rightarrow> u8 list \<Rightarrow> attribute_buffer_block \<Rightarrow> u32 \<Rightarrow> jiter_map option" where
  "put_packet m buffer a pos =
     (if jiter_capacity m = 0 then None
      else
        let a = a\<lparr>a_index := ucast (a_current_sequence a mod jiter_capacity m)\<rparr> in do {
          bs \<leftarrow> bytes_put (area m) (24 * unat pos) (attr_bytes a);
          xs \<leftarrow> bytes_get buffer 0 (unat (a_payload_size a));
          bs \<leftarrow> bytes_put bs (unat (attribute_buffer_size m) + unat (per_payload_buffer_size m * pos)) xs;
          let count = jiter_cached_paload_count m + 1 in
          Some (m\<lparr>area := bs, media_type := a_media_type a, last_put_position := ucast pos,
            last_put_senq := a_current_sequence a, last_put_timestamp := a_current_timestamp a,
            jiter_cached_paload_count := count,
            jiter_status := if count \<ge> MIN_PAYLOAD_COUNT then JITER_STATUS_PROCESSINIG else jiter_status m\<rparr>)
        })"

definition write_mmap :: "jiter_map option \<Rightarrow> u8 list \<Rightarrow> attribute_buffer_block \<Rightarrow> (int \<times> jiter_map option) option" where
  "write_mmap p buffer a =
     (case p of None \<Rightarrow> Some (-1, None)
      | Some m \<Rightarrow> do {
          p \<leftarrow> (if a_media_type a \<noteq> media_type m then map_option snd (resetJiter (Some m) (a_media_type a)) else Some (Some m));
          m \<leftarrow> p;
          let delta = delta_senq (a_current_sequence a) (a_current_timestamp a) (last_got_senq m) (last_got_timestamp m) in
          if jiter_cached_paload_count m \<noteq> 0 \<and> delta < 1 then
            Some (-1, Some (m\<lparr>late_arrival_discard_package_count := late_arrival_discard_package_count m + 1\<rparr>))
          else
            let delta = delta_senq (a_current_sequence a) (a_current_timestamp a) (last_put_senq m) (last_put_timestamp m);
                pos = cur_position m delta in do {
              there \<leftarrow> (if jiter_cached_paload_count m \<noteq> 0 then do {
                         bs \<leftarrow> bytes_get (area m) (24 * unat pos + 6) 2;
                         Some (a_current_sequence a = of_nat (le_nat bs))
                       } else Some False);
              if there then
                Some (-1, Some (m\<lparr>discard_exists_package_count := discard_exists_package_count m + 1\<rparr>))
              else do { m \<leftarrow> put_packet m buffer a pos; Some (0, Some m) }
            }
        })"

subsection \<open>Reading\<close>

text \<open>The two copies of \<^verbatim>\<open>read_mmap\<close> into the caller's buffer, \<open>start\<close> being the offset of \<^verbatim>\<open>copybuffer\<close>.\<close>

definition copy_out :: "jiter_map \<Rightarrow> nat \<Rightarrow> u32 \<Rightarrow> u32 \<Rightarrow> u8 list \<Rightarrow> u8 list option" where
  "copy_out m start remain count buf =
     (if remain \<ge> count then do {
        xs \<leftarrow> bytes_get (area m) start (unat (count * MAX_DATA_BLOCK_SIZE));
        bytes_put buf 0 xs
      }
      else
        let remain_size = unat (remain * MAX_DATA_BLOCK_SIZE) in do {
          xs \<leftarrow> bytes_get (area m) start remain_size;
          buf \<leftarrow> bytes_put buf 0 xs;
          ys \<leftarrow> bytes_get (area m) (unat (attribute_buffer_size m)) (unat ((count - remain) * MAX_DATA_BLOCK_SIZE));
          bytes_put buf remain_size ys
        })"

text \<open>
  Where the function ends without \<^verbatim>\<open>return\<close>, the result is \<open>None\<close>. The log line behind the copies prints the caller's buffer with \<^verbatim>\<open>%s\<close>: with no
  zero in it the line reads on behind the buffer.
\<close>

definition read_mmap :: "jiter_map option \<Rightarrow> u32 \<Rightarrow> u8 list \<Rightarrow> (int option \<times> u8 list \<times> jiter_map option) option" where
  "read_mmap p count buf =
     (case p of None \<Rightarrow> Some (Some (-1), buf, None)
      | Some m \<Rightarrow>
          if count < 1 \<and> count > ucast (jiter_capacity m) then Some (Some (-1), buf, Some m)
          else if ucast (jiter_cached_paload_count m) \<le> count then Some (Some (-1), buf, Some m)
          else if jiter_status m \<noteq> JITER_STATUS_PROCESSINIG then Some (None, buf, Some m)
          else if jiter_capacity m = 0 then None
          else
            let off = jiter_get_offset m mod jiter_capacity m in do {
              bs \<leftarrow> bytes_get (area m) (24 * unat off) 24;
              let a = attr_of bs in do {
                buf \<leftarrow> copy_out m (unat (attribute_buffer_size m) + unat (MAX_DATA_BLOCK_SIZE * a_index a))
                          (ucast (jiter_capacity m) - ucast off) count buf;
                _ \<leftarrow> c_string buf;
                let cached = jiter_cached_paload_count m - ucast count;
                    m = m\<lparr>last_got_senq := a_current_sequence a, last_got_timestamp := a_current_timestamp a,
                      jiter_cached_paload_count := cached, jiter_get_offset := off + ucast count\<rparr> in
                Some (None, buf,
                  Some (if cached < MIN_PAYLOAD_COUNT then
                      m\<lparr>jiter_status := JITER_STATUS_PREFETCHING,
                        jiter_enter_prefetching_state_count := jiter_enter_prefetching_state_count m + 1\<rparr>
                    else m))
              }
            })"

end
