(* ===== verification/JitterSpec.thy ===== *)
theory JitterSpec
  imports JitterBuffer
begin

text \<open>
  The jitter buffer as a sequence of packets: where a packet lands, what a read hands out, and the
  well-formedness every accepted call keeps.
\<close>

subsection \<open>Blocks\<close>

lemma length_attr_bytes [simp]: "length (attr_bytes a) = 24"
  by (simp add: attr_bytes_def)

lemma attr_of_bytes: "attr_of (attr_bytes a) = a"
  by (simp add: attr_of_def attr_bytes_def)

definition slot_attr :: "jiter_map \<Rightarrow> nat \<Rightarrow> attribute_buffer_block" where
  "slot_attr m i = attr_of (frame 24 (area m) i)"

definition slot_data :: "jiter_map \<Rightarrow> nat \<Rightarrow> u8 list" where
  "slot_data m i = frame 76 (drop 6144 (area m)) i"

text \<open>A buffer for Opus packets: 256 slots, and the last packet where its number says.\<close>

definition jit_ok :: "jiter_map \<Rightarrow> bool" where
  "jit_ok m \<longleftrightarrow> jiter_capacity m = 256 \<and> attribute_buffer_size m = 6144 \<and> per_payload_buffer_size m = 76 \<and>
     25600 \<le> length (area m) \<and> media_type m = MEDIA_TYPE_OPUS \<and> last_put_position m = last_put_senq m"

lemma jit_okD:
  assumes "jit_ok m"
  shows "jiter_capacity m = 256" "attribute_buffer_size m = 6144" "per_payload_buffer_size m = 76"
    "25600 \<le> length (area m)" "media_type m = MEDIA_TYPE_OPUS" "last_put_position m = last_put_senq m"
  using assms by (simp_all add: jit_ok_def)

text \<open>The time stamps do not matter to the distance.\<close>

lemma delta_senq_diff: "delta_senq s t l lt = s - l"
proof -
  have "(word_of_int (uint s - 65536 - uint l) :: u16) = word_of_int (uint s) - word_of_int 65536 - word_of_int (uint l)"
    "(word_of_int (uint s + 65536 - uint l) :: u16) = word_of_int (uint s) + word_of_int 65536 - word_of_int (uint l)"
    "(word_of_int (uint s - uint l) :: u16) = word_of_int (uint s) - word_of_int (uint l)"
    by (simp_all only: of_int_diff of_int_add)
  moreover have "(word_of_int 65536 :: u16) = 0" by simp
  ultimately show ?thesis by (auto simp: delta_senq_def not_le)
qed

lemma unat_ucast_16_32 [simp]: "unat (ucast (w :: u16) :: u32) = unat w"
  using unsigned_less [of w, where ?'a = nat] by (simp add: unsigned_ucast_eq take_bit_nat_eq_self)

lemma cur_position_number:
  assumes "jit_ok m"
  shows "unat (cur_position m (s - last_put_senq m)) =
    (if last_put_senq m \<le> s then unat s else unat s + 65536)"
proof -
  note d = jit_okD [OF assms]
  let ?l = "last_put_senq m"
  have b: "unat ?l < 65536" "unat s < 65536" "unat (s - ?l) < 65536"
    using unsigned_less [of ?l, where ?'a = nat] unsigned_less [of s, where ?'a = nat] unsigned_less [of "s - ?l", where ?'a = nat] by simp_all
  let ?p = "(ucast ?l + ucast (s - ?l) :: u32)"
  have u: "unat ?p = unat ?l + unat (s - ?l)" "unat (?p + 256) = unat ?l + unat (s - ?l) + 256"
    using b by (simp_all add: unat_word_ariths)
  have "256 \<le> ?p + 256" using u by (simp add: word_le_nat_alt)
  then have "cur_position m (s - ?l) = ?p" using d by (simp add: cur_position_def)
  moreover have "unat (s - ?l) = (if ?l \<le> s then unat s - unat ?l else unat s + 65536 - unat ?l)"
    using unat_sub_if' [of s ?l] by (simp add: word_le_nat_alt)
  moreover have "?l \<le> s \<Longrightarrow> unat ?l \<le> unat s" by (simp add: word_le_nat_alt)
  ultimately show ?thesis using u(1) b by auto
qed

subsection \<open>One packet\<close>

lemma slot_bytes:
  assumes "25600 \<le> length (area m)" "i < 256"
  shows "bytes_get (area m) (24 * i) 24 = Some (frame 24 (area m) i)"
    "bytes_get (area m) (6144 + 76 * i) 76 = Some (slot_data m i)"
  using assms by (simp_all add: bytes_get_def frame_def slot_data_def mult.commute add.commute)

lemma bytes_put_ex: "off + length ys \<le> length xs \<Longrightarrow> \<exists>zs. bytes_put xs off ys = Some zs"
  by (simp add: bytes_put_def)

lemma bytes_get_prefix: "bytes_get xs off n = Some ys \<Longrightarrow> k \<le> n \<Longrightarrow> bytes_get xs off k = Some (take k ys)"
  by (auto simp: bytes_get_def min_def split: if_splits)

lemma put_packet_slot:
  assumes ok: "jit_ok m" and pos: "unat pos < 256" and n: "unat (a_payload_size a) \<le> 76" "unat (a_payload_size a) \<le> length buffer"
  shows "\<exists>bs. put_packet m buffer a pos = Some (m\<lparr>area := bs, media_type := a_media_type a, last_put_position := ucast pos,
      last_put_senq := a_current_sequence a, last_put_timestamp := a_current_timestamp a,
      jiter_cached_paload_count := jiter_cached_paload_count m + 1,
      jiter_status := if jiter_cached_paload_count m + 1 \<ge> MIN_PAYLOAD_COUNT then JITER_STATUS_PROCESSINIG else jiter_status m\<rparr>) \<and>
    length bs = length (area m) \<and>
    (\<forall>i<256. slot_attr (m\<lparr>area := bs\<rparr>) i =
      (if i = unat pos then a\<lparr>a_index := ucast (a_current_sequence a mod 256)\<rparr> else slot_attr m i)) \<and>
    (\<forall>i<256. i \<noteq> unat pos \<longrightarrow> slot_data (m\<lparr>area := bs\<rparr>) i = slot_data m i) \<and>
    take (unat (a_payload_size a)) (slot_data (m\<lparr>area := bs\<rparr>) (unat pos)) = take (unat (a_payload_size a)) buffer"
proof -
  note d = jit_okD [OF ok]
  let ?n = "unat (a_payload_size a)" and ?p = "unat pos"
  let ?a = "a\<lparr>a_index := ucast (a_current_sequence a mod 256)\<rparr>"
  have a: "24 * ?p + length (attr_bytes ?a) \<le> length (area m)" using pos d(4) by simp
  obtain b1 where b1: "bytes_put (area m) (24 * ?p) (attr_bytes ?a) = Some b1" using bytes_put_ex [OF a] by blast
  have l1: "length b1 = length (area m)" by (rule length_bytes_put [OF b1])
  let ?x = "take ?n buffer"
  have x: "bytes_get buffer 0 ?n = Some ?x" "length ?x = ?n" using n(2) by (simp_all add: bytes_get_def)
  have off: "unat (attribute_buffer_size m) + unat (per_payload_buffer_size m * pos) = 6144 + 76 * ?p"
    using d pos by (simp add: unat_word_ariths)
  have x1: "6144 + 76 * ?p + length ?x \<le> length b1" using pos d(4) n(1) l1 x(2) by linarith
  obtain b2 where b2: "bytes_put b1 (6144 + 76 * ?p) ?x = Some b2" using bytes_put_ex [OF x1] by blast
  have l2: "length b2 = length (area m)" using length_bytes_put [OF b2] l1 by simp
  let ?m = "m\<lparr>area := b2\<rparr>" and ?m1 = "m\<lparr>area := b1\<rparr>"
  have L: "25600 \<le> length (area ?m)" "25600 \<le> length (area ?m1)" using l1 l2 d(4) by simp_all
  have at: "frame 24 (area ?m) i = (if i = ?p then attr_bytes ?a else frame 24 (area m) i)" if i: "i < 256" for i
  proof -
    have "bytes_get b2 (24 * i) 24 = bytes_get b1 (24 * i) 24"
      by (rule bytes_get_put_other [OF b2]) (use i in simp)
    also have "\<dots> = Some (if i = ?p then attr_bytes ?a else frame 24 (area m) i)"
    proof (cases "i = ?p")
      case True
      then show ?thesis using bytes_get_put_same [OF b1] by simp
    next
      case False
      have "bytes_get b1 (24 * i) 24 = bytes_get (area m) (24 * i) 24"
        by (rule bytes_get_put_other [OF b1]) (use False in \<open>cases "i < ?p"; simp\<close>)
      then show ?thesis using slot_bytes(1) [OF d(4) i] False by simp
    qed
    finally show ?thesis using slot_bytes(1) [OF L(1) i] by simp
  qed
  have da: "slot_data ?m i = slot_data m i" if i: "i < 256" "i \<noteq> ?p" for i
  proof -
    have "bytes_get b2 (6144 + 76 * i) 76 = bytes_get b1 (6144 + 76 * i) 76"
      by (rule bytes_get_put_other [OF b2]) (use i x(2) n(1) in linarith)
    also have "\<dots> = bytes_get (area m) (6144 + 76 * i) 76"
      by (rule bytes_get_put_other [OF b1]) (use pos in simp)
    finally show ?thesis using slot_bytes(2) [OF L(1) i(1)] slot_bytes(2) [OF d(4) i(1)] by simp
  qed
  have "bytes_get b2 (6144 + 76 * ?p) ?n = Some ?x" using bytes_get_put_same [OF b2] x(2) by simp
  then have "take ?n (slot_data ?m ?p) = ?x" using bytes_get_prefix [OF slot_bytes(2) [OF L(1) pos] n(1)] by simp
  then have "(\<forall>i<256. slot_attr ?m i = (if i = ?p then ?a else slot_attr m i)) \<and>
      (\<forall>i<256. i \<noteq> ?p \<longrightarrow> slot_data ?m i = slot_data m i) \<and> take ?n (slot_data ?m ?p) = ?x"
    using at da by (simp add: slot_attr_def attr_of_bytes)
  moreover have "put_packet m buffer a pos = Some (m\<lparr>area := b2, media_type := a_media_type a, last_put_position := ucast pos,
      last_put_senq := a_current_sequence a, last_put_timestamp := a_current_timestamp a,
      jiter_cached_paload_count := jiter_cached_paload_count m + 1,
      jiter_status := if jiter_cached_paload_count m + 1 \<ge> MIN_PAYLOAD_COUNT then JITER_STATUS_PROCESSINIG else jiter_status m\<rparr>)"
    unfolding put_packet_def off using b1 b2 x d(1) by simp
  ultimately show ?thesis using l2 by blast
qed

lemma slot_sequence:
  assumes "25600 \<le> length (area m)" "i < 256"
  shows "\<exists>bs. bytes_get (area m) (24 * i + 6) 2 = Some bs \<and> of_nat (le_nat bs) = a_current_sequence (slot_attr m i)"
proof -
  have "frame 24 (area m) i = take 24 (drop (24 * i) (area m))" by (simp add: frame_def mult.commute)
  then have "take 2 (drop (24 * i + 6) (area m)) = take 2 (drop 6 (frame 24 (area m) i))"
    by (simp add: take_drop add.commute)
  moreover have "bytes_get (area m) (24 * i + 6) 2 = Some (take 2 (drop (24 * i + 6) (area m)))"
    using assms by (simp add: bytes_get_def)
  ultimately show ?thesis by (simp add: slot_attr_def attr_of_def)
qed

lemma slot_attr_cong: "area m = area m' \<Longrightarrow> slot_attr m = slot_attr m'" "area m = area m' \<Longrightarrow> slot_data m = slot_data m'"
  by (simp_all add: slot_attr_def slot_data_def fun_eq_iff)

text \<open>What an accepted packet changes.\<close>

definition accepted :: "jiter_map \<Rightarrow> u8 list \<Rightarrow> attribute_buffer_block \<Rightarrow> jiter_map \<Rightarrow> bool" where
  "accepted m buffer a m' \<longleftrightarrow> (let i = unat (a_current_sequence a); n = unat (a_payload_size a) in
     jit_ok m' \<and> (\<forall>j<256. slot_attr m' j = (if j = i then a\<lparr>a_index := ucast (a_current_sequence a mod 256)\<rparr> else slot_attr m j)) \<and>
     (\<forall>j<256. j \<noteq> i \<longrightarrow> slot_data m' j = slot_data m j) \<and> take n (slot_data m' i) = take n buffer \<and>
     last_put_senq m' = a_current_sequence a \<and> last_got_senq m' = last_got_senq m \<and>
     jiter_get_offset m' = jiter_get_offset m \<and> jiter_cached_paload_count m' = jiter_cached_paload_count m + 1 \<and>
     jiter_status m' = (if jiter_cached_paload_count m + 1 \<ge> MIN_PAYLOAD_COUNT then JITER_STATUS_PROCESSINIG else jiter_status m))"

lemma write_accepts:
  assumes ok: "jit_ok m" and media: "a_media_type a = MEDIA_TYPE_OPUS"
    and s: "last_put_senq m \<le> a_current_sequence a" "unat (a_current_sequence a) < 256"
    and n: "unat (a_payload_size a) \<le> 76" "unat (a_payload_size a) \<le> length buffer"
    and late: "jiter_cached_paload_count m \<noteq> 0 \<longrightarrow> a_current_sequence a \<noteq> last_got_senq m"
    and dup: "jiter_cached_paload_count m \<noteq> 0 \<longrightarrow>
        a_current_sequence (slot_attr m (unat (a_current_sequence a))) \<noteq> a_current_sequence a"
  shows "\<exists>m'. write_mmap (Some m) buffer a = Some (0, Some m') \<and> accepted m buffer a m'"
proof -
  note d = jit_okD [OF ok]
  let ?s = "a_current_sequence a"
  let ?p = "cur_position m (?s - last_put_senq m)"
  have p: "unat ?p = unat ?s" using cur_position_number [OF ok, of ?s] s(1) by simp
  obtain bs where bs: "bytes_get (area m) (24 * unat ?s + 6) 2 = Some bs"
    "of_nat (le_nat bs) = a_current_sequence (slot_attr m (unat ?s))"
    using slot_sequence [OF d(4) s(2)] by blast
  have p256: "unat ?p < 256" using p s(2) by simp
  obtain b2 where b2: "put_packet m buffer a ?p = Some (m\<lparr>area := b2, media_type := a_media_type a, last_put_position := ucast ?p,
      last_put_senq := ?s, last_put_timestamp := a_current_timestamp a,
      jiter_cached_paload_count := jiter_cached_paload_count m + 1,
      jiter_status := if jiter_cached_paload_count m + 1 \<ge> MIN_PAYLOAD_COUNT then JITER_STATUS_PROCESSINIG else jiter_status m\<rparr>)"
    "length b2 = length (area m)"
    "\<forall>i<256. slot_attr (m\<lparr>area := b2\<rparr>) i = (if i = unat ?p then a\<lparr>a_index := ucast (?s mod 256)\<rparr> else slot_attr m i)"
    "\<forall>i<256. i \<noteq> unat ?p \<longrightarrow> slot_data (m\<lparr>area := b2\<rparr>) i = slot_data m i"
    "take (unat (a_payload_size a)) (slot_data (m\<lparr>area := b2\<rparr>) (unat ?p)) = take (unat (a_payload_size a)) buffer"
    using put_packet_slot [OF ok p256 n] by blast
  let ?m = "m\<lparr>area := b2, media_type := a_media_type a, last_put_position := ucast ?p,
      last_put_senq := ?s, last_put_timestamp := a_current_timestamp a,
      jiter_cached_paload_count := jiter_cached_paload_count m + 1,
      jiter_status := if jiter_cached_paload_count m + 1 \<ge> MIN_PAYLOAD_COUNT then JITER_STATUS_PROCESSINIG else jiter_status m\<rparr>"
  have "ucast ?p = ?s" using p unsigned_less [of ?s, where ?'a = nat]
    by (simp add: word_unat_eq_iff unsigned_ucast_eq take_bit_nat_eq_self)
  then have "jit_ok ?m" using d b2(2) media by (simp add: jit_ok_def)
  moreover have "slot_attr ?m = slot_attr (m\<lparr>area := b2\<rparr>)" "slot_data ?m = slot_data (m\<lparr>area := b2\<rparr>)"
    by (simp_all add: slot_attr_def slot_data_def fun_eq_iff)
  moreover have dup': "jiter_cached_paload_count m \<noteq> 0 \<longrightarrow> ?s \<noteq> of_nat (le_nat bs)" using dup bs(2) by auto
  ultimately have "accepted m buffer a ?m" using b2(3-5) p by (simp add: accepted_def)
  moreover have "write_mmap (Some m) buffer a = Some (0, Some ?m)"
    using d(5) media late dup' bs(1) p b2(1) by (simp add: write_mmap_def delta_senq_diff word_less_1 Let_def)
  ultimately show ?thesis by blast
qed

subsection \<open>A stream of packets\<close>

text \<open>\<open>stored m ps g\<close>: the buffer has got the packets \<open>ps\<close>, numbered from 0, and handed out the first \<open>g\<close>.\<close>

definition stored :: "jiter_map \<Rightarrow> u8 list list \<Rightarrow> nat \<Rightarrow> bool" where
  "stored m ps g \<longleftrightarrow> jit_ok m \<and> length ps \<le> 256 \<and> g \<le> length ps \<and>
     (\<forall>i<length ps. a_index (slot_attr m i) = of_nat i \<and> a_current_sequence (slot_attr m i) = of_nat i \<and> slot_data m i = ps ! i) \<and>
     (\<forall>i. length ps \<le> i \<and> i < 256 \<longrightarrow> a_current_sequence (slot_attr m i) = 0) \<and>
     unat (jiter_cached_paload_count m) = length ps - g \<and> unat (jiter_get_offset m) = g \<and>
     unat (last_put_senq m) = length ps - 1 \<and> unat (last_got_senq m) \<le> length ps - 1 \<and>
     jiter_status m = (if 6 \<le> length ps - g then JITER_STATUS_PROCESSINIG else JITER_STATUS_PREFETCHING)"

lemma storedD:
  assumes "stored m ps g"
  shows "jit_ok m" "length ps \<le> 256" "g \<le> length ps"
    "i < length ps \<Longrightarrow> a_index (slot_attr m i) = of_nat i" "i < length ps \<Longrightarrow> a_current_sequence (slot_attr m i) = of_nat i"
    "i < length ps \<Longrightarrow> slot_data m i = ps ! i" "length ps \<le> i \<Longrightarrow> i < 256 \<Longrightarrow> a_current_sequence (slot_attr m i) = 0"
    "unat (jiter_cached_paload_count m) = length ps - g" "unat (jiter_get_offset m) = g"
    "unat (last_put_senq m) = length ps - 1" "unat (last_got_senq m) \<le> length ps - 1"
    "jiter_status m = (if 6 \<le> length ps - g then JITER_STATUS_PROCESSINIG else JITER_STATUS_PREFETCHING)"
  using assms by (simp_all add: stored_def)

definition packet :: "nat \<Rightarrow> u64 \<Rightarrow> attribute_buffer_block" where
  "packet n stamp = \<lparr>a_index = 0, a_media_type = MEDIA_TYPE_OPUS, a_current_sequence = of_nat n,
     a_current_timestamp = stamp, a_ssrc = 0, a_payload_size = 76\<rparr>"

lemma small_number: "n < 65536 \<Longrightarrow> unat (of_nat n :: u16) = n"
  by (simp add: unat_of_nat take_bit_nat_eq_self)

lemma write_stored:
  assumes st: "stored m ps g" and room: "length ps < 256" and p: "length p = 76"
  shows "\<exists>m'. write_mmap (Some m) p (packet (length ps) stamp) = Some (0, Some m') \<and> stored m' (ps @ [p]) g"
proof -
  note D = storedD [OF st]
  let ?n = "length ps" and ?a = "packet (length ps) stamp"
  have n: "unat (a_current_sequence ?a) = ?n" "a_media_type ?a = MEDIA_TYPE_OPUS" "unat (a_payload_size ?a) = 76"
    using room small_number by (simp_all add: packet_def)
  have ne: "w \<noteq> a_current_sequence ?a" if "unat w \<noteq> ?n" for w using that n(1) by auto
  have c: "0 < ?n" if "jiter_cached_paload_count m \<noteq> 0"
  proof -
    have "unat (jiter_cached_paload_count m) \<noteq> 0" using that by (simp add: unat_eq_0)
    then show ?thesis using D(8) by (cases ps) auto
  qed
  have late: "jiter_cached_paload_count m \<noteq> 0 \<longrightarrow> a_current_sequence ?a \<noteq> last_got_senq m"
  proof
    assume "jiter_cached_paload_count m \<noteq> 0"
    then have "unat (last_got_senq m) \<noteq> ?n" using c D(11) by linarith
    then show "a_current_sequence ?a \<noteq> last_got_senq m" using ne by metis
  qed
  have dup: "jiter_cached_paload_count m \<noteq> 0 \<longrightarrow> a_current_sequence (slot_attr m (unat (a_current_sequence ?a))) \<noteq> a_current_sequence ?a"
    using c ne [of 0] D(7) [of ?n] room unfolding n(1) by auto
  have le: "last_put_senq m \<le> a_current_sequence ?a" using D(10) n(1) by (simp add: word_le_nat_alt)
  obtain m' where m': "write_mmap (Some m) p ?a = Some (0, Some m')" "accepted m p ?a m'"
    using write_accepts [OF D(1) n(2) le _ _ _ late dup, of p] n p room by auto
  note ac = m'(2) [unfolded accepted_def Let_def n(1) n(3)]
  have data: "slot_data m' ?n = p"
  proof -
    have "25600 \<le> length (area m')" using ac by (simp add: jit_ok_def)
    then have "length (slot_data m' ?n) = 76" using room by (simp add: slot_data_def frame_def)
    then show ?thesis using ac p by simp
  qed
  have cnt: "unat (jiter_cached_paload_count m + 1) = Suc ?n - g"
    using D(2,3,8) room by (simp add: unat_word_ariths)
  have idx: "(ucast ((of_nat ?n :: u16) mod 256) :: u32) = of_nat ?n"
  proof -
    have "unat ((of_nat ?n :: u16) mod 256) = ?n" using small_number [of ?n] room by (simp add: unat_mod)
    then show ?thesis using room by (simp add: word_unat_eq_iff unat_of_nat take_bit_nat_eq_self)
  qed
  have "stored m' (ps @ [p]) g" unfolding stored_def
  proof (intro conjI allI impI)
    fix i assume i: "i < length (ps @ [p])"
    then have i2: "i < 256" using room by simp
    have at: "slot_attr m' i = (if i = ?n then ?a\<lparr>a_index := ucast (a_current_sequence ?a mod 256)\<rparr> else slot_attr m i)"
      using ac i2 by blast
    show "a_index (slot_attr m' i) = of_nat i" using at D(4) [of i] i idx by (simp add: packet_def split: if_splits)
    show "a_current_sequence (slot_attr m' i) = of_nat i" using at D(5) [of i] i by (simp add: packet_def split: if_splits)
    show "slot_data m' i = (ps @ [p]) ! i"
      using ac D(6) [of i] i i2 data by (cases "i = ?n") (auto simp: nth_append)
  next
    fix i assume "length (ps @ [p]) \<le> i \<and> i < 256"
    then show "a_current_sequence (slot_attr m' i) = 0" using ac D(7) [of i] by simp
  next
    show "jiter_status m' = (if 6 \<le> length (ps @ [p]) - g then JITER_STATUS_PROCESSINIG else JITER_STATUS_PREFETCHING)"
      using ac cnt D(12) by (auto simp: word_le_nat_alt)
  qed (use ac D cnt n room in auto)
  then show ?thesis using m'(1) by blast
qed

lemma length_bytes_get: "bytes_get xs off n = Some ys \<Longrightarrow> length ys = n"
  by (auto simp: bytes_get_def split: if_splits)

lemma slots_concat:
  assumes "jit_ok m" "g + c \<le> 256"
  shows "bytes_get (area m) (6144 + 76 * g) (76 * c) = Some (concat (map (slot_data m) [g..<g + c]))"
proof -
  have "(g + c) * 76 \<le> 256 * 76" using assms(2) by (rule mult_le_mono1)
  then have fit: "(g + c) * 76 \<le> length (drop 6144 (area m))" "6144 + 76 * g + 76 * c \<le> length (area m)"
    using jit_okD(4) [OF assms(1)] by auto
  have "take (76 * c) (drop (6144 + 76 * g) (area m)) = take (c * 76) (drop (g * 76) (drop 6144 (area m)))"
    by (simp add: mult.commute add.commute)
  also have "\<dots> = concat (map (frame 76 (drop 6144 (area m))) [g..<g + c])" by (rule take_frames)
  finally show ?thesis using fit(2) by (simp add: bytes_get_def slot_data_def [abs_def])
qed

lemma small_product:
  fixes c :: u32
  assumes "unat c \<le> 256"
  shows "unat (c * 76) = 76 * unat c"
  using assms by (simp add: unat_word_ariths)

lemma read_stored:
  assumes st: "stored m ps g" and buf: "76 * unat c \<le> length buf" and cl: "unat c < length ps - g" and six: "6 \<le> length ps - g"
  shows "\<exists>m'. read_mmap (Some m) c buf = (let out = concat (take (unat c) (drop g ps)) @ drop (76 * unat c) buf in
      if 0 \<in> set out then Some (None, out, Some m') else None) \<and> stored m' ps (g + unat c)"
proof -
  note D = storedD [OF st] and d = jit_okD [OF storedD(1) [OF st]]
  let ?c = "unat c"
  have g: "g < 256" "g < length ps" using D(2) cl by auto
  let ?off = "jiter_get_offset m mod jiter_capacity m"
  have off: "unat ?off = g" using D(9) d(1) g by (simp add: unat_mod)
  have idx: "unat (MAX_DATA_BLOCK_SIZE * a_index (attr_of (frame 24 (area m) g))) = 76 * g"
    using D(4) [OF g(2)] g(1) by (simp add: slot_attr_def unat_word_ariths unat_of_nat)
  have seq: "a_current_sequence (attr_of (frame 24 (area m) g)) = of_nat g" using D(5) [OF g(2)] by (simp add: slot_attr_def)
  have c256: "?c \<le> 256" "g + ?c \<le> 256" using D(2) cl by auto
  have rem: "\<not> ucast (jiter_capacity m) - ucast ?off < c"
  proof -
    have "unat (256 - ucast ?off :: u32) = 256 - g" using off g(1) by (simp add: unat_sub word_le_nat_alt)
    then show ?thesis using d(1) c256 by (simp add: word_less_nat_alt)
  qed
  have dat: "concat (map (slot_data m) [g..<g + ?c]) = concat (take ?c (drop g ps))"
    using D(6) cl by (intro arg_cong [of _ _ concat] nth_equalityI) auto
  have all: "length (concat (take ?c (drop g ps))) = 76 * ?c"
    using length_bytes_get [OF slots_concat [OF D(1) c256(2)]] dat by simp
  have copy: "copy_out m (unat (attribute_buffer_size m) + 76 * g) (ucast (jiter_capacity m) - ucast ?off) c buf =
      Some (concat (take ?c (drop g ps)) @ drop (76 * ?c) buf)"
    using rem slots_concat [OF D(1) c256(2)] small_product [OF c256(1)] d(2) dat all buf
    by (simp add: copy_out_def bytes_put_def not_less)
  have fr: "bytes_get (area m) (24 * unat ?off) 24 = Some (frame 24 (area m) g)"
    unfolding off by (rule slot_bytes(1) [OF d(4) g(1)])
  have cached: "\<not> (ucast (jiter_cached_paload_count m) :: u32) \<le> c" using D(8) cl by (simp add: word_le_nat_alt)
  have uc: "unat (ucast c :: u16) = ?c" using c256(1) by (simp add: unsigned_ucast_eq take_bit_nat_eq_self)
  have cm: "unat (jiter_cached_paload_count m - ucast c) = length ps - g - ?c"
    using D(8) cl uc by (simp add: unat_sub word_le_nat_alt)
  have om: "unat (?off + ucast c) = g + ?c" using off uc c256(2) by (simp add: unat_word_ariths)
  let ?cached = "jiter_cached_paload_count m - ucast c"
  let ?m = "m\<lparr>last_got_senq := of_nat g, last_got_timestamp := a_current_timestamp (attr_of (frame 24 (area m) g)),
      jiter_cached_paload_count := ?cached, jiter_get_offset := ?off + ucast c\<rparr>"
  let ?m2 = "if ?cached < MIN_PAYLOAD_COUNT then
      ?m\<lparr>jiter_status := JITER_STATUS_PREFETCHING, jiter_enter_prefetching_state_count := jiter_enter_prefetching_state_count m + 1\<rparr>
    else ?m"
  have cap: "jiter_capacity m \<noteq> 0" using d(1) by simp
  have stat: "jiter_status m = JITER_STATUS_PROCESSINIG" using D(12) six by simp
  have none: "\<not> (c < 1 \<and> c > ucast (jiter_capacity m))" using d(1) by (auto simp: word_less_nat_alt)
  let ?out = "concat (take ?c (drop g ps)) @ drop (76 * ?c) buf"
  have "read_mmap (Some m) c buf = Option.bind (c_string ?out) (\<lambda>_. Some (None, ?out, Some ?m2))"
    unfolding read_mmap_def option.case if_not_P [OF none] if_not_P [OF cached]
    using stat cap fr copy idx seq by (simp add: Let_def)
  then have "read_mmap (Some m) c buf = (let out = ?out in if 0 \<in> set out then Some (None, out, Some ?m2) else None)"
    using c_string_terminated [of ?out] c_string_unterminated [of ?out] by (auto simp: Let_def simp del: set_append)
  moreover have same: "slot_attr ?m2 = slot_attr m" "slot_data ?m2 = slot_data m" "jit_ok ?m2 = jit_ok m"
    by (auto simp: slot_attr_def slot_data_def jit_ok_def fun_eq_iff)
  moreover have "stored ?m2 ps (g + ?c)"
  proof -
    have "?cached < 6 \<longleftrightarrow> \<not> 6 \<le> length ps - (g + ?c)" using cm by (auto simp: word_less_nat_alt)
    moreover have "unat (of_nat g :: u16) = g" using small_number g(1) by simp
    ultimately show ?thesis using D same cm om cl g stat by (auto simp: stored_def)
  qed
  ultimately show ?thesis by blast
qed

end
