(* ===== verification/JitterProps.thy ===== *)
theory JitterProps
  imports JitterSpec
begin

text \<open>
  What the jitter buffer promises to a stream of up to 256 packets in order, and what happens to any
  other packet.
\<close>

lemma opus_sizes: "buffer_sizes MEDIA_TYPE_OPUS = Some (256, 6144, 76, 25664)"
  by (simp add: buffer_sizes_def get_packet_time_def)

lemma le_nat_zeros: "le_nat (replicate n 0) = 0"
  by (induction n) auto

lemma fresh_stored:
  assumes "25600 \<le> length (area m)"
  shows "\<exists>m'. fresh_map MEDIA_TYPE_OPUS m = Some m' \<and> stored m' [] 0"
proof -
  let ?a = "replicate 25600 0 @ drop 25600 (area m)"
  obtain m' where m': "fresh_map MEDIA_TYPE_OPUS m = Some m'" "area m' = ?a" "jiter_capacity m' = 256"
      "attribute_buffer_size m' = 6144" "per_payload_buffer_size m' = 76" "media_type m' = 1" "last_put_position m' = 0"
      "last_put_senq m' = 0" "last_got_senq m' = 0" "jiter_cached_paload_count m' = 0" "jiter_get_offset m' = 0"
      "jiter_status m' = 1"
    using assms by (auto simp: fresh_map_def opus_sizes bytes_put_def ucast_id)
  have "a_current_sequence (slot_attr m' i) = 0" if i: "i < 256" for i
  proof -
    have "frame 24 ?a i = replicate 24 0" using i by (simp add: frame_def)
    then show ?thesis by (simp add: slot_attr_def m' attr_of_def le_nat_zeros)
  qed
  then have "stored m' [] 0" using m' by (simp add: stored_def jit_ok_def)
  then show ?thesis using m'(1) by blast
qed

subsection \<open>Streams\<close>

datatype jit_op = Packet u64 "u8 list" | Frames u32 "u8 list"

text \<open>The client numbers its packets from 0 on; a read gets a buffer of the client's.\<close>

fun jit_run :: "jit_op list \<Rightarrow> nat \<Rightarrow> jiter_map \<Rightarrow> ((int option \<times> u8 list) list \<times> jiter_map) option" where
  "jit_run [] n m = Some ([], m)"
| "jit_run (Packet stamp p # ops) n m = do {
     (r, q) \<leftarrow> write_mmap (Some m) p (packet n stamp);
     m \<leftarrow> q;
     (rs, m) \<leftarrow> jit_run ops (Suc n) m;
     Some ((Some r, []) # rs, m)
   }"
| "jit_run (Frames c buf # ops) n m = do {
     (r, buf, q) \<leftarrow> read_mmap (Some m) c buf;
     m \<leftarrow> q;
     (rs, m) \<leftarrow> jit_run ops n m;
     Some ((r, buf) # rs, m)
   }"

text \<open>
  The abstract stream: all packets so far, and how many of them were handed out. Undefined is only a read that fills a buffer so that it
  holds no zero.
\<close>

fun stream_run :: "jit_op list \<Rightarrow> u8 list list \<Rightarrow> nat \<Rightarrow> (int option \<times> u8 list) list option" where
  "stream_run [] ps g = Some []"
| "stream_run (Packet stamp p # ops) ps g = map_option (Cons (Some 0, [])) (stream_run ops (ps @ [p]) g)"
| "stream_run (Frames c buf # ops) ps g =
     (if length ps - g \<le> unat c then map_option (Cons (Some (-1), buf)) (stream_run ops ps g)
      else if length ps - g < 6 then map_option (Cons (None, buf)) (stream_run ops ps g)
      else
        let out = concat (take (unat c) (drop g ps)) @ drop (76 * unat c) buf in
        if 0 \<in> set out then map_option (Cons (None, out)) (stream_run ops ps (g + unat c)) else None)"

text \<open>The packets written, all of full size, and the buffers read to, all as large as what is asked for.\<close>

fun packets :: "jit_op list \<Rightarrow> u8 list list" where
  "packets [] = []"
| "packets (Packet stamp p # ops) = p # packets ops"
| "packets (Frames c buf # ops) = packets ops"

fun sized :: "jit_op \<Rightarrow> bool" where
  "sized (Packet stamp p) \<longleftrightarrow> length p = 76"
| "sized (Frames c buf) \<longleftrightarrow> 76 * unat c \<le> length buf"

lemma read_not_ready:
  assumes st: "stored m ps g"
  shows "length ps - g \<le> unat c \<Longrightarrow> read_mmap (Some m) c buf = Some (Some (-1), buf, Some m)"
    "unat c < length ps - g \<Longrightarrow> length ps - g < 6 \<Longrightarrow> read_mmap (Some m) c buf = Some (None, buf, Some m)"
  using storedD(8,12) [OF st] by (auto simp: read_mmap_def word_le_nat_alt word_less_nat_alt)

lemma jit_run_refines:
  "stored m ps g \<Longrightarrow> \<forall>op\<in>set ops. sized op \<Longrightarrow> length ps + length (packets ops) \<le> 256 \<Longrightarrow>
   (case stream_run ops ps g of None \<Rightarrow> jit_run ops (length ps) m = None
    | Some rs \<Rightarrow> \<exists>m' g'. jit_run ops (length ps) m = Some (rs, m') \<and> stored m' (ps @ packets ops) g')"
proof (induction ops arbitrary: m ps g)
  case (Cons op ops)
  show ?case
  proof (cases op)
    case (Packet stamp p)
    obtain m1 where m1: "write_mmap (Some m) p (packet (length ps) stamp) = Some (0, Some m1)" "stored m1 (ps @ [p]) g"
      using write_stored [OF Cons.prems(1), of p stamp] Cons.prems(2,3) Packet by auto
    then show ?thesis using Cons.IH [OF m1(2)] Cons.prems(2,3) Packet by (auto split: option.splits)
  next
    case (Frames c buf)
    consider (few) "length ps - g \<le> unat c" | (wait) "unat c < length ps - g" "length ps - g < 6"
      | (ready) "unat c < length ps - g" "6 \<le> length ps - g" by linarith
    then show ?thesis
    proof cases
      case few
      then show ?thesis using read_not_ready(1) [OF Cons.prems(1) few] Cons.IH [OF Cons.prems(1)] Cons.prems(2,3) Frames
        by (auto split: option.splits)
    next
      case wait
      then show ?thesis using read_not_ready(2) [OF Cons.prems(1) wait] Cons.IH [OF Cons.prems(1)] Cons.prems(2,3) Frames
        by (auto split: option.splits)
    next
      case ready
      have "76 * unat c \<le> length buf" using Cons.prems(2) Frames by simp
      then obtain m1 where m1: "read_mmap (Some m) c buf = (let out = concat (take (unat c) (drop g ps)) @ drop (76 * unat c) buf in
          if 0 \<in> set out then Some (None, out, Some m1) else None)" "stored m1 ps (g + unat c)"
        using read_stored [OF Cons.prems(1) _ ready] by blast
      show ?thesis using ready m1(1) Cons.IH [OF m1(2)] Cons.prems(2,3) Frames
        by (auto simp: Let_def simp del: set_append split: option.splits)
    qed
  qed
qed auto

subsection \<open>Properties\<close>

text \<open>
  C15. A stream in order. From a fresh Opus buffer, up to 256 packets of full size, 76 bytes, numbered from 0 and
  reads in between behave as on the list of the packets: every packet is taken, a read of fewer frames than wait, with at least
  six waiting, hands out the next ones byte for byte and returns no value, and any other read leaves the buffer alone. A read that leaves no zero in the
  client's buffer is undefined, since its log line prints that buffer as a string; nothing else is.
\<close>

theorem stream_in_order:
  assumes "25600 \<le> length (area m0)" and "\<forall>op\<in>set ops. sized op" and "length (packets ops) \<le> 256"
  shows "\<exists>m. resetJiter (Some m0) MEDIA_TYPE_OPUS = Some (0, Some m) \<and>
    (case stream_run ops [] 0 of None \<Rightarrow> jit_run ops 0 m = None | Some rs \<Rightarrow> \<exists>m'. jit_run ops 0 m = Some (rs, m') \<and> jit_ok m')"
proof -
  obtain m where m: "fresh_map MEDIA_TYPE_OPUS m0 = Some m" "stored m [] 0" using fresh_stored [OF assms(1)] by blast
  then show ?thesis using jit_run_refines [OF m(2), of ops] assms(2,3) by (auto simp: resetJiter_def stored_def split: option.splits)
qed

definition demo_map :: jiter_map where
  "demo_map = \<lparr>max_data_size = 0, attribute_buffer_size = 6144, per_payload_buffer_size = 76, jiter_status = 1,
     jiter_cached_paload_count = 0, jiter_get_offset = 0, jiter_capacity = 256,
     net_lost_package_count = 0, late_arrival_discard_package_count = 0, discard_exists_package_count = 0,
     jiter_enter_prefetching_state_count = 0, media_type = 1, last_got_senq = 0, last_got_timestamp = 0,
     last_put_position = 0, last_put_senq = 0, last_put_timestamp = 0, area = replicate 25600 0\<rparr>"

text \<open>Two frames are read, once into a buffer with a zero behind them and once into one they fill.\<close>

theorem stream_in_order_witness:
  "\<exists>m m'. resetJiter (Some demo_map) MEDIA_TYPE_OPUS = Some (0, Some m) \<and>
    jit_run [Packet 0 (replicate 76 1), Frames 1 (replicate 76 9), Packet 1 (replicate 76 2), Packet 2 (replicate 76 3),
       Packet 3 (replicate 76 4), Packet 4 (replicate 76 5), Packet 5 (replicate 76 6), Frames 2 (replicate 153 0)] 0 m =
      Some ([(Some 0, []), (Some (-1), replicate 76 9), (Some 0, []), (Some 0, []),
       (Some 0, []), (Some 0, []), (Some 0, []), (None, replicate 76 1 @ replicate 76 2 @ [0])], m') \<and>
    jit_run [Packet 0 (replicate 76 1), Packet 1 (replicate 76 2), Packet 2 (replicate 76 3),
       Packet 3 (replicate 76 4), Packet 4 (replicate 76 5), Packet 5 (replicate 76 6), Frames 2 (replicate 152 0)] 0 m = None"
  using stream_in_order [of demo_map "[Packet 0 (replicate 76 1), Frames 1 (replicate 76 9), Packet 1 (replicate 76 2), Packet 2 (replicate 76 3),
       Packet 3 (replicate 76 4), Packet 4 (replicate 76 5), Packet 5 (replicate 76 6), Frames 2 (replicate 153 0)]"]
    stream_in_order [of demo_map "[Packet 0 (replicate 76 1), Packet 1 (replicate 76 2), Packet 2 (replicate 76 3),
       Packet 3 (replicate 76 4), Packet 4 (replicate 76 5), Packet 5 (replicate 76 6), Frames 2 (replicate 152 0)]"]
  by (auto simp: demo_map_def)

text \<open>
  One packet. A packet of the buffer's media type that is neither the one last handed out nor already in its
  slot, whose number is at least the last one put and less than the capacity, is stored in the slot
  of its number, block and payload; every other slot and the read position stay, the count goes up, and six
  packets start the reading.
\<close>

theorem packet_accepted:
  assumes "jit_ok m" and "a_media_type a = MEDIA_TYPE_OPUS"
    and "last_put_senq m \<le> a_current_sequence a" and "unat (a_current_sequence a) < 256"
    and "unat (a_payload_size a) \<le> 76" and "unat (a_payload_size a) \<le> length buffer"
    and "jiter_cached_paload_count m \<noteq> 0 \<longrightarrow> a_current_sequence a \<noteq> last_got_senq m"
    and "jiter_cached_paload_count m \<noteq> 0 \<longrightarrow> a_current_sequence (slot_attr m (unat (a_current_sequence a))) \<noteq> a_current_sequence a"
  shows "\<exists>m'. write_mmap (Some m) buffer a = Some (0, Some m') \<and> accepted m buffer a m'"
  by (rule write_accepts [OF assms])

lemma demo_map_ok: "jit_ok demo_map"
  by (simp add: jit_ok_def demo_map_def)

theorem packet_accepted_witness:
  "\<exists>m'. write_mmap (Some demo_map) (replicate 40 9) ((packet 7 5)\<lparr>a_payload_size := 40\<rparr>) = Some (0, Some m') \<and>
    take 40 (slot_data m' 7) = replicate 40 9 \<and> a_index (slot_attr m' 7) = 7 \<and> slot_data m' 8 = slot_data demo_map 8"
  using packet_accepted [OF demo_map_ok, of "(packet 7 5)\<lparr>a_payload_size := 40\<rparr>" "replicate 40 9"]
  by (auto simp: packet_def accepted_def demo_map_def)

text \<open>
  Late packets. The test for a late arrival, a distance to the packet handed out last of less than one,
  is passed by every packet but that very one: the distance is taken modulo \<open>2 ^ 16\<close>
  and is never negative.
\<close>

theorem late_is_the_last_one:
  shows "(delta_senq s t l lt < 1 \<longleftrightarrow> s = l) \<and> delta_senq s t l lt = delta_senq s t' l lt'"
  by (simp_all add: delta_senq_diff word_less_1)

text \<open>
  Other packets. The slot is the number itself, plus \<open>2 ^ 16\<close> when it is smaller than the last one put,
  and is not reduced to the capacity: packet 256 and every packet out of order
  is written behind the buffer.
\<close>

theorem packet_overruns:
  assumes ok: "jit_ok m" and area: "length (area m) < 25600 + 76" and media: "a_media_type a = MEDIA_TYPE_OPUS"
    and far: "256 \<le> unat (a_current_sequence a) \<or> a_current_sequence a < last_put_senq m"
    and full: "a_payload_size a = 76"
    and late: "jiter_cached_paload_count m \<noteq> 0 \<longrightarrow> a_current_sequence a \<noteq> last_got_senq m"
    and dup: "jiter_cached_paload_count m \<noteq> 0 \<longrightarrow> (\<forall>bs. bytes_get (area m) (24 * unat (a_current_sequence a) + 6) 2 = Some bs \<longrightarrow> of_nat (le_nat bs) \<noteq> a_current_sequence a)"
  shows "write_mmap (Some m) buffer a = None"
proof -
  note d = jit_okD [OF ok]
  let ?s = "a_current_sequence a"
  let ?p = "cur_position m (?s - last_put_senq m)"
  have p: "unat ?p = (if last_put_senq m \<le> ?s then unat ?s else unat ?s + 65536)" by (rule cur_position_number [OF ok])
  have p2: "256 \<le> unat ?p" "unat ?p < 131072" using p far unsigned_less [of ?s, where ?'a = nat] by (auto simp: not_le split: if_splits)
  then have off: "unat (76 * ?p) = 76 * unat ?p" by (simp add: unat_word_ariths)
  have none: "put_packet m buffer a ?p = None"
  proof (cases "put_packet m buffer a ?p")
    case (Some m')
    then obtain b1 b2 xs where b: "bytes_put (area m) (24 * unat ?p) b1 = Some b2" "bytes_get buffer 0 76 = Some xs"
        "bytes_put b2 (6144 + 76 * unat ?p) xs \<noteq> None"
      using d full off by (auto simp: put_packet_def bind_Some_iff Let_def)
    have "length xs = 76" by (rule length_bytes_get [OF b(2)])
    then have "6144 + 76 * unat ?p + 76 \<le> length (area m)"
      using b(3) length_bytes_put [OF b(1)] by (simp add: bytes_put_def split: if_splits)
    then show ?thesis using p2 area by linarith
  qed
  show ?thesis
  proof (cases "jiter_cached_paload_count m = 0")
    case True
    then show ?thesis using d(5) media none by (simp add: write_mmap_def delta_senq_diff Let_def)
  next
    case False
    show ?thesis
    proof (cases "last_put_senq m \<le> ?s")
      case True
      then show ?thesis using d(5) media none False late dup p
        by (cases "bytes_get (area m) (24 * unat ?s + 6) 2")
          (auto simp: write_mmap_def delta_senq_diff word_less_1 Let_def)
    next
      case far2: False
      then have "bytes_get (area m) (24 * unat ?p + 6) 2 = None" using p area by (simp add: bytes_get_def)
      then show ?thesis using d(5) media False late
        by (simp add: write_mmap_def delta_senq_diff word_less_1 Let_def)
    qed
  qed
qed

theorem packet_overruns_witness:
  "write_mmap (Some demo_map) (replicate 76 0) (packet 256 0) = None \<and>
   write_mmap (Some (demo_map\<lparr>last_put_position := 5, last_put_senq := 5\<rparr>)) (replicate 76 0) (packet 4 0) = None"
proof
  have s: "of_nat (le_nat bs) \<noteq> (256 :: u16)" if "bytes_get (area demo_map) n 2 = Some bs" for bs n
  proof -
    have "bs = replicate 2 0" using that by (auto simp: bytes_get_def demo_map_def split: if_splits)
    then show ?thesis by (simp add: le_nat_zeros)
  qed
  show "write_mmap (Some demo_map) (replicate 76 0) (packet 256 0) = None"
    by (rule packet_overruns [OF demo_map_ok]) (use s in \<open>auto simp: demo_map_def packet_def\<close>)
  have s4: "of_nat (le_nat bs) \<noteq> (4 :: u16)" if "bytes_get (area demo_map) n 2 = Some bs" for bs n
  proof -
    have "bs = replicate 2 0" using that by (auto simp: bytes_get_def demo_map_def split: if_splits)
    then show ?thesis by (simp add: le_nat_zeros)
  qed
  show "write_mmap (Some (demo_map\<lparr>last_put_position := 5, last_put_senq := 5\<rparr>)) (replicate 76 0) (packet 4 0) = None"
    by (rule packet_overruns) (use s4 in \<open>auto simp: demo_map_def packet_def jit_ok_def\<close>)
qed

text \<open>
  Media types. The packet time of every media type but Opus is 0, so that \<^verbatim>\<open>init_mmap\<close> and the reset for a new
  media type divide by zero, and a packet of another type is undefined behaviour.
\<close>

theorem only_opus:
  assumes "media \<noteq> MEDIA_TYPE_OPUS"
  shows "init_mmap S is_write media file k = None \<and> resetJiter (Some m) media = None \<and>
    (media \<noteq> media_type m \<longrightarrow> write_mmap (Some m) buffer (a\<lparr>a_media_type := media\<rparr>) = None)"
proof -
  have "buffer_sizes media = None" using assms by (simp add: buffer_sizes_def get_packet_time_def)
  then show ?thesis by (simp add: init_mmap_def resetJiter_def fresh_map_def write_mmap_def)
qed

definition demo_files :: "unit mmap_sys" where
  "demo_files = \<lparr>m_pagesize = (\<lambda>k. 4096), m_open = (\<lambda>f t k. (3, k)), m_fstat = (\<lambda>fd k. (0, k)), m_lseek = (\<lambda>fd n k. k),
     m_write = (\<lambda>fd n k. k), m_mmap = (\<lambda>n fd k. (4096, k)), m_munmap = (\<lambda>p n k. k), m_close = (\<lambda>fd k. k),
     m_at = (\<lambda>k p. Some demo_map), m_store = (\<lambda>p m k. k)\<rparr>"

theorem only_opus_witness:
  "init_mmap demo_files True 2 ''test'' () = None \<and> resetJiter (Some demo_map) 2 = None \<and>
   write_mmap (Some demo_map) [] ((packet 0 0)\<lparr>a_media_type := 2\<rparr>) = None"
  using only_opus [of 2 demo_files True "''test''" "()" demo_map "[]" "packet 0 0"] by (simp add: demo_map_def)

end
