(* ===== verification/CJson.thy ===== *)
theory CJson
  imports Paths
begin

text \<open>
  The items of \<^verbatim>\<open>pcb_test/cJSON/cJSON.c\<close>: their memory, and the functions that make, link, unlink,
  replace, copy and delete them. Items and strings are cells of two heaps; \<^verbatim>\<open>malloc\<close> takes
  the addresses of a plan, null when it fails. A string block holds the bytes written to it from its start. Arithmetic
  of \<^verbatim>\<open>double\<close> and the parts of the C library that work on it are a parameter.
\<close>

subsection \<open>Data\<close>

record 'd cJSON =
  jnext :: addr
  jprev :: addr
  jchild :: addr
  jtype :: u32
  jvaluestring :: addr
  jvalueint :: int
  jvaluedouble :: 'd
  jstring :: addr

abbreviation (input) cJSON_False :: u32 where "cJSON_False \<equiv> 0"
abbreviation (input) cJSON_True :: u32 where "cJSON_True \<equiv> 1"
abbreviation (input) cJSON_NULL :: u32 where "cJSON_NULL \<equiv> 2"
abbreviation (input) cJSON_Number :: u32 where "cJSON_Number \<equiv> 3"
abbreviation (input) cJSON_String :: u32 where "cJSON_String \<equiv> 4"
abbreviation (input) cJSON_Array :: u32 where "cJSON_Array \<equiv> 5"
abbreviation (input) cJSON_Object :: u32 where "cJSON_Object \<equiv> 6"
abbreviation (input) cJSON_IsReference :: u32 where "cJSON_IsReference \<equiv> 256"

text \<open>
  \<open>d_trunc\<close> is the cast to \<^verbatim>\<open>int\<close>, undefined out of range; \<open>d_lit m e\<close> the literal \<open>m * 10 ^ e\<close>;
  the last three are \<^verbatim>\<open>sprintf\<close> with the formats in their names.
\<close>

record 'd double_ops =
  d_int :: "int \<Rightarrow> 'd"
  d_lit :: "int \<Rightarrow> int \<Rightarrow> 'd"
  d_epsilon :: 'd
  d_add :: "'d \<Rightarrow> 'd \<Rightarrow> 'd"
  d_sub :: "'d \<Rightarrow> 'd \<Rightarrow> 'd"
  d_mul :: "'d \<Rightarrow> 'd \<Rightarrow> 'd"
  d_fabs :: "'d \<Rightarrow> 'd"
  d_floor :: "'d \<Rightarrow> 'd"
  d_pow10 :: "'d \<Rightarrow> 'd"
  d_le :: "'d \<Rightarrow> 'd \<Rightarrow> bool"
  d_less :: "'d \<Rightarrow> 'd \<Rightarrow> bool"
  d_trunc :: "'d \<Rightarrow> int option"
  d_fmt_0f :: "'d \<Rightarrow> u8 list"
  d_fmt_e :: "'d \<Rightarrow> u8 list"
  d_fmt_f :: "'d \<Rightarrow> u8 list"

record 'd jmem =
  jitems :: "'d cJSON heap"
  jstrs :: "addr \<rightharpoonup> u8 list"
  jptrs :: "addr \<rightharpoonup> addr list"
  jplan :: "addr list"
  ep :: "u8 list option"

subsection \<open>Allocation and strings\<close>

definition jmalloc :: "'d jmem \<Rightarrow> addr \<times> 'd jmem" where
  "jmalloc m = (case jplan m of [] \<Rightarrow> (NULL, m) | a # as \<Rightarrow> (a, m\<lparr>jplan := as\<rparr>))"

definition item_upd :: "addr \<Rightarrow> ('d cJSON \<Rightarrow> 'd cJSON) \<Rightarrow> 'd jmem \<Rightarrow> 'd jmem option" where
  "item_upd p f m = map_option (\<lambda>h. m\<lparr>jitems := h\<rparr>) (upd (jitems m) p f)"

definition free_item :: "addr \<Rightarrow> 'd jmem \<Rightarrow> 'd jmem option" where
  "free_item p m = map_option (\<lambda>h. m\<lparr>jitems := h\<rparr>) (release (jitems m) p)"

definition free_str :: "addr \<Rightarrow> 'd jmem \<Rightarrow> 'd jmem option" where
  "free_str p m = map_option (\<lambda>h. m\<lparr>jstrs := h\<rparr>) (release (jstrs m) p)"

text \<open>A \<^verbatim>\<open>const char *\<close> as the bytes it points to, or null.\<close>

definition str_at :: "'d jmem \<Rightarrow> addr \<Rightarrow> u8 list option option" where
  "str_at m p = (if p = NULL then Some None else map_option Some (jstrs m p))"

definition c_tolower :: "u8 \<Rightarrow> int" where
  "c_tolower c = (if 65 \<le> c \<and> c \<le> 90 then uint c + 32 else uint c)"

fun strcasecmp_loop :: "u8 list \<Rightarrow> u8 list \<Rightarrow> int option" where
  "strcasecmp_loop (x # xs) (y # ys) =
     (if c_tolower x = c_tolower y then if x = 0 then Some 0 else strcasecmp_loop xs ys
      else Some (c_tolower x - c_tolower y))"
| "strcasecmp_loop _ _ = None"

definition cJSON_strcasecmp :: "u8 list option \<Rightarrow> u8 list option \<Rightarrow> int option" where
  "cJSON_strcasecmp s1 s2 =
     (case s1 of None \<Rightarrow> Some (if s2 = None then 0 else 1)
      | Some xs \<Rightarrow> (case s2 of None \<Rightarrow> Some 1 | Some ys \<Rightarrow> strcasecmp_loop xs ys))"

text \<open>\<^verbatim>\<open>out\<close> bytes into a new block of \<open>n\<close> bytes: the block, or null.\<close>

definition new_str :: "nat \<Rightarrow> u8 list \<Rightarrow> 'd jmem \<Rightarrow> (addr \<times> 'd jmem) option" where
  "new_str n out m =
     (let (p, m) = jmalloc m in
      if p = NULL then Some (NULL, m)
      else if length out \<le> n then Some (p, m\<lparr>jstrs := (jstrs m)(p \<mapsto> out)\<rparr>) else None)"

definition cJSON_strdup :: "u8 list option \<Rightarrow> 'd jmem \<Rightarrow> (addr \<times> 'd jmem) option" where
  "cJSON_strdup s m = do {
     s \<leftarrow> s;
     s \<leftarrow> c_string s;
     new_str (length s + 1) (s @ [0]) m
   }"

text \<open>The allocation functions in use, of any type: those of the library unless the hooks have others.\<close>

record ('m, 'f) cJSON_Hooks =
  malloc_fn :: "'m option"
  free_fn :: "'f option"

definition cJSON_InitHooks :: "'m \<Rightarrow> 'f \<Rightarrow> ('m, 'f) cJSON_Hooks option \<Rightarrow> 'm \<times> 'f" where
  "cJSON_InitHooks lib_malloc lib_free hooks =
     (case hooks of None \<Rightarrow> (lib_malloc, lib_free)
      | Some h \<Rightarrow> ((case malloc_fn h of None \<Rightarrow> lib_malloc | Some f \<Rightarrow> f),
          (case free_fn h of None \<Rightarrow> lib_free | Some f \<Rightarrow> f)))"

subsection \<open>Making and deleting items\<close>

definition zero_item :: "'d double_ops \<Rightarrow> 'd cJSON" where
  "zero_item D = \<lparr>jnext = NULL, jprev = NULL, jchild = NULL, jtype = 0, jvaluestring = NULL, jvalueint = 0,
     jvaluedouble = d_int D 0, jstring = NULL\<rparr>"

definition cJSON_New_Item :: "'d double_ops \<Rightarrow> 'd jmem \<Rightarrow> addr \<times> 'd jmem" where
  "cJSON_New_Item D m =
     (let (p, m) = jmalloc m in
      if p = NULL then (NULL, m) else (p, m\<lparr>jitems := (jitems m)(p \<mapsto> zero_item D)\<rparr>))"

text \<open>The first argument bounds the calls and the turns of the loops together.\<close>

fun cJSON_Delete :: "nat \<Rightarrow> addr \<Rightarrow> 'd jmem \<Rightarrow> 'd jmem option" where
  "cJSON_Delete 0 c m = None"
| "cJSON_Delete (Suc f) c m =
     (if c = NULL then Some m
      else do {
        n \<leftarrow> rd (jitems m) c jnext;
        t \<leftarrow> rd (jitems m) c jtype;
        ch \<leftarrow> rd (jitems m) c jchild;
        m \<leftarrow> (if t AND cJSON_IsReference = 0 \<and> ch \<noteq> NULL then cJSON_Delete f ch m else Some m);
        t \<leftarrow> rd (jitems m) c jtype;
        s \<leftarrow> rd (jitems m) c jvaluestring;
        m \<leftarrow> (if t AND cJSON_IsReference = 0 \<and> s \<noteq> NULL then free_str s m else Some m);
        s \<leftarrow> rd (jitems m) c jstring;
        m \<leftarrow> (if s \<noteq> NULL then free_str s m else Some m);
        m \<leftarrow> free_item c m;
        cJSON_Delete f n m
      })"

definition create_typed :: "'d double_ops \<Rightarrow> u32 \<Rightarrow> 'd jmem \<Rightarrow> (addr \<times> 'd jmem) option" where
  "create_typed D t m =
     (let (p, m) = cJSON_New_Item D m in
      if p = NULL then Some (p, m) else map_option (Pair p) (item_upd p (jtype_update (\<lambda>_. t)) m))"

definition cJSON_CreateNull :: "'d double_ops \<Rightarrow> 'd jmem \<Rightarrow> (addr \<times> 'd jmem) option" where
  "cJSON_CreateNull D = create_typed D cJSON_NULL"

definition cJSON_CreateTrue :: "'d double_ops \<Rightarrow> 'd jmem \<Rightarrow> (addr \<times> 'd jmem) option" where
  "cJSON_CreateTrue D = create_typed D cJSON_True"

definition cJSON_CreateFalse :: "'d double_ops \<Rightarrow> 'd jmem \<Rightarrow> (addr \<times> 'd jmem) option" where
  "cJSON_CreateFalse D = create_typed D cJSON_False"

definition cJSON_CreateBool :: "'d double_ops \<Rightarrow> int \<Rightarrow> 'd jmem \<Rightarrow> (addr \<times> 'd jmem) option" where
  "cJSON_CreateBool D b = create_typed D (if b \<noteq> 0 then cJSON_True else cJSON_False)"

definition cJSON_CreateArray :: "'d double_ops \<Rightarrow> 'd jmem \<Rightarrow> (addr \<times> 'd jmem) option" where
  "cJSON_CreateArray D = create_typed D cJSON_Array"

definition cJSON_CreateObject :: "'d double_ops \<Rightarrow> 'd jmem \<Rightarrow> (addr \<times> 'd jmem) option" where
  "cJSON_CreateObject D = create_typed D cJSON_Object"

definition cJSON_CreateNumber :: "'d double_ops \<Rightarrow> 'd \<Rightarrow> 'd jmem \<Rightarrow> (addr \<times> 'd jmem) option" where
  "cJSON_CreateNumber D num m =
     (let (p, m) = cJSON_New_Item D m in
      if p = NULL then Some (p, m)
      else do {
        i \<leftarrow> d_trunc D num;
        m \<leftarrow> item_upd p (\<lambda>c. c\<lparr>jtype := cJSON_Number, jvaluedouble := num, jvalueint := i\<rparr>) m;
        Some (p, m)
      })"

definition cJSON_CreateString :: "'d double_ops \<Rightarrow> u8 list option \<Rightarrow> 'd jmem \<Rightarrow> (addr \<times> 'd jmem) option" where
  "cJSON_CreateString D s m =
     (let (p, m) = cJSON_New_Item D m in
      if p = NULL then Some (p, m)
      else do {
        m \<leftarrow> item_upd p (jtype_update (\<lambda>_. cJSON_String)) m;
        (q, m) \<leftarrow> cJSON_strdup s m;
        m \<leftarrow> item_upd p (jvaluestring_update (\<lambda>_. q)) m;
        Some (p, m)
      })"

subsection \<open>Reading arrays and objects\<close>

partial_function (option) count_items :: "'d cJSON heap \<Rightarrow> addr \<Rightarrow> int \<Rightarrow> int option" where
  "count_items h c i = (if c \<noteq> NULL then do {
       i \<leftarrow> int_inc i;
       n \<leftarrow> rd h c jnext;
       count_items h n i
     } else Some i)"

definition cJSON_GetArraySize :: "'d jmem \<Rightarrow> addr \<Rightarrow> int option" where
  "cJSON_GetArraySize m array = do { c \<leftarrow> rd (jitems m) array jchild; count_items (jitems m) c 0 }"

partial_function (option) walk_items :: "'d cJSON heap \<Rightarrow> addr \<Rightarrow> int \<Rightarrow> addr option" where
  "walk_items h c i = (if c \<noteq> NULL \<and> i > 0 then do { n \<leftarrow> rd h c jnext; walk_items h n (i - 1) } else Some c)"

definition cJSON_GetArrayItem :: "'d jmem \<Rightarrow> addr \<Rightarrow> int \<Rightarrow> addr option" where
  "cJSON_GetArrayItem m array i = do { c \<leftarrow> rd (jitems m) array jchild; walk_items (jitems m) c i }"

text \<open>The first item whose name matches, or null, and its index.\<close>

partial_function (option) find_name :: "'d jmem \<Rightarrow> u8 list option \<Rightarrow> addr \<Rightarrow> int \<Rightarrow> (addr \<times> int) option" where
  "find_name m string c i = (if c = NULL then Some (NULL, i)
     else do {
       p \<leftarrow> rd (jitems m) c jstring;
       s \<leftarrow> str_at m p;
       r \<leftarrow> cJSON_strcasecmp s string;
       if r = 0 then Some (c, i)
       else do { n \<leftarrow> rd (jitems m) c jnext; find_name m string n (i + 1) }
     })"

definition cJSON_GetObjectItem :: "'d jmem \<Rightarrow> addr \<Rightarrow> u8 list option \<Rightarrow> addr option" where
  "cJSON_GetObjectItem m object string = do {
     c \<leftarrow> rd (jitems m) object jchild;
     (c, _) \<leftarrow> find_name m string c 0;
     Some c
   }"

subsection \<open>Changing arrays and objects\<close>

definition suffix_object :: "addr \<Rightarrow> addr \<Rightarrow> 'd jmem \<Rightarrow> 'd jmem option" where
  "suffix_object prev item m = do {
     m \<leftarrow> item_upd prev (jnext_update (\<lambda>_. item)) m;
     item_upd item (jprev_update (\<lambda>_. prev)) m
   }"

definition create_reference :: "'d double_ops \<Rightarrow> addr \<Rightarrow> 'd jmem \<Rightarrow> (addr \<times> 'd jmem) option" where
  "create_reference D item m =
     (let (ref, m) = cJSON_New_Item D m in
      if ref = NULL then Some (NULL, m)
      else do {
        c \<leftarrow> load (jitems m) item;
        m \<leftarrow> item_upd ref (\<lambda>_. c\<lparr>jstring := NULL, jtype := jtype c OR cJSON_IsReference, jnext := NULL, jprev := NULL\<rparr>) m;
        Some (ref, m)
      })"

partial_function (option) last_item :: "'d cJSON heap \<Rightarrow> addr \<Rightarrow> addr option" where
  "last_item h c = do {
     n \<leftarrow> rd h c jnext;
     if n \<noteq> NULL then last_item h n else Some c
   }"

definition cJSON_AddItemToArray :: "addr \<Rightarrow> addr \<Rightarrow> 'd jmem \<Rightarrow> 'd jmem option" where
  "cJSON_AddItemToArray array item m = do {
     c \<leftarrow> rd (jitems m) array jchild;
     if item = NULL then Some m
     else if c = NULL then item_upd array (jchild_update (\<lambda>_. item)) m
     else do { c \<leftarrow> last_item (jitems m) c; suffix_object c item m }
   }"

definition cJSON_AddItemToObject :: "addr \<Rightarrow> u8 list option \<Rightarrow> addr \<Rightarrow> 'd jmem \<Rightarrow> 'd jmem option" where
  "cJSON_AddItemToObject object string item m =
     (if item = NULL then Some m
      else do {
        s \<leftarrow> rd (jitems m) item jstring;
        m \<leftarrow> (if s \<noteq> NULL then free_str s m else Some m);
        (q, m) \<leftarrow> cJSON_strdup string m;
        m \<leftarrow> item_upd item (jstring_update (\<lambda>_. q)) m;
        cJSON_AddItemToArray object item m
      })"

definition cJSON_AddItemReferenceToArray :: "'d double_ops \<Rightarrow> addr \<Rightarrow> addr \<Rightarrow> 'd jmem \<Rightarrow> 'd jmem option" where
  "cJSON_AddItemReferenceToArray D array item m = do {
     (ref, m) \<leftarrow> create_reference D item m;
     cJSON_AddItemToArray array ref m
   }"

definition cJSON_AddItemReferenceToObject ::
    "'d double_ops \<Rightarrow> addr \<Rightarrow> u8 list option \<Rightarrow> addr \<Rightarrow> 'd jmem \<Rightarrow> 'd jmem option" where
  "cJSON_AddItemReferenceToObject D object string item m = do {
     (ref, m) \<leftarrow> create_reference D item m;
     cJSON_AddItemToObject object string ref m
   }"

definition cJSON_DetachItemFromArray :: "addr \<Rightarrow> int \<Rightarrow> 'd jmem \<Rightarrow> (addr \<times> 'd jmem) option" where
  "cJSON_DetachItemFromArray array which m = do {
     c \<leftarrow> rd (jitems m) array jchild;
     c \<leftarrow> walk_items (jitems m) c which;
     if c = NULL then Some (NULL, m)
     else do {
       p \<leftarrow> rd (jitems m) c jprev;
       n \<leftarrow> rd (jitems m) c jnext;
       m \<leftarrow> (if p \<noteq> NULL then item_upd p (jnext_update (\<lambda>_. n)) m else Some m);
       n \<leftarrow> rd (jitems m) c jnext;
       p \<leftarrow> rd (jitems m) c jprev;
       m \<leftarrow> (if n \<noteq> NULL then item_upd n (jprev_update (\<lambda>_. p)) m else Some m);
       f \<leftarrow> rd (jitems m) array jchild;
       n \<leftarrow> rd (jitems m) c jnext;
       m \<leftarrow> (if c = f then item_upd array (jchild_update (\<lambda>_. n)) m else Some m);
       m \<leftarrow> item_upd c (\<lambda>i. i\<lparr>jprev := NULL, jnext := NULL\<rparr>) m;
       Some (c, m)
     }
   }"

definition cJSON_DeleteItemFromArray :: "nat \<Rightarrow> addr \<Rightarrow> int \<Rightarrow> 'd jmem \<Rightarrow> 'd jmem option" where
  "cJSON_DeleteItemFromArray f array which m = do {
     (c, m) \<leftarrow> cJSON_DetachItemFromArray array which m;
     cJSON_Delete f c m
   }"

definition cJSON_DetachItemFromObject :: "addr \<Rightarrow> u8 list option \<Rightarrow> 'd jmem \<Rightarrow> (addr \<times> 'd jmem) option" where
  "cJSON_DetachItemFromObject object string m = do {
     c \<leftarrow> rd (jitems m) object jchild;
     (c, i) \<leftarrow> find_name m string c 0;
     if c \<noteq> NULL then cJSON_DetachItemFromArray object i m else Some (NULL, m)
   }"

definition cJSON_DeleteItemFromObject :: "nat \<Rightarrow> addr \<Rightarrow> u8 list option \<Rightarrow> 'd jmem \<Rightarrow> 'd jmem option" where
  "cJSON_DeleteItemFromObject f object string m = do {
     (c, m) \<leftarrow> cJSON_DetachItemFromObject object string m;
     cJSON_Delete f c m
   }"

definition cJSON_ReplaceItemInArray :: "nat \<Rightarrow> addr \<Rightarrow> int \<Rightarrow> addr \<Rightarrow> 'd jmem \<Rightarrow> 'd jmem option" where
  "cJSON_ReplaceItemInArray f array which newitem m = do {
     c \<leftarrow> rd (jitems m) array jchild;
     c \<leftarrow> walk_items (jitems m) c which;
     if c = NULL then Some m
     else do {
       n \<leftarrow> rd (jitems m) c jnext;
       m \<leftarrow> item_upd newitem (jnext_update (\<lambda>_. n)) m;
       p \<leftarrow> rd (jitems m) c jprev;
       m \<leftarrow> item_upd newitem (jprev_update (\<lambda>_. p)) m;
       n \<leftarrow> rd (jitems m) newitem jnext;
       m \<leftarrow> (if n \<noteq> NULL then item_upd n (jprev_update (\<lambda>_. newitem)) m else Some m);
       first \<leftarrow> rd (jitems m) array jchild;
       m \<leftarrow> (if c = first then item_upd array (jchild_update (\<lambda>_. newitem)) m
             else do {
               p \<leftarrow> rd (jitems m) newitem jprev;
               item_upd p (jnext_update (\<lambda>_. newitem)) m
             });
       m \<leftarrow> item_upd c (\<lambda>i. i\<lparr>jprev := NULL, jnext := NULL\<rparr>) m;
       cJSON_Delete f c m
     }
   }"

definition cJSON_ReplaceItemInObject :: "nat \<Rightarrow> addr \<Rightarrow> u8 list option \<Rightarrow> addr \<Rightarrow> 'd jmem \<Rightarrow> 'd jmem option" where
  "cJSON_ReplaceItemInObject f object string newitem m = do {
     c \<leftarrow> rd (jitems m) object jchild;
     (c, i) \<leftarrow> find_name m string c 0;
     if c \<noteq> NULL then do {
       (q, m) \<leftarrow> cJSON_strdup string m;
       m \<leftarrow> item_upd newitem (jstring_update (\<lambda>_. q)) m;
       cJSON_ReplaceItemInArray f object i newitem m
     } else Some m
   }"

subsection \<open>Arrays of values\<close>

text \<open>The loop the four functions share: \<open>create\<close> makes the item of an element.\<close>

fun create_loop :: "('x \<Rightarrow> 'd jmem \<Rightarrow> (addr \<times> 'd jmem) option) \<Rightarrow> addr \<Rightarrow> 'x list \<Rightarrow> bool \<Rightarrow> addr \<Rightarrow> 'd jmem \<Rightarrow> 'd jmem option" where
  "create_loop create a [] first p m = Some m"
| "create_loop create a (x # xs) first p m = do {
     (n, m) \<leftarrow> create x m;
     m \<leftarrow> (if first then item_upd a (jchild_update (\<lambda>_. n)) m else suffix_object p n m);
     create_loop create a xs False n m
   }"

definition create_array ::
    "'d double_ops \<Rightarrow> ('x \<Rightarrow> 'd jmem \<Rightarrow> (addr \<times> 'd jmem) option) \<Rightarrow> 'x list \<Rightarrow> int \<Rightarrow> 'd jmem \<Rightarrow> (addr \<times> 'd jmem) option" where
  "create_array D create xs count m = do {
     (a, m) \<leftarrow> cJSON_CreateArray D m;
     if a = NULL then Some (NULL, m)
     else if count > int (length xs) then None
     else do { m \<leftarrow> create_loop create a (take (nat count) xs) True NULL m; Some (a, m) }
   }"

definition cJSON_CreateIntArray :: "'d double_ops \<Rightarrow> int list \<Rightarrow> int \<Rightarrow> 'd jmem \<Rightarrow> (addr \<times> 'd jmem) option" where
  "cJSON_CreateIntArray D = create_array D (\<lambda>i. cJSON_CreateNumber D (d_int D i))"

definition cJSON_CreateFloatArray :: "'d double_ops \<Rightarrow> 'd list \<Rightarrow> int \<Rightarrow> 'd jmem \<Rightarrow> (addr \<times> 'd jmem) option" where
  "cJSON_CreateFloatArray D = create_array D (cJSON_CreateNumber D)"

definition cJSON_CreateDoubleArray :: "'d double_ops \<Rightarrow> 'd list \<Rightarrow> int \<Rightarrow> 'd jmem \<Rightarrow> (addr \<times> 'd jmem) option" where
  "cJSON_CreateDoubleArray D = create_array D (cJSON_CreateNumber D)"

definition cJSON_CreateStringArray :: "'d double_ops \<Rightarrow> u8 list option list \<Rightarrow> int \<Rightarrow> 'd jmem \<Rightarrow> (addr \<times> 'd jmem) option" where
  "cJSON_CreateStringArray D = create_array D (cJSON_CreateString D)"

subsection \<open>Copying\<close>

text \<open>A copy of a string of the item, unless it is null: whether that worked, and where.\<close>

definition copy_string :: "addr \<Rightarrow> 'd jmem \<Rightarrow> (bool \<times> addr \<times> 'd jmem) option" where
  "copy_string p m =
     (if p = NULL then Some (True, NULL, m)
      else do {
        s \<leftarrow> str_at m p;
        (q, m) \<leftarrow> cJSON_strdup s m;
        Some (q \<noteq> NULL, q, m)
      })"

text \<open>
  The loop over the children of \<^verbatim>\<open>cJSON_Duplicate\<close> gets the recursive call as an argument. Its bound is for the
  turns, that of \<open>cJSON_Duplicate\<close> also for the depth.
\<close>

primrec duplicate_children ::
    "(addr \<Rightarrow> 'd jmem \<Rightarrow> (addr \<times> 'd jmem) option) \<Rightarrow> nat \<Rightarrow> addr \<Rightarrow> addr \<Rightarrow> addr \<Rightarrow> 'd jmem \<Rightarrow> (addr \<times> 'd jmem) option" where
  "duplicate_children dup 0 new cptr nptr m = None"
| "duplicate_children dup (Suc f) new cptr nptr m =
     (if cptr = NULL then Some (new, m)
      else do {
        (newchild, m) \<leftarrow> dup cptr m;
        if newchild = NULL then do { m \<leftarrow> cJSON_Delete f new m; Some (NULL, m) }
        else do {
          m \<leftarrow> (if nptr \<noteq> NULL then suffix_object nptr newchild m
                else item_upd new (jchild_update (\<lambda>_. newchild)) m);
          cptr \<leftarrow> rd (jitems m) cptr jnext;
          duplicate_children dup f new cptr newchild m
        }
      })"

primrec cJSON_Duplicate :: "'d double_ops \<Rightarrow> nat \<Rightarrow> addr \<Rightarrow> bool \<Rightarrow> 'd jmem \<Rightarrow> (addr \<times> 'd jmem) option" where
  "cJSON_Duplicate D 0 item recurse m = None"
| "cJSON_Duplicate D (Suc f) item recurse m =
     (if item = NULL then Some (NULL, m)
      else
        let (new, m) = cJSON_New_Item D m in
        if new = NULL then Some (NULL, m)
        else do {
          c \<leftarrow> load (jitems m) item;
          m \<leftarrow> item_upd new (\<lambda>i. i\<lparr>jtype := jtype c AND NOT cJSON_IsReference, jvalueint := jvalueint c,
                 jvaluedouble := jvaluedouble c\<rparr>) m;
          (ok, q, m) \<leftarrow> copy_string (jvaluestring c) m;
          m \<leftarrow> item_upd new (jvaluestring_update (\<lambda>_. q)) m;
          if \<not> ok then do { m \<leftarrow> cJSON_Delete f new m; Some (NULL, m) }
          else do {
            c \<leftarrow> load (jitems m) item;
            (ok, q, m) \<leftarrow> copy_string (jstring c) m;
            m \<leftarrow> item_upd new (jstring_update (\<lambda>_. q)) m;
            if \<not> ok then do { m \<leftarrow> cJSON_Delete f new m; Some (NULL, m) }
            else if \<not> recurse then Some (new, m)
            else do {
              cptr \<leftarrow> rd (jitems m) item jchild;
              duplicate_children (\<lambda>c. cJSON_Duplicate D f c True) f new cptr NULL m
            }
          }
        })"

end
