(* ===== verification/CJsonText.thy ===== *)
theory CJsonText
  imports CJson
begin

text \<open>
  Parsing and printing of \<^verbatim>\<open>pcb_test/cJSON/cJSON.c\<close>. A pointer into a text is the list of the bytes from it
  to the end of the array, terminator included; reading behind the end is undefined. Characters are
  their ASCII codes.
\<close>

type_synonym ctext = "u8 list"

definition hd_opt :: "ctext \<Rightarrow> u8 option" where
  "hd_opt t = (case t of [] \<Rightarrow> None | c # _ \<Rightarrow> Some c)"

lemma hd_opt_simps [simp]: "hd_opt [] = None" "hd_opt (c # cs) = Some c"
  by (simp_all add: hd_opt_def)

abbreviation (input) is_digit :: "u8 \<Rightarrow> bool" where "is_digit c \<equiv> 48 \<le> c \<and> c \<le> 57"

subsection \<open>Numbers\<close>

text \<open>A run of digits: the number so far times ten plus the digit, and how many there were.\<close>

fun parse_digits :: "'d double_ops \<Rightarrow> 'd \<Rightarrow> nat \<Rightarrow> ctext \<Rightarrow> ('d \<times> nat \<times> ctext) option" where
  "parse_digits D n k [] = None"
| "parse_digits D n k (c # cs) =
     (if is_digit c then parse_digits D (d_add D (d_mul D n (d_int D 10)) (d_int D (uint c - 48))) (Suc k) cs
      else Some (n, k, c # cs))"

text \<open>The exponent, an \<^verbatim>\<open>int\<close>; its overflow is undefined.\<close>

fun parse_exponent :: "int \<Rightarrow> ctext \<Rightarrow> (int \<times> ctext) option" where
  "parse_exponent s [] = None"
| "parse_exponent s (c # cs) =
     (if is_digit c then
        if s * 10 + (uint c - 48) < 2 ^ 31 then parse_exponent (s * 10 + (uint c - 48)) cs else None
      else Some (s, c # cs))"

text \<open>\<open>scale--\<close>, once for each digit of the fraction.\<close>

primrec count_down :: "'d double_ops \<Rightarrow> nat \<Rightarrow> 'd \<Rightarrow> 'd" where
  "count_down D 0 s = s"
| "count_down D (Suc k) s = count_down D k (d_sub D s (d_int D 1))"

definition parse_number :: "'d double_ops \<Rightarrow> addr \<Rightarrow> ctext \<Rightarrow> 'd jmem \<Rightarrow> (ctext option \<times> 'd jmem) option" where
  "parse_number D item num m = do {
     c \<leftarrow> hd_opt num;
     let (sign, num) = (if c = 45 then (d_int D (-1), tl num) else (d_int D 1, num)) in do {
       c \<leftarrow> hd_opt num;
       let num = (if c = 48 then tl num else num) in do {
         c \<leftarrow> hd_opt num;
         (n, _, num) \<leftarrow> (if 49 \<le> c \<and> c \<le> 57 then parse_digits D (d_int D 0) 0 num else Some (d_int D 0, 0, num));
         c \<leftarrow> hd_opt num;
         (n, k, num) \<leftarrow> (if c = 46 then do {
                c \<leftarrow> hd_opt (tl num);
                if is_digit c then parse_digits D n 0 (tl num) else Some (n, 0, num)
              } else Some (n, 0, num));
         let scale = count_down D k (d_int D 0) in do {
           c \<leftarrow> hd_opt num;
           (s, signs, num) \<leftarrow> (if c = 101 \<or> c = 69 then do {
                c \<leftarrow> hd_opt (tl num);
                let (signs, num) = (if c = 43 then (1, tl (tl num)) else if c = 45 then (-1, tl (tl num)) else (1, tl num)) in do {
                  (s, num) \<leftarrow> parse_exponent 0 num;
                  Some (s, signs, num)
                }
              } else Some (0, 1, num));
           let n = d_mul D (d_mul D sign n) (d_pow10 D (d_add D scale (d_int D (s * signs)))) in do {
             i \<leftarrow> d_trunc D n;
             m \<leftarrow> item_upd item (\<lambda>c. c\<lparr>jvaluedouble := n, jvalueint := i, jtype := cJSON_Number\<rparr>) m;
             Some (Some num, m)
           }
         }
       }
     }
   }"

text \<open>\<^verbatim>\<open>%d\<close>.\<close>

fun dec_digits :: "nat \<Rightarrow> u8 list" where
  "dec_digits n = (if n < 10 then [of_nat (48 + n)] else dec_digits (n div 10) @ [of_nat (48 + n mod 10)])"

definition fmt_d :: "int \<Rightarrow> u8 list" where
  "fmt_d i = (if i < 0 then 45 # dec_digits (nat (- i)) else dec_digits (nat i))"

definition print_number :: "'d double_ops \<Rightarrow> addr \<Rightarrow> 'd jmem \<Rightarrow> (addr \<times> 'd jmem) option" where
  "print_number D item m = do {
     c \<leftarrow> load (jitems m) item;
     let d = jvaluedouble c in
     if d_le D (d_fabs D (d_sub D (d_int D (jvalueint c)) d)) (d_epsilon D) \<and>
        d_le D d (d_int D (2 ^ 31 - 1)) \<and> d_le D (d_int D (- (2 ^ 31))) d
     then new_str 21 (fmt_d (jvalueint c) @ [0]) m
     else new_str 64
       ((if d_le D (d_fabs D (d_sub D (d_floor D d) d)) (d_epsilon D) \<and> d_less D (d_fabs D d) (d_lit D 1 60) then d_fmt_0f D d
         else if d_less D (d_fabs D d) (d_lit D 1 (-6)) \<or> d_less D (d_lit D 1 9) (d_fabs D d) then d_fmt_e D d
         else d_fmt_f D d) @ [0]) m
   }"

subsection \<open>Strings\<close>

definition hex_digit :: "u8 \<Rightarrow> u32 option" where
  "hex_digit c =
     (if 48 \<le> c \<and> c \<le> 57 then Some (ucast c - 48)
      else if 65 \<le> c \<and> c \<le> 70 then Some (10 + ucast c - 65)
      else if 97 \<le> c \<and> c \<le> 102 then Some (10 + ucast c - 97)
      else None)"

text \<open>\<open>k\<close> more digits; 0 as soon as one is none.\<close>

fun parse_hex :: "nat \<Rightarrow> u32 \<Rightarrow> ctext \<Rightarrow> u32 option" where
  "parse_hex 0 h str = Some h"
| "parse_hex (Suc k) h [] = None"
| "parse_hex (Suc k) h (c # cs) =
     (case hex_digit c of None \<Rightarrow> Some 0 | Some d \<Rightarrow> parse_hex k (push_bit 4 h + d) cs)"

definition parse_hex4 :: "ctext \<Rightarrow> u32 option" where
  "parse_hex4 str = parse_hex 4 0 str"

text \<open>The first pass over a string: an upper bound of its length. An escaped character is skipped unread.\<close>

fun scan_string :: "ctext \<Rightarrow> nat \<Rightarrow> nat option" where
  "scan_string [] len = None"
| "scan_string (c # cs) len =
     (if c = 34 \<or> c = 0 then Some len
      else if c = 92 then (case cs of [] \<Rightarrow> None | _ # cs \<Rightarrow> scan_string cs (Suc len))
      else scan_string cs (Suc len))"

text \<open>The bytes of a character in UTF-8, written from the last to the first.\<close>

fun utf8_put :: "nat \<Rightarrow> u32 \<Rightarrow> u32 \<Rightarrow> u8 list \<Rightarrow> u8 list" where
  "utf8_put 0 uc mark out = out"
| "utf8_put (Suc 0) uc mark out = ucast (uc OR mark) # out"
| "utf8_put (Suc (Suc n)) uc mark out = utf8_put (Suc n) (drop_bit 6 uc) mark (ucast ((uc OR 0x80) AND 0xBF) # out)"

definition firstByteMark :: "u32 list" where
  "firstByteMark = [0x00, 0x00, 0xC0, 0xE0, 0xF0, 0xF8, 0xFC]"

definition utf8_len :: "u32 \<Rightarrow> nat" where
  "utf8_len uc = (if uc < 0x80 then 1 else if uc < 0x800 then 2 else if uc < 0x10000 then 3 else 4)"

definition utf8 :: "u32 \<Rightarrow> u8 list" where
  "utf8 uc = utf8_put (utf8_len uc) uc (firstByteMark ! utf8_len uc) []"

text \<open>
  The escape at \<^verbatim>\<open>ptr\<close>, which is on the \<^verbatim>\<open>u\<close>: the bytes it stands for, and \<^verbatim>\<open>ptr\<close> after it, still to be
  incremented.
\<close>

definition unicode_escape :: "ctext \<Rightarrow> (u8 list \<times> ctext) option" where
  "unicode_escape p = do {
     uc \<leftarrow> parse_hex4 (drop 1 p);
     let p = drop 4 p in
     if (uc \<ge> 0xDC00 \<and> uc \<le> 0xDFFF) \<or> uc = 0 then Some ([], p)
     else if uc \<ge> 0xD800 \<and> uc \<le> 0xDBFF then do {
       c \<leftarrow> hd_opt (drop 1 p);
       if c \<noteq> 92 then Some ([], p)
       else do {
         c \<leftarrow> hd_opt (drop 2 p);
         if c \<noteq> 117 then Some ([], p)
         else do {
           uc2 \<leftarrow> parse_hex4 (drop 3 p);
           let p = drop 6 p in
           if uc2 < 0xDC00 \<or> uc2 > 0xDFFF then Some ([], p)
           else Some (utf8 (0x10000 + (push_bit 10 (uc AND 0x3FF) OR (uc2 AND 0x3FF))), p)
         }
       }
     }
     else Some (utf8 uc, p)
   }"

definition escape_char :: "u8 \<Rightarrow> u8" where
  "escape_char c = (if c = 98 then 8 else if c = 102 then 12 else if c = 110 then 10 else if c = 114 then 13
     else if c = 116 then 9 else c)"

lemma unicode_escape_shorter: "unicode_escape p = Some (bs, q) \<Longrightarrow> length q \<le> length p"
  by (auto simp: unicode_escape_def bind_Some_iff Let_def split: if_splits)

text \<open>The second pass, into a block of \<open>cap\<close> bytes.\<close>

function unescape :: "nat \<Rightarrow> u8 list \<Rightarrow> ctext \<Rightarrow> (u8 list \<times> ctext) option" where
  "unescape cap out p =
     (case p of [] \<Rightarrow> None
      | c # cs \<Rightarrow>
          if c = 34 \<or> c = 0 then Some (out, c # cs)
          else if c \<noteq> 92 then (if length out < cap then unescape cap (out @ [c]) cs else None)
          else (case cs of [] \<Rightarrow> None
            | e # es \<Rightarrow>
                if e = 117 then
                  (case unicode_escape cs of None \<Rightarrow> None
                   | Some (bs, q) \<Rightarrow>
                       if length out + length bs \<le> cap then unescape cap (out @ bs) (drop 1 q) else None)
                else if length out < cap then unescape cap (out @ [escape_char e]) es else None))"
  by pat_completeness auto

termination
  by (relation "measure (\<lambda>(cap, out, p). length p)") (auto dest: unicode_escape_shorter)

definition parse_string :: "addr \<Rightarrow> ctext \<Rightarrow> 'd jmem \<Rightarrow> (ctext option \<times> 'd jmem) option" where
  "parse_string item str m = do {
     c \<leftarrow> hd_opt str;
     if c \<noteq> 34 then Some (None, m\<lparr>ep := Some str\<rparr>)
     else do {
       len \<leftarrow> scan_string (tl str) 0;
       let (out, m) = jmalloc m in
       if out = NULL then Some (None, m)
       else do {
         (bs, p) \<leftarrow> unescape (len + 1) [] (tl str);
         if length bs < len + 1 then do {
           c \<leftarrow> hd_opt p;
           m \<leftarrow> item_upd item (\<lambda>i. i\<lparr>jvaluestring := out, jtype := cJSON_String\<rparr>) (m\<lparr>jstrs := (jstrs m)(out \<mapsto> bs @ [0])\<rparr>);
           Some (Some (if c = 34 then tl p else p), m)
         } else None
       }
     }
   }"

text \<open>\<^verbatim>\<open>sprintf(ptr2, "u%04x", token)\<close>, behind the backslash.\<close>

definition hex_char :: "u8 \<Rightarrow> u8" where
  "hex_char d = (if d < 10 then 48 + d else 87 + d)"

definition escape_token :: "u8 \<Rightarrow> u8 list" where
  "escape_token c =
     (if c > 31 \<and> c \<noteq> 34 \<and> c \<noteq> 92 then [c]
      else if c = 92 then [92, 92] else if c = 34 then [92, 34] else if c = 8 then [92, 98]
      else if c = 12 then [92, 102] else if c = 10 then [92, 110] else if c = 13 then [92, 114]
      else if c = 9 then [92, 116]
      else [92, 117, 48, 48, hex_char (drop_bit 4 c), hex_char (c AND 15)])"

text \<open>What the first pass counts for a character.\<close>

definition escape_count :: "u8 \<Rightarrow> nat" where
  "escape_count c = (if c \<in> {34, 92, 8, 12, 10, 13, 9} then 2 else if c < 32 then 6 else 1)"

definition print_string_ptr :: "u8 list option \<Rightarrow> 'd jmem \<Rightarrow> (addr \<times> 'd jmem) option" where
  "print_string_ptr str m =
     (case str of None \<Rightarrow> cJSON_strdup (Some [0]) m
      | Some s \<Rightarrow> do {
          s \<leftarrow> c_string s;
          new_str (sum_list (map escape_count s) + 3) (34 # concat (map escape_token s) @ [34, 0]) m
        })"

definition print_string :: "addr \<Rightarrow> 'd jmem \<Rightarrow> (addr \<times> 'd jmem) option" where
  "print_string item m = do {
     p \<leftarrow> rd (jitems m) item jvaluestring;
     s \<leftarrow> str_at m p;
     print_string_ptr s m
   }"

subsection \<open>Parsing values\<close>

fun skip_text :: "ctext \<Rightarrow> ctext option" where
  "skip_text [] = None"
| "skip_text (c # cs) = (if c \<noteq> 0 \<and> c \<le> 32 then skip_text cs else Some (c # cs))"

definition skip :: "ctext option \<Rightarrow> ctext option option" where
  "skip t = (case t of None \<Rightarrow> Some None | Some t \<Rightarrow> map_option Some (skip_text t))"

text \<open>\<^verbatim>\<open>!strncmp(value, lit, strlen(lit))\<close>.\<close>

fun starts :: "u8 list \<Rightarrow> ctext \<Rightarrow> bool option" where
  "starts [] t = Some True"
| "starts (x # xs) [] = None"
| "starts (x # xs) (c # cs) = (if x = c then starts xs cs else Some False)"

abbreviation (input) lit_null :: "u8 list" where "lit_null \<equiv> [110, 117, 108, 108]"
abbreviation (input) lit_false :: "u8 list" where "lit_false \<equiv> [102, 97, 108, 115, 101]"
abbreviation (input) lit_true :: "u8 list" where "lit_true \<equiv> [116, 114, 117, 101]"

text \<open>
  \<^verbatim>\<open>parse_value\<close>, \<^verbatim>\<open>parse_array\<close> and \<^verbatim>\<open>parse_object\<close> call one another: the last two get the first as an argument,
  and a bound \<open>f\<close>, that limits the depth of the calls and the turns of each loop. A loop carries the child
  it has made and the text behind it.
\<close>

type_synonym 'd parser = "addr \<Rightarrow> ctext option \<Rightarrow> 'd jmem \<Rightarrow> (ctext option \<times> 'd jmem) option"

primrec parse_elements :: "'d double_ops \<Rightarrow> 'd parser \<Rightarrow> nat \<Rightarrow> addr \<Rightarrow> ctext \<Rightarrow> 'd jmem \<Rightarrow> (ctext option \<times> 'd jmem) option" where
  "parse_elements D pv 0 child value m = None"
| "parse_elements D pv (Suc f) child value m = do {
     c \<leftarrow> hd_opt value;
     if c = 44 then
       let (new_item, m) = cJSON_New_Item D m in
       if new_item = NULL then Some (None, m)
       else do {
         m \<leftarrow> suffix_object child new_item m;
         v \<leftarrow> skip (Some (tl value));
         (v, m) \<leftarrow> pv new_item v m;
         v \<leftarrow> skip v;
         case v of None \<Rightarrow> Some (None, m) | Some v \<Rightarrow> parse_elements D pv f new_item v m
       }
     else if c = 93 then Some (Some (tl value), m)
     else Some (None, m\<lparr>ep := Some value\<rparr>)
   }"

definition parse_array :: "'d double_ops \<Rightarrow> 'd parser \<Rightarrow> nat \<Rightarrow> addr \<Rightarrow> ctext \<Rightarrow> 'd jmem \<Rightarrow> (ctext option \<times> 'd jmem) option" where
  "parse_array D pv f item value m = do {
     c \<leftarrow> hd_opt value;
     if c \<noteq> 91 then Some (None, m\<lparr>ep := Some value\<rparr>)
     else do {
       m \<leftarrow> item_upd item (jtype_update (\<lambda>_. cJSON_Array)) m;
       v \<leftarrow> skip_text (tl value);
       c \<leftarrow> hd_opt v;
       if c = 93 then Some (Some (tl v), m)
       else
         let (child, m) = cJSON_New_Item D m in do {
           m \<leftarrow> item_upd item (jchild_update (\<lambda>_. child)) m;
           if child = NULL then Some (None, m)
           else do {
             v \<leftarrow> skip (Some v);
             (v, m) \<leftarrow> pv child v m;
             v \<leftarrow> skip v;
             case v of None \<Rightarrow> Some (None, m) | Some v \<Rightarrow> parse_elements D pv f child v m
           }
         }
     }
   }"

text \<open>One name and its value, and the rest of the loop.\<close>

primrec parse_members :: "'d double_ops \<Rightarrow> 'd parser \<Rightarrow> nat \<Rightarrow> addr \<Rightarrow> ctext \<Rightarrow> 'd jmem \<Rightarrow> (ctext option \<times> 'd jmem) option" where
  "parse_members D pv 0 child value m = None"
| "parse_members D pv (Suc f) child value m = do {
     v \<leftarrow> skip_text value;
     (v, m) \<leftarrow> parse_string child v m;
     v \<leftarrow> skip v;
     case v of None \<Rightarrow> Some (None, m)
     | Some v \<Rightarrow> do {
         m \<leftarrow> item_upd child (\<lambda>i. i\<lparr>jstring := jvaluestring i, jvaluestring := NULL\<rparr>) m;
         c \<leftarrow> hd_opt v;
         if c \<noteq> 58 then Some (None, m\<lparr>ep := Some v\<rparr>)
         else do {
           v \<leftarrow> skip (Some (tl v));
           (v, m) \<leftarrow> pv child v m;
           v \<leftarrow> skip v;
           case v of None \<Rightarrow> Some (None, m)
           | Some v \<Rightarrow> do {
               c \<leftarrow> hd_opt v;
               if c = 44 then
                 let (new_item, m) = cJSON_New_Item D m in
                 if new_item = NULL then Some (None, m)
                 else do {
                   m \<leftarrow> suffix_object child new_item m;
                   parse_members D pv f new_item (tl v) m
                 }
               else if c = 125 then Some (Some (tl v), m)
               else Some (None, m\<lparr>ep := Some v\<rparr>)
             }
         }
       }
   }"

definition parse_object :: "'d double_ops \<Rightarrow> 'd parser \<Rightarrow> nat \<Rightarrow> addr \<Rightarrow> ctext \<Rightarrow> 'd jmem \<Rightarrow> (ctext option \<times> 'd jmem) option" where
  "parse_object D pv f item value m = do {
     c \<leftarrow> hd_opt value;
     if c \<noteq> 123 then Some (None, m\<lparr>ep := Some value\<rparr>)
     else do {
       m \<leftarrow> item_upd item (jtype_update (\<lambda>_. cJSON_Object)) m;
       v \<leftarrow> skip_text (tl value);
       c \<leftarrow> hd_opt v;
       if c = 125 then Some (Some (tl v), m)
       else
         let (child, m) = cJSON_New_Item D m in do {
           m \<leftarrow> item_upd item (jchild_update (\<lambda>_. child)) m;
           if child = NULL then Some (None, m) else parse_members D pv f child v m
         }
     }
   }"

primrec parse_value :: "'d double_ops \<Rightarrow> nat \<Rightarrow> 'd parser" where
  "parse_value D 0 item value m = None"
| "parse_value D (Suc f) item value m =
     (case value of None \<Rightarrow> Some (None, m)
      | Some v \<Rightarrow> do {
          b \<leftarrow> starts lit_null v;
          if b then do { m \<leftarrow> item_upd item (jtype_update (\<lambda>_. cJSON_NULL)) m; Some (Some (drop 4 v), m) }
          else do {
            b \<leftarrow> starts lit_false v;
            if b then do { m \<leftarrow> item_upd item (jtype_update (\<lambda>_. cJSON_False)) m; Some (Some (drop 5 v), m) }
            else do {
              b \<leftarrow> starts lit_true v;
              if b then do {
                m \<leftarrow> item_upd item (\<lambda>i. i\<lparr>jtype := cJSON_True, jvalueint := 1\<rparr>) m;
                Some (Some (drop 4 v), m)
              }
              else do {
                c \<leftarrow> hd_opt v;
                if c = 34 then parse_string item v m
                else if c = 45 \<or> is_digit c then parse_number D item v m
                else if c = 91 then parse_array D (parse_value D f) f item v m
                else if c = 123 then parse_object D (parse_value D f) f item v m
                else Some (None, m\<lparr>ep := Some v\<rparr>)
              }
            }
          }
        })"

text \<open>The item, or null; the end of the value, when it was parsed; and the memory.\<close>

definition cJSON_ParseWithOpts ::
    "'d double_ops \<Rightarrow> nat \<Rightarrow> ctext option \<Rightarrow> bool \<Rightarrow> 'd jmem \<Rightarrow> (addr \<times> ctext option \<times> 'd jmem) option" where
  "cJSON_ParseWithOpts D f value require_null_terminated m =
     (let (c, m) = cJSON_New_Item D m; m = m\<lparr>ep := None\<rparr> in
      if c = NULL then Some (NULL, None, m)
      else do {
        v \<leftarrow> skip value;
        (e, m) \<leftarrow> parse_value D f c v m;
        case e of None \<Rightarrow> do { m \<leftarrow> cJSON_Delete f c m; Some (NULL, None, m) }
        | Some e \<Rightarrow>
            if require_null_terminated then do {
              e \<leftarrow> skip_text e;
              z \<leftarrow> hd_opt e;
              if z \<noteq> 0 then do { m \<leftarrow> cJSON_Delete f c m; Some (NULL, None, m\<lparr>ep := Some e\<rparr>) }
              else Some (c, Some e, m)
            } else Some (c, Some e, m)
      })"

definition cJSON_Parse :: "'d double_ops \<Rightarrow> nat \<Rightarrow> ctext option \<Rightarrow> 'd jmem \<Rightarrow> (addr \<times> 'd jmem) option" where
  "cJSON_Parse D f value m = do { (c, _, m) \<leftarrow> cJSON_ParseWithOpts D f value False m; Some (c, m) }"

definition cJSON_GetErrorPtr :: "'d jmem \<Rightarrow> ctext option" where
  "cJSON_GetErrorPtr m = ep m"

subsection \<open>Printing values\<close>

text \<open>
  The arrays of pointers a composite is printed through. \<open>set_ptr\<close> is a store into one; \<open>free_entries\<close> frees
  the strings of an array that are not null.
\<close>

definition new_ptrs :: "nat \<Rightarrow> 'd jmem \<Rightarrow> addr \<times> 'd jmem" where
  "new_ptrs n m =
     (let (p, m) = jmalloc m in
      if p = NULL then (NULL, m) else (p, m\<lparr>jptrs := (jptrs m)(p \<mapsto> replicate n NULL)\<rparr>))"

definition set_ptr :: "addr \<Rightarrow> nat \<Rightarrow> addr \<Rightarrow> 'd jmem \<Rightarrow> 'd jmem option" where
  "set_ptr p i q m = do {
     xs \<leftarrow> load (jptrs m) p;
     xs \<leftarrow> arr_set xs i q;
     Some (m\<lparr>jptrs := (jptrs m)(p \<mapsto> xs)\<rparr>)
   }"

definition free_ptrs :: "addr \<Rightarrow> 'd jmem \<Rightarrow> 'd jmem option" where
  "free_ptrs p m = map_option (\<lambda>h. m\<lparr>jptrs := h\<rparr>) (release (jptrs m) p)"

fun free_entries :: "addr list \<Rightarrow> 'd jmem \<Rightarrow> 'd jmem option" where
  "free_entries [] m = Some m"
| "free_entries (p # ps) m = do {
     m \<leftarrow> (if p \<noteq> NULL then free_str p m else Some m);
     free_entries ps m
   }"

definition string_at :: "'d jmem \<Rightarrow> addr \<Rightarrow> u8 list option" where
  "string_at m p = do { s \<leftarrow> load (jstrs m) p; c_string s }"

type_synonym 'd printer = "addr \<Rightarrow> int \<Rightarrow> bool \<Rightarrow> 'd jmem \<Rightarrow> (addr \<times> 'd jmem) option"

text \<open>The loop that prints the elements: the length so far, and whether it failed.\<close>

primrec print_elements ::
    "'d printer \<Rightarrow> nat \<Rightarrow> addr \<Rightarrow> nat \<Rightarrow> addr \<Rightarrow> int \<Rightarrow> bool \<Rightarrow> nat \<Rightarrow> 'd jmem \<Rightarrow> (bool \<times> nat \<times> 'd jmem) option" where
  "print_elements pv 0 entries i child depth fmt len m = None"
| "print_elements pv (Suc f) entries i child depth fmt len m =
     (if child = NULL then Some (False, len, m)
      else do {
        (ret, m) \<leftarrow> pv child (depth + 1) fmt m;
        m \<leftarrow> set_ptr entries i ret m;
        if ret = NULL then Some (True, len, m)
        else do {
          s \<leftarrow> string_at m ret;
          n \<leftarrow> rd (jitems m) child jnext;
          print_elements pv f entries (Suc i) n depth fmt (len + length s + 2 + (if fmt then 1 else 0)) m
        }
      })"

text \<open>The elements with their separators; each string is freed behind its copy.\<close>

fun compose_array :: "bool \<Rightarrow> addr list \<Rightarrow> 'd jmem \<Rightarrow> (u8 list \<times> 'd jmem) option" where
  "compose_array fmt [] m = Some ([], m)"
| "compose_array fmt (p # ps) m = do {
     s \<leftarrow> string_at m p;
     m \<leftarrow> free_str p m;
     (rest, m) \<leftarrow> compose_array fmt ps m;
     Some (s @ (if ps \<noteq> [] then 44 # (if fmt then [32] else []) else []) @ rest, m)
   }"

definition print_array :: "'d printer \<Rightarrow> nat \<Rightarrow> addr \<Rightarrow> int \<Rightarrow> bool \<Rightarrow> 'd jmem \<Rightarrow> (addr \<times> 'd jmem) option" where
  "print_array pv f item depth fmt m = do {
     child \<leftarrow> rd (jitems m) item jchild;
     numentries \<leftarrow> count_items (jitems m) child 0;
     if numentries = 0 then new_str 3 [91, 93, 0] m
     else
       let (entries, m) = new_ptrs (nat numentries) m in
       if entries = NULL then Some (NULL, m)
       else do {
         (fail, len, m) \<leftarrow> print_elements pv f entries 0 child depth fmt 5 m;
         let (out, m) = (if fail then (NULL, m) else jmalloc m) in do {
           ps \<leftarrow> load (jptrs m) entries;
           if out = NULL then do {
             m \<leftarrow> free_entries ps m;
             m \<leftarrow> free_ptrs entries m;
             Some (NULL, m)
           }
           else do {
             (body, m) \<leftarrow> compose_array fmt ps m;
             m \<leftarrow> free_ptrs entries m;
             let json = 91 # body @ [93, 0] in
             if length json \<le> len then Some (out, m\<lparr>jstrs := (jstrs m)(out \<mapsto> json)\<rparr>) else None
           }
         }
       }
   }"

text \<open>The loop that prints the members does not stop at a failure.\<close>

primrec print_members ::
    "'d printer \<Rightarrow> nat \<Rightarrow> addr \<Rightarrow> addr \<Rightarrow> nat \<Rightarrow> addr \<Rightarrow> int \<Rightarrow> bool \<Rightarrow> nat \<Rightarrow> bool \<Rightarrow> 'd jmem \<Rightarrow> (bool \<times> nat \<times> 'd jmem) option" where
  "print_members pv 0 names entries i child depth fmt len fail m = None"
| "print_members pv (Suc f) names entries i child depth fmt len fail m =
     (if child = NULL then Some (fail, len, m)
      else do {
        p \<leftarrow> rd (jitems m) child jstring;
        s \<leftarrow> str_at m p;
        (str, m) \<leftarrow> print_string_ptr s m;
        m \<leftarrow> set_ptr names i str m;
        (ret, m) \<leftarrow> pv child depth fmt m;
        m \<leftarrow> set_ptr entries i ret m;
        n \<leftarrow> rd (jitems m) child jnext;
        if str \<noteq> NULL \<and> ret \<noteq> NULL then do {
          r \<leftarrow> string_at m ret;
          s \<leftarrow> string_at m str;
          print_members pv f names entries (Suc i) n depth fmt
            (len + length r + length s + 2 + (if fmt then 2 + nat depth else 0)) fail m
        }
        else print_members pv f names entries (Suc i) n depth fmt len True m
      })"

fun compose_object :: "bool \<Rightarrow> nat \<Rightarrow> (addr \<times> addr) list \<Rightarrow> 'd jmem \<Rightarrow> (u8 list \<times> 'd jmem) option" where
  "compose_object fmt depth [] m = Some ([], m)"
| "compose_object fmt depth ((p, q) # ps) m = do {
     s \<leftarrow> string_at m p;
     r \<leftarrow> string_at m q;
     m \<leftarrow> free_str p m;
     m \<leftarrow> free_str q m;
     (rest, m) \<leftarrow> compose_object fmt depth ps m;
     Some ((if fmt then replicate depth 9 else []) @ s @ 58 # (if fmt then [9] else []) @ r @
       (if ps \<noteq> [] then [44] else []) @ (if fmt then [10] else []) @ rest, m)
   }"

fun free_pairs :: "(addr \<times> addr) list \<Rightarrow> 'd jmem \<Rightarrow> 'd jmem option" where
  "free_pairs [] m = Some m"
| "free_pairs ((p, q) # ps) m = do {
     m \<leftarrow> (if p \<noteq> NULL then free_str p m else Some m);
     m \<leftarrow> (if q \<noteq> NULL then free_str q m else Some m);
     free_pairs ps m
   }"

definition print_object :: "'d printer \<Rightarrow> nat \<Rightarrow> addr \<Rightarrow> int \<Rightarrow> bool \<Rightarrow> 'd jmem \<Rightarrow> (addr \<times> 'd jmem) option" where
  "print_object pv f item depth fmt m = do {
     child \<leftarrow> rd (jitems m) item jchild;
     numentries \<leftarrow> count_items (jitems m) child 0;
     if numentries = 0 then
       new_str (if fmt then nat (depth + 4) else 3)
         (123 # (if fmt then 10 # replicate (nat (depth - 1)) 9 else []) @ [125, 0]) m
     else
       let (entries, m) = new_ptrs (nat numentries) m in
       if entries = NULL then Some (NULL, m)
       else
         let (names, m) = new_ptrs (nat numentries) m in
         if names = NULL then map_option (Pair NULL) (free_ptrs entries m)
         else
           let depth = depth + 1 in do {
             (fail, len, m) \<leftarrow> print_members pv f names entries 0 child depth fmt (7 + (if fmt then nat depth else 0)) False m;
             let (out, m) = (if fail then (NULL, m) else jmalloc m) in do {
               ns \<leftarrow> load (jptrs m) names;
               es \<leftarrow> load (jptrs m) entries;
               if out = NULL then do {
                 m \<leftarrow> free_pairs (zip ns es) m;
                 m \<leftarrow> free_ptrs names m;
                 m \<leftarrow> free_ptrs entries m;
                 Some (NULL, m)
               }
               else do {
                 (body, m) \<leftarrow> compose_object fmt (nat depth) (zip ns es) m;
                 m \<leftarrow> free_ptrs names m;
                 m \<leftarrow> free_ptrs entries m;
                 let json = 123 # (if fmt then [10] else []) @ body @
                   (if fmt then replicate (nat (depth - 1)) 9 else []) @ [125, 0] in
                 if length json \<le> len then Some (out, m\<lparr>jstrs := (jstrs m)(out \<mapsto> json)\<rparr>) else None
               }
             }
           }
   }"

text \<open>The item or null, the nesting depth, and whether to format; the text or null.\<close>

primrec print_value :: "'d double_ops \<Rightarrow> nat \<Rightarrow> 'd printer" where
  "print_value D 0 item depth fmt m = None"
| "print_value D (Suc f) item depth fmt m =
     (if item = NULL then Some (NULL, m)
      else do {
        t \<leftarrow> rd (jitems m) item jtype;
        let t = t AND 255 in
        if t = cJSON_NULL then cJSON_strdup (Some (lit_null @ [0])) m
        else if t = cJSON_False then cJSON_strdup (Some (lit_false @ [0])) m
        else if t = cJSON_True then cJSON_strdup (Some (lit_true @ [0])) m
        else if t = cJSON_Number then print_number D item m
        else if t = cJSON_String then print_string item m
        else if t = cJSON_Array then print_array (print_value D f) f item depth fmt m
        else if t = cJSON_Object then print_object (print_value D f) f item depth fmt m
        else Some (NULL, m)
      })"

definition cJSON_Print :: "'d double_ops \<Rightarrow> nat \<Rightarrow> addr \<Rightarrow> 'd jmem \<Rightarrow> (addr \<times> 'd jmem) option" where
  "cJSON_Print D f item m = print_value D f item 0 True m"

definition cJSON_PrintUnformatted :: "'d double_ops \<Rightarrow> nat \<Rightarrow> addr \<Rightarrow> 'd jmem \<Rightarrow> (addr \<times> 'd jmem) option" where
  "cJSON_PrintUnformatted D f item m = print_value D f item 0 False m"

subsection \<open>Minifying\<close>

text \<open>
  \<^verbatim>\<open>cJSON_Minify\<close> works in place, but never reads at a place it has written before: the text is consumed
  and the output collected.
\<close>

fun minify_line :: "ctext \<Rightarrow> ctext option" where
  "minify_line [] = None"
| "minify_line (c # cs) = (if c \<noteq> 0 \<and> c \<noteq> 10 then minify_line cs else Some (c # cs))"

fun minify_comment :: "ctext \<Rightarrow> ctext option" where
  "minify_comment [] = None"
| "minify_comment (c # cs) =
     (if c = 0 then Some (c # cs)
      else if c = 42 then (case cs of [] \<Rightarrow> None | e # _ \<Rightarrow> if e = 47 then Some (c # cs) else minify_comment cs)
      else minify_comment cs)"

fun minify_string :: "u8 list \<Rightarrow> ctext \<Rightarrow> (u8 list \<times> ctext) option" where
  "minify_string out [] = None"
| "minify_string out (c # cs) =
     (if c = 0 \<or> c = 34 then Some (out, c # cs)
      else if c = 92 then (case cs of [] \<Rightarrow> None | e # es \<Rightarrow> minify_string (out @ [c, e]) es)
      else minify_string (out @ [c]) cs)"

lemma minify_shorter:
  "minify_line t = Some r \<Longrightarrow> length r \<le> length t" "minify_comment t = Some r \<Longrightarrow> length r \<le> length t"
  "minify_string out t = Some (out', r) \<Longrightarrow> length r \<le> length t"
proof -
  show "minify_line t = Some r \<Longrightarrow> length r \<le> length t"
    by (induction t rule: minify_line.induct) (auto split: if_splits)
  show "minify_comment t = Some r \<Longrightarrow> length r \<le> length t"
    by (induction t rule: minify_comment.induct) (auto split: if_splits list.splits)
  show "minify_string out t = Some (out', r) \<Longrightarrow> length r \<le> length t"
    by (induction out t rule: minify_string.induct) (auto split: if_splits list.splits)
qed

lemma minify_slash_shorter: "minify_line (47 # cs) = Some r \<Longrightarrow> length r \<le> length cs"
  using minify_shorter(1) [of cs r] by simp

function minify :: "u8 list \<Rightarrow> ctext \<Rightarrow> u8 list option" where
  "minify out t =
     (case t of [] \<Rightarrow> None
      | c # cs \<Rightarrow>
          if c = 0 then Some out
          else if c = 32 \<or> c = 9 \<or> c = 13 \<or> c = 10 then minify out cs
          else if c = 47 then
            (case cs of [] \<Rightarrow> None
             | e # es \<Rightarrow>
                 if e = 47 then (case minify_line t of None \<Rightarrow> None | Some r \<Rightarrow> minify out r)
                 else if e = 42 then (case minify_comment t of None \<Rightarrow> None | Some r \<Rightarrow> minify out (drop 2 r))
                 else minify (out @ [c]) cs)
          else if c = 34 then
            (case minify_string (out @ [c]) cs of None \<Rightarrow> None
             | Some (out, []) \<Rightarrow> None
             | Some (out, e # es) \<Rightarrow> minify (out @ [e]) es)
          else minify (out @ [c]) cs)"
  by pat_completeness auto

termination
  by (relation "measure (\<lambda>(out, t). length t)") (auto dest!: minify_shorter(2,3) minify_slash_shorter simp del: minify_comment.simps minify_line.simps)

definition cJSON_Minify :: "ctext \<Rightarrow> u8 list option" where
  "cJSON_Minify json = do {
     out \<leftarrow> minify [] json;
     Some (out @ [0] @ drop (length out + 1) json)
   }"

end
