(* ===== verification/CJsonString.thy ===== *)
theory CJsonString
  imports CJsonText
begin

text \<open>
  Strings of \<^verbatim>\<open>cJSON.c\<close>: what printing escapes, parsing gives back.
\<close>

lemma unescape_plain:
  "c \<noteq> 34 \<Longrightarrow> c \<noteq> 0 \<Longrightarrow> c \<noteq> 92 \<Longrightarrow> unescape cap out (c # t) = (if length out < cap then unescape cap (out @ [c]) t else None)"
  by (subst unescape.simps) simp

lemma unescape_stop: "c = 34 \<or> c = 0 \<Longrightarrow> unescape cap out (c # t) = Some (out, c # t)"
  by (subst unescape.simps) simp

lemma unescape_escape:
  "e \<noteq> 117 \<Longrightarrow> unescape cap out (92 # e # t) = (if length out < cap then unescape cap (out @ [escape_char e]) t else None)"
  by (subst unescape.simps) simp

lemma unescape_unicode:
  "unicode_escape (117 # t) = Some (bs, q) \<Longrightarrow>
   unescape cap out (92 # 117 # t) = (if length out + length bs \<le> cap then unescape cap (out @ bs) (drop 1 q) else None)"
  by (subst unescape.simps) simp

declare unescape.simps [simp del]

text \<open>Facts about few characters, by evaluation.\<close>

lemma small_byte:
  assumes "unat (c :: u8) < n" and "list_all P (map of_nat [0..<n])"
  shows "P c"
proof -
  have "unat c \<in> set [0..<n]" using assms(1) by simp
  then have "of_nat (unat c) \<in> (of_nat ` set [0..<n] :: u8 set)" by (rule imageI)
  then have "c \<in> set (map of_nat [0..<n])" by simp
  then show ?thesis using assms(2) unfolding list_all_iff by blast
qed

lemma hex_round:
  assumes "d < (16 :: u8)"
  shows "hex_digit (hex_char d) = Some (ucast d)"
  by (rule small_byte [of d 16]) (use assms in \<open>simp add: word_less_nat_alt\<close>, code_simp)

lemma control_round:
  assumes "c < (32 :: u8)"
  shows "drop_bit 4 c < 16 \<and> c AND 15 < 16 \<and> push_bit 4 (ucast (drop_bit 4 c)) + ucast (c AND 15) = (ucast c :: u32) \<and>
    utf8 (ucast c) = [c] \<and> \<not> 0xD800 \<le> (ucast c :: u32) \<and> \<not> 0xDC00 \<le> (ucast c :: u32) \<and> (c \<noteq> 0 \<longrightarrow> (ucast c :: u32) \<noteq> 0)"
  by (rule small_byte [of c 32]) (use assms in \<open>simp add: word_less_nat_alt\<close>, code_simp)

lemma unicode_control:
  assumes "c < 32" "c \<noteq> 0"
  shows "unicode_escape (117 # 48 # 48 # hex_char (drop_bit 4 c) # hex_char (c AND 15) # t) = Some ([c], hex_char (c AND 15) # t)"
proof -
  note r = control_round [OF assms(1)]
  have z: "hex_digit 48 = Some 0" by (simp add: hex_digit_def)
  have "parse_hex4 (48 # 48 # hex_char (drop_bit 4 c) # hex_char (c AND 15) # t) = Some (ucast c)"
    using r hex_round [of "drop_bit 4 c"] hex_round [of "c AND 15"] z by (simp add: parse_hex4_def eval_nat_numeral)
  then show ?thesis using r assms(2) by (auto simp: unicode_escape_def Let_def)
qed

lemma unescape_token:
  assumes "c \<noteq> 0" "length out < cap"
  shows "unescape cap out (escape_token c @ t) = unescape cap (out @ [c]) t"
proof -
  consider "c > 31 \<and> c \<noteq> 34 \<and> c \<noteq> 92" | "c \<in> {34, 92, 8, 12, 10, 13, 9}" | "c < 32" "c \<notin> {34, 92, 8, 12, 10, 13, 9}"
    by (fastforce simp: word_less_nat_alt)
  then show ?thesis
  proof cases
    case 1
    then show ?thesis using assms by (simp add: escape_token_def unescape_plain)
  next
    case 2
    then show ?thesis using assms by (auto simp: escape_token_def unescape_escape escape_char_def)
  next
    case 3
    then show ?thesis using assms unicode_control [OF 3(1) assms(1), of t]
      by (auto simp: escape_token_def unescape_unicode word_less_nat_alt)
  qed
qed

lemma unescape_escaped:
  "0 \<notin> set s \<Longrightarrow> length out + length s \<le> cap \<Longrightarrow>
   unescape cap out (concat (map escape_token s) @ 34 # t) = Some (out @ s, 34 # t)"
proof (induction s arbitrary: out)
  case Nil
  then show ?case by (simp add: unescape_stop)
next
  case (Cons c s)
  then show ?case using unescape_token [of c out cap] by simp
qed

lemma scan_token:
  assumes "c \<noteq> 0"
  shows "\<exists>k. 0 < k \<and> scan_string (escape_token c @ t) len = scan_string t (len + k)"
proof -
  have h: "hex_char d \<noteq> 34 \<and> hex_char d \<noteq> 0 \<and> hex_char d \<noteq> 92" if "d < 16" for d
    by (rule small_byte [of d 16]) (use that in \<open>simp add: word_less_nat_alt\<close>, code_simp)
  consider "c > 31 \<and> c \<noteq> 34 \<and> c \<noteq> 92" | "c \<in> {34, 92, 8, 12, 10, 13, 9}" | "c < 32" "c \<notin> {34, 92, 8, 12, 10, 13, 9}"
    by (fastforce simp: word_less_nat_alt)
  then show ?thesis
  proof cases
    case 1
    then show ?thesis using assms by (intro exI [of _ 1]) (simp add: escape_token_def)
  next
    case 2
    then show ?thesis by (intro exI [of _ 1]) (auto simp: escape_token_def)
  next
    case 3
    have "\<not> c > 31" using 3(1) by (simp add: word_less_nat_alt)
    then have "escape_token c = [92, 117, 48, 48, hex_char (drop_bit 4 c), hex_char (c AND 15)]"
      using 3(2) by (simp add: escape_token_def)
    then have "scan_string (escape_token c @ t) len = scan_string t (Suc (Suc (Suc (Suc (Suc len)))))"
      using h [of "drop_bit 4 c"] h [of "c AND 15"] control_round [OF 3(1)] by simp
    then show ?thesis by (intro exI [of _ "Suc (Suc (Suc (Suc (Suc 0))))"]) simp
  qed
qed

lemma scan_escaped:
  "0 \<notin> set s \<Longrightarrow> \<exists>k. length s \<le> k \<and> scan_string (concat (map escape_token s) @ 34 # t) len = Some (len + k)"
proof (induction s arbitrary: len)
  case (Cons c s)
  then obtain k where k: "0 < k" "scan_string (escape_token c @ concat (map escape_token s) @ 34 # t) len =
      scan_string (concat (map escape_token s) @ 34 # t) (len + k)"
    using scan_token [of c "concat (map escape_token s) @ 34 # t" len] by auto
  moreover obtain j where "length s \<le> j" "scan_string (concat (map escape_token s) @ 34 # t) (len + k) = Some (len + k + j)"
    using Cons by auto
  ultimately show ?case by (intro exI [of _ "k + j"]) simp
qed (auto intro: exI [of _ 0])

lemma escape_count_fits: "length (escape_token c) \<le> escape_count c"
  by (rule small_byte [of c 256]) (use unsigned_less [of c, where ?'a = nat] in simp, code_simp)

lemma escaped_fits: "length (concat (map escape_token s)) \<le> sum_list (map escape_count s)"
  by (induction s) (use escape_count_fits in \<open>auto intro: add_mono\<close>)

lemma jmalloc_Cons [simp]: "jplan m = a # as \<Longrightarrow> jmalloc m = (a, m\<lparr>jplan := as\<rparr>)"
  by (simp add: jmalloc_def)

lemma print_string_ok:
  assumes s: "0 \<notin> set s" and a: "jplan m = a # as" "a \<noteq> NULL"
  shows "print_string_ptr (Some (s @ 0 # r)) m =
    Some (a, m\<lparr>jplan := as, jstrs := (jstrs m)(a \<mapsto> 34 # concat (map escape_token s) @ [34, 0])\<rparr>)"
  using a escaped_fits [of s] by (simp add: print_string_ptr_def c_string_append [OF s] new_str_def)

lemma parse_string_ok:
  assumes s: "0 \<notin> set s" and a: "jplan m = a # as" "a \<noteq> NULL" and i: "item \<noteq> NULL" "jitems m item = Some c"
  shows "parse_string item (34 # concat (map escape_token s) @ 34 # t) m =
    Some (Some t, m\<lparr>jplan := as, jstrs := (jstrs m)(a \<mapsto> s @ [0]),
      jitems := (jitems m)(item \<mapsto> c\<lparr>jvaluestring := a, jtype := cJSON_String\<rparr>)\<rparr>)"
proof -
  obtain k where k: "length s \<le> k" "scan_string (concat (map escape_token s) @ 34 # t) 0 = Some k"
    using scan_escaped [OF s, of t 0] by auto
  have "unescape (k + 1) [] (concat (map escape_token s) @ 34 # t) = Some (s, 34 # t)"
    using unescape_escaped [OF s, of "[]" "k + 1" t] k(1) by simp
  then show ?thesis using k a i by (simp add: parse_string_def item_upd_def)
qed

end
