(* ===== verification/CJsonList.thy ===== *)
theory CJsonList
  imports CJsonString
begin

text \<open>
  The children of an item as a list, linked both ways, and what appending to it and taking out of it do
  to the heap.
\<close>

subsection \<open>The children of an item\<close>

text \<open>\<open>dll h p prev xs\<close>: from \<open>p\<close> on the items \<open>xs\<close> are linked both ways, the first one back to \<open>prev\<close>.\<close>

primrec dll :: "'d cJSON heap \<Rightarrow> addr \<Rightarrow> addr \<Rightarrow> addr list \<Rightarrow> bool" where
  "dll h p prev [] \<longleftrightarrow> p = NULL"
| "dll h p prev (x # xs) \<longleftrightarrow> p = x \<and> x \<noteq> NULL \<and> (\<exists>c. h x = Some c \<and> jprev c = prev \<and> dll h (jnext c) x xs)"

definition children :: "'d jmem \<Rightarrow> addr \<Rightarrow> addr list \<Rightarrow> bool" where
  "children m a xs \<longleftrightarrow> a \<noteq> NULL \<and> (\<exists>c. jitems m a = Some c \<and> dll (jitems m) (jchild c) NULL xs) \<and> distinct (a # xs)"

lemma dll_cong: "(\<And>x. x \<in> set xs \<Longrightarrow> h' x = h x) \<Longrightarrow> dll h' p prev xs = dll h p prev xs"
  by (induction xs arbitrary: p prev) auto

lemma dll_upd [simp]: "x \<notin> set xs \<Longrightarrow> dll (h(x := c)) p prev xs = dll h p prev xs"
  by (rule dll_cong) auto

lemma count_items_ok:
  "dll h p prev xs \<Longrightarrow> i + int (length xs) < 2 ^ 31 \<Longrightarrow> count_items h p i = Some (i + int (length xs))"
proof (induction xs arbitrary: p prev i)
  case Nil
  then show ?case by (simp add: count_items.simps)
next
  case (Cons x xs)
  then obtain c where "p = x" "x \<noteq> NULL" "h x = Some c" "dll h (jnext c) x xs" by auto
  then show ?case using Cons.IH [of "jnext c" x "i + 1"] Cons.prems(2)
    by (subst count_items.simps) simp
qed

lemma walk_items_ok:
  "dll h p prev xs \<Longrightarrow> walk_items h p i = Some (if nat i < length xs then xs ! nat i else NULL)"
proof (induction xs arbitrary: p prev i)
  case Nil
  then show ?case by (simp add: walk_items.simps)
next
  case (Cons x xs)
  then obtain c where c: "p = x" "x \<noteq> NULL" "h x = Some c" "dll h (jnext c) x xs" by auto
  show ?case
  proof (cases "i > 0")
    case True
    then have "nat i = Suc (nat (i - 1))" by simp
    then show ?thesis using c True Cons.IH [OF c(4), of "i - 1"] by (subst walk_items.simps) simp
  next
    case False
    then show ?thesis using c by (subst walk_items.simps) simp
  qed
qed

lemma last_item_ok: "dll h p prev xs \<Longrightarrow> xs \<noteq> [] \<Longrightarrow> last_item h p = Some (last xs)"
proof (induction xs arbitrary: p prev)
  case (Cons x xs)
  then obtain c where c: "p = x" "x \<noteq> NULL" "h x = Some c" "dll h (jnext c) x xs" by auto
  show ?case
  proof (cases xs)
    case Nil
    then show ?thesis using c by (subst last_item.simps) simp
  next
    case (Cons y ys)
    then have "jnext c \<noteq> NULL" using c(4) by auto
    then show ?thesis using c Cons.IH [OF c(4)] Cons by (subst last_item.simps) simp
  qed
qed simp

lemma dll_nth_link:
  "dll h p prev xs \<Longrightarrow> i < length xs \<Longrightarrow> \<exists>c. h (xs ! i) = Some c \<and> xs ! i \<noteq> NULL \<and>
     jprev c = (if i = 0 then prev else xs ! (i - 1)) \<and> jnext c = (if Suc i < length xs then xs ! Suc i else NULL)"
proof (induction xs arbitrary: p prev i)
  case (Cons x xs)
  then obtain c where c: "p = x" "x \<noteq> NULL" "h x = Some c" "jprev c = prev" "dll h (jnext c) x xs" by auto
  show ?case
  proof (cases i)
    case 0
    have "jnext c = (if xs = [] then NULL else xs ! 0)" using c(5) by (cases xs) auto
    then show ?thesis using c 0 by simp
  next
    case (Suc j)
    then show ?thesis using Cons.IH [OF c(5), of j] Cons.prems(2) by (cases j) auto
  qed
qed simp

text \<open>The links, item by item.\<close>

definition linked :: "addr \<Rightarrow> addr list \<Rightarrow> nat \<Rightarrow> 'd cJSON \<Rightarrow> bool" where
  "linked prev xs i c \<longleftrightarrow> jprev c = (if i = 0 then prev else xs ! (i - 1)) \<and>
     jnext c = (if Suc i < length xs then xs ! Suc i else NULL)"

lemma dll_links:
  fixes h :: "'d cJSON heap"
  shows "dll h p prev xs \<longleftrightarrow> p = (if xs = [] then NULL else hd xs) \<and>
     (\<forall>i<length xs. xs ! i \<noteq> NULL \<and> (\<exists>c. h (xs ! i) = Some c \<and> linked prev xs i c))"
proof (induction xs arbitrary: p prev)
  case (Cons x xs)
  have "dll h p prev (x # xs) \<longleftrightarrow> p = x \<and> x \<noteq> NULL \<and> (\<exists>c. h x = Some c \<and> jprev c = prev \<and>
      jnext c = (if xs = [] then NULL else hd xs) \<and>
      (\<forall>i<length xs. xs ! i \<noteq> NULL \<and> (\<exists>c. h (xs ! i) = Some c \<and> linked x xs i c)))"
    unfolding dll.simps Cons.IH by blast
  also have "\<dots> \<longleftrightarrow> p = x \<and> (\<forall>i<length (x # xs). (x # xs) ! i \<noteq> NULL \<and>
      (\<exists>c. h ((x # xs) ! i) = Some c \<and> linked prev (x # xs) i c))"
    unfolding length_Cons
  proof -
    have "linked prev (x # xs) 0 c \<longleftrightarrow> jprev c = prev \<and> jnext c = (if xs = [] then NULL else hd xs)" for c :: "'d cJSON"
      by (cases xs) (auto simp: linked_def)
    moreover have "linked prev (x # xs) (Suc i) c \<longleftrightarrow> linked x xs i c" for c :: "'d cJSON" and i
      by (cases i) (auto simp: linked_def)
    ultimately show "(p = x \<and> x \<noteq> NULL \<and> (\<exists>c. h x = Some c \<and> jprev c = prev \<and> jnext c = (if xs = [] then NULL else hd xs) \<and>
        (\<forall>i<length xs. xs ! i \<noteq> NULL \<and> (\<exists>c. h (xs ! i) = Some c \<and> linked x xs i c)))) =
      (p = x \<and> (\<forall>i<Suc (length xs). (x # xs) ! i \<noteq> NULL \<and> (\<exists>c. h ((x # xs) ! i) = Some c \<and> linked prev (x # xs) i c)))"
      unfolding All_less_Suc2 by auto
  qed
  finally show ?case by simp
qed simp

lemma children_links:
  "children m a xs \<longleftrightarrow> a \<noteq> NULL \<and> distinct (a # xs) \<and>
     (\<exists>c. jitems m a = Some c \<and> jchild c = (if xs = [] then NULL else hd xs)) \<and>
     (\<forall>i<length xs. xs ! i \<noteq> NULL \<and> (\<exists>c. jitems m (xs ! i) = Some c \<and> linked NULL xs i c))"
  unfolding children_def dll_links by blast

lemma item_upd_Some [simp]: "p \<noteq> NULL \<Longrightarrow> jitems m p = Some c \<Longrightarrow> item_upd p f m = Some (m\<lparr>jitems := (jitems m)(p \<mapsto> f c)\<rparr>)"
  by (simp add: item_upd_def)

text \<open>Only the links of the items \<open>X\<close> have changed, and which item is the first of \<open>a\<close>.\<close>

definition relinked :: "addr \<Rightarrow> addr set \<Rightarrow> 'd jmem \<Rightarrow> 'd jmem \<Rightarrow> bool" where
  "relinked a X m m' \<longleftrightarrow> (\<exists>h. m' = m\<lparr>jitems := h\<rparr> \<and> dom h = dom (jitems m) \<and>
     (\<forall>x c. jitems m x = Some c \<longrightarrow> (\<exists>n p ch. h x = Some (c\<lparr>jnext := n, jprev := p, jchild := ch\<rparr>) \<and>
        (x \<notin> X \<longrightarrow> n = jnext c \<and> p = jprev c) \<and> (x \<noteq> a \<longrightarrow> ch = jchild c))))"

lemma relinked_refl: "relinked a X m m"
  unfolding relinked_def
proof (intro exI [of _ "jitems m"] conjI allI impI)
  fix x c assume "jitems m x = Some c"
  then show "\<exists>n p ch. jitems m x = Some (c\<lparr>jnext := n, jprev := p, jchild := ch\<rparr>) \<and>
      (x \<notin> X \<longrightarrow> n = jnext c \<and> p = jprev c) \<and> (x \<noteq> a \<longrightarrow> ch = jchild c)"
    by (intro exI [of _ "jnext c"] exI [of _ "jprev c"] exI [of _ "jchild c"]) simp
qed simp_all

lemma relinked_upd:
  assumes r: "relinked a X m m'" and x: "jitems m' x = Some c" and f: "f c = c\<lparr>jnext := n, jprev := p, jchild := ch\<rparr>"
    and X: "x \<notin> X \<Longrightarrow> n = jnext c \<and> p = jprev c" "x \<noteq> a \<Longrightarrow> ch = jchild c"
  shows "relinked a X m (m'\<lparr>jitems := (jitems m')(x \<mapsto> f c)\<rparr>)"
proof -
  from r obtain h where h: "m' = m\<lparr>jitems := h\<rparr>" "dom h = dom (jitems m)"
    "\<And>x c. jitems m x = Some c \<Longrightarrow> \<exists>n p ch. h x = Some (c\<lparr>jnext := n, jprev := p, jchild := ch\<rparr>) \<and>
        (x \<notin> X \<longrightarrow> n = jnext c \<and> p = jprev c) \<and> (x \<noteq> a \<longrightarrow> ch = jchild c)"
    unfolding relinked_def by blast
  have hx: "h x = Some c" using x h(1) by simp
  have "\<exists>n p ch. (h(x \<mapsto> f c)) y = Some (d\<lparr>jnext := n, jprev := p, jchild := ch\<rparr>) \<and>
        (y \<notin> X \<longrightarrow> n = jnext d \<and> p = jprev d) \<and> (y \<noteq> a \<longrightarrow> ch = jchild d)" if y: "jitems m y = Some d" for y d
  proof (cases "y = x")
    case True
    from h(3) [OF y] obtain n0 p0 c0 where o: "h y = Some (d\<lparr>jnext := n0, jprev := p0, jchild := c0\<rparr>)"
      "y \<notin> X \<longrightarrow> n0 = jnext d \<and> p0 = jprev d" "y \<noteq> a \<longrightarrow> c0 = jchild d" by blast
    then have "c = d\<lparr>jnext := n0, jprev := p0, jchild := c0\<rparr>" using hx True by simp
    then show ?thesis using o X f True by (intro exI [of _ n] exI [of _ p] exI [of _ ch]) auto
  next
    case False
    then show ?thesis using h(3) [OF y] by simp
  qed
  moreover have "dom (h(x \<mapsto> f c)) = dom (jitems m)" using h(2) hx by auto
  ultimately show ?thesis unfolding relinked_def using h(1) by (intro exI [of _ "h(x \<mapsto> f c)"]) simp
qed

subsection \<open>Appending\<close>

lemma AddItemToArray_ok:
  assumes ch: "children m a xs" and it: "item \<noteq> NULL" "item \<notin> set (a # xs)" "jitems m item = Some ci" "jnext ci = NULL" "jprev ci = NULL"
  shows "\<exists>m'. cJSON_AddItemToArray a item m = Some m' \<and> children m' a (xs @ [item]) \<and>
    relinked a {item, last (a # xs)} m m'"
proof -
  from ch obtain ca where a: "a \<noteq> NULL" "jitems m a = Some ca" "dll (jitems m) (jchild ca) NULL xs" "distinct (a # xs)"
    by (auto simp: children_def)
  show ?thesis
  proof (cases "xs = []")
    case True
    let ?m = "m\<lparr>jitems := (jitems m)(a \<mapsto> ca\<lparr>jchild := item\<rparr>)\<rparr>"
    have "cJSON_AddItemToArray a item m = Some ?m" using a it True by (simp add: cJSON_AddItemToArray_def)
    moreover have "children ?m a [item]" using a it by (auto simp: children_def)
    moreover have "relinked a {item, last (a # xs)} m ?m"
      by (rule relinked_upd [OF relinked_refl a(2), where f = "jchild_update (\<lambda>_. item)" and n = "jnext ca" and p = "jprev ca"]) simp_all
    ultimately show ?thesis using True by auto
  next
    case False
    let ?l = "last xs" and ?n = "length xs - 1"
    have l: "?l = xs ! ?n" "?n < length xs" "?l \<in> set xs" using False by (simp_all add: last_conv_nth)
    obtain cl where cl: "jitems m ?l = Some cl" "?l \<noteq> NULL" "linked NULL xs ?n cl"
      using a(3) l unfolding dll_links by metis
    have li: "?l \<noteq> item" "?l \<noteq> a" "item \<noteq> a" "a \<noteq> item" "a \<noteq> ?l" "item \<noteq> ?l" using it l(3) a(4) by auto
    let ?h1 = "(jitems m)(?l \<mapsto> cl\<lparr>jnext := item\<rparr>)"
    let ?m1 = "m\<lparr>jitems := ?h1\<rparr>"
    let ?m2 = "?m1\<lparr>jitems := ?h1(item \<mapsto> ci\<lparr>jprev := ?l\<rparr>)\<rparr>"
    have ne: "jchild ca \<noteq> NULL" using a(3) False by (cases xs) auto
    have add: "cJSON_AddItemToArray a item m = Some ?m2"
      using a it ne cl li last_item_ok [OF a(3) False] by (simp add: cJSON_AddItemToArray_def suffix_object_def)
    have r1: "relinked a {item, ?l} m ?m1"
      by (rule relinked_upd [OF relinked_refl cl(1), where f = "jnext_update (\<lambda>_. item)" and n = item and p = "jprev cl" and ch = "jchild cl"]) simp_all
    have "relinked a {item, ?l} m ?m2"
      using relinked_upd [OF r1, where x = item and f = "jprev_update (\<lambda>_. ?l)" and n = "jnext ci" and p = ?l and ch = "jchild ci" and c = ci]
        it li by simp
    moreover have "children ?m2 a (xs @ [item])" unfolding children_links
    proof (intro conjI allI impI)
      show "a \<noteq> NULL" by (rule a)
      show "distinct (a # xs @ [item])" using a(4) it by auto
      show "\<exists>c. jitems ?m2 a = Some c \<and> jchild c = (if xs @ [item] = [] then NULL else hd (xs @ [item]))"
        using a li False unfolding dll_links by simp
      fix i assume i: "i < length (xs @ [item])"
      show "(xs @ [item]) ! i \<noteq> NULL" using a(3) it i unfolding dll_links by (auto simp: nth_append less_Suc_eq)
      consider "i = length xs" | "i = ?n" | "i < ?n" using i l(2) by force
      then show "\<exists>c. jitems ?m2 ((xs @ [item]) ! i) = Some c \<and> linked NULL (xs @ [item]) i c"
      proof cases
        case 1
        then show ?thesis using it l False by (simp add: linked_def nth_append)
      next
        case 2
        then show ?thesis using cl li l False by (auto simp: linked_def nth_append)
      next
        case 3
        then have il: "i < length xs" "xs ! i \<noteq> item" "xs ! i \<noteq> ?l"
          using it a(4) l nth_eq_iff_index_eq [of xs i ?n] by auto
        then obtain c where "jitems m (xs ! i) = Some c" "linked NULL xs i c" using a(3) unfolding dll_links by blast
        then show ?thesis using il 3 by (auto simp: linked_def nth_append)
      qed
    qed
    ultimately show ?thesis using add False by auto
  qed
qed

subsection \<open>Removing\<close>

lemma nth_remove:
  "i < length xs \<Longrightarrow> j < length xs - 1 \<Longrightarrow> (take i xs @ drop (Suc i) xs) ! j = (if j < i then xs ! j else xs ! Suc j)"
  by (simp add: nth_append min_def)

lemma dom_eqI: "(\<And>y. h y = None \<longleftrightarrow> g y = None) \<Longrightarrow> dom h = dom g"
  by (simp add: dom_def)

definition item_before :: "addr list \<Rightarrow> nat \<Rightarrow> addr" where
  "item_before xs i = (if i = 0 then NULL else xs ! (i - 1))"

definition item_after :: "addr list \<Rightarrow> nat \<Rightarrow> addr" where
  "item_after xs i = (if Suc i < length xs then xs ! Suc i else NULL)"

lemma childrenD:
  assumes "children m a xs"
  shows "a \<noteq> NULL" "distinct xs" "a \<notin> set xs"
    "j < length xs \<Longrightarrow> \<exists>c. jitems m (xs ! j) = Some c \<and> xs ! j \<noteq> NULL \<and> linked NULL xs j c"
    "j < length xs \<Longrightarrow> k < length xs \<Longrightarrow> j \<noteq> k \<Longrightarrow> xs ! j \<noteq> xs ! k" "j < length xs \<Longrightarrow> xs ! j \<noteq> a"
    "\<exists>c. jitems m a = Some c \<and> dll (jitems m) (jchild c) NULL xs \<and> jchild c = (if xs = [] then NULL else hd xs)"
  using assms nth_mem [of j xs] nth_eq_iff_index_eq [of xs j k] unfolding children_def dll_links by auto

text \<open>The heap with the \<open>i\<close>-th item taken out of the list.\<close>

definition detached :: "'d cJSON heap \<Rightarrow> addr \<Rightarrow> addr list \<Rightarrow> nat \<Rightarrow> 'd cJSON heap \<Rightarrow> bool" where
  "detached h a xs i h' \<longleftrightarrow>
     (\<forall>k c. k < length xs \<longrightarrow> k \<noteq> i \<longrightarrow> h (xs ! k) = Some c \<longrightarrow> h' (xs ! k) = Some (c\<lparr>jnext := if Suc k = i then item_after xs i else jnext c,
        jprev := if k = Suc i then item_before xs i else jprev c\<rparr>)) \<and>
     (\<forall>c. h (xs ! i) = Some c \<longrightarrow> h' (xs ! i) = Some (c\<lparr>jprev := NULL, jnext := NULL\<rparr>)) \<and>
     (\<forall>c. h a = Some c \<longrightarrow> h' a = Some (c\<lparr>jchild := if i = 0 then item_after xs i else jchild c\<rparr>)) \<and>
     (\<forall>y. y \<notin> set xs \<longrightarrow> y \<noteq> a \<longrightarrow> h' y = h y)"

lemma detach_steps:
  assumes ch: "children m a xs" and w: "nat which < length xs"
  shows "\<exists>h. cJSON_DetachItemFromArray a which m = Some (xs ! nat which, m\<lparr>jitems := h\<rparr>) \<and>
    detached (jitems m) a xs (nat which) h"
proof -
  note at = childrenD(4) [OF ch] and ne = childrenD(5) [OF ch] and na = childrenD(6) [OF ch]
  define i where "i = nat which"
  define p where "p = item_before xs i"
  define n where "n = item_after xs i"
  let ?x = "xs ! i"
  obtain ca where a: "a \<noteq> NULL" "jitems m a = Some ca" "dll (jitems m) (jchild ca) NULL xs" "jchild ca = (if xs = [] then NULL else hd xs)"
    using childrenD(1,7) [OF ch] by blast
  have pn0: "i = 0 \<Longrightarrow> p = NULL" "i \<noteq> 0 \<Longrightarrow> p = xs ! (i - 1)" "\<not> Suc i < length xs \<Longrightarrow> n = NULL" "Suc i < length xs \<Longrightarrow> n = xs ! Suc i"
    by (simp_all add: p_def n_def item_before_def item_after_def)
  have i: "i < length xs" using w by (simp add: i_def)
  obtain cx where x: "jitems m ?x = Some cx" "?x \<noteq> NULL" "jprev cx = p" "jnext cx = n"
    using at [OF i] by (auto simp: linked_def p_def n_def item_before_def item_after_def)
  have walk: "walk_items (jitems m) (jchild ca) which = Some ?x" using walk_items_ok [OF a(3)] w by (simp add: i_def)
  have isf: "?x = jchild ca \<longleftrightarrow> i = 0" using a(4) ne [OF i, of 0] i by (cases xs) fastforce+
  let ?h1 = "if i = 0 then jitems m else (jitems m)(p := map_option (jnext_update (\<lambda>_. n)) (jitems m p))"
  let ?h2 = "if Suc i < length xs then ?h1(n := map_option (jprev_update (\<lambda>_. p)) (?h1 n)) else ?h1"
  let ?h3 = "if i = 0 then ?h2(a \<mapsto> ca\<lparr>jchild := n\<rparr>) else ?h2"
  let ?h4 = "?h3(?x \<mapsto> cx\<lparr>jprev := NULL, jnext := NULL\<rparr>)"
  have xs_p: "p \<in> set xs \<and> p \<noteq> ?x \<and> p \<noteq> a \<and> p \<noteq> NULL \<and> ?x \<noteq> p \<and> (\<exists>c. jitems m p = Some c)" if "i \<noteq> 0"
  proof -
    have il: "i - 1 < length xs" "i - 1 \<noteq> i" using that i by auto
    show ?thesis unfolding pn0(2) [OF that] using nth_mem [OF il(1)] ne [OF il(1) i il(2)] ne [OF i il(1)] il na [OF il(1)] at [OF il(1)] by auto
  qed
  have xs_n: "n \<in> set xs \<and> n \<noteq> ?x \<and> n \<noteq> a \<and> n \<noteq> NULL \<and> ?x \<noteq> n \<and> (\<exists>c. jitems m n = Some c)" if s: "Suc i < length xs"
    unfolding pn0(4) [OF s] using nth_mem [OF s] ne [OF s i] ne [OF i s] na [OF s] at [OF s] by auto
  have np: "n \<noteq> p" if "Suc i < length xs" "i \<noteq> 0" using that ne [of "Suc i" "i - 1"] pn0 by auto
  have xa: "?x \<noteq> a" "a \<noteq> ?x" using na [OF i] by auto
  have run: "cJSON_DetachItemFromArray a which m = Some (?x, m\<lparr>jitems := ?h4\<rparr>)"
    using a(1,2) walk x isf xs_n xs_p np xa pn0(1,3)
    by (cases "i = 0"; cases "Suc i < length xs") (auto simp: cJSON_DetachItemFromArray_def)
  have other: "?h4 (xs ! k) = Some (c\<lparr>jnext := if Suc k = i then n else jnext c, jprev := if k = Suc i then p else jprev c\<rparr>)"
    if k: "k < length xs" "k \<noteq> i" and c: "jitems m (xs ! k) = Some c" for k c
  proof -
    have "xs ! k \<noteq> ?x" "xs ! k \<noteq> a" using ne [OF k(1) i k(2)] na [OF k(1)] by auto
    moreover have "i \<noteq> 0 \<Longrightarrow> xs ! k = p \<longleftrightarrow> Suc k = i" using ne [of k "i - 1"] k i pn0(2) by (cases "k = i - 1") auto
    moreover have "Suc i < length xs \<Longrightarrow> xs ! k = n \<longleftrightarrow> k = Suc i" using ne [of k "Suc i"] k pn0(4) by (cases "k = Suc i") auto
    ultimately show ?thesis using c k by auto
  qed
  have at_a: "?h4 a = Some (ca\<lparr>jchild := if i = 0 then n else jchild ca\<rparr>)"
    using xa a(2) xs_p xs_n by (cases "i = 0"; cases "Suc i < length xs") auto
  have rest: "?h4 y = jitems m y" if "y \<notin> set xs" "y \<noteq> a" for y
    using that nth_mem [OF i] xs_p xs_n by (cases "i = 0"; cases "Suc i < length xs") auto
  have "detached (jitems m) a xs i ?h4"
    unfolding detached_def p_def [symmetric] n_def [symmetric]
  proof (intro conjI allI impI)
    fix c assume "jitems m ?x = Some c"
    then show "?h4 ?x = Some (c\<lparr>jprev := NULL, jnext := NULL\<rparr>)" using x(1) by simp
  next
    fix c assume "jitems m a = Some c"
    then show "?h4 a = Some (c\<lparr>jchild := if i = 0 then n else jchild c\<rparr>)" using at_a a(2) by simp
  qed (rule other rest; assumption)+
  then show ?thesis using run unfolding i_def [symmetric] by blast
qed

lemma detached_cases:
  obtains "y \<notin> set xs" "y \<noteq> a" | "y = a" "y \<notin> set xs" | k where "y = xs ! k" "k < length xs"
  by (metis in_set_conv_nth)

lemma detached_cell:
  assumes ch: "children m a xs" and d: "detached (jitems m) a xs i h" and y: "jitems m y = Some c"
  shows "\<exists>n p ch. h y = Some (c\<lparr>jnext := n, jprev := p, jchild := ch\<rparr>) \<and>
      (y \<notin> set xs \<longrightarrow> n = jnext c \<and> p = jprev c) \<and> (y \<noteq> a \<longrightarrow> ch = jchild c)"
proof (rule detached_cases [of y xs a])
  assume "y \<notin> set xs" "y \<noteq> a"
  then show ?thesis using d y by (intro exI [of _ "jnext c"] exI [of _ "jprev c"] exI [of _ "jchild c"]) (simp add: detached_def)
next
  assume "y = a" "y \<notin> set xs"
  then show ?thesis using d y
    by (intro exI [of _ "jnext c"] exI [of _ "jprev c"] exI [of _ "if i = 0 then item_after xs i else jchild c"]) (simp add: detached_def)
next
  fix k assume k: "y = xs ! k" "k < length xs"
  then have s: "y \<in> set xs" "y \<noteq> a" using childrenD(3) [OF ch] by auto
  show ?thesis
  proof (cases "k = i")
    case True
    then have "h y = Some (c\<lparr>jprev := NULL, jnext := NULL\<rparr>)" using d y k by (simp add: detached_def)
    then show ?thesis using s by (intro exI [of _ NULL] exI [of _ NULL] exI [of _ "jchild c"]) simp
  next
    case False
    then have "h y = Some (c\<lparr>jnext := if Suc k = i then item_after xs i else jnext c, jprev := if k = Suc i then item_before xs i else jprev c\<rparr>)"
      using d y k unfolding detached_def by blast
    then show ?thesis using s
      by (intro exI [of _ "if Suc k = i then item_after xs i else jnext c"] exI [of _ "if k = Suc i then item_before xs i else jprev c"]
        exI [of _ "jchild c"]) simp
  qed
qed

lemma detached_relinked:
  assumes ch: "children m a xs" and i: "i < length xs" and d: "detached (jitems m) a xs i h"
  shows "relinked a (set xs) m (m\<lparr>jitems := h\<rparr>)"
proof -
  have "h y = None \<longleftrightarrow> jitems m y = None" for y
  proof (cases "jitems m y")
    case None
    have "y \<notin> set xs"
    proof
      assume "y \<in> set xs"
      then obtain k where "k < length xs" "y = xs ! k" by (metis in_set_conv_nth)
      then show False using childrenD(4) [OF ch, of k] None by auto
    qed
    moreover have "y \<noteq> a" using childrenD(7) [OF ch] None by auto
    ultimately have "y \<notin> set xs" "y \<noteq> a" by auto
    then show ?thesis using d None by (simp add: detached_def)
  next
    case (Some c)
    then show ?thesis using detached_cell [OF ch d Some] by auto
  qed
  then have "dom h = dom (jitems m)" by (rule dom_eqI)
  then show ?thesis unfolding relinked_def using detached_cell [OF ch d] by (intro exI [of _ h]) simp
qed

lemma detached_children:
  assumes ch: "children m a xs" and i: "i < length xs" and d: "detached (jitems m) a xs i h"
  shows "children (m\<lparr>jitems := h\<rparr>) a (take i xs @ drop (Suc i) xs)"
proof -
  let ?m = "m\<lparr>jitems := h\<rparr>" and ?ys = "take i xs @ drop (Suc i) xs"
  show ?thesis unfolding children_links
  proof (intro conjI allI impI)
    show "a \<noteq> NULL" by (rule childrenD(1) [OF ch])
    have "distinct (take i xs @ xs ! i # drop (Suc i) xs)" using childrenD(2) [OF ch] id_take_nth_drop [OF i] by simp
    then show "distinct (a # ?ys)" using childrenD(3) [OF ch] by (auto dest: in_set_takeD in_set_dropD)
    obtain ca where ca: "jitems m a = Some ca" "jchild ca = xs ! 0" using childrenD(7) [OF ch] i by (cases xs) auto
    have "?ys \<noteq> [] \<Longrightarrow> hd ?ys = (if i = 0 then xs ! Suc i else xs ! 0)" using i
      by (auto simp: hd_append hd_drop_conv_nth hd_conv_nth)
    moreover have "?ys = [] \<longleftrightarrow> i = 0 \<and> \<not> Suc i < length xs" using i by auto
    ultimately have "(if ?ys = [] then NULL else hd ?ys) = (if i = 0 then item_after xs i else xs ! 0)" using i by (auto simp: item_after_def)
    moreover have "h a = Some (ca\<lparr>jchild := if i = 0 then item_after xs i else jchild ca\<rparr>)" using d ca(1) by (simp add: detached_def)
    ultimately show "\<exists>c. jitems ?m a = Some c \<and> jchild c = (if ?ys = [] then NULL else hd ?ys)" using ca(2) by simp
    fix j assume j: "j < length ?ys"
    then have j': "j < length xs - 1" using i by simp
    let ?k = "if j < i then j else Suc j"
    have k: "?k < length xs" "?k \<noteq> i" "?ys ! j = xs ! ?k" using j' nth_remove [OF i j'] by auto
    obtain c where c: "jitems m (xs ! ?k) = Some c" "xs ! ?k \<noteq> NULL" "linked NULL xs ?k c" using childrenD(4) [OF ch k(1)] by blast
    show "?ys ! j \<noteq> NULL" using c(2) k(3) by simp
    have nx: "(if Suc j < length ?ys then ?ys ! Suc j else NULL) = (if Suc ?k = i then item_after xs i else jnext c)"
      using c(3) i j' nth_remove [OF i, of "Suc j"] by (auto simp: linked_def item_after_def)
    have pv: "(if j = 0 then NULL else ?ys ! (j - 1)) = (if ?k = Suc i then item_before xs i else jprev c)"
      using c(3) i j' nth_remove [OF i, of "j - 1"] by (auto simp: linked_def item_before_def)
    have "h (xs ! ?k) = Some (c\<lparr>jnext := if Suc ?k = i then item_after xs i else jnext c, jprev := if ?k = Suc i then item_before xs i else jprev c\<rparr>)"
      using d k(1,2) c(1) unfolding detached_def by blast
    then show "\<exists>c. jitems ?m (?ys ! j) = Some c \<and> linked NULL ?ys j c" using nx pv k(3) by (simp add: linked_def)
  qed
qed

lemma DetachItemFromArray_ok:
  assumes ch: "children m a xs" and w: "nat which < length xs"
  shows "\<exists>m' c. cJSON_DetachItemFromArray a which m = Some (xs ! nat which, m') \<and>
    children m' a (take (nat which) xs @ drop (Suc (nat which)) xs) \<and> relinked a (set xs) m m' \<and>
    jitems m' (xs ! nat which) = Some c \<and> jnext c = NULL \<and> jprev c = NULL"
proof -
  obtain h where h: "cJSON_DetachItemFromArray a which m = Some (xs ! nat which, m\<lparr>jitems := h\<rparr>)"
    "detached (jitems m) a xs (nat which) h" using detach_steps [OF assms] by blast
  obtain c where "jitems m (xs ! nat which) = Some c" using childrenD(4) [OF ch w] by blast
  then have "h (xs ! nat which) = Some (c\<lparr>jprev := NULL, jnext := NULL\<rparr>)" using h(2) by (simp add: detached_def)
  then show ?thesis using h(1) detached_children [OF ch w h(2)] detached_relinked [OF ch w h(2)] by auto
qed

lemma DetachItemFromArray_none:
  assumes "children m a xs" and "length xs \<le> nat which"
  shows "cJSON_DetachItemFromArray a which m = Some (NULL, m)"
  using assms walk_items_ok [of "jitems m" _ NULL xs which] by (auto simp: children_def cJSON_DetachItemFromArray_def)

end
