(* ===== verification/CJsonTree.thy ===== *)
theory CJsonTree
  imports CJsonList
begin

text \<open>
  Items as trees: the tree below an item, the cells and strings it owns, and that deletion frees them
  all once.
\<close>

subsection \<open>Trees\<close>

text \<open>Type, number as \<^verbatim>\<open>int\<close> and as \<^verbatim>\<open>double\<close>, string, name, and the children.\<close>

datatype 'd jtree = JTree u32 int 'd "u8 list option" "u8 list option" "'d jtree list"

definition str_rep :: "'d jmem \<Rightarrow> addr \<Rightarrow> u8 list option \<Rightarrow> bool" where
  "str_rep m p s \<longleftrightarrow> (case s of None \<Rightarrow> p = NULL
     | Some bs \<Rightarrow> p \<noteq> NULL \<and> (\<exists>r. jstrs m p = Some (bs @ 0 # r)) \<and> 0 \<notin> set bs)"

definition own_strings :: "'d cJSON \<Rightarrow> addr list" where
  "own_strings c = filter (\<lambda>p. p \<noteq> NULL) [jvaluestring c, jstring c]"

text \<open>
  \<open>trees m p prev ts is ss\<close>: from \<open>p\<close> on, with \<open>prev\<close> before it, lie the trees \<open>ts\<close> in the items \<open>is\<close>
  and the strings \<open>ss\<close>; none of them is a reference.
\<close>

fun trees :: "'d jmem \<Rightarrow> addr \<Rightarrow> addr \<Rightarrow> 'd jtree list \<Rightarrow> addr list \<Rightarrow> addr list \<Rightarrow> bool" where
  "trees m p prev [] is ss \<longleftrightarrow> p = NULL \<and> is = [] \<and> ss = []"
| "trees m p prev (JTree t i d v nm ks # ts) is ss \<longleftrightarrow> (\<exists>c ik sk ir sr. p \<noteq> NULL \<and> jitems m p = Some c \<and>
     jprev c = prev \<and> jtype c = t \<and> t AND cJSON_IsReference = 0 \<and> jvalueint c = i \<and> jvaluedouble c = d \<and>
     str_rep m (jvaluestring c) v \<and> str_rep m (jstring c) nm \<and>
     trees m (jchild c) NULL ks ik sk \<and> trees m (jnext c) p ts ir sr \<and>
     is = p # ik @ ir \<and> ss = own_strings c @ sk @ sr)"

lemma str_rep_cong: "(p \<noteq> NULL \<Longrightarrow> jstrs m' p = jstrs m p) \<Longrightarrow> str_rep m' p s = str_rep m p s"
  by (cases "p = NULL") (simp_all add: str_rep_def split: option.splits)

lemma own_strings_set: "set (own_strings c) = {jvaluestring c, jstring c} - {NULL}"
  by (auto simp: own_strings_def)

lemma trees_frame:
  "trees m p prev ts is ss \<Longrightarrow> \<forall>x\<in>set is. jitems m' x = jitems m x \<Longrightarrow> \<forall>s\<in>set ss. jstrs m' s = jstrs m s \<Longrightarrow>
   trees m' p prev ts is ss"
proof (induction m p prev ts "is" ss rule: trees.induct)
  case (2 m p prev t i d v nm ks ts "is" ss)
  then obtain c ik sk ir sr where c: "p \<noteq> NULL" "jitems m p = Some c" "jprev c = prev" "jtype c = t" "t AND cJSON_IsReference = 0"
    "jvalueint c = i" "jvaluedouble c = d" "str_rep m (jvaluestring c) v" "str_rep m (jstring c) nm"
    "trees m (jchild c) NULL ks ik sk" "trees m (jnext c) p ts ir sr" "is = p # ik @ ir" "ss = own_strings c @ sk @ sr" by auto
  have "trees m' (jchild c) NULL ks ik sk" using 2(1) c 2(4,5) by auto
  moreover have "trees m' (jnext c) p ts ir sr" using 2(2) c 2(4,5) by auto
  moreover have "str_rep m' (jvaluestring c) v" "str_rep m' (jstring c) nm"
    using c(8,9) str_rep_cong [of _ m' m] 2(5) own_strings_set [of c] unfolding c(13) by auto
  ultimately show ?case using c 2(4) by auto
qed simp

lemma trees_dom:
  "trees m p prev ts is ss \<Longrightarrow> set is \<subseteq> dom (jitems m) - {NULL} \<and> set ss \<subseteq> dom (jstrs m) - {NULL}"
proof (induction m p prev ts "is" ss rule: trees.induct)
  case (2 m p prev t i d v nm ks ts "is" ss)
  then obtain c ik sk ir sr where c: "p \<noteq> NULL" "jitems m p = Some c" "str_rep m (jvaluestring c) v" "str_rep m (jstring c) nm"
    "trees m (jchild c) NULL ks ik sk" "trees m (jnext c) p ts ir sr" "is = p # ik @ ir" "ss = own_strings c @ sk @ sr" by auto
  have "set (own_strings c) \<subseteq> dom (jstrs m) - {NULL}"
    using c(3,4) by (auto simp: own_strings_set str_rep_def split: option.splits)
  then show ?case using 2(1,2) c by auto
qed simp

text \<open>The memory without some items and strings.\<close>

definition without :: "addr set \<Rightarrow> addr set \<Rightarrow> 'd jmem \<Rightarrow> 'd jmem" where
  "without I S m = m\<lparr>jitems := jitems m |` (- I), jstrs := jstrs m |` (- S)\<rparr>"

lemma restrict_UNIV [simp]: "h |` UNIV = h"
  by (simp add: restrict_map_def)

lemma without_simps [simp]:
  "x \<notin> I \<Longrightarrow> jitems (without I S m) x = jitems m x" "s \<notin> S \<Longrightarrow> jstrs (without I S m) s = jstrs m s"
  "without {} {} m = m" "without I S (without J T m) = without (J \<union> I) (T \<union> S) m"
  by (simp_all add: without_def Int_commute)

lemma free_str_without:
  "s \<noteq> NULL \<Longrightarrow> s \<in> dom (jstrs m) \<Longrightarrow> s \<notin> S \<Longrightarrow> free_str s (without I S m) = Some (without I (insert s S) m)"
  by (auto simp: free_str_def without_def fun_upd_None_restrict Compl_insert)

lemma free_item_without:
  "p \<noteq> NULL \<Longrightarrow> p \<in> dom (jitems m) \<Longrightarrow> p \<notin> I \<Longrightarrow> free_item p (without I S m) = Some (without (insert p I) S m)"
  by (auto simp: free_item_def without_def fun_upd_None_restrict Compl_insert)

text \<open>What deletion does to one item, between the calls for the children and for the rest.\<close>

lemma free_own_strings:
  assumes "distinct (own_strings c)" "set (own_strings c) \<subseteq> dom (jstrs m)" "set (own_strings c) \<inter> S = {}"
  obtains ma where "(if jvaluestring c \<noteq> NULL then free_str (jvaluestring c) (without I S m) else Some (without I S m)) = Some ma"
    "jitems ma = jitems (without I S m)"
    "(if jstring c \<noteq> NULL then free_str (jstring c) ma else Some ma) = Some (without I (set (own_strings c) \<union> S) m)"
proof -
  let ?v = "jvaluestring c" and ?n = "jstring c"
  let ?ma = "without I (if ?v \<noteq> NULL then insert ?v S else S) m"
  have 1: "(if ?v \<noteq> NULL then free_str ?v (without I S m) else Some (without I S m)) = Some ?ma"
    using assms(2,3) by (auto simp: own_strings_set intro!: free_str_without)
  have 2: "jitems ?ma = jitems (without I S m)" by (simp add: without_def)
  have "?n \<noteq> NULL \<Longrightarrow> ?n \<in> dom (jstrs m) \<and> ?n \<notin> S \<and> ?n \<noteq> ?v" using assms by (auto simp: own_strings_def split: if_splits)
  then have 3: "(if ?n \<noteq> NULL then free_str ?n ?ma else Some ?ma) = Some (without I (set (own_strings c) \<union> S) m)"
    using free_str_without [of ?n m "if ?v \<noteq> NULL then insert ?v S else S" I]
    by (cases "?n = NULL"; cases "?v = NULL") (simp_all add: own_strings_def insert_commute)
  show ?thesis using that [OF 1 2 3] .
qed

definition agree :: "addr list \<Rightarrow> addr list \<Rightarrow> 'd jmem \<Rightarrow> 'd jmem \<Rightarrow> bool" where
  "agree is ss m n \<longleftrightarrow> (\<forall>x\<in>set is. jitems n x = jitems m x) \<and> (\<forall>s\<in>set ss. jstrs n s = jstrs m s)"

lemma agree_refl [simp]: "agree is ss m m"
  by (simp add: agree_def)

lemma agree_without: "agree is ss m n \<Longrightarrow> I \<inter> set is = {} \<Longrightarrow> S \<inter> set ss = {} \<Longrightarrow> agree is ss m (without I S n)"
  by (simp add: agree_def without_def restrict_map_def disjoint_iff) blast

lemma agree_append: "agree (xs @ ys) (ss @ ts) m n \<Longrightarrow> agree xs ss m n \<and> agree ys ts m n"
  by (simp add: agree_def)

lemma trees_agree: "trees m p prev ts is ss \<Longrightarrow> agree is ss m n \<Longrightarrow> trees n p prev ts is ss"
  using trees_frame [of m p prev ts "is" ss n] by (simp add: agree_def)

lemma delete_step:
  assumes c: "p \<noteq> NULL" "jitems m p = Some c" "jtype c AND cJSON_IsReference = 0" "p \<notin> I"
    and kids: "jchild c \<noteq> NULL \<Longrightarrow> cJSON_Delete f (jchild c) m = Some (without I S m)" "jchild c = NULL \<Longrightarrow> I = {} \<and> S = {}"
    and own: "distinct (own_strings c)" "set (own_strings c) \<subseteq> dom (jstrs m)" "set (own_strings c) \<inter> S = {}"
  shows "cJSON_Delete (Suc f) p m = cJSON_Delete f (jnext c) (without (insert p I) (set (own_strings c) \<union> S) m)"
proof -
  have m1: "(if jtype c AND cJSON_IsReference = 0 \<and> jchild c \<noteq> NULL then cJSON_Delete f (jchild c) m else Some m) = Some (without I S m)"
    using kids c(3) by auto
  obtain ma where ma: "(if jvaluestring c \<noteq> NULL then free_str (jvaluestring c) (without I S m) else Some (without I S m)) = Some ma"
    "jitems ma = jitems (without I S m)"
    "(if jstring c \<noteq> NULL then free_str (jstring c) ma else Some ma) = Some (without I (set (own_strings c) \<union> S) m)"
    by (rule free_own_strings [OF own])
  have "free_item p (without I (set (own_strings c) \<union> S) m) = Some (without (insert p I) (set (own_strings c) \<union> S) m)"
    using c by (intro free_item_without) auto
  moreover have "jitems (without I S m) p = Some c" "jitems ma p = Some c" using c ma(2) by simp_all
  ultimately show ?thesis using c m1 ma by simp
qed

lemma Delete_agree:
  "trees m p prev ts is ss \<Longrightarrow> agree is ss m n \<Longrightarrow> distinct is \<Longrightarrow> distinct ss \<Longrightarrow> length is < f \<Longrightarrow>
   cJSON_Delete f p n = Some (without (set is) (set ss) n)"
proof (induction m p prev ts "is" ss arbitrary: f n rule: trees.induct)
  case (1 m p prev "is" ss)
  then show ?case by (cases f) auto
next
  case (2 m p prev t i d v nm ks ts "is" ss)
  then obtain c ik sk ir sr where c: "p \<noteq> NULL" "jitems m p = Some c" "jtype c AND cJSON_IsReference = 0"
    "trees m (jchild c) NULL ks ik sk" "trees m (jnext c) p ts ir sr" "is = p # ik @ ir" "ss = own_strings c @ sk @ sr" by auto
  obtain g where g: "f = Suc g" "length ik < g" "length ir < g" using 2(7) c(6) by (cases f) auto
  have dist: "distinct ik" "distinct sk" "p \<notin> set ik" "insert p (set ik) \<inter> set ir = {}" "set (own_strings c) \<inter> set sk = {}"
    "(set (own_strings c) \<union> set sk) \<inter> set sr = {}" "distinct (own_strings c)" "distinct ir" "distinct sr"
    using 2(5,6) c(6,7) by auto
  have ag: "agree ik sk m n" "agree ir sr m n" "jitems n p = Some c"
    using 2(4) c(2) unfolding c(6,7) by (simp_all add: agree_def)
  have sd: "set (own_strings c) \<subseteq> dom (jstrs n)"
    using trees_dom [OF trees_agree [OF 2(3,4)]] unfolding c(7) by auto
  have "cJSON_Delete f p n = cJSON_Delete g (jnext c) (without (insert p (set ik)) (set (own_strings c) \<union> set sk) n)"
    unfolding g(1)
  proof (rule delete_step [OF c(1) ag(3) c(3) dist(3) _ _ dist(7) sd dist(5)])
    show "cJSON_Delete g (jchild c) n = Some (without (set ik) (set sk) n)"
      by (rule 2(1) [OF c(4) ag(1) dist(1,2) g(2)])
    show "set ik = {} \<and> set sk = {}" if "jchild c = NULL" using c(4) that by (cases ks; auto elim: trees.elims)
  qed
  also have "\<dots> = Some (without (set ir) (set sr) (without (insert p (set ik)) (set (own_strings c) \<union> set sk) n))"
    by (rule 2(2) [OF c(5) agree_without [OF ag(2) dist(4,6)] dist(8,9) g(3)])
  also have "\<dots> = Some (without (set is) (set ss) n)" unfolding c(6,7) by (simp add: Un_ac)
  finally show ?case .
qed

lemmas Delete_ok = Delete_agree [OF _ agree_refl]

end
