(* ===== verification/CJsonEscape.thy ===== *)
theory CJsonEscape
  imports CJsonTree
begin

text \<open>
  When the second pass over a string fits the block that the first one asked for: as long as every
  escape \<^verbatim>\<open>\u\<close> has four characters before the closing quote.
\<close>

fun escapes_closed :: "ctext \<Rightarrow> bool" where
  "escapes_closed [] \<longleftrightarrow> False"
| "escapes_closed (c # cs) \<longleftrightarrow>
     (if c = 34 \<or> c = 0 then True
      else if c \<noteq> 92 then escapes_closed cs
      else (case cs of [] \<Rightarrow> False
        | e # es \<Rightarrow> if e = 117 then 4 \<le> length es \<and> set (take 4 es) \<inter> {0, 34, 92} = {} \<and> escapes_closed (drop 4 es)
                   else e \<noteq> 0 \<and> escapes_closed es))"

lemma length_utf8_put: "length (utf8_put n uc mark out) = n + length out"
  by (induction n uc mark out rule: utf8_put.induct) simp_all

lemma length_utf8: "length (utf8 uc) \<le> 4"
  by (simp add: utf8_def length_utf8_put utf8_len_def)

lemma parse_hex_defined: "k \<le> length t \<Longrightarrow> \<exists>h'. parse_hex k h t = Some h'"
  by (induction k h t rule: parse_hex.induct) (auto split: option.split)

lemma parse_hex4_defined: "4 \<le> length t \<Longrightarrow> \<exists>h. parse_hex4 t = Some h"
  unfolding parse_hex4_def by (rule parse_hex_defined)

lemma closed_nonempty: "escapes_closed t \<Longrightarrow> \<exists>c cs. t = c # cs \<and> (c = 92 \<longrightarrow> cs \<noteq> [])"
  by (cases t) (auto split: list.splits)

lemma four: "4 \<le> length es \<Longrightarrow> \<exists>x y z w r. es = x # y # z # w # r"
  by (cases es; cases "tl es"; cases "tl (tl es)"; cases "tl (tl (tl es))") auto

text \<open>One escape consumes itself, or itself and the one behind it.\<close>

lemma unicode_escape_closed:
  assumes es: "4 \<le> length es" and cl: "escapes_closed (drop 4 es)"
  shows "\<exists>bs q. unicode_escape (117 # es) = Some (bs, q) \<and> length bs \<le> 4 \<and>
    (drop 1 q = drop 4 es \<or> (\<exists>fs. drop 4 es = 92 # 117 # fs \<and> 4 \<le> length fs \<and> drop 1 q = drop 4 fs))"
proof -
  obtain x y z w r where e: "es = x # y # z # w # r" using four [OF es] by blast
  obtain uc where uc: "parse_hex4 (x # y # z # w # r) = Some uc" using parse_hex4_defined [OF es] unfolding e by blast
  have rc: "escapes_closed r" using cl e by simp
  obtain c cs where c: "r = c # cs" "c = 92 \<longrightarrow> cs \<noteq> []" using closed_nonempty [OF rc] by blast
  let ?lone = "(0xDC00 \<le> uc \<and> uc \<le> 0xDFFF) \<or> uc = 0" and ?high = "0xD800 \<le> uc \<and> uc \<le> 0xDBFF"
  show ?thesis
  proof (cases "c = 92 \<and> hd cs = 117")
    case False
    then show ?thesis using uc c e length_utf8 [of uc]
      by (cases ?lone; cases ?high; cases cs) (auto simp: unicode_escape_def Let_def)
  next
    case True
    then obtain fs where fs: "cs = 117 # fs" using c(2) by (cases cs) auto
    then have f4: "4 \<le> length fs" using rc c True by simp
    obtain uc2 where uc2: "parse_hex4 fs = Some uc2" using parse_hex4_defined [OF f4] by blast
    obtain fx fy fz fw fr where ff: "fs = fx # fy # fz # fw # fr" using four [OF f4] by blast
    show ?thesis
    proof (cases "?lone \<or> \<not> ?high")
      case True
      then show ?thesis using uc c e length_utf8 [of uc] by (cases ?lone) (auto simp: unicode_escape_def Let_def)
    next
      case high: False
      then show ?thesis using uc uc2 c e fs ff True length_utf8
        by (cases "uc2 < 0xDC00 \<or> uc2 > 0xDFFF") (auto simp: unicode_escape_def Let_def)
    qed
  qed
qed

text \<open>The second pass writes at most the \<open>n\<close> bytes that the first one counts.\<close>

definition unescapes :: "ctext \<Rightarrow> nat \<Rightarrow> bool" where
  "unescapes t n \<longleftrightarrow> (\<forall>len. scan_string t len = Some (len + n)) \<and>
     (\<forall>out cap. length out + n \<le> cap \<longrightarrow>
        (\<exists>bs c r. unescape cap out t = Some (out @ bs, c # r) \<and> (c = 34 \<or> c = 0) \<and> length bs \<le> n))"

lemma unescapes_step:
  assumes n: "unescapes t n" and us: "length us \<le> k" and s: "\<And>len. scan_string t' len = scan_string t (len + k)"
    and u: "\<And>out cap. length out + k \<le> cap \<Longrightarrow> unescape cap out t' = unescape cap (out @ us) t"
  shows "unescapes t' (k + n)"
  unfolding unescapes_def
proof (intro conjI allI impI)
  show "scan_string t' len = Some (len + (k + n))" for len using n s by (simp add: unescapes_def)
  fix out :: "u8 list" and cap assume le: "length out + (k + n) \<le> cap"
  then have "length (out @ us) + n \<le> cap" using us by simp
  then obtain bs c r where "unescape cap (out @ us) t = Some ((out @ us) @ bs, c # r)" "c = 34 \<or> c = 0" "length bs \<le> n"
    using n unfolding unescapes_def by blast
  then have "unescape cap out t' = Some (out @ (us @ bs), c # r)" "c = 34 \<or> c = 0" "length (us @ bs) \<le> k + n"
    using u [of out cap] le us by auto
  then show "\<exists>bs c r. unescape cap out t' = Some (out @ bs, c # r) \<and> (c = 34 \<or> c = 0) \<and> length bs \<le> k + n" by blast
qed

lemma unescapes_stop: "c = 34 \<or> c = 0 \<Longrightarrow> unescapes (c # cs) 0"
  by (auto simp: unescapes_def unescape_stop)

lemma scan_plain: "set xs \<inter> {0, 34, 92} = {} \<Longrightarrow> scan_string (xs @ t) len = scan_string t (len + length xs)"
  by (induction xs arbitrary: len) auto

lemma scan_unicode:
  "4 \<le> length es \<Longrightarrow> set (take 4 es) \<inter> {0, 34, 92} = {} \<Longrightarrow>
   scan_string (92 # 117 # es) len = scan_string (drop 4 es) (len + 5)"
  using scan_plain [of "take 4 es" "drop 4 es" "Suc len"] by (simp add: min_absorb2 add.commute [of len 5])

lemma unescape_fits: "escapes_closed t \<Longrightarrow> \<exists>n. unescapes t n"
proof (induction "length t" arbitrary: t rule: less_induct)
  case less
  obtain c cs where t: "t = c # cs" using closed_nonempty [OF less.prems] by blast
  consider (stop) "c = 34 \<or> c = 0" | (plain) "c \<noteq> 34" "c \<noteq> 0" "c \<noteq> 92" | (esc) "c = 92" by blast
  then show ?case
  proof cases
    case stop
    then show ?thesis unfolding t by (blast intro: unescapes_stop)
  next
    case plain
    then have "escapes_closed cs" using less.prems t by simp
    then obtain n where n: "unescapes cs n" using less.hyps [of cs] t by auto
    have "unescapes t (1 + n)" unfolding t
      by (rule unescapes_step [OF n, of "[c]"]) (use plain in \<open>simp_all add: unescape_plain\<close>)
    then show ?thesis ..
  next
    case esc
    then obtain e es where cs: "cs = e # es" using less.prems t by (cases cs) auto
    show ?thesis
    proof (cases "e = 117")
      case False
      then have "escapes_closed es" using less.prems t cs esc by simp
      then obtain n where n: "unescapes es n" using less.hyps [of es] t cs by auto
      have "unescapes t (1 + n)" unfolding t cs esc
        by (rule unescapes_step [OF n, of "[escape_char e]"]) (use False in \<open>simp_all add: unescape_escape\<close>)
      then show ?thesis ..
    next
      case True
      then have es: "4 \<le> length es" "set (take 4 es) \<inter> {0, 34, 92} = {}" "escapes_closed (drop 4 es)"
        using less.prems t cs esc by simp_all
      obtain x y z w r where e: "es = x # y # z # w # r" using four [OF es(1)] by blast
      have s5: "scan_string t len = scan_string r (len + 5)" for len
        using scan_unicode [OF es(1,2)] unfolding t cs esc True e by simp
      obtain us q where q: "unicode_escape (117 # es) = Some (us, q)" "length us \<le> 4"
        "drop 1 q = drop 4 es \<or> (\<exists>fs. drop 4 es = 92 # 117 # fs \<and> 4 \<le> length fs \<and> drop 1 q = drop 4 fs)"
        using unicode_escape_closed [OF es(1,3)] by blast
      have "\<exists>k. 4 \<le> k \<and> escapes_closed (drop 1 q) \<and> length (drop 1 q) < length t \<and> (\<forall>len. scan_string t len = scan_string (drop 1 q) (len + k))"
        using q(3)
      proof
        assume "drop 1 q = drop 4 es"
        then show ?thesis using es e s5 t cs by (intro exI [of _ 5]) auto
      next
        assume "\<exists>fs. drop 4 es = 92 # 117 # fs \<and> 4 \<le> length fs \<and> drop 1 q = drop 4 fs"
        then obtain fs where fs: "r = 92 # 117 # fs" "4 \<le> length fs" "drop 1 q = drop 4 fs" using e by auto
        then obtain x' y' z' w' r' where f: "fs = x' # y' # z' # w' # r'" using four by blast
        have c: "set (take 4 fs) \<inter> {0, 34, 92} = {}" "escapes_closed (drop 4 fs)" using es(3) e fs by simp_all
        then have "scan_string r len = scan_string r' (len + 5)" for len using scan_unicode [OF fs(2)] unfolding fs(1) f by simp
        then have "scan_string t len = scan_string r' (len + 10)" for len unfolding s5 by (simp add: add.commute [of len 10])
        then show ?thesis using c fs e t cs f by (intro exI [of _ 10]) simp
      qed
      then obtain k where k: "4 \<le> k" "escapes_closed (drop 1 q)" "length (drop 1 q) < length t"
        "\<And>len. scan_string t len = scan_string (drop 1 q) (len + k)" by blast
      obtain n where n: "unescapes (drop 1 q) n" using less.hyps [OF k(3,2)] by blast
      have "unescapes t (k + n)"
      proof (rule unescapes_step [OF n _ k(4)])
        show "length us \<le> k" using q(2) k(1) by simp
        show "unescape cap out t = unescape cap (out @ us) (drop 1 q)" if "length out + k \<le> cap" for cap out
          using unescape_unicode [OF q(1), of cap out] that q(2) k(1) unfolding t cs esc True by simp
      qed
      then show ?thesis ..
    qed
  qed
qed

lemma parse_string_fits:
  assumes t: "escapes_closed t" and a: "jplan m = a # as" "a \<noteq> NULL" and i: "item \<noteq> NULL" "jitems m item = Some c"
  shows "\<exists>bs r n. scan_string t 0 = Some n \<and> length bs \<le> n \<and>
    parse_string item (34 # t) m = Some (Some r, m\<lparr>jplan := as, jstrs := (jstrs m)(a \<mapsto> bs @ [0]),
      jitems := (jitems m)(item \<mapsto> c\<lparr>jvaluestring := a, jtype := cJSON_String\<rparr>)\<rparr>)"
proof -
  obtain n where n: "unescapes t n" using unescape_fits [OF t] by blast
  then have s: "scan_string t 0 = Some n" by (simp add: unescapes_def)
  obtain bs d r where "unescape (Suc n) [] t = Some (bs, d # r)" "length bs \<le> n"
    using n unfolding unescapes_def by (metis append_Nil add_0 le_SucI le_refl list.size(3))
  then show ?thesis using a i s by (auto simp: parse_string_def item_upd_def upd_def load_def)
qed

text \<open>An escape that the closing quote follows is read over the quote.\<close>

lemma quote_in_escape:
  assumes w: "set w \<inter> {0, 34, 92} = {}" "2 \<le> length w" and a: "jplan m = a # as" "a \<noteq> NULL"
  shows "parse_string item (34 # 92 # 117 # 34 # x # y # z # w @ 34 # t) m = None"
proof -
  obtain p q r where r: "w = p # q # r" using w(2) by (cases w; cases "tl w") auto
  have u: "unicode_escape (117 # 34 # x # y # z # w @ 34 # t) = Some ([], z # w @ 34 # t)"
  proof -
    have "parse_hex (Suc k) 0 (34 # cs) = Some 0" for k cs by (simp add: hex_digit_def)
    from this [of 3] have "parse_hex4 (34 # cs) = Some 0" for cs by (simp add: parse_hex4_def)
    then show ?thesis by (simp add: unicode_escape_def)
  qed
  have p: "p \<noteq> 34 \<and> p \<noteq> 0 \<and> p \<noteq> 92" "q \<noteq> 34 \<and> q \<noteq> 0 \<and> q \<noteq> 92" using w(1) r by auto
  have "unescape 2 [] (92 # 117 # 34 # x # y # z # w @ 34 # t) = unescape 2 [p, q] (r @ 34 # t)"
    using unescape_unicode [OF u, of 2 "[]"] p by (simp add: r unescape_plain)
  moreover have "unescape 2 [p, q] (r @ 34 # t) = (if r = [] then Some ([p, q], 34 # t) else None)"
    using w(1) unfolding r by (cases r) (auto simp: unescape_plain unescape_stop)
  moreover have "scan_string (92 # 117 # 34 # x # y # z # w @ 34 # t) 0 = Some 1" by simp
  ultimately show ?thesis using a by (simp add: parse_string_def numeral_2_eq_2)
qed

end
