(* ===== verification/CJsonRender.thy ===== *)
theory CJsonRender
  imports CJsonEscape
begin

text \<open>
  The text of a tree, as \<^verbatim>\<open>cJSON_Print\<close> and \<^verbatim>\<open>cJSON_PrintUnformatted\<close> are to write it: a function on trees that knows nothing of
  memory. Also what an item in memory has to be for printing, which only reads it, and memory whose planned blocks are all unused.
\<close>

subsection \<open>Trees and their text\<close>

fun tname :: "'d jtree \<Rightarrow> u8 list option" where
  "tname (JTree t i d v nm ks) = nm"

fun holds :: "'d jmem \<Rightarrow> addr \<Rightarrow> 'd jtree \<Rightarrow> bool" where
  "holds m x (JTree t i d v nm ks) \<longleftrightarrow> x \<noteq> NULL \<and> (\<exists>c xs. jitems m x = Some c \<and> jtype c = t \<and> jvalueint c = i \<and> jvaluedouble c = d \<and>
     str_rep m (jvaluestring c) v \<and> str_rep m (jstring c) nm \<and> dll (jitems m) (jchild c) NULL xs \<and> list_all2 (holds m) xs ks)"

definition num_text :: "'d double_ops \<Rightarrow> int \<Rightarrow> 'd \<Rightarrow> u8 list" where
  "num_text D i d =
     (if d_le D (d_fabs D (d_sub D (d_int D i) d)) (d_epsilon D) \<and> d_le D d (d_int D (2 ^ 31 - 1)) \<and> d_le D (d_int D (- (2 ^ 31))) d
      then fmt_d i
      else if d_le D (d_fabs D (d_sub D (d_floor D d) d)) (d_epsilon D) \<and> d_less D (d_fabs D d) (d_lit D 1 60) then d_fmt_0f D d
      else if d_less D (d_fabs D d) (d_lit D 1 (-6)) \<or> d_less D (d_lit D 1 9) (d_fabs D d) then d_fmt_e D d
      else d_fmt_f D d)"

definition str_text :: "u8 list \<Rightarrow> u8 list" where
  "str_text s = 34 # concat (map escape_token s) @ [34]"

fun elements_text :: "bool \<Rightarrow> u8 list list \<Rightarrow> u8 list" where
  "elements_text fmt [] = []"
| "elements_text fmt (t # ts) = t @ (if ts \<noteq> [] then 44 # (if fmt then [32] else []) else []) @ elements_text fmt ts"

fun members_text :: "bool \<Rightarrow> nat \<Rightarrow> (u8 list \<times> u8 list) list \<Rightarrow> u8 list" where
  "members_text fmt depth [] = []"
| "members_text fmt depth ((n, t) # ts) = (if fmt then replicate depth 9 else []) @ str_text n @ 58 # (if fmt then [9] else []) @ t @
     (if ts \<noteq> [] then [44] else []) @ (if fmt then [10] else []) @ members_text fmt depth ts"

definition object_text :: "bool \<Rightarrow> nat \<Rightarrow> (u8 list \<times> u8 list) list \<Rightarrow> u8 list" where
  "object_text fmt depth ts =
     (if ts = [] then 123 # (if fmt then 10 # replicate (depth - 1) 9 else []) @ [125]
      else 123 # (if fmt then [10] else []) @ members_text fmt (depth + 1) ts @ (if fmt then replicate depth 9 else []) @ [125])"

fun jtext :: "'d double_ops \<Rightarrow> bool \<Rightarrow> nat \<Rightarrow> 'd jtree \<Rightarrow> u8 list" where
  "jtext D fmt depth (JTree t i d v nm ks) =
     (if t = cJSON_NULL then lit_null else if t = cJSON_False then lit_false else if t = cJSON_True then lit_true
      else if t = cJSON_Number then num_text D i d
      else if t = cJSON_String then str_text (the v)
      else if t = cJSON_Array then 91 # elements_text fmt (map (jtext D fmt (depth + 1)) ks) @ [93]
      else object_text fmt depth (map (\<lambda>k. (the (tname k), jtext D fmt (depth + 1) k)) ks))"

fun printable :: "'d double_ops \<Rightarrow> 'd jtree \<Rightarrow> bool" where
  "printable D (JTree t i d v nm ks) \<longleftrightarrow> t \<le> cJSON_Object \<and> length ks < 2 ^ 31 \<and>
     (t = cJSON_Number \<longrightarrow> - (2 ^ 31) \<le> i \<and> i < 2 ^ 31 \<and> length (num_text D i d) < 64 \<and> 0 \<notin> set (num_text D i d)) \<and>
     (t = cJSON_String \<longrightarrow> v \<noteq> None) \<and>
     (t = cJSON_Object \<longrightarrow> (\<forall>k\<in>set ks. tname k \<noteq> None)) \<and> (\<forall>k\<in>set ks. printable D k)"

fun allocs :: "'d jtree \<Rightarrow> nat" where
  "allocs (JTree t i d v nm ks) =
     (if (t = cJSON_Array \<or> t = cJSON_Object) \<and> ks \<noteq> [] then
        if t = cJSON_Array then 2 + sum_list (map allocs ks) else 3 + sum_list (map (\<lambda>k. 1 + allocs k) ks)
      else 1)"

fun tsize :: "'d jtree \<Rightarrow> nat" where
  "tsize (JTree t i d v nm ks) = 1 + sum_list (map tsize ks)"


subsection \<open>Fresh memory\<close>

definition fresh :: "'d jmem \<Rightarrow> bool" where
  "fresh m \<longleftrightarrow> distinct (jplan m) \<and> NULL \<notin> set (jplan m) \<and>
     set (jplan m) \<inter> (dom (jstrs m) \<union> dom (jptrs m) \<union> dom (jitems m)) = {}"

definition extends :: "'d jmem \<Rightarrow> 'd jmem \<Rightarrow> bool" where
  "extends m n \<longleftrightarrow> jitems n = jitems m \<and> (\<forall>s\<in>dom (jstrs m). jstrs n s = jstrs m s)"

lemma extends_refl [simp]: "extends m m"
  by (simp add: extends_def)

lemma str_rep_extends: "str_rep m p s \<Longrightarrow> extends m n \<Longrightarrow> str_rep n p s"
proof (cases s)
  case (Some bs)
  assume "str_rep m p s" "extends m n"
  moreover from this Some obtain r where "jstrs m p = Some (bs @ 0 # r)" by (auto simp: str_rep_def)
  moreover from this have "p \<in> dom (jstrs m)" by blast
  ultimately show ?thesis using Some by (auto simp: str_rep_def extends_def)
qed (simp add: str_rep_def)

lemma holds_extends: "holds m x t \<Longrightarrow> extends m n \<Longrightarrow> holds n x t"
proof (induction m x t rule: holds.induct)
  case (1 m x t i d v nm ks)
  then obtain c xs where c: "x \<noteq> NULL" "jitems m x = Some c" "jtype c = t" "jvalueint c = i" "jvaluedouble c = d"
    "str_rep m (jvaluestring c) v" "str_rep m (jstring c) nm" "dll (jitems m) (jchild c) NULL xs" "list_all2 (holds m) xs ks" by auto
  have "list_all2 (holds n) xs ks"
    using c(9) by (rule list.rel_mono_strong) (use 1 in auto)
  then show ?case using c str_rep_extends [OF c(6) 1(3)] str_rep_extends [OF c(7) 1(3)] 1(3)
    by (auto simp: extends_def intro!: exI [of _ xs])
qed

lemma fresh_take: "fresh m \<Longrightarrow> q \<in> set (take k (jplan m)) \<Longrightarrow> q \<noteq> NULL \<and> jstrs m q = None \<and> q \<notin> set (drop k (jplan m))"
proof -
  assume f: "fresh m" and q: "q \<in> set (take k (jplan m))"
  have "set (take k (jplan m)) \<inter> set (drop k (jplan m)) = {}" using f by (simp add: fresh_def set_take_disj_set_drop_if_distinct)
  then have "q \<notin> set (drop k (jplan m))" using q by auto
  moreover have "q \<in> set (jplan m)" using q in_set_takeD by fast
  ultimately show ?thesis using f unfolding fresh_def by blast
qed

lemma extends_fresh: "extends m n \<Longrightarrow> jstrs n q = None \<Longrightarrow> q \<notin> dom (jstrs m)"
  unfolding extends_def by (metis domIff)

lemma disjoint_drop: "J \<inter> P = {} \<Longrightarrow> D \<subseteq> J \<Longrightarrow> D \<inter> T = {} \<Longrightarrow> X \<subseteq> P \<union> T \<Longrightarrow> D \<inter> X = {}"
  by blast

lemma fresh_drop:
  assumes f: "fresh m" and s: "dom S \<subseteq> dom (jstrs m) \<union> set (take k (jplan m))" "dom P \<subseteq> dom (jptrs m) \<union> set (take k (jplan m))"
    "dom I \<subseteq> dom (jitems m) \<union> set (take k (jplan m))"
  shows "fresh (m\<lparr>jplan := drop k (jplan m), jstrs := S, jptrs := P, jitems := I\<rparr>)"
proof -
  have d: "set (drop k (jplan m)) \<inter> set (take k (jplan m)) = {}"
    using f set_take_disj_set_drop_if_distinct [of "jplan m" k k] by (simp add: fresh_def Int_commute)
  have p: "set (jplan m) \<inter> dom (jstrs m) = {}" "set (jplan m) \<inter> dom (jptrs m) = {}" "set (jplan m) \<inter> dom (jitems m) = {}"
    using f by (simp_all add: fresh_def Int_Un_distrib)
  have sub: "set (drop k (jplan m)) \<subseteq> set (jplan m)" by (rule set_drop_subset)
  have "set (drop k (jplan m)) \<inter> dom S = {}" "set (drop k (jplan m)) \<inter> dom P = {}" "set (drop k (jplan m)) \<inter> dom I = {}"
    by (rule disjoint_drop [OF p(1) sub d s(1)], rule disjoint_drop [OF p(2) sub d s(2)], rule disjoint_drop [OF p(3) sub d s(3)])
  moreover have "NULL \<notin> set (drop k (jplan m))" "distinct (drop k (jplan m))" using f sub by (auto simp: fresh_def)
  ultimately show ?thesis by (simp add: fresh_def Int_Un_distrib)
qed

end
