(* ===== verification/CJsonPrint.thy ===== *)
theory CJsonPrint
  imports CJsonRender
begin

text \<open>
  \<^verbatim>\<open>print_value\<close> and the functions below it write the text of the tree: the loops over the elements and members, the composition of
  their strings, and by induction on the tree the whole. All blocks but the text are freed again.
\<close>

subsection \<open>Printing\<close>

definition prints :: "'d printer \<Rightarrow> int \<Rightarrow> bool \<Rightarrow> 'd jmem \<Rightarrow> addr \<Rightarrow> u8 list \<times> nat \<Rightarrow> bool" where
  "prints pv depth fmt m x r \<longleftrightarrow> 0 \<notin> set (fst r) \<and> (\<forall>n. extends m n \<and> fresh n \<and> snd r \<le> length (jplan n) \<longrightarrow>
     (\<exists>q\<in>set (take (snd r) (jplan n)). pv x depth fmt n =
        Some (q, n\<lparr>jplan := drop (snd r) (jplan n), jstrs := (jstrs n)(q \<mapsto> fst r @ [0])\<rparr>)))"

lemma printsE:
  assumes "prints pv depth fmt m x (t, k)" "extends m n" "fresh n" "k \<le> length (jplan n)"
  obtains q where "q \<in> set (take k (jplan n))" "q \<noteq> NULL" "jstrs n q = None" "q \<notin> set (drop k (jplan n))" "0 \<notin> set t"
    "pv x depth fmt n = Some (q, n\<lparr>jplan := drop k (jplan n), jstrs := (jstrs n)(q \<mapsto> t @ [0])\<rparr>)"
  using assms fresh_take [OF assms(3)] unfolding prints_def by fastforce

lemma string_at_Some [simp]: "p \<noteq> NULL \<Longrightarrow> jstrs m p = Some (s @ [0]) \<Longrightarrow> 0 \<notin> set s \<Longrightarrow> string_at m p = Some s"
  by (simp add: string_at_def c_string_append)

lemma set_ptr_Some [simp]:
  "p \<noteq> NULL \<Longrightarrow> jptrs m p = Some xs \<Longrightarrow> i < length xs \<Longrightarrow> set_ptr p i q m = Some (m\<lparr>jptrs := (jptrs m)(p \<mapsto> xs[i := q])\<rparr>)"
  by (simp add: set_ptr_def)

lemma fill_entry: "i < length arr \<Longrightarrow> take (Suc i) (arr[i := q]) @ qs @ drop (Suc i + n) (arr[i := q]) = take i arr @ (q # qs) @ drop (i + Suc n) arr"
  by (simp add: take_Suc_conv_app_nth upd_conv_take_nth_drop add.commute)

lemma print_elements_ok:
  assumes "list_all2 (prints pv (depth + 1) fmt m) xs rs" "dll (jitems m) p prev xs" "extends m n" "fresh n"
    "sum_list (map snd rs) \<le> length (jplan n)" "jptrs n e = Some arr" "e \<noteq> NULL" "i + length xs \<le> length arr" "length xs < f"
  shows "\<exists>qs. length qs = length xs \<and> distinct qs \<and> set qs \<subseteq> set (take (sum_list (map snd rs)) (jplan n)) \<and>
    print_elements pv f e i p depth fmt len n = Some (False, len + sum_list (map (\<lambda>r. length (fst r) + 2 + (if fmt then 1 else 0)) rs),
      n\<lparr>jplan := drop (sum_list (map snd rs)) (jplan n), jstrs := (jstrs n)(qs [\<mapsto>] map (\<lambda>r. fst r @ [0]) rs),
        jptrs := (jptrs n)(e \<mapsto> take i arr @ qs @ drop (i + length xs) arr)\<rparr>)"
  using assms
proof (induction xs arbitrary: rs p prev n i len arr f)
  case Nil
  then have "(jptrs n)(e \<mapsto> take i arr @ [] @ drop (i + length []) arr) = jptrs n" by (simp add: map_upd_triv)
  then show ?case using Nil by (cases f) (simp_all del: fun_upd_apply)
next
  case (Cons x xs)
  obtain t k rs' where rs: "rs = (t, k) # rs'" "prints pv (depth + 1) fmt m x (t, k)" "list_all2 (prints pv (depth + 1) fmt m) xs rs'"
    using Cons.prems(1) by (cases rs) auto
  obtain g where g: "f = Suc g" "length xs < g" using Cons.prems(9) by (cases f) auto
  obtain c where c: "p = x" "x \<noteq> NULL" "jitems m x = Some c" "dll (jitems m) (jnext c) x xs" using Cons.prems(2) by auto
  have il: "i < length arr" using Cons.prems(8) by simp
  obtain q where q: "q \<in> set (take k (jplan n))" "q \<noteq> NULL" "jstrs n q = None" "q \<notin> set (drop k (jplan n))" "0 \<notin> set t"
    "pv x (depth + 1) fmt n = Some (q, n\<lparr>jplan := drop k (jplan n), jstrs := (jstrs n)(q \<mapsto> t @ [0])\<rparr>)"
    using printsE [OF rs(2) Cons.prems(3,4)] Cons.prems(5) unfolding rs(1) by auto
  let ?n = "n\<lparr>jplan := drop k (jplan n), jstrs := (jstrs n)(q \<mapsto> t @ [0]), jptrs := (jptrs n)(e \<mapsto> arr[i := q])\<rparr>"
  have cn: "jitems n x = Some c" using Cons.prems(3) c(3) by (simp add: extends_def)
  have "fresh (n\<lparr>jplan := drop k (jplan n), jstrs := (jstrs n)(q \<mapsto> t @ [0]), jptrs := (jptrs n)(e \<mapsto> arr[i := q]), jitems := jitems n\<rparr>)"
    by (rule fresh_drop [OF Cons.prems(4)]) (use q(1) Cons.prems(6) in auto)
  then have fr: "fresh ?n" by simp
  have ex: "extends m ?n" using Cons.prems(3) extends_fresh [OF Cons.prems(3) q(3)] by (auto simp: extends_def)
  have l: "sum_list (map snd rs') \<le> length (jplan ?n)" "Suc i + length xs \<le> length (arr[i := q])" using Cons.prems(5,8) rs(1) by simp_all
  have e: "jptrs ?n e = Some (arr[i := q])" by simp
  obtain qs where qs: "length qs = length xs" "distinct qs" "set qs \<subseteq> set (take (sum_list (map snd rs')) (jplan ?n))"
    "print_elements pv g e (Suc i) (jnext c) depth fmt (len + length t + 2 + (if fmt then 1 else 0)) ?n = Some (False,
       len + length t + 2 + (if fmt then 1 else 0) + sum_list (map (\<lambda>r. length (fst r) + 2 + (if fmt then 1 else 0)) rs'),
      ?n\<lparr>jplan := drop (sum_list (map snd rs')) (jplan ?n), jstrs := (jstrs ?n)(qs [\<mapsto>] map (\<lambda>r. fst r @ [0]) rs'),
        jptrs := (jptrs ?n)(e \<mapsto> take (Suc i) (arr[i := q]) @ qs @ drop (Suc i + length xs) (arr[i := q]))\<rparr>)"
    using Cons.IH [OF rs(3) c(4) ex fr l(1) e Cons.prems(7) l(2) g(2)] by blast
  have sub: "set qs \<subseteq> set (drop k (jplan n))" using qs(3) set_take_subset by fastforce
  show ?case
  proof (intro exI [of _ "q # qs"] conjI)
    show "distinct (q # qs)" using qs(2) sub q(4) by auto
    have "take (k + sum_list (map snd rs')) (jplan n) = take k (jplan n) @ take (sum_list (map snd rs')) (drop k (jplan n))"
      by (rule take_add)
    then show "set (q # qs) \<subseteq> set (take (sum_list (map snd rs)) (jplan n))" using q(1) qs(3) rs(1) by auto
    show "print_elements pv f e i p depth fmt len n = Some (False, len + sum_list (map (\<lambda>r. length (fst r) + 2 + (if fmt then 1 else 0)) rs),
      n\<lparr>jplan := drop (sum_list (map snd rs)) (jplan n), jstrs := (jstrs n)(q # qs [\<mapsto>] map (\<lambda>r. fst r @ [0]) rs),
        jptrs := (jptrs n)(e \<mapsto> take i arr @ (q # qs) @ drop (i + length (x # xs)) arr)\<rparr>)"
      using q(2,5,6) c(1,2) cn Cons.prems(6,7) il qs(4) unfolding g(1) rs(1) fill_entry [OF il]
      by (simp add: add.assoc add.commute)
  qed (use qs(1) in simp)
qed

lemma map_upds_delete: "q \<notin> set qs \<Longrightarrow> S q = None \<Longrightarrow> ((S(q \<mapsto> v))(qs [\<mapsto>] vs))(q := None) = S(qs [\<mapsto>] vs)"
  by (simp add: map_upds_twist map_upds_apply_nontin fun_upd_idem)

lemma compose_array_ok:
  "length ts = length qs \<Longrightarrow> distinct qs \<Longrightarrow> set qs \<inter> dom S = {} \<Longrightarrow> NULL \<notin> set qs \<Longrightarrow> \<forall>t\<in>set ts. 0 \<notin> set t \<Longrightarrow>
   compose_array fmt qs (n\<lparr>jstrs := S(qs [\<mapsto>] map (\<lambda>t. t @ [0]) ts)\<rparr>) = Some (elements_text fmt ts, n\<lparr>jstrs := S\<rparr>)"
proof (induction qs arbitrary: ts S)
  case (Cons q qs)
  then obtain t ts' where ts: "ts = t # ts'" "length ts' = length qs" by (cases ts) auto
  let ?S = "(S(q \<mapsto> t @ [0]))(qs [\<mapsto>] map (\<lambda>t. t @ [0]) ts')"
  have q: "q \<noteq> NULL" "q \<notin> set qs" "S q = None" using Cons.prems by auto
  have v: "?S q = Some (t @ [0])" using q(2) by (simp add: map_upds_apply_nontin)
  have r: "?S(q := None) = S(qs [\<mapsto>] map (\<lambda>t. t @ [0]) ts')" by (rule map_upds_delete [OF q(2)]) (rule q(3))
  have "compose_array fmt qs (n\<lparr>jstrs := S(qs [\<mapsto>] map (\<lambda>t. t @ [0]) ts')\<rparr>) = Some (elements_text fmt ts', n\<lparr>jstrs := S\<rparr>)"
    using Cons.prems ts by (intro Cons.IH) auto
  moreover have "(qs = []) = (ts' = [])" using ts(2) by auto
  ultimately show ?case using v r q(1) Cons.prems(5) by (simp add: ts(1) free_str_def)
qed simp

text \<open>The strings of names and values that printing the members leaves behind.\<close>

fun add_pairs :: "(addr \<rightharpoonup> u8 list) \<Rightarrow> (addr \<times> addr) list \<Rightarrow> (u8 list \<times> u8 list) list \<Rightarrow> addr \<rightharpoonup> u8 list" where
  "add_pairs S ((p, q) # ps) ((s, t) # ts) = add_pairs (S(p \<mapsto> str_text s @ [0], q \<mapsto> t @ [0])) ps ts"
| "add_pairs S _ _ = S"

lemma add_pairs_other: "r \<notin> set (map fst ps @ map snd ps) \<Longrightarrow> add_pairs S ps ts r = S r"
  by (induction S ps ts rule: add_pairs.induct) auto

lemma add_pairs_twist: "r \<notin> set (map fst ps @ map snd ps) \<Longrightarrow> add_pairs (S(r := v)) ps ts = (add_pairs S ps ts)(r := v)"
proof (induction S ps ts rule: add_pairs.induct)
  case (1 S p q ps s t ts)
  have "S(r := v, p \<mapsto> str_text s @ [0], q \<mapsto> t @ [0]) = S(p \<mapsto> str_text s @ [0], q \<mapsto> t @ [0], r := v)"
    using 1(2) by (auto simp: fun_eq_iff)
  moreover have "add_pairs (S(p \<mapsto> str_text s @ [0], q \<mapsto> t @ [0], r := v)) ps ts = (add_pairs (S(p \<mapsto> str_text s @ [0], q \<mapsto> t @ [0])) ps ts)(r := v)"
    by (rule 1(1)) (use 1(2) in auto)
  ultimately show ?case unfolding add_pairs.simps by metis
qed auto

lemma str_text_nonzero: "0 \<notin> set s \<Longrightarrow> 0 \<notin> set (str_text s)"
proof -
  have "0 \<notin> set (escape_token c)" if "c \<noteq> 0" for c
  proof -
    have h: "hex_char d \<noteq> 0" if "d < 16" for d
      by (rule small_byte [of d 16]) (use that in \<open>simp add: word_less_nat_alt\<close>, code_simp)
    have "hex_char (drop_bit 4 c) \<noteq> 0 \<and> hex_char (c AND 15) \<noteq> 0" if "c \<le> 31"
    proof -
      have "c < 32" using that by (simp add: word_le_nat_alt word_less_nat_alt)
      then show ?thesis using control_round [of c] h by simp
    qed
    then show ?thesis using that by (auto simp: escape_token_def not_less)
  qed
  then show "0 \<notin> set s \<Longrightarrow> 0 \<notin> set (str_text s)" unfolding str_text_def by simp metis
qed

lemma compose_object_ok:
  "length ts = length ps \<Longrightarrow> distinct (map fst ps @ map snd ps) \<Longrightarrow> set (map fst ps @ map snd ps) \<inter> dom S = {} \<Longrightarrow>
   NULL \<notin> set (map fst ps @ map snd ps) \<Longrightarrow> \<forall>(s, t)\<in>set ts. 0 \<notin> set s \<and> 0 \<notin> set t \<Longrightarrow>
   compose_object fmt depth ps (n\<lparr>jstrs := add_pairs S ps ts\<rparr>) = Some (members_text fmt depth ts, n\<lparr>jstrs := S\<rparr>)"
proof (induction ps arbitrary: ts S)
  case (Cons pq ps)
  obtain p q where pq: "pq = (p, q)" by force
  from Cons.prems(1) obtain s t ts' where ts: "ts = (s, t) # ts'" "length ts' = length ps" by (cases ts) auto
  let ?S = "add_pairs S ps ts'"
  have q: "p \<noteq> NULL" "q \<noteq> NULL" "p \<noteq> q" "p \<notin> set (map fst ps @ map snd ps)" "q \<notin> set (map fst ps @ map snd ps)" "S p = None" "S q = None"
    using Cons.prems(2-4) unfolding pq by auto
  have e: "add_pairs S (pq # ps) ts = ?S(p \<mapsto> str_text s @ [0], q \<mapsto> t @ [0])"
    unfolding pq ts(1) by (simp add: add_pairs_twist [OF q(4)] add_pairs_twist [OF q(5)])
  define M where "M = add_pairs S ps ts'"
  have "?S p = None" "?S q = None" using q(4-7) by (simp_all add: add_pairs_other)
  then have r: "M(p \<mapsto> str_text s @ [0], q \<mapsto> t @ [0], p := None, q := None) = M" unfolding M_def by (auto simp: fun_eq_iff)
  define M1 where "M1 = M(p \<mapsto> str_text s @ [0], q \<mapsto> t @ [0])"
  have z: "0 \<notin> set (str_text s)" "0 \<notin> set t" using Cons.prems(5) str_text_nonzero by (auto simp: ts(1))
  have "string_at (n\<lparr>jstrs := M1\<rparr>) p = Some (str_text s)" "string_at (n\<lparr>jstrs := M1\<rparr>) q = Some t"
    "free_str p (n\<lparr>jstrs := M1\<rparr>) = Some (n\<lparr>jstrs := M1(p := None)\<rparr>)"
    using z q(1-3) by (simp_all add: M1_def free_str_def)
  moreover have "free_str q (n\<lparr>jstrs := M1(p := None)\<rparr>) = Some (n\<lparr>jstrs := M\<rparr>)"
    using q(2,3) r unfolding M1_def free_str_def by (simp add: release_def del: fun_upd_apply) (simp add: fun_upd_def)
  moreover have "compose_object fmt depth ps (n\<lparr>jstrs := M\<rparr>) = Some (members_text fmt depth ts', n\<lparr>jstrs := S\<rparr>)"
    unfolding M_def using Cons.prems ts by (intro Cons.IH) auto
  moreover have "(ps = []) = (ts' = [])" using ts(2) by auto
  ultimately show ?case unfolding e M_def [symmetric] M1_def [symmetric] by (simp add: pq ts(1))
qed simp

text \<open>What the members come to in length, with their separators and tabulators.\<close>

definition members_len :: "bool \<Rightarrow> int \<Rightarrow> (u8 list \<times> u8 list) list \<Rightarrow> nat" where
  "members_len fmt depth ts = sum_list (map (\<lambda>(s, t). length t + length (str_text s) + 2 + (if fmt then 2 + nat depth else 0)) ts)"

text \<open>The name and the value of one member, and the allocations of the value.\<close>

definition prints_member :: "'d printer \<Rightarrow> int \<Rightarrow> bool \<Rightarrow> 'd jmem \<Rightarrow> addr \<Rightarrow> (u8 list \<times> u8 list) \<times> nat \<Rightarrow> bool" where
  "prints_member pv depth fmt m x r \<longleftrightarrow> prints pv depth fmt m x (snd (fst r), snd r) \<and> 0 \<notin> set (fst (fst r)) \<and>
     (\<exists>c. jitems m x = Some c \<and> str_rep m (jstring c) (Some (fst (fst r))))"

lemma print_name_ok:
  assumes "str_rep m p (Some s)" "extends m n" "fresh n" "jplan n = a # as"
  shows "do { s \<leftarrow> str_at n p; print_string_ptr s n } =
      Some (a, n\<lparr>jplan := as, jstrs := (jstrs n)(a \<mapsto> str_text s @ [0])\<rparr>)"
    "a \<noteq> NULL" "jstrs n a = None" "a \<notin> set as"
proof -
  show a: "a \<noteq> NULL" "jstrs n a = None" "a \<notin> set as" using assms(3,4) by (auto simp: fresh_def)
  have "str_rep n p (Some s)" using str_rep_extends [OF assms(1,2)] .
  then obtain r where "p \<noteq> NULL" "jstrs n p = Some (s @ 0 # r)" "0 \<notin> set s" by (auto simp: str_rep_def)
  then show "do { s \<leftarrow> str_at n p; print_string_ptr s n } = Some (a, n\<lparr>jplan := as, jstrs := (jstrs n)(a \<mapsto> str_text s @ [0])\<rparr>)"
    using print_string_ok [OF _ assms(4) a(1)] by (simp add: str_at_def str_text_def)
qed

lemma members_len_Cons [simp]:
  "members_len fmt depth ((s, t) # ts) = length t + length (str_text s) + 2 + (if fmt then 2 + nat depth else 0) + members_len fmt depth ts"
  "members_len fmt depth [] = 0"
  by (simp_all add: members_len_def)

lemma print_members_ok:
  assumes "list_all2 (prints_member pv depth fmt m) xs rs" "dll (jitems m) p prev xs" "extends m n" "fresh n"
    "sum_list (map (\<lambda>r. 1 + snd r) rs) \<le> length (jplan n)" "jptrs n ns = Some na" "jptrs n e = Some ea" "ns \<noteq> NULL" "e \<noteq> NULL" "ns \<noteq> e"
    "i + length xs \<le> length na" "i + length xs \<le> length ea" "length xs < f"
  shows "\<exists>ps. length ps = length xs \<and> distinct (map fst ps @ map snd ps) \<and>
    set (map fst ps @ map snd ps) \<subseteq> set (take (sum_list (map (\<lambda>r. 1 + snd r) rs)) (jplan n)) \<and>
    print_members pv f ns e i p depth fmt len False n = Some (False, len + members_len fmt depth (map fst rs),
      n\<lparr>jplan := drop (sum_list (map (\<lambda>r. 1 + snd r) rs)) (jplan n), jstrs := add_pairs (jstrs n) ps (map fst rs),
        jptrs := (jptrs n)(ns \<mapsto> take i na @ map fst ps @ drop (i + length xs) na, e \<mapsto> take i ea @ map snd ps @ drop (i + length xs) ea)\<rparr>)"
  using assms
proof (induction xs arbitrary: rs p prev n i len na ea f)
  case Nil
  then have "(jptrs n)(ns \<mapsto> take i na @ [] @ drop (i + length []) na, e \<mapsto> take i ea @ [] @ drop (i + length []) ea) = jptrs n"
    by (simp add: map_upd_triv)
  then show ?case using Nil by (cases f) (simp_all del: fun_upd_apply)
next
  case (Cons x xs)
  obtain s t k rs' where rs: "rs = ((s, t), k) # rs'" "prints pv depth fmt m x (t, k)" "0 \<notin> set s"
    and x: "\<exists>c. jitems m x = Some c \<and> str_rep m (jstring c) (Some s)" and rest: "list_all2 (prints_member pv depth fmt m) xs rs'"
    using Cons.prems(1) by (cases rs) (force simp: prints_member_def)+
  obtain g where g: "f = Suc g" "length xs < g" using Cons.prems(13) by (cases f) auto
  obtain c where c: "p = x" "x \<noteq> NULL" "jitems m x = Some c" "dll (jitems m) (jnext c) x xs" "str_rep m (jstring c) (Some s)"
    using Cons.prems(2) x by auto
  have il: "i < length na" "i < length ea" using Cons.prems(11,12) by simp_all
  obtain a as where as: "jplan n = a # as" "k + sum_list (map (\<lambda>r. 1 + snd r) rs') \<le> length as"
    using Cons.prems(5) rs(1) by (cases "jplan n") auto
  note name = print_name_ok [OF c(5) Cons.prems(3,4) as(1)]
  define n1 where "n1 = n\<lparr>jplan := as, jstrs := (jstrs n)(a \<mapsto> str_text s @ [0]), jptrs := (jptrs n)(ns \<mapsto> na[i := a])\<rparr>"
  have "fresh (n\<lparr>jplan := drop 1 (jplan n), jstrs := (jstrs n)(a \<mapsto> str_text s @ [0]), jptrs := (jptrs n)(ns \<mapsto> na[i := a]), jitems := jitems n\<rparr>)"
    by (rule fresh_drop [OF Cons.prems(4)]) (use as(1) Cons.prems(6) in auto)
  then have fr1: "fresh n1" using as(1) by (simp add: n1_def)
  have ex1: "extends m n1" using Cons.prems(3) extends_fresh [OF Cons.prems(3) name(3)] by (auto simp: extends_def n1_def)
  have "k \<le> length (jplan n1)" using as(2) by (simp add: n1_def)
  then obtain q where q: "q \<in> set (take k as)" "q \<noteq> NULL" "jstrs n1 q = None" "q \<notin> set (drop k as)" "0 \<notin> set t"
    "pv x depth fmt n1 = Some (q, n1\<lparr>jplan := drop k as, jstrs := (jstrs n1)(q \<mapsto> t @ [0])\<rparr>)"
    using printsE [OF rs(2) ex1 fr1] by (auto simp: n1_def)
  have qa: "q \<noteq> a" using q(1) name(4) in_set_takeD by fastforce
  have zs: "0 \<notin> set (str_text s)" using str_text_nonzero [OF rs(3)] .
  define n2 where "n2 = n1\<lparr>jplan := drop k as, jstrs := (jstrs n1)(q \<mapsto> t @ [0]), jptrs := (jptrs n1)(e \<mapsto> ea[i := q])\<rparr>"
  have "fresh (n1\<lparr>jplan := drop k (jplan n1), jstrs := (jstrs n1)(q \<mapsto> t @ [0]), jptrs := (jptrs n1)(e \<mapsto> ea[i := q]), jitems := jitems n1\<rparr>)"
    by (rule fresh_drop [OF fr1]) (use q(1) Cons.prems(7,10) in \<open>auto simp: n1_def\<close>)
  then have fr2: "fresh n2" by (simp add: n2_def) (simp add: n1_def)
  have ex2: "extends m n2" using ex1 extends_fresh [OF ex1 q(3)] by (auto simp: extends_def n2_def)
  have n2: "jplan n2 = drop k as" "jptrs n2 ns = Some (na[i := a])" "jptrs n2 e = Some (ea[i := q])"
    using Cons.prems(10) by (simp_all add: n2_def n1_def)
  have l: "sum_list (map (\<lambda>r. 1 + snd r) rs') \<le> length (jplan n2)" "Suc i + length xs \<le> length (na[i := a])" "Suc i + length xs \<le> length (ea[i := q])"
    using as(2) Cons.prems(11,12) by (simp_all add: n2)
  let ?L = "len + length t + length (str_text s) + 2 + (if fmt then 2 + nat depth else 0)"
  obtain ps where ps: "length ps = length xs" "distinct (map fst ps @ map snd ps)"
    "set (map fst ps @ map snd ps) \<subseteq> set (take (sum_list (map (\<lambda>r. 1 + snd r) rs')) (jplan n2))"
    "print_members pv g ns e (Suc i) (jnext c) depth fmt ?L False n2 = Some (False, ?L + members_len fmt depth (map fst rs'),
      n2\<lparr>jplan := drop (sum_list (map (\<lambda>r. 1 + snd r) rs')) (jplan n2), jstrs := add_pairs (jstrs n2) ps (map fst rs'),
        jptrs := (jptrs n2)(ns \<mapsto> take (Suc i) (na[i := a]) @ map fst ps @ drop (Suc i + length xs) (na[i := a]),
          e \<mapsto> take (Suc i) (ea[i := q]) @ map snd ps @ drop (Suc i + length xs) (ea[i := q]))\<rparr>)"
    using Cons.IH [OF rest c(4) ex2 fr2 l(1) n2(2,3) Cons.prems(8-10) l(2,3) g(2)] by blast
  have sub: "set (map fst ps @ map snd ps) \<subseteq> set (drop k as)" using ps(3) set_take_subset unfolding n2(1) by fastforce
  have step: "print_members pv f ns e i p depth fmt len False n = print_members pv g ns e (Suc i) (jnext c) depth fmt ?L False n2"
  proof -
    have "string_at n2 q = Some t" "string_at n2 a = Some (str_text s)" "jitems n2 x = Some c"
      using q(2,5) name(2) qa zs c(3) Cons.prems(3) by (simp_all add: n2_def n1_def extends_def)
    moreover have "jitems n x = Some c" using c(3) Cons.prems(3) by (simp add: extends_def)
    moreover have "set_ptr ns i a (n\<lparr>jplan := as, jstrs := (jstrs n)(a \<mapsto> str_text s @ [0])\<rparr>) = Some n1"
      using Cons.prems(6,8) il(1) by (simp add: n1_def)
    moreover have "set_ptr e i q (n1\<lparr>jplan := drop k as, jstrs := (jstrs n1)(q \<mapsto> t @ [0])\<rparr>) = Some n2"
      using Cons.prems(7,9,10) il(2) by (simp add: n2_def n1_def)
    moreover obtain z where "str_at n (jstring c) = Some z" "print_string_ptr z n = Some (a, n\<lparr>jplan := as, jstrs := (jstrs n)(a \<mapsto> str_text s @ [0])\<rparr>)"
      using name(1) by (auto simp: bind_Some_iff)
    ultimately show ?thesis using q(2,6) name(2) c(1,2) unfolding g(1) by (simp add: add.assoc)
  qed
  show ?case
  proof (intro exI [of _ "(a, q) # ps"] conjI)
    show "distinct (map fst ((a, q) # ps) @ map snd ((a, q) # ps))"
      using ps(2) sub q(4) qa name(4) set_drop_subset [of k as] by auto
    have "set (take (k + sum_list (map (\<lambda>r. 1 + snd r) rs')) as) = set (take k as) \<union> set (take (sum_list (map (\<lambda>r. 1 + snd r) rs')) (drop k as))"
      by (simp add: take_add)
    then show "set (map fst ((a, q) # ps) @ map snd ((a, q) # ps)) \<subseteq> set (take (sum_list (map (\<lambda>r. 1 + snd r) rs)) (jplan n))"
      using q(1) ps(3) rs(1) n2(1) as(1) by auto
    have "(jptrs n2)(ns \<mapsto> take (Suc i) (na[i := a]) @ map fst ps @ drop (Suc i + length xs) (na[i := a]),
          e \<mapsto> take (Suc i) (ea[i := q]) @ map snd ps @ drop (Suc i + length xs) (ea[i := q])) =
        (jptrs n)(ns \<mapsto> take i na @ (a # map fst ps) @ drop (i + Suc (length xs)) na, e \<mapsto> take i ea @ (q # map snd ps) @ drop (i + Suc (length xs)) ea)"
      unfolding fill_entry [OF il(1)] fill_entry [OF il(2)] using Cons.prems(10) by (auto simp: n2_def n1_def fun_eq_iff)
    then show "print_members pv f ns e i p depth fmt len False n = Some (False, len + members_len fmt depth (map fst rs),
      n\<lparr>jplan := drop (sum_list (map (\<lambda>r. 1 + snd r) rs)) (jplan n), jstrs := add_pairs (jstrs n) ((a, q) # ps) (map fst rs),
        jptrs := (jptrs n)(ns \<mapsto> take i na @ map fst ((a, q) # ps) @ drop (i + length (x # xs)) na,
          e \<mapsto> take i ea @ map snd ((a, q) # ps) @ drop (i + length (x # xs)) ea)\<rparr>)"
      unfolding step ps(4) rs(1) as(1) n2(1) by (simp add: n2_def n1_def add.assoc add.commute del: fun_upd_apply)
  qed (use ps(1) in simp)
qed

lemma elements_text_length:
  "length (elements_text fmt ts) \<le> sum_list (map (\<lambda>t. length t + 2 + (if fmt then 1 else 0)) ts)"
  by (induction ts) auto

lemma members_text_length: "length (members_text fmt d ts) \<le> members_len fmt (int d) ts"
proof (induction ts)
  case (Cons st ts)
  then show ?case by (cases st) auto
qed simp

lemma prints_nonzero: "list_all2 (prints pv depth fmt m) xs rs \<Longrightarrow> \<forall>t\<in>set (map fst rs). 0 \<notin> set t"
  by (induction rule: list_all2_induct) (auto simp: prints_def)

lemma prints_member_nonzero:
  "list_all2 (prints_member pv depth fmt m) xs rs \<Longrightarrow> \<forall>(s, t)\<in>set (map fst rs). 0 \<notin> set s \<and> 0 \<notin> set t"
  by (induction rule: list_all2_induct) (auto simp: prints_def prints_member_def)

lemma print_array_ok:
  assumes x: "x \<noteq> NULL" "jitems m x = Some c" "dll (jitems m) (jchild c) NULL xs" "length xs < 2 ^ 31" "xs \<noteq> []"
    and p: "list_all2 (prints pv (depth + 1) fmt m) xs rs" "extends m n" "fresh n"
    and l: "2 + sum_list (map snd rs) \<le> length (jplan n)" "length xs < f"
  shows "\<exists>q\<in>set (take (2 + sum_list (map snd rs)) (jplan n)). print_array pv f x depth fmt n =
    Some (q, n\<lparr>jplan := drop (2 + sum_list (map snd rs)) (jplan n),
      jstrs := (jstrs n)(q \<mapsto> (91 # elements_text fmt (map fst rs) @ [93]) @ [0])\<rparr>)"
proof -
  let ?K = "sum_list (map snd rs)" and ?N = "length xs"
  obtain e as where as: "jplan n = e # as" "Suc ?K \<le> length as" using l(1) by (cases "jplan n") auto
  have e: "e \<noteq> NULL" "jptrs n e = None" "e \<notin> set as" using p(3) as(1) by (auto simp: fresh_def)
  define n1 where "n1 = n\<lparr>jplan := as, jptrs := (jptrs n)(e \<mapsto> replicate ?N NULL)\<rparr>"
  have "fresh (n\<lparr>jplan := drop 1 (jplan n), jstrs := jstrs n, jptrs := (jptrs n)(e \<mapsto> replicate ?N NULL), jitems := jitems n\<rparr>)"
    by (rule fresh_drop [OF p(3)]) (use as(1) in auto)
  then have fr: "fresh n1" using as(1) by (simp add: n1_def)
  have ex: "extends m n1" using p(2) by (simp add: extends_def n1_def)
  have e1: "jptrs n1 e = Some (replicate ?N NULL)" "?K \<le> length (jplan n1)" "0 + length xs \<le> length (replicate ?N NULL)"
    using as(2) by (simp_all add: n1_def)
  obtain qs where qs: "length qs = ?N" "distinct qs" "set qs \<subseteq> set (take ?K (jplan n1))"
    "print_elements pv f e 0 (jchild c) depth fmt 5 n1 = Some (False, 5 + sum_list (map (\<lambda>r. length (fst r) + 2 + (if fmt then 1 else 0)) rs),
      n1\<lparr>jplan := drop ?K (jplan n1), jstrs := (jstrs n1)(qs [\<mapsto>] map (\<lambda>r. fst r @ [0]) rs),
        jptrs := (jptrs n1)(e \<mapsto> take 0 (replicate ?N NULL) @ qs @ drop (0 + ?N) (replicate ?N NULL))\<rparr>)"
    using print_elements_ok [OF p(1) x(3) ex fr e1(2,1) e(1) e1(3) l(2)] by blast
  obtain q bs where q: "drop ?K as = q # bs" using as(2) by (cases "drop ?K as") auto
  have qin: "q \<in> set (take (2 + ?K) (jplan n))" "bs = drop (2 + ?K) (jplan n)" "q \<noteq> NULL"
  proof -
    have "take (Suc ?K) as = take ?K as @ [q]" using q take_add [of ?K 1 as] by simp
    then show "q \<in> set (take (2 + ?K) (jplan n))" using as(1) by simp
    show "bs = drop (2 + ?K) (jplan n)" using q as(1) by (simp add: drop_Suc tl_drop [symmetric])
    have "q \<in> set as" using q by (metis in_set_dropD list.set_intros(1))
    then show "q \<noteq> NULL" using p(3) as(1) by (auto simp: fresh_def)
  qed
  have rs: "length rs = ?N" "\<forall>t\<in>set (map fst rs). 0 \<notin> set t"
    using list_all2_lengthD [OF p(1)] prints_nonzero [OF p(1)] by simp_all
  have "set qs \<subseteq> set as" using qs(3) set_take_subset by (fastforce simp: n1_def)
  then have dis: "set qs \<inter> dom (jstrs n) = {}" "NULL \<notin> set qs" using p(3) as(1) by (auto simp: fresh_def)
  let ?n2 = "n\<lparr>jptrs := (jptrs n)(e \<mapsto> qs), jplan := bs\<rparr>"
  have "compose_array fmt qs (?n2\<lparr>jstrs := (jstrs n)(qs [\<mapsto>] map (\<lambda>t. t @ [0]) (map fst rs))\<rparr>) =
      Some (elements_text fmt (map fst rs), ?n2\<lparr>jstrs := jstrs n\<rparr>)"
    by (rule compose_array_ok) (use qs rs dis in auto)
  moreover have "?n2\<lparr>jstrs := (jstrs n)(qs [\<mapsto>] map (\<lambda>t. t @ [0]) (map fst rs))\<rparr> =
      n\<lparr>jstrs := (jstrs n)(qs [\<mapsto>] map (\<lambda>r. fst r @ [0]) rs), jptrs := (jptrs n)(e \<mapsto> qs), jplan := bs\<rparr>"
    by (simp add: comp_def)
  ultimately have "compose_array fmt qs (n\<lparr>jstrs := (jstrs n)(qs [\<mapsto>] map (\<lambda>r. fst r @ [0]) rs), jptrs := (jptrs n)(e \<mapsto> qs), jplan := bs\<rparr>) =
      Some (elements_text fmt (map fst rs), n\<lparr>jptrs := (jptrs n)(e \<mapsto> qs), jplan := bs\<rparr>)" by simp
  moreover have "(jptrs n)(e := None) = jptrs n" using e(2) by auto
  moreover have "length (elements_text fmt (map fst rs)) \<le> sum_list (map (\<lambda>r. length (fst r) + 2 + (if fmt then 1 else 0)) rs)"
    using elements_text_length [of fmt "map fst rs"] by (simp add: comp_def)
  moreover have "count_items (jitems n) (jchild c) 0 = Some (int ?N)" "jitems n x = Some c"
    using count_items_ok [OF x(3), of 0] x(2,4) p(2) by (simp_all add: extends_def)
  moreover have "new_ptrs ?N n = (e, n1)" using as(1) e(1) by (simp add: new_ptrs_def n1_def)
  ultimately have "print_array pv f x depth fmt n =
      Some (q, n\<lparr>jplan := bs, jstrs := (jstrs n)(q \<mapsto> (91 # elements_text fmt (map fst rs) @ [93]) @ [0])\<rparr>)"
    using x(1,5) e(1) q qin(3) qs(1,4) by (simp add: print_array_def free_ptrs_def n1_def jmalloc_def comp_def)
  then show ?thesis using qin(1,2) by auto
qed

lemma print_object_ok:
  assumes x: "x \<noteq> NULL" "jitems m x = Some c" "dll (jitems m) (jchild c) NULL xs" "length xs < 2 ^ 31" "xs \<noteq> []"
    and p: "list_all2 (prints_member pv (int (depth + 1)) fmt m) xs rs" "extends m n" "fresh n"
    and l: "3 + sum_list (map (\<lambda>r. 1 + snd r) rs) \<le> length (jplan n)" "length xs < f"
  shows "\<exists>q\<in>set (take (3 + sum_list (map (\<lambda>r. 1 + snd r) rs)) (jplan n)). print_object pv f x (int depth) fmt n =
    Some (q, n\<lparr>jplan := drop (3 + sum_list (map (\<lambda>r. 1 + snd r) rs)) (jplan n),
      jstrs := (jstrs n)(q \<mapsto> object_text fmt depth (map fst rs) @ [0])\<rparr>)"
proof -
  let ?K = "sum_list (map (\<lambda>r. 1 + snd r) rs)" and ?N = "length xs"
  obtain e ns as where as: "jplan n = e # ns # as" "Suc ?K \<le> length as"
    using l(1) by (cases "jplan n"; cases "tl (jplan n)") auto
  have e: "e \<noteq> NULL" "jptrs n e = None" "ns \<noteq> NULL" "jptrs n ns = None" "ns \<noteq> e" using p(3) as(1) by (auto simp: fresh_def)
  let ?P = "(jptrs n)(e \<mapsto> replicate ?N NULL, ns \<mapsto> replicate ?N NULL)"
  define n1 where "n1 = n\<lparr>jplan := as, jptrs := ?P\<rparr>"
  have "fresh (n\<lparr>jplan := drop 2 (jplan n), jstrs := jstrs n, jptrs := ?P, jitems := jitems n\<rparr>)"
    by (rule fresh_drop [OF p(3)]) (use as(1) in \<open>auto simp: numeral_2_eq_2\<close>)
  then have fr: "fresh n1" using as(1) by (simp add: n1_def numeral_2_eq_2)
  have ex: "extends m n1" using p(2) by (simp add: extends_def n1_def)
  have e1: "jptrs n1 e = Some (replicate ?N NULL)" "jptrs n1 ns = Some (replicate ?N NULL)" "?K \<le> length (jplan n1)"
      "0 + length xs \<le> length (replicate ?N NULL)"
    using as(2) e(5) by (simp_all add: n1_def)
  let ?len = "7 + (if fmt then depth + 1 else 0)"
  obtain ps where ps: "length ps = ?N" "distinct (map fst ps @ map snd ps)" "set (map fst ps @ map snd ps) \<subseteq> set (take ?K (jplan n1))"
    "print_members pv f ns e 0 (jchild c) (int (depth + 1)) fmt ?len False n1 =
      Some (False, ?len + members_len fmt (int (depth + 1)) (map fst rs),
      n1\<lparr>jplan := drop ?K (jplan n1), jstrs := add_pairs (jstrs n1) ps (map fst rs),
        jptrs := (jptrs n1)(ns \<mapsto> take 0 (replicate ?N NULL) @ map fst ps @ drop (0 + ?N) (replicate ?N NULL),
          e \<mapsto> take 0 (replicate ?N NULL) @ map snd ps @ drop (0 + ?N) (replicate ?N NULL))\<rparr>)"
    using print_members_ok [OF p(1) x(3) ex fr e1(3,2,1) e(3,1,5) e1(4,4) l(2)] by blast
  obtain q bs where q: "drop ?K as = q # bs" using as(2) by (cases "drop ?K as") auto
  have qin: "q \<in> set (take (3 + ?K) (jplan n))" "bs = drop (3 + ?K) (jplan n)" "q \<noteq> NULL"
  proof -
    have "take (Suc ?K) as = take ?K as @ [q]" using q take_add [of ?K 1 as] by simp
    then show "q \<in> set (take (3 + ?K) (jplan n))" using as(1) by (simp add: numeral_3_eq_3)
    show "bs = drop (3 + ?K) (jplan n)" using q as(1) by (simp add: numeral_3_eq_3 drop_Suc tl_drop [symmetric])
    have "q \<in> set as" using q by (metis in_set_dropD list.set_intros(1))
    then show "q \<noteq> NULL" using p(3) as(1) by (auto simp: fresh_def)
  qed
  have rs: "length rs = ?N" using list_all2_lengthD [OF p(1)] by simp
  have "set (map fst ps @ map snd ps) \<subseteq> set as" using ps(3) set_take_subset unfolding n1_def by fastforce
  then have dis: "set (map fst ps @ map snd ps) \<inter> dom (jstrs n) = {}" "NULL \<notin> set (map fst ps @ map snd ps)"
    using p(3) as(1) unfolding fresh_def by (simp_all only: list.set) blast+
  define n2 where "n2 = n\<lparr>jplan := bs, jptrs := (jptrs n)(e \<mapsto> map snd ps, ns \<mapsto> map fst ps)\<rparr>"
  have comp: "compose_object fmt (depth + 1) ps (n2\<lparr>jstrs := add_pairs (jstrs n) ps (map fst rs)\<rparr>) =
      Some (members_text fmt (depth + 1) (map fst rs), n2\<lparr>jstrs := jstrs n\<rparr>)"
    by (rule compose_object_ok) (use ps rs dis prints_member_nonzero [OF p(1)] in auto)
  have mem: "print_members pv f ns e 0 (jchild c) (int depth + 1) fmt ?len False n1 =
      Some (False, ?len + members_len fmt (int depth + 1) (map fst rs), n2\<lparr>jplan := q # bs, jstrs := add_pairs (jstrs n) ps (map fst rs)\<rparr>)"
  proof -
    have "(jptrs n)(e \<mapsto> replicate ?N NULL, ns \<mapsto> replicate ?N NULL, ns \<mapsto> map fst ps, e \<mapsto> map snd ps) =
        (jptrs n)(e \<mapsto> map snd ps, ns \<mapsto> map fst ps)" using e(5) by (auto simp: fun_eq_iff)
    then show ?thesis using ps(4) q unfolding n2_def n1_def by (simp add: add.commute)
  qed
  have "(jptrs n)(e := None, ns := None) = jptrs n" using e(2,4) by auto
  then have free: "free_ptrs ns (n2\<lparr>jstrs := jstrs n\<rparr>) = Some (n2\<lparr>jstrs := jstrs n, jptrs := (jptrs n)(e \<mapsto> map snd ps)\<rparr>)"
    "free_ptrs e (n2\<lparr>jstrs := jstrs n, jptrs := (jptrs n)(e \<mapsto> map snd ps)\<rparr>) = Some (n\<lparr>jplan := bs\<rparr>)"
    using e by (simp_all add: free_ptrs_def n2_def fun_upd_idem)
  have new: "new_ptrs ?N n = (e, n\<lparr>jplan := ns # as, jptrs := (jptrs n)(e \<mapsto> replicate ?N NULL)\<rparr>)"
    "new_ptrs ?N (n\<lparr>jplan := ns # as, jptrs := (jptrs n)(e \<mapsto> replicate ?N NULL)\<rparr>) = (ns, n1)"
    using as(1) e by (simp_all add: new_ptrs_def n1_def)
  have cnt: "count_items (jitems n) (jchild c) 0 = Some (int ?N)" "jitems n x = Some c" "rs \<noteq> []"
    using count_items_ok [OF x(3), of 0] x(2,4,5) p(2) rs by (auto simp: extends_def)
  have ptr: "jptrs (n2\<lparr>jplan := bs, jstrs := s\<rparr>) ns = Some (map fst ps)" "jptrs (n2\<lparr>jplan := bs, jstrs := s\<rparr>) e = Some (map snd ps)"
    "n2\<lparr>jstrs := s, jplan := bs\<rparr> = n2\<lparr>jstrs := s\<rparr>" for s
    using e(5) by (simp_all add: n2_def)
  have len: "length (members_text fmt (depth + 1) (map fst rs)) \<le> members_len fmt (int depth + 1) (map fst rs)"
    using members_text_length [of fmt "depth + 1" "map fst rs"] by (simp add: add.commute)
  have "print_object pv f x (int depth) fmt n =
      Some (q, n\<lparr>jplan := bs, jstrs := (jstrs n)(q \<mapsto> object_text fmt depth (map fst rs) @ [0])\<rparr>)"
    using x(1,5) e(1,3) qin(3) comp mem free new cnt ptr len
    by (cases fmt) (simp_all add: print_object_def jmalloc_def object_text_def zip_map_fst_snd nat_add_distrib Let_def)
  then show ?thesis using qin(1,2) by auto
qed

lemma dec_digits_length: "n < 10 ^ Suc k \<Longrightarrow> length (dec_digits n) \<le> Suc k"
proof (induction n arbitrary: k rule: dec_digits.induct)
  case (1 n)
  show ?case
  proof (cases "n < 10")
    case False
    then obtain j where "k = Suc j" using 1(2) by (cases k) auto
    moreover from this have "n div 10 < 10 ^ Suc j" using 1(2) by (simp add: less_mult_imp_div_less)
    ultimately show ?thesis using 1(1) [OF False, of j] False by simp
  qed simp
qed

lemma fmt_d_length: "- (2 ^ 31) \<le> i \<Longrightarrow> i < 2 ^ 31 \<Longrightarrow> length (fmt_d i) \<le> 11"
proof -
  assume i: "- (2 ^ 31) \<le> i" "i < 2 ^ 31"
  have "length (dec_digits (nat \<bar>i\<bar>)) \<le> Suc 9" by (rule dec_digits_length) (use i in simp)
  then show ?thesis by (simp add: fmt_d_def abs_if del: dec_digits.simps split: if_splits)
qed

lemma new_str_ok: "jplan m = a # as \<Longrightarrow> a \<noteq> NULL \<Longrightarrow> length bs \<le> k \<Longrightarrow>
   new_str k bs m = Some (a, m\<lparr>jplan := as, jstrs := (jstrs m)(a \<mapsto> bs)\<rparr>)"
  by (simp add: new_str_def)

lemma literal_ok: "jplan m = a # as \<Longrightarrow> a \<noteq> NULL \<Longrightarrow> 0 \<notin> set s \<Longrightarrow>
   cJSON_strdup (Some (s @ [0])) m = Some (a, m\<lparr>jplan := as, jstrs := (jstrs m)(a \<mapsto> s @ [0])\<rparr>)"
  by (simp add: cJSON_strdup_def c_string_append new_str_ok)

lemma print_number_ok:
  assumes "x \<noteq> NULL" "jitems m x = Some c" "jplan m = a # as" "a \<noteq> NULL" "- (2 ^ 31) \<le> jvalueint c" "jvalueint c < 2 ^ 31"
    "length (num_text D (jvalueint c) (jvaluedouble c)) < 64"
  shows "print_number D x m = Some (a, m\<lparr>jplan := as, jstrs := (jstrs m)(a \<mapsto> num_text D (jvalueint c) (jvaluedouble c) @ [0])\<rparr>)"
proof -
  have l: "length (fmt_d (jvalueint c) @ [0]) \<le> 21" using fmt_d_length [OF assms(5,6)] by simp
  show ?thesis
  proof (cases "d_le D (d_fabs D (d_sub D (d_int D (jvalueint c)) (jvaluedouble c))) (d_epsilon D) \<and>
        d_le D (jvaluedouble c) (d_int D (2 ^ 31 - 1)) \<and> d_le D (d_int D (- (2 ^ 31))) (jvaluedouble c)")
    case True
    then show ?thesis using assms(1,2) new_str_ok [OF assms(3,4) l] by (simp add: print_number_def num_text_def Let_def)
  next
    case False
    have "length (num_text D (jvalueint c) (jvaluedouble c) @ [0]) \<le> 64" using assms(7) by simp
    from new_str_ok [OF assms(3,4) this] show ?thesis
      unfolding print_number_def load_Some [OF assms(1)] assms(2) Option.bind.bind_lunit Let_def num_text_def if_not_P [OF False] .
  qed
qed

subsection \<open>Printing a tree\<close>

lemma elements_text_nonzero: "\<forall>t\<in>set ts. 0 \<notin> set t \<Longrightarrow> 0 \<notin> set (elements_text fmt ts)"
  by (induction ts) auto

lemma members_text_nonzero: "\<forall>(s, t)\<in>set ts. 0 \<notin> set s \<and> 0 \<notin> set t \<Longrightarrow> 0 \<notin> set (members_text fmt d ts)"
  by (induction ts) (auto dest: str_text_nonzero)

lemma holds_name: "holds m x t \<Longrightarrow> tname t = Some s \<Longrightarrow> 0 \<notin> set s \<and> x \<noteq> NULL \<and> (\<exists>c. jitems m x = Some c \<and> str_rep m (jstring c) (Some s))"
  by (cases t) (auto simp: str_rep_def)

lemma type_cases: "t \<le> (6 :: u32) \<Longrightarrow> t = 0 \<or> t = 1 \<or> t = 2 \<or> t = 3 \<or> t = 4 \<or> t = 5 \<or> t = 6"
proof -
  assume "t \<le> 6"
  then have "unat t \<le> 6" by (simp add: word_le_nat_alt)
  then have "unat t = 0 \<or> unat t = 1 \<or> unat t = 2 \<or> unat t = 3 \<or> unat t = 4 \<or> unat t = 5 \<or> unat t = 6" by linarith
  then show ?thesis unfolding word_unat_eq_iff by simp
qed

lemma list_all2_right: "list_all2 P xs ys \<Longrightarrow> y \<in> set ys \<Longrightarrow> \<exists>x\<in>set xs. P x y"
  by (induction rule: list_all2_induct) auto

lemma jtext_nonzero: "holds m x t \<Longrightarrow> printable D t \<Longrightarrow> 0 \<notin> set (jtext D fmt depth t)"
proof (induction t arbitrary: x depth)
  case (JTree t i d v nm ks)
  obtain c xs where c: "str_rep m (jvaluestring c) v" "list_all2 (holds m) xs ks" "jitems m x = Some c"
    using JTree.prems(1) by auto
  have k: "0 \<notin> set (jtext D fmt (depth + 1) k)" "t = 6 \<Longrightarrow> 0 \<notin> set (the (tname k))" if "k \<in> set ks" for k
  proof -
    obtain y where y: "holds m y k" using list_all2_right [OF c(2) \<open>k \<in> set ks\<close>] by blast
    then show "0 \<notin> set (jtext D fmt (depth + 1) k)" using JTree.IH that JTree.prems(2) by simp
    show "0 \<notin> set (the (tname k))" if "t = 6" using holds_name [OF y] JTree.prems(2) \<open>k \<in> set ks\<close> that by auto
  qed
  have "t = 0 \<or> t = 1 \<or> t = 2 \<or> t = 3 \<or> t = 4 \<or> t = 5 \<or> t = 6" using JTree.prems(2) type_cases by simp
  then show ?case
  proof (elim disjE)
    assume "t = 4"
    then show ?thesis using JTree.prems(2) c(1) str_text_nonzero by (auto simp: str_rep_def)
  next
    assume "t = 5"
    then show ?thesis using k(1) elements_text_nonzero [of "map (jtext D fmt (depth + 1)) ks" fmt] by simp
  next
    assume "t = 6"
    then show ?thesis using k members_text_nonzero [of "map (\<lambda>k. (the (tname k), jtext D fmt (depth + 1) k)) ks" fmt "depth + 1"]
      by (auto simp: object_text_def)
  qed (use JTree.prems(2) in simp_all)
qed

lemma tsize_kid: "k \<in> set ks \<Longrightarrow> tsize k \<le> sum_list (map tsize ks)"
  by (induction ks) auto

lemma tsize_pos: "0 < tsize t"
  by (cases t) simp

lemma length_tsize: "length ks \<le> sum_list (map tsize ks)"
proof (induction ks)
  case (Cons k ks)
  then show ?case using tsize_pos [of k] by simp
qed simp

lemma kids_print:
  assumes "list_all2 (holds m) xs ks" "\<And>k y. k \<in> set ks \<Longrightarrow> holds m y k \<Longrightarrow> prints pv depth fmt m y (tx k, n k)"
  shows "list_all2 (prints pv depth fmt m) xs (map (\<lambda>k. (tx k, n k)) ks)"
    "\<forall>k\<in>set ks. tname k \<noteq> None \<Longrightarrow> list_all2 (prints_member pv depth fmt m) xs (map (\<lambda>k. ((the (tname k), tx k), n k)) ks)"
proof -
  show "list_all2 (prints pv depth fmt m) xs (map (\<lambda>k. (tx k, n k)) ks)"
    unfolding list_all2_map2 using assms(1) by (rule list.rel_mono_strong) (rule assms(2))
  assume n: "\<forall>k\<in>set ks. tname k \<noteq> None"
  show "list_all2 (prints_member pv depth fmt m) xs (map (\<lambda>k. ((the (tname k), tx k), n k)) ks)"
    unfolding list_all2_map2 using assms(1)
  proof (rule list.rel_mono_strong)
    fix y k assume k: "y \<in> set xs" "k \<in> set ks" "holds m y k"
    then obtain s where "tname k = Some s" using n by auto
    then show "prints_member pv depth fmt m y ((the (tname k), tx k), n k)"
      using assms(2) [OF k(2,3)] holds_name [OF k(3)] by (simp add: prints_member_def)
  qed
qed

lemma print_value_prints:
  "holds m x t \<Longrightarrow> printable D t \<Longrightarrow> tsize t < f \<Longrightarrow> prints (print_value D f) (int depth) fmt m x (jtext D fmt depth t, allocs t)"
proof (induction t arbitrary: x depth f)
  case (JTree t i d v nm ks)
  let ?T = "JTree t i d v nm ks"
  obtain c xs where c: "x \<noteq> NULL" "jitems m x = Some c" "jtype c = t" "jvalueint c = i" "jvaluedouble c = d"
    "str_rep m (jvaluestring c) v" "dll (jitems m) (jchild c) NULL xs" "list_all2 (holds m) xs ks"
    using JTree.prems(1) by auto
  obtain g where g: "f = Suc g" "sum_list (map tsize ks) < g" using JTree.prems(3) by (cases f) auto
  have ks: "length xs = length ks" "length xs < 2 ^ 31" "length xs < g"
    using list_all2_lengthD [OF c(8)] JTree.prems(2) length_tsize [of ks] g(2) by simp_all
  have kid: "prints (print_value D g) (int (depth + 1)) fmt m y (jtext D fmt (depth + 1) k, allocs k)" if "k \<in> set ks" "holds m y k" for k y
    by (rule JTree.IH [OF that]) (use that JTree.prems(2) tsize_kid [OF that(1)] g(2) in auto)
  note kids = kids_print [where pv = "print_value D g" and depth = "int (depth + 1)" and fmt = fmt and tx = "jtext D fmt (depth + 1)" and n = allocs, OF c(8) kid]
  have elems: "list_all2 (prints (print_value D g) (int depth + 1) fmt m) xs (map (\<lambda>k. (jtext D fmt (depth + 1) k, allocs k)) ks)"
    using kids(1) by (simp add: add.commute)
  have "\<exists>q\<in>set (take (allocs ?T) (jplan n)). print_value D f x (int depth) fmt n =
      Some (q, n\<lparr>jplan := drop (allocs ?T) (jplan n), jstrs := (jstrs n)(q \<mapsto> jtext D fmt depth ?T @ [0])\<rparr>)"
    if n: "extends m n" "fresh n" "allocs ?T \<le> length (jplan n)" for n
  proof -
    have nx: "jitems n x = Some c" using n(1) c(2) by (simp add: extends_def)
    have "0 < allocs ?T" by simp
    then obtain a as where a: "jplan n = a # as" using n(3) by (cases "jplan n") auto
    have a0: "a \<noteq> NULL" using n(2) a by (auto simp: fresh_def)
    have leaf: "\<exists>q\<in>set (take 1 (jplan n)). Some (a, n\<lparr>jplan := as, jstrs := (jstrs n)(a \<mapsto> bs)\<rparr>) =
        Some (q, n\<lparr>jplan := drop 1 (jplan n), jstrs := (jstrs n)(q \<mapsto> bs)\<rparr>)" for bs
      using a by simp
    have "t = 0 \<or> t = 1 \<or> t = 2 \<or> t = 3 \<or> t = 4 \<or> t = 5 \<or> t = 6" using JTree.prems(2) type_cases by simp
    then show ?thesis
    proof (elim disjE)
      assume "t = 3"
      then show ?thesis using leaf print_number_ok [OF c(1) nx a a0, of D] JTree.prems(2) c nx g(1) by simp
    next
      assume t: "t = 4"
      then obtain s where s: "v = Some s" using JTree.prems(2) by auto
      obtain r where "jvaluestring c \<noteq> NULL" "jstrs n (jvaluestring c) = Some (s @ 0 # r)" "0 \<notin> set s"
        using str_rep_extends [OF c(6) n(1)] unfolding s by (auto simp: str_rep_def)
      then show ?thesis using leaf print_string_ok [OF _ a a0, of s r] c(1,3) nx g(1) t s
        by (simp add: print_string_def str_at_def str_text_def)
    next
      assume t: "t = 5"
      show ?thesis
      proof (cases "ks = []")
        case True
        then have "jchild c = NULL" using c(7) ks(1) by simp
        then show ?thesis using leaf new_str_ok [OF a a0, of "[91, 93, 0]" 3] True c(1,3) nx g(1) t
          by (simp add: print_array_def count_items.simps)
      next
        case False
        then have "xs \<noteq> []" using ks(1) by auto
        then show ?thesis using print_array_ok [OF c(1,2,7) ks(2) _ elems n(1,2) _ ks(3)] False n(3) ks(1) c(1,3) nx g(1) t
          by (auto simp: comp_def)
      qed
    next
      assume t: "t = 6"
      show ?thesis
      proof (cases "ks = []")
        case True
        then have "jchild c = NULL" using c(7) ks(1) by simp
        moreover have "nat (int depth - 1) = depth - 1" by simp
        ultimately show ?thesis using leaf new_str_ok [OF a a0] True c(1,3) nx g(1) t
          by (auto simp: print_object_def count_items.simps object_text_def nat_diff_distrib)
      next
        case False
        then have "xs \<noteq> []" using ks(1) by auto
        then show ?thesis using print_object_ok [OF c(1,2,7) ks(2) _ kids(2) n(1,2) _ ks(3)] False JTree.prems(2) n(3) ks(1) c(1,3) nx g(1) t
          by (auto simp: comp_def)
      qed
    qed (use leaf literal_ok [OF a a0, of lit_null] literal_ok [OF a a0, of lit_false] literal_ok [OF a a0, of lit_true] c(1,3) nx g(1) in simp_all)
  qed
  then show ?case using jtext_nonzero [OF JTree.prems(1,2)] by (simp add: prints_def del: jtext.simps allocs.simps)
qed

end
