(* ===== verification/CJsonParse.thy ===== *)
theory CJsonParse
  imports CJsonPrint
begin

text \<open>
  \<^verbatim>\<open>parse_value\<close> and the functions below it make a tree of the text of a tree: what one value, the elements of an array and the members of an
  object do to the memory, and by induction on the tree the whole. The new items and strings are all planned blocks.
\<close>

subsection \<open>What parsing makes of a text\<close>

fun tcontent :: "'d jtree \<Rightarrow> u32 \<times> int \<times> 'd \<times> u8 list option \<times> 'd jtree list" where
  "tcontent (JTree t i d v nm ks) = (t, i, d, v, ks)"

text \<open>The tree that is parsed from the text of a tree: with the numbers parsing sets, and names in objects only.\<close>

fun canon :: "'d double_ops \<Rightarrow> u8 list option \<Rightarrow> 'd jtree \<Rightarrow> 'd jtree" where
  "canon D nm (JTree t i d v _ ks) =
     JTree t (if t = cJSON_True then 1 else if t = cJSON_Number then i else 0) (if t = cJSON_Number then d else d_int D 0)
       (if t = cJSON_String then v else None) nm
       (if t = cJSON_Array then map (canon D None) ks else if t = cJSON_Object then map (\<lambda>k. canon D (tname k) k) ks else [])"

fun pallocs :: "'d jtree \<Rightarrow> nat" where
  "pallocs (JTree t i d v nm ks) =
     (if t = cJSON_String then 1 else if t = cJSON_Array then sum_list (map (\<lambda>k. 1 + pallocs k) ks)
      else if t = cJSON_Object then sum_list (map (\<lambda>k. 2 + pallocs k) ks) else 0)"

text \<open>What may follow a value: a comma, a bracket, a line feed, or the end of the text.\<close>

definition follows :: "ctext \<Rightarrow> bool" where
  "follows t \<longleftrightarrow> t \<noteq> [] \<and> hd t \<in> {44, 93, 125, 10, 0}"

text \<open>
  The number text is a number, and \<^verbatim>\<open>parse_number\<close> reads it back. This is what the round trip asks of the arithmetic of \<^verbatim>\<open>double\<close> and
  of \<^verbatim>\<open>sprintf\<close>.
\<close>

definition number_back :: "'d double_ops \<Rightarrow> int \<Rightarrow> 'd \<Rightarrow> bool" where
  "number_back D i d \<longleftrightarrow> num_text D i d \<noteq> [] \<and> (hd (num_text D i d) = 45 \<or> is_digit (hd (num_text D i d))) \<and>
     (\<forall>m x c rest. x \<noteq> NULL \<and> jitems m x = Some c \<and> follows rest \<longrightarrow> parse_number D x (num_text D i d @ rest) m =
        Some (Some rest, m\<lparr>jitems := (jitems m)(x \<mapsto> c\<lparr>jtype := cJSON_Number, jvalueint := i, jvaluedouble := d\<rparr>)\<rparr>))"

fun readable :: "'d double_ops \<Rightarrow> 'd jtree \<Rightarrow> bool" where
  "readable D (JTree t i d v nm ks) \<longleftrightarrow> t \<le> cJSON_Object \<and> (t = cJSON_Number \<longrightarrow> number_back D i d) \<and>
     (t = cJSON_String \<longrightarrow> (\<exists>s. v = Some s \<and> 0 \<notin> set s)) \<and>
     (t = cJSON_Object \<longrightarrow> (\<forall>k\<in>set ks. \<exists>s. tname k = Some s \<and> 0 \<notin> set s)) \<and> (\<forall>k\<in>set ks. readable D k)"

subsection \<open>Items and what changes\<close>

text \<open>What an item holds but for its links and name: a tree with the items \<open>is\<close> and the strings \<open>ss\<close>.\<close>

fun content :: "'d jmem \<Rightarrow> 'd cJSON \<Rightarrow> 'd jtree \<Rightarrow> addr list \<Rightarrow> addr list \<Rightarrow> bool" where
  "content m c (JTree t i d v nm ks) is ss \<longleftrightarrow> jtype c = t \<and> t AND cJSON_IsReference = 0 \<and> jvalueint c = i \<and> jvaluedouble c = d \<and>
     str_rep m (jvaluestring c) v \<and>
     (\<exists>sk. trees m (jchild c) NULL ks is sk \<and> ss = filter (\<lambda>p. p \<noteq> NULL) [jvaluestring c] @ sk)"

lemma trees_Cons:
  assumes "p \<noteq> NULL" "jitems m p = Some c" "jprev c = prev" "content m c T ik sk" "str_rep m (jstring c) (tname T)"
    "trees m (jnext c) p Ts ir sr"
  obtains ss where "trees m p prev (T # Ts) (p # ik @ ir) ss" "set ss = set (filter (\<lambda>q. q \<noteq> NULL) [jstring c] @ sk @ sr)"
    "distinct ss = distinct (filter (\<lambda>q. q \<noteq> NULL) [jstring c] @ sk @ sr)"
proof -
  obtain t i d v nm ks where T: "T = JTree t i d v nm ks" by (cases T)
  obtain sk' where sk: "trees m (jchild c) NULL ks ik sk'" "sk = filter (\<lambda>p. p \<noteq> NULL) [jvaluestring c] @ sk'"
    using assms(4) unfolding T by auto
  show ?thesis
  proof (rule that)
    show "trees m p prev (T # Ts) (p # ik @ ir) (own_strings c @ sk' @ sr)"
      using assms sk(1) unfolding T by auto
    show "set (own_strings c @ sk' @ sr) = set (filter (\<lambda>q. q \<noteq> NULL) [jstring c] @ sk @ sr)"
      "distinct (own_strings c @ sk' @ sr) = distinct (filter (\<lambda>q. q \<noteq> NULL) [jstring c] @ sk @ sr)"
      unfolding sk(2) own_strings_def by auto
  qed
qed

definition touches :: "'d jmem \<Rightarrow> 'd jmem \<Rightarrow> addr set \<Rightarrow> addr set \<Rightarrow> nat \<Rightarrow> bool" where
  "touches m m' X S k \<longleftrightarrow> (\<forall>y. y \<notin> X \<longrightarrow> jitems m' y = jitems m y) \<and> (\<forall>s. s \<notin> S \<longrightarrow> jstrs m' s = jstrs m s) \<and>
     jptrs m' = jptrs m \<and> jplan m' = drop k (jplan m)"

lemma touches_trans:
  assumes "touches m n X S k" "touches n l Y T j"
  shows "touches m l (X \<union> Y) (S \<union> T) (k + j)"
  using assms by (simp add: touches_def add.commute)

lemma touches_mono: "touches m n X S k \<Longrightarrow> X \<subseteq> Y \<Longrightarrow> S \<subseteq> T \<Longrightarrow> touches m n Y T k"
  unfolding touches_def by blast

lemma content_touches:
  assumes "content m c T is ss" "touches m n X S k" "set is \<inter> X = {}" "set ss \<inter> S = {}"
  shows "content n c T is ss"
proof -
  obtain t i d v nm ks where T: "T = JTree t i d v nm ks" by (cases T)
  obtain sk where sk: "trees m (jchild c) NULL ks is sk" "ss = filter (\<lambda>p. p \<noteq> NULL) [jvaluestring c] @ sk"
    using assms(1) unfolding T by auto
  have "trees n (jchild c) NULL ks is sk"
    by (rule trees_frame [OF sk(1)]) (use assms(2-4) sk(2) in \<open>auto simp: touches_def\<close>)
  moreover have "str_rep n (jvaluestring c) v = str_rep m (jvaluestring c) v"
    by (rule str_rep_cong) (use assms(2,4) sk(2) in \<open>auto simp: touches_def\<close>)
  ultimately show ?thesis using assms(1) sk(2) unfolding T by auto
qed

lemma fresh_touches:
  assumes f: "fresh m" and t: "touches m n X S k" and X: "X \<subseteq> dom (jitems m) \<union> set (take k (jplan m))"
    and S: "S \<subseteq> dom (jstrs m) \<union> set (take k (jplan m))"
  shows "fresh n"
proof -
  have "dom (jitems n) \<subseteq> dom (jitems m) \<union> X" "dom (jstrs n) \<subseteq> dom (jstrs m) \<union> S"
    using t unfolding touches_def by (metis UnI1 UnI2 domIff subsetI)+
  then have "fresh (m\<lparr>jplan := drop k (jplan m), jstrs := jstrs n, jptrs := jptrs m, jitems := jitems n\<rparr>)"
    using X S by (intro fresh_drop [OF f]) auto
  then show ?thesis using t by (simp add: fresh_def touches_def)
qed

subsection \<open>One value, and a chain of them\<close>

definition blank :: "'d double_ops \<Rightarrow> 'd cJSON \<Rightarrow> bool" where
  "blank D c \<longleftrightarrow> jvaluestring c = NULL \<and> jchild c = NULL \<and> jvalueint c = 0 \<and> jvaluedouble c = d_int D 0"

text \<open>
  \<open>value_parsed\<close>: the value has been put in the blank item \<open>x\<close>, in new items \<open>ik\<close> and strings \<open>sk\<close>. \<open>node_parsed\<close>: also its
  name, if any. \<open>chain_parsed\<close>: from \<open>x\<close> on there is now a chain of trees.
\<close>

definition value_parsed ::
    "'d jmem \<Rightarrow> addr \<Rightarrow> 'd cJSON \<Rightarrow> 'd jtree \<Rightarrow> nat \<Rightarrow> 'd jmem \<Rightarrow> 'd cJSON \<Rightarrow> addr list \<Rightarrow> addr list \<Rightarrow> bool" where
  "value_parsed m x c T k m' c' ik sk \<longleftrightarrow> jitems m' x = Some c' \<and> jnext c' = jnext c \<and> jprev c' = jprev c \<and> jstring c' = jstring c \<and>
     content m' c' T ik sk \<and> distinct (ik @ sk) \<and> set (ik @ sk) \<subseteq> set (take k (jplan m)) \<and> touches m m' (insert x (set ik)) (set sk) k"

definition node_parsed ::
    "'d jmem \<Rightarrow> addr \<Rightarrow> addr \<Rightarrow> 'd jtree \<Rightarrow> nat \<Rightarrow> 'd jmem \<Rightarrow> 'd cJSON \<Rightarrow> addr list \<Rightarrow> addr list \<Rightarrow> bool" where
  "node_parsed m x prev T k m' c' ik sk \<longleftrightarrow> jitems m' x = Some c' \<and> jnext c' = NULL \<and> jprev c' = prev \<and>
     str_rep m' (jstring c') (tname T) \<and> content m' c' T ik sk \<and> distinct (ik @ filter (\<lambda>q. q \<noteq> NULL) [jstring c'] @ sk) \<and>
     set (ik @ filter (\<lambda>q. q \<noteq> NULL) [jstring c'] @ sk) \<subseteq> set (take k (jplan m)) \<and>
     touches m m' (insert x (set ik)) (set (filter (\<lambda>q. q \<noteq> NULL) [jstring c'] @ sk)) k"

definition chain_parsed ::
    "'d jmem \<Rightarrow> addr \<Rightarrow> addr \<Rightarrow> 'd jtree list \<Rightarrow> nat \<Rightarrow> 'd jmem \<Rightarrow> addr list \<Rightarrow> addr list \<Rightarrow> bool" where
  "chain_parsed m x prev Ts k m' is ss \<longleftrightarrow> trees m' x prev Ts (x # is) ss \<and> distinct (is @ ss) \<and>
     set (is @ ss) \<subseteq> set (take k (jplan m)) \<and> touches m m' (insert x (set is)) (set ss) k"

lemma chain_single:
  assumes "node_parsed m x prev T k m' c' ik sk" "x \<noteq> NULL"
  shows "\<exists>ss. chain_parsed m x prev [T] k m' ik ss"
proof -
  have n: "jitems m' x = Some c'" "jnext c' = NULL" "jprev c' = prev" "str_rep m' (jstring c') (tname T)" "content m' c' T ik sk"
    using assms(1) by (simp_all add: node_parsed_def)
  have "trees m' (jnext c') x [] [] []" by (simp add: n(2))
  obtain ss where "trees m' x prev [T] (x # ik @ []) ss"
    "set ss = set (filter (\<lambda>q. q \<noteq> NULL) [jstring c'] @ sk @ [])" "distinct ss = distinct (filter (\<lambda>q. q \<noteq> NULL) [jstring c'] @ sk @ [])"
    by (rule trees_Cons [OF assms(2) n(1,3,5,4) \<open>trees m' (jnext c') x [] [] []\<close>])
  then have "chain_parsed m x prev [T] k m' ik ss"
    using assms(1) by (simp add: chain_parsed_def node_parsed_def del: filter.simps)
  then show ?thesis ..
qed

lemma content_link [simp]: "content m (c\<lparr>jnext := n\<rparr>) T is ss = content m c T is ss"
  by (cases T) simp

lemma fresh_item: "fresh m \<Longrightarrow> jitems m x = Some c \<Longrightarrow> x \<notin> set (jplan m)"
  by (auto simp: fresh_def)

lemma fresh_parsed:
  assumes "fresh m" "touches m m' (insert x X) S k" "jitems m x = Some c" "X \<union> S \<subseteq> set (take k (jplan m))"
  shows "fresh m'"
  by (rule fresh_touches [OF assms(1,2)]) (use assms(3,4) in auto)

lemma node_fresh:
  assumes "node_parsed m x prev T k m1 c1 ik sk" "fresh m" "jitems m x = Some c"
  shows "fresh m1"
proof -
  let ?S = "set (filter (\<lambda>q. q \<noteq> NULL) [jstring c1] @ sk)"
  have "touches m m1 (insert x (set ik)) ?S k" "set ik \<union> ?S \<subseteq> set (take k (jplan m))"
    using assms(1) unfolding node_parsed_def set_append by blast+
  then show ?thesis using fresh_parsed [OF assms(2) _ assms(3)] by blast
qed

text \<open>A new item behind \<open>x\<close>.\<close>

definition link_new :: "'d double_ops \<Rightarrow> addr \<Rightarrow> addr \<Rightarrow> 'd cJSON \<Rightarrow> addr list \<Rightarrow> 'd jmem \<Rightarrow> 'd jmem" where
  "link_new D x a c as m = m\<lparr>jplan := as, jitems := (jitems m)(a \<mapsto> (zero_item D)\<lparr>jprev := x\<rparr>, x \<mapsto> c\<lparr>jnext := a\<rparr>)\<rparr>"

lemma take_plan: "k + j \<le> length xs \<Longrightarrow> set (take k xs) \<subseteq> set (take (k + j) xs)"
  by (auto simp: take_add)

lemma distinct_splice:
  assumes "distinct (ik @ nk @ sk)" "distinct (is2 @ ss2)" "set (ik @ nk @ sk) \<subseteq> A" "A \<inter> set (a # as) = {}" "a \<notin> set as"
    "set (is2 @ ss2) \<subseteq> set as" "set ss = set (nk @ sk @ ss2)" "distinct ss = distinct (nk @ sk @ ss2)"
  shows "distinct ((ik @ a # is2) @ ss)"
proof -
  have d: "distinct (nk @ sk @ ss2)" using assms(1-4,6) by auto
  have "set (ik @ a # is2) \<inter> set (nk @ sk @ ss2) = {}" using assms(1-6) by auto
  moreover have "distinct (ik @ a # is2)" using assms(1-6) by auto
  ultimately show ?thesis using d assms(7,8) unfolding distinct_append by metis
qed

lemma chain_Cons:
  assumes f: "fresh m" and x: "x \<noteq> NULL" "jitems m x = Some c" and n: "node_parsed m x prev T k m1 c1 ik sk"
    and a: "jplan m1 = a # as" and ch: "chain_parsed (link_new D x a c1 as m1) a x Ts j m3 is2 ss2"
  shows "\<exists>is ss. chain_parsed m x prev (T # Ts) (k + (1 + j)) m3 is ss"
proof -
  let ?m2 = "link_new D x a c1 as m1" and ?nk = "filter (\<lambda>q. q \<noteq> NULL) [jstring c1]"
  have n': "jitems m1 x = Some c1" "jprev c1 = prev" "str_rep m1 (jstring c1) (tname T)" "content m1 c1 T ik sk" "distinct (ik @ ?nk @ sk)"
    "set (ik @ ?nk @ sk) \<subseteq> set (take k (jplan m))" "touches m m1 (insert x (set ik)) (set (?nk @ sk)) k"
    using n by (simp_all add: node_parsed_def)
  have c': "trees m3 a x Ts (a # is2) ss2" "distinct (is2 @ ss2)" "set (is2 @ ss2) \<subseteq> set (take j (jplan ?m2))"
    "touches ?m2 m3 (insert a (set is2)) (set ss2) j"
    using ch by (simp_all add: chain_parsed_def)
  have f1: "fresh m1" by (rule node_fresh [OF n f x(2)])
  have ax: "a \<noteq> x" "a \<notin> set as" "jstring c1 \<noteq> a" using fresh_item [OF f1 n'(1)] f1 a n'(3) by (auto simp: fresh_def str_rep_def split: option.splits)
  have old: "set (take k (jplan m)) \<inter> set (a # as) = {}" "x \<notin> set (a # as)"
    using n'(7) a set_take_disj_set_drop_if_distinct [of "jplan m" k k] f fresh_item [OF f1 n'(1)] by (auto simp: touches_def fresh_def)
  have as: "set (is2 @ ss2) \<subseteq> set as" using c'(3) set_take_subset [of j as] by (auto simp: link_new_def)
  have t12: "touches m1 ?m2 {a, x} {} 1" using a by (simp add: touches_def link_new_def)
  have disj: "set ik \<inter> {a, x} = {}" "set ik \<inter> insert a (set is2) = {}" "set sk \<inter> set ss2 = {}" "set ?nk \<inter> set ss2 = {}"
  proof -
    have "x \<notin> set (take k (jplan m))" using fresh_item [OF f x(2)] in_set_takeD [of x k "jplan m"] by blast
    then show "set ik \<inter> {a, x} = {}" "set ik \<inter> insert a (set is2) = {}" "set sk \<inter> set ss2 = {}" "set ?nk \<inter> set ss2 = {}"
      using n'(6) old(1) as unfolding set_append list.set(2) by blast+
  qed
  have "content ?m2 c1 T ik sk" by (rule content_touches [OF n'(4) t12 disj(1)]) simp
  then have con: "content m3 (c1\<lparr>jnext := a\<rparr>) T ik sk" using content_touches [OF _ c'(4) disj(2,3)] by simp
  have x3: "jitems m3 x = Some (c1\<lparr>jnext := a\<rparr>)" using c'(4) as old(2) by (auto simp: touches_def link_new_def)
  have nm: "str_rep m3 (jstring (c1\<lparr>jnext := a\<rparr>)) (tname T)"
  proof -
    have "jstrs m3 (jstring c1) = jstrs m1 (jstring c1)" if "jstring c1 \<noteq> NULL"
      using c'(4) disj(4) that by (auto simp: touches_def link_new_def)
    then show ?thesis using n'(3) str_rep_cong [of "jstring c1" m3 m1] by auto
  qed
  have prev: "jprev (c1\<lparr>jnext := a\<rparr>) = prev" "jnext (c1\<lparr>jnext := a\<rparr>) = a" "jstring (c1\<lparr>jnext := a\<rparr>) = jstring c1" using n'(2) by simp_all
  have nx: "trees m3 (jnext (c1\<lparr>jnext := a\<rparr>)) x Ts (a # is2) ss2" using c'(1) by simp
  obtain ss where ss: "trees m3 x prev (T # Ts) (x # ik @ a # is2) ss" "set ss = set (?nk @ sk @ ss2)" "distinct ss = distinct (?nk @ sk @ ss2)"
    by (rule trees_Cons [OF x(1) x3 prev(1) con nm nx, unfolded prev(3)])
  show ?thesis
  proof (intro exI conjI)
    have p1: "drop k (jplan m) = a # as" using n'(7) a by (simp add: touches_def)
    have take: "set (take (k + (1 + j)) (jplan m)) = set (take k (jplan m)) \<union> insert a (set (take j as))"
      unfolding take_add p1 by simp
    show "chain_parsed m x prev (T # Ts) (k + (1 + j)) m3 (ik @ a # is2) ss"
      unfolding chain_parsed_def
    proof (intro conjI)
      show "set ((ik @ a # is2) @ ss) \<subseteq> set (take (k + (1 + j)) (jplan m))"
        using n'(6) c'(3) unfolding take by (auto simp: ss(2) link_new_def)
      show "distinct ((ik @ a # is2) @ ss)" by (rule distinct_splice [OF n'(5) c'(2) n'(6) old(1) ax(2) as ss(2,3)])
      have "touches m m3 (insert x (set ik) \<union> ({a, x} \<union> insert a (set is2))) (set (?nk @ sk) \<union> ({} \<union> set ss2)) (k + (1 + j))"
        by (rule touches_trans [OF n'(7) touches_trans [OF t12 c'(4)]])
      then show "touches m m3 (insert x (set (ik @ a # is2))) (set ss) (k + (1 + j))"
        by (rule touches_mono) (auto simp: ss(2))
    qed (rule ss(1) [unfolded append.simps append_assoc])
  qed
qed

subsection \<open>Elements and members\<close>

definition parses :: "'d double_ops \<Rightarrow> 'd parser \<Rightarrow> u8 list \<Rightarrow> 'd jtree \<Rightarrow> nat \<Rightarrow> bool" where
  "parses D pv txt T k \<longleftrightarrow> (\<exists>c cs. txt = c # cs \<and> 32 < c) \<and>
     (\<forall>m x c rest. x \<noteq> NULL \<and> jitems m x = Some c \<and> blank D c \<and> fresh m \<and> k \<le> length (jplan m) \<and> follows rest \<longrightarrow>
       (\<exists>m' c' ik sk. pv x (Some (txt @ rest)) m = Some (Some rest, m') \<and> value_parsed m x c T k m' c' ik sk))"

lemma parsesE:
  assumes "parses D pv txt T k" "x \<noteq> NULL" "jitems m x = Some c" "blank D c" "fresh m" "k \<le> length (jplan m)" "follows rest"
  obtains m' c' ik sk where "pv x (Some (txt @ rest)) m = Some (Some rest, m')" "value_parsed m x c T k m' c' ik sk"
  using assms unfolding parses_def by blast

lemma skip_spaces: "\<forall>c\<in>set ws. c \<noteq> 0 \<and> c \<le> 32 \<Longrightarrow> skip_text (ws @ t) = skip_text t"
  by (induction ws) auto

lemma skip_text_stop: "c = 0 \<or> 32 < c \<Longrightarrow> skip_text (c # t) = Some (c # t)"
  by auto

lemma parses_skip: "parses D pv txt T k \<Longrightarrow> skip_text (txt @ t) = Some (txt @ t)"
  unfolding parses_def using skip_text_stop by fastforce

lemma New_Item_ok: "jplan m = a # as \<Longrightarrow> a \<noteq> NULL \<Longrightarrow> cJSON_New_Item D m = (a, m\<lparr>jplan := as, jitems := (jitems m)(a \<mapsto> zero_item D)\<rparr>)"
  by (simp add: cJSON_New_Item_def)

lemma new_behind:
  assumes "fresh m" "x \<noteq> NULL" "jitems m x = Some c" "jplan m = a # as"
  shows "a \<noteq> NULL" "a \<noteq> x" "fresh (link_new D x a c as m)"
    "suffix_object x a (m\<lparr>jplan := as, jitems := (jitems m)(a \<mapsto> zero_item D)\<rparr>) = Some (link_new D x a c as m)"
proof -
  show a: "a \<noteq> NULL" "a \<noteq> x" using assms(1,4) fresh_item [OF assms(1,3)] by (auto simp: fresh_def)
  show "suffix_object x a (m\<lparr>jplan := as, jitems := (jitems m)(a \<mapsto> zero_item D)\<rparr>) = Some (link_new D x a c as m)"
    using assms(2,3) a by (simp add: suffix_object_def link_new_def fun_upd_twist)
  have "touches m (link_new D x a c as m) {a, x} {} 1" using assms(4) by (simp add: touches_def link_new_def)
  then show "fresh (link_new D x a c as m)" by (rule fresh_touches [OF assms(1)]) (use assms(3,4) in auto)
qed

text \<open>One element and those behind it: the recursion that runs through \<^verbatim>\<open>parse_array\<close> and its loop.\<close>

definition elements_run :: "'d double_ops \<Rightarrow> 'd parser \<Rightarrow> nat \<Rightarrow> addr \<Rightarrow> ctext \<Rightarrow> 'd jmem \<Rightarrow> (ctext option \<times> 'd jmem) option" where
  "elements_run D pv f x v m = do {
     (v, m) \<leftarrow> pv x (Some v) m;
     v \<leftarrow> skip v;
     case v of None \<Rightarrow> Some (None, m) | Some v \<Rightarrow> parse_elements D pv f x v m
   }"

fun elements_cost :: "(u8 list \<times> 'd jtree \<times> nat) list \<Rightarrow> nat" where
  "elements_cost [] = 0"
| "elements_cost [(s, T, k)] = k"
| "elements_cost ((s, T, k) # rs) = k + (1 + elements_cost rs)"

lemma elements_parse:
  assumes "\<forall>(s, T, k)\<in>set (r # rs). parses D pv s T k \<and> tname T = None" "x \<noteq> NULL" "jitems m x = Some c" "blank D c" "jnext c = NULL"
    "jstring c = NULL" "fresh m" "elements_cost (r # rs) \<le> length (jplan m)" "length rs < f"
  shows "\<exists>m' is ss. elements_run D pv f x (elements_text fmt (map fst (r # rs)) @ 93 # rest) m = Some (Some rest, m') \<and>
    chain_parsed m x (jprev c) (map (\<lambda>r. fst (snd r)) (r # rs)) (elements_cost (r # rs)) m' is ss"
  using assms
proof (induction rs arbitrary: r x c m f)
  case Nil
  obtain s T k where r: "r = (s, T, k)" by (cases r)
  obtain m' c' ik sk where p: "pv x (Some (s @ 93 # rest)) m = Some (Some (93 # rest), m')" "value_parsed m x c T k m' c' ik sk"
    by (rule parsesE [OF _ Nil.prems(2-4,7), of pv s T k "93 # rest"]) (use Nil.prems(1,8) in \<open>simp_all add: r follows_def\<close>)
  have n: "node_parsed m x (jprev c) T k m' c' ik sk" using p(2) Nil.prems(1,5,6) by (simp add: value_parsed_def node_parsed_def r str_rep_def)
  obtain ss where "chain_parsed m x (jprev c) [T] k m' ik ss" using chain_single [OF n Nil.prems(2)] by blast
  moreover obtain g where "f = Suc g" using Nil.prems(9) by (cases f) auto
  ultimately show ?case using p(1) by (auto simp: elements_run_def r skip_def)
next
  case (Cons r2 rs)
  obtain s T k where r: "r = (s, T, k)" by (cases r)
  let ?j = "elements_cost (r2 # rs)"
  let ?t = "elements_text fmt (map fst (r2 # rs)) @ 93 # rest"
  have cost: "elements_cost (r # r2 # rs) = k + (1 + ?j)" unfolding r by simp
  have pt: "parses D pv s T k" using Cons.prems(1) r by simp
  obtain m1 c1 ik sk where p: "pv x (Some (s @ 44 # (if fmt then [32] else []) @ ?t)) m = Some (Some (44 # (if fmt then [32] else []) @ ?t), m1)"
    "value_parsed m x c T k m1 c1 ik sk"
    by (rule parsesE [OF pt Cons.prems(2-4,7), of "44 # (if fmt then [32] else []) @ ?t"]) (use Cons.prems(8) in \<open>simp_all add: cost follows_def\<close>)
  have n: "node_parsed m x (jprev c) T k m1 c1 ik sk"
    using p(2) Cons.prems(1,5,6) by (simp add: value_parsed_def node_parsed_def r str_rep_def)
  have x1: "jitems m1 x = Some c1" "jplan m1 = drop k (jplan m)" using p(2) by (simp_all add: value_parsed_def touches_def)
  then have "jplan m1 \<noteq> []" using Cons.prems(8) unfolding cost by simp
  then obtain a as where a: "jplan m1 = a # as" by (metis list.exhaust)
  have f1: "fresh m1" by (rule node_fresh [OF n Cons.prems(7,3)])
  note nw = new_behind [OF f1 Cons.prems(2) x1(1) a]
  obtain g where g: "f = Suc g" "length rs < g" using Cons.prems(9) by (cases f) auto
  let ?m2 = "link_new D x a c1 as m1" and ?c = "(zero_item D)\<lparr>jprev := x\<rparr>"
  have "length (jplan m1) = length (jplan m) - k" using x1(2) by simp
  then have l: "?j \<le> length (jplan ?m2)" using Cons.prems(8) a unfolding cost by (simp add: link_new_def)
  have a2: "jitems ?m2 a = Some ?c" using nw(2) by (simp add: link_new_def)
  have b: "blank D ?c" "jnext ?c = NULL" "jstring ?c = NULL" "jprev ?c = x" by (simp_all add: blank_def zero_item_def)
  obtain m3 is2 ss2 where IH: "elements_run D pv g a ?t ?m2 = Some (Some rest, m3)"
    "chain_parsed ?m2 a x (map (\<lambda>r. fst (snd r)) (r2 # rs)) ?j m3 is2 ss2"
    using Cons.IH [OF _ nw(1) a2 b(1-3) nw(3) [of D] l g(2)] Cons.prems(1) b(4) by auto
  obtain is3 ss3 where "chain_parsed m x (jprev c) (T # map (\<lambda>r. fst (snd r)) (r2 # rs)) (k + (1 + ?j)) m3 is3 ss3"
    using chain_Cons [OF Cons.prems(7,2,3) n a IH(2)] by blast
  moreover have "elements_run D pv f x (elements_text fmt (map fst (r # r2 # rs)) @ 93 # rest) m = Some (Some rest, m3)"
  proof -
    obtain s2 T2 k2 where r2: "r2 = (s2, T2, k2)" by (cases r2)
    have "parses D pv s2 T2 k2" using Cons.prems(1) r2 by simp
    then have "skip_text ((if fmt then [32] else []) @ ?t) = Some ?t"
      using skip_spaces [of "if fmt then [32] else []" ?t] parses_skip [of D pv s2 T2 k2] unfolding r2 by simp
    then show ?thesis using p(1) IH(1) New_Item_ok [OF a nw(1), of D] nw(1,4) unfolding r g(1)
      by (simp add: elements_run_def skip_def)
  qed
  ultimately show ?case unfolding cost by (auto simp: r)
qed

fun members_cost :: "((u8 list \<times> u8 list) \<times> 'd jtree \<times> nat) list \<Rightarrow> nat" where
  "members_cost [] = 0"
| "members_cost [(s, T, k)] = 1 + k"
| "members_cost ((s, T, k) # rs) = 1 + k + (1 + members_cost rs)"

text \<open>The name, the colon and the value of a member.\<close>

lemma member_parse:
  assumes pt: "parses D pv s T k" and nm: "tname T = Some name" "0 \<notin> set name"
    and x: "x \<noteq> NULL" "jitems m x = Some c" "blank D c" "jnext c = NULL" "jstring c = NULL" and f: "fresh m" "1 + k \<le> length (jplan m)"
    and ws: "\<forall>c\<in>set ws. c \<noteq> 0 \<and> c \<le> 32" "\<forall>c\<in>set sp. c \<noteq> 0 \<and> c \<le> 32" and rest: "follows rest"
  obtains m' c' ik sk where "node_parsed m x (jprev c) T (1 + k) m' c' ik sk"
    "\<And>g. parse_members D pv (Suc g) x (ws @ str_text name @ 58 # sp @ s @ rest) m = do {
       v \<leftarrow> skip (Some rest);
       case v of None \<Rightarrow> Some (None, m')
       | Some v \<Rightarrow> do {
           c \<leftarrow> hd_opt v;
           if c = 44 then
             let (new_item, m) = cJSON_New_Item D m' in
             if new_item = NULL then Some (None, m)
             else do { m \<leftarrow> suffix_object x new_item m; parse_members D pv g new_item (tl v) m }
           else if c = 125 then Some (Some (tl v), m')
           else Some (None, m'\<lparr>ep := Some v\<rparr>)
         }
     }"
proof -
  obtain a as where a: "jplan m = a # as" using f(2) by (cases "jplan m") auto
  have a0: "a \<noteq> NULL" "a \<notin> set as" "jstrs m a = None" "a \<noteq> x" using f(1) a fresh_item [OF f(1) x(2)] by (auto simp: fresh_def)
  let ?cb = "c\<lparr>jtype := cJSON_String, jstring := a, jvaluestring := NULL\<rparr>"
  define mb where "mb = m\<lparr>jplan := as, jstrs := (jstrs m)(a \<mapsto> name @ [0]), jitems := (jitems m)(x \<mapsto> ?cb)\<rparr>"
  have t: "touches m mb {x} {a} 1" using a by (simp add: touches_def mb_def)
  have fb: "fresh mb" by (rule fresh_touches [OF f(1) t]) (use a x(2) in auto)
  have xb: "jitems mb x = Some ?cb" "blank D ?cb" using x(3) by (simp_all add: mb_def blank_def)
  have "k \<le> length (jplan mb)" using f(2) a by (simp add: mb_def)
  then obtain m' c' ik sk where p: "pv x (Some (s @ rest)) mb = Some (Some rest, m')" "value_parsed mb x ?cb T k m' c' ik sk"
    by (rule parsesE [OF pt x(1) xb fb _ rest])
  have v: "jitems m' x = Some c'" "jnext c' = NULL" "jprev c' = jprev c" "jstring c' = a" "content m' c' T ik sk" "distinct (ik @ sk)"
    "set (ik @ sk) \<subseteq> set (take k as)" "touches mb m' (insert x (set ik)) (set sk) k"
    using p(2) x(4) by (simp_all add: value_parsed_def mb_def)
  have an: "a \<notin> set (ik @ sk)" using v(7) a0(2) set_take_subset [of k as] by blast
  have node: "node_parsed m x (jprev c) T (1 + k) m' c' ik sk"
    unfolding node_parsed_def
  proof (intro conjI)
    have "jstrs m' a = Some (name @ [0])" using v(8) an by (simp add: touches_def mb_def)
    then show "str_rep m' (jstring c') (tname T)" using nm a0(1) v(4) by (simp add: str_rep_def)
    show "distinct (ik @ filter (\<lambda>q. q \<noteq> NULL) [jstring c'] @ sk)" using v(4,6) an a0(1) by auto
    show "set (ik @ filter (\<lambda>q. q \<noteq> NULL) [jstring c'] @ sk) \<subseteq> set (take (1 + k) (jplan m))"
      using v(4,7) a a0(1) by auto
    show "touches m m' (insert x (set ik)) (set (filter (\<lambda>q. q \<noteq> NULL) [jstring c'] @ sk)) (1 + k)"
      using touches_trans [OF t v(8)] by (rule touches_mono) (use v(4) a0(1) in auto)
  qed (use v in simp_all)
  have "skip_text (ws @ str_text name @ 58 # sp @ s @ rest) = Some (str_text name @ 58 # sp @ s @ rest)"
    using skip_spaces [OF ws(1)] by (simp add: str_text_def)
  moreover have "skip_text (sp @ s @ rest) = Some (s @ rest)" using skip_spaces [OF ws(2)] parses_skip [OF pt] by simp
  moreover have "parse_string x (str_text name @ 58 # sp @ s @ rest) m = Some (Some (58 # sp @ s @ rest),
      m\<lparr>jplan := as, jstrs := (jstrs m)(a \<mapsto> name @ [0]), jitems := (jitems m)(x \<mapsto> c\<lparr>jvaluestring := a, jtype := cJSON_String\<rparr>)\<rparr>)"
    using parse_string_ok [OF nm(2) a a0(1) x(1,2), of "58 # sp @ s @ rest"] by (simp add: str_text_def)
  moreover have "item_upd x (\<lambda>i. i\<lparr>jstring := jvaluestring i, jvaluestring := NULL\<rparr>)
      (m\<lparr>jplan := as, jstrs := (jstrs m)(a \<mapsto> name @ [0]), jitems := (jitems m)(x \<mapsto> c\<lparr>jvaluestring := a, jtype := cJSON_String\<rparr>)\<rparr>) = Some mb"
    using x(1) by (simp add: mb_def)
  ultimately have "parse_members D pv (Suc g) x (ws @ str_text name @ 58 # sp @ s @ rest) m = do {
       v \<leftarrow> skip (Some rest);
       case v of None \<Rightarrow> Some (None, m')
       | Some v \<Rightarrow> do {
           c \<leftarrow> hd_opt v;
           if c = 44 then
             let (new_item, m) = cJSON_New_Item D m' in
             if new_item = NULL then Some (None, m)
             else do { m \<leftarrow> suffix_object x new_item m; parse_members D pv g new_item (tl v) m }
           else if c = 125 then Some (Some (tl v), m')
           else Some (None, m'\<lparr>ep := Some v\<rparr>)
         }
     }" for g
    using p(1) by (simp add: skip_def)
  then show ?thesis using that node by blast
qed

text \<open>White space, as formatted printing writes it.\<close>

lemma spaces [simp]:
  "\<forall>c\<in>set (if fmt then [9] else []). c \<noteq> 0 \<and> c \<le> (32 :: u8)" "\<forall>c\<in>set (if fmt then [10] else []). c \<noteq> 0 \<and> c \<le> (32 :: u8)"
  "(\<forall>c\<in>set (ws @ (if fmt then replicate d 9 else [])). c \<noteq> 0 \<and> c \<le> (32 :: u8)) = (\<forall>c\<in>set ws. c \<noteq> 0 \<and> c \<le> 32)"
  by auto

lemma members_parse:
  assumes "\<forall>((name, s), T, k)\<in>set (r # rs). parses D pv s T k \<and> tname T = Some name \<and> 0 \<notin> set name"
    "x \<noteq> NULL" "jitems m x = Some c" "blank D c" "jnext c = NULL" "jstring c = NULL" "fresh m"
    "members_cost (r # rs) \<le> length (jplan m)" "length rs < f" "\<forall>c\<in>set ws. c \<noteq> 0 \<and> c \<le> 32"
  shows "\<exists>m' is ss. parse_members D pv f x (ws @ members_text fmt d (map fst (r # rs)) @ (if fmt then replicate j 9 else []) @ 125 # rest) m =
      Some (Some rest, m') \<and>
    chain_parsed m x (jprev c) (map (\<lambda>r. fst (snd r)) (r # rs)) (members_cost (r # rs)) m' is ss"
  using assms
proof (induction rs arbitrary: r x c m f ws)
  case Nil
  obtain name s T k where r: "r = ((name, s), T, k)" by (metis prod.exhaust)
  obtain g where g: "f = Suc g" using Nil.prems(9) by (cases f) auto
  let ?fin = "(if fmt then replicate j 9 else []) @ 125 # rest"
  let ?e = "(if fmt then [10] else []) @ ?fin"
  have h: "parses D pv s T k" "tname T = Some name" "0 \<notin> set name" "1 + k \<le> length (jplan m)" "follows ?e"
    "\<forall>c\<in>set (ws @ (if fmt then replicate d 9 else [])). c \<noteq> 0 \<and> c \<le> 32"
    using Nil.prems(1,8) spaces(3) [THEN iffD2, OF Nil.prems(10)] by (simp_all add: r follows_def)
  obtain m' c' ik sk where n: "node_parsed m x (jprev c) T (1 + k) m' c' ik sk"
    and p: "parse_members D pv (Suc g) x ((ws @ (if fmt then replicate d 9 else [])) @ str_text name @ 58 # (if fmt then [9] else []) @ s @ ?e) m = do {
       v \<leftarrow> skip (Some ?e);
       case v of None \<Rightarrow> Some (None, m')
       | Some v \<Rightarrow> do {
           c \<leftarrow> hd_opt v;
           if c = 44 then
             let (new_item, m) = cJSON_New_Item D m' in
             if new_item = NULL then Some (None, m)
             else do { m \<leftarrow> suffix_object x new_item m; parse_members D pv g new_item (tl v) m }
           else if c = 125 then Some (Some (tl v), m')
           else Some (None, m'\<lparr>ep := Some v\<rparr>)
         }
     }"
    by (rule member_parse [OF h(1-3) Nil.prems(2-7) h(4,6) spaces(1) h(5)]) blast
  have "skip_text ?e = Some (125 # rest)"
    using skip_spaces [of "replicate j 9" "125 # rest"] by auto
  then have "parse_members D pv f x (ws @ members_text fmt d (map fst [r]) @ ?fin) m = Some (Some rest, m')"
    using p unfolding g r by (simp add: skip_def del: parse_members.simps)
  moreover obtain ss where "chain_parsed m x (jprev c) [T] (1 + k) m' ik ss" using chain_single [OF n Nil.prems(2)] by blast
  ultimately show ?case unfolding r by auto
next
  case (Cons r2 rs)
  obtain name s T k where r: "r = ((name, s), T, k)" by (metis prod.exhaust)
  obtain g where g: "f = Suc g" "length rs < g" using Cons.prems(9) by (cases f) auto
  let ?j = "members_cost (r2 # rs)"
  let ?t = "(if fmt then [10] else []) @ members_text fmt d (map fst (r2 # rs)) @ (if fmt then replicate j 9 else []) @ 125 # rest"
  have cost: "members_cost (r # r2 # rs) = 1 + k + (1 + ?j)" unfolding r by simp
  have h: "parses D pv s T k" "tname T = Some name" "0 \<notin> set name" "1 + k \<le> length (jplan m)" "follows (44 # ?t)"
    "\<forall>c\<in>set (ws @ (if fmt then replicate d 9 else [])). c \<noteq> 0 \<and> c \<le> 32"
    using Cons.prems(1,8) spaces(3) [THEN iffD2, OF Cons.prems(10)] unfolding cost by (simp_all add: r follows_def)
  obtain m1 c1 ik sk where n: "node_parsed m x (jprev c) T (1 + k) m1 c1 ik sk"
    and p: "parse_members D pv (Suc g) x ((ws @ (if fmt then replicate d 9 else [])) @ str_text name @ 58 # (if fmt then [9] else []) @ s @ 44 # ?t) m = do {
       v \<leftarrow> skip (Some (44 # ?t));
       case v of None \<Rightarrow> Some (None, m1)
       | Some v \<Rightarrow> do {
           c \<leftarrow> hd_opt v;
           if c = 44 then
             let (new_item, m) = cJSON_New_Item D m1 in
             if new_item = NULL then Some (None, m)
             else do { m \<leftarrow> suffix_object x new_item m; parse_members D pv g new_item (tl v) m }
           else if c = 125 then Some (Some (tl v), m1)
           else Some (None, m1\<lparr>ep := Some v\<rparr>)
         }
     }"
    by (rule member_parse [OF h(1-3) Cons.prems(2-7) h(4,6) spaces(1) h(5)]) blast
  have x1: "jitems m1 x = Some c1" "jplan m1 = drop (1 + k) (jplan m)" using n by (simp_all add: node_parsed_def touches_def)
  then have "jplan m1 \<noteq> []" using Cons.prems(8) unfolding cost by simp
  then obtain a as where a: "jplan m1 = a # as" by (metis list.exhaust)
  have f1: "fresh m1" by (rule node_fresh [OF n Cons.prems(7,3)])
  note nw = new_behind [OF f1 Cons.prems(2) x1(1) a]
  let ?m2 = "link_new D x a c1 as m1" and ?c = "(zero_item D)\<lparr>jprev := x\<rparr>"
  have "length (jplan m1) = length (jplan m) - (1 + k)" using x1(2) by simp
  then have l: "?j \<le> length (jplan ?m2)" using Cons.prems(8) a unfolding cost by (simp add: link_new_def)
  have a2: "jitems ?m2 a = Some ?c" using nw(2) by (simp add: link_new_def)
  have b: "blank D ?c" "jnext ?c = NULL" "jstring ?c = NULL" "jprev ?c = x" by (simp_all add: blank_def zero_item_def)
  obtain m3 is2 ss2 where IH: "parse_members D pv g a ?t ?m2 = Some (Some rest, m3)"
    "chain_parsed ?m2 a x (map (\<lambda>r. fst (snd r)) (r2 # rs)) ?j m3 is2 ss2"
    using Cons.IH [OF _ nw(1) a2 b(1-3) nw(3) [of D] l g(2) spaces(2)] Cons.prems(1) unfolding b(4) by (meson list.set_intros(2))
  obtain is3 ss3 where "chain_parsed m x (jprev c) (T # map (\<lambda>r. fst (snd r)) (r2 # rs)) (1 + k + (1 + ?j)) m3 is3 ss3"
    using chain_Cons [OF Cons.prems(7,2,3) n a IH(2)] by blast
  moreover have "parse_members D pv f x (ws @ members_text fmt d (map fst (r # r2 # rs)) @ (if fmt then replicate j 9 else []) @ 125 # rest) m =
      Some (Some rest, m3)"
    using p IH(1) New_Item_ok [OF a nw(1), of D] nw(1,4) unfolding g(1) r
    by (simp add: skip_def del: parse_members.simps)
  ultimately show ?case unfolding cost by (auto simp: r simp del: parse_members.simps)
qed

subsection \<open>Parsing a tree\<close>

lemma starts_other: "c \<noteq> d \<Longrightarrow> starts (d # l) (c # cs) = Some False"
  by simp

lemma num_head: "number_back D i d \<Longrightarrow> \<exists>c cs. num_text D i d = c # cs \<and> (c = 45 \<or> is_digit c)"
  by (cases "num_text D i d") (auto simp: number_back_def)

lemma jtext_head: "readable D t \<Longrightarrow> \<exists>c cs. jtext D fmt depth t = c # cs \<and> 32 < c \<and> c \<noteq> 93"
proof (cases t)
  case (JTree y i d v nm ks)
  assume r: "readable D t"
  then have "y = 0 \<or> y = 1 \<or> y = 2 \<or> y = 3 \<or> y = 4 \<or> y = 5 \<or> y = 6" using type_cases [of y] by (simp add: JTree)
  moreover have "32 < c \<and> c \<noteq> 93" if "48 \<le> c" "c \<le> 57" for c :: u8 using that by (auto simp: word_le_nat_alt word_less_nat_alt)
  ultimately show ?thesis using r num_head [of D i d] by (auto simp: JTree str_text_def object_text_def)
qed

lemma tname_canon [simp]: "tname (canon D nm t) = nm"
  by (cases t) simp

lemma elements_cost_sum: "rs \<noteq> [] \<Longrightarrow> Suc (elements_cost rs) = sum_list (map (\<lambda>(s, T, k). 1 + k) rs)"
  by (induction rs rule: elements_cost.induct) auto

lemma members_cost_sum: "rs \<noteq> [] \<Longrightarrow> Suc (members_cost rs) = sum_list (map (\<lambda>(s, T, k). 2 + k) rs)"
  by (induction rs rule: members_cost.induct) auto

text \<open>An array or object whose first child is now in memory.\<close>

lemma compound_parsed:
  assumes f: "fresh m" and x: "x \<noteq> NULL" "jitems m x = Some c" "blank D c" and a: "jplan m = a # as"
    and m2: "m2 = m\<lparr>jplan := as, jitems := (jitems m)(x \<mapsto> c\<lparr>jtype := t, jchild := a\<rparr>, a \<mapsto> zero_item D)\<rparr>"
    and ch: "chain_parsed m2 a NULL Ts k m3 is ss" and t: "t AND cJSON_IsReference = 0"
  shows "\<exists>c'. value_parsed m x c (JTree t 0 (d_int D 0) None nm Ts) (1 + k) m3 c' (a # is) ss"
proof -
  let ?c = "c\<lparr>jtype := t, jchild := a\<rparr>"
  have c': "trees m3 a NULL Ts (a # is) ss" "distinct (is @ ss)" "set (is @ ss) \<subseteq> set (take k as)" "touches m2 m3 (insert a (set is)) (set ss) k"
    using ch by (simp_all add: chain_parsed_def m2)
  have ax: "a \<noteq> x" "a \<notin> set as" "x \<notin> set as" using f a fresh_item [OF f x(2)] by (auto simp: fresh_def)
  have sub: "set (is @ ss) \<subseteq> set as" using c'(3) set_take_subset [of k as] by blast
  have t12: "touches m m2 {x, a} {} 1" using a by (simp add: touches_def m2)
  have "value_parsed m x c (JTree t 0 (d_int D 0) None nm Ts) (1 + k) m3 ?c (a # is) ss"
    unfolding value_parsed_def
  proof (intro conjI)
    show "jitems m3 x = Some ?c" using c'(4) sub ax by (auto simp: touches_def m2)
    show "content m3 ?c (JTree t 0 (d_int D 0) None nm Ts) (a # is) ss"
      using c'(1) x(3) t by (simp add: blank_def str_rep_def)
    show "distinct ((a # is) @ ss)" using c'(2) sub ax(2) by auto
    show "set ((a # is) @ ss) \<subseteq> set (take (1 + k) (jplan m))" using c'(3) a by auto
    have "touches m m3 ({x, a} \<union> insert a (set is)) ({} \<union> set ss) (1 + k)" by (rule touches_trans [OF t12 c'(4)])
    then show "touches m m3 (insert x (set (a # is))) (set ss) (1 + k)" by (rule touches_mono) auto
  qed simp_all
  then show ?thesis ..
qed

lemma leaf_parsed:
  assumes "x \<noteq> NULL" "jitems m x = Some c" "blank D c" "t AND cJSON_IsReference = 0"
  shows "value_parsed m x c (JTree t i d None nm []) 0 (m\<lparr>jitems := (jitems m)(x \<mapsto> c\<lparr>jtype := t, jvalueint := i, jvaluedouble := d\<rparr>)\<rparr>)
    (c\<lparr>jtype := t, jvalueint := i, jvaluedouble := d\<rparr>) [] []"
  using assms by (simp add: value_parsed_def touches_def blank_def str_rep_def)

text \<open>The first child of an array or object, made in the blank item \<open>x\<close>.\<close>

lemma first_child:
  assumes "fresh m" "x \<noteq> NULL" "jitems m x = Some c" "jplan m = a # as"
    and m2: "m2 = m\<lparr>jplan := as, jitems := (jitems m)(x \<mapsto> c\<lparr>jtype := t, jchild := a\<rparr>, a \<mapsto> zero_item D)\<rparr>"
  shows "a \<noteq> NULL" "fresh m2" "jitems m2 a = Some (zero_item D)" "jplan m2 = as"
    "cJSON_New_Item D (m\<lparr>jitems := (jitems m)(x \<mapsto> c\<lparr>jtype := t\<rparr>)\<rparr>) =
       (a, m\<lparr>jitems := (jitems m)(x \<mapsto> c\<lparr>jtype := t\<rparr>, a \<mapsto> zero_item D), jplan := as\<rparr>)"
    "item_upd x (jchild_update (\<lambda>_. a)) (m\<lparr>jitems := (jitems m)(x \<mapsto> c\<lparr>jtype := t\<rparr>, a \<mapsto> zero_item D), jplan := as\<rparr>) = Some m2"
proof -
  have ax: "a \<noteq> NULL" "a \<noteq> x" using assms(1,4) fresh_item [OF assms(1,3)] by (auto simp: fresh_def)
  then show "a \<noteq> NULL" "jitems m2 a = Some (zero_item D)" "jplan m2 = as" by (simp_all add: m2)
  have "touches m m2 {x, a} {} 1" using assms(4) by (simp add: touches_def m2)
  then show "fresh m2" by (rule fresh_touches [OF assms(1)]) (use assms(3,4) in auto)
  show "cJSON_New_Item D (m\<lparr>jitems := (jitems m)(x \<mapsto> c\<lparr>jtype := t\<rparr>)\<rparr>) =
       (a, m\<lparr>jitems := (jitems m)(x \<mapsto> c\<lparr>jtype := t\<rparr>, a \<mapsto> zero_item D), jplan := as\<rparr>)"
    using assms(4) ax(1) by (simp add: cJSON_New_Item_def)
  show "item_upd x (jchild_update (\<lambda>_. a)) (m\<lparr>jitems := (jitems m)(x \<mapsto> c\<lparr>jtype := t\<rparr>, a \<mapsto> zero_item D), jplan := as\<rparr>) = Some m2"
    using assms(2) ax(2) by (simp add: m2 fun_upd_twist)
qed

lemma zero_blank [simp]: "blank D (zero_item D)" "jnext (zero_item D) = NULL" "jprev (zero_item D) = NULL" "jstring (zero_item D) = NULL"
  by (simp_all add: blank_def zero_item_def)

lemma parse_array_ok:
  assumes rs: "\<forall>(s, T, k)\<in>set (r # rs). parses D pv s T k \<and> tname T = None" "length rs < f" and hd: "\<exists>c cs. fst r = c # cs \<and> c \<noteq> 93"
    and x: "x \<noteq> NULL" "jitems m x = Some c" "blank D c" and m: "fresh m" "Suc (elements_cost (r # rs)) \<le> length (jplan m)"
  shows "\<exists>m' c' ik sk. parse_array D pv f x (91 # elements_text fmt (map fst (r # rs)) @ 93 # rest) m = Some (Some rest, m') \<and>
    value_parsed m x c (JTree 5 0 (d_int D 0) None nm (map (\<lambda>r. fst (snd r)) (r # rs))) (1 + elements_cost (r # rs)) m' c' ik sk"
proof -
  obtain a as where a: "jplan m = a # as" using m(2) by (cases "jplan m") auto
  define m2 where "m2 = m\<lparr>jplan := as, jitems := (jitems m)(x \<mapsto> c\<lparr>jtype := 5, jchild := a\<rparr>, a \<mapsto> zero_item D)\<rparr>"
  note fc = first_child [OF m(1) x(1,2) a m2_def]
  have "elements_cost (r # rs) \<le> length (jplan m2)" using m(2) a fc(4) by simp
  then obtain m3 "is" ss where ch: "elements_run D pv f a (elements_text fmt (map fst (r # rs)) @ 93 # rest) m2 = Some (Some rest, m3)"
    "chain_parsed m2 a NULL (map (\<lambda>r. fst (snd r)) (r # rs)) (elements_cost (r # rs)) m3 is ss"
    using elements_parse [OF rs(1) fc(1,3) zero_blank(1,2,4) fc(2) _ rs(2), of fmt rest] unfolding zero_blank(3) by blast
  obtain c' where "value_parsed m x c (JTree 5 0 (d_int D 0) None nm (map (\<lambda>r. fst (snd r)) (r # rs))) (1 + elements_cost (r # rs)) m3 c' (a # is) ss"
    using compound_parsed [OF m(1) x a m2_def ch(2)] by auto
  moreover obtain c0 cs where c0: "fst r = c0 # cs" "c0 \<noteq> 93" using hd by blast
  moreover have "skip_text (fst r @ t) = Some (fst r @ t)" for t
    using rs(1) parses_skip [of D pv "fst r" "fst (snd r)" "snd (snd r)"] by (cases r) simp
  ultimately show ?thesis using ch(1) fc(1,5,6) x(1,2)
    by (simp add: parse_array_def elements_run_def skip_def) blast
qed

lemma parse_object_ok:
  assumes rs: "\<forall>((name, s), T, k)\<in>set (r # rs). parses D pv s T k \<and> tname T = Some name \<and> 0 \<notin> set name" "length rs < f"
    and x: "x \<noteq> NULL" "jitems m x = Some c" "blank D c" and m: "fresh m" "Suc (members_cost (r # rs)) \<le> length (jplan m)"
  shows "\<exists>m' c' ik sk. parse_object D pv f x (object_text fmt depth (map fst (r # rs)) @ rest) m = Some (Some rest, m') \<and>
    value_parsed m x c (JTree 6 0 (d_int D 0) None nm (map (\<lambda>r. fst (snd r)) (r # rs))) (1 + members_cost (r # rs)) m' c' ik sk"
proof -
  obtain a as where a: "jplan m = a # as" using m(2) by (cases "jplan m") auto
  define m2 where "m2 = m\<lparr>jplan := as, jitems := (jitems m)(x \<mapsto> c\<lparr>jtype := 6, jchild := a\<rparr>, a \<mapsto> zero_item D)\<rparr>"
  note fc = first_child [OF m(1) x(1,2) a m2_def]
  have "members_cost (r # rs) \<le> length (jplan m2)" using m(2) a fc(4) by simp
  then obtain m3 "is" ss where ch: "parse_members D pv f a ([] @ members_text fmt (depth + 1) (map fst (r # rs)) @
      (if fmt then replicate depth 9 else []) @ 125 # rest) m2 = Some (Some rest, m3)"
    "chain_parsed m2 a NULL (map (\<lambda>r. fst (snd r)) (r # rs)) (members_cost (r # rs)) m3 is ss"
    using members_parse [OF rs(1) fc(1,3) zero_blank(1,2,4) fc(2) _ rs(2), of "[]" fmt "depth + 1" depth rest] unfolding zero_blank(3) by auto
  obtain c' where v: "value_parsed m x c (JTree 6 0 (d_int D 0) None nm (map (\<lambda>r. fst (snd r)) (r # rs))) (1 + members_cost (r # rs)) m3 c' (a # is) ss"
    using compound_parsed [OF m(1) x a m2_def ch(2)] by auto
  let ?M = "members_text fmt (depth + 1) (map fst (r # rs)) @ (if fmt then replicate depth 9 else []) @ 125 # rest"
  let ?N = "drop (if fmt then depth + 1 else 0) ?M"
  have N: "\<exists>cs. ?N = 34 # cs" "?M = (if fmt then replicate (depth + 1) 9 else []) @ ?N"
    by (cases r; cases "fst r"; simp add: str_text_def)+
  have sk: "skip_text ((if fmt then [10] else []) @ ?M) = Some ?N"
    using skip_spaces [of "(if fmt then 10 # replicate (depth + 1) 9 else [])" ?N] N by (cases fmt) auto
  moreover have "parse_members D pv f a ?N m2 = parse_members D pv f a ?M m2"
  proof -
    have "skip_text ?N = skip_text ?M"
      using skip_spaces [of "(if fmt then replicate (depth + 1) 9 else [])" ?N] N(2) by (cases fmt) auto
    moreover obtain g where "f = Suc g" using rs(2) by (cases f) auto
    ultimately show ?thesis by simp
  qed
  moreover have "object_text fmt depth (map fst (r # rs)) @ rest = 123 # (if fmt then [10] else []) @ ?M" by (simp add: object_text_def)
  ultimately have "parse_object D pv f x (object_text fmt depth (map fst (r # rs)) @ rest) m = Some (Some rest, m3)"
    using ch(1) fc(1,5,6) x(1,2) N(1) by (auto simp: parse_object_def simp del: members_text.simps list.map parse_members.simps)
  then show ?thesis using v by blast
qed

lemma starts_literals [simp]:
  "starts lit_null (lit_null @ t) = Some True" "starts lit_false (lit_false @ t) = Some True" "starts lit_true (lit_true @ t) = Some True"
  by simp_all

lemma parse_value_parses:
  "readable D t \<Longrightarrow> tsize t < f \<Longrightarrow> parses D (parse_value D f) (jtext D fmt depth t) (canon D nm t) (pallocs t)"
proof (induction t arbitrary: nm depth f)
  case (JTree t i d v n0 ks)
  let ?T = "JTree t i d v n0 ks"
  obtain g where g: "f = Suc g" "sum_list (map tsize ks) < g" using JTree.prems(2) by (cases f) auto
  have kid: "parses D (parse_value D g) (jtext D fmt (depth + 1) k) (canon D nm' k) (pallocs k)" if "k \<in> set ks" for k nm'
    by (rule JTree.IH [OF that]) (use that JTree.prems(1) tsize_kid [OF that] g(2) in auto)
  have len: "length ks < g" using length_tsize [of ks] g(2) by simp
  have "\<exists>m' c' ik sk. parse_value D f x (Some (jtext D fmt depth ?T @ rest)) m = Some (Some rest, m') \<and>
      value_parsed m x c (canon D nm ?T) (pallocs ?T) m' c' ik sk"
    if x: "x \<noteq> NULL" "jitems m x = Some c" "blank D c" and m: "fresh m" "pallocs ?T \<le> length (jplan m)" and rest: "follows rest" for m x c rest
  proof -
    have same: "c\<lparr>jtype := y, jvalueint := 0, jvaluedouble := d_int D 0\<rparr> = c\<lparr>jtype := y\<rparr>"
      "c\<lparr>jtype := 1, jvalueint := j, jvaluedouble := d_int D 0\<rparr> = c\<lparr>jtype := 1, jvalueint := j\<rparr>" for y j
      using x(3) by (cases c, simp add: blank_def)+
    note leaf = leaf_parsed [OF x, where nm = nm]
    have "t = 0 \<or> t = 1 \<or> t = 2 \<or> t = 3 \<or> t = 4 \<or> t = 5 \<or> t = 6" using JTree.prems(1) type_cases by simp
    then show ?thesis
    proof (elim disjE)
      assume t: "t = 3"
      then have nb: "number_back D i d" using JTree.prems(1) by simp
      obtain c0 cs where c0: "num_text D i d = c0 # cs" "c0 = 45 \<or> is_digit c0" using num_head [OF nb] by blast
      have "parse_number D x (c0 # cs @ rest) m =
          Some (Some rest, m\<lparr>jitems := (jitems m)(x \<mapsto> c\<lparr>jtype := 3, jvalueint := i, jvaluedouble := d\<rparr>)\<rparr>)"
        using nb x(1,2) rest c0(1) unfolding number_back_def by simp
      moreover have "c0 \<noteq> 110" "c0 \<noteq> 102" "c0 \<noteq> 116" "c0 \<noteq> 34" using c0(2) by auto
      ultimately show ?thesis using leaf [of 3 i d] c0 t g(1) by auto
    next
      assume t: "t = 4"
      obtain s where s: "v = Some s" "0 \<notin> set s" using JTree.prems(1) t by auto
      obtain a as where a: "jplan m = a # as" using m(2) t by (cases "jplan m") auto
      have a0: "a \<noteq> NULL" using m(1) a by (auto simp: fresh_def)
      let ?m = "m\<lparr>jplan := as, jstrs := (jstrs m)(a \<mapsto> s @ [0]), jitems := (jitems m)(x \<mapsto> c\<lparr>jvaluestring := a, jtype := 4\<rparr>)\<rparr>"
      have "value_parsed m x c (JTree 4 0 (d_int D 0) v nm []) 1 ?m (c\<lparr>jvaluestring := a, jtype := 4\<rparr>) [] [a]"
        using x(3) a a0 s by (simp add: value_parsed_def touches_def blank_def str_rep_def)
      then show ?thesis using parse_string_ok [OF s(2) a a0 x(1,2), of rest] t s(1) g(1) by (auto simp: str_text_def)
    next
      assume t: "t = 5"
      show ?thesis
      proof (cases ks)
        case Nil
        then show ?thesis using leaf [of 5 0 "d_int D 0"] x t g(1) by (auto simp: parse_array_def same)
      next
        case (Cons k0 ks0)
        let ?f = "\<lambda>k. (jtext D fmt (depth + 1) k, canon D None k, pallocs k)"
        have e1: "\<forall>(s, T, k)\<in>set (?f k0 # map ?f ks0). parses D (parse_value D g) s T k \<and> tname T = None"
          using kid unfolding Cons by auto
        have e2: "\<exists>c cs. fst (?f k0) = c # cs \<and> c \<noteq> 93" using jtext_head [of D k0] JTree.prems(1) unfolding Cons by force
        have l: "length (map ?f ks0) < g" using len unfolding Cons by simp
        have p: "Suc (elements_cost (?f k0 # map ?f ks0)) = pallocs ?T"
          using elements_cost_sum [of "?f k0 # map ?f ks0"] t unfolding Cons by (simp add: comp_def)
        obtain m' c' ik sk where "parse_array D (parse_value D g) g x
            (91 # elements_text fmt (map fst (?f k0 # map ?f ks0)) @ 93 # rest) m = Some (Some rest, m')"
          "value_parsed m x c (JTree 5 0 (d_int D 0) None nm (map (\<lambda>r. fst (snd r)) (?f k0 # map ?f ks0)))
            (1 + elements_cost (?f k0 # map ?f ks0)) m' c' ik sk"
          using parse_array_ok [of "?f k0" "map ?f ks0", OF e1 l e2 x m(1) m(2) [folded p], of fmt rest nm] by blast
        then show ?thesis using t p Cons g(1) by (auto simp: comp_def)
      qed
    next
      assume t: "t = 6"
      show ?thesis
      proof (cases ks)
        case Nil
        have "skip_text ((if fmt then 10 # replicate (depth - 1) 9 else []) @ 125 # rest) = Some (125 # rest)"
          using skip_spaces [of "if fmt then 10 # replicate (depth - 1) 9 else []" "125 # rest"] by (cases fmt) auto
        then show ?thesis using leaf [of 6 0 "d_int D 0"] x t g(1) Nil by (auto simp: parse_object_def object_text_def same)
      next
        case (Cons k0 ks0)
        let ?f = "\<lambda>k. ((the (tname k), jtext D fmt (depth + 1) k), canon D (tname k) k, pallocs k)"
        have e1: "\<forall>((name, s), T, k)\<in>set (?f k0 # map ?f ks0). parses D (parse_value D g) s T k \<and> tname T = Some name \<and> 0 \<notin> set name"
          using kid JTree.prems(1) t unfolding Cons by fastforce
        have l: "length (map ?f ks0) < g" using len unfolding Cons by simp
        have p: "Suc (members_cost (?f k0 # map ?f ks0)) = pallocs ?T"
          using members_cost_sum [of "?f k0 # map ?f ks0"] t unfolding Cons by (simp add: comp_def)
        obtain m' c' ik sk where "parse_object D (parse_value D g) g x
            (object_text fmt depth (map fst (?f k0 # map ?f ks0)) @ rest) m = Some (Some rest, m')"
          "value_parsed m x c (JTree 6 0 (d_int D 0) None nm (map (\<lambda>r. fst (snd r)) (?f k0 # map ?f ks0)))
            (1 + members_cost (?f k0 # map ?f ks0)) m' c' ik sk"
          using parse_object_ok [of "?f k0" "map ?f ks0", OF e1 l x m(1) m(2) [folded p], of fmt depth rest nm] by blast
        moreover obtain bs where "object_text fmt depth (map fst (?f k0 # map ?f ks0)) = 123 # bs"
          using that by (simp add: object_text_def)
        ultimately show ?thesis using t p Cons g(1) by (auto simp: comp_def)
      qed
    qed (use leaf [of t 0 "d_int D 0"] leaf [of 1 1 "d_int D 0"] x same g(1) in auto)
  qed
  moreover have "\<exists>c cs. jtext D fmt depth ?T = c # cs \<and> 32 < c" using jtext_head [OF JTree.prems(1)] by blast
  ultimately show ?case unfolding parses_def by blast
qed

end
