(* ===== verification/CJsonProps.thy ===== *)
theory CJsonProps
  imports CJsonEscape
begin

text \<open>
  What \<^verbatim>\<open>cJSON.c\<close> promises, each with a witness on a concrete memory, and where its strings overflow.
\<close>

subsection \<open>A concrete memory\<close>

text \<open>Numbers without a fraction, that print as their digits.\<close>

definition int_ops :: "int double_ops" where
  "int_ops = \<lparr>d_int = (\<lambda>i. i), d_lit = (\<lambda>m e. m * 10 ^ nat e), d_epsilon = 0, d_add = (+), d_sub = (-), d_mul = (*),
     d_fabs = abs, d_floor = (\<lambda>i. i), d_pow10 = (\<lambda>e. 10 ^ nat e), d_le = (\<le>), d_less = (<),
     d_trunc = (\<lambda>i. if - (2 ^ 31) \<le> i \<and> i < 2 ^ 31 then Some i else None), d_fmt_0f = fmt_d, d_fmt_e = fmt_d, d_fmt_f = fmt_d\<rparr>"

text \<open>The array \<^verbatim>\<open>["A", 7]\<close> at 16, with its items at 32 and 48; a loose item at 64.\<close>

definition demo_json :: "int jmem" where
  "demo_json = \<lparr>jitems = [16 \<mapsto> (zero_item int_ops)\<lparr>jtype := cJSON_Array, jchild := 32\<rparr>,
      32 \<mapsto> (zero_item int_ops)\<lparr>jtype := cJSON_String, jvaluestring := 80, jnext := 48\<rparr>,
      48 \<mapsto> (zero_item int_ops)\<lparr>jtype := cJSON_Number, jvalueint := 7, jvaluedouble := 7, jprev := 32\<rparr>,
      64 \<mapsto> zero_item int_ops],
    jstrs = [80 \<mapsto> [65, 0]], jptrs = Map.empty, jplan = [96, 112, 128, 144, 160, 176, 192, 208], ep = None\<rparr>"

lemma demo_children: "children demo_json 16 [32, 48]"
  by (simp add: children_def demo_json_def zero_item_def)

definition demo_tree :: "int jtree" where
  "demo_tree = JTree cJSON_Array 0 0 None None [JTree cJSON_String 0 0 (Some [65]) None [], JTree cJSON_Number 7 7 None None []]"

lemma demo_trees: "trees demo_json 16 NULL [demo_tree] [16, 32, 48] [80]"
  unfolding demo_tree_def
  by (simp add: demo_json_def zero_item_def int_ops_def str_rep_def own_strings_def)

subsection \<open>Arrays\<close>

text \<open>
  C16. Arrays are lists. With the items \<open>xs\<close> below an array or object, \<^verbatim>\<open>cJSON_GetArraySize\<close> is their number,
  \<^verbatim>\<open>cJSON_GetArrayItem\<close> the one at an index, the first for a negative one, null behind the end;
  \<^verbatim>\<open>cJSON_DetachItemFromArray\<close> takes that one out, its own links cleared, or does nothing; \<^verbatim>\<open>cJSON_AddItemToArray\<close> appends a loose item. Only
  links of these items change.
\<close>

theorem json_arrays_are_lists:
  assumes "children m a xs"
  shows "(length xs < 2 ^ 31 \<longrightarrow> cJSON_GetArraySize m a = Some (int (length xs))) \<and>
    cJSON_GetArrayItem m a i = Some (if nat i < length xs then xs ! nat i else NULL) \<and>
    (if nat i < length xs then \<exists>m' c. cJSON_DetachItemFromArray a i m = Some (xs ! nat i, m') \<and>
        children m' a (take (nat i) xs @ drop (Suc (nat i)) xs) \<and> relinked a (set xs) m m' \<and>
        jitems m' (xs ! nat i) = Some c \<and> jnext c = NULL \<and> jprev c = NULL
     else cJSON_DetachItemFromArray a i m = Some (NULL, m)) \<and>
    (\<forall>item c. item \<noteq> NULL \<and> item \<notin> set (a # xs) \<and> jitems m item = Some c \<and> jnext c = NULL \<and> jprev c = NULL \<longrightarrow>
      (\<exists>m'. cJSON_AddItemToArray a item m = Some m' \<and> children m' a (xs @ [item]) \<and> relinked a {item, last (a # xs)} m m'))"
proof -
  obtain c where c: "a \<noteq> NULL" "jitems m a = Some c" "dll (jitems m) (jchild c) NULL xs"
    using assms by (auto simp: children_def)
  have "length xs < 2 ^ 31 \<longrightarrow> cJSON_GetArraySize m a = Some (int (length xs))"
    using count_items_ok [OF c(3), of 0] c(1,2) by (simp add: cJSON_GetArraySize_def)
  moreover have "cJSON_GetArrayItem m a i = Some (if nat i < length xs then xs ! nat i else NULL)"
    using walk_items_ok [OF c(3)] c(1,2) by (simp add: cJSON_GetArrayItem_def)
  ultimately show ?thesis
    using DetachItemFromArray_ok [OF assms] DetachItemFromArray_none [OF assms] AddItemToArray_ok [OF assms] by simp
qed

theorem json_arrays_are_lists_witness:
  "cJSON_GetArraySize demo_json 16 = Some 2 \<and> cJSON_GetArrayItem demo_json 16 1 = Some 48 \<and>
   (\<exists>m' c. cJSON_DetachItemFromArray 16 1 demo_json = Some (48, m') \<and> children m' 16 [32] \<and>
      jitems m' 48 = Some c \<and> jnext c = NULL \<and> jprev c = NULL)"
  using json_arrays_are_lists [OF demo_children, of 1] by auto

text \<open>
  C17. Deletion. \<^verbatim>\<open>cJSON_Delete\<close> of trees that share nothing frees every item and every string of them, each
  once, and touches nothing else.
\<close>

theorem delete_frees_trees:
  assumes "trees m p prev ts is ss" and "distinct is" "distinct ss"
  shows "cJSON_Delete (length is + 1) p m = Some (without (set is) (set ss) m)"
  by (rule Delete_ok [OF assms]) simp

theorem delete_frees_trees_witness:
  "cJSON_Delete 4 16 demo_json = Some (without {16, 32, 48} {80} demo_json)"
proof -
  have n: "length [16, 32, 48 :: addr] + 1 = 4" by simp
  show ?thesis using delete_frees_trees [OF demo_trees] unfolding n by (simp del: cJSON_Delete.simps)
qed

subsection \<open>Strings\<close>

text \<open>
  Strings survive. Any bytes but 0, control characters and quotes too, printed by
  \<^verbatim>\<open>print_string_ptr\<close> and parsed by \<^verbatim>\<open>parse_string\<close> come back, and parsing stops right behind them.
\<close>

theorem json_string_roundtrip:
  assumes "0 \<notin> set s" and "jplan m = a # b # as" "a \<noteq> NULL" "b \<noteq> NULL" and "item \<noteq> NULL" "jitems m item = Some c"
  shows "\<exists>text m1 m2. print_string_ptr (Some (s @ 0 # r)) m = Some (a, m1) \<and> jstrs m1 a = Some (text @ [0]) \<and>
    parse_string item (text @ t) m1 = Some (Some t, m2) \<and> jstrs m2 b = Some (s @ [0]) \<and>
    jitems m2 item = Some (c\<lparr>jvaluestring := b, jtype := cJSON_String\<rparr>)"
proof -
  let ?text = "34 # concat (map escape_token s) @ [34]"
  obtain m1 where m1: "print_string_ptr (Some (s @ 0 # r)) m = Some (a, m1)" "jplan m1 = b # as" "jstrs m1 a = Some (?text @ [0])"
    "jitems m1 = jitems m" using print_string_ok [OF assms(1-3)] by simp
  moreover have "parse_string item (?text @ t) m1 = Some (Some t, m1\<lparr>jplan := as, jstrs := (jstrs m1)(b \<mapsto> s @ [0]),
      jitems := (jitems m1)(item \<mapsto> c\<lparr>jvaluestring := b, jtype := cJSON_String\<rparr>)\<rparr>)"
    using parse_string_ok [OF assms(1) m1(2) assms(4,5), of c t] assms(6) m1(4) by simp
  ultimately show ?thesis by auto
qed

theorem json_string_roundtrip_witness:
  "\<exists>text m1 m2. print_string_ptr (Some [34, 10, 1, 200, 0]) demo_json = Some (96, m1) \<and> jstrs m1 96 = Some (text @ [0]) \<and>
    parse_string 64 (text @ [44]) m1 = Some (Some [44], m2) \<and> jstrs m2 112 = Some [34, 10, 1, 200, 0]"
  using json_string_roundtrip [of "[34, 10, 1, 200]" demo_json 96 112 "[128, 144, 160, 176, 192, 208]" 64 "zero_item int_ops" "[]" "[44]"]
  by (auto simp: demo_json_def)



text \<open>
  Overflow. A string that ends right behind \<^verbatim>\<open>\u\<close> and is followed by three characters and two more that are neither quote, backslash nor 0 is
  undefined: the second pass jumps over the closing quote, copies what follows, and writes behind the block.
\<close>

theorem quote_after_escape_overflows:
  assumes "set w \<inter> {0, 34, 92} = {}" "2 \<le> length w" and "jplan m = a # as" "a \<noteq> NULL"
  shows "parse_string item (34 # 92 # 117 # 34 # x # y # z # w @ 34 # t) m = None"
  by (rule quote_in_escape [OF assms])

text \<open>\<^verbatim>\<open>"\u",1,xy"]\<close>.\<close>

theorem quote_after_escape_overflows_witness:
  "parse_string 64 [34, 92, 117, 34, 44, 49, 44, 120, 121, 34, 93, 0] demo_json = None"
  using quote_after_escape_overflows [of "[120, 121]" demo_json 96 "[112, 128, 144, 160, 176, 192, 208]" 64 44 49 44 "[93, 0]"]
  by (simp add: demo_json_def)

end
