(* ===== verification/CJsonNumbers.thy ===== *)
theory CJsonNumbers
  imports CJsonParse CJsonProps
begin

text \<open>
  Whole numbers through \<^verbatim>\<open>print_number\<close> and \<^verbatim>\<open>parse_number\<close>. What the functions rely on of \<^verbatim>\<open>double\<close> is stated as
  \<open>exact_ints\<close>: arithmetic on whole numbers that a \<^verbatim>\<open>double\<close> holds exactly is exact. \<open>Binary64\<close> has a model that satisfies it.
\<close>

subsection \<open>Digits\<close>

lemma parse_digits_all:
  "\<forall>c\<in>set ds. is_digit c \<Longrightarrow> parse_digits D n k (ds @ t) =
   parse_digits D (foldl (\<lambda>n c. d_add D (d_mul D n (d_int D 10)) (d_int D (uint c - 48))) n ds) (k + length ds) t"
  by (induction ds arbitrary: n k) auto

lemma digit_byte: "n < 10 \<Longrightarrow> uint (of_nat (48 + n) :: u8) = 48 + int n \<and> is_digit (of_nat (48 + n))"
proof -
  assume "n < 10"
  then have "unat (of_nat (48 + n) :: u8) = 48 + n" by (simp add: unat_of_nat take_bit_eq_mod del: of_nat_add)
  then show ?thesis using \<open>n < 10\<close> by (simp add: word_le_nat_alt uint_nat del: of_nat_add)
qed

declare dec_digits.simps [simp del]

lemma dec_digits_ok:
  "(\<forall>c\<in>set (dec_digits n). is_digit c) \<and> foldl (\<lambda>n c. n * 10 + (uint c - 48)) 0 (dec_digits n) = int n \<and>
   dec_digits n \<noteq> [] \<and> (0 < n \<longrightarrow> hd (dec_digits n) \<noteq> 48)"
proof (induction n rule: dec_digits.induct)
  case (1 n)
  show ?case
  proof (cases "n < 10")
    case True
    have "(of_nat (48 + n) :: u8) \<noteq> 48" if "0 < n"
    proof
      assume "of_nat (48 + n) = (48 :: u8)"
      then show False using digit_byte [OF True] that by simp
    qed
    then show ?thesis using True digit_byte [OF True] by (simp add: dec_digits.simps [of n] del: of_nat_add)
  next
    case False
    have "n mod 10 < 10" "int (n div 10) * 10 + int (n mod 10) = int n" by (simp, metis div_mult_mod_eq of_nat_add of_nat_mult of_nat_numeral)
    then show ?thesis using 1 [OF False] False digit_byte [of "n mod 10"] by (simp add: dec_digits.simps [of n] del: of_nat_add)
  qed
qed

subsection \<open>What a double does with whole numbers\<close>

text \<open>
  Of IEC 60559, for whole numbers up to \<open>2 ^ 53\<close>: sums, differences and products are exact, a product without a negative zero; they are compared as
  numbers; the cast to \<^verbatim>\<open>int\<close> gives the number back when it is in range; 0 is within \<^verbatim>\<open>DBL_EPSILON\<close>; \<^verbatim>\<open>pow(10.0, 0)\<close> is 1.
\<close>

definition exact_ints :: "'d double_ops \<Rightarrow> bool" where
  "exact_ints D \<longleftrightarrow>
     (\<forall>a b. \<bar>a\<bar> \<le> 2 ^ 53 \<and> \<bar>b\<bar> \<le> 2 ^ 53 \<longrightarrow>
        (\<bar>a + b\<bar> \<le> 2 ^ 53 \<longrightarrow> d_add D (d_int D a) (d_int D b) = d_int D (a + b)) \<and>
        (\<bar>a - b\<bar> \<le> 2 ^ 53 \<longrightarrow> d_sub D (d_int D a) (d_int D b) = d_int D (a - b)) \<and>
        (\<bar>a * b\<bar> \<le> 2 ^ 53 \<and> (a * b \<noteq> 0 \<or> 0 \<le> a \<and> 0 \<le> b) \<longrightarrow> d_mul D (d_int D a) (d_int D b) = d_int D (a * b)) \<and>
        (d_le D (d_int D a) (d_int D b) \<longleftrightarrow> a \<le> b)) \<and>
     (\<forall>i. - (2 ^ 31) \<le> i \<and> i < 2 ^ 31 \<longrightarrow> d_trunc D (d_int D i) = Some i) \<and>
     d_le D (d_fabs D (d_int D 0)) (d_epsilon D) \<and> d_pow10 D (d_int D 0) = d_int D 1"

lemma exact_int_ops: "exact_ints int_ops"
  by (simp add: exact_ints_def int_ops_def)

lemma exact_arith:
  assumes "exact_ints D" "\<bar>a\<bar> \<le> 2 ^ 53" "\<bar>b\<bar> \<le> 2 ^ 53"
  shows "\<bar>a + b\<bar> \<le> 2 ^ 53 \<Longrightarrow> d_add D (d_int D a) (d_int D b) = d_int D (a + b)"
    "\<bar>a - b\<bar> \<le> 2 ^ 53 \<Longrightarrow> d_sub D (d_int D a) (d_int D b) = d_int D (a - b)"
    "\<bar>a * b\<bar> \<le> 2 ^ 53 \<Longrightarrow> a * b \<noteq> 0 \<or> 0 \<le> a \<and> 0 \<le> b \<Longrightarrow> d_mul D (d_int D a) (d_int D b) = d_int D (a * b)"
    "d_le D (d_int D a) (d_int D b) \<longleftrightarrow> a \<le> b"
  using assms unfolding exact_ints_def by blast+

lemma exact_rest:
  assumes "exact_ints D"
  shows "- (2 ^ 31) \<le> i \<Longrightarrow> i < 2 ^ 31 \<Longrightarrow> d_trunc D (d_int D i) = Some i"
    "d_le D (d_fabs D (d_int D 0)) (d_epsilon D)" "d_pow10 D (d_int D 0) = d_int D 1"
  using assms unfolding exact_ints_def by blast+

text \<open>The value of a run of digits: exact as long as it is below \<open>2 ^ 53\<close>.\<close>

abbreviation (input) dec_step :: "int \<Rightarrow> u8 \<Rightarrow> int" where
  "dec_step n c \<equiv> n * 10 + (uint c - 48)"

lemma dec_steps_grow: "\<forall>c\<in>set ds. is_digit c \<Longrightarrow> 0 \<le> n \<Longrightarrow> n \<le> foldl dec_step n ds"
proof (induction ds arbitrary: n)
  case (Cons c ds)
  have "48 \<le> uint c" using Cons.prems(1) by (simp add: word_le_def)
  then have "n \<le> dec_step n c" "0 \<le> dec_step n c" using Cons.prems(2) by auto
  then show ?case using Cons.IH [of "dec_step n c"] Cons.prems(1) by fastforce
qed simp

lemma parse_digits_exact:
  assumes D: "exact_ints D"
  shows "\<forall>c\<in>set ds. is_digit c \<Longrightarrow> 0 \<le> n \<Longrightarrow> foldl dec_step n ds \<le> 2 ^ 53 \<Longrightarrow>
    foldl (\<lambda>n c. d_add D (d_mul D n (d_int D 10)) (d_int D (uint c - 48))) (d_int D n) ds = d_int D (foldl dec_step n ds)"
proof (induction ds arbitrary: n)
  case (Cons c ds)
  have c: "48 \<le> uint c" "uint c \<le> 57" using Cons.prems(1) by (simp_all add: word_le_def)
  have "dec_step n c \<le> foldl dec_step (dec_step n c) ds" by (rule dec_steps_grow) (use Cons.prems c in auto)
  then have b: "dec_step n c \<le> 2 ^ 53" using Cons.prems(3) by simp
  have "d_mul D (d_int D n) (d_int D 10) = d_int D (n * 10)"
    by (rule exact_arith(3) [OF D]) (use Cons.prems(2) b c in auto)
  moreover have "d_add D (d_int D (n * 10)) (d_int D (uint c - 48)) = d_int D (dec_step n c)"
    by (rule exact_arith(1) [OF D]) (use Cons.prems(2) b c in auto)
  ultimately show ?case using Cons.IH [of "dec_step n c"] Cons.prems c by simp
qed simp

subsection \<open>Whole numbers are read back\<close>

lemma parse_number_plain:
  assumes D: "exact_ints D" and x: "x \<noteq> NULL" "jitems m x = Some c" and rest: "follows rest"
    and n: "n < 2 ^ 31 + (if neg then 1 else 0)" "neg \<longrightarrow> 0 < n"
  shows "parse_number D x ((if neg then [45] else []) @ dec_digits n @ rest) m =
    Some (Some rest, m\<lparr>jitems := (jitems m)(x \<mapsto> c\<lparr>jtype := 3, jvalueint := (if neg then - int n else int n),
      jvaluedouble := d_int D (if neg then - int n else int n)\<rparr>)\<rparr>)"
proof -
  let ?i = "if neg then - int n else int n"
  obtain r rs where r: "rest = r # rs" "r \<in> {44, 93, 125, 10, 0}" using rest by (cases rest) (auto simp: follows_def)
  obtain d ds where d: "dec_digits n = d # ds" "is_digit d" "0 < n \<Longrightarrow> d \<noteq> 48" using dec_digits_ok [of n] by (cases "dec_digits n") auto
  have n31: "int n \<le> 2 ^ 31" using n by (auto split: if_splits)
  have val: "parse_digits D (d_int D 0) 0 (dec_digits n @ rest) = Some (d_int D (int n), length (dec_digits n), rest)"
    using parse_digits_all [of "dec_digits n" D "d_int D 0" 0 rest] parse_digits_exact [OF D, of "dec_digits n" 0] dec_digits_ok [of n] n31 r by auto
  have tr: "d_trunc D (d_int D ?i) = Some ?i" by (rule exact_rest(1) [OF D]) (use n in \<open>auto split: if_splits\<close>)
  have one: "d_mul D (d_mul D (d_int D (if neg then - 1 else 1)) (d_int D (int n))) (d_pow10 D (d_add D (d_int D 0) (d_int D (0 * 1)))) = d_int D ?i"
    using exact_arith(3) [OF D, of "if neg then - 1 else 1" "int n"] exact_arith(3) [OF D, of ?i 1] exact_arith(1) [OF D, of 0 0] exact_rest(3) [OF D] n31 n(2)
    by auto
  have rc: "c\<lparr>jvaluedouble := u, jvalueint := w, jtype := 3\<rparr> = c\<lparr>jtype := 3, jvalueint := w, jvaluedouble := u\<rparr>" for u w by simp
  have r': "r \<noteq> 46" "r \<noteq> 101" "r \<noteq> 69" "(49 \<le> r \<and> r \<le> 57) = False" using r(2) by auto
  show ?thesis
  proof (cases "n = 0")
    case True
    then have "dec_digits n = [48]" by (simp add: dec_digits.simps [of 0])
    then show ?thesis using x r(1) True r' one tr n(2)
      by (simp add: parse_number_def Let_def rc del: parse_digits.simps de_Morgan_conj)
  next
    case False
    then have h: "d \<noteq> 48" "d \<noteq> 45" "49 \<le> d \<and> d \<le> 57" using d(2,3) by (auto simp: word_le_nat_alt word_unat_eq_iff)
    have v: "parse_digits D (d_int D 0) 0 (d # ds @ rest) = Some (d_int D (int n), length (dec_digits n), rest)" using val d(1) by simp
    show ?thesis using x h v r'(1-3) r(1) tr one unfolding d(1)
      by (cases neg) (simp_all add: parse_number_def Let_def rc del: parse_digits.simps)
  qed
qed

lemma int_text: "exact_ints D \<Longrightarrow> - (2 ^ 31) \<le> i \<Longrightarrow> i < 2 ^ 31 \<Longrightarrow> num_text D i (d_int D i) = fmt_d i"
proof -
  assume D: "exact_ints D" and i: "- (2 ^ 31) \<le> i" "i < 2 ^ 31"
  have "d_sub D (d_int D i) (d_int D i) = d_int D 0" using exact_arith(2) [OF D, of i i] i by simp
  moreover have "d_le D (d_int D i) (d_int D (2 ^ 31 - 1))" "d_le D (d_int D (- (2 ^ 31))) (d_int D i)"
    using exact_arith(4) [OF D, of i "2 ^ 31 - 1"] exact_arith(4) [OF D, of "- (2 ^ 31)" i] i by simp_all
  ultimately show ?thesis using exact_rest(2) [OF D] by (simp add: num_text_def)
qed

lemma int_number_back: "exact_ints D \<Longrightarrow> - (2 ^ 31) \<le> i \<Longrightarrow> i < 2 ^ 31 \<Longrightarrow> number_back D i (d_int D i)"
proof -
  assume D: "exact_ints D" and i: "- (2 ^ 31) \<le> i" "i < 2 ^ 31"
  have t: "num_text D i (d_int D i) = (if i < 0 then [45] else []) @ dec_digits (nat \<bar>i\<bar>)"
    using int_text [OF D i] by (simp add: fmt_d_def abs_if)
  have "hd (dec_digits (nat \<bar>i\<bar>)) \<in> set (dec_digits (nat \<bar>i\<bar>))" using dec_digits_ok [of "nat \<bar>i\<bar>"] by simp
  then have h: "is_digit (hd (dec_digits (nat \<bar>i\<bar>)))" "dec_digits (nat \<bar>i\<bar>) \<noteq> []" using dec_digits_ok [of "nat \<bar>i\<bar>"] by auto
  have "nat \<bar>i\<bar> < 2 ^ 31 + (if i < 0 then 1 else 0)" "i < 0 \<longrightarrow> 0 < nat \<bar>i\<bar>" using i by (simp_all add: nat_less_iff abs_if)
  note p = parse_number_plain [OF D _ _ _ this]
  show ?thesis unfolding number_back_def t
  proof (intro conjI allI impI)
    fix m :: "'a jmem" and x c rest assume "x \<noteq> NULL \<and> jitems m x = Some c \<and> follows rest"
    then show "parse_number D x (((if i < 0 then [45] else []) @ dec_digits (nat \<bar>i\<bar>)) @ rest) m =
       Some (Some rest, m\<lparr>jitems := (jitems m)(x \<mapsto> c\<lparr>jtype := 3, jvalueint := i, jvaluedouble := d_int D i\<rparr>)\<rparr>)"
      using p [of x m c rest] by (simp add: abs_if split: if_splits)
  qed (use h in auto)
qed

lemma fmt_d_nonzero: "0 \<notin> set (fmt_d i)"
  using dec_digits_ok [of "nat (- i)"] dec_digits_ok [of "nat i"] by (auto simp: fmt_d_def)

end
