(* ===== verification/Binary64.thy ===== *)
theory Binary64
  imports CJsonNumbers "HOL-Library.Log_Nat" Complex_Main
begin

text \<open>
  A model of \<^verbatim>\<open>double\<close> for instances: the rational numbers a binary64 value can have, every result rounded to the nearest, ties to even. It has no
  infinities, no NaN and one zero. It satisfies what the properties ask of the arithmetic on whole numbers.
\<close>

subsection \<open>Rounding\<close>

definition half_even :: "rat \<Rightarrow> int" where
  "half_even x =
     (let f = \<lfloor>x\<rfloor>; r = x - of_int f in
      if r < 1 / 2 then f else if 1 / 2 < r then f + 1 else if even f then f else f + 1)"

text \<open>The exponent of the largest power of two, and of ten, that is not above a positive number.\<close>

definition exponent2 :: "rat \<Rightarrow> int" where
  "exponent2 x = (if 1 \<le> x then int (floorlog 2 (nat \<lfloor>x\<rfloor>)) - 1 else - int (floorlog 2 (nat (\<lceil>1 / x\<rceil> - 1))))"

definition exponent10 :: "rat \<Rightarrow> int" where
  "exponent10 x =
     (if x = 0 then 0
      else if 1 \<le> x then int (length (dec_digits (nat \<lfloor>x\<rfloor>))) - 1 else - int (length (dec_digits (nat (\<lceil>1 / x\<rceil> - 1)))))"

definition rnd64 :: "rat \<Rightarrow> rat" where
  "rnd64 x =
     (if x = 0 then 0
      else let e = max (exponent2 \<bar>x\<bar> - 52) (- 1074) in of_int (half_even (x / 2 powi e)) * 2 powi e)"

subsection \<open>Formats\<close>

definition fmt_sign :: "rat \<Rightarrow> u8 list \<Rightarrow> u8 list" where
  "fmt_sign x s = (if x < 0 then 45 # s else s)"

definition zero_pad :: "nat \<Rightarrow> u8 list \<Rightarrow> u8 list" where
  "zero_pad k s = replicate (k - length s) 48 @ s"

definition fmt_0f :: "rat \<Rightarrow> u8 list" where
  "fmt_0f x = fmt_sign x (dec_digits (nat (half_even \<bar>x\<bar>)))"

definition fmt_f :: "rat \<Rightarrow> u8 list" where
  "fmt_f x =
     (let n = nat (half_even (\<bar>x\<bar> * 10 ^ 6)) in
      fmt_sign x (dec_digits (n div 10 ^ 6) @ 46 # zero_pad 6 (dec_digits (n mod 10 ^ 6))))"

definition fmt_e :: "rat \<Rightarrow> u8 list" where
  "fmt_e x =
     (let e = exponent10 \<bar>x\<bar>;
          n = nat (half_even (\<bar>x\<bar> / 10 powi e * 10 ^ 6));
          (n, e) = (if n = 10 ^ 7 then (10 ^ 6, e + 1) else (n, e))
      in fmt_sign x (dec_digits (n div 10 ^ 6) @ 46 # zero_pad 6 (dec_digits (n mod 10 ^ 6)) @
           101 # (if e < 0 then 45 else 43) # zero_pad 2 (dec_digits (nat \<bar>e\<bar>))))"

definition rat_double :: "rat double_ops" where
  "rat_double = \<lparr>d_int = (\<lambda>i. rnd64 (of_int i)), d_lit = (\<lambda>m e. rnd64 (of_int m * 10 powi e)), d_epsilon = 2 powi (- 52),
     d_add = (\<lambda>a b. rnd64 (a + b)), d_sub = (\<lambda>a b. rnd64 (a - b)), d_mul = (\<lambda>a b. rnd64 (a * b)),
     d_fabs = abs, d_floor = (\<lambda>x. of_int \<lfloor>x\<rfloor>), d_pow10 = (\<lambda>e. rnd64 (10 powi \<lfloor>e\<rfloor>)), d_le = (\<le>), d_less = (<),
     d_trunc = (\<lambda>x. let i = (if 0 \<le> x then \<lfloor>x\<rfloor> else \<lceil>x\<rceil>) in if - (2 ^ 31) \<le> i \<and> i < 2 ^ 31 then Some i else None),
     d_fmt_0f = fmt_0f, d_fmt_e = fmt_e, d_fmt_f = fmt_f\<rparr>"

subsection \<open>Whole numbers are kept\<close>

lemma half_even_int [simp]: "half_even (of_int i) = i"
  by (simp add: half_even_def)

lemma rnd64_whole: "x / 2 powi max (exponent2 \<bar>x\<bar> - 52) (- 1074) = of_int i \<Longrightarrow> rnd64 x = x"
proof -
  define e where "e = max (exponent2 \<bar>x\<bar> - 52) (- 1074)"
  assume "x / 2 powi max (exponent2 \<bar>x\<bar> - 52) (- 1074) = of_int i"
  then have i: "x / 2 powi e = of_int i" by (simp add: e_def)
  then have "x = of_int i * 2 powi e" by (simp add: field_simps)
  moreover have "rnd64 x = of_int (half_even (x / 2 powi e)) * 2 powi e" if "x \<noteq> 0" using that by (simp add: rnd64_def e_def Let_def)
  ultimately show ?thesis unfolding i by (cases "x = 0") (simp_all add: rnd64_def [of 0])
qed

lemma exponent2_int:
  assumes "0 < n"
  shows "exponent2 (of_int n) = int (floorlog 2 (nat n)) - 1" "2 ^ (floorlog 2 (nat n) - 1) \<le> n" "0 < floorlog 2 (nat n)"
proof -
  show "exponent2 (of_int n) = int (floorlog 2 (nat n)) - 1" using assms by (simp add: exponent2_def)
  have "2 ^ (floorlog 2 (nat n) - 1) \<le> nat n" using floorlog_bounds [of "nat n" 2] assms by simp
  then show "2 ^ (floorlog 2 (nat n) - 1) \<le> n" using assms by (simp add: le_nat_iff)
  show "0 < floorlog 2 (nat n)" using assms by (simp add: floorlog_def)
qed

lemma rnd64_int [simp]:
  assumes "\<bar>i\<bar> \<le> 2 ^ 53"
  shows "rnd64 (of_int i) = of_int i"
proof (cases "i = 0")
  case False
  define k where "k = floorlog 2 (nat \<bar>i\<bar>) - 1"
  have e: "exponent2 \<bar>of_int i\<bar> = int k" "2 ^ k \<le> \<bar>i\<bar>"
    using exponent2_int [of "\<bar>i\<bar>"] False unfolding k_def by (simp_all flip: of_int_abs)
  have "(2 :: int) ^ k \<le> 2 ^ 53" using e(2) assms by linarith
  then have k: "k \<le> 53" by (rule power_le_imp_le_exp [rotated]) simp
  show ?thesis
  proof (cases "k \<le> 52")
    case True
    then have "max (int k - 52) (- 1074) = - int (52 - k)" by simp
    then have "of_int i / 2 powi max (int k - 52) (- 1074) = (of_int (i * 2 ^ (52 - k)) :: rat)"
      by (simp only: power_int_minus power_int_of_nat divide_inverse) simp
    then show ?thesis using rnd64_whole [of "of_int i" "i * 2 ^ (52 - k)"] e(1) by simp
  next
    case False
    then have "k = 53" using k by simp
    then have "\<bar>i\<bar> = 2 ^ 53" using e(2) assms by simp
    then obtain s where s: "i = s * 2 ^ 53" "\<bar>s\<bar> = 1" by (cases "0 \<le> i") (auto simp: abs_if intro: that [of 1] that [of "- 1"])
    then have "of_int i / 2 powi max (int k - 52) (- 1074) = (of_int (s * 2 ^ 52) :: rat)" using \<open>k = 53\<close> by simp
    then show ?thesis using rnd64_whole [of "of_int i" "s * 2 ^ 52"] e(1) by simp
  qed
qed (simp add: rnd64_def)

lemma exact_rat_double: "exact_ints rat_double"
  unfolding exact_ints_def
proof (intro conjI allI impI)
  fix a b :: int
  assume "\<bar>a\<bar> \<le> 2 ^ 53 \<and> \<bar>b\<bar> \<le> 2 ^ 53"
  then have r: "rnd64 (of_int a) = of_int a" "rnd64 (of_int b) = of_int b" by simp_all
  show "d_add rat_double (d_int rat_double a) (d_int rat_double b) = d_int rat_double (a + b)" if "\<bar>a + b\<bar> \<le> 2 ^ 53"
    using r rnd64_int [OF that] by (simp add: rat_double_def)
  show "d_sub rat_double (d_int rat_double a) (d_int rat_double b) = d_int rat_double (a - b)" if "\<bar>a - b\<bar> \<le> 2 ^ 53"
    using r rnd64_int [OF that] by (simp add: rat_double_def)
  show "d_mul rat_double (d_int rat_double a) (d_int rat_double b) = d_int rat_double (a * b)"
    if "\<bar>a * b\<bar> \<le> 2 ^ 53 \<and> (a * b \<noteq> 0 \<or> 0 \<le> a \<and> 0 \<le> b)"
    using r rnd64_int [of "a * b"] that by (simp add: rat_double_def)
  show "d_le rat_double (d_int rat_double a) (d_int rat_double b) \<longleftrightarrow> a \<le> b"
    using r by (simp add: rat_double_def)
next
  fix i :: int
  assume "- (2 ^ 31) \<le> i \<and> i < 2 ^ 31"
  moreover from this have "\<bar>i\<bar> \<le> 2 ^ 53" by auto
  note rnd64_int [OF this]
  ultimately show "d_trunc rat_double (d_int rat_double i) = Some i" by (simp add: rat_double_def Let_def)
next
  show "d_le rat_double (d_fabs rat_double (d_int rat_double 0)) (d_epsilon rat_double)" by (simp add: rat_double_def rnd64_def)
  show "d_pow10 rat_double (d_int rat_double 0) = d_int rat_double 1"
    using rnd64_int [of 1] by (simp add: rat_double_def rnd64_def [of 0])
qed

text \<open>\<^verbatim>\<open>%f\<close> has six decimals: the exact 1/1024 is printed as 0.000977, and is not read back.\<close>

lemma fraction_text: "fmt_f (1 / 1024) = [48, 46, 48, 48, 48, 57, 55, 55]"
proof -
  have "\<lfloor>15625 / 16 :: rat\<rfloor> = 976" by (simp add: floor_eq_iff)
  then have "half_even (15625 / 16) = 977" by (simp add: half_even_def)
  moreover have "replicate 3 (48 :: u8) = [48, 48, 48]" by (simp add: numeral_3_eq_3)
  ultimately show ?thesis by (simp add: fmt_f_def fmt_sign_def zero_pad_def dec_digits.simps [of 0] dec_digits.simps [of 977] dec_digits.simps [of 97] dec_digits.simps [of 9])
qed

end
