(* ===== verification/CJsonRound.thy ===== *)
theory CJsonRound
  imports Binary64
begin

text \<open>
  Printing and parsing together: the text printed for a tree is parsed into a tree that is the same JSON value. Numbers are whole and in the range of
  \<^verbatim>\<open>int\<close>; others are printed with six decimals and not read back in general.
\<close>

declare dec_digits.simps [simp del]

subsection \<open>Whole texts\<close>

text \<open>Trees in memory can be read.\<close>

lemma trees_hold: "trees m p prev ts is ss \<Longrightarrow> \<exists>xs. dll (jitems m) p prev xs \<and> list_all2 (holds m) xs ts"
proof (induction m p prev ts "is" ss rule: trees.induct)
  case (2 m p prev t i d v nm ks ts "is" ss)
  then obtain c ik sk ir sr where c: "p \<noteq> NULL" "jitems m p = Some c" "jprev c = prev" "jtype c = t" "jvalueint c = i" "jvaluedouble c = d"
    "str_rep m (jvaluestring c) v" "str_rep m (jstring c) nm" "trees m (jchild c) NULL ks ik sk" "trees m (jnext c) p ts ir sr" by auto
  obtain xs ys where "dll (jitems m) (jchild c) NULL xs" "list_all2 (holds m) xs ks" "dll (jitems m) (jnext c) p ys" "list_all2 (holds m) ys ts"
    using 2(1) [OF c(9)] 2(2) [OF c(10)] by blast
  then show ?case using c by (intro exI [of _ "p # ys"]) auto
qed simp

lemma Parse_ok:
  assumes t: "readable D t" and m: "fresh m" "1 + pallocs t \<le> length (jplan m)" and f: "tsize t < f"
  shows "\<exists>root m' is ss. cJSON_Parse D f (Some (jtext D fmt 0 t @ 0 # rest)) m = Some (root, m') \<and>
    trees m' root NULL [canon D None t] (root # is) ss \<and> distinct (root # is @ ss) \<and>
    set (root # is @ ss) \<subseteq> set (take (1 + pallocs t) (jplan m)) \<and> touches m m' (set (root # is)) (set ss) (1 + pallocs t)"
proof -
  obtain a as where a: "jplan m = a # as" using m(2) by (cases "jplan m") auto
  have a0: "a \<noteq> NULL" "a \<notin> set as" using m(1) a by (auto simp: fresh_def)
  define m1 where "m1 = m\<lparr>jplan := as, jitems := (jitems m)(a \<mapsto> zero_item D), ep := None\<rparr>"
  have t1: "touches m m1 {a} {} 1" using a by (simp add: touches_def m1_def)
  have f1: "fresh m1" by (rule fresh_touches [OF m(1) t1]) (use a in auto)
  have x1: "jitems m1 a = Some (zero_item D)" "pallocs t \<le> length (jplan m1)" using m(2) a by (simp_all add: m1_def)
  have p: "parses D (parse_value D f) (jtext D fmt 0 t) (canon D None t) (pallocs t)" by (rule parse_value_parses [OF t f])
  obtain m' c' ik sk where v: "parse_value D f a (Some (jtext D fmt 0 t @ 0 # rest)) m1 = Some (Some (0 # rest), m')"
    "value_parsed m1 a (zero_item D) (canon D None t) (pallocs t) m' c' ik sk"
    by (rule parsesE [OF p a0(1) x1(1) zero_blank(1) f1 x1(2), of "0 # rest"]) (simp add: follows_def)
  have n: "node_parsed m1 a NULL (canon D None t) (pallocs t) m' c' ik sk"
    using v(2) by (simp add: value_parsed_def node_parsed_def str_rep_def)
  obtain ss where ch: "chain_parsed m1 a NULL [canon D None t] (pallocs t) m' ik ss" using chain_single [OF n a0(1)] by blast
  have plan: "jplan m1 = as" by (simp add: m1_def)
  have sub: "set (ik @ ss) \<subseteq> set (take (pallocs t) as)" "distinct (ik @ ss)" using ch unfolding chain_parsed_def plan by blast+
  then have "set (ik @ ss) \<subseteq> set as" using set_take_subset [of "pallocs t" as] by blast
  then have "distinct (a # ik @ ss)" "set (a # ik @ ss) \<subseteq> set (take (1 + pallocs t) (jplan m))" using sub a0(2) a by auto
  moreover have "touches m m' ({a} \<union> insert a (set ik)) ({} \<union> set ss) (1 + pallocs t)"
    by (rule touches_trans [OF t1]) (use ch in \<open>simp add: chain_parsed_def\<close>)
  moreover have "cJSON_Parse D f (Some (jtext D fmt 0 t @ 0 # rest)) m = Some (a, m')"
    using v(1) New_Item_ok [OF a a0(1), of D] a0(1) parses_skip [OF p]
    by (simp add: cJSON_Parse_def cJSON_ParseWithOpts_def skip_def m1_def)
  ultimately show ?thesis using ch by (auto simp: chain_parsed_def)
qed

lemma Print_ok:
  assumes "holds m p t" "printable D t" and "fresh m" "allocs t \<le> length (jplan m)" and "tsize t < f"
  shows "\<exists>q\<in>set (take (allocs t) (jplan m)). (if fmt then cJSON_Print D f p m else cJSON_PrintUnformatted D f p m) =
    Some (q, m\<lparr>jplan := drop (allocs t) (jplan m), jstrs := (jstrs m)(q \<mapsto> jtext D fmt 0 t @ [0])\<rparr>)"
  using print_value_prints [OF assms(1,2,5), of 0 fmt] assms(3,4)
  by (auto simp: prints_def cJSON_Print_def cJSON_PrintUnformatted_def)

subsection \<open>Printing\<close>

text \<open>
  Printing. For an item that holds a tree, \<^verbatim>\<open>cJSON_Print\<close> and \<^verbatim>\<open>cJSON_PrintUnformatted\<close> return a new block with the text of the tree and
  its terminator; every other block they allocate is freed again, and nothing else changes. The blocks
  they ask for are large enough: nothing is written outside.
\<close>

theorem print_writes_text:
  assumes "holds m p t" "printable D t" and "fresh m" "allocs t \<le> length (jplan m)" and "tsize t < f"
  shows "\<exists>q\<in>set (take (allocs t) (jplan m)). (if fmt then cJSON_Print D f p m else cJSON_PrintUnformatted D f p m) =
    Some (q, m\<lparr>jplan := drop (allocs t) (jplan m), jstrs := (jstrs m)(q \<mapsto> jtext D fmt 0 t @ [0])\<rparr>)"
  by (rule Print_ok [OF assms])

lemma json_fresh: "fresh demo_json"
  by (auto simp: fresh_def demo_json_def split: if_splits)

lemma demo_holds_tree: "holds demo_json 16 demo_tree"
  using trees_hold [OF demo_trees] by (auto simp: list_all2_Cons2)

lemma demo_tree_sizes: "allocs demo_tree = 4" "pallocs demo_tree = 3" "tsize demo_tree = 3"
  by (simp_all add: demo_tree_def)

lemma demo_printable: "printable int_ops demo_tree"
  by (simp add: demo_tree_def num_text_def int_ops_def fmt_d_def dec_digits.simps [of 7])

text \<open>\<^verbatim>\<open>["A", 7]\<close> and \<^verbatim>\<open>["A",7]\<close>.\<close>

lemma demo_text: "jtext int_ops True 0 demo_tree = [91, 34, 65, 34, 44, 32, 55, 93]" "jtext int_ops False 0 demo_tree = [91, 34, 65, 34, 44, 55, 93]"
  by (simp_all add: demo_tree_def num_text_def int_ops_def fmt_d_def dec_digits.simps [of 7] str_text_def escape_token_def)

theorem print_writes_text_witness:
  "\<exists>q. cJSON_Print int_ops 4 16 demo_json = Some (q, demo_json\<lparr>jplan := [160, 176, 192, 208],
     jstrs := (jstrs demo_json)(q \<mapsto> [91, 34, 65, 34, 44, 32, 55, 93, 0])\<rparr>)"
proof -
  have "drop 4 (jplan demo_json) = [160, 176, 192, 208]" by (simp add: demo_json_def)
  then show ?thesis
    using print_writes_text [OF demo_holds_tree demo_printable json_fresh, of 4 True] by (auto simp: demo_tree_sizes demo_text demo_json_def)
qed

subsection \<open>JSON values\<close>

text \<open>What a tree says, without the fields its type does not use.\<close>

datatype 'd json = JNull | JBool bool | JNumber int 'd | JString "u8 list" | JArray "'d json list" | JObject "(u8 list \<times> 'd json) list"

fun json_of :: "'d jtree \<Rightarrow> 'd json" where
  "json_of (JTree t i d v nm ks) =
     (if t = cJSON_False then JBool False
      else if t = cJSON_True then JBool True
      else if t = cJSON_NULL then JNull
      else if t = cJSON_Number then JNumber i d
      else if t = cJSON_String then JString (the v)
      else if t = cJSON_Array then JArray (map json_of ks)
      else JObject (map (\<lambda>k. (the (tname k), json_of k)) ks))"

text \<open>A tree that is one: known types, strings where they belong, whole numbers that the \<^verbatim>\<open>int\<close> and the \<^verbatim>\<open>double\<close> agree on.\<close>

fun json_tree :: "'d double_ops \<Rightarrow> 'd jtree \<Rightarrow> bool" where
  "json_tree D (JTree t i d v nm ks) \<longleftrightarrow> t \<le> cJSON_Object \<and> length ks < 2 ^ 31 \<and>
     (t = cJSON_Number \<longrightarrow> - (2 ^ 31) \<le> i \<and> i < 2 ^ 31 \<and> d = d_int D i) \<and>
     (t = cJSON_String \<longrightarrow> (\<exists>s. v = Some s \<and> 0 \<notin> set s)) \<and>
     (t = cJSON_Object \<longrightarrow> (\<forall>k\<in>set ks. \<exists>s. tname k = Some s \<and> 0 \<notin> set s)) \<and> (\<forall>k\<in>set ks. json_tree D k)"

lemma json_tree_prints: "exact_ints D \<Longrightarrow> json_tree D t \<Longrightarrow> printable D t \<and> readable D t"
proof (induction t)
  case (JTree t i d v nm ks)
  have n: "length (num_text D i d) < 64 \<and> 0 \<notin> set (num_text D i d) \<and> number_back D i d" if "t = cJSON_Number"
  proof -
    have i: "- (2 ^ 31) \<le> i" "i < 2 ^ 31" "d = d_int D i" using JTree.prems(2) that by simp_all
    then show ?thesis using int_number_back [OF JTree.prems(1) i(1,2)] int_text [OF JTree.prems(1) i(1,2)] fmt_d_length [OF i(1,2)] fmt_d_nonzero [of i] by simp
  qed
  show ?case using JTree.IH JTree.prems n by auto
qed

lemma json_of_canon: "json_tree D t \<Longrightarrow> json_of (canon D nm t) = json_of t"
proof (induction t arbitrary: nm)
  case (JTree t i d v n ks)
  then have "json_of (canon D nm' k) = json_of k" if "k \<in> set ks" for k nm' using that by simp
  moreover have "t = 0 \<or> t = 1 \<or> t = 2 \<or> t = 3 \<or> t = 4 \<or> t = 5 \<or> t = 6" using JTree.prems type_cases by simp
  ultimately show ?case by (elim disjE) simp_all
qed

subsection \<open>The round trip\<close>

lemma canon_roundtrip:
  assumes "holds m p t" "printable D t" "readable D t" and "fresh m" "allocs t + (1 + pallocs t) \<le> length (jplan m)" and "tsize t < f"
  shows "\<exists>q m1 text root m2 is ss. (if fmt then cJSON_Print D f p m else cJSON_PrintUnformatted D f p m) = Some (q, m1) \<and>
    jstrs m1 q = Some (text @ [0]) \<and> cJSON_Parse D f (Some (text @ [0])) m1 = Some (root, m2) \<and>
    trees m2 root NULL [canon D None t] (root # is) ss \<and>
    (\<forall>x\<in>dom (jitems m). jitems m2 x = jitems m x) \<and> (\<forall>s\<in>dom (jstrs m). jstrs m2 s = jstrs m s)"
proof -
  let ?T = "jtext D fmt 0 t"
  obtain q where q: "q \<in> set (take (allocs t) (jplan m))" "(if fmt then cJSON_Print D f p m else cJSON_PrintUnformatted D f p m) =
      Some (q, m\<lparr>jplan := drop (allocs t) (jplan m), jstrs := (jstrs m)(q \<mapsto> ?T @ [0])\<rparr>)"
    using Print_ok [OF assms(1,2,4) _ assms(6), of fmt] assms(5) by auto
  let ?m1 = "m\<lparr>jplan := drop (allocs t) (jplan m), jstrs := (jstrs m)(q \<mapsto> ?T @ [0])\<rparr>"
  have t1: "touches m ?m1 {} {q} (allocs t)" by (simp add: touches_def)
  have f1: "fresh ?m1" by (rule fresh_touches [OF assms(4) t1]) (use q(1) in auto)
  have l: "1 + pallocs t \<le> length (jplan ?m1)" using assms(5) by simp
  obtain root m2 "is" ss where r: "cJSON_Parse D f (Some (?T @ 0 # [])) ?m1 = Some (root, m2)" "trees m2 root NULL [canon D None t] (root # is) ss"
    "set (root # is @ ss) \<subseteq> set (take (1 + pallocs t) (jplan ?m1))" "touches ?m1 m2 (set (root # is)) (set ss) (1 + pallocs t)"
    using Parse_ok [OF assms(3) f1 l assms(6), of fmt "[]"] by blast
  have new: "set (root # is @ ss) \<subseteq> set (jplan m)" "q \<in> set (jplan m)"
    using r(3) q(1) set_take_subset [of "1 + pallocs t" "jplan ?m1"] set_drop_subset [of "allocs t" "jplan m"] set_take_subset [of "allocs t" "jplan m"]
    by fastforce+
  have "jitems m2 x = jitems m x" if "x \<in> dom (jitems m)" for x
  proof -
    have "x \<notin> set (root # is)" using assms(4) new(1) that by (auto simp: fresh_def)
    then show ?thesis using r(4) by (simp add: touches_def)
  qed
  moreover have "jstrs m2 s = jstrs m s" if "s \<in> dom (jstrs m)" for s
  proof -
    have "s \<notin> insert q (set ss)" using assms(4) new that by (auto simp: fresh_def)
    then show ?thesis using r(4) by (simp add: touches_def)
  qed
  moreover have "jstrs ?m1 q = Some (?T @ [0])" by simp
  ultimately show ?thesis using q(2) r(1,2) by blast
qed


text \<open>\<^verbatim>\<open>{"a":-2147483648}\<close> on numbers rounded as those of \<^verbatim>\<open>double\<close>.\<close>

definition demo_doubles :: "rat jmem" where
  "demo_doubles = \<lparr>jitems = [16 \<mapsto> (zero_item rat_double)\<lparr>jtype := cJSON_Object, jchild := 32\<rparr>,
      32 \<mapsto> (zero_item rat_double)\<lparr>jtype := cJSON_Number, jvalueint := - (2 ^ 31), jvaluedouble := d_int rat_double (- (2 ^ 31)), jstring := 80\<rparr>],
    jstrs = [80 \<mapsto> [97, 0]], jptrs = Map.empty, jplan = [96, 112, 128, 144, 160, 176, 192, 208], ep = None\<rparr>"


end
