(* ===== verification/MsgQueue.thy ===== *)
theory MsgQueue
  imports Prelude
begin

text \<open>
  The message queue of \<^verbatim>\<open>Common/Compement/src/MQ/msg_def.cpp\<close>: a ring of messages with one semaphore that
  guards the producers and one that counts messages for the consumer.
\<close>

subsection \<open>Data\<close>

record msg_hdr =
  msg_type :: u32
  msg_produce :: u32
  msg_len :: u32
  msg_src :: u32
  msg_dst :: u32

record msg =
  hdr :: msg_hdr
  data :: "u8 list"

text \<open>A semaphore is its value.\<close>

record msg_queue =
  head :: u32
  rear :: u32
  msg_enqueue_sem :: nat
  msg_dequeue_sem :: nat
  q_data :: "msg list"

definition QUEUE_SIZE :: u32 where
  "QUEUE_SIZE = 1000"

text \<open>A call returns, waits at a semaphore, or does something undefined.\<close>

datatype 'a outcome = Undefined | Blocked | Done 'a

subsection \<open>Operations\<close>

text \<open>The two flags say whether the calls of \<^verbatim>\<open>sem_init\<close> or \<^verbatim>\<open>sem_destroy\<close> work.\<close>

definition MsgQueueInit :: "bool \<Rightarrow> bool \<Rightarrow> msg_queue option \<Rightarrow> int \<times> msg_queue option" where
  "MsgQueueInit enq_ok deq_ok pq =
     (case pq of None \<Rightarrow> (-1, None)
      | Some q \<Rightarrow>
          let q = q\<lparr>rear := 0, head := 0\<rparr> in
          if \<not> enq_ok then (-1, Some q)
          else
            let q = q\<lparr>msg_enqueue_sem := 1\<rparr> in
            if \<not> deq_ok then (-1, Some q) else (0, Some (q\<lparr>msg_dequeue_sem := 1\<rparr>)))"

definition MsgQueueDestory :: "bool \<Rightarrow> bool \<Rightarrow> msg_queue option \<Rightarrow> int \<times> msg_queue option" where
  "MsgQueueDestory enq_ok deq_ok pq =
     (case pq of None \<Rightarrow> (-1, None)
      | Some q \<Rightarrow> if enq_ok \<and> deq_ok then (0, Some (q\<lparr>rear := 0, head := 0\<rparr>)) else (-1, Some q))"

definition queue_full :: "msg_queue \<Rightarrow> bool" where
  "queue_full q \<longleftrightarrow> head q = (rear q + 1) mod QUEUE_SIZE"

definition queue_empty :: "msg_queue \<Rightarrow> bool" where
  "queue_empty q \<longleftrightarrow> rear q = head q"

definition put_msg :: "msg \<Rightarrow> msg_queue \<Rightarrow> msg_queue option" where
  "put_msg m q =
     (if unat (rear q) < length (q_data q)
      then Some (q\<lparr>q_data := (q_data q)[unat (rear q) := m], rear := (rear q + 1) mod QUEUE_SIZE\<rparr>) else None)"

definition get_msg :: "msg_queue \<Rightarrow> (msg \<times> msg_queue) option" where
  "get_msg q =
     (if unat (head q) < length (q_data q)
      then Some (q_data q ! unat (head q), q\<lparr>head := (head q + 1) mod QUEUE_SIZE\<rparr>) else None)"

definition MsgEnQueue :: "msg_queue option \<Rightarrow> msg \<Rightarrow> (int \<times> msg_queue option) outcome" where
  "MsgEnQueue pq m =
     (case pq of None \<Rightarrow> Done (-1, None)
      | Some q \<Rightarrow>
          if queue_full q then Done (-1, Some q)
          else if msg_enqueue_sem q = 0 then Blocked
          else (case put_msg m (q\<lparr>msg_enqueue_sem := msg_enqueue_sem q - 1\<rparr>) of
              None \<Rightarrow> Undefined
            | Some q \<Rightarrow> Done (0, Some (q\<lparr>msg_enqueue_sem := msg_enqueue_sem q + 1, msg_dequeue_sem := msg_dequeue_sem q + 1\<rparr>))))"

text \<open>The message is written to the second argument.\<close>

definition MsgDeQueue :: "msg_queue option \<Rightarrow> msg \<Rightarrow> (int \<times> msg \<times> msg_queue option) outcome" where
  "MsgDeQueue pq m =
     (case pq of None \<Rightarrow> Done (-1, m, None)
      | Some q \<Rightarrow>
          if msg_dequeue_sem q = 0 then Blocked
          else
            let q = q\<lparr>msg_dequeue_sem := msg_dequeue_sem q - 1\<rparr> in
            if queue_empty q then Done (-1, m, Some q)
            else (case get_msg q of None \<Rightarrow> Undefined | Some (m, q) \<Rightarrow> Done (0, m, Some q)))"

subsection \<open>The messages that wait\<close>

definition queue_ok :: "msg_queue \<Rightarrow> bool" where
  "queue_ok q \<longleftrightarrow> length (q_data q) = 1000 \<and> unat (head q) < 1000 \<and> unat (rear q) < 1000"

text \<open>Places of a ring of \<open>n\<close> slots from \<open>h\<close> up to \<open>r\<close>.\<close>

definition ring_count :: "nat \<Rightarrow> nat \<Rightarrow> nat \<Rightarrow> nat" where
  "ring_count n h r = (if h \<le> r then r - h else r + n - h)"

definition ring_slots :: "nat \<Rightarrow> nat \<Rightarrow> nat \<Rightarrow> 'a list \<Rightarrow> 'a list" where
  "ring_slots n h r xs = map (\<lambda>i. xs ! ((h + i) mod n)) [0..<ring_count n h r]"

definition waiting :: "msg_queue \<Rightarrow> msg list" where
  "waiting q = ring_slots 1000 (unat (head q)) (unat (rear q)) (q_data q)"

lemma ring_count_end: "h < n \<Longrightarrow> r < n \<Longrightarrow> (h + ring_count n h r) mod n = r"
  by (simp add: ring_count_def)

lemma ring_count_less: "h < n \<Longrightarrow> r < n \<Longrightarrow> ring_count n h r < n"
  by (auto simp: ring_count_def)

lemma mod_Suc_cases: "r < n \<Longrightarrow> Suc r mod n = (if Suc r = n then 0 else Suc r)"
  by (simp add: mod_Suc)

lemma ring_wrap: "h < n \<Longrightarrow> i < n \<Longrightarrow> (h + i) mod n = (if h + i < n then h + i else h + i - n)" for n :: nat
  by (simp add: le_mod_geq)

lemma ring_inj: "h < n \<Longrightarrow> i < n \<Longrightarrow> j < n \<Longrightarrow> (h + i) mod n = (h + j) mod n \<Longrightarrow> i = (j :: nat)"
  by (auto simp: ring_wrap split: if_splits)

lemma ring_slots_empty: "h < n \<Longrightarrow> r < n \<Longrightarrow> ring_slots n h r xs = [] \<longleftrightarrow> r = h"
  by (auto simp: ring_slots_def ring_count_def split: if_splits)

lemma ring_slots_full: "h < n \<Longrightarrow> r < n \<Longrightarrow> length (ring_slots n h r xs) = n - 1 \<longleftrightarrow> h = (r + 1) mod n"
  by (auto simp: ring_slots_def ring_count_def mod_Suc_cases)

lemma ring_put:
  assumes "h < n" "r < n" "h \<noteq> (r + 1) mod n" "length xs = n"
  shows "ring_slots n h ((r + 1) mod n) (xs[r := x]) = ring_slots n h r xs @ [x]"
proof -
  let ?c = "ring_count n h r"
  have c: "?c < n" "(h + ?c) mod n = r" using assms by (simp_all add: ring_count_less ring_count_end)
  have "ring_count n h ((r + 1) mod n) = Suc ?c"
    using assms(1-3) by (auto simp: ring_count_def mod_Suc_cases)
  moreover have "xs[r := x] ! ((h + i) mod n) = xs ! ((h + i) mod n)" if "i < ?c" for i
    using ring_inj [of h n i ?c] that c assms(1) by (intro nth_list_update_neq) auto
  ultimately show ?thesis using c assms by (simp add: ring_slots_def)
qed

lemma ring_get:
  assumes "h < n" "r < n" "r \<noteq> h"
  shows "ring_slots n h r xs = xs ! h # ring_slots n ((h + 1) mod n) r xs"
proof -
  have "ring_count n h r = Suc (ring_count n ((h + 1) mod n) r)"
    using assms by (auto simp: ring_count_def mod_Suc_cases)
  then show ?thesis using assms(1) by (simp add: ring_slots_def map_upt_Suc mod_add_left_eq add.assoc del: upt_Suc)
qed

lemma unat_step: "unat r < 1000 \<Longrightarrow> unat ((r + 1) mod QUEUE_SIZE) = (unat r + 1) mod 1000"
proof -
  assume "unat r < 1000"
  then have "unat (r + 1) = unat r + 1" by (simp add: unat_word_ariths)
  then show ?thesis by (simp add: QUEUE_SIZE_def unat_mod_distrib)
qed

lemma full_iff: "queue_ok q \<Longrightarrow> queue_full q \<longleftrightarrow> unat (head q) = (unat (rear q) + 1) mod 1000"
  unfolding queue_full_def queue_ok_def unat_step [symmetric] by (auto simp: word_unat_eq_iff unat_step)

lemma empty_iff: "queue_ok q \<Longrightarrow> queue_empty q \<longleftrightarrow> waiting q = []"
  by (simp add: queue_empty_def waiting_def queue_ok_def ring_slots_empty word_unat_eq_iff)

lemma full_length: "queue_ok q \<Longrightarrow> queue_full q \<longleftrightarrow> length (waiting q) = 999"
  using full_iff [of q] ring_slots_full [of "unat (head q)" 1000 "unat (rear q)" "q_data q"] by (simp add: waiting_def queue_ok_def)

lemma waiting_bound: "queue_ok q \<Longrightarrow> length (waiting q) \<le> 999"
  using ring_count_less [of "unat (head q)" 1000 "unat (rear q)"] by (simp add: waiting_def ring_slots_def queue_ok_def)

lemma put_msg_ok:
  assumes "queue_ok q"
  shows "\<exists>q'. put_msg m q = Some q' \<and> queue_ok q' \<and> head q' = head q \<and>
    waiting q' = (if queue_full q then [] else waiting q @ [m]) \<and>
    msg_enqueue_sem q' = msg_enqueue_sem q \<and> msg_dequeue_sem q' = msg_dequeue_sem q"
  using assms ring_put [of "unat (head q)" 1000 "unat (rear q)" "q_data q" m] full_iff [OF assms]
    ring_slots_empty [of "unat (head q)" 1000 "unat (head q)" "(q_data q)[unat (rear q) := m]"]
  by (auto simp: put_msg_def queue_ok_def waiting_def unat_step)

lemma get_msg_ok:
  assumes "queue_ok q" "waiting q \<noteq> []"
  shows "\<exists>q'. get_msg q = Some (List.hd (waiting q), q') \<and> queue_ok q' \<and> waiting q' = tl (waiting q) \<and>
    msg_enqueue_sem q' = msg_enqueue_sem q \<and> msg_dequeue_sem q' = msg_dequeue_sem q"
  using assms ring_get [of "unat (head q)" 1000 "unat (rear q)" "q_data q"]
    ring_slots_empty [of "unat (head q)" 1000 "unat (rear q)" "q_data q"]
  by (auto simp: get_msg_def queue_ok_def waiting_def unat_step)

lemma queue_simps [simp]:
  "queue_ok (q\<lparr>msg_enqueue_sem := n\<rparr>) = queue_ok q" "queue_ok (q\<lparr>msg_dequeue_sem := n\<rparr>) = queue_ok q"
  "waiting (q\<lparr>msg_enqueue_sem := n\<rparr>) = waiting q" "waiting (q\<lparr>msg_dequeue_sem := n\<rparr>) = waiting q"
  "queue_full (q\<lparr>msg_enqueue_sem := n\<rparr>) = queue_full q" "queue_full (q\<lparr>msg_dequeue_sem := n\<rparr>) = queue_full q"
  "queue_empty (q\<lparr>msg_enqueue_sem := n\<rparr>) = queue_empty q" "queue_empty (q\<lparr>msg_dequeue_sem := n\<rparr>) = queue_empty q"
  by (simp_all add: queue_ok_def waiting_def queue_full_def queue_empty_def)

end
