(* ===== verification/MsgThreads.thy ===== *)
theory MsgThreads
  imports MsgQueue
begin

text \<open>
  Threads at the message queue: producers inside \<^verbatim>\<open>MsgEnQueue\<close> and the one consumer inside \<^verbatim>\<open>MsgDeQueue\<close>, interleaved
  between the statements that touch the queue. What was written and what was read is recorded.
\<close>

subsection \<open>Steps\<close>

text \<open>
  Where a producer is: outside; past the test for a full queue (line 149); past \<^verbatim>\<open>sem_wait\<close>; past the two stores;
  past the first \<^verbatim>\<open>sem_post\<close>.
\<close>

datatype producer = Idle | Checked msg | Locked msg | Written | Unlocked

datatype consumer = Asleep | Awake

record system =
  queue :: msg_queue
  producers :: "nat \<Rightarrow> producer"
  consumer :: consumer
  written :: "msg list"
  received :: "msg list"
  misses :: nat

abbreviation set_producer :: "nat \<Rightarrow> producer \<Rightarrow> system \<Rightarrow> system" where
  "set_producer i p s \<equiv> s\<lparr>producers := (producers s)(i := p)\<rparr>"

inductive queue_step :: "nat set \<Rightarrow> system \<Rightarrow> system \<Rightarrow> bool" for P where
  refuse: "i \<in> P \<Longrightarrow> producers s i = Idle \<Longrightarrow> queue_full (queue s) \<Longrightarrow> queue_step P s s"
| check: "i \<in> P \<Longrightarrow> producers s i = Idle \<Longrightarrow> \<not> queue_full (queue s) \<Longrightarrow> queue_step P s (set_producer i (Checked m) s)"
| lock: "producers s i = Checked m \<Longrightarrow> msg_enqueue_sem (queue s) = Suc n \<Longrightarrow>
    queue_step P s (set_producer i (Locked m) (s\<lparr>queue := (queue s)\<lparr>msg_enqueue_sem := n\<rparr>\<rparr>))"
| store: "producers s i = Locked m \<Longrightarrow> put_msg m (queue s) = Some q \<Longrightarrow>
    queue_step P s (set_producer i Written (s\<lparr>queue := q, written := written s @ [m]\<rparr>))"
| unlock: "producers s i = Written \<Longrightarrow>
    queue_step P s (set_producer i Unlocked (s\<lparr>queue := (queue s)\<lparr>msg_enqueue_sem := msg_enqueue_sem (queue s) + 1\<rparr>\<rparr>))"
| post: "producers s i = Unlocked \<Longrightarrow>
    queue_step P s (set_producer i Idle (s\<lparr>queue := (queue s)\<lparr>msg_dequeue_sem := msg_dequeue_sem (queue s) + 1\<rparr>\<rparr>))"
| wake: "consumer s = Asleep \<Longrightarrow> msg_dequeue_sem (queue s) = Suc n \<Longrightarrow>
    queue_step P s (s\<lparr>consumer := Awake, queue := (queue s)\<lparr>msg_dequeue_sem := n\<rparr>\<rparr>)"
| miss: "consumer s = Awake \<Longrightarrow> queue_empty (queue s) \<Longrightarrow>
    queue_step P s (s\<lparr>consumer := Asleep, misses := misses s + 1\<rparr>)"
| receive: "consumer s = Awake \<Longrightarrow> \<not> queue_empty (queue s) \<Longrightarrow> get_msg (queue s) = Some (m, q) \<Longrightarrow>
    queue_step P s (s\<lparr>consumer := Asleep, queue := q, received := received s @ [m]\<rparr>)"

inductive reachable :: "nat set \<Rightarrow> system \<Rightarrow> system \<Rightarrow> bool" for P where
  start: "reachable P s s"
| step: "reachable P s t \<Longrightarrow> queue_step P t u \<Longrightarrow> reachable P s u"

inductive_cases queue_stepE: "queue_step P s t"

text \<open>All threads outside, after \<^verbatim>\<open>MsgQueueInit\<close>.\<close>

definition started :: "system \<Rightarrow> bool" where
  "started s \<longleftrightarrow> (\<exists>q0. length (q_data q0) = 1000 \<and> MsgQueueInit True True (Some q0) = (0, Some (queue s))) \<and>
     producers s = (\<lambda>_. Idle) \<and> consumer s = Asleep \<and> written s = [] \<and> received s = [] \<and> misses s = 0"

lemma started_queue:
  assumes "started s"
  shows "queue_ok (queue s)" "waiting (queue s) = []" "msg_enqueue_sem (queue s) = 1" "msg_dequeue_sem (queue s) = 1"
proof -
  obtain q0 where q0: "length (q_data q0) = 1000"
    "queue s = q0\<lparr>rear := 0, head := 0, msg_enqueue_sem := 1, msg_dequeue_sem := 1\<rparr>"
    using assms by (auto simp: started_def MsgQueueInit_def)
  show "queue_ok (queue s)" using q0(1) unfolding q0(2) by (simp add: queue_ok_def)
  show "waiting (queue s) = []" unfolding q0(2) by (simp add: waiting_def ring_slots_def ring_count_def)
  show "msg_enqueue_sem (queue s) = 1" "msg_dequeue_sem (queue s) = 1" unfolding q0(2) by simp_all
qed

subsection \<open>Mutual exclusion\<close>

definition holds_lock :: "producer \<Rightarrow> bool" where
  "holds_lock p \<longleftrightarrow> (case p of Locked m \<Rightarrow> True | Written \<Rightarrow> True | _ \<Rightarrow> False)"

lemma holds_lock_simps [simp]:
  "\<not> holds_lock Idle" "\<not> holds_lock (Checked m)" "holds_lock (Locked m)" "holds_lock Written" "\<not> holds_lock Unlocked"
  by (simp_all add: holds_lock_def)

definition holders :: "system \<Rightarrow> nat set" where
  "holders s = {i. holds_lock (producers s i)}"

lemma holders_simps [simp]:
  "holders (s\<lparr>producers := (producers r)(i := p)\<rparr>) = (if holds_lock p then insert i (holders r) else holders r - {i})"
  "holders (s\<lparr>queue := q\<rparr>) = holders s" "holders (s\<lparr>consumer := c\<rparr>) = holders s"
  "holders (s\<lparr>written := w\<rparr>) = holders s" "holders (s\<lparr>received := w\<rparr>) = holders s" "holders (s\<lparr>misses := n\<rparr>) = holders s"
  by (auto simp: holders_def)

text \<open>Either the semaphore is 1 and nobody is inside, or it is 0 and exactly one producer is; producers not in \<open>P\<close> do nothing.\<close>

definition locking :: "nat set \<Rightarrow> system \<Rightarrow> bool" where
  "locking P s \<longleftrightarrow> (\<forall>i. i \<notin> P \<longrightarrow> producers s i = Idle) \<and>
     (msg_enqueue_sem (queue s) = 1 \<and> holders s = {} \<or> msg_enqueue_sem (queue s) = 0 \<and> (\<exists>i. holders s = {i})) \<and>
     queue_ok (queue s)"

lemma lockingI:
  assumes "\<And>i. i \<notin> P \<Longrightarrow> producers s i = Idle" "queue_ok (queue s)"
    "msg_enqueue_sem (queue s) = 1 \<and> holders s = {} \<or> msg_enqueue_sem (queue s) = 0 \<and> holders s = {j}"
  shows "locking P s"
  using assms by (auto simp: locking_def)

lemma holder: "holds_lock (producers s i) \<longleftrightarrow> i \<in> holders s"
  by (simp add: holders_def)

lemma locking_step:
  assumes inv: "locking P s" and st: "queue_step P s t"
  shows "locking P t"
proof -
  have P: "\<And>i. i \<notin> P \<Longrightarrow> producers s i = Idle" and ok: "queue_ok (queue s)" using inv by (auto simp: locking_def)
  from st show ?thesis
  proof cases
    case (check i m)
    then have "i \<notin> holders s" using holder [of s i] by simp
    then show ?thesis using check inv by (auto simp: locking_def)
  next
    case (lock i m n)
    then show ?thesis using P ok inv by (intro lockingI [of _ _ i]) (auto simp: locking_def)
  next
    case (store i m q)
    have "msg_enqueue_sem (queue s) = 0 \<and> holders s = {i}" using store(2) holder [of s i] inv by (auto simp: locking_def)
    then show ?thesis using store P put_msg_ok [OF ok, of m] by (intro lockingI [of _ _ i]) auto
  next
    case (unlock i)
    have "msg_enqueue_sem (queue s) = 0 \<and> holders s = {i}" using unlock(2) holder [of s i] inv by (auto simp: locking_def)
    then show ?thesis using unlock P ok by (intro lockingI [of _ _ i]) auto
  next
    case (post i)
    then have "i \<notin> holders s" using holder [of s i] by simp
    then show ?thesis using post inv by (auto simp: locking_def)
  next
    case (receive m q)
    then show ?thesis using inv get_msg_ok [OF ok] empty_iff [OF ok] by (auto simp: locking_def)
  qed (use inv in \<open>auto simp: locking_def\<close>)
qed

lemma locking_started: "started s \<Longrightarrow> locking P s"
  using started_queue [of s] by (auto simp: locking_def started_def holders_def)

lemma locking_reachable: "reachable P s t \<Longrightarrow> started s \<Longrightarrow> locking P t"
  by (induction rule: reachable.induct) (auto intro: locking_started locking_step)

subsection \<open>One producer\<close>

text \<open>The messages a producer has written but not announced.\<close>

definition unannounced :: "producer \<Rightarrow> nat" where
  "unannounced p = (case p of Written \<Rightarrow> 1 | Unlocked \<Rightarrow> 1 | _ \<Rightarrow> 0)"

lemma unannounced_simps [simp]:
  "unannounced Idle = 0" "unannounced (Checked m) = 0" "unannounced (Locked m) = 0" "unannounced Written = 1" "unannounced Unlocked = 1"
  by (simp_all add: unannounced_def)

definition past_check :: "producer \<Rightarrow> bool" where
  "past_check p \<longleftrightarrow> (\<exists>m. p = Checked m \<or> p = Locked m)"

text \<open>
  With one producer the queue cannot fill up between its test and its stores, nothing is lost or reordered, and the
  wake-ups of the consumer, one of them from the start, are accounted for.
\<close>

definition single :: "nat \<Rightarrow> system \<Rightarrow> bool" where
  "single p s \<longleftrightarrow> locking {p} s \<and> (past_check (producers s p) \<longrightarrow> \<not> queue_full (queue s)) \<and>
     written s = received s @ waiting (queue s) \<and> misses s \<le> 1 \<and>
     msg_dequeue_sem (queue s) + (if consumer s = Awake then 1 else 0) + unannounced (producers s p) + misses s =
       length (waiting (queue s)) + 1"

lemma single_started: "started s \<Longrightarrow> single p s"
  using started_queue [of s] locking_started [of s] by (auto simp: single_def past_check_def started_def)

lemma single_step:
  assumes inv: "single p s" and st: "queue_step {p} s t"
  shows "single p t"
proof -
  have lt: "locking {p} t" by (rule locking_step [OF _ st]) (use inv in \<open>simp add: single_def\<close>)
  have ok: "queue_ok (queue s)" and P: "producers s i \<noteq> Idle \<Longrightarrow> i = p" for i using inv by (auto simp: single_def locking_def)
  from st show ?thesis
  proof cases
    case (store i m q)
    then have "i = p" "\<not> queue_full (queue s)" using P [of i] inv by (auto simp: single_def past_check_def)
    then show ?thesis using store lt inv put_msg_ok [OF ok, of m] by (auto simp: single_def past_check_def)
  next
    case (receive m q)
    then have w: "waiting (queue s) = m # waiting q" "queue_ok q" "msg_dequeue_sem q = msg_dequeue_sem (queue s)"
      using get_msg_ok [OF ok] empty_iff [OF ok] by (cases "waiting (queue s)"; auto)+
    then have "\<not> queue_full q" using full_length [OF w(2)] waiting_bound [OF ok] by simp
    then show ?thesis using receive lt inv w by (auto simp: single_def)
  next
    case miss
    then show ?thesis using lt inv empty_iff [OF ok] by (auto simp: single_def)
  next
    case (lock i m n)
    then show ?thesis using lt inv P [of i] by (auto simp: single_def past_check_def)
  next
    case (unlock i)
    then show ?thesis using lt inv P [of i] by (auto simp: single_def past_check_def)
  next
    case (post i)
    then show ?thesis using lt inv P [of i] by (auto simp: single_def past_check_def)
  next
    case (check i m)
    then show ?thesis using lt inv by (auto simp: single_def past_check_def)
  next
    case (wake n)
    then show ?thesis using lt inv by (auto simp: single_def)
  qed (use inv in simp)
qed

lemma single_reachable: "reachable {p} s t \<Longrightarrow> started s \<Longrightarrow> single p t"
  by (induction rule: reachable.induct) (auto intro: single_started single_step)

subsection \<open>Two producers\<close>

lemma reachable_trans: "reachable P t u \<Longrightarrow> reachable P s t \<Longrightarrow> reachable P s u"
  by (induction rule: reachable.induct) (auto intro: reachable.step)

lemma reachable_one: "queue_step P s t \<Longrightarrow> reachable P s t"
  by (blast intro: reachable.intros)

definition calm :: "system \<Rightarrow> bool" where
  "calm s \<longleftrightarrow> queue_ok (queue s) \<and> msg_enqueue_sem (queue s) = 1 \<and> received s = []"

text \<open>A producer that has passed the test goes through, whether the queue is full by then or not.\<close>

lemma finish_send:
  assumes c: "calm s" and p: "producers s i = Checked m"
  shows "\<exists>t. reachable P s t \<and> calm t \<and> producers t = (producers s)(i := Idle) \<and> written t = written s @ [m] \<and>
    waiting (queue t) = (if queue_full (queue s) then [] else waiting (queue s) @ [m])"
proof -
  have ok: "queue_ok (queue s)" using c by (simp add: calm_def)
  let ?q1 = "(queue s)\<lparr>msg_enqueue_sem := 0\<rparr>"
  obtain q2 where q2: "put_msg m ?q1 = Some q2" "queue_ok q2" "msg_enqueue_sem q2 = 0"
    "waiting q2 = (if queue_full (queue s) then [] else waiting (queue s) @ [m])"
    using put_msg_ok [of ?q1 m] ok by auto
  let ?s1 = "set_producer i (Locked m) (s\<lparr>queue := ?q1\<rparr>)"
  let ?s2 = "set_producer i Written (?s1\<lparr>queue := q2, written := written ?s1 @ [m]\<rparr>)"
  let ?s3 = "set_producer i Unlocked (?s2\<lparr>queue := (queue ?s2)\<lparr>msg_enqueue_sem := msg_enqueue_sem (queue ?s2) + 1\<rparr>\<rparr>)"
  let ?s4 = "set_producer i Idle (?s3\<lparr>queue := (queue ?s3)\<lparr>msg_dequeue_sem := msg_dequeue_sem (queue ?s3) + 1\<rparr>\<rparr>)"
  have 1: "queue_step P s ?s1" using c p by (intro queue_step.lock) (simp_all add: calm_def)
  have 2: "queue_step P ?s1 ?s2" using q2(1) by (intro queue_step.store) simp_all
  have 3: "queue_step P ?s2 ?s3" by (intro queue_step.unlock) simp
  have 4: "queue_step P ?s3 ?s4" by (intro queue_step.post) simp
  have "reachable P s ?s4" by (rule reachable.step [OF reachable.step [OF reachable.step [OF reachable_one [OF 1] 2] 3] 4])
  moreover have "calm ?s4" using c q2 by (simp add: calm_def)
  ultimately show ?thesis using q2 by (intro exI [of _ ?s4]) simp
qed

lemma send_one:
  assumes c: "calm s" and p: "i \<in> P" "producers s i = Idle" "\<not> queue_full (queue s)"
  shows "\<exists>t. reachable P s t \<and> calm t \<and> producers t = producers s \<and> written t = written s @ [m] \<and>
    waiting (queue t) = waiting (queue s) @ [m]"
proof -
  let ?s1 = "set_producer i (Checked m) s"
  have 1: "reachable P s ?s1" using p by (intro reachable_one queue_step.check)
  obtain t where "reachable P ?s1 t" "calm t" "producers t = (producers ?s1)(i := Idle)" "written t = written s @ [m]"
    "waiting (queue t) = waiting (queue s) @ [m]"
    using finish_send [of ?s1 i m P] c p(3) by (auto simp: calm_def)
  moreover have "(producers ?s1)(i := Idle) = producers s" using p(2) by auto
  ultimately show ?thesis using reachable_trans [OF _ 1] by (intro exI [of _ t]) simp
qed

lemma send_many:
  "calm s \<Longrightarrow> i \<in> P \<Longrightarrow> producers s i = Idle \<Longrightarrow> length (waiting (queue s)) + length ms \<le> 999 \<Longrightarrow>
   \<exists>t. reachable P s t \<and> calm t \<and> producers t = producers s \<and> written t = written s @ ms \<and> waiting (queue t) = waiting (queue s) @ ms"
proof (induction ms arbitrary: s)
  case Nil
  then show ?case by (auto intro: reachable.start)
next
  case (Cons m ms)
  then have "\<not> queue_full (queue s)" using full_length [of "queue s"] by (simp add: calm_def)
  then obtain t where t: "reachable P s t" "calm t" "producers t = producers s" "written t = written s @ [m]"
    "waiting (queue t) = waiting (queue s) @ [m]" using send_one [OF Cons.prems(1-3)] by blast
  obtain u where "reachable P t u" "calm u" "producers u = producers t" "written u = written t @ ms"
    "waiting (queue u) = waiting (queue t) @ ms" using Cons.IH [OF t(2)] Cons.prems t by auto
  then show ?case using t reachable_trans [OF _ t(1)] by (intro exI [of _ u]) simp
qed

text \<open>Both pass the test on the last free place; the second to write makes the full queue look empty.\<close>

lemma two_fill_queue:
  assumes st: "started s" and ms: "length ms = 998"
  shows "\<exists>t. reachable {0, 1} s t \<and> written t = ms @ [x, y] \<and> received t = [] \<and> waiting (queue t) = [] \<and> producers t = (\<lambda>_. Idle)"
proof -
  have "calm s" "producers s = (\<lambda>_. Idle)" "waiting (queue s) = []" "written s = []"
    using started_queue [OF st] st by (auto simp: calm_def started_def)
  then obtain t where t: "reachable {0, 1} s t" "calm t" "producers t = (\<lambda>_. Idle)" "written t = ms" "waiting (queue t) = ms"
    using send_many [of s 0 "{0, 1}" ms] ms by auto
  have nf: "\<not> queue_full (queue t)" using t(2,5) ms full_length [of "queue t"] by (simp add: calm_def)
  let ?t1 = "set_producer 0 (Checked x) t"
  let ?t2 = "set_producer 1 (Checked y) ?t1"
  have 1: "queue_step {0, 1} t ?t1" using nf t(3) by (intro queue_step.check) simp_all
  have 2: "queue_step {0, 1} ?t1 ?t2" using nf t(3) by (intro queue_step.check) simp_all
  have t2: "reachable {0, 1} s ?t2" by (rule reachable.step [OF reachable.step [OF t(1) 1] 2])
  obtain u where u: "reachable {0, 1} ?t2 u" "calm u" "producers u = (producers ?t2)(0 := Idle)" "written u = ms @ [x]"
    "waiting (queue u) = ms @ [x]"
    using finish_send [of ?t2 0 x "{0, 1}"] t(2,4,5) nf by (auto simp: calm_def)
  have full: "queue_full (queue u)" using u(2,5) ms full_length [of "queue u"] by (simp add: calm_def)
  obtain v where v: "reachable {0, 1} u v" "calm v" "producers v = (producers u)(1 := Idle)" "written v = ms @ [x, y]"
    "waiting (queue v) = []"
    using finish_send [of u 1 y "{0, 1}"] u full by auto
  have "producers v = (\<lambda>_. Idle)" unfolding v(3) u(3) using t(3) by (auto simp: fun_eq_iff)
  then show ?thesis using v reachable_trans [OF v(1) reachable_trans [OF u(1) t2]] by (intro exI [of _ v]) (simp add: calm_def)
qed

end
