(* ===== verification/ThreadAttr.thy ===== *)
theory ThreadAttr
  imports Prelude
begin

text \<open>
  \<^verbatim>\<open>Common/Compement/src/Thread/thread_attr.cpp\<close>: attributes of threads. The calls of the pthread library are a
  parameter; an attribute object is alive from \<^verbatim>\<open>pthread_attr_init\<close> to \<^verbatim>\<open>pthread_attr_destroy\<close>, and using it
  outside is undefined.
\<close>

text \<open>
  Results of the calls, 0 for success: \<open>p_init\<close> with the attributes it sets up; the get calls with the value
  they read.
\<close>

record 'a pthread_ops =
  p_init :: "int \<times> 'a"
  p_destroy :: "'a \<Rightarrow> int"
  p_setpolicy :: "int \<Rightarrow> 'a \<Rightarrow> int \<times> 'a"
  p_getpolicy :: "'a \<Rightarrow> int \<times> int"
  p_setparam :: "int \<Rightarrow> 'a \<Rightarrow> int \<times> 'a"
  p_getparam :: "'a \<Rightarrow> int \<times> int"
  p_max :: "int \<Rightarrow> int"
  p_min :: "int \<Rightarrow> int"

datatype 'a thread_attr = Dead | Alive 'a

definition destoryThreadAttr :: "'a pthread_ops \<Rightarrow> 'a thread_attr option \<Rightarrow> (bool \<times> 'a thread_attr option) option" where
  "destoryThreadAttr P p =
     (case p of None \<Rightarrow> Some (False, None)
      | Some Dead \<Rightarrow> None
      | Some (Alive a) \<Rightarrow> if p_destroy P a = 0 then Some (True, Some Dead) else Some (False, Some (Alive a)))"

text \<open>A failure behind the tests for null: the attributes are destroyed and the result is \<^verbatim>\<open>false\<close>.\<close>

definition fail_attr :: "'a pthread_ops \<Rightarrow> 'a \<Rightarrow> (bool \<times> 'a thread_attr option) option" where
  "fail_attr P a = do { (_, p) \<leftarrow> destoryThreadAttr P (Some (Alive a)); Some (False, p) }"

definition setThreadPriority ::
    "'a pthread_ops \<Rightarrow> 'a thread_attr option \<Rightarrow> int \<Rightarrow> int option \<Rightarrow> (bool \<times> 'a thread_attr option) option" where
  "setThreadPriority P p policy param =
     (case p of None \<Rightarrow> Some (False, None)
      | Some Dead \<Rightarrow> None
      | Some (Alive a) \<Rightarrow>
          (case param of None \<Rightarrow> fail_attr P a
           | Some prio \<Rightarrow>
               if prio > p_max P policy \<or> prio < p_min P policy then fail_attr P a
               else
                 let (r, a) = p_setpolicy P policy a in
                 if r \<noteq> 0 then fail_attr P a
                 else
                   let (r, v) = p_getpolicy P a in
                   if \<not> (r = 0 \<and> v = policy) then fail_attr P a
                   else
                     let (r, a) = p_setparam P prio a in
                     if r \<noteq> 0 then fail_attr P a
                     else
                       let (r, v) = p_getparam P a in
                       if \<not> (r = 0 \<and> v = prio) then fail_attr P a else Some (True, Some (Alive a))))"

definition initThreadAttr ::
    "'a pthread_ops \<Rightarrow> 'a thread_attr option \<Rightarrow> int \<Rightarrow> int \<Rightarrow> (bool \<times> 'a thread_attr option) option" where
  "initThreadAttr P p policy prio =
     (case p of None \<Rightarrow> Some (False, None)
      | Some _ \<Rightarrow>
          let (r, a) = p_init P in
          if r \<noteq> 0 then Some (False, p)
          else do {
            (b, p) \<leftarrow> setThreadPriority P (Some (Alive a)) policy (Some prio);
            Some (b, p)
          })"

text \<open>It either leaves attributes with the policy and the priority, or destroyed ones unless destroying fails too.\<close>

lemma fail_attr_cases: "fail_attr P a = Some (False, Some (if p_destroy P a = 0 then Dead else Alive a))"
  by (simp add: fail_attr_def destoryThreadAttr_def)

lemma setThreadPriority_cases:
  "\<exists>b a'. setThreadPriority P (Some (Alive a)) policy (Some prio) = Some (b, Some a') \<and>
     (if b then \<exists>v. a' = Alive v \<and> p_getparam P v = (0, prio) \<and> p_min P policy \<le> prio \<and> prio \<le> p_max P policy
      else a' = Dead \<or> (\<exists>v. a' = Alive v \<and> p_destroy P v \<noteq> 0))"
proof (cases "prio > p_max P policy \<or> prio < p_min P policy")
  case True
  then show ?thesis by (intro exI [of _ False]) (simp add: setThreadPriority_def fail_attr_cases)
next
  case range: False
  obtain r1 a1 where 1: "p_setpolicy P policy a = (r1, a1)" by (cases "p_setpolicy P policy a")
  obtain r2 v2 where 2: "p_getpolicy P a1 = (r2, v2)" by (cases "p_getpolicy P a1")
  obtain r3 a3 where 3: "p_setparam P prio a1 = (r3, a3)" by (cases "p_setparam P prio a1")
  obtain r4 v4 where 4: "p_getparam P a3 = (r4, v4)" by (cases "p_getparam P a3")
  consider "r1 \<noteq> 0" | "r1 = 0" "\<not> (r2 = 0 \<and> v2 = policy)" | "r1 = 0" "r2 = 0 \<and> v2 = policy" "r3 \<noteq> 0"
    | "r1 = 0" "r2 = 0 \<and> v2 = policy" "r3 = 0" "\<not> (r4 = 0 \<and> v4 = prio)"
    | "r1 = 0" "r2 = 0 \<and> v2 = policy" "r3 = 0" "r4 = 0 \<and> v4 = prio" by blast
  then show ?thesis using range by cases (auto simp: setThreadPriority_def fail_attr_cases 1 2 3 4)
qed

end
