(* ===== verification/StateMachine.thy ===== *)
theory StateMachine
  imports MsgThreads ThreadAttr Paths
begin

text \<open>
  The call state machine of \<^verbatim>\<open>Common/Compement/src/StateMachine/state_machine.cpp\<close>: its table, the step a
  message makes, the thread that takes messages from the queue, and starting and stopping both threads.
  What an action or a callback does is recorded as events. Log lines are left out.
\<close>

subsection \<open>States, conditions and actions\<close>

datatype CALL_STATUS =
    CALL_STATUS_IDLE
  | ALEXA_CALL_STATUS_SEND_START
  | ALEXA_CALL_STATUS_RECV_START
  | ALEXA_CALL_STATUS_RECV_ACCEPT
  | ALEXA_CALL_STATUS_SEND_CONNECTED
  | ALEXA_CALL_STATUS_RECV_CONNECTED
  | ALEXA_CALL_STATUS_SEND_CONNETED2STOP
  | ALEXA_CALL_STATUS_RECV_CONNETCED2STOP
  | ALEXA_CALL_STATUS_SEND_START2STOP
  | ALEXA_CALL_STATUS_RECV_START2STOP
  | ALEXA_CALL_STATUS_RECV_ACCEPT2STOP
  | PSTN_CALL_STATUS_SEND_START
  | PSTN_CALL_STATUS_RECV_START
  | PSTN_CALL_STATUS_RECV_ACCEPT
  | PSTN_CALL_STATUS_SEND_CONNECTED
  | CALL_STATUS_UNKNOW

primrec status_num :: "CALL_STATUS \<Rightarrow> int" where
  "status_num CALL_STATUS_IDLE = 0"
| "status_num ALEXA_CALL_STATUS_SEND_START = 1"
| "status_num ALEXA_CALL_STATUS_RECV_START = 2"
| "status_num ALEXA_CALL_STATUS_RECV_ACCEPT = 3"
| "status_num ALEXA_CALL_STATUS_SEND_CONNECTED = 4"
| "status_num ALEXA_CALL_STATUS_RECV_CONNECTED = 5"
| "status_num ALEXA_CALL_STATUS_SEND_CONNETED2STOP = 6"
| "status_num ALEXA_CALL_STATUS_RECV_CONNETCED2STOP = 7"
| "status_num ALEXA_CALL_STATUS_SEND_START2STOP = 8"
| "status_num ALEXA_CALL_STATUS_RECV_START2STOP = 9"
| "status_num ALEXA_CALL_STATUS_RECV_ACCEPT2STOP = 10"
| "status_num PSTN_CALL_STATUS_SEND_START = 11"
| "status_num PSTN_CALL_STATUS_RECV_START = 12"
| "status_num PSTN_CALL_STATUS_RECV_ACCEPT = 13"
| "status_num PSTN_CALL_STATUS_SEND_CONNECTED = 14"
| "status_num CALL_STATUS_UNKNOW = 15"

datatype CONDITION =
    CALL_STATUS_CONDITION_CALL_STATUS_CONNECTING
  | CALL_STATUS_CONDITION_CALL_STATUS_INBOUND_RINGING
  | CALL_STATUS_CONDITION_CALL_STATUS_CONNECTED
  | CALL_STATUS_CONDITION_CALL_STATUS_DISCONNECTED
  | CALL_STATUS_CONDITION_TC_ANSER
  | CALL_STATUS_CONDITION_TC_DISCONNECT
  | CALL_STATUS_CONDITION_PSTN_CALL_ON_HANGUP
  | CALL_STATUS_CONDITION_PSTN_CALL_ON_ACCPETE
  | CALL_STATUS_CONDITION_PSTN_CALL_ON_NATIVECALL_CONTATC
  | CALL_STATUS_CONDITION_TC_INCOMING_RING

primrec condition_num :: "CONDITION \<Rightarrow> u32" where
  "condition_num CALL_STATUS_CONDITION_CALL_STATUS_CONNECTING = 0"
| "condition_num CALL_STATUS_CONDITION_CALL_STATUS_INBOUND_RINGING = 1"
| "condition_num CALL_STATUS_CONDITION_CALL_STATUS_CONNECTED = 2"
| "condition_num CALL_STATUS_CONDITION_CALL_STATUS_DISCONNECTED = 3"
| "condition_num CALL_STATUS_CONDITION_TC_ANSER = 4"
| "condition_num CALL_STATUS_CONDITION_TC_DISCONNECT = 5"
| "condition_num CALL_STATUS_CONDITION_PSTN_CALL_ON_HANGUP = 6"
| "condition_num CALL_STATUS_CONDITION_PSTN_CALL_ON_ACCPETE = 7"
| "condition_num CALL_STATUS_CONDITION_PSTN_CALL_ON_NATIVECALL_CONTATC = 8"
| "condition_num CALL_STATUS_CONDITION_TC_INCOMING_RING = 9"

datatype action =
    actionTrap | action1 | action2 | action3 | action4 | action5 | action6 | action7 | action8
  | action9 | action10 | action11 | action12 | action13 | action14 | action15 | action16

text \<open>
  As it stands, \<^verbatim>\<open>state_machine.h\<close> defines \<^verbatim>\<open>MIMULATED_CONDITION_SWITCH\<close>, and the actions only print. The model records which
  action is called, in the events below, and nothing of the hardware code that is not compiled.
\<close>

subsection \<open>The table\<close>

record trasition =
  next_state :: CALL_STATUS
  action :: action

definition t1 :: trasition where
  "t1 = \<lparr>next_state = ALEXA_CALL_STATUS_SEND_START, action = action1\<rparr>"

definition t2 :: trasition where
  "t2 = \<lparr>next_state = ALEXA_CALL_STATUS_SEND_CONNECTED, action = action4\<rparr>"

definition t3 :: trasition where
  "t3 = \<lparr>next_state = ALEXA_CALL_STATUS_SEND_CONNETED2STOP, action = action8\<rparr>"

definition t4 :: trasition where
  "t4 = \<lparr>next_state = CALL_STATUS_IDLE, action = action7\<rparr>"

definition t5 :: trasition where
  "t5 = \<lparr>next_state = ALEXA_CALL_STATUS_SEND_START2STOP, action = action8\<rparr>"

definition t6 :: trasition where
  "t6 = \<lparr>next_state = CALL_STATUS_IDLE, action = action6\<rparr>"

definition t7 :: trasition where
  "t7 = \<lparr>next_state = ALEXA_CALL_STATUS_RECV_START, action = action2\<rparr>"

definition t8 :: trasition where
  "t8 = \<lparr>next_state = ALEXA_CALL_STATUS_RECV_ACCEPT, action = action3\<rparr>"

definition t9 :: trasition where
  "t9 = \<lparr>next_state = ALEXA_CALL_STATUS_RECV_CONNECTED, action = action5\<rparr>"

definition t10 :: trasition where
  "t10 = \<lparr>next_state = ALEXA_CALL_STATUS_RECV_CONNETCED2STOP, action = action8\<rparr>"

definition t11 :: trasition where
  "t11 = \<lparr>next_state = CALL_STATUS_IDLE, action = action11\<rparr>"

definition t12 :: trasition where
  "t12 = \<lparr>next_state = ALEXA_CALL_STATUS_RECV_ACCEPT2STOP, action = action8\<rparr>"

definition t13 :: trasition where
  "t13 = \<lparr>next_state = CALL_STATUS_IDLE, action = action10\<rparr>"

definition t14 :: trasition where
  "t14 = \<lparr>next_state = ALEXA_CALL_STATUS_RECV_START2STOP, action = action8\<rparr>"

definition t15 :: trasition where
  "t15 = \<lparr>next_state = CALL_STATUS_IDLE, action = action9\<rparr>"

definition t16 :: trasition where
  "t16 = \<lparr>next_state = PSTN_CALL_STATUS_SEND_START, action = action12\<rparr>"

definition t17 :: trasition where
  "t17 = \<lparr>next_state = CALL_STATUS_IDLE, action = action16\<rparr>"

definition t18 :: trasition where
  "t18 = \<lparr>next_state = CALL_STATUS_IDLE, action = action15\<rparr>"

definition t19 :: trasition where
  "t19 = \<lparr>next_state = PSTN_CALL_STATUS_SEND_CONNECTED, action = action13\<rparr>"

definition t20 :: trasition where
  "t20 = \<lparr>next_state = CALL_STATUS_IDLE, action = action15\<rparr>"

definition t21 :: trasition where
  "t21 = \<lparr>next_state = CALL_STATUS_IDLE, action = action16\<rparr>"

definition t22 :: trasition where
  "t22 = \<lparr>next_state = PSTN_CALL_STATUS_RECV_START, action = action13\<rparr>"

definition t23 :: trasition where
  "t23 = \<lparr>next_state = CALL_STATUS_IDLE, action = action15\<rparr>"

definition t24 :: trasition where
  "t24 = \<lparr>next_state = CALL_STATUS_IDLE, action = action13\<rparr>"

definition t25 :: trasition where
  "t25 = \<lparr>next_state = PSTN_CALL_STATUS_RECV_ACCEPT, action = action14\<rparr>"

definition t26 :: trasition where
  "t26 = \<lparr>next_state = CALL_STATUS_IDLE, action = action13\<rparr>"

definition t27 :: trasition where
  "t27 = \<lparr>next_state = CALL_STATUS_IDLE, action = action15\<rparr>"

definition tt :: trasition where
  "tt = \<lparr>next_state = CALL_STATUS_UNKNOW, action = actionTrap\<rparr>"

definition transition_table :: "trasition list list" where
  "transition_table =
    [[t1, t7, tt, tt, tt, tt, tt, tt, t16, t22],
     [tt, tt, t2, t6, tt, t5, tt, tt, tt, tt],
     [tt, tt, tt, t15, t8, t14, tt, tt, tt, tt],
     [tt, tt, t9, t13, tt, t12, tt, tt, tt, tt],
     [tt, tt, tt, t4, tt, t3, tt, tt, tt, tt],
     [tt, tt, tt, t11, tt, t10, tt, tt, tt, tt],
     [tt, tt, tt, t4, tt, tt, tt, tt, tt, tt],
     [tt, tt, tt, t11, tt, tt, tt, tt, tt, tt],
     [tt, tt, tt, t6, tt, tt, tt, tt, tt, tt],
     [tt, tt, tt, t15, tt, tt, tt, tt, tt, tt],
     [tt, tt, tt, t13, tt, tt, tt, tt, tt, tt],
     [tt, tt, tt, tt, tt, t18, t17, t19, tt, tt],
     [tt, tt, tt, tt, t25, t23, t24, tt, tt, tt],
     [tt, tt, tt, tt, tt, t27, t26, tt, tt, tt],
     [tt, tt, tt, tt, tt, t20, t21, tt, tt, tt],
     [tt, tt, tt, tt, tt, tt, tt, tt, tt, tt]]"

text \<open>An element of the table; outside of its bounds undefined.\<close>

definition table_at :: "int \<Rightarrow> int \<Rightarrow> trasition option" where
  "table_at s c = (if 0 \<le> s \<and> s < 16 \<and> 0 \<le> c \<and> c < 10 then Some (transition_table ! nat s ! nat c) else None)"

text \<open>The transitions as the comments beside \<open>t1\<close> to \<open>t27\<close> list them.\<close>

inductive call_step :: "CALL_STATUS \<Rightarrow> CONDITION \<Rightarrow> CALL_STATUS \<Rightarrow> action \<Rightarrow> bool" where
  "call_step CALL_STATUS_IDLE CALL_STATUS_CONDITION_CALL_STATUS_CONNECTING ALEXA_CALL_STATUS_SEND_START action1"
| "call_step ALEXA_CALL_STATUS_SEND_START CALL_STATUS_CONDITION_CALL_STATUS_CONNECTED ALEXA_CALL_STATUS_SEND_CONNECTED action4"
| "call_step ALEXA_CALL_STATUS_SEND_CONNECTED CALL_STATUS_CONDITION_TC_DISCONNECT ALEXA_CALL_STATUS_SEND_CONNETED2STOP action8"
| "call_step ALEXA_CALL_STATUS_SEND_CONNECTED CALL_STATUS_CONDITION_CALL_STATUS_DISCONNECTED CALL_STATUS_IDLE action7"
| "call_step ALEXA_CALL_STATUS_SEND_CONNETED2STOP CALL_STATUS_CONDITION_CALL_STATUS_DISCONNECTED CALL_STATUS_IDLE action7"
| "call_step ALEXA_CALL_STATUS_SEND_START CALL_STATUS_CONDITION_TC_DISCONNECT ALEXA_CALL_STATUS_SEND_START2STOP action8"
| "call_step ALEXA_CALL_STATUS_SEND_START CALL_STATUS_CONDITION_CALL_STATUS_DISCONNECTED CALL_STATUS_IDLE action6"
| "call_step ALEXA_CALL_STATUS_SEND_START2STOP CALL_STATUS_CONDITION_CALL_STATUS_DISCONNECTED CALL_STATUS_IDLE action6"
| "call_step CALL_STATUS_IDLE CALL_STATUS_CONDITION_CALL_STATUS_INBOUND_RINGING ALEXA_CALL_STATUS_RECV_START action2"
| "call_step ALEXA_CALL_STATUS_RECV_START CALL_STATUS_CONDITION_TC_ANSER ALEXA_CALL_STATUS_RECV_ACCEPT action3"
| "call_step ALEXA_CALL_STATUS_RECV_ACCEPT CALL_STATUS_CONDITION_CALL_STATUS_CONNECTED ALEXA_CALL_STATUS_RECV_CONNECTED action5"
| "call_step ALEXA_CALL_STATUS_RECV_CONNECTED CALL_STATUS_CONDITION_TC_DISCONNECT ALEXA_CALL_STATUS_RECV_CONNETCED2STOP action8"
| "call_step ALEXA_CALL_STATUS_RECV_CONNECTED CALL_STATUS_CONDITION_CALL_STATUS_DISCONNECTED CALL_STATUS_IDLE action11"
| "call_step ALEXA_CALL_STATUS_RECV_CONNETCED2STOP CALL_STATUS_CONDITION_CALL_STATUS_DISCONNECTED CALL_STATUS_IDLE action11"
| "call_step ALEXA_CALL_STATUS_RECV_ACCEPT CALL_STATUS_CONDITION_TC_DISCONNECT ALEXA_CALL_STATUS_RECV_ACCEPT2STOP action8"
| "call_step ALEXA_CALL_STATUS_RECV_ACCEPT CALL_STATUS_CONDITION_CALL_STATUS_DISCONNECTED CALL_STATUS_IDLE action10"
| "call_step ALEXA_CALL_STATUS_RECV_ACCEPT2STOP CALL_STATUS_CONDITION_CALL_STATUS_DISCONNECTED CALL_STATUS_IDLE action10"
| "call_step ALEXA_CALL_STATUS_RECV_START CALL_STATUS_CONDITION_TC_DISCONNECT ALEXA_CALL_STATUS_RECV_START2STOP action8"
| "call_step ALEXA_CALL_STATUS_RECV_START CALL_STATUS_CONDITION_CALL_STATUS_DISCONNECTED CALL_STATUS_IDLE action9"
| "call_step ALEXA_CALL_STATUS_RECV_START2STOP CALL_STATUS_CONDITION_CALL_STATUS_DISCONNECTED CALL_STATUS_IDLE action9"
| "call_step CALL_STATUS_IDLE CALL_STATUS_CONDITION_PSTN_CALL_ON_NATIVECALL_CONTATC PSTN_CALL_STATUS_SEND_START action12"
| "call_step PSTN_CALL_STATUS_SEND_START CALL_STATUS_CONDITION_PSTN_CALL_ON_HANGUP CALL_STATUS_IDLE action16"
| "call_step PSTN_CALL_STATUS_SEND_START CALL_STATUS_CONDITION_TC_DISCONNECT CALL_STATUS_IDLE action15"
| "call_step PSTN_CALL_STATUS_SEND_START CALL_STATUS_CONDITION_PSTN_CALL_ON_ACCPETE PSTN_CALL_STATUS_SEND_CONNECTED action13"
| "call_step PSTN_CALL_STATUS_SEND_CONNECTED CALL_STATUS_CONDITION_TC_DISCONNECT CALL_STATUS_IDLE action15"
| "call_step PSTN_CALL_STATUS_SEND_CONNECTED CALL_STATUS_CONDITION_PSTN_CALL_ON_HANGUP CALL_STATUS_IDLE action16"
| "call_step CALL_STATUS_IDLE CALL_STATUS_CONDITION_TC_INCOMING_RING PSTN_CALL_STATUS_RECV_START action13"
| "call_step PSTN_CALL_STATUS_RECV_START CALL_STATUS_CONDITION_TC_DISCONNECT CALL_STATUS_IDLE action15"
| "call_step PSTN_CALL_STATUS_RECV_START CALL_STATUS_CONDITION_PSTN_CALL_ON_HANGUP CALL_STATUS_IDLE action13"
| "call_step PSTN_CALL_STATUS_RECV_START CALL_STATUS_CONDITION_TC_ANSER PSTN_CALL_STATUS_RECV_ACCEPT action14"
| "call_step PSTN_CALL_STATUS_RECV_ACCEPT CALL_STATUS_CONDITION_PSTN_CALL_ON_HANGUP CALL_STATUS_IDLE action13"
| "call_step PSTN_CALL_STATUS_RECV_ACCEPT CALL_STATUS_CONDITION_TC_DISCONNECT CALL_STATUS_IDLE action15"

inductive_simps call_step_simps: "call_step s c s' a"

subsection \<open>One message\<close>

record 'a state_machine =
  current :: int
  msg_queue :: msg_queue
  m_bDispatchProcessRunning :: bool
  m_dispatchProcess_thread_attr :: "'a thread_attr"
  m_bTimeoutStateUpdateRunning :: bool
  m_timeoutStateUpdate_thread_attr :: "'a thread_attr"

text \<open>The static variables of \<^verbatim>\<open>executeConditionStateTransform\<close> and their first values.\<close>

record machine_vars =
  last_msg_produce :: u32
  last_msg_type :: u32
  continue_except_count :: int

definition first_vars :: machine_vars where
  "first_vars = \<lparr>last_msg_produce = 10, last_msg_type = 255, continue_except_count = 0\<rparr>"

text \<open>An action in a state; the update callback with a level and a state.\<close>

datatype event = Perform action int | Update int int

abbreviation (input) STATE_LEVEL_FIRST :: int where "STATE_LEVEL_FIRST \<equiv> 0"
abbreviation (input) STATE_LEVEL_TIMEOUT_UPDATE :: int where "STATE_LEVEL_TIMEOUT_UPDATE \<equiv> 3"

definition executeConditionStateTransform ::
    "int \<Rightarrow> 'a state_machine option \<Rightarrow> msg \<Rightarrow> machine_vars \<Rightarrow>
     (int \<times> 'a state_machine option \<times> machine_vars \<times> event list) option" where
  "executeConditionStateTransform level psm m v =
     (case psm of None \<Rightarrow> Some (status_num CALL_STATUS_UNKNOW, None, v, [])
      | Some sm \<Rightarrow>
          if level \<noteq> STATE_LEVEL_FIRST then Some (current sm, Some sm, v, [])
          else
            let condition = sint (msg_produce (hdr m));
                same = (last_msg_type v = msg_type (hdr m) \<and> last_msg_produce v = msg_produce (hdr m));
                v = v\<lparr>last_msg_type := msg_type (hdr m), last_msg_produce := msg_produce (hdr m)\<rparr> in
            if same then Some (current sm, Some sm, v, [])
            else do {
              t \<leftarrow> table_at (current sm) condition;
              if next_state t = CALL_STATUS_UNKNOW then
                let (sm, n) = (if continue_except_count v > status_num CALL_STATUS_UNKNOW
                    then (sm\<lparr>current := status_num CALL_STATUS_IDLE\<rparr>, 0) else (sm, continue_except_count v)) in do {
                  n \<leftarrow> int_inc n;
                  Some (current sm, Some sm, v\<lparr>continue_except_count := n\<rparr>, [])
                }
              else
                let s = status_num (next_state t) in
                Some (s, Some (sm\<lparr>current := s\<rparr>), v\<lparr>continue_except_count := 0\<rparr>,
                  [Perform (action t) (current sm), Update STATE_LEVEL_FIRST s])
            })"

subsection \<open>The threads\<close>

definition zero_msg :: msg where
  "zero_msg = \<lparr>hdr = \<lparr>msg_type = 0, msg_produce = 0, msg_len = 0, msg_src = 0, msg_dst = 0\<rparr>, data = replicate 1024 0\<rparr>"

text \<open>
  The result of \<^verbatim>\<open>MsgEnQueue\<close> is ignored, so a message is lost when the queue is full. The result type is \<^verbatim>\<open>State\<close> and there is no
  \<^verbatim>\<open>return\<close>: in C++ control that flows off the end of such a function is undefined behaviour, whether or not the caller looks at the
  result. So no call returns. The theorems about the threads let messages enter by \<^verbatim>\<open>MsgEnQueue\<close> itself.
\<close>

definition msgEnStateMachine :: "msg \<Rightarrow> 'a state_machine \<Rightarrow> 'a state_machine outcome" where
  "msgEnStateMachine m sm =
     (case MsgEnQueue (Some (msg_queue sm)) m of Undefined \<Rightarrow> Undefined | Blocked \<Rightarrow> Blocked | Done _ \<Rightarrow> Undefined)"

lemma msgEnStateMachine_never_returns: "msgEnStateMachine m sm \<noteq> Done sm'"
  by (simp add: msgEnStateMachine_def split: outcome.split)

text \<open>One turn of the loop of \<^verbatim>\<open>stateMahchineDispatchProcessLoop\<close>.\<close>

definition dispatch_turn :: "'a state_machine \<Rightarrow> machine_vars \<Rightarrow> ('a state_machine \<times> machine_vars \<times> event list) outcome" where
  "dispatch_turn sm v =
     (case MsgDeQueue (Some (msg_queue sm)) zero_msg of Undefined \<Rightarrow> Undefined | Blocked \<Rightarrow> Blocked
      | Done (_, _, None) \<Rightarrow> Undefined
      | Done (res, m, Some q) \<Rightarrow>
          let sm = sm\<lparr>msg_queue := q\<rparr> in
          if res \<noteq> 0 then Done (sm, v, [])
          else (case executeConditionStateTransform STATE_LEVEL_FIRST (Some sm) m v of
              Some (_, Some sm, v, es) \<Rightarrow> Done (sm, v, es)
            | _ \<Rightarrow> Undefined))"

text \<open>The loop, until it ends or sleeps; the first argument bounds the turns.\<close>

primrec stateMahchineDispatchProcessLoop ::
    "nat \<Rightarrow> 'a state_machine \<Rightarrow> machine_vars \<Rightarrow> ('a state_machine \<times> machine_vars \<times> event list) option" where
  "stateMahchineDispatchProcessLoop 0 sm v = None"
| "stateMahchineDispatchProcessLoop (Suc f) sm v =
     (if \<not> m_bDispatchProcessRunning sm then Some (sm, v, [])
      else (case dispatch_turn sm v of Undefined \<Rightarrow> None
        | Blocked \<Rightarrow> Some (sm, v, [])
        | Done (sm, v, es) \<Rightarrow> do {
            (sm, v, es') \<leftarrow> stateMahchineDispatchProcessLoop f sm v;
            Some (sm, v, es @ es')
          }))"

text \<open>One turn of the loop of \<^verbatim>\<open>stateMahchineTimeoutStateUpdateLoop\<close>, every ten seconds.\<close>

definition timeout_turn :: "'a state_machine \<Rightarrow> event list" where
  "timeout_turn sm = (if m_bTimeoutStateUpdateRunning sm then [Update STATE_LEVEL_TIMEOUT_UPDATE (current sm)] else [])"

subsection \<open>Starting and stopping\<close>

text \<open>
  Results of the system calls: whether the two \<^verbatim>\<open>sem_init\<close> or \<^verbatim>\<open>sem_destroy\<close> work, and what the two \<^verbatim>\<open>pthread_create\<close> return. The
  number of the policy \<^verbatim>\<open>SCHED_FIFO\<close> is a parameter.
\<close>

record start_env =
  enq_sem_ok :: bool
  deq_sem_ok :: bool
  create1 :: int
  create2 :: int
  sched_fifo :: int

definition start_thread :: "'a pthread_ops \<Rightarrow> int \<Rightarrow> int \<Rightarrow> 'a thread_attr \<Rightarrow> (bool \<times> 'a thread_attr) option" where
  "start_thread P policy r a = do {
     (_, a) \<leftarrow> initThreadAttr P (Some a) policy 98;
     a \<leftarrow> a;
     (case a of Dead \<Rightarrow> None | Alive _ \<Rightarrow> Some (r = 0, a))
   }"

text \<open>The \<^verbatim>\<open>return -1\<close> after a failed \<^verbatim>\<open>pthread_create\<close> is \<^verbatim>\<open>true\<close>. The flag: whether there is a callback.\<close>

definition initializeStateMachine ::
    "'a pthread_ops \<Rightarrow> start_env \<Rightarrow> 'a state_machine option \<Rightarrow> int \<Rightarrow> bool \<Rightarrow> (bool \<times> 'a state_machine option) option" where
  "initializeStateMachine P env psm s callback =
     (if \<not> callback then Some (False, psm)
      else (case psm of None \<Rightarrow> Some (False, None)
        | Some sm \<Rightarrow>
            let (ret, q) = MsgQueueInit (enq_sem_ok env) (deq_sem_ok env) (Some (msg_queue sm)) in do {
              q \<leftarrow> q;
              let sm = sm\<lparr>current := s, msg_queue := q\<rparr> in
              if ret \<noteq> 0 then Some (False, Some sm)
              else do {
                (ok, a) \<leftarrow> start_thread P (sched_fifo env) (create1 env) (m_dispatchProcess_thread_attr sm);
                let sm = sm\<lparr>m_dispatchProcess_thread_attr := a, m_bDispatchProcessRunning := ok\<rparr> in
                if \<not> ok then Some (True, Some sm)
                else do {
                  (ok, a) \<leftarrow> start_thread P (sched_fifo env) (create2 env) (m_timeoutStateUpdate_thread_attr sm);
                  Some (True, Some (sm\<lparr>m_timeoutStateUpdate_thread_attr := a, m_bTimeoutStateUpdateRunning := ok\<rparr>))
                }
              }
            }))"

text \<open>
  \<^verbatim>\<open>pthread_join\<close> of the dispatch thread, which sleeps in \<^verbatim>\<open>MsgDeQueue\<close>: it makes one more turn, finds its flag cleared, and ends,
  unless nothing wakes it.
\<close>

definition destoryStateMachine ::
    "'a pthread_ops \<Rightarrow> start_env \<Rightarrow> 'a state_machine option \<Rightarrow> machine_vars \<Rightarrow>
     (bool \<times> 'a state_machine option \<times> machine_vars \<times> event list) outcome" where
  "destoryStateMachine P env psm v =
     (case psm of None \<Rightarrow> Done (False, None, v, [])
      | Some sm \<Rightarrow>
          let sm = sm\<lparr>m_bDispatchProcessRunning := False, m_bTimeoutStateUpdateRunning := False\<rparr> in
          (case destoryThreadAttr P (Some (m_timeoutStateUpdate_thread_attr sm)) of
            Some (ok, Some a) \<Rightarrow>
              let sm = sm\<lparr>m_timeoutStateUpdate_thread_attr := a\<rparr> in
              if \<not> ok then Done (False, Some sm, v, [])
              else (case dispatch_turn sm v of Undefined \<Rightarrow> Undefined | Blocked \<Rightarrow> Blocked
                | Done (sm, v, es) \<Rightarrow>
                    (case destoryThreadAttr P (Some (m_dispatchProcess_thread_attr sm)) of
                      Some (ok, Some a) \<Rightarrow>
                        let sm = sm\<lparr>m_dispatchProcess_thread_attr := a\<rparr> in
                        if \<not> ok then Done (False, Some sm, v, es)
                        else
                          let (ret, q) = MsgQueueDestory (enq_sem_ok env) (deq_sem_ok env) (Some (msg_queue sm)) in
                          (case q of None \<Rightarrow> Undefined | Some q \<Rightarrow> Done (ret = 0, Some (sm\<lparr>msg_queue := q\<rparr>), v, es))
                    | _ \<Rightarrow> Undefined))
          | _ \<Rightarrow> Undefined))"

end
