(* ===== verification/CallSpec.thy ===== *)
theory CallSpec
  imports StateMachine
begin

text \<open>
  What the state machine does with a message, with a run of messages, and with those its queue holds.
\<close>

subsection \<open>The table is the one of the comments\<close>

lemma uint_condition_num: "sint (condition_num c) = uint (condition_num c)" "0 \<le> uint (condition_num c)" "uint (condition_num c) < 10"
  by (cases c; simp)+

lemmas table_defs = transition_table_def t1_def t2_def t3_def t4_def t5_def t6_def t7_def t8_def t9_def t10_def t11_def t12_def
  t13_def t14_def t15_def t16_def t17_def t18_def t19_def t20_def t21_def t22_def t23_def t24_def t25_def t26_def t27_def tt_def

definition table_entry :: "CALL_STATUS \<Rightarrow> CONDITION \<Rightarrow> trasition" where
  "table_entry s c = transition_table ! nat (status_num s) ! nat (uint (condition_num c))"

lemma status_num_range: "0 \<le> status_num s" "status_num s < 16"
  by (cases s; simp)+

lemma status_num_idle [simp]: "status_num s = 0 \<longleftrightarrow> s = CALL_STATUS_IDLE"
  by (cases s) simp_all

lemma status_num_inj [simp]: "status_num s = status_num s' \<longleftrightarrow> s = s'"
  by (cases s; cases s'; simp)

lemma table_at_entry: "table_at (status_num s) (sint (condition_num c)) = Some (table_entry s c)"
  using status_num_range [of s] uint_condition_num [of c] by (simp add: table_at_def table_entry_def)

lemma table_entry_step:
  "call_step s c s' a \<longleftrightarrow> next_state (table_entry s c) = s' \<and> action (table_entry s c) = a \<and> s' \<noteq> CALL_STATUS_UNKNOW"
  unfolding call_step_simps
  by (cases s; cases c; simp add: table_entry_def table_defs) auto


lemma call_step_unique: "call_step s c s1 a1 \<Longrightarrow> call_step s c s2 a2 \<Longrightarrow> s1 = s2 \<and> a1 = a2"
  by (simp add: table_entry_step)

lemma no_entry: "(\<nexists>s' a. call_step s c s' a) \<longleftrightarrow> next_state (table_entry s c) = CALL_STATUS_UNKNOW"
  by (auto simp: table_entry_step)

subsection \<open>One message\<close>

text \<open>A machine in a call state that can be entered, with its counter of rejected messages in range.\<close>

definition machine_ok :: "'a state_machine \<Rightarrow> machine_vars \<Rightarrow> CALL_STATUS \<Rightarrow> bool" where
  "machine_ok sm v s \<longleftrightarrow> current sm = status_num s \<and> s \<noteq> CALL_STATUS_UNKNOW \<and>
     0 \<le> continue_except_count v \<and> continue_except_count v \<le> 16"

definition noted :: "msg \<Rightarrow> machine_vars \<Rightarrow> machine_vars" where
  "noted m v = v\<lparr>last_msg_type := msg_type (hdr m), last_msg_produce := msg_produce (hdr m)\<rparr>"

definition same_msg :: "msg \<Rightarrow> machine_vars \<Rightarrow> bool" where
  "same_msg m v \<longleftrightarrow> last_msg_type v = msg_type (hdr m) \<and> last_msg_produce v = msg_produce (hdr m)"

lemma noted_simps [simp]:
  "continue_except_count (noted m v) = continue_except_count v" "noted m (v\<lparr>continue_except_count := n\<rparr>) = (noted m v)\<lparr>continue_except_count := n\<rparr>"
  "same_msg k (noted m v) \<longleftrightarrow> msg_type (hdr m) = msg_type (hdr k) \<and> msg_produce (hdr m) = msg_produce (hdr k)"
  "same_msg k (v\<lparr>continue_except_count := n\<rparr>) = same_msg k v" "noted k (noted m v) = noted k v"
  by (simp_all add: noted_def same_msg_def)

lemma execute_same: "same_msg m v \<Longrightarrow> executeConditionStateTransform 0 (Some sm) m v = Some (current sm, Some sm, noted m v, [])"
  by (simp add: executeConditionStateTransform_def noted_def same_msg_def)

lemma execute_step:
  assumes "machine_ok sm v s" "\<not> same_msg m v" "msg_produce (hdr m) = condition_num c" "call_step s c s' a"
  shows "executeConditionStateTransform 0 (Some sm) m v = Some (status_num s', Some (sm\<lparr>current := status_num s'\<rparr>),
    (noted m v)\<lparr>continue_except_count := 0\<rparr>, [Perform a (status_num s), Update 0 (status_num s')])"
  using assms by (auto simp: executeConditionStateTransform_def machine_ok_def same_msg_def noted_def table_at_entry table_entry_step Let_def)

lemma execute_reject:
  assumes "machine_ok sm v s" "\<not> same_msg m v" "msg_produce (hdr m) = condition_num c" "\<nexists>s' a. call_step s c s' a"
  shows "executeConditionStateTransform 0 (Some sm) m v =
    (if continue_except_count v = 16 then Some (0, Some (sm\<lparr>current := 0\<rparr>), (noted m v)\<lparr>continue_except_count := 1\<rparr>, [])
     else Some (current sm, Some sm, (noted m v)\<lparr>continue_except_count := continue_except_count v + 1\<rparr>, []))"
proof -
  have "next_state (table_entry s c) = CALL_STATUS_UNKNOW" using assms(4) no_entry by blast
  then show ?thesis using assms(1-3)
    by (auto simp: executeConditionStateTransform_def machine_ok_def same_msg_def noted_def table_at_entry int_inc_def Let_def)
qed

text \<open>The state a message leads to.\<close>

inductive machine_step :: "CALL_STATUS \<Rightarrow> CALL_STATUS \<Rightarrow> event list \<Rightarrow> bool" where
  ignored: "machine_step s s []"
| moved: "call_step s c s' a \<Longrightarrow> machine_step s s' [Perform a (status_num s), Update 0 (status_num s')]"
| resets: "machine_step s CALL_STATUS_IDLE []"

inductive_cases machine_stepE: "machine_step s s' es"

lemma call_step_known: "call_step s c s' a \<Longrightarrow> s' \<noteq> CALL_STATUS_UNKNOW \<and> s \<noteq> CALL_STATUS_UNKNOW"
  by (erule call_step.cases; simp)

lemma execute_ok:
  assumes ok: "machine_ok sm v s" and c: "msg_produce (hdr m) = condition_num c"
  shows "\<exists>s' v' es. executeConditionStateTransform 0 (Some sm) m v = Some (status_num s', Some (sm\<lparr>current := status_num s'\<rparr>), v', es) \<and>
    machine_ok (sm\<lparr>current := status_num s'\<rparr>) v' s' \<and> machine_step s s' es"
proof -
  have cur: "sm\<lparr>current := status_num s\<rparr> = sm" "current sm = status_num s" using ok by (auto simp: machine_ok_def)
  consider (same) "same_msg m v" | (step) s' a where "\<not> same_msg m v" "call_step s c s' a"
    | (reject) "\<not> same_msg m v" "\<nexists>s' a. call_step s c s' a" by blast
  then show ?thesis
  proof cases
    case same
    then show ?thesis using ok cur
      by (intro exI [of _ s] exI [of _ "noted m v"] exI [of _ "[]"]) (simp add: execute_same machine_ok_def machine_step.ignored)
  next
    case step
    then show ?thesis using execute_step [OF ok step(1) c step(2)] call_step_known [OF step(2)]
      by (intro exI [of _ s']) (simp add: machine_ok_def machine_step.moved)
  next
    case reject
    show ?thesis
    proof (cases "continue_except_count v = 16")
      case True
      then show ?thesis using execute_reject [OF ok reject(1) c reject(2)]
        by (intro exI [of _ CALL_STATUS_IDLE]) (simp add: machine_ok_def machine_step.resets)
    next
      case False
      then show ?thesis using execute_reject [OF ok reject(1) c reject(2)] ok cur
        by (intro exI [of _ s]) (simp add: machine_ok_def machine_step.ignored)
    qed
  qed
qed

subsection \<open>Many messages\<close>

text \<open>The messages one after the other, with the state and the events after each.\<close>

primrec run_msgs ::
    "msg list \<Rightarrow> 'a state_machine \<Rightarrow> machine_vars \<Rightarrow> ((int \<times> event list) list \<times> 'a state_machine \<times> machine_vars) option" where
  "run_msgs [] sm v = Some ([], sm, v)"
| "run_msgs (m # ms) sm v = do {
     (r, psm, v, es) \<leftarrow> executeConditionStateTransform 0 (Some sm) m v;
     sm \<leftarrow> psm;
     (tr, sm, v) \<leftarrow> run_msgs ms sm v;
     Some ((r, es) # tr, sm, v)
   }"

fun machine_trace :: "CALL_STATUS \<Rightarrow> (int \<times> event list) list \<Rightarrow> CALL_STATUS \<Rightarrow> bool" where
  "machine_trace s [] s' \<longleftrightarrow> s' = s"
| "machine_trace s ((r, es) # tr) s' \<longleftrightarrow> (\<exists>t. r = status_num t \<and> machine_step s t es \<and> machine_trace t tr s')"

definition known :: "msg \<Rightarrow> bool" where
  "known m \<longleftrightarrow> (\<exists>c. msg_produce (hdr m) = condition_num c)"

lemma run_msgs_ok:
  "machine_ok sm v s \<Longrightarrow> \<forall>m\<in>set ms. known m \<Longrightarrow>
   \<exists>tr s' v'. run_msgs ms sm v = Some (tr, sm\<lparr>current := status_num s'\<rparr>, v') \<and> machine_ok (sm\<lparr>current := status_num s'\<rparr>) v' s' \<and>
     length tr = length ms \<and> machine_trace s tr s'"
proof (induction ms arbitrary: sm v s)
  case Nil
  then have "sm\<lparr>current := status_num s\<rparr> = sm" by (simp add: machine_ok_def)
  then show ?case using Nil by (intro exI [of _ "[]"] exI [of _ s]) simp
next
  case (Cons m ms)
  obtain c where c: "msg_produce (hdr m) = condition_num c" using Cons.prems(2) by (auto simp: known_def)
  obtain t v1 es where t: "executeConditionStateTransform 0 (Some sm) m v = Some (status_num t, Some (sm\<lparr>current := status_num t\<rparr>), v1, es)"
    "machine_ok (sm\<lparr>current := status_num t\<rparr>) v1 t" "machine_step s t es" using execute_ok [OF Cons.prems(1) c] by blast
  obtain tr s' v' where r: "run_msgs ms (sm\<lparr>current := status_num t\<rparr>) v1 = Some (tr, sm\<lparr>current := status_num s'\<rparr>, v')"
    "machine_ok (sm\<lparr>current := status_num s'\<rparr>) v' s'" "length tr = length ms" "machine_trace t tr s'"
    using Cons.IH [OF t(2)] Cons.prems(2) by auto
  then show ?case using t by (intro exI [of _ "(status_num t, es) # tr"] exI [of _ s'] exI [of _ v']) auto
qed

end
