(* ===== verification/CallQueue.thy ===== *)
theory CallQueue
  imports CallSpec
begin

text \<open>
  Hanging up, rejected messages, and the queue between the senders and the dispatch thread as an interface.
\<close>

subsection \<open>Hanging up\<close>

lemma execute_next:
  assumes "machine_ok sm v s" "\<not> same_msg m v" "msg_produce (hdr m) = condition_num c"
  shows "\<exists>t v' es. executeConditionStateTransform 0 (Some sm) m v = Some (status_num t, Some (sm\<lparr>current := status_num t\<rparr>), v', es) \<and>
    machine_ok (sm\<lparr>current := status_num t\<rparr>) v' t \<and> (\<forall>k. same_msg k v' \<longleftrightarrow> same_msg k (noted m v)) \<and>
    ((\<exists>a. call_step s c t a) \<or> (\<nexists>s' a. call_step s c s' a) \<and> (t = s \<or> t = CALL_STATUS_IDLE))"
proof (cases "\<exists>s' a. call_step s c s' a")
  case True
  then obtain s' a where s': "call_step s c s' a" by blast
  then show ?thesis using execute_step [OF assms s'] call_step_known [OF s']
    by (intro exI [of _ s']) (auto simp: machine_ok_def)
next
  case False
  have cur: "sm\<lparr>current := status_num s\<rparr> = sm" "current sm = status_num s" using assms(1) by (auto simp: machine_ok_def)
  show ?thesis
  proof (cases "continue_except_count v = 16")
    case True
    then show ?thesis using execute_reject [OF assms False] False by (intro exI [of _ CALL_STATUS_IDLE]) (simp add: machine_ok_def)
  next
    case nf: False
    then show ?thesis using execute_reject [OF assms False] False assms(1) cur
      by (intro exI [of _ s]) (simp add: machine_ok_def)
  qed
qed

lemma hang_up_states:
  assumes "s \<noteq> CALL_STATUS_UNKNOW"
    and "(\<exists>a. call_step s CALL_STATUS_CONDITION_TC_DISCONNECT t a) \<or>
      (\<nexists>s' a. call_step s CALL_STATUS_CONDITION_TC_DISCONNECT s' a) \<and> (t = s \<or> t = CALL_STATUS_IDLE)"
    and "(\<exists>a. call_step t CALL_STATUS_CONDITION_CALL_STATUS_DISCONNECTED u a) \<or>
      (\<nexists>s' a. call_step t CALL_STATUS_CONDITION_CALL_STATUS_DISCONNECTED s' a) \<and> (u = t \<or> u = CALL_STATUS_IDLE)"
  shows "u = CALL_STATUS_IDLE"
  using assms unfolding call_step_simps by (cases s; auto)

lemma hang_up_run:
  assumes ok: "machine_ok sm v s" and m: "\<not> same_msg m v" "msg_produce (hdr m) = condition_num CALL_STATUS_CONDITION_TC_DISCONNECT"
    and k: "msg_produce (hdr k) = condition_num CALL_STATUS_CONDITION_CALL_STATUS_DISCONNECTED"
  shows "\<exists>tr v'. run_msgs [m, k] sm v = Some (tr, sm\<lparr>current := 0\<rparr>, v')"
proof -
  obtain t v1 es where t: "executeConditionStateTransform 0 (Some sm) m v = Some (status_num t, Some (sm\<lparr>current := status_num t\<rparr>), v1, es)"
    "machine_ok (sm\<lparr>current := status_num t\<rparr>) v1 t" "\<And>k. same_msg k v1 \<longleftrightarrow> same_msg k (noted m v)"
    "(\<exists>a. call_step s CALL_STATUS_CONDITION_TC_DISCONNECT t a) \<or>
      (\<nexists>s' a. call_step s CALL_STATUS_CONDITION_TC_DISCONNECT s' a) \<and> (t = s \<or> t = CALL_STATUS_IDLE)"
    using execute_next [OF ok m] by blast
  have "\<not> same_msg k v1" using t(3) m(2) k by simp
  then obtain u v2 fs where u: "executeConditionStateTransform 0 (Some (sm\<lparr>current := status_num t\<rparr>)) k v1 =
      Some (status_num u, Some (sm\<lparr>current := status_num t\<rparr>\<lparr>current := status_num u\<rparr>), v2, fs)"
    "(\<exists>a. call_step t CALL_STATUS_CONDITION_CALL_STATUS_DISCONNECTED u a) \<or>
      (\<nexists>s' a. call_step t CALL_STATUS_CONDITION_CALL_STATUS_DISCONNECTED s' a) \<and> (u = t \<or> u = CALL_STATUS_IDLE)"
    using execute_next [OF t(2) _ k] by blast
  have "s \<noteq> CALL_STATUS_UNKNOW" using ok by (simp add: machine_ok_def)
  then have "u = CALL_STATUS_IDLE" using hang_up_states t(4) u(2) by blast
  then show ?thesis using t(1) u(1) by simp
qed

subsection \<open>Rejected messages\<close>

text \<open>No message repeats the one before it.\<close>

primrec no_repeat :: "msg list \<Rightarrow> machine_vars \<Rightarrow> bool" where
  "no_repeat [] v \<longleftrightarrow> True"
| "no_repeat (m # ms) v \<longleftrightarrow> \<not> same_msg m v \<and> no_repeat ms (noted m v)"

lemma no_repeat_count [simp]: "no_repeat ms (v\<lparr>continue_except_count := n\<rparr>) = no_repeat ms v"
  by (induction ms arbitrary: v) (simp_all only: no_repeat.simps noted_simps)

definition rejected :: "CALL_STATUS \<Rightarrow> msg \<Rightarrow> bool" where
  "rejected s m \<longleftrightarrow> (\<exists>c. msg_produce (hdr m) = condition_num c \<and> (\<nexists>s' a. call_step s c s' a))"

lemma reject_run:
  "machine_ok sm v s \<Longrightarrow> \<forall>m\<in>set ms. rejected s m \<Longrightarrow> no_repeat ms v \<Longrightarrow> continue_except_count v + int (length ms) = 17 \<Longrightarrow>
   \<exists>v'. run_msgs ms sm v = Some (replicate (length ms - 1) (status_num s, []) @ [(0, [])], sm\<lparr>current := 0\<rparr>, v')"
proof (induction ms arbitrary: v)
  case Nil
  then show ?case by (simp add: machine_ok_def)
next
  case (Cons m ms)
  obtain c where c: "msg_produce (hdr m) = condition_num c" "\<nexists>s' a. call_step s c s' a" using Cons.prems(2) by (auto simp: rejected_def)
  have cur: "current sm = status_num s" using Cons.prems(1) by (simp add: machine_ok_def)
  have m: "\<not> same_msg m v" using Cons.prems(3) by simp
  note ex = execute_reject [OF Cons.prems(1) m c]
  show ?case
  proof (cases ms)
    case Nil
    then show ?thesis using ex Cons.prems(4) by simp
  next
    case (Cons m' ms')
    then have n: "continue_except_count v \<noteq> 16" "continue_except_count v \<le> 15" using Cons.prems(4) by (auto simp: Cons)
    let ?v = "(noted m v)\<lparr>continue_except_count := continue_except_count v + 1\<rparr>"
    have "machine_ok sm ?v s" using Cons.prems(1,4) n(2) by (auto simp: machine_ok_def)
    then obtain v' where "run_msgs ms sm ?v = Some (replicate (length ms - 1) (status_num s, []) @ [(0, [])], sm\<lparr>current := 0\<rparr>, v')"
      using Cons.IH [of ?v] Cons.prems by auto
    moreover have "length ms = Suc (length ms - 1)" using Cons by simp
    then have "replicate (length ms) x = x # replicate (length ms - 1) x" for x :: "int \<times> event list"
      by (metis replicate_Suc)
    ultimately show ?thesis using ex n cur by simp
  qed
qed

subsection \<open>The queue as an interface\<close>

text \<open>
  What the dispatch thread relies on: a mailbox holds messages, in order, and a number of spare wake-ups, after
  which a read finds nothing.
\<close>

primrec post_all :: "('m \<Rightarrow> 'q \<Rightarrow> (int \<times> 'q) outcome) \<Rightarrow> 'm list \<Rightarrow> 'q \<Rightarrow> 'q option" where
  "post_all put [] q = Some q"
| "post_all put (m # ms) q = (case put m q of Done (r, q) \<Rightarrow> if r = 0 then post_all put ms q else None | _ \<Rightarrow> None)"

text \<open>A thread that reads and handles until it sleeps.\<close>

primrec serve ::
    "('q \<Rightarrow> (int \<times> 'm \<times> 'q) outcome) \<Rightarrow> ('m \<Rightarrow> 's \<Rightarrow> ('s \<times> 'e list) option) \<Rightarrow> nat \<Rightarrow> 'q \<Rightarrow> 's \<Rightarrow> ('q \<times> 's \<times> 'e list) option" where
  "serve get handle 0 q s = None"
| "serve get handle (Suc f) q s =
     (case get q of Undefined \<Rightarrow> None
      | Blocked \<Rightarrow> Some (q, s, [])
      | Done (r, m, q) \<Rightarrow>
          if r \<noteq> 0 then serve get handle f q s
          else do {
            (s, es) \<leftarrow> handle m s;
            (q, s, es') \<leftarrow> serve get handle f q s;
            Some (q, s, es @ es')
          })"

primrec handle_all :: "('m \<Rightarrow> 's \<Rightarrow> ('s \<times> 'e list) option) \<Rightarrow> 'm list \<Rightarrow> 's \<Rightarrow> ('s \<times> 'e list) option" where
  "handle_all handle [] s = Some (s, [])"
| "handle_all handle (m # ms) s = do { (s, es) \<leftarrow> handle m s; (s, es') \<leftarrow> handle_all handle ms s; Some (s, es @ es') }"

locale mailbox =
  fixes holds :: "'q \<Rightarrow> 'm list \<Rightarrow> nat \<Rightarrow> bool"
    and cap :: nat
    and put :: "'m \<Rightarrow> 'q \<Rightarrow> (int \<times> 'q) outcome"
    and get :: "'q \<Rightarrow> (int \<times> 'm \<times> 'q) outcome"
  assumes put_law: "holds q ms k \<Longrightarrow> length ms < cap \<Longrightarrow> \<exists>q'. put m q = Done (0, q') \<and> holds q' (ms @ [m]) k"
    and put_full: "holds q ms k \<Longrightarrow> length ms = cap \<Longrightarrow> put m q = Done (-1, q)"
    and get_law: "holds q (m # ms) k \<Longrightarrow> \<exists>q'. get q = Done (0, m, q') \<and> holds q' ms k"
    and get_spare: "holds q [] (Suc k) \<Longrightarrow> \<exists>m q'. get q = Done (-1, m, q') \<and> holds q' [] k"
    and get_block: "holds q [] 0 \<Longrightarrow> get q = Blocked"
begin

lemma post_all_ok: "holds q ms k \<Longrightarrow> length ms + length ns \<le> cap \<Longrightarrow> \<exists>q'. post_all put ns q = Some q' \<and> holds q' (ms @ ns) k"
proof (induction ns arbitrary: q ms)
  case (Cons n ns)
  then obtain q' where "put n q = Done (0, q')" "holds q' (ms @ [n]) k" using put_law [of q ms k n] by auto
  then show ?case using Cons.IH [of q' "ms @ [n]"] Cons.prems(2) by simp
qed simp

lemma serve_ok:
  "holds q ms k \<Longrightarrow> handle_all handle ms s = Some (s', es) \<Longrightarrow>
   \<exists>q'. serve get handle (length ms + k + 1) q s = Some (q', s', es) \<and> holds q' [] 0"
proof (induction ms arbitrary: q s es)
  case Nil
  then show ?case
  proof (induction k arbitrary: q)
    case 0
    then show ?case using get_block by simp
  next
    case (Suc k)
    then obtain m q' where "get q = Done (-1, m, q')" "holds q' [] k" using get_spare by blast
    then show ?case using Suc.IH [of q'] Suc.prems(2) by simp
  qed
next
  case (Cons m ms)
  then obtain q' where q': "get q = Done (0, m, q')" "holds q' ms k" using get_law by blast
  obtain s1 es1 es2 where "handle m s = Some (s1, es1)" "handle_all handle ms s1 = Some (s', es2)" "es = es1 @ es2"
    using Cons.prems(2) by (auto simp: bind_Some_iff)
  then show ?case using Cons.IH [OF q'(2), of s1] q'(1) by fastforce
qed

end

subsection \<open>The message queue provides it\<close>

definition queue_holds :: "msg_queue \<Rightarrow> msg list \<Rightarrow> nat \<Rightarrow> bool" where
  "queue_holds q ms k \<longleftrightarrow> queue_ok q \<and> waiting q = ms \<and> msg_enqueue_sem q = 1 \<and> msg_dequeue_sem q = length ms + k"

definition queue_put :: "msg \<Rightarrow> msg_queue \<Rightarrow> (int \<times> msg_queue) outcome" where
  "queue_put m q = (case MsgEnQueue (Some q) m of Done (r, Some q) \<Rightarrow> Done (r, q) | Blocked \<Rightarrow> Blocked | _ \<Rightarrow> Undefined)"

definition queue_get :: "msg_queue \<Rightarrow> (int \<times> msg \<times> msg_queue) outcome" where
  "queue_get q = (case MsgDeQueue (Some q) zero_msg of Done (r, m, Some q) \<Rightarrow> Done (r, m, q) | Blocked \<Rightarrow> Blocked | _ \<Rightarrow> Undefined)"

interpretation mq: mailbox queue_holds 999 queue_put queue_get
proof
  fix q :: msg_queue and ms k m
  assume h: "queue_holds q ms k"
  then have ok: "queue_ok q" "waiting q = ms" by (simp_all add: queue_holds_def)
  show "\<exists>q'. queue_put m q = Done (0, q') \<and> queue_holds q' (ms @ [m]) k" if "length ms < 999"
  proof -
    have nf: "\<not> queue_full q" using full_length [OF ok(1)] ok(2) that by simp
    have "queue_ok (q\<lparr>msg_enqueue_sem := msg_enqueue_sem q - 1\<rparr>)" using ok by simp
    then show ?thesis using put_msg_ok [of "q\<lparr>msg_enqueue_sem := msg_enqueue_sem q - 1\<rparr>" m] h nf
      by (auto simp: queue_put_def MsgEnQueue_def queue_holds_def)
  qed
  show "queue_put m q = Done (-1, q)" if "length ms = 999"
    using full_length [OF ok(1)] ok(2) that by (simp add: queue_put_def MsgEnQueue_def)
next
  fix q :: msg_queue and ms k m
  assume h: "queue_holds q (m # ms) k"
  let ?q = "q\<lparr>msg_dequeue_sem := msg_dequeue_sem q - 1\<rparr>"
  have ok: "queue_ok ?q" "waiting ?q = m # ms" using h by (simp_all add: queue_holds_def)
  then have "\<not> queue_empty ?q" using empty_iff [OF ok(1)] by simp
  then show "\<exists>q'. queue_get q = Done (0, m, q') \<and> queue_holds q' ms k"
    using get_msg_ok [OF ok(1)] ok(2) h by (auto simp: queue_get_def MsgDeQueue_def queue_holds_def Let_def)
next
  fix q :: msg_queue and k
  assume h: "queue_holds q [] (Suc k)"
  then have "queue_empty q" using empty_iff by (simp add: queue_holds_def)
  then show "\<exists>m q'. queue_get q = Done (-1, m, q') \<and> queue_holds q' [] k"
    using h by (simp add: queue_get_def MsgDeQueue_def queue_holds_def)
next
  fix q :: msg_queue
  assume "queue_holds q [] 0"
  then show "queue_get q = Blocked" by (simp add: queue_get_def MsgDeQueue_def queue_holds_def)
qed

subsection \<open>The dispatch thread is its client\<close>

definition handle_msg :: "msg \<Rightarrow> 'a state_machine \<times> machine_vars \<Rightarrow> (('a state_machine \<times> machine_vars) \<times> event list) option" where
  "handle_msg m s = (case executeConditionStateTransform 0 (Some (fst s)) m (snd s) of
     Some (_, Some sm, v, es) \<Rightarrow> Some ((sm, v), es) | _ \<Rightarrow> None)"

lemma execute_queue:
  "executeConditionStateTransform 0 (Some (sm\<lparr>msg_queue := q\<rparr>)) m v =
     map_option (\<lambda>(r, p, v, es). (r, map_option (\<lambda>sm. sm\<lparr>msg_queue := q\<rparr>) p, v, es)) (executeConditionStateTransform 0 (Some sm) m v)"
  by (auto simp: executeConditionStateTransform_def Let_def split: Option.bind_split)

lemma execute_running:
  "executeConditionStateTransform 0 (Some sm) m v = Some (r, Some sm', v', es) \<Longrightarrow>
   msg_queue sm' = msg_queue sm \<and> m_bDispatchProcessRunning sm' = m_bDispatchProcessRunning sm"
  by (auto simp: executeConditionStateTransform_def Let_def bind_Some_iff split: if_splits)

lemma loop_serves:
  "m_bDispatchProcessRunning sm \<Longrightarrow> stateMahchineDispatchProcessLoop f (sm\<lparr>msg_queue := q\<rparr>) v =
     map_option (\<lambda>(q, (sm, v), es). (sm\<lparr>msg_queue := q\<rparr>, v, es)) (serve queue_get handle_msg f q (sm, v))"
proof (induction f arbitrary: sm q v)
  case (Suc f)
  show ?case
  proof (cases "MsgDeQueue (Some q) zero_msg")
    case (Done x)
    obtain r m pq where x: "x = (r, m, pq)" by (cases x)
    show ?thesis
    proof (cases pq)
      case None
      then show ?thesis using Suc.prems Done x by (simp add: dispatch_turn_def queue_get_def)
    next
      case (Some q')
      have turn: "dispatch_turn (sm\<lparr>msg_queue := q\<rparr>) v = (if r \<noteq> 0 then Done (sm\<lparr>msg_queue := q'\<rparr>, v, [])
          else (case handle_msg m (sm, v) of None \<Rightarrow> Undefined | Some ((sm, v), es) \<Rightarrow> Done (sm\<lparr>msg_queue := q'\<rparr>, v, es)))"
        using Done x Some by (auto simp: dispatch_turn_def handle_msg_def execute_queue split: option.splits)
      have get: "queue_get q = Done (r, m, q')" using Done x Some by (simp add: queue_get_def)
      show ?thesis
      proof (cases "r \<noteq> 0")
        case True
        then show ?thesis using Suc turn get by simp
      next
        case False
        show ?thesis
        proof (cases "handle_msg m (sm, v)")
          case None
          then show ?thesis using Suc.prems turn get False by simp
        next
          case (Some y)
          obtain sm1 v1 es where y: "y = ((sm1, v1), es)" by (cases y; cases "fst y") auto
          have "m_bDispatchProcessRunning sm1" using Some y execute_running Suc.prems
            by (fastforce simp: handle_msg_def split: option.splits prod.splits)
          then show ?thesis using Suc.IH [of sm1 q' v1] Suc.prems turn get False Some y
            by (cases "serve queue_get handle_msg f q' (sm1, v1)") (auto simp: split_beta)
        qed
      qed
    qed
  qed (simp_all add: Suc.prems dispatch_turn_def queue_get_def)
qed simp

end
