(* ===== verification/CallProps.thy ===== *)
theory CallProps
  imports CallQueue
begin

text \<open>
  What the message queue and the call state machine promise, with witnesses on a concrete machine, and where they
  lose messages or errors.
\<close>

subsection \<open>A concrete machine\<close>

definition demo_queue :: msg_queue where
  "demo_queue = \<lparr>head = 0, rear = 0, msg_enqueue_sem = 1, msg_dequeue_sem = 1, q_data = replicate 1000 zero_msg\<rparr>"

definition demo_system :: system where
  "demo_system = \<lparr>queue = demo_queue, producers = (\<lambda>_. Idle), consumer = Asleep, written = [], received = [], misses = 0\<rparr>"

lemma demo_started: "started demo_system"
  unfolding started_def
  by (intro conjI exI [of _ demo_queue]) (simp_all add: demo_system_def MsgQueueInit_def demo_queue_def)

lemma demo_holds: "queue_holds demo_queue [] 1" "queue_holds (demo_queue\<lparr>msg_dequeue_sem := 0\<rparr>) [] 0"
  using started_queue [OF demo_started] by (simp_all add: queue_holds_def demo_system_def)

definition demo_machine :: "int \<Rightarrow> unit state_machine" where
  "demo_machine s = \<lparr>current = s, msg_queue = demo_queue, m_bDispatchProcessRunning = True, m_dispatchProcess_thread_attr = Alive (),
     m_bTimeoutStateUpdateRunning = True, m_timeoutStateUpdate_thread_attr = Alive ()\<rparr>"

definition demo_msg :: "u32 \<Rightarrow> msg" where
  "demo_msg c = zero_msg\<lparr>hdr := (hdr zero_msg)\<lparr>msg_produce := c\<rparr>\<rparr>"

lemma demo_msg_hdr [simp]: "msg_produce (hdr (demo_msg c)) = c" "msg_type (hdr (demo_msg c)) = 0"
  by (simp_all add: demo_msg_def zero_msg_def)

lemma demo_ok: "machine_ok (demo_machine (status_num s)) first_vars s \<longleftrightarrow> s \<noteq> CALL_STATUS_UNKNOW"
  by (simp add: machine_ok_def demo_machine_def first_vars_def)

definition condition_list :: "CONDITION list" where
  "condition_list = [CALL_STATUS_CONDITION_CALL_STATUS_CONNECTING, CALL_STATUS_CONDITION_CALL_STATUS_INBOUND_RINGING,
     CALL_STATUS_CONDITION_CALL_STATUS_CONNECTED, CALL_STATUS_CONDITION_CALL_STATUS_DISCONNECTED, CALL_STATUS_CONDITION_TC_ANSER,
     CALL_STATUS_CONDITION_TC_DISCONNECT, CALL_STATUS_CONDITION_PSTN_CALL_ON_HANGUP, CALL_STATUS_CONDITION_PSTN_CALL_ON_ACCPETE,
     CALL_STATUS_CONDITION_PSTN_CALL_ON_NATIVECALL_CONTATC, CALL_STATUS_CONDITION_TC_INCOMING_RING]"

lemma condition_list_num: "map condition_num condition_list = map of_nat [0..<10]" "length condition_list = 10"
  by (simp_all add: condition_list_def upt_rec)

lemma known_iff: "known m \<longleftrightarrow> unat (msg_produce (hdr m)) < 10"
proof
  assume "known m"
  then obtain c where c: "msg_produce (hdr m) = condition_num c" by (auto simp: known_def)
  show "unat (msg_produce (hdr m)) < 10" unfolding c using uint_condition_num(3) [of c] uint_nat [of "condition_num c"] by linarith
next
  assume l: "unat (msg_produce (hdr m)) < 10"
  have "condition_num (condition_list ! unat (msg_produce (hdr m))) = map condition_num condition_list ! unat (msg_produce (hdr m))"
    using l condition_list_num(2) by simp
  also have "\<dots> = msg_produce (hdr m)" unfolding condition_list_num(1) using l by simp
  finally show "known m" unfolding known_def by metis
qed

lemma sint_condition_small: "0 \<le> sint (w :: u32) \<Longrightarrow> sint w < 10 \<Longrightarrow> unat w < 10"
proof -
  assume "0 \<le> sint w" "sint w < 10"
  then have "uint w = sint w" using uint_sint [of w] by (simp add: take_bit_int_eq_self)
  then show "unat w < 10" using \<open>sint w < 10\<close> uint_nat [of w] by linarith
qed

lemma unknown_undefined:
  assumes "machine_ok sm v s" "\<not> known m" "\<not> same_msg m v"
  shows "executeConditionStateTransform 0 (Some sm) m v = None"
proof -
  have "\<not> (0 \<le> sint (msg_produce (hdr m)) \<and> sint (msg_produce (hdr m)) < 10)" using assms(2) known_iff sint_condition_small by blast
  then have "table_at (current sm) (sint (msg_produce (hdr m))) = None" by (auto simp: table_at_def)
  then show ?thesis using assms(3) by (auto simp: executeConditionStateTransform_def same_msg_def Let_def)
qed

lemma handle_run:
  "run_msgs ms sm v = Some (tr, sm', v') \<Longrightarrow> handle_all handle_msg ms (sm, v) = Some ((sm', v'), concat (map snd tr))"
proof (induction ms arbitrary: sm v tr)
  case (Cons m ms)
  then obtain r sm1 v1 es tr1 where "executeConditionStateTransform 0 (Some sm) m v = Some (r, Some sm1, v1, es)"
    "run_msgs ms sm1 v1 = Some (tr1, sm', v')" "tr = (r, es) # tr1"
    by (auto simp: bind_Some_iff)
  then show ?case using Cons.IH by (simp add: handle_msg_def)
qed simp

subsection \<open>The queue between threads\<close>

text \<open>
  Locking. However many producers there are, whenever two of them are between \<^verbatim>\<open>sem_wait\<close> and \<^verbatim>\<open>sem_post\<close> of \<^verbatim>\<open>msg_enqueue_sem\<close> they
  are the same, the semaphore is 1 when nobody is there and 0 otherwise, and the ring stays well formed.
\<close>

theorem producers_exclude_each_other:
  assumes "started s" and "reachable P s t"
  shows "(\<forall>i j. holds_lock (producers t i) \<and> holds_lock (producers t j) \<longrightarrow> i = j) \<and>
    (msg_enqueue_sem (queue t) = (if \<exists>i. holds_lock (producers t i) then 0 else 1)) \<and> queue_ok (queue t)"
proof -
  have l: "locking P t" by (rule locking_reachable [OF assms(2,1)])
  have h: "holds_lock (producers t i) \<longleftrightarrow> i \<in> holders t" for i by (rule holder)
  show ?thesis using l unfolding h locking_def by auto
qed

theorem producers_exclude_each_other_witness:
  "queue_ok (queue demo_system) \<and> msg_enqueue_sem (queue demo_system) = 1"
  using producers_exclude_each_other [OF demo_started reachable.start]
  by (simp add: demo_system_def)

text \<open>
  C19. One producer. With one producer and one consumer, in every interleaving, what was received followed by what
  waits is exactly what was written, at most 999 messages wait, \<^verbatim>\<open>MsgDeQueue\<close> finds nothing at most once, and
  when the consumer sleeps at a semaphore of value 0 with no message under way nothing waits.
\<close>

theorem single_producer_fifo:
  assumes "started s" and "reachable {p} s t"
  shows "written t = received t @ waiting (queue t) \<and> length (waiting (queue t)) \<le> 999 \<and> misses t \<le> 1 \<and>
    (consumer t = Asleep \<and> msg_dequeue_sem (queue t) = 0 \<and> producers t p = Idle \<longrightarrow> waiting (queue t) = [])"
proof -
  have s: "single p t" by (rule single_reachable [OF assms(2,1)])
  then have ok: "queue_ok (queue t)" by (simp add: single_def locking_def)
  then show ?thesis using s waiting_bound [OF ok] by (auto simp: single_def)
qed

theorem single_producer_fifo_witness:
  "\<exists>t. reachable {0} demo_system t \<and> written t = [zero_msg] \<and> written t = received t @ waiting (queue t) \<and> misses t \<le> 1"
proof -
  have c: "calm demo_system" "0 \<in> {0 :: nat}" "producers demo_system 0 = Idle"
    using started_queue [OF demo_started] by (simp_all add: calm_def demo_system_def)
  have "waiting (queue demo_system) = []" by (rule started_queue(2) [OF demo_started])
  then obtain t where t: "reachable {0} demo_system t" "written t = [] @ [zero_msg]"
    using send_many [OF c, of "[zero_msg]"] by (auto simp: demo_system_def)
  then show ?thesis using single_producer_fifo [OF demo_started t(1)] by (intro exI [of _ t]) simp
qed

text \<open>
  C20. Two producers. The test for a full queue happens before the lock is taken: from the start, two producers can send 1000
  messages with result 0, after which the queue looks empty and all of them are lost.
\<close>

theorem two_producers_lose_all:
  assumes "started s" and "length ms = 998"
  shows "\<exists>t. reachable {0, 1} s t \<and> written t = ms @ [x, y] \<and> received t = [] \<and> producers t = (\<lambda>_. Idle) \<and> queue_empty (queue t)"
proof -
  obtain t where t: "reachable {0, 1} s t" "written t = ms @ [x, y]" "received t = []" "waiting (queue t) = []" "producers t = (\<lambda>_. Idle)"
    using two_fill_queue [OF assms] by blast
  have "queue_ok (queue t)" using locking_reachable [OF t(1) assms(1)] by (simp add: locking_def)
  then show ?thesis using t empty_iff [of "queue t"] by (intro exI [of _ t]) simp
qed

theorem two_producers_lose_all_witness:
  "\<exists>t. reachable {0, 1} demo_system t \<and> length (written t) = 1000 \<and> received t = [] \<and> queue_empty (queue t)"
proof -
  obtain t where "reachable {0, 1} demo_system t" "written t = replicate 998 zero_msg @ [zero_msg, zero_msg]" "received t = []"
    "queue_empty (queue t)"
    using two_producers_lose_all [OF demo_started length_replicate, of zero_msg zero_msg zero_msg] by blast
  then show ?thesis by (intro exI [of _ t]) simp
qed

subsection \<open>Calls\<close>

text \<open>
  C23. The table. For every state and every condition, \<^verbatim>\<open>transition_table\<close> has exactly the next state and the action that the comments
  beside the transitions list, and the trap where they list none.
\<close>

theorem table_as_documented:
  "call_step s c s' a \<longleftrightarrow> s' \<noteq> CALL_STATUS_UNKNOW \<and>
     (\<exists>t. table_at (status_num s) (sint (condition_num c)) = Some t \<and> next_state t = s' \<and> action t = a)"
  by (auto simp: table_at_entry table_entry_step)

text \<open>
  C22. Call states. From a call state, \<^verbatim>\<open>executeConditionStateTransform\<close> is defined exactly for the ten conditions and for a repetition of the
  message before, ends in a call state again, never the unknown one, and moves by a listed transition, not at all, or to idle.
\<close>

theorem call_states_kept:
  assumes "machine_ok sm v s"
  shows "(executeConditionStateTransform 0 (Some sm) m v \<noteq> None \<longleftrightarrow> unat (msg_produce (hdr m)) < 10 \<or> same_msg m v) \<and>
    (\<forall>r psm v' es. executeConditionStateTransform 0 (Some sm) m v = Some (r, psm, v', es) \<longrightarrow>
       (\<exists>s'. r = status_num s' \<and> psm = Some (sm\<lparr>current := r\<rparr>) \<and> machine_ok (sm\<lparr>current := r\<rparr>) v' s' \<and> machine_step s s' es))"
proof (cases "known m")
  case True
  then obtain c where "msg_produce (hdr m) = condition_num c" by (auto simp: known_def)
  then show ?thesis using execute_ok [OF assms, of m c] True unfolding known_iff by auto
next
  case False
  show ?thesis
  proof (cases "same_msg m v")
    case True
    have "sm\<lparr>current := status_num s\<rparr> = sm" using assms by (simp add: machine_ok_def)
    then show ?thesis using execute_same [OF True, of sm] assms True
      by (auto simp: machine_ok_def intro: machine_step.ignored)
  next
    case nosame: False
    then show ?thesis using unknown_undefined [OF assms False nosame] False unfolding known_iff by simp
  qed
qed

theorem call_states_kept_witness:
  "executeConditionStateTransform 0 (Some (demo_machine 0)) (demo_msg 0) first_vars \<noteq> None \<and>
   executeConditionStateTransform 0 (Some (demo_machine 0)) (demo_msg 10) first_vars = None"
proof -
  have ok: "machine_ok (demo_machine 0) first_vars CALL_STATUS_IDLE" using demo_ok [of CALL_STATUS_IDLE] by simp
  have "\<not> same_msg (demo_msg 10) first_vars" by (simp add: same_msg_def first_vars_def)
  then show ?thesis using conjunct1 [OF call_states_kept [OF ok, of "demo_msg 0"]] conjunct1 [OF call_states_kept [OF ok, of "demo_msg 10"]]
    by (simp del: not_None_eq)
qed

text \<open>
  C24. Hanging up. From every call state a hang-up of the user and then the notice of disconnection lead back to idle, if the first
  does not repeat the message before.
\<close>

theorem hang_up_ends_call:
  assumes "machine_ok sm v s" and "\<not> same_msg m v" "msg_produce (hdr m) = 5" and "msg_produce (hdr k) = 3"
  shows "\<exists>tr v'. run_msgs [m, k] sm v = Some (tr, sm\<lparr>current := 0\<rparr>, v')"
  by (rule hang_up_run [OF assms(1,2)]) (simp_all add: assms(3,4))

theorem hang_up_ends_call_witness:
  "\<exists>tr v'. run_msgs [demo_msg 5, demo_msg 3] (demo_machine 4) first_vars = Some (tr, (demo_machine 4)\<lparr>current := 0\<rparr>, v')"
proof -
  have ok: "machine_ok (demo_machine 4) first_vars ALEXA_CALL_STATUS_SEND_CONNECTED"
    using demo_ok [of ALEXA_CALL_STATUS_SEND_CONNECTED] by simp
  show ?thesis using hang_up_ends_call [OF ok, of "demo_msg 5" "demo_msg 3"] by (simp add: same_msg_def first_vars_def)
qed

text \<open>
  Reset. Seventeen messages in a row that a state has no transition for, none repeating the one before, set the machine to
  idle with no action at all, none of those that leave the state.
\<close>

theorem reset_performs_nothing:
  assumes "machine_ok sm v s" "continue_except_count v = 0" and "\<forall>m\<in>set ms. rejected s m" "no_repeat ms v" "length ms = 17"
  shows "\<exists>tr v'. run_msgs ms sm v = Some (tr, sm\<lparr>current := 0\<rparr>, v') \<and> concat (map snd tr) = []"
proof -
  obtain v' where "run_msgs ms sm v = Some (replicate (length ms - 1) (status_num s, []) @ [(0, [])], sm\<lparr>current := 0\<rparr>, v')"
    using reject_run [OF assms(1,3,4)] assms(2,5) by auto
  then show ?thesis by (intro exI conjI, assumption) simp
qed

text \<open>Contact and ringing notices in turn, in the middle of a connected call.\<close>

theorem reset_performs_nothing_witness:
  "\<exists>tr v'. run_msgs (concat (replicate 8 [demo_msg 8, demo_msg 9]) @ [demo_msg 8]) (demo_machine 4) first_vars =
     Some (tr, (demo_machine 4)\<lparr>current := 0\<rparr>, v') \<and> concat (map snd tr) = []"
proof -
  let ?ms = "concat (replicate 8 [demo_msg 8, demo_msg 9]) @ [demo_msg 8]"
  have ok: "machine_ok (demo_machine 4) first_vars ALEXA_CALL_STATUS_SEND_CONNECTED"
    using demo_ok [of ALEXA_CALL_STATUS_SEND_CONNECTED] by simp
  have "rejected ALEXA_CALL_STATUS_SEND_CONNECTED (demo_msg 8)" "rejected ALEXA_CALL_STATUS_SEND_CONNECTED (demo_msg 9)"
    unfolding rejected_def call_step_simps
    by (rule exI [of _ CALL_STATUS_CONDITION_PSTN_CALL_ON_NATIVECALL_CONTATC], simp)
      (rule exI [of _ CALL_STATUS_CONDITION_TC_INCOMING_RING], simp)
  moreover have "set ?ms = {demo_msg 8, demo_msg 9}" by (auto simp: numeral_eq_Suc)
  moreover have "replicate 8 x = [x, x, x, x, x, x, x, x]" for x :: "msg list" by (simp add: numeral_nat)
  then have "no_repeat ?ms first_vars" "length ?ms = 17" by (simp_all add: same_msg_def noted_def first_vars_def)
  ultimately show ?thesis using reset_performs_nothing [OF ok, of ?ms] by (simp add: first_vars_def)
qed

text \<open>
  C21. Dispatch. Messages put into an initialised queue, at most 999, are handled by the dispatch thread in that order, as if each had been given to
  \<^verbatim>\<open>executeConditionStateTransform\<close> directly; afterwards it sleeps and the queue is empty.
\<close>

theorem dispatch_in_order:
  assumes "machine_ok sm v s" "m_bDispatchProcessRunning sm" "queue_holds (msg_queue sm) [] k"
    and "length ms \<le> 999" "\<forall>m\<in>set ms. unat (msg_produce (hdr m)) < 10"
  shows "\<exists>q tr sm' v' q'. post_all queue_put ms (msg_queue sm) = Some q \<and> run_msgs ms sm v = Some (tr, sm', v') \<and>
    stateMahchineDispatchProcessLoop (length ms + k + 1) (sm\<lparr>msg_queue := q\<rparr>) v = Some (sm'\<lparr>msg_queue := q'\<rparr>, v', concat (map snd tr)) \<and>
    queue_holds q' [] 0"
proof -
  obtain q where q: "post_all queue_put ms (msg_queue sm) = Some q" "queue_holds q ms k"
    using mq.post_all_ok [OF assms(3), of ms] assms(4) by auto
  obtain tr sm' v' where r: "run_msgs ms sm v = Some (tr, sm', v')"
    using run_msgs_ok [OF assms(1)] assms(5) known_iff by blast
  obtain q' where "serve queue_get handle_msg (length ms + k + 1) q (sm, v) = Some (q', (sm', v'), concat (map snd tr))" "queue_holds q' [] 0"
    using mq.serve_ok [OF q(2) handle_run [OF r]] by blast
  then show ?thesis using q(1) r loop_serves [OF assms(2)] by (intro exI [of _ q] exI [of _ tr] exI [of _ sm'] exI [of _ v'] exI [of _ q']) simp
qed

theorem dispatch_in_order_witness:
  "\<exists>q tr sm' v' q'. post_all queue_put [demo_msg 0, demo_msg 2] demo_queue = Some q \<and>
     run_msgs [demo_msg 0, demo_msg 2] (demo_machine 0) first_vars = Some (tr, sm', v') \<and>
     stateMahchineDispatchProcessLoop 4 ((demo_machine 0)\<lparr>msg_queue := q\<rparr>) first_vars = Some (sm'\<lparr>msg_queue := q'\<rparr>, v', concat (map snd tr))"
proof -
  have ok: "machine_ok (demo_machine 0) first_vars CALL_STATUS_IDLE" "m_bDispatchProcessRunning (demo_machine 0)"
    using demo_ok [of CALL_STATUS_IDLE] by (simp_all add: demo_machine_def)
  have q: "msg_queue (demo_machine 0) = demo_queue" by (simp add: demo_machine_def)
  have n: "length [demo_msg 0, demo_msg 2] + 1 + 1 = 4" by simp
  have h: "queue_holds (msg_queue (demo_machine 0)) [] 1" unfolding q by (rule demo_holds(1))
  have m: "length [demo_msg 0, demo_msg 2] \<le> 999" "\<forall>m\<in>set [demo_msg 0, demo_msg 2]. unat (msg_produce (hdr m)) < 10" by simp_all
  show ?thesis using dispatch_in_order [OF ok h m] unfolding q n by blast
qed

text \<open>
  C25. Stopping. When the dispatch thread has handled everything, \<^verbatim>\<open>destoryStateMachine\<close> waits for it for ever: the thread sleeps at a semaphore
  that nobody raises and never looks at its flag.
\<close>

theorem stop_hangs_when_idle:
  assumes "queue_holds (msg_queue sm) [] 0" and "m_timeoutStateUpdate_thread_attr sm = Alive a" "p_destroy P a = 0"
  shows "destoryStateMachine P env (Some sm) v = Blocked"
proof -
  have "MsgDeQueue (Some (msg_queue sm)) zero_msg = Blocked"
    using assms(1) by (simp add: MsgDeQueue_def queue_holds_def)
  then show ?thesis using assms(2,3) by (simp add: destoryStateMachine_def destoryThreadAttr_def dispatch_turn_def)
qed

definition demo_pthread :: "unit pthread_ops" where
  "demo_pthread = \<lparr>p_init = (0, ()), p_destroy = (\<lambda>_. 0), p_setpolicy = (\<lambda>_ a. (0, a)), p_getpolicy = (\<lambda>_. (0, 1)),
     p_setparam = (\<lambda>_ a. (0, a)), p_getparam = (\<lambda>_. (0, 98)), p_max = (\<lambda>_. 99), p_min = (\<lambda>_. 1)\<rparr>"

theorem stop_hangs_when_idle_witness:
  "destoryStateMachine demo_pthread \<lparr>enq_sem_ok = True, deq_sem_ok = True, create1 = 0, create2 = 0, sched_fifo = 1\<rparr>
    (Some ((demo_machine 0)\<lparr>msg_queue := demo_queue\<lparr>msg_dequeue_sem := 0\<rparr>\<rparr>)) first_vars = Blocked"
proof (rule stop_hangs_when_idle)
  show "queue_holds (msg_queue ((demo_machine 0)\<lparr>msg_queue := demo_queue\<lparr>msg_dequeue_sem := 0\<rparr>\<rparr>)) [] 0"
    using demo_holds(2) by simp
  show "m_timeoutStateUpdate_thread_attr ((demo_machine 0)\<lparr>msg_queue := demo_queue\<lparr>msg_dequeue_sem := 0\<rparr>\<rparr>) = Alive ()"
    by (simp add: demo_machine_def)
  show "p_destroy demo_pthread () = 0" by (simp add: demo_pthread_def)
qed

text \<open>
  Starting. A dispatch thread that could not be created is reported as success, with the timeout thread not even tried; and
  when the priority is refused, the thread is created with attributes that have been destroyed, which is undefined.
\<close>

theorem failed_start_reported_as_success:
  assumes "enq_sem_ok env" "deq_sem_ok env"
  shows "(\<forall>a. initThreadAttr P (Some (m_dispatchProcess_thread_attr sm)) (sched_fifo env) 98 = Some (True, Some (Alive a)) \<and> create1 env \<noteq> 0 \<longrightarrow>
      (\<exists>sm'. initializeStateMachine P env (Some sm) s True = Some (True, Some sm') \<and> \<not> m_bDispatchProcessRunning sm' \<and>
        m_bTimeoutStateUpdateRunning sm' = m_bTimeoutStateUpdateRunning sm)) \<and>
    (fst (p_init P) = 0 \<and> 98 > p_max P (sched_fifo env) \<and> p_destroy P (snd (p_init P)) = 0 \<longrightarrow>
      initializeStateMachine P env (Some sm) s True = None)"
proof (intro conjI allI impI)
  fix a assume "initThreadAttr P (Some (m_dispatchProcess_thread_attr sm)) (sched_fifo env) 98 = Some (True, Some (Alive a)) \<and> create1 env \<noteq> 0"
  then show "\<exists>sm'. initializeStateMachine P env (Some sm) s True = Some (True, Some sm') \<and> \<not> m_bDispatchProcessRunning sm' \<and>
      m_bTimeoutStateUpdateRunning sm' = m_bTimeoutStateUpdateRunning sm"
    using assms by (simp add: initializeStateMachine_def MsgQueueInit_def start_thread_def)
next
  assume "fst (p_init P) = 0 \<and> 98 > p_max P (sched_fifo env) \<and> p_destroy P (snd (p_init P)) = 0"
  then show "initializeStateMachine P env (Some sm) s True = None"
    using assms by (simp add: initializeStateMachine_def MsgQueueInit_def start_thread_def initThreadAttr_def setThreadPriority_def
      fail_attr_cases split_beta)
qed

theorem failed_start_reported_as_success_witness:
  "\<exists>sm'. initializeStateMachine demo_pthread \<lparr>enq_sem_ok = True, deq_sem_ok = True, create1 = 11, create2 = 0, sched_fifo = 1\<rparr>
     (Some (demo_machine 0)) 0 True = Some (True, Some sm') \<and> \<not> m_bDispatchProcessRunning sm'"
proof -
  let ?e = "\<lparr>enq_sem_ok = True, deq_sem_ok = True, create1 = 11, create2 = 0, sched_fifo = 1\<rparr>"
  have "initThreadAttr demo_pthread (Some (m_dispatchProcess_thread_attr (demo_machine 0))) (sched_fifo ?e) 98 = Some (True, Some (Alive ()))"
    by (simp add: initThreadAttr_def setThreadPriority_def demo_pthread_def)
  then show ?thesis using failed_start_reported_as_success [of ?e demo_pthread "demo_machine 0" 0] by auto
qed

end
