(* ===== verification/PcbCommon.thy ===== *)
theory PcbCommon
  imports CJson
begin

text \<open>
  The constants, tables and parameter lists of \<^verbatim>\<open>pcb_test/pcbatest_server.h\<close> and \<^verbatim>\<open>common.h\<close>, and what
  \<^verbatim>\<open>echo_pcbatest_server.c\<close> uses of the C library on strings. A \<^verbatim>\<open>char\<close> array that only ever holds a string is the bytes
  before the terminator; a copy that needs more than the array is undefined. The operating system is a
  parameter: a record of the calls the file makes, as functions on a state \<open>'w\<close>.
\<close>

subsection \<open>Constants\<close>

definition ascii :: "string \<Rightarrow> u8 list" where
  "ascii s = map of_char s"

abbreviation (input) CMD_CHK_OK :: int where "CMD_CHK_OK \<equiv> 0"
abbreviation (input) CMD_TYPE_ERR :: int where "CMD_TYPE_ERR \<equiv> -1"
abbreviation (input) CMD_ERR :: int where "CMD_ERR \<equiv> -3"
abbreviation (input) SEND_FORMAT_ERR :: int where "SEND_FORMAT_ERR \<equiv> -5"
abbreviation (input) TCP_SEND_ERR :: int where "TCP_SEND_ERR \<equiv> -6"
abbreviation (input) QUERY_RESULT_ERR :: int where "QUERY_RESULT_ERR \<equiv> -7"
abbreviation (input) RECV_FORMAT_ERR :: int where "RECV_FORMAT_ERR \<equiv> -8"
abbreviation (input) CMD_OVERLONG :: int where "CMD_OVERLONG \<equiv> -9"
abbreviation (input) TEST_MODE_ERR :: int where "TEST_MODE_ERR \<equiv> -10"
abbreviation (input) EXIT_TEST_ERR :: int where "EXIT_TEST_ERR \<equiv> -12"
abbreviation (input) TEST_ITEM_BUSY :: int where "TEST_ITEM_BUSY \<equiv> -13"
abbreviation (input) STOP_TEST_ERR :: int where "STOP_TEST_ERR \<equiv> -14"
abbreviation (input) SAVE_RESULE_ERR :: int where "SAVE_RESULE_ERR \<equiv> -15"
abbreviation (input) TEST_FORK_ERR :: int where "TEST_FORK_ERR \<equiv> -16"

abbreviation (input) PARENT_EXIT :: int where "PARENT_EXIT \<equiv> 0"
abbreviation (input) CHILD_EXIT :: int where "CHILD_EXIT \<equiv> 1"
abbreviation (input) FORK_FAIL :: int where "FORK_FAIL \<equiv> -1"

abbreviation (input) COMMAND_VALUESIZE :: nat where "COMMAND_VALUESIZE \<equiv> 100"
abbreviation (input) RECV_BUFFER_SIZE :: nat where "RECV_BUFFER_SIZE \<equiv> 200"
abbreviation (input) SEND_BUFFER_SIZE :: nat where "SEND_BUFFER_SIZE \<equiv> 200"

abbreviation (input) INDEX_TYPE :: nat where "INDEX_TYPE \<equiv> 0"
abbreviation (input) INDEX_TEST_ITEM :: nat where "INDEX_TEST_ITEM \<equiv> 1"
abbreviation (input) INDEX_CMD :: nat where "INDEX_CMD \<equiv> 2"
abbreviation (input) INDEX_RES :: nat where "INDEX_RES \<equiv> 2"
abbreviation (input) INDEX_MSG :: nat where "INDEX_MSG \<equiv> 3"
abbreviation (input) INDEX_STATUS :: nat where "INDEX_STATUS \<equiv> 4"
abbreviation (input) INDEX_RESULT :: nat where "INDEX_RESULT \<equiv> 5"
abbreviation (input) INDEX_ERRCODE :: nat where "INDEX_ERRCODE \<equiv> 6"

abbreviation (input) ENTER_CMD :: nat where "ENTER_CMD \<equiv> 0"
abbreviation (input) EXIT_CMD :: nat where "EXIT_CMD \<equiv> 1"
abbreviation (input) START_CMD :: nat where "START_CMD \<equiv> 2"
abbreviation (input) STOP_CMD :: nat where "STOP_CMD \<equiv> 3"
abbreviation (input) QUERY_CMD :: nat where "QUERY_CMD \<equiv> 4"

definition TEST_RESULT_SAVE_PATH :: "u8 list" where "TEST_RESULT_SAVE_PATH = ascii ''/tmp''"
definition RESULT_TESTING :: "u8 list" where "RESULT_TESTING = ascii ''TESTING''"
definition TESTITEM_SEND_HEAD :: "u8 list" where "TESTITEM_SEND_HEAD = ascii ''[tcp_server]''"
definition RECV_TYPE_NAME :: "u8 list" where "RECV_TYPE_NAME = ascii ''CMD''"
definition STORAGE_TESTITEM :: "u8 list" where "STORAGE_TESTITEM = ascii ''write_storage''"
definition NAK_STA :: "u8 list" where "NAK_STA = ascii ''NAK''"
definition ACK_STA :: "u8 list" where "ACK_STA = ascii ''ACK''"

subsection \<open>Parameters of a command\<close>

record PCBA_SINGLE_PARA =
  para_name :: "u8 list"
  para_valuestr :: "u8 list"
  para_value :: int
  para_opt :: bool

record PCBA_COMMAND_PARA =
  recv_paras :: "PCBA_SINGLE_PARA list"
  send_paras :: "PCBA_SINGLE_PARA list"

definition zero_para :: PCBA_SINGLE_PARA where
  "zero_para = \<lparr>para_name = [], para_valuestr = [], para_value = 0, para_opt = False\<rparr>"

definition recv_cmd_target :: "PCBA_SINGLE_PARA list" where
  "recv_cmd_target =
     [zero_para\<lparr>para_name := ascii ''TYPE'', para_opt := False\<rparr>,
      zero_para\<lparr>para_name := ascii ''TEST_ITEM'', para_opt := True\<rparr>,
      zero_para\<lparr>para_name := ascii ''CMD'', para_opt := False\<rparr>,
      zero_para\<lparr>para_name := ascii ''MSG'', para_opt := True\<rparr>]"

definition send_cmd_target :: "PCBA_SINGLE_PARA list" where
  "send_cmd_target =
     [zero_para\<lparr>para_name := ascii ''TYPE''\<rparr>, zero_para\<lparr>para_name := ascii ''TEST_ITEM''\<rparr>,
      zero_para\<lparr>para_name := ascii ''RES''\<rparr>, zero_para\<lparr>para_name := ascii ''MSG''\<rparr>,
      zero_para\<lparr>para_name := ascii ''STATUS''\<rparr>, zero_para\<lparr>para_name := ascii ''RESULT''\<rparr>,
      zero_para\<lparr>para_name := ascii ''ERR_CODE''\<rparr>]"

definition recv_cmd_type :: "u8 list list" where
  "recv_cmd_type = [ascii ''ENTER'', ascii ''EXIT'', ascii ''START'', ascii ''STOP'', ascii ''QUERY'', ascii ''HEARBEAT'']"

subsection \<open>Strings\<close>

text \<open>\<^verbatim>\<open>strcpy\<close> and \<^verbatim>\<open>snprintf\<close> into an array of \<open>n\<close> bytes; the bytes of an array up to its terminator.\<close>

definition str_cpy :: "nat \<Rightarrow> u8 list \<Rightarrow> u8 list option" where
  "str_cpy n s = (if length s < n then Some s else None)"

definition snprintf_s :: "nat \<Rightarrow> u8 list \<Rightarrow> u8 list" where
  "snprintf_s n s = take (n - 1) s"

definition up_to_nul :: "u8 list \<Rightarrow> u8 list" where
  "up_to_nul s = takeWhile (\<lambda>c. c \<noteq> 0) s"

fun strstr :: "u8 list \<Rightarrow> u8 list \<Rightarrow> bool" where
  "strstr [] n \<longleftrightarrow> n = []"
| "strstr (c # cs) n \<longleftrightarrow> take (length n) (c # cs) = n \<or> strstr cs n"

text \<open>
  \<^verbatim>\<open>fgets\<close> into an array of \<open>n + 1\<close> bytes: the line and the rest of the stream. The lines a loop over \<^verbatim>\<open>fgets\<close>
  with the array of this file sees.
\<close>

fun fgets :: "nat \<Rightarrow> u8 list \<Rightarrow> u8 list \<times> u8 list" where
  "fgets 0 s = ([], s)"
| "fgets (Suc n) [] = ([], [])"
| "fgets (Suc n) (c # cs) = (if c = 10 then ([c], cs) else let (l, r) = fgets n cs in (c # l, r))"

lemma fgets_split: "fgets n s = (l, r) \<Longrightarrow> s = l @ r \<and> length l \<le> n \<and> (n \<noteq> 0 \<and> s \<noteq> [] \<longrightarrow> l \<noteq> [])"
  by (induction n s arbitrary: l r rule: fgets.induct) (auto split: if_splits prod.splits)

function fgets_lines :: "u8 list \<Rightarrow> u8 list list" where
  "fgets_lines s = (if s = [] then [] else let (l, r) = fgets (COMMAND_VALUESIZE - 1) s in up_to_nul l # fgets_lines r)"
  by pat_completeness auto

termination
proof (relation "measure length")
  fix s l r :: "u8 list" and x
  assume "s \<noteq> []" "x = fgets (COMMAND_VALUESIZE - 1) s" "(l, r) = x"
  then show "(r, s) \<in> measure length" using fgets_split [of 99 s l r] by (cases l) auto
qed simp

declare fgets_lines.simps [simp del]

text \<open>
  \<^verbatim>\<open>sscanf\<close> with the two formats of the test results: a directive gives what it read and the rest of the text,
  or fails. The count is that of the values assigned; the end of the text counts as a failed match, since the code compares
  the count with 3 and 2 only. A number that is no \<^verbatim>\<open>int\<close> is undefined.
\<close>

definition scan_not :: "u8 \<Rightarrow> u8 list \<Rightarrow> (u8 list \<times> u8 list) option" where
  "scan_not c s = (let r = takeWhile (\<lambda>x. x \<noteq> c) s in if r = [] then None else Some (r, drop (length r) s))"

definition scan_lit :: "u8 list \<Rightarrow> u8 list \<Rightarrow> u8 list option" where
  "scan_lit l s = (if take (length l) s = l then Some (drop (length l) s) else None)"

primrec scan_nat :: "u8 list \<Rightarrow> nat \<Rightarrow> nat" where
  "scan_nat [] n = n"
| "scan_nat (c # cs) n = (if 48 \<le> c \<and> c \<le> 57 then scan_nat cs (n * 10 + (unat c - 48)) else n)"

definition scan_d :: "u8 list \<Rightarrow> int option" where
  "scan_d s =
     (let s = dropWhile (\<lambda>c. c = 32 \<or> 9 \<le> c \<and> c \<le> 13) s;
          (neg, s) = (case s of [] \<Rightarrow> (False, s) | c # cs \<Rightarrow> if c = 45 then (True, cs) else if c = 43 then (False, cs) else (False, s)) in
      case s of [] \<Rightarrow> None
      | c # _ \<Rightarrow> if 48 \<le> c \<and> c \<le> 57 then Some (if neg then - int (scan_nat s 0) else int (scan_nat s 0)) else None)"

definition int_ok :: "int \<Rightarrow> bool" where
  "int_ok i \<longleftrightarrow> - (2 ^ 31) \<le> i \<and> i < 2 ^ 31"

text \<open>The tail \<^verbatim>\<open><%[^>]>,<%d>\<close> of both formats.\<close>

definition scan_result :: "u8 list \<Rightarrow> nat \<Rightarrow> u8 list \<Rightarrow> int \<Rightarrow> (nat \<times> u8 list \<times> int) option" where
  "scan_result s n result err =
     (case scan_not 62 s of None \<Rightarrow> Some (n, result, err)
      | Some (r, s) \<Rightarrow>
          (case scan_lit (ascii ''>,<'') s of None \<Rightarrow> Some (n + 1, r, err)
           | Some s \<Rightarrow>
               (case scan_d s of None \<Rightarrow> Some (n + 1, r, err)
                | Some i \<Rightarrow> if int_ok i then Some (n + 2, r, i) else None)))"

definition sscanf_msg :: "u8 list \<Rightarrow> u8 list \<Rightarrow> u8 list \<Rightarrow> int \<Rightarrow> (nat \<times> u8 list \<times> u8 list \<times> int) option" where
  "sscanf_msg s msg result err =
     (case scan_not 60 s of None \<Rightarrow> Some (0, msg, result, err)
      | Some (_, s) \<Rightarrow>
          (case scan_lit [60] s of None \<Rightarrow> Some (0, msg, result, err)
           | Some s \<Rightarrow>
               (case scan_not 62 s of None \<Rightarrow> Some (0, msg, result, err)
                | Some (ms, s) \<Rightarrow>
                    (case scan_lit (ascii ''>,<'') s of None \<Rightarrow> Some (1, ms, result, err)
                     | Some s \<Rightarrow> map_option (\<lambda>(n, r, e). (n, ms, r, e)) (scan_result s 1 result err)))))"

definition sscanf_nomsg :: "u8 list \<Rightarrow> u8 list \<Rightarrow> int \<Rightarrow> (nat \<times> u8 list \<times> int) option" where
  "sscanf_nomsg s result err =
     (case scan_not 60 s of None \<Rightarrow> Some (0, result, err)
      | Some (_, s) \<Rightarrow>
          (case scan_lit (ascii ''<>,<'') s of None \<Rightarrow> Some (0, result, err)
           | Some s \<Rightarrow> scan_result s 0 result err))"

subsection \<open>The operating system\<close>

text \<open>
  \<^verbatim>\<open>popen\<close> with what the command prints, or null; \<^verbatim>\<open>open\<close> for writing, that creates or empties the file, or for reading;
  \<^verbatim>\<open>read\<close> and \<^verbatim>\<open>recv\<close> with the number returned and the bytes stored; \<^verbatim>\<open>opendir\<close> and \<^verbatim>\<open>readdir\<close>; the sockets. The other
  calls are named by their first letters.
\<close>

record 'w board =
  b_popen :: "u8 list \<Rightarrow> 'w \<Rightarrow> u8 list option \<times> 'w"
  b_system :: "u8 list \<Rightarrow> 'w \<Rightarrow> 'w"
  b_sleep :: "nat \<Rightarrow> 'w \<Rightarrow> 'w"
  b_fork :: "'w \<Rightarrow> int \<times> 'w"
  b_waitpid :: "'w \<Rightarrow> int \<times> 'w"
  b_open :: "u8 list \<Rightarrow> bool \<Rightarrow> 'w \<Rightarrow> int \<times> 'w"
  b_write :: "int \<Rightarrow> u8 list \<Rightarrow> 'w \<Rightarrow> 'w"
  b_read :: "int \<Rightarrow> nat \<Rightarrow> 'w \<Rightarrow> (int \<times> u8 list) \<times> 'w"
  b_close :: "int \<Rightarrow> 'w \<Rightarrow> 'w"
  b_access :: "u8 list \<Rightarrow> 'w \<Rightarrow> bool"
  b_remove :: "u8 list \<Rightarrow> 'w \<Rightarrow> 'w"
  b_chmod :: "u8 list \<Rightarrow> 'w \<Rightarrow> 'w"
  b_opendir :: "u8 list \<Rightarrow> 'w \<Rightarrow> addr \<times> 'w"
  b_readdir :: "addr \<Rightarrow> 'w \<Rightarrow> u8 list option \<times> 'w"
  b_closedir :: "addr \<Rightarrow> 'w \<Rightarrow> 'w"
  b_socket :: "'w \<Rightarrow> int \<times> 'w"
  b_reuseaddr :: "int \<Rightarrow> 'w \<Rightarrow> int \<times> 'w"
  b_bind :: "int \<Rightarrow> nat \<Rightarrow> 'w \<Rightarrow> int \<times> 'w"
  b_listen :: "int \<Rightarrow> nat \<Rightarrow> 'w \<Rightarrow> int \<times> 'w"
  b_accept :: "int \<Rightarrow> 'w \<Rightarrow> int \<times> 'w"
  b_recv :: "int \<Rightarrow> nat \<Rightarrow> 'w \<Rightarrow> (int \<times> u8 list) \<times> 'w"
  b_send :: "int \<Rightarrow> u8 list \<Rightarrow> 'w \<Rightarrow> int \<times> 'w"

end
