(* ===== verification/PcbItems.thy ===== *)
theory PcbItems
  imports PcbCommon
begin

text \<open>
  The test items of \<^verbatim>\<open>echo_pcbatest_server.c\<close>: running a command, finding, starting and stopping a process, the file with
  the result of an item, and the test mode. What \<^verbatim>\<open>printf\<close> and \<^verbatim>\<open>puts\<close> show is left out, but a buffer that may hold no string and is printed as one is
  read as the log line reads it.
\<close>

subsection \<open>Processes\<close>

partial_function (option) sig_child_handle :: "'w board \<Rightarrow> 'w \<Rightarrow> 'w option" where
  "sig_child_handle B w = (let (pid, w) = b_waitpid B w in if pid > 0 then sig_child_handle B w else Some w)"

definition disable_wdt :: "'w board \<Rightarrow> 'w \<Rightarrow> int \<times> 'w" where
  "disable_wdt B w =
     (let (fd, w) = b_open B (ascii ''/dev/watchdog'') True w in
      if fd = -1 then (0, w) else (0, b_close B fd (b_write B fd (ascii ''V'') w)))"

definition run_cmd_to_shell :: "'w board \<Rightarrow> u8 list \<Rightarrow> 'w \<Rightarrow> int \<times> 'w" where
  "run_cmd_to_shell B cmd w =
     (case b_popen B cmd w of (None, w) \<Rightarrow> (-1, w)
      | (Some out, w) \<Rightarrow> (if take COMMAND_VALUESIZE out \<noteq> [] then 0 else -1, w))"

text \<open>The result, and what it left in \<^verbatim>\<open>r_buf\<close>, if it wrote there.\<close>

definition run_cmd_to_shell_duplex ::
    "'w board \<Rightarrow> u8 list \<Rightarrow> u8 list \<Rightarrow> u8 list option \<Rightarrow> 'w \<Rightarrow> int \<times> u8 list option \<times> 'w" where
  "run_cmd_to_shell_duplex B cmd w_buf match_str w =
     (case b_popen B (snprintf_s COMMAND_VALUESIZE (cmd @ ascii ''  '' @ w_buf)) w of (None, w) \<Rightarrow> (-1, None, w)
      | (Some out, w) \<Rightarrow>
          (case match_str of None \<Rightarrow> (if take COMMAND_VALUESIZE out = [] then -1 else 0, None, w)
           | Some ms \<Rightarrow> (0, List.find (\<lambda>l. strstr l ms) (fgets_lines out), w)))"

definition process_is_exists :: "'w board \<Rightarrow> u8 list \<Rightarrow> 'w \<Rightarrow> int \<times> 'w" where
  "process_is_exists B process_name w =
     (case b_popen B (snprintf_s COMMAND_VALUESIZE (ascii ''ps | grep '' @ process_name @ ascii '' | grep -v grep'')) w of
        (None, w) \<Rightarrow> (-1, w)
      | (Some out, w) \<Rightarrow> (if list_ex (\<lambda>l. strstr l process_name) (fgets_lines out) then 1 else 0, w))"

text \<open>
  The loop of \<^verbatim>\<open>pcba_stop_process\<close> and \<^verbatim>\<open>stop_pcba_test\<close>: as long as the process exists, \<open>kill\<close> it and wait a second, four times at
  most; \<open>fail\<close> is returned when it was there before the fourth.
\<close>

function stop_loop :: "'w board \<Rightarrow> u8 list \<Rightarrow> ('w \<Rightarrow> 'w) \<Rightarrow> int \<Rightarrow> nat \<Rightarrow> 'w \<Rightarrow> int \<times> 'w" where
  "stop_loop B process kill fail count w =
     (let (e, w) = process_is_exists B process w in
      if e > 0 then
        let w = b_sleep B 1000000 (kill w) in
        if count + 1 > 3 then (fail, w) else stop_loop B process kill fail (count + 1) w
      else (0, w))"
  by pat_completeness auto

termination
  by (relation "measure (\<lambda>(B, process, kill, fail, count, w). 4 - count)") auto

declare stop_loop.simps [simp del]

definition pcba_stop_process :: "'w board \<Rightarrow> u8 list \<Rightarrow> u8 list \<Rightarrow> 'w \<Rightarrow> int \<times> 'w" where
  "pcba_stop_process B process str w = stop_loop B process (b_system B str) (-1) 0 w"

definition pcba_start_process :: "'w board \<Rightarrow> u8 list \<Rightarrow> u8 list \<Rightarrow> 'w \<Rightarrow> int \<times> 'w" where
  "pcba_start_process B process str w =
     (let (e, w) = process_is_exists B process w in if e > 0 then (-1, w) else (0, b_system B str w))"

subsection \<open>Results\<close>

definition result_filename :: "u8 list \<Rightarrow> u8 list" where
  "result_filename item = snprintf_s COMMAND_VALUESIZE (TEST_RESULT_SAVE_PATH @ ascii ''/'' @ item @ ascii ''_result'')"

text \<open>
  \<^verbatim>\<open>w_buf\<close> is an array of 100 bytes. The result, and the bytes read into \<^verbatim>\<open>r_buf\<close>, which the caller has not initialised: the log line
  behind \<^verbatim>\<open>read\<close>, which also runs when it has failed, prints it as a string, and without a terminator among the bytes read that is undefined.
\<close>

definition pcba_test_result_rw :: "'w board \<Rightarrow> u8 list \<Rightarrow> u8 list \<Rightarrow> bool \<Rightarrow> 'w \<Rightarrow> (int \<times> u8 list \<times> 'w) option" where
  "pcba_test_result_rw B item w_buf rw w =
     (let file = result_filename item in
      if rw then
        if up_to_nul w_buf \<noteq> [] then
          let (fd, w) = b_open B file True w in
          Some (if fd < 0 then (-1, [], w) else (0, [], b_close B fd (b_write B fd w_buf w)))
        else Some (0, [], b_close B (-1) w)
      else
        let (fd, w) = b_open B file False w in
        if fd < 0 then Some (1, [], w)
        else
          let ((n, r), w) = b_read B fd COMMAND_VALUESIZE w in do {
            _ \<leftarrow> c_string r;
            Some (if n \<le> 0 then -1 else n, r, b_close B fd w)
          })"

text \<open>An array of \<open>n\<close> bytes, zero but for the string copied to it.\<close>

definition pad :: "nat \<Rightarrow> u8 list \<Rightarrow> u8 list" where
  "pad n s = s @ replicate (n - length s) 0"

definition pcba_test_item_process :: "'w board \<Rightarrow> PCBA_SINGLE_PARA list \<Rightarrow> 'w \<Rightarrow> (int \<times> 'w) option" where
  "pcba_test_item_process B rp w =
     (let item = para_valuestr (rp ! INDEX_TEST_ITEM);
          w = b_chmod B item w;
          (ret, out, w) = run_cmd_to_shell_duplex B item (para_valuestr (rp ! INDEX_MSG)) (Some TESTITEM_SEND_HEAD) w in
      if ret \<noteq> 0 then Some (TEST_FORK_ERR, w)
      else do {
        (ret, _, w) \<leftarrow> pcba_test_result_rw B item (pad COMMAND_VALUESIZE (case out of None \<Rightarrow> [] | Some l \<Rightarrow> l)) True w;
        Some (if ret \<noteq> 0 then (SAVE_RESULE_ERR, w) else (ret, w))
      })"

text \<open>
  \<^verbatim>\<open>fork\<close> returns twice; the model follows one of the two processes, told by the number it returns. The second component is \<^verbatim>\<open>err_code\<close>.
\<close>

definition start_pcba_test_proccess :: "'w board \<Rightarrow> PCBA_SINGLE_PARA list \<Rightarrow> int \<Rightarrow> 'w \<Rightarrow> (int \<times> int \<times> 'w) option" where
  "start_pcba_test_proccess B rp err_code w =
     (let (pid, w) = b_fork B w in
      if pid < 0 then Some (FORK_FAIL, err_code, w)
      else if pid = 0 then do { (ret, w) \<leftarrow> pcba_test_item_process B rp w; Some (CHILD_EXIT, ret, w) }
      else Some (PARENT_EXIT, err_code, w))"

definition start_pcba_test_preproccess :: "'w board \<Rightarrow> PCBA_SINGLE_PARA list \<Rightarrow> bool \<Rightarrow> 'w \<Rightarrow> int \<times> 'w" where
  "start_pcba_test_preproccess B rp test_flag w =
     (let ret = (if test_flag then 0 else TEST_MODE_ERR);
          item = para_valuestr (rp ! INDEX_TEST_ITEM);
          w = (if b_access B (result_filename item) w then b_remove B (result_filename item) w else w);
          (e, w) = process_is_exists B item w in
      if e \<noteq> 0 then (TEST_ITEM_BUSY, w) else (ret, w))"

definition stop_pcba_test :: "'w board \<Rightarrow> PCBA_SINGLE_PARA list \<Rightarrow> 'w \<Rightarrow> int \<times> 'w" where
  "stop_pcba_test B rp w =
     (let item = para_valuestr (rp ! INDEX_TEST_ITEM) in
      stop_loop B item (\<lambda>w. snd (run_cmd_to_shell B (snprintf_s COMMAND_VALUESIZE (ascii ''busybox killall '' @ item)) w))
        STOP_TEST_ERR 0 w)"

text \<open>
  The answer to a query: the result, the message, the result of the test and its error code. \<^verbatim>\<open>sscanf\<close> reads the buffer up to its terminator.
\<close>

definition query_test_result ::
    "'w board \<Rightarrow> u8 list \<Rightarrow> u8 list \<Rightarrow> u8 list \<Rightarrow> 'w \<Rightarrow> (int \<times> u8 list \<times> u8 list \<times> int \<times> 'w) option" where
  "query_test_result B item msg result w = do {
      (ret, r, w) \<leftarrow> pcba_test_result_rw B item [] False w;
      if ret = 1 then Some (0, msg, RESULT_TESTING, 0, w)
      else if ret = -1 then Some (QUERY_RESULT_ERR, msg, result, 0, w)
      else do {
        buf \<leftarrow> c_string r;
        (n, msg, result, err) \<leftarrow> sscanf_msg buf msg result 0;
        if n \<noteq> 3 then do {
          (n, result, err) \<leftarrow> sscanf_nomsg buf result err;
          if n \<noteq> 2 then Some (QUERY_RESULT_ERR, msg, result, 0, w) else Some (0, msg, result, err, w)
        } else Some (0, msg, result, err, w)
      }
    }"

subsection \<open>The test mode\<close>

definition enter_pcba_test_mode :: "'w board \<Rightarrow> 'w \<Rightarrow> int \<times> bool \<times> 'w" where
  "enter_pcba_test_mode B w = (0, True, b_system B (ascii ''close_wakeWord.sh'') w)"

partial_function (option) remove_results :: "'w board \<Rightarrow> addr \<Rightarrow> 'w \<Rightarrow> 'w option" where
  "remove_results B dir w =
     (case b_readdir B dir w of (None, w) \<Rightarrow> Some w
      | (Some name, w) \<Rightarrow>
          remove_results B dir
            (if strstr name (ascii ''_result'')
             then b_remove B (snprintf_s COMMAND_VALUESIZE (TEST_RESULT_SAVE_PATH @ ascii ''/'' @ name)) w
             else w))"

definition exit_pcba_test_mode :: "'w board \<Rightarrow> bool \<Rightarrow> 'w \<Rightarrow> (int \<times> bool \<times> 'w) option" where
  "exit_pcba_test_mode B test_flag w =
     (let (dir, w) = b_opendir B TEST_RESULT_SAVE_PATH w in
      if dir = NULL then Some (EXIT_TEST_ERR, test_flag, w)
      else do { w \<leftarrow> remove_results B dir w; Some (0, False, b_closedir B dir w) })"

end
