(* ===== verification/PcbServer.thy ===== *)
theory PcbServer
  imports PcbItems CJsonText
begin

text \<open>
  The protocol of \<^verbatim>\<open>echo_pcbatest_server.c\<close>: a JSON object with a command is parsed into the parameters received, carried out,
  and answered with a JSON object of the parameters sent. \<open>D\<close> and \<open>f\<close> are the arithmetic and the bound of the
  JSON functions; \<open>m\<close> is their memory.
\<close>

subsection \<open>Checking a parameter\<close>

definition tcp_command_check :: "nat \<Rightarrow> u8 list \<Rightarrow> int" where
  "tcp_command_check index str =
     (if index = INDEX_TYPE then (if str \<noteq> RECV_TYPE_NAME then CMD_TYPE_ERR else CMD_CHK_OK)
      else if index = INDEX_TEST_ITEM then CMD_CHK_OK
      else if index = INDEX_CMD then (if str \<notin> set recv_cmd_type then CMD_ERR else CMD_CHK_OK)
      else if index = INDEX_MSG then CMD_CHK_OK
      else RECV_FORMAT_ERR)"

subsection \<open>The answer\<close>

definition no_result_cmd :: "u8 list \<Rightarrow> bool" where
  "no_result_cmd cmd \<longleftrightarrow> cmd = recv_cmd_type ! START_CMD \<or> cmd = recv_cmd_type ! STOP_CMD"

definition no_item_cmd :: "u8 list \<Rightarrow> bool" where
  "no_item_cmd cmd \<longleftrightarrow> cmd = recv_cmd_type ! ENTER_CMD \<or> cmd = recv_cmd_type ! EXIT_CMD"

text \<open>\<^verbatim>\<open>strcpy\<close> to the parameter \<open>i\<close> sent, unless it is left out.\<close>

definition fill_para :: "nat \<Rightarrow> u8 list \<Rightarrow> PCBA_SINGLE_PARA list \<Rightarrow> PCBA_SINGLE_PARA list option" where
  "fill_para i s ps = do {
     p \<leftarrow> arr_get ps i;
     if \<not> para_opt p then do {
       v \<leftarrow> str_cpy COMMAND_VALUESIZE s;
       arr_set ps i (p\<lparr>para_valuestr := v\<rparr>)
     } else Some ps
   }"

definition omit_para :: "nat \<Rightarrow> PCBA_SINGLE_PARA list \<Rightarrow> PCBA_SINGLE_PARA list option" where
  "omit_para i ps = do { p \<leftarrow> arr_get ps i; arr_set ps i (p\<lparr>para_opt := True\<rparr>) }"

text \<open>The decimal text of an \<^verbatim>\<open>int\<close> always fits the 20 bytes of \<^verbatim>\<open>str_err_code\<close>.\<close>

definition tcp_command_fill ::
    "PCBA_COMMAND_PARA \<Rightarrow> u8 list \<Rightarrow> u8 list \<Rightarrow> u8 list \<Rightarrow> int \<Rightarrow> PCBA_COMMAND_PARA option" where
  "tcp_command_fill cp status msg result err_code = do {
     item \<leftarrow> map_option para_valuestr (arr_get (recv_paras cp) INDEX_TEST_ITEM);
     cmd \<leftarrow> map_option para_valuestr (arr_get (recv_paras cp) INDEX_CMD);
     res \<leftarrow> map_option para_name (arr_get (send_paras cp) INDEX_RES);
     sp \<leftarrow> (if no_item_cmd cmd then do { sp \<leftarrow> omit_para INDEX_TEST_ITEM (send_paras cp); omit_para INDEX_RESULT sp }
            else if no_result_cmd cmd then omit_para INDEX_RESULT (send_paras cp)
            else Some (send_paras cp));
     sp \<leftarrow> (if status = NAK_STA then omit_para INDEX_RESULT sp else Some sp);
     sp \<leftarrow> fill_para INDEX_TYPE res sp;
     sp \<leftarrow> fill_para INDEX_TEST_ITEM item sp;
     sp \<leftarrow> fill_para INDEX_RES cmd sp;
     sp \<leftarrow> fill_para INDEX_MSG msg sp;
     sp \<leftarrow> fill_para INDEX_STATUS status sp;
     sp \<leftarrow> fill_para INDEX_RESULT result sp;
     sp \<leftarrow> fill_para INDEX_ERRCODE (fmt_d err_code) sp;
     Some (cp\<lparr>send_paras := sp\<rparr>)
   }"

text \<open>The loop adds the parameters that are not left out. The macro \<^verbatim>\<open>cJSON_AddStringToObject\<close> makes a string and adds it.\<close>

fun add_paras :: "'d double_ops \<Rightarrow> addr \<Rightarrow> PCBA_SINGLE_PARA list \<Rightarrow> 'd jmem \<Rightarrow> 'd jmem option" where
  "add_paras D object [] m = Some m"
| "add_paras D object (p # ps) m =
     (if para_opt p then add_paras D object ps m
      else do {
        (item, m) \<leftarrow> cJSON_CreateString D (Some (para_valuestr p @ [0])) m;
        m \<leftarrow> cJSON_AddItemToObject object (Some (para_name p @ [0])) item m;
        add_paras D object ps m
      })"

definition tcp_command_creat ::
    "'d double_ops \<Rightarrow> nat \<Rightarrow> u8 list \<Rightarrow> PCBA_SINGLE_PARA list \<Rightarrow> 'd jmem \<Rightarrow> (int \<times> u8 list \<times> 'd jmem) option" where
  "tcp_command_creat D f send_buf sp m = do {
     (sendJSON, m) \<leftarrow> cJSON_CreateObject D m;
     if sendJSON = NULL then Some (SEND_FORMAT_ERR, send_buf, m)
     else do {
       m \<leftarrow> add_paras D sendJSON sp m;
       (out, m) \<leftarrow> cJSON_Print D f sendJSON m;
       if out = NULL then do { m \<leftarrow> cJSON_Delete f sendJSON m; Some (SEND_FORMAT_ERR, send_buf, m) }
       else do {
         s \<leftarrow> string_at m out;
         (ret, send_buf) \<leftarrow>
           (if length s > length send_buf then Some (SEND_FORMAT_ERR, send_buf)
            else if length s < length send_buf then Some (0, s @ 0 # drop (length s + 1) send_buf)
            else None);
         m \<leftarrow> cJSON_Delete f sendJSON m;
         m \<leftarrow> free_str out m;
         Some (ret, send_buf, m)
       }
     }
   }"

text \<open>
  \<open>junk\<close> is what the 200 bytes of \<^verbatim>\<open>send_buf\<close> hold before; all of them are sent.
\<close>

definition tcp_command_send ::
    "'w board \<Rightarrow> 'd double_ops \<Rightarrow> nat \<Rightarrow> u8 list \<Rightarrow> int \<Rightarrow> PCBA_COMMAND_PARA \<Rightarrow> u8 list \<Rightarrow> u8 list \<Rightarrow> u8 list \<Rightarrow> int \<Rightarrow>
     'w \<Rightarrow> 'd jmem \<Rightarrow> (int \<times> 'w \<times> 'd jmem) option" where
  "tcp_command_send B D f junk stock_fd cp status msg result err_code w m = do {
     cp \<leftarrow> tcp_command_fill cp status msg result err_code;
     (ret, send_buf, m) \<leftarrow> tcp_command_creat D f junk (send_paras cp) m;
     if ret \<noteq> 0 then Some (ret, w, m)
     else
       let (send_num, w) = b_send B stock_fd send_buf w in
       if send_num < 0 then Some (TCP_SEND_ERR, w, m) else Some (0, w, m)
   }"

subsection \<open>Receiving a command\<close>

definition tcp_command_para_init :: PCBA_COMMAND_PARA where
  "tcp_command_para_init =
     \<lparr>recv_paras = map (\<lambda>p. zero_para\<lparr>para_name := para_name p, para_opt := para_opt p\<rparr>) recv_cmd_target,
      send_paras = map (\<lambda>p. zero_para\<lparr>para_name := para_name p\<rparr>) send_cmd_target\<rparr>"

text \<open>The loop over the parameters: \<open>num\<close>, the parameters, \<^verbatim>\<open>err_code\<close> and \<^verbatim>\<open>ret\<close>.\<close>

fun parse_paras ::
    "'d jmem \<Rightarrow> addr \<Rightarrow> nat list \<Rightarrow> PCBA_SINGLE_PARA list \<Rightarrow> int \<Rightarrow> int \<Rightarrow> (int \<times> PCBA_SINGLE_PARA list) option" where
  "parse_paras m recvJSON [] rp err_code ret = Some (ret, rp)"
| "parse_paras m recvJSON (num # nums) rp err_code ret = do {
     p \<leftarrow> arr_get rp num;
     sub \<leftarrow> cJSON_GetObjectItem m recvJSON (Some (para_name p @ [0]));
     if sub \<noteq> NULL then do {
       t \<leftarrow> rd (jitems m) sub jtype;
       v \<leftarrow> rd (jitems m) sub jvaluestring;
       if t \<noteq> cJSON_String \<or> v = NULL then Some (RECV_FORMAT_ERR, rp)
       else do {
         s \<leftarrow> string_at m v;
         if length s > COMMAND_VALUESIZE then Some (CMD_OVERLONG, rp)
         else do {
           s \<leftarrow> str_cpy COMMAND_VALUESIZE s;
           rp \<leftarrow> arr_set rp num (p\<lparr>para_valuestr := s\<rparr>);
           let (err_code, ret) =
             (if err_code = 0 then let e = tcp_command_check num s in (e, if e \<noteq> 0 then e else ret) else (err_code, ret)) in
           parse_paras m recvJSON nums rp err_code ret
         }
       }
     }
     else if \<not> para_opt p then Some (RECV_FORMAT_ERR, rp)
     else parse_paras m recvJSON nums rp err_code ret
   }"

definition tcp_command_parse ::
    "'d double_ops \<Rightarrow> nat \<Rightarrow> u8 list \<Rightarrow> PCBA_SINGLE_PARA list \<Rightarrow> 'd jmem \<Rightarrow> (int \<times> PCBA_SINGLE_PARA list \<times> 'd jmem) option" where
  "tcp_command_parse D f recv_buf rp m = do {
     (recvJSON, m) \<leftarrow> cJSON_Parse D f (Some recv_buf) m;
     if recvJSON = NULL then Some (RECV_FORMAT_ERR, rp, m)
     else do {
       (ret, rp) \<leftarrow> parse_paras m recvJSON [0..<length recv_cmd_target] rp 0 0;
       m \<leftarrow> cJSON_Delete f recvJSON m;
       Some (ret, rp, m)
     }
   }"

subsection \<open>Carrying out a command\<close>

text \<open>
  The commands, up to the label \<^verbatim>\<open>SEND_CMD\<close>: \<open>None\<close> in the first component is the jump to \<^verbatim>\<open>EXIT\<close>, else it holds \<^verbatim>\<open>err_code\<close>, \<^verbatim>\<open>ret\<close>,
  \<^verbatim>\<open>msg\<close> and \<^verbatim>\<open>result\<close>; then \<^verbatim>\<open>fork_status\<close>, \<^verbatim>\<open>test_flag\<close> and the system.
\<close>

type_synonym 'w command_end = "((int \<times> int \<times> u8 list \<times> u8 list) option \<times> int \<times> bool \<times> 'w) option"

definition start_command :: "'w board \<Rightarrow> PCBA_SINGLE_PARA list \<Rightarrow> bool \<Rightarrow> 'w \<Rightarrow> 'w command_end" where
  "start_command B rp test_flag w =
     (let (err_code, w) = start_pcba_test_preproccess B rp test_flag w;
          item = para_valuestr (rp ! INDEX_TEST_ITEM) in
      if err_code = 0 \<and> item = STORAGE_TESTITEM then do {
        (fork_status, err_code, w) \<leftarrow> start_pcba_test_proccess B rp err_code w;
        if fork_status \<noteq> CHILD_EXIT then Some (None, fork_status, test_flag, w)
        else if err_code = 0 then do {
          (ret, msg, result, err_code, w) \<leftarrow> query_test_result B item [] RESULT_TESTING w;
          Some (Some (if ret \<noteq> 0 then ret else err_code, ret, msg, result), fork_status, test_flag, w)
        }
        else Some (Some (err_code, -1, [], RESULT_TESTING), fork_status, test_flag, w)
      }
      else Some (Some (err_code, -1, [], RESULT_TESTING), PARENT_EXIT, test_flag, w))"

definition do_command :: "'w board \<Rightarrow> int \<Rightarrow> PCBA_SINGLE_PARA list \<Rightarrow> bool \<Rightarrow> 'w \<Rightarrow> 'w command_end" where
  "do_command B err_code rp test_flag w =
     (let cmd = para_valuestr (rp ! INDEX_CMD);
          send = (\<lambda>err_code test_flag w. Some (Some (err_code, -1, [], RESULT_TESTING), PARENT_EXIT, test_flag, w)) in
      if err_code \<noteq> 0 then send err_code test_flag w
      else if cmd = recv_cmd_type ! ENTER_CMD then
        let (err_code, test_flag, w) = enter_pcba_test_mode B w in send err_code test_flag w
      else if cmd = recv_cmd_type ! EXIT_CMD then do {
        (err_code, test_flag, w) \<leftarrow> exit_pcba_test_mode B test_flag (b_sleep B 2000 w);
        send err_code test_flag w
      }
      else if cmd = recv_cmd_type ! START_CMD then start_command B rp test_flag w
      else if cmd = recv_cmd_type ! STOP_CMD then
        let (err_code, w) = stop_pcba_test B rp w in send err_code test_flag w
      else if cmd = recv_cmd_type ! QUERY_CMD then do {
        (ret, msg, result, err_code, w) \<leftarrow> query_test_result B (para_valuestr (rp ! INDEX_TEST_ITEM)) [] RESULT_TESTING w;
        Some (Some (if ret \<noteq> 0 then ret else err_code, ret, msg, result), PARENT_EXIT, test_flag, w)
      }
      else send CMD_ERR test_flag w)"

text \<open>\<^verbatim>\<open>test_flag\<close>, a static variable, is passed on; the first component is the returned \<^verbatim>\<open>fork_status\<close>.\<close>

definition tcp_command_process ::
    "'w board \<Rightarrow> 'd double_ops \<Rightarrow> nat \<Rightarrow> u8 list \<Rightarrow> int \<Rightarrow> int \<Rightarrow> PCBA_COMMAND_PARA \<Rightarrow> bool \<Rightarrow> 'w \<Rightarrow> 'd jmem \<Rightarrow>
     (int \<times> bool \<times> 'w \<times> 'd jmem) option" where
  "tcp_command_process B D f junk stock_fd err_code cp test_flag w m = do {
     let rp = recv_paras cp;
     (reply, fork_status, test_flag, w) \<leftarrow> do_command B err_code rp test_flag w;
     case reply of None \<Rightarrow> Some (fork_status, test_flag, w, m)
     | Some (err_code, ret, msg, result) \<Rightarrow> do {
         let status = (if err_code AND ret \<noteq> 0 then NAK_STA else ACK_STA);
         (ret, w, m) \<leftarrow> tcp_command_send B D f junk stock_fd cp status msg result err_code w m;
         if ret \<noteq> 0 then Some (fork_status, test_flag, w, m)
         else if err_code \<noteq> 0 then Some (fork_status, test_flag, w, m)
         else if para_valuestr (rp ! INDEX_CMD) = recv_cmd_type ! START_CMD \<and>
             para_valuestr (rp ! INDEX_TEST_ITEM) \<noteq> STORAGE_TESTITEM then do {
           (fork_status, _, w) \<leftarrow> start_pcba_test_proccess B rp err_code w;
           Some (fork_status, test_flag, w, m)
         }
         else Some (fork_status, test_flag, w, m)
       }
   }"

subsection \<open>The server\<close>

text \<open>
  The loop of \<^verbatim>\<open>tcp_client_process\<close>, up to the status the process exits with. A terminator behind the 200 bytes of
  \<^verbatim>\<open>recv_buf\<close> is undefined; a log line reads the array as a string before the terminator is there. \<open>junk\<close> gives the garbage in \<^verbatim>\<open>send_buf\<close> for each turn.
\<close>

partial_function (option) client_loop ::
    "'w board \<Rightarrow> 'd double_ops \<Rightarrow> nat \<Rightarrow> (nat \<Rightarrow> u8 list) \<Rightarrow> int \<Rightarrow> nat \<Rightarrow> u8 list \<Rightarrow> bool \<Rightarrow> 'w \<Rightarrow> 'd jmem \<Rightarrow> (int \<times> 'w) option" where
  "client_loop B D f junk stock_fd turn recv_buf test_flag w m =
     (let ((recv_num, data), w) = b_recv B stock_fd (length recv_buf) w;
          recv_buf = (if recv_num \<le> 0 then recv_buf else data @ drop (length data) recv_buf) in do {
      _ \<leftarrow> c_string recv_buf;
      if recv_num \<le> 0 then Some (-1, b_close B stock_fd (b_system B (ascii ''restart_wakeWord.sh'') w))
      else do {
        recv_buf \<leftarrow> arr_set recv_buf (nat recv_num) 0;
        let cp = tcp_command_para_init;
        (parse_ret, rp, m) \<leftarrow> tcp_command_parse D f recv_buf (recv_paras cp) m;
        if parse_ret = RECV_FORMAT_ERR then client_loop B D f junk stock_fd (turn + 1) recv_buf test_flag w m
        else do {
          (proc_ret, test_flag, w, m) \<leftarrow>
            tcp_command_process B D f (junk turn) stock_fd parse_ret (cp\<lparr>recv_paras := rp\<rparr>) test_flag w m;
          if proc_ret = FORK_FAIL then Some (-1, b_close B stock_fd (b_system B (ascii ''restart_wakeWord.sh'') w))
          else if proc_ret = CHILD_EXIT then Some (0, w)
          else client_loop B D f junk stock_fd (turn + 1) recv_buf test_flag w m
        }
      }})"

definition tcp_client_process ::
    "'w board \<Rightarrow> 'd double_ops \<Rightarrow> nat \<Rightarrow> (nat \<Rightarrow> u8 list) \<Rightarrow> int \<Rightarrow> 'w \<Rightarrow> 'd jmem \<Rightarrow> (int \<times> 'w) option" where
  "tcp_client_process B D f junk stock_fd w m =
     client_loop B D f junk stock_fd 0 (replicate RECV_BUFFER_SIZE 0) False w m"

definition init_tcp :: "'w board \<Rightarrow> 'w \<Rightarrow> int \<times> 'w" where
  "init_tcp B w =
     (let (fd, w) = b_socket B w in
      if fd < 0 then (-1, w)
      else
        let (ret, w) = b_reuseaddr B fd w in
        if ret = -1 then (-1, w)
        else
          let (ret, w) = b_bind B fd 6666 w in
          if ret \<noteq> 0 then (-1, b_close B fd w)
          else
            let (ret, w) = b_listen B fd 10 w in
            if ret \<noteq> 0 then (-1, b_close B fd w) else (fd, w))"

text \<open>
  The loop of \<^verbatim>\<open>main\<close>: the status of the process, which is that of the client process in a child.
\<close>

partial_function (option) accept_loop ::
    "'w board \<Rightarrow> 'd double_ops \<Rightarrow> nat \<Rightarrow> (nat \<Rightarrow> u8 list) \<Rightarrow> int \<Rightarrow> 'w \<Rightarrow> 'd jmem \<Rightarrow> (int \<times> 'w) option" where
  "accept_loop B D f junk server_sockfd w m =
     (let (client_sockfd, w) = b_accept B server_sockfd w in
      if client_sockfd < 0 then Some (-1, b_close B server_sockfd w)
      else
        let (pid, w) = b_fork B w in
        if pid < 0 then Some (-1, b_close B server_sockfd w)
        else if pid = 0 then tcp_client_process B D f junk client_sockfd (b_close B server_sockfd w) m
        else accept_loop B D f junk server_sockfd (b_close B client_sockfd w) m)"

definition server_main :: "'w board \<Rightarrow> 'd double_ops \<Rightarrow> nat \<Rightarrow> (nat \<Rightarrow> u8 list) \<Rightarrow> 'w \<Rightarrow> 'd jmem \<Rightarrow> (int \<times> 'w) option" where
  "server_main B D f junk w m =
     (let (server_sockfd, w) = init_tcp B w in accept_loop B D f junk server_sockfd w m)"

end
