(* ===== verification/PcbAnswer.thy ===== *)
theory PcbAnswer
  imports PcbServer CJsonRound
begin

text \<open>
  The answer of \<^verbatim>\<open>echo_pcbatest_server.c\<close> in memory and as text: the object that \<open>add_paras\<close> builds item by item is a tree of
  strings, \<^verbatim>\<open>cJSON_Print\<close> writes its text, and all of it is freed again.
\<close>

subsection \<open>An object of strings\<close>

text \<open>The tree of an object whose members are strings, and its text, which is the same for any arithmetic.\<close>

definition string_object :: "'d double_ops \<Rightarrow> (u8 list \<times> u8 list) list \<Rightarrow> 'd jtree" where
  "string_object D fs = JTree cJSON_Object 0 (d_int D 0) None None (map (\<lambda>(n, v). JTree cJSON_String 0 (d_int D 0) (Some v) (Some n) []) fs)"

definition string_object_text :: "(u8 list \<times> u8 list) list \<Rightarrow> u8 list" where
  "string_object_text fs = object_text True 0 (map (\<lambda>(n, v). (n, str_text v)) fs)"

lemma string_object_text: "jtext D True 0 (string_object D fs) = string_object_text fs"
  by (simp add: string_object_def string_object_text_def comp_def split_def)

lemma string_object_sizes:
  "allocs (string_object D fs) = (if fs = [] then 1 else 3 + 2 * length fs)" "tsize (string_object D fs) = 1 + length fs"
  by (simp_all add: string_object_def comp_def case_prod_beta sum_list_triv)

text \<open>\<open>string_items m xs fs qs\<close>: the items \<open>xs\<close> hold the members \<open>fs\<close>; \<open>qs\<close> are the blocks of the values and names.\<close>

definition string_item :: "'d double_ops \<Rightarrow> 'd jmem \<Rightarrow> addr \<Rightarrow> (u8 list \<times> u8 list) \<times> addr \<times> addr \<Rightarrow> bool" where
  "string_item D m x f \<longleftrightarrow> (\<exists>c. jitems m x = Some c \<and> jtype c = cJSON_String \<and> jvalueint c = 0 \<and> jvaluedouble c = d_int D 0 \<and> jchild c = NULL \<and>
     jvaluestring c = fst (snd f) \<and> jstring c = snd (snd f) \<and> fst (snd f) \<noteq> NULL \<and> snd (snd f) \<noteq> NULL \<and>
     jstrs m (fst (snd f)) = Some (snd (fst f) @ [0]) \<and> jstrs m (snd (snd f)) = Some (fst (fst f) @ [0]) \<and>
     0 \<notin> set (fst (fst f)) \<and> 0 \<notin> set (snd (fst f)))"

definition blocks :: "((u8 list \<times> u8 list) \<times> addr \<times> addr) list \<Rightarrow> addr list" where
  "blocks qs = concat (map (\<lambda>f. [fst (snd f), snd (snd f)]) qs)"

lemma string_items_trees:
  "dll (jitems m) p prev xs \<Longrightarrow> list_all2 (string_item D m) xs qs \<Longrightarrow>
   trees m p prev (map (\<lambda>(n, v). JTree cJSON_String 0 (d_int D 0) (Some v) (Some n) []) (map fst qs)) xs (blocks qs)"
proof (induction xs arbitrary: p prev qs)
  case Nil
  then show ?case by (simp add: blocks_def)
next
  case (Cons x xs)
  then obtain n v s k qs' where q: "qs = ((n, v), s, k) # qs'" "string_item D m x ((n, v), s, k)" "list_all2 (string_item D m) xs qs'"
    by (cases qs) auto
  obtain c where c: "p = x" "x \<noteq> NULL" "jitems m x = Some c" "jprev c = prev" "dll (jitems m) (jnext c) x xs" using Cons.prems(1) by auto
  have "trees m (jnext c) x (map (\<lambda>(n, v). JTree cJSON_String 0 (d_int D 0) (Some v) (Some n) []) (map fst qs')) xs (blocks qs')"
    by (rule Cons.IH [OF c(5) q(3)])
  then show ?case using q(2) c by (simp add: q(1) string_item_def blocks_def str_rep_def own_strings_def)
qed

text \<open>The object under construction: its item, and what has been added.\<close>

definition building :: "'d double_ops \<Rightarrow> 'd jmem \<Rightarrow> 'd jmem \<Rightarrow> addr \<Rightarrow> addr list \<Rightarrow> ((u8 list \<times> u8 list) \<times> addr \<times> addr) list \<Rightarrow> nat \<Rightarrow> bool" where
  "building D m0 m a xs qs k \<longleftrightarrow> children m a xs \<and> list_all2 (string_item D m) xs qs \<and>
     (\<exists>c. jitems m a = Some c \<and> jnext c = NULL \<and> jprev c = NULL \<and> jtype c = cJSON_Object \<and> jvalueint c = 0 \<and> jvaluedouble c = d_int D 0 \<and>
        jvaluestring c = NULL \<and> jstring c = NULL) \<and>
     distinct (a # xs @ blocks qs) \<and> set (a # xs @ blocks qs) \<subseteq> set (take k (jplan m0)) \<and>
     touches m0 m (set (a # xs)) (set (blocks qs)) k \<and> ep m = ep m0"

lemma building_trees:
  assumes "building D m0 m a xs qs k"
  shows "trees m a NULL [string_object D (map fst qs)] (a # xs) (blocks qs)"
proof -
  obtain c where c: "jitems m a = Some c" "jnext c = NULL" "jprev c = NULL" "jtype c = cJSON_Object" "jvalueint c = 0" "jvaluedouble c = d_int D 0"
    "jvaluestring c = NULL" "jstring c = NULL" using assms by (auto simp: building_def)
  have "a \<noteq> NULL" "dll (jitems m) (jchild c) NULL xs" using assms c(1) by (auto simp: building_def children_def)
  moreover from string_items_trees [OF this(2)]
  have "trees m (jchild c) NULL (map (\<lambda>(n, v). JTree cJSON_String 0 (d_int D 0) (Some v) (Some n) []) (map fst qs)) xs (blocks qs)"
    using assms by (auto simp: building_def)
  ultimately show ?thesis using c by (simp add: string_object_def own_strings_def str_rep_def)
qed

lemma building_fresh: "building D m0 m a xs qs k \<Longrightarrow> fresh m0 \<Longrightarrow> fresh m"
  by (rule fresh_touches [of m0]) (auto simp: building_def)

lemma relinked_mono:
  assumes "relinked a X m m'" "X \<subseteq> Y"
  shows "relinked a Y m m'"
proof -
  from assms(1) obtain h where h: "m' = m\<lparr>jitems := h\<rparr>" "dom h = dom (jitems m)"
    "\<And>x c. jitems m x = Some c \<Longrightarrow> \<exists>n p ch. h x = Some (c\<lparr>jnext := n, jprev := p, jchild := ch\<rparr>) \<and>
        (x \<notin> X \<longrightarrow> n = jnext c \<and> p = jprev c) \<and> (x \<noteq> a \<longrightarrow> ch = jchild c)"
    unfolding relinked_def by blast
  show ?thesis unfolding relinked_def
  proof (intro exI [of _ h] conjI allI impI)
    fix x c assume "jitems m x = Some c"
    from h(3) [OF this] show "\<exists>n p ch. h x = Some (c\<lparr>jnext := n, jprev := p, jchild := ch\<rparr>) \<and>
        (x \<notin> Y \<longrightarrow> n = jnext c \<and> p = jprev c) \<and> (x \<noteq> a \<longrightarrow> ch = jchild c)"
      using assms(2) by blast
  qed (rule h(1,2))+
qed

lemma add_links:
  assumes ch: "children m a xs" and it: "item \<noteq> NULL" "item \<notin> set (a # xs)" "jitems m item = Some ci" "jnext ci = NULL" "jprev ci = NULL"
  shows "\<exists>m'. cJSON_AddItemToArray a item m = Some m' \<and> children m' a (xs @ [item]) \<and> relinked a (insert item (set xs)) m m'"
proof -
  obtain m' where m': "cJSON_AddItemToArray a item m = Some m'" "children m' a (xs @ [item])" "relinked a {item, last (a # xs)} m m'"
    using AddItemToArray_ok [OF assms] by blast
  have "relinked a (insert item (set xs)) m m'"
  proof (cases "xs = []")
    case True
    obtain c where c: "a \<noteq> NULL" "jitems m a = Some c" "jchild c = NULL" using ch True by (auto simp: children_def)
    then have "m' = m\<lparr>jitems := (jitems m)(a \<mapsto> c\<lparr>jchild := item\<rparr>)\<rparr>" using m'(1) it(1) by (simp add: cJSON_AddItemToArray_def)
    then show ?thesis using relinked_upd [OF relinked_refl c(2), where f = "\<lambda>c. c\<lparr>jchild := item\<rparr>" and n = "jnext c" and p = "jprev c" and ch = item]
      by simp
  next
    case False
    then have "{item, last (a # xs)} \<subseteq> insert item (set xs)" by auto
    then show ?thesis using relinked_mono [OF m'(3)] by blast
  qed
  then show ?thesis using m' by blast
qed

lemma relinkedE:
  assumes "relinked a X m m'" "jitems m x = Some c"
  obtains n p ch where "jitems m' x = Some (c\<lparr>jnext := n, jprev := p, jchild := ch\<rparr>)" "x \<notin> X \<Longrightarrow> n = jnext c \<and> p = jprev c" "x \<noteq> a \<Longrightarrow> ch = jchild c"
  using assms unfolding relinked_def by fastforce

lemma relinked_same:
  assumes "relinked a X m m'"
  shows "jstrs m' = jstrs m" "jptrs m' = jptrs m" "jplan m' = jplan m" "ep m' = ep m" "dom (jitems m') = dom (jitems m)"
    "x \<notin> insert a X \<Longrightarrow> jitems m' x = jitems m x"
proof -
  show "jstrs m' = jstrs m" "jptrs m' = jptrs m" "jplan m' = jplan m" "ep m' = ep m" "dom (jitems m') = dom (jitems m)"
  proof -
    obtain h where "m' = m\<lparr>jitems := h\<rparr>" "dom h = dom (jitems m)" using assms unfolding relinked_def by blast
    then show "jstrs m' = jstrs m" "jptrs m' = jptrs m" "jplan m' = jplan m" "ep m' = ep m" "dom (jitems m') = dom (jitems m)" by simp_all
  qed
  then show "jitems m' x = jitems m x" if "x \<notin> insert a X"
  proof (cases "jitems m x")
    case (Some c)
    have c: "c\<lparr>jnext := jnext c, jprev := jprev c, jchild := jchild c\<rparr> = c" by simp
    show ?thesis by (rule relinkedE [OF assms Some]) (use that Some c in auto)
  qed (metis \<open>dom (jitems m') = dom (jitems m)\<close> domIff)
qed

lemma string_item_relinked:
  assumes "string_item D m x f" "relinked a X m m'" "x \<noteq> a"
  shows "string_item D m' x f"
proof -
  obtain c where c: "jitems m x = Some c" using assms(1) by (auto simp: string_item_def)
  obtain n p where "jitems m' x = Some (c\<lparr>jnext := n, jprev := p, jchild := jchild c\<rparr>)"
    by (rule relinkedE [OF assms(2) c]) (use assms(3) in blast)
  then show ?thesis using assms(1) c relinked_same(1) [OF assms(2)] by (auto simp: string_item_def)
qed

lemma add_string_step:
  assumes b: "building D m0 m a xs qs k" and f: "fresh m0" and p: "jplan m = i # s # q # as" and z: "0 \<notin> set n" "0 \<notin> set v"
  shows "\<exists>m1 m'. cJSON_CreateString D (Some (v @ [0])) m = Some (i, m1) \<and> cJSON_AddItemToObject a (Some (n @ [0])) i m1 = Some m' \<and>
    building D m0 m' a (xs @ [i]) (qs @ [((n, v), s, q)]) (k + 3) \<and> jplan m' = as"
proof -
  have fm: "fresh m" by (rule building_fresh [OF b f])
  have ne: "i \<noteq> NULL" "s \<noteq> NULL" "q \<noteq> NULL" "s \<noteq> q" "i \<noteq> s" "i \<noteq> q" "jstrs m s = None" "jstrs m q = None" "jitems m i = None"
    using fm p by (auto simp: fresh_def)
  have b': "children m a xs" "list_all2 (string_item D m) xs qs" "distinct (a # xs @ blocks qs)"
    "set (a # xs @ blocks qs) \<subseteq> set (take k (jplan m0))" "touches m0 m (set (a # xs)) (set (blocks qs)) k" "ep m = ep m0"
    using b by (simp_all add: building_def)
  obtain ca where ca: "jitems m a = Some ca" "jnext ca = NULL" "jprev ca = NULL" "jtype ca = 6" "jvalueint ca = 0" "jvaluedouble ca = d_int D 0"
    "jvaluestring ca = NULL" "jstring ca = NULL" using b by (auto simp: building_def)
  have plan: "drop k (jplan m0) = i # s # q # as" using b'(5) p by (simp add: touches_def)
  have disj: "set (take k (jplan m0)) \<inter> {i, s, q} = {}"
    using set_take_disj_set_drop_if_distinct [of "jplan m0" k k] f plan by (auto simp: fresh_def)
  have old: "a \<noteq> i" "i \<notin> set xs" "s \<notin> set (blocks qs)" "q \<notin> set (blocks qs)" "s \<notin> set (a # xs)" "q \<notin> set (a # xs)" "i \<notin> set (blocks qs)"
    using b'(4) disj by auto
  let ?c = "(zero_item D)\<lparr>jtype := 4, jvaluestring := s\<rparr>"
  define m1 where "m1 = m\<lparr>jplan := q # as, jitems := (jitems m)(i \<mapsto> ?c), jstrs := (jstrs m)(s \<mapsto> v @ [0])\<rparr>"
  define m2 where "m2 = m\<lparr>jplan := as, jstrs := (jstrs m)(s \<mapsto> v @ [0], q \<mapsto> n @ [0]), jitems := (jitems m)(i \<mapsto> ?c\<lparr>jstring := q\<rparr>)\<rparr>"
  have cr: "cJSON_CreateString D (Some (v @ [0])) m = Some (i, m1)"
    using p ne(1,2) literal_ok [of "m\<lparr>jplan := s # q # as, jitems := (jitems m)(i \<mapsto> (zero_item D)\<lparr>jtype := 4\<rparr>)\<rparr>" s "q # as" v] z(2)
    by (simp add: cJSON_CreateString_def New_Item_ok m1_def)
  have "cJSON_AddItemToObject a (Some (n @ [0])) i m1 = cJSON_AddItemToArray a i m2"
    using ne(1,3) literal_ok [of m1 q as n] z(1) by (simp add: cJSON_AddItemToObject_def m1_def m2_def zero_item_def)
  moreover have ch2: "children m2 a xs" using b'(1) old(1,2) by (auto simp: children_def m2_def)
  moreover have c2: "jitems m2 i = Some (?c\<lparr>jstring := q\<rparr>)" by (simp add: m2_def)
  ultimately obtain m' where m': "cJSON_AddItemToObject a (Some (n @ [0])) i m1 = Some m'" "children m' a (xs @ [i])" "relinked a (insert i (set xs)) m2 m'"
    using add_links [OF ch2 ne(1) _ c2] old(1,2) by (auto simp: zero_item_def)
  note rel = relinked_same [OF m'(3)]
  have items: "list_all2 (string_item D m') (xs @ [i]) (qs @ [((n, v), s, q)])"
  proof (rule list_all2_appendI)
    have "string_item D m' x y" if "string_item D m x y" "x \<in> set xs" "y \<in> set qs" for x y
    proof (rule string_item_relinked [OF _ m'(3)])
      have "fst (snd y) \<in> set (blocks qs)" "snd (snd y) \<in> set (blocks qs)" using that(3) by (force simp: blocks_def)+
      then have "s \<noteq> fst (snd y)" "s \<noteq> snd (snd y)" "q \<noteq> fst (snd y)" "q \<noteq> snd (snd y)" "x \<noteq> i" using old that(2) by auto
      then show "string_item D m2 x y" using that(1) by (auto simp: string_item_def m2_def)
      show "x \<noteq> a" using b'(3) that(2) by auto
    qed
    then show "list_all2 (string_item D m') xs qs" by (rule list.rel_mono_strong [OF b'(2)])
    have "string_item D m2 i ((n, v), s, q)" using ne z by (simp add: string_item_def m2_def zero_item_def)
    then show "list_all2 (string_item D m') [i] [((n, v), s, q)]" using string_item_relinked [OF _ m'(3)] old(1) by simp
  qed
  have "building D m0 m' a (xs @ [i]) (qs @ [((n, v), s, q)]) (k + 3)"
    unfolding building_def
  proof (intro conjI)
    have a2: "jitems m2 a = Some ca" using ca(1) old(1) by (simp add: m2_def)
    have "a \<notin> insert i (set xs)" using old(1) b'(3) by auto
    then obtain c' where "jitems m' a = Some (ca\<lparr>jnext := jnext ca, jprev := jprev ca, jchild := c'\<rparr>)"
      using relinkedE [OF m'(3) a2] by metis
    then show "\<exists>c. jitems m' a = Some c \<and> jnext c = NULL \<and> jprev c = NULL \<and> jtype c = 6 \<and> jvalueint c = 0 \<and> jvaluedouble c = d_int D 0 \<and>
        jvaluestring c = NULL \<and> jstring c = NULL" using ca by simp
    have bl: "blocks (qs @ [((n, v), s, q)]) = blocks qs @ [s, q]" by (simp add: blocks_def)
    show "distinct (a # (xs @ [i]) @ blocks (qs @ [((n, v), s, q)]))" unfolding bl using b'(3) old ne by auto
    have "take (k + 3) (jplan m0) = take k (jplan m0) @ [i, s, q]" unfolding take_add plan by simp
    then show "set (a # (xs @ [i]) @ blocks (qs @ [((n, v), s, q)])) \<subseteq> set (take (k + 3) (jplan m0))" unfolding bl using b'(4) by auto
    have "touches m m' (set (a # xs @ [i])) {s, q} 3"
      using rel p by (auto simp: touches_def m2_def)
    from touches_trans [OF b'(5) this] show "touches m0 m' (set (a # xs @ [i])) (set (blocks (qs @ [((n, v), s, q)]))) (k + 3)"
      unfolding bl by (rule touches_mono) auto
    show "ep m' = ep m0" using rel(4) b'(6) by (simp add: m2_def)
  qed (rule m'(2), rule items)
  moreover have "jplan m' = as" using rel(3) by (simp add: m2_def)
  ultimately show ?thesis using cr m'(1) by blast
qed

subsection \<open>The answer as text\<close>

definition para_fields :: "PCBA_SINGLE_PARA list \<Rightarrow> (u8 list \<times> u8 list) list" where
  "para_fields ps = map (\<lambda>p. (para_name p, para_valuestr p)) (filter (\<lambda>p. \<not> para_opt p) ps)"

lemma add_paras_ok:
  assumes "building D m0 m a xs qs k" "fresh m0" "\<forall>(n, v)\<in>set (para_fields ps). 0 \<notin> set n \<and> 0 \<notin> set v"
    "3 * length (para_fields ps) \<le> length (jplan m)"
  shows "\<exists>m' ys rs. add_paras D a ps m = Some m' \<and> building D m0 m' a ys rs (k + 3 * length (para_fields ps)) \<and>
    map fst rs = map fst qs @ para_fields ps"
  using assms
proof (induction ps arbitrary: m xs qs k)
  case Nil
  then show ?case by (auto simp: para_fields_def)
next
  case (Cons p ps)
  show ?case
  proof (cases "para_opt p")
    case True
    then have "para_fields (p # ps) = para_fields ps" by (simp add: para_fields_def)
    then show ?thesis using Cons True by simp
  next
    case False
    then have pf: "para_fields (p # ps) = (para_name p, para_valuestr p) # para_fields ps" by (simp add: para_fields_def)
    obtain i s q as where pl: "jplan m = i # s # q # as"
      using Cons.prems(4) unfolding pf by (cases "jplan m"; cases "tl (jplan m)"; cases "tl (tl (jplan m))") auto
    have z: "0 \<notin> set (para_name p)" "0 \<notin> set (para_valuestr p)" using Cons.prems(3) unfolding pf by auto
    obtain m1 m' where m': "cJSON_CreateString D (Some (para_valuestr p @ [0])) m = Some (i, m1)"
      "cJSON_AddItemToObject a (Some (para_name p @ [0])) i m1 = Some m'"
      "building D m0 m' a (xs @ [i]) (qs @ [((para_name p, para_valuestr p), s, q)]) (k + 3)" "jplan m' = as"
      using add_string_step [OF Cons.prems(1,2) pl z] by blast
    obtain m2 ys rs where r: "add_paras D a ps m' = Some m2" "building D m0 m2 a ys rs (k + 3 + 3 * length (para_fields ps))"
      "map fst rs = map fst (qs @ [((para_name p, para_valuestr p), s, q)]) @ para_fields ps"
      using Cons.IH [OF m'(3) Cons.prems(2)] Cons.prems(3,4) pl m'(4) unfolding pf by auto
    show ?thesis using m'(1,2) r False unfolding pf
      by (intro exI [of _ m2] exI [of _ ys] exI [of _ rs]) (simp add: add.assoc)
  qed
qed

lemma building_start:
  assumes "fresh m" "jplan m = a # as"
  shows "cJSON_CreateObject D m = Some (a, m\<lparr>jplan := as, jitems := (jitems m)(a \<mapsto> (zero_item D)\<lparr>jtype := 6\<rparr>)\<rparr>)"
    "building D m (m\<lparr>jplan := as, jitems := (jitems m)(a \<mapsto> (zero_item D)\<lparr>jtype := 6\<rparr>)\<rparr>) a [] [] 1" "a \<noteq> NULL"
proof -
  show a: "a \<noteq> NULL" using assms by (auto simp: fresh_def)
  then show "cJSON_CreateObject D m = Some (a, m\<lparr>jplan := as, jitems := (jitems m)(a \<mapsto> (zero_item D)\<lparr>jtype := 6\<rparr>)\<rparr>)"
    using assms(2) by (simp add: cJSON_CreateObject_def create_typed_def New_Item_ok)
  show "building D m (m\<lparr>jplan := as, jitems := (jitems m)(a \<mapsto> (zero_item D)\<lparr>jtype := 6\<rparr>)\<rparr>) a [] [] 1"
    using assms(2) a by (simp add: building_def children_def blocks_def touches_def zero_item_def)
qed

text \<open>Items and strings allocated since are gone: only the plan has moved on.\<close>

lemma without_touches:
  assumes f: "fresh m" and t: "touches m n X S k" and sub: "X \<union> S \<subseteq> set (take k (jplan m))" and e: "ep n = ep m"
  shows "without X S n = m\<lparr>jplan := drop k (jplan m)\<rparr>"
proof -
  have none: "jitems m x = None" "jstrs m x = None" if "x \<in> X \<union> S" for x
    using sub f that in_set_takeD [of x k "jplan m"] by (auto simp: fresh_def)
  have "jitems n |` (- X) = jitems m" "jstrs n |` (- S) = jstrs m"
    using t none by (auto simp: fun_eq_iff restrict_map_def touches_def)
  then show ?thesis using t e by (simp add: without_def touches_def)
qed

definition answer_cost :: "nat \<Rightarrow> nat" where
  "answer_cost n = 1 + 3 * n + (if n = 0 then 1 else 3 + 2 * n)"

lemma answer_cost_alt: "answer_cost (length fs) = 1 + 3 * length fs + allocs (string_object D fs)"
  by (simp add: answer_cost_def string_object_sizes)

lemma creat_ok:
  assumes f: "fresh m" and z: "\<forall>(n, v)\<in>set (para_fields sp). 0 \<notin> set n \<and> 0 \<notin> set v" "length (para_fields sp) < 2 ^ 31"
    and p: "answer_cost (length (para_fields sp)) \<le> length (jplan m)" and g: "length (para_fields sp) + 1 < g"
  shows "tcp_command_creat D g send_buf sp m =
    (let text = string_object_text (para_fields sp); m' = m\<lparr>jplan := drop (answer_cost (length (para_fields sp))) (jplan m)\<rparr> in
     if length text > length send_buf then Some (SEND_FORMAT_ERR, send_buf, m')
     else if length text < length send_buf then Some (0, text @ 0 # drop (length text + 1) send_buf, m')
     else None)"
proof -
  let ?fs = "para_fields sp" and ?T = "string_object D (para_fields sp)"
  let ?n = "1 + 3 * length ?fs" and ?text = "string_object_text (para_fields sp)"
  obtain a as where a: "jplan m = a # as" using p by (cases "jplan m") (auto simp: answer_cost_def)
  note st = building_start(1,2) [OF f a, of D] building_start(3) [OF f a]
  obtain m2 ys rs where b: "add_paras D a sp (m\<lparr>jplan := as, jitems := (jitems m)(a \<mapsto> (zero_item D)\<lparr>jtype := 6\<rparr>)\<rparr>) = Some m2"
    "building D m m2 a ys rs ?n" "map fst rs = map fst [] @ ?fs"
    using add_paras_ok [OF st(2) f z(1)] p a by (auto simp: answer_cost_def)
  have rs: "map fst rs = ?fs" "length ys = length ?fs"
  proof -
    show r: "map fst rs = ?fs" using b(3) by simp
    have "length ys = length rs" using b(2) by (auto simp: building_def dest: list_all2_lengthD)
    then show "length ys = length ?fs" by (simp flip: r)
  qed
  have f2: "fresh m2" by (rule building_fresh [OF b(2) f])
  have t2: "touches m m2 (set (a # ys)) (set (blocks rs)) ?n" "set (a # ys @ blocks rs) \<subseteq> set (take ?n (jplan m))"
    "distinct (a # ys @ blocks rs)" "ep m2 = ep m" using b(2) by (simp_all add: building_def)
  have tr: "trees m2 a NULL [?T] (a # ys) (blocks rs)" using building_trees [OF b(2)] by (simp add: rs(1))
  obtain c where "holds m2 a ?T" using trees_hold [OF tr] by (auto simp: list_all2_Cons2)
  moreover have pr: "printable D ?T" using z(2) by (auto simp: string_object_def)
  ultimately have h: "holds m2 a ?T" "printable D ?T" by blast+
  have "allocs ?T \<le> length (jplan m2)" using p t2(1) unfolding answer_cost_alt [of _ D] by (simp add: touches_def)
  moreover have "tsize ?T < g" using g by (simp add: string_object_sizes)
  ultimately obtain q where q: "q \<in> set (take (allocs ?T) (jplan m2))"
    "cJSON_Print D g a m2 = Some (q, m2\<lparr>jplan := drop (allocs ?T) (jplan m2), jstrs := (jstrs m2)(q \<mapsto> ?text @ [0])\<rparr>)"
    using Print_ok [OF h f2, of g True] by (auto simp: string_object_text)
  define m3 where "m3 = m2\<lparr>jplan := drop (allocs ?T) (jplan m2), jstrs := (jstrs m2)(q \<mapsto> ?text @ [0])\<rparr>"
  have q0: "q \<noteq> NULL" "jstrs m2 q = None" using fresh_take [OF f2 q(1)] by simp_all
  have t3: "touches m2 m3 {} {q} (allocs ?T)" by (simp add: touches_def m3_def)
  have dom: "set (blocks rs) \<subseteq> dom (jstrs m2)" using trees_dom [OF tr] by blast
  then have qb: "q \<notin> set (blocks rs)" using q0(2) by blast
  have "agree (a # ys) (blocks rs) m2 m3" using qb by (auto simp: agree_def m3_def)
  then have del: "cJSON_Delete g a m3 = Some (without (set (a # ys)) (set (blocks rs)) m3)"
    by (rule Delete_agree [OF tr]) (use t2(3) g rs(2) in auto)
  have free: "free_str q (without (set (a # ys)) (set (blocks rs)) m3) = Some (without (set (a # ys)) (insert q (set (blocks rs))) m3)"
    by (rule free_str_without) (use q0(1) qb in \<open>auto simp: m3_def\<close>)
  have end_state: "without (set (a # ys)) (insert q (set (blocks rs))) m3 = m\<lparr>jplan := drop (answer_cost (length ?fs)) (jplan m)\<rparr>"
    unfolding answer_cost_alt [of _ D]
  proof (rule without_touches [OF f])
    have "touches m m3 (set (a # ys) \<union> {}) (set (blocks rs) \<union> {q}) (?n + allocs ?T)" by (rule touches_trans [OF t2(1) t3])
    then show "touches m m3 (set (a # ys)) (insert q (set (blocks rs))) (1 + 3 * length ?fs + allocs ?T)" by (rule touches_mono) auto
    have "jplan m2 = drop ?n (jplan m)" using t2(1) by (simp add: touches_def)
    then have "set (take (?n + allocs ?T) (jplan m)) = set (take ?n (jplan m)) \<union> set (take (allocs ?T) (jplan m2))"
      by (simp only: take_add set_append)
    then show "set (a # ys) \<union> insert q (set (blocks rs)) \<subseteq> set (take (1 + 3 * length ?fs + allocs ?T) (jplan m))"
      using t2(2) q(1) by auto
    show "ep m3 = ep m" using t2(4) by (simp add: m3_def)
  qed
  have "0 \<notin> set ?text" using jtext_nonzero [OF h, of True 0] by (simp add: string_object_text)
  then have str: "string_at m3 q = Some ?text" using q0(1) by (simp add: m3_def)
  show ?thesis
    using st(1,3) b(1) q(2) [folded m3_def] q0(1) str del free end_state
    by (simp add: tcp_command_creat_def Let_def split: if_split)
qed

end
