(* ===== verification/PcbCommand.thy ===== *)
theory PcbCommand
  imports PcbAnswer
begin

text \<open>
  The commands \<^verbatim>\<open>echo_pcbatest_server.c\<close> receives: the first member of an object with a name, as \<^verbatim>\<open>cJSON_GetObjectItem\<close> finds it; the
  parameters read told from the members of the object; and \<open>tcp_command_parse\<close> on the text of an object.
\<close>

subsection \<open>Finding a member\<close>

text \<open>Names are compared without regard to case, and the first member with a name is found.\<close>

definition same_name :: "u8 list \<Rightarrow> u8 list \<Rightarrow> bool" where
  "same_name s n \<longleftrightarrow> map c_tolower s = map c_tolower n"

definition named :: "u8 list \<Rightarrow> 'd jtree \<Rightarrow> bool" where
  "named n T \<longleftrightarrow> (case tname T of None \<Rightarrow> False | Some s \<Rightarrow> same_name s n)"

lemma c_tolower_zero [simp]: "c_tolower c = 0 \<longleftrightarrow> c = 0" "c_tolower 0 = 0"
  by (auto simp: c_tolower_def word_le_def simp flip: uint_0_iff)

lemma strcasecmp_names:
  "0 \<notin> set s \<Longrightarrow> 0 \<notin> set n \<Longrightarrow> \<exists>r. strcasecmp_loop (s @ 0 # z) (n @ [0]) = Some r \<and> (r = 0 \<longleftrightarrow> same_name s n)"
proof (induction s arbitrary: n)
  case Nil
  then show ?case by (cases n) (auto simp: same_name_def)
next
  case (Cons x s)
  then show ?case by (cases n) (auto simp: same_name_def)
qed

text \<open>What an item holds: its type and its string.\<close>

fun tstring :: "'d jtree \<Rightarrow> u8 list option" where
  "tstring (JTree t i d v nm ks) = (if t = cJSON_String then v else None)"

definition found :: "'d jmem \<Rightarrow> addr \<Rightarrow> 'd jtree option \<Rightarrow> bool" where
  "found m q r \<longleftrightarrow> (case r of None \<Rightarrow> q = NULL
     | Some T \<Rightarrow> q \<noteq> NULL \<and> (\<exists>c. jitems m q = Some c \<and> jtype c = fst (tcontent T) \<and>
         str_rep m (jvaluestring c) (fst (snd (snd (snd (tcontent T)))))))"

lemma find_name_found:
  assumes "0 \<notin> set n"
  shows "trees m p prev ts is ss \<Longrightarrow> \<exists>q j. find_name m (Some (n @ [0])) p i = Some (q, j) \<and> found m q (List.find (named n) ts)"
proof (induction m p prev ts "is" ss arbitrary: i rule: trees.induct)
  case (1 m p prev "is" ss)
  then show ?case by (simp add: find_name.simps found_def)
next
  case (2 m p prev t v d s nm ks ts "is" ss)
  then obtain c ik sk ir sr where c: "p \<noteq> NULL" "jitems m p = Some c" "jtype c = t" "str_rep m (jvaluestring c) s" "str_rep m (jstring c) nm"
    "trees m (jchild c) NULL ks ik sk" "trees m (jnext c) p ts ir sr" by auto
  obtain st r where st: "str_at m (jstring c) = Some st" "cJSON_strcasecmp st (Some (n @ [0])) = Some r"
    "r = 0 \<longleftrightarrow> named n (JTree t v d s nm ks)"
  proof (cases nm)
    case None
    then have "str_at m (jstring c) = Some None" using c(5) by (simp add: str_rep_def str_at_def)
    then show ?thesis using that [of None 1] None by (simp add: cJSON_strcasecmp_def named_def)
  next
    case (Some k)
    then obtain z where z: "jstring c \<noteq> NULL" "jstrs m (jstring c) = Some (k @ 0 # z)" "0 \<notin> set k" using c(5) by (auto simp: str_rep_def)
    obtain r where "strcasecmp_loop (k @ 0 # z) (n @ [0]) = Some r" "r = 0 \<longleftrightarrow> same_name k n"
      using strcasecmp_names [OF z(3) assms] by blast
    then show ?thesis using that [of "Some (k @ 0 # z)" r] z Some by (simp add: str_at_def cJSON_strcasecmp_def named_def)
  qed
  show ?case
  proof (cases "r = 0")
    case True
    then show ?thesis using c st by (simp add: find_name.simps [of m _ p] found_def)
  next
    case False
    then show ?thesis using 2(2) [OF c(7)] c st by (simp add: find_name.simps [of m _ p])
  qed
qed

lemma GetObjectItem_found:
  assumes "trees m obj NULL [JTree t i d v nm ks] is ss" "0 \<notin> set n"
  shows "\<exists>q. cJSON_GetObjectItem m obj (Some (n @ [0])) = Some q \<and> found m q (List.find (named n) ks)"
proof -
  obtain c ik sk where c: "obj \<noteq> NULL" "jitems m obj = Some c" "trees m (jchild c) NULL ks ik sk" using assms(1) by auto
  show ?thesis using find_name_found [OF assms(2) c(3), of 0] c by (auto simp: cJSON_GetObjectItem_def)
qed

subsection \<open>The parameters received\<close>

text \<open>What \<open>parse_paras\<close> does, told from the members \<open>ks\<close> of the object.\<close>

fun read_paras :: "'d jtree list \<Rightarrow> nat list \<Rightarrow> PCBA_SINGLE_PARA list \<Rightarrow> int \<Rightarrow> (int \<times> PCBA_SINGLE_PARA list) option" where
  "read_paras ks [] rp err = Some (err, rp)"
| "read_paras ks (num # nums) rp err =
     (if num < length rp then
       (case List.find (named (para_name (rp ! num))) ks of
         Some T \<Rightarrow>
           (case tstring T of None \<Rightarrow> Some (RECV_FORMAT_ERR, rp)
            | Some s \<Rightarrow>
                if length s > COMMAND_VALUESIZE then Some (CMD_OVERLONG, rp)
                else if length s = COMMAND_VALUESIZE then None
                else read_paras ks nums (rp[num := (rp ! num)\<lparr>para_valuestr := s\<rparr>])
                       (if err = 0 then tcp_command_check num s else err))
       | None \<Rightarrow> if \<not> para_opt (rp ! num) then Some (RECV_FORMAT_ERR, rp) else read_paras ks nums rp err)
      else None)"

lemma parse_paras_reads:
  assumes "trees m obj NULL [JTree t i d v nm ks] is ss"
  shows "\<forall>p\<in>set rp. 0 \<notin> set (para_name p) \<Longrightarrow> parse_paras m obj nums rp err err = read_paras ks nums rp err"
proof (induction nums arbitrary: rp err)
  case Nil
  then show ?case by simp
next
  case (Cons num nums)
  show ?case
  proof (cases "num < length rp")
    case False
    then show ?thesis by (simp add: arr_get_def)
  next
    case True
    then have z: "0 \<notin> set (para_name (rp ! num))" using Cons.prems by simp
    obtain q where q: "cJSON_GetObjectItem m obj (Some (para_name (rp ! num) @ [0])) = Some q"
      "found m q (List.find (named (para_name (rp ! num))) ks)" using GetObjectItem_found [OF assms z] by blast
    show ?thesis
    proof (cases "List.find (named (para_name (rp ! num))) ks")
      case None
      then show ?thesis using q True Cons by (simp add: arr_get_def found_def)
    next
      case (Some T)
      obtain t' i' d' s' nm' ks' where T: "T = JTree t' i' d' s' nm' ks'" by (cases T)
      obtain c where c: "q \<noteq> NULL" "jitems m q = Some c" "jtype c = t'" "str_rep m (jvaluestring c) s'"
        using q(2) unfolding Some T by (auto simp: found_def)
      have names: "\<forall>p\<in>set (rp[num := (rp ! num)\<lparr>para_valuestr := s\<rparr>]). 0 \<notin> set (para_name p)" for s
        using Cons.prems z set_update_subset_insert [of rp num "(rp ! num)\<lparr>para_valuestr := s\<rparr>"] by auto
      show ?thesis
      proof (cases "t' = cJSON_String \<and> s' \<noteq> None")
        case False
        then show ?thesis using q(1) c Some T True by (auto simp: arr_get_def str_rep_def)
      next
        case str: True
        then obtain s where s: "s' = Some s" by blast
        then have v: "jvaluestring c \<noteq> NULL" "string_at m (jvaluestring c) = Some s"
          using c(4) by (auto simp: str_rep_def string_at_def c_string_append)
        have "parse_paras m obj nums (rp[num := (rp ! num)\<lparr>para_valuestr := s\<rparr>]) e e =
          read_paras ks nums (rp[num := (rp ! num)\<lparr>para_valuestr := s\<rparr>]) e" for e by (rule Cons.IH [OF names])
        then show ?thesis using q(1) c Some T True str s v by (auto simp: arr_get_def arr_set_def str_cpy_def Let_def)
      qed
    qed
  qed
qed


lemma without_touches_ep:
  assumes f: "fresh m" and t: "touches m n X S k" and sub: "X \<union> S \<subseteq> set (take k (jplan m))"
  shows "without X S n = m\<lparr>jplan := drop k (jplan m), ep := ep n\<rparr>"
proof -
  have "fresh (m\<lparr>ep := ep n\<rparr>)" "touches (m\<lparr>ep := ep n\<rparr>) n X S k" using f t by (simp_all add: fresh_def touches_def)
  from without_touches [OF this] sub show ?thesis by simp
qed

text \<open>The members of what is parsed have the members' names and strings.\<close>

lemma canon_member: "named n (canon D (tname k) k) = named n k" "tstring (canon D nm k) = tstring k"
  by (simp add: named_def) (cases k; simp)

lemma find_canon:
  "List.find (named n) (map (\<lambda>k. canon D (tname k) k) ks) = map_option (\<lambda>k. canon D (tname k) k) (List.find (named n) ks)"
  by (induction ks) (auto simp: canon_member(1))

lemma read_paras_canon: "read_paras (map (\<lambda>k. canon D (tname k) k) ks) nums rp err = read_paras ks nums rp err"
  by (induction ks nums rp err rule: read_paras.induct) (auto simp: find_canon canon_member split: option.splits)

text \<open>
  \<open>tcp_command_parse\<close> on the text of an object: the parameters are those of the object, and the memory is left as it was.
\<close>

lemma command_parse_ok:
  assumes t: "readable D (JTree cJSON_Object i d v nm ks)" and m: "fresh m" "1 + pallocs (JTree cJSON_Object i d v nm ks) \<le> length (jplan m)"
    and f: "tsize (JTree cJSON_Object i d v nm ks) < f" "pallocs (JTree cJSON_Object i d v nm ks) + 1 < f" and rp: "\<forall>p\<in>set rp. 0 \<notin> set (para_name p)"
  shows "\<exists>e. tcp_command_parse D f (jtext D fmt 0 (JTree cJSON_Object i d v nm ks) @ 0 # rest) rp m =
    map_option (\<lambda>(ret, rp). (ret, rp, m\<lparr>jplan := drop (1 + pallocs (JTree cJSON_Object i d v nm ks)) (jplan m), ep := e\<rparr>))
      (read_paras ks [0..<length recv_cmd_target] rp 0)"
proof -
  let ?T = "JTree cJSON_Object i d v nm ks"
  obtain obj m' "is" ss where r: "cJSON_Parse D f (Some (jtext D fmt 0 ?T @ 0 # rest)) m = Some (obj, m')"
    "trees m' obj NULL [canon D None ?T] (obj # is) ss" "distinct (obj # is @ ss)"
    "set (obj # is @ ss) \<subseteq> set (take (1 + pallocs ?T) (jplan m))" "touches m m' (set (obj # is)) (set ss) (1 + pallocs ?T)"
    using Parse_ok [OF t m f(1), of fmt rest] by blast
  have "obj \<noteq> NULL" using trees_dom [OF r(2)] by auto
  have "card (set (obj # is)) \<le> card (set (take (1 + pallocs ?T) (jplan m)))" using r(4) by (intro card_mono) auto
  also have "\<dots> \<le> 1 + pallocs ?T" using card_length [of "take (1 + pallocs ?T) (jplan m)"] by simp
  finally have "length (obj # is) < f" using f(2) r(3) by (simp add: distinct_card)
  then have del: "cJSON_Delete f obj m' = Some (without (set (obj # is)) (set ss) m')"
    by (intro Delete_ok [OF r(2)]) (use r(3) in auto)
  have "without (set (obj # is)) (set ss) m' = m\<lparr>jplan := drop (1 + pallocs ?T) (jplan m), ep := ep m'\<rparr>"
    by (rule without_touches_ep [OF m(1) r(5)]) (use r(4) in auto)
  moreover have "trees m' obj NULL [JTree 6 0 (d_int D 0) None None (map (\<lambda>k. canon D (tname k) k) ks)] (obj # is) ss" using r(2) by simp
  note parse_paras_reads [OF this rp]
  ultimately show ?thesis using r(1) del \<open>obj \<noteq> NULL\<close>
    by (intro exI [of _ "ep m'"], cases "read_paras ks [0..<length recv_cmd_target] rp 0")
       (auto simp: tcp_command_parse_def read_paras_canon)
qed


subsection \<open>The outcome of a command\<close>

text \<open>
  Told from the members \<open>ks\<close>: the string of the first member with a name, if it is one; what is wrong with a parameter, 0 if nothing; and whether its string
  fills the 100 bytes to the last, with no room for the terminator.
\<close>

definition received :: "'d jtree list \<Rightarrow> string \<Rightarrow> u8 list option" where
  "received ks n = Option.bind (List.find (named (ascii n)) ks) tstring"

definition fault :: "'d jtree list \<Rightarrow> string \<Rightarrow> int" where
  "fault ks n =
     (case List.find (named (ascii n)) ks of None \<Rightarrow> if n \<in> {''TEST_ITEM'', ''MSG''} then 0 else RECV_FORMAT_ERR
      | Some T \<Rightarrow> (case tstring T of None \<Rightarrow> RECV_FORMAT_ERR | Some s \<Rightarrow> if length s > COMMAND_VALUESIZE then CMD_OVERLONG else 0))"

definition fills :: "'d jtree list \<Rightarrow> string \<Rightarrow> bool" where
  "fills ks n \<longleftrightarrow> map_option length (received ks n) = Some COMMAND_VALUESIZE"

definition command_names :: "string list" where
  "command_names = [''TYPE'', ''TEST_ITEM'', ''CMD'', ''MSG'']"

definition command_para :: "string \<Rightarrow> PCBA_SINGLE_PARA" where
  "command_para n = zero_para\<lparr>para_name := ascii n, para_opt := n \<in> {''TEST_ITEM'', ''MSG''}\<rparr>"

definition value_or :: "'d jtree list \<Rightarrow> string \<Rightarrow> PCBA_SINGLE_PARA" where
  "value_or ks n = (case received ks n of None \<Rightarrow> command_para n | Some s \<Rightarrow> (command_para n)\<lparr>para_valuestr := s\<rparr>)"

definition command_code :: "'d jtree list \<Rightarrow> int" where
  "command_code ks =
     (if received ks ''TYPE'' \<noteq> Some RECV_TYPE_NAME then CMD_TYPE_ERR
      else if received ks ''CMD'' \<notin> Some ` set recv_cmd_type then CMD_ERR else 0)"

text \<open>
  The parameters before the first faulty one are taken. If there is a faulty one its code is the result, whatever the others hold; else it is that of the
  type or the command.
\<close>

definition taken :: "'d jtree list \<Rightarrow> string list" where
  "taken ks = takeWhile (\<lambda>n. fault ks n = 0) command_names"

definition command_outcome :: "'d jtree list \<Rightarrow> (int \<times> PCBA_SINGLE_PARA list) option" where
  "command_outcome ks =
     (if \<exists>n\<in>set (taken ks). fills ks n then None
      else Some (if taken ks = command_names then command_code ks else fault ks (command_names ! length (taken ks)),
        map (\<lambda>n. if n \<in> set (taken ks) then value_or ks n else command_para n) command_names))"

lemma command_outcome_none: "command_outcome ks = None \<longleftrightarrow> (\<exists>n\<in>set (taken ks). fills ks n)"
  by (simp add: command_outcome_def)

definition checked :: "'d jtree list \<Rightarrow> string \<Rightarrow> nat \<Rightarrow> int \<Rightarrow> int" where
  "checked ks n num err = (case received ks n of None \<Rightarrow> err | Some s \<Rightarrow> if err = 0 then tcp_command_check num s else err)"

lemma command_para_simps:
  "para_name (command_para n) = ascii n" "para_opt (command_para n) \<longleftrightarrow> n \<in> {''TEST_ITEM'', ''MSG''}"
  by (simp_all add: command_para_def)

lemma command_paras: "recv_paras tcp_command_para_init = map command_para command_names"
  by (simp add: tcp_command_para_init_def recv_cmd_target_def command_para_def command_names_def)

lemma read_step:
  assumes "num < length rp" "rp ! num = command_para n"
  shows "read_paras ks (num # nums) rp err =
    (if fault ks n \<noteq> 0 then Some (fault ks n, rp) else if fills ks n then None
     else read_paras ks nums (rp[num := value_or ks n]) (checked ks n num err))"
proof (cases "List.find (named (ascii n)) ks")
  case None
  then have "rp[num := value_or ks n] = rp" using assms list_update_id [of rp num] by (simp add: value_or_def received_def)
  then show ?thesis using None assms by (simp add: fault_def fills_def checked_def received_def command_para_simps)
next
  case (Some T)
  then show ?thesis using assms
    by (cases "tstring T") (auto simp: fault_def fills_def checked_def received_def command_para_simps value_or_def)
qed

lemma fault_mandatory: "fault ks n = 0 \<Longrightarrow> n \<notin> {''TEST_ITEM'', ''MSG''} \<Longrightarrow> \<exists>s. received ks n = Some s"
  by (auto simp: fault_def received_def split: option.splits)

lemma checked_optional: "checked ks n (Suc 0) err = err" "checked ks n 3 err = err"
  by (auto simp: checked_def tcp_command_check_def split: option.splits)

lemma checked_code:
  assumes "fault ks ''TYPE'' = 0" "fault ks ''CMD'' = 0"
  shows "checked ks ''CMD'' 2 (checked ks ''TYPE'' 0 0) = command_code ks"
  using fault_mandatory [OF assms(1)] fault_mandatory [OF assms(2)] by (auto simp: checked_def command_code_def tcp_command_check_def)

lemma read_command: "read_paras ks [0..<length recv_cmd_target] (recv_paras tcp_command_para_init) 0 = command_outcome ks"
proof -
  have l: "[0..<length recv_cmd_target] = [0, 1, 2, 3]" by (simp add: recv_cmd_target_def upt_rec)
  show ?thesis unfolding l command_paras
    by (cases "fault ks ''TYPE'' = 0"; cases "fault ks ''TEST_ITEM'' = 0"; cases "fault ks ''CMD'' = 0"; cases "fault ks ''MSG'' = 0")
      (simp_all add: read_step [where n = "''TYPE''"] read_step [where n = "''TEST_ITEM''"] read_step [where n = "''CMD''"] read_step [where n = "''MSG''"]
        command_outcome_def taken_def command_names_def checked_optional checked_code del: read_paras.simps(2))
qed

lemma command_paras_nonzero: "\<forall>p\<in>set (recv_paras tcp_command_para_init). 0 \<notin> set (para_name p)"
  by (simp add: command_paras command_names_def command_para_simps ascii_def)

end
