(* ===== verification/PcbReport.thy ===== *)
theory PcbReport
  imports PcbCommand
begin

text \<open>
  The other side of the protocol of \<^verbatim>\<open>echo_pcbatest_server.c\<close>: the members of an answer, the line an item reports its result with and what
  \<^verbatim>\<open>sscanf\<close> reads of it, the rounds in which a process is stopped, and the codes a command ends with.
\<close>

subsection \<open>The answer to a command\<close>

text \<open>The members of the answer, in their order.\<close>

definition answer_fields :: "u8 list \<Rightarrow> u8 list \<Rightarrow> u8 list \<Rightarrow> u8 list \<Rightarrow> u8 list \<Rightarrow> int \<Rightarrow> (u8 list \<times> u8 list) list" where
  "answer_fields item cmd status msg result err =
     (ascii ''TYPE'', ascii ''RES'') # (if no_item_cmd cmd then [] else [(ascii ''TEST_ITEM'', item)]) @
     [(ascii ''RES'', cmd), (ascii ''MSG'', msg), (ascii ''STATUS'', status)] @
     (if no_item_cmd cmd \<or> no_result_cmd cmd \<or> status = NAK_STA then [] else [(ascii ''RESULT'', result)]) @
     [(ascii ''ERR_CODE'', fmt_d err)]"

lemma fill_para_simps:
  "i < length ps \<Longrightarrow> para_opt (ps ! i) \<Longrightarrow> fill_para i s ps = Some ps"
  "i < length ps \<Longrightarrow> \<not> para_opt (ps ! i) \<Longrightarrow> length s < 100 \<Longrightarrow> fill_para i s ps = Some (ps[i := (ps ! i)\<lparr>para_valuestr := s\<rparr>])"
  "i < length ps \<Longrightarrow> omit_para i ps = Some (ps[i := (ps ! i)\<lparr>para_opt := True\<rparr>])"
  by (simp_all add: fill_para_def omit_para_def str_cpy_def)

lemma fill_ok:
  assumes "length rp = 4" "para_valuestr (rp ! INDEX_TEST_ITEM) = item" "para_valuestr (rp ! INDEX_CMD) = cmd"
    and "\<forall>s\<in>{item, cmd, status, msg, result, fmt_d err}. length s < 100"
  shows "\<exists>cp. tcp_command_fill \<lparr>recv_paras = rp, send_paras = send_paras tcp_command_para_init\<rparr> status msg result err = Some cp \<and>
    para_fields (send_paras cp) = answer_fields item cmd status msg result err"
proof -
  let ?P = "\<lambda>n. zero_para\<lparr>para_name := ascii n\<rparr>"
  have sp: "send_paras tcp_command_para_init = [?P ''TYPE'', ?P ''TEST_ITEM'', ?P ''RES'', ?P ''MSG'', ?P ''STATUS'', ?P ''RESULT'', ?P ''ERR_CODE'']"
    by (simp add: tcp_command_para_init_def send_cmd_target_def)
  have z: "\<not> para_opt zero_para" by (simp add: zero_para_def)
  have R: "length (ascii ''RES'') < 100" "length NAK_STA < 100" by (simp_all add: ascii_def NAK_STA_def)
  note len = assms(4) [simplified] R
  show ?thesis
    using assms(1-3) len
    by (simp add: tcp_command_fill_def sp z fill_para_simps para_fields_def answer_fields_def)
qed


lemma answer_fields_bounds: "length (answer_fields item cmd status msg result err) \<le> 7"
  by (simp add: answer_fields_def)

lemma answer_fields_nonzero:
  "\<forall>s\<in>{item, cmd, status, msg, result}. 0 \<notin> set s \<Longrightarrow> \<forall>(n, v)\<in>set (answer_fields item cmd status msg result err). 0 \<notin> set n \<and> 0 \<notin> set v"
  by (simp add: answer_fields_def fmt_d_nonzero) (simp add: ascii_def)

subsection \<open>Results of test items\<close>

lemma fgets_lines_sound: "l \<in> set (fgets_lines s) \<Longrightarrow> length l \<le> 99 \<and> 0 \<notin> set l"
proof (induction s rule: fgets_lines.induct)
  case (1 s)
  show ?case
  proof (cases "s = []")
    case True
    then show ?thesis using 1(2) by (simp add: fgets_lines.simps)
  next
    case False
    obtain a r where a: "fgets 99 s = (a, r)" by fastforce
    then have "length (up_to_nul a) \<le> 99" using fgets_split [OF a] length_takeWhile_le [of "\<lambda>c. c \<noteq> 0" a] by (simp add: up_to_nul_def)
    moreover have "0 \<notin> set (up_to_nul a)" by (auto simp: up_to_nul_def dest: set_takeWhileD)
    moreover have "l = up_to_nul a \<or> l \<in> set (fgets_lines r)" using 1(2) False a by (simp add: fgets_lines.simps [of s])
    moreover have "l \<in> set (fgets_lines r) \<Longrightarrow> length l \<le> 99 \<and> 0 \<notin> set l" by (rule 1(1)) (use False a in simp_all)
    ultimately show ?thesis by blast
  qed
qed

lemma scan_nat_digits:
  "\<forall>c\<in>set ds. is_digit c \<Longrightarrow> int (scan_nat (ds @ 62 # r) k) = foldl (\<lambda>n c. n * 10 + (uint c - 48)) (int k) ds"
proof (induction ds arbitrary: k)
  case (Cons d ds)
  then have d: "48 \<le> d \<and> d \<le> 57" by auto
  then have "int (unat d - 48) = uint d - 48" by (simp add: word_le_nat_alt of_nat_diff)
  then show ?case using Cons d by simp
qed simp

lemma scan_d_fmt: "scan_d (fmt_d i @ 62 # r) = Some i"
proof -
  have *: "scan_nat (dec_digits n @ 62 # r) 0 = n" for n
    using scan_nat_digits [of "dec_digits n" r 0] dec_digits_ok [of n] by simp
  have start: "scan_d (d # ds) = Some (int (scan_nat (d # ds) 0))" "scan_d (45 # d # ds) = Some (- int (scan_nat (d # ds) 0))"
    if "is_digit d" for d :: u8 and ds
  proof -
    have d: "(d = 32 \<or> 9 \<le> d \<and> d \<le> 13) = False" "(d = 45) = False" "(d = 43) = False" "(48 \<le> d \<and> d \<le> 57) = True"
      using that by (auto simp: word_le_nat_alt word_unat_eq_iff)
    have m: "((45 :: u8) = 32 \<or> 9 \<le> (45 :: u8) \<and> (45 :: u8) \<le> 13) = False" by simp
    show "scan_d (d # ds) = Some (int (scan_nat (d # ds) 0))" "scan_d (45 # d # ds) = Some (- int (scan_nat (d # ds) 0))"
      unfolding scan_d_def dropWhile.simps list.case d m Let_def prod.case if_False simp_thms if_True by (rule TrueI)+
  qed
  have digits: "\<exists>d ds. dec_digits n @ 62 # r = d # ds \<and> is_digit d" for n
    using dec_digits_ok [of n] by (cases "dec_digits n") auto
  show ?thesis
  proof (cases "i < 0")
    case True
    obtain d ds where "dec_digits (nat (- i)) @ 62 # r = d # ds" "is_digit d" using digits by blast
    then show ?thesis using start(2) [of d ds] * [of "nat (- i)"] True by (simp add: fmt_d_def)
  next
    case False
    obtain d ds where "dec_digits (nat i) @ 62 # r = d # ds" "is_digit d" using digits by blast
    then show ?thesis using start(1) [of d ds] * [of "nat i"] False by (simp add: fmt_d_def)
  qed
qed

text \<open>The line an item reports with, and what the two formats read of it.\<close>

definition report_line :: "u8 list \<Rightarrow> u8 list \<Rightarrow> int \<Rightarrow> u8 list \<Rightarrow> u8 list" where
  "report_line msg result err rest = TESTITEM_SEND_HEAD @ [60] @ msg @ ascii ''>,<'' @ result @ ascii ''>,<'' @ fmt_d err @ [62] @ rest"

lemma ascii_sep: "ascii ''>,<'' = [62, 44, 60]" "ascii ''<>,<'' = [60, 62, 44, 60]"
  by (simp_all add: ascii_def)

lemma scan_not_stop: "s \<noteq> [] \<Longrightarrow> c \<notin> set s \<Longrightarrow> scan_not c (s @ c # r) = Some (s, c # r)"
  by (subst scan_not_def, subst takeWhile_append2) (auto simp: Let_def)

lemma scan_result_ok:
  "result \<noteq> [] \<Longrightarrow> 62 \<notin> set result \<Longrightarrow> int_ok err \<Longrightarrow> scan_result (result @ [62, 44, 60] @ fmt_d err @ 62 # rest) n r0 e0 = Some (n + 2, result, err)"
  using scan_not_stop [of result 62 "44 # 60 # fmt_d err @ 62 # rest"] by (simp add: scan_result_def scan_lit_def ascii_sep scan_d_fmt)

lemma head_scans: "scan_not 60 (TESTITEM_SEND_HEAD @ 60 # r) = Some (TESTITEM_SEND_HEAD, 60 # r)"
  by (rule scan_not_stop) (simp_all add: TESTITEM_SEND_HEAD_def ascii_def)

lemma scan_report:
  assumes "62 \<notin> set msg" "62 \<notin> set result" "result \<noteq> []" "int_ok err"
  shows "msg \<noteq> [] \<Longrightarrow> sscanf_msg (report_line msg result err rest) m0 r0 e0 = Some (3, msg, result, err)"
    "sscanf_msg (report_line [] result err rest) m0 r0 e0 = Some (0, m0, r0, e0)"
    "sscanf_nomsg (report_line [] result err rest) r0 e0 = Some (2, result, err)"
  using assms head_scans scan_not_stop [of msg 62 "44 # 60 # result @ 62 # 44 # 60 # fmt_d err @ 62 # rest"] scan_result_ok [OF assms(3,2,4), of rest]
  by (simp_all add: sscanf_msg_def sscanf_nomsg_def report_line_def scan_lit_def ascii_sep) (simp add: scan_not_def)

definition keeps_file :: "'w board \<Rightarrow> u8 list \<Rightarrow> bool" where
  "keeps_file B file \<longleftrightarrow> (\<forall>s w. length s = COMMAND_VALUESIZE \<longrightarrow>
     (let (fd, w1) = b_open B file True w; (fd', w2) = b_open B file False (b_close B fd (b_write B fd s w1)) in
      0 \<le> fd \<and> 0 \<le> fd' \<and> fst (b_read B fd' COMMAND_VALUESIZE w2) = (100, s)))"

lemma keeps_fileE:
  assumes "keeps_file B file" "length s = 100"
  obtains fd w1 fd' w2 w3 where "b_open B file True w = (fd, w1)" "0 \<le> fd" "b_open B file False (b_close B fd (b_write B fd s w1)) = (fd', w2)"
    "0 \<le> fd'" "b_read B fd' 100 w2 = ((100, s), w3)"
  using assms unfolding keeps_file_def Let_def by (auto simp: split_def) (metis prod.collapse)

text \<open>The report of an item is stored and read back.\<close>

lemma report_gets_through:
  assumes item: "para_valuestr (rp ! INDEX_TEST_ITEM) = item" and keeps: "keeps_file B (result_filename item)"
    and run: "b_popen B (snprintf_s COMMAND_VALUESIZE (item @ ascii ''  '' @ para_valuestr (rp ! INDEX_MSG))) (b_chmod B item w) = (Some out, w0)"
    and line: "List.find (\<lambda>l. strstr l TESTITEM_SEND_HEAD) (fgets_lines out) = Some (report_line msg result err rest)"
    and "62 \<notin> set msg" "62 \<notin> set result" "result \<noteq> []" "int_ok err"
  shows "\<exists>w1 w2. pcba_test_item_process B rp w = Some (0, w1) \<and> query_test_result B item [] RESULT_TESTING w1 = Some (0, msg, result, err, w2)"
proof -
  let ?l = "report_line msg result err rest"
  have "?l \<in> set (fgets_lines out)" using line by (auto simp: find_Some_iff)
  from fgets_lines_sound [OF this] have l: "length ?l \<le> 99" "0 \<notin> set ?l" "?l \<noteq> []" by (simp_all add: report_line_def)
  then obtain k where k: "pad 100 ?l = ?l @ 0 # replicate k 0" "length (pad 100 ?l) = 100"
    by (cases "100 - length ?l") (auto simp: pad_def)
  have "up_to_nul (pad 100 ?l) \<noteq> []" unfolding k(1) using l(2,3) by (cases ?l) (simp_all add: up_to_nul_def)
  moreover obtain fd w1 fd' w2 w3 where "b_open B (result_filename item) True w0 = (fd, w1)" "0 \<le> fd"
    "b_open B (result_filename item) False (b_close B fd (b_write B fd (pad 100 ?l) w1)) = (fd', w2)"
    "0 \<le> fd'" "b_read B fd' 100 w2 = ((100, pad 100 ?l), w3)" using keeps_fileE [OF keeps k(2)] by blast
  moreover have "c_string (pad 100 ?l) = Some ?l" using k(1) c_string_append [OF l(2)] by simp
  ultimately show ?thesis using item run line scan_report [OF assms(5-8), of rest]
    by (cases "msg = []") (simp_all add: pcba_test_item_process_def run_cmd_to_shell_duplex_def pcba_test_result_rw_def query_test_result_def Let_def)
qed

subsection \<open>Stopping a process\<close>

definition alive :: "'w board \<Rightarrow> u8 list \<Rightarrow> 'w \<Rightarrow> bool" where
  "alive B process w \<longleftrightarrow> fst (process_is_exists B process w) > 0"

definition kill_round :: "'w board \<Rightarrow> u8 list \<Rightarrow> ('w \<Rightarrow> 'w) \<Rightarrow> 'w \<Rightarrow> 'w" where
  "kill_round B process kill w = b_sleep B 1000000 (kill (snd (process_is_exists B process w)))"

lemma stop_loop_step:
  "stop_loop B process kill fail count w =
     (if \<not> alive B process w then (0, snd (process_is_exists B process w))
      else if count < 3 then stop_loop B process kill fail (Suc count) (kill_round B process kill w)
      else (fail, kill_round B process kill w))"
  by (subst stop_loop.simps) (auto simp: alive_def kill_round_def Let_def split: prod.splits)

lemma stop_loop_rounds:
  "n \<le> 3 \<Longrightarrow> stop_loop B process kill fail (3 - n) w =
   (case List.find (\<lambda>k. \<not> alive B process ((kill_round B process kill ^^ k) w)) [0..<Suc n] of
      Some k \<Rightarrow> (0, snd (process_is_exists B process ((kill_round B process kill ^^ k) w)))
    | None \<Rightarrow> (fail, (kill_round B process kill ^^ Suc n) w))"
proof (induction n arbitrary: w)
  case 0
  then show ?case by (simp add: stop_loop_step [of B process kill fail 3])
next
  case (Suc n)
  have shift: "[0..<Suc (Suc n)] = 0 # map Suc [0..<Suc n]" by (subst upt_conv_Cons) (simp_all add: map_Suc_upt del: upt_Suc)
  have find: "List.find P (map Suc xs) = map_option Suc (List.find (P \<circ> Suc) xs)" for P and xs :: "nat list" by (induction xs) auto
  have "Suc (3 - Suc n) = 3 - n" "3 - Suc n < 3" using Suc.prems by simp_all
  then show ?case
    using Suc.IH [of "kill_round B process kill w"] Suc.prems
    by (simp add: stop_loop_step [of B process kill fail "2 - n"] shift find comp_def funpow_swap1 del: upt_Suc split: option.splits)
qed

subsection \<open>Status and mode\<close>

text \<open>What a command that is answered leaves: the error code and \<^verbatim>\<open>ret\<close>.\<close>

lemma query_codes:
  assumes "query_test_result B item msg result w = Some (ret, msg', result', err, w')"
  shows "ret = 0 \<or> ret = QUERY_RESULT_ERR \<and> err = 0"
  using assms by (auto simp: query_test_result_def Let_def split: prod.splits if_splits option.splits Option.bind_splits)

lemma status_of_command:
  assumes "do_command B err0 rp test_flag w = Some (Some (err, ret, msg, result), fs, tf, w')"
  shows "(ret = -1 \<or> ret = 0 \<or> ret = QUERY_RESULT_ERR \<and> err = QUERY_RESULT_ERR) \<and>
    (ret \<noteq> -1 \<longrightarrow> para_valuestr (rp ! INDEX_CMD) \<in> {recv_cmd_type ! START_CMD, recv_cmd_type ! QUERY_CMD})"
  using assms
  by (auto simp: do_command_def start_command_def Let_def split: prod.splits if_splits option.splits Option.bind_splits dest!: query_codes)

end
