(* ===== verification/PcbProps.thy ===== *)
theory PcbProps
  imports PcbReport
begin

text \<open>
  The properties of the PCB test server: what it reads of a command, what it answers, that a start needs the test mode, that stopping ends,
  that the result of an item gets through, and where its buffers overflow.
\<close>

subsection \<open>Instances\<close>

text \<open>
  Memory with 48 blocks to come. A board with one file, its content the state, on which every command prints the report of an item, no
  process of a given name is found, and a socket takes all it is given.
\<close>

definition blocks_json :: "int jmem" where
  "blocks_json = \<lparr>jitems = Map.empty, jstrs = Map.empty, jptrs = Map.empty, jplan = map (\<lambda>n. word_of_nat (16 * n)) [1..<49], ep = None\<rparr>"

definition demo_report :: "u8 list" where
  "demo_report = report_line (ascii ''ok'') (ascii ''PASS'') (-7) [10]"

definition demo_board :: "u8 list board" where
  "demo_board = \<lparr>b_popen = (\<lambda>c w. (Some (ascii ''testing'' @ [10] @ demo_report), w)), b_system = (\<lambda>s w. w), b_sleep = (\<lambda>n w. w), b_fork = (\<lambda>w. (7, w)),
     b_waitpid = (\<lambda>w. (-1, w)), b_open = (\<lambda>f wr w. (3, if wr then [] else w)), b_write = (\<lambda>fd s w. s),
     b_read = (\<lambda>fd n w. ((int (length (take n w)), take n w), w)), b_close = (\<lambda>fd w. w), b_access = (\<lambda>f w. True), b_remove = (\<lambda>f w. []),
     b_chmod = (\<lambda>f w. w), b_opendir = (\<lambda>f w. (1, w)), b_readdir = (\<lambda>d w. (None, w)), b_closedir = (\<lambda>d w. w), b_socket = (\<lambda>w. (3, w)),
     b_reuseaddr = (\<lambda>fd w. (0, w)), b_bind = (\<lambda>fd p w. (0, w)), b_listen = (\<lambda>fd n w. (0, w)), b_accept = (\<lambda>fd w. (4, w)),
     b_recv = (\<lambda>fd n w. ((int n, replicate n 32), w)), b_send = (\<lambda>fd s w. (int (length s), w))\<rparr>"

lemma blocks_fresh: "fresh blocks_json" "length (jplan blocks_json) = 48"
proof -
  have "inj_on (\<lambda>n. word_of_nat (16 * n) :: addr) {1..<49}"
    by (rule inj_onI) (auto simp: word_unat_eq_iff unat_of_nat take_bit_eq_mod simp del: of_nat_mult)
  moreover have "(word_of_nat (16 * n) :: addr) \<noteq> 0" if "1 \<le> n" "n < 49" for n
    using that by (auto simp: word_unat_eq_iff unat_of_nat take_bit_eq_mod simp del: of_nat_mult)
  ultimately show "fresh blocks_json" by (force simp: fresh_def blocks_json_def distinct_map simp del: of_nat_mult)
qed (simp add: blocks_json_def)

definition enter_fields :: "(u8 list \<times> u8 list) list" where
  "enter_fields = [(ascii ''type'', ascii ''CMD''), (ascii ''CMD'', ascii ''ENTER'')]"

text \<open>
  C4. Receiving. For the text that cJSON prints of any object with strings and names without a zero byte and whole numbers, formatted or not, with bytes
  behind its terminator, \<^verbatim>\<open>tcp_command_parse\<close> does what \<open>command_outcome\<close> says of the members: of \<^verbatim>\<open>TYPE\<close>, \<^verbatim>\<open>TEST_ITEM\<close>, \<^verbatim>\<open>CMD\<close> and \<^verbatim>\<open>MSG\<close>, in this
  order and found by their first member without regard to case, it stores the strings up to the first that is faulty, a missing \<^verbatim>\<open>TYPE\<close> or \<^verbatim>\<open>CMD\<close>, no string, or more
  than 100 bytes, and returns the code of that fault; without one it returns \<^verbatim>\<open>CMD_TYPE_ERR\<close> for another type than \<^verbatim>\<open>CMD\<close>, else \<^verbatim>\<open>CMD_ERR\<close> for an unknown command,
  else 0. A string stored of exactly 100 bytes is undefined. Every item and string parsed is freed again.
\<close>

theorem command_received:
  assumes D: "exact_ints D" and t: "json_tree D (JTree cJSON_Object i d v nm ks)"
    and m: "fresh m" "1 + pallocs (JTree cJSON_Object i d v nm ks) \<le> length (jplan m)"
    and f: "tsize (JTree cJSON_Object i d v nm ks) + pallocs (JTree cJSON_Object i d v nm ks) + 1 < f"
  shows "\<exists>e. tcp_command_parse D f (jtext D fmt 0 (JTree cJSON_Object i d v nm ks) @ 0 # rest) (recv_paras tcp_command_para_init) m =
    map_option (\<lambda>(ret, rp). (ret, rp, m\<lparr>jplan := drop (1 + pallocs (JTree cJSON_Object i d v nm ks)) (jplan m), ep := e\<rparr>))
      (command_outcome ks)"
proof -
  have "readable D (JTree cJSON_Object i d v nm ks)" using json_tree_prints [OF D t] ..
  from command_parse_ok [OF this m _ _ command_paras_nonzero, of f fmt rest] f show ?thesis unfolding read_command by simp
qed

text \<open>The command to enter the test mode; and one of another type whose message is too long, by which it is judged.\<close>

definition long_fields :: "(u8 list \<times> u8 list) list" where
  "long_fields = [(ascii ''TYPE'', ascii ''RES''), (ascii ''CMD'', ascii ''ENTER''), (ascii ''MSG'', replicate 101 65)]"

abbreviation (input) string_members :: "(u8 list \<times> u8 list) list \<Rightarrow> int jtree list" where
  "string_members \<equiv> map (\<lambda>(n, v). JTree cJSON_String 0 0 (Some v) (Some n) [])"

lemmas command_eval = fault_def fills_def received_def named_def same_name_def c_tolower_def ascii_def

lemma enter_outcome: "command_outcome (string_members enter_fields) =
  Some (0, [(command_para ''TYPE'')\<lparr>para_valuestr := ascii ''CMD''\<rparr>, command_para ''TEST_ITEM'',
    (command_para ''CMD'')\<lparr>para_valuestr := ascii ''ENTER''\<rparr>, command_para ''MSG''])"
proof -
  have "fault (string_members enter_fields) n = 0 \<and> \<not> fills (string_members enter_fields) n" if "n \<in> set command_names" for n
    using that by (auto simp: command_names_def enter_fields_def command_eval)
  then have "taken (string_members enter_fields) = command_names" "\<not> (\<exists>n\<in>set command_names. fills (string_members enter_fields) n)"
    by (simp_all add: taken_def)
  then show ?thesis
    by (simp add: command_outcome_def command_names_def value_or_def command_code_def)
      (simp add: enter_fields_def command_eval RECV_TYPE_NAME_def recv_cmd_type_def)
qed

lemma long_outcome: "\<exists>rp. command_outcome (string_members long_fields) = Some (CMD_OVERLONG, rp)"
proof -
  have "fault (string_members long_fields) ''MSG'' = CMD_OVERLONG"
    "\<forall>n\<in>{''TYPE'', ''TEST_ITEM'', ''CMD''}. fault (string_members long_fields) n = 0 \<and> \<not> fills (string_members long_fields) n"
    by (simp_all add: long_fields_def command_eval)
  then show ?thesis by (simp add: command_outcome_def taken_def command_names_def)
qed

lemma enter_tree: "string_object int_ops enter_fields =
    JTree cJSON_Object 0 0 None None (map (\<lambda>(n, v). JTree cJSON_String 0 0 (Some v) (Some n) []) enter_fields)"
  by (simp add: string_object_def int_ops_def)

lemma enter_readable: "readable int_ops (string_object int_ops enter_fields)" "pallocs (string_object int_ops enter_fields) = 6"
  by (simp_all add: string_object_def enter_fields_def) (simp_all add: ascii_def)

lemma string_object_pallocs: "pallocs (string_object D fs) = 3 * length fs"
  by (simp add: string_object_def comp_def case_prod_beta sum_list_triv)

lemma long_tree: "string_object int_ops long_fields = JTree cJSON_Object 0 0 None None (string_members long_fields)"
  by (simp add: string_object_def int_ops_def)

theorem command_received_witness:
  "(\<exists>e. tcp_command_parse int_ops 16 (string_object_text enter_fields @ [0]) (recv_paras tcp_command_para_init) blocks_json =
     Some (0, [(command_para ''TYPE'')\<lparr>para_valuestr := ascii ''CMD''\<rparr>, command_para ''TEST_ITEM'',
        (command_para ''CMD'')\<lparr>para_valuestr := ascii ''ENTER''\<rparr>, command_para ''MSG''], blocks_json\<lparr>jplan := drop 7 (jplan blocks_json), ep := e\<rparr>)) \<and>
   (\<exists>rp m. tcp_command_parse int_ops 32 (string_object_text long_fields @ [0]) (recv_paras tcp_command_para_init) blocks_json = Some (CMD_OVERLONG, rp, m))"
proof
  have sizes: "tsize (string_object int_ops fs) + pallocs (string_object int_ops fs) + 1 = 4 * length fs + 2"
    "1 + pallocs (string_object int_ops fs) = 3 * length fs + 1" for fs
    by (simp_all add: string_object_sizes string_object_pallocs)
  have t: "json_tree int_ops (string_object int_ops enter_fields)" "json_tree int_ops (string_object int_ops long_fields)"
    by (simp_all add: string_object_def enter_fields_def long_fields_def) (simp_all add: ascii_def)
  show "\<exists>e. tcp_command_parse int_ops 16 (string_object_text enter_fields @ [0]) (recv_paras tcp_command_para_init) blocks_json =
     Some (0, [(command_para ''TYPE'')\<lparr>para_valuestr := ascii ''CMD''\<rparr>, command_para ''TEST_ITEM'',
        (command_para ''CMD'')\<lparr>para_valuestr := ascii ''ENTER''\<rparr>, command_para ''MSG''], blocks_json\<lparr>jplan := drop 7 (jplan blocks_json), ep := e\<rparr>)"
    using command_received [OF exact_int_ops t(1) [unfolded enter_tree] blocks_fresh(1), of 16 True "[]"] sizes [of enter_fields] blocks_fresh(2)
    unfolding enter_tree [symmetric] string_object_text enter_outcome by (simp add: enter_fields_def)
  show "\<exists>rp m. tcp_command_parse int_ops 32 (string_object_text long_fields @ [0]) (recv_paras tcp_command_para_init) blocks_json = Some (CMD_OVERLONG, rp, m)"
    using command_received [OF exact_int_ops t(2) [unfolded long_tree] blocks_fresh(1), of 32 True "[]"] sizes [of long_fields] blocks_fresh(2) long_outcome
    unfolding long_tree [symmetric] string_object_text by (auto simp: long_fields_def)
qed

text \<open>
  C5. The answer to a command. \<^verbatim>\<open>tcp_command_send\<close> sends the 200 bytes of \<^verbatim>\<open>send_buf\<close>, which begin with the text of an object with the members
  \<^verbatim>\<open>TYPE\<close>, \<^verbatim>\<open>TEST_ITEM\<close>, \<^verbatim>\<open>RES\<close>, \<^verbatim>\<open>MSG\<close>, \<^verbatim>\<open>STATUS\<close>, \<^verbatim>\<open>RESULT\<close> and \<^verbatim>\<open>ERR_CODE\<close>; the item and the result are left out for the commands without
  one, and the result when the status is \<^verbatim>\<open>NAK\<close>. An answer of more than 200 bytes is refused and nothing is sent, one of exactly
  200 bytes is written past the buffer. All the memory of the JSON functions is given back.
\<close>

theorem answer_sent:
  assumes "length rp = 4" "para_valuestr (rp ! INDEX_TEST_ITEM) = item" "para_valuestr (rp ! INDEX_CMD) = cmd"
    and "\<forall>s\<in>{item, cmd, status, msg, result}. length s < 100 \<and> 0 \<notin> set s" "int_ok err"
    and "fresh m" "39 \<le> length (jplan m)" "8 < f"
  shows "\<exists>k\<le>39. let text = string_object_text (answer_fields item cmd status msg result err); m' = m\<lparr>jplan := drop k (jplan m)\<rparr> in
    tcp_command_send B D f junk fd \<lparr>recv_paras = rp, send_paras = send_paras tcp_command_para_init\<rparr> status msg result err w m =
      (if length text > length junk then Some (SEND_FORMAT_ERR, w, m')
       else if length text < length junk then
         (let (n, w) = b_send B fd (text @ 0 # drop (length text + 1) junk) w in Some (if n < 0 then TCP_SEND_ERR else 0, w, m'))
       else None)"
proof -
  have "length (fmt_d err) < 100" using fmt_d_length [of err] assms(5) by (simp add: int_ok_def)
  then obtain cp where cp: "tcp_command_fill \<lparr>recv_paras = rp, send_paras = send_paras tcp_command_para_init\<rparr> status msg result err = Some cp"
    "para_fields (send_paras cp) = answer_fields item cmd status msg result err" using fill_ok [OF assms(1-3)] assms(4) by blast
  let ?n = "length (answer_fields item cmd status msg result err)"
  note bounds = answer_fields_bounds [of item cmd status msg result err]
  have "answer_cost ?n \<le> length (jplan m)" "?n + 1 < f" "?n < 2 ^ 31" using bounds assms(7,8) by (auto simp: answer_cost_def)
  moreover have "\<forall>(n, v)\<in>set (answer_fields item cmd status msg result err). 0 \<notin> set n \<and> 0 \<notin> set v"
    by (rule answer_fields_nonzero) (use assms(4) in blast)
  ultimately have "tcp_command_creat D f junk (send_paras cp) m =
    (let text = string_object_text (answer_fields item cmd status msg result err); m' = m\<lparr>jplan := drop (answer_cost ?n) (jplan m)\<rparr> in
     if length text > length junk then Some (SEND_FORMAT_ERR, junk, m')
     else if length text < length junk then Some (0, text @ 0 # drop (length text + 1) junk, m')
     else None)" using creat_ok [OF assms(6), of "send_paras cp" f D junk] by (simp only: cp(2))
  then show ?thesis using cp(1) bounds
    by (intro exI [of _ "answer_cost ?n"] conjI) (simp add: answer_cost_def, simp add: tcp_command_send_def Let_def split_def)
qed


theorem answer_sent_witness:
  "\<exists>k\<le>39. tcp_command_send demo_board int_ops 16 (replicate 200 0) 4
      \<lparr>recv_paras = [command_para ''TYPE'', command_para ''TEST_ITEM'', (command_para ''CMD'')\<lparr>para_valuestr := ascii ''ENTER''\<rparr>, command_para ''MSG''],
       send_paras = send_paras tcp_command_para_init\<rparr> ACK_STA [] RESULT_TESTING 0 [] blocks_json =
    Some (0, [], blocks_json\<lparr>jplan := drop k (jplan blocks_json)\<rparr>)"
proof -
  let ?rp = "[command_para ''TYPE'', command_para ''TEST_ITEM'', (command_para ''CMD'')\<lparr>para_valuestr := ascii ''ENTER''\<rparr>, command_para ''MSG'']"
  have s: "\<forall>s\<in>{[], ascii ''ENTER'', ACK_STA, [], RESULT_TESTING}. length s < 100 \<and> 0 \<notin> set s"
    by (simp add: ascii_def ACK_STA_def RESULT_TESTING_def)
  have i: "para_valuestr (?rp ! 1) = []" "para_valuestr (?rp ! 2) = ascii ''ENTER''" "length ?rp = 4" by (simp_all add: command_para_def zero_para_def)
  have "no_item_cmd (ascii ''ENTER'')" by (simp add: no_item_cmd_def recv_cmd_type_def)
  then have "length (string_object_text (answer_fields [] (ascii ''ENTER'') ACK_STA [] RESULT_TESTING 0)) < 200"
    by (simp add: answer_fields_def string_object_text_def object_text_def str_text_def escape_token_def fmt_d_def dec_digits.simps [of 0] ascii_def ACK_STA_def RESULT_TESTING_def)
  then show ?thesis
    using answer_sent [OF i(3,1,2) s, of 0 blocks_json 16 demo_board int_ops "replicate 200 0" 4 "[]"] blocks_fresh
    by (auto simp: Let_def demo_board_def int_ok_def split: if_splits)
qed

subsection \<open>Commands\<close>

text \<open>
  Status. Whatever command has been carried out, \<^verbatim>\<open>ret\<close> is -1 but for a query, or the start of the item \<^verbatim>\<open>write_storage\<close>; so the test
  \<^verbatim>\<open>err_code & ret\<close> answers \<^verbatim>\<open>NAK\<close> exactly when there is an error code and it is not the one a finished test reported.
\<close>

theorem status_tells_failure:
  assumes "do_command B err0 rp test_flag w = Some (Some (err, ret, msg, result), fs, tf, w')"
  shows "(err AND ret \<noteq> 0 \<longleftrightarrow> err \<noteq> 0 \<and> ret \<noteq> 0) \<and>
    (ret \<noteq> -1 \<longrightarrow> para_valuestr (rp ! INDEX_CMD) \<in> {recv_cmd_type ! START_CMD, recv_cmd_type ! QUERY_CMD} \<and>
       (ret = 0 \<or> ret = QUERY_RESULT_ERR \<and> err = QUERY_RESULT_ERR))"
  using status_of_command [OF assms] by auto

theorem status_tells_failure_witness:
  "do_command demo_board 0 (map (\<lambda>s. zero_para\<lparr>para_valuestr := s\<rparr>) [[], [65], ascii ''QUERY'', []]) True [0, 0] =
     Some (Some (QUERY_RESULT_ERR, QUERY_RESULT_ERR, [], RESULT_TESTING), PARENT_EXIT, True, [0, 0]) \<and>
   QUERY_RESULT_ERR AND QUERY_RESULT_ERR \<noteq> 0"
proof -
  have d: "do_command demo_board 0 (map (\<lambda>s. zero_para\<lparr>para_valuestr := s\<rparr>) [[], [65], ascii ''QUERY'', []]) True [0, 0] =
     Some (Some (QUERY_RESULT_ERR, QUERY_RESULT_ERR, [], RESULT_TESTING), PARENT_EXIT, True, [0, 0])"
    by (simp add: do_command_def recv_cmd_type_def query_test_result_def pcba_test_result_rw_def demo_board_def Let_def)
      (simp add: ascii_def sscanf_msg_def sscanf_nomsg_def scan_not_def)
  then show ?thesis using status_tells_failure [OF d] by simp
qed

text \<open>
  C26. A start needs the test mode. Without it, a \<^verbatim>\<open>START\<close> is answered \<^verbatim>\<open>NAK\<close> with \<^verbatim>\<open>TEST_MODE_ERR\<close>, or \<^verbatim>\<open>TEST_ITEM_BUSY\<close>, whatever the item, and the test mode
  stays off; in neither case is a process started.
\<close>

theorem start_needs_test_mode:
  assumes "para_valuestr (recv_paras cp ! INDEX_CMD) = recv_cmd_type ! START_CMD"
  shows "\<exists>err w'. start_pcba_test_preproccess B (recv_paras cp) False w = (err, w') \<and> err \<in> {TEST_MODE_ERR, TEST_ITEM_BUSY} \<and>
    tcp_command_process B D f junk fd 0 cp False w m =
      map_option (\<lambda>(ret, w, m). (PARENT_EXIT, False, w, m)) (tcp_command_send B D f junk fd cp NAK_STA [] RESULT_TESTING err w' m)"
proof -
  obtain err w' where p: "start_pcba_test_preproccess B (recv_paras cp) False w = (err, w')" by fastforce
  then have err: "err \<in> {TEST_MODE_ERR, TEST_ITEM_BUSY}"
    by (auto simp: start_pcba_test_preproccess_def Let_def split: prod.splits if_splits)
  have d: "recv_cmd_type ! 2 \<noteq> recv_cmd_type ! 0" "recv_cmd_type ! 2 \<noteq> recv_cmd_type ! Suc 0"
    by (simp_all add: recv_cmd_type_def ascii_def)
  have "do_command B 0 (recv_paras cp) False w = Some (Some (err, -1, [], RESULT_TESTING), PARENT_EXIT, False, w')"
    using p err assms d by (auto simp: do_command_def start_command_def Let_def)
  moreover have "err AND -1 \<noteq> 0" "err \<noteq> 0" using err by auto
  ultimately show ?thesis using p err
    by (cases "tcp_command_send B D f junk fd cp NAK_STA [] RESULT_TESTING err w' m") (auto simp: tcp_command_process_def Let_def)
qed


theorem start_needs_test_mode_witness:
  "\<exists>err w'. tcp_command_process demo_board int_ops 0 [] 4 0 \<lparr>recv_paras = map (\<lambda>s. zero_para\<lparr>para_valuestr := s\<rparr>) [[], [65], ascii ''START'', []], send_paras = []\<rparr> False [] blocks_json =
     map_option (\<lambda>(ret, w, m). (PARENT_EXIT, False, w, m))
       (tcp_command_send demo_board int_ops 0 [] 4 \<lparr>recv_paras = map (\<lambda>s. zero_para\<lparr>para_valuestr := s\<rparr>) [[], [65], ascii ''START'', []], send_paras = []\<rparr> NAK_STA [] RESULT_TESTING err w' blocks_json) \<and>
     err \<in> {TEST_MODE_ERR, TEST_ITEM_BUSY}"
proof -
  have "para_valuestr (recv_paras \<lparr>recv_paras = map (\<lambda>s. zero_para\<lparr>para_valuestr := s\<rparr>) [[], [65], ascii ''START'', []], send_paras = []\<rparr> ! INDEX_CMD) = recv_cmd_type ! START_CMD"
    by (simp add: recv_cmd_type_def)
  from start_needs_test_mode [OF this, of demo_board "[]" int_ops 0 "[]" 4 blocks_json] show ?thesis
    by (elim exE conjE) (intro exI conjI)
qed

text \<open>
  C28. Stopping ends. \<^verbatim>\<open>stop_pcba_test\<close> looks for the process four times at most and kills it after each look that finds it; it returns 0 at the first look that
  does not find it, and \<^verbatim>\<open>STOP_TEST_ERR\<close> after the fourth that does, without looking whether the last kill worked.
\<close>

theorem stopping_ends:
  "stop_pcba_test B rp w =
   (let item = para_valuestr (rp ! INDEX_TEST_ITEM);
        kill = (\<lambda>w. snd (run_cmd_to_shell B (snprintf_s COMMAND_VALUESIZE (ascii ''busybox killall '' @ item)) w));
        look = (\<lambda>k. (kill_round B item kill ^^ k) w) in
    case List.find (\<lambda>k. \<not> alive B item (look k)) [0, 1, 2, 3] of
      Some k \<Rightarrow> (0, snd (process_is_exists B item (look k)))
    | None \<Rightarrow> (STOP_TEST_ERR, look 4))"
proof -
  have "[0..<Suc 3] = [0, 1, 2, 3]" by (simp add: upt_rec)
  then show ?thesis unfolding stop_pcba_test_def Let_def by (subst stop_loop_rounds [of 3, simplified]) (simp del: upt_Suc)
qed


subsection \<open>Results\<close>

text \<open>
  C27. The result of a test gets through. If the file of the item keeps what is written to it, the first line with \<^verbatim>\<open>[tcp_server]\<close> that the item prints,
  \<^verbatim>\<open>[tcp_server]<msg>,<result>,<err>\<close>, is stored by \<^verbatim>\<open>pcba_test_item_process\<close>, and a query answers with just this
  message, empty or not, result and error code.
\<close>

theorem test_result_roundtrip:
  assumes item: "para_valuestr (rp ! INDEX_TEST_ITEM) = item" and keeps: "keeps_file B (result_filename item)"
    and run: "b_popen B (snprintf_s COMMAND_VALUESIZE (item @ ascii ''  '' @ para_valuestr (rp ! INDEX_MSG))) (b_chmod B item w) = (Some out, w0)"
    and line: "List.find (\<lambda>l. strstr l TESTITEM_SEND_HEAD) (fgets_lines out) = Some (report_line msg result err rest)"
    and "62 \<notin> set msg" "62 \<notin> set result" "result \<noteq> []" "int_ok err"
  shows "\<exists>w1 w2. pcba_test_item_process B rp w = Some (0, w1) \<and> query_test_result B item [] RESULT_TESTING w1 = Some (0, msg, result, err, w2)"
  by (rule report_gets_through [OF assms])

lemma demo_keeps: "keeps_file demo_board file"
  by (simp add: keeps_file_def demo_board_def Let_def)

lemma fgets_lines_eval:
  "fgets_lines [] = []" "s \<noteq> [] \<Longrightarrow> fgets_lines s = up_to_nul (fst (fgets 99 s)) # fgets_lines (snd (fgets 99 s))"
  "fgets (numeral k) (c # cs) = (if c = 10 then ([c], cs) else let (l, r) = fgets (pred_numeral k) cs in (c # l, r))"
  by (simp_all add: fgets_lines.simps [of s] fgets_lines.simps [of "[]"] split_def Let_def numeral_eq_Suc [of k])

lemma demo_lines: "List.find (\<lambda>l. strstr l TESTITEM_SEND_HEAD) (fgets_lines (ascii ''testing'' @ [10] @ demo_report)) = Some demo_report"
proof -
  have "demo_report = ascii ''[tcp_server]<ok>,<PASS>,<-7>'' @ [10]"
    by (simp add: demo_report_def report_line_def TESTITEM_SEND_HEAD_def fmt_d_def dec_digits.simps [of 7] ascii_def)
  moreover have "fgets_lines (ascii ''testing'' @ 10 # ascii ''[tcp_server]<ok>,<PASS>,<-7>'' @ [10]) =
      [ascii ''testing'' @ [10], ascii ''[tcp_server]<ok>,<PASS>,<-7>'' @ [10]]"
    by (simp add: fgets_lines_eval up_to_nul_def ascii_def)
  moreover have "strstr (ascii ''[tcp_server]<ok>,<PASS>,<-7>'' @ [10]) TESTITEM_SEND_HEAD" "\<not> strstr (ascii ''testing'' @ [10]) TESTITEM_SEND_HEAD"
    by (simp_all add: TESTITEM_SEND_HEAD_def ascii_def)
  ultimately show ?thesis by simp
qed

theorem test_result_roundtrip_witness:
  "\<exists>w1 w2. pcba_test_item_process demo_board (map (\<lambda>s. zero_para\<lparr>para_valuestr := s\<rparr>) [[], [65], [], []]) [] = Some (0, w1) \<and>
     query_test_result demo_board [65] [] RESULT_TESTING w1 = Some (0, ascii ''ok'', ascii ''PASS'', -7, w2)"
  by (rule test_result_roundtrip [OF _ demo_keeps _ demo_lines [unfolded demo_report_def]])
    (simp_all add: demo_board_def demo_report_def int_ok_def, simp_all add: ascii_def)

subsection \<open>Full buffers\<close>

text \<open>
  C29. Full buffers. The tests before the copies let through what is one byte too long. On the text that cJSON prints of an object, \<^verbatim>\<open>tcp_command_parse\<close> is
  undefined exactly if a parameter that it reaches, every one before it without fault, holds 100 bytes: these are copied with their terminator to 100
  bytes. And whenever exactly 200 bytes are received, the terminator is written behind \<^verbatim>\<open>recv_buf\<close>, and the behaviour is undefined.
\<close>

theorem full_buffers_overflow:
  assumes D: "exact_ints D" and t: "json_tree D (JTree cJSON_Object i d v nm ks)"
    and m: "fresh m" "1 + pallocs (JTree cJSON_Object i d v nm ks) \<le> length (jplan m)"
    and f: "tsize (JTree cJSON_Object i d v nm ks) + pallocs (JTree cJSON_Object i d v nm ks) + 1 < f"
    and r: "b_recv B fd RECV_BUFFER_SIZE w = ((200, data), w')" "length data = RECV_BUFFER_SIZE" "length buf = RECV_BUFFER_SIZE"
  shows "(tcp_command_parse D f (jtext D fmt 0 (JTree cJSON_Object i d v nm ks) @ 0 # rest) (recv_paras tcp_command_para_init) m = None \<longleftrightarrow>
      (\<exists>n\<in>set command_names. map_option length (received ks n) = Some COMMAND_VALUESIZE \<and>
         (\<forall>k\<in>set (takeWhile (\<lambda>k. k \<noteq> n) command_names). fault ks k = 0))) \<and>
    client_loop B D g junks fd turn buf test_flag w m = None"
proof
  have "readable D (JTree cJSON_Object i d v nm ks)" using json_tree_prints [OF D t] ..
  from command_parse_ok [OF this m _ _ command_paras_nonzero, of f fmt rest] f
  have "tcp_command_parse D f (jtext D fmt 0 (JTree cJSON_Object i d v nm ks) @ 0 # rest) (recv_paras tcp_command_para_init) m = None \<longleftrightarrow>
    (\<exists>n\<in>set (taken ks). fills ks n)" unfolding read_command by (auto simp: command_outcome_none)
  also have "\<dots> \<longleftrightarrow> (\<exists>n\<in>set command_names. fills ks n \<and> (\<forall>k\<in>set (takeWhile (\<lambda>k. k \<noteq> n) command_names). fault ks k = 0))"
  proof -
    have "fault ks n = 0" if "fills ks n" for n using that by (auto simp: fills_def fault_def received_def split: option.splits)
    then show ?thesis by (auto simp: taken_def command_names_def)
  qed
  finally show "tcp_command_parse D f (jtext D fmt 0 (JTree cJSON_Object i d v nm ks) @ 0 # rest) (recv_paras tcp_command_para_init) m = None \<longleftrightarrow>
      (\<exists>n\<in>set command_names. map_option length (received ks n) = Some COMMAND_VALUESIZE \<and>
         (\<forall>k\<in>set (takeWhile (\<lambda>k. k \<noteq> n) command_names). fault ks k = 0))" by (simp only: fills_def)
  show "client_loop B D g junks fd turn buf test_flag w m = None"
    using r by (cases "c_string data") (simp_all add: client_loop.simps arr_set_def)
qed

text \<open>The text of an object with a type of 100 letters, in memory for two items and two strings.\<close>

theorem full_buffers_overflow_witness:
  "tcp_command_parse int_ops 16 (string_object_text [(ascii ''TYPE'', replicate 100 65)] @ 0 # []) (recv_paras tcp_command_para_init) blocks_json = None \<and>
   client_loop demo_board int_ops 16 (\<lambda>n. []) 4 0 (replicate 200 0) False [] blocks_json = None"
proof -
  let ?fs = "[(ascii ''TYPE'', replicate 100 65)]"
  have o: "string_object int_ops ?fs = JTree cJSON_Object 0 0 None None (string_members ?fs)"
    by (simp add: string_object_def int_ops_def)
  have "received (string_members ?fs) ''TYPE'' = Some (replicate 100 65)" by (simp add: received_def named_def same_name_def)
  moreover have "json_tree int_ops (string_object int_ops ?fs)" by (simp add: string_object_def ascii_def)
  moreover have "b_recv demo_board 4 200 [] = ((200, replicate 200 32), [])" by (simp add: demo_board_def)
  moreover have "tsize (string_object int_ops ?fs) + pallocs (string_object int_ops ?fs) + 1 < 16" "1 + pallocs (string_object int_ops ?fs) \<le> 48"
    by (simp_all add: string_object_sizes string_object_pallocs)
  ultimately show ?thesis
    using full_buffers_overflow [OF exact_int_ops _ blocks_fresh(1), of 0 0 None None "string_members ?fs" 16 demo_board 4 "[]" "replicate 200 32" "[]" "replicate 200 0" True "[]"]
      blocks_fresh(2) string_object_text [of int_ops ?fs] unfolding o by (simp add: command_names_def del: jtext.simps)
qed

end
