(* ===== verification/IpcMq.thy ===== *)
theory IpcMq
  imports StateMachine Bytes
begin

text \<open>
  The agents of \<^verbatim>\<open>Common/Compement/src/MQ/ipc_mq.cpp\<close> that carry the messages of a queue from one process to another: the sending
  thread takes them from its queue and puts their bytes into a POSIX message queue, the receiving thread hands the bytes to a
  callback. The POSIX calls are a parameter; output for people is left out.
\<close>

subsection \<open>Data\<close>

text \<open>
  \<^verbatim>\<open>mq_open\<close> with \<^verbatim>\<open>O_CREAT | O_EXCL\<close>, with whether \<^verbatim>\<open>errno\<close> is \<^verbatim>\<open>EEXIST\<close>, and without; \<^verbatim>\<open>mq_getattr\<close> with the size of a message it reads;
  \<^verbatim>\<open>mq_send\<close> with the object sent from, the length and the priority; \<^verbatim>\<open>mq_receive\<close> with the bytes stored and whether \<^verbatim>\<open>errno\<close> is \<^verbatim>\<open>EAGAIN\<close>;
  \<open>m_stopped\<close> says whether another thread has cleared the flags in \<^verbatim>\<open>ipcAgentStop\<close> by now.
\<close>

record 'w mq_ops =
  m_create :: "u8 list \<Rightarrow> 'w \<Rightarrow> int \<times> bool \<times> 'w"
  m_open :: "u8 list \<Rightarrow> 'w \<Rightarrow> int \<times> 'w"
  m_getattr :: "int \<Rightarrow> 'w \<Rightarrow> int \<times> int \<times> 'w"
  m_close :: "int \<Rightarrow> 'w \<Rightarrow> int \<times> 'w"
  m_notify :: "int \<Rightarrow> 'w \<Rightarrow> int \<times> 'w"
  m_send :: "int \<Rightarrow> u8 list \<Rightarrow> nat \<Rightarrow> nat \<Rightarrow> 'w \<Rightarrow> int \<times> 'w"
  m_receive :: "int \<Rightarrow> int \<Rightarrow> 'w \<Rightarrow> int \<times> u8 list \<times> bool \<times> 'w"
  m_usleep :: "nat \<Rightarrow> 'w \<Rightarrow> 'w"
  m_stopped :: "'w \<Rightarrow> bool"

record 'a ipc_agent =
  m_bIPCRecvRunning :: bool
  recv_mqd :: int
  recv_msgsize :: int
  recv_buf :: "u8 list"
  m_recv_thread_attr :: "'a thread_attr"
  m_bIPCSendRunning :: bool
  send_mqd :: int
  m_send_thread_attr :: "'a thread_attr"

record send_agent =
  send_mq_name :: "u8 list"
  send_data_queue :: msg_queue

record recv_agent =
  recv_mq_name :: "u8 list"
  recv_data_queue :: msg_queue

definition IPC_MQ_MSGSIZE :: nat where
  "IPC_MQ_MSGSIZE = 1024"

text \<open>A message as its bytes in memory.\<close>

definition msg_bytes :: "msg \<Rightarrow> u8 list" where
  "msg_bytes m = concat (map (\<lambda>n. le_bytes 4 (unat n)) [msg_type (hdr m), msg_produce (hdr m), msg_len (hdr m), msg_src (hdr m), msg_dst (hdr m)]) @ data m"

subsection \<open>Opening and closing\<close>

definition recvMqClose :: "'w mq_ops \<Rightarrow> 'a ipc_agent \<Rightarrow> 'w \<Rightarrow> bool \<times> 'a ipc_agent \<times> 'w" where
  "recvMqClose B g w =
     (if recv_mqd g \<noteq> -1 then
        let (r, w) = m_close B (recv_mqd g) w in
        if r = 0 then (True, g\<lparr>m_bIPCRecvRunning := False\<rparr>, w) else (False, g, w)
      else (True, g, w))"

definition sendMqClose :: "'w mq_ops \<Rightarrow> 'a ipc_agent \<Rightarrow> 'w \<Rightarrow> bool \<times> 'a ipc_agent \<times> 'w" where
  "sendMqClose B g w =
     (if send_mqd g \<noteq> -1 then
        let (r, w) = m_close B (send_mqd g) w in
        if r = 0 then (True, g\<lparr>m_bIPCSendRunning := False\<rparr>, w) else (False, g, w)
      else (True, g, w))"

definition recvMqOpen :: "'w mq_ops \<Rightarrow> u8 list \<Rightarrow> 'a ipc_agent \<Rightarrow> 'w \<Rightarrow> bool \<times> 'a ipc_agent \<times> 'w" where
  "recvMqOpen B name g w =
     (let (mqd, exists, w) = m_create B name w; g = g\<lparr>recv_mqd := mqd\<rparr> in
      if mqd < 0 \<and> \<not> exists then (False, g\<lparr>m_bIPCRecvRunning := False\<rparr>, w)
      else
        let (g, w) = (if mqd < 0 then let (mqd, w) = m_open B name w in (g\<lparr>recv_mqd := mqd\<rparr>, w) else (g, w)) in
        if recv_mqd g < 0 then (False, g\<lparr>m_bIPCRecvRunning := False\<rparr>, w)
        else
          let (r, n, w) = m_getattr B (recv_mqd g) w in
          if r < 0 then let (_, g, w) = recvMqClose B g w in (False, g, w)
          else (True, g\<lparr>recv_msgsize := n\<rparr>, w))"

definition sendMqOpen :: "'w mq_ops \<Rightarrow> u8 list \<Rightarrow> 'a ipc_agent \<Rightarrow> 'w \<Rightarrow> bool \<times> 'a ipc_agent \<times> 'w" where
  "sendMqOpen B name g w =
     (let (mqd, exists, w) = m_create B name w; g = g\<lparr>send_mqd := mqd\<rparr> in
      if mqd < 0 \<and> \<not> exists then (False, g\<lparr>m_bIPCSendRunning := False\<rparr>, w)
      else
        let (g, w) = (if mqd < 0 then let (mqd, w) = m_open B name w in (g\<lparr>send_mqd := mqd\<rparr>, w) else (g, w)) in
        if send_mqd g < 0 then (False, g\<lparr>m_bIPCSendRunning := False\<rparr>, w)
        else
          let (r, _, w) = m_getattr B (send_mqd g) w in
          if r < 0 then let (_, g, w) = sendMqClose B g w in (False, g, w) else (True, g, w))"

subsection \<open>Receiving\<close>

text \<open>
  The loop around \<^verbatim>\<open>mq_receive\<close>: the callback gets the buffer and the length. More bytes than the buffer has are undefined, and so is
  a buffer without a zero, which the log line before the callback prints with \<^verbatim>\<open>%s\<close>. The result is whether it ended with \<^verbatim>\<open>EAGAIN\<close>.
\<close>

partial_function (option) receive_loop ::
    "'w mq_ops \<Rightarrow> (u8 list \<Rightarrow> int \<Rightarrow> 'w \<Rightarrow> 'w) \<Rightarrow> 'a ipc_agent \<Rightarrow> 'w \<Rightarrow> (bool \<times> 'a ipc_agent \<times> 'w) option" where
  "receive_loop B callback g w =
     (let (recvlen, bs, again, w) = m_receive B (recv_mqd g) (recv_msgsize g) w in
      if recvlen \<ge> 0 then do {
        buf \<leftarrow> bytes_put (recv_buf g) 0 bs;
        _ \<leftarrow> c_string buf;
        receive_loop B callback (g\<lparr>recv_buf := buf\<rparr>) (callback buf recvlen w)
      } else Some (again, g, w))"

definition recvNotifyThread ::
    "'w mq_ops \<Rightarrow> (u8 list \<Rightarrow> int \<Rightarrow> 'w \<Rightarrow> 'w) \<Rightarrow> 'a ipc_agent \<Rightarrow> 'w \<Rightarrow> ('a ipc_agent \<times> 'w) option" where
  "recvNotifyThread B callback g w = do {
     let (_, w) = m_notify B (recv_mqd g) w;
     (again, g, w) \<leftarrow> receive_loop B callback g w;
     Some (g, if again then w else m_usleep B 1000000 w)
   }"

text \<open>\<^verbatim>\<open>pause\<close> returns when a signal has been handled, and the code installs no handler: it sleeps for ever.\<close>

definition ipcRecvTaskProduce ::
    "'w mq_ops \<Rightarrow> (u8 list \<Rightarrow> int \<Rightarrow> 'w \<Rightarrow> 'w) \<Rightarrow> recv_agent option \<Rightarrow> 'a ipc_agent \<Rightarrow> 'w \<Rightarrow> (int \<times> 'a ipc_agent \<times> 'w) outcome" where
  "ipcRecvTaskProduce B callback agent g w =
     (case agent of None \<Rightarrow> Done (-1, g, w)
      | Some a \<Rightarrow>
          let (ok, g, w) = recvMqOpen B (recv_mq_name a) g w in
          if \<not> ok then Done (-1, g, w)
          else
            let (r, w) = m_notify B (recv_mqd g) w in
            if r = -1 then let (_, g, w) = recvMqClose B g w in Done (-1, g, w)
            else (case receive_loop B callback g w of None \<Rightarrow> Undefined
              | Some (again, g, w) \<Rightarrow>
                  let w = (if again then w else m_usleep B 1000000 w) in
                  if m_bIPCRecvRunning g \<and> \<not> m_stopped B w then Blocked
                  else let (_, g, w) = recvMqClose B g w in Done (0, g, w)))"

definition ipcRecvTask ::
    "'w mq_ops \<Rightarrow> (u8 list \<Rightarrow> int \<Rightarrow> 'w \<Rightarrow> 'w) \<Rightarrow> recv_agent option \<Rightarrow> 'a ipc_agent \<Rightarrow> 'w \<Rightarrow> ('a ipc_agent \<times> 'w) outcome" where
  "ipcRecvTask B callback agent g w =
     (case ipcRecvTaskProduce B callback agent g w of Undefined \<Rightarrow> Undefined | Blocked \<Rightarrow> Blocked | Done (_, g, w) \<Rightarrow> Done (g, w))"

subsection \<open>Sending\<close>

definition ipcSendCommand :: "'w mq_ops \<Rightarrow> 'a ipc_agent \<Rightarrow> u8 list \<Rightarrow> int \<Rightarrow> nat \<Rightarrow> 'w \<Rightarrow> int \<times> 'w" where
  "ipcSendCommand B g sendbuf sendlen prio w =
     (if send_mqd g < 0 then (-1, w)
      else
        let (r, w) = m_send B (send_mqd g) sendbuf (unat (word_of_int sendlen :: u64)) prio w in
        (if r = 0 then 0 else -1, w))"

text \<open>The loop that sends again, \<open>ms\<close> microseconds later and twice as late each time.\<close>

partial_function (option) resend_loop :: "'w mq_ops \<Rightarrow> 'a ipc_agent \<Rightarrow> u8 list \<Rightarrow> int \<Rightarrow> nat \<Rightarrow> 'w \<Rightarrow> 'w option" where
  "resend_loop B g buf len ms w =
     (let (r, w) = ipcSendCommand B g buf len 0 w in
      if r \<noteq> 0 \<and> (m_bIPCSendRunning g \<and> \<not> m_stopped B w) \<and> ms < 5120000
      then resend_loop B g buf len (ms * 2) (m_usleep B ms w) else Some w)"

text \<open>One turn of the sending thread: its queue and the rest; \<open>False\<close> when \<^verbatim>\<open>MsgDeQueue\<close> failed.\<close>

definition send_turn :: "'w mq_ops \<Rightarrow> 'a ipc_agent \<Rightarrow> msg_queue \<Rightarrow> 'w \<Rightarrow> (msg_queue \<times> 'w) outcome" where
  "send_turn B g q w =
     (case MsgDeQueue (Some q) zero_msg of Undefined \<Rightarrow> Undefined | Blocked \<Rightarrow> Blocked
      | Done (_, _, None) \<Rightarrow> Undefined
      | Done (res, m, Some q) \<Rightarrow>
          if res \<noteq> 0 then Done (q, w)
          else (case resend_loop B g (msg_bytes m) (sint (msg_len (hdr m))) 5000 w of None \<Rightarrow> Undefined | Some w \<Rightarrow> Done (q, w)))"

text \<open>The loop, until it ends or sleeps at the queue; the flag says which. The first argument bounds the turns.\<close>

primrec send_loop :: "nat \<Rightarrow> 'w mq_ops \<Rightarrow> 'a ipc_agent \<Rightarrow> msg_queue \<Rightarrow> 'w \<Rightarrow> (bool \<times> msg_queue \<times> 'w) option" where
  "send_loop 0 B g q w = None"
| "send_loop (Suc f) B g q w =
     (if \<not> (m_bIPCSendRunning g \<and> \<not> m_stopped B w) then Some (True, q, w)
      else (case send_turn B g q w of Undefined \<Rightarrow> None | Blocked \<Rightarrow> Some (False, q, w) | Done (q, w) \<Rightarrow> send_loop f B g q w))"

definition ipcSendTask ::
    "nat \<Rightarrow> 'w mq_ops \<Rightarrow> send_agent option \<Rightarrow> 'a ipc_agent \<Rightarrow> 'w \<Rightarrow> (send_agent option \<times> 'a ipc_agent \<times> 'w) outcome" where
  "ipcSendTask f B agent g w =
     (case agent of None \<Rightarrow> Done (None, g, w)
      | Some a \<Rightarrow>
          let (ok, g, w) = sendMqOpen B (send_mq_name a) g w in
          if \<not> ok then Done (Some a, g, w)
          else (case send_loop f B g (send_data_queue a) w of None \<Rightarrow> Undefined
            | Some (False, _, _) \<Rightarrow> Blocked
            | Some (True, q, w) \<Rightarrow> let (_, g, w) = sendMqClose B g w in Done (Some (a\<lparr>send_data_queue := q\<rparr>), g, w)))"

subsection \<open>Starting and stopping\<close>

text \<open>
  \<^verbatim>\<open>initThreadAttr\<close>, whose failure is only logged, and \<^verbatim>\<open>pthread_create\<close> with result \<open>r\<close>.
\<close>

definition ipc_thread :: "'a pthread_ops \<Rightarrow> int \<Rightarrow> int \<Rightarrow> int \<Rightarrow> 'a thread_attr \<Rightarrow> (bool \<times> 'a thread_attr) option" where
  "ipc_thread P policy prio r a = do {
     (_, a) \<leftarrow> initThreadAttr P (Some a) policy prio;
     a \<leftarrow> a;
     (case a of Dead \<Rightarrow> None | Alive _ \<Rightarrow> Some (r = 0, a))
   }"

text \<open>
  The three arguments are null or not. The second component: whether the receiving, and the sending, thread has been created.
\<close>

definition ipcAgentStart ::
    "'a pthread_ops \<Rightarrow> int \<Rightarrow> int \<Rightarrow> int \<Rightarrow> bool \<Rightarrow> bool \<Rightarrow> bool \<Rightarrow> 'a ipc_agent \<Rightarrow> (int \<times> (bool \<times> bool) \<times> 'a ipc_agent) option" where
  "ipcAgentStart P policy r1 r2 recv send callback g =
     (if \<not> callback \<or> \<not> recv \<or> \<not> send then Some (-1, (False, False), g)
      else do {
        (ok, new1, g) \<leftarrow> (if m_bIPCRecvRunning g then Some (True, False, g)
          else do {
            (ok, a) \<leftarrow> ipc_thread P policy 97 r1 (m_recv_thread_attr g);
            Some (ok, ok, g\<lparr>m_bIPCRecvRunning := ok, m_recv_thread_attr := a\<rparr>)
          });
        if \<not> ok then Some (-1, (False, False), g)
        else do {
          (ok, new2, g) \<leftarrow> (if m_bIPCSendRunning g then Some (True, False, g)
            else do {
              (ok, a) \<leftarrow> ipc_thread P policy 98 r2 (m_send_thread_attr g);
              Some (ok, ok, g\<lparr>m_bIPCSendRunning := ok, m_send_thread_attr := a\<rparr>)
            });
          Some (if ok then 0 else -1, (new1, new2), g)
        }
      })"

text \<open>
  \<open>recv\<close> and \<open>send\<close> are how the two threads go on with the flags cleared: \<^verbatim>\<open>pthread_join\<close> waits for each to end; joining a thread never created
  is undefined.
\<close>

definition ipcAgentStop ::
    "'a pthread_ops \<Rightarrow> unit outcome \<Rightarrow> unit outcome \<Rightarrow> 'a ipc_agent \<Rightarrow> (int \<times> 'a ipc_agent) outcome" where
  "ipcAgentStop P recv send g =
     (let g = g\<lparr>m_bIPCRecvRunning := False, m_bIPCSendRunning := False\<rparr> in
      case recv of Undefined \<Rightarrow> Undefined | Blocked \<Rightarrow> Blocked
      | Done _ \<Rightarrow>
          (case destoryThreadAttr P (Some (m_recv_thread_attr g)) of
            Some (_, Some a) \<Rightarrow>
              let g = g\<lparr>m_recv_thread_attr := a\<rparr> in
              (case send of Undefined \<Rightarrow> Undefined | Blocked \<Rightarrow> Blocked
               | Done _ \<Rightarrow>
                   (case destoryThreadAttr P (Some (m_send_thread_attr g)) of
                     Some (_, Some a) \<Rightarrow> Done (0, g\<lparr>m_send_thread_attr := a\<rparr>)
                   | _ \<Rightarrow> Undefined))
          | _ \<Rightarrow> Undefined))"

end
