(* ===== verification/IpcSpec.thy ===== *)
theory IpcSpec
  imports IpcMq CallQueue
begin

text \<open>
  The agents of \<^verbatim>\<open>ipc_mq.cpp\<close>: how often and when a message is sent again, the sending thread as a client of the message queue through the locale
  \<open>mailbox\<close>, and what a POSIX queue between two agents carries.
\<close>

subsection \<open>Sending again\<close>

text \<open>The system at the attempts: after each failure it is waited twice as long.\<close>

primrec attempt :: "'w mq_ops \<Rightarrow> 'a ipc_agent \<Rightarrow> u8 list \<Rightarrow> int \<Rightarrow> nat \<Rightarrow> 'w \<Rightarrow> 'w" where
  "attempt B g buf len 0 w = w"
| "attempt B g buf len (Suc k) w = m_usleep B (5000 * 2 ^ k) (snd (ipcSendCommand B g buf len 0 (attempt B g buf len k w)))"

definition enough :: "'w mq_ops \<Rightarrow> 'a ipc_agent \<Rightarrow> u8 list \<Rightarrow> int \<Rightarrow> 'w \<Rightarrow> bool" where
  "enough B g buf len w \<longleftrightarrow> fst (ipcSendCommand B g buf len 0 w) = 0 \<or>
     \<not> (m_bIPCSendRunning g \<and> \<not> m_stopped B (snd (ipcSendCommand B g buf len 0 w)))"

lemma resend_step:
  "resend_loop B g buf len ms w =
     (if \<not> enough B g buf len w \<and> ms < 5120000
      then resend_loop B g buf len (ms * 2) (m_usleep B ms (snd (ipcSendCommand B g buf len 0 w)))
      else Some (snd (ipcSendCommand B g buf len 0 w)))"
  by (subst resend_loop.simps) (auto simp: enough_def Let_def split: prod.splits)

lemma resend_rounds:
  "j + n = 10 \<Longrightarrow> resend_loop B g buf len (5000 * 2 ^ j) (attempt B g buf len j w) =
     Some (snd (ipcSendCommand B g buf len 0 (attempt B g buf len
       (case List.find (\<lambda>k. enough B g buf len (attempt B g buf len k w)) [j..<10] of None \<Rightarrow> 10 | Some k \<Rightarrow> k) w)))"
proof (induction n arbitrary: j)
  case 0
  then show ?case by (subst resend_step) simp
next
  case (Suc n)
  then have "(2 :: nat) ^ j \<le> 2 ^ 9" by (intro power_increasing) auto
  then have ms: "5000 * 2 ^ j < (5120000 :: nat)" by simp
  have "[j..<10] = j # [Suc j..<10]" using Suc.prems by (intro upt_conv_Cons) simp
  then show ?case using Suc.IH [of "Suc j"] Suc.prems ms by (subst resend_step) (simp add: ac_simps)
qed

subsection \<open>The sending thread is a client of the message queue\<close>

definition ipc_handle :: "'w mq_ops \<Rightarrow> 'a ipc_agent \<Rightarrow> msg \<Rightarrow> 'w \<Rightarrow> ('w \<times> unit list) option" where
  "ipc_handle B g m w = map_option (\<lambda>w. (w, [])) (resend_loop B g (msg_bytes m) (sint (msg_len (hdr m))) 5000 w)"

lemma send_loop_serves:
  assumes "m_bIPCSendRunning g" "\<And>w. \<not> m_stopped B w"
  shows "send_loop f B g q w = map_option (\<lambda>(q, w, es). (False, q, w)) (serve queue_get (ipc_handle B g) f q w)"
proof (induction f arbitrary: q w)
  case (Suc f)
  show ?case
  proof (cases "MsgDeQueue (Some q) zero_msg")
    case (Done x)
    obtain r m pq where x: "x = (r, m, pq)" by (cases x)
    show ?thesis
    proof (cases pq)
      case None
      then show ?thesis using assms Done x by (simp add: send_turn_def queue_get_def)
    next
      case (Some q')
      show ?thesis using assms Suc Done x Some
        by (cases "resend_loop B g (msg_bytes m) (sint (msg_len (hdr m))) 5000 w"; cases "r = 0")
          (auto simp: send_turn_def queue_get_def ipc_handle_def option.map_comp comp_def split_def)
    qed
  qed (simp_all add: assms send_turn_def queue_get_def)
qed simp

subsection \<open>A POSIX queue between two agents\<close>

text \<open>
  What the agents rely on: a queue of at most \<open>cap\<close> messages of at most \<open>msz\<close> bytes, \<open>queued\<close> in the state, that is written through one
  descriptor and read through another; messages of the same priority stay in order, and a call that would wait fails.
\<close>

definition posix_queue :: "'w mq_ops \<Rightarrow> int \<Rightarrow> int \<Rightarrow> nat \<Rightarrow> nat \<Rightarrow> ('w \<Rightarrow> u8 list list) \<Rightarrow> bool" where
  "posix_queue B sfd rfd cap msz queued \<longleftrightarrow>
     (\<forall>w bs n. length (queued w) < cap \<and> n \<le> msz \<and> n \<le> length bs \<longrightarrow>
        fst (m_send B sfd bs n 0 w) = 0 \<and> queued (snd (m_send B sfd bs n 0 w)) = queued w @ [take n bs]) \<and>
     (\<forall>w bs ms. queued w = bs # ms \<longrightarrow> (\<exists>again w'. m_receive B rfd (int msz) w = (int (length bs), bs, again, w') \<and> queued w' = ms)) \<and>
     (\<forall>w. queued w = [] \<longrightarrow> (\<exists>bs w'. m_receive B rfd (int msz) w = (-1, bs, True, w') \<and> queued w' = []))"

definition wire :: "msg \<Rightarrow> u8 list" where
  "wire m = take (unat (msg_len (hdr m))) (msg_bytes m)"

lemma length_msg_bytes: "length (msg_bytes m) = 20 + length (data m)"
  by (simp add: msg_bytes_def)

lemma length_sent: "unat (x :: u32) < 2 ^ 31 \<Longrightarrow> unat (word_of_int (sint x) :: u64) = unat x"
proof -
  assume x: "unat x < 2 ^ 31"
  have i: "uint x = int (unat x)" by (rule uint_nat)
  then have u: "uint x < 2 ^ 31" using x unfolding i by (metis of_nat_less_numeral_power_cancel_iff)
  have "signed_take_bit 31 (uint x) = uint x" by (rule signed_take_bit_int_eq_self) (use u uint_ge_0 [of x] in linarith)+
  then have "sint x = uint x" by (simp add: sint_uint)
  moreover have "uint (word_of_int (uint x) :: u64) = uint x" unfolding uint_word_of_int_eq
    by (rule take_bit_int_eq_self) (use u in simp_all)
  ultimately have e: "uint (word_of_int (sint x) :: u64) = uint x" by simp
  have "int (unat (word_of_int (sint x) :: u64)) = int (unat x)" unfolding uint_nat [symmetric] by (rule e)
  then show ?thesis by (simp only: of_nat_eq_iff)
qed

lemma send_once:
  assumes K: "posix_queue B sfd rfd cap msz queued" and g: "send_mqd g = sfd" "0 \<le> sfd"
    and m: "unat (msg_len (hdr m)) \<le> msz" "unat (msg_len (hdr m)) \<le> length (msg_bytes m)" "unat (msg_len (hdr m)) < 2 ^ 31" and room: "length (queued w) < cap"
  shows "\<exists>w'. resend_loop B g (msg_bytes m) (sint (msg_len (hdr m))) 5000 w = Some w' \<and> queued w' = queued w @ [wire m]"
proof -
  note len = length_sent [OF m(3)]
  have "fst (m_send B sfd (msg_bytes m) (unat (msg_len (hdr m))) 0 w) = 0"
    "queued (snd (m_send B sfd (msg_bytes m) (unat (msg_len (hdr m))) 0 w)) = queued w @ [wire m]"
    using K room m(1,2) unfolding posix_queue_def wire_def by blast+
  then show ?thesis using g len by (subst resend_step) (simp add: enough_def ipcSendCommand_def split_def)
qed

lemma handle_all_sends:
  assumes K: "posix_queue B sfd rfd cap msz queued" and g: "send_mqd g = sfd" "0 \<le> sfd" and msz: "msz < 2 ^ 31"
  shows "\<forall>m\<in>set ms. unat (msg_len (hdr m)) \<le> msz \<and> unat (msg_len (hdr m)) \<le> 20 + length (data m) \<Longrightarrow> length (queued w) + length ms \<le> cap \<Longrightarrow>
    \<exists>w'. handle_all (ipc_handle B g) ms w = Some (w', []) \<and> queued w' = queued w @ map wire ms"
proof (induction ms arbitrary: w)
  case (Cons m ms)
  have m: "unat (msg_len (hdr m)) \<le> msz" "unat (msg_len (hdr m)) \<le> length (msg_bytes m)" "unat (msg_len (hdr m)) < 2 ^ 31" "length (queued w) < cap"
    using Cons.prems msz by (auto simp: length_msg_bytes)
  obtain w1 where "resend_loop B g (msg_bytes m) (sint (msg_len (hdr m))) 5000 w = Some w1" "queued w1 = queued w @ [wire m]"
    using send_once [OF K g m] by blast
  then show ?case using Cons.IH [of w1] Cons.prems by (auto simp: ipc_handle_def)
qed simp

text \<open>A callback that records what it gets.\<close>

definition records :: "'w mq_ops \<Rightarrow> int \<Rightarrow> nat \<Rightarrow> (u8 list \<Rightarrow> int \<Rightarrow> 'w \<Rightarrow> 'w) \<Rightarrow> ('w \<Rightarrow> u8 list list) \<Rightarrow> ('w \<Rightarrow> u8 list list) \<Rightarrow> bool" where
  "records B rfd msz callback queued got \<longleftrightarrow>
     (\<forall>buf n w. queued (callback buf n w) = queued w \<and> got (callback buf n w) = got w @ [take (nat n) buf]) \<and>
     (\<forall>w. got (snd (snd (snd (m_receive B rfd (int msz) w)))) = got w)"

text \<open>
  A zero in the receiving buffer: there is one behind its first eleven bytes, and a message as the agents send it keeps it, because the byte at 11 is the
  highest of \<^verbatim>\<open>msg_len\<close>.
\<close>

definition has_zero :: "u8 list \<Rightarrow> bool" where
  "has_zero buf \<longleftrightarrow> 0 \<in> set (drop 11 buf)"

lemma has_zero_string: "has_zero buf \<Longrightarrow> \<exists>s. c_string buf = Some s"
  by (rule c_string_terminated) (auto simp: has_zero_def dest: in_set_dropD)

lemma has_zero_kept: "length bs \<le> 11 \<or> bs ! 11 = 0 \<Longrightarrow> has_zero buf \<Longrightarrow> has_zero (bs @ drop (length bs) buf)"
proof (cases "length bs \<le> 11")
  case False
  assume "length bs \<le> 11 \<or> bs ! 11 = 0"
  then have "drop 11 bs ! 0 = 0" "0 < length (drop 11 bs)" using False by simp_all
  then have "0 \<in> set (drop 11 bs)" using nth_mem by metis
  then show ?thesis by (simp add: has_zero_def)
qed (simp add: has_zero_def)

lemma le_bytes_4: "le_bytes 4 n = [of_nat n, of_nat (n div 256), of_nat (n div 256 div 256), of_nat (n div 256 div 256 div 256)]"
proof -
  have "(4 :: nat) = Suc (Suc (Suc (Suc 0)))" by simp
  then show ?thesis by (simp only: le_bytes.simps)
qed

lemma wire_zero: "unat (msg_len (hdr m)) < 2 ^ 24 \<Longrightarrow> length (wire m) \<le> 11 \<or> wire m ! 11 = 0"
proof (intro disjCI)
  assume n: "unat (msg_len (hdr m)) < 2 ^ 24" and "wire m ! 11 \<noteq> 0"
  have "unat (msg_len (hdr m)) div 256 div 256 div 256 = 0" using n by (simp add: div_mult2_eq [symmetric])
  then have "msg_bytes m ! 11 = 0" by (simp only: msg_bytes_def le_bytes_4 list.map concat.simps append_Cons append_Nil) simp
  moreover have "wire m ! 11 = msg_bytes m ! 11" if "11 < length (wire m)" using that by (simp add: wire_def)
  ultimately show "length (wire m) \<le> 11" using \<open>wire m ! 11 \<noteq> 0\<close> by fastforce
qed

lemma receive_drains:
  assumes K: "posix_queue B sfd rfd cap msz queued" and R: "records B rfd msz callback queued got"
  shows "queued w = ms \<Longrightarrow> recv_mqd g = rfd \<Longrightarrow> recv_msgsize g = int msz \<Longrightarrow> has_zero (recv_buf g) \<Longrightarrow>
    \<forall>bs\<in>set ms. length bs \<le> length (recv_buf g) \<and> (length bs \<le> 11 \<or> bs ! 11 = 0) \<Longrightarrow>
    \<exists>g' w'. receive_loop B callback g w = Some (True, g', w') \<and> queued w' = [] \<and> got w' = got w @ ms"
proof (induction ms arbitrary: g w)
  case Nil
  then obtain bs w' where r: "m_receive B rfd (int msz) w = (-1, bs, True, w')" "queued w' = []" using K unfolding posix_queue_def by blast
  moreover have "got w' = got w" using R r(1) unfolding records_def by (metis snd_conv)
  ultimately show ?case using Nil by (subst receive_loop.simps) simp
next
  case (Cons bs ms)
  obtain again w' where r: "m_receive B rfd (int msz) w = (int (length bs), bs, again, w')" "queued w' = ms"
    using K Cons.prems(1) unfolding posix_queue_def by blast
  have gw: "got w' = got w" using R r(1) unfolding records_def by (metis snd_conv)
  let ?buf = "bs @ drop (length bs) (recv_buf g)"
  have put: "bytes_put (recv_buf g) 0 bs = Some ?buf" using Cons.prems(5) by (simp add: bytes_put_def)
  have z: "has_zero ?buf" using has_zero_kept Cons.prems(4,5) by simp
  then obtain s where s: "c_string ?buf = Some s" using has_zero_string by blast
  have cb: "queued (callback ?buf (int (length bs)) w') = ms" "got (callback ?buf (int (length bs)) w') = got w @ [bs]"
    using R r(2) gw by (simp_all add: records_def)
  have "\<forall>b\<in>set ms. length b \<le> length (recv_buf (g\<lparr>recv_buf := ?buf\<rparr>)) \<and> (length b \<le> 11 \<or> b ! 11 = 0)" using Cons.prems(5) by auto
  then obtain g' w'' where "receive_loop B callback (g\<lparr>recv_buf := ?buf\<rparr>) (callback ?buf (int (length bs)) w') = Some (True, g', w'')"
    "queued w'' = []" "got w'' = (got w @ [bs]) @ ms" using Cons.IH [OF cb(1), of "g\<lparr>recv_buf := ?buf\<rparr>"] Cons.prems(2,3) cb(2) z by auto
  then show ?case using Cons.prems(2,3) r(1) put s by (subst receive_loop.simps) simp
qed

end
