(* ===== verification/IpcProps.thy ===== *)
theory IpcProps
  imports IpcSpec
begin

text \<open>
  The properties of the agents that carry messages between processes: sending again ends, what was queued is delivered in order, and stopping the agent waits
  for a thread that sleeps for ever.
\<close>

subsection \<open>An instance\<close>

text \<open>A queue of ten messages behind the descriptors 3 and 4; the state is what it holds and what the callback got.\<close>

definition demo_mq :: "(u8 list list \<times> u8 list list) mq_ops" where
  "demo_mq = \<lparr>m_create = (\<lambda>n w. (4, False, w)), m_open = (\<lambda>n w. (4, w)), m_getattr = (\<lambda>fd w. (0, 1024, w)), m_close = (\<lambda>fd w. (0, w)),
     m_notify = (\<lambda>fd w. (0, w)),
     m_send = (\<lambda>fd bs n p w. if length (fst w) < 10 \<and> n \<le> 1024 then (0, fst w @ [take n bs], snd w) else (-1, w)),
     m_receive = (\<lambda>fd n w. case fst w of [] \<Rightarrow> (-1, [], True, w) | bs # r \<Rightarrow> (int (length bs), bs, False, (r, snd w))),
     m_usleep = (\<lambda>n w. w), m_stopped = (\<lambda>w. False)\<rparr>"

definition demo_agent :: "unit ipc_agent" where
  "demo_agent = \<lparr>m_bIPCRecvRunning = True, recv_mqd = 4, recv_msgsize = 1024, recv_buf = replicate 1024 0, m_recv_thread_attr = Alive (),
     m_bIPCSendRunning = True, send_mqd = 3, m_send_thread_attr = Alive ()\<rparr>"

definition demo_callback :: "u8 list \<Rightarrow> int \<Rightarrow> u8 list list \<times> u8 list list \<Rightarrow> u8 list list \<times> u8 list list" where
  "demo_callback buf n w = (fst w, snd w @ [take (nat n) buf])"

lemma demo_mq_laws: "posix_queue demo_mq 3 4 10 IPC_MQ_MSGSIZE fst" "records demo_mq 4 IPC_MQ_MSGSIZE demo_callback fst snd"
  by (auto simp: IPC_MQ_MSGSIZE_def posix_queue_def records_def demo_mq_def demo_callback_def split: list.splits)

subsection \<open>Sending\<close>

text \<open>
  C31. Sending again ends. The loop around \<^verbatim>\<open>ipcSendCommand\<close> sends at most eleven times, waits \<^verbatim>\<open>5000 * 2^k\<close> microseconds after the failure of attempt \<open>k\<close>, and
  returns at the first attempt that works or finds the agent stopped, or else after the eleventh: the message is then dropped.
\<close>

theorem resending_ends:
  "resend_loop B g buf len 5000 w =
     Some (snd (ipcSendCommand B g buf len 0 (attempt B g buf len
       (case List.find (\<lambda>k. enough B g buf len (attempt B g buf len k w)) [0..<10] of None \<Rightarrow> 10 | Some k \<Rightarrow> k) w)))"
  using resend_rounds [of 0 10] by simp

lemma long_message_given_up:
  assumes "\<And>w. fst (ipcSendCommand B g buf len 0 w) \<noteq> 0" "m_bIPCSendRunning g" "\<And>w. \<not> m_stopped B w"
  shows "resend_loop B g buf len 5000 w = Some (snd (ipcSendCommand B g buf len 0 (attempt B g buf len 10 w)))"
proof -
  have "List.find (\<lambda>k. enough B g buf len (attempt B g buf len k w)) [0..<10] = None"
    using assms by (simp add: find_None_iff enough_def)
  then show ?thesis using resend_rounds [of 0 10 B g buf len w] by simp
qed

text \<open>
  C30. From queue to callback. Messages that wait in the queue of the sending agent, of at most 1024 bytes by the lengths in their headers and no longer than they are, and no
  more of them than the empty POSIX queue has room for, are all sent by the thread, which nobody stops, until it sleeps at its empty queue. If the receiving agent only then looks at the POSIX queue, it
  hands the bytes of each, cut to the length in its header, to the callback, in the order in which they were queued, and leaves nothing behind. Its buffer of 1024
  bytes has a zero behind the first eleven bytes before, as it has at the start; these messages leave one there, and the log line that prints the buffer as a string stops.
\<close>

theorem channel_delivers:
  assumes q: "queue_holds q ms k" and K: "posix_queue B sfd rfd cap IPC_MQ_MSGSIZE queued" and R: "records B rfd IPC_MQ_MSGSIZE callback queued got"
    and ms: "length ms \<le> cap" "\<forall>m\<in>set ms. unat (msg_len (hdr m)) \<le> IPC_MQ_MSGSIZE \<and> unat (msg_len (hdr m)) \<le> 20 + length (data m)"
    and w: "queued w = []" "\<And>w. \<not> m_stopped B w"
    and g: "m_bIPCSendRunning g" "send_mqd g = sfd" "0 \<le> sfd"
    and h: "recv_mqd h = rfd" "recv_msgsize h = int IPC_MQ_MSGSIZE" "length (recv_buf h) = IPC_MQ_MSGSIZE" "0 \<in> set (drop 11 (recv_buf h))"
  shows "\<exists>q' w1 h' w2. send_loop (length ms + k + 1) B g q w = Some (False, q', w1) \<and> queue_holds q' [] 0 \<and>
    receive_loop B callback h w1 = Some (True, h', w2) \<and> got w2 = got w1 @ map wire ms \<and> queued w2 = []"
proof -
  obtain w1 where s: "handle_all (ipc_handle B g) ms w = Some (w1, [])" "queued w1 = map wire ms"
    using handle_all_sends [OF K g(2,3) _ ms(2), of w] ms(1) w(1) by (auto simp: IPC_MQ_MSGSIZE_def)
  obtain q' where q': "serve queue_get (ipc_handle B g) (length ms + k + 1) q w = Some (q', w1, [])" "queue_holds q' [] 0"
    using mq.serve_ok [OF q s(1)] by blast
  have "length (wire m) \<le> length (recv_buf h) \<and> (length (wire m) \<le> 11 \<or> wire m ! 11 = 0)" if "m \<in> set ms" for m
    using wire_zero [of m] ms(2) h(3) that by (fastforce simp: wire_def IPC_MQ_MSGSIZE_def)
  then have "\<forall>bs\<in>set (map wire ms). length bs \<le> length (recv_buf h) \<and> (length bs \<le> 11 \<or> bs ! 11 = 0)" by simp
  then obtain h' w2 where "receive_loop B callback h w1 = Some (True, h', w2)" "queued w2 = []" "got w2 = got w1 @ map wire ms"
    using receive_drains [OF K R s(2) h(1,2)] h(4) unfolding has_zero_def by blast
  moreover have "send_loop (length ms + k + 1) B g q w = Some (False, q', w1)"
    using send_loop_serves [OF g(1) w(2), of "length ms + k + 1" q w] q'(1) by simp
  ultimately show ?thesis using q'(2) by blast
qed

definition demo_msg :: msg where
  "demo_msg = \<lparr>hdr = \<lparr>msg_type = 7, msg_produce = 0, msg_len = 21, msg_src = 1, msg_dst = 2\<rparr>, data = 65 # replicate 1023 0\<rparr>"

definition demo_queue :: msg_queue where
  "demo_queue = \<lparr>head = 0, rear = 1, msg_enqueue_sem = 1, msg_dequeue_sem = 1, q_data = demo_msg # replicate 999 zero_msg\<rparr>"

lemma demo_queue_holds: "queue_holds demo_queue [demo_msg] 0"
  by (simp add: queue_holds_def queue_ok_def waiting_def ring_slots_def ring_count_def demo_queue_def)

theorem channel_delivers_witness:
  "\<exists>q' w1 h' w2. send_loop (Suc (Suc 0)) demo_mq demo_agent demo_queue ([], []) = Some (False, q', w1) \<and> receive_loop demo_mq demo_callback demo_agent w1 = Some (True, h', w2) \<and>
     snd w2 = snd w1 @ [[7, 0, 0, 0, 0, 0, 0, 0, 21, 0, 0, 0, 1, 0, 0, 0, 2, 0, 0, 0, 65]]"
proof -
  have "wire demo_msg = take 21 ([7, 0, 0, 0, 0, 0, 0, 0, 21, 0, 0, 0, 1, 0, 0, 0, 2, 0, 0, 0, 65] @ replicate 1023 0)"
    by (simp add: wire_def msg_bytes_def demo_msg_def le_bytes_4)
  then have "wire demo_msg = [7, 0, 0, 0, 0, 0, 0, 0, 21, 0, 0, 0, 1, 0, 0, 0, 2, 0, 0, 0, 65]" by (subst (asm) take_append) simp
  moreover have "unat (msg_len (hdr demo_msg)) = 21" "length (data demo_msg) = 1024" by (simp_all add: demo_msg_def)
  moreover have "\<not> m_stopped demo_mq w" for w by (simp add: demo_mq_def)
  moreover have "m_bIPCSendRunning demo_agent" "send_mqd demo_agent = 3" "recv_mqd demo_agent = 4" "recv_msgsize demo_agent = int IPC_MQ_MSGSIZE"
    "length (recv_buf demo_agent) = IPC_MQ_MSGSIZE" "0 \<in> set (drop 11 (recv_buf demo_agent))"
    by (simp_all add: demo_agent_def IPC_MQ_MSGSIZE_def)
  ultimately show ?thesis
    using channel_delivers [OF demo_queue_holds demo_mq_laws, of "([], [])" demo_agent demo_agent] unfolding IPC_MQ_MSGSIZE_def
    by (simp del: send_loop.simps) blast
qed

text \<open>
  A message of another program that fills the buffer and holds no zero makes that log line read on behind the buffer.
\<close>

lemma full_message_overread:
  assumes "m_receive B (recv_mqd g) (recv_msgsize g) w = (int (length bs), bs, again, w')" "length bs = length (recv_buf g)" "0 \<notin> set bs"
  shows "receive_loop B callback g w = None"
  using assms by (subst receive_loop.simps) (simp add: bytes_put_def c_string_unterminated)

subsection \<open>Stopping\<close>

lemma receive_keeps_running:
  assumes "receive_loop B callback g w = Some (again, g', w')"
  shows "m_bIPCRecvRunning g' = m_bIPCRecvRunning g"
proof -
  have "m_bIPCRecvRunning (fst (snd (again, g', w'))) = m_bIPCRecvRunning g"
    by (rule receive_loop.raw_induct [OF _ assms, of "\<lambda>B c g w r. m_bIPCRecvRunning (fst (snd r)) = m_bIPCRecvRunning g"])
      (auto simp: Let_def bind_eq_Some_conv split: prod.splits if_splits, fastforce?)
  then show ?thesis by simp
qed

lemma open_keeps_running:
  "recvMqOpen B name g w = (True, g', w') \<Longrightarrow> m_bIPCRecvRunning g' = m_bIPCRecvRunning g"
  by (auto simp: recvMqOpen_def Let_def split: prod.splits if_splits)

text \<open>
  C32. Stopping. When the receiving thread has opened its queue and taken what was there before the flags are cleared, it sleeps in \<^verbatim>\<open>pause\<close>, which no
  signal ends, and does not look at its flag again: \<^verbatim>\<open>ipcAgentStop\<close> waits for it for ever, and the attributes and the sending thread are left behind.
\<close>

theorem stop_waits_for_receiver:
  assumes open_ok: "recvMqOpen B (recv_mq_name a) g w = (True, g1, w1)" and notify: "m_notify B (recv_mqd g1) w1 = (r, w2)" "r \<noteq> -1"
    and drained: "receive_loop B callback g1 w2 = Some (True, g2, w3)" and running: "m_bIPCRecvRunning g" "\<not> m_stopped B w3"
  shows "ipcRecvTask B callback (Some a) g w = Blocked \<and>
    ipcAgentStop P (case ipcRecvTask B callback (Some a) g w of Undefined \<Rightarrow> Undefined | Blocked \<Rightarrow> Blocked | Done _ \<Rightarrow> Done ()) send g3 = Blocked"
proof -
  have "m_bIPCRecvRunning g2" using receive_keeps_running [OF drained] open_keeps_running [OF open_ok] running(1) by simp
  then have "ipcRecvTask B callback (Some a) g w = Blocked"
    using open_ok notify drained running(2) by (simp add: ipcRecvTask_def ipcRecvTaskProduce_def)
  then show ?thesis by (simp add: ipcAgentStop_def)
qed

theorem stop_waits_for_receiver_witness:
  "ipcRecvTask demo_mq demo_callback (Some \<lparr>recv_mq_name = [47], recv_data_queue = demo_queue\<rparr>) demo_agent ([], []) = Blocked"
proof -
  have "recvMqOpen demo_mq [47] demo_agent ([], []) = (True, demo_agent, ([], []))"
    by (simp add: recvMqOpen_def demo_mq_def demo_agent_def)
  moreover have "m_notify demo_mq (recv_mqd demo_agent) ([], []) = (0, ([], []))" by (simp add: demo_mq_def)
  moreover have "receive_loop demo_mq demo_callback demo_agent ([], []) = Some (True, demo_agent, ([], []))"
    by (subst receive_loop.simps) (simp add: demo_mq_def)
  moreover have "m_bIPCRecvRunning demo_agent" "\<not> m_stopped demo_mq ([], [])" by (simp_all add: demo_agent_def demo_mq_def)
  ultimately show ?thesis
    using stop_waits_for_receiver [of demo_mq "\<lparr>recv_mq_name = [47], recv_data_queue = demo_queue\<rparr>" demo_agent] by fastforce
qed

end
