(* ===== verification/InputTests.thy ===== *)
theory InputTests
  imports PcbReport
begin

text \<open>
  Two of the test items the server starts, \<^verbatim>\<open>pcb_test/echo_key_test.c\<close> and \<^verbatim>\<open>echo_rotary_test.c\<close>: they wait for events of an input device and print a
  report. The calls on the device are a parameter, what the log lines show is left out.
\<close>

subsection \<open>Events\<close>

record input_event =
  ev_type :: u16
  ev_code :: u16
  ev_value :: "32 word"

text \<open>
  \<^verbatim>\<open>open\<close>; \<^verbatim>\<open>select\<close> for some seconds, with whether the descriptor is set; \<^verbatim>\<open>read\<close> into a buffer, with whether \<^verbatim>\<open>errno\<close> is \<^verbatim>\<open>EINTR\<close> or \<^verbatim>\<open>EAGAIN\<close>.
\<close>

record 'w input_ops =
  i_open :: "u8 list \<Rightarrow> 'w \<Rightarrow> int \<times> 'w"
  i_select :: "int \<Rightarrow> int \<Rightarrow> 'w \<Rightarrow> int \<times> bool \<times> 'w"
  i_read :: "int \<Rightarrow> input_event \<Rightarrow> 'w \<Rightarrow> int \<times> bool \<times> input_event \<times> 'w"

definition RESULT_PASS :: "u8 list" where "RESULT_PASS = ascii ''PASS''"
definition RESULT_FAIL :: "u8 list" where "RESULT_FAIL = ascii ''FAIL''"
definition RESULT_VERIFY :: "u8 list" where "RESULT_VERIFY = ascii ''VERIFY''"

text \<open>What \<^verbatim>\<open>send_msg_to_server\<close> prints.\<close>

definition send_msg_to_server :: "u8 list \<Rightarrow> u8 list \<Rightarrow> int \<Rightarrow> u8 list" where
  "send_msg_to_server msg result err_code =
     TESTITEM_SEND_HEAD @ ascii ''<'' @ msg @ ascii ''>,<'' @ result @ ascii ''>,<'' @ fmt_d err_code @ ascii ''>'' @ [10]"

subsection \<open>The key\<close>

abbreviation (input) KEY_OPEN_FAIL :: int where "KEY_OPEN_FAIL \<equiv> -40"
abbreviation (input) KEY_EVENT_TIMEOUT :: int where "KEY_EVENT_TIMEOUT \<equiv> -41"
abbreviation (input) KEY_QUERY_FAIL :: int where "KEY_QUERY_FAIL \<equiv> -42"

definition key_wait_event :: "'w input_ops \<Rightarrow> int \<Rightarrow> int \<Rightarrow> 'w \<Rightarrow> int \<times> 'w" where
  "key_wait_event B maxfd time w =
     (let (ret, isset, w) = i_select B maxfd time w in
      if ret = -1 then (-1, w) else if ret = 0 then (1, w) else if isset then (0, w) else (-1, w))"

definition key_event_read :: "'w input_ops \<Rightarrow> int \<Rightarrow> input_event \<Rightarrow> 'w \<Rightarrow> int \<times> input_event \<times> 'w" where
  "key_event_read B fd buf w =
     (let (read_len, again, buf, w) = i_read B fd buf w in
      if read_len < 0 then (if \<not> again then 0 else -1, buf, w)
      else if ev_type buf \<noteq> 0 then (1, buf, w) else (0, buf, w))"

text \<open>The handler of \<^verbatim>\<open>SIGTERM\<close>, before it exits with 0.\<close>

definition key_result_send :: "u8 list \<Rightarrow> u8 list" where
  "key_result_send result =
     send_msg_to_server (ascii ''key_test'') result (if take (length RESULT_FAIL) result = RESULT_FAIL then KEY_QUERY_FAIL else 0)"

text \<open>The loop of \<^verbatim>\<open>main\<close>: the error code and the last event.\<close>

partial_function (option) key_loop :: "'w input_ops \<Rightarrow> int \<Rightarrow> int \<Rightarrow> input_event \<Rightarrow> 'w \<Rightarrow> (int \<times> input_event \<times> 'w) option" where
  "key_loop B fd time ev w =
     (let (r, w) = key_wait_event B fd time w in
      if r = 0 then
        let (ret, ev, w) = key_event_read B fd ev w in
        if ret > 0 then
          if ev_value ev \<noteq> 0 then key_loop B fd 5 ev w else Some (0, ev, w)
        else key_loop B fd time ev w
      else Some (KEY_EVENT_TIMEOUT, ev, w))"

text \<open>The program, with an uninitialised event \<open>junk\<close>: the value it returns and what it prints.\<close>

definition key_main :: "'w input_ops \<Rightarrow> input_event \<Rightarrow> 'w \<Rightarrow> (int \<times> u8 list \<times> 'w) option" where
  "key_main B junk w =
     (let (fd, w) = i_open B (ascii ''/dev/input/event0'') w in do {
        (err_code, buf, w) \<leftarrow> (if fd < 0 then Some (KEY_OPEN_FAIL, [], w)
          else do {
            (err_code, ev, w) \<leftarrow> key_loop B fd 60 junk w;
            Some (err_code, if err_code = 0 then snprintf_s COMMAND_VALUESIZE (ascii ''key_code:'' @ fmt_d (uint (ev_code ev))) else [], w)
          });
        Some (err_code, send_msg_to_server buf (if err_code = 0 then RESULT_VERIFY else RESULT_FAIL) err_code, w)
      })"

subsection \<open>The rotary switch\<close>

abbreviation (input) ROTARY_OPEN_FAIL :: int where "ROTARY_OPEN_FAIL \<equiv> -50"
abbreviation (input) ROTARY_EVENT_TIMEOUT :: int where "ROTARY_EVENT_TIMEOUT \<equiv> -51"
abbreviation (input) ROTARY_QUERY_FAIL :: int where "ROTARY_QUERY_FAIL \<equiv> -52"

definition rotary_wait_event :: "'w input_ops \<Rightarrow> int \<Rightarrow> int \<Rightarrow> 'w \<Rightarrow> int \<times> 'w" where
  "rotary_wait_event B maxfd time w =
     (let (ret, isset, w) = i_select B maxfd time w in
      if ret = -1 then (-1, w) else if ret = 0 then (1, w) else if isset then (0, w) else (-1, w))"

definition rotary_event_read :: "'w input_ops \<Rightarrow> int \<Rightarrow> input_event \<Rightarrow> 'w \<Rightarrow> int \<times> input_event \<times> 'w" where
  "rotary_event_read B fd buf w =
     (let (read_len, again, buf, w) = i_read B fd buf w in
      if read_len < 0 then (if \<not> again then 0 else -1, buf, w)
      else if ev_type buf \<noteq> 0 then (1, buf, w) else (0, buf, w))"

definition rotary_result_send :: "u8 list \<Rightarrow> u8 list" where
  "rotary_result_send result =
     send_msg_to_server (ascii ''rotary_test'') result (if take (length RESULT_FAIL) result = RESULT_FAIL then ROTARY_QUERY_FAIL else 0)"

text \<open>The flags say which directions have been seen.\<close>

partial_function (option) rotary_loop ::
    "'w input_ops \<Rightarrow> int \<Rightarrow> bool \<Rightarrow> bool \<Rightarrow> input_event \<Rightarrow> 'w \<Rightarrow> (int \<times> input_event \<times> 'w) option" where
  "rotary_loop B fd clockwise anticlockwise ev w =
     (if clockwise \<and> anticlockwise then Some (0, ev, w)
      else
        let (r, w) = rotary_wait_event B fd 60 w in
        if r = 0 then
          let (ret, ev, w) = rotary_event_read B fd ev w in
          if ret > 0 then
            if ev_value ev = 1 then rotary_loop B fd True anticlockwise ev w
            else if ev_value ev = -1 then rotary_loop B fd clockwise True ev w
            else rotary_loop B fd clockwise anticlockwise ev w
          else rotary_loop B fd clockwise anticlockwise ev w
        else Some (ROTARY_EVENT_TIMEOUT, ev, w))"

definition rotary_main :: "'w input_ops \<Rightarrow> input_event \<Rightarrow> 'w \<Rightarrow> (int \<times> u8 list \<times> 'w) option" where
  "rotary_main B junk w =
     (let (fd, w) = i_open B (ascii ''/dev/input/event1'') w in do {
        (err_code, buf, w) \<leftarrow> (if fd < 0 then Some (ROTARY_OPEN_FAIL, [], w)
          else do {
            (err_code, ev, w) \<leftarrow> rotary_loop B fd False False junk w;
            Some (err_code, if err_code = 0 then snprintf_s COMMAND_VALUESIZE (ascii ''rotary_code:'' @ fmt_d (uint (ev_code ev))) else [], w)
          });
        Some (err_code, send_msg_to_server buf (if err_code = 0 then RESULT_VERIFY else RESULT_FAIL) err_code, w)
      })"

end
