(* ===== verification/WriteStorage.thy ===== *)
theory WriteStorage
  imports InputTests Bytes
begin

text \<open>
  The item \<^verbatim>\<open>write_storage\<close> of the board test (\<^verbatim>\<open>pcb_test/write_storage.c\<close>, \<^verbatim>\<open>rk_vendor_storage/rk_vendor_storage.c\<close>): it writes a parameter of the board to the
  vendor storage, reads it back and reports it. \<^verbatim>\<open>getopt\<close> and the calls on the storage are parameters.
\<close>

subsection \<open>The vendor storage\<close>

text \<open>
  \<^verbatim>\<open>open\<close>; the two requests of \<^verbatim>\<open>ioctl\<close> with identifier and length, the one that reads giving result, length and data; \<^verbatim>\<open>close\<close>.
\<close>

record 'w vendor_ops =
  v_open :: "'w \<Rightarrow> int \<times> 'w"
  v_read :: "int \<Rightarrow> nat \<Rightarrow> nat \<Rightarrow> 'w \<Rightarrow> int \<times> nat \<times> u8 list \<times> 'w"
  v_write :: "int \<Rightarrow> nat \<Rightarrow> nat \<Rightarrow> u8 list \<Rightarrow> 'w \<Rightarrow> int \<times> 'w"
  v_close :: "int \<Rightarrow> 'w \<Rightarrow> 'w"

definition VENDOR_DATA_SIZE :: nat where "VENDOR_DATA_SIZE = 3 * 1024"

definition vendor_storage_read :: "'w vendor_ops \<Rightarrow> nat \<Rightarrow> u8 list \<Rightarrow> nat \<Rightarrow> 'w \<Rightarrow> (int \<times> u8 list \<times> 'w) option" where
  "vendor_storage_read B buf_size buf vendor_id w =
     (let (fd, w) = v_open B w in
      if fd < 0 then Some (-1, buf, w)
      else
        let (ret, len, data, w) = v_read B fd vendor_id (min buf_size VENDOR_DATA_SIZE) w; w = v_close B fd w in
        if ret \<noteq> 0 then Some (-1, buf, w)
        else do { bs \<leftarrow> bytes_get data 0 len; buf \<leftarrow> bytes_put buf 0 bs; Some (0, buf, w) })"

definition vendor_storage_write :: "'w vendor_ops \<Rightarrow> nat \<Rightarrow> u8 list \<Rightarrow> nat \<Rightarrow> 'w \<Rightarrow> (int \<times> 'w) option" where
  "vendor_storage_write B buf_size buf vendor_id w =
     (let (fd, w) = v_open B w in
      if fd < 0 then Some (-1, w)
      else do {
        bs \<leftarrow> bytes_get buf 0 (min buf_size VENDOR_DATA_SIZE);
        let (ret, w) = v_write B fd vendor_id (min buf_size VENDOR_DATA_SIZE) bs w in
        Some (if ret \<noteq> 0 then -1 else 0, v_close B fd w)
      })"

subsection \<open>Parameters\<close>

record PCBA_FACTORY_PARAMS =
  fp_name :: "u8 list"
  fp_size :: nat
  fp_id :: nat

definition g_pcba_params :: "PCBA_FACTORY_PARAMS list" where
  "g_pcba_params =
     [\<lparr>fp_name = ascii ''UID'', fp_size = 20, fp_id = 1\<rparr>, \<lparr>fp_name = ascii ''LANMAC'', fp_size = 6, fp_id = 3\<rparr>,
      \<lparr>fp_name = ascii ''WIFIMAC'', fp_size = 6, fp_id = 2\<rparr>, \<lparr>fp_name = ascii ''BLUETOOTH'', fp_size = 0, fp_id = 4\<rparr>,
      \<lparr>fp_name = ascii ''TESTRESULT'', fp_size = 8, fp_id = 5\<rparr>]"

definition msg_strupr :: "u8 list \<Rightarrow> u8 list" where
  "msg_strupr = map (\<lambda>c. if 97 \<le> c \<and> c \<le> 122 then c - 32 else c)"

text \<open>The loop turns the name itself to upper case.\<close>

fun find_param :: "int \<Rightarrow> u8 list \<Rightarrow> PCBA_FACTORY_PARAMS list \<Rightarrow> int" where
  "find_param i name [] = -1"
| "find_param i name (p # ps) =
     (if name = fp_name p \<or> msg_strupr name = fp_name p then i else find_param (i + 1) (msg_strupr name) ps)"

definition get_params_index :: "u8 list \<Rightarrow> int" where
  "get_params_index name = find_param 0 name g_pcba_params"

text \<open>
  The options \<^verbatim>\<open>getopt\<close> gives, with their arguments: the index, \<^verbatim>\<open>prop_rw\<close>, and the array of 100 bytes with the value.
\<close>

fun get_msg_form_server :: "(char \<times> u8 list) list \<Rightarrow> int \<Rightarrow> int \<Rightarrow> u8 list \<Rightarrow> (int \<times> int \<times> u8 list) option" where
  "get_msg_form_server [] index prop_rw str = Some (index, prop_rw, str)"
| "get_msg_form_server ((opt, optarg) # opts) index prop_rw str =
     (if opt = CHR ''s'' \<or> opt = CHR ''S'' then
        let index = get_params_index optarg in
        if index < 0 then Some (-1, prop_rw, str) else get_msg_form_server opts index 1 str
      else if opt = CHR ''g'' \<or> opt = CHR ''G'' then
        let index = get_params_index optarg in
        if index < 0 then Some (-1, prop_rw, str) else get_msg_form_server opts index 0 str
      else if opt = CHR ''v'' \<or> opt = CHR ''V'' then
        if prop_rw < 0 then Some (-1, prop_rw, str)
        else do { str \<leftarrow> bytes_put str 0 (optarg @ [0]); get_msg_form_server opts index prop_rw str }
      else Some (-1, prop_rw, str))"

subsection \<open>Addresses\<close>

definition hex_digit_val :: "u8 \<Rightarrow> nat option" where
  "hex_digit_val c =
     (if 48 \<le> c \<and> c \<le> 57 then Some (unat c - 48) else if 65 \<le> c \<and> c \<le> 70 then Some (unat c - 55)
      else if 97 \<le> c \<and> c \<le> 102 then Some (unat c - 87) else None)"

text \<open>\<^verbatim>\<open>%2x\<close>: blanks, then a sign and a digit, or up to two digits; two characters leave no room for a digit behind \<^verbatim>\<open>0x\<close>.\<close>

definition scan_2x :: "u8 list \<Rightarrow> (u32 \<times> u8 list) option" where
  "scan_2x s =
     (case dropWhile (\<lambda>c. c = 32 \<or> 9 \<le> c \<and> c \<le> 13) s of [] \<Rightarrow> None
      | c # cs \<Rightarrow>
          if c = 43 \<or> c = 45 then
            (case cs of [] \<Rightarrow> None | d # ds \<Rightarrow> map_option (\<lambda>v. (if c = 45 then - of_nat v else of_nat v, ds)) (hex_digit_val d))
          else
            (case hex_digit_val c of None \<Rightarrow> None
             | Some v \<Rightarrow>
                 (case cs of [] \<Rightarrow> Some (of_nat v, [])
                  | d # ds \<Rightarrow>
                      if c = 48 \<and> (d = 120 \<or> d = 88) then None
                      else (case hex_digit_val d of None \<Rightarrow> Some (of_nat v, cs) | Some u \<Rightarrow> Some (of_nat (16 * v + u), ds)))))"

text \<open>
  \<^verbatim>\<open>sscanf\<close> with \<open>n\<close> conversions to go: each stores an \<^verbatim>\<open>unsigned int\<close>, four bytes, to the next byte of \<^verbatim>\<open>mac_hex\<close>. The number of conversions done.
\<close>

fun scan_mac :: "nat \<Rightarrow> nat \<Rightarrow> u8 list \<Rightarrow> u8 list \<Rightarrow> (nat \<times> u8 list) option" where
  "scan_mac 0 i mac_hex s = Some (i, mac_hex)"
| "scan_mac (Suc n) i mac_hex s =
     (case scan_2x s of None \<Rightarrow> Some (i, mac_hex)
      | Some (v, s) \<Rightarrow> do { mac_hex \<leftarrow> bytes_put mac_hex i (le_bytes 4 (unat v)); scan_mac n (i + 1) mac_hex s })"

text \<open>\<open>junk\<close> is what \<^verbatim>\<open>mac_hex\<close> holds before.\<close>

definition mac_addr_str_to_hex :: "u8 list \<Rightarrow> u8 list \<Rightarrow> (int \<times> u8 list) option" where
  "mac_addr_str_to_hex junk mac_addr = do {
     s \<leftarrow> c_string mac_addr;
     (ret, mac_hex) \<leftarrow> scan_mac 6 0 junk s;
     if ret \<noteq> 6 then do { mac_addr \<leftarrow> bytes_put mac_addr 0 (replicate 6 0); Some (-1, mac_addr) }
     else do {
       h \<leftarrow> c_string mac_hex;
       mac_addr \<leftarrow> bytes_put mac_addr 0 (h @ [0]);
       Some (0, mac_addr)
     }
   }"

fun hex_digits :: "nat \<Rightarrow> u8 list" where
  "hex_digits n = (let d = of_nat (if n mod 16 < 10 then 48 + n mod 16 else 87 + n mod 16) in
     if n < 16 then [d] else hex_digits (n div 16) @ [d])"

declare hex_digits.simps [simp del]

text \<open>\<^verbatim>\<open>%2x\<close> fills with blanks. \<open>promote\<close> is the conversion of \<^verbatim>\<open>char\<close> to \<^verbatim>\<open>int\<close>, which extends the sign or does not.\<close>

definition fmt_2x :: "nat \<Rightarrow> u8 list" where
  "fmt_2x n = (let s = hex_digits n in replicate (2 - length s) 32 @ s)"

definition mac_addr_hex_to_str :: "(u8 \<Rightarrow> u32) \<Rightarrow> u8 list \<Rightarrow> u8 list option" where
  "mac_addr_hex_to_str promote mac_addr = do {
     bs \<leftarrow> bytes_get mac_addr 0 6;
     bytes_put mac_addr 0 (snprintf_s COMMAND_VALUESIZE (concat (map (\<lambda>c. fmt_2x (unat (promote c))) bs)) @ [0])
   }"

subsection \<open>The program\<close>

abbreviation (input) MSG_ERR :: int where "MSG_ERR \<equiv> -4"
abbreviation (input) WRITE_VENDOR_ERR :: int where "WRITE_VENDOR_ERR \<equiv> -20"
abbreviation (input) READ_VENDOR_ERR :: int where "READ_VENDOR_ERR \<equiv> -21"

text \<open>The part that writes: the error code and the value.\<close>

definition storage_put ::
    "'w vendor_ops \<Rightarrow> u8 list \<Rightarrow> int \<Rightarrow> PCBA_FACTORY_PARAMS \<Rightarrow> u8 list \<Rightarrow> 'w \<Rightarrow> (int \<times> u8 list \<times> 'w) option" where
  "storage_put B junk index p msg_buf w = do {
     (ret, msg_buf) \<leftarrow> (if index = 1 \<or> index = 2 then mac_addr_str_to_hex junk msg_buf else Some (0, msg_buf));
     if ret \<noteq> 0 then Some (MSG_ERR, msg_buf, w)
     else do {
       (ret, w) \<leftarrow> vendor_storage_write B (fp_size p) msg_buf (fp_id p) w;
       Some (if ret \<noteq> 0 then WRITE_VENDOR_ERR else 0, msg_buf, w)
     }
   }"

text \<open>The part that reads: the error code, and the report when there is none.\<close>

definition storage_get ::
    "'w vendor_ops \<Rightarrow> (u8 \<Rightarrow> u32) \<Rightarrow> int \<Rightarrow> PCBA_FACTORY_PARAMS \<Rightarrow> u8 list \<Rightarrow> 'w \<Rightarrow> (int \<times> u8 list option \<times> 'w) option" where
  "storage_get B promote index p msg_buf w = do {
     (ret, msg_buf, w) \<leftarrow> vendor_storage_read B (fp_size p) msg_buf (fp_id p) w;
     if ret \<noteq> 0 then Some (READ_VENDOR_ERR, None, w)
     else do {
       msg_buf \<leftarrow> (if index = 1 \<or> index = 2 then mac_addr_hex_to_str promote msg_buf else Some msg_buf);
       s \<leftarrow> c_string msg_buf;
       Some (0, Some (snprintf_s COMMAND_VALUESIZE (fp_name p @ ascii '':'' @ s)), w)
     }
   }"

text \<open>
  \<open>junk_buf\<close> is what the array \<^verbatim>\<open>buf\<close> holds before; it is printed as it is when there is an error.
\<close>

definition storage_main ::
    "'w vendor_ops \<Rightarrow> (u8 \<Rightarrow> u32) \<Rightarrow> u8 list \<Rightarrow> u8 list \<Rightarrow> (char \<times> u8 list) list \<Rightarrow> 'w \<Rightarrow> (int \<times> u8 list \<times> 'w) option" where
  "storage_main B promote junk junk_buf opts w = do {
     (index, prop_rw, msg_buf) \<leftarrow> get_msg_form_server opts (-1) (-1) (replicate COMMAND_VALUESIZE 0);
     (err_code, buf, w) \<leftarrow> (if index < 0 \<or> prop_rw < 0 then Some (MSG_ERR, None, w)
       else do {
         p \<leftarrow> arr_get g_pcba_params (nat index);
         (err_code, msg_buf, w) \<leftarrow> (if prop_rw = 0 then Some (0, msg_buf, w) else storage_put B junk index p msg_buf w);
         if err_code \<noteq> 0 then Some (err_code, None, w) else storage_get B promote index p msg_buf w
       });
     buf \<leftarrow> (case buf of Some s \<Rightarrow> Some s | None \<Rightarrow> c_string junk_buf);
     Some (err_code, send_msg_to_server buf (if err_code \<noteq> 0 then RESULT_FAIL else RESULT_PASS) err_code, w)
   }"

end
