(* ===== verification/ItemSpec.thy ===== *)
theory ItemSpec
  imports WriteStorage
begin

text \<open>
  What the test items do, seen from outside: the report of an item is found in its output by the server, the key and the rotary test end with
  an event of the device that can be told in advance, and a parameter store that keeps what it is given.
\<close>

subsection \<open>Reports\<close>

lemma send_msg_report: "send_msg_to_server msg result err = report_line msg result err [10]"
  by (simp add: send_msg_to_server_def report_line_def ascii_def)

text \<open>A line that fits is one line of the output.\<close>

lemma fgets_line: "10 \<notin> set l \<Longrightarrow> length l < n \<Longrightarrow> fgets n (l @ 10 # r) = (l @ [10], r)"
proof (induction l arbitrary: n)
  case Nil
  then show ?case by (cases n) auto
next
  case (Cons c l)
  then show ?case by (cases n) auto
qed

lemma fgets_lines_line:
  assumes "10 \<notin> set l" "0 \<notin> set l" "length l < 99"
  shows "fgets_lines (l @ 10 # r) = (l @ [10]) # fgets_lines r"
proof -
  have "fgets 99 (l @ 10 # r) = (l @ [10], r)" by (rule fgets_line) (use assms in auto)
  moreover have "up_to_nul (l @ [10]) = l @ [10]" unfolding up_to_nul_def using assms(2) by (subst takeWhile_eq_all_conv) auto
  ultimately show ?thesis by (simp add: fgets_lines.simps [of "l @ 10 # r"])
qed

lemma strstr_prefix: "n \<noteq> [] \<Longrightarrow> strstr (n @ r) n"
  by (cases n) simp_all

text \<open>A report of the key test is found in its output.\<close>

lemma report_found:
  assumes "10 \<notin> set msg \<and> 0 \<notin> set msg" "10 \<notin> set result \<and> 0 \<notin> set result" "length (report_line msg result err []) < 99"
  shows "List.find (\<lambda>l. strstr l TESTITEM_SEND_HEAD) (fgets_lines (send_msg_to_server msg result err)) = Some (report_line msg result err [10])"
proof -
  let ?l = "report_line msg result err []"
  have "\<not> is_digit 10" by simp
  then have "10 \<notin> set (dec_digits n)" for n using dec_digits_ok [of n] by blast
  then have nl: "10 \<notin> set (fmt_d err)" by (simp add: fmt_d_def)
  have "10 \<notin> set ?l" "0 \<notin> set ?l"
    using assms(1,2) nl fmt_d_nonzero [of err] by (simp_all add: report_line_def TESTITEM_SEND_HEAD_def ascii_def)
  from fgets_lines_line [OF this assms(3), of "[]"]
  have "fgets_lines (?l @ [10]) = [?l @ [10]]" by (simp add: fgets_lines.simps [of "[]"])
  moreover have "strstr (?l @ [10]) TESTITEM_SEND_HEAD"
    using strstr_prefix [of TESTITEM_SEND_HEAD] by (simp add: report_line_def) (simp add: TESTITEM_SEND_HEAD_def ascii_def)
  moreover have "report_line msg result err [10] = ?l @ [10]" by (simp add: report_line_def)
  ultimately show ?thesis by (simp add: send_msg_report)
qed

text \<open>The lines a program logs before its report: short, and without the head of a report.\<close>

definition log_lines :: "u8 list list \<Rightarrow> bool" where
  "log_lines ls \<longleftrightarrow> (\<forall>l\<in>set ls. 10 \<notin> set l \<and> 0 \<notin> set l \<and> length l < 99 \<and> \<not> strstr (l @ [10]) TESTITEM_SEND_HEAD)"

definition log_text :: "u8 list list \<Rightarrow> u8 list" where
  "log_text ls = concat (map (\<lambda>l. l @ [10]) ls)"

lemma find_after_log:
  "log_lines ls \<Longrightarrow> List.find (\<lambda>l. strstr l TESTITEM_SEND_HEAD) (fgets_lines (log_text ls @ out)) = List.find (\<lambda>l. strstr l TESTITEM_SEND_HEAD) (fgets_lines out)"
proof (induction ls)
  case (Cons l ls)
  have "fgets_lines (l @ 10 # (log_text ls @ out)) = (l @ [10]) # fgets_lines (log_text ls @ out)"
    by (rule fgets_lines_line) (use Cons.prems in \<open>simp_all add: log_lines_def\<close>)
  then show ?case using Cons by (simp add: log_text_def log_lines_def)
qed (simp add: log_text_def)

text \<open>The report of an item that prints it gets through the server.\<close>

lemma item_queried:
  assumes "para_valuestr (rp ! INDEX_TEST_ITEM) = item" "keeps_file B (result_filename item)"
    and "b_popen B (snprintf_s COMMAND_VALUESIZE (item @ ascii ''  '' @ para_valuestr (rp ! INDEX_MSG))) (b_chmod B item w) = (Some out, w0)"
    and out: "out = log_text ls @ send_msg_to_server msg result err" "log_lines ls"
    and ok: "10 \<notin> set msg \<and> 0 \<notin> set msg \<and> 62 \<notin> set msg" "result \<in> {RESULT_FAIL, RESULT_VERIFY, RESULT_PASS}" "int_ok err"
      "length (report_line msg result err []) < 99"
  shows "\<exists>w1 w2. pcba_test_item_process B rp w = Some (0, w1) \<and> query_test_result B item [] RESULT_TESTING w1 = Some (0, msg, result, err, w2)"
proof (rule report_gets_through [OF assms(1,2,3)])
  have r: "10 \<notin> set result \<and> 0 \<notin> set result" "62 \<notin> set result" "result \<noteq> []"
    using ok(2) by (auto simp: RESULT_FAIL_def RESULT_VERIFY_def RESULT_PASS_def ascii_def)
  show "List.find (\<lambda>l. strstr l TESTITEM_SEND_HEAD) (fgets_lines out) = Some (report_line msg result err [10])"
    unfolding out(1) find_after_log [OF out(2)] by (rule report_found) (use ok r in simp_all)
qed (use ok in \<open>auto simp: RESULT_FAIL_def RESULT_VERIFY_def RESULT_PASS_def ascii_def\<close>)

text \<open>The message of an event: a name and a code of 16 bits.\<close>

definition event_msg :: "string \<Rightarrow> input_event \<Rightarrow> u8 list" where
  "event_msg name e = ascii name @ fmt_d (uint (ev_code e))"

lemma fmt_code: "length (fmt_d (uint (c :: u16))) \<le> 5" "62 \<notin> set (fmt_d (uint c))" "10 \<notin> set (fmt_d (uint c))"
proof -
  have "nat (uint c) < 10 ^ Suc 4" using unsigned_less [of c, where ?'a = nat] by simp
  from dec_digits_length [OF this] show "length (fmt_d (uint c)) \<le> 5" by (simp add: fmt_d_def)
  have "\<not> is_digit 62" "\<not> is_digit 10" by simp_all
  then have "62 \<notin> set (dec_digits n)" "10 \<notin> set (dec_digits n)" for n using dec_digits_ok [of n] by blast+
  then show "62 \<notin> set (fmt_d (uint c))" "10 \<notin> set (fmt_d (uint c))" by (simp_all add: fmt_d_def)
qed

subsection \<open>Events\<close>

text \<open>The device delivers the events, and then nothing.\<close>

primrec delivers :: "'w input_ops \<Rightarrow> int \<Rightarrow> input_event list \<Rightarrow> 'w \<Rightarrow> bool" where
  "delivers B fd [] w \<longleftrightarrow> (\<forall>t. \<exists>s w'. i_select B fd t w = (0, s, w'))"
| "delivers B fd (e # es) w \<longleftrightarrow> (\<forall>t. \<exists>w1. i_select B fd t w = (1, True, w1) \<and>
     (\<forall>buf. \<exists>n again w2. i_read B fd buf w1 = (n, again, e, w2) \<and> 0 \<le> n \<and> delivers B fd es w2))"

text \<open>The key test ends with the first event that has a type and the value 0.\<close>

definition key_up :: "input_event \<Rightarrow> bool" where
  "key_up e \<longleftrightarrow> ev_type e \<noteq> 0 \<and> ev_value e = 0"

lemma key_loop_delivers:
  "delivers B fd es w \<Longrightarrow> \<exists>ev w'. key_loop B fd t junk w =
     Some (case List.find key_up es of Some e \<Rightarrow> (0, e, w') | None \<Rightarrow> (KEY_EVENT_TIMEOUT, ev, w'))"
proof (induction es arbitrary: w t junk)
  case Nil
  then obtain s w' where "i_select B fd t w = (0, s, w')" unfolding delivers.simps by blast
  then show ?case by (subst key_loop.simps) (simp add: key_wait_event_def)
next
  case (Cons e es)
  obtain w1 where sel: "i_select B fd t w = (1, True, w1)"
    and rd: "\<forall>buf. \<exists>n again w2. i_read B fd buf w1 = (n, again, e, w2) \<and> 0 \<le> n \<and> delivers B fd es w2"
    using Cons.prems unfolding delivers.simps by blast
  obtain n again w2 where r: "i_read B fd junk w1 = (n, again, e, w2)" "0 \<le> n" "delivers B fd es w2" using rd by blast
  have step: "key_loop B fd t junk w = (if key_up e then Some (0, e, w2) else key_loop B fd (if ev_type e = 0 then t else 5) e w2)"
    using sel r(1,2) by (subst key_loop.simps) (simp add: key_wait_event_def key_event_read_def key_up_def)
  show ?case
  proof (cases "key_up e")
    case True
    then show ?thesis using step by simp
  next
    case False
    then show ?thesis using step Cons.IH [OF r(3), of "if ev_type e = 0 then t else 5" e] by simp
  qed
qed

definition directions :: "bool \<times> bool \<Rightarrow> input_event \<Rightarrow> bool \<times> bool" where
  "directions d e = (fst d \<or> ev_type e \<noteq> 0 \<and> ev_value e = 1, snd d \<or> ev_type e \<noteq> 0 \<and> ev_value e = -1)"

text \<open>The first event after which both directions have been seen.\<close>

fun completing :: "bool \<times> bool \<Rightarrow> input_event \<Rightarrow> input_event list \<Rightarrow> input_event option" where
  "completing d ev [] = (if fst d \<and> snd d then Some ev else None)"
| "completing d ev (e # es) = (if fst d \<and> snd d then Some ev else completing (directions d e) e es)"

lemma rotary_loop_delivers:
  "delivers B fd es w \<Longrightarrow> \<exists>ev w'. rotary_loop B fd (fst d) (snd d) junk w =
     Some (case completing d junk es of Some e \<Rightarrow> (0, e, w') | None \<Rightarrow> (ROTARY_EVENT_TIMEOUT, ev, w'))"
proof (induction es arbitrary: w d junk)
  case Nil
  then obtain s w' where "i_select B fd 60 w = (0, s, w')" unfolding delivers.simps by blast
  then show ?case by (subst rotary_loop.simps) (simp add: rotary_wait_event_def)
next
  case (Cons e es)
  show ?case
  proof (cases "fst d \<and> snd d")
    case True
    then show ?thesis by (subst rotary_loop.simps) simp
  next
    case False
    obtain w1 where sel: "i_select B fd 60 w = (1, True, w1)"
      and rd: "\<forall>buf. \<exists>n again w2. i_read B fd buf w1 = (n, again, e, w2) \<and> 0 \<le> n \<and> delivers B fd es w2"
      using Cons.prems unfolding delivers.simps by blast
    obtain n again w2 where r: "i_read B fd junk w1 = (n, again, e, w2)" "0 \<le> n" "delivers B fd es w2" using rd by blast
    have one: "(1 :: 32 word) \<noteq> -1" by simp
    have "rotary_loop B fd (fst d) (snd d) junk w = rotary_loop B fd (fst (directions d e)) (snd (directions d e)) e w2"
      using sel r(1,2) False one
      by (subst rotary_loop.simps) (auto simp: rotary_wait_event_def rotary_event_read_def directions_def)
    then show ?thesis using Cons.IH [OF r(3), of "directions d e" e] False by auto
  qed
qed


text \<open>The reports of the two programs, when the device opens and delivers its events.\<close>

definition event_report :: "string \<Rightarrow> int \<Rightarrow> input_event option \<Rightarrow> u8 list \<times> u8 list \<times> int" where
  "event_report name timeout seen =
     (case seen of Some e \<Rightarrow> (event_msg name e, RESULT_VERIFY, 0) | None \<Rightarrow> ([], RESULT_FAIL, timeout))"

lemma event_report_ok:
  assumes "name \<in> {''key_code:'', ''rotary_code:''}" "timeout \<in> {KEY_EVENT_TIMEOUT, ROTARY_EVENT_TIMEOUT}" "event_report name timeout seen = (msg, result, err)"
  shows "10 \<notin> set msg \<and> 0 \<notin> set msg \<and> 62 \<notin> set msg" "result \<in> {RESULT_FAIL, RESULT_VERIFY, RESULT_PASS}" "int_ok err"
    "length (report_line msg result err []) < 99"
proof -
  have n: "length (ascii name) \<le> 12" "10 \<notin> set (ascii name) \<and> 0 \<notin> set (ascii name) \<and> 62 \<notin> set (ascii name)"
    using assms(1) by (auto simp: ascii_def)
  have e: "length (fmt_d timeout) \<le> 3" "length (fmt_d 0) \<le> 3"
    using assms(2) dec_digits_length [of _ 1] by (auto simp: fmt_d_def intro: le_trans [OF dec_digits_length [of _ 1]])
  have r: "length RESULT_FAIL = 4" "length RESULT_VERIFY = 6" "length TESTITEM_SEND_HEAD = 12"
    by (simp_all add: RESULT_FAIL_def RESULT_VERIFY_def TESTITEM_SEND_HEAD_def ascii_def)
  show "10 \<notin> set msg \<and> 0 \<notin> set msg \<and> 62 \<notin> set msg" "result \<in> {RESULT_FAIL, RESULT_VERIFY, RESULT_PASS}" "int_ok err"
    using assms(2,3) n(2) fmt_code(2,3) fmt_d_nonzero by (auto simp: event_report_def event_msg_def int_ok_def split: option.splits)
  have "length msg \<le> 17"
    using assms(3) n(1) fmt_code(1) by (fastforce simp: event_report_def event_msg_def intro: add_mono [of _ 12 _ 5, simplified] split: option.splits)
  then show "length (report_line msg result err []) < 99"
    using assms(3) e r by (auto simp: event_report_def report_line_def ascii_sep split: option.splits)
qed

lemma key_main_delivers:
  assumes "i_open I (ascii ''/dev/input/event0'') v = (fd, v1)" "0 \<le> fd" "delivers I fd es v1"
  shows "\<exists>v2. key_main I junk v = (let (msg, result, err) = event_report ''key_code:'' KEY_EVENT_TIMEOUT (List.find key_up es) in
    Some (err, send_msg_to_server msg result err, v2))"
proof -
  obtain ev w' where "key_loop I fd 60 junk v1 =
      Some (case List.find key_up es of Some e \<Rightarrow> (0, e, w') | None \<Rightarrow> (KEY_EVENT_TIMEOUT, ev, w'))"
    using key_loop_delivers [OF assms(3)] by blast
  then show ?thesis using assms(1,2) fmt_code(1)
    by (cases "List.find key_up es") (simp_all add: key_main_def event_report_def event_msg_def snprintf_s_def ascii_def le_trans [OF fmt_code(1)])
qed

lemma rotary_main_delivers:
  assumes "i_open I (ascii ''/dev/input/event1'') v = (fd, v1)" "0 \<le> fd" "delivers I fd es v1"
  shows "\<exists>v2. rotary_main I junk v = (let (msg, result, err) = event_report ''rotary_code:'' ROTARY_EVENT_TIMEOUT (completing (False, False) junk es) in
    Some (err, send_msg_to_server msg result err, v2))"
proof -
  obtain ev w' where "rotary_loop I fd False False junk v1 =
      Some (case completing (False, False) junk es of Some e \<Rightarrow> (0, e, w') | None \<Rightarrow> (ROTARY_EVENT_TIMEOUT, ev, w'))"
    using rotary_loop_delivers [OF assms(3), of "(False, False)" junk] unfolding fst_conv snd_conv by blast
  then show ?thesis using assms(1,2) fmt_code(1)
    by (cases "completing (False, False) junk es") (simp_all add: rotary_main_def event_report_def event_msg_def snprintf_s_def ascii_def le_trans [OF fmt_code(1)])
qed

subsection \<open>Parameters\<close>

text \<open>The storage holds the \<open>n\<close> bytes of a parameter: what is written is kept, what is kept is read.\<close>

definition stores :: "'w vendor_ops \<Rightarrow> nat \<Rightarrow> nat \<Rightarrow> (u8 list \<Rightarrow> 'w \<Rightarrow> bool) \<Rightarrow> bool" where
  "stores B n vid keeps \<longleftrightarrow> (\<forall>w bs.
     (length bs = n \<longrightarrow> (let (fd, w1) = v_open B w; (r, w2) = v_write B fd vid n bs w1 in 0 \<le> fd \<and> r = 0 \<and> keeps bs (v_close B fd w2))) \<and>
     (keeps bs w \<longrightarrow> (let (fd, w1) = v_open B w; (r, len, data, w2) = v_read B fd vid n w1 in
        0 \<le> fd \<and> r = 0 \<and> len = n \<and> data = bs \<and> keeps bs (v_close B fd w2))))"

lemma stores_write:
  assumes "stores B n vid keeps" "n \<le> VENDOR_DATA_SIZE" "n \<le> length buf"
  shows "\<exists>w'. vendor_storage_write B n buf vid w = Some (0, w') \<and> keeps (take n buf) w'"
proof -
  have l: "length (take n buf) = n" using assms(3) by simp
  then have "let (fd, w1) = v_open B w; (r, w2) = v_write B fd vid n (take n buf) w1 in 0 \<le> fd \<and> r = 0 \<and> keeps (take n buf) (v_close B fd w2)"
    using assms(1) unfolding stores_def by blast
  then show ?thesis using assms(2,3) by (auto simp: vendor_storage_write_def bytes_get_def Let_def min_def split: prod.splits)
qed

lemma stores_read:
  assumes "stores B n vid keeps" "n \<le> VENDOR_DATA_SIZE" "keeps bs w" "length bs = n" "n \<le> length buf"
  shows "\<exists>w'. vendor_storage_read B n buf vid w = Some (0, bs @ drop n buf, w') \<and> keeps bs w'"
proof -
  have "let (fd, w1) = v_open B w; (r, len, data, w2) = v_read B fd vid n w1 in 0 \<le> fd \<and> r = 0 \<and> len = n \<and> data = bs \<and> keeps bs (v_close B fd w2)"
    using assms(1,3) unfolding stores_def by blast
  then show ?thesis
    using assms(2,4,5) by (auto simp: vendor_storage_read_def bytes_get_def bytes_put_def Let_def min_def split: prod.splits)
qed

text \<open>The value in its array, and the parameters that are not addresses.\<close>

definition value_buf :: "u8 list \<Rightarrow> u8 list" where
  "value_buf v = v @ 0 # replicate (99 - length v) 0"

lemma value_buf:
  assumes "length v < 100" "0 \<notin> set v"
  shows "bytes_put (replicate COMMAND_VALUESIZE 0) 0 (v @ [0]) = Some (value_buf v)" "length (value_buf v) = 100" "c_string (value_buf v) = Some v"
  using assms by (simp_all add: bytes_put_def value_buf_def c_string_append)

lemma c_string_take:
  assumes "length v < 100" "0 \<notin> set v" "n < 100"
  shows "c_string (take n (value_buf v) @ drop n (replicate COMMAND_VALUESIZE 0)) = Some (take n v)"
proof -
  have "take n (value_buf v) @ drop n (replicate COMMAND_VALUESIZE 0) = take n v @ 0 # replicate (99 - length (take n v)) 0"
  proof (cases "n \<le> length v")
    case True
    then show ?thesis using assms(3) by (cases "100 - n") (auto simp: value_buf_def)
  next
    case False
    then obtain k where "n = length v + Suc k" by (metis less_imp_Suc_add not_le add_Suc_right)
    then show ?thesis using assms(3) by (simp add: value_buf_def replicate_add [symmetric] min_def)
  qed
  moreover have "0 \<notin> set (take n v)" using assms(2) by (meson in_set_takeD)
  ultimately show ?thesis using c_string_append [of "take n v"] by simp
qed

lemma params_index:
  assumes "i = get_params_index name" "0 \<le> i"
  shows "i < 5" "arr_get g_pcba_params (nat i) = Some (g_pcba_params ! nat i)" "fp_size (g_pcba_params ! nat i) < 100"
proof -
  have "find_param j name ps < j + int (length ps)" if "0 \<le> j" for j name ps
    using that
  proof (induction j name ps rule: find_param.induct)
    case (2 i name p ps)
    show ?case
    proof (cases "name = fp_name p \<or> msg_strupr name = fp_name p")
      case True
      then show ?thesis using 2 by simp
    next
      case False
      then show ?thesis using 2 by simp
    qed
  qed simp
  from this [of 0 name g_pcba_params] show l: "i < 5" using assms by (simp add: get_params_index_def g_pcba_params_def)
  then have "nat i < length g_pcba_params" using assms by (simp add: g_pcba_params_def)
  moreover have "\<forall>p\<in>set g_pcba_params. fp_size p < 100" by (simp add: g_pcba_params_def)
  ultimately show "arr_get g_pcba_params (nat i) = Some (g_pcba_params ! nat i)" "fp_size (g_pcba_params ! nat i) < 100" by simp_all
qed

lemma msg_set_value:
  assumes "0 \<le> get_params_index name"
  shows "get_msg_form_server [(CHR ''s'', name), (CHR ''v'', v)] (-1) (-1) str = map_option (\<lambda>str. (get_params_index name, 1, str)) (bytes_put str 0 (v @ [0]))"
    "get_msg_form_server [(CHR ''g'', name)] (-1) (-1) str = Some (get_params_index name, 0, str)"
  using assms by (cases "bytes_put str 0 (v @ [0])"; simp add: Let_def)+

subsection \<open>Addresses\<close>

text \<open>The first three conversions fit into the six bytes, the fourth does not.\<close>

lemma scan_mac_three: "scan_mac n i h s = Some (k, h') \<Longrightarrow> length h = 6 \<Longrightarrow> i \<le> 3 \<Longrightarrow> k \<le> 3"
proof (induction n arbitrary: i h s)
  case (Suc n)
  show ?case
  proof (cases "scan_2x s")
    case None
    then show ?thesis using Suc.prems by simp
  next
    case (Some p)
    then obtain v :: u32 and s' h2 where h2: "bytes_put h i (le_bytes 4 (unat v)) = Some h2" "scan_mac n (Suc i) h2 s' = Some (k, h')"
      using Suc.prems(1) Some by (cases p) (auto simp: bind_eq_Some_conv)
    then have "i + 4 \<le> 6" using Suc.prems by (simp add: bytes_put_def split: if_splits)
    then show ?thesis using Suc.IH [OF h2(2)] length_bytes_put [OF h2(1)] Suc.prems by simp
  qed
qed simp

lemma scan_pair:
  assumes "hex_digit_val a = Some x" "hex_digit_val b = Some y"
  shows "scan_2x (a # b # s) = Some (of_nat (16 * x + y), s)"
proof -
  have f: "(a = 32 \<or> 9 \<le> a \<and> a \<le> 13) = False" "(a = 43 \<or> a = 45) = False" "(a = 48 \<and> (b = 120 \<or> b = 88)) = False"
    using assms by (auto simp: hex_digit_val_def word_le_nat_alt split: if_splits)
  show ?thesis unfolding scan_2x_def dropWhile.simps f if_False list.case assms option.case by (rule refl)
qed

lemma scan_four_pairs:
  assumes "list_all (\<lambda>c. hex_digit_val c \<noteq> None) [a, b, c, d, e, f, g, h]" "length junk = 6"
  shows "scan_mac 6 0 junk ([a, b, c, d, e, f, g, h] @ s) = None"
proof -
  have pair: "\<exists>v. \<forall>s. scan_2x (x # y # s) = Some (v, s)" if "hex_digit_val x \<noteq> None" "hex_digit_val y \<noteq> None" for x y
    using that scan_pair by blast
  obtain v0 where v0: "\<And>s. scan_2x (a # b # s) = Some (v0, s)" using pair [of a b] assms(1) by auto
  obtain v1 where v1: "\<And>s. scan_2x (c # d # s) = Some (v1, s)" using pair [of c d] assms(1) by auto
  obtain v2 where v2: "\<And>s. scan_2x (e # f # s) = Some (v2, s)" using pair [of e f] assms(1) by auto
  obtain v3 where v3: "\<And>s. scan_2x (g # h # s) = Some (v3, s)" using pair [of g h] assms(1) by auto
  have len: "\<exists>ys. bytes_put xs i (le_bytes 4 n) = Some ys \<and> length ys = 6" if "length xs = 6" "i \<le> 2" for xs i n
    using that by (simp add: bytes_put_def)
  obtain h0 where h0: "bytes_put junk 0 (le_bytes 4 (unat v0)) = Some h0" "length h0 = 6" using len [OF assms(2), of 0] by auto
  obtain h1 where h1: "bytes_put h0 (0 + 1) (le_bytes 4 (unat v1)) = Some h1" "length h1 = 6" using len [OF h0(2), of "0 + 1"] by auto
  obtain h2 where h2: "bytes_put h1 (0 + 1 + 1) (le_bytes 4 (unat v2)) = Some h2" "length h2 = 6" using len [OF h1(2), of "0 + 1 + 1"] by auto
  have h3: "bytes_put h2 (0 + 1 + 1 + 1) (le_bytes 4 (unat v3)) = None" using h2(2) by (simp add: bytes_put_def)
  have "scan_mac (Suc (Suc (Suc (Suc 2)))) 0 junk ([a, b, c, d, e, f, g, h] @ s) = None"
    unfolding append_Cons append_Nil scan_mac.simps v0 v1 v2 v3 option.case prod.case h0(1) h1(1) h2(1) h3 bind.simps by (rule refl)
  then show ?thesis by (simp add: eval_nat_numeral)
qed

end
