(* ===== verification/ItemProps.thy ===== *)
theory ItemProps
  imports ItemSpec PcbProps
begin

text \<open>
  The properties of the test items: what the server is told about a key or a rotary switch, what is reported of a parameter and what the
  storage keeps of it, and that no hardware address can be stored.
\<close>

text \<open>A program that logs lines and then prints the report of an event, run as an item.\<close>

lemma event_item_queried:
  assumes item: "para_valuestr (rp ! INDEX_TEST_ITEM) = item" "keeps_file B (result_filename item)"
    and run: "\<forall>e out v2. prog = Some (e, out, v2) \<longrightarrow>
      (\<exists>w0 ls. log_lines ls \<and> b_popen B (snprintf_s COMMAND_VALUESIZE (item @ ascii ''  '' @ para_valuestr (rp ! INDEX_MSG))) (b_chmod B item w) = (Some (log_text ls @ out), w0))"
    and prog: "prog = (let (msg, result, err) = event_report name timeout seen in Some (err, send_msg_to_server msg result err, v2))"
    and ok: "name \<in> {''key_code:'', ''rotary_code:''}" "timeout \<in> {KEY_EVENT_TIMEOUT, ROTARY_EVENT_TIMEOUT}"
  shows "\<exists>w1 w2. pcba_test_item_process B rp w = Some (0, w1) \<and> query_test_result B item [] RESULT_TESTING w1 =
    Some (case seen of Some e \<Rightarrow> (0, event_msg name e, RESULT_VERIFY, 0, w2) | None \<Rightarrow> (0, [], RESULT_FAIL, timeout, w2))"
proof -
  obtain msg result err where r: "event_report name timeout seen = (msg, result, err)" by (metis prod_cases3)
  then obtain w0 ls where ls: "log_lines ls" and po: "b_popen B (snprintf_s COMMAND_VALUESIZE (item @ ascii ''  '' @ para_valuestr (rp ! INDEX_MSG))) (b_chmod B item w) =
    (Some (log_text ls @ send_msg_to_server msg result err), w0)" using run prog by auto
  from item_queried [OF item po refl ls event_report_ok [OF ok r]] r show ?thesis
    by (cases seen) (auto simp: event_report_def)
qed

text \<open>
  C33. The key test. When the device opens and delivers its events, the program reports \<^verbatim>\<open>VERIFY\<close>, 0 and the code of the first event with a type and the value 0,
  whatever was pressed before, and \<^verbatim>\<open>FAIL\<close> with \<^verbatim>\<open>KEY_EVENT_TIMEOUT\<close> when there is none. When the server runs it as an item, whatever
  short lines it logs before the report, and is asked for the result, it answers with this message, result and code.
\<close>

theorem key_result_queried:
  assumes dev: "i_open I (ascii ''/dev/input/event0'') v = (fd, v1)" "0 \<le> fd" "delivers I fd es v1"
    and item: "para_valuestr (rp ! INDEX_TEST_ITEM) = item" "keeps_file B (result_filename item)"
    and run: "\<forall>e out v2. key_main I junk v = Some (e, out, v2) \<longrightarrow>
      (\<exists>w0 ls. log_lines ls \<and> b_popen B (snprintf_s COMMAND_VALUESIZE (item @ ascii ''  '' @ para_valuestr (rp ! INDEX_MSG))) (b_chmod B item w) = (Some (log_text ls @ out), w0))"
  shows "\<exists>w1 w2. pcba_test_item_process B rp w = Some (0, w1) \<and>
    query_test_result B item [] RESULT_TESTING w1 = Some (case List.find key_up es of
      Some e \<Rightarrow> (0, ascii ''key_code:'' @ fmt_d (uint (ev_code e)), RESULT_VERIFY, 0, w2) | None \<Rightarrow> (0, [], RESULT_FAIL, KEY_EVENT_TIMEOUT, w2))"
proof -
  obtain v2 where "key_main I junk v = (let (msg, result, err) = event_report ''key_code:'' KEY_EVENT_TIMEOUT (List.find key_up es) in
    Some (err, send_msg_to_server msg result err, v2))" using key_main_delivers [OF dev] by blast
  from event_item_queried [OF item run this, unfolded event_msg_def] show ?thesis by simp
qed

text \<open>A device whose state is the events to come.\<close>

definition demo_input :: "input_event list input_ops" where
  "demo_input = \<lparr>i_open = (\<lambda>n v. (3, v)), i_select = (\<lambda>fd t v. (if v = [] then 0 else 1, v \<noteq> [], v)),
     i_read = (\<lambda>fd buf v. (case v of [] \<Rightarrow> (-1, True, buf, v) | e # v \<Rightarrow> (24, False, e, v)))\<rparr>"

lemma demo_delivers: "delivers demo_input 3 es es"
  by (induction es) (auto simp: demo_input_def)

definition printing_board :: "u8 list \<Rightarrow> u8 list board" where
  "printing_board out = demo_board\<lparr>b_popen := (\<lambda>c w. (Some out, w))\<rparr>"

lemma printing_keeps: "keeps_file (printing_board out) file"
  using demo_keeps by (simp add: keeps_file_def printing_board_def)

definition demo_paras where
  "demo_paras item = map (\<lambda>s. zero_para\<lparr>para_valuestr := s\<rparr>) [[], item, [], []]"

lemma no_log: "\<exists>ls. log_lines ls \<and> log_text ls = []"
  by (rule exI [of _ "[]"]) (simp add: log_lines_def log_text_def)

definition demo_event :: "32 word \<Rightarrow> input_event" where
  "demo_event v = \<lparr>ev_type = 1, ev_code = 114, ev_value = v\<rparr>"

theorem key_result_queried_witness:
  "\<exists>w1 w2. pcba_test_item_process (printing_board (send_msg_to_server (ascii ''key_code:114'') RESULT_VERIFY 0)) (demo_paras [65]) [] = Some (0, w1) \<and>
     query_test_result (printing_board (send_msg_to_server (ascii ''key_code:114'') RESULT_VERIFY 0)) [65] [] RESULT_TESTING w1 =
       Some (0, ascii ''key_code:114'', RESULT_VERIFY, 0, w2)"
proof -
  let ?es = "[demo_event 1, demo_event 0]" and ?out = "send_msg_to_server (ascii ''key_code:114'') RESULT_VERIFY 0"
  have f: "List.find key_up ?es = Some (demo_event 0)" by (simp add: key_up_def demo_event_def)
  have m: "ascii ''key_code:'' @ fmt_d (uint (ev_code (demo_event 0))) = ascii ''key_code:114''"
    by (simp add: demo_event_def fmt_d_def dec_digits.simps [of 114] dec_digits.simps [of 11] dec_digits.simps [of 1] ascii_def)
  have o: "i_open demo_input (ascii ''/dev/input/event0'') ?es = (3, ?es)" by (simp add: demo_input_def)
  obtain v2 where k: "key_main demo_input (demo_event 0) ?es = Some (0, ?out, v2)"
    using key_main_delivers [OF o _ demo_delivers, of "demo_event 0"] unfolding f event_report_def option.case event_msg_def m by auto
  show ?thesis
    using key_result_queried [OF o _ demo_delivers _ printing_keeps, where junk = "demo_event 0", of "demo_paras [65]" "[65]" ?out "[]"] k m
    unfolding f by (simp add: printing_board_def demo_board_def demo_paras_def no_log)
qed

text \<open>
  The rotary test. When the device opens and delivers its events, the program ends with the first event after which one of value 1 and one of value -1
  have been seen, in any order, and the server that runs it as an item answers a query with \<^verbatim>\<open>VERIFY\<close>, 0 and the code of that event; when a direction is
  missing, with \<^verbatim>\<open>FAIL\<close> and \<^verbatim>\<open>ROTARY_EVENT_TIMEOUT\<close>.
\<close>

theorem rotary_result_queried:
  assumes dev: "i_open I (ascii ''/dev/input/event1'') v = (fd, v1)" "0 \<le> fd" "delivers I fd es v1"
    and item: "para_valuestr (rp ! INDEX_TEST_ITEM) = item" "keeps_file B (result_filename item)"
    and run: "\<forall>e out v2. rotary_main I junk v = Some (e, out, v2) \<longrightarrow>
      (\<exists>w0 ls. log_lines ls \<and> b_popen B (snprintf_s COMMAND_VALUESIZE (item @ ascii ''  '' @ para_valuestr (rp ! INDEX_MSG))) (b_chmod B item w) = (Some (log_text ls @ out), w0))"
  shows "\<exists>w1 w2. pcba_test_item_process B rp w = Some (0, w1) \<and>
    query_test_result B item [] RESULT_TESTING w1 = Some (case completing (False, False) junk es of
      Some e \<Rightarrow> (0, ascii ''rotary_code:'' @ fmt_d (uint (ev_code e)), RESULT_VERIFY, 0, w2) | None \<Rightarrow> (0, [], RESULT_FAIL, ROTARY_EVENT_TIMEOUT, w2))"
proof -
  obtain v2 where "rotary_main I junk v = (let (msg, result, err) = event_report ''rotary_code:'' ROTARY_EVENT_TIMEOUT (completing (False, False) junk es) in
    Some (err, send_msg_to_server msg result err, v2))" using rotary_main_delivers [OF dev] by blast
  from event_item_queried [OF item run this, unfolded event_msg_def] show ?thesis by simp
qed

theorem rotary_result_queried_witness:
  "\<exists>w1 w2. pcba_test_item_process (printing_board (send_msg_to_server [] RESULT_FAIL ROTARY_EVENT_TIMEOUT)) (demo_paras [66]) [] = Some (0, w1) \<and>
     query_test_result (printing_board (send_msg_to_server [] RESULT_FAIL ROTARY_EVENT_TIMEOUT)) [66] [] RESULT_TESTING w1 =
       Some (0, [], RESULT_FAIL, ROTARY_EVENT_TIMEOUT, w2)"
proof -
  let ?es = "[demo_event 1, demo_event 0, demo_event 1]" and ?out = "send_msg_to_server [] RESULT_FAIL ROTARY_EVENT_TIMEOUT"
  have f: "completing (False, False) (demo_event 0) ?es = None" by (simp add: directions_def demo_event_def)
  have o: "i_open demo_input (ascii ''/dev/input/event1'') ?es = (3, ?es)" by (simp add: demo_input_def)
  obtain v2 where k: "rotary_main demo_input (demo_event 0) ?es = Some (ROTARY_EVENT_TIMEOUT, ?out, v2)"
    using rotary_main_delivers [OF o _ demo_delivers, of "demo_event 0"] unfolding f event_report_def option.case by auto
  show ?thesis
    using rotary_result_queried [OF o _ demo_delivers _ printing_keeps, where junk = "demo_event 0", of "demo_paras [66]" "[66]" ?out "[]"] k
    unfolding f by (simp add: printing_board_def demo_board_def demo_paras_def no_log)
qed

subsection \<open>Parameters\<close>

text \<open>
  C34. Storing a parameter. For \<^verbatim>\<open>-s name -v value\<close> with the name of \<^verbatim>\<open>UID\<close>, \<^verbatim>\<open>BLUETOOTH\<close> or \<^verbatim>\<open>TESTRESULT\<close>, in upper or lower case, and any value of less than
  100 bytes, on a storage that keeps what is written, the program reports \<^verbatim>\<open>PASS\<close> with the name and the whole value, cut together to 99 bytes; the storage keeps only
  the first bytes of the value, as many as the parameter has, and \<^verbatim>\<open>-g name\<close> then reports the name with these.
\<close>

theorem parameter_reported:
  assumes i: "get_params_index name = i" "i = 0 \<or> i = 3 \<or> i = 4" and p: "p = g_pcba_params ! nat i"
    and v: "length v < COMMAND_VALUESIZE" "0 \<notin> set v" and st: "stores B (fp_size p) (fp_id p) keeps"
  shows "\<exists>w1 w2. storage_main B promote junk junk_buf [(CHR ''s'', name), (CHR ''v'', v)] w =
      Some (0, send_msg_to_server (take 99 (fp_name p @ ascii '':'' @ v)) RESULT_PASS 0, w1) \<and>
    storage_main B promote junk junk_buf [(CHR ''g'', name)] w1 =
      Some (0, send_msg_to_server (take 99 (fp_name p @ ascii '':'' @ take (fp_size p) v)) RESULT_PASS 0, w2)"
proof -
  let ?n = "fp_size p"
  have get: "arr_get g_pcba_params (nat i) = Some p" and n: "?n < 100" "?n \<le> VENDOR_DATA_SIZE" and mac: "i \<noteq> 1" "i \<noteq> 2"
    using params_index [of i name] i p by (auto simp: VENDOR_DATA_SIZE_def)
  note buf = value_buf [OF v]
  obtain w0 where wr: "vendor_storage_write B ?n (value_buf v) (fp_id p) w = Some (0, w0)" "keeps (take ?n (value_buf v)) w0"
    using stores_write [OF st n(2), of "value_buf v"] n(1) buf(2) by fastforce
  have l: "length (take ?n (value_buf v)) = ?n" using n(1) buf(2) by simp
  obtain w1 where rd: "vendor_storage_read B ?n (value_buf v) (fp_id p) w0 = Some (0, value_buf v, w1)" "keeps (take ?n (value_buf v)) w1"
    using stores_read [OF st n(2) wr(2) l, of "value_buf v"] n(1) buf(2) by auto
  obtain w2 where rd2: "vendor_storage_read B ?n (replicate COMMAND_VALUESIZE 0) (fp_id p) w1 =
      Some (0, take ?n (value_buf v) @ drop ?n (replicate COMMAND_VALUESIZE 0), w2)"
    using stores_read [OF st n(2) rd(2) l, of "replicate COMMAND_VALUESIZE 0"] n(1) by auto
  have "storage_main B promote junk junk_buf [(CHR ''s'', name), (CHR ''v'', v)] w =
      Some (0, send_msg_to_server (take 99 (fp_name p @ ascii '':'' @ v)) RESULT_PASS 0, w1)"
    using i(2) mac msg_set_value(1) [of name v] i(1) get buf(1,3) wr(1) rd(1) unfolding storage_main_def
    by (auto simp: storage_put_def storage_get_def snprintf_s_def)
  moreover have "storage_main B promote junk junk_buf [(CHR ''g'', name)] w1 =
      Some (0, send_msg_to_server (take 99 (fp_name p @ ascii '':'' @ take ?n v)) RESULT_PASS 0, w2)"
    using i(2) mac msg_set_value(2) [of name] i(1) get rd2 c_string_take [OF v n(1)] unfolding storage_main_def
    by (auto simp: storage_get_def snprintf_s_def simp del: drop_replicate)
  ultimately show ?thesis by blast
qed

text \<open>A storage with one parameter, its state.\<close>

definition demo_vendor :: "u8 list vendor_ops" where
  "demo_vendor = \<lparr>v_open = (\<lambda>w. (3, w)), v_read = (\<lambda>fd k n w. (0, length w, w, w)), v_write = (\<lambda>fd k n s w. (0, s)), v_close = (\<lambda>fd w. w)\<rparr>"

theorem parameter_reported_witness:
  "\<exists>w1 w2. storage_main demo_vendor ucast [] [] [(CHR ''s'', ascii ''testresult''), (CHR ''v'', ascii ''PASS-2024'')] [] =
      Some (0, send_msg_to_server (ascii ''TESTRESULT:PASS-2024'') RESULT_PASS 0, w1) \<and>
    storage_main demo_vendor ucast [] [] [(CHR ''g'', ascii ''testresult'')] w1 =
      Some (0, send_msg_to_server (ascii ''TESTRESULT:PASS-202'') RESULT_PASS 0, w2)"
proof -
  have p: "g_pcba_params ! nat 4 = \<lparr>fp_name = ascii ''TESTRESULT'', fp_size = 8, fp_id = 5\<rparr>" by (simp add: g_pcba_params_def)
  have i: "get_params_index (ascii ''testresult'') = 4" by (simp add: get_params_index_def g_pcba_params_def msg_strupr_def ascii_def)
  have "stores demo_vendor 8 5 (\<lambda>s w. w = s \<and> length s = 8)" by (simp add: stores_def demo_vendor_def)
  then show ?thesis
    using parameter_reported [OF i _ p [symmetric], of "ascii ''PASS-2024''" demo_vendor _ ucast "[]" "[]" "[]"] by (simp add: ascii_def)
qed

text \<open>
  C35. Storing an address. \<^verbatim>\<open>%2x\<close> stores four bytes for each of the six numbers: with a value that begins with eight hexadecimal digits, as every
  address does, they are written past the six bytes of \<^verbatim>\<open>mac_hex\<close>, and the behaviour is undefined, as it is for some other values, like four numbers
  with blanks between them. Whatever the value, whenever the behaviour is defined the program returns \<^verbatim>\<open>MSG_ERR\<close> and the storage has not been touched: no address
  is ever stored.
\<close>

theorem address_never_stored:
  assumes i: "get_params_index name = i" "i = 1 \<or> i = 2" and v: "0 \<notin> set v" and j: "length junk = 6"
  shows "(list_all (\<lambda>c. hex_digit_val c \<noteq> None) (take 8 v) \<and> 8 \<le> length v \<longrightarrow>
      storage_main B promote junk junk_buf [(CHR ''s'', name), (CHR ''v'', v)] w = None) \<and>
    (storage_main B promote junk junk_buf [(CHR ''s'', name), (CHR ''v'', v)] w = Some (e, out, w') \<longrightarrow> e = MSG_ERR \<and> w' = w)"
proof -
  have get: "arr_get g_pcba_params (nat i) = Some (g_pcba_params ! nat i)" using params_index [of i name] i by auto
  have msg: "get_msg_form_server [(CHR ''s'', name), (CHR ''v'', v)] (-1) (-1) (replicate COMMAND_VALUESIZE 0) =
      (if length v < 100 then Some (i, 1, value_buf v) else None)"
    using msg_set_value(1) [of name v] i value_buf [OF _ v] by (auto simp: bytes_put_def)
  have str: "c_string (value_buf v) = Some v" if "length v < 100" using value_buf(3) [OF that v] .
  have "storage_main B promote junk junk_buf [(CHR ''s'', name), (CHR ''v'', v)] w = None"
    if h: "list_all (\<lambda>c. hex_digit_val c \<noteq> None) (take 8 v)" "8 \<le> length v"
  proof -
    obtain a b c d e f g k s where "v = [a, b, c, d, e, f, g, k] @ s" using h(2) by (auto simp: numeral_eq_Suc Suc_le_length_iff)
    then have "scan_mac 6 0 junk v = None" using scan_four_pairs [OF _ j, of a b c d e f g k s] h(1) by simp
    then show ?thesis using msg str i(2) get by (auto simp: storage_main_def storage_put_def mac_addr_str_to_hex_def)
  qed
  moreover have "e = MSG_ERR \<and> w' = w" if "storage_main B promote junk junk_buf [(CHR ''s'', name), (CHR ''v'', v)] w = Some (e, out, w')"
    using that msg str i(2) get scan_mac_three [OF _ j, of 6 0 v]
    by (auto simp: storage_main_def storage_put_def mac_addr_str_to_hex_def bind_eq_Some_conv split: if_splits)
  ultimately show ?thesis by blast
qed

theorem address_never_stored_witness:
  "storage_main demo_vendor ucast (replicate 6 0) [0] [(CHR ''s'', ascii ''LANMAC''), (CHR ''v'', ascii ''001a2b3c4d5e'')] [] = None"
proof -
  have i: "get_params_index (ascii ''LANMAC'') = 1" by (simp add: get_params_index_def g_pcba_params_def msg_strupr_def ascii_def)
  show ?thesis
    using address_never_stored [OF i, where v = "ascii ''001a2b3c4d5e''" and junk = "replicate 6 0" and B = demo_vendor and promote = ucast] by (simp add: ascii_def hex_digit_val_def)
qed

end
