(* ===== verification/DeviceTests.thy ===== *)
theory DeviceTests
  imports InputTests Bytes "HOL-Library.Signed_Division" Complex_Main
begin

text \<open>
  Test items of the board that look at one device each: the memory (\<^verbatim>\<open>pcb_test/echo_ddr_test.c\<close>), the flash (\<^verbatim>\<open>echo_emmc_test.c\<close>) and the
  clock (\<^verbatim>\<open>echo_rtc_test.c\<close>). The calls of the operating system are a parameter, what \<^verbatim>\<open>printf\<close> shows besides the report is left out.
\<close>

declare dec_digits.simps [simp del]

subsection \<open>The operating system\<close>

text \<open>The fields of \<^verbatim>\<open>struct tm\<close> the code sets.\<close>

record tm =
  tm_year :: int
  tm_mon :: int
  tm_mday :: int
  tm_hour :: int
  tm_min :: int
  tm_sec :: int

text \<open>
  \<^verbatim>\<open>popen\<close> with what the command prints, or null; \<^verbatim>\<open>system\<close> with its result; \<^verbatim>\<open>open\<close> of an existing file; \<^verbatim>\<open>read\<close> with the bytes stored; \<^verbatim>\<open>fopen\<close>
  for reading with all the bytes of the file; \<^verbatim>\<open>sleep\<close> in
  seconds; \<^verbatim>\<open>gettimeofday\<close> as seconds and microseconds; the two requests to the clock; \<^verbatim>\<open>mktime\<close> in the time zone of the board.
\<close>

record 'w dev_ops =
  d_popen :: "u8 list \<Rightarrow> 'w \<Rightarrow> u8 list option \<times> 'w"
  d_system :: "u8 list \<Rightarrow> 'w \<Rightarrow> int \<times> 'w"
  d_open :: "u8 list \<Rightarrow> 'w \<Rightarrow> int \<times> 'w"
  d_read :: "int \<Rightarrow> nat \<Rightarrow> 'w \<Rightarrow> int \<times> u8 list \<times> 'w"
  d_write :: "int \<Rightarrow> u8 list \<Rightarrow> 'w \<Rightarrow> int \<times> 'w"
  d_close :: "int \<Rightarrow> 'w \<Rightarrow> 'w"
  d_fopen :: "u8 list \<Rightarrow> 'w \<Rightarrow> u8 list option"
  d_remove :: "u8 list \<Rightarrow> 'w \<Rightarrow> 'w"
  d_sleep :: "nat \<Rightarrow> 'w \<Rightarrow> 'w"
  d_time :: "'w \<Rightarrow> (int \<times> int) \<times> 'w"
  d_set_rtc :: "int \<Rightarrow> tm \<Rightarrow> 'w \<Rightarrow> int \<times> 'w"
  d_read_rtc :: "int \<Rightarrow> 'w \<Rightarrow> int \<times> tm \<times> 'w"
  d_mktime :: "tm \<Rightarrow> int"

text \<open>\<^verbatim>\<open>atoi\<close>, undefined for a number that is no \<^verbatim>\<open>int\<close>, and the range of a computation in \<^verbatim>\<open>int\<close>.\<close>

definition c_int :: "int \<Rightarrow> int option" where
  "c_int i = (if int_ok i then Some i else None)"

definition atoi :: "u8 list \<Rightarrow> int option" where
  "atoi s = (case scan_d s of None \<Rightarrow> Some 0 | Some i \<Rightarrow> c_int i)"

text \<open>\<^verbatim>\<open>fscanf\<close> with \<^verbatim>\<open>%s\<close>: the word, the rest of the stream, and whether its end has been met.\<close>

definition is_space :: "u8 \<Rightarrow> bool" where
  "is_space c \<longleftrightarrow> c = 32 \<or> 9 \<le> c \<and> c \<le> 13"

definition scan_word :: "u8 list \<Rightarrow> u8 list \<times> u8 list \<times> bool" where
  "scan_word s = (let s = dropWhile is_space s; r = dropWhile (\<lambda>c. \<not> is_space c) s in (takeWhile (\<lambda>c. \<not> is_space c) s, r, r = []))"

lemma scan_word_shorter: "scan_word s = (v, r, False) \<Longrightarrow> length r < length s"
proof -
  assume "scan_word s = (v, r, False)"
  then have r: "r = dropWhile (\<lambda>c. \<not> is_space c) (dropWhile is_space s)" "r \<noteq> []" by (simp_all only: scan_word_def Let_def prod.inject) auto
  then obtain c t where t: "dropWhile is_space s = c # t" by (cases "dropWhile is_space s") simp_all
  then have "\<not> is_space c" using hd_dropWhile [of is_space s] by simp
  then have "length r \<le> length t" using r(1) t length_dropWhile_le by simp
  moreover have "Suc (length t) \<le> length s" using t length_dropWhile_le [of is_space s] by simp
  ultimately show ?thesis by simp
qed

subsection \<open>The memory\<close>

definition DDR_CAPACITY :: int where "DDR_CAPACITY = 256"
abbreviation (input) DDR_PROC_ERR :: int where "DDR_PROC_ERR \<equiv> -65"

definition READ_DDR_COMMAND :: "u8 list" where
  "READ_DDR_COMMAND =
     ascii ''cat /proc/zoneinfo | busybox grep present | '' @ replicate 4 9 @ ascii ''busybox awk '' @ [39] @
     ascii ''BEGIN{a=0}{a+=$2}END{print a}'' @ [39]"

definition ddr_exec :: "'w dev_ops \<Rightarrow> u8 list \<Rightarrow> nat \<Rightarrow> 'w \<Rightarrow> int \<times> u8 list \<times> 'w" where
  "ddr_exec D cmd len w =
     (case d_popen D cmd w of (None, w) \<Rightarrow> (-1, [], w)
      | (Some out, w) \<Rightarrow> if out = [] then (-1, [], w) else (0, up_to_nul (fst (fgets (len - 1) out)), w))"

definition ddr_test :: "'w dev_ops \<Rightarrow> 'w \<Rightarrow> (int \<times> 'w) option" where
  "ddr_test D w =
     (let (ddr_ret, ddrsize_char, w) = ddr_exec D READ_DDR_COMMAND 20 w in
      if ddr_ret \<ge> 0 then do {
        n \<leftarrow> atoi ddrsize_char;
        n \<leftarrow> c_int (n * 4);
        if DDR_CAPACITY \<noteq> n sdiv 1024 then Some (ddr_ret, w) else Some (ddr_ret, w)
      } else Some (ddr_ret, w))"

definition ddr_main :: "'w dev_ops \<Rightarrow> 'w \<Rightarrow> (u8 list \<times> 'w) option" where
  "ddr_main D w = do {
     (test_flag, w) \<leftarrow> ddr_test D w;
     let (result, err_code) = (if test_flag < 0 then (RESULT_FAIL, DDR_PROC_ERR) else (RESULT_PASS, 0));
     Some (send_msg_to_server (ascii ''ddr_test'') result err_code, w)
   }"

subsection \<open>The flash\<close>

definition EMMC_CAPACITY :: int where "EMMC_CAPACITY = 8"
abbreviation (input) EMMC_PROC_ERR :: int where "EMMC_PROC_ERR \<equiv> -75"

definition EMMCPATH :: "u8 list" where "EMMCPATH = ascii ''/sys/bus/mmc/devices/mmc0:0001/block/mmcblk0/size''"

primrec strip_newlines :: "nat \<Rightarrow> u8 list \<Rightarrow> nat option" where
  "strip_newlines 0 buf = Some 0"
| "strip_newlines (Suc n) buf = do { c \<leftarrow> arr_get buf n; if c = 10 then strip_newlines n buf else Some (Suc n) }"

definition readFromFile :: "'w dev_ops \<Rightarrow> u8 list option \<Rightarrow> u8 list \<Rightarrow> nat \<Rightarrow> 'w \<Rightarrow> (int \<times> u8 list \<times> 'w) option" where
  "readFromFile D name buf len w =
     (case name of None \<Rightarrow> Some (-1, buf, w)
      | Some file \<Rightarrow>
          let (fd, w) = d_open D file w in
          if fd = -1 then Some (-1, buf, w)
          else
            let (count, bs, w) = d_read D fd len w in do {
              buf \<leftarrow> bytes_put buf 0 bs;
              if count > 0 then do {
                n \<leftarrow> strip_newlines (nat count) buf;
                buf \<leftarrow> arr_set buf n 0;
                Some (int n, buf, d_close D fd w)
              } else do {
                buf \<leftarrow> arr_set buf 0 0;
                Some (count, buf, d_close D fd w)
              }
            })"

text \<open>
  The divisions of a \<^verbatim>\<open>double\<close> by powers of two are exact, so it is a rational number. \<open>n\<close> turns of the loop are left.
\<close>

primrec emmc_loop :: "nat \<Rightarrow> rat \<Rightarrow> int \<Rightarrow> int" where
  "emmc_loop 0 gb emmc_size = -1"
| "emmc_loop (Suc n) gb emmc_size =
     (if gb > of_int emmc_size \<and> gb \<le> of_int (emmc_size * 2) then emmc_size * 2 else emmc_loop n gb (emmc_size * 2))"

definition get_emmc_size :: "u8 list \<Rightarrow> int option" where
  "get_emmc_size size_data = do {
     n \<leftarrow> atoi size_data;
     let gb = of_int n / 2 / 1024 / 1024;
     Some (if gb > 0 \<and> gb \<le> 1 then 1 else emmc_loop 9 gb 1)
   }"

definition emmc_test :: "'w dev_ops \<Rightarrow> 'w \<Rightarrow> (int \<times> 'w) option" where
  "emmc_test D w = do {
     (emmc_ret, emmcsize_char, w) \<leftarrow> readFromFile D (Some EMMCPATH) (replicate 20 0) 20 w;
     if emmc_ret \<ge> 0 then do {
       s \<leftarrow> c_string emmcsize_char;
       emmc_size \<leftarrow> get_emmc_size s;
       if emmc_size < 0 then Some (-1, w)
       else if EMMC_CAPACITY \<noteq> emmc_size then Some (emmc_ret, w) else Some (emmc_ret, w)
     } else Some (emmc_ret, w)
   }"

definition emmc_main :: "'w dev_ops \<Rightarrow> 'w \<Rightarrow> (u8 list \<times> 'w) option" where
  "emmc_main D w = do {
     (test_flag, w) \<leftarrow> emmc_test D w;
     let (result, err_code) = (if test_flag < 0 then (RESULT_FAIL, EMMC_PROC_ERR) else (RESULT_PASS, 0));
     Some (send_msg_to_server (ascii ''emmc_test'') result err_code, w)
   }"

subsection \<open>The clock\<close>

abbreviation (input) RTC_PROC_ERR :: int where "RTC_PROC_ERR \<equiv> -95"
definition RTC_TIME_DIFF :: nat where "RTC_TIME_DIFF = 1"
definition MAJOR_RTC_PATH :: "u8 list" where "MAJOR_RTC_PATH = ascii ''/dev/rtc''"
definition MINOR_RTC_PATH :: "u8 list" where "MINOR_RTC_PATH = ascii ''/dev/rtc0''"

definition rtc_xopen :: "'w dev_ops \<Rightarrow> 'w \<Rightarrow> int \<times> 'w" where
  "rtc_xopen D w = (let (rtc_fd, w) = d_open D MAJOR_RTC_PATH w in if rtc_fd < 0 then d_open D MINOR_RTC_PATH w else (rtc_fd, w))"

definition set_system_time :: "'w dev_ops \<Rightarrow> tm \<Rightarrow> 'w \<Rightarrow> int \<times> 'w" where
  "set_system_time D t w =
     (let (fd, w) = d_open D MINOR_RTC_PATH w in
      if fd < 0 then (-1, w)
      else let (ret, w) = d_set_rtc D fd t w in if ret < 0 then (-1, w) else (0, d_close D fd w))"

text \<open>
  The result, and \<^verbatim>\<open>*local_time\<close>. \<^verbatim>\<open>mktime\<close> may bring its argument into range; a date that exists, as the one the code uses, it leaves as it is.
\<close>

definition rtc_set_system_time_test :: "'w dev_ops \<Rightarrow> u8 list \<Rightarrow> 'w \<Rightarrow> (int \<times> int \<times> 'w) option" where
  "rtc_set_system_time_test D time_set w = do {
     day \<leftarrow> atoi time_set;
     let s = dropWhile (\<lambda>c. c \<noteq> 46) time_set;
     hour \<leftarrow> atoi (drop 1 s);
     let t = \<lparr>tm_year = day sdiv 10000 - 1900, tm_mon = (day smod 10000) sdiv 100 - 1, tm_mday = day smod 100,
              tm_hour = hour sdiv 10000, tm_min = (hour smod 10000) sdiv 100, tm_sec = hour smod 100\<rparr>;
     let (ret, w) = set_system_time D t w;
     Some (if ret < 0 then -1 else 0, d_mktime D t, w)
   }"

definition rtc_get_system_time_test :: "'w dev_ops \<Rightarrow> 'w \<Rightarrow> int \<times> int \<times> 'w" where
  "rtc_get_system_time_test D w =
     (let (fd, w) = d_open D MINOR_RTC_PATH w in
      if fd < 0 then (-1, 0, w)
      else
        let (ret, t, w) = d_read_rtc D fd w in
        if ret < 0 then (-1, 0, w) else (0, d_mktime D t, d_close D fd w))"

definition rtc_test :: "'w dev_ops \<Rightarrow> 'w \<Rightarrow> (int \<times> 'w) option" where
  "rtc_test D w = do {
     (ret, lt_set, w) \<leftarrow> rtc_set_system_time_test D (ascii ''20170513.180010'') w;
     if ret < 0 then Some (ret, w)
     else
       let (ret, lt_get2, w) = rtc_get_system_time_test D (d_sleep D RTC_TIME_DIFF w) in
       if ret < 0 then Some (ret, w)
       else if int RTC_TIME_DIFF > lt_get2 smod 60 - lt_set smod 60 then Some (-1, w)
       else Some (ret, w)
   }"

definition rtc_main :: "'w dev_ops \<Rightarrow> 'w \<Rightarrow> (u8 list \<times> 'w) option" where
  "rtc_main D w = do {
     (test_flag, w) \<leftarrow> rtc_test D w;
     let (result, err_code) = (if test_flag < 0 then (RESULT_FAIL, RTC_PROC_ERR) else (RESULT_PASS, 0));
     Some (send_msg_to_server (ascii ''rtc_test'') result err_code, w)
   }"


subsection \<open>Decimal numbers\<close>

lemma scan_nat_stop:
  "\<forall>c\<in>set ds. is_digit c \<Longrightarrow> \<forall>c\<in>set (take 1 r). \<not> is_digit c \<Longrightarrow> scan_nat (ds @ r) k = scan_nat ds k"
proof (induction ds arbitrary: k)
  case Nil
  then show ?case by (cases r) auto
qed auto

lemma scan_d_digits:
  assumes "\<forall>c\<in>set (take 1 r). \<not> is_digit c"
  shows "scan_d (dec_digits n @ r) = Some (int n)"
proof -
  obtain d ds where d: "dec_digits n = d # ds" "is_digit d" using dec_digits_ok [of n] by (cases "dec_digits n") auto
  have f: "(d = 32 \<or> 9 \<le> d \<and> d \<le> 13) = False" "(d = 45) = False" "(d = 43) = False" "(48 \<le> d \<and> d \<le> 57) = True"
    using d(2) by (auto simp: word_le_nat_alt word_unat_eq_iff)
  have "scan_d (d # ds @ q) = Some (int (scan_nat (d # ds @ q) 0))" for q
    unfolding scan_d_def dropWhile.simps list.case f Let_def prod.case if_False simp_thms if_True by (rule TrueI)
  moreover have "scan_nat (d # ds @ 62 # []) 0 = n"
    using scan_d_fmt [of "int n" "[]"] calculation [of "62 # []"] d(1) unfolding fmt_d_def by (simp del: scan_nat.simps)
  moreover have "scan_nat (dec_digits n @ r) 0 = scan_nat (dec_digits n @ 62 # []) 0"
  proof -
    have "\<forall>c\<in>set (dec_digits n). is_digit c" using dec_digits_ok [of n] by blast
    moreover have "\<forall>c\<in>set (take 1 [62 :: u8]). \<not> is_digit c" by simp
    ultimately show ?thesis using scan_nat_stop [OF _ assms, of "dec_digits n" 0] scan_nat_stop [of "dec_digits n" "[62]" 0] by presburger
  qed
  ultimately show ?thesis using d(1) by simp
qed

lemma atoi_digits: "\<forall>c\<in>set (take 1 r). \<not> is_digit c \<Longrightarrow> n < 2 ^ 31 \<Longrightarrow> atoi (dec_digits n @ r) = Some (int n)"
  unfolding atoi_def by (subst scan_d_digits) (simp_all add: c_int_def int_ok_def)

end
