(* ===== verification/BtTest.thy ===== *)
theory BtTest
  imports DeviceTests
begin

text \<open>
  The test item of the Bluetooth chip, \<^verbatim>\<open>pcb_test/echo_bt_test.c\<close>: it finds the chip, loads its firmware and activates it. What \<^verbatim>\<open>printf\<close> shows
  besides the report is left out.
\<close>

subsection \<open>The chip\<close>

record bt_state =
  rfkill_bt_id :: int
  rfkill_state_path :: "u8 list"

abbreviation (input) BT_PROC_ERR :: int where "BT_PROC_ERR \<equiv> -30"
definition PERIOD_TIME :: nat where "PERIOD_TIME = 3"
definition BT_TIMEOUT_FIRMWARE :: nat where "BT_TIMEOUT_FIRMWARE = 30"
definition BT_INIT_ADDR :: "u8 list" where "BT_INIT_ADDR = ascii ''00:00:00:00:00:00''"

definition rfkill_file :: "int \<Rightarrow> string \<Rightarrow> u8 list" where
  "rfkill_file n name = ascii ''/sys/class/rfkill/rfkill'' @ fmt_d n @ ascii ''/'' @ ascii name"

text \<open>The loop of \<^verbatim>\<open>init_rfkill\<close>: the number of the first file that says so, if it comes before the first that cannot be opened.\<close>

partial_function (option) rfkill_loop :: "'w dev_ops \<Rightarrow> int \<Rightarrow> 'w \<Rightarrow> (int option \<times> 'w) option" where
  "rfkill_loop D n w =
     (let (fd, w) = d_open D (rfkill_file n ''type'') w in
      if fd < 0 then Some (None, w)
      else
        let (length_r, bs, w) = d_read D fd 16 w; w = d_close D fd w in
        if length_r \<ge> 9 \<and> take 9 bs = ascii ''bluetooth'' then Some (Some n, w)
        else do { n \<leftarrow> c_int (n + 1); rfkill_loop D n w })"

definition init_rfkill :: "'w dev_ops \<Rightarrow> bt_state \<Rightarrow> 'w \<Rightarrow> (int \<times> bt_state \<times> 'w) option" where
  "init_rfkill D g w = do {
     (found, w) \<leftarrow> rfkill_loop D 0 w;
     (case found of None \<Rightarrow> Some (-1, g, w)
      | Some n \<Rightarrow> Some (0, g\<lparr>rfkill_bt_id := n, rfkill_state_path := rfkill_file n ''state''\<rparr>, w))
   }"

text \<open>The name goes to an array of \<open>len\<close> bytes, of which the last one read becomes the terminator.\<close>

definition bt_get_chip_name :: "'w dev_ops \<Rightarrow> bt_state \<Rightarrow> u8 list \<Rightarrow> nat \<Rightarrow> 'w \<Rightarrow> (int \<times> u8 list \<times> 'w) option" where
  "bt_get_chip_name D g name len w =
     (let (fd, w) = d_open D (rfkill_file (rfkill_bt_id g) ''name'') w in
      if fd < 0 then Some (-1, name, w)
      else
        let (length_r, bs, w) = d_read D fd len w in
        if length_r < 0 then Some (-1, name, d_close D fd w)
        else do {
          name \<leftarrow> bytes_put name 0 bs;
          name \<leftarrow> (if length_r = 0 then None else arr_set name (nat length_r - 1) 0);
          Some (0, name, d_close D fd w)
        })"

text \<open>The prefixes of names in the order in which they are compared, with the chip types of the enumeration as numbers.\<close>

abbreviation (input) BT_UNKNOWN :: int where "BT_UNKNOWN \<equiv> -1"
abbreviation (input) RK903 :: int where "RK903 \<equiv> 5"
abbreviation (input) MT5931 :: int where "MT5931 \<equiv> 8"
abbreviation (input) RDA587x :: int where "RDA587x \<equiv> 9"
abbreviation (input) RDA5990 :: int where "RDA5990 \<equiv> 10"
abbreviation (input) RTK8723AS :: int where "RTK8723AS \<equiv> 11"
abbreviation (input) RTK8723BS :: int where "RTK8723BS \<equiv> 12"
abbreviation (input) RTK8723AU :: int where "RTK8723AU \<equiv> 13"
abbreviation (input) RTK8723BU :: int where "RTK8723BU \<equiv> 14"
abbreviation (input) BK3515 :: int where "BK3515 \<equiv> 15"
abbreviation (input) SOFIA_3GR :: int where "SOFIA_3GR \<equiv> 16"

definition chip_names :: "(u8 list \<times> int) list" where
  "chip_names =
     [(ascii ''rk903'', RK903), (ascii ''mt6622'', MT5931), (ascii ''rda587x'', RDA587x), (ascii ''rda5990'', RDA5990),
      (ascii ''rtk8723as'', RTK8723AS), (ascii ''rtk8723bs'', RTK8723BS), (ascii ''rtk8723au'', RTK8723AU), (ascii ''rtk8723bu'', RTK8723BU),
      (ascii ''bk3515'', BK3515), (ascii ''Sofia-3gr'', SOFIA_3GR), (ascii ''rk903_26M'', RK903), (ascii ''rk903'', RK903),
      (ascii ''ap6210'', RK903), (ascii ''ap6335'', RK903), (ascii ''ap6476'', RK903), (ascii ''ap6493'', RK903)]"

definition get_chip_type :: "u8 list \<Rightarrow> int" where
  "get_chip_type bt_chip_name =
     (case List.find (\<lambda>(p, _). take (length p) bt_chip_name = p) chip_names of Some (_, t) \<Rightarrow> t | None \<Rightarrow> BT_UNKNOWN)"

subsection \<open>Firmware\<close>

text \<open>\<open>junk\<close> is what the array \<^verbatim>\<open>pid_buf\<close> of 64 bytes holds before; it is read as it is when the command prints nothing.\<close>

definition close_brcm_pathcram_plus1 :: "'w dev_ops \<Rightarrow> u8 list \<Rightarrow> 'w \<Rightarrow> (int \<times> 'w) option" where
  "close_brcm_pathcram_plus1 D junk w =
     (case d_popen D (ascii ''ps |grep brcm_patchram_plus1|awk '' @ [39] @ ascii ''NR==1 {print $1}'' @ [39]) w of (None, w) \<Rightarrow> Some (-1, w)
      | (Some out, w) \<Rightarrow> do {
          pid_buf \<leftarrow> (if out = [] then Some junk else bytes_put junk 0 (fst (fgets 63 out) @ [0]));
          s \<leftarrow> c_string pid_buf;
          pid \<leftarrow> atoi s;
          Some (0, snd (d_system D (ascii ''kill -9 '' @ fmt_d pid) w))
        })"

text \<open>The address a command prints, in an array of 64 bytes that was zero; whether it has a first character.\<close>

definition read_address :: "u8 list \<Rightarrow> u8 list option" where
  "read_address out = (let (s, _, _) = scan_word out in if s = [] then Some (replicate 64 0) else bytes_put (replicate 64 0) 0 (s @ [0]))"

definition get_bdaddr_test :: "'w dev_ops \<Rightarrow> 'w \<Rightarrow> (int \<times> 'w) option" where
  "get_bdaddr_test D w =
     (case d_popen D (ascii ''hciconfig -a| grep '' @ [34] @ ascii ''BD Address:'' @ [34] @ ascii ''|awk '' @ [39] @ ascii ''{print $3}'' @ [39]) w of
        (None, w) \<Rightarrow> Some (-1, w)
      | (Some out, w) \<Rightarrow> do {
          bdaddr \<leftarrow> read_address out;
          let test_flag = (if bdaddr ! 0 \<noteq> 0 then 0 else -1);
          Some (if take (length BT_INIT_ADDR) bdaddr = BT_INIT_ADDR then -1 else test_flag, w)
        })"

function firmware_loop :: "'w dev_ops \<Rightarrow> nat \<Rightarrow> 'w \<Rightarrow> (nat \<times> 'w) option" where
  "firmware_loop D time_out w =
     (if time_out < BT_TIMEOUT_FIRMWARE then do {
        (r, w) \<leftarrow> get_bdaddr_test D (d_sleep D PERIOD_TIME w);
        if r = 0 then Some (time_out, w) else firmware_loop D (time_out + PERIOD_TIME) w
      } else Some (time_out, w))"
  by pat_completeness auto

termination
  by (relation "measure (\<lambda>(_, t, _). BT_TIMEOUT_FIRMWARE - t)") (auto simp: PERIOD_TIME_def)

declare firmware_loop.simps [simp del]

definition confirm_firmware_test :: "'w dev_ops \<Rightarrow> 'w \<Rightarrow> (int \<times> 'w) option" where
  "confirm_firmware_test D w = do { (time_out, w) \<leftarrow> firmware_loop D 0 w; Some (if time_out > BT_TIMEOUT_FIRMWARE then -1 else 0, w) }"

subsection \<open>Activation\<close>

definition activate_bt_test :: "'w dev_ops \<Rightarrow> 'w \<Rightarrow> (int \<times> 'w) option" where
  "activate_bt_test D w =
     (let (_, w) = d_system D (ascii ''hciconfig hci0 up'') w in
      case d_popen D (ascii ''hcitool dev|grep hci0|awk '' @ [39] @ ascii ''{print $2}'' @ [39]) w of (None, w) \<Rightarrow> Some (-1, w)
      | (Some out, w) \<Rightarrow> do { bdaddr \<leftarrow> read_address out; Some (if bdaddr ! 0 \<noteq> 0 then 0 else -1, w) })"

text \<open>The loop of \<^verbatim>\<open>bt_scan_test\<close>, which no code calls: it ends with the stream.\<close>

function scan_loop :: "u8 list \<Rightarrow> bool \<Rightarrow> int \<Rightarrow> int option" where
  "scan_loop s e count =
     (if e then Some count
      else
        let (v, r, e) = scan_word s in do {
          bdaddr \<leftarrow> read_address s;
          if bdaddr ! 0 \<noteq> 0 then scan_loop r e (count + 1) else if count = 0 then Some (-1) else scan_loop r e count
        })"
  by pat_completeness auto

termination
  by (relation "measure (\<lambda>(s, e, _). if e then 0 else Suc (length s))")
    (auto dest!: sym [of "(_, _)" "scan_word _"] scan_word_shorter split: if_splits)

declare scan_loop.simps [simp del]

definition bt_scan_test :: "'w dev_ops \<Rightarrow> 'w \<Rightarrow> (int \<times> 'w) option" where
  "bt_scan_test D w =
     (case d_popen D (ascii ''hcitool scan |awk '' @ [39] @ ascii ''NR>=2{print $1}'' @ [39]) w of (None, w) \<Rightarrow> Some (-1, w)
      | (Some out, w) \<Rightarrow> do { count \<leftarrow> scan_loop out False 0; Some (count, w) })"

definition bt_test_bluez :: "'w dev_ops \<Rightarrow> u8 list \<Rightarrow> bt_state \<Rightarrow> 'w \<Rightarrow> (int \<times> 'w) option" where
  "bt_test_bluez D junk g w = do {
     (test_flag, w) \<leftarrow> close_brcm_pathcram_plus1 D junk w;
     if test_flag < 0 then Some (-1, w)
     else do {
       let (_, w) = d_system D (ascii ''echo 0 > '' @ rfkill_state_path g) w;
       let (_, w) = d_system D (ascii ''echo 1 > '' @ rfkill_state_path g) w;
       let (_, w) = d_system D (ascii ''brcm_patchram_plus1 --enable_hci --no2bytes '' @ replicate 11 32 @
         ascii ''--use_baudrate_for_download  --tosleep  200000 '' @ replicate 11 32 @
         ascii ''--baudrate 1500000 --patchram /data/bcm43438a0.hcd /dev/ttyS0 &'') w;
       (test_flag, w) \<leftarrow> confirm_firmware_test D w;
       if test_flag < 0 then Some (-1, w)
       else do {
         let (_, w) = d_system D (ascii ''hciconfig hci0 up'') w;
         (test_flag, w) \<leftarrow> activate_bt_test D w;
         Some (if test_flag < 0 then -1 else 0, w)
       }
     }
   }"

text \<open>\<open>junk_name\<close> is what the array \<^verbatim>\<open>bt_chip_name\<close> holds before.\<close>

definition bt_test :: "'w dev_ops \<Rightarrow> u8 list \<Rightarrow> u8 list \<Rightarrow> bt_state \<Rightarrow> 'w \<Rightarrow> (int \<times> bt_state \<times> 'w) option" where
  "bt_test D junk_name junk g w = do {
     (ret, g, w) \<leftarrow> init_rfkill D g w;
     (ret, w) \<leftarrow> (if ret < 0 then Some (ret, w)
       else do {
         (ret, bt_chip_name, w) \<leftarrow> bt_get_chip_name D g junk_name 64 w;
         if ret < 0 then Some (ret, w)
         else if get_chip_type bt_chip_name < 0 then Some (ret, w)
         else bt_test_bluez D junk g w
       });
     Some (ret, g, snd (d_system D (ascii ''busybox killall brcm_patchram_plus1'') w))
   }"

definition bt_main :: "'w dev_ops \<Rightarrow> u8 list \<Rightarrow> u8 list \<Rightarrow> 'w \<Rightarrow> (u8 list \<times> 'w) option" where
  "bt_main D junk_name junk w = do {
     (test_flag, g, w) \<leftarrow> bt_test D junk_name junk \<lparr>rfkill_bt_id = -1, rfkill_state_path = []\<rparr> w;
     let (result, err_code) = (if test_flag < 0 then (RESULT_FAIL, BT_PROC_ERR) else (RESULT_PASS, 0));
     Some (send_msg_to_server (ascii ''bt_test'') result err_code, w)
   }"

end
