(* ===== verification/LedTests.thy ===== *)
theory LedTests
  imports DeviceTests
begin

text \<open>
  The test items a person watches or listens to: the lights (\<^verbatim>\<open>pcb_test/echo_led_test.c\<close>, \<^verbatim>\<open>rk_pcba_test_led.h\<close>) and the sound
  (\<^verbatim>\<open>echo_audio_test.c\<close>, \<^verbatim>\<open>echo_audio_play_test.c\<close>, \<^verbatim>\<open>echo_audio_record_test.c\<close>). What is printed besides the report is left out.
\<close>

subsection \<open>Lights\<close>

definition LED_ON :: "u8 list" where "LED_ON = ascii ''128''"
definition LED_OFF :: "u8 list" where "LED_OFF = ascii ''0''"
abbreviation (input) LED_NUM :: nat where "LED_NUM \<equiv> 36"
abbreviation (input) LED_TEST_TIMEOUT :: int where "LED_TEST_TIMEOUT \<equiv> -51"
abbreviation (input) LED_PROC_ERR :: int where "LED_PROC_ERR \<equiv> -55"
abbreviation (input) MANUAL_TEST_TIMEOUT :: int where "MANUAL_TEST_TIMEOUT \<equiv> 60000000"

definition led_brightness_file :: "nat \<Rightarrow> u8 list" where
  "led_brightness_file n = ascii ''/sys/class/leds/led'' @ fmt_d (int n) @ ascii ''/brightness''"

text \<open>\<^verbatim>\<open>memcmp\<close> of \<open>n\<close> bytes: whether they are equal; it may read no further than both objects go.\<close>

fun mem_eq :: "nat \<Rightarrow> u8 list \<Rightarrow> u8 list \<Rightarrow> bool option" where
  "mem_eq 0 xs ys = Some True"
| "mem_eq (Suc n) (x # xs) (y # ys) = (if x \<noteq> y then Some False else mem_eq n xs ys)"
| "mem_eq (Suc n) _ _ = None"

text \<open>\<open>junk\<close> is what \<^verbatim>\<open>buffer\<close> holds before. The line that prints the number in it is left out.\<close>

definition write_int :: "'w dev_ops \<Rightarrow> u8 list \<Rightarrow> u8 list \<Rightarrow> u8 list \<Rightarrow> 'w \<Rightarrow> (int \<times> 'w) option" where
  "write_int D junk file val w =
     (let (fd, w) = d_open D file w in
      if fd \<ge> 0 then
        let (length_r, bs, w) = d_read D fd 64 w in do {
          buffer \<leftarrow> bytes_put junk 0 bs;
          same \<leftarrow> mem_eq (unat (word_of_int length_r :: u64)) buffer (val @ [0]);
          if same then Some (0, d_close D fd w)
          else let (length_w, w) = d_write D fd (val @ [0]) w in Some (if length_w = -1 then -1 else 0, d_close D fd w)
        }
      else Some (-1, w))"

text \<open>A loop over lights that gives up at the first failure; whether it came to its end.\<close>

primrec set_leds :: "'w dev_ops \<Rightarrow> u8 list \<Rightarrow> (nat \<Rightarrow> u8 list) \<Rightarrow> nat list \<Rightarrow> 'w \<Rightarrow> (bool \<times> 'w) option" where
  "set_leds D junk val [] w = Some (True, w)"
| "set_leds D junk val (n # ns) w = do {
     (r, w) \<leftarrow> write_int D junk (led_brightness_file n) (val n) w;
     if r = -1 then Some (False, w) else set_leds D junk val ns w
   }"

text \<open>\<^verbatim>\<open>LED_BLUE\<close>, \<^verbatim>\<open>LED_GREEN\<close>, \<^verbatim>\<open>LED_RED\<close> are 0, 1, 2.\<close>

definition led_value :: "nat \<Rightarrow> nat \<Rightarrow> u8 list" where
  "led_value color_num led_num =
     (if led_num mod 3 = 2 then (if color_num mod 3 = 1 then LED_ON else LED_OFF)
      else if led_num mod 3 = 1 then (if color_num mod 3 = 2 then LED_ON else LED_OFF)
      else (if color_num mod 3 = 0 then LED_ON else LED_OFF))"

primrec led_colors :: "'w dev_ops \<Rightarrow> u8 list \<Rightarrow> nat list \<Rightarrow> 'w \<Rightarrow> (bool \<times> 'w) option" where
  "led_colors D junk [] w = Some (True, w)"
| "led_colors D junk (c # cs) w = do {
     (ok, w) \<leftarrow> set_leds D junk (led_value c) [1..<LED_NUM + 1] w;
     if \<not> ok then Some (False, w) else led_colors D junk cs (d_sleep D 1 w)
   }"

definition led_test :: "'w dev_ops \<Rightarrow> u8 list \<Rightarrow> 'w \<Rightarrow> (int \<times> 'w) option" where
  "led_test D junk w = do {
     (ok, w) \<leftarrow> led_colors D junk [1, 2, 3] w;
     if \<not> ok then Some (-1, w)
     else do {
       (ok, w) \<leftarrow> set_leds D junk (\<lambda>_. LED_ON) [1..<LED_NUM + 1] w;
       if \<not> ok then Some (-1, w)
       else do {
         (ok, w) \<leftarrow> set_leds D junk (\<lambda>_. LED_OFF) [1..<LED_NUM + 1] (d_sleep D 1 w);
         Some (if ok then 0 else -1, w)
       }
     }
   }"

text \<open>The handler of \<^verbatim>\<open>SIGTERM\<close>: the code the program exits with.\<close>

definition leds_all_off :: "'w dev_ops \<Rightarrow> u8 list \<Rightarrow> 'w \<Rightarrow> (int \<times> 'w) option" where
  "leds_all_off D junk w = do { (ok, w) \<leftarrow> set_leds D junk (\<lambda>_. LED_OFF) [1..<LED_NUM + 1] w; Some (if ok then 0 else -1, w) }"

text \<open>Microseconds between two times, as an \<^verbatim>\<open>int\<close>.\<close>

definition delay :: "int \<times> int \<Rightarrow> int \<times> int \<Rightarrow> int" where
  "delay t1 t2 = sint (word_of_int ((fst t2 - fst t1) * 1000000 + (snd t2 - snd t1)) :: 32 word)"

partial_function (option) led_main_loop :: "'w dev_ops \<Rightarrow> u8 list \<Rightarrow> int \<times> int \<Rightarrow> 'w \<Rightarrow> (int \<times> 'w) option" where
  "led_main_loop D junk t1 w = do {
     (test_flag, w) \<leftarrow> led_test D junk w;
     if test_flag < 0 then Some (LED_PROC_ERR, w)
     else
       let (t2, w) = d_time D w in
       if delay t1 t2 > MANUAL_TEST_TIMEOUT then Some (LED_TEST_TIMEOUT, w) else led_main_loop D junk t1 w
   }"

definition led_main :: "'w dev_ops \<Rightarrow> u8 list \<Rightarrow> 'w \<Rightarrow> (u8 list \<times> 'w) option" where
  "led_main D junk w = do {
     let (t1, w) = d_time D w;
     (err_code, w) \<leftarrow> led_main_loop D junk t1 w;
     Some (send_msg_to_server (ascii ''led_test'') (if err_code \<noteq> 0 then RESULT_FAIL else RESULT_PASS) err_code, w)
   }"

text \<open>The functions of \<^verbatim>\<open>rk_pcba_test_led.h\<close> that light up one colour for a second; the results of \<^verbatim>\<open>write_int\<close> are not looked at.\<close>

primrec write_leds :: "'w dev_ops \<Rightarrow> u8 list \<Rightarrow> u8 list \<Rightarrow> nat list \<Rightarrow> 'w \<Rightarrow> 'w option" where
  "write_leds D junk val [] w = Some w"
| "write_leds D junk val (n # ns) w = do { (_, w) \<leftarrow> write_int D junk (led_brightness_file n) val w; write_leds D junk val ns w }"

definition light_up_led_red :: "'w dev_ops \<Rightarrow> u8 list \<Rightarrow> 'w \<Rightarrow> (int \<times> 'w) option" where
  "light_up_led_red D junk w = do {
     let leds = map (\<lambda>k. 2 + 3 * k) [0..<12];
     w \<leftarrow> write_leds D junk LED_ON leds w;
     w \<leftarrow> write_leds D junk LED_OFF leds (d_sleep D 1 w);
     Some (0, w)
   }"

definition light_up_led_green :: "'w dev_ops \<Rightarrow> u8 list \<Rightarrow> 'w \<Rightarrow> (int \<times> 'w) option" where
  "light_up_led_green D junk w = do {
     let leds = map (\<lambda>k. 1 + 3 * k) [0..<12];
     w \<leftarrow> write_leds D junk LED_ON leds w;
     w \<leftarrow> write_leds D junk LED_OFF leds (d_sleep D 1 w);
     Some (0, w)
   }"

definition light_up_led_blue :: "'w dev_ops \<Rightarrow> u8 list \<Rightarrow> 'w \<Rightarrow> (int \<times> 'w) option" where
  "light_up_led_blue D junk w = do {
     let leds = map (\<lambda>k. 3 + 3 * k) [0..<12];
     w \<leftarrow> write_leds D junk LED_ON leds w;
     w \<leftarrow> write_leds D junk LED_OFF leds (d_sleep D 1 w);
     Some (0, w)
   }"

subsection \<open>Sound\<close>

abbreviation (input) AUDIO_EVENT_TIMEOUT :: int where "AUDIO_EVENT_TIMEOUT \<equiv> -85"

definition PCBA_TEST_PATH :: "u8 list" where "PCBA_TEST_PATH = ascii ''/data/''"
definition AUDIO_PLAY_FILE :: "u8 list" where "AUDIO_PLAY_FILE = ascii ''audio_test_start.wav''"
definition AUDIO_RECORD_FILE :: "u8 list" where "AUDIO_RECORD_FILE = ascii ''record_test.pcm''"

definition system_w :: "'w dev_ops \<Rightarrow> u8 list \<Rightarrow> 'w \<Rightarrow> 'w" where
  "system_w D cmd w = snd (d_system D cmd w)"

definition audio_play_test :: "'w dev_ops \<Rightarrow> 'w \<Rightarrow> 'w" where
  "audio_play_test D w = system_w D (ascii ''aplay '' @ PCBA_TEST_PATH @ ascii ''/'' @ AUDIO_PLAY_FILE) w"

text \<open>The command that would remove the file is formatted, but not run.\<close>

definition audio_test :: "'w dev_ops \<Rightarrow> 'w \<Rightarrow> 'w" where
  "audio_test D w =
     (let w = system_w D (ascii ''aplay '' @ PCBA_TEST_PATH @ ascii ''/'' @ AUDIO_PLAY_FILE) w;
          w = system_w D (ascii ''arecord -D hw:3,0 -f S16_LE -c 2 -r 16000 -d 3 '' @ PCBA_TEST_PATH @ ascii ''/'' @ AUDIO_RECORD_FILE) w in
      system_w D (ascii ''aplay -f S16_LE -c 2 -r 16000 -d 3 '' @ PCBA_TEST_PATH @ ascii ''/'' @ AUDIO_RECORD_FILE) w)"

definition audio_record_test :: "'w dev_ops \<Rightarrow> 'w \<Rightarrow> 'w" where
  "audio_record_test D w =
     (let w = system_w D (ascii ''arecord -D hw:3,0 -f S16_LE -c 2 -r 16000 -d '' @ fmt_d 2 @ ascii '' '' @ TEST_RESULT_SAVE_PATH @ ascii ''/'' @ AUDIO_RECORD_FILE) w;
          w = system_w D (ascii ''aplay -f S16_LE -c 2 -r 16000 -d '' @ fmt_d 2 @ ascii '' '' @ TEST_RESULT_SAVE_PATH @ ascii ''/'' @ AUDIO_RECORD_FILE) w in
      system_w D (ascii ''rm '' @ TEST_RESULT_SAVE_PATH @ ascii ''/'' @ AUDIO_RECORD_FILE) w)"

text \<open>The handler of \<^verbatim>\<open>SIGTERM\<close>; \<open>exists\<close> is whether \<^verbatim>\<open>access\<close> finds the file.\<close>

definition del_record_pcm :: "'w dev_ops \<Rightarrow> bool \<Rightarrow> 'w \<Rightarrow> 'w" where
  "del_record_pcm D exists w = (if exists then d_remove D (TEST_RESULT_SAVE_PATH @ ascii ''/'' @ AUDIO_RECORD_FILE) w else w)"

text \<open>The loop the three programs share.\<close>

partial_function (option) audio_loop :: "'w dev_ops \<Rightarrow> ('w \<Rightarrow> 'w) \<Rightarrow> int \<times> int \<Rightarrow> 'w \<Rightarrow> (int \<times> 'w) option" where
  "audio_loop D test t1 w =
     (let (t2, w) = d_time D (test w) in
      if delay t1 t2 > MANUAL_TEST_TIMEOUT then Some (AUDIO_EVENT_TIMEOUT, w) else audio_loop D test t1 w)"

definition audio_play_main :: "'w dev_ops \<Rightarrow> 'w \<Rightarrow> (u8 list \<times> 'w) option" where
  "audio_play_main D w = do {
     let w = system_w D (ascii ''amixer set Playback 10%'') w;
     let (t1, w) = d_time D w;
     (err_code, w) \<leftarrow> audio_loop D (audio_play_test D) t1 w;
     Some (send_msg_to_server (ascii ''audio_play_test'') (if err_code \<noteq> 0 then RESULT_FAIL else RESULT_VERIFY) err_code, w)
   }"

definition audio_main :: "'w dev_ops \<Rightarrow> 'w \<Rightarrow> (u8 list \<times> 'w) option" where
  "audio_main D w = do {
     let (t1, w) = d_time D w;
     (err_code, w) \<leftarrow> audio_loop D (audio_test D) t1 w;
     Some (send_msg_to_server (ascii ''audio_test'') (if err_code \<noteq> 0 then RESULT_FAIL else RESULT_PASS) err_code, w)
   }"

definition audio_record_main :: "'w dev_ops \<Rightarrow> 'w \<Rightarrow> (u8 list \<times> 'w) option" where
  "audio_record_main D w = do {
     let w = system_w D (ascii ''amixer set Playback 30%'') w;
     let (t1, w) = d_time D w;
     (err_code, w) \<leftarrow> audio_loop D (audio_record_test D) t1 w;
     Some (send_msg_to_server (ascii ''audio_record_test'') (if err_code \<noteq> 0 then RESULT_FAIL else RESULT_PASS) err_code, w)
   }"

end
