(* ===== verification/DeviceSpec.thy ===== *)
theory DeviceSpec
  imports BtTest LedTests ItemSpec
begin

text \<open>
  What the tests of the memory, the flash, Bluetooth, the lights and the sound do, seen from outside: the size of the flash is rounded to a power of two, the wait for
  the firmware is bounded, a driver of the lights that takes what is written shows the pictures of the test, and the tests that a person judges fail or go on.
\<close>

declare dec_digits.simps [simp del]

subsection \<open>Memory and flash\<close>

lemma digits_plain: "10 \<notin> set (dec_digits n)" "0 \<notin> set (dec_digits n)"
proof -
  have "\<not> is_digit 10" "\<not> is_digit 0" by simp_all
  then show "10 \<notin> set (dec_digits n)" "0 \<notin> set (dec_digits n)" using dec_digits_ok [of n] by blast+
qed

lemma up_to_nul_line: "0 \<notin> set l \<Longrightarrow> up_to_nul (l @ [10]) = l @ [10]"
  unfolding up_to_nul_def by (subst takeWhile_eq_all_conv) auto

text \<open>The size of the flash is rounded up to a power of two.\<close>

lemma emmc_loop_rounds:
  "emmc_loop k gb (2 ^ j) = -1 \<and> \<not> (of_int (2 ^ j) < gb \<and> gb \<le> of_int (2 ^ (j + k))) \<or>
   (\<exists>i. j \<le> i \<and> i < j + k \<and> emmc_loop k gb (2 ^ j) = 2 ^ Suc i \<and> of_int (2 ^ i) < gb \<and> gb \<le> of_int (2 ^ Suc i))"
proof (induction k arbitrary: j)
  case (Suc k)
  show ?case
  proof (cases "of_int (2 ^ j) < gb \<and> gb \<le> of_int (2 ^ j * 2)")
    case True
    then show ?thesis by (intro disjI2 exI [of _ j]) simp
  next
    case False
    then have s: "emmc_loop (Suc k) gb (2 ^ j) = emmc_loop k gb (2 ^ Suc j)" by (subst emmc_loop.simps(2)) (auto simp: mult.commute)
    from Suc.IH [of "Suc j"] show ?thesis
    proof
      assume "emmc_loop k gb (2 ^ Suc j) = -1 \<and> \<not> (of_int (2 ^ Suc j) < gb \<and> gb \<le> of_int (2 ^ (Suc j + k)))"
      then show ?thesis using False unfolding s by (simp add: mult.commute) linarith
    next
      assume "\<exists>i. Suc j \<le> i \<and> i < Suc j + k \<and> emmc_loop k gb (2 ^ Suc j) = 2 ^ Suc i \<and> of_int (2 ^ i) < gb \<and> gb \<le> of_int (2 ^ Suc i)"
      then show ?thesis unfolding s by (metis Suc_leD add_Suc_shift)
    qed
  qed
qed simp

lemma emmc_size_rounds:
  assumes "atoi s = Some n" "0 < n" "n \<le> 2 ^ 30"
  shows "\<exists>k. get_emmc_size s = Some (2 ^ k) \<and> n \<le> 2 ^ (21 + k) \<and> (k \<noteq> 0 \<longrightarrow> 2 ^ (20 + k) < n)"
proof -
  let ?gb = "of_int n / 2 / 1024 / 1024 :: rat"
  have gb: "?gb = of_int n / of_int (2 ^ 21)" by simp
  have le: "?gb \<le> of_int (2 ^ i) \<longleftrightarrow> n \<le> 2 ^ (21 + i)" for i
  proof -
    have "?gb \<le> of_int (2 ^ i) \<longleftrightarrow> of_int n \<le> (of_int (2 ^ i * 2 ^ 21) :: rat)" by (simp add: field_simps)
    then show ?thesis by (simp only: of_int_le_iff) (simp add: power_add mult.commute)
  qed
  show ?thesis
  proof (cases "?gb \<le> 1")
    case True
    then show ?thesis using assms le [of 0] by (intro exI [of _ 0]) (simp add: get_emmc_size_def)
  next
    case False
    then have s: "get_emmc_size s = Some (emmc_loop 9 ?gb (2 ^ 0))" using assms by (simp add: get_emmc_size_def)
    have "?gb \<le> of_int (2 ^ (0 + 9))" unfolding le using assms(3) by simp
    then obtain i where i: "emmc_loop 9 ?gb (2 ^ 0) = 2 ^ Suc i" "of_int (2 ^ i) < ?gb" "?gb \<le> of_int (2 ^ Suc i)"
      using emmc_loop_rounds [of 9 ?gb 0] False by (auto simp del: emmc_loop.simps)
    then have "n \<le> 2 ^ (21 + Suc i)" "2 ^ (20 + Suc i) < n" using le [of "Suc i"] le [of i] by (simp_all only: not_le [symmetric]) simp_all
    then show ?thesis unfolding s i(1) by (intro exI [of _ "Suc i"]) simp
  qed
qed



subsection \<open>Firmware\<close>

definition firmware_round :: "'w dev_ops \<Rightarrow> 'w \<Rightarrow> (int \<times> 'w) option" where
  "firmware_round D w = get_bdaddr_test D (d_sleep D PERIOD_TIME w)"

lemma firmware_rounds:
  assumes "\<And>w. \<exists>w'. firmware_round D w = Some (-1, w')"
  shows "k \<le> 10 \<Longrightarrow> \<exists>w'. firmware_loop D (30 - 3 * k) w = Some (30, w')"
proof (induction k arbitrary: w)
  case 0
  then show ?case by (simp add: firmware_loop.simps [of D 30] BT_TIMEOUT_FIRMWARE_def)
next
  case (Suc k)
  obtain w1 where w1: "get_bdaddr_test D (d_sleep D PERIOD_TIME w) = Some (-1, w1)" using assms [of w] by (auto simp: firmware_round_def)
  have "30 - 3 * Suc k + PERIOD_TIME = 30 - 3 * k" "30 - 3 * Suc k < BT_TIMEOUT_FIRMWARE" using Suc.prems by (simp_all add: PERIOD_TIME_def BT_TIMEOUT_FIRMWARE_def)
  then have "firmware_loop D (30 - 3 * Suc k) w = firmware_loop D (30 - 3 * k) w1" using w1 by (subst firmware_loop.simps) simp
  then show ?case using Suc by simp
qed

text \<open>The loop never gets above the limit.\<close>

lemma firmware_limit: "k \<le> 10 \<Longrightarrow> firmware_loop D (30 - 3 * k) w = Some (t, w') \<Longrightarrow> t \<le> 30"
proof (induction k arbitrary: w)
  case 0
  then show ?case by (simp add: firmware_loop.simps [of D 30] BT_TIMEOUT_FIRMWARE_def)
next
  case (Suc k)
  have s: "30 - 3 * Suc k + PERIOD_TIME = 30 - 3 * k" "30 - 3 * Suc k < BT_TIMEOUT_FIRMWARE" using Suc.prems by (simp_all add: PERIOD_TIME_def BT_TIMEOUT_FIRMWARE_def)
  obtain r w1 where "get_bdaddr_test D (d_sleep D PERIOD_TIME w) = Some (r, w1)"
    "(if r = 0 then Some (30 - 3 * Suc k, w1) else firmware_loop D (30 - 3 * k) w1) = Some (t, w')"
    using Suc.prems(2) s unfolding firmware_loop.simps [of D "30 - 3 * Suc k" w] by (auto simp only: bind_eq_Some_conv if_True prod.case)
  then show ?case using Suc.IH [of w1] Suc.prems(1) by (auto split: if_splits)
qed

lemma firmware_confirmed: "confirm_firmware_test D w = Some (r, w') \<Longrightarrow> r = 0"
  using firmware_limit [of 10 D w] by (auto simp: confirm_firmware_test_def BT_TIMEOUT_FIRMWARE_def bind_eq_Some_conv)

subsection \<open>Lights\<close>

text \<open>
  The driver of the lights: a file for each of the 36, that holds the value of the light and a newline, takes what is written, and leaves the others. \<open>shown\<close>
  collects what could be seen in each second of sleep.
\<close>

definition lit_leds :: "(nat \<Rightarrow> u8 list) \<Rightarrow> nat set" where
  "lit_leds lit = {n \<in> {1..36}. lit n = LED_ON}"

definition led_driver :: "'w dev_ops \<Rightarrow> ('w \<Rightarrow> nat \<Rightarrow> u8 list) \<Rightarrow> ('w \<Rightarrow> nat set list) \<Rightarrow> bool" where
  "led_driver D lit shown \<longleftrightarrow>
     (\<forall>n\<in>{1..36}. \<forall>w. 0 \<notin> set (lit w n) \<and> 10 \<notin> set (lit w n) \<and> length (lit w n) < 63 \<longrightarrow>
        (\<exists>fd w1 w2. d_open D (led_brightness_file n) w = (fd, w1) \<and> 0 \<le> fd \<and> d_read D fd 64 w1 = (int (Suc (length (lit w n))), lit w n @ [10], w2) \<and>
          (\<forall>v. \<exists>r w3. d_write D fd (v @ [0]) w2 = (r, w3) \<and> r \<noteq> -1 \<and> lit (d_close D fd w3) = (lit w)(n := v) \<and> shown (d_close D fd w3) = shown w))) \<and>
     (\<forall>w. lit (d_sleep D 1 w) = lit w \<and> shown (d_sleep D 1 w) = shown w @ [lit_leds (lit w)])"

definition led_values :: "('w \<Rightarrow> nat \<Rightarrow> u8 list) \<Rightarrow> 'w \<Rightarrow> bool" where
  "led_values lit w \<longleftrightarrow> (\<forall>n. 0 \<notin> set (lit w n) \<and> 10 \<notin> set (lit w n) \<and> length (lit w n) < 63)"

lemma mem_eq_newline: "0 \<notin> set xs \<Longrightarrow> 10 \<notin> set ys \<Longrightarrow> mem_eq (Suc (length xs)) (xs @ 10 # r) (ys @ [0]) = Some False"
proof (induction xs arbitrary: ys)
  case Nil
  then show ?case by (cases ys) auto
next
  case (Cons x xs)
  then show ?case by (cases ys) auto
qed

lemma write_int_ok:
  assumes D: "led_driver D lit shown" and n: "n \<in> {1..36}" and v: "led_values lit w" "10 \<notin> set v" and junk: "length junk = 128"
  shows "\<exists>w'. write_int D junk (led_brightness_file n) v w = Some (0, w') \<and> lit w' = (lit w)(n := v) \<and> shown w' = shown w"
proof -
  have l: "0 \<notin> set (lit w n)" "10 \<notin> set (lit w n)" "length (lit w n) < 63" using v(1) by (simp_all add: led_values_def)
  obtain fd w1 w2 where o: "d_open D (led_brightness_file n) w = (fd, w1)" "0 \<le> fd"
      "d_read D fd 64 w1 = (int (Suc (length (lit w n))), lit w n @ [10], w2)"
      "\<forall>v. \<exists>r w3. d_write D fd (v @ [0]) w2 = (r, w3) \<and> r \<noteq> -1 \<and> lit (d_close D fd w3) = (lit w)(n := v) \<and> shown (d_close D fd w3) = shown w"
    using D n l unfolding led_driver_def by meson
  obtain r w3 where wr: "d_write D fd (v @ [0]) w2 = (r, w3)" "r \<noteq> -1" "lit (d_close D fd w3) = (lit w)(n := v)" "shown (d_close D fd w3) = shown w"
    using o(4) by blast
  have len: "unat (word_of_nat (Suc (length (lit w n))) :: u64) = Suc (length (lit w n))"
    using l(3) by (simp add: unat_of_nat take_bit_eq_mod del: of_nat_Suc)
  have "bytes_put junk 0 (lit w n @ [10]) = Some (lit w n @ 10 # drop (Suc (length (lit w n))) junk)" using junk l(3) by (simp add: bytes_put_def)
  then show ?thesis
    using o(1-3) wr mem_eq_newline [OF l(1) v(2)] unfolding write_int_def by (simp add: len del: of_nat_Suc mem_eq.simps)
qed


lemma set_leds_ok:
  assumes D: "led_driver D lit shown" and val: "\<And>n. val n \<in> {LED_ON, LED_OFF}" and junk: "length junk = 128"
  shows "set ns \<subseteq> {1..36} \<Longrightarrow> distinct ns \<Longrightarrow> led_values lit w \<Longrightarrow> \<exists>w'. set_leds D junk val ns w = Some (True, w') \<and>
    lit w' = (\<lambda>n. if n \<in> set ns then val n else lit w n) \<and> shown w' = shown w \<and> led_values lit w'"
proof (induction ns arbitrary: w)
  case (Cons n ns)
  have v: "10 \<notin> set (val n)" "0 \<notin> set (val n)" "length (val n) < 63" using val [of n] by (auto simp: LED_ON_def LED_OFF_def ascii_def)
  obtain w1 where w1: "write_int D junk (led_brightness_file n) (val n) w = Some (0, w1)" "lit w1 = (lit w)(n := val n)" "shown w1 = shown w"
    using write_int_ok [OF D _ Cons.prems(3) v(1) junk, of n] Cons.prems(1) by auto
  have "led_values lit w1" using Cons.prems(3) v w1(2) by (simp add: led_values_def)
  then obtain w' where w': "set_leds D junk val ns w1 = Some (True, w')" "lit w' = (\<lambda>k. if k \<in> set ns then val k else lit w1 k)" "shown w' = shown w1" "led_values lit w'"
    using Cons.IH [of w1] Cons.prems by auto
  show ?case
  proof (intro exI [of _ w'] conjI)
    show "lit w' = (\<lambda>k. if k \<in> set (n # ns) then val k else lit w k)" using w1(2) w'(2) Cons.prems(2) by (intro ext) auto
  qed (use w1 w' in simp_all)
qed simp

lemma all_leds: "set [1..<36 + 1] = {1..36 :: nat}" by auto

lemma led_sleep: "led_driver D lit shown \<Longrightarrow> led_values lit w \<Longrightarrow>
  lit (d_sleep D 1 w) = lit w \<and> shown (d_sleep D 1 w) = shown w @ [lit_leds (lit w)] \<and> led_values lit (d_sleep D 1 w)"
  by (simp add: led_driver_def led_values_def)

text \<open>The lights that shine in a phase.\<close>

definition led_picture :: "nat \<Rightarrow> nat set" where
  "led_picture c = {n \<in> {1..36}. n mod 3 = (if c mod 3 = 1 then 2 else if c mod 3 = 2 then 1 else 0)}"

lemma on_off: "LED_ON \<noteq> LED_OFF" by (simp add: LED_ON_def LED_OFF_def ascii_def)

lemma led_value_picture: "{n \<in> {1..36}. led_value c n = LED_ON} = led_picture c"
  unfolding led_picture_def led_value_def using on_off by auto

lemma led_colors_ok:
  assumes D: "led_driver D lit shown" and junk: "length junk = 128"
  shows "led_values lit w \<Longrightarrow> \<exists>w'. led_colors D junk cs w = Some (True, w') \<and> shown w' = shown w @ map led_picture cs \<and> led_values lit w'"
proof (induction cs arbitrary: w)
  case (Cons c cs)
  have "led_value c n \<in> {LED_ON, LED_OFF}" for n by (simp add: led_value_def)
  then have val: "\<And>n. led_value c n \<in> {LED_ON, LED_OFF}" .
  note ok = set_leds_ok [where val = "led_value c", OF D val junk, of "[1..<36 + 1]" w, unfolded all_leds]
  obtain w1 where w1: "set_leds D junk (led_value c) [1..<36 + 1] w = Some (True, w1)" "lit w1 = (\<lambda>n. if n \<in> {1..36} then led_value c n else lit w n)"
      "shown w1 = shown w" "led_values lit w1" using ok [OF _ _ Cons.prems] by auto
  have "lit_leds (lit w1) = led_picture c" unfolding lit_leds_def w1(2) led_value_picture [symmetric] by auto
  then have "shown (d_sleep D 1 w1) = shown w @ [led_picture c]" "led_values lit (d_sleep D 1 w1)" using led_sleep [OF D w1(4)] w1(3) by simp_all
  then show ?case using Cons.IH [of "d_sleep D 1 w1"] w1(1) by auto
qed simp

text \<open>The tests a person judges end with a failure or not at all.\<close>

lemma led_loop_fails:
  assumes "led_main_loop D junk t1 w = Some (e, w')"
  shows "e \<in> {LED_PROC_ERR, LED_TEST_TIMEOUT}"
proof -
  have "fst (e, w') \<in> {LED_PROC_ERR, LED_TEST_TIMEOUT}"
    by (rule led_main_loop.raw_induct [OF _ assms, of "\<lambda>D junk t1 w r. fst r \<in> {LED_PROC_ERR, LED_TEST_TIMEOUT}"])
      (auto simp: bind_eq_Some_conv Let_def split: if_splits prod.splits, blast)
  then show ?thesis by simp
qed

lemma audio_loop_fails:
  assumes "audio_loop D test t1 w = Some (e, w')"
  shows "e = AUDIO_EVENT_TIMEOUT"
proof -
  have "fst (e, w') = AUDIO_EVENT_TIMEOUT"
    by (rule audio_loop.raw_induct [OF _ assms, of "\<lambda>D test t1 w r. fst r = AUDIO_EVENT_TIMEOUT"])
      (auto simp: Let_def split: if_splits prod.splits)
  then show ?thesis by simp
qed

lemma manual_tests_fail:
  "led_main D junk w = Some (out, w') \<Longrightarrow> \<exists>e\<in>{LED_PROC_ERR, LED_TEST_TIMEOUT}. out = send_msg_to_server (ascii ''led_test'') RESULT_FAIL e"
  "audio_play_main D w = Some (out, w') \<Longrightarrow> out = send_msg_to_server (ascii ''audio_play_test'') RESULT_FAIL AUDIO_EVENT_TIMEOUT"
  "audio_main D w = Some (out, w') \<Longrightarrow> out = send_msg_to_server (ascii ''audio_test'') RESULT_FAIL AUDIO_EVENT_TIMEOUT"
  "audio_record_main D w = Some (out, w') \<Longrightarrow> out = send_msg_to_server (ascii ''audio_record_test'') RESULT_FAIL AUDIO_EVENT_TIMEOUT"
  by (auto simp: led_main_def audio_play_main_def audio_main_def audio_record_main_def bind_eq_Some_conv Let_def split: prod.splits
    dest!: led_loop_fails audio_loop_fails)

end
