(* ===== verification/CpuTest.thy ===== *)
theory CpuTest
  imports DeviceTests
begin

text \<open>
  The test item of the processors, \<^verbatim>\<open>pcb_test/echo_cpu_test.c\<close>: it collects the frequencies a processor offers in a list, sets one and
  reads it back. What \<^verbatim>\<open>printf\<close> shows besides the report is left out.
\<close>

subsection \<open>The list of frequencies\<close>

record cpu_freq =
  cf_freq :: int
  cf_next :: addr

text \<open>
  The cells; the addresses \<^verbatim>\<open>calloc\<close> will return; the number of frequencies of the four processors. The heads \<^verbatim>\<open>cpu_0\<close> to \<^verbatim>\<open>cpu_3\<close> are the cells 8 to 32.
\<close>

record cpu_state =
  cf_cells :: "addr \<Rightarrow> cpu_freq option"
  cf_plan :: "addr list"
  cpu_nums :: "nat \<Rightarrow> int"

definition cpu_head :: "nat \<Rightarrow> addr" where
  "cpu_head n = word_of_nat (8 * Suc n)"

definition zero_cell :: cpu_freq where "zero_cell = \<lparr>cf_freq = 0, cf_next = NULL\<rparr>"

definition cpu_calloc :: "cpu_state \<Rightarrow> addr \<times> cpu_state" where
  "cpu_calloc m =
     (case cf_plan m of [] \<Rightarrow> (NULL, m)
      | a # as \<Rightarrow> (a, m\<lparr>cf_plan := as, cf_cells := if a = NULL then cf_cells m else (cf_cells m)(a \<mapsto> zero_cell)\<rparr>))"

partial_function (option) last_cell :: "addr \<Rightarrow> cpu_state \<Rightarrow> addr option" where
  "last_cell p m = do { c \<leftarrow> cf_cells m p; if cf_next c \<noteq> NULL then last_cell (cf_next c) m else Some p }"

definition Insert_list :: "addr \<Rightarrow> addr \<Rightarrow> cpu_state \<Rightarrow> cpu_state option" where
  "Insert_list head item m = do {
     c \<leftarrow> cf_cells m item;
     let m = m\<lparr>cf_cells := (cf_cells m)(item \<mapsto> c\<lparr>cf_next := NULL\<rparr>)\<rparr>;
     if head = NULL then Some m
     else do {
       p \<leftarrow> last_cell head m;
       c1 \<leftarrow> cf_cells m p;
       if cf_freq c1 = 0
       then Some (m\<lparr>cf_cells := ((cf_cells m)(p \<mapsto> c1\<lparr>cf_freq := cf_freq c\<rparr>))(item := None)\<rparr>)
       else Some (m\<lparr>cf_cells := (cf_cells m)(p \<mapsto> c1\<lparr>cf_next := item\<rparr>)\<rparr>)
     }
   }"

subsection \<open>Reading the frequencies\<close>

definition cpu_freq_table_path :: "nat \<Rightarrow> u8 list" where
  "cpu_freq_table_path n = ascii ''/sys/devices/system/cpu/cpu'' @ fmt_d (int n) @ ascii ''/cpufreq/scaling_available_frequencies''"

definition cpu_freq_txt :: "nat \<Rightarrow> u8 list" where
  "cpu_freq_txt n = ascii ''/data/cfg/rk_pcba_test/cpu'' @ fmt_d (int n) @ ascii ''_freq_table.txt''"

text \<open>
  The loop over the stream: the array \<^verbatim>\<open>buf\<close> of 64 bytes keeps what it held when there is no word left. The first component is -1 when \<^verbatim>\<open>calloc\<close> fails.
\<close>

function table_loop :: "u8 list \<Rightarrow> bool \<Rightarrow> u8 list \<Rightarrow> addr \<Rightarrow> int \<Rightarrow> cpu_state \<Rightarrow> (int \<times> cpu_state) option" where
  "table_loop s e buf head freq_num m =
     (if e then Some (freq_num, m)
      else
        let (v, r, e) = scan_word s in do {
          buf \<leftarrow> (if v = [] then Some buf else bytes_put buf 0 (v @ [0]));
          let (new_freq, m) = cpu_calloc m;
          if new_freq = NULL then Some (-1, m)
          else do {
            str \<leftarrow> c_string buf;
            n \<leftarrow> atoi str;
            c \<leftarrow> cf_cells m new_freq;
            m \<leftarrow> Insert_list head new_freq (m\<lparr>cf_cells := (cf_cells m)(new_freq \<mapsto> c\<lparr>cf_freq := n\<rparr>)\<rparr>);
            table_loop r e buf head (freq_num + 1) m
          }
        })"
  by pat_completeness auto

termination
  by (relation "measure (\<lambda>(s, e, _). if e then 0 else Suc (length s))")
    (auto dest!: sym [of "(_, _)" "scan_word _"] scan_word_shorter split: if_splits)

declare table_loop.simps [simp del]

text \<open>
  The command that copies the table, then the file it made; \<open>junk\<close> is what \<^verbatim>\<open>buf\<close> holds before.
\<close>

definition get_cpu_freq_table ::
    "'w dev_ops \<Rightarrow> u8 list \<Rightarrow> nat \<Rightarrow> addr \<Rightarrow> cpu_state \<Rightarrow> 'w \<Rightarrow> (int \<times> cpu_state \<times> 'w) option" where
  "get_cpu_freq_table D junk cpu_num head m w =
     (let (r, w) = d_system D (ascii ''busybox cat '' @ cpu_freq_table_path cpu_num @ ascii '' > '' @ cpu_freq_txt cpu_num) w in
      if r < 0 then Some (-1, m, w)
      else (case d_fopen D (cpu_freq_txt cpu_num) w of None \<Rightarrow> Some (-1, m, w)
        | Some s \<Rightarrow> do {
            (freq_num, m) \<leftarrow> table_loop s False junk head 0 m;
            Some (freq_num, m, if freq_num < 0 then w else d_remove D (cpu_freq_txt cpu_num) w)
          }))"

subsection \<open>Setting a frequency\<close>

text \<open>
  The command is formatted into the array that holds its format, which C leaves undefined; the model follows what it is meant to give.
\<close>

definition get_curl_freq :: "'w dev_ops \<Rightarrow> nat \<Rightarrow> 'w \<Rightarrow> (int \<times> 'w) option" where
  "get_curl_freq D cpu_num w =
     (case d_popen D (ascii ''busybox cat /sys/devices/system/cpu/cpu'' @ fmt_d (int cpu_num) @ ascii ''/cpufreq/scaling_cur_freq'') w of
        (None, w) \<Rightarrow> Some (-1, w)
      | (Some out, w) \<Rightarrow> if out = [] then Some (-1, w) else do { n \<leftarrow> atoi (up_to_nul (fst (fgets 63 out))); Some (n, w) })"

primrec set_modes :: "'w dev_ops \<Rightarrow> u8 list \<Rightarrow> cpu_state \<Rightarrow> nat list \<Rightarrow> 'w \<Rightarrow> 'w" where
  "set_modes D mode m [] w = w"
| "set_modes D mode m (n # ns) w = set_modes D mode m ns
     (if cpu_nums m n > 0
      then snd (d_system D (ascii ''echo '' @ mode @ ascii '' > /sys/devices/system/cpu/cpu'' @ fmt_d (int n) @ ascii ''/cpufreq/scaling_governor'') w) else w)"

definition cpu_set_mode :: "'w dev_ops \<Rightarrow> u8 list \<Rightarrow> cpu_state \<Rightarrow> 'w \<Rightarrow> int \<times> 'w" where
  "cpu_set_mode D mode m w = (0, set_modes D mode m [0, 1, 2, 3] w)"

text \<open>The walk stays at the last cell until the count is used up.\<close>

function find_freq :: "cpu_state \<Rightarrow> addr \<Rightarrow> int \<Rightarrow> addr option" where
  "find_freq m p freq_num =
     (if p = NULL then Some p
      else if freq_num - 1 \<le> 0 then Some p
      else do { c \<leftarrow> cf_cells m p; find_freq m (if cf_next c \<noteq> NULL then cf_next c else p) (freq_num - 1) })"
  by pat_completeness auto

termination
  by (relation "measure (\<lambda>(_, _, n). nat n)") auto

declare find_freq.simps [simp del]

definition set_curl_freq :: "'w dev_ops \<Rightarrow> nat \<Rightarrow> int \<Rightarrow> cpu_state \<Rightarrow> 'w \<Rightarrow> (int \<times> 'w) option" where
  "set_curl_freq D cpu_num freq_num m w = do {
     head \<leftarrow> (if cpu_num < 4 then Some (cpu_head cpu_num) else None);
     p \<leftarrow> find_freq m head freq_num;
     c \<leftarrow> cf_cells m p;
     Some (cf_freq c, snd (d_system D (ascii ''echo '' @ fmt_d (cf_freq c) @ ascii '' > /sys/devices/system/cpu/cpu'' @ fmt_d (int cpu_num) @
       ascii ''/cpufreq/scaling_setspeed'') w))
   }"

subsection \<open>The program\<close>

abbreviation (input) CPU_PROC_ERR :: int where "CPU_PROC_ERR \<equiv> -55"

text \<open>\<open>rnd\<close> is what \<^verbatim>\<open>rand\<close> returns.\<close>

definition cpu_test ::
    "'w dev_ops \<Rightarrow> u8 list \<Rightarrow> int \<Rightarrow> cpu_state \<Rightarrow> 'w \<Rightarrow> (int \<times> cpu_state \<times> 'w) option" where
  "cpu_test D junk rnd m w = do {
     (n0, m, w) \<leftarrow> get_cpu_freq_table D junk 0 (cpu_head 0) m w;
     let m = m\<lparr>cpu_nums := (cpu_nums m)(0 := n0)\<rparr>;
     (n1, m, w) \<leftarrow> get_cpu_freq_table D junk 1 (cpu_head 1) m w;
     let m = m\<lparr>cpu_nums := (cpu_nums m)(1 := n1)\<rparr>;
     if \<exists>n\<in>{0, 1, 2, 3}. cpu_nums m n = -1 then Some (-1, m, w)
     else do {
       (f0, w) \<leftarrow> get_curl_freq D 0 w;
       (f1, w) \<leftarrow> get_curl_freq D 1 w;
       if f0 = -1 \<or> f1 = -1 then Some (-1, m, w)
       else do {
         let (test_flag, w) = cpu_set_mode D (ascii ''userspace'') m w;
         freq_num \<leftarrow> (if cpu_nums m 0 = 0 then None else Some (rnd smod cpu_nums m 0));
         (freq_set, w) \<leftarrow> set_curl_freq D 0 freq_num m w;
         (freq_get, w) \<leftarrow> get_curl_freq D 0 w;
         Some (if freq_set = freq_get then test_flag else -1, m, w)
       }
     }
   }"

text \<open>The globals at the start: four heads with frequency 0.\<close>

definition cpu_start :: "addr list \<Rightarrow> cpu_state" where
  "cpu_start plan =
     \<lparr>cf_cells = [cpu_head 0 \<mapsto> zero_cell, cpu_head 1 \<mapsto> zero_cell, cpu_head 2 \<mapsto> zero_cell, cpu_head 3 \<mapsto> zero_cell],
      cf_plan = plan, cpu_nums = (\<lambda>_. 0)\<rparr>"

definition cpu_main ::
    "'w dev_ops \<Rightarrow> u8 list \<Rightarrow> int \<Rightarrow> addr list \<Rightarrow> 'w \<Rightarrow> (u8 list \<times> 'w) option" where
  "cpu_main D junk rnd plan w = do {
     (test_flag, m, w) \<leftarrow> cpu_test D junk rnd (cpu_start plan) w;
     let (result, err_code) = (if test_flag < 0 then (RESULT_FAIL, CPU_PROC_ERR) else (RESULT_PASS, 0));
     Some (send_msg_to_server (ascii ''cpu_test'') result err_code, w)
   }"

end
