(* ===== verification/CpuSpec.thy ===== *)
theory CpuSpec
  imports CpuTest ItemSpec
begin

text \<open>
  The list of the frequencies of a processor: adding a cell behind the last one, reading the table, and the walk to a frequency.
\<close>

declare dec_digits.simps [simp del]

subsection \<open>The list of frequencies\<close>

text \<open>\<open>cf_list h ns\<close>: the cells form the list of the pairs of address and frequency.\<close>

fun cf_list :: "(addr \<Rightarrow> cpu_freq option) \<Rightarrow> (addr \<times> int) list \<Rightarrow> bool" where
  "cf_list h [] \<longleftrightarrow> True"
| "cf_list h ((a, n) # ns) \<longleftrightarrow> a \<noteq> NULL \<and> h a = Some \<lparr>cf_freq = n, cf_next = (case ns of [] \<Rightarrow> NULL | (b, _) # _ \<Rightarrow> b)\<rparr> \<and> cf_list h ns"

lemma cf_list_cong: "(\<And>a. a \<in> fst ` set ns \<Longrightarrow> h a = h' a) \<Longrightarrow> cf_list h ns = cf_list h' ns"
  by (induction h ns rule: cf_list.induct) auto

lemma last_cell_ok: "cf_list (cf_cells m) ns \<Longrightarrow> ns \<noteq> [] \<Longrightarrow> last_cell (fst (hd ns)) m = Some (fst (last ns))"
proof (induction "cf_cells m" ns rule: cf_list.induct)
  case (2 a n ns)
  show ?case
  proof (cases ns)
    case Nil
    then show ?thesis using 2(2) by (subst last_cell.simps) simp
  next
    case (Cons p qs)
    then have "fst p \<noteq> NULL" using 2(2) by (cases p) auto
    then show ?thesis using 2 Cons by (cases p) (subst last_cell.simps, auto)
  qed
qed simp

lemma cf_list_append:
  "cf_list h (ns @ ms) \<longleftrightarrow> (\<forall>i<length ns. fst (ns ! i) \<noteq> NULL \<and>
     h (fst (ns ! i)) = Some \<lparr>cf_freq = snd (ns ! i), cf_next = (case (drop (Suc i) ns @ ms) of [] \<Rightarrow> NULL | (b, _) # _ \<Rightarrow> b)\<rparr>) \<and> cf_list h ms"
proof (induction ns)
  case (Cons p ns)
  then show ?case by (cases p) (auto simp: All_less_Suc2)
qed simp

text \<open>A cell behind the last one, when that has a frequency.\<close>

lemma insert_behind:
  assumes l: "cf_list (cf_cells m) ns" "ns \<noteq> []" "distinct (map fst ns)" "snd (last ns) \<noteq> 0"
    and item: "cf_cells m a = Some \<lparr>cf_freq = n, cf_next = x\<rparr>" "a \<noteq> NULL" "a \<notin> fst ` set ns"
  shows "\<exists>m'. Insert_list (fst (hd ns)) a m = Some m' \<and> cf_list (cf_cells m') (ns @ [(a, n)]) \<and> cf_plan m' = cf_plan m \<and> cpu_nums m' = cpu_nums m \<and>
    (\<forall>b. b \<notin> fst ` set ns \<and> b \<noteq> a \<longrightarrow> cf_cells m' b = cf_cells m b)"
proof -
  obtain qs p k where q: "ns = qs @ [(p, k)]" using l(2) by (cases ns rule: rev_cases) auto
  let ?m = "m\<lparr>cf_cells := (cf_cells m)(a \<mapsto> \<lparr>cf_freq = n, cf_next = NULL\<rparr>)\<rparr>"
  have "cf_list (cf_cells m) ns = cf_list (cf_cells ?m) ns" by (rule cf_list_cong) (use item(3) in auto)
  then have l1: "cf_list (cf_cells ?m) ns" using l(1) by blast
  have p: "cf_cells ?m p = Some \<lparr>cf_freq = k, cf_next = NULL\<rparr>" "p \<noteq> NULL" "p \<noteq> a" "k \<noteq> 0"
    using l1 l(4) item(3) by (auto simp: q cf_list_append)
  have h: "fst (hd ns) \<noteq> NULL" using l1 l(2) by (cases ns) auto
  have lc: "last_cell (fst (hd ns)) ?m = Some p" using last_cell_ok [OF l1 l(2)] by (simp add: q)
  let ?h = "(cf_cells ?m)(p \<mapsto> \<lparr>cf_freq = k, cf_next = a\<rparr>)"
  have "Insert_list (fst (hd ns)) a m = Some (?m\<lparr>cf_cells := ?h\<rparr>)"
    using item(1) h lc p by (simp add: Insert_list_def)
  moreover have "cf_list ?h (ns @ [(a, n)])"
  proof -
    have "qs ! i \<in> set qs" if "i < length qs" for i using that by simp
    then have ne: "fst (qs ! i) \<noteq> p" "fst (qs ! i) \<noteq> a" if "i < length qs" for i
      using that l(3) item(3) unfolding q by (auto dest: nth_mem)
    have "(case drop (Suc i) qs @ [(p, k), (a, n)] of [] \<Rightarrow> NULL | (b, _) # _ \<Rightarrow> b) = (case drop (Suc i) qs @ [(p, k)] of [] \<Rightarrow> NULL | (b, _) # _ \<Rightarrow> b)" for i
      by (cases "drop (Suc i) qs") auto
    then show ?thesis using l1 ne p(2,3) item(2) by (simp add: q cf_list_append)
  qed
  ultimately show ?thesis using q by auto
qed

text \<open>The first frequency goes into the head, and its cell is given back.\<close>

lemma insert_first:
  assumes "cf_cells m h = Some \<lparr>cf_freq = 0, cf_next = NULL\<rparr>" "h \<noteq> NULL" "cf_cells m a = Some \<lparr>cf_freq = n, cf_next = x\<rparr>" "a \<noteq> h"
  shows "\<exists>m'. Insert_list h a m = Some m' \<and> cf_list (cf_cells m') [(h, n)] \<and> cf_plan m' = cf_plan m \<and> cpu_nums m' = cpu_nums m \<and>
    (\<forall>b. b \<noteq> h \<and> b \<noteq> a \<longrightarrow> cf_cells m' b = cf_cells m b)"
proof -
  let ?m = "m\<lparr>cf_cells := (cf_cells m)(a \<mapsto> \<lparr>cf_freq = n, cf_next = NULL\<rparr>)\<rparr>"
  have "last_cell h ?m = Some h" using assms by (subst last_cell.simps) simp
  then show ?thesis using assms by (simp add: Insert_list_def)
qed

subsection \<open>Reading the table\<close>

text \<open>The words of the file: numbers with a blank behind each, and a newline.\<close>

definition freq_text :: "nat list \<Rightarrow> u8 list" where
  "freq_text fs = concat (map (\<lambda>f. dec_digits f @ [32]) fs) @ [10]"

lemma digits_word: "\<forall>c\<in>set (dec_digits n). \<not> is_space c"
proof -
  have "\<not> is_space c" if "is_digit c" for c using that by (auto simp: is_space_def word_le_nat_alt)
  then show ?thesis using dec_digits_ok [of n] by blast
qed

lemma scan_word_number: "sep \<in> {[], [32]} \<Longrightarrow> scan_word (sep @ dec_digits n @ 32 # r) = (dec_digits n, 32 # r, False)"
proof -
  assume sep: "sep \<in> {[], [32]}"
  obtain d ds where d: "dec_digits n = d # ds" using dec_digits_ok [of n] by (cases "dec_digits n") auto
  have sp: "is_space 32" "\<not> is_space d" using digits_word [of n] d by (auto simp: is_space_def)
  have "dropWhile is_space (sep @ dec_digits n @ 32 # r) = dec_digits n @ 32 # r" using sep sp d by auto
  moreover have "takeWhile (\<lambda>c. \<not> is_space c) (dec_digits n @ 32 # r) = dec_digits n" using digits_word [of n] sp(1) by (simp add: takeWhile_append)
  moreover have "dropWhile (\<lambda>c. \<not> is_space c) (dec_digits n @ 32 # r) = 32 # r" using digits_word [of n] sp(1) by (simp add: dropWhile_append)
  ultimately show ?thesis using sp(1) by (simp add: scan_word_def)
qed

lemma scan_word_end: "scan_word [32, 10] = ([], [], True)"
  by (simp add: scan_word_def is_space_def)

text \<open>One turn of the loop with a cell to come.\<close>

definition holds_word :: "u8 list \<Rightarrow> nat \<Rightarrow> bool" where
  "holds_word buf n \<longleftrightarrow> (\<exists>r. buf = dec_digits n @ 0 # r)"

lemma holds_word_atoi: "holds_word buf n \<Longrightarrow> n < 2 ^ 31 \<Longrightarrow> c_string buf = Some (dec_digits n) \<and> atoi (dec_digits n) = Some (int n)"
proof -
  assume "holds_word buf n" "n < 2 ^ 31"
  moreover have "\<not> is_digit 0" by simp
  then have "0 \<notin> set (dec_digits n)" using dec_digits_ok [of n] by blast
  ultimately show ?thesis using atoi_digits [of "[]" n] by (auto simp: holds_word_def c_string_append)
qed

lemma put_word:
  assumes "length buf = 64" "n < 2 ^ 31"
  shows "\<exists>buf'. bytes_put buf 0 (dec_digits n @ [0]) = Some buf' \<and> length buf' = 64 \<and> holds_word buf' n"
proof -
  have "length (dec_digits n) \<le> Suc 9" by (rule dec_digits_length) (use assms(2) in simp)
  then show ?thesis using assms(1) by (auto simp: bytes_put_def holds_word_def)
qed


definition cpu_ready :: "cpu_state \<Rightarrow> (addr \<times> int) list \<Rightarrow> bool" where
  "cpu_ready m ns \<longleftrightarrow> cf_list (cf_cells m) ns \<and> ns \<noteq> [] \<and> distinct (map fst ns @ cf_plan m) \<and> NULL \<notin> set (cf_plan m) \<and> snd (last ns) \<noteq> 0"

lemma table_step:
  assumes m: "cpu_ready m ns" "cf_plan m = a # as" and s: "scan_word s = (v, r, e)" and n: "0 < n" "n < 2 ^ 31"
    and buf: "(if v = [] then Some buf else bytes_put buf 0 (v @ [0])) = Some buf'" "holds_word buf' n"
  shows "\<exists>m'. table_loop s False buf (fst (hd ns)) k m = table_loop r e buf' (fst (hd ns)) (k + 1) m' \<and> cpu_ready m' (ns @ [(a, int n)]) \<and>
    cf_plan m' = as \<and> cpu_nums m' = cpu_nums m \<and> (\<forall>b. b \<notin> fst ` set ns \<and> b \<noteq> a \<longrightarrow> cf_cells m' b = cf_cells m b)"
proof -
  have a: "a \<noteq> NULL" "a \<notin> fst ` set ns" "distinct (map fst ns)" "cf_list (cf_cells m) ns" "ns \<noteq> []" "snd (last ns) \<noteq> 0"
    using m by (auto simp: cpu_ready_def)
  let ?m = "m\<lparr>cf_plan := as, cf_cells := (cf_cells m)(a \<mapsto> \<lparr>cf_freq = int n, cf_next = NULL\<rparr>)\<rparr>"
  have "cf_list (cf_cells m) ns = cf_list (cf_cells ?m) ns" by (rule cf_list_cong) (use a(2) in auto)
  then have l: "cf_list (cf_cells ?m) ns" using a(4) by blast
  obtain m' where m': "Insert_list (fst (hd ns)) a ?m = Some m'" "cf_list (cf_cells m') (ns @ [(a, int n)])" "cf_plan m' = as" "cpu_nums m' = cpu_nums m"
      "\<forall>b. b \<notin> fst ` set ns \<and> b \<noteq> a \<longrightarrow> cf_cells m' b = cf_cells m b"
    using insert_behind [OF l a(5,3,6) _ a(1,2), of "int n" NULL] by auto
  have "table_loop s False buf (fst (hd ns)) k m = table_loop r e buf' (fst (hd ns)) (k + 1) m'"
    using s m(2) buf(1) holds_word_atoi [OF buf(2) n(2)] a(1) m'(1) by (subst table_loop.simps) (simp add: cpu_calloc_def zero_cell_def)
  moreover have "cpu_ready m' (ns @ [(a, int n)])" using m m'(2,3) n(1) by (auto simp: cpu_ready_def)
  ultimately show ?thesis using m'(3-5) by blast
qed

lemma table_rest:
  "cpu_ready m ns \<Longrightarrow> cf_plan m = as @ bs \<Longrightarrow> length as = Suc (length fs) \<Longrightarrow> holds_word buf f0 \<Longrightarrow> length buf = 64 \<Longrightarrow> \<forall>f\<in>set (f0 # fs). 0 < f \<and> f < 2 ^ 31 \<Longrightarrow>
   \<exists>m'. table_loop (32 # freq_text fs) False buf (fst (hd ns)) k m = Some (k + int (Suc (length fs)), m') \<and>
     cpu_ready m' (ns @ zip as (map int (fs @ [last (f0 # fs)]))) \<and> cf_plan m' = bs \<and> cpu_nums m' = cpu_nums m \<and>
     (\<forall>b. b \<notin> fst ` set ns \<and> b \<notin> set as \<longrightarrow> cf_cells m' b = cf_cells m b)"
proof (induction fs arbitrary: m ns as buf f0 k)
  case Nil
  then obtain a where a: "as = [a]" by (cases as) auto
  have p: "cf_plan m = a # bs" using Nil.prems(2) a by simp
  have f0: "0 < f0" "f0 < 2 ^ 31" using Nil.prems(6) by simp_all
  have s: "scan_word (32 # freq_text []) = ([], [], True)" by (simp add: freq_text_def scan_word_end)
  from table_step [OF Nil.prems(1) p s f0, of buf buf k] Nil.prems(4)
  obtain m' where m': "table_loop (32 # freq_text []) False buf (fst (hd ns)) k m = table_loop [] True buf (fst (hd ns)) (k + 1) m'"
    "cpu_ready m' (ns @ [(a, int f0)])" "cf_plan m' = bs" "cpu_nums m' = cpu_nums m" "\<forall>b. b \<notin> fst ` set ns \<and> b \<noteq> a \<longrightarrow> cf_cells m' b = cf_cells m b" by auto
  then show ?case by (auto simp: a table_loop.simps [of "[]" True])
next
  case (Cons f fs)
  then obtain a as' where a: "as = a # as'" "length as' = Suc (length fs)" by (cases as) auto
  have p: "cf_plan m = a # (as' @ bs)" using Cons.prems(2) a(1) by simp
  have f: "0 < f" "f < 2 ^ 31" using Cons.prems(6) by simp_all
  have s: "scan_word (32 # freq_text (f # fs)) = (dec_digits f, 32 # freq_text fs, False)"
    using scan_word_number [of "[32]" f "freq_text fs"] by (simp add: freq_text_def)
  obtain buf' where buf': "bytes_put buf 0 (dec_digits f @ [0]) = Some buf'" "length buf' = 64" "holds_word buf' f" using put_word [OF Cons.prems(5) f(2)] by blast
  have "dec_digits f \<noteq> []" using dec_digits_ok [of f] by blast
  then have b: "(if dec_digits f = [] then Some buf else bytes_put buf 0 (dec_digits f @ [0])) = Some buf'" using buf'(1) by simp
  obtain m1 where m1: "table_loop (32 # freq_text (f # fs)) False buf (fst (hd ns)) k m = table_loop (32 # freq_text fs) False buf' (fst (hd ns)) (k + 1) m1"
    "cpu_ready m1 (ns @ [(a, int f)])" "cf_plan m1 = as' @ bs" "cpu_nums m1 = cpu_nums m" "\<forall>b. b \<notin> fst ` set ns \<and> b \<noteq> a \<longrightarrow> cf_cells m1 b = cf_cells m b"
    using table_step [OF Cons.prems(1) p s f b buf'(3), of k] by blast
  have hd: "hd (ns @ [(a, int f)]) = hd ns" using Cons.prems(1) by (simp add: cpu_ready_def)
  have "\<forall>g\<in>set (f # fs). 0 < g \<and> g < 2 ^ 31" using Cons.prems(6) by simp
  from Cons.IH [OF m1(2,3) a(2) buf'(3,2) this, of "k + 1"]
  obtain m' where m': "table_loop (32 # freq_text fs) False buf' (fst (hd ns)) (k + 1) m1 = Some (k + 1 + int (Suc (length fs)), m')"
    "cpu_ready m' ((ns @ [(a, int f)]) @ zip as' (map int (fs @ [last (f # fs)])))" "cf_plan m' = bs" "cpu_nums m' = cpu_nums m1"
    "\<forall>b. b \<notin> fst ` set (ns @ [(a, int f)]) \<and> b \<notin> set as' \<longrightarrow> cf_cells m' b = cf_cells m1 b" unfolding hd by blast
  show ?case
  proof (intro exI [of _ m'] conjI)
    show "cpu_ready m' (ns @ zip as (map int ((f # fs) @ [last (f0 # f # fs)])))" using m'(2) by (simp add: a(1))
  qed (use m1 m' a in auto)
qed

text \<open>The whole table, into a head with frequency 0.\<close>

lemma table_ok:
  assumes m: "cf_cells m h = Some zero_cell" "h \<noteq> NULL" "cf_plan m = a # as @ bs" "distinct (h # cf_plan m)" "NULL \<notin> set (cf_plan m)"
    and fs: "length as = length fs" "fs \<noteq> []" "\<forall>f\<in>set fs. 0 < f \<and> f < 2 ^ 31" and buf: "length buf = 64"
  shows "\<exists>m'. table_loop (freq_text fs) False buf h 0 m = Some (int (Suc (length fs)), m') \<and>
    cpu_ready m' (zip (h # as) (map int (fs @ [last fs]))) \<and> cf_plan m' = bs \<and> cpu_nums m' = cpu_nums m \<and>
    (\<forall>b. b \<notin> set (h # a # as) \<longrightarrow> cf_cells m' b = cf_cells m b)"
proof -
  obtain f gs where f: "fs = f # gs" using fs(2) by (cases fs) auto
  have fr: "0 < f" "f < 2 ^ 31" using fs(3) f by simp_all
  obtain buf' where buf': "bytes_put buf 0 (dec_digits f @ [0]) = Some buf'" "length buf' = 64" "holds_word buf' f" using put_word [OF buf fr(2)] by blast
  have d: "dec_digits f \<noteq> []" using dec_digits_ok [of f] by blast
  have s: "scan_word (freq_text (f # gs)) = (dec_digits f, 32 # freq_text gs, False)" using scan_word_number [of "[]" f "freq_text gs"] by (simp add: freq_text_def)
  let ?m = "m\<lparr>cf_plan := as @ bs, cf_cells := (cf_cells m)(a \<mapsto> \<lparr>cf_freq = int f, cf_next = NULL\<rparr>)\<rparr>"
  have a: "a \<noteq> h" "a \<noteq> NULL" using m by auto
  have "cf_cells ?m h = Some \<lparr>cf_freq = 0, cf_next = NULL\<rparr>" using m(1) a by (simp add: zero_cell_def)
  from insert_first [OF this m(2) _ a(1), of "int f" NULL]
  obtain m1 where m1: "Insert_list h a ?m = Some m1" "cf_list (cf_cells m1) [(h, int f)]" "cf_plan m1 = as @ bs" "cpu_nums m1 = cpu_nums m"
    "\<forall>b. b \<noteq> h \<and> b \<noteq> a \<longrightarrow> cf_cells m1 b = cf_cells m b" by auto
  have t: "table_loop (freq_text fs) False buf h 0 m = table_loop (32 # freq_text gs) False buf' h 1 m1"
    using s m(3) d buf'(1) holds_word_atoi [OF buf'(3) fr(2)] a(2) m1(1) unfolding f by (subst table_loop.simps) (simp add: cpu_calloc_def zero_cell_def)
  have r: "cpu_ready m1 [(h, int f)]" using m1(2,3) m(2-5) fr by (auto simp: cpu_ready_def)
  have "\<forall>g\<in>set (f # gs). 0 < g \<and> g < 2 ^ 31" "length as = Suc (length gs)" using fs(1,3) f by simp_all
  from table_rest [OF r m1(3) this(2) buf'(3,2) this(1), of 1]
  obtain m' where "table_loop (32 # freq_text gs) False buf' h 1 m1 = Some (1 + int (Suc (length gs)), m')"
    "cpu_ready m' ([(h, int f)] @ zip as (map int (gs @ [last (f # gs)])))" "cf_plan m' = bs" "cpu_nums m' = cpu_nums m1"
    "\<forall>b. b \<notin> fst ` set [(h, int f)] \<and> b \<notin> set as \<longrightarrow> cf_cells m' b = cf_cells m1 b" by auto
  then show ?thesis using t m1(4,5) f by auto
qed

text \<open>The walk to a frequency.\<close>

lemma find_freq_ok:
  "cf_list (cf_cells m) ns \<Longrightarrow> ns \<noteq> [] \<Longrightarrow> find_freq m (fst (hd ns)) (int k) = Some (fst (ns ! min (k - 1) (length ns - 1)))"
proof (induction k arbitrary: ns)
  case 0
  then show ?case by (cases ns) (auto simp: find_freq.simps)
next
  case (Suc k)
  obtain a n ms where ns: "ns = (a, n) # ms" using Suc.prems(2) by (cases ns) auto
  then have a: "a \<noteq> NULL" "cf_cells m a = Some \<lparr>cf_freq = n, cf_next = (case ms of [] \<Rightarrow> NULL | (b, _) # _ \<Rightarrow> b)\<rparr>" "cf_list (cf_cells m) ms"
    using Suc.prems(1) by auto
  show ?case
  proof (cases "k = 0")
    case True
    then show ?thesis using a by (subst find_freq.simps) (simp add: ns)
  next
    case False
    show ?thesis
    proof (cases ms)
      case Nil
      then show ?thesis using Suc.IH [OF Suc.prems] a False by (subst find_freq.simps) (simp add: ns)
    next
      case (Cons q qs)
      then have "fst q \<noteq> NULL" using a(3) by (cases q) auto
      moreover have "(ms ! min (k - 1) (length ms - 1)) = (ns ! min (Suc k - 1) (length ns - 1))" using Cons False by (cases k) (auto simp: ns min_def)
      ultimately show ?thesis using Suc.IH [OF a(3)] Cons a False by (subst find_freq.simps) (simp add: ns split: prod.splits)
    qed
  qed
qed

end
