(* ===== verification/WlanTest.thy ===== *)
theory WlanTest
  imports DeviceTests
begin

text \<open>
  The test item of the wireless network, \<^verbatim>\<open>pcb_test/echo_wlan_test.c\<close>: it scans for networks and starts an access point. What \<^verbatim>\<open>printf\<close>
  shows besides the report is left out.
\<close>

subsection \<open>Scanning\<close>

abbreviation (input) WLAN_PROC_ERR :: int where "WLAN_PROC_ERR \<equiv> -45"

text \<open>Here the array \<^verbatim>\<open>pid_buf\<close> is zero before.\<close>

definition close_wpa_supplicant :: "'w dev_ops \<Rightarrow> 'w \<Rightarrow> (int \<times> 'w) option" where
  "close_wpa_supplicant D w =
     (case d_popen D (ascii ''ps |grep wpa_supplicant|awk '' @ [39] @ ascii ''NR==1 {print $1}'' @ [39]) w of (None, w) \<Rightarrow> Some (-1, w)
      | (Some out, w) \<Rightarrow> do {
          pid \<leftarrow> atoi (up_to_nul (fst (fgets 63 out)));
          Some (0, snd (d_system D (ascii ''kill -9 '' @ fmt_d pid) w))
        })"

definition calc_rssi_lvl :: "int \<Rightarrow> int" where
  "calc_rssi_lvl rssi = (if rssi \<ge> -55 then 4 else if rssi \<ge> -66 then 3 else if rssi \<ge> -77 then 2 else if rssi \<ge> -88 then 1 else 0)"

text \<open>\<^verbatim>\<open>fscanf\<close> with \<^verbatim>\<open>%d\<close>: the number if there is one, the rest of the stream, and whether its end has been met. A sign without a digit is taken.\<close>

definition scan_number :: "u8 list \<Rightarrow> (int option \<times> u8 list \<times> bool) option" where
  "scan_number s =
     (let s = dropWhile is_space s;
          (neg, t) = (case s of [] \<Rightarrow> (False, s) | c # cs \<Rightarrow> if c = 45 then (True, cs) else if c = 43 then (False, cs) else (False, s));
          r = dropWhile is_digit t in
      if takeWhile is_digit t = [] then Some (None, t, t = [])
      else do { n \<leftarrow> c_int (if neg then - int (scan_nat t 0) else int (scan_nat t 0)); Some (Some n, r, r = []) })"

lemma scan_number_shorter:
  assumes "scan_number s = Some (n, r, e)"
  shows "length r \<le> length s"
proof -
  define u where "u = dropWhile is_space s"
  define p where "p = (case u of [] \<Rightarrow> (False, u) | c # cs \<Rightarrow> if c = 45 then (True, cs) else if c = 43 then (False, cs) else (False, u))"
  have "length (snd p) \<le> length u" by (cases u) (simp_all add: p_def)
  moreover have "length u \<le> length s" unfolding u_def by (rule length_dropWhile_le)
  moreover have "r = snd p \<or> r = dropWhile is_digit (snd p)"
    using assms unfolding scan_number_def u_def [symmetric] Let_def p_def [symmetric]
    by (cases p) (auto simp: bind_eq_Some_conv split: if_splits)
  moreover have "length (dropWhile is_digit (snd p)) \<le> length (snd p)" by (rule length_dropWhile_le)
  ultimately show ?thesis by auto
qed

text \<open>
  The loop over the networks; the arrays and the level keep what they held when nothing matches. A name has to fit into 128 bytes.
\<close>

function wlan_loop :: "u8 list \<Rightarrow> bool \<Rightarrow> int \<Rightarrow> int option" where
  "wlan_loop s e signal_level =
     (if e then Some 0
      else
        let (v, r, e) = scan_word s in
        if length v \<ge> 128 then None
        else do {
          (n, r2, e2) \<leftarrow> (if e then Some (None, r, True) else scan_number r);
          let signal_level = (case n of None \<Rightarrow> signal_level | Some n \<Rightarrow> n);
          if signal_level < -200 \<or> signal_level \<ge> 0 then Some (-1) else wlan_loop r2 (e \<or> e2) signal_level
        })"
  by pat_completeness auto

termination
proof (relation "measure (\<lambda>(s, e, _). if e then 0 else Suc (length s))", goal_cases)
  case (2 s e lev x v y r e1 q n z r2 e2 lev2)
  then show ?case
    by (cases e1) (auto dest!: sym [of "(_, _)" "scan_word _"] scan_word_shorter scan_number_shorter)
qed simp

declare wlan_loop.simps [simp del]

text \<open>\<open>junk\<close> is what \<^verbatim>\<open>signal_level\<close> holds before.\<close>

definition wlan_exec :: "'w dev_ops \<Rightarrow> int \<Rightarrow> u8 list \<Rightarrow> 'w \<Rightarrow> (int \<times> 'w) option" where
  "wlan_exec D junk cmd w =
     (case d_popen D cmd w of (None, w) \<Rightarrow> Some (-1, w) | (Some out, w) \<Rightarrow> do { r \<leftarrow> wlan_loop out False junk; Some (r, w) })"

subsection \<open>The access point\<close>

definition AP_SUPPORT_FILE :: "u8 list" where "AP_SUPPORT_FILE = ascii ''/tmp/wlan_ap_result.txt''"
definition MSG_FILE :: "u8 list" where "MSG_FILE = ascii ''/tmp/softap_start_msg.txt''"

text \<open>\<^verbatim>\<open>fgets\<close> into 128 bytes that hold \<open>buf\<close>, with whether the end of the stream has been met.\<close>

definition fgets_buf :: "u8 list \<Rightarrow> u8 list \<Rightarrow> u8 list \<times> u8 list \<times> bool" where
  "fgets_buf buf s =
     (let (l, r) = fgets 127 s in (if s = [] then buf else l @ 0 # drop (Suc (length l)) buf, r, r = [] \<and> length l < 127 \<and> (l = [] \<or> last l \<noteq> 10)))"

function ap_loop :: "u8 list \<Rightarrow> bool \<Rightarrow> u8 list \<Rightarrow> bool option" where
  "ap_loop s e buf =
     (if e then Some False
      else
        let (buf, r, e) = fgets_buf buf s in do {
          str \<leftarrow> c_string buf;
          if strstr str (ascii ''Broadcast SSID: ON'') then Some True else ap_loop r e buf
        })"
  by pat_completeness auto

termination
proof (relation "measure (\<lambda>(s, e, _). if e then 0 else Suc (length s))", goal_cases)
  case (2 s e buf x buf2 y r e2 str)
  obtain l where f: "fgets 127 s = (l, r)" using 2 by (auto simp: fgets_buf_def split: prod.splits)
  from fgets_split [OF f] have "length r < length s \<or> s = [] \<and> l = [] \<and> r = []" by (cases l) auto
  then show ?case using 2 f by (auto simp: fgets_buf_def)
qed simp

declare ap_loop.simps [simp del]

definition wlan_test_ap :: "'w dev_ops \<Rightarrow> u8 list \<Rightarrow> 'w \<Rightarrow> (int \<times> 'w) option" where
  "wlan_test_ap D buf w =
     (let (_, w) = d_system D (ascii ''iw list | busybox grep AP > '' @ AP_SUPPORT_FILE) w in
      case d_fopen D AP_SUPPORT_FILE w of None \<Rightarrow> Some (-1, w)
      | Some s \<Rightarrow>
          let (buf, _, _) = fgets_buf buf s; w = d_remove D AP_SUPPORT_FILE w in do {
            str \<leftarrow> c_string buf;
            if \<not> strstr str (ascii ''AP'') then Some (-1, w)
            else
              let (_, w) = d_system D (ascii ''softapDemo wlan_ap_test'') w;
                  (_, w) = d_system D (ascii ''dmesg |tail -n 6|grep SSID > '' @ MSG_FILE) w in
              case d_fopen D MSG_FILE w of None \<Rightarrow> Some (-1, w)
              | Some s \<Rightarrow> do {
                  ok \<leftarrow> ap_loop s False buf;
                  let w = d_remove D MSG_FILE w;
                  Some (if ok then 0 else -1, snd (d_system D (ascii ''softapDemo stop'') w))
                }
          })"

subsection \<open>The program\<close>

definition wlan_test :: "'w dev_ops \<Rightarrow> int \<Rightarrow> u8 list \<Rightarrow> 'w \<Rightarrow> (int \<times> 'w) option" where
  "wlan_test D junk buf w = do {
     (_, w) \<leftarrow> close_wpa_supplicant D w;
     let (_, w) = d_system D (ascii ''echo 1 > /sys/class/rkwifi/driver'') w;
     let (_, w) = d_system D (ascii ''ifconfig wlan0 up'') w;
     let (_, w) = d_system D (ascii ''wpa_supplicant -i wlan0 -c /etc/wpa_supplicant.conf &'') w;
     let w = d_sleep D 1 w;
     let (_, w) = d_system D (ascii ''wpa_cli scan '' @ [39] @ ascii ''wlan0'' @ [39]) w;
     let w = d_sleep D 2 w;
     (test_flag, w) \<leftarrow> wlan_exec D junk (ascii ''wpa_cli scan_r | busybox awk '' @ [39] @ ascii ''NR>=3{print $5,$3}'' @ [39]) w;
     (test_flag, w) \<leftarrow> (if test_flag < 0 then Some (test_flag, w) else wlan_test_ap D buf w);
     let (_, w) = d_system D (ascii ''ifconfig wlan0 down'') w;
     let (_, w) = d_system D (ascii ''busybox kill all wpa_supplicant'') w;
     Some (test_flag, w)
   }"

definition wlan_main :: "'w dev_ops \<Rightarrow> int \<Rightarrow> u8 list \<Rightarrow> 'w \<Rightarrow> (u8 list \<times> 'w) option" where
  "wlan_main D junk buf w = do {
     (test_flag, w) \<leftarrow> wlan_test D junk buf w;
     let (result, err_code) = (if test_flag < 0 then (RESULT_FAIL, WLAN_PROC_ERR) else (RESULT_PASS, 0));
     Some (send_msg_to_server (ascii ''wlan_test'') result err_code, w)
   }"

end
