(* ===== verification/DeviceProps.thy ===== *)
theory DeviceProps
  imports DeviceSpec CpuSpec WlanTest
begin

text \<open>
  The properties of the tests of single devices: capacities that are not checked, the clock, the firmware of Bluetooth, the lights and the frequencies.
\<close>

declare dec_digits.simps [simp del]

text \<open>A board: the answers of its commands and files do not change.\<close>

definition demo_dev :: "unit dev_ops" where
  "demo_dev = \<lparr>d_popen = (\<lambda>cmd w. (Some (if take 9 cmd = ascii ''hciconfig'' then [] else dec_digits 8000 @ 10 # []), w)),
     d_system = (\<lambda>_ w. (0, w)), d_open = (\<lambda>f w. (if f = EMMCPATH then 5 else if f = rfkill_file 0 ''type'' then 3 else 4, w)),
     d_read = (\<lambda>fd _ w. if fd = 5 then (int (Suc (length (dec_digits 15269888))), dec_digits 15269888 @ [10], w)
       else if fd = 3 then (10, ascii ''bluetooth'' @ [10], w) else (6, ascii ''rk903'' @ [10], w)),
     d_write = (\<lambda>_ s w. (int (length s), w)), d_close = (\<lambda>_ w. w), d_fopen = (\<lambda>_ _. Some (freq_text [408000, 816000])),
     d_remove = (\<lambda>_ w. w), d_sleep = (\<lambda>_ w. w), d_time = (\<lambda>w. ((0, 0), w)), d_set_rtc = (\<lambda>_ _ w. (0, w)),
     d_read_rtc = (\<lambda>_ w. (0, \<lparr>tm_year = 117, tm_mon = 4, tm_mday = 13, tm_hour = 18, tm_min = 1, tm_sec = 5\<rparr>, w)),
     d_mktime = (\<lambda>t. 60 * (60 * tm_hour t + tm_min t) + tm_sec t)\<rparr>"

text \<open>
  Capacities. Whatever number of pages the memory has, and whatever size from one sector to 512 GB the flash has, the two tests report \<^verbatim>\<open>PASS\<close>: a
  size that is not the expected one jumps to the end with the result of a call that worked.
\<close>

theorem capacities_not_checked:
  assumes ddr: "d_popen D READ_DDR_COMMAND w = (Some (dec_digits n @ 10 # rest), w1)" "n < 2 ^ 29"
    and emmc: "d_open D EMMCPATH v = (fd, v1)" "fd \<noteq> -1" "d_read D fd 20 v1 = (int (Suc (length (dec_digits k))), dec_digits k @ [10], v2)"
      "0 < k" "k \<le> 2 ^ 30"
  shows "ddr_main D w = Some (send_msg_to_server (ascii ''ddr_test'') RESULT_PASS 0, w1) \<and>
    emmc_main D v = Some (send_msg_to_server (ascii ''emmc_test'') RESULT_PASS 0, d_close D fd v2)"
proof
  have nd: "length (dec_digits n) \<le> Suc 8" "length (dec_digits k) \<le> Suc 9" using dec_digits_length [of n 8] dec_digits_length [of k 9] ddr(2) emmc(5) by simp_all
  have "up_to_nul (fst (fgets 19 (dec_digits n @ 10 # rest))) = dec_digits n @ [10]"
    using fgets_line [OF digits_plain(1), of n 19 rest] nd(1) up_to_nul_line [OF digits_plain(2)] by simp
  moreover have "atoi (dec_digits n @ [10]) = Some (int n)" using ddr(2) by (intro atoi_digits) auto
  ultimately show "ddr_main D w = Some (send_msg_to_server (ascii ''ddr_test'') RESULT_PASS 0, w1)"
    using ddr(2) unfolding ddr_main_def ddr_test_def ddr_exec_def ddr(1) prod.case option.case by (simp add: c_int_def int_ok_def del: fgets.simps)
  let ?b = "dec_digits k @ 10 # replicate (19 - length (dec_digits k)) 0" and ?c = "dec_digits k @ 0 # replicate (19 - length (dec_digits k)) 0"
  obtain d ds where d: "dec_digits k = ds @ [d]" "d \<noteq> 10"
    using dec_digits_ok [of k] digits_plain(1) [of k] by (cases "dec_digits k" rule: rev_cases) auto
  have "readFromFile D (Some EMMCPATH) (replicate 20 0) 20 v = Some (int (length (dec_digits k)), ?c, d_close D fd v2)"
  proof -
    have "strip_newlines (nat (2 + int (length ds))) (ds @ d # 10 # q) = Some (Suc (length ds))" for q
    proof -
      have "nat (2 + int (length ds)) = Suc (Suc (length ds))" by simp
      then show ?thesis using d(2) by (simp add: arr_get_def nth_append)
    qed
    then show ?thesis using emmc nd(2) d by (simp add: readFromFile_def bytes_put_def arr_set_def list_update_append)
  qed
  moreover have "c_string ?c = Some (dec_digits k)" by (rule c_string_append) (rule digits_plain(2))
  moreover have "atoi (dec_digits k) = Some (int k)" using atoi_digits [of "[]" k] emmc(5) by simp
  moreover obtain j where "get_emmc_size (dec_digits k) = Some (2 ^ j)" using emmc_size_rounds [OF calculation(3)] emmc(4,5) by auto
  ultimately show "emmc_main D v = Some (send_msg_to_server (ascii ''emmc_test'') RESULT_PASS 0, d_close D fd v2)"
    by (simp add: emmc_main_def emmc_test_def)
qed

theorem capacities_not_checked_witness:
  "ddr_main demo_dev () = Some (send_msg_to_server (ascii ''ddr_test'') RESULT_PASS 0, ()) \<and>
   emmc_main demo_dev () = Some (send_msg_to_server (ascii ''emmc_test'') RESULT_PASS 0, ())"
proof -
  have "READ_DDR_COMMAND \<noteq> [] \<and> take 9 READ_DDR_COMMAND \<noteq> ascii ''hciconfig''" by (simp add: READ_DDR_COMMAND_def ascii_def)
  then have "d_popen demo_dev READ_DDR_COMMAND () = (Some (dec_digits 8000 @ 10 # []), ())" by (simp add: demo_dev_def)
  moreover have "d_open demo_dev EMMCPATH () = (5, ())" "d_read demo_dev 5 20 () = (int (Suc (length (dec_digits 15269888))), dec_digits 15269888 @ [10], ())"
    by (simp_all add: demo_dev_def)
  ultimately show ?thesis using capacities_not_checked [of demo_dev "()" 8000 "[]" "()" "()" 5 "()" 15269888 "()"] by simp
qed

text \<open>
  The clock. When the clock can be set and read, the test passes exactly when the second of the time it reads is later than the second of the time
  that was set, within their minutes: minutes, hours and the date are not compared, and a second that starts a new minute fails.
\<close>

theorem clock_compares_seconds:
  assumes set: "d_open D MINOR_RTC_PATH w = (fd, w1)" "0 \<le> fd"
      "d_set_rtc D fd \<lparr>tm_year = 117, tm_mon = 4, tm_mday = 13, tm_hour = 18, tm_min = 0, tm_sec = 10\<rparr> w1 = (r, w2)" "0 \<le> r"
    and read: "d_open D MINOR_RTC_PATH (d_sleep D 1 (d_close D fd w2)) = (fd', w3)" "0 \<le> fd'" "d_read_rtc D fd' w3 = (r', t, w4)" "0 \<le> r'"
    and secs: "d_mktime D \<lparr>tm_year = 117, tm_mon = 4, tm_mday = 13, tm_hour = 18, tm_min = 0, tm_sec = 10\<rparr> = 60 * a + 10" "d_mktime D t = 60 * b + s"
      "0 \<le> a" "0 \<le> b" "0 \<le> s" "s < 60"
  shows "rtc_main D w = Some (if 10 < s then send_msg_to_server (ascii ''rtc_test'') RESULT_PASS 0
    else send_msg_to_server (ascii ''rtc_test'') RESULT_FAIL RTC_PROC_ERR, d_close D fd' w4)"
proof -
  have num: "atoi (ascii ''20170513.180010'') = Some 20170513" "atoi (drop 1 (dropWhile (\<lambda>c. c \<noteq> 46) (ascii ''20170513.180010''))) = Some 180010"
    by (simp_all add: atoi_def scan_d_def ascii_def c_int_def int_ok_def)
  have tm: "(20170513 :: int) sdiv 10000 - 1900 = 117" "((20170513 :: int) smod 10000) sdiv 100 - 1 = 4" "(20170513 :: int) smod 100 = 13"
    "(180010 :: int) sdiv 10000 = 18" "((180010 :: int) smod 10000) sdiv 100 = 0" "(180010 :: int) smod 100 = 10" by simp_all
  have "x smod 60 = x mod 60" if "0 \<le> x" for x :: int using that by (cases "x = 0") (simp_all add: signed_modulo_int_def)
  then have m: "(60 * a + 10) smod 60 = 10" "(60 * b + s) smod 60 = s" using secs(3-6) by simp_all
  show ?thesis
    using set read secs(1,2) m unfolding rtc_main_def rtc_test_def rtc_set_system_time_test_def num bind.simps Let_def tm
    by (simp add: set_system_time_def rtc_get_system_time_test_def RTC_TIME_DIFF_def)
qed

theorem clock_compares_seconds_witness:
  "rtc_main demo_dev () = Some (send_msg_to_server (ascii ''rtc_test'') RESULT_FAIL RTC_PROC_ERR, ())"
proof -
  have "MINOR_RTC_PATH \<noteq> EMMCPATH" "MINOR_RTC_PATH \<noteq> rfkill_file 0 ''type''" by (simp_all add: MINOR_RTC_PATH_def EMMCPATH_def rfkill_file_def ascii_def)
  then have "d_open demo_dev MINOR_RTC_PATH () = (4, ())" by (simp add: demo_dev_def)
  then show ?thesis
    using clock_compares_seconds [of demo_dev "()" 4 "()" 0 "()" 4 "()" 0 "\<lparr>tm_year = 117, tm_mon = 4, tm_mday = 13, tm_hour = 18, tm_min = 1, tm_sec = 5\<rparr>" "()" 1080 1081 5]
    by (simp add: demo_dev_def)
qed

text \<open>
  C40. Firmware. The wait for the firmware is never reported as failed: the loop stops at the limit of thirty seconds, and only a time above it counts as a failure. So, once
  the switch and the name of the chip have been found, the test reports \<^verbatim>\<open>PASS\<close> for a chip that never shows an address in that time, provided that an old
  \<^verbatim>\<open>brcm_patchram_plus1\<close> can be closed and that the interface can be activated in whatever state; a chip of unknown type passes without these.
\<close>

theorem firmware_failure_passes:
  assumes chip: "init_rfkill D \<lparr>rfkill_bt_id = -1, rfkill_state_path = []\<rparr> w = Some (0, g, w1)" "bt_get_chip_name D g name 64 w1 = Some (0, bt_name, w2)"
    and known: "0 \<le> get_chip_type bt_name \<Longrightarrow> (\<exists>w3. close_brcm_pathcram_plus1 D junk w2 = Some (0, w3)) \<and>
      (\<forall>w. \<exists>w'. firmware_round D w = Some (-1, w')) \<and> (\<forall>w. \<exists>w'. activate_bt_test D w = Some (0, w'))"
  shows "(\<exists>w'. bt_main D name junk w = Some (send_msg_to_server (ascii ''bt_test'') RESULT_PASS 0, w')) \<and>
    (\<forall>v r v'. confirm_firmware_test D v = Some (r, v') \<longrightarrow> r = 0)"
proof (cases "0 \<le> get_chip_type bt_name")
  case False
  then show ?thesis using chip firmware_confirmed by (auto simp: bt_main_def bt_test_def)
next
  case True
  obtain w3 where c: "close_brcm_pathcram_plus1 D junk w2 = Some (0, w3)" using known [OF True] by blast
  have "\<exists>w'. confirm_firmware_test D w = Some (0, w')" for w
    using firmware_rounds [of D 10 w] known [OF True] by (auto simp: confirm_firmware_test_def BT_TIMEOUT_FIRMWARE_def)
  then obtain f where f: "\<And>w. confirm_firmware_test D w = Some (0, f w)" by metis
  obtain h where h: "\<And>w. activate_bt_test D w = Some (0, h w)" using known [OF True] by metis
  have "\<exists>w'. bt_test_bluez D junk g w2 = Some (0, w')" by (simp add: bt_test_bluez_def c f h split_def Let_def)
  then show ?thesis using chip True firmware_confirmed by (auto simp: bt_main_def bt_test_def)
qed

lemma demo_close: "close_brcm_pathcram_plus1 demo_dev (replicate 64 0) () = Some (0, ())"
proof -
  have l: "length (dec_digits 8000) \<le> Suc 3" "0 \<notin> set (dec_digits 8000 @ [10])" using dec_digits_length [of 8000 3] digits_plain(2) [of 8000] by simp_all
  have "fst (fgets 63 (dec_digits 8000 @ 10 # [])) = dec_digits 8000 @ [10]" using fgets_line [OF digits_plain(1), of 8000 63 "[]"] l(1) by simp
  moreover have "c_string ((dec_digits 8000 @ [10]) @ 0 # r) = Some (dec_digits 8000 @ [10])" for r by (rule c_string_append [OF l(2)])
  moreover have "atoi (dec_digits 8000 @ [10]) = Some 8000" using atoi_digits [of "[10]" 8000] by simp
  ultimately show ?thesis using l(1) by (simp add: close_brcm_pathcram_plus1_def demo_dev_def bytes_put_def ascii_def del: fgets.simps)
qed

lemma demo_addresses: "firmware_round demo_dev () = Some (-1, ())" "activate_bt_test demo_dev () = Some (0, ())"
proof -
  have "scan_word [] = ([], [], True)" by (simp add: scan_word_def)
  then show "firmware_round demo_dev () = Some (-1, ())"
    by (simp add: firmware_round_def get_bdaddr_test_def demo_dev_def read_address_def ascii_def)
  have "length (dec_digits 8000) \<le> Suc 3" using dec_digits_length [of 8000 3] by simp
  moreover obtain d ds where d: "dec_digits 8000 = d # ds" "d \<noteq> 0" using dec_digits_ok [of 8000] digits_plain(2) [of 8000] by (cases "dec_digits 8000") auto
  moreover have "\<not> is_space d" "\<forall>c\<in>set ds. \<not> is_space c" "is_space 10" using digits_word [of 8000] d(1) by (auto simp: is_space_def)
  then have "scan_word (d # ds @ [10]) = (d # ds, [10], False)" by (simp add: scan_word_def)
  ultimately show "activate_bt_test demo_dev () = Some (0, ())"
    by (simp add: activate_bt_test_def demo_dev_def read_address_def bytes_put_def ascii_def)
qed

theorem firmware_failure_passes_witness:
  "\<exists>w'. bt_main demo_dev (replicate 64 0) (replicate 64 0) () = Some (send_msg_to_server (ascii ''bt_test'') RESULT_PASS 0, w')"
proof -
  have paths: "rfkill_file 0 ''type'' \<noteq> EMMCPATH" "rfkill_file 0 ''name'' \<noteq> EMMCPATH" "rfkill_file 0 ''name'' \<noteq> rfkill_file 0 ''type''"
    by (simp_all add: EMMCPATH_def rfkill_file_def ascii_def)
  then have o: "d_open demo_dev (rfkill_file 0 ''type'') () = (3, ())" "d_open demo_dev (rfkill_file 0 ''name'') () = (4, ())"
    "d_read demo_dev 3 16 () = (10, ascii ''bluetooth'' @ [10], ())" "d_read demo_dev 4 64 () = (6, ascii ''rk903'' @ [10], ())" by (simp_all add: demo_dev_def)
  have "rfkill_loop demo_dev 0 () = Some (Some 0, ())" by (subst rfkill_loop.simps) (simp add: o, simp add: ascii_def)
  then have "init_rfkill demo_dev \<lparr>rfkill_bt_id = -1, rfkill_state_path = []\<rparr> () = Some (0, \<lparr>rfkill_bt_id = 0, rfkill_state_path = rfkill_file 0 ''state''\<rparr>, ())"
    by (simp add: init_rfkill_def)
  moreover have "bt_get_chip_name demo_dev \<lparr>rfkill_bt_id = 0, rfkill_state_path = rfkill_file 0 ''state''\<rparr> (replicate 64 0) 64 () =
      Some (0, ascii ''rk903'' @ 0 # replicate 58 0, ())"
    by (simp add: bt_get_chip_name_def o bytes_put_def arr_set_def) (simp add: ascii_def)
  moreover have "close_brcm_pathcram_plus1 demo_dev (replicate 64 0) () = Some (0, ())"
    by (rule demo_close)
  moreover have "firmware_round demo_dev () = Some (-1, ())" "activate_bt_test demo_dev () = Some (0, ())" by (rule demo_addresses)+
  ultimately show ?thesis using firmware_failure_passes [of demo_dev "()" _ "()" "replicate 64 0" "ascii ''rk903'' @ 0 # replicate 58 0" "()" "replicate 64 0"] by auto
qed

text \<open>
  C38. The pictures of the lights. With a driver that takes what is written, a run of the test returns 0 after showing, a second each, exactly the
  twelve red lights, the twelve green ones, the twelve blue ones and then all 36, and leaves every light off.
\<close>

theorem lights_shown:
  assumes D: "led_driver D lit shown" and junk: "length junk = 128" and w: "led_values lit w"
  shows "\<exists>w'. led_test D junk w = Some (0, w') \<and> shown w' = shown w @ [led_picture 1, led_picture 2, led_picture 3, {1..36}] \<and> lit_leds (lit w') = {}"
proof -
  obtain w1 where w1: "led_colors D junk [1, 2, 3] w = Some (True, w1)" "shown w1 = shown w @ map led_picture [1, 2, 3]" "led_values lit w1"
    using led_colors_ok [OF D junk w] by blast
  obtain w2 where w2: "set_leds D junk (\<lambda>_. LED_ON) [1..<36 + 1] w1 = Some (True, w2)" "lit w2 = (\<lambda>n. if n \<in> {1..36} then LED_ON else lit w1 n)"
      "shown w2 = shown w1" "led_values lit w2" using set_leds_ok [OF D _ junk, of "\<lambda>_. LED_ON" "[1..<36 + 1]" w1] w1(3) unfolding all_leds by auto
  have on: "lit_leds (lit w2) = {1..36}" unfolding lit_leds_def w2(2) by auto
  let ?w3 = "d_sleep D 1 w2"
  have w3: "shown ?w3 = shown w @ [led_picture 1, led_picture 2, led_picture 3, {1..36}]" "led_values lit ?w3" using led_sleep [OF D w2(4)] on w1(2) w2(3) by simp_all
  obtain w4 where w4: "set_leds D junk (\<lambda>_. LED_OFF) [1..<36 + 1] ?w3 = Some (True, w4)" "lit w4 = (\<lambda>n. if n \<in> {1..36} then LED_OFF else lit ?w3 n)"
      "shown w4 = shown ?w3" using set_leds_ok [OF D _ junk, of "\<lambda>_. LED_OFF" "[1..<36 + 1]" ?w3] w3(2) unfolding all_leds by auto
  have "lit_leds (lit w4) = {}" unfolding lit_leds_def w4(2) using on_off by auto
  then show ?thesis using w1(1) w2(1) w3(1) w4(1,3) by (simp add: led_test_def del: upt_Suc)
qed

text \<open>A driver of the lights: a descriptor is the number of the light, the state is what every light holds and what was seen.\<close>

definition demo_lights :: "((nat \<Rightarrow> u8 list) \<times> nat set list) dev_ops" where
  "demo_lights = \<lparr>d_popen = (\<lambda>_ w. (None, w)), d_system = (\<lambda>_ w. (0, w)),
     d_open = (\<lambda>f w. (case List.find (\<lambda>n. led_brightness_file n = f) [1..<37] of Some n \<Rightarrow> int n | None \<Rightarrow> -1, w)),
     d_read = (\<lambda>fd _ w. (int (Suc (length (fst w (nat fd)))), fst w (nat fd) @ [10], w)),
     d_write = (\<lambda>fd s w. (int (length s), (fst w)(nat fd := butlast s), snd w)), d_close = (\<lambda>_ w. w), d_fopen = (\<lambda>_ _. None),
     d_remove = (\<lambda>_ w. w), d_sleep = (\<lambda>_ w. (fst w, snd w @ [lit_leds (fst w)])), d_time = (\<lambda>w. ((0, 0), w)), d_set_rtc = (\<lambda>_ _ w. (0, w)),
     d_read_rtc = (\<lambda>_ w. (-1, \<lparr>tm_year = 0, tm_mon = 0, tm_mday = 0, tm_hour = 0, tm_min = 0, tm_sec = 0\<rparr>, w)), d_mktime = (\<lambda>_. 0)\<rparr>"

lemma led_file_inj: "led_brightness_file n = led_brightness_file k \<Longrightarrow> n < 2 ^ 31 \<Longrightarrow> k < 2 ^ 31 \<Longrightarrow> n = k"
proof -
  assume e: "led_brightness_file n = led_brightness_file k" and n: "n < 2 ^ 31" "k < 2 ^ 31"
  then have "dec_digits n = dec_digits k" by (simp add: led_brightness_file_def fmt_d_def)
  moreover have "atoi (dec_digits n @ []) = Some (int n)" "atoi (dec_digits k @ []) = Some (int k)" by (rule atoi_digits; use n in simp)+
  ultimately show "n = k" by simp
qed

lemma demo_lights_open: "n \<in> {1..36} \<Longrightarrow> d_open demo_lights (led_brightness_file n) w = (int n, w)"
proof -
  assume n: "n \<in> {1..36}"
  have same: "k = n" if "led_brightness_file k = led_brightness_file n" "k < 37" for k using led_file_inj [OF that(1)] that(2) n by simp
  have xs: "[1..<37] ! j = Suc j" if "j < 36" for j using that by (simp only: nth_upt)
  have "List.find (\<lambda>k. led_brightness_file k = led_brightness_file n) [1..<37] = Some n"
    unfolding find_Some_iff
  proof (intro exI [of _ "n - 1"] conjI allI impI notI)
    fix j
    assume "j < n - 1" "led_brightness_file ([1..<37] ! j) = led_brightness_file n"
    moreover from this(1) have "j < 36" using n by auto
    ultimately show False using same [of "Suc j"] xs [of j] by auto
  qed (use n xs [of "n - 1"] in auto)
  then show ?thesis by (simp add: demo_lights_def del: upt_rec_numeral)
qed

lemma demo_lights_driver: "led_driver demo_lights fst snd"
  unfolding led_driver_def
proof (intro conjI ballI allI impI)
  fix n :: nat and w :: "(nat \<Rightarrow> u8 list) \<times> nat set list"
  assume "n \<in> {1..36}"
  then have "d_open demo_lights (led_brightness_file n) w = (int n, w)" by (rule demo_lights_open)
  then show "\<exists>fd w1 w2. d_open demo_lights (led_brightness_file n) w = (fd, w1) \<and> 0 \<le> fd \<and>
      d_read demo_lights fd 64 w1 = (int (Suc (length (fst w n))), fst w n @ [10], w2) \<and>
      (\<forall>v. \<exists>r w3. d_write demo_lights fd (v @ [0]) w2 = (r, w3) \<and> r \<noteq> -1 \<and> fst (d_close demo_lights fd w3) = (fst w)(n := v) \<and>
        snd (d_close demo_lights fd w3) = snd w)"
    by (intro exI [of _ "int n"] exI [of _ w]) (simp add: demo_lights_def)
qed (simp_all add: demo_lights_def)
theorem lights_shown_witness:
  "\<exists>w'. led_test demo_lights (replicate 128 0) (\<lambda>_. LED_OFF, []) = Some (0, w') \<and>
     snd w' = [led_picture 1, led_picture 2, led_picture 3, {1..36}] \<and> lit_leds (fst w') = {}"
proof -
  have "led_values fst (\<lambda>_. LED_OFF, [] :: nat set list)" by (simp add: led_values_def LED_OFF_def ascii_def)
  from lights_shown [OF demo_lights_driver _ this, of "replicate 128 0"] show ?thesis by simp
qed

text \<open>
  C39. The frequencies of a processor. From a table with a blank behind each number and a newline, as the kernel writes it, the program builds the list of the numbers in order, with the last one twice, since it looks for the end
  of the file before it reads; the number it returns is one too many. For every index that a remainder by this number can give,
  \<^verbatim>\<open>set_curl_freq\<close> sets a frequency of the table, the first one for the indices 0 and 1.
\<close>

theorem frequency_from_table:
  assumes m: "cf_cells m (cpu_head n) = Some zero_cell" "n < 4" "cf_plan m = a # as @ bs" "distinct (cpu_head n # cf_plan m)" "NULL \<notin> set (cf_plan m)"
    and fs: "length as = length fs" "fs \<noteq> []" "\<forall>f\<in>set fs. 0 < f \<and> f < 2 ^ 31" and junk: "length junk = 64"
    and sys: "d_system D (ascii ''busybox cat '' @ cpu_freq_table_path n @ ascii '' > '' @ cpu_freq_txt n) w = (r, w1)" "0 \<le> r"
      "d_fopen D (cpu_freq_txt n) w1 = Some (freq_text fs)"
  shows "\<exists>m' w'. get_cpu_freq_table D junk n (cpu_head n) m w = Some (int (Suc (length fs)), m', w') \<and>
    cf_list (cf_cells m') (zip (cpu_head n # as) (map int (fs @ [last fs]))) \<and>
    (\<forall>k\<le>length fs. \<forall>v. \<exists>v'. set_curl_freq D n (int k) m' v = Some (int (fs ! (k - 1)), v'))"
proof -
  let ?ns = "zip (cpu_head n # as) (map int (fs @ [last fs]))"
  have "n \<in> {0, 1, 2, 3}" using m(2) by auto
  then have h: "cpu_head n \<noteq> NULL" by (auto simp: cpu_head_def)
  obtain m' where m': "table_loop (freq_text fs) False junk (cpu_head n) 0 m = Some (int (Suc (length fs)), m')" "cpu_ready m' ?ns"
    using table_ok [OF m(1) h m(3,4,5) fs junk] by blast
  then have l: "cf_list (cf_cells m') ?ns" by (simp add: cpu_ready_def)
  have ns: "length ?ns = Suc (length fs)" "?ns \<noteq> []" "fst (hd ?ns) = cpu_head n" using fs(1,2) by (cases fs; simp)+
  have "get_cpu_freq_table D junk n (cpu_head n) m w = Some (int (Suc (length fs)), m', d_remove D (cpu_freq_txt n) w1)"
    using sys m'(1) by (simp add: get_cpu_freq_table_def)
  moreover have "\<exists>v'. set_curl_freq D n (int k) m' v = Some (int (fs ! (k - 1)), v')" if k: "k \<le> length fs" for k v
  proof -
    have i: "min (k - 1) (length ?ns - 1) = k - 1" "k - 1 < length fs" using k fs(2) ns(1) by (cases fs; simp)+
    have "find_freq m' (cpu_head n) (int k) = Some (fst (?ns ! (k - 1)))" using find_freq_ok [OF l ns(2), of k] unfolding ns(3) i(1) .
    moreover have "?ns ! (k - 1) \<in> set ?ns" using ns(1) i(2) by (intro nth_mem) simp
    moreover have "snd (?ns ! (k - 1)) = int (fs ! (k - 1))" using i(2) fs(1) by (simp add: nth_append)
    moreover have "cf_list h ns \<Longrightarrow> p \<in> set ns \<Longrightarrow> \<exists>x. h (fst p) = Some \<lparr>cf_freq = snd p, cf_next = x\<rparr>" for h ns p by (induction h ns rule: cf_list.induct) auto
    ultimately show ?thesis using l m(2) by (fastforce simp: set_curl_freq_def)
  qed
  ultimately show ?thesis using l by blast
qed

theorem frequency_from_table_witness:
  "\<exists>m'. set_curl_freq demo_dev 0 0 m' () = Some (408000, ()) \<and> set_curl_freq demo_dev 0 2 m' () = Some (816000, ()) \<and>
     get_cpu_freq_table demo_dev (replicate 64 0) 0 (cpu_head 0) (cpu_start [64, 80, 96]) () = Some (3, m', ())"
proof -
  have "cf_cells (cpu_start [64, 80, 96]) (cpu_head 0) = Some zero_cell" "cf_plan (cpu_start [64, 80, 96]) = 64 # [80, 96] @ []"
    "distinct (cpu_head 0 # cf_plan (cpu_start [64, 80, 96]))" "NULL \<notin> set (cf_plan (cpu_start [64, 80, 96]))"
    by (simp_all add: cpu_start_def cpu_head_def)
  from frequency_from_table [OF this(1) _ this(2-4), of "[408000, 816000]" "replicate 64 0" demo_dev "()" 0 "()"]
  obtain m' w' where "get_cpu_freq_table demo_dev (replicate 64 0) 0 (cpu_head 0) (cpu_start [64, 80, 96]) () = Some (int (Suc (length [408000 :: nat, 816000])), m', w')"
    "\<forall>k\<le>length [408000 :: nat, 816000]. \<forall>v. \<exists>v'. set_curl_freq demo_dev 0 (int k) m' v = Some (int ([408000, 816000] ! (k - 1)), v')"
    by (auto simp: demo_dev_def)
  from this(1) this(2) [rule_format, of 0 "()"] this(2) [rule_format, of 2 "()"] show ?thesis by auto
qed

end
