(* ===== verification/NetServices.thy ===== *)
theory NetServices
  imports DeviceTests
begin

text \<open>
  Two services of the board: \<^verbatim>\<open>pcb_test/echo_uevent_detect.c\<close>, which watches the events of the kernel for the USB cable, and
  \<^verbatim>\<open>echo_discovery.c\<close>, which tells who asks on the network what board this is. What \<^verbatim>\<open>printf\<close> shows is left out.
\<close>

subsection \<open>Events of the kernel\<close>

text \<open>A pointer into the message is the bytes from there on; the constant empty string is a terminator.\<close>

record uevent =
  action :: "u8 list"
  path :: "u8 list"
  subsystem :: "u8 list"
  firmware :: "u8 list"
  major :: int
  minor :: int

definition no_event :: uevent where
  "no_event = \<lparr>action = [0], path = [0], subsystem = [0], firmware = [0], major = -1, minor = -1\<rparr>"

text \<open>\<^verbatim>\<open>while (*msg++)\<close>: the bytes behind the next terminator.\<close>

fun skip_nul :: "u8 list \<Rightarrow> u8 list option" where
  "skip_nul [] = None"
| "skip_nul (c # cs) = (if c = 0 then Some cs else skip_nul cs)"

lemma skip_nul_shorter: "skip_nul s = Some r \<Longrightarrow> length r < length s"
  by (induction s) (auto split: if_splits)

definition starts :: "u8 list \<Rightarrow> string \<Rightarrow> bool" where
  "starts msg key \<longleftrightarrow> take (length key) msg = ascii key"

text \<open>The chain of comparisons at one entry: the rest of the message and the event.\<close>

definition parse_entry :: "u8 list \<Rightarrow> uevent \<Rightarrow> (u8 list \<times> uevent) option" where
  "parse_entry msg u =
     (if starts msg ''ACTION='' then Some (drop 7 msg, u\<lparr>action := drop 7 msg\<rparr>)
      else if starts msg ''DEVPATH='' then Some (drop 8 msg, u\<lparr>path := drop 8 msg\<rparr>)
      else if starts msg ''SUBSYSTEM='' then Some (drop 10 msg, u\<lparr>subsystem := drop 10 msg\<rparr>)
      else if starts msg ''FIRMWARE='' then Some (drop 9 msg, u\<lparr>firmware := drop 9 msg\<rparr>)
      else if starts msg ''MAJOR='' then map_option (\<lambda>n. (drop 6 msg, u\<lparr>major := n\<rparr>)) (atoi (drop 6 msg))
      else if starts msg ''MINOR='' then map_option (\<lambda>n. (drop 6 msg, u\<lparr>minor := n\<rparr>)) (atoi (drop 6 msg))
      else Some (msg, u))"

lemma parse_entry_shorter: "parse_entry s u = Some (r, u') \<Longrightarrow> length r \<le> length s"
  by (auto simp: parse_entry_def split: if_splits)

function parse_loop :: "u8 list \<Rightarrow> uevent \<Rightarrow> uevent option" where
  "parse_loop msg u =
     (case msg of [] \<Rightarrow> None
      | c # _ \<Rightarrow>
          if c = 0 then Some u
          else do { (msg, u) \<leftarrow> parse_entry msg u; msg \<leftarrow> skip_nul msg; parse_loop msg u })"
  by pat_completeness auto

termination
  by (relation "measure (\<lambda>(s, _). length s)") (auto dest!: parse_entry_shorter skip_nul_shorter)

declare parse_loop.simps [simp del]

definition parse_event :: "u8 list \<Rightarrow> uevent option" where
  "parse_event msg = parse_loop msg no_event"

text \<open>\<open>junk\<close> is what the array \<^verbatim>\<open>buf\<close> of 32 bytes holds before; a \<^verbatim>\<open>printf\<close> reads the array as a string.\<close>

definition usb_state_get :: "'w dev_ops \<Rightarrow> u8 list \<Rightarrow> 'w \<Rightarrow> (int \<times> 'w) option" where
  "usb_state_get D junk w =
     (case d_popen D (ascii ''cat /sys/class/android_usb/android0/state'') w of (None, w) \<Rightarrow> Some (-1, w)
      | (Some out, w) \<Rightarrow> do {
          buf \<leftarrow> (if out = [] then Some junk else bytes_put junk 0 (fst (fgets 31 out) @ [0]));
          _ \<leftarrow> c_string buf;
          Some (if take 10 buf = ascii ''CONFIGURED'' then 1 else 0, w)
        })"

definition kill_tests :: "u8 list" where
  "kill_tests = ascii '' kill `ps | grep echo.*test|grep -v echo_pcbatest_server|'' @ replicate 27 32 @ ascii ''grep -v grep|awk '' @ [39] @
     ascii ''{print $1}'' @ [39] @ ascii ''`''"

abbreviation (input) UEVENT_MSG_LEN :: nat where "UEVENT_MSG_LEN \<equiv> 1024"

text \<open>
  What \<^verbatim>\<open>main\<close> does with one message: the array of 1026 bytes after \<^verbatim>\<open>recv\<close> stored \<open>n\<close> of them.
\<close>

definition uevent_turn :: "'w dev_ops \<Rightarrow> u8 list \<Rightarrow> nat \<Rightarrow> u8 list \<Rightarrow> 'w \<Rightarrow> (u8 list \<times> 'w) option" where
  "uevent_turn D junk n msg w =
     (if n \<ge> UEVENT_MSG_LEN then Some (msg, w)
      else do {
        msg \<leftarrow> arr_set msg n 0;
        msg \<leftarrow> arr_set msg (n + 1) 0;
        u \<leftarrow> parse_event msg;
        sub \<leftarrow> c_string (subsystem u);
        if strstr sub (ascii ''usb'') then do {
          (usb, w) \<leftarrow> usb_state_get D junk w;
          Some (msg, snd (d_system D (if usb = 1 then ascii ''ipconfig.sh'' else kill_tests) w))
        } else Some (msg, w)
      })"

text \<open>
  The socket: \<^verbatim>\<open>socket\<close>, \<^verbatim>\<open>setsockopt\<close> with its option, \<^verbatim>\<open>bind\<close>, \<^verbatim>\<open>recv\<close> with the number and the bytes stored.
\<close>

record 'w nl_ops =
  n_socket :: "'w \<Rightarrow> int \<times> 'w"
  n_setsockopt :: "int \<Rightarrow> string \<Rightarrow> int \<Rightarrow> 'w \<Rightarrow> 'w"
  n_bind :: "int \<Rightarrow> 'w \<Rightarrow> int \<times> 'w"
  n_close :: "int \<Rightarrow> 'w \<Rightarrow> 'w"
  n_recv :: "int \<Rightarrow> nat \<Rightarrow> 'w \<Rightarrow> int \<times> u8 list \<times> 'w"

definition uevent_open_socket :: "'w nl_ops \<Rightarrow> int \<Rightarrow> 'w \<Rightarrow> int \<times> 'w" where
  "uevent_open_socket N buf_sz w =
     (let (s, w) = n_socket N w in
      if s < 0 then (-1, w)
      else
        let w = n_setsockopt N s ''SO_RCVBUFFORCE'' buf_sz w; w = n_setsockopt N s ''SO_PASSCRED'' 1 w; (r, w) = n_bind N s w in
        if r < 0 then (-1, n_close N s w) else (s, w))"

text \<open>The two nested loops never end: what the first \<open>k\<close> calls of \<^verbatim>\<open>recv\<close> lead to.\<close>

primrec uevent_loop :: "nat \<Rightarrow> 'w nl_ops \<Rightarrow> 'w dev_ops \<Rightarrow> u8 list \<Rightarrow> int \<Rightarrow> u8 list \<Rightarrow> 'w \<Rightarrow> (u8 list \<times> 'w) option" where
  "uevent_loop 0 N D junk fd msg w = Some (msg, w)"
| "uevent_loop (Suc k) N D junk fd msg w =
     (let (n, bs, w) = n_recv N fd UEVENT_MSG_LEN w in do {
        (msg, w) \<leftarrow> (if n > 0 then do { msg \<leftarrow> bytes_put msg 0 bs; uevent_turn D junk (nat n) msg w } else Some (msg, w));
        uevent_loop k N D junk fd msg w
      })"

definition uevent_main :: "nat \<Rightarrow> 'w nl_ops \<Rightarrow> 'w dev_ops \<Rightarrow> u8 list \<Rightarrow> u8 list \<Rightarrow> 'w \<Rightarrow> 'w option" where
  "uevent_main k N D junk msg w =
     (let (fd, w) = uevent_open_socket N (64 * 1024) w in
      if fd < 0 then Some w else map_option snd (uevent_loop k N D junk fd msg w))"

subsection \<open>Discovery\<close>

text \<open>
  The socket and the interface \<^verbatim>\<open>rndis0\<close>: the text of its address, the six bytes of its hardware address; \<^verbatim>\<open>recvfrom\<close> with number and bytes stored,
  \<^verbatim>\<open>sendto\<close> to the sender. \<open>s_read\<close> is the request to \<^verbatim>\<open>/dev/vendor_storage\<close>, with result, length and data.
\<close>

record 'w disc_ops =
  s_socket :: "'w \<Rightarrow> int \<times> 'w"
  s_ifaddr :: "int \<Rightarrow> 'w \<Rightarrow> int \<times> u8 list \<times> 'w"
  s_ifhwaddr :: "int \<Rightarrow> 'w \<Rightarrow> int \<times> u8 list \<times> 'w"
  s_setsockopt :: "int \<Rightarrow> string \<Rightarrow> 'w \<Rightarrow> int \<times> 'w"
  s_bind :: "int \<Rightarrow> nat \<Rightarrow> 'w \<Rightarrow> int \<times> 'w"
  s_recvfrom :: "int \<Rightarrow> nat \<Rightarrow> 'w \<Rightarrow> int \<times> u8 list \<times> 'w"
  s_sendto :: "int \<Rightarrow> u8 list \<Rightarrow> 'w \<Rightarrow> int \<times> 'w"
  s_sleep :: "nat \<Rightarrow> 'w \<Rightarrow> 'w"
  s_close :: "int \<Rightarrow> 'w \<Rightarrow> 'w"
  s_open :: "'w \<Rightarrow> int \<times> 'w"
  s_read :: "int \<Rightarrow> nat \<Rightarrow> nat \<Rightarrow> 'w \<Rightarrow> int \<times> nat \<times> u8 list \<times> 'w"

definition FWK_MSG_UID_LEN :: nat where "FWK_MSG_UID_LEN = 20"
definition FWK_MSG_CMD_LEN :: nat where "FWK_MSG_CMD_LEN = 128"
definition FWK_MSG_IP_MAX_LEN :: nat where "FWK_MSG_IP_MAX_LEN = 16"
definition FWK_MSG_MAC_MAX_LEN :: nat where "FWK_MSG_MAC_MAX_LEN = 18"
definition VENDOR_SN_ID :: nat where "VENDOR_SN_ID = 1"
definition VENDOR_DATA_PROTOCOL_SIZE :: nat where "VENDOR_DATA_PROTOCOL_SIZE = 384"
definition UDPPORT :: nat where "UDPPORT = 18888"

text \<open>The driver is told that there are 512 bytes; more than the 384 of \<^verbatim>\<open>req.data\<close> are undefined.\<close>

definition rk_parameter_read_uid :: "'w disc_ops \<Rightarrow> int \<Rightarrow> u8 list \<Rightarrow> nat \<Rightarrow> 'w \<Rightarrow> (int \<times> u8 list \<times> 'w) option" where
  "rk_parameter_read_uid S sys_fd iotc_uid len w =
     (if sys_fd < 0 then Some (-1, iotc_uid, w)
      else
        let (r, n, data, w) = s_read S sys_fd VENDOR_SN_ID 512 w in
        if length data > VENDOR_DATA_PROTOCOL_SIZE then None
        else if r \<noteq> 0 then Some (-1, iotc_uid, w)
        else
          let n = (if n > len then len else n) in do {
            bs \<leftarrow> bytes_get (data @ replicate (VENDOR_DATA_PROTOCOL_SIZE - length data) 0) 0 n;
            iotc_uid \<leftarrow> bytes_put iotc_uid 0 bs;
            Some (int n, iotc_uid, w)
          })"

definition parameter_read_protocol_uid :: "'w disc_ops \<Rightarrow> u8 list \<Rightarrow> 'w \<Rightarrow> (int \<times> u8 list \<times> 'w) option" where
  "parameter_read_protocol_uid S iotc_uid w =
     (let (sys_fd, w) = s_open S w in
      if sys_fd < 0 then Some (-1, iotc_uid, w)
      else do {
        (ret, iotc_uid, w) \<leftarrow> rk_parameter_read_uid S sys_fd (replicate (FWK_MSG_UID_LEN + 1) 0) FWK_MSG_UID_LEN w;
        Some (ret, iotc_uid, s_close S sys_fd w)
      })"

text \<open>The loops that wait for the interface.\<close>

partial_function (option) wait_ifaddr :: "'w disc_ops \<Rightarrow> int \<Rightarrow> 'w \<Rightarrow> (u8 list \<times> 'w) option" where
  "wait_ifaddr S fd w = (let (r, a, w) = s_ifaddr S fd w in if r < 0 then wait_ifaddr S fd (s_sleep S 1 w) else Some (a, w))"

partial_function (option) wait_ifhwaddr :: "'w disc_ops \<Rightarrow> int \<Rightarrow> 'w \<Rightarrow> (u8 list \<times> 'w) option" where
  "wait_ifhwaddr S fd w = (let (r, a, w) = s_ifhwaddr S fd w in if r < 0 then wait_ifhwaddr S fd (s_sleep S 1 w) else Some (a, w))"

text \<open>\<^verbatim>\<open>%.2X\<close>, and the six of them with colons.\<close>

definition hex_upper :: "nat \<Rightarrow> u8" where
  "hex_upper n = (if n < 10 then of_nat (48 + n) else of_nat (55 + n))"

definition fmt_2X :: "u8 \<Rightarrow> u8 list" where
  "fmt_2X c = [hex_upper (unat c div 16), hex_upper (unat c mod 16)]"

fun mac_text :: "u8 list \<Rightarrow> u8 list" where
  "mac_text [] = []"
| "mac_text [c] = fmt_2X c"
| "mac_text (c # cs) = fmt_2X c @ 58 # mac_text cs"

text \<open>The answer, with its quotation marks.\<close>

definition quoted :: "u8 list \<Rightarrow> u8 list" where
  "quoted s = [34] @ s @ [34]"

definition cmd_info :: "u8 list \<Rightarrow> u8 list \<Rightarrow> u8 list \<Rightarrow> u8 list" where
  "cmd_info uid local_addr local_mac =
     snprintf_s FWK_MSG_CMD_LEN
       ([123] @ quoted (ascii ''UID'') @ [58] @ quoted uid @ [44] @ quoted (ascii ''IP'') @ [58] @ quoted local_addr @ [44] @
        quoted (ascii ''MAC'') @ [58] @ quoted local_mac @ [44] @ quoted (ascii ''DEVICENAME'') @ [58] @ quoted (ascii ''ECHO'') @ [125])"

text \<open>
  One datagram: the buffer of 64 bytes holds it and zeros, and is printed as a string, which needs a zero in it. \<open>False\<close> when \<^verbatim>\<open>sendto\<close> failed.
\<close>

definition discovery_turn :: "'w disc_ops \<Rightarrow> int \<Rightarrow> u8 list \<Rightarrow> u8 list \<Rightarrow> 'w \<Rightarrow> (bool \<times> 'w) option" where
  "discovery_turn S fd local_addr local_mac w =
     (let (n, bs, w) = s_recvfrom S fd 64 w in do {
        buf \<leftarrow> (if n < 0 then Some (replicate 64 0) else bytes_put (replicate 64 0) 0 bs);
        if n < 0 then Some (True, w)
        else do { _ \<leftarrow> c_string buf; if take 13 buf = ascii ''CMD_DISCOVER'' @ [0] then do {
          (_, uid, w) \<leftarrow> parameter_read_protocol_uid S (replicate (FWK_MSG_UID_LEN + 1) 0) w;
          uid \<leftarrow> arr_set uid FWK_MSG_UID_LEN 0;
          uid \<leftarrow> c_string uid;
          let (r, w) = s_sendto S fd (cmd_info uid local_addr local_mac) w;
          Some (r \<ge> 0, w)
        } else Some (True, w) }
      })"

partial_function (option) discovery_loop :: "'w disc_ops \<Rightarrow> int \<Rightarrow> u8 list \<Rightarrow> u8 list \<Rightarrow> 'w \<Rightarrow> 'w option" where
  "discovery_loop S fd local_addr local_mac w = do {
     (go, w) \<leftarrow> discovery_turn S fd local_addr local_mac w;
     if go then discovery_loop S fd local_addr local_mac w else Some w
   }"

definition broadcast_service :: "'w disc_ops \<Rightarrow> 'w \<Rightarrow> 'w option" where
  "broadcast_service S w =
     (let (fd, w) = s_socket S w in
      if fd < 0 then Some w
      else do {
        (addr, w) \<leftarrow> wait_ifaddr S fd w;
        let local_addr = snprintf_s FWK_MSG_IP_MAX_LEN addr;
        (hw, w) \<leftarrow> wait_ifhwaddr S fd w;
        let local_mac = snprintf_s FWK_MSG_MAC_MAX_LEN (mac_text hw);
        let (r, w) = s_setsockopt S fd ''SO_BROADCAST'' w;
        if r < 0 then Some (s_close S fd w)
        else
          let (r, w) = s_setsockopt S fd ''SO_REUSEADDR'' w in
          if r < 0 then Some (s_close S fd w)
          else
            let (r, w) = s_bind S fd UDPPORT w in
            if r < 0 then Some (s_close S fd w)
            else do { w \<leftarrow> discovery_loop S fd local_addr local_mac w; Some (s_close S fd w) }
      })"

end
