(* ===== verification/NetSpec.thy ===== *)
theory NetSpec
  imports NetServices PcbAnswer ItemSpec
begin

text \<open>
  The messages of the kernel as lists of entries with the values of their keys, what one round of the parser does, and the text of the answer to a discovery as the
  text of an object.
\<close>

declare dec_digits.simps [simp del]

subsection \<open>Events\<close>

text \<open>A message of entries, each with its terminator, and an empty entry at the end.\<close>

definition message :: "u8 list list \<Rightarrow> u8 list" where
  "message es = concat (map (\<lambda>e. e @ [0]) es)"

text \<open>The value of the last entry with a key, or the value there is without one.\<close>

fun last_value :: "string \<Rightarrow> u8 list list \<Rightarrow> u8 list option" where
  "last_value key [] = None"
| "last_value key (e # es) =
     (case last_value key es of Some v \<Rightarrow> Some v | None \<Rightarrow> if starts e key then Some (drop (length key) e) else None)"

definition event_of :: "u8 list list \<Rightarrow> uevent \<Rightarrow> uevent \<Rightarrow> bool" where
  "event_of es u u' \<longleftrightarrow>
     c_string (action u') = (case last_value ''ACTION='' es of Some v \<Rightarrow> Some v | None \<Rightarrow> c_string (action u)) \<and>
     c_string (path u') = (case last_value ''DEVPATH='' es of Some v \<Rightarrow> Some v | None \<Rightarrow> c_string (path u)) \<and>
     c_string (subsystem u') = (case last_value ''SUBSYSTEM='' es of Some v \<Rightarrow> Some v | None \<Rightarrow> c_string (subsystem u)) \<and>
     c_string (firmware u') = (case last_value ''FIRMWARE='' es of Some v \<Rightarrow> Some v | None \<Rightarrow> c_string (firmware u)) \<and>
     Some (major u') = (case last_value ''MAJOR='' es of Some v \<Rightarrow> atoi v | None \<Rightarrow> Some (major u)) \<and>
     Some (minor u') = (case last_value ''MINOR='' es of Some v \<Rightarrow> atoi v | None \<Rightarrow> Some (minor u))"

definition entry_ok :: "u8 list \<Rightarrow> bool" where
  "entry_ok e \<longleftrightarrow> e \<noteq> [] \<and> 0 \<notin> set e \<and> (starts e ''MAJOR='' \<or> starts e ''MINOR='' \<longrightarrow> atoi (drop 6 e) \<noteq> None)"

lemma skip_nul_entry: "0 \<notin> set e \<Longrightarrow> skip_nul (e @ 0 # r) = Some r"
  by (induction e) auto

lemma starts_entry:
  assumes "0 \<notin> set e" "0 \<notin> set (ascii key)"
  shows "starts (e @ 0 # r) key = starts e key"
proof (cases "length key \<le> length e")
  case False
  then obtain k where k: "length key - length e = Suc k" by (cases "length key - length e") auto
  have "0 \<in> set (take (length key) (e @ 0 # r))" using False k by simp
  moreover have "length (take (length key) e) \<noteq> length (ascii key)" using False by (simp add: ascii_def)
  ultimately show ?thesis using assms(2) by (metis starts_def)
qed (simp add: starts_def)

text \<open>A number ends at the terminator.\<close>

lemma scan_nat_nul: "0 \<notin> set s \<Longrightarrow> scan_nat (s @ 0 # r) k = scan_nat s k"
  by (induction s arbitrary: k) auto

lemma atoi_entry: "0 \<notin> set s \<Longrightarrow> atoi (s @ 0 # r) = atoi s"
proof -
  assume s: "0 \<notin> set s"
  define P where "P = (\<lambda>c :: u8. c = 32 \<or> 9 \<le> c \<and> c \<le> 13)"
  have P0: "\<not> P 0" by (simp add: P_def)
  have d: "dropWhile P (s @ 0 # r) = dropWhile P s @ 0 # r" using P0 by (induction s) auto
  have z: "0 \<notin> set (dropWhile P s)" using s set_dropWhileD by fastforce
  have "scan_d (s @ 0 # r) = scan_d s"
  proof (cases "dropWhile P s")
    case Nil
    then show ?thesis unfolding scan_d_def P_def [symmetric] Let_def d Nil by simp
  next
    case (Cons c cs)
    then have c: "0 \<notin> set cs" "scan_nat ((c # cs) @ 0 # r) 0 = scan_nat (c # cs) 0" "scan_nat (cs @ 0 # r) 0 = scan_nat cs 0"
      using z scan_nat_nul [of "c # cs" r 0] scan_nat_nul [of cs r 0] by simp_all
    show ?thesis using c unfolding scan_d_def P_def [symmetric] Let_def d Cons
      by (cases cs) (simp_all del: scan_nat.simps)
  qed
  then show ?thesis by (simp add: atoi_def)
qed

lemma starts_two: "starts e key \<Longrightarrow> 2 \<le> length key \<Longrightarrow> take 2 e = ascii (take 2 key)"
  unfolding starts_def ascii_def by (metis min.absorb1 take_map take_take)

lemma keys_distinct:
  "starts e ''ACTION='' \<Longrightarrow> \<not> starts e ''DEVPATH='' \<and> \<not> starts e ''SUBSYSTEM='' \<and> \<not> starts e ''FIRMWARE='' \<and> \<not> starts e ''MAJOR='' \<and> \<not> starts e ''MINOR=''"
  "starts e ''DEVPATH='' \<Longrightarrow> \<not> starts e ''SUBSYSTEM='' \<and> \<not> starts e ''FIRMWARE='' \<and> \<not> starts e ''MAJOR='' \<and> \<not> starts e ''MINOR=''"
  "starts e ''SUBSYSTEM='' \<Longrightarrow> \<not> starts e ''FIRMWARE='' \<and> \<not> starts e ''MAJOR='' \<and> \<not> starts e ''MINOR=''"
  "starts e ''FIRMWARE='' \<Longrightarrow> \<not> starts e ''MAJOR='' \<and> \<not> starts e ''MINOR=''"
  "starts e ''MAJOR='' \<Longrightarrow> \<not> starts e ''MINOR=''"
  by (auto dest!: starts_two simp: ascii_def)

text \<open>One entry, and the message.\<close>

lemma event_of_Cons: "event_of [e] u u1 \<Longrightarrow> event_of es u1 u' \<Longrightarrow> event_of (e # es) u u'"
  unfolding event_of_def by (auto split: option.splits)

lemma value_end: "0 \<notin> set e \<Longrightarrow> c_string (drop k e @ 0 # r) = Some (drop k e)"
  by (rule c_string_append) (meson in_set_dropD)

lemma parse_entry_ok:
  assumes "entry_ok e"
  shows "\<exists>k u1. parse_entry (e @ 0 # r) u = Some (drop k e @ 0 # r, u1) \<and> event_of [e] u u1"
proof -
  have e: "0 \<notin> set e" using assms by (simp add: entry_ok_def)
  have st: "starts (e @ 0 # r) ''ACTION='' = starts e ''ACTION=''" "starts (e @ 0 # r) ''DEVPATH='' = starts e ''DEVPATH=''"
    "starts (e @ 0 # r) ''SUBSYSTEM='' = starts e ''SUBSYSTEM=''" "starts (e @ 0 # r) ''FIRMWARE='' = starts e ''FIRMWARE=''"
    "starts (e @ 0 # r) ''MAJOR='' = starts e ''MAJOR=''" "starts (e @ 0 # r) ''MINOR='' = starts e ''MINOR=''"
    by (rule starts_entry [OF e], simp add: ascii_def)+
  have l: "starts e key \<Longrightarrow> length key \<le> length e" for key
    unfolding starts_def ascii_def by (metis length_map length_take min.cobounded1 min.cobounded2)
  have a: "atoi (drop 6 e @ 0 # r) = atoi (drop 6 e)" using e by (intro atoi_entry) (meson in_set_dropD)
  have len: "length ''ACTION='' = 7" "length ''DEVPATH='' = 8" "length ''SUBSYSTEM='' = 10" "length ''FIRMWARE='' = 9" "length ''MAJOR='' = 6" "length ''MINOR='' = 6" by simp_all
  note set_up = len parse_entry_def st event_of_def value_end [OF e] a
  consider (1) "starts e ''ACTION=''"
    | (2) "starts e ''DEVPATH=''"
    | (3) "starts e ''SUBSYSTEM=''"
    | (4) "starts e ''FIRMWARE=''"
    | (5) "starts e ''MAJOR=''"
    | (6) "starts e ''MINOR=''"
    | (7) "\<not> starts e ''ACTION='' \<and> \<not> starts e ''DEVPATH='' \<and> \<not> starts e ''SUBSYSTEM='' \<and> \<not> starts e ''FIRMWARE='' \<and> \<not> starts e ''MAJOR='' \<and> \<not> starts e ''MINOR=''" by blast
  then show ?thesis
  proof cases
    case 1
    have k: "\<not> starts e ''DEVPATH=''" "\<not> starts e ''SUBSYSTEM=''" "\<not> starts e ''FIRMWARE=''" "\<not> starts e ''MAJOR=''" "\<not> starts e ''MINOR=''"
      using keys_distinct [of e] 1 by blast+
    have "7 \<le> length e" using l [OF 1] by simp
    then have dr: "drop 7 (e @ 0 # r) = drop 7 e @ 0 # r" by simp
    show ?thesis by (intro exI [of _ 7] exI [of _ "u\<lparr>action := drop 7 e @ 0 # r\<rparr>"]) (simp add: set_up dr k 1 del: drop_append list.size(4))
  next
    case 2
    have k: "\<not> starts e ''ACTION=''" "\<not> starts e ''SUBSYSTEM=''" "\<not> starts e ''FIRMWARE=''" "\<not> starts e ''MAJOR=''" "\<not> starts e ''MINOR=''"
      using keys_distinct [of e] 2 by blast+
    have "8 \<le> length e" using l [OF 2] by simp
    then have dr: "drop 8 (e @ 0 # r) = drop 8 e @ 0 # r" by simp
    show ?thesis by (intro exI [of _ 8] exI [of _ "u\<lparr>path := drop 8 e @ 0 # r\<rparr>"]) (simp add: set_up dr k 2 del: drop_append list.size(4))
  next
    case 3
    have k: "\<not> starts e ''ACTION=''" "\<not> starts e ''DEVPATH=''" "\<not> starts e ''FIRMWARE=''" "\<not> starts e ''MAJOR=''" "\<not> starts e ''MINOR=''"
      using keys_distinct [of e] 3 by blast+
    have "10 \<le> length e" using l [OF 3] by simp
    then have dr: "drop 10 (e @ 0 # r) = drop 10 e @ 0 # r" by simp
    show ?thesis by (intro exI [of _ 10] exI [of _ "u\<lparr>subsystem := drop 10 e @ 0 # r\<rparr>"]) (simp add: set_up dr k 3 del: drop_append list.size(4))
  next
    case 4
    have k: "\<not> starts e ''ACTION=''" "\<not> starts e ''DEVPATH=''" "\<not> starts e ''SUBSYSTEM=''" "\<not> starts e ''MAJOR=''" "\<not> starts e ''MINOR=''"
      using keys_distinct [of e] 4 by blast+
    have "9 \<le> length e" using l [OF 4] by simp
    then have dr: "drop 9 (e @ 0 # r) = drop 9 e @ 0 # r" by simp
    show ?thesis by (intro exI [of _ 9] exI [of _ "u\<lparr>firmware := drop 9 e @ 0 # r\<rparr>"]) (simp add: set_up dr k 4 del: drop_append list.size(4))
  next
    case 5
    have k: "\<not> starts e ''ACTION=''" "\<not> starts e ''DEVPATH=''" "\<not> starts e ''SUBSYSTEM=''" "\<not> starts e ''FIRMWARE=''" "\<not> starts e ''MINOR=''"
      using keys_distinct [of e] 5 by blast+
    have "6 \<le> length e" using l [OF 5] by simp
    then have dr: "drop 6 (e @ 0 # r) = drop 6 e @ 0 # r" by simp
    obtain n where at: "atoi (drop 6 e) = Some n" using assms 5 by (auto simp: entry_ok_def)
    show ?thesis by (intro exI [of _ 6] exI [of _ "u\<lparr>major := n\<rparr>"]) (simp add: set_up dr k 5 at del: drop_append list.size(4))
  next
    case 6
    have k: "\<not> starts e ''ACTION=''" "\<not> starts e ''DEVPATH=''" "\<not> starts e ''SUBSYSTEM=''" "\<not> starts e ''FIRMWARE=''" "\<not> starts e ''MAJOR=''"
      using keys_distinct [of e] 6 by blast+
    have "6 \<le> length e" using l [OF 6] by simp
    then have dr: "drop 6 (e @ 0 # r) = drop 6 e @ 0 # r" by simp
    obtain n where at: "atoi (drop 6 e) = Some n" using assms 6 by (auto simp: entry_ok_def)
    show ?thesis by (intro exI [of _ 6] exI [of _ "u\<lparr>minor := n\<rparr>"]) (simp add: set_up dr k 6 at del: drop_append list.size(4))
  next
    case 7
    then show ?thesis by (intro exI [of _ 0] exI [of _ u]) (simp add: set_up)
  qed
qed

lemma parse_loop_ok: "\<forall>e\<in>set es. entry_ok e \<Longrightarrow> \<exists>u'. parse_loop (message es @ 0 # junk) u = Some u' \<and> event_of es u u'"
proof (induction es arbitrary: u)
  case Nil
  then show ?case by (simp add: message_def parse_loop.simps event_of_def)
next
  case (Cons e es)
  then obtain k u1 where u1: "parse_entry (e @ 0 # message es @ 0 # junk) u = Some (drop k e @ 0 # message es @ 0 # junk, u1)" "event_of [e] u u1"
    using parse_entry_ok [of e "message es @ 0 # junk" u] by auto
  obtain u' where u': "parse_loop (message es @ 0 # junk) u1 = Some u'" "event_of es u1 u'" using Cons by auto
  have e: "e \<noteq> []" "0 \<notin> set e" using Cons.prems by (simp_all add: entry_ok_def)
  then obtain c cs where c: "e = c # cs" "c \<noteq> 0" by (cases e) auto
  have "skip_nul (drop k e @ 0 # message es @ 0 # junk) = Some (message es @ 0 # junk)" using e by (intro skip_nul_entry) (meson in_set_dropD)
  moreover have "message (e # es) @ 0 # junk = e @ 0 # message es @ 0 # junk" by (simp add: message_def)
  ultimately have "parse_loop (message (e # es) @ 0 # junk) u = Some u'" using u1(1) u'(1) c by (subst parse_loop.simps) simp
  then show ?case using event_of_Cons [OF u1(2) u'(2)] by blast
qed

subsection \<open>Discovery\<close>

definition plain :: "u8 list \<Rightarrow> bool" where
  "plain s \<longleftrightarrow> (\<forall>c\<in>set s. c > 31 \<and> c \<noteq> 34 \<and> c \<noteq> 92)"

lemma str_text_plain: "plain s \<Longrightarrow> str_text s = quoted s"
proof -
  assume "plain s"
  then have "concat (map escape_token s) = s" by (induction s) (auto simp: plain_def escape_token_def)
  then show ?thesis by (simp add: str_text_def quoted_def)
qed

definition board_info :: "u8 list \<Rightarrow> u8 list \<Rightarrow> u8 list \<Rightarrow> (u8 list \<times> u8 list) list" where
  "board_info uid addr mac = [(ascii ''UID'', uid), (ascii ''IP'', addr), (ascii ''MAC'', mac), (ascii ''DEVICENAME'', ascii ''ECHO'')]"

lemma cmd_info_text:
  assumes "plain uid" "length uid \<le> 20" "plain addr" "length addr \<le> 15" "plain mac" "length mac \<le> 17"
  shows "cmd_info uid addr mac = jtext D False 0 (string_object D (board_info uid addr mac))"
proof -
  have names: "plain (ascii ''UID'')" "plain (ascii ''IP'')" "plain (ascii ''MAC'')" "plain (ascii ''DEVICENAME'')" "plain (ascii ''ECHO'')"
    by (simp_all add: plain_def ascii_def)
  show ?thesis using assms(2,4,6)
    by (simp add: cmd_info_def snprintf_s_def string_object_def board_info_def object_text_def str_text_plain names assms(1,3,5) FWK_MSG_CMD_LEN_def)
      (simp add: quoted_def ascii_def)
qed

lemma fmt_2X_plain: "plain (fmt_2X c)"
proof -
  have "unat c div 16 < 16" using unsigned_less [of c, where ?'a = nat] by simp
  then have "hex_upper (unat c div 16) \<in> hex_upper ` {0..<16}" "hex_upper (unat c mod 16) \<in> hex_upper ` {0..<16}" by auto
  moreover have "\<forall>d\<in>hex_upper ` {0..<16}. d > 31 \<and> d \<noteq> 34 \<and> d \<noteq> 92" by (simp add: hex_upper_def atLeastLessThan_nat_numeral)
  ultimately show ?thesis by (auto simp: plain_def fmt_2X_def)
qed

lemma mac_text_plain: "plain (mac_text cs)" "cs \<noteq> [] \<Longrightarrow> length (mac_text cs) = 3 * length cs - 1"
  by (induction cs rule: mac_text.induct) (use fmt_2X_plain in \<open>auto simp: plain_def fmt_2X_def\<close>)

text \<open>A board: the interface has an address and the storage an identification of \<open>n\<close> bytes.\<close>

lemma read_uid_ok:
  assumes "s_open S w = (sys, w1)" "0 \<le> sys" "s_read S sys VENDOR_SN_ID 512 w1 = (0, n, data, w2)" "length data \<le> 384" "n \<le> length data"
    and "length buf = 21"
  shows "parameter_read_protocol_uid S buf w = Some (int (min n 20), take (min n 20) data @ replicate (21 - min n 20) 0, s_close S sys w2)"
  using assms
  by (auto simp: parameter_read_protocol_uid_def rk_parameter_read_uid_def VENDOR_DATA_PROTOCOL_SIZE_def FWK_MSG_UID_LEN_def bytes_get_def bytes_put_def min_def)

lemma up_to_nul_padded: "c_string (s @ replicate (Suc n) 0) = Some (up_to_nul s)"
proof -
  have "\<exists>r. s @ replicate (Suc n) 0 = up_to_nul s @ 0 # r" unfolding up_to_nul_def by (induction s) auto
  then obtain r where "s @ replicate (Suc n) 0 = up_to_nul s @ 0 # r" by blast
  moreover have "0 \<notin> set (up_to_nul s)" unfolding up_to_nul_def by (auto dest: set_takeWhileD)
  ultimately show ?thesis by (metis c_string_append)
qed

end
