(* ===== verification/NetProps.thy ===== *)
theory NetProps
  imports NetSpec PcbProps
begin

text \<open>
  The properties of the two services: the parser of kernel events finds the last value of every key, and the answer to a discovery is read back by the JSON library.
\<close>

declare dec_digits.simps [simp del]

subsection \<open>Events\<close>

text \<open>
  C36. Events. For any message of entries that are not empty, each with its terminator and an empty one at the end, \<^verbatim>\<open>parse_event\<close> returns: action, path,
  subsystem and firmware are the values of the last entries with these keys and empty without one, the device numbers what \<^verbatim>\<open>atoi\<close> makes of the last entries, which must be in the range of \<^verbatim>\<open>int\<close>, or -1 without one. What
  follows the end is not read.
\<close>

theorem event_parsed:
  assumes "\<forall>e\<in>set es. entry_ok e"
  shows "\<exists>u. parse_event (message es @ 0 # junk) = Some u \<and>
    c_string (action u) = Some (case last_value ''ACTION='' es of Some v \<Rightarrow> v | None \<Rightarrow> []) \<and>
    c_string (path u) = Some (case last_value ''DEVPATH='' es of Some v \<Rightarrow> v | None \<Rightarrow> []) \<and>
    c_string (subsystem u) = Some (case last_value ''SUBSYSTEM='' es of Some v \<Rightarrow> v | None \<Rightarrow> []) \<and>
    c_string (firmware u) = Some (case last_value ''FIRMWARE='' es of Some v \<Rightarrow> v | None \<Rightarrow> []) \<and>
    Some (major u) = (case last_value ''MAJOR='' es of Some v \<Rightarrow> atoi v | None \<Rightarrow> Some (-1)) \<and>
    Some (minor u) = (case last_value ''MINOR='' es of Some v \<Rightarrow> atoi v | None \<Rightarrow> Some (-1))"
proof -
  have "c_string [0] = Some []" by (simp add: c_string_def)
  then show ?thesis
    using parse_loop_ok [OF assms, of junk no_event] by (auto simp: parse_event_def event_of_def no_event_def split: option.splits)
qed

theorem event_parsed_witness:
  "\<exists>u. parse_event (message [ascii ''add@/usb'', ascii ''SUBSYSTEM=net'', ascii ''MAJOR=189'', ascii ''SUBSYSTEM=usb''] @ 0 # [65]) = Some u \<and>
     c_string (subsystem u) = Some (ascii ''usb'') \<and> c_string (action u) = Some [] \<and> major u = 189 \<and> minor u = -1"
proof -
  let ?es = "[ascii ''add@/usb'', ascii ''SUBSYSTEM=net'', ascii ''MAJOR=189'', ascii ''SUBSYSTEM=usb'']"
  have "\<forall>e\<in>set ?es. entry_ok e" by (simp add: entry_ok_def starts_def ascii_def atoi_def scan_d_def c_int_def int_ok_def)
  from event_parsed [OF this, of "[65]"] show ?thesis
    by (elim exE) (simp add: starts_def ascii_def atoi_def scan_d_def c_int_def int_ok_def)
qed

subsection \<open>Discovery\<close>

text \<open>
  C37. Discovery. When the storage can be read and the identification in it, cut to 20 bytes and at its first zero, and the address of the board are printable
  without quotation marks and backslashes, a datagram \<^verbatim>\<open>CMD_DISCOVER\<close> is answered with the text of an object that names the identification, the addresses and the
  device: the answer fits in \<^verbatim>\<open>cmd_info\<close> whole, and \<^verbatim>\<open>cJSON_Parse\<close> reads the four members back from it.
\<close>

theorem discovery_answer:
  assumes recv: "s_recvfrom S fd 64 w = (n, ascii ''CMD_DISCOVER'' @ 0 # rest, w1)" "0 \<le> n" "length rest \<le> 51"
    and uid: "s_open S w1 = (sys, w2)" "0 \<le> sys" "s_read S sys VENDOR_SN_ID 512 w2 = (0, k, data, w3)" "length data \<le> 384" "k \<le> length data"
    and s: "plain (up_to_nul (take 20 (take k data)))" "plain addr" "length addr \<le> 15" "length hw = 6"
    and m: "fresh m" "13 \<le> length (jplan m)"
  shows "let info = string_object D (board_info (up_to_nul (take 20 (take k data))) addr (mac_text hw));
      answer = jtext D False 0 info; (r, w4) = s_sendto S fd answer (s_close S sys w3) in
    discovery_turn S fd (snprintf_s FWK_MSG_IP_MAX_LEN addr) (snprintf_s FWK_MSG_MAC_MAX_LEN (mac_text hw)) w = Some (0 \<le> r, w4) \<and>
    (\<exists>root m' is ss. cJSON_Parse D 6 (Some (answer @ [0])) m = Some (root, m') \<and> trees m' root NULL [info] (root # is) ss)"
proof -
  let ?uid = "up_to_nul (take 20 (take k data))"
  let ?info = "string_object D (board_info ?uid addr (mac_text hw))"
  have "hw \<noteq> []" using s(4) by auto
  then have l: "length ?uid \<le> 20" "plain (mac_text hw)" "length (mac_text hw) = 17" using s(4) mac_text_plain [of hw]
    by (auto simp: up_to_nul_def intro: order_trans [OF length_takeWhile_le])
  have cut: "snprintf_s FWK_MSG_IP_MAX_LEN addr = addr" "snprintf_s FWK_MSG_MAC_MAX_LEN (mac_text hw) = mac_text hw"
    using s(3) l(3) by (simp_all add: snprintf_s_def FWK_MSG_IP_MAX_LEN_def FWK_MSG_MAC_MAX_LEN_def)
  have info: "cmd_info ?uid addr (mac_text hw) = jtext D False 0 ?info" by (rule cmd_info_text [OF s(1) l(1) s(2,3) l(2)]) (simp add: l(3))
  have z: "0 \<notin> set t" if "plain t" for t using that by (auto simp: plain_def)
  have r: "readable D ?info" "pallocs ?info = 12" "tsize ?info = 5" "canon D None ?info = ?info"
    using z [OF s(1)] z [OF s(2)] z [OF l(2)] by (simp_all add: string_object_def board_info_def) (simp_all add: ascii_def)
  have p: "\<exists>root m' is ss. cJSON_Parse D 6 (Some (jtext D False 0 ?info @ [0])) m = Some (root, m') \<and> trees m' root NULL [?info] (root # is) ss"
    using Parse_ok [OF r(1) m(1), of 6 False "[]"] m(2) unfolding r(2-4) by auto
  have g: "parameter_read_protocol_uid S (replicate 21 0) w1 = Some (int (min k 20), take (min k 20) data @ replicate (21 - min k 20) 0, s_close S sys w3)"
    using read_uid_ok [OF uid] by simp
  have "take (min k 20) data = take 20 (take k data)" by (simp add: min.commute)
  moreover have "21 - min k 20 = Suc (20 - min k 20)" by simp
  ultimately have c: "c_string (take (min k 20) data @ replicate (21 - min k 20) 0) = Some ?uid" using up_to_nul_padded by metis
  have a: "arr_set (take (min k 20) data @ replicate (21 - min k 20) 0) 20 0 = Some (take (min k 20) data @ replicate (21 - min k 20) 0)"
  proof -
    have "(take (min k 20) data @ replicate (21 - min k 20) 0) ! 20 = 0" using uid(5) by (simp add: nth_append)
    then show ?thesis using uid(5) by (simp add: arr_set_def) (metis list_update_id)
  qed
  have "discovery_turn S fd addr (mac_text hw) w =
      (let (r, w4) = s_sendto S fd (jtext D False 0 ?info) (s_close S sys w3) in Some (0 \<le> r, w4))"
    using recv g c a unfolding info [symmetric]
    by (simp add: discovery_turn_def bytes_put_def FWK_MSG_UID_LEN_def ascii_def)
  then show ?thesis using p by (simp add: cut Let_def split: prod.splits)
qed


text \<open>A board that answers; its state is what was sent.\<close>

definition demo_disc :: "u8 list list disc_ops" where
  "demo_disc = \<lparr>s_socket = (\<lambda>w. (3, w)), s_ifaddr = (\<lambda>_ w. (0, ascii ''10.0.0.2'', w)), s_ifhwaddr = (\<lambda>_ w. (0, [1, 2, 3, 4, 5, 171], w)),
     s_setsockopt = (\<lambda>_ _ w. (0, w)), s_bind = (\<lambda>_ _ w. (0, w)), s_recvfrom = (\<lambda>_ _ w. (13, ascii ''CMD_DISCOVER'' @ [0], w)),
     s_sendto = (\<lambda>_ s w. (int (length s), w @ [s])), s_sleep = (\<lambda>_ w. w), s_close = (\<lambda>_ w. w), s_open = (\<lambda>w. (5, w)),
     s_read = (\<lambda>_ _ _ w. (0, 3, ascii ''E17'', w))\<rparr>"

theorem discovery_answer_witness:
  "\<exists>answer. discovery_turn demo_disc 3 (ascii ''10.0.0.2'') (mac_text [1, 2, 3, 4, 5, 171]) [] = Some (True, [answer]) \<and>
     (\<exists>root m' is ss. cJSON_Parse int_ops 6 (Some (answer @ [0])) blocks_json = Some (root, m') \<and>
       trees m' root NULL [string_object int_ops (board_info (ascii ''E17'') (ascii ''10.0.0.2'') (mac_text [1, 2, 3, 4, 5, 171]))] (root # is) ss)"
proof -
  have recv: "s_recvfrom demo_disc 3 64 [] = (13, ascii ''CMD_DISCOVER'' @ 0 # [], [])" "s_open demo_disc [] = (5, [])"
    "s_read demo_disc 5 VENDOR_SN_ID 512 [] = (0, 3, ascii ''E17'', [])" by (simp_all add: demo_disc_def)
  have u: "up_to_nul (take 20 (take 3 (ascii ''E17''))) = ascii ''E17''" by (simp add: up_to_nul_def ascii_def)
  have pl: "plain (ascii ''E17'')" "plain (ascii ''10.0.0.2'')" by (simp_all add: plain_def ascii_def)
  have plu: "plain (up_to_nul (take 20 (take 3 (ascii ''E17''))))" unfolding u by (rule pl(1))
  have cut: "snprintf_s FWK_MSG_IP_MAX_LEN (ascii ''10.0.0.2'') = ascii ''10.0.0.2''"
    "snprintf_s FWK_MSG_MAC_MAX_LEN (mac_text [1, 2, 3, 4, 5, 171]) = mac_text [1, 2, 3, 4, 5, 171]"
    by (simp_all add: snprintf_s_def FWK_MSG_IP_MAX_LEN_def FWK_MSG_MAC_MAX_LEN_def ascii_def fmt_2X_def)
  have send: "s_sendto demo_disc 3 a (s_close demo_disc 5 []) = (int (length a), [a])" for a by (simp add: demo_disc_def)
  have triv: "(0 :: int) \<le> 13" "length ([] :: u8 list) \<le> 51" "(0 :: int) \<le> 5" "length (ascii ''E17'') \<le> 384" "3 \<le> length (ascii ''E17'')"
    "length (ascii ''10.0.0.2'') \<le> 15" "length [1, 2, 3, 4, 5, 171 :: u8] = 6" "13 \<le> length (jplan blocks_json)" "(0 \<le> int n) = True" for n :: nat
    by (simp_all add: blocks_fresh ascii_def)
  show ?thesis
    using discovery_answer [OF recv(1) triv(1,2) recv(2) triv(3) recv(3) triv(4,5) plu pl(2) triv(6,7) blocks_fresh(1) triv(8), of int_ops]
    unfolding u cut Let_def send prod.case triv(9)
    by (rule exI [of _ "jtext int_ops False 0 (string_object int_ops (board_info (ascii ''E17'') (ascii ''10.0.0.2'') (mac_text [1, 2, 3, 4, 5, 171])))"])
qed

end
