(* ===== verification/Spec2Isabelle.thy ===== *)
theory Spec2Isabelle
  imports RBProps MemProps ListProps ShmProps JitterProps CJsonRound CallProps PcbProps IpcProps ItemProps DeviceProps NetProps
begin

text \<open>
  A verification library for the C and C++ code of the repository: the shared components under \<^verbatim>\<open>src/Common\<close>, the data structures
  under \<^verbatim>\<open>src/algorithms_datastructures\<close>, the shared memory of \<^verbatim>\<open>src/sharemem_sample\<close>, and the board test
  under \<^verbatim>\<open>src/pcb_test\<close>: its server, the programs it starts, two services and the JSON library.

  The parts and their theories.

  \<^item> \<open>Prelude\<close>, \<open>Bytes\<close>, \<open>Paths\<close>: addresses as 64-bit words with \<open>NULL\<close>, heaps as maps from addresses to records, where a load or store
    outside of the map is \<open>None\<close>, that is undefined behaviour; arrays of bytes; chains of cells.

  \<^item> Red-black tree (\<^verbatim>\<open>Common/Compement/src/MemManager/rbtree.c\<close>, \<^verbatim>\<open>rbtree.h\<close>). \<open>RBTree\<close> has every function on a heap of nodes whose first word
    packs parent and colour. \<open>RBRep\<close> relates heaps to trees and their contexts, \<open>RBInsert\<close> and \<open>RBErase\<close> verify the two repairs step by step,
    \<open>RBOrder\<close> the iteration, \<open>RBProps\<close> holds the properties: both operations keep a red-black tree and its order, and return.

  \<^item> Memory pool (\<^verbatim>\<open>memory_pool.c\<close>), built on the tree. \<open>MemPool\<close> has the allocation and release of lists of blocks, \<open>MemInit\<close> and \<open>MemTear\<close> setting up
    and tearing down, printing and walks; \<open>MemIndex\<close> the index of the blocks by size as the locale \<open>block_index\<close>; \<open>MemSpec\<close> the invariant of the pool
    (a free tree, a used tree, the counters) and \<open>MemProps\<close> the properties.

  \<^item> Linked lists and queue (\<^verbatim>\<open>algorithms_datastructures.c\<close>). \<open>SList\<close>, \<open>SListCircle\<close>, \<open>SListMerge\<close> with \<open>SListSpec\<close>; \<open>LinkQueue\<close> with
    the locale \<open>fifo\<close>; \<open>ListProps\<close>.

  \<^item> Shared frame ring (\<^verbatim>\<open>local_ipc_data_share_memory.c\<close>). \<open>ShmRing\<close> has the ring on the bytes of the segment with counters modulo 2^32, \<open>ShmCalls\<close> the
    calls around it with the System V functions as a parameter; \<open>ShmWrite\<close>, \<open>ShmSpec\<close>, \<open>ShmQueue\<close> (locale \<open>lossy_fifo\<close>) show that the segment
    is a queue of frames; \<open>ShmProps\<close>.

  \<^item> Jitter buffer (\<^verbatim>\<open>sharemem_mmap.c\<close>): \<open>JitterBuffer\<close>, \<open>JitterSpec\<close>, \<open>JitterProps\<close>.

  \<^item> cJSON (\<^verbatim>\<open>pcb_test/cJSON/cJSON.c\<close>). \<open>CJson\<close> has the items and their memory, \<open>CJsonText\<close> parsing and printing. \<open>CJsonString\<close> and \<open>CJsonEscape\<close> treat
    strings, \<open>CJsonList\<close> the chains of children, \<open>CJsonTree\<close> items as trees and their deletion, \<open>CJsonRender\<close> the text of a tree,
    \<open>CJsonPrint\<close> that printing writes it, \<open>CJsonParse\<close> that parsing it makes the tree. \<open>CJsonNumbers\<close> shows that whole numbers in the range of
    \<^verbatim>\<open>int\<close> are read back as they were, for every arithmetic of doubles that is exact on whole numbers up to 2^53 (\<open>exact_ints\<close>), and \<open>Binary64\<close> has such an
    arithmetic, rounded to 53 bits as binary64 is; a number with a fraction is printed with six decimals and not covered. \<open>CJsonProps\<close> and \<open>CJsonRound\<close> hold the
    properties: a tree and what is read back from its text are the same JSON value.

  \<^item> Message queue, threads and call state machine (\<^verbatim>\<open>msg_def.cpp\<close>, \<^verbatim>\<open>thread_attr.cpp\<close>, \<^verbatim>\<open>state_machine.cpp\<close>). \<open>MsgQueue\<close> has the queue with its semaphores,
    \<open>MsgThreads\<close> its threads as an inductive step relation between the statements that touch the queue; \<open>ThreadAttr\<close> the attributes of threads;
    \<open>StateMachine\<close> the table and the threads of the machine; \<open>CallSpec\<close> and \<open>CallQueue\<close> (locale \<open>mailbox\<close>) the proofs; \<open>CallProps\<close>. The actions
    are recorded as events: \<^verbatim>\<open>state_machine.h\<close> defines \<^verbatim>\<open>MIMULATED_CONDITION_SWITCH\<close>, with which they only print.

  \<^item> PCB test server (\<^verbatim>\<open>echo_pcbatest_server.c\<close>). \<open>PcbCommon\<close> has constants, tables and the string functions of the C library,
    \<open>PcbItems\<close> the test items and their results, \<open>PcbServer\<close> the protocol and the server. \<open>PcbAnswer\<close>, \<open>PcbCommand\<close> and \<open>PcbReport\<close> carry the proofs on
    top of those of cJSON; \<open>PcbProps\<close>.

  \<^item> Message agents (\<^verbatim>\<open>ipc_mq.cpp\<close>), which carry the messages of a queue to another process. \<open>IpcMq\<close> has the sending and the receiving thread, starting and
    stopping; \<open>IpcSpec\<close> the sending thread as a client of the locale \<open>mailbox\<close> and the laws of a POSIX queue; \<open>IpcProps\<close>: what is queued on one side reaches the
    callback on the other, sending again ends, stopping does not.

  \<^item> Test items (\<^verbatim>\<open>echo_key_test.c\<close>, \<^verbatim>\<open>echo_rotary_test.c\<close>, \<^verbatim>\<open>write_storage.c\<close>, \<^verbatim>\<open>rk_vendor_storage.c\<close>), the programs that the server starts. \<open>InputTests\<close> and
    \<open>WriteStorage\<close> have the programs, \<open>ItemSpec\<close> what they report, \<open>ItemProps\<close> that the server answers with it, and what the storage keeps.

  \<^item> Tests of single devices. \<open>DeviceTests\<close> has the calls of the system as a record and the tests of memory, flash and clock (\<^verbatim>\<open>echo_ddr_test.c\<close>,
    \<^verbatim>\<open>echo_emmc_test.c\<close>, \<^verbatim>\<open>echo_rtc_test.c\<close>); \<open>LedTests\<close> lights and sound (\<^verbatim>\<open>echo_led_test.c\<close>, \<^verbatim>\<open>rk_pcba_test_led.h\<close>,
    \<^verbatim>\<open>echo_audio_test.c\<close>, \<^verbatim>\<open>echo_audio_play_test.c\<close>, \<^verbatim>\<open>echo_audio_record_test.c\<close>); \<open>BtTest\<close>, \<open>CpuTest\<close>, \<open>WlanTest\<close> those named like them.
    \<open>DeviceSpec\<close> and \<open>CpuSpec\<close> carry the proofs: a driver of lights as a contract, the list of frequencies on its heap; \<open>DeviceProps\<close>.

  \<^item> Services. \<open>NetServices\<close> has \<^verbatim>\<open>echo_uevent_detect.c\<close>, which watches the kernel for the USB cable, and \<^verbatim>\<open>echo_discovery.c\<close>, which tells who asks what
    board this is; \<open>NetSpec\<close> and \<open>NetProps\<close>: the parser finds the last value of every key, the answer is read back by cJSON.

  How the code is rendered. A pointer is an address, a struct a record in a heap; a function that dereferences, copies or computes outside of what
  C defines returns \<open>None\<close>. Integers are words of their width where they may wrap, or \<open>int\<close> with the range tested where an overflow would be
  undefined. \<^verbatim>\<open>malloc\<close> takes its results from a list of planned addresses in the state, so that every failure can be
  expressed; theorems ask for distinct fresh addresses. Operating system, \<^verbatim>\<open>pthread\<close>, \<^verbatim>\<open>double\<close> arithmetic and the formatting of doubles are parameters;
  what a theorem asks of them is a hypothesis, and its witness gives an instance. Output for people is left out, but
  a line that prints an array as a string which may lack a terminator is a read of that string, and undefined without one.

  Loops that may run for ever are partial functions, and the properties state that they return. Where a bound is an argument instead, the theorems say which
  bounds are enough: for cJSON one more than the number of items of the tree, for the dispatch threads one more than the messages and spare wake-ups of the
  queue. The capacity of 1000 slots, the 200 bytes of a packet, the 100 bytes of a parameter are those of the code.

  Not modelled: the tinyalsa library and the newer cJSON of the samples, which are third-party; the rapidjson samples and the C++ variant of the
  tree (\<^verbatim>\<open>rbtree_cpp.h\<close>), an unused class from elsewhere that follows \<^verbatim>\<open>rbtree.c\<close>; sample programs of sockets,
  recording, logging and design patterns, which call libraries; generated build files; shell scripts.
\<close>

end
